(* ===== verification/Prelude.thy ===== *)
theory Prelude
  imports Main "HOL-Library.AList" "HOL-Library.Char_ord"
begin

text \<open>
  What the component theories share: the model of Go's time values and of its truncating
  integer division, small facts about maps, association lists and filtered lists, and the
  interface of a transition system (a start predicate and a step relation) with the rule that
  an inductive invariant holds in every reachable state.

  \<^item> A \<^verbatim>\<open>time.Time\<close> is an \<^typ>\<open>int\<close>: nanoseconds since the Unix epoch.  The zero
    \<open>Time\<close> of the standard library (midnight, 1 January of year 1, UTC) is \<open>zero_time\<close>.
  \<^item> A \<^verbatim>\<open>time.Duration\<close> is an \<^typ>\<open>int\<close> count of nanoseconds; \<open>time_sub\<close> is
    \<open>Time.Sub\<close>, which saturates at the bounds of a 64-bit duration.
  \<^item> \<open>tdiv\<close> is Go's \<^verbatim>\<open>/\<close> on integers, which truncates towards zero.
\<close>

section \<open>Collections of facts\<close>

named_theorems frame_simps \<open>which fields an operation leaves alone\<close>
named_theorems inv_intros \<open>operations that keep an invariant\<close>

section \<open>Time\<close>

type_synonym time = int
type_synonym duration = int

definition zero_time :: time where
  "zero_time = - 62135596800 * 10 ^ 9"

definition nanosecond :: duration where "nanosecond = 1"
definition millisecond :: duration where "millisecond = 10 ^ 6"
definition second :: duration where "second = 10 ^ 9"
definition minute :: duration where "minute = 60 * 10 ^ 9"
definition hour :: duration where "hour = 3600 * 10 ^ 9"

lemmas duration_defs = nanosecond_def millisecond_def second_def minute_def hour_def

definition max_duration :: duration where "max_duration = 2 ^ 63 - 1"
definition min_duration :: duration where "min_duration = - (2 ^ 63)"

definition time_sub :: "time \<Rightarrow> time \<Rightarrow> duration" where
  "time_sub t u = max min_duration (min max_duration (t - u))"

lemma time_sub_exact:
  "min_duration \<le> t - u \<Longrightarrow> t - u \<le> max_duration \<Longrightarrow> time_sub t u = t - u"
  by (simp add: time_sub_def)

lemma time_sub_mono: "t \<le> t' \<Longrightarrow> time_sub t u \<le> time_sub t' u"
  by (auto simp: time_sub_def)

lemma time_sub_less_iff:
  assumes "min_duration < d" "d \<le> max_duration"
  shows "time_sub t u < d \<longleftrightarrow> t - u < d"
  using assms by (auto simp: time_sub_def)

lemma time_sub_gt_iff:
  assumes "min_duration \<le> d" "d < max_duration"
  shows "d < time_sub t u \<longleftrightarrow> d < t - u"
  using assms by (auto simp: time_sub_def)

lemma time_sub_le_iff:
  assumes "min_duration \<le> d" "d < max_duration"
  shows "time_sub t u \<le> d \<longleftrightarrow> t - u \<le> d"
  using time_sub_gt_iff [OF assms] by (meson leD leI)

lemma time_sub_self [simp]: "time_sub t t = 0"
  by (simp add: time_sub_def min_duration_def max_duration_def)

section \<open>Integers\<close>

definition tdiv :: "int \<Rightarrow> int \<Rightarrow> int" where
  "tdiv a b = sgn a * sgn b * (\<bar>a\<bar> div \<bar>b\<bar>)"

lemma tdiv_nonneg [simp]: "0 \<le> a \<Longrightarrow> 0 < b \<Longrightarrow> tdiv a b = a div b"
  by (cases "a = 0") (auto simp: tdiv_def)

section \<open>Lists and maps\<close>

lemma filter_single_key:
  "distinct (map f xs) \<Longrightarrow> x \<in> set xs \<Longrightarrow> filter (\<lambda>y. f y = f x) xs = [x]"
proof (induction xs)
  case Nil
  then show ?case by simp
next
  case (Cons a xs)
  show ?case
  proof (cases "a = x")
    case True
    with Cons.prems have "\<forall>y \<in> set xs. f y \<noteq> f x" by (auto simp: image_iff)
    then have "filter (\<lambda>y. f y = f x) xs = []" by (simp add: filter_empty_conv)
    with True show ?thesis by simp
  next
    case False
    with Cons.prems have "x \<in> set xs" "f a \<noteq> f x" by (auto simp: image_iff)
    with Cons show ?thesis by simp
  qed
qed

lemma map_of_Some_in_dom: "map_of xs k = Some v \<Longrightarrow> k \<in> fst ` set xs"
  by (force dest: map_of_SomeD)

lemma set_update_subset: "set (AList.update k v xs) \<subseteq> insert (k, v) (set xs)"
  by (induction xs) auto

lemma set_delete_subset: "set (AList.delete k xs) \<subseteq> set xs"
  by (induction xs) auto

lemma dom_delete [simp]: "dom (m(k := None)) = dom m - {k}"
  by auto

section \<open>Transition systems\<close>

text \<open>
  The interface between a component's steps and the claims about its runs: a start predicate,
  a step relation, and an invariant that the start has and that every step keeps.
\<close>

locale transition_system =
  fixes start :: "'s \<Rightarrow> bool"
    and step :: "'s \<Rightarrow> 's \<Rightarrow> bool"
    and inv :: "'s \<Rightarrow> bool"
  assumes inv_start: "start s \<Longrightarrow> inv s"
    and inv_step: "step s t \<Longrightarrow> inv s \<Longrightarrow> inv t"
begin

lemma inv_steps: "step\<^sup>*\<^sup>* s t \<Longrightarrow> inv s \<Longrightarrow> inv t"
  by (induction rule: rtranclp_induct) (auto intro: inv_step)

lemma inv_reachable: "start s \<Longrightarrow> step\<^sup>*\<^sup>* s t \<Longrightarrow> inv t"
  by (blast intro: inv_steps inv_start)

end

end
