(* ===== verification/Float64.thy ===== *)
theory Float64
  imports Prelude Complex_Main "HOL-Library.Log_Nat"
begin

text \<open>
  Go's \<^verbatim>\<open>float64\<close> where the code multiplies and divides with it: a finite value is the
  rational it denotes, and an operation is the exact one followed by \<open>f64\<close>, rounding to
  the nearest 53-bit value, ties to even, gradually below \<open>2 ^ -1022\<close>.  Overflow to
  infinity is outside the model: no operand of the modelled code comes near \<open>2 ^ 1023\<close>.

  The lemmas are what the clients rest on: rounding is monotone, keeps zero, keeps signs,
  and is the identity on the integers up to \<open>2 ^ 53\<close>.
\<close>

section \<open>Rounding to an integer, ties to even\<close>

definition rne :: "rat \<Rightarrow> int" where
  "rne x = (let n = \<lfloor>x\<rfloor>; d = x - of_int n in
     if d < 1 / 2 then n else if 1 / 2 < d then n + 1 else if even n then n else n + 1)"

lemma rne_of_int [simp]: "rne (of_int n) = n"
  by (simp add: rne_def)

lemma rne_floor: "rne x = \<lfloor>x\<rfloor> \<or> rne x = \<lfloor>x\<rfloor> + 1"
  by (auto simp: rne_def Let_def)

lemma rne_mono: "x \<le> y \<Longrightarrow> rne x \<le> rne y"
proof -
  assume le: "x \<le> y"
  then have fl: "\<lfloor>x\<rfloor> \<le> \<lfloor>y\<rfloor>" by (rule floor_mono)
  show ?thesis
  proof (cases "\<lfloor>x\<rfloor> = \<lfloor>y\<rfloor>")
    case True
    with le show ?thesis by (auto simp: rne_def Let_def)
  next
    case False
    with fl have "\<lfloor>x\<rfloor> + 1 \<le> \<lfloor>y\<rfloor>" by simp
    with rne_floor [of x] rne_floor [of y] show ?thesis by linarith
  qed
qed

lemma rne_ge_int: "of_int n \<le> x \<Longrightarrow> n \<le> rne x"
  using rne_mono [of "of_int n" x] by simp

lemma rne_le_int: "x \<le> of_int n \<Longrightarrow> rne x \<le> n"
  using rne_mono [of x "of_int n"] by simp

section \<open>The binary exponent of a rational\<close>

text \<open>The exponent of \<open>x > 0\<close>: the \<open>e\<close> with \<open>2 ^ e \<le> x < 2 ^ (e + 1)\<close>, from the bit
  lengths of numerator and denominator.\<close>

definition expo :: "rat \<Rightarrow> int" where
  "expo x = (let (n, d) = quotient_of x; e = int (floorlog 2 (nat n)) - int (floorlog 2 (nat d))
     in if 2 powi e \<le> x then e else e - 1)"

lemma floorlog_bounds_rat:
  assumes "0 < n"
  shows "(2::rat) powi (int (floorlog 2 (nat n)) - 1) \<le> of_int n"
    and "of_int n < (2::rat) powi (int (floorlog 2 (nat n)))"
proof -
  let ?l = "floorlog 2 (nat n)"
  have pos: "0 < nat n" using assms by simp
  have l: "0 < ?l" using pos by (simp add: floorlog_def)
  have "2 ^ (?l - 1) \<le> nat n \<and> nat n < 2 ^ ?l"
    using floorlog_bounds [of "nat n" 2] pos by simp
  then have b: "(2::int) ^ (?l - 1) \<le> n" "n < 2 ^ ?l"
    using assms by (auto simp: nat_less_iff le_nat_iff)
  have "(2::rat) powi (int ?l - 1) = of_int (2 ^ (?l - 1))"
  proof -
    have "nat (int ?l - 1) = ?l - 1" "0 \<le> int ?l - 1" using l by simp_all
    then show ?thesis by (simp add: power_int_nonneg_exp)
  qed
  moreover have "(of_int (2 ^ (?l - 1)) :: rat) \<le> of_int n"
    using b(1) by (simp only: of_int_le_iff)
  ultimately show "(2::rat) powi (int ?l - 1) \<le> of_int n" by simp
  have "(2::rat) powi (int ?l) = of_int (2 ^ ?l)" by (simp add: power_int_of_nat)
  moreover have "(of_int n :: rat) < of_int (2 ^ ?l)"
    using b(2) by (simp only: of_int_less_iff)
  ultimately show "of_int n < (2::rat) powi (int ?l)" by simp
qed

lemma expo_bounds:
  assumes "0 < x"
  shows "2 powi (expo x) \<le> x" and "x < 2 powi (expo x + 1)"
proof -
  obtain n d where q: "quotient_of x = (n, d)" by force
  have d: "0 < d" using quotient_of_denom_pos [OF q] .
  have x: "x = of_int n / of_int d" using quotient_of_div [OF q] .
  have n: "0 < n" using assms d by (simp add: x zero_less_divide_iff)
  let ?a = "int (floorlog 2 (nat n))" and ?b = "int (floorlog 2 (nat d))"
  let ?e = "?a - ?b"
  have up: "x < 2 powi (?e + 1)"
  proof -
    have "x < 2 powi ?a / of_int d"
      using floorlog_bounds_rat(2) [OF n] d by (simp add: x divide_strict_right_mono)
    also have "\<dots> \<le> 2 powi ?a / 2 powi (?b - 1)"
      using floorlog_bounds_rat(1) [OF d] d by (intro divide_left_mono) auto
    also have "\<dots> = 2 powi (?a - (?b - 1))" by (simp add: power_int_diff)
    finally show ?thesis by (simp add: algebra_simps)
  qed
  have lo: "2 powi (?e - 1) \<le> x"
  proof -
    have "2 powi (?e - 1) = (2 powi (?a - 1) / 2 powi ?b :: rat)"
      by (simp add: power_int_diff)
    also have "\<dots> \<le> of_int n / of_int d"
      using floorlog_bounds_rat [OF n] floorlog_bounds_rat [OF d] d n
      by (intro frac_le) auto
    finally show ?thesis by (simp add: x)
  qed
  show "2 powi (expo x) \<le> x" "x < 2 powi (expo x + 1)"
    using up lo by (auto simp: expo_def q Let_def)
qed

lemma expo_mono:
  assumes "0 < x" "x \<le> y"
  shows "expo x \<le> expo y"
proof (rule ccontr)
  assume "\<not> expo x \<le> expo y"
  then have "(2::rat) powi (expo y + 1) \<le> 2 powi expo x"
    by (intro power_int_increasing) auto
  with expo_bounds [of x] expo_bounds [of y] assms show False by linarith
qed

section \<open>Rounding to a float64\<close>

definition ulp_expo :: "rat \<Rightarrow> int" where
  "ulp_expo x = max (expo x - 52) (- 1074)"

definition f64_pos :: "rat \<Rightarrow> rat" where
  "f64_pos x = of_int (rne (x / 2 powi (ulp_expo x))) * 2 powi (ulp_expo x)"

definition f64 :: "rat \<Rightarrow> rat" where
  "f64 x = (if x = 0 then 0 else if 0 < x then f64_pos x else - f64_pos (- x))"

definition f64_mul :: "rat \<Rightarrow> rat \<Rightarrow> rat" where "f64_mul a b = f64 (a * b)"
definition f64_div :: "rat \<Rightarrow> rat \<Rightarrow> rat" where "f64_div a b = f64 (a / b)"
definition f64_sub :: "rat \<Rightarrow> rat \<Rightarrow> rat" where "f64_sub a b = f64 (a - b)"

text \<open>\<^verbatim>\<open>int64(x)\<close> drops the fraction.\<close>

definition trunc :: "rat \<Rightarrow> int" where
  "trunc x = (if 0 \<le> x then \<lfloor>x\<rfloor> else \<lceil>x\<rceil>)"

lemma f64_0 [simp]: "f64 0 = 0"
  by (simp add: f64_def)

lemma f64_pos_nonneg: "0 < x \<Longrightarrow> 0 \<le> f64_pos x"
proof -
  assume "0 < x"
  then have "0 \<le> x / 2 powi (ulp_expo x)" by simp
  then have "0 \<le> rne (x / 2 powi (ulp_expo x))" by (intro rne_ge_int) simp
  then show ?thesis by (simp add: f64_pos_def)
qed

lemma f64_nonneg: "0 \<le> x \<Longrightarrow> 0 \<le> f64 x"
  using f64_pos_nonneg [of x] by (auto simp: f64_def)

lemma f64_nonpos: "x \<le> 0 \<Longrightarrow> f64 x \<le> 0"
  using f64_pos_nonneg [of "- x"] by (auto simp: f64_def)

lemma f64_pos_le_next:
  assumes "0 < x" "x < 2 powi k" "- 1074 \<le> k - 53" "ulp_expo x \<le> k - 53"
  shows "f64_pos x \<le> 2 powi k"
proof -
  let ?u = "ulp_expo x"
  have "x / 2 powi ?u \<le> of_int (2 ^ nat (k - ?u))"
  proof -
    have "of_int (2 ^ nat (k - ?u)) = (2 powi (k - ?u) :: rat)"
      using assms(4) by (simp add: power_int_def)
    also have "\<dots> = 2 powi k / 2 powi ?u" by (simp add: power_int_diff)
    finally show ?thesis using assms(2) by (simp add: divide_right_mono)
  qed
  then have "rne (x / 2 powi ?u) \<le> 2 ^ nat (k - ?u)" by (rule rne_le_int)
  then have "of_int (rne (x / 2 powi ?u)) \<le> (of_int (2 ^ nat (k - ?u)) :: rat)"
    by (simp only: of_int_le_iff)
  also have "\<dots> = 2 powi (k - ?u)" using assms(4) by (simp add: power_int_def)
  finally have "f64_pos x \<le> 2 powi (k - ?u) * 2 powi ?u"
    by (simp add: f64_pos_def mult_right_mono)
  also have "\<dots> = 2 powi k" by (simp add: power_int_diff)
  finally show ?thesis .
qed

lemma f64_pos_ge_expo:
  assumes "0 < y" "k \<le> expo y" "ulp_expo y \<le> k"
  shows "2 powi k \<le> f64_pos y"
proof -
  let ?u = "ulp_expo y"
  have "(2::rat) powi k \<le> 2 powi expo y" using assms(2) by (intro power_int_increasing) auto
  then have le: "2 powi k \<le> y" using expo_bounds(1) [OF assms(1)] by linarith
  have "of_int (2 ^ nat (k - ?u)) = (2 powi (k - ?u) :: rat)"
    using assms(3) by (simp add: power_int_def)
  also have eq: "\<dots> = 2 powi k / 2 powi ?u" by (simp add: power_int_diff)
  finally have "of_int (2 ^ nat (k - ?u)) \<le> y / 2 powi ?u"
    using le by (simp add: divide_right_mono)
  then have "2 ^ nat (k - ?u) \<le> rne (y / 2 powi ?u)" by (rule rne_ge_int)
  then have "(of_int (2 ^ nat (k - ?u)) :: rat) \<le> of_int (rne (y / 2 powi ?u))"
    by (simp only: of_int_le_iff)
  then have "(2::rat) powi (k - ?u) \<le> of_int (rne (y / 2 powi ?u))"
    using assms(3) by (simp add: power_int_def)
  then have "2 powi (k - ?u) * 2 powi ?u \<le> f64_pos y"
    by (simp add: f64_pos_def mult_right_mono)
  then show ?thesis by (simp add: power_int_diff)
qed

lemma f64_pos_mono:
  assumes "0 < x" "x \<le> y"
  shows "f64_pos x \<le> f64_pos y"
proof (cases "ulp_expo x = ulp_expo y")
  case True
  have "x / 2 powi (ulp_expo y) \<le> y / 2 powi (ulp_expo y)"
    using assms by (simp add: divide_right_mono)
  then have "rne (x / 2 powi (ulp_expo y)) \<le> rne (y / 2 powi (ulp_expo y))" by (rule rne_mono)
  then show ?thesis using True by (simp add: f64_pos_def mult_right_mono)
next
  case False
  have le: "expo x \<le> expo y" by (rule expo_mono [OF assms])
  with False have lt: "expo x < expo y" "- 1074 < expo y - 52" by (auto simp: ulp_expo_def)
  let ?k = "expo y"
  have "x < 2 powi (expo x + 1)" using expo_bounds(2) [OF assms(1)] .
  also have "\<dots> \<le> 2 powi ?k" using lt by (intro power_int_increasing) auto
  finally have xk: "x < 2 powi ?k" .
  have ux: "ulp_expo x \<le> ?k - 53" using lt by (auto simp: ulp_expo_def)
  have "f64_pos x \<le> 2 powi ?k"
    using lt by (intro f64_pos_le_next assms(1) xk ux) auto
  also have "\<dots> \<le> f64_pos y"
    using lt assms by (intro f64_pos_ge_expo) (auto simp: ulp_expo_def)
  finally show ?thesis .
qed

lemma f64_mono: "x \<le> y \<Longrightarrow> f64 x \<le> f64 y"
proof -
  assume le: "x \<le> y"
  consider "0 < x" | "y < 0" | "x \<le> 0" "0 \<le> y" by linarith
  then show ?thesis
  proof cases
    case 1
    with le show ?thesis using f64_pos_mono [of x y] by (simp add: f64_def)
  next
    case 2
    with le show ?thesis using f64_pos_mono [of "- y" "- x"] by (simp add: f64_def)
  next
    case 3
    then show ?thesis using f64_nonpos [of x] f64_nonneg [of y] by linarith
  qed
qed

lemma f64_of_nat_exact:
  assumes "0 \<le> n" "n < 2 ^ 53"
  shows "f64 (of_int n) = of_int n"
proof (cases "n = 0")
  case True
  then show ?thesis by simp
next
  case False
  with assms have pos: "0 < (of_int n :: rat)" by simp
  have ge: "0 \<le> expo (of_int n)"
  proof (rule ccontr)
    assume "\<not> ?thesis"
    then have "(2::rat) powi (expo (of_int n) + 1) \<le> 2 powi 0"
      by (intro power_int_increasing) auto
    with expo_bounds(2) [OF pos] have "of_int n < (1::rat)" by simp
    with False assms show False by (simp add: of_int_less_1_iff)
  qed
  have le: "expo (of_int n) < 53"
  proof (rule ccontr)
    assume "\<not> ?thesis"
    then have "(2::rat) powi 53 \<le> 2 powi expo (of_int n)" by (intro power_int_increasing) auto
    with expo_bounds(1) [OF pos] have "2 powi 53 \<le> (of_int n :: rat)" by linarith
    then have "of_int (2 ^ 53) \<le> (of_int n :: rat)" by simp
    with assms(2) show False by (simp only: of_int_le_iff)
  qed
  let ?u = "ulp_expo (of_int n)"
  have u: "?u \<le> 0" using le by (simp add: ulp_expo_def)
  have "(of_int n :: rat) / 2 powi ?u = of_int (n * 2 ^ nat (- ?u))"
  proof -
    have "(1::rat) / 2 powi ?u = 2 powi (- ?u)" by (simp add: power_int_minus divide_inverse)
    also have "\<dots> = 2 ^ nat (- ?u)" using u by (simp add: power_int_def)
    finally have "(of_int n :: rat) / 2 powi ?u = of_int n * 2 ^ nat (- ?u)"
      by (simp add: divide_inverse)
    then show ?thesis by simp
  qed
  then have "rne (of_int n / 2 powi ?u) = n * 2 ^ nat (- ?u)" by (simp only: rne_of_int)
  moreover have "(2::rat) ^ nat (- ?u) * 2 powi ?u = 1"
  proof -
    have "(2::rat) ^ nat (- ?u) = 2 powi (- ?u)" using u by (simp add: power_int_def)
    then show ?thesis by (simp add: power_int_minus)
  qed
  ultimately have "f64_pos (of_int n) = of_int n"
    by (simp add: f64_pos_def mult.assoc)
  then show ?thesis using pos by (simp add: f64_def)
qed

lemma trunc_of_int [simp]: "trunc (of_int n) = n"
  by (simp add: trunc_def)

lemma trunc_mono: "x \<le> y \<Longrightarrow> trunc x \<le> trunc y"
proof -
  assume le: "x \<le> y"
  consider "0 \<le> x" | "y < 0" | "x < 0" "0 \<le> y" by linarith
  then show ?thesis
  proof cases
    case 1
    with le show ?thesis by (simp add: trunc_def floor_mono)
  next
    case 2
    with le show ?thesis by (simp add: trunc_def ceiling_mono)
  next
    case 3
    then have "\<lceil>x\<rceil> \<le> 0" "0 \<le> \<lfloor>y\<rfloor>" by (simp_all add: ceiling_le_iff)
    then have "\<lceil>x\<rceil> \<le> \<lfloor>y\<rfloor>" by linarith
    with 3 show ?thesis by (simp add: trunc_def)
  qed
qed

lemma trunc_nonneg: "0 \<le> x \<Longrightarrow> 0 \<le> trunc x"
  by (simp add: trunc_def)

end
