(* ===== verification/Positions.thy ===== *)
theory Positions
  imports Float64
begin

text \<open>
  How the playback sessions of \<^verbatim>\<open>server/internal/connect\<close> read positions: the queue and
  media types of \<open>session.go\<close> and \<open>driver.go\<close>, the slot table that maps loaded media to
  queue entries (\<open>slotsFor\<close>, \<open>locate\<close>, \<open>place\<close>), the gapless timeline
  (\<open>timelineAbsoluteMS\<close>, \<open>timelineLocate\<close> of \<open>service.go\<close>), the load that uses one
  or the other (\<open>deviceLoad.at\<close>), and the extrapolation of an observed position.

  Positions and durations are milliseconds.  The code keeps them in 64-bit signed integers; the
  model uses \<^typ>\<open>int\<close>, which agrees with it for every media shorter than 292 million years.
  Go's \<^verbatim>\<open>int\<close> indices are \<^typ>\<open>int\<close> too, since a negative index is a value the code
  checks for.  A playback rate is a \<open>float64\<close> (theory \<open>Float64\<close>).

  The locale \<open>position_map\<close> states what the session manager relies on: what a device reports
  after a load is read back as the queue position that was loaded, moved on by what was played.
  It is interpreted on the slot table and on the timeline.
\<close>

section \<open>Queue and media\<close>

type_synonym ident = string

record queue_entry =
  qe_PID :: ident
  qe_Title :: string
  qe_Artist :: string
  qe_DurationMS :: int

record media_item =
  mi_PID :: ident
  mi_URL :: string
  mi_MimeType :: string
  mi_Title :: string
  mi_Artist :: string
  mi_ArtURL :: string
  mi_DurationMS :: int
  mi_Entry :: int
  mi_PartStartMS :: int

record timeline_boundary =
  tb_PID :: ident
  tb_OffsetSamples :: int
  tb_DurationSamples :: int

record timeline_media =
  tm_Item :: media_item
  tm_EnvelopeRate :: int
  tm_DurationMS :: int
  tm_Boundaries :: "timeline_boundary list"

record media_slot =
  sl_Entry :: int
  sl_StartMS :: int

definition entryPIDs :: "queue_entry list \<Rightarrow> ident list" where
  "entryPIDs entries = map qe_PID entries"

definition in_range :: "int \<Rightarrow> 'a list \<Rightarrow> bool" where
  "in_range i xs \<longleftrightarrow> 0 \<le> i \<and> i < int (length xs)"

lemma in_range_nat: "in_range i xs \<Longrightarrow> nat i < length xs"
  by (simp add: in_range_def nat_less_iff)

lemma in_range_map [simp]: "in_range i (map f xs) = in_range i xs"
  by (simp add: in_range_def)

section \<open>The slot table\<close>

definition slotsFor :: "media_item list \<Rightarrow> media_slot list" where
  "slotsFor items = map (\<lambda>it. \<lparr>sl_Entry = mi_Entry it, sl_StartMS = mi_PartStartMS it\<rparr>) items"

definition locate :: "media_slot list \<Rightarrow> int \<Rightarrow> int \<Rightarrow> int \<times> int" where
  "locate slots mediaIdx posMS =
     (if mediaIdx < 0 \<or> mediaIdx \<ge> int (length slots) then (mediaIdx, posMS)
      else let sl = slots ! nat mediaIdx in (sl_Entry sl, sl_StartMS sl + posMS))"

text \<open>The loop of \<open>place\<close>: \<open>i\<close> is the slot looked at, \<open>found\<close> the best one so far.\<close>

fun place_loop :: "media_slot list \<Rightarrow> int \<Rightarrow> int \<Rightarrow> int \<Rightarrow> int \<Rightarrow> int" where
  "place_loop [] i found entry entryMS = found"
| "place_loop (sl # sls) i found entry entryMS =
     place_loop sls (i + 1)
       (if sl_Entry sl \<noteq> entry then found
        else if found < 0 \<or> sl_StartMS sl \<le> entryMS then i else found)
       entry entryMS"

definition place :: "media_slot list \<Rightarrow> int \<Rightarrow> int \<Rightarrow> int \<times> int" where
  "place slots entry entryMS =
     (let found = place_loop slots 0 (- 1) entry entryMS in
      if found < 0 then (entry, entryMS)
      else (found, max (entryMS - sl_StartMS (slots ! nat found)) 0))"

text \<open>What the loop has found: no slot of the entry; or the last one that begins at or before the
  position; or, where all begin after it, the first one of the entry.\<close>

definition place_ok :: "media_slot list \<Rightarrow> int \<Rightarrow> int \<Rightarrow> int \<Rightarrow> bool" where
  "place_ok slots entry ms found \<longleftrightarrow>
     (found = - 1 \<and> (\<forall>j < length slots. sl_Entry (slots ! j) \<noteq> entry)) \<or>
     (\<exists>k < length slots. found = int k \<and> sl_Entry (slots ! k) = entry \<and>
        sl_StartMS (slots ! k) \<le> ms \<and>
        (\<forall>j < length slots. k < j \<longrightarrow> sl_Entry (slots ! j) = entry \<longrightarrow> ms < sl_StartMS (slots ! j))) \<or>
     (\<exists>k < length slots. found = int k \<and> sl_Entry (slots ! k) = entry \<and>
        (\<forall>j < length slots. sl_Entry (slots ! j) = entry \<longrightarrow> k \<le> j \<and> ms < sl_StartMS (slots ! j)))"

lemma place_loop_append:
  "place_loop (xs @ ys) i found entry ms =
     place_loop ys (i + int (length xs)) (place_loop xs i found entry ms) entry ms"
  by (induction xs arbitrary: i found) (simp_all add: algebra_simps)

lemma place_ok_snoc:
  assumes "place_ok xs entry ms found"
  shows "place_ok (xs @ [sl]) entry ms
    (if sl_Entry sl \<noteq> entry then found
     else if found < 0 \<or> sl_StartMS sl \<le> ms then int (length xs) else found)"
  using assms
proof (unfold place_ok_def [of xs], elim disjE exE conjE)
  assume "found = - 1" "\<forall>j < length xs. sl_Entry (xs ! j) \<noteq> entry"
  then show ?thesis
    by (auto simp: place_ok_def nth_append less_Suc_eq_le)
next
  fix k assume "k < length xs" "found = int k" "sl_Entry (xs ! k) = entry" "sl_StartMS (xs ! k) \<le> ms"
    "\<forall>j < length xs. k < j \<longrightarrow> sl_Entry (xs ! j) = entry \<longrightarrow> ms < sl_StartMS (xs ! j)"
  then show ?thesis
    by (auto simp: place_ok_def nth_append less_Suc_eq)
next
  fix k assume "k < length xs" "found = int k" "sl_Entry (xs ! k) = entry"
    "\<forall>j < length xs. sl_Entry (xs ! j) = entry \<longrightarrow> k \<le> j \<and> ms < sl_StartMS (xs ! j)"
  then show ?thesis
    by (auto simp: place_ok_def nth_append less_Suc_eq)
qed

lemma place_loop_ok: "place_ok slots entry ms (place_loop slots 0 (- 1) entry ms)"
proof (induction slots rule: rev_induct)
  case Nil
  then show ?case by (simp add: place_ok_def)
next
  case (snoc sl xs)
  then show ?case by (simp add: place_loop_append place_ok_snoc)
qed

section \<open>The timeline\<close>

definition offset_ms :: "timeline_media \<Rightarrow> timeline_boundary \<Rightarrow> int" where
  "offset_ms tm b = tdiv (tb_OffsetSamples b * 1000) (tm_EnvelopeRate tm)"

definition timelineAbsoluteMS :: "timeline_media \<Rightarrow> int \<Rightarrow> int \<Rightarrow> int" where
  "timelineAbsoluteMS tm index positionMS =
     (if index < 0 \<or> index \<ge> int (length (tm_Boundaries tm)) \<or> tm_EnvelopeRate tm \<le> 0
      then positionMS
      else offset_ms tm (tm_Boundaries tm ! nat index) + positionMS)"

fun timeline_loop :: "timeline_media \<Rightarrow> int \<Rightarrow> timeline_boundary list \<Rightarrow> nat \<Rightarrow> nat \<Rightarrow> nat" where
  "timeline_loop tm absMS [] i idx = idx"
| "timeline_loop tm absMS (b # bs) i idx =
     (if absMS \<ge> offset_ms tm b then timeline_loop tm absMS bs (i + 1) i else idx)"

definition timelineLocate :: "timeline_media \<Rightarrow> int \<Rightarrow> int \<times> int" where
  "timelineLocate tm absMS =
     (if tm_EnvelopeRate tm \<le> 0 \<or> tm_Boundaries tm = [] then (0, absMS)
      else let idx = timeline_loop tm absMS (tm_Boundaries tm) 0 0 in
        (int idx, absMS - offset_ms tm (tm_Boundaries tm ! idx)))"

lemma timeline_loop_spec:
  assumes "k < length bs" "\<forall>j \<le> k. offset_ms tm (bs ! j) \<le> absMS"
    and "k + 1 < length bs \<longrightarrow> absMS < offset_ms tm (bs ! (k + 1))"
  shows "timeline_loop tm absMS bs i idx = i + k"
  using assms
proof (induction bs arbitrary: i idx k)
  case Nil
  then show ?case by simp
next
  case (Cons b bs)
  have b: "offset_ms tm b \<le> absMS" using Cons.prems(2) by force
  show ?case
  proof (cases k)
    case 0
    with Cons.prems(3) have "bs = [] \<or> absMS < offset_ms tm (hd bs)"
      by (cases bs) auto
    with 0 b show ?thesis by (cases bs) auto
  next
    case (Suc k')
    have "timeline_loop tm absMS bs (i + 1) i = (i + 1) + k'"
      using Cons.prems Suc by (intro Cons.IH) auto
    with Suc b show ?thesis by simp
  qed
qed

lemma timeline_loop_less:
  "idx < n \<Longrightarrow> i + length bs \<le> n \<Longrightarrow> timeline_loop tm absMS bs i idx < n"
  by (induction bs arbitrary: i idx) auto

lemma timelineLocate_in_range:
  assumes "0 < tm_EnvelopeRate tm" "tm_Boundaries tm \<noteq> []"
  shows "in_range (fst (timelineLocate tm absMS)) (tm_Boundaries tm)"
proof -
  have "timeline_loop tm absMS (tm_Boundaries tm) 0 0 < length (tm_Boundaries tm)"
    using assms(2) by (intro timeline_loop_less) auto
  with assms show ?thesis
    by (simp add: timelineLocate_def Let_def in_range_def)
qed

section \<open>Position maps\<close>

text \<open>
  A load hands the device an item and a position in it (\<open>to_dev\<close>), and the device's reports
  are read back (\<open>from_dev\<close>).  \<open>holds m e ms\<close> says that the loaded media \<open>m\<close> hold the
  position \<open>ms\<close> of the queue entry \<open>e\<close>.
\<close>

locale position_map =
  fixes to_dev :: "'m \<Rightarrow> int \<Rightarrow> int \<Rightarrow> int \<times> int"
    and from_dev :: "'m \<Rightarrow> int \<Rightarrow> int \<Rightarrow> int \<times> int"
    and holds :: "'m \<Rightarrow> int \<Rightarrow> int \<Rightarrow> bool"
  assumes report: "holds m e ms \<Longrightarrow> holds m e (ms + d) \<Longrightarrow> 0 \<le> d \<Longrightarrow>
    to_dev m e ms = (i, p) \<Longrightarrow> from_dev m i (p + d) = (e, ms + d)"
begin

lemma roundtrip:
  assumes "holds m e ms"
  shows "case_prod (from_dev m) (to_dev m e ms) = (e, ms)"
  using report [of m e ms 0] assms by (cases "to_dev m e ms") simp

lemma to_dev_inj:
  assumes "holds m e ms" "holds m e' ms'" "to_dev m e ms = to_dev m e' ms'"
  shows "e = e' \<and> ms = ms'"
  using roundtrip [OF assms(1)] roundtrip [OF assms(2)] assms(3)
  by (metis prod.inject)

end

definition slots_hold :: "media_slot list \<Rightarrow> int \<Rightarrow> int \<Rightarrow> bool" where
  "slots_hold slots e ms \<longleftrightarrow> (\<exists>sl \<in> set slots. sl_Entry sl = e \<and> sl_StartMS sl \<le> ms)"

lemma place_holds:
  assumes "slots_hold slots e ms" "place slots e ms = (i, p)"
  shows "in_range i slots" "sl_Entry (slots ! nat i) = e" "0 \<le> p"
    "p = ms - sl_StartMS (slots ! nat i)"
proof -
  let ?f = "place_loop slots 0 (- 1) e ms"
  obtain j where j: "j < length slots" "sl_Entry (slots ! j) = e" "sl_StartMS (slots ! j) \<le> ms"
    using assms(1) by (auto simp: slots_hold_def in_set_conv_nth)
  then obtain k where k: "k < length slots" "?f = int k" "sl_Entry (slots ! k) = e"
      "sl_StartMS (slots ! k) \<le> ms"
    using place_loop_ok [of slots e ms] unfolding place_ok_def
    by (metis linorder_not_less)
  with assms(2) have "i = int k" "p = max (ms - sl_StartMS (slots ! k)) 0"
    by (auto simp: place_def Let_def)
  with k show "in_range i slots" "sl_Entry (slots ! nat i) = e" "0 \<le> p"
    "p = ms - sl_StartMS (slots ! nat i)" by (simp_all add: in_range_def)
qed

interpretation slot_map: position_map place locate slots_hold
proof
  fix m e ms d i p
  assume "slots_hold m e ms" "place m e ms = (i, p)"
  from place_holds [OF this] show "locate m i (p + d) = (e, ms + d)"
    by (simp add: locate_def in_range_def Let_def)
qed

text \<open>A timeline whose offsets grow holds a position that lies before the next entry's offset.\<close>

definition timeline_to_dev :: "timeline_media \<Rightarrow> int \<Rightarrow> int \<Rightarrow> int \<times> int" where
  "timeline_to_dev tm e ms = (0, timelineAbsoluteMS tm e ms)"

definition timeline_from_dev :: "timeline_media \<Rightarrow> int \<Rightarrow> int \<Rightarrow> int \<times> int" where
  "timeline_from_dev tm i ms = timelineLocate tm ms"

definition timeline_holds :: "timeline_media \<Rightarrow> int \<Rightarrow> int \<Rightarrow> bool" where
  "timeline_holds tm e ms \<longleftrightarrow>
     0 < tm_EnvelopeRate tm \<and> in_range e (tm_Boundaries tm) \<and> 0 \<le> ms \<and>
     sorted (map (offset_ms tm) (tm_Boundaries tm)) \<and>
     (nat e + 1 < length (tm_Boundaries tm) \<longrightarrow>
        offset_ms tm (tm_Boundaries tm ! nat e) + ms < offset_ms tm (tm_Boundaries tm ! (nat e + 1)))"

lemma timeline_locate_holds:
  assumes "timeline_holds tm e ms"
  shows "timelineLocate tm (timelineAbsoluteMS tm e ms) = (e, ms)"
proof -
  let ?bs = "tm_Boundaries tm" and ?off = "\<lambda>j. offset_ms tm (tm_Boundaries tm ! j)"
  have e: "in_range e ?bs" and rate: "0 < tm_EnvelopeRate tm" and ms: "0 \<le> ms"
    and s: "sorted (map (offset_ms tm) ?bs)"
    and next_gt: "nat e + 1 < length ?bs \<longrightarrow> ?off (nat e) + ms < ?off (nat e + 1)"
    using assms by (auto simp: timeline_holds_def)
  have lt: "nat e < length ?bs" using e by (rule in_range_nat)
  have abs: "timelineAbsoluteMS tm e ms = ?off (nat e) + ms"
    using e rate by (simp add: timelineAbsoluteMS_def in_range_def)
  have "\<forall>j \<le> nat e. ?off j \<le> ?off (nat e) + ms"
  proof (intro allI impI)
    fix j assume "j \<le> nat e"
    then have "?off j \<le> ?off (nat e)"
      using s lt by (auto simp: sorted_iff_nth_mono)
    with ms show "?off j \<le> ?off (nat e) + ms" by simp
  qed
  then have "timeline_loop tm (?off (nat e) + ms) ?bs 0 0 = 0 + nat e"
    using lt next_gt by (intro timeline_loop_spec) auto
  with e rate lt abs show ?thesis
    by (auto simp: timelineLocate_def Let_def in_range_def)
qed

interpretation timeline_map: position_map timeline_to_dev timeline_from_dev timeline_holds
proof
  fix m e ms d i p
  assume h: "timeline_holds m e ms" "timeline_holds m e (ms + d)" "timeline_to_dev m e ms = (i, p)"
  then have "p + d = timelineAbsoluteMS m e (ms + d)"
    by (auto simp: timeline_to_dev_def timelineAbsoluteMS_def)
  with timeline_locate_holds [OF h(2)] show "timeline_from_dev m i (p + d) = (e, ms + d)"
    by (simp add: timeline_from_dev_def)
qed

section \<open>A rendering of the queue for one device\<close>

record device_load =
  dl_items :: "media_item list"
  dl_slots :: "media_slot list"
  dl_tm :: "timeline_media option"

text \<open>\<open>deviceLoad.at\<close>: what to load, which item of it, and how far into that item.\<close>

definition load_at :: "device_load \<Rightarrow> int \<Rightarrow> int \<Rightarrow> media_item list \<times> int \<times> int" where
  "load_at d index positionMS =
     (case dl_tm d of
        Some tm \<Rightarrow> ([tm_Item tm], 0, timelineAbsoluteMS tm index positionMS)
      | None \<Rightarrow> (let (mediaIdx, inMediaMS) = place (dl_slots d) index positionMS
                 in (dl_items d, mediaIdx, inMediaMS)))"

section \<open>Observed positions\<close>

record queue_state =
  q_Entries :: "queue_entry list"
  q_Index :: int
  q_PositionMS :: int
  q_PositionAt :: time
  q_Playing :: bool
  q_Rate :: rat
  q_Volume :: "rat option"
  q_Repeat :: string
  q_Shuffle :: bool
  q_QueueVersion :: int

definition currentDurationMS :: "queue_state \<Rightarrow> int" where
  "currentDurationMS q =
     (if q_Index q \<ge> 0 \<and> q_Index q < int (length (q_Entries q))
      then qe_DurationMS (q_Entries q ! nat (q_Index q)) else 0)"

text \<open>\<open>Duration.Milliseconds\<close> divides by a million, towards zero.\<close>

definition milliseconds :: "duration \<Rightarrow> int" where
  "milliseconds d = tdiv d 1000000"

definition extrapolate :: "queue_state \<Rightarrow> time \<Rightarrow> int" where
  "extrapolate q now =
     (if \<not> q_Playing q \<or> q_PositionAt q = zero_time then q_PositionMS q
      else let elapsed = time_sub now (q_PositionAt q) in
        if elapsed \<le> 0 then q_PositionMS q
        else let rate = (if q_Rate q \<le> 0 then 1 else q_Rate q);
                 pos = q_PositionMS q + trunc (f64_mul (f64 (of_int (milliseconds elapsed))) rate);
                 cur = currentDurationMS q
             in if cur > 0 \<and> pos > cur then cur else pos)"

definition run_ms :: "queue_state \<Rightarrow> duration \<Rightarrow> int" where
  "run_ms q elapsed =
     trunc (f64_mul (f64 (of_int (milliseconds elapsed))) (if q_Rate q \<le> 0 then 1 else q_Rate q))"

lemma run_ms_nonneg: "0 \<le> elapsed \<Longrightarrow> 0 \<le> run_ms q elapsed"
  unfolding run_ms_def f64_mul_def milliseconds_def
  by (intro trunc_nonneg f64_nonneg mult_nonneg_nonneg) (auto intro: f64_nonneg)

lemma run_ms_mono:
  assumes "0 \<le> a" "a \<le> b"
  shows "run_ms q a \<le> run_ms q b"
proof -
  have "milliseconds a \<le> milliseconds b"
    using assms by (simp add: milliseconds_def zdiv_mono1)
  then show ?thesis
    unfolding run_ms_def f64_mul_def
    by (intro trunc_mono f64_mono mult_right_mono) auto
qed

lemma extrapolate_eq:
  "extrapolate q now =
     (if q_Playing q \<and> q_PositionAt q \<noteq> zero_time \<and> 0 < time_sub now (q_PositionAt q)
      then let pos = q_PositionMS q + run_ms q (time_sub now (q_PositionAt q)) in
        if 0 < currentDurationMS q \<and> currentDurationMS q < pos then currentDurationMS q else pos
      else q_PositionMS q)"
  by (auto simp: extrapolate_def run_ms_def Let_def)

end
