(* ===== verification/Registry.thy ===== *)
theory Registry
  imports Positions Go_Strings "HOL-Library.Char_ord" "HOL-Library.List_Lexorder" "HOL-Library.Product_Lexorder"
begin

text \<open>
  The endpoint registry of \<^verbatim>\<open>server/internal/connect/registry.go\<close>: who can play.  Client
  endpoints live as long as their connection, device endpoints persist through the endpoint
  table.  The two Go maps are association lists with distinct keys, in the order the runtime
  happens to iterate them.

  A \<open>*ClientLink\<close> is a \<open>client_link\<close> whose field \<open>lk_ptr\<close> is the pointer, so two
  links are the same connection when they are equal; its mutable \<open>registered\<close> flag is kept by
  the service's state.  A \<open>DialFunc\<close> is named by a number.  The row \<open>UpsertPlayerEndpoint\<close>
  answers with (SQL) is an argument of \<open>UpsertDevice\<close>.

  Strings are their bytes.  \<open>to_lower\<close> is \<open>strings.ToLower\<close> on ASCII letters, and
  \<open>strings.EqualFold\<close> is equality of the lowered names; names whose letters are not ASCII are
  ordered by their bytes in the model.
\<close>

section \<open>Endpoints\<close>

record endpoint =
  ep_ID :: ident
  ep_Kind :: string
  ep_Name :: string
  ep_OwnerUserID :: ident
  ep_Shared :: bool
  ep_Online :: bool
  ep_VolumeControl :: bool
  ep_RateControl :: bool

definition KindClient :: string where "KindClient = ''client''"
definition KindCast :: string where "KindCast = ''cast''"
definition KindDLNA :: string where "KindDLNA = ''dlna''"
definition KindJukebox :: string where "KindJukebox = ''jukebox''"

record client_link =
  lk_ptr :: nat
  lk_UserID :: ident
  lk_UserName :: string
  lk_SessionID :: ident
  lk_DeviceName :: string

record client_endpoint =
  ce_meta :: endpoint
  ce_link :: client_link

record device_endpoint =
  de_meta :: endpoint
  de_deviceKey :: string
  de_dial :: "nat option"
  de_lastSeen :: time

record registry =
  reg_clients :: "(ident \<times> client_endpoint) list"
  reg_devices :: "(ident \<times> device_endpoint) list"

record endpoint_row =
  er_ID :: ident
  er_Kind :: string
  er_DeviceKey :: string
  er_Name :: string
  er_Shared :: bool

definition empty_registry :: registry where
  "empty_registry = \<lparr>reg_clients = [], reg_devices = []\<rparr>"

section \<open>Operations\<close>

definition restore_row :: "endpoint_row \<Rightarrow> registry \<Rightarrow> registry" where
  "restore_row row r =
     (if er_ID row \<in> fst ` set (reg_devices r) then r
      else r\<lparr>reg_devices := AList.update (er_ID row)
        \<lparr>de_meta = \<lparr>ep_ID = er_ID row, ep_Kind = er_Kind row, ep_Name = er_Name row,
                     ep_OwnerUserID = '''', ep_Shared = er_Shared row, ep_Online = False,
                     ep_VolumeControl = True, ep_RateControl = False\<rparr>,
         de_deviceKey = er_DeviceKey row, de_dial = None, de_lastSeen = zero_time\<rparr>
        (reg_devices r)\<rparr>)"

fun RestorePersisted :: "endpoint_row list \<Rightarrow> registry \<Rightarrow> registry" where
  "RestorePersisted [] r = r"
| "RestorePersisted (row # rows) r = RestorePersisted rows (restore_row row r)"

definition clientEndpointID :: "ident \<Rightarrow> ident" where
  "clientEndpointID sessionID =
     (case cut_prefix sessionID ''se-'' of
        Some rest \<Rightarrow> ''pe-'' @ rest
      | None \<Rightarrow> ''pe-'' @ sessionID)"

definition RegisterClient :: "client_link \<Rightarrow> string \<Rightarrow> bool \<Rightarrow> bool \<Rightarrow> registry \<Rightarrow> endpoint \<times> registry" where
  "RegisterClient link name volumeControl rateControl r =
     (let eid = clientEndpointID (lk_SessionID link);
          name1 = (if name = '''' then lk_DeviceName link else name);
          name2 = (if name1 = '''' then ''Client'' else name1);
          meta = \<lparr>ep_ID = eid, ep_Kind = KindClient, ep_Name = name2,
                  ep_OwnerUserID = lk_UserID link, ep_Shared = False, ep_Online = True,
                  ep_VolumeControl = volumeControl, ep_RateControl = rateControl\<rparr>
      in (meta, r\<lparr>reg_clients := AList.update eid \<lparr>ce_meta = meta, ce_link = link\<rparr> (reg_clients r)\<rparr>))"

definition UnregisterClient :: "client_link \<Rightarrow> registry \<Rightarrow> registry" where
  "UnregisterClient link r =
     (let eid = clientEndpointID (lk_SessionID link) in
      case map_of (reg_clients r) eid of
        Some c \<Rightarrow> if ce_link c = link then r\<lparr>reg_clients := AList.delete eid (reg_clients r)\<rparr> else r
      | None \<Rightarrow> r)"

text \<open>\<open>UpsertDevice\<close> after its database write: \<open>rowID\<close> is the id the stored row answered with.\<close>

definition UpsertDevice ::
  "ident \<Rightarrow> string \<Rightarrow> string \<Rightarrow> string \<Rightarrow> bool \<Rightarrow> bool \<Rightarrow> nat option \<Rightarrow> time \<Rightarrow> registry \<Rightarrow> endpoint \<times> registry" where
  "UpsertDevice rowID kind deviceKey name volumeControl rateControl dial now r =
     (let meta = \<lparr>ep_ID = rowID, ep_Kind = kind, ep_Name = name, ep_OwnerUserID = '''',
                  ep_Shared = True, ep_Online = True,
                  ep_VolumeControl = volumeControl, ep_RateControl = rateControl\<rparr>
      in (meta, r\<lparr>reg_devices := AList.update rowID
           \<lparr>de_meta = meta, de_deviceKey = deviceKey, de_dial = dial, de_lastSeen = now\<rparr>
           (reg_devices r)\<rparr>))"

definition MarkDeviceOffline :: "ident \<Rightarrow> registry \<Rightarrow> registry" where
  "MarkDeviceOffline endpointID r =
     (case map_of (reg_devices r) endpointID of
        Some d \<Rightarrow> r\<lparr>reg_devices := AList.update endpointID
                      (d\<lparr>de_meta := (de_meta d)\<lparr>ep_Online := False\<rparr>\<rparr>) (reg_devices r)\<rparr>
      | None \<Rightarrow> r)"

definition endpoint_key :: "endpoint \<Rightarrow> bool \<times> string \<times> ident" where
  "endpoint_key e = (ep_Kind e = KindClient, to_lower (ep_Name e), ep_ID e)"

definition Visible :: "registry \<Rightarrow> ident \<Rightarrow> endpoint list" where
  "Visible r userID =
     sort_key endpoint_key
       (map (de_meta \<circ> snd) (reg_devices r) @
        filter (\<lambda>e. ep_OwnerUserID e = userID) (map (ce_meta \<circ> snd) (reg_clients r)))"

definition Lookup :: "registry \<Rightarrow> ident \<Rightarrow> ident \<Rightarrow> endpoint option" where
  "Lookup r userID endpointID =
     (case map_of (reg_devices r) endpointID of
        Some d \<Rightarrow> Some (de_meta d)
      | None \<Rightarrow>
          (case map_of (reg_clients r) endpointID of
             Some c \<Rightarrow> if ep_OwnerUserID (ce_meta c) = userID then Some (ce_meta c) else None
           | None \<Rightarrow> None))"

definition reg_link :: "registry \<Rightarrow> ident \<Rightarrow> client_link option" where
  "reg_link r endpointID = map_option ce_link (map_of (reg_clients r) endpointID)"

definition dialer :: "registry \<Rightarrow> ident \<Rightarrow> nat option" where
  "dialer r endpointID =
     (case map_of (reg_devices r) endpointID of
        None \<Rightarrow> None
      | Some d \<Rightarrow> if \<not> ep_Online (de_meta d) then None else de_dial d)"

section \<open>Well-formed registries\<close>

text \<open>
  Keys are the ids of what they hold, each once, and no id names both a client and a device:
  both kinds of id are made of fresh identifiers.  A client endpoint belongs to the connection's
  user and is never shared.
\<close>

definition client_ok :: "ident \<Rightarrow> client_endpoint \<Rightarrow> bool" where
  "client_ok k c \<longleftrightarrow> ep_ID (ce_meta c) = k \<and> k = clientEndpointID (lk_SessionID (ce_link c)) \<and>
     ep_Kind (ce_meta c) = KindClient \<and> \<not> ep_Shared (ce_meta c) \<and>
     ep_OwnerUserID (ce_meta c) = lk_UserID (ce_link c)"

definition registry_ok :: "registry \<Rightarrow> bool" where
  "registry_ok r \<longleftrightarrow>
     distinct (map fst (reg_clients r)) \<and> distinct (map fst (reg_devices r)) \<and>
     fst ` set (reg_clients r) \<inter> fst ` set (reg_devices r) = {} \<and>
     (\<forall>(k, c) \<in> set (reg_clients r). client_ok k c) \<and>
     (\<forall>(k, d) \<in> set (reg_devices r). ep_ID (de_meta d) = k)"

lemma registry_ok_empty: "registry_ok empty_registry"
  by (simp add: registry_ok_def empty_registry_def)

lemma registry_ok_clients:
  assumes "registry_ok r" "distinct (map fst cs)"
    and "\<And>k c. (k, c) \<in> set cs \<Longrightarrow> client_ok k c \<and> k \<notin> fst ` set (reg_devices r)"
  shows "registry_ok (r\<lparr>reg_clients := cs\<rparr>)"
proof -
  have "k \<notin> fst ` set (reg_devices r)" if "k \<in> fst ` set cs" for k
    using that assms(3) by (metis imageE prod.collapse)
  then have "fst ` set cs \<inter> fst ` set (reg_devices r) = {}" by blast
  moreover have "\<forall>(k, c) \<in> set cs. client_ok k c" using assms(3) by blast
  ultimately show ?thesis using assms(1,2) by (simp add: registry_ok_def)
qed

lemma registry_ok_devices:
  assumes "registry_ok r" "distinct (map fst ds)"
    and "\<And>k d. (k, d) \<in> set ds \<Longrightarrow> ep_ID (de_meta d) = k \<and> k \<notin> fst ` set (reg_clients r)"
  shows "registry_ok (r\<lparr>reg_devices := ds\<rparr>)"
proof -
  have "k \<notin> fst ` set (reg_clients r)" if "k \<in> fst ` set ds" for k
    using that assms(3) by (metis imageE prod.collapse)
  then have "fst ` set (reg_clients r) \<inter> fst ` set ds = {}" by blast
  moreover have "\<forall>(k, d) \<in> set ds. ep_ID (de_meta d) = k" using assms(3) by blast
  ultimately show ?thesis using assms(1,2) by (simp add: registry_ok_def)
qed

lemma registry_ok_clientD:
  assumes "registry_ok r" "(k, c) \<in> set (reg_clients r)"
  shows "client_ok k c" "k \<notin> fst ` set (reg_devices r)"
proof -
  show "client_ok k c" using assms by (auto simp: registry_ok_def)
  have "k \<in> fst ` set (reg_clients r)" using assms(2) by force
  with assms(1) show "k \<notin> fst ` set (reg_devices r)" unfolding registry_ok_def by blast
qed

lemma registry_ok_deviceD:
  assumes "registry_ok r" "(k, d) \<in> set (reg_devices r)"
  shows "ep_ID (de_meta d) = k" "k \<notin> fst ` set (reg_clients r)"
proof -
  show "ep_ID (de_meta d) = k" using assms by (auto simp: registry_ok_def)
  have "k \<in> fst ` set (reg_devices r)" using assms(2) by force
  with assms(1) show "k \<notin> fst ` set (reg_clients r)" unfolding registry_ok_def by blast
qed

lemma registry_ok_distinct:
  "registry_ok r \<Longrightarrow> distinct (map fst (reg_clients r))"
  "registry_ok r \<Longrightarrow> distinct (map fst (reg_devices r))"
  by (simp_all add: registry_ok_def)

lemma registry_ok_update_client:
  assumes "registry_ok r" "client_ok k c" "k \<notin> fst ` set (reg_devices r)"
  shows "registry_ok (r\<lparr>reg_clients := AList.update k c (reg_clients r)\<rparr>)"
proof (rule registry_ok_clients [OF assms(1)])
  show "distinct (map fst (AList.update k c (reg_clients r)))"
    using assms(1) by (intro distinct_update registry_ok_distinct)
next
  fix k' c' assume "(k', c') \<in> set (AList.update k c (reg_clients r))"
  then have "(k', c') = (k, c) \<or> (k', c') \<in> set (reg_clients r)"
    using set_update_subset [of k c "reg_clients r"] by blast
  then show "client_ok k' c' \<and> k' \<notin> fst ` set (reg_devices r)"
    using assms registry_ok_clientD [OF assms(1)] by blast
qed

lemma registry_ok_update_device:
  assumes "registry_ok r" "ep_ID (de_meta d) = k" "k \<notin> fst ` set (reg_clients r)"
  shows "registry_ok (r\<lparr>reg_devices := AList.update k d (reg_devices r)\<rparr>)"
proof (rule registry_ok_devices [OF assms(1)])
  show "distinct (map fst (AList.update k d (reg_devices r)))"
    using assms(1) by (intro distinct_update registry_ok_distinct)
next
  fix k' d' assume "(k', d') \<in> set (AList.update k d (reg_devices r))"
  then have "(k', d') = (k, d) \<or> (k', d') \<in> set (reg_devices r)"
    using set_update_subset [of k d "reg_devices r"] by blast
  then show "ep_ID (de_meta d') = k' \<and> k' \<notin> fst ` set (reg_clients r)"
    using assms registry_ok_deviceD [OF assms(1)] by blast
qed

lemma RegisterClient_ok:
  assumes "registry_ok r" "clientEndpointID (lk_SessionID link) \<notin> fst ` set (reg_devices r)"
  shows "registry_ok (snd (RegisterClient link name v rc r))"
  using assms by (auto simp: RegisterClient_def Let_def client_ok_def intro!: registry_ok_update_client)

lemma UnregisterClient_ok:
  assumes "registry_ok r"
  shows "registry_ok (UnregisterClient link r)"
proof -
  let ?k = "clientEndpointID (lk_SessionID link)"
  have "registry_ok (r\<lparr>reg_clients := AList.delete ?k (reg_clients r)\<rparr>)"
  proof (rule registry_ok_clients [OF assms])
    show "distinct (map fst (AList.delete ?k (reg_clients r)))"
      using assms by (intro distinct_delete registry_ok_distinct)
  next
    fix k c assume "(k, c) \<in> set (AList.delete ?k (reg_clients r))"
    then have "(k, c) \<in> set (reg_clients r)" using set_delete_subset by fast
    then show "client_ok k c \<and> k \<notin> fst ` set (reg_devices r)"
      using registry_ok_clientD [OF assms] by blast
  qed
  with assms show ?thesis by (simp add: UnregisterClient_def Let_def split: option.split)
qed

lemma UpsertDevice_ok:
  assumes "registry_ok r" "rowID \<notin> fst ` set (reg_clients r)"
  shows "registry_ok (snd (UpsertDevice rowID kind key name v rc dial now r))"
  using assms by (auto simp: UpsertDevice_def Let_def intro!: registry_ok_update_device)

lemma MarkDeviceOffline_ok:
  assumes "registry_ok r"
  shows "registry_ok (MarkDeviceOffline k r)"
proof (cases "map_of (reg_devices r) k")
  case None
  with assms show ?thesis by (simp add: MarkDeviceOffline_def)
next
  case (Some d)
  then have "(k, d) \<in> set (reg_devices r)" by (rule map_of_SomeD)
  with registry_ok_deviceD [OF assms] Some show ?thesis
    by (simp add: MarkDeviceOffline_def assms registry_ok_update_device)
qed

lemma restore_row_ok:
  "registry_ok r \<Longrightarrow> er_ID row \<notin> fst ` set (reg_clients r) \<Longrightarrow> registry_ok (restore_row row r)"
  by (auto simp: restore_row_def intro!: registry_ok_update_device)

lemma lookup_device: "registry_ok r \<Longrightarrow> (k, d) \<in> set (reg_devices r) \<Longrightarrow> Lookup r u k = Some (de_meta d)"
  by (simp add: Lookup_def registry_ok_def)

lemma lookup_client:
  assumes "registry_ok r" "(k, c) \<in> set (reg_clients r)" "ep_OwnerUserID (ce_meta c) = u"
  shows "Lookup r u k = Some (ce_meta c)"
proof -
  have "map_of (reg_devices r) k = None"
    using registry_ok_clientD [OF assms(1,2)] by (simp add: map_of_eq_None_iff)
  moreover have "map_of (reg_clients r) k = Some c"
    using assms by (simp add: registry_ok_distinct)
  ultimately show ?thesis using assms(3) by (simp add: Lookup_def)
qed

lemma Lookup_SomeD:
  assumes "registry_ok r" "Lookup r u k = Some e"
  shows "ep_ID e = k \<and> e \<in> set (Visible r u)"
proof (cases "map_of (reg_devices r) k")
  case (Some d)
  with assms(2) have d: "e = de_meta d" "(k, d) \<in> set (reg_devices r)"
    by (simp_all add: Lookup_def map_of_SomeD)
  with registry_ok_deviceD [OF assms(1) d(2)] show ?thesis
    by (force simp: Visible_def)
next
  case None
  with assms(2) obtain c where c: "map_of (reg_clients r) k = Some c" "e = ce_meta c"
      "ep_OwnerUserID (ce_meta c) = u"
    by (auto simp: Lookup_def split: option.splits if_splits)
  then have "(k, c) \<in> set (reg_clients r)" by (simp add: map_of_SomeD)
  with registry_ok_clientD [OF assms(1) this] c show ?thesis
    by (force simp: Visible_def client_ok_def)
qed

lemma Visible_SomeD:
  assumes "registry_ok r" "e \<in> set (Visible r u)"
  shows "Lookup r u (ep_ID e) = Some e"
proof -
  from assms(2) consider
    k d where "(k, d) \<in> set (reg_devices r)" "e = de_meta d"
  | k c where "(k, c) \<in> set (reg_clients r)" "e = ce_meta c" "ep_OwnerUserID (ce_meta c) = u"
    by (auto simp: Visible_def)
  then show ?thesis
  proof cases
    case 1
    with registry_ok_deviceD [OF assms(1) 1(1)] assms(1) show ?thesis by (simp add: lookup_device)
  next
    case 2
    with registry_ok_clientD [OF assms(1) 2(1)] assms(1) show ?thesis
      by (simp add: lookup_client client_ok_def)
  qed
qed

lemma Visible_sorted: "sorted (map endpoint_key (Visible r u))"
  by (simp add: Visible_def)

text \<open>The registry's two reads agree: over a well-formed registry, an endpoint is in the list a
  user is shown exactly when the user's lookup of its id answers it, and the list is ordered
  devices first, then by name without regard to case, then by id.\<close>

theorem visible_iff_lookup:
  assumes "registry_ok r"
  shows "(e \<in> set (Visible r u) \<longleftrightarrow> Lookup r u (ep_ID e) = Some e) \<and>
    sorted (map endpoint_key (Visible r u))"
  using Visible_SomeD [OF assms] Lookup_SomeD [OF assms] Visible_sorted by blast

definition laptop_link :: client_link where
  "laptop_link = \<lparr>lk_ptr = 1, lk_UserID = ''u'', lk_UserName = ''Uma'', lk_SessionID = ''se-a'',
     lk_DeviceName = ''Laptop''\<rparr>"

lemma visible_iff_lookup_witness:
  "let (e, r) = RegisterClient laptop_link '''' True False empty_registry
   in ep_Name e = ''Laptop'' \<and> e \<in> set (Visible r ''u'') \<and> e \<notin> set (Visible r ''v'')"
proof -
  let ?r = "snd (RegisterClient laptop_link '''' True False empty_registry)"
  let ?e = "fst (RegisterClient laptop_link '''' True False empty_registry)"
  have ok: "registry_ok ?r"
    by (rule RegisterClient_ok [OF registry_ok_empty, where link = laptop_link])
      (simp_all add: empty_registry_def)
  have e: "ep_Name ?e = ''Laptop''" "ep_ID ?e = ''pe-a''"
    by (simp_all add: RegisterClient_def laptop_link_def clientEndpointID_def cut_prefix_def has_prefix_def Let_def)
  have "Lookup ?r ''u'' ''pe-a'' = Some ?e" "Lookup ?r ''v'' ''pe-a'' = None"
    by (simp_all add: Lookup_def RegisterClient_def laptop_link_def clientEndpointID_def cut_prefix_def
        has_prefix_def empty_registry_def Let_def)
  with visible_iff_lookup [OF ok, of ?e] e show ?thesis by (simp add: case_prod_beta)
qed

lemma Lookup_not_mine:
  assumes "registry_ok r" "Lookup r u k = Some e" "\<not> ep_Shared e" "ep_Kind e = KindClient"
    "k \<notin> fst ` set (reg_devices r)"
  shows "ep_OwnerUserID e = u"
proof -
  have "map_of (reg_devices r) k = None" using assms(5) by (simp add: map_of_eq_None_iff)
  with assms(2) show ?thesis
    by (auto simp: Lookup_def split: option.splits if_splits)
qed

end
