(* ===== verification/Service.thy ===== *)
theory Service
  imports Registry
begin

text \<open>
  The state of the connect service (\<^verbatim>\<open>server/internal/connect/service.go\<close>,
  \<open>session.go\<close>, \<open>wsclient.go\<close>) and the operations of \<open>service.go\<close> that run under its
  mutex, one definition per critical section.

  \<^item> A \<open>*session\<close> is a pointer that handlers keep across unlocks: the heap \<open>sv_obj\<close> maps
    a session id (fresh for every session, so it names the object) to the object, and
    \<open>sv_live\<close> lists the ids that are keys of the Go map \<open>s.sessions\<close>, in the order the
    runtime iterates them.  \<open>sv_watchers\<close> keeps the order of iteration too; the other maps
    are never iterated and are partial functions.
  \<^item> A driver is named by a number; a pump's cancel function by the session and the generation
    it was started for.
  \<^item> Everything the service does to the outside (store, sink, drivers, sockets) is appended to
    \<open>sv_log\<close>, newest first.  A logged warning has no other effect and is left out.
  \<^item> The teardown that \<open>endSessionLocked\<close> hands to the supervised group is a job in
    \<open>sv_jobs\<close>, run later by \<open>run_teardown\<close> (theory \<open>Bus\<close>).
  \<^item> A critical section reads the clock once: its \<open>now\<close> is an argument.
  \<^item> A JSON checkpoint is the record it encodes; a wire time stamp is the count of
    milliseconds it prints.
\<close>

section \<open>Errors\<close>

datatype cerr =
    ErrNotFound
  | ErrEndpointOffline string
  | ErrEndpointBusy string
  | ErrForbidden
  | ErrTimeout
  | ErrContext
  | InvalidError string string
  | ErrOther string

type_synonym 'a result = "cerr + 'a"

section \<open>Sessions\<close>

datatype authority = AuthorityRemote | AuthorityMirror

type_synonym drv = nat

record session =
  se_id :: ident
  se_ownerID :: ident
  se_ownerName :: string
  se_endpointID :: ident
  se_authority :: authority
  se_q :: queue_state
  se_driver :: "drv option"
  se_driverCancel :: "(ident \<times> nat) option"
  se_timeline :: "timeline_media option"
  se_slots :: "media_slot list"
  se_mediaIndex :: int
  se_createdAt :: time
  se_updatedAt :: time
  se_ended :: bool

record session_view =
  vw_ID :: ident
  vw_EndpointID :: ident
  vw_EndpointName :: string
  vw_OwnerUserID :: ident
  vw_OwnerName :: string
  vw_Authority :: authority
  vw_Playing :: bool
  vw_Index :: int
  vw_PositionMS :: int
  vw_PositionAt :: time
  vw_Rate :: rat
  vw_Volume :: "rat option"
  vw_Repeat :: string
  vw_Shuffle :: bool
  vw_QueueVersion :: int
  vw_Entries :: "queue_entry list"
  vw_Ended :: bool
  vw_UpdatedAt :: time

record persisted_state =
  ps_Entries :: "queue_entry list"
  ps_Index :: int
  ps_PositionMS :: int
  ps_Playing :: bool
  ps_Rate :: rat
  ps_Repeat :: string
  ps_Shuffle :: bool
  ps_QueueVersion :: int

record session_row =
  sr_ID :: ident
  sr_UserID :: ident
  sr_EndpointID :: ident
  sr_Authority :: authority
  sr_State :: persisted_state
  sr_Active :: bool
  sr_CreatedAtNS :: time
  sr_UpdatedAtNS :: time

definition persisted :: "session \<Rightarrow> persisted_state" where
  "persisted s =
     \<lparr>ps_Entries = q_Entries (se_q s), ps_Index = q_Index (se_q s),
      ps_PositionMS = q_PositionMS (se_q s), ps_Playing = q_Playing (se_q s),
      ps_Rate = q_Rate (se_q s), ps_Repeat = q_Repeat (se_q s),
      ps_Shuffle = q_Shuffle (se_q s), ps_QueueVersion = q_QueueVersion (se_q s)\<rparr>"

section \<open>Wire frames\<close>

record wire_session =
  ws_ID :: ident
  ws_EndpointID :: ident
  ws_EndpointName :: string
  ws_Mine :: bool
  ws_OwnerName :: string
  ws_Authority :: authority
  ws_Playing :: bool
  ws_Index :: int
  ws_PositionMS :: int
  ws_PositionAt :: int
  ws_Rate :: rat
  ws_Volume :: "rat option"
  ws_Repeat :: string
  ws_Shuffle :: bool
  ws_QueueVersion :: int
  ws_Entries :: "queue_entry list"
  ws_Ended :: bool
  ws_UpdatedAt :: int

record endpoint_command =
  ec_ID :: string
  ec_SessionID :: ident
  ec_Verb :: string
  ec_ItemPids :: "ident list"
  ec_Index :: "int option"
  ec_PositionMS :: "int option"
  ec_Play :: "bool option"
  ec_Volume :: "rat option"
  ec_Rate :: "rat option"
  ec_Repeat :: string
  ec_Shuffle :: "bool option"

datatype frame = FSession wire_session | FCommand endpoint_command

definition wire_time :: "time \<Rightarrow> int" where
  "wire_time t = t div 1000000"

definition WireSessionPayload :: "session_view \<Rightarrow> ident \<Rightarrow> bool \<Rightarrow> wire_session" where
  "WireSessionPayload s forUserID withEntries =
     (let mine = (vw_OwnerUserID s = forUserID) in
     \<lparr>ws_ID = vw_ID s, ws_EndpointID = vw_EndpointID s, ws_EndpointName = vw_EndpointName s,
      ws_Mine = mine, ws_OwnerName = (if mine then '''' else vw_OwnerName s),
      ws_Authority = vw_Authority s, ws_Playing = vw_Playing s, ws_Index = vw_Index s,
      ws_PositionMS = vw_PositionMS s, ws_PositionAt = wire_time (vw_PositionAt s),
      ws_Rate = vw_Rate s, ws_Volume = vw_Volume s, ws_Repeat = vw_Repeat s,
      ws_Shuffle = vw_Shuffle s, ws_QueueVersion = vw_QueueVersion s,
      ws_Entries = (if withEntries then vw_Entries s else []),
      ws_Ended = vw_Ended s, ws_UpdatedAt = wire_time (vw_UpdatedAt s)\<rparr>)"

definition WireSessionFrame :: "session_view \<Rightarrow> ident \<Rightarrow> bool \<Rightarrow> frame" where
  "WireSessionFrame s forUserID withEntries = FSession (WireSessionPayload s forUserID withEntries)"

section \<open>Effects on the outside\<close>

datatype driver_call =
    DLoad "media_item list" int int bool
  | DPlay
  | DPause
  | DStop
  | DSeekTo int
  | DSetVolume rat
  | DSetRate rat

datatype effect =
    ESave session_row
  | EInvalidate
  | EProgress ident ident int
  | ECheckpoint ident ident int
  | ESetQueue ident "ident list"
  | EListen ident ident int time
  | ESend client_link frame
  | EDial nat
  | EDriver drv driver_call
  | EClose drv
  | EPump ident nat drv
  | ECancel ident nat
  | EPrune nat

type_synonym hist = "effect list"

section \<open>The service's state\<close>

record watch_state =
  wt_sessionID :: ident
  wt_sentQV :: int
  wt_sentAny :: bool

record route_result =
  rr_ok :: bool
  rr_code :: string
  rr_message :: string

record end_mark =
  em_sessionID :: ident
  em_at :: time

record listen_track =
  lt_pid :: ident
  lt_startedAt :: time
  lt_playedMS :: int
  lt_lastPos :: int

record teardown =
  td_sid :: ident
  td_driver :: "drv option"
  td_cancel :: "(ident \<times> nat) option"
  td_stopPlayback :: bool
  td_authority :: authority
  td_ownerID :: ident
  td_snap :: session_view
  td_listen :: "listen_track option"

text \<open>
  \<open>sv_routes\<close> maps a routed command's id to the buffer of its result channel, which holds one
  result at most.  \<open>sv_driverGen\<close> reads 0 for an absent key, as a Go map of \<^verbatim>\<open>int\<close> does.
  \<open>sv_registered\<close> holds the connections whose \<open>registered\<close> flag is set.
\<close>

record svc =
  sv_reg :: registry
  sv_obj :: "ident \<Rightarrow> session option"
  sv_live :: "ident list"
  sv_byEndpoint :: "ident \<Rightarrow> ident option"
  sv_watchers :: "(client_link \<times> watch_state) list"
  sv_routes :: "string \<Rightarrow> route_result option option"
  sv_recentEnds :: "ident \<Rightarrow> end_mark option"
  sv_pendingLoads :: "ident \<Rightarrow> ident option"
  sv_probing :: "ident \<Rightarrow> bool"
  sv_driverGen :: "ident \<Rightarrow> nat"
  sv_listen :: "ident \<Rightarrow> listen_track option"
  sv_routeSeq :: nat
  sv_driving :: int
  sv_stopped :: bool
  sv_registered :: "client_link \<Rightarrow> bool"
  sv_jobs :: "teardown list"
  sv_log :: hist

text \<open>\<open>New\<close>: the registry as restored from the stored endpoint rows, and nothing else.\<close>

definition new_svc :: "endpoint_row list \<Rightarrow> svc" where
  "new_svc rows =
     \<lparr>sv_reg = RestorePersisted rows empty_registry, sv_obj = (\<lambda>_. None), sv_live = [],
      sv_byEndpoint = (\<lambda>_. None), sv_watchers = [], sv_routes = (\<lambda>_. None),
      sv_recentEnds = (\<lambda>_. None), sv_pendingLoads = (\<lambda>_. None), sv_probing = (\<lambda>_. False),
      sv_driverGen = (\<lambda>_. 0), sv_listen = (\<lambda>_. None), sv_routeSeq = 0, sv_driving = 0,
      sv_stopped = False, sv_registered = (\<lambda>_. False), sv_jobs = [], sv_log = []\<rparr>"

definition eff :: "effect \<Rightarrow> svc \<Rightarrow> svc" where
  "eff e s = s\<lparr>sv_log := e # sv_log s\<rparr>"

definition upd_obj :: "ident \<Rightarrow> (session \<Rightarrow> session) \<Rightarrow> svc \<Rightarrow> svc" where
  "upd_obj sid f s = s\<lparr>sv_obj := (sv_obj s)(sid := map_option f (sv_obj s sid))\<rparr>"

text \<open>\<open>s.sessions[id]\<close>.\<close>

definition live_session :: "svc \<Rightarrow> ident \<Rightarrow> session option" where
  "live_session s sid = (if sid \<in> set (sv_live s) then sv_obj s sid else None)"

section \<open>Configuration\<close>

record bases =
  ba_Public :: string
  ba_LAN :: string
  ba_Loopback :: string

definition add_base :: "string \<Rightarrow> string list \<Rightarrow> string list" where
  "add_base b out = (if b = '''' then out else if b \<in> set out then out else out @ [b])"

definition forKind :: "bases \<Rightarrow> string \<Rightarrow> string list" where
  "forKind b kind =
     (if kind = KindDLNA then add_base (ba_Loopback b) (add_base (ba_LAN b) [])
      else if kind = KindJukebox then add_base (ba_LAN b) (add_base (ba_Loopback b) [])
      else add_base (ba_LAN b) (add_base (ba_Public b) []))"

lemma add_base_ok:
  "distinct out \<Longrightarrow> '''' \<notin> set out \<Longrightarrow> distinct (add_base b out) \<and> '''' \<notin> set (add_base b out)"
  by (auto simp: add_base_def)

lemma set_add_base: "set (add_base b out) = (if b = '''' then {} else {b}) \<union> set out"
  by (auto simp: add_base_def)

definition routeDeadline :: duration where "routeDeadline = 10 * second"
definition reportGrace :: duration where "reportGrace = 3 * second"
definition checkpointInterval :: duration where "checkpointInterval = 5 * second"
definition sessionKeepPerUser :: nat where "sessionKeepPerUser = 5"
definition maxQueueItems :: nat where "maxQueueItems = 500"
definition minRate :: rat where "minRate = 1 / 4"
definition maxRate :: rat where "maxRate = 5"

definition mediaTTL :: "queue_entry list \<Rightarrow> duration" where
  "mediaTTL entries =
     (let ttl = sum_list (map qe_DurationMS entries) * millisecond + 15 * minute
      in if ttl < 30 * minute then 30 * minute else ttl)"

text \<open>
  \<open>shuffledEntries\<close>: the current entry first, then the rest in the order the random draws pick
  them.  \<open>draw n\<close> is the draw made with \<open>n\<close> entries left (\<open>None\<close>: the random source
  failed, which reads as 0); the code's draw is below \<open>n\<close>.
\<close>

definition draw_index :: "(nat \<Rightarrow> nat option) \<Rightarrow> nat \<Rightarrow> nat" where
  "draw_index draw n = (case draw n of Some k \<Rightarrow> k mod n | None \<Rightarrow> 0)"

lemma draw_index_less: "0 < n \<Longrightarrow> draw_index draw n < n"
  by (simp add: draw_index_def split: option.split)

function pick_all :: "(nat \<Rightarrow> nat option) \<Rightarrow> 'a list \<Rightarrow> 'a list" where
  "pick_all draw rest =
     (if rest = [] then []
      else let n = draw_index draw (length rest) in
        rest ! n # pick_all draw (take n rest @ drop (n + 1) rest))"
  by pat_completeness auto
termination
proof (relation "measure (\<lambda>(draw, rest). length rest)", goal_cases)
  case (2 draw rest n)
  then have "n < length rest" by (simp add: draw_index_less)
  then show ?case by simp
qed simp

declare pick_all.simps [simp del]

definition shuffledEntries :: "(nat \<Rightarrow> nat option) \<Rightarrow> 'a list \<Rightarrow> int \<Rightarrow> 'a list" where
  "shuffledEntries draw entries currentIndex =
     (let head = (if in_range currentIndex entries then [entries ! nat currentIndex] else []);
          rest = map snd (filter (\<lambda>(i, e). int i \<noteq> currentIndex) (enumerate 0 entries))
      in head @ pick_all draw rest)"

section \<open>Reading a session\<close>

definition visible_session :: "svc \<Rightarrow> ident \<Rightarrow> session \<Rightarrow> bool" where
  "visible_session s userID sess =
     (if se_ownerID sess = userID then True
      else case Lookup (sv_reg s) userID (se_endpointID sess) of
             Some ep \<Rightarrow> ep_Shared ep | None \<Rightarrow> False)"

definition snapshot :: "svc \<Rightarrow> time \<Rightarrow> session \<Rightarrow> session_view" where
  "snapshot s now sess =
     \<lparr>vw_ID = se_id sess, vw_EndpointID = se_endpointID sess,
      vw_EndpointName = (case Lookup (sv_reg s) (se_ownerID sess) (se_endpointID sess) of
                           Some ep \<Rightarrow> ep_Name ep | None \<Rightarrow> ''''),
      vw_OwnerUserID = se_ownerID sess, vw_OwnerName = se_ownerName sess,
      vw_Authority = se_authority sess, vw_Playing = q_Playing (se_q sess),
      vw_Index = q_Index (se_q sess), vw_PositionMS = extrapolate (se_q sess) now,
      vw_PositionAt = now, vw_Rate = q_Rate (se_q sess), vw_Volume = q_Volume (se_q sess),
      vw_Repeat = q_Repeat (se_q sess), vw_Shuffle = q_Shuffle (se_q sess),
      vw_QueueVersion = q_QueueVersion (se_q sess), vw_Entries = q_Entries (se_q sess),
      vw_Ended = se_ended sess, vw_UpdatedAt = se_updatedAt sess\<rparr>"

text \<open>\<open>receiverView\<close>; \<open>vis\<close> is \<open>cfg.EntriesVisible\<close>, \<open>None\<close> when it is nil.\<close>

definition empty_entry :: queue_entry where
  "empty_entry = \<lparr>qe_PID = '''', qe_Title = '''', qe_Artist = '''', qe_DurationMS = 0\<rparr>"

definition receiverView ::
  "(ident \<Rightarrow> ident list \<Rightarrow> ident \<Rightarrow> bool) option \<Rightarrow> session_view \<Rightarrow> ident \<Rightarrow> session_view" where
  "receiverView vis snap userID =
     (case vis of
        None \<Rightarrow> snap
      | Some f \<Rightarrow>
          if vw_OwnerUserID snap = userID \<or> vw_Entries snap = [] then snap
          else let visible = f userID (map qe_PID (vw_Entries snap))
               in snap\<lparr>vw_Entries := map (\<lambda>e. if visible (qe_PID e) then e else empty_entry)
                                       (vw_Entries snap)\<rparr>)"

definition currentPID :: "session_view \<Rightarrow> ident" where
  "currentPID snap =
     (if vw_Index snap \<ge> 0 \<and> vw_Index snap < int (length (vw_Entries snap))
      then qe_PID (vw_Entries snap ! nat (vw_Index snap)) else '''')"

section \<open>Ending a session\<close>

text \<open>\<open>endSessionLocked\<close>, the part that runs under the lock; the rest is the queued job.\<close>

definition end_session_obj :: "time \<Rightarrow> session \<Rightarrow> session" where
  "end_session_obj now sess =
     sess\<lparr>se_ended := True,
          se_q := (se_q sess)\<lparr>q_PositionMS := extrapolate (se_q sess) now, q_PositionAt := now,
                              q_Playing := False\<rparr>,
          se_updatedAt := now, se_driver := None, se_driverCancel := None\<rparr>"

definition endSessionLocked :: "time \<Rightarrow> ident \<Rightarrow> bool \<Rightarrow> svc \<Rightarrow> svc" where
  "endSessionLocked now sid stopPlayback s =
     (case sv_obj s sid of
        None \<Rightarrow> s
      | Some sess \<Rightarrow>
          if se_ended sess then s
          else
            let sess' = end_session_obj now sess;
                e = se_endpointID sess;
                s1 = s\<lparr>sv_obj := (sv_obj s)(sid \<mapsto> sess'),
                       sv_live := removeAll sid (sv_live s),
                       sv_byEndpoint := (if sv_byEndpoint s e = Some sid
                          then (sv_byEndpoint s)(e := None) else sv_byEndpoint s),
                       sv_recentEnds := (sv_recentEnds s)(e \<mapsto> \<lparr>em_sessionID = sid, em_at = now\<rparr>),
                       sv_listen := (sv_listen s)(sid := None),
                       sv_driverGen := (sv_driverGen s)(sid := 0)\<rparr>;
                job = \<lparr>td_sid = sid, td_driver = se_driver sess, td_cancel = se_driverCancel sess,
                       td_stopPlayback = stopPlayback, td_authority = se_authority sess,
                       td_ownerID = se_ownerID sess, td_snap = snapshot s1 now sess',
                       td_listen = sv_listen s sid\<rparr>
            in s1\<lparr>sv_jobs := sv_jobs s1 @ [job]\<rparr>)"

section \<open>Driving brackets and release\<close>

definition beginDriving :: "svc \<Rightarrow> unit result \<times> svc" where
  "beginDriving s =
     (if sv_stopped s then (Inl (ErrEndpointOffline ''the server is shutting down''), s)
      else (Inr (), s\<lparr>sv_driving := sv_driving s + 1\<rparr>))"

definition endDriving :: "svc \<Rightarrow> svc" where
  "endDriving s = s\<lparr>sv_driving := sv_driving s - 1\<rparr>"

text \<open>
  \<open>release\<close> sets \<open>stopped\<close>, waits until no start or transfer is in flight (the condition
  variable gives the lock up meanwhile, so \<open>release_begin\<close> and \<open>release_drained\<close> are two
  sections), and then ends every session that holds a driver.
\<close>

definition release_begin :: "svc \<Rightarrow> svc" where
  "release_begin s = s\<lparr>sv_stopped := True\<rparr>"

definition release_one :: "time \<Rightarrow> ident \<Rightarrow> svc \<Rightarrow> svc" where
  "release_one now sid s =
     (case sv_obj s sid of
        Some sess \<Rightarrow> if se_driver sess \<noteq> None then endSessionLocked now sid False s else s
      | None \<Rightarrow> s)"

definition release_drained :: "time \<Rightarrow> svc \<Rightarrow> svc" where
  "release_drained now s = fold (release_one now) (sv_live s) s"

section \<open>Adopting, binding, transferring\<close>

definition adopt_section :: "time \<Rightarrow> ident \<Rightarrow> svc \<Rightarrow> svc" where
  "adopt_section now sid s =
     (case sv_obj s sid of
        None \<Rightarrow> s
      | Some sess \<Rightarrow>
          let e = se_endpointID sess;
              s1 = (case sv_byEndpoint s e of
                      Some oldID \<Rightarrow>
                        if oldID \<noteq> sid \<and> oldID \<in> set (sv_live s)
                        then endSessionLocked now oldID False s else s
                    | None \<Rightarrow> s)
          in s1\<lparr>sv_live := (if sid \<in> set (sv_live s1) then sv_live s1 else sv_live s1 @ [sid]),
                sv_byEndpoint := (sv_byEndpoint s1)(e \<mapsto> sid)\<rparr>)"

text \<open>A device loaded with a queue and bound to no session yet.\<close>

record loaded_device =
  ld_driver :: drv
  ld_load :: device_load
  ld_mediaIndex :: int

definition bindDeviceLocked :: "ident \<Rightarrow> loaded_device \<Rightarrow> svc \<Rightarrow> svc" where
  "bindDeviceLocked sid loaded s =
     (let gen = sv_driverGen s sid + 1 in
      (upd_obj sid (\<lambda>sess. sess\<lparr>se_driver := Some (ld_driver loaded),
                                se_driverCancel := Some (sid, gen),
                                se_timeline := dl_tm (ld_load loaded),
                                se_slots := dl_slots (ld_load loaded),
                                se_mediaIndex := ld_mediaIndex loaded\<rparr>) s)
        \<lparr>sv_driverGen := (sv_driverGen s)(sid := gen)\<rparr>)"

definition markLoadPending :: "ident \<Rightarrow> ident \<Rightarrow> svc \<Rightarrow> svc" where
  "markLoadPending endpointID sessionID s =
     s\<lparr>sv_pendingLoads := (sv_pendingLoads s)(endpointID \<mapsto> sessionID)\<rparr>"

definition clearLoadPending :: "ident \<Rightarrow> svc \<Rightarrow> svc" where
  "clearLoadPending endpointID s = s\<lparr>sv_pendingLoads := (sv_pendingLoads s)(endpointID := None)\<rparr>"

definition forgetLoad :: "ident \<Rightarrow> svc \<Rightarrow> svc" where
  "forgetLoad sid s =
     upd_obj sid (\<lambda>sess. sess\<lparr>se_timeline := None, se_slots := [], se_mediaIndex := 0\<rparr>) s"

text \<open>What a transfer copies out of the session before it lets the lock go.\<close>

record transfer_plan =
  tp_index :: int
  tp_positionMS :: int
  tp_play :: bool
  tp_entries :: "queue_entry list"
  tp_rate :: rat
  tp_repeat :: string
  tp_oldEndpoint :: ident
  tp_oldDriver :: "drv option"
  tp_oldCancel :: "(ident \<times> nat) option"
  tp_oldAuthority :: authority
  tp_owner :: ident

text \<open>The three ways the first section of \<open>Transfer\<close> ends.\<close>

datatype transfer_start =
    TRefused cerr
  | TAlreadyThere session_view
  | TGo endpoint transfer_plan

definition transfer_check ::
  "(ident \<Rightarrow> bool) \<Rightarrow> time \<Rightarrow> ident \<Rightarrow> ident \<Rightarrow> ident \<Rightarrow> svc \<Rightarrow> transfer_start" where
  "transfer_check sharedAllowed now userID sessionID targetEndpointID s =
     (case live_session s sessionID of
        None \<Rightarrow> TRefused ErrNotFound
      | Some sess \<Rightarrow>
          if \<not> visible_session s userID sess then TRefused ErrNotFound
          else
            (case (case Lookup (sv_reg s) (se_ownerID sess) targetEndpointID of
                     Some t \<Rightarrow> Some t
                   | None \<Rightarrow> Lookup (sv_reg s) userID targetEndpointID) of
               None \<Rightarrow> TRefused ErrNotFound
             | Some target \<Rightarrow>
                 if userID \<noteq> se_ownerID sess \<and> \<not> ep_Shared target then TRefused ErrForbidden
                 else if ep_Shared target \<and> \<not> sharedAllowed userID then TRefused ErrForbidden
                 else if ep_ID target = se_endpointID sess
                 then TAlreadyThere (snapshot s now sess)
                 else TGo target
                   \<lparr>tp_index = q_Index (se_q sess), tp_positionMS = extrapolate (se_q sess) now,
                    tp_play = q_Playing (se_q sess), tp_entries = q_Entries (se_q sess),
                    tp_rate = q_Rate (se_q sess), tp_repeat = q_Repeat (se_q sess),
                    tp_oldEndpoint = se_endpointID sess, tp_oldDriver = se_driver sess,
                    tp_oldCancel = se_driverCancel sess, tp_oldAuthority = se_authority sess,
                    tp_owner = se_ownerID sess\<rparr>))"

text \<open>
  The second section: rebind the session to the loaded target.  \<open>None\<close> says that the session
  ended while the target loaded; otherwise the snapshot taken.  A device target brings the
  loaded device, a client target none.
\<close>

definition rebind :: "time \<Rightarrow> ident \<Rightarrow> ident \<Rightarrow> svc \<Rightarrow> svc" where
  "rebind now sid targetID s =
     (let s1 = (case sv_byEndpoint s targetID of
                  Some oldID \<Rightarrow>
                    if oldID \<noteq> sid \<and> oldID \<in> set (sv_live s)
                    then endSessionLocked now oldID False s else s
                | None \<Rightarrow> s)
      in (upd_obj sid (\<lambda>sess. sess\<lparr>se_endpointID := targetID\<rparr>) s1)
           \<lparr>sv_byEndpoint := (sv_byEndpoint s1)(targetID \<mapsto> sid)\<rparr>)"

definition leave_endpoint :: "time \<Rightarrow> ident \<Rightarrow> ident \<Rightarrow> svc \<Rightarrow> svc" where
  "leave_endpoint now sid oldEndpoint s =
     s\<lparr>sv_byEndpoint := (if sv_byEndpoint s oldEndpoint = Some sid
          then (sv_byEndpoint s)(oldEndpoint := None) else sv_byEndpoint s),
       sv_recentEnds := (sv_recentEnds s)(oldEndpoint \<mapsto> \<lparr>em_sessionID = sid, em_at = now\<rparr>)\<rparr>"

definition mirror_target :: "ident \<Rightarrow> svc \<Rightarrow> svc" where
  "mirror_target sid s =
     (upd_obj sid (\<lambda>sess. sess\<lparr>se_authority := AuthorityMirror, se_driver := None,
                               se_driverCancel := None, se_timeline := None, se_slots := [],
                               se_mediaIndex := 0\<rparr>) s)
       \<lparr>sv_driverGen := (sv_driverGen s)(sid := sv_driverGen s sid + 1)\<rparr>"

definition remote_target :: "ident \<Rightarrow> loaded_device \<Rightarrow> svc \<Rightarrow> svc" where
  "remote_target sid loaded s =
     bindDeviceLocked sid loaded (upd_obj sid (\<lambda>sess. sess\<lparr>se_authority := AuthorityRemote\<rparr>) s)"

definition carry_position :: "time \<Rightarrow> ident \<Rightarrow> transfer_plan \<Rightarrow> svc \<Rightarrow> svc" where
  "carry_position now sid plan s =
     upd_obj sid (\<lambda>sess. sess\<lparr>se_q := (se_q sess)\<lparr>q_Index := tp_index plan,
        q_PositionMS := tp_positionMS plan, q_PositionAt := now, q_Playing := tp_play plan\<rparr>,
        se_updatedAt := now\<rparr>) s"

definition transfer_commit ::
  "time \<Rightarrow> ident \<Rightarrow> endpoint \<Rightarrow> transfer_plan \<Rightarrow> loaded_device option \<Rightarrow> svc
     \<Rightarrow> session_view option \<times> svc" where
  "transfer_commit now sid target plan loaded s =
     (case sv_obj s sid of
        None \<Rightarrow> (None, s)
      | Some sess \<Rightarrow>
          if se_ended sess then (None, clearLoadPending (ep_ID target) s)
          else
            let s1 = rebind now sid (ep_ID target) (leave_endpoint now sid (tp_oldEndpoint plan) s);
                s2 = (case loaded of None \<Rightarrow> mirror_target sid s1
                                   | Some ld \<Rightarrow> remote_target sid ld s1);
                s3 = carry_position now sid plan s2;
                snap = map_option (snapshot s3 now) (sv_obj s3 sid)
            in (snap, clearLoadPending (ep_ID target) s3))"

end
