(* ===== verification/Bus.thy ===== *)
theory Bus
  imports Service
begin

text \<open>
  The handlers of the connect service: session starts, transfers and ends of \<open>service.go\<close>, and
  the command bus of \<open>bus.go\<close> (controller commands, client reports, watches, driver events,
  checkpoints, device discovery).  A handler composes the critical sections of theory
  \<open>Service\<close> with its calls to the outside, in the code's order.

  What the outside answers is a parameter: a \<open>world\<close> holds one function per call, each taking
  the history of effects so far (so that the same call may be answered differently later) and
  the call's arguments.  Nothing is assumed of a world.

  A handler here runs without another one in between.  Interleavings of the critical sections
  are the step relation of theory \<open>Connect_Steps\<close>.
\<close>

section \<open>The outside\<close>

record endpoint_target =
  et_Kind :: string
  et_Formats :: "string list"

record history_row =
  hr_ID :: ident
  hr_EndpointID :: ident
  hr_Authority :: authority
  hr_State :: "persisted_state option"
  hr_UpdatedAtNS :: time

text \<open>
  \<open>w_results\<close> are the command results that arrive while a routed command waits, with the ids
  they name; \<open>w_cancelled\<close> says that the wait ended with the request's context rather than
  with its deadline.  \<open>w_allowed\<close> and \<open>w_visible\<close> are the two optional hooks of \<open>Config\<close>.
\<close>

record world =
  w_now :: "hist \<Rightarrow> time"
  w_newid :: "hist \<Rightarrow> ident"
  w_rand :: "hist \<Rightarrow> nat \<Rightarrow> nat option"
  w_allowed :: "(hist \<Rightarrow> ident \<Rightarrow> bool) option"
  w_visible :: "(hist \<Rightarrow> ident \<Rightarrow> ident list \<Rightarrow> ident \<Rightarrow> bool) option"
  w_entries :: "hist \<Rightarrow> ident \<Rightarrow> ident list \<Rightarrow> queue_entry list result"
  w_streamItems :: "hist \<Rightarrow> ident \<Rightarrow> queue_entry list \<Rightarrow> endpoint_target \<Rightarrow> string \<Rightarrow> duration
    \<Rightarrow> media_item list result"
  w_timeline :: "hist \<Rightarrow> ident \<Rightarrow> queue_entry list \<Rightarrow> string \<Rightarrow> timeline_media option result"
  w_dial :: "hist \<Rightarrow> nat \<Rightarrow> string + drv"
  w_driver :: "hist \<Rightarrow> drv \<Rightarrow> driver_call \<Rightarrow> string option"
  w_formats :: "drv \<Rightarrow> string list option"
  w_send :: "hist \<Rightarrow> client_link \<Rightarrow> frame \<Rightarrow> bool"
  w_results :: "hist \<Rightarrow> client_link \<Rightarrow> endpoint_command \<Rightarrow> (string \<times> route_result) list"
  w_cancelled :: "hist \<Rightarrow> bool"
  w_upsert :: "hist \<Rightarrow> string \<Rightarrow> string \<Rightarrow> string \<Rightarrow> string \<Rightarrow> ident result"
  w_history :: "hist \<Rightarrow> ident \<Rightarrow> nat \<Rightarrow> history_row list result"
  w_bases :: bases

definition clock :: "world \<Rightarrow> svc \<Rightarrow> time" where
  "clock w s = w_now w (sv_log s)"

definition sharedAllowed :: "world \<Rightarrow> svc \<Rightarrow> ident \<Rightarrow> bool" where
  "sharedAllowed w s userID = (case w_allowed w of None \<Rightarrow> True | Some f \<Rightarrow> f (sv_log s) userID)"

definition receiver_view :: "world \<Rightarrow> svc \<Rightarrow> session_view \<Rightarrow> ident \<Rightarrow> session_view" where
  "receiver_view w s = receiverView (map_option (\<lambda>f. f (sv_log s)) (w_visible w))"

definition drive :: "world \<Rightarrow> drv \<Rightarrow> driver_call \<Rightarrow> svc \<Rightarrow> string option \<times> svc" where
  "drive w d c s = (w_driver w (sv_log s) d c, eff (EDriver d c) s)"

definition send :: "world \<Rightarrow> client_link \<Rightarrow> frame \<Rightarrow> svc \<Rightarrow> bool \<times> svc" where
  "send w link f s = (w_send w (sv_log s) link f, eff (ESend link f) s)"

definition TargetFor :: "world \<Rightarrow> string \<Rightarrow> drv \<Rightarrow> endpoint_target" where
  "TargetFor w kind d =
     \<lparr>et_Kind = kind, et_Formats = (case w_formats w d of None \<Rightarrow> [] | Some fs \<Rightarrow> fs)\<rparr>"

section \<open>Routed commands\<close>

text \<open>\<open>HandleCommandResult\<close>: the first result for a waiting command fills its channel.\<close>

definition HandleCommandResult :: "string \<Rightarrow> route_result \<Rightarrow> svc \<Rightarrow> svc" where
  "HandleCommandResult cid res s =
     (case sv_routes s cid of
        Some None \<Rightarrow> s\<lparr>sv_routes := (sv_routes s)(cid \<mapsto> Some res)\<rparr>
      | _ \<Rightarrow> s)"

definition route_begin :: "endpoint_command \<Rightarrow> svc \<Rightarrow> endpoint_command \<times> svc" where
  "route_begin cmd s =
     (let n = sv_routeSeq s + 1; cid = ''e'' @ show_nat n in
      (cmd\<lparr>ec_ID := cid\<rparr>,
       s\<lparr>sv_routeSeq := n, sv_routes := (sv_routes s)(cid \<mapsto> None)\<rparr>))"

definition route_end :: "string \<Rightarrow> svc \<Rightarrow> svc" where
  "route_end cid s = s\<lparr>sv_routes := (sv_routes s)(cid := None)\<rparr>"

definition routeToLink ::
  "world \<Rightarrow> client_link \<Rightarrow> endpoint_command \<Rightarrow> svc \<Rightarrow> route_result result \<times> svc" where
  "routeToLink w link cmd0 s =
     (let (cmd, s1) = route_begin cmd0 s;
          (ok, s2) = send w link (FCommand cmd) s1
      in if \<not> ok then (Inl (ErrEndpointOffline ''''), route_end (ec_ID cmd) s2)
         else
           let s3 = fold (\<lambda>(cid, res). HandleCommandResult cid res) (w_results w (sv_log s2) link cmd) s2
           in (case sv_routes s3 (ec_ID cmd) of
                 Some (Some res) \<Rightarrow> Inr res
               | _ \<Rightarrow> Inl (if w_cancelled w (sv_log s3) then ErrContext else ErrTimeout),
               route_end (ec_ID cmd) s3))"

definition blank_command :: endpoint_command where
  "blank_command = \<lparr>ec_ID = '''', ec_SessionID = '''', ec_Verb = '''', ec_ItemPids = [],
     ec_Index = None, ec_PositionMS = None, ec_Play = None, ec_Volume = None, ec_Rate = None,
     ec_Repeat = '''', ec_Shuffle = None\<rparr>"

definition loadOnClient ::
  "world \<Rightarrow> ident \<Rightarrow> ident list \<Rightarrow> ident \<Rightarrow> int \<Rightarrow> int \<Rightarrow> bool \<Rightarrow> rat \<Rightarrow> string \<Rightarrow> svc
     \<Rightarrow> unit result \<times> svc" where
  "loadOnClient w sessionID pids endpointID index positionMS play rate rep s =
     (case reg_link (sv_reg s) endpointID of
        None \<Rightarrow> (Inl (ErrEndpointOffline ''''), s)
      | Some link \<Rightarrow>
          let cmd = blank_command\<lparr>ec_SessionID := sessionID, ec_Verb := ''load'', ec_ItemPids := pids,
                ec_Index := Some index, ec_PositionMS := Some positionMS, ec_Play := Some play,
                ec_Rate := (if rate \<noteq> 1 then Some rate else None),
                ec_Repeat := (if rep \<noteq> '''' \<and> rep \<noteq> ''off'' then rep else '''')\<rparr>;
              (res, s1) = routeToLink w link cmd s
          in (case res of
                Inl e \<Rightarrow> (Inl e, s1)
              | Inr r \<Rightarrow> if rr_ok r then (Inr (), s1)
                  else (Inl (InvalidError (''client endpoint refused the load: '' @ rr_message r)
                                (rr_code r)), s1)))"

section \<open>Persisting and notifying\<close>

definition session_row_of :: "session \<Rightarrow> bool \<Rightarrow> session_row" where
  "session_row_of sess active =
     \<lparr>sr_ID = se_id sess, sr_UserID = se_ownerID sess, sr_EndpointID = se_endpointID sess,
      sr_Authority = se_authority sess, sr_State = persisted sess,
      sr_Active = (active \<and> \<not> se_ended sess), sr_CreatedAtNS = se_createdAt sess,
      sr_UpdatedAtNS = se_updatedAt sess\<rparr>"

definition persist :: "ident \<Rightarrow> bool \<Rightarrow> svc \<Rightarrow> svc" where
  "persist sid active s =
     (case sv_obj s sid of
        None \<Rightarrow> s
      | Some sess \<Rightarrow> eff (ESave (session_row_of sess active)) s)"

definition flushListen :: "ident \<Rightarrow> listen_track option \<Rightarrow> svc \<Rightarrow> svc" where
  "flushListen userID lt s =
     (case lt of
        None \<Rightarrow> s
      | Some t \<Rightarrow> if lt_playedMS t < 2000 \<or> lt_pid t = '''' then s
          else eff (EListen userID (lt_pid t) (lt_playedMS t) (lt_startedAt t)) s)"

text \<open>
  The locked halves of \<open>notifyWatchers\<close> and \<open>pushPlayingToWatchers\<close>: which links to push to,
  with the snapshot and whether its entries ride along, and the watch states as they are left.
\<close>

definition push_mark :: "int \<Rightarrow> watch_state \<Rightarrow> bool \<times> watch_state" where
  "push_mark qv wt = (\<not> wt_sentAny wt \<or> wt_sentQV wt \<noteq> qv, wt\<lparr>wt_sentAny := True, wt_sentQV := qv\<rparr>)"

type_synonym push = "client_link \<times> session_view \<times> bool"

fun collect_pushes ::
  "(ident \<Rightarrow> session_view option) \<Rightarrow> (client_link \<times> watch_state) list
     \<Rightarrow> push list \<times> (client_link \<times> watch_state) list" where
  "collect_pushes snaps [] = ([], [])"
| "collect_pushes snaps ((link, wt) # ws) =
     (let (ps, ws') = collect_pushes snaps ws in
      case snaps (wt_sessionID wt) of
        None \<Rightarrow> (ps, (link, wt) # ws')
      | Some snap \<Rightarrow> let (withEntries, wt') = push_mark (vw_QueueVersion snap) wt
          in ((link, snap, withEntries) # ps, (link, wt') # ws'))"

definition send_push :: "world \<Rightarrow> push \<Rightarrow> svc \<Rightarrow> svc" where
  "send_push w p s =
     (case p of (link, snap, withEntries) \<Rightarrow>
        let view = (if withEntries then receiver_view w s snap (lk_UserID link) else snap)
        in snd (send w link (WireSessionFrame view (lk_UserID link) withEntries) s))"

definition notify_section :: "time \<Rightarrow> ident \<Rightarrow> svc \<Rightarrow> push list \<times> svc" where
  "notify_section now sessionID s =
     (case live_session s sessionID of
        None \<Rightarrow> ([], s)
      | Some sess \<Rightarrow>
          let (ps, ws) = collect_pushes
                (\<lambda>sid. if sid = sessionID then Some (snapshot s now sess) else None) (sv_watchers s)
          in (ps, s\<lparr>sv_watchers := ws\<rparr>))"

definition notifyWatchers :: "world \<Rightarrow> ident \<Rightarrow> svc \<Rightarrow> svc" where
  "notifyWatchers w sessionID s =
     (let (ps, s1) = notify_section (clock w s) sessionID s in fold (send_push w) ps s1)"

definition playing_section :: "time \<Rightarrow> svc \<Rightarrow> push list \<times> svc" where
  "playing_section now s =
     (let (ps, ws) = collect_pushes
            (\<lambda>sid. case live_session s sid of
                     Some sess \<Rightarrow> if q_Playing (se_q sess) then Some (snapshot s now sess) else None
                   | None \<Rightarrow> None) (sv_watchers s)
      in (ps, s\<lparr>sv_watchers := ws\<rparr>))"

definition pushPlayingToWatchers :: "world \<Rightarrow> svc \<Rightarrow> svc" where
  "pushPlayingToWatchers w s =
     (let (ps, s1) = playing_section (clock w s) s in fold (send_push w) ps s1)"

definition ended_section :: "session_view \<Rightarrow> svc \<Rightarrow> client_link list \<times> svc" where
  "ended_section snap s =
     (map fst (filter (\<lambda>(l, wt). wt_sessionID wt = vw_ID snap) (sv_watchers s)),
      s\<lparr>sv_watchers := filter (\<lambda>(l, wt). wt_sessionID wt \<noteq> vw_ID snap) (sv_watchers s)\<rparr>)"

definition notifyEnded :: "world \<Rightarrow> session_view \<Rightarrow> svc \<Rightarrow> svc" where
  "notifyEnded w snap s =
     (let (links, s1) = ended_section snap s in
      fold (\<lambda>l t. snd (send w l (WireSessionFrame snap (lk_UserID l) False) t)) links s1)"

definition stop_command :: "ident \<Rightarrow> endpoint_command" where
  "stop_command sid = blank_command\<lparr>ec_SessionID := sid, ec_Verb := ''stop''\<rparr>"

definition cancel_pump :: "(ident \<times> nat) option \<Rightarrow> svc \<Rightarrow> svc" where
  "cancel_pump c s = (case c of None \<Rightarrow> s | Some (sid, gen) \<Rightarrow> eff (ECancel sid gen) s)"

text \<open>The teardown goroutine of \<open>endSessionLocked\<close>.\<close>

definition run_teardown :: "world \<Rightarrow> teardown \<Rightarrow> svc \<Rightarrow> svc" where
  "run_teardown w td s =
     (let s1 =
            (case td_driver td of
               Some d \<Rightarrow>
                 let sa = (if td_stopPlayback td then snd (drive w d DStop s) else s)
                 in eff (EClose d) (cancel_pump (td_cancel td) sa)
             | None \<Rightarrow>
                 if td_stopPlayback td \<and> td_authority td = AuthorityMirror
                 then (case reg_link (sv_reg s) (vw_EndpointID (td_snap td)) of
                         Some link \<Rightarrow> snd (routeToLink w link (stop_command (td_sid td)) s)
                       | None \<Rightarrow> s)
                 else s);
          s2 =
            (if td_authority td = AuthorityRemote
             then
               let pid = currentPID (td_snap td);
                   sb = (if pid \<noteq> '''' then eff (ECheckpoint (td_ownerID td) pid (vw_PositionMS (td_snap td))) s1
                         else s1)
               in flushListen (td_ownerID td) (td_listen td) sb
             else s1)
      in notifyEnded w (td_snap td) (persist (td_sid td) False s2))"

section \<open>Listing and reading sessions\<close>

definition ActiveSessionID :: "ident \<Rightarrow> ident \<Rightarrow> svc \<Rightarrow> ident" where
  "ActiveSessionID userID endpointID s =
     (case sv_byEndpoint s endpointID of
        None \<Rightarrow> ''''
      | Some sid \<Rightarrow>
          (case live_session s sid of
             None \<Rightarrow> ''''
           | Some sess \<Rightarrow> if visible_session s userID sess then sid else ''''))"

text \<open>The insertion loop of \<open>Sessions\<close>: \<open>sift\<close> moves a view left past older ones, along the
  sorted prefix read from its right end.\<close>

fun sift :: "session_view \<Rightarrow> session_view list \<Rightarrow> session_view list" where
  "sift x [] = [x]"
| "sift x (y # ys) = (if vw_UpdatedAt x > vw_UpdatedAt y then y # sift x ys else x # y # ys)"

definition newest_first :: "session_view list \<Rightarrow> session_view list" where
  "newest_first xs = rev (fold sift xs [])"

definition Sessions :: "world \<Rightarrow> ident \<Rightarrow> svc \<Rightarrow> session_view list" where
  "Sessions w userID s =
     map (\<lambda>v. receiver_view w s v userID)
       (newest_first
         (map (snapshot s (clock w s))
           (filter (visible_session s userID) (List.map_filter (live_session s) (sv_live s)))))"

definition get_session :: "world \<Rightarrow> ident \<Rightarrow> ident \<Rightarrow> svc \<Rightarrow> session_view result" where
  "get_session w userID sessionID s =
     (case live_session s sessionID of
        None \<Rightarrow> Inl ErrNotFound
      | Some sess \<Rightarrow> if \<not> visible_session s userID sess then Inl ErrNotFound
          else Inr (receiver_view w s (snapshot s (clock w s) sess) userID))"

record ended_session =
  es_ID :: ident
  es_EndpointID :: ident
  es_EndpointName :: string
  es_Authority :: authority
  es_Index :: int
  es_PositionMS :: int
  es_PositionAt :: time
  es_Rate :: rat
  es_Repeat :: string
  es_Shuffle :: bool
  es_Entries :: "queue_entry list"

definition ended_of :: "svc \<Rightarrow> ident \<Rightarrow> history_row \<Rightarrow> ended_session option" where
  "ended_of s userID row =
     (case hr_State row of
        None \<Rightarrow> None
      | Some ps \<Rightarrow> Some
          \<lparr>es_ID = hr_ID row, es_EndpointID = hr_EndpointID row,
           es_EndpointName = (case Lookup (sv_reg s) userID (hr_EndpointID row) of
                                Some ep \<Rightarrow> ep_Name ep | None \<Rightarrow> ''''),
           es_Authority = hr_Authority row, es_Index = ps_Index ps,
           es_PositionMS = ps_PositionMS ps, es_PositionAt = hr_UpdatedAtNS row,
           es_Rate = (if ps_Rate ps \<le> 0 then 1 else ps_Rate ps), es_Repeat = ps_Repeat ps,
           es_Shuffle = ps_Shuffle ps, es_Entries = ps_Entries ps\<rparr>)"

definition SessionHistory :: "world \<Rightarrow> ident \<Rightarrow> svc \<Rightarrow> ended_session list result" where
  "SessionHistory w userID s =
     (case w_history w (sv_log s) userID sessionKeepPerUser of
        Inl e \<Rightarrow> Inl e
      | Inr rows \<Rightarrow> Inr (List.map_filter (ended_of s userID) rows))"

section \<open>Loading a device\<close>

definition renderQueue ::
  "world \<Rightarrow> ident \<Rightarrow> endpoint \<Rightarrow> drv \<Rightarrow> queue_entry list \<Rightarrow> string \<Rightarrow> duration \<Rightarrow> svc
     \<Rightarrow> device_load result" where
  "renderQueue w ownerID ep d entries base ttl s =
     (let tm = (if ep_Kind ep = KindCast \<and> length entries > 1
                then (case w_timeline w (sv_log s) ownerID entries base of Inl _ \<Rightarrow> None | Inr t \<Rightarrow> t)
                else None)
      in case tm of
           Some t \<Rightarrow> Inr \<lparr>dl_items = [], dl_slots = [], dl_tm = Some t\<rparr>
         | None \<Rightarrow>
             (case w_streamItems w (sv_log s) ownerID entries (TargetFor w (ep_Kind ep) d) base ttl of
                Inl e \<Rightarrow> Inl e
              | Inr items \<Rightarrow> Inr \<lparr>dl_items = items, dl_slots = slotsFor items, dl_tm = None\<rparr>))"

definition loadRendering ::
  "world \<Rightarrow> drv \<Rightarrow> device_load \<Rightarrow> int \<Rightarrow> int \<Rightarrow> bool \<Rightarrow> svc \<Rightarrow> (string + int) \<times> svc" where
  "loadRendering w d load index positionMS play s =
     (let (items, mediaIdx, inMediaMS) = load_at load index positionMS;
          (err, s1) = drive w d (DLoad items mediaIdx inMediaMS play) s
      in (case err of Some e \<Rightarrow> Inl e | None \<Rightarrow> Inr mediaIdx, s1))"

fun try_bases ::
  "world \<Rightarrow> ident \<Rightarrow> endpoint \<Rightarrow> drv \<Rightarrow> queue_entry list \<Rightarrow> duration \<Rightarrow> int \<Rightarrow> int \<Rightarrow> bool
     \<Rightarrow> string list \<Rightarrow> string \<Rightarrow> svc \<Rightarrow> loaded_device result \<times> svc" where
  "try_bases w ownerID ep d entries ttl index positionMS play [] lastErr s =
     (Inl (ErrEndpointOffline lastErr), eff (EClose d) s)"
| "try_bases w ownerID ep d entries ttl index positionMS play (base # rest) lastErr s =
     (case renderQueue w ownerID ep d entries base ttl s of
        Inl e \<Rightarrow> (Inl e, eff (EClose d) s)
      | Inr rendered \<Rightarrow>
          (case loadRendering w d rendered index positionMS play s of
             (Inl e, s1) \<Rightarrow> try_bases w ownerID ep d entries ttl index positionMS play rest e s1
           | (Inr mediaIndex, s1) \<Rightarrow>
               (Inr \<lparr>ld_driver = d, ld_load = rendered, ld_mediaIndex = mediaIndex\<rparr>, s1)))"

definition loadOnDevice ::
  "world \<Rightarrow> ident \<Rightarrow> endpoint \<Rightarrow> queue_entry list \<Rightarrow> int \<Rightarrow> int \<Rightarrow> bool \<Rightarrow> svc
     \<Rightarrow> loaded_device result \<times> svc" where
  "loadOnDevice w ownerID ep entries index positionMS play s =
     (if sv_probing s (ep_ID ep)
      then (Inl (ErrEndpointBusy (''a connection check is running on '' @ ep_Name ep)), s)
      else
        case dialer (sv_reg s) (ep_ID ep) of
          None \<Rightarrow> (Inl (ErrEndpointOffline ''''), s)
        | Some dial \<Rightarrow>
            (case w_dial w (sv_log s) dial of
               Inl e \<Rightarrow> (Inl (ErrEndpointOffline e),
                         (eff (EDial dial) s)\<lparr>sv_reg := MarkDeviceOffline (ep_ID ep) (sv_reg s)\<rparr>)
             | Inr d \<Rightarrow>
                 let s1 = eff (EDial dial) s; bs = forKind (w_bases w) (ep_Kind ep)
                 in if bs = []
                    then (Inl (InvalidError ''no advertise base is configured for casting'' ''''),
                          eff (EClose d) s1)
                    else try_bases w ownerID ep d entries (mediaTTL entries) index positionMS play bs '''' s1))"

text \<open>\<open>driveLoad\<close> and \<open>reloadRemote\<close>: re-render the current queue onto the session's driver.\<close>

definition driveLoad_section :: "ident \<Rightarrow> device_load \<Rightarrow> int \<Rightarrow> svc \<Rightarrow> svc" where
  "driveLoad_section sid d mediaIdx s =
     upd_obj sid (\<lambda>sess. sess\<lparr>se_timeline := dl_tm d, se_slots := dl_slots d,
                              se_mediaIndex := mediaIdx\<rparr>) s"

definition commandFailed :: "string \<Rightarrow> cerr" where
  "commandFailed e = InvalidError (''the endpoint rejected the command: '' @ e) ''''"

fun reload_bases ::
  "world \<Rightarrow> ident \<Rightarrow> ident \<Rightarrow> endpoint \<Rightarrow> drv \<Rightarrow> queue_entry list \<Rightarrow> duration \<Rightarrow> int \<Rightarrow> int \<Rightarrow> bool
     \<Rightarrow> string list \<Rightarrow> string \<Rightarrow> svc \<Rightarrow> unit result \<times> svc" where
  "reload_bases w sid ownerID ep d entries ttl index positionMS play [] lastErr s =
     (Inl (commandFailed lastErr), forgetLoad sid s)"
| "reload_bases w sid ownerID ep d entries ttl index positionMS play (base # rest) lastErr s =
     (case renderQueue w ownerID ep d entries base ttl s of
        Inl e \<Rightarrow> (Inl e, forgetLoad sid s)
      | Inr rendered \<Rightarrow>
          (case loadRendering w d rendered index positionMS play s of
             (Inl e, s1) \<Rightarrow> reload_bases w sid ownerID ep d entries ttl index positionMS play rest e s1
           | (Inr mediaIdx, s1) \<Rightarrow> (Inr (), driveLoad_section sid rendered mediaIdx s1)))"

definition reloadRemote ::
  "world \<Rightarrow> ident \<Rightarrow> int \<Rightarrow> int \<Rightarrow> bool \<Rightarrow> svc \<Rightarrow> unit result \<times> svc" where
  "reloadRemote w sid index positionMS play s =
     (case sv_obj s sid of
        None \<Rightarrow> (Inl (ErrEndpointOffline ''''), s)
      | Some sess \<Rightarrow>
          (case (Lookup (sv_reg s) (se_ownerID sess) (se_endpointID sess), se_driver sess) of
             (Some ep, Some d) \<Rightarrow>
               reload_bases w sid (se_ownerID sess) ep d (q_Entries (se_q sess))
                 (mediaTTL (q_Entries (se_q sess))) index positionMS play
                 (forKind (w_bases w) (ep_Kind ep)) '''' s
           | _ \<Rightarrow> (Inl (ErrEndpointOffline ''''), s)))"

end
