(* ===== verification/Commands.thy ===== *)
theory Commands
  imports Bus
begin

text \<open>
  The handlers of the connect service that move playback: starting a session
  (\<open>CreateSession\<close>), handing it over (\<open>Transfer\<close>), ending it (\<open>End\<close>), the controller's verbs
  (\<open>HandleCommand\<close> with \<open>validateCommand\<close> and \<open>applyRemoteCommand\<close>), and the folding of
  driver events (\<open>onDriverEvent\<close>) with the repeat policy.  Each is the code's sequence of
  sections and outside calls over the state of theory \<open>Service\<close>.
\<close>

section \<open>Verbs\<close>

record command_args =
  ca_PositionMS :: "int option"
  ca_Volume :: "rat option"
  ca_Rate :: "rat option"
  ca_ItemPids :: "ident list"
  ca_Index :: "int option"
  ca_Repeat :: string
  ca_Shuffle :: "bool option"

definition refuse :: "string \<Rightarrow> 'a result" where
  "refuse msg = Inl (InvalidError msg '''')"

definition validateCommand :: "string \<Rightarrow> command_args \<Rightarrow> unit result" where
  "validateCommand verb args =
     (if verb \<in> {''play'', ''pause'', ''stop'', ''next'', ''previous''} then Inr ()
      else if verb = ''seek'' then
        (case ca_PositionMS args of
           Some p \<Rightarrow> if p < 0 then refuse ''seek needs a non-negative positionMs'' else Inr ()
         | None \<Rightarrow> refuse ''seek needs a non-negative positionMs'')
      else if verb = ''set-volume'' then
        (case ca_Volume args of
           Some v \<Rightarrow> if v < 0 \<or> v > 1 then refuse ''set-volume needs volume between 0 and 1'' else Inr ()
         | None \<Rightarrow> refuse ''set-volume needs volume between 0 and 1'')
      else if verb = ''set-rate'' then
        (case ca_Rate args of
           Some r \<Rightarrow> if r < minRate \<or> r > maxRate
             then refuse ''set-rate needs a rate between 0.25 and 5'' else Inr ()
         | None \<Rightarrow> refuse ''set-rate needs a rate between 0.25 and 5'')
      else if verb = ''set-queue'' then
        (if ca_ItemPids args = [] \<or> length (ca_ItemPids args) > maxQueueItems
         then refuse ''set-queue needs 1 to 500 itemPids''
         else case ca_Index args of
           Some i \<Rightarrow> if i < 0 \<or> i \<ge> int (length (ca_ItemPids args))
             then refuse ''set-queue index is outside the queue'' else Inr ()
         | None \<Rightarrow> Inr ())
      else if verb = ''set-repeat'' then
        (if ca_Repeat args \<in> {''off'', ''all'', ''one''} then Inr ()
         else refuse ''set-repeat needs repeat off, all, or one'')
      else if verb = ''set-shuffle'' then
        (if ca_Shuffle args = None then refuse ''set-shuffle needs shuffle'' else Inr ())
      else refuse (''unknown verb '' @ verb))"

section \<open>Updating a session\<close>

definition updateSession :: "time \<Rightarrow> ident \<Rightarrow> (session \<Rightarrow> session) \<Rightarrow> svc \<Rightarrow> svc" where
  "updateSession now sid mutate s = upd_obj sid (\<lambda>sess. (mutate sess)\<lparr>se_updatedAt := now\<rparr>) s"

definition set_q :: "(queue_state \<Rightarrow> queue_state) \<Rightarrow> session \<Rightarrow> session" where
  "set_q f sess = sess\<lparr>se_q := f (se_q sess)\<rparr>"

text \<open>Settle the position at an instant, as play, pause, stop and set-rate do.\<close>

definition settle_at :: "time \<Rightarrow> queue_state \<Rightarrow> queue_state" where
  "settle_at now q = q\<lparr>q_PositionMS := extrapolate q now, q_PositionAt := now\<rparr>"

definition checkpointRemote :: "world \<Rightarrow> ident \<Rightarrow> svc \<Rightarrow> svc" where
  "checkpointRemote w sid s =
     (case sv_obj s sid of
        None \<Rightarrow> s
      | Some sess \<Rightarrow>
          if se_authority sess \<noteq> AuthorityRemote then s
          else let snap = snapshot s (clock w s) sess; pid = currentPID snap;
                   s1 = (if pid \<noteq> '''' then eff (ECheckpoint (se_ownerID sess) pid (vw_PositionMS snap)) s
                         else s)
               in persist sid True s1)"

definition flushEntryListen :: "ident \<Rightarrow> svc \<Rightarrow> svc" where
  "flushEntryListen sid s =
     (case sv_obj s sid of
        None \<Rightarrow> s
      | Some sess \<Rightarrow>
          flushListen (se_ownerID sess) (sv_listen s sid) (s\<lparr>sv_listen := (sv_listen s)(sid := None)\<rparr>))"

section \<open>Remote verbs\<close>

definition remoteSeek ::
  "world \<Rightarrow> ident \<Rightarrow> drv \<Rightarrow> timeline_media option \<Rightarrow> int \<Rightarrow> svc \<Rightarrow> unit result \<times> svc" where
  "remoteSeek w sid d tm target s =
     (case sv_obj s sid of
        None \<Rightarrow> (Inr (), s)
      | Some sess \<Rightarrow>
          let index = q_Index (se_q sess);
              (mediaIdx, inMediaMS) = place (se_slots sess) index target;
              (res, s1) =
                (case tm of
                   Some t \<Rightarrow>
                     (case drive w d (DSeekTo (timelineAbsoluteMS t index target)) s of
                        (Some e, s') \<Rightarrow> (Inl (commandFailed e), s')
                      | (None, s') \<Rightarrow> (Inr (), s'))
                 | None \<Rightarrow>
                     if mediaIdx \<noteq> se_mediaIndex sess
                     then reloadRemote w sid index target (q_Playing (se_q sess)) s
                     else
                       (case drive w d (DSeekTo inMediaMS) s of
                          (Some e, s') \<Rightarrow> (Inl (commandFailed e), s')
                        | (None, s') \<Rightarrow> (Inr (), s')))
          in (case res of
                Inl e \<Rightarrow> (Inl e, s1)
              | Inr _ \<Rightarrow>
                  let now = clock w s1 in
                  (Inr (), updateSession now sid
                     (set_q (\<lambda>q. q\<lparr>q_PositionMS := target, q_PositionAt := now\<rparr>)) s1)))"

text \<open>Where \<open>remoteSkip\<close> goes: \<open>None\<close> past the end of a queue that does not repeat.\<close>

definition skip_index :: "queue_state \<Rightarrow> bool \<Rightarrow> int option" where
  "skip_index q forward =
     (let i0 = (if forward then q_Index q + 1 else q_Index q - 1);
          i = (if i0 < 0 then 0 else i0)
      in if i \<ge> int (length (q_Entries q))
         then (if q_Repeat q = ''all'' then Some 0 else None)
         else Some i)"

definition remoteSkip ::
  "world \<Rightarrow> ident \<Rightarrow> drv \<Rightarrow> timeline_media option \<Rightarrow> bool \<Rightarrow> svc \<Rightarrow> unit result \<times> svc" where
  "remoteSkip w sid d tm forward s =
     (case sv_obj s sid of
        None \<Rightarrow> (Inr (), s)
      | Some sess \<Rightarrow>
          (case skip_index (se_q sess) forward of
             None \<Rightarrow> (Inl (InvalidError ''already at the end of the queue'' ''queue-end''), s)
           | Some index \<Rightarrow>
               let (res, s1) =
                     (case tm of
                        Some t \<Rightarrow>
                          (case drive w d (DSeekTo (timelineAbsoluteMS t index 0)) s of
                             (Some e, s') \<Rightarrow> (Inl (commandFailed e), s')
                           | (None, s') \<Rightarrow> (Inr (), s'))
                      | None \<Rightarrow> reloadRemote w sid index 0 True s)
               in (case res of
                     Inl e \<Rightarrow> (Inl e, s1)
                   | Inr _ \<Rightarrow>
                       let s2 = flushEntryListen sid s1;
                           now = clock w s2;
                           s3 = updateSession now sid
                                  (set_q (\<lambda>q. q\<lparr>q_Index := index, q_PositionMS := 0, q_PositionAt := now\<rparr>)) s2
                       in (Inr (), checkpointRemote w sid s3))))"

definition setQueue_section :: "ident \<Rightarrow> queue_entry list \<Rightarrow> svc \<Rightarrow> svc" where
  "setQueue_section sid entries s =
     upd_obj sid (set_q (\<lambda>q. q\<lparr>q_Entries := entries, q_QueueVersion := q_QueueVersion q + 1\<rparr>)) s"

definition remoteSetQueue :: "world \<Rightarrow> ident \<Rightarrow> command_args \<Rightarrow> svc \<Rightarrow> unit result \<times> svc" where
  "remoteSetQueue w sid args s =
     (case sv_obj s sid of
        None \<Rightarrow> (Inr (), s)
      | Some sess \<Rightarrow>
          (case w_entries w (sv_log s) (se_ownerID sess) (ca_ItemPids args) of
             Inl e \<Rightarrow> (Inl e, s)
           | Inr entries \<Rightarrow>
               let index = (case ca_Index args of Some i \<Rightarrow> i | None \<Rightarrow> 0);
                   positionMS = (case ca_PositionMS args of Some p \<Rightarrow> p | None \<Rightarrow> 0);
                   (res, s2) = reloadRemote w sid index positionMS True (setQueue_section sid entries s)
               in (case res of
                     Inl e \<Rightarrow> (Inl e, s2)
                   | Inr _ \<Rightarrow>
                       let now = clock w s2;
                           s3 = updateSession now sid
                                  (set_q (\<lambda>q. q\<lparr>q_Index := index, q_PositionMS := positionMS,
                                               q_PositionAt := now, q_Playing := True\<rparr>)) s2
                       in (Inr (), eff EInvalidate
                             (eff (ESetQueue (se_ownerID sess) (ca_ItemPids args)) (persist sid True s3))))))"

definition shuffle_section :: "(nat \<Rightarrow> nat option) \<Rightarrow> ident \<Rightarrow> bool \<Rightarrow> svc \<Rightarrow> svc" where
  "shuffle_section draw sid on s =
     upd_obj sid (set_q (\<lambda>q.
       let q1 = q\<lparr>q_Shuffle := on\<rparr> in
       if on then q1\<lparr>q_Entries := shuffledEntries draw (q_Entries q1) (q_Index q1), q_Index := 0,
                     q_QueueVersion := q_QueueVersion q1 + 1\<rparr>
       else q1)) s"

definition remoteSetShuffle :: "world \<Rightarrow> ident \<Rightarrow> bool \<Rightarrow> svc \<Rightarrow> unit result \<times> svc" where
  "remoteSetShuffle w sid on s =
     (let s1 = shuffle_section (w_rand w (sv_log s)) sid on s in
      case sv_obj s1 sid of
        None \<Rightarrow> (Inr (), s1)
      | Some sess \<Rightarrow>
          if \<not> on then (Inr (), persist sid True (updateSession (clock w s1) sid id s1))
          else
            (case reloadRemote w sid (q_Index (se_q sess)) (extrapolate (se_q sess) (clock w s1))
                    (q_Playing (se_q sess)) s1 of
               (Inl e, s2) \<Rightarrow> (Inl e, s2)
             | (Inr _, s2) \<Rightarrow> (Inr (), eff EInvalidate (persist sid True s2))))"

text \<open>A verb that is one driver call and one change of the queue state.\<close>

definition simple_verb ::
  "world \<Rightarrow> ident \<Rightarrow> drv \<Rightarrow> driver_call \<Rightarrow> (queue_state \<Rightarrow> queue_state) \<Rightarrow> svc \<Rightarrow> unit result \<times> svc" where
  "simple_verb w sid d c f s =
     (case drive w d c s of
        (Some e, s1) \<Rightarrow> (Inl (commandFailed e), s1)
      | (None, s1) \<Rightarrow> (Inr (), updateSession (clock w s1) sid (set_q f) s1))"

definition and_then :: "(svc \<Rightarrow> svc) \<Rightarrow> unit result \<times> svc \<Rightarrow> unit result \<times> svc" where
  "and_then f r = (case r of (Inl e, s) \<Rightarrow> (Inl e, s) | (Inr u, s) \<Rightarrow> (Inr u, f s))"

definition applyRemoteCommand ::
  "world \<Rightarrow> ident \<Rightarrow> drv \<Rightarrow> timeline_media option \<Rightarrow> string \<Rightarrow> command_args \<Rightarrow> svc
     \<Rightarrow> unit result \<times> svc" where
  "applyRemoteCommand w sid d tm verb args s =
     (let now = clock w s in
      if verb = ''play'' then
        simple_verb w sid d DPlay (\<lambda>q. (settle_at now q)\<lparr>q_Playing := True\<rparr>) s
      else if verb = ''pause'' then
        and_then (checkpointRemote w sid)
          (simple_verb w sid d DPause (\<lambda>q. (settle_at now q)\<lparr>q_Playing := False\<rparr>) s)
      else if verb = ''stop'' then
        and_then (checkpointRemote w sid)
          (simple_verb w sid d DStop (\<lambda>q. (settle_at now q)\<lparr>q_Playing := False\<rparr>) s)
      else if verb = ''seek'' then
        (case ca_PositionMS args of Some p \<Rightarrow> remoteSeek w sid d tm p s | None \<Rightarrow> (Inr (), s))
      else if verb = ''next'' \<or> verb = ''previous'' then
        remoteSkip w sid d tm (verb = ''next'') s
      else if verb = ''set-volume'' then
        (case ca_Volume args of
           Some v \<Rightarrow> simple_verb w sid d (DSetVolume v) (\<lambda>q. q\<lparr>q_Volume := Some v\<rparr>) s
         | None \<Rightarrow> (Inr (), s))
      else if verb = ''set-rate'' then
        (case ca_Rate args of
           Some r \<Rightarrow> simple_verb w sid d (DSetRate r) (\<lambda>q. (settle_at now q)\<lparr>q_Rate := r\<rparr>) s
         | None \<Rightarrow> (Inr (), s))
      else if verb = ''set-queue'' then remoteSetQueue w sid args s
      else if verb = ''set-repeat'' then
        (Inr (), persist sid True
           (updateSession (clock w s) sid (set_q (\<lambda>q. q\<lparr>q_Repeat := ca_Repeat args\<rparr>)) s))
      else if verb = ''set-shuffle'' then
        (case ca_Shuffle args of Some b \<Rightarrow> remoteSetShuffle w sid b s | None \<Rightarrow> (Inr (), s))
      else (Inr (), s))"

section \<open>Controller commands\<close>

definition routeCommandToClient ::
  "world \<Rightarrow> ident \<Rightarrow> ident \<Rightarrow> string \<Rightarrow> command_args \<Rightarrow> svc \<Rightarrow> unit result \<times> svc" where
  "routeCommandToClient w sessionID endpointID verb args s =
     (case reg_link (sv_reg s) endpointID of
        None \<Rightarrow> (Inl (ErrEndpointOffline ''''), s)
      | Some link \<Rightarrow>
          let cmd = blank_command\<lparr>ec_SessionID := sessionID, ec_Verb := verb,
                ec_ItemPids := ca_ItemPids args, ec_Index := ca_Index args,
                ec_PositionMS := ca_PositionMS args, ec_Volume := ca_Volume args,
                ec_Rate := ca_Rate args, ec_Repeat := ca_Repeat args, ec_Shuffle := ca_Shuffle args\<rparr>;
              (res, s1) = routeToLink w link cmd s
          in (case res of
                Inl e \<Rightarrow> (Inl e, s1)
              | Inr r \<Rightarrow> if rr_ok r then (Inr (), s1)
                  else (Inl (InvalidError
                         (if rr_message r = '''' then ''the client rejected the command'' else rr_message r)
                         (rr_code r)), s1)))"

definition stop_live_section :: "time \<Rightarrow> ident \<Rightarrow> svc \<Rightarrow> svc" where
  "stop_live_section now sid s =
     (if sid \<in> set (sv_live s) then endSessionLocked now sid False s else s)"

text \<open>The checks of \<open>HandleCommand\<close> between its first section and the first effect.\<close>

definition command_checks ::
  "world \<Rightarrow> client_link \<Rightarrow> session \<Rightarrow> string \<Rightarrow> command_args \<Rightarrow> svc \<Rightarrow> unit result" where
  "command_checks w link sess verb args s =
     (case validateCommand verb args of
        Inl e \<Rightarrow> Inl e
      | Inr _ \<Rightarrow>
          (let gate = (case Lookup (sv_reg s) (se_ownerID sess) (se_endpointID sess) of
                 None \<Rightarrow> Inr ()
               | Some ep \<Rightarrow>
                   if ep_Shared ep \<and> \<not> sharedAllowed w s (lk_UserID link) then Inl ErrForbidden
                   else if verb = ''set-volume'' \<and> \<not> ep_VolumeControl ep
                   then refuse ''this endpoint has no volume control''
                   else if verb = ''set-rate'' \<and> \<not> ep_RateControl ep
                   then refuse ''this endpoint has no rate control''
                   else Inr ())
           in case gate of
                Inl e \<Rightarrow> Inl e
              | Inr _ \<Rightarrow>
                  if verb = ''set-queue'' \<and> lk_UserID link \<noteq> se_ownerID sess
                  then (case w_entries w (sv_log s) (lk_UserID link) (ca_ItemPids args) of
                          Inl e \<Rightarrow> Inl e | Inr _ \<Rightarrow> Inr ())
                  else Inr ()))"

definition mirror_command ::
  "world \<Rightarrow> client_link \<Rightarrow> session \<Rightarrow> string \<Rightarrow> command_args \<Rightarrow> svc \<Rightarrow> session_view result \<times> svc" where
  "mirror_command w link sess verb args s =
     (if reg_link (sv_reg s) (se_endpointID sess) = Some link
      then (refuse ''this client drives the session locally; apply it to the local player'', s)
      else
        (case routeCommandToClient w (se_id sess) (se_endpointID sess) verb args s of
           (Inl e, s1) \<Rightarrow> (Inl e, s1)
         | (Inr _, s1) \<Rightarrow>
             (case get_session w (lk_UserID link) (se_id sess) s1 of
                Inl e \<Rightarrow> (Inl e, s1)
              | Inr snap \<Rightarrow>
                  if verb = ''stop''
                  then (Inr (snap\<lparr>vw_Playing := False\<rparr>),
                        eff EInvalidate (stop_live_section (clock w s1) (se_id sess) s1))
                  else (Inr snap, s1))))"

definition HandleCommand ::
  "world \<Rightarrow> client_link \<Rightarrow> ident \<Rightarrow> string \<Rightarrow> command_args \<Rightarrow> svc \<Rightarrow> session_view result \<times> svc" where
  "HandleCommand w link sessionID verb args s =
     (case live_session s sessionID of
        None \<Rightarrow> (Inl ErrNotFound, s)
      | Some sess \<Rightarrow>
          if \<not> visible_session s (lk_UserID link) sess then (Inl ErrNotFound, s)
          else
            (case command_checks w link sess verb args s of
               Inl e \<Rightarrow> (Inl e, s)
             | Inr _ \<Rightarrow>
                 (case (se_authority sess, se_driver sess) of
                    (AuthorityRemote, Some d) \<Rightarrow>
                      (case applyRemoteCommand w sessionID d (se_timeline sess) verb args s of
                         (Inl e, s1) \<Rightarrow> (Inl e, s1)
                       | (Inr _, s1) \<Rightarrow>
                           (case get_session w (lk_UserID link) sessionID s1 of
                              Inl e \<Rightarrow> (Inl e, s1)
                            | Inr snap \<Rightarrow> (Inr snap, notifyWatchers w sessionID s1)))
                  | _ \<Rightarrow> mirror_command w link sess verb args s)))"

section \<open>Starting a session\<close>

record session_request =
  rq_EndpointID :: ident
  rq_PIDs :: "ident list"
  rq_Index :: int
  rq_PositionMS :: int
  rq_Play :: bool
  rq_Rate :: "rat option"
  rq_Repeat :: string
  rq_Shuffle :: bool
  rq_HandoffFrom :: ident

text \<open>What \<open>CreateSession\<close> decides before anything is loaded: the target endpoint, the rate and
  repeat mode the session records, and the client endpoint a handoff leaves (empty for none).\<close>

definition create_checks ::
  "world \<Rightarrow> ident \<Rightarrow> session_request \<Rightarrow> svc \<Rightarrow> (endpoint \<times> rat \<times> string \<times> ident) result" where
  "create_checks w userID req s =
     (let rate = (case rq_Rate req of Some r \<Rightarrow> r | None \<Rightarrow> 1);
          rep = (if rq_Repeat req = '''' then ''off'' else rq_Repeat req) in
      if rq_PIDs req = [] \<or> length (rq_PIDs req) > maxQueueItems
      then refuse (''queue must hold 1 to 500 items'')
      else if rq_Index req < 0 \<or> rq_Index req \<ge> int (length (rq_PIDs req))
      then refuse ''index is outside the queue''
      else if rq_PositionMS req < 0 then refuse ''positionMs must not be negative''
      else if rate < minRate \<or> rate > maxRate then refuse ''rate must be between 0.25 and 5''
      else if rep \<notin> {''off'', ''all'', ''one''} then refuse ''repeat must be off, all, or one''
      else
        case Lookup (sv_reg s) userID (rq_EndpointID req) of
          None \<Rightarrow> Inl ErrNotFound
        | Some ep \<Rightarrow>
            if ep_Shared ep \<and> \<not> sharedAllowed w s userID then Inl ErrForbidden
            else
              (let source =
                     (if rq_HandoffFrom req = '''' then Inr ''''
                      else case Lookup (sv_reg s) userID (rq_HandoffFrom req) of
                        None \<Rightarrow> Inr ''''
                      | Some src \<Rightarrow> if ep_Kind src \<noteq> KindClient \<or> ep_Shared src
                          then Inl ErrForbidden else Inr (rq_HandoffFrom req))
               in case source of
                    Inl e \<Rightarrow> Inl e
                  | Inr from \<Rightarrow> Inr (ep, if ep_RateControl ep then rate else 1, rep, from)))"

definition new_session ::
  "time \<Rightarrow> ident \<Rightarrow> ident \<Rightarrow> string \<Rightarrow> session_request \<Rightarrow> authority \<Rightarrow> queue_entry list \<Rightarrow> rat \<Rightarrow> string
     \<Rightarrow> session" where
  "new_session now sid userID userName req auth entries rate rep =
     \<lparr>se_id = sid, se_ownerID = userID, se_ownerName = userName, se_endpointID = rq_EndpointID req,
      se_authority = auth,
      se_q = \<lparr>q_Entries = entries, q_Index = rq_Index req, q_PositionMS = rq_PositionMS req,
              q_PositionAt = now, q_Playing = rq_Play req, q_Rate = rate, q_Volume = None,
              q_Repeat = rep, q_Shuffle = rq_Shuffle req, q_QueueVersion = 1\<rparr>,
      se_driver = None, se_driverCancel = None, se_timeline = None, se_slots = [],
      se_mediaIndex = 0, se_createdAt = now, se_updatedAt = now, se_ended = False\<rparr>"

definition alloc :: "session \<Rightarrow> svc \<Rightarrow> svc" where
  "alloc sess s = s\<lparr>sv_obj := (sv_obj s)(se_id sess \<mapsto> sess)\<rparr>"

definition adoptSession :: "world \<Rightarrow> ident \<Rightarrow> svc \<Rightarrow> session_view option \<times> svc" where
  "adoptSession w sid s =
     (let now = clock w s; s1 = adopt_section now sid s in
      case sv_obj s1 sid of
        None \<Rightarrow> (None, s1)
      | Some sess \<Rightarrow>
          let snap = snapshot s1 now sess
          in (Some snap, eff EInvalidate
                (eff (ESetQueue (se_ownerID sess) (entryPIDs (vw_Entries snap))) (persist sid True s1))))"

text \<open>The locked half of \<open>endHandoffSource\<close>: which session it ended.\<close>

definition handoff_section :: "time \<Rightarrow> ident \<Rightarrow> ident \<Rightarrow> ident \<Rightarrow> svc \<Rightarrow> ident option \<times> svc" where
  "handoff_section now userID endpointID keep s =
     (case sv_byEndpoint s endpointID of
        None \<Rightarrow> (None, s)
      | Some oldID \<Rightarrow>
          if oldID = keep then (None, s)
          else
            (case live_session s oldID of
               None \<Rightarrow> (None, s)
             | Some old \<Rightarrow>
                 if se_ownerID old \<noteq> userID then (None, s)
                 else (Some oldID, endSessionLocked now oldID True s)))"

definition endHandoffSource :: "world \<Rightarrow> ident \<Rightarrow> ident \<Rightarrow> ident \<Rightarrow> svc \<Rightarrow> svc" where
  "endHandoffSource w userID endpointID keep s =
     (if endpointID = '''' then s
      else
        (case handoff_section (clock w s) userID endpointID keep s of
           (None, s1) \<Rightarrow> s1
         | (Some oldID, s1) \<Rightarrow> eff EInvalidate (persist oldID False s1)))"

definition attachDriver :: "ident \<Rightarrow> loaded_device \<Rightarrow> svc \<Rightarrow> svc" where
  "attachDriver sid loaded s =
     (let s1 = bindDeviceLocked sid loaded s
      in eff (EPump sid (sv_driverGen s1 sid) (ld_driver loaded)) s1)"

definition create_on_client ::
  "world \<Rightarrow> ident \<Rightarrow> session_request \<Rightarrow> session \<Rightarrow> ident \<Rightarrow> svc \<Rightarrow> session_view option result \<times> svc" where
  "create_on_client w userID req sess from s =
     (let e = rq_EndpointID req; sid = se_id sess;
          s1 = markLoadPending e sid (alloc (sess\<lparr>se_authority := AuthorityMirror\<rparr>) s)
      in case loadOnClient w sid (rq_PIDs req) e (rq_Index req) (rq_PositionMS req) (rq_Play req)
                (q_Rate (se_q sess)) (q_Repeat (se_q sess)) s1 of
           (Inl err, s2) \<Rightarrow> (Inl err, clearLoadPending e s2)
         | (Inr _, s2) \<Rightarrow>
             let (snap, s3) = adoptSession w sid s2
             in (Inr snap, endHandoffSource w userID from sid (clearLoadPending e s3)))"

definition create_on_device ::
  "world \<Rightarrow> ident \<Rightarrow> session_request \<Rightarrow> endpoint \<Rightarrow> session \<Rightarrow> ident \<Rightarrow> svc
     \<Rightarrow> session_view option result \<times> svc" where
  "create_on_device w userID req ep sess from s =
     (let sid = se_id sess in
      case beginDriving (alloc sess s) of
        (Inl e, s1) \<Rightarrow> (Inl e, s1)
      | (Inr _, s1) \<Rightarrow>
          (case loadOnDevice w (se_ownerID sess) ep (q_Entries (se_q sess)) (rq_Index req)
                  (rq_PositionMS req) (rq_Play req) s1 of
             (Inl e, s2) \<Rightarrow> (Inl e, endDriving s2)
           | (Inr loaded, s2) \<Rightarrow>
               let s3 = attachDriver sid loaded s2;
                   rate = q_Rate (se_q sess);
                   s4 = (if rate \<noteq> 1 then snd (drive w (ld_driver loaded) (DSetRate rate) s3) else s3);
                   (snap, s5) = adoptSession w sid s4
               in (Inr snap, endDriving (endHandoffSource w userID from sid s5))))"

definition CreateSession ::
  "world \<Rightarrow> ident \<Rightarrow> string \<Rightarrow> session_request \<Rightarrow> svc \<Rightarrow> session_view option result \<times> svc" where
  "CreateSession w userID userName req s =
     (case create_checks w userID req s of
        Inl e \<Rightarrow> (Inl e, s)
      | Inr (ep, rate, rep, from) \<Rightarrow>
          (case w_entries w (sv_log s) userID (rq_PIDs req) of
             Inl e \<Rightarrow> (Inl e, s)
           | Inr entries \<Rightarrow>
               let sess = new_session (clock w s) (w_newid w (sv_log s)) userID userName req
                            AuthorityRemote entries rate rep
               in if ep_Kind ep = KindClient then create_on_client w userID req sess from s
                  else create_on_device w userID req ep sess from s))"

section \<open>Transferring and ending\<close>

definition releaseTransferTarget :: "world \<Rightarrow> ident \<Rightarrow> endpoint \<Rightarrow> drv option \<Rightarrow> svc \<Rightarrow> svc" where
  "releaseTransferTarget w sessionID target d s =
     (case d of
        Some dr \<Rightarrow> eff (EClose dr) (snd (drive w dr DStop s))
      | None \<Rightarrow>
          (case reg_link (sv_reg s) (ep_ID target) of
             Some link \<Rightarrow> snd (routeToLink w link (stop_command sessionID) s)
           | None \<Rightarrow> s))"

definition load_target ::
  "world \<Rightarrow> ident \<Rightarrow> endpoint \<Rightarrow> transfer_plan \<Rightarrow> svc \<Rightarrow> loaded_device option result \<times> svc" where
  "load_target w sessionID target plan s =
     (if ep_Kind target = KindClient
      then
        (case loadOnClient w sessionID (entryPIDs (tp_entries plan)) (ep_ID target) (tp_index plan)
                (tp_positionMS plan) (tp_play plan) (tp_rate plan) (tp_repeat plan)
                (markLoadPending (ep_ID target) sessionID s) of
           (Inl e, s1) \<Rightarrow> (Inl e, clearLoadPending (ep_ID target) s1)
         | (Inr _, s1) \<Rightarrow> (Inr None, s1))
      else
        (case loadOnDevice w (tp_owner plan) target (tp_entries plan) (tp_index plan)
                (tp_positionMS plan) (tp_play plan) s of
           (Inl e, s1) \<Rightarrow> (Inl e, s1)
         | (Inr ld, s1) \<Rightarrow> (Inr (Some ld), s1)))"

definition quiesce_source :: "world \<Rightarrow> ident \<Rightarrow> transfer_plan \<Rightarrow> svc \<Rightarrow> svc" where
  "quiesce_source w sessionID plan s =
     (case tp_oldDriver plan of
        Some d \<Rightarrow> eff (EClose d) (cancel_pump (tp_oldCancel plan) (snd (drive w d DStop s)))
      | None \<Rightarrow>
          if tp_oldAuthority plan = AuthorityMirror
          then (case reg_link (sv_reg s) (tp_oldEndpoint plan) of
                  Some link \<Rightarrow> snd (routeToLink w link (stop_command sessionID) s)
                | None \<Rightarrow> s)
          else s)"

definition Transfer ::
  "world \<Rightarrow> ident \<Rightarrow> ident \<Rightarrow> ident \<Rightarrow> svc \<Rightarrow> session_view result \<times> svc" where
  "Transfer w userID sessionID targetEndpointID s =
     (case beginDriving s of
        (Inl e, s0) \<Rightarrow> (Inl e, s0)
      | (Inr _, s0) \<Rightarrow>
          (case transfer_check (sharedAllowed w s0) (clock w s0) userID sessionID targetEndpointID s0 of
             TRefused e \<Rightarrow> (Inl e, endDriving s0)
           | TAlreadyThere snap \<Rightarrow> (Inr (receiver_view w s0 snap userID), endDriving s0)
           | TGo target plan \<Rightarrow>
               (case load_target w sessionID target plan s0 of
                  (Inl e, s1) \<Rightarrow> (Inl e, endDriving s1)
                | (Inr loaded, s1) \<Rightarrow>
                    (case transfer_commit (clock w s1) sessionID target plan loaded s1 of
                       (None, s2) \<Rightarrow>
                         (Inl ErrNotFound, endDriving
                            (releaseTransferTarget w sessionID target (map_option ld_driver loaded) s2))
                     | (Some snap, s2) \<Rightarrow>
                         let s3 = (case loaded of
                                     Some ld \<Rightarrow> eff (EPump sessionID (sv_driverGen s2 sessionID) (ld_driver ld)) s2
                                   | None \<Rightarrow> s2);
                             s4 = quiesce_source w sessionID plan s3;
                             s5 = (if tp_oldAuthority plan = AuthorityRemote \<and> tp_oldDriver plan \<noteq> None
                                   then eff (ECheckpoint (tp_owner plan) (currentPID snap) (tp_positionMS plan)) s4
                                   else s4);
                             s6 = eff EInvalidate (notifyWatchers w sessionID (persist sessionID True s5))
                         in (Inr (receiver_view w s6 snap userID), endDriving s6)))))"

definition End :: "world \<Rightarrow> ident \<Rightarrow> ident \<Rightarrow> svc \<Rightarrow> unit result \<times> svc" where
  "End w userID sessionID s =
     (case live_session s sessionID of
        None \<Rightarrow> (Inl ErrNotFound, s)
      | Some sess \<Rightarrow>
          if \<not> visible_session s userID sess then (Inl ErrNotFound, s)
          else (Inr (), eff EInvalidate
                 (persist sessionID False (endSessionLocked (clock w s) sessionID True s))))"

end
