(* ===== verification/Reports.thy ===== *)
theory Reports
  imports Commands
begin

text \<open>
  The other half of \<open>bus.go\<close>: what devices and clients report.  Driver events fold into the
  session they were pumped for (\<open>onDriverEvent\<close>, with the repeat policy of
  \<open>onLoadFinished\<close>), client reports mirror a client's playback (\<open>HandleSessionReport\<close>), and
  connections register, watch and disconnect.  The housekeeping loop of \<open>Run\<close> is one
  \<open>run_tick\<close> per tick.
\<close>

section \<open>Driver events\<close>

record driver_event =
  ev_At :: time
  ev_Playing :: bool
  ev_Index :: int
  ev_PositionMS :: int
  ev_Volume :: "rat option"
  ev_Finished :: bool
  ev_Fatal :: bool

text \<open>Where the event says playback is: queue index, position on that entry, and the media index
  the session remembers.\<close>

definition event_position :: "session \<Rightarrow> driver_event \<Rightarrow> time \<Rightarrow> int \<times> int \<times> int" where
  "event_position sess ev now =
     (let q = se_q sess; stay = (q_Index q, extrapolate q now);
          (place, mediaIdx) =
            (case se_timeline sess of
               Some tm \<Rightarrow> (timelineLocate tm (ev_PositionMS ev), se_mediaIndex sess)
             | None \<Rightarrow>
                 if in_range (ev_Index ev) (se_slots sess)
                 then (locate (se_slots sess) (ev_Index ev) (ev_PositionMS ev), ev_Index ev)
                 else if se_slots sess = [] \<and> in_range (ev_Index ev) (q_Entries q)
                 then ((ev_Index ev, ev_PositionMS ev), se_mediaIndex sess)
                 else (stay, se_mediaIndex sess));
          (index, posMS) = (if in_range (fst place) (q_Entries q) then place else stay)
      in (index, posMS, mediaIdx))"

text \<open>Listen accounting: the track the event leaves in the map, from the one found there.\<close>

definition listen_after ::
  "session \<Rightarrow> driver_event \<Rightarrow> time \<Rightarrow> int \<Rightarrow> int \<Rightarrow> listen_track option \<Rightarrow> listen_track option" where
  "listen_after sess ev now index posMS lt0 =
     (let q = se_q sess;
          pid = (if in_range (q_Index q) (q_Entries q) then qe_PID (q_Entries q ! nat (q_Index q)) else '''');
          lt = (case lt0 of
                  Some t \<Rightarrow> Some t
                | None \<Rightarrow> if pid \<noteq> '''' \<and> ev_Playing ev
                    then Some \<lparr>lt_pid = pid, lt_startedAt = now, lt_playedMS = 0, lt_lastPos = posMS\<rparr>
                    else None)
      in case lt of
           None \<Rightarrow> None
         | Some t \<Rightarrow>
             if index = q_Index q \<and> q_Playing q
             then let delta = posMS - lt_lastPos t
                  in Some (t\<lparr>lt_playedMS := lt_playedMS t + (if delta > 0 \<and> delta < 30000 then delta else 0),
                             lt_lastPos := posMS\<rparr>)
             else Some t)"

definition fold_event :: "driver_event \<Rightarrow> time \<Rightarrow> time \<Rightarrow> int \<times> int \<times> int \<Rightarrow> session \<Rightarrow> session" where
  "fold_event ev at_time now pos sess =
     (case pos of (index, posMS, mediaIdx) \<Rightarrow>
        sess\<lparr>se_mediaIndex := mediaIdx,
             se_q := (se_q sess)\<lparr>q_Index := index, q_PositionMS := posMS, q_PositionAt := at_time,
                q_Playing := ev_Playing ev,
                q_Volume := (case ev_Volume ev of Some v \<Rightarrow> Some v | None \<Rightarrow> q_Volume (se_q sess))\<rparr>,
             se_updatedAt := now\<rparr>)"

record event_outcome =
  eo_owner :: ident
  eo_snap :: session_view
  eo_finishedListen :: "listen_track option"
  eo_checkpoint :: bool
  eo_repeat :: string

datatype event_result = EDropped | EFatalEnd | EFolded event_outcome

text \<open>The section of \<open>onDriverEvent\<close> under the lock; \<open>now\<close> is the service's clock, and the
  event's own time counts where it has one.\<close>

definition event_section ::
  "time \<Rightarrow> ident \<Rightarrow> nat \<Rightarrow> driver_event \<Rightarrow> svc \<Rightarrow> event_result \<times> svc" where
  "event_section now sessionID gen ev s =
     (case live_session s sessionID of
        None \<Rightarrow> (EDropped, s)
      | Some sess \<Rightarrow>
          if sv_driverGen s sessionID \<noteq> gen then (EDropped, s)
          else if ev_Fatal ev then (EFatalEnd, endSessionLocked now sessionID False s)
          else
            let at_time = (if ev_At ev = zero_time then now else ev_At ev);
                pos = event_position sess ev at_time;
                index = fst pos; posMS = fst (snd pos);
                changed = (index \<noteq> q_Index (se_q sess));
                pauseEdge = (q_Playing (se_q sess) \<and> \<not> ev_Playing ev);
                lt = listen_after sess ev at_time index posMS (sv_listen s sessionID);
                sess' = fold_event ev at_time now pos sess;
                s' = s\<lparr>sv_obj := (sv_obj s)(sessionID \<mapsto> sess'),
                       sv_listen := (sv_listen s)(sessionID := (if changed then None else lt))\<rparr>
            in (EFolded \<lparr>eo_owner = se_ownerID sess, eo_snap = snapshot s' now sess',
                         eo_finishedListen = (if changed then lt else None),
                         eo_checkpoint = (changed \<or> pauseEdge),
                         eo_repeat = q_Repeat (se_q sess')\<rparr>, s'))"

definition settleFinished :: "world \<Rightarrow> ident \<Rightarrow> svc \<Rightarrow> svc" where
  "settleFinished w sid s =
     notifyWatchers w sid
       (checkpointRemote w sid
         (flushEntryListen sid
           (updateSession (clock w s) sid (set_q (\<lambda>q. q\<lparr>q_Playing := False\<rparr>)) s)))"

definition onLoadFinished :: "world \<Rightarrow> ident \<Rightarrow> string \<Rightarrow> svc \<Rightarrow> svc" where
  "onLoadFinished w sid rep s =
     (if rep = ''all'' then
        (case reloadRemote w sid 0 0 True s of
           (Inl _, s1) \<Rightarrow> settleFinished w sid s1
         | (Inr _, s1) \<Rightarrow>
             notifyWatchers w sid
               (updateSession (clock w s1) sid
                 (set_q (\<lambda>q. q\<lparr>q_Index := 0, q_PositionMS := 0, q_PositionAt := clock w s1,
                              q_Playing := True\<rparr>)) s1))
      else if rep = ''one'' then
        (case sv_obj s sid of
           None \<Rightarrow> s
         | Some sess \<Rightarrow>
             (case reloadRemote w sid (q_Index (se_q sess)) 0 True s of
                (Inl _, s1) \<Rightarrow> settleFinished w sid s1
              | (Inr _, s1) \<Rightarrow>
                  notifyWatchers w sid
                    (updateSession (clock w s1) sid
                      (set_q (\<lambda>q. q\<lparr>q_PositionMS := 0, q_PositionAt := clock w s1, q_Playing := True\<rparr>)) s1)))
      else settleFinished w sid s)"

definition onDriverEvent :: "world \<Rightarrow> ident \<Rightarrow> nat \<Rightarrow> driver_event \<Rightarrow> svc \<Rightarrow> svc" where
  "onDriverEvent w sessionID gen ev s =
     (case event_section (clock w s) sessionID gen ev s of
        (EDropped, s1) \<Rightarrow> s1
      | (EFatalEnd, s1) \<Rightarrow> eff EInvalidate s1
      | (EFolded eo, s1) \<Rightarrow>
          let s2 = flushListen (eo_owner eo) (eo_finishedListen eo) s1;
              pid = currentPID (eo_snap eo);
              s3 = (if pid \<noteq> '''' \<and> eo_checkpoint eo
                    then eff (ECheckpoint (eo_owner eo) pid (vw_PositionMS (eo_snap eo))) s2
                    else if pid \<noteq> '''' \<and> vw_Playing (eo_snap eo)
                    then eff (EProgress (eo_owner eo) pid (vw_PositionMS (eo_snap eo))) s2
                    else s2);
              s4 = notifyWatchers w sessionID s3
          in if ev_Finished ev then onLoadFinished w sessionID (eo_repeat eo) s4 else s4)"

section \<open>Client connections\<close>

definition register_section ::
  "client_link \<Rightarrow> string \<Rightarrow> bool \<Rightarrow> bool \<Rightarrow> svc \<Rightarrow> endpoint \<times> svc" where
  "register_section link name volumeControl rateControl s =
     (let (ep, r) = RegisterClient link name volumeControl rateControl (sv_reg s)
      in (ep, s\<lparr>sv_reg := r, sv_registered := (sv_registered s)(link := True)\<rparr>))"

definition HandleRegister ::
  "client_link \<Rightarrow> string \<Rightarrow> bool \<Rightarrow> bool \<Rightarrow> svc \<Rightarrow> ident \<times> svc" where
  "HandleRegister link name volumeControl rateControl s =
     (let (ep, s1) = register_section link name volumeControl rateControl s
      in (ep_ID ep, eff EInvalidate s1))"

record session_report =
  sp_Playing :: bool
  sp_PositionMS :: int
  sp_Index :: int
  sp_Rate :: "rat option"
  sp_Volume :: "rat option"
  sp_ItemPids :: "ident list"
  sp_Repeat :: string
  sp_Shuffle :: "bool option"

definition report_q :: "time \<Rightarrow> session_report \<Rightarrow> queue_state \<Rightarrow> queue_state" where
  "report_q now rep q =
     q\<lparr>q_Playing := sp_Playing rep, q_PositionMS := sp_PositionMS rep, q_PositionAt := now,
       q_Index := sp_Index rep,
       q_Rate := (case sp_Rate rep of Some r \<Rightarrow> r | None \<Rightarrow> q_Rate q),
       q_Volume := (case sp_Volume rep of Some v \<Rightarrow> Some v | None \<Rightarrow> q_Volume q),
       q_Repeat := (if sp_Repeat rep \<noteq> '''' then sp_Repeat rep else q_Repeat q),
       q_Shuffle := (case sp_Shuffle rep of Some b \<Rightarrow> b | None \<Rightarrow> q_Shuffle q),
       q_QueueVersion := (if sp_ItemPids rep \<noteq> [] then q_QueueVersion q + 1 else q_QueueVersion q)\<rparr>"

definition mirror_session :: "time \<Rightarrow> ident \<Rightarrow> client_link \<Rightarrow> session" where
  "mirror_session now sid link =
     \<lparr>se_id = sid, se_ownerID = lk_UserID link, se_ownerName = lk_UserName link,
      se_endpointID = clientEndpointID (lk_SessionID link), se_authority = AuthorityMirror,
      se_q = \<lparr>q_Entries = [], q_Index = 0, q_PositionMS = 0, q_PositionAt = zero_time,
              q_Playing = False, q_Rate = 1, q_Volume = None, q_Repeat = ''off'', q_Shuffle = False,
              q_QueueVersion = 0\<rparr>,
      se_driver = None, se_driverCancel = None, se_timeline = None, se_slots = [],
      se_mediaIndex = 0, se_createdAt = now, se_updatedAt = zero_time, se_ended = False\<rparr>"

definition ended_view :: "time \<Rightarrow> client_link \<Rightarrow> ident \<Rightarrow> session_view" where
  "ended_view now link sid =
     \<lparr>vw_ID = sid, vw_EndpointID = clientEndpointID (lk_SessionID link), vw_EndpointName = '''',
      vw_OwnerUserID = lk_UserID link, vw_OwnerName = '''', vw_Authority = AuthorityMirror,
      vw_Playing = False, vw_Index = 0, vw_PositionMS = 0, vw_PositionAt = now, vw_Rate = 1,
      vw_Volume = None, vw_Repeat = '''', vw_Shuffle = False, vw_QueueVersion = 0, vw_Entries = [],
      vw_Ended = True, vw_UpdatedAt = now\<rparr>"

datatype report_result =
    RIgnored
  | RTerminal session_view
  | RFolded ident bool session_view

text \<open>The fold of a report into the session it belongs to.\<close>

definition report_fold :: "time \<Rightarrow> client_link \<Rightarrow> session_report \<Rightarrow> ident \<Rightarrow> bool \<Rightarrow> svc \<Rightarrow> report_result \<times> svc" where
  "report_fold now link rep sid created s =
     (case sv_obj s sid of
        None \<Rightarrow> (RIgnored, s)
      | Some sess \<Rightarrow>
          if se_ownerID sess \<noteq> lk_UserID link then (RIgnored, s)
          else
            let sess' = sess\<lparr>se_authority := AuthorityMirror, se_q := report_q now rep (se_q sess),
                             se_updatedAt := now\<rparr>;
                s' = s\<lparr>sv_obj := (sv_obj s)(sid \<mapsto> sess')\<rparr>
            in (RFolded sid created (snapshot s' now sess'), s'))"

text \<open>The first section of \<open>HandleSessionReport\<close>; \<open>newid\<close> is the id a created session gets.\<close>

definition report_section ::
  "time \<Rightarrow> ident \<Rightarrow> client_link \<Rightarrow> session_report \<Rightarrow> svc \<Rightarrow> report_result \<times> svc" where
  "report_section now newid link rep s =
     (let e = clientEndpointID (lk_SessionID link);
          cur = (case sv_byEndpoint s e of
                   Some sid \<Rightarrow> if sid \<in> set (sv_live s) then Some sid else None
                 | None \<Rightarrow> None)
      in case cur of
           Some sid \<Rightarrow> report_fold now link rep sid False s
         | None \<Rightarrow>
             if sv_pendingLoads s e \<noteq> None then (RIgnored, s)
             else
               (let fresh =
                      (if sp_ItemPids rep = [] then (RIgnored, s)
                       else report_fold now link rep newid True
                         ((alloc (mirror_session now newid link) s)
                            \<lparr>sv_live := sv_live s @ [newid],
                             sv_byEndpoint := (sv_byEndpoint s)(e \<mapsto> newid)\<rparr>))
                in case sv_recentEnds s e of
                     Some mark \<Rightarrow>
                       if time_sub now (em_at mark) < reportGrace
                       then (RTerminal (ended_view now link (em_sessionID mark)), s)
                       else fresh
                   | None \<Rightarrow> fresh))"

definition hydrate_section :: "ident \<Rightarrow> queue_entry list \<Rightarrow> svc \<Rightarrow> svc" where
  "hydrate_section sid entries s = upd_obj sid (set_q (\<lambda>q. q\<lparr>q_Entries := entries\<rparr>)) s"

definition HandleSessionReport ::
  "world \<Rightarrow> client_link \<Rightarrow> session_report \<Rightarrow> svc \<Rightarrow> session_view option \<times> svc" where
  "HandleSessionReport w link rep s =
     (let s0 = (if sv_registered s link then s else snd (HandleRegister link '''' True True s))
      in case report_section (clock w s0) (w_newid w (sv_log s0)) link rep s0 of
           (RIgnored, s1) \<Rightarrow> (None, s1)
         | (RTerminal snap, s1) \<Rightarrow> (Some snap, s1)
         | (RFolded sid created snap0, s1) \<Rightarrow>
             let (snap, s2) =
                   (if sp_ItemPids rep \<noteq> [] then
                      let (snap1, sh) =
                            (case w_entries w (sv_log s1) (lk_UserID link) (sp_ItemPids rep) of
                               Inl _ \<Rightarrow> (snap0, s1)
                             | Inr entries \<Rightarrow>
                                 let sh = hydrate_section sid entries s1
                                 in (case sv_obj sh sid of
                                       Some sess \<Rightarrow> snapshot sh (clock w sh) sess | None \<Rightarrow> snap0, sh))
                      in (snap1, eff EInvalidate
                            (persist sid True (eff (ESetQueue (lk_UserID link) (sp_ItemPids rep)) sh)))
                    else (snap0, s1));
                 s3 = (if created then eff EInvalidate (persist sid True s2) else s2);
                 s4 = notifyWatchers w sid s3
             in (if created then Some snap else None, s4))"

definition watch_section ::
  "time \<Rightarrow> client_link \<Rightarrow> ident \<Rightarrow> svc \<Rightarrow> (session_view option \<times> bool) \<times> svc" where
  "watch_section now link sessionID s =
     (let unwatched = s\<lparr>sv_watchers := AList.delete link (sv_watchers s)\<rparr> in
      if sessionID = '''' then ((None, True), unwatched)
      else
        (case live_session s sessionID of
           None \<Rightarrow> ((None, False), unwatched)
         | Some sess \<Rightarrow>
             if \<not> visible_session s (lk_UserID link) sess then ((None, False), unwatched)
             else ((Some (snapshot s now sess), True),
                   s\<lparr>sv_watchers := AList.update link
                       \<lparr>wt_sessionID = sessionID, wt_sentQV = q_QueueVersion (se_q sess),
                        wt_sentAny = True\<rparr> (sv_watchers s)\<rparr>)))"

definition HandleWatch ::
  "world \<Rightarrow> client_link \<Rightarrow> ident \<Rightarrow> svc \<Rightarrow> (session_view option \<times> bool) \<times> svc" where
  "HandleWatch w link sessionID s =
     (case watch_section (clock w s) link sessionID s of
        ((Some snap, ok), s1) \<Rightarrow> ((Some (receiver_view w s1 snap (lk_UserID link)), ok), s1)
      | ((None, ok), s1) \<Rightarrow> ((None, ok), s1))"

definition disconnect_section :: "time \<Rightarrow> client_link \<Rightarrow> svc \<Rightarrow> svc" where
  "disconnect_section now link s =
     (let s1 = s\<lparr>sv_watchers := AList.delete link (sv_watchers s)\<rparr>
      in case sv_byEndpoint s1 (clientEndpointID (lk_SessionID link)) of
           None \<Rightarrow> s1
         | Some sid \<Rightarrow>
             (case live_session s1 sid of
                None \<Rightarrow> s1
              | Some sess \<Rightarrow> if se_authority sess = AuthorityMirror
                  then endSessionLocked now sid False s1 else s1))"

definition OnDisconnect :: "world \<Rightarrow> client_link \<Rightarrow> svc \<Rightarrow> svc" where
  "OnDisconnect w link s =
     (let s1 = disconnect_section (clock w s) link s
      in if sv_registered s1 link
         then eff EInvalidate (s1\<lparr>sv_reg := UnregisterClient link (sv_reg s1)\<rparr>)
         else s1)"

section \<open>Discovery\<close>

definition EndpointOnline ::
  "world \<Rightarrow> string \<Rightarrow> string \<Rightarrow> string \<Rightarrow> string \<Rightarrow> bool \<Rightarrow> bool \<Rightarrow> nat option \<Rightarrow> svc
     \<Rightarrow> endpoint result \<times> svc" where
  "EndpointOnline w kind deviceKey name address volumeControl rateControl dial s =
     (case w_upsert w (sv_log s) kind deviceKey name address of
        Inl e \<Rightarrow> (Inl e, s)
      | Inr rowID \<Rightarrow>
          let (ep, r) = UpsertDevice rowID kind deviceKey name volumeControl rateControl dial (clock w s)
                          (sv_reg s)
          in (Inr ep, eff EInvalidate (s\<lparr>sv_reg := r\<rparr>)))"

definition offline_section :: "time \<Rightarrow> ident \<Rightarrow> svc \<Rightarrow> svc" where
  "offline_section now endpointID s =
     (case sv_byEndpoint s endpointID of
        None \<Rightarrow> s
      | Some sid \<Rightarrow> if sid \<in> set (sv_live s) then endSessionLocked now sid False s else s)"

definition EndpointOffline :: "world \<Rightarrow> ident \<Rightarrow> svc \<Rightarrow> svc" where
  "EndpointOffline w endpointID s =
     (let s1 = s\<lparr>sv_reg := MarkDeviceOffline endpointID (sv_reg s)\<rparr>
      in eff EInvalidate (offline_section (clock w s1) endpointID s1))"

section \<open>Housekeeping\<close>

text \<open>\<open>checkpointPlaying\<close>: what is collected under the lock, then the writes.\<close>

definition checkpoint_list :: "time \<Rightarrow> svc \<Rightarrow> (ident \<times> ident \<times> ident \<times> int) list" where
  "checkpoint_list now s =
     List.map_filter
       (\<lambda>sid. case live_session s sid of
          None \<Rightarrow> None
        | Some sess \<Rightarrow>
            if \<not> q_Playing (se_q sess) then None
            else if se_authority sess = AuthorityRemote
            then let snap = snapshot s now sess
                 in Some (sid, se_ownerID sess, currentPID snap, vw_PositionMS snap)
            else Some (sid, se_ownerID sess, '''', 0))
       (sv_live s)"

definition checkpointPlaying :: "world \<Rightarrow> svc \<Rightarrow> svc" where
  "checkpointPlaying w s =
     fold (\<lambda>(sid, owner, pid, pos) t.
             persist sid True (if pid \<noteq> '''' then eff (EProgress owner pid pos) t else t))
       (checkpoint_list (clock w s) s) s"

record run_state =
  rs_lastCheckpoint :: time
  rs_lastPrune :: time

definition run_tick :: "world \<Rightarrow> run_state \<Rightarrow> svc \<Rightarrow> run_state \<times> svc" where
  "run_tick w rs s =
     (let now = clock w s;
          s1 = pushPlayingToWatchers w s;
          (rs1, s2) = (if time_sub now (rs_lastCheckpoint rs) \<ge> checkpointInterval
                       then (rs\<lparr>rs_lastCheckpoint := now\<rparr>, checkpointPlaying w s1) else (rs, s1))
      in if time_sub now (rs_lastPrune rs1) \<ge> hour
         then (rs1\<lparr>rs_lastPrune := now\<rparr>, eff (EPrune sessionKeepPerUser) s2) else (rs1, s2))"

definition release :: "world \<Rightarrow> svc \<Rightarrow> svc" where
  "release w s =
     (let s1 = release_begin s in eff EInvalidate (release_drained (clock w s1) s1))"

end
