(* ===== verification/Connect_Steps.thy ===== *)
theory Connect_Steps
  imports Reports
begin

text \<open>
  The connect service as a transition system: one rule of \<open>conn_step\<close> per critical section, with
  the values the handler computed earlier as arbitrary arguments, so that a run interleaves the
  sections of any number of handlers, pumps and teardown jobs in any order.  The guards say
  only what the section's handler has made sure of itself: ids are fresh, a session that is
  ended is one the map holds, a device is bound inside a \<open>beginDriving\<close> bracket.

  \<open>svc_ok\<close> is the structural invariant; it holds in every reachable state.
\<close>

section \<open>The structural invariant\<close>

definition obj_ok :: "svc \<Rightarrow> bool" where
  "obj_ok s \<longleftrightarrow> (\<forall>sid sess. sv_obj s sid = Some sess \<longrightarrow>
     se_id sess = sid \<and> (se_ended sess \<longrightarrow> se_driver sess = None \<and> se_driverCancel sess = None))"

definition live_ok :: "svc \<Rightarrow> bool" where
  "live_ok s \<longleftrightarrow> distinct (sv_live s) \<and>
     (\<forall>sid \<in> set (sv_live s). \<exists>sess. sv_obj s sid = Some sess \<and> \<not> se_ended sess \<and>
        sv_byEndpoint s (se_endpointID sess) = Some sid)"

definition svc_ok :: "svc \<Rightarrow> bool" where
  "svc_ok s \<longleftrightarrow> obj_ok s \<and> live_ok s"

text \<open>Whatever an update of a session object may not touch.\<close>

definition frame_of :: "session \<Rightarrow> ident \<times> ident \<times> ident \<times> authority \<times> drv option \<times> (ident \<times> nat) option \<times> bool" where
  "frame_of sess = (se_id sess, se_ownerID sess, se_endpointID sess, se_authority sess,
     se_driver sess, se_driverCancel sess, se_ended sess)"

section \<open>The steps\<close>

inductive conn_step :: "svc \<Rightarrow> svc \<Rightarrow> bool" where
  st_effect: "conn_step s (eff e s)"
| st_alloc: "sv_obj s (se_id sess) = None \<Longrightarrow> se_id sess \<notin> set (sv_live s) \<Longrightarrow>
    \<not> se_ended sess \<Longrightarrow> se_driver sess = None \<Longrightarrow> se_driverCancel sess = None \<Longrightarrow>
    conn_step s (alloc sess s)"
| st_attach: "sv_obj s sid = Some sess \<Longrightarrow> \<not> se_ended sess \<Longrightarrow> sid \<notin> set (sv_live s) \<Longrightarrow>
    0 < sv_driving s \<Longrightarrow> conn_step s (bindDeviceLocked sid loaded s)"
| st_adopt: "sv_obj s sid = Some sess \<Longrightarrow> \<not> se_ended sess \<Longrightarrow> sid \<notin> set (sv_live s) \<Longrightarrow>
    (se_driver sess = None \<or> 0 < sv_driving s) \<Longrightarrow> conn_step s (adopt_section now sid s)"
| st_end: "sid \<in> set (sv_live s) \<Longrightarrow> conn_step s (endSessionLocked now sid stop s)"
| st_commit: "sv_obj s sid = Some sess \<Longrightarrow> se_ended sess \<or> sid \<in> set (sv_live s) \<Longrightarrow>
    0 < sv_driving s \<Longrightarrow> conn_step s (snd (transfer_commit now sid target plan loaded s))"
| st_update: "(\<And>sess. frame_of (f sess) = frame_of sess) \<Longrightarrow>
    (\<And>sess. q_QueueVersion (se_q sess) \<le> q_QueueVersion (se_q (f sess))) \<Longrightarrow>
    conn_step s (upd_obj sid f s)"
| st_report: "sv_obj s newid = None \<Longrightarrow> newid \<notin> set (sv_live s) \<Longrightarrow>
    conn_step s (snd (report_section now newid link rep s))"
| st_event: "conn_step s (snd (event_section now sid gen ev s))"
| st_watchers: "conn_step s (s\<lparr>sv_watchers := ws\<rparr>)"
| st_routes: "conn_step s (s\<lparr>sv_routeSeq := n, sv_routes := rs\<rparr>)"
| st_pending: "conn_step s (s\<lparr>sv_pendingLoads := ps\<rparr>)"
| st_probing: "conn_step s (s\<lparr>sv_probing := pr\<rparr>)"
| st_listen: "conn_step s (s\<lparr>sv_listen := ls\<rparr>)"
| st_registry: "conn_step s (s\<lparr>sv_reg := r, sv_registered := rg\<rparr>)"
| st_jobs: "conn_step s (s\<lparr>sv_jobs := js\<rparr>)"
| st_begin: "conn_step s (snd (beginDriving s))"
| st_end_driving: "0 < sv_driving s \<Longrightarrow> conn_step s (endDriving s)"
| st_stop: "conn_step s (release_begin s)"

inductive_cases conn_stepE: "conn_step s t"

section \<open>Sections keep the invariant\<close>

lemma svc_okD:
  assumes "svc_ok s" "sv_obj s sid = Some sess"
  shows "se_id sess = sid" "se_ended sess \<Longrightarrow> se_driver sess = None \<and> se_driverCancel sess = None"
  using assms by (auto simp: svc_ok_def obj_ok_def)

lemma svc_ok_liveE:
  assumes "svc_ok s" "sid \<in> set (sv_live s)"
  obtains sess where "sv_obj s sid = Some sess" "\<not> se_ended sess" "se_id sess = sid"
    "sv_byEndpoint s (se_endpointID sess) = Some sid"
proof -
  obtain sess where o: "sv_obj s sid = Some sess" "\<not> se_ended sess"
      "sv_byEndpoint s (se_endpointID sess) = Some sid"
    using assms by (auto simp: svc_ok_def live_ok_def)
  with svc_okD(1) [OF assms(1) o(1)] that show thesis by blast
qed

lemma svc_ok_cong:
  assumes "sv_obj t = sv_obj s" "sv_live t = sv_live s" "sv_byEndpoint t = sv_byEndpoint s"
  shows "svc_ok t = svc_ok s"
  using assms by (simp add: svc_ok_def obj_ok_def live_ok_def)

lemma svc_okI:
  assumes "\<And>sid sess. sv_obj s sid = Some sess \<Longrightarrow> se_id sess = sid"
    and "\<And>sid sess. sv_obj s sid = Some sess \<Longrightarrow> se_ended sess \<Longrightarrow>
      se_driver sess = None \<and> se_driverCancel sess = None"
    and "distinct (sv_live s)"
    and "\<And>sid. sid \<in> set (sv_live s) \<Longrightarrow> \<exists>sess. sv_obj s sid = Some sess \<and> \<not> se_ended sess \<and>
        sv_byEndpoint s (se_endpointID sess) = Some sid"
  shows "svc_ok s"
  using assms by (auto simp: svc_ok_def obj_ok_def live_ok_def)

lemma upd_obj_simps [simp]:
  "sv_live (upd_obj sid f s) = sv_live s" "sv_byEndpoint (upd_obj sid f s) = sv_byEndpoint s"
  "sv_reg (upd_obj sid f s) = sv_reg s" "sv_driverGen (upd_obj sid f s) = sv_driverGen s"
  "sv_driving (upd_obj sid f s) = sv_driving s" "sv_stopped (upd_obj sid f s) = sv_stopped s"
  "sv_obj (upd_obj sid f s) k = (if k = sid then map_option f (sv_obj s sid) else sv_obj s k)"
  "sv_log (upd_obj sid f s) = sv_log s" "sv_jobs (upd_obj sid f s) = sv_jobs s"
  "sv_pendingLoads (upd_obj sid f s) = sv_pendingLoads s" "sv_recentEnds (upd_obj sid f s) = sv_recentEnds s"
  "sv_watchers (upd_obj sid f s) = sv_watchers s" "sv_listen (upd_obj sid f s) = sv_listen s"
  "sv_routes (upd_obj sid f s) = sv_routes s" "sv_registered (upd_obj sid f s) = sv_registered s"
  by (simp_all add: upd_obj_def)

lemma eff_simps [simp]:
  "sv_live (eff e s) = sv_live s" "sv_byEndpoint (eff e s) = sv_byEndpoint s"
  "sv_reg (eff e s) = sv_reg s" "sv_driverGen (eff e s) = sv_driverGen s"
  "sv_driving (eff e s) = sv_driving s" "sv_stopped (eff e s) = sv_stopped s"
  "sv_obj (eff e s) = sv_obj s" "sv_log (eff e s) = e # sv_log s" "sv_jobs (eff e s) = sv_jobs s"
  "sv_pendingLoads (eff e s) = sv_pendingLoads s" "sv_recentEnds (eff e s) = sv_recentEnds s"
  "sv_watchers (eff e s) = sv_watchers s" "sv_listen (eff e s) = sv_listen s"
  "sv_routes (eff e s) = sv_routes s" "sv_registered (eff e s) = sv_registered s"
  by (simp_all add: eff_def)

lemma svc_ok_update:
  assumes "svc_ok s" "\<And>sess. frame_of (f sess) = frame_of sess"
  shows "svc_ok (upd_obj sid f s)"
proof -
  have fr: "se_id (f x) = se_id x" "se_ended (f x) = se_ended x" "se_driver (f x) = se_driver x"
    "se_driverCancel (f x) = se_driverCancel x" "se_endpointID (f x) = se_endpointID x" for x
    using assms(2) [of x] by (simp_all add: frame_of_def)
  show ?thesis
  proof (rule svc_okI, goal_cases)
    case (4 k)
    then obtain x where "sv_obj s k = Some x" "\<not> se_ended x" "sv_byEndpoint s (se_endpointID x) = Some k"
      using svc_ok_liveE [OF assms(1)] by auto
    then show ?case by (auto simp: fr)
  qed (use assms(1) svc_okD [OF assms(1)] in
      \<open>auto simp: fr svc_ok_def live_ok_def split: if_splits\<close>)
qed

text \<open>What \<open>endSessionLocked\<close> does to a live session.\<close>

lemma end_session_eq:
  assumes "sv_obj s sid = Some sess" "\<not> se_ended sess"
  shows "sv_obj (endSessionLocked now sid b s) = (sv_obj s)(sid \<mapsto> end_session_obj now sess)"
    "sv_live (endSessionLocked now sid b s) = removeAll sid (sv_live s)"
    "sv_byEndpoint (endSessionLocked now sid b s) =
      (if sv_byEndpoint s (se_endpointID sess) = Some sid
       then (sv_byEndpoint s)(se_endpointID sess := None) else sv_byEndpoint s)"
    "sv_driverGen (endSessionLocked now sid b s) = (sv_driverGen s)(sid := 0)"
    "sv_recentEnds (endSessionLocked now sid b s) =
      (sv_recentEnds s)(se_endpointID sess \<mapsto> \<lparr>em_sessionID = sid, em_at = now\<rparr>)"
  using assms by (simp_all add: endSessionLocked_def Let_def)

lemma end_session_frame [simp]:
  "sv_reg (endSessionLocked now sid b s) = sv_reg s"
  "sv_driving (endSessionLocked now sid b s) = sv_driving s"
  "sv_stopped (endSessionLocked now sid b s) = sv_stopped s"
  "sv_log (endSessionLocked now sid b s) = sv_log s"
  "sv_pendingLoads (endSessionLocked now sid b s) = sv_pendingLoads s"
  "sv_watchers (endSessionLocked now sid b s) = sv_watchers s"
  "sv_registered (endSessionLocked now sid b s) = sv_registered s"
  by (simp_all add: endSessionLocked_def Let_def split: option.split)

lemma end_session_obj_simps [simp]:
  "se_id (end_session_obj now x) = se_id x" "se_ended (end_session_obj now x)"
  "se_driver (end_session_obj now x) = None" "se_driverCancel (end_session_obj now x) = None"
  "se_endpointID (end_session_obj now x) = se_endpointID x"
  "se_ownerID (end_session_obj now x) = se_ownerID x"
  "se_authority (end_session_obj now x) = se_authority x"
  "q_QueueVersion (se_q (end_session_obj now x)) = q_QueueVersion (se_q x)"
  by (simp_all add: end_session_obj_def)

lemma svc_ok_end:
  assumes "svc_ok s"
  shows "svc_ok (endSessionLocked now sid b s)"
proof (cases "\<exists>sess. sv_obj s sid = Some sess \<and> \<not> se_ended sess")
  case False
  then have "endSessionLocked now sid b s = s"
    by (auto simp: endSessionLocked_def split: option.split)
  with assms show ?thesis by simp
next
  case True
  then obtain sess where o: "sv_obj s sid = Some sess" "\<not> se_ended sess" by blast
  show ?thesis
  proof (rule svc_okI, goal_cases)
    case (1 k x)
    with assms o show ?case by (auto simp: end_session_eq [OF o] svc_okD split: if_splits)
  next
    case (2 k x)
    with svc_okD [OF assms] show ?case by (auto simp: end_session_eq [OF o] split: if_splits)
  next
    case 3
    from assms show ?case by (simp add: end_session_eq [OF o] svc_ok_def live_ok_def distinct_removeAll)
  next
    case (4 k)
    then have k: "k \<in> set (sv_live s)" "k \<noteq> sid" by (auto simp: end_session_eq [OF o])
    obtain x where "sv_obj s k = Some x" "\<not> se_ended x" "sv_byEndpoint s (se_endpointID x) = Some k"
      using svc_ok_liveE [OF assms k(1)] by blast
    with k(2) show ?case by (auto simp: end_session_eq [OF o])
  qed
qed

lemma end_session_other:
  assumes "k \<noteq> sid"
  shows "sv_obj (endSessionLocked now sid b s) k = sv_obj s k"
    "k \<in> set (sv_live (endSessionLocked now sid b s)) \<longleftrightarrow> k \<in> set (sv_live s)"
  using assms by (auto simp: endSessionLocked_def Let_def split: option.split)

text \<open>Clearing an endpoint of another session's claim, as adopting and rebinding do first.\<close>

definition evict :: "time \<Rightarrow> ident \<Rightarrow> ident \<Rightarrow> svc \<Rightarrow> svc" where
  "evict now sid e s =
     (case sv_byEndpoint s e of
        Some oldID \<Rightarrow>
          if oldID \<noteq> sid \<and> oldID \<in> set (sv_live s) then endSessionLocked now oldID False s else s
      | None \<Rightarrow> s)"

lemma evict_frame [simp]:
  "sv_reg (evict now sid e s) = sv_reg s" "sv_driving (evict now sid e s) = sv_driving s"
  "sv_stopped (evict now sid e s) = sv_stopped s" "sv_log (evict now sid e s) = sv_log s"
  "sv_watchers (evict now sid e s) = sv_watchers s"
  by (simp_all add: evict_def split: option.split)

lemma svc_ok_evict: "svc_ok s \<Longrightarrow> svc_ok (evict now sid e s)"
  by (simp add: evict_def svc_ok_end split: option.split)

lemma evict_self [simp]: "sv_obj (evict now sid e s) sid = sv_obj s sid"
  "sid \<in> set (sv_live (evict now sid e s)) \<longleftrightarrow> sid \<in> set (sv_live s)"
  by (auto simp: evict_def end_session_other split: option.split)

lemma evict_no_other:
  assumes ok: "svc_ok s" and k: "k \<in> set (sv_live (evict now sid e s))" "k \<noteq> sid"
    and x: "sv_obj (evict now sid e s) k = Some x"
  shows "se_endpointID x \<noteq> e"
proof
  assume e: "se_endpointID x = e"
  have ok': "svc_ok (evict now sid e s)" using ok by (rule svc_ok_evict)
  obtain y where "sv_obj (evict now sid e s) k = Some y"
      "sv_byEndpoint (evict now sid e s) (se_endpointID y) = Some k"
    using svc_ok_liveE [OF ok' k(1)] by blast
  with x e have by1: "sv_byEndpoint (evict now sid e s) e = Some k" by simp
  show False
  proof (cases "\<exists>oldID. sv_byEndpoint s e = Some oldID \<and> oldID \<noteq> sid \<and> oldID \<in> set (sv_live s)")
    case False
    then have ev: "evict now sid e s = s" by (auto simp: evict_def split: option.split)
    with by1 k False show False by auto
  next
    case True
    then obtain oldID where o: "sv_byEndpoint s e = Some oldID" "oldID \<noteq> sid" "oldID \<in> set (sv_live s)"
      by blast
    then have ev: "evict now sid e s = endSessionLocked now oldID False s" by (simp add: evict_def)
    obtain z where z: "sv_obj s oldID = Some z" "\<not> se_ended z"
        "sv_byEndpoint s (se_endpointID z) = Some oldID"
      using svc_ok_liveE [OF ok o(3)] by blast
    from by1 ev z o have "k = oldID"
      by (auto simp: end_session_eq [OF z(1,2)] split: if_splits)
    with k(1) ev show False by (simp add: end_session_eq [OF z(1,2)])
  qed
qed

text \<open>Claiming an endpoint for a session: evict, then index and list it.\<close>

lemma svc_ok_claim:
  assumes ok: "svc_ok s"
    and t: "sv_obj t = (sv_obj (evict now sid e s))(sid \<mapsto> x')"
      "se_id x' = sid" "\<not> se_ended x'" "se_endpointID x' = e"
      "distinct (sv_live t)" "set (sv_live t) \<subseteq> insert sid (set (sv_live (evict now sid e s)))"
      "sv_byEndpoint t e = Some sid"
    and frame: "\<And>k. k \<noteq> e \<Longrightarrow> sv_byEndpoint (evict now sid e s) k \<noteq> Some sid \<Longrightarrow>
        sv_byEndpoint t k = sv_byEndpoint (evict now sid e s) k"
  shows "svc_ok t"
proof (rule svc_okI, goal_cases)
  case (1 k y)
  with svc_okD(1) [OF svc_ok_evict [OF ok]] t show ?case by (auto split: if_splits)
next
  case (2 k y)
  with svc_okD(2) [OF svc_ok_evict [OF ok]] t show ?case by (auto split: if_splits)
next
  case 3
  show ?case using t by simp
next
  case (4 k)
  show ?case
  proof (cases "k = sid")
    case True
    with t show ?thesis by simp
  next
    case False
    with 4 t(6) have k: "k \<in> set (sv_live (evict now sid e s))" by auto
    obtain y where y: "sv_obj (evict now sid e s) k = Some y" "\<not> se_ended y"
        "sv_byEndpoint (evict now sid e s) (se_endpointID y) = Some k"
      using svc_ok_liveE [OF svc_ok_evict [OF ok] k] by blast
    have "se_endpointID y \<noteq> e" by (rule evict_no_other [OF ok k False y(1)])
    with y False t frame [of "se_endpointID y"] show ?thesis by simp
  qed
qed

lemma adopt_section_eq:
  assumes "sv_obj s sid = Some x"
  shows "adopt_section now sid s =
    (let s1 = evict now sid (se_endpointID x) s in
     s1\<lparr>sv_live := (if sid \<in> set (sv_live s1) then sv_live s1 else sv_live s1 @ [sid]),
        sv_byEndpoint := (sv_byEndpoint s1)(se_endpointID x \<mapsto> sid)\<rparr>)"
  using assms by (simp add: adopt_section_def evict_def Let_def)

lemma svc_ok_distinct: "svc_ok s \<Longrightarrow> distinct (sv_live s)"
  by (simp add: svc_ok_def live_ok_def)

lemma svc_ok_adopt:
  assumes "svc_ok s" "sv_obj s sid = Some x" "\<not> se_ended x"
  shows "svc_ok (adopt_section now sid s)"
  using assms svc_okD(1) [OF assms(1,2)] svc_ok_distinct [OF svc_ok_evict [OF assms(1)]]
  by (intro svc_ok_claim [where x' = x and sid = sid and e = "se_endpointID x" and now = now, OF assms(1)])
    (auto simp: adopt_section_eq [OF assms(2)] Let_def fun_upd_idem)

lemma svc_ok_bind:
  assumes "svc_ok s" "sv_obj s sid = Some x" "\<not> se_ended x"
  shows "svc_ok (bindDeviceLocked sid loaded s)"
proof (rule svc_okI, goal_cases)
  case (4 k)
  then have "k \<in> set (sv_live s)" by (simp add: bindDeviceLocked_def Let_def)
  then obtain y where "sv_obj s k = Some y" "\<not> se_ended y"
      "sv_byEndpoint s (se_endpointID y) = Some k"
    using svc_ok_liveE [OF assms(1)] by metis
  with assms show ?case by (auto simp: bindDeviceLocked_def Let_def)
qed (use assms svc_okD [OF assms(1)] svc_ok_distinct [OF assms(1)] in
    \<open>auto simp: bindDeviceLocked_def Let_def split: if_splits\<close>)

lemma rebind_eq:
  "rebind now sid e s =
     (upd_obj sid (\<lambda>x. x\<lparr>se_endpointID := e\<rparr>) (evict now sid e s))
       \<lparr>sv_byEndpoint := (sv_byEndpoint (evict now sid e s))(e \<mapsto> sid)\<rparr>"
  by (simp add: rebind_def evict_def Let_def split: option.split)

lemma leave_endpoint_simps [simp]:
  "sv_obj (leave_endpoint now sid old s) = sv_obj s" "sv_live (leave_endpoint now sid old s) = sv_live s"
  "sv_reg (leave_endpoint now sid old s) = sv_reg s"
  "sv_driverGen (leave_endpoint now sid old s) = sv_driverGen s"
  "sv_driving (leave_endpoint now sid old s) = sv_driving s"
  "sv_stopped (leave_endpoint now sid old s) = sv_stopped s"
  "sv_byEndpoint (leave_endpoint now sid old s) k =
     (if k = old \<and> sv_byEndpoint s k = Some sid then None else sv_byEndpoint s k)"
  by (auto simp: leave_endpoint_def)

lemma end_session_obj_of:
  "sv_obj (endSessionLocked now sid b s) =
     (case sv_obj s sid of None \<Rightarrow> sv_obj s
      | Some x \<Rightarrow> if se_ended x then sv_obj s else (sv_obj s)(sid \<mapsto> end_session_obj now x))"
  "sv_live (endSessionLocked now sid b s) =
     (case sv_obj s sid of None \<Rightarrow> sv_live s
      | Some x \<Rightarrow> if se_ended x then sv_live s else removeAll sid (sv_live s))"
  "sv_byEndpoint (endSessionLocked now sid b s) k =
     (case sv_obj s sid of None \<Rightarrow> sv_byEndpoint s k
      | Some x \<Rightarrow> if \<not> se_ended x \<and> k = se_endpointID x \<and> sv_byEndpoint s k = Some sid then None
          else sv_byEndpoint s k)"
  by (auto simp: endSessionLocked_def Let_def split: option.split)

text \<open>Leaving the old endpoint first changes the eviction in nothing but that one index entry.\<close>

lemma evict_leave:
  "sv_obj (evict now sid e (leave_endpoint now sid old s)) = sv_obj (evict now sid e s)" (is ?o)
  "sv_live (evict now sid e (leave_endpoint now sid old s)) = sv_live (evict now sid e s)" (is ?l)
  "sv_byEndpoint (evict now sid e s) k \<noteq> Some sid \<Longrightarrow>
     sv_byEndpoint (evict now sid e (leave_endpoint now sid old s)) k = sv_byEndpoint (evict now sid e s) k"
    (is "?c \<Longrightarrow> ?b")
proof -
  let ?s = "leave_endpoint now sid old s"
  have "?o \<and> ?l \<and> (?c \<longrightarrow> ?b)"
  proof (cases "\<exists>k. sv_byEndpoint s e = Some k \<and> k \<noteq> sid \<and> k \<in> set (sv_live s)")
    case True
    then obtain j where j: "sv_byEndpoint s e = Some j" "j \<noteq> sid" "j \<in> set (sv_live s)" by blast
    then have "evict now sid e s = endSessionLocked now j False s"
      "evict now sid e ?s = endSessionLocked now j False ?s"
      by (auto simp: evict_def)
    with j(2) show ?thesis by (auto simp: end_session_obj_of split: option.splits)
  next
    case False
    then have "evict now sid e s = s" "evict now sid e ?s = ?s"
      by (auto simp: evict_def split: option.split)
    then show ?thesis by auto
  qed
  then show ?o ?l "?c \<Longrightarrow> ?b" by blast+
qed

text \<open>The session object as a commit leaves it.\<close>

definition committed :: "time \<Rightarrow> svc \<Rightarrow> ident \<Rightarrow> endpoint \<Rightarrow> transfer_plan \<Rightarrow> loaded_device option \<Rightarrow>
    session \<Rightarrow> session" where
  "committed now s sid target plan loaded x =
     (let base = x\<lparr>se_endpointID := ep_ID target,
             se_q := (se_q x)\<lparr>q_Index := tp_index plan, q_PositionMS := tp_positionMS plan,
                              q_PositionAt := now, q_Playing := tp_play plan\<rparr>,
             se_updatedAt := now\<rparr>
      in case loaded of
           None \<Rightarrow> base\<lparr>se_authority := AuthorityMirror, se_driver := None, se_driverCancel := None,
                        se_timeline := None, se_slots := [], se_mediaIndex := 0\<rparr>
         | Some ld \<Rightarrow> base\<lparr>se_authority := AuthorityRemote, se_driver := Some (ld_driver ld),
             se_driverCancel := Some (sid, sv_driverGen s sid + 1),
             se_timeline := dl_tm (ld_load ld), se_slots := dl_slots (ld_load ld),
             se_mediaIndex := ld_mediaIndex ld\<rparr>)"

lemma evict_gen_self [simp]: "sv_driverGen (evict now sid e s) sid = sv_driverGen s sid"
  by (auto simp: evict_def endSessionLocked_def Let_def split: option.split)

lemma clearLoadPending_simps [simp]:
  "sv_obj (clearLoadPending e s) = sv_obj s" "sv_live (clearLoadPending e s) = sv_live s"
  "sv_byEndpoint (clearLoadPending e s) = sv_byEndpoint s" "sv_reg (clearLoadPending e s) = sv_reg s"
  "sv_driverGen (clearLoadPending e s) = sv_driverGen s"
  "sv_driving (clearLoadPending e s) = sv_driving s" "sv_stopped (clearLoadPending e s) = sv_stopped s"
  "sv_log (clearLoadPending e s) = sv_log s"
  by (simp_all add: clearLoadPending_def)

lemma rebind_simps:
  "sv_live (rebind now sid e s) = sv_live (evict now sid e s)"
  "sv_byEndpoint (rebind now sid e s) = (sv_byEndpoint (evict now sid e s))(e \<mapsto> sid)"
  "sv_driverGen (rebind now sid e s) = sv_driverGen (evict now sid e s)"
  "sv_obj (rebind now sid e s) = (sv_obj (evict now sid e s))
     (sid := map_option (\<lambda>x. x\<lparr>se_endpointID := e\<rparr>) (sv_obj s sid))"
  "sv_driving (rebind now sid e s) = sv_driving s" "sv_stopped (rebind now sid e s) = sv_stopped s"
  "sv_reg (rebind now sid e s) = sv_reg s"
  by (auto simp: rebind_eq fun_eq_iff)

definition attach_target :: "ident \<Rightarrow> loaded_device option \<Rightarrow> svc \<Rightarrow> svc" where
  "attach_target sid loaded s =
     (case loaded of None \<Rightarrow> mirror_target sid s | Some ld \<Rightarrow> remote_target sid ld s)"

definition attached :: "ident \<Rightarrow> nat \<Rightarrow> loaded_device option \<Rightarrow> session \<Rightarrow> session" where
  "attached sid gen loaded x =
     (case loaded of
        None \<Rightarrow> x\<lparr>se_authority := AuthorityMirror, se_driver := None, se_driverCancel := None,
                        se_timeline := None, se_slots := [], se_mediaIndex := 0\<rparr>
      | Some ld \<Rightarrow> x\<lparr>se_authority := AuthorityRemote, se_driver := Some (ld_driver ld),
             se_driverCancel := Some (sid, gen + 1),
             se_timeline := dl_tm (ld_load ld), se_slots := dl_slots (ld_load ld),
             se_mediaIndex := ld_mediaIndex ld\<rparr>)"

lemma attach_target_simps:
  "sv_live (attach_target sid loaded s) = sv_live s"
  "sv_byEndpoint (attach_target sid loaded s) = sv_byEndpoint s"
  "sv_driverGen (attach_target sid loaded s) = (sv_driverGen s)(sid := sv_driverGen s sid + 1)"
  "sv_obj (attach_target sid loaded s) =
     (sv_obj s)(sid := map_option (attached sid (sv_driverGen s sid) loaded) (sv_obj s sid))"
  "sv_driving (attach_target sid loaded s) = sv_driving s"
  "sv_stopped (attach_target sid loaded s) = sv_stopped s"
  "sv_reg (attach_target sid loaded s) = sv_reg s"
  by (auto simp: attach_target_def mirror_target_def remote_target_def bindDeviceLocked_def
      Let_def attached_def [abs_def] fun_eq_iff option.map_comp o_def split: option.split)

definition carried :: "time \<Rightarrow> transfer_plan \<Rightarrow> session \<Rightarrow> session" where
  "carried now plan x =
     x\<lparr>se_q := (se_q x)\<lparr>q_Index := tp_index plan, q_PositionMS := tp_positionMS plan,
                       q_PositionAt := now, q_Playing := tp_play plan\<rparr>, se_updatedAt := now\<rparr>"

lemma carry_eq: "carry_position now sid plan s = upd_obj sid (carried now plan) s"
  by (simp add: carry_position_def carried_def [abs_def])

lemma commit_parts:
  assumes "sv_obj s sid = Some x" "\<not> se_ended x"
  shows "snd (transfer_commit now sid target plan loaded s) =
    clearLoadPending (ep_ID target) (carry_position now sid plan (attach_target sid loaded
      (rebind now sid (ep_ID target) (leave_endpoint now sid (tp_oldEndpoint plan) s))))"
  using assms by (simp add: transfer_commit_def Let_def attach_target_def split: option.split)

lemma committed_alt:
  "committed now s sid target plan loaded x =
     carried now plan (attached sid (sv_driverGen s sid) loaded (x\<lparr>se_endpointID := ep_ID target\<rparr>))"
  by (simp add: committed_def carried_def attached_def Let_def split: option.split)

lemma commit_eq:
  fixes s now sid target plan loaded
  defines "t \<equiv> snd (transfer_commit now sid target plan loaded s)"
  assumes x: "sv_obj s sid = Some x" "\<not> se_ended x"
  shows "sv_obj t = (sv_obj (evict now sid (ep_ID target) s))(sid \<mapsto> committed now s sid target plan loaded x)"
    "sv_live t = sv_live (evict now sid (ep_ID target) s)"
    "sv_byEndpoint t = (sv_byEndpoint (evict now sid (ep_ID target)
        (leave_endpoint now sid (tp_oldEndpoint plan) s)))(ep_ID target \<mapsto> sid)"
    "sv_driverGen t sid = sv_driverGen s sid + 1"
    "sv_driving t = sv_driving s" "sv_stopped t = sv_stopped s"
  unfolding t_def commit_parts [OF x] carry_eq
  using x by (auto simp: fun_eq_iff attach_target_simps rebind_simps evict_leave committed_alt)

lemma commit_ended:
  assumes "sv_obj s sid = Some x" "se_ended x"
  shows "transfer_commit now sid target plan loaded s = (None, clearLoadPending (ep_ID target) s)"
  using assms by (simp add: transfer_commit_def)

lemma svc_ok_clear [simp]: "svc_ok (clearLoadPending e s) = svc_ok s"
  by (rule svc_ok_cong) (simp_all add: clearLoadPending_def)

lemma committed_simps [simp]:
  "se_id (committed now s sid target plan loaded x) = se_id x"
  "se_ended (committed now s sid target plan loaded x) = se_ended x"
  "se_endpointID (committed now s sid target plan loaded x) = ep_ID target"
  "se_ownerID (committed now s sid target plan loaded x) = se_ownerID x"
  "q_QueueVersion (se_q (committed now s sid target plan loaded x)) = q_QueueVersion (se_q x)"
  "q_Entries (se_q (committed now s sid target plan loaded x)) = q_Entries (se_q x)"
  "se_driver (committed now s sid target plan loaded x) = map_option ld_driver loaded"
  by (simp_all add: committed_def Let_def split: option.split)

lemma svc_ok_commit:
  assumes ok: "svc_ok s" and x: "sv_obj s sid = Some x"
    and live: "se_ended x \<or> sid \<in> set (sv_live s)"
  shows "svc_ok (snd (transfer_commit now sid target plan loaded s))"
proof (cases "se_ended x")
  case True
  with commit_ended [OF x] ok show ?thesis by simp
next
  case False
  note eqs = commit_eq [OF x False]
  show ?thesis
    by (rule svc_ok_claim [OF ok, where now = now and sid = sid and e = "ep_ID target"
        and x' = "committed now s sid target plan loaded x"])
      (use False svc_okD(1) [OF ok x] svc_ok_distinct [OF svc_ok_evict [OF ok]] in
        \<open>auto simp: eqs evict_leave\<close>)
qed

end
