(* ===== verification/Connect_Runs.thy ===== *)
theory Connect_Runs
  imports Connect_Steps
begin

text \<open>
  Invariants of runs of the connect service.  Each is an instance of the interface
  \<open>transition_system\<close>: the structural invariant \<open>svc_ok\<close>, what a session object may become
  (\<open>grown\<close>), the fence a generation number puts up (\<open>fenced\<close>), and the state a shutdown
  leaves (\<open>released\<close>).
\<close>

section \<open>The structural invariant\<close>

text \<open>The three things a driver event's section can come to.\<close>

definition event_time :: "time \<Rightarrow> driver_event \<Rightarrow> time" where
  "event_time now ev = (if ev_At ev = zero_time then now else ev_At ev)"

definition folded_obj :: "time \<Rightarrow> driver_event \<Rightarrow> session \<Rightarrow> session" where
  "folded_obj now ev x =
     fold_event ev (event_time now ev) now (event_position x ev (event_time now ev)) x"

lemma event_section_cases:
  obtains (dropped) "event_section now sid gen ev s = (EDropped, s)"
      "live_session s sid = None \<or> sv_driverGen s sid \<noteq> gen"
  | (fatal) "event_section now sid gen ev s = (EFatalEnd, endSessionLocked now sid False s)"
      "sid \<in> set (sv_live s)" "sv_driverGen s sid = gen" "ev_Fatal ev"
  | (folded) x l where "sid \<in> set (sv_live s)" "sv_driverGen s sid = gen" "sv_obj s sid = Some x"
      "\<not> ev_Fatal ev"
      "snd (event_section now sid gen ev s) =
         s\<lparr>sv_obj := (sv_obj s)(sid \<mapsto> folded_obj now ev x), sv_listen := l\<rparr>"
proof (cases "live_session s sid")
  case None
  then show ?thesis by (intro dropped) (simp_all add: event_section_def)
next
  case (Some x)
  then have x: "sid \<in> set (sv_live s)" "sv_obj s sid = Some x"
    by (auto simp: live_session_def split: if_splits)
  show ?thesis
  proof (cases "sv_driverGen s sid = gen")
    case False
    with Some show ?thesis by (intro dropped) (simp_all add: event_section_def)
  next
    case gen: True
    show ?thesis
    proof (cases "ev_Fatal ev")
      case True
      with Some x gen show ?thesis by (intro fatal) (simp_all add: event_section_def)
    next
      case False
      from Some gen False show ?thesis
        by (intro folded [OF x(1) gen x(2) False])
          (simp add: event_section_def Let_def folded_obj_def event_time_def)
    qed
  qed
qed

lemma frame_folded_obj: "frame_of (folded_obj now ev x) = frame_of x"
  by (simp add: folded_obj_def fold_event_def frame_of_def split: prod.split)

lemma folded_obj_simps [simp]:
  "se_id (folded_obj now ev x) = se_id x" "se_ownerID (folded_obj now ev x) = se_ownerID x"
  "se_ended (folded_obj now ev x) = se_ended x" "se_driver (folded_obj now ev x) = se_driver x"
  "se_endpointID (folded_obj now ev x) = se_endpointID x"
  "q_QueueVersion (se_q (folded_obj now ev x)) = q_QueueVersion (se_q x)"
  "q_Entries (se_q (folded_obj now ev x)) = q_Entries (se_q x)"
  by (simp_all add: folded_obj_def fold_event_def split: prod.split)

lemma svc_ok_event: "svc_ok s \<Longrightarrow> svc_ok (snd (event_section now sid gen ev s))"
proof (cases rule: event_section_cases [of now sid gen ev s])
  case (folded x l)
  assume "svc_ok s"
  then have "svc_ok (upd_obj sid (folded_obj now ev) s)"
    using frame_folded_obj by (rule svc_ok_update)
  then show ?thesis
    unfolding folded(5)
    by (rule svc_ok_cong [THEN iffD2, rotated -1]) (simp_all add: fun_eq_iff folded(3))
qed (simp_all add: svc_ok_end)

lemma report_fold_obj:
  "sv_live (snd (report_fold now link rep sid c s)) = sv_live s"
  "sv_byEndpoint (snd (report_fold now link rep sid c s)) = sv_byEndpoint s"
  "sv_driverGen (snd (report_fold now link rep sid c s)) = sv_driverGen s"
  "sv_driving (snd (report_fold now link rep sid c s)) = sv_driving s"
  "sv_stopped (snd (report_fold now link rep sid c s)) = sv_stopped s"
  "sv_obj (snd (report_fold now link rep sid c s)) =
     (case sv_obj s sid of None \<Rightarrow> sv_obj s
      | Some x \<Rightarrow> if se_ownerID x \<noteq> lk_UserID link then sv_obj s
          else (sv_obj s)(sid \<mapsto> x\<lparr>se_authority := AuthorityMirror,
                 se_q := report_q now rep (se_q x), se_updatedAt := now\<rparr>))"
  by (simp_all add: report_fold_def Let_def split: option.split)

lemma svc_ok_report_fold: "svc_ok s \<Longrightarrow> svc_ok (snd (report_fold now link rep sid c s))"
proof (rule svc_okI, goal_cases)
  case (4 k)
  then obtain y where "sv_obj s k = Some y" "\<not> se_ended y" "sv_byEndpoint s (se_endpointID y) = Some k"
    using svc_ok_liveE by (metis report_fold_obj(1))
  then show ?case by (auto simp: report_fold_obj split: option.split)
qed (auto simp: report_fold_obj svc_okD svc_ok_distinct split: option.splits if_splits)

text \<open>A report that starts a mirror session: the endpoint has no live session to evict.\<close>

definition mirrored :: "time \<Rightarrow> ident \<Rightarrow> client_link \<Rightarrow> svc \<Rightarrow> svc" where
  "mirrored now newid link s =
     (alloc (mirror_session now newid link) s)
       \<lparr>sv_live := sv_live s @ [newid],
        sv_byEndpoint := (sv_byEndpoint s)(clientEndpointID (lk_SessionID link) \<mapsto> newid)\<rparr>"

lemma mirrored_simps:
  "sv_live (mirrored now newid link s) = sv_live s @ [newid]"
  "sv_byEndpoint (mirrored now newid link s) =
     (sv_byEndpoint s)(clientEndpointID (lk_SessionID link) \<mapsto> newid)"
  "sv_obj (mirrored now newid link s) = (sv_obj s)(newid \<mapsto> mirror_session now newid link)"
  "sv_driverGen (mirrored now newid link s) = sv_driverGen s"
  "sv_driving (mirrored now newid link s) = sv_driving s"
  "sv_stopped (mirrored now newid link s) = sv_stopped s"
  by (simp_all add: mirrored_def alloc_def mirror_session_def)

lemma mirror_session_simps [simp]:
  "se_id (mirror_session now newid link) = newid" "\<not> se_ended (mirror_session now newid link)"
  "se_driver (mirror_session now newid link) = None"
  "se_driverCancel (mirror_session now newid link) = None"
  "se_endpointID (mirror_session now newid link) = clientEndpointID (lk_SessionID link)"
  "se_ownerID (mirror_session now newid link) = lk_UserID link"
  by (simp_all add: mirror_session_def)

definition free_endpoint :: "svc \<Rightarrow> ident \<Rightarrow> bool" where
  "free_endpoint s e = (case sv_byEndpoint s e of Some k \<Rightarrow> k \<notin> set (sv_live s) | None \<Rightarrow> True)"

lemma evict_free: "free_endpoint s e \<Longrightarrow> evict now sid e s = s"
  by (auto simp: free_endpoint_def evict_def split: option.splits)

lemma svc_ok_mirrored:
  assumes ok: "svc_ok s" and fresh: "newid \<notin> set (sv_live s)"
    and free: "free_endpoint s (clientEndpointID (lk_SessionID link))"
  shows "svc_ok (mirrored now newid link s)"
  by (rule svc_ok_claim [OF ok, where now = now and sid = newid
        and e = "clientEndpointID (lk_SessionID link)" and x' = "mirror_session now newid link"])
    (use fresh svc_ok_distinct [OF ok] in \<open>auto simp: mirrored_simps evict_free [OF free]\<close>)

text \<open>The four things a report's section can come to.\<close>

lemma report_section_cases:
  obtains (same) "snd (report_section now newid link rep s) = s"
  | (folded) sid where "sid \<in> set (sv_live s)"
      "sv_byEndpoint s (clientEndpointID (lk_SessionID link)) = Some sid"
      "snd (report_section now newid link rep s) = snd (report_fold now link rep sid False s)"
  | (created) "free_endpoint s (clientEndpointID (lk_SessionID link))" "sp_ItemPids rep \<noteq> []"
      "sv_pendingLoads s (clientEndpointID (lk_SessionID link)) = None"
      "snd (report_section now newid link rep s) =
         snd (report_fold now link rep newid True (mirrored now newid link s))"
proof (cases "free_endpoint s (clientEndpointID (lk_SessionID link))")
  case False
  then obtain sid where "sid \<in> set (sv_live s)"
      "sv_byEndpoint s (clientEndpointID (lk_SessionID link)) = Some sid"
    by (auto simp: free_endpoint_def split: option.splits)
  then show ?thesis by (intro folded) (auto simp: report_section_def Let_def)
next
  case True
  let ?e = "clientEndpointID (lk_SessionID link)"
  have none: "(case sv_byEndpoint s ?e of Some sid \<Rightarrow> if sid \<in> set (sv_live s) then Some sid else None
      | None \<Rightarrow> None) = None"
    using True by (auto simp: free_endpoint_def split: option.splits)
  show ?thesis
  proof (cases "snd (report_section now newid link rep s) = s")
    case True
    then show ?thesis by (rule same)
  next
    case False
    with none True show ?thesis
      by (intro created) (auto simp: report_section_def Let_def mirrored_def split: if_splits option.splits)
  qed
qed

lemma svc_ok_report:
  assumes "svc_ok s" "newid \<notin> set (sv_live s)"
  shows "svc_ok (snd (report_section now newid link rep s))"
  by (cases rule: report_section_cases [of now newid link rep s])
    (use assms in \<open>simp_all add: svc_ok_report_fold svc_ok_mirrored\<close>)

lemma svc_ok_alloc:
  assumes "svc_ok s" "se_id sess \<notin> set (sv_live s)" "\<not> se_ended sess"
  shows "svc_ok (alloc sess s)"
proof (rule svc_okI, goal_cases)
  case (4 k)
  with assms svc_ok_liveE [OF assms(1), of k] show ?case
    by (auto simp: alloc_def)
qed (use assms in \<open>auto simp: alloc_def svc_okD svc_ok_distinct split: if_splits\<close>)

lemma svc_ok_frames [simp]:
  "svc_ok (eff e s) = svc_ok s" "svc_ok (endDriving s) = svc_ok s"
  "svc_ok (s\<lparr>sv_watchers := ws\<rparr>) = svc_ok s" "svc_ok (s\<lparr>sv_listen := ls\<rparr>) = svc_ok s"
  "svc_ok (s\<lparr>sv_routeSeq := n, sv_routes := rs\<rparr>) = svc_ok s"
  "svc_ok (s\<lparr>sv_pendingLoads := ps\<rparr>) = svc_ok s" "svc_ok (s\<lparr>sv_probing := pr\<rparr>) = svc_ok s"
  "svc_ok (s\<lparr>sv_reg := r, sv_registered := rg\<rparr>) = svc_ok s" "svc_ok (s\<lparr>sv_jobs := js\<rparr>) = svc_ok s"
  "svc_ok (release_begin s) = svc_ok s" "svc_ok (snd (beginDriving s)) = svc_ok s"
  by (rule svc_ok_cong; simp add: endDriving_def release_begin_def beginDriving_def)+

lemma conn_step_ok: "conn_step s t \<Longrightarrow> svc_ok s \<Longrightarrow> svc_ok t"
proof (induction rule: conn_step.induct)
  case (st_update f s sid)
  then show ?case by (intro svc_ok_update) auto
qed (simp_all add: svc_ok_alloc svc_ok_bind svc_ok_adopt svc_ok_end svc_ok_commit svc_ok_report
    svc_ok_event)

lemma svc_ok_new: "svc_ok (new_svc rows)"
  by (simp add: new_svc_def svc_ok_def obj_ok_def live_ok_def)

definition started :: "svc \<Rightarrow> bool" where
  "started s \<longleftrightarrow> (\<exists>rows. s = new_svc rows)"

interpretation runs: transition_system started conn_step svc_ok
  by unfold_locales (auto simp: started_def svc_ok_new conn_step_ok)

section \<open>What a session object may become\<close>

definition grown_obj :: "session \<Rightarrow> session \<Rightarrow> bool" where
  "grown_obj x y \<longleftrightarrow> se_id y = se_id x \<and> se_ownerID y = se_ownerID x \<and>
     q_QueueVersion (se_q x) \<le> q_QueueVersion (se_q y) \<and> (se_ended x \<longrightarrow> se_ended y)"

definition grown :: "svc \<Rightarrow> svc \<Rightarrow> bool" where
  "grown s t \<longleftrightarrow> (\<forall>sid x. sv_obj s sid = Some x \<longrightarrow> (\<exists>y. sv_obj t sid = Some y \<and> grown_obj x y))"

lemma grown_obj_refl [simp]: "grown_obj x x"
  by (simp add: grown_obj_def)

lemma grown_obj_trans: "grown_obj x y \<Longrightarrow> grown_obj y z \<Longrightarrow> grown_obj x z"
  by (auto simp: grown_obj_def)

lemma grown_refl [simp]: "grown s s"
  by (simp add: grown_def)

lemma grown_trans: "grown s t \<Longrightarrow> grown t u \<Longrightarrow> grown s u"
  unfolding grown_def by (meson grown_obj_trans)

lemma grown_cong: "sv_obj t = sv_obj s \<Longrightarrow> grown s t"
  by (simp add: grown_def)

lemma grown_upd:
  assumes "sv_obj t = (sv_obj s)(sid \<mapsto> y)" "\<And>x. sv_obj s sid = Some x \<Longrightarrow> grown_obj x y"
  shows "grown s t"
  using assms by (auto simp: grown_def)

lemma grown_end: "grown s (endSessionLocked now sid b s)"
  by (auto simp: grown_def end_session_obj_of grown_obj_def split: option.split)

lemma grown_evict: "grown s (evict now sid e s)"
  by (simp add: evict_def grown_end split: option.split)

lemma grown_fold: "grown s (snd (report_fold now link rep sid c s))"
  by (auto simp: grown_def report_fold_obj grown_obj_def report_q_def split: option.split)

lemma grown_report:
  assumes "sv_obj s newid = None"
  shows "grown s (snd (report_section now newid link rep s))"
proof (cases rule: report_section_cases [of now newid link rep s])
  case created
  have "grown s (mirrored now newid link s)"
    using assms by (auto simp: grown_def mirrored_simps)
  with grown_fold created(4) show ?thesis by (metis grown_trans)
qed (simp_all add: grown_fold)

lemma grown_event: "grown s (snd (event_section now sid gen ev s))"
proof (cases rule: event_section_cases [of now sid gen ev s])
  case (folded x l)
  then show ?thesis by (simp add: grown_def grown_obj_def)
qed (simp_all add: grown_end)

lemma grown_commit: "grown s (snd (transfer_commit now sid target plan loaded s))"
proof (cases "\<exists>x. sv_obj s sid = Some x \<and> \<not> se_ended x")
  case True
  then obtain x where x: "sv_obj s sid = Some x" "\<not> se_ended x" by blast
  have "grown (evict now sid (ep_ID target) s) (snd (transfer_commit now sid target plan loaded s))"
    by (rule grown_upd [OF commit_eq(1) [OF x]]) (use x in \<open>auto simp: grown_obj_def\<close>)
  with grown_evict show ?thesis by (rule grown_trans)
next
  case False
  then show ?thesis
    by (auto simp: transfer_commit_def intro!: grown_cong split: option.split)
qed

lemma grown_adopt: "grown s (adopt_section now sid s)"
proof (cases "sv_obj s sid")
  case (Some x)
  then have "sv_obj (adopt_section now sid s) = sv_obj (evict now sid (se_endpointID x) s)"
    by (simp add: adopt_section_eq Let_def)
  with grown_evict show ?thesis by (metis grown_def)
qed (simp add: adopt_section_def)

lemma conn_step_grown: "conn_step s t \<Longrightarrow> grown s t"
proof (induction rule: conn_step.induct)
  case (st_update f s sid)
  then show ?case by (auto simp: grown_def grown_obj_def frame_of_def)
next
  case (st_alloc s sess)
  then show ?case by (auto simp: grown_def alloc_def)
next
  case (st_attach s sid sess loaded)
  then show ?case by (auto simp: grown_def grown_obj_def bindDeviceLocked_def Let_def)
qed (auto simp: grown_end grown_adopt grown_commit grown_event grown_report endDriving_def
    release_begin_def beginDriving_def intro: grown_cong)

interpretation growth: transition_system "\<lambda>t. t = s" conn_step "grown s" for s
  by unfold_locales (auto intro: grown_trans conn_step_grown)

section \<open>Live sessions and their generations\<close>

text \<open>A live session stays live, with a generation that never falls, until it is ended.\<close>

definition kept :: "svc \<Rightarrow> svc \<Rightarrow> bool" where
  "kept s t \<longleftrightarrow> (\<forall>sid \<in> set (sv_live s).
     (\<exists>x. sv_obj t sid = Some x \<and> se_ended x) \<or>
     (sid \<in> set (sv_live t) \<and> sv_driverGen s sid \<le> sv_driverGen t sid))"

lemma kept_trans:
  assumes "kept s t" "kept t u" "grown t u"
  shows "kept s u"
  unfolding kept_def
proof
  fix sid assume "sid \<in> set (sv_live s)"
  with assms(1) consider (e) x where "sv_obj t sid = Some x" "se_ended x"
    | (l) "sid \<in> set (sv_live t)" "sv_driverGen s sid \<le> sv_driverGen t sid"
    by (auto simp: kept_def)
  then show "(\<exists>x. sv_obj u sid = Some x \<and> se_ended x) \<or>
     (sid \<in> set (sv_live u) \<and> sv_driverGen s sid \<le> sv_driverGen u sid)"
  proof cases
    case e
    with assms(3) show ?thesis by (auto simp: grown_def grown_obj_def)
  next
    case l
    with assms(2) show ?thesis by (auto simp: kept_def)
  qed
qed

lemma keptI:
  assumes "\<And>sid. sid \<in> set (sv_live s) \<Longrightarrow> sid \<in> set (sv_live t) \<and> sv_driverGen s sid \<le> sv_driverGen t sid"
  shows "kept s t"
  using assms by (auto simp: kept_def)

lemma kept_refl [simp]: "kept s s"
  by (simp add: kept_def)

lemma gen_end_other: "k \<noteq> sid \<Longrightarrow> sv_driverGen (endSessionLocked now sid b s) k = sv_driverGen s k"
  by (simp add: endSessionLocked_def Let_def split: option.split)

lemma kept_end: "svc_ok s \<Longrightarrow> kept s (endSessionLocked now sid b s)"
  unfolding kept_def
proof
  fix k assume ok: "svc_ok s" and k: "k \<in> set (sv_live s)"
  obtain x where x: "sv_obj s k = Some x" "\<not> se_ended x" using svc_ok_liveE [OF ok k] by blast
  show "(\<exists>x. sv_obj (endSessionLocked now sid b s) k = Some x \<and> se_ended x) \<or>
      (k \<in> set (sv_live (endSessionLocked now sid b s)) \<and>
       sv_driverGen s k \<le> sv_driverGen (endSessionLocked now sid b s) k)"
  proof (cases "k = sid")
    case True
    with x show ?thesis by (simp add: end_session_eq(1) [of s sid x])
  next
    case False
    with k show ?thesis by (simp add: end_session_other gen_end_other)
  qed
qed

lemma kept_evict: "svc_ok s \<Longrightarrow> kept s (evict now sid e s)"
  by (simp add: evict_def kept_end split: option.split)

lemma gen_leave_evict:
  "sv_driverGen (evict now sid e (leave_endpoint now sid old s)) = sv_driverGen (evict now sid e s)"
proof (cases "\<exists>k. sv_byEndpoint s e = Some k \<and> k \<noteq> sid \<and> k \<in> set (sv_live s)")
  case True
  then show ?thesis by (auto simp: evict_def endSessionLocked_def Let_def split: option.split)
next
  case False
  then have "evict now sid e s = s" "evict now sid e (leave_endpoint now sid old s) = leave_endpoint now sid old s"
    by (auto simp: evict_def split: option.split)
  then show ?thesis by simp
qed

lemma kept_commit:
  assumes ok: "svc_ok s"
  shows "kept s (snd (transfer_commit now sid target plan loaded s))"
proof (cases "\<exists>x. sv_obj s sid = Some x \<and> \<not> se_ended x")
  case True
  then obtain x where x: "sv_obj s sid = Some x" "\<not> se_ended x" by blast
  let ?t = "snd (transfer_commit now sid target plan loaded s)"
  have gen: "sv_driverGen (evict now sid (ep_ID target) s) k \<le> sv_driverGen ?t k" for k
    unfolding commit_parts [OF x] carry_eq
    by (simp add: attach_target_simps rebind_simps gen_leave_evict)
  have "kept (evict now sid (ep_ID target) s) ?t"
    using gen by (intro keptI) (simp add: commit_eq [OF x])
  with kept_evict [OF ok] show ?thesis
    by (rule kept_trans) (rule grown_upd [OF commit_eq(1) [OF x]], use x in \<open>auto simp: grown_obj_def\<close>)
next
  case False
  then show ?thesis by (auto simp: transfer_commit_def intro!: keptI split: option.split)
qed

lemma kept_adopt:
  assumes "svc_ok s"
  shows "kept s (adopt_section now sid s)"
proof (cases "sv_obj s sid")
  case (Some x)
  have "kept (evict now sid (se_endpointID x) s) (adopt_section now sid s)"
    by (rule keptI) (simp add: adopt_section_eq [OF Some] Let_def)
  with kept_evict [OF assms] show ?thesis
    by (rule kept_trans) (rule grown_cong, simp add: adopt_section_eq [OF Some] Let_def)
qed (simp add: adopt_section_def)

lemma kept_event: "svc_ok s \<Longrightarrow> kept s (snd (event_section now sid gen ev s))"
proof (cases rule: event_section_cases [of now sid gen ev s])
  case (folded x l)
  then show ?thesis by (simp add: kept_def)
qed (simp_all add: kept_end)

lemma kept_report: "kept s (snd (report_section now newid link rep s))"
  by (cases rule: report_section_cases [of now newid link rep s])
    (auto intro!: keptI simp: report_fold_obj mirrored_simps)

lemma conn_step_kept: "conn_step s t \<Longrightarrow> svc_ok s \<Longrightarrow> kept s t"
  by (induction rule: conn_step.induct)
    (auto simp: kept_end kept_adopt kept_commit kept_event kept_report alloc_def bindDeviceLocked_def
      Let_def endDriving_def release_begin_def beginDriving_def intro!: keptI)

text \<open>A fence at generation \<open>gen\<close>: the session is over, or bound to a later generation.\<close>

definition fenced :: "ident \<Rightarrow> nat \<Rightarrow> svc \<Rightarrow> bool" where
  "fenced sid gen s \<longleftrightarrow> svc_ok s \<and>
     ((\<exists>x. sv_obj s sid = Some x \<and> se_ended x) \<or> (sid \<in> set (sv_live s) \<and> gen < sv_driverGen s sid))"

lemma conn_step_fenced: "conn_step s t \<Longrightarrow> fenced sid gen s \<Longrightarrow> fenced sid gen t"
proof -
  assume st: "conn_step s t" and f: "fenced sid gen s"
  then have ok: "svc_ok s" by (simp add: fenced_def)
  from f consider (e) x where "sv_obj s sid = Some x" "se_ended x"
    | (l) "sid \<in> set (sv_live s)" "gen < sv_driverGen s sid"
    by (auto simp: fenced_def)
  then show ?thesis
  proof cases
    case e
    with conn_step_grown [OF st] have "\<exists>y. sv_obj t sid = Some y \<and> se_ended y"
      by (auto simp: grown_def grown_obj_def)
    with conn_step_ok [OF st ok] show ?thesis by (auto simp: fenced_def)
  next
    case l
    with conn_step_kept [OF st ok] conn_step_ok [OF st ok] show ?thesis
      by (auto simp: fenced_def kept_def)
  qed
qed

interpretation fence: transition_system "fenced sid gen" conn_step "fenced sid gen" for sid gen
  by unfold_locales (auto intro: conn_step_fenced)

lemma ended_not_live: "svc_ok s \<Longrightarrow> sv_obj s sid = Some x \<Longrightarrow> se_ended x \<Longrightarrow> sid \<notin> set (sv_live s)"
  by (auto simp: svc_ok_def live_ok_def)

lemma fenced_drops: "fenced sid gen s \<Longrightarrow> event_section now sid gen ev s = (EDropped, s)"
  by (auto simp: fenced_def event_section_def live_session_def dest: ended_not_live split: option.split)

section \<open>After a shutdown\<close>

text \<open>No live session holds a driver, and what keeps it so.\<close>

definition undriven :: "svc \<Rightarrow> bool" where
  "undriven s \<longleftrightarrow> (\<forall>sid \<in> set (sv_live s). \<forall>x. sv_obj s sid = Some x \<longrightarrow> se_driver x = None)"

lemma undriven_end: "undriven s \<Longrightarrow> undriven (endSessionLocked now sid b s)"
  by (auto simp: undriven_def end_session_obj_of split: option.splits if_splits)

lemma undriven_evict: "undriven s \<Longrightarrow> undriven (evict now sid e s)"
  by (simp add: evict_def undriven_end split: option.split)

lemma undriven_adopt:
  assumes "undriven s" "sv_obj s sid = Some x" "se_driver x = None"
  shows "undriven (adopt_section now sid s)"
  using undriven_evict [OF assms(1)] assms
  by (auto simp: adopt_section_eq [OF assms(2)] Let_def undriven_def)

lemma undriven_fold: "undriven s \<Longrightarrow> undriven (snd (report_fold now link rep sid c s))"
  by (auto simp: undriven_def report_fold_obj split: option.splits if_splits)

lemma undriven_report: "undriven s \<Longrightarrow> undriven (snd (report_section now newid link rep s))"
proof (cases rule: report_section_cases [of now newid link rep s])
  case created
  assume "undriven s"
  then have "undriven (mirrored now newid link s)" by (auto simp: undriven_def mirrored_simps)
  with created show ?thesis by (simp add: undriven_fold)
qed (simp_all add: undriven_fold)

lemma undriven_event: "undriven s \<Longrightarrow> undriven (snd (event_section now sid gen ev s))"
proof (cases rule: event_section_cases [of now sid gen ev s])
  case (folded x l)
  assume "undriven s"
  with folded show ?thesis by (simp add: undriven_def)
qed (simp_all add: undriven_end)

text \<open>What a shutdown leaves: no start or transfer is in flight, none may begin, no driver is held.\<close>

definition released :: "svc \<Rightarrow> bool" where
  "released s \<longleftrightarrow> sv_stopped s \<and> sv_driving s = 0 \<and> undriven s"

lemma adopt_driving [simp]:
  "sv_driving (adopt_section now sid s) = sv_driving s \<and> sv_stopped (adopt_section now sid s) = sv_stopped s"
proof (cases "sv_obj s sid")
  case (Some x)
  then show ?thesis by (simp add: adopt_section_eq Let_def)
qed (simp add: adopt_section_def)

lemma report_driving [simp]:
  "sv_driving (snd (report_section now newid link rep s)) = sv_driving s \<and>
   sv_stopped (snd (report_section now newid link rep s)) = sv_stopped s"
  by (cases rule: report_section_cases [of now newid link rep s])
    (simp_all add: report_fold_obj mirrored_simps)

lemma event_driving [simp]:
  "sv_driving (snd (event_section now sid gen ev s)) = sv_driving s \<and>
   sv_stopped (snd (event_section now sid gen ev s)) = sv_stopped s"
  by (cases rule: event_section_cases [of now sid gen ev s]) simp_all

lemma alloc_driving [simp]:
  "sv_driving (alloc sess s) = sv_driving s \<and> sv_stopped (alloc sess s) = sv_stopped s"
  by (simp add: alloc_def)

lemma undriven_update:
  assumes "undriven s" "\<And>x. frame_of (f x) = frame_of x"
  shows "undriven (upd_obj sid f s)"
proof -
  have "se_driver (f x) = se_driver x" for x
    using assms(2) [of x] by (simp add: frame_of_def)
  with assms(1) show ?thesis by (auto simp: undriven_def split: if_splits)
qed

lemma undriven_frames [simp]:
  "undriven (eff e s) = undriven s" "undriven (endDriving s) = undriven s"
  "undriven (s\<lparr>sv_watchers := ws\<rparr>) = undriven s" "undriven (s\<lparr>sv_listen := ls\<rparr>) = undriven s"
  "undriven (s\<lparr>sv_routeSeq := n, sv_routes := rs\<rparr>) = undriven s"
  "undriven (s\<lparr>sv_pendingLoads := ps\<rparr>) = undriven s" "undriven (s\<lparr>sv_probing := pr\<rparr>) = undriven s"
  "undriven (s\<lparr>sv_reg := r, sv_registered := rg\<rparr>) = undriven s"
  "undriven (s\<lparr>sv_jobs := js\<rparr>) = undriven s" "undriven (release_begin s) = undriven s"
  by (simp_all add: undriven_def endDriving_def release_begin_def)

lemma conn_step_released: "conn_step s t \<Longrightarrow> released s \<Longrightarrow> released t"
proof (induction rule: conn_step.induct)
  case (st_update f s sid)
  then show ?case by (auto simp: released_def intro!: undriven_update)
next
  case (st_alloc s sess)
  then show ?case by (auto simp: released_def undriven_def alloc_def)
next
  case (st_adopt s sid x now)
  then show ?case by (auto simp: released_def intro: undriven_adopt)
next
  case (st_stop s)
  then show ?case by (simp add: released_def) (simp add: release_begin_def)
qed (auto simp: released_def undriven_end undriven_report undriven_event beginDriving_def)

interpretation shutdown: transition_system released conn_step released
  by unfold_locales (auto intro: conn_step_released)

text \<open>The drained half of \<open>release\<close> leads there.\<close>

definition undriven_at :: "svc \<Rightarrow> ident \<Rightarrow> bool" where
  "undriven_at s sid \<longleftrightarrow> (sid \<in> set (sv_live s) \<longrightarrow> (\<forall>x. sv_obj s sid = Some x \<longrightarrow> se_driver x = None))"

lemma release_one_steps:
  assumes "svc_ok s"
  shows "svc_ok (release_one now k s)" "sv_driving (release_one now k s) = sv_driving s"
    "sv_stopped (release_one now k s) = sv_stopped s"
    "set (sv_live (release_one now k s)) \<subseteq> set (sv_live s)"
    "undriven_at (release_one now k s) k"
    "undriven_at s j \<Longrightarrow> undriven_at (release_one now k s) j"
  using svc_ok_end [OF assms] svc_okD(2) [OF assms]
  by (auto simp: release_one_def undriven_at_def end_session_obj_of assms split: option.splits if_splits)

lemma release_fold:
  assumes "svc_ok s"
  shows "let t = fold (release_one now) ks s in svc_ok t \<and> sv_driving t = sv_driving s \<and>
    sv_stopped t = sv_stopped s \<and> set (sv_live t) \<subseteq> set (sv_live s) \<and>
    (\<forall>j. j \<in> set ks \<or> undriven_at s j \<longrightarrow> undriven_at t j)"
  using assms
proof (induction ks arbitrary: s)
  case (Cons k ks)
  note one = release_one_steps [OF Cons.prems, where now = now and k = k]
  from Cons.IH [OF one(1)] one(2-6) show ?case by (simp add: Let_def) blast
qed simp

lemma release_drained_released:
  assumes "svc_ok s" "sv_stopped s" "sv_driving s = 0"
  shows "released (release_drained now s)" "svc_ok (release_drained now s)"
  using release_fold [OF assms(1), of now "sv_live s"] assms
  by (auto simp: released_def release_drained_def Let_def undriven_def undriven_at_def)

end
