(* ===== verification/Connect_Handlers.thy ===== *)
theory Connect_Handlers
  imports Connect_Runs
begin

text \<open>
  Every handler of the connect service is a sequence of steps of \<open>conn_step\<close>: the handler of
  theories \<open>Bus\<close>, \<open>Commands\<close> and \<open>Reports\<close>, run on its own, is one of the runs that
  \<open>Connect_Runs\<close> is about.  The lemmas have the form "steps to the state before extend to
  the state after", so a handler's proof is the composition of its parts' lemmas, collected in
  \<open>step_intros\<close>.  \<open>same_core\<close> says that a part touches only what reaches the outside.
\<close>

named_theorems step_intros \<open>parts of handlers as sequences of steps\<close>

abbreviation conn_steps :: "svc \<Rightarrow> svc \<Rightarrow> bool" where
  "conn_steps \<equiv> conn_step\<^sup>*\<^sup>*"

lemma steps_then: "conn_steps s t \<Longrightarrow> conn_step t u \<Longrightarrow> conn_steps s u"
  by (rule rtranclp.rtrancl_into_rtrancl)

lemma steps_refl [step_intros]: "conn_steps s s"
  by simp

lemma steps_eff [step_intros]: "conn_steps s t \<Longrightarrow> conn_steps s (eff e t)"
  by (erule steps_then) (rule st_effect)

lemma steps_routes: "conn_steps s t \<Longrightarrow> conn_steps s (t\<lparr>sv_routeSeq := n, sv_routes := rs\<rparr>)"
  by (erule steps_then) (rule st_routes)

lemma steps_routes' [step_intros]: "conn_steps s t \<Longrightarrow> conn_steps s (t\<lparr>sv_routes := rs\<rparr>)"
  using steps_routes [of s t rs "sv_routeSeq t"] by simp

lemma steps_watchers [step_intros]: "conn_steps s t \<Longrightarrow> conn_steps s (t\<lparr>sv_watchers := ws\<rparr>)"
  by (erule steps_then) (rule st_watchers)

lemma steps_listen [step_intros]: "conn_steps s t \<Longrightarrow> conn_steps s (t\<lparr>sv_listen := ws\<rparr>)"
  by (erule steps_then) (rule st_listen)

lemma steps_reg: "conn_steps s t \<Longrightarrow> conn_steps s (t\<lparr>sv_reg := r, sv_registered := g\<rparr>)"
  by (erule steps_then) (rule st_registry)

lemma steps_reg' [step_intros]: "conn_steps s t \<Longrightarrow> conn_steps s (t\<lparr>sv_reg := r\<rparr>)"
  using steps_reg [of s t "sv_registered t" r] by simp

lemma steps_pending [step_intros]:
  "conn_steps s t \<Longrightarrow> conn_steps s (markLoadPending e sid t)"
  "conn_steps s t \<Longrightarrow> conn_steps s (clearLoadPending e t)"
  by (auto simp: markLoadPending_def clearLoadPending_def intro: steps_then st_pending)

lemma steps_update [step_intros]:
  assumes "\<And>x. frame_of (f x) = frame_of x" "\<And>x. q_QueueVersion (se_q x) \<le> q_QueueVersion (se_q (f x))"
    "conn_steps s t"
  shows "conn_steps s (upd_obj sid f t)"
  using assms by (blast intro: steps_then st_update)

lemma steps_fold [step_intros]:
  assumes "\<And>x t. conn_steps s t \<Longrightarrow> conn_steps s (f x t)" "conn_steps s t"
  shows "conn_steps s (fold f xs t)"
  using assms(2) by (induction xs arbitrary: t) (auto intro: assms(1))

section \<open>Sends, pushes and routed commands\<close>

lemma steps_drive [step_intros]: "conn_steps s t \<Longrightarrow> conn_steps s (snd (drive w d c t))"
  by (simp add: drive_def steps_eff)

lemma steps_send [step_intros]: "conn_steps s t \<Longrightarrow> conn_steps s (snd (send w l f t))"
  by (simp add: send_def steps_eff)

lemma steps_result [step_intros]: "conn_steps s t \<Longrightarrow> conn_steps s (HandleCommandResult cid res t)"
  by (auto simp: HandleCommandResult_def intro: steps_routes' split: option.split)

lemma steps_route_parts [step_intros]:
  "conn_steps s t \<Longrightarrow> conn_steps s (snd (route_begin cmd t))"
  "conn_steps s t \<Longrightarrow> conn_steps s (route_end cid t)"
  by (auto simp: route_begin_def route_end_def Let_def add.commute intro: steps_routes steps_routes')

lemma steps_route [step_intros]: "conn_steps s t \<Longrightarrow> conn_steps s (snd (routeToLink w link cmd t))"
proof -
  assume "conn_steps s t"
  then have "conn_steps s (snd (send w link f (snd (route_begin cmd t))))" for f
    by (intro steps_send steps_route_parts)
  then show ?thesis
    by (auto simp: routeToLink_def Let_def split_def intro!: steps_route_parts steps_fold steps_result)
qed

lemma steps_loadOnClient [step_intros]:
  "conn_steps s t \<Longrightarrow> conn_steps s (snd (loadOnClient w sid pids e i p play r rep t))"
  by (auto simp: loadOnClient_def Let_def split_def intro!: steps_route split: option.split sum.split)

lemma steps_persist [step_intros]: "conn_steps s t \<Longrightarrow> conn_steps s (persist sid a t)"
  by (simp add: persist_def steps_eff split: option.split)

lemma steps_flush [step_intros]: "conn_steps s t \<Longrightarrow> conn_steps s (flushListen u lt t)"
  by (simp add: flushListen_def steps_eff split: option.split)

lemma steps_push [step_intros]: "conn_steps s t \<Longrightarrow> conn_steps s (send_push w p t)"
  by (simp add: send_push_def Let_def steps_send split: prod.split)

lemma steps_notify [step_intros]:
  "conn_steps s t \<Longrightarrow> conn_steps s (notifyWatchers w sid t)"
  "conn_steps s t \<Longrightarrow> conn_steps s (pushPlayingToWatchers w t)"
  "conn_steps s t \<Longrightarrow> conn_steps s (notifyEnded w snap t)"
  by (auto simp: notifyWatchers_def notify_section_def pushPlayingToWatchers_def playing_section_def
      notifyEnded_def ended_section_def Let_def split_def split: option.split
      intro!: steps_fold steps_push steps_watchers steps_send)

lemma steps_cancel [step_intros]: "conn_steps s t \<Longrightarrow> conn_steps s (cancel_pump c t)"
  by (simp add: cancel_pump_def steps_eff split: option.split)

lemma steps_teardown [step_intros]: "conn_steps s t \<Longrightarrow> conn_steps s (run_teardown w td t)"
  by (auto simp: run_teardown_def Let_def split: option.split intro!: step_intros)

section \<open>Devices\<close>

lemma steps_forget [step_intros]: "conn_steps s t \<Longrightarrow> conn_steps s (forgetLoad sid t)"
  unfolding forgetLoad_def by (rule steps_update) (simp_all add: frame_of_def)

lemma steps_driveLoad [step_intros]: "conn_steps s t \<Longrightarrow> conn_steps s (driveLoad_section sid d m t)"
  unfolding driveLoad_section_def by (rule steps_update) (simp_all add: frame_of_def)

lemma steps_loadRendering [step_intros]:
  "conn_steps s t \<Longrightarrow> conn_steps s (snd (loadRendering w d load i p play t))"
  by (simp add: loadRendering_def split_def Let_def steps_drive)

lemma steps_try_bases [step_intros]:
  "conn_steps s t \<Longrightarrow> conn_steps s (snd (try_bases w ow ep d en ttl i p play bs e t))"
proof (induction bs arbitrary: e t)
  case (Cons b bs)
  then show ?case
    using steps_loadRendering [OF Cons.prems]
    by (auto simp: steps_eff split: sum.split prod.split) (metis snd_conv)+
qed (simp add: steps_eff)

lemma steps_loadOnDevice [step_intros]:
  "conn_steps s t \<Longrightarrow> conn_steps s (snd (loadOnDevice w ow ep en i p play t))"
  by (auto simp: loadOnDevice_def Let_def split: option.split sum.split
      intro!: steps_try_bases steps_eff steps_reg')

lemma steps_reload_bases [step_intros]:
  "conn_steps s t \<Longrightarrow> conn_steps s (snd (reload_bases w sid ow ep d en ttl i p play bs e t))"
proof (induction bs arbitrary: e t)
  case (Cons b bs)
  then show ?case
    using steps_loadRendering [OF Cons.prems]
    by (auto simp: steps_forget split: sum.split prod.split intro!: steps_driveLoad) (metis snd_conv)+
qed (simp add: steps_forget)

lemma steps_reload [step_intros]:
  "conn_steps s t \<Longrightarrow> conn_steps s (snd (reloadRemote w sid i p play t))"
  by (auto simp: reloadRemote_def split: option.split intro!: steps_reload_bases)

section \<open>Verbs\<close>

lemma steps_updateSession:
  assumes "\<And>x. frame_of (f x) = frame_of x" "\<And>x. q_QueueVersion (se_q x) \<le> q_QueueVersion (se_q (f x))"
    "conn_steps s t"
  shows "conn_steps s (updateSession now sid f t)"
  unfolding updateSession_def using assms by (intro steps_update) (auto simp: frame_of_def)

lemma steps_set_q [step_intros]:
  assumes "\<And>q. q_QueueVersion q \<le> q_QueueVersion (f q)" "conn_steps s t"
  shows "conn_steps s (updateSession now sid (set_q f) t)" "conn_steps s (upd_obj sid (set_q f) t)"
  using assms by (auto simp: frame_of_def set_q_def intro!: steps_updateSession steps_update)

lemma settle_at_version [simp]: "q_QueueVersion (settle_at now q) = q_QueueVersion q"
  by (simp add: settle_at_def)

lemma steps_checkpointRemote [step_intros]:
  "conn_steps s t \<Longrightarrow> conn_steps s (checkpointRemote w sid t)"
  by (auto simp: checkpointRemote_def Let_def split: option.split intro!: steps_persist steps_eff)

lemma steps_flushEntry [step_intros]: "conn_steps s t \<Longrightarrow> conn_steps s (flushEntryListen sid t)"
  by (auto simp: flushEntryListen_def split: option.split intro!: steps_flush steps_listen)

lemma steps_simple_verb [step_intros]:
  assumes "\<And>q. q_QueueVersion q \<le> q_QueueVersion (f q)" "conn_steps s t"
  shows "conn_steps s (snd (simple_verb w sid d c f t))"
  using steps_drive [OF assms(2), of w d c] assms(1)
  by (auto simp: simple_verb_def split: prod.split option.split intro!: steps_set_q)

lemma steps_and_then [step_intros]:
  assumes "\<And>t. conn_steps s t \<Longrightarrow> conn_steps s (f t)" "conn_steps s (snd r)"
  shows "conn_steps s (snd (and_then f r))"
  using assms by (auto simp: and_then_def split: prod.split sum.split)

lemma steps_seek [step_intros]:
  assumes "conn_steps s t"
  shows "conn_steps s (snd (remoteSeek w sid d tm p t))"
proof (cases "sv_obj t sid")
  case None
  with assms show ?thesis by (simp add: remoteSeek_def)
next
  case (Some x)
  have d: "conn_steps s t'" if "drive w d c t = (r, t')" for c r t'
    using steps_drive [OF assms, of w d c] that by simp
  have r: "conn_steps s t'" if "reloadRemote w sid i q b t = (r, t')" for i q b r t'
    using steps_reload [OF assms, of w sid i q b] that by simp
  show ?thesis
    unfolding remoteSeek_def Some
    by (auto simp: Let_def split: prod.split option.split sum.split intro!: steps_set_q dest: d r)
qed

lemma steps_skip [step_intros]:
  assumes "conn_steps s t"
  shows "conn_steps s (snd (remoteSkip w sid d tm b t))"
proof (cases "sv_obj t sid")
  case None
  with assms show ?thesis by (simp add: remoteSkip_def)
next
  case (Some x)
  have d: "conn_steps s t'" if "drive w d c t = (r, t')" for c r t'
    using steps_drive [OF assms, of w d c] that by simp
  have r: "conn_steps s t'" if "reloadRemote w sid i q b t = (r, t')" for i q b r t'
    using steps_reload [OF assms, of w sid i q b] that by simp
  show ?thesis
    unfolding remoteSkip_def Some
    by (auto simp: Let_def assms split: prod.split option.split sum.split
        intro!: steps_checkpointRemote steps_set_q steps_flushEntry dest: d r)
qed

lemma steps_setQueue [step_intros]:
  assumes "conn_steps s t"
  shows "conn_steps s (snd (remoteSetQueue w sid args t))"
proof -
  have "conn_steps s (setQueue_section sid en t)" for en
    unfolding setQueue_section_def using assms by (intro steps_set_q) simp
  then have r: "conn_steps s t'" if "reloadRemote w sid i q b (setQueue_section sid en t) = (r, t')"
    for i q b r t' en
    using steps_reload [of s "setQueue_section sid en t" w sid i q b] that by simp
  show ?thesis
    unfolding remoteSetQueue_def
    by (auto simp: Let_def assms split: prod.split option.split sum.split
        intro!: steps_eff steps_persist steps_set_q dest: r)
qed

lemma steps_shuffle [step_intros]:
  assumes "conn_steps s t"
  shows "conn_steps s (snd (remoteSetShuffle w sid b t))"
proof -
  let ?u = "\<lambda>b. shuffle_section (w_rand w (sv_log t)) sid b t"
  have u: "conn_steps s (?u b)" for b
    unfolding shuffle_section_def using assms by (intro steps_set_q) (auto simp: Let_def)
  have r: "conn_steps s t'" if "reloadRemote w sid i q p (?u b) = (r, t')" for i q p r t' b
    using steps_reload [OF u, of w sid i q p] that by (metis snd_conv)
  show ?thesis
    unfolding remoteSetShuffle_def
    by (auto simp: Let_def u frame_of_def split: prod.split option.split sum.split
        intro!: steps_eff steps_persist steps_updateSession dest: r)
qed

lemma steps_if:
  "(c \<Longrightarrow> conn_steps s (snd a)) \<Longrightarrow> (\<not> c \<Longrightarrow> conn_steps s (snd b)) \<Longrightarrow>
   conn_steps s (snd (if c then a else b))"
  by simp

lemma steps_option:
  "(v = None \<Longrightarrow> conn_steps s (snd a)) \<Longrightarrow> (\<And>x. v = Some x \<Longrightarrow> conn_steps s (snd (f x))) \<Longrightarrow>
   conn_steps s (snd (case v of None \<Rightarrow> a | Some x \<Rightarrow> f x))"
  by (cases v) auto

lemma steps_Pair: "conn_steps s t \<Longrightarrow> conn_steps s (snd (r, t))"
  by simp

lemma steps_apply [step_intros]:
  assumes "conn_steps s t"
  shows "conn_steps s (snd (applyRemoteCommand w sid d tm verb args t))"
  unfolding applyRemoteCommand_def Let_def
  by (intro steps_if steps_option steps_and_then steps_simple_verb steps_checkpointRemote steps_seek
      steps_skip steps_setQueue steps_Pair steps_persist steps_set_q steps_shuffle assms) simp_all

lemma steps_routeCommand [step_intros]:
  "conn_steps s t \<Longrightarrow> conn_steps s (snd (routeCommandToClient w sid e verb args t))"
  by (auto simp: routeCommandToClient_def Let_def split_def intro!: steps_route split: option.split sum.split)

lemma steps_end [step_intros]:
  "conn_steps s t \<Longrightarrow> sid \<in> set (sv_live t) \<Longrightarrow> conn_steps s (endSessionLocked now sid b t)"
  by (blast intro: steps_then st_end)

lemma steps_stop_live [step_intros]: "conn_steps s t \<Longrightarrow> conn_steps s (stop_live_section now sid t)"
  by (simp add: stop_live_section_def steps_end)

lemma steps_command:
  assumes "conn_steps s t"
  shows "conn_steps s (snd (HandleCommand w link sid verb args t))"
proof -
  have a: "conn_steps s t'" if "applyRemoteCommand w sid d tm verb args t = (r, t')" for d tm r t'
    using steps_apply [OF assms, of w sid d tm verb args] that by simp
  have c: "conn_steps s t'" if "routeCommandToClient w k e v args t = (r, t')" for k e r t' v
    using steps_routeCommand [OF assms, of w k e v args] that by simp
  have m: "conn_steps s (snd (mirror_command w link x verb args t))" for x
    unfolding mirror_command_def
    by (auto simp: assms split: prod.split sum.split intro!: steps_eff steps_stop_live dest: c)
  show ?thesis
    unfolding HandleCommand_def
    by (auto simp: assms m split: option.split sum.split authority.split prod.split
        intro!: steps_notify dest: a)
qed

section \<open>What loading leaves alone\<close>

definition core :: "svc \<Rightarrow> (ident \<Rightarrow> session option) \<times> ident list \<times> (ident \<Rightarrow> ident option) \<times>
    (ident \<Rightarrow> nat) \<times> int \<times> bool" where
  "core s = (sv_obj s, sv_live s, sv_byEndpoint s, sv_driverGen s, sv_driving s, sv_stopped s)"

lemma coreD:
  assumes "core t = core s"
  shows "sv_obj t = sv_obj s" "sv_live t = sv_live s" "sv_byEndpoint t = sv_byEndpoint s"
    "sv_driverGen t = sv_driverGen s" "sv_driving t = sv_driving s" "sv_stopped t = sv_stopped s"
  using assms by (simp_all add: core_def)

lemma core_frames [frame_simps]:
  "core (eff e s) = core s" "core (s\<lparr>sv_routes := rs\<rparr>) = core s" "core (s\<lparr>sv_reg := r\<rparr>) = core s"
  "core (s\<lparr>sv_routeSeq := n, sv_routes := rs\<rparr>) = core s"
  "core (s\<lparr>sv_watchers := ws\<rparr>) = core s" "core (s\<lparr>sv_listen := ls\<rparr>) = core s"
  "core (markLoadPending ep sid s) = core s" "core (clearLoadPending ep s) = core s"
  "core (persist sid a s) = core s" "core (flushListen u lt s) = core s"
  "core (cancel_pump c s) = core s" "core (snd (drive w d dc s)) = core s"
  "core (snd (send w l f s)) = core s" "core (HandleCommandResult cid res s) = core s"
  "core (snd (route_begin cmd s)) = core s" "core (route_end cid s) = core s"
  "core (send_push w p s) = core s"
  by (simp_all add: core_def markLoadPending_def persist_def flushListen_def cancel_pump_def drive_def
      send_def HandleCommandResult_def route_begin_def route_end_def send_push_def Let_def
      split: option.split prod.split)

lemma core_fold: "(\<And>x t. core (f x t) = core t) \<Longrightarrow> core (fold f xs s) = core s"
  by (induction xs arbitrary: s) auto

lemma core_route [frame_simps]: "core (snd (routeToLink w link cmd s)) = core s"
  by (auto simp: routeToLink_def Let_def split_def frame_simps core_fold)

lemma core_loadOnClient [frame_simps]:
  "core (snd (loadOnClient w sid pids e i p play r rep s)) = core s"
  by (auto simp: loadOnClient_def Let_def split_def frame_simps split: option.split sum.split)

lemma core_loadRendering [frame_simps]: "core (snd (loadRendering w d load i p play s)) = core s"
  by (simp add: loadRendering_def split_def Let_def frame_simps)

lemma core_try_bases [frame_simps]:
  "core (snd (try_bases w ow ep d en ttl i p play bs e s)) = core s"
proof (induction bs arbitrary: e s)
  case (Cons b bs)
  have "core t = core s" if "loadRendering w d ld i p play s = (r, t)" for ld r t
    using core_loadRendering [of w d ld i p play s] that by simp
  with Cons.IH show ?case by (auto simp: frame_simps split: sum.split prod.split)
qed (simp add: frame_simps)

lemma core_loadOnDevice [frame_simps]:
  "core (snd (loadOnDevice w ow ep en i p play s)) = core s"
  by (auto simp: loadOnDevice_def Let_def frame_simps split: option.split sum.split)

lemma core_notify [frame_simps]:
  "core (notifyWatchers w sid s) = core s" "core (pushPlayingToWatchers w s) = core s"
  "core (notifyEnded w snap s) = core s"
  by (auto simp: notifyWatchers_def notify_section_def pushPlayingToWatchers_def playing_section_def
      notifyEnded_def ended_section_def Let_def split_def frame_simps core_fold split: option.split)

section \<open>Starting, transferring, ending\<close>

lemma steps_endDriving:
  "conn_steps s t \<Longrightarrow> 0 < sv_driving t \<Longrightarrow> conn_steps s (endDriving t)"
  by (blast intro: steps_then st_end_driving)

lemma steps_adopt:
  "conn_steps s t \<Longrightarrow> sv_obj t sid = Some x \<Longrightarrow> \<not> se_ended x \<Longrightarrow> sid \<notin> set (sv_live t) \<Longrightarrow>
   se_driver x = None \<or> 0 < sv_driving t \<Longrightarrow> conn_steps s (snd (adoptSession w sid t))"
  unfolding adoptSession_def Let_def
  by (auto split: option.split intro!: steps_eff steps_persist intro: steps_then st_adopt)

lemma steps_handoff [step_intros]:
  "conn_steps s t \<Longrightarrow> conn_steps s (endHandoffSource w u e k t)"
  by (auto simp: endHandoffSource_def handoff_section_def live_session_def
      split: option.splits if_splits intro!: steps_eff steps_persist steps_end)

lemma driving_handoff: "sv_driving (endHandoffSource w u e k t) = sv_driving t"
  by (auto simp: endHandoffSource_def handoff_section_def persist_def split: option.split)

lemma driving_adopt: "sv_driving (snd (adoptSession w sid t)) = sv_driving t"
  by (auto simp: adoptSession_def Let_def persist_def split: option.split)

lemma new_session_simps [simp]:
  "se_id (new_session now sid u un req au en r rep) = sid"
  "\<not> se_ended (new_session now sid u un req au en r rep)"
  "se_driver (new_session now sid u un req au en r rep) = None"
  "se_driverCancel (new_session now sid u un req au en r rep) = None"
  "se_endpointID (new_session now sid u un req au en r rep) = rq_EndpointID req"
  "se_ownerID (new_session now sid u un req au en r rep) = u"
  "se_authority (new_session now sid u un req au en r rep) = au"
  by (simp_all add: new_session_def)

definition fresh_id :: "svc \<Rightarrow> ident \<Rightarrow> bool" where
  "fresh_id s k \<longleftrightarrow> sv_obj s k = None \<and> k \<notin> set (sv_live s)"

lemma alloc_simps [simp]:
  "sv_obj (alloc x s) = (sv_obj s)(se_id x \<mapsto> x)" "sv_live (alloc x s) = sv_live s"
  "sv_byEndpoint (alloc x s) = sv_byEndpoint s" "sv_driverGen (alloc x s) = sv_driverGen s"
  "sv_reg (alloc x s) = sv_reg s" "sv_log (alloc x s) = sv_log s"
  by (simp_all add: alloc_def)

lemma steps_alloc:
  assumes "fresh_id s (se_id x)" "\<not> se_ended x" "se_driver x = None" "se_driverCancel x = None"
  shows "conn_steps s (alloc x s)"
  using assms by (auto simp: fresh_id_def intro: st_alloc)

lemma steps_create_client:
  assumes x: "fresh_id s (se_id x)" "\<not> se_ended x" "se_driver x = None" "se_driverCancel x = None"
  shows "conn_steps s (snd (create_on_client w u req x from s))"
proof -
  let ?x = "x\<lparr>se_authority := AuthorityMirror\<rparr>"
  let ?s1 = "markLoadPending (rq_EndpointID req) (se_id x) (alloc ?x s)"
  have s1: "conn_steps s ?s1" using x by (intro steps_pending steps_alloc) simp_all
  obtain r s2 where l: "loadOnClient w (se_id x) (rq_PIDs req) (rq_EndpointID req) (rq_Index req)
      (rq_PositionMS req) (rq_Play req) (q_Rate (se_q x)) (q_Repeat (se_q x)) ?s1 = (r, s2)"
    by fastforce
  have s2: "conn_steps s s2" "core s2 = core (alloc ?x s)"
    using steps_loadOnClient [OF s1] core_loadOnClient l by (metis snd_conv, metis core_frames(7) snd_conv)
  note c = coreD [OF s2(2)]
  have ad: "conn_steps s (snd (adoptSession w (se_id x) s2))"
    by (rule steps_adopt [OF s2(1), where x = ?x]) (use x in \<open>auto simp: c fresh_id_def\<close>)
  show ?thesis
    unfolding create_on_client_def Let_def l
    using s2(1) ad by (auto split: sum.split prod.split intro!: steps_handoff steps_pending)
qed

lemma bind_simps:
  "sv_live (bindDeviceLocked sid ld s) = sv_live s" "sv_driving (bindDeviceLocked sid ld s) = sv_driving s"
  "sv_stopped (bindDeviceLocked sid ld s) = sv_stopped s"
  "sv_obj (bindDeviceLocked sid ld s) sid = map_option (\<lambda>x. x\<lparr>se_driver := Some (ld_driver ld),
     se_driverCancel := Some (sid, sv_driverGen s sid + 1), se_timeline := dl_tm (ld_load ld),
     se_slots := dl_slots (ld_load ld), se_mediaIndex := ld_mediaIndex ld\<rparr>) (sv_obj s sid)"
  by (simp_all add: bindDeviceLocked_def Let_def)

lemma steps_create_device:
  assumes x: "fresh_id s (se_id x)" "\<not> se_ended x" "se_driver x = None" "se_driverCancel x = None"
    and pos: "0 \<le> sv_driving s"
  shows "conn_steps s (snd (create_on_device w u req ep x from s))"
proof (cases "sv_stopped s")
  case True
  with steps_alloc [OF x] show ?thesis
    by (simp add: create_on_device_def Let_def beginDriving_def)
next
  case False
  let ?s1 = "(alloc x s)\<lparr>sv_driving := sv_driving s + 1\<rparr>"
  have b: "beginDriving (alloc x s) = (Inr (), ?s1)" using False by (simp add: beginDriving_def)
  have s1: "conn_steps s ?s1"
    using steps_then [OF steps_alloc [OF x] st_begin] by (simp add: b)
  obtain r s2 where l: "loadOnDevice w (se_ownerID x) ep (q_Entries (se_q x)) (rq_Index req)
      (rq_PositionMS req) (rq_Play req) ?s1 = (r, s2)"
    by fastforce
  have s2: "conn_steps s s2" "core s2 = core ?s1"
    using steps_loadOnDevice [OF s1] core_loadOnDevice l by (metis snd_conv)+
  note c = coreD [OF s2(2)]
  have fin: "conn_steps s (endDriving t)" if "conn_steps s t" "sv_driving t = sv_driving s + 1" for t
    using that pos by (intro steps_endDriving) auto
  show ?thesis
  proof (cases r)
    case (Inl e)
    with fin [OF s2(1)] show ?thesis by (simp add: create_on_device_def Let_def b l c)
  next
    case (Inr ld)
    let ?s3 = "attachDriver (se_id x) ld s2"
    let ?s4 = "if q_Rate (se_q x) \<noteq> 1 then snd (drive w (ld_driver ld) (DSetRate (q_Rate (se_q x))) ?s3) else ?s3"
    have s3: "conn_steps s ?s3"
      unfolding attachDriver_def Let_def
      by (intro steps_eff steps_then [OF s2(1)] st_attach [where sess = x])
        (use x pos in \<open>auto simp: c fresh_id_def\<close>)
    then have s4: "conn_steps s ?s4" by (simp add: steps_drive)
    have c4: "core ?s4 = core (bindDeviceLocked (se_id x) ld s2)"
      by (simp add: attachDriver_def Let_def frame_simps)
    note d = coreD [OF c4]
    obtain y where y: "sv_obj ?s4 (se_id x) = Some y" "\<not> se_ended y"
      using x by (simp add: d bind_simps c)
    have ad: "conn_steps s (snd (adoptSession w (se_id x) ?s4))"
      by (rule steps_adopt [OF s4 y]) (use x pos in \<open>auto simp: d bind_simps c fresh_id_def\<close>)
    have dr: "sv_driving (snd (adoptSession w (se_id x) ?s4)) = sv_driving s + 1"
      unfolding driving_adopt by (simp add: d bind_simps c)
    have "conn_steps s (endDriving (endHandoffSource w u from (se_id x) (snd (adoptSession w (se_id x) ?s4))))"
      by (rule fin) (intro steps_handoff ad, simp only: driving_handoff dr)
    with Inr show ?thesis by (simp add: create_on_device_def Let_def b l split_def)
  qed
qed

lemma steps_create:
  assumes "fresh_id s (w_newid w (sv_log s))" "0 \<le> sv_driving s"
  shows "conn_steps s (snd (CreateSession w userID userName req s))"
proof (cases "create_checks w userID req s")
  case (Inr r)
  obtain ep rate rep src where r: "r = (ep, rate, rep, src)" by (cases r) auto
  show ?thesis
  proof (cases "w_entries w (sv_log s) userID (rq_PIDs req)")
    case (Inr en)
    with \<open>create_checks w userID req s = Inr r\<close> r assms show ?thesis
      by (simp add: CreateSession_def Let_def steps_create_client steps_create_device)
  qed (simp add: CreateSession_def Inr r)
qed (simp add: CreateSession_def)

lemma steps_quiesce [step_intros]: "conn_steps s t \<Longrightarrow> conn_steps s (quiesce_source w sid plan t)"
  by (auto simp: quiesce_source_def split: option.split
      intro!: steps_eff steps_cancel steps_drive steps_route)

lemma core_quiesce [frame_simps]: "core (quiesce_source w sid plan t) = core t"
  by (auto simp: quiesce_source_def frame_simps split: option.split)

lemma steps_releaseTarget [step_intros]:
  "conn_steps s t \<Longrightarrow> conn_steps s (releaseTransferTarget w sid target d t)"
  by (auto simp: releaseTransferTarget_def split: option.split intro!: steps_eff steps_drive steps_route)

lemma core_releaseTarget [frame_simps]: "core (releaseTransferTarget w sid target d t) = core t"
  by (auto simp: releaseTransferTarget_def frame_simps split: option.split)

lemma steps_load_target [step_intros]:
  assumes "conn_steps s t"
  shows "conn_steps s (snd (load_target w sid target plan t))"
proof -
  have c: "conn_steps s t'" if "loadOnClient w sid pids e i p play r rep (markLoadPending e sid t) = (res, t')"
    for pids e i p play r rep res t'
    using steps_loadOnClient [OF steps_pending(1) [OF assms]] that by (metis snd_conv)
  have d: "conn_steps s t'" if "loadOnDevice w ow target en i p play t = (res, t')" for ow en i p play res t'
    using steps_loadOnDevice [OF assms] that by (metis snd_conv)
  show ?thesis
    unfolding load_target_def
    by (auto split: prod.split sum.split intro!: steps_pending dest: c d)
qed

lemma core_load_target: "core (snd (load_target w sid target plan s)) = core s"
proof -
  have c: "core t' = core s" if "loadOnClient w sid pids e i p play r rep (markLoadPending e sid s) = (res, t')"
    for pids e i p play r rep res t'
    using core_loadOnClient [of w sid pids e i p play r rep "markLoadPending e sid s"] that
    by (simp add: frame_simps)
  have d: "core t' = core s" if "loadOnDevice w ow target en i p play s = (res, t')" for ow en i p play res t'
    using core_loadOnDevice [of w ow target en i p play s] that by simp
  show ?thesis
    unfolding load_target_def by (auto simp: frame_simps split: prod.split sum.split dest: c d)
qed

lemma transfer_check_live:
  "transfer_check sa now u sid tid s = TGo target plan \<Longrightarrow> \<exists>x. live_session s sid = Some x"
  by (auto simp: transfer_check_def split: option.splits)

lemma driving_commit [simp]:
  "sv_driving (snd (transfer_commit now sid target plan loaded s)) = sv_driving s"
proof (cases "\<exists>x. sv_obj s sid = Some x \<and> \<not> se_ended x")
  case True
  then show ?thesis by (auto simp: commit_eq)
qed (auto simp: transfer_commit_def split: option.split)

lemma steps_transfer:
  assumes pos: "0 \<le> sv_driving s"
  shows "conn_steps s (snd (Transfer w u sid tid s))"
proof (cases "sv_stopped s")
  case True
  then show ?thesis by (simp add: Transfer_def beginDriving_def)
next
  case False
  let ?s0 = "s\<lparr>sv_driving := sv_driving s + 1\<rparr>"
  have b: "beginDriving s = (Inr (), ?s0)" using False by (simp add: beginDriving_def)
  have s0: "conn_steps s ?s0" using steps_then [OF steps_refl st_begin, of s] by (simp add: b)
  have fin: "conn_steps s (endDriving t)" if "conn_steps s t" "sv_driving t = sv_driving s + 1" for t
    using that pos by (intro steps_endDriving) auto
  show ?thesis
  proof (cases "transfer_check (sharedAllowed w ?s0) (clock w ?s0) u sid tid ?s0")
    case (TGo target plan)
    obtain res s1 where l: "load_target w sid target plan ?s0 = (res, s1)" by fastforce
    have s1: "conn_steps s s1" "core s1 = core ?s0"
      using steps_load_target [OF s0, of w sid target plan] core_load_target [of w sid target plan ?s0] l
      by simp_all
    note c = coreD [OF s1(2)]
    from transfer_check_live [OF TGo] obtain x where "live_session ?s0 sid = Some x" by blast
    then have x: "sid \<in> set (sv_live s1)" "sv_obj s1 sid = Some x"
      by (auto simp: live_session_def c split: if_splits)
    show ?thesis
    proof (cases res)
      case (Inl e)
      with fin [OF s1(1)] show ?thesis by (simp add: Transfer_def b TGo l c)
    next
      case (Inr loaded)
      obtain r s2 where k: "transfer_commit (clock w s1) sid target plan loaded s1 = (r, s2)" by fastforce
      have "conn_step s1 (snd (transfer_commit (clock w s1) sid target plan loaded s1))"
        using x pos by (intro st_commit) (auto simp: c)
      with s1(1) k have s2: "conn_steps s s2" by (auto intro: steps_then)
      have d2: "sv_driving s2 = sv_driving s + 1"
        using driving_commit [of "clock w s1" sid target plan loaded s1] k by (simp add: c)
      have fin2: "conn_steps s (endDriving t)" if "conn_steps s t" "core t = core s2" for t
        using that d2 coreD(5) [OF that(2)] by (intro fin) auto
      show ?thesis
      proof (cases r)
        case None
        then show ?thesis
          by (auto simp: Transfer_def b TGo l Inr k intro!: fin2 steps_releaseTarget s2 core_releaseTarget)
      next
        case (Some snap)
        then show ?thesis
          by (auto simp: Transfer_def b TGo l Inr k Let_def frame_simps split: option.split
              intro!: fin2 steps_eff steps_notify steps_persist steps_quiesce s2)
      qed
    qed
  next
    case (TRefused e)
    with fin [OF s0] show ?thesis by (simp add: Transfer_def b)
  next
    case (TAlreadyThere v)
    with fin [OF s0] show ?thesis by (simp add: Transfer_def b)
  qed
qed

lemma steps_End: "conn_steps s t \<Longrightarrow> conn_steps s (snd (End w u sid t))"
  by (auto simp: End_def live_session_def split: option.splits if_splits
      intro!: steps_eff steps_persist steps_end)

section \<open>Reports, events, connections, housekeeping\<close>

lemma steps_settle [step_intros]: "conn_steps s t \<Longrightarrow> conn_steps s (settleFinished w sid t)"
  unfolding settleFinished_def
  by (intro steps_notify steps_checkpointRemote steps_flushEntry steps_set_q) simp_all

lemma steps_loadFinished [step_intros]:
  assumes "conn_steps s t"
  shows "conn_steps s (onLoadFinished w sid rep t)"
proof -
  have r: "conn_steps s t'" if "reloadRemote w sid i q b t = (r, t')" for i q b r t'
    using steps_reload [OF assms, of w sid i q b] that by simp
  show ?thesis
    unfolding onLoadFinished_def
    by (auto simp: assms split: prod.split sum.split option.split
        intro!: steps_notify steps_set_q steps_settle dest: r)
qed

lemma steps_event:
  assumes "conn_steps s t"
  shows "conn_steps s (onDriverEvent w sid gen ev t)"
proof -
  obtain r t' where e: "event_section (clock w t) sid gen ev t = (r, t')" by fastforce
  have "conn_steps s t'"
    using steps_then [OF assms st_event, of "clock w t" sid gen ev] e by simp
  then show ?thesis
    by (cases r) (auto simp: onDriverEvent_def e Let_def
        intro!: steps_eff steps_loadFinished steps_notify steps_flush)
qed

lemma steps_HandleRegister [step_intros]:
  "conn_steps s t \<Longrightarrow> conn_steps s (snd (HandleRegister link n v r t))"
  by (auto simp: HandleRegister_def register_section_def split_def Let_def intro!: steps_eff steps_reg)

definition registered_first :: "client_link \<Rightarrow> svc \<Rightarrow> svc" where
  "registered_first link s =
     (if sv_registered s link then s else snd (HandleRegister link '''' True True s))"

lemma steps_report:
  assumes "fresh_id s (w_newid w (sv_log (registered_first link s)))"
  shows "conn_steps s (snd (HandleSessionReport w link rep s))"
proof -
  let ?s0 = "registered_first link s"
  let ?k = "w_newid w (sv_log ?s0)"
  have core: "sv_obj ?s0 = sv_obj s" "sv_live ?s0 = sv_live s"
    by (simp_all add: registered_first_def HandleRegister_def register_section_def Let_def split: prod.split)
  have s0: "conn_steps s ?s0" by (auto simp: registered_first_def intro!: steps_HandleRegister)
  obtain r s1 where e: "report_section (clock w ?s0) ?k link rep ?s0 = (r, s1)" by fastforce
  have s1: "conn_steps s s1"
    using steps_then [OF s0 st_report, of ?k "clock w ?s0" link rep] assms e
    by (simp add: fresh_id_def core)
  have h: "conn_steps s (hydrate_section sid en s1)" for sid en
    unfolding hydrate_section_def using s1 by (intro steps_set_q) simp_all
  show ?thesis
    unfolding HandleSessionReport_def registered_first_def [symmetric] Let_def e
    using s1 h by (auto split: report_result.split sum.split prod.splits if_splits
        intro!: steps_notify steps_eff steps_persist)
qed

lemma steps_watch: "conn_steps s t \<Longrightarrow> conn_steps s (snd (HandleWatch w link sid t))"
  by (auto simp: HandleWatch_def watch_section_def Let_def split: option.split prod.split
      intro!: steps_watchers)

lemma steps_disconnect: "conn_steps s t \<Longrightarrow> conn_steps s (OnDisconnect w link t)"
proof -
  assume t: "conn_steps s t"
  then have "conn_steps s (disconnect_section now link t)" for now
    by (auto simp: disconnect_section_def Let_def live_session_def split: option.split if_splits
        intro!: steps_end steps_watchers)
  then show ?thesis by (auto simp: OnDisconnect_def Let_def intro!: steps_eff steps_reg')
qed

lemma steps_online: "conn_steps s t \<Longrightarrow> conn_steps s (snd (EndpointOnline w k dk n a v r d t))"
  by (auto simp: EndpointOnline_def split: sum.split prod.split intro!: steps_eff steps_reg')

lemma steps_offline: "conn_steps s t \<Longrightarrow> conn_steps s (EndpointOffline w e t)"
  by (auto simp: EndpointOffline_def offline_section_def Let_def split: option.split
      intro!: steps_eff steps_end steps_reg')

lemma steps_tick: "conn_steps s t \<Longrightarrow> conn_steps s (snd (run_tick w rs t))"
proof -
  assume t: "conn_steps s t"
  have c: "conn_steps s (checkpointPlaying w u)" if "conn_steps s u" for u
    unfolding checkpointPlaying_def using that
    by (intro steps_fold) (auto split: prod.split intro!: steps_persist steps_eff)
  have p: "conn_steps s (pushPlayingToWatchers w t)" using t by (rule steps_notify)
  show ?thesis
    using c [OF p] p by (simp add: run_tick_def Let_def steps_eff)
qed

lemma steps_release:
  assumes "svc_ok s"
  shows "conn_steps s (release w s)"
proof -
  let ?now = "clock w (release_begin s)"
  have one: "conn_steps s (release_one ?now k t) \<and> (\<forall>j. j \<noteq> k \<longrightarrow>
      (j \<in> set (sv_live (release_one ?now k t)) \<longleftrightarrow> j \<in> set (sv_live t)))"
    if "conn_steps s t" "k \<in> set (sv_live t)" for k t
    using that by (auto simp: release_one_def end_session_other intro!: steps_end split: option.split)
  have "conn_steps s (fold (release_one ?now) ks t)"
    if "conn_steps s t" "set ks \<subseteq> set (sv_live t)" "distinct ks" for ks t
    using that
  proof (induction ks arbitrary: t)
    case (Cons k ks)
    then have k: "conn_steps s t" "k \<in> set (sv_live t)" "k \<notin> set ks" "set ks \<subseteq> set (sv_live t)" "distinct ks"
      by auto
    with one [OF k(1,2)] have "set ks \<subseteq> set (sv_live (release_one ?now k t))"
      by (metis subset_eq)
    with Cons.IH one [OF k(1,2)] k(5) show ?case by simp
  qed simp
  moreover have "conn_steps s (release_begin s)" by (auto intro: st_stop)
  moreover have "distinct (sv_live (release_begin s))"
    using svc_ok_distinct [OF assms] by (simp add: release_begin_def)
  ultimately show ?thesis by (simp add: release_def release_drained_def Let_def steps_eff)
qed

end
