(* ===== verification/Connect_Claims.thy ===== *)
theory Connect_Claims
  imports Connect_Handlers
begin

text \<open>
  What the connect service guarantees, stated over its reachable states and its handlers, with
  the concrete service states and worlds at which the statements are checked.
\<close>

section \<open>Concrete instances\<close>

text \<open>One user with one client connection, and an outside that answers every call.\<close>

definition link_a :: client_link where
  "link_a = \<lparr>lk_ptr = 1, lk_UserID = ''u'', lk_UserName = ''Uma'', lk_SessionID = ''se-a'',
     lk_DeviceName = ''Laptop''\<rparr>"

definition link_b :: client_link where
  "link_b = \<lparr>lk_ptr = 2, lk_UserID = ''u'', lk_UserName = ''Uma'', lk_SessionID = ''se-b'',
     lk_DeviceName = ''Phone''\<rparr>"

definition track :: "string \<Rightarrow> queue_entry" where
  "track p = \<lparr>qe_PID = p, qe_Title = ''t'', qe_Artist = ''a'', qe_DurationMS = 60000\<rparr>"

definition calm_world :: world where
  "calm_world =
     \<lparr>w_now = (\<lambda>_. 5000), w_newid = (\<lambda>_. ''s1''), w_rand = (\<lambda>_ _. None), w_allowed = None,
      w_visible = None, w_entries = (\<lambda>_ _ pids. Inr (map track pids)),
      w_streamItems = (\<lambda>_ _ _ _ _ _. Inl ErrTimeout), w_timeline = (\<lambda>_ _ _ _. Inr None),
      w_dial = (\<lambda>_ n. Inr n), w_driver = (\<lambda>_ _ _. None), w_formats = (\<lambda>_. None),
      w_send = (\<lambda>_ _ _. True), w_results = (\<lambda>_ _ c. [(ec_ID c, \<lparr>rr_ok = True, rr_code = '''', rr_message = ''''\<rparr>)]),
      w_cancelled = (\<lambda>_. False), w_upsert = (\<lambda>_ _ key _ _. Inr key),
      w_history = (\<lambda>_ _ _. Inr []),
      w_bases = \<lparr>ba_Public = ''p'', ba_LAN = ''l'', ba_Loopback = ''b''\<rparr>\<rparr>"

definition playing_report :: session_report where
  "playing_report = \<lparr>sp_Playing = True, sp_PositionMS = 100, sp_Index = 0, sp_Rate = None,
     sp_Volume = None, sp_ItemPids = [''x'', ''y''], sp_Repeat = '''', sp_Shuffle = None\<rparr>"

definition one_event :: "int \<Rightarrow> int \<Rightarrow> driver_event" where
  "one_event i p = \<lparr>ev_At = 8000, ev_Playing = True, ev_Index = i, ev_PositionMS = p, ev_Volume = None,
     ev_Finished = False, ev_Fatal = False\<rparr>"

text \<open>The service once that client has reported: one mirror session.\<close>

definition one_session :: svc where
  "one_session = snd (report_section 5000 ''s1'' link_a playing_report (new_svc []))"

lemmas demo_defs = link_a_def link_b_def track_def calm_world_def playing_report_def

lemma client_ids [simp]: "clientEndpointID ''se-a'' = ''pe-a''" "clientEndpointID ''se-b'' = ''pe-b''"
  by (simp_all add: clientEndpointID_def cut_prefix_def has_prefix_def)

lemma new_svc_simps:
  "sv_obj (new_svc rows) = (\<lambda>_. None)" "sv_live (new_svc rows) = []" "sv_driving (new_svc rows) = 0"
  by (simp_all add: new_svc_def)

lemma one_session_simps:
  "sv_live one_session = [''s1'']" "sv_byEndpoint one_session ''pe-a'' = Some ''s1''"
  "\<exists>x. sv_obj one_session ''s1'' = Some x \<and> \<not> se_ended x \<and> se_endpointID x = ''pe-a''
     \<and> se_ownerID x = ''u'' \<and> se_driver x = None \<and> q_QueueVersion (se_q x) = 1"
  "sv_driverGen one_session = (\<lambda>_. 0)" "sv_driving one_session = 0" "\<not> sv_stopped one_session"
  by (simp_all add: one_session_def report_section_def Let_def new_svc_def link_a_def playing_report_def
      report_fold_def mirror_session_def report_q_def alloc_def)

lemma one_session_run: "conn_steps (new_svc []) one_session"
  unfolding one_session_def
  by (intro r_into_rtranclp st_report) (simp_all add: new_svc_def)

lemma one_session_ok: "svc_ok one_session"
  by (rule runs.inv_reachable [OF _ one_session_run]) (auto simp: started_def)

section \<open>Sessions and endpoints\<close>

text \<open>C1. In every state the service can reach from its start, under any interleaving of the critical
  sections of its handlers, pumps and teardowns: no session id is listed twice, every listed
  session is one that has not ended and that the endpoint index finds under its own endpoint, two
  listed sessions are never on the same endpoint, and a session that has ended holds neither a
  driver nor a pump.\<close>

theorem reachable_sessions:
  assumes "conn_steps (new_svc rows) t"
  shows "distinct (sv_live t) \<and>
    (\<forall>sid. sid \<in> set (sv_live t) \<longrightarrow> (\<exists>x. sv_obj t sid = Some x \<and> se_id x = sid \<and> \<not> se_ended x \<and>
        sv_byEndpoint t (se_endpointID x) = Some sid)) \<and>
    (\<forall>a b x y. live_session t a = Some x \<longrightarrow> live_session t b = Some y \<longrightarrow>
        se_endpointID x = se_endpointID y \<longrightarrow> a = b) \<and>
    (\<forall>sid x. sv_obj t sid = Some x \<longrightarrow> se_ended x \<longrightarrow>
        se_driver x = None \<and> se_driverCancel x = None)"
proof -
  have ok: "svc_ok t" by (rule runs.inv_reachable [OF _ assms]) (auto simp: started_def)
  have live: "\<exists>x. sv_obj t sid = Some x \<and> se_id x = sid \<and> \<not> se_ended x \<and>
      sv_byEndpoint t (se_endpointID x) = Some sid" if "sid \<in> set (sv_live t)" for sid
    using svc_ok_liveE [OF ok that] by metis
  have one: "a = b" if "live_session t a = Some x" "live_session t b = Some y"
    "se_endpointID x = se_endpointID y" for a b x y
  proof -
    from that have "sv_obj t a = Some x" "a \<in> set (sv_live t)" "sv_obj t b = Some y" "b \<in> set (sv_live t)"
      by (simp_all add: live_session_def split: if_splits)
    with live that(3) have "sv_byEndpoint t (se_endpointID x) = Some a" "sv_byEndpoint t (se_endpointID x) = Some b"
      by fastforce+
    then show ?thesis by simp
  qed
  have over: "se_driver x = None \<and> se_driverCancel x = None"
    if "sv_obj t sid = Some x" "se_ended x" for sid x
    using svc_okD(2) [OF ok that] .
  show ?thesis
    by (intro conjI allI impI svc_ok_distinct [OF ok]) (use live one over in \<open>blast+\<close>)
qed

lemma reachable_sessions_witness:
  "distinct (sv_live one_session) \<and> sv_live one_session = [''s1''] \<and>
   (\<exists>x. sv_obj one_session ''s1'' = Some x \<and> \<not> se_ended x \<and>
     sv_byEndpoint one_session (se_endpointID x) = Some ''s1'')"
  using reachable_sessions [OF one_session_run] one_session_simps(1) by auto

text \<open>C38. Every handler of the service is a run of the step relation, whatever the outside answers:
  clients registering, controller commands and their results, session starts, transfers and ends,
  driver events, client reports, watches, disconnects, devices coming online and going offline, the
  housekeeping tick, teardown jobs and the shutdown are sequences of the sections the step relation interleaves, so all that holds along runs holds through
  them.\<close>

theorem handlers_are_runs:
  assumes "svc_ok s" "0 \<le> sv_driving s"
    and "fresh_id s (w_newid w (sv_log s))"
    and "fresh_id s (w_newid w (sv_log (registered_first link s)))"
  shows "conn_steps s (snd (HandleCommand w link sid verb args s)) \<and>
    conn_steps s (snd (CreateSession w u un req s)) \<and>
    conn_steps s (snd (Transfer w u sid e s)) \<and>
    conn_steps s (snd (End w u sid s)) \<and>
    conn_steps s (onDriverEvent w sid gen ev s) \<and>
    conn_steps s (snd (HandleSessionReport w link rep s)) \<and>
    conn_steps s (snd (HandleWatch w link sid s)) \<and>
    conn_steps s (OnDisconnect w link s) \<and>
    conn_steps s (EndpointOffline w e s) \<and>
    conn_steps s (snd (run_tick w rs s)) \<and>
    conn_steps s (run_teardown w td s) \<and>
    conn_steps s (release w s) \<and>
    conn_steps s (snd (HandleRegister link name vol rate s)) \<and>
    conn_steps s (HandleCommandResult cid res s) \<and>
    conn_steps s (snd (EndpointOnline w kind key name' addr vol' rate' dial s))"
  using assms by (simp add: steps_command steps_create steps_transfer steps_End steps_event
      steps_report steps_watch steps_disconnect steps_offline steps_tick steps_teardown steps_release
      steps_HandleRegister steps_result steps_online)

lemma handlers_are_runs_witness:
  "conn_steps (new_svc []) (snd (HandleSessionReport calm_world link_a playing_report (new_svc [])))"
  by (rule handlers_are_runs [where s = "new_svc []" and w = calm_world and link = link_a
        and rep = playing_report, THEN conjunct2, THEN conjunct2, THEN conjunct2, THEN conjunct2,
        THEN conjunct2, THEN conjunct1])
    (simp_all add: svc_ok_new fresh_id_def new_svc_simps)

text \<open>A session that has ended stays ended through every run: it is never listed again, keeps its
  owner, and never gets a driver or a pump again.\<close>

theorem ended_for_good:
  assumes "conn_steps (new_svc rows) s" "sv_obj s sid = Some x" "se_ended x" "conn_steps s t"
  shows "\<exists>y. sv_obj t sid = Some y \<and> se_ended y \<and> se_ownerID y = se_ownerID x \<and>
    se_driver y = None \<and> se_driverCancel y = None \<and> sid \<notin> set (sv_live t)"
proof -
  have "svc_ok t"
    by (rule runs.inv_reachable [OF _ rtranclp_trans [OF assms(1,4)]]) (auto simp: started_def)
  moreover have "grown s t" by (rule growth.inv_steps [OF assms(4)]) simp
  ultimately show ?thesis
    using assms(2,3) svc_okD(2) [of t] ended_not_live [of t] by (fastforce simp: grown_def grown_obj_def)
qed

lemma one_session_ended:
  "conn_steps (new_svc []) (endSessionLocked 6000 ''s1'' True one_session)"
  "\<exists>x. sv_obj (endSessionLocked 6000 ''s1'' True one_session) ''s1'' = Some x \<and> se_ended x"
proof -
  show "conn_steps (new_svc []) (endSessionLocked 6000 ''s1'' True one_session)"
    by (rule steps_end [OF one_session_run]) (simp add: one_session_simps)
  obtain x where "sv_obj one_session ''s1'' = Some x" "\<not> se_ended x" using one_session_simps(3) by blast
  then show "\<exists>x. sv_obj (endSessionLocked 6000 ''s1'' True one_session) ''s1'' = Some x \<and> se_ended x"
    by (simp add: end_session_eq)
qed

lemma ended_for_good_witness:
  "\<exists>y. sv_obj (OnDisconnect calm_world link_a (endSessionLocked 6000 ''s1'' True one_session)) ''s1'' = Some y
     \<and> se_ended y"
proof -
  let ?s = "endSessionLocked 6000 ''s1'' True one_session"
  obtain x where x: "sv_obj ?s ''s1'' = Some x" "se_ended x" using one_session_ended(2) by blast
  have "conn_steps ?s (OnDisconnect calm_world link_a ?s)" by (rule steps_disconnect) simp
  from ended_for_good [OF one_session_ended(1) x this] show ?thesis by blast
qed

text \<open>C16. Once a transfer has rebound a live session, an event of the pump that drove it before (its
  generation, or any earlier one) never does anything to the session or the service again,
  whatever runs after the transfer.\<close>

theorem old_pump_dropped:
  assumes "svc_ok s" "sv_obj s sid = Some x" "sid \<in> set (sv_live s)"
    and "conn_steps (snd (transfer_commit now sid target plan loaded s)) u"
    and "gen \<le> sv_driverGen s sid"
  shows "event_section now' sid gen ev u = (EDropped, u)"
proof -
  let ?t = "snd (transfer_commit now sid target plan loaded s)"
  have nx: "\<not> se_ended x" using assms(1-3) ended_not_live by blast
  note eqs = commit_eq [OF assms(2) nx, of now target plan loaded]
  have "svc_ok ?t" using assms(1-3) by (intro svc_ok_commit) auto
  then have "fenced sid gen ?t"
    using assms(3,5) by (auto simp: fenced_def eqs)
  then show ?thesis using fence.inv_steps [OF assms(4)] fenced_drops by blast
qed

definition phone :: endpoint where
  "phone = \<lparr>ep_ID = ''pe-b'', ep_Kind = KindClient, ep_Name = ''Phone'', ep_OwnerUserID = ''u'',
     ep_Shared = False, ep_Online = True, ep_VolumeControl = True, ep_RateControl = True\<rparr>"

definition phone_plan :: transfer_plan where
  "phone_plan = \<lparr>tp_index = 0, tp_positionMS = 100, tp_play = True, tp_entries = [], tp_rate = 1,
     tp_repeat = ''off'', tp_oldEndpoint = ''pe-a'', tp_oldDriver = None, tp_oldCancel = None,
     tp_oldAuthority = AuthorityMirror, tp_owner = ''u''\<rparr>"

lemma old_pump_dropped_witness:
  "event_section 9000 ''s1'' 0 (one_event 0 200)
     (eff EInvalidate (snd (transfer_commit 7000 ''s1'' phone phone_plan None one_session))) =
   (EDropped, eff EInvalidate (snd (transfer_commit 7000 ''s1'' phone phone_plan None one_session)))"
proof -
  obtain x where x: "sv_obj one_session ''s1'' = Some x" using one_session_simps(3) by blast
  have "conn_steps (snd (transfer_commit 7000 ''s1'' phone phone_plan None one_session))
      (eff EInvalidate (snd (transfer_commit 7000 ''s1'' phone phone_plan None one_session)))"
    by (rule steps_eff) simp
  from old_pump_dropped [OF one_session_ok x _ this] show ?thesis by (simp add: one_session_simps)
qed

text \<open>C21. A shutdown lets go of every device for good: once the service is stopped and no start or
  transfer is in flight, the release leaves no listed session with a driver, and no run that
  follows gives one a driver again.\<close>

theorem shutdown_releases:
  assumes "conn_steps (new_svc rows) s" "sv_stopped s" "sv_driving s = 0"
    and "conn_steps (release_drained now s) t" "live_session t sid = Some x"
  shows "se_driver x = None"
proof -
  have "svc_ok s" by (rule runs.inv_reachable [OF _ assms(1)]) (auto simp: started_def)
  then have "released t"
    using shutdown.inv_reachable [OF release_drained_released(1)] assms by blast
  with assms(5) show ?thesis
    by (auto simp: released_def undriven_def live_session_def split: if_splits)
qed

lemma shutdown_releases_witness:
  "\<exists>x. live_session (release_drained 9000 (release_begin one_session)) ''s1'' = Some x \<and> se_driver x = None"
proof -
  let ?s = "release_begin one_session"
  obtain x where x: "sv_obj one_session ''s1'' = Some x" "se_driver x = None"
    using one_session_simps(3) by blast
  have run: "conn_steps (new_svc []) ?s" using one_session_run st_stop by (rule steps_then)
  have live: "live_session (release_drained 9000 ?s) ''s1'' = Some x"
    using x by (simp add: live_session_def release_drained_def release_one_def release_begin_def
        one_session_simps)
  have "se_driver x = None"
    by (rule shutdown_releases [OF run _ _ _ live, of 9000])
      (simp_all add: release_begin_def one_session_simps)
  with live show ?thesis by blast
qed

section \<open>Positions\<close>

text \<open>What a rendering holds: the timeline where it has one, the slot table otherwise.\<close>

definition load_holds :: "device_load \<Rightarrow> int \<Rightarrow> int \<Rightarrow> bool" where
  "load_holds d e ms =
     (case dl_tm d of Some tm \<Rightarrow> timeline_holds tm e ms | None \<Rightarrow> slots_hold (dl_slots d) e ms)"

lemma event_position_load:
  assumes "load_at d index ms = (items, i, p)" "load_holds d index ms" "load_holds d index (ms + e)" "0 \<le> e"
    and x: "se_timeline x = dl_tm d" "se_slots x = dl_slots d" "in_range index (q_Entries (se_q x))"
    and ev: "ev_Index ev = i" "ev_PositionMS ev = p + e"
  shows "\<exists>m. event_position x ev now = (index, ms + e, m)"
proof (cases "dl_tm d")
  case (Some tm)
  have "timeline_from_dev tm 0 (p + e) = (index, ms + e)"
    by (rule timeline_map.report [of tm index ms e])
      (use assms(1-4) Some in \<open>auto simp: load_holds_def load_at_def timeline_to_dev_def\<close>)
  with Some x ev show ?thesis by (simp add: event_position_def Let_def timeline_from_dev_def)
next
  case None
  then have h: "slots_hold (dl_slots d) index ms" "slots_hold (dl_slots d) index (ms + e)"
    and pl: "place (dl_slots d) index ms = (i, p)"
    using assms(1-3) by (auto simp: load_holds_def load_at_def split: prod.splits)
  have "locate (dl_slots d) i (p + e) = (index, ms + e)"
    by (rule slot_map.report [OF h assms(4) pl])
  with place_holds(1) [OF h(1) pl] None x ev show ?thesis
    by (simp add: event_position_def Let_def)
qed

text \<open>What a device plays is read back as what was loaded: after a load of a queue position onto a
  device, an event that reports the loaded media item at the loaded position plus some time puts
  the session at that queue entry and that position plus that time, on a slot table (one file
  per item, or several slots per file) and on a gapless timeline alike, as long as the
  rendering holds both positions.\<close>

theorem event_after_load:
  assumes "sid \<in> set (sv_live s)" "sv_obj s sid = Some x" "\<not> ev_Fatal ev"
    and "load_at d index ms = (items, i, p)" "load_holds d index ms" "load_holds d index (ms + e)" "0 \<le> e"
    and "in_range index (q_Entries (se_q x))" "ev_Index ev = i" "ev_PositionMS ev = p + e"
  shows "\<exists>y. sv_obj (snd (event_section now sid (sv_driverGen s sid) ev (driveLoad_section sid d i s))) sid
      = Some y \<and> q_Index (se_q y) = index \<and> q_PositionMS (se_q y) = ms + e \<and>
        q_Entries (se_q y) = q_Entries (se_q x) \<and> q_Playing (se_q y) = ev_Playing ev"
proof -
  let ?s = "driveLoad_section sid d i s"
  let ?x = "x\<lparr>se_timeline := dl_tm d, se_slots := dl_slots d, se_mediaIndex := i\<rparr>"
  have s: "live_session ?s sid = Some ?x" "sv_driverGen ?s sid = sv_driverGen s sid"
    using assms(1,2) by (simp_all add: driveLoad_section_def live_session_def)
  obtain m where "event_position ?x ev (event_time now ev) = (index, ms + e, m)"
    using event_position_load [OF assms(4-7), of ?x ev "event_time now ev"] assms(8-10) by auto
  then show ?thesis
    using assms(3) by (simp add: event_section_def s Let_def event_time_def fold_event_def)
qed

definition two_slots :: device_load where
  "two_slots = \<lparr>dl_items = [], dl_slots = [\<lparr>sl_Entry = 0, sl_StartMS = 0\<rparr>,
     \<lparr>sl_Entry = 0, sl_StartMS = 30000\<rparr>, \<lparr>sl_Entry = 1, sl_StartMS = 0\<rparr>], dl_tm = None\<rparr>"

lemma event_after_load_witness:
  "\<exists>y. sv_obj (snd (event_section 9000 ''s1'' 0 (one_event 1 6000)
        (driveLoad_section ''s1'' two_slots 1 (hydrate_section ''s1'' [track ''x'', track ''y''] one_session)))) ''s1''
     = Some y \<and> q_Index (se_q y) = 0 \<and> q_PositionMS (se_q y) = 36000"
proof -
  let ?s = "hydrate_section ''s1'' [track ''x'', track ''y''] one_session"
  obtain x where "sv_obj one_session ''s1'' = Some x" using one_session_simps(3) by blast
  then have x: "sv_obj ?s ''s1'' = Some (set_q (\<lambda>q. q\<lparr>q_Entries := [track ''x'', track ''y'']\<rparr>) x)"
    by (simp add: hydrate_section_def)
  have live: "''s1'' \<in> set (sv_live ?s)" by (simp add: hydrate_section_def one_session_simps)
  have gen: "sv_driverGen ?s ''s1'' = 0" by (simp add: hydrate_section_def one_session_simps)
  have "load_at two_slots 0 35000 = ([], 1, 5000)"
    by (simp add: load_at_def two_slots_def place_def Let_def)
  from event_after_load [OF live x, where ev = "one_event 1 6000" and d = two_slots and index = 0
      and ms = 35000 and e = 1000 and now = 9000, OF _ this] show ?thesis
    by (auto simp: one_event_def load_holds_def two_slots_def slots_hold_def set_q_def in_range_def gen)
qed

text \<open>An observed position runs on soundly: read at any later instant it never goes back, stays
  between what was observed and the end of the entry, is the observed one while playback is
  paused, and at normal rate is exactly the observed one plus the whole milliseconds gone by,
  cut off at the entry's end.\<close>

theorem extrapolate_sound:
  assumes "currentDurationMS q \<le> 0 \<or> q_PositionMS q \<le> currentDurationMS q" "t1 \<le> t2"
  shows "extrapolate q t1 \<le> extrapolate q t2 \<and> q_PositionMS q \<le> extrapolate q t1 \<and>
    (0 < currentDurationMS q \<longrightarrow> extrapolate q t1 \<le> currentDurationMS q) \<and>
    (\<not> q_Playing q \<longrightarrow> extrapolate q t1 = q_PositionMS q) \<and>
    (q_Playing q \<and> q_Rate q = 1 \<and> q_PositionAt q \<noteq> zero_time \<and> q_PositionAt q \<le> t1 \<and>
       t1 - q_PositionAt q < 10 ^ 15 \<longrightarrow>
     extrapolate q t1 =
       (let pos = q_PositionMS q + (t1 - q_PositionAt q) div 1000000
        in if 0 < currentDurationMS q then min pos (currentDurationMS q) else pos))"
proof -
  have mono: "time_sub t1 (q_PositionAt q) \<le> time_sub t2 (q_PositionAt q)"
    using assms(2) by (rule time_sub_mono)
  have le: "run_ms q (time_sub t1 (q_PositionAt q)) \<le> run_ms q (time_sub t2 (q_PositionAt q))"
    if "0 < time_sub t1 (q_PositionAt q)"
    using that mono by (intro run_ms_mono) auto
  have nn: "0 \<le> run_ms q (time_sub t (q_PositionAt q))" if "0 < time_sub t (q_PositionAt q)" for t
    using that by (intro run_ms_nonneg) auto
  have exact: "run_ms q d = d div 1000000" if "q_Rate q = 1" "0 \<le> d" "d < 10 ^ 15" for d
  proof -
    have "d div 1000000 < 2 ^ 53" using that(3) by simp
    moreover have nonneg: "0 \<le> d div 1000000" using that(2) by simp
    ultimately have "f64 (of_int (d div 1000000)) = of_int (d div 1000000)"
      using f64_of_nat_exact [of "nat (d div 1000000)"] by simp
    then show ?thesis using that(1,2) by (simp add: run_ms_def f64_mul_def milliseconds_def)
  qed
  have sub: "time_sub t1 (q_PositionAt q) = t1 - q_PositionAt q"
    if "q_PositionAt q \<le> t1" "t1 - q_PositionAt q < 10 ^ 15"
    using that by (intro time_sub_exact) (auto simp: min_duration_def max_duration_def)
  have "extrapolate q t1 \<le> extrapolate q t2"
    using assms(1) mono le nn [of t2] by (auto simp: extrapolate_eq Let_def)
  moreover have "q_PositionMS q \<le> extrapolate q t1"
    using assms(1) nn [of t1] by (auto simp: extrapolate_eq Let_def)
  moreover have "0 < currentDurationMS q \<longrightarrow> extrapolate q t1 \<le> currentDurationMS q"
    using assms(1) by (auto simp: extrapolate_eq Let_def)
  moreover have "\<not> q_Playing q \<longrightarrow> extrapolate q t1 = q_PositionMS q"
    by (simp add: extrapolate_eq)
  ultimately show ?thesis
    using exact sub assms(1) by (auto simp: extrapolate_eq Let_def min_def)
qed

definition playing_q :: queue_state where
  "playing_q = \<lparr>q_Entries = [track ''x''], q_Index = 0, q_PositionMS = 500, q_PositionAt = 0, q_Playing = True,
     q_Rate = 1, q_Volume = None, q_Repeat = ''off'', q_Shuffle = False, q_QueueVersion = 1\<rparr>"

lemma extrapolate_sound_witness:
  "extrapolate playing_q (2 * 10 ^ 9) = 2500 \<and> extrapolate playing_q (10 ^ 12) = 60000"
  using extrapolate_sound [of playing_q "2 * 10 ^ 9" "10 ^ 12"] extrapolate_sound [of playing_q "10 ^ 12 - 1" "10 ^ 12 - 1"]
    extrapolate_sound [of playing_q "10 ^ 12" "10 ^ 12"]
  by (simp add: playing_q_def currentDurationMS_def track_def zero_time_def Let_def)

end
