(* ===== verification/Connect_Queue.thy ===== *)
theory Connect_Queue
  imports Connect_Claims "HOL-Library.Multiset"
begin

text \<open>
  The connect service's queue: shuffling, skipping and replacing it, the listings built from it,
  what a push shows to whom, how a routed command gets its answer, and how listening is counted.
\<close>

section \<open>Shuffling\<close>

lemma mset_pick_all: "mset (pick_all draw xs) = mset xs"
proof (induction draw xs rule: pick_all.induct)
  case (1 draw rest)
  show ?case
  proof (cases "rest = []")
    case True
    then show ?thesis by (simp add: pick_all.simps)
  next
    case False
    let ?n = "draw_index draw (length rest)"
    have n: "?n < length rest" using False by (simp add: draw_index_less)
    have "mset (pick_all draw rest) = add_mset (rest ! ?n) (mset (take ?n rest @ drop (Suc ?n) rest))"
      using 1 [OF False refl] False by (subst pick_all.simps) (simp add: Let_def)
    also have "\<dots> = mset rest"
      using n by (metis id_take_nth_drop mset.simps(2) mset_append union_mset_add_mset_right)
    finally show ?thesis .
  qed
qed

lemma without_index:
  "map snd (filter (\<lambda>(i, e). int i \<noteq> int (n + k)) (enumerate n xs)) = take k xs @ drop (Suc k) xs"
proof (induction xs arbitrary: n k)
  case (Cons a xs)
  show ?case
  proof (cases k)
    case 0
    have "filter (\<lambda>(i, e). int i \<noteq> int n) (enumerate (Suc n) xs) = enumerate (Suc n) xs"
      by (rule filter_True) (auto simp: in_set_enumerate_eq)
    with 0 show ?thesis by (simp del: of_nat_Suc)
  next
    case (Suc j)
    with Cons.IH [of "Suc n" j] show ?thesis by (simp del: of_nat_Suc)
  qed
qed simp

lemma shuffled_in_range:
  assumes "in_range i xs"
  shows "\<exists>rest. shuffledEntries draw xs i = (xs ! nat i) # rest \<and> mset (shuffledEntries draw xs i) = mset xs"
proof -
  have i: "0 \<le> i" "nat i < length xs" using assms by (auto simp: in_range_def)
  then have "map snd (filter (\<lambda>(j, e). int j \<noteq> i) (enumerate 0 xs)) = take (nat i) xs @ drop (Suc (nat i)) xs"
    using without_index [of 0 "nat i" xs] by simp
  then have eq: "shuffledEntries draw xs i =
      xs ! nat i # pick_all draw (take (nat i) xs @ drop (Suc (nat i)) xs)"
    using assms by (simp add: shuffledEntries_def)
  have "mset (xs ! nat i # (take (nat i) xs @ drop (Suc (nat i)) xs)) = mset xs"
    using i(2) by (metis id_take_nth_drop mset.simps(2) mset_append union_mset_add_mset_right)
  with eq show ?thesis by (simp add: mset_pick_all)
qed

text \<open>Turning shuffle on plays on with the same item: whatever the random draws, the queue holds
  exactly the same entries as often as before, the current entry is first and is the current one
  again (index 0), and the queue's version has moved on; turning it off leaves the queue as it
  is.\<close>

theorem shuffle_keeps_queue:
  assumes "sv_obj s sid = Some x" "in_range (q_Index (se_q x)) (q_Entries (se_q x))"
  shows "\<exists>y. sv_obj (shuffle_section draw sid on s) sid = Some y \<and> q_Shuffle (se_q y) = on \<and>
    mset (q_Entries (se_q y)) = mset (q_Entries (se_q x)) \<and>
    q_Entries (se_q y) ! nat (q_Index (se_q y)) = q_Entries (se_q x) ! nat (q_Index (se_q x)) \<and>
    in_range (q_Index (se_q y)) (q_Entries (se_q y)) \<and>
    (on \<longrightarrow> q_Index (se_q y) = 0 \<and> q_QueueVersion (se_q y) = q_QueueVersion (se_q x) + 1) \<and>
    (\<not> on \<longrightarrow> q_Entries (se_q y) = q_Entries (se_q x) \<and> q_QueueVersion (se_q y) = q_QueueVersion (se_q x))"
proof -
  obtain rest where r: "shuffledEntries draw (q_Entries (se_q x)) (q_Index (se_q x)) =
      (q_Entries (se_q x) ! nat (q_Index (se_q x))) # rest"
    "mset (shuffledEntries draw (q_Entries (se_q x)) (q_Index (se_q x))) = mset (q_Entries (se_q x))"
    using shuffled_in_range [OF assms(2)] by blast
  show ?thesis
    using assms r by (auto simp: shuffle_section_def set_q_def Let_def in_range_def)
qed

lemma hydrated_session:
  "\<exists>x. sv_obj (hydrate_section ''s1'' es one_session) ''s1'' = Some x \<and> q_Entries (se_q x) = es
     \<and> q_Index (se_q x) = 0 \<and> q_QueueVersion (se_q x) = 1"
  by (simp add: hydrate_section_def set_q_def one_session_def report_section_def Let_def new_svc_def
      link_a_def playing_report_def report_fold_def mirror_session_def report_q_def alloc_def)

lemma shuffle_keeps_queue_witness:
  "\<exists>y. sv_obj (shuffle_section (\<lambda>_. Some 1) ''s1'' True
        (hydrate_section ''s1'' [track ''x'', track ''y'', track ''z''] one_session)) ''s1'' = Some y \<and>
     mset (q_Entries (se_q y)) = {#track ''x'', track ''y'', track ''z''#} \<and> q_QueueVersion (se_q y) = 2"
proof -
  obtain x where x: "sv_obj (hydrate_section ''s1'' [track ''x'', track ''y'', track ''z''] one_session) ''s1'' = Some x"
      "q_Entries (se_q x) = [track ''x'', track ''y'', track ''z'']" "q_Index (se_q x) = 0" "q_QueueVersion (se_q x) = 1"
    using hydrated_session by blast
  from shuffle_keeps_queue [OF x(1), of "\<lambda>_. Some 1" True] x(2-4) show ?thesis
    by (auto simp: in_range_def)
qed

section \<open>Routed commands\<close>

lemma fold_results:
  assumes "sv_routes s cid = Some r"
  shows "sv_routes (fold (\<lambda>(c, res). HandleCommandResult c res) rs s) cid =
    Some (case r of Some x \<Rightarrow> Some x | None \<Rightarrow> map_option snd (find (\<lambda>(c, x). c = cid) rs))"
  using assms
proof (induction rs arbitrary: s r)
  case (Cons p rs)
  obtain c x where p: "p = (c, x)" by (cases p)
  show ?case
  proof (cases "c = cid")
    case True
    with Cons.prems have "sv_routes (HandleCommandResult c x s) cid = Some (Some (case r of Some y \<Rightarrow> y | None \<Rightarrow> x))"
      by (simp add: HandleCommandResult_def split: option.split)
    from Cons.IH [OF this] True p show ?thesis by (simp split: option.split)
  next
    case False
    then have "sv_routes (HandleCommandResult c x s) cid = Some r"
      using Cons.prems by (simp add: HandleCommandResult_def split: option.split)
    from Cons.IH [OF this] False p show ?thesis by (simp split: option.split)
  qed
qed (simp split: option.split)

text \<open>A command routed to a client is answered by the first result that names it and by no other:
  results for other commands, and further results for this one, are not taken for its answer; no
  such result is a timeout (or the request's own cancellation), a link that cannot be written to
  is an endpoint offline, and in every case the command waits no longer, so a late result
  finds nothing to fill.\<close>

theorem routed_command_answer:
  "\<exists>cmd s1. cmd = cmd0\<lparr>ec_ID := ''e'' @ show_nat (sv_routeSeq s + 1)\<rparr> \<and>
     s1 = eff (ESend link (FCommand cmd)) (snd (route_begin cmd0 s)) \<and>
     fst (routeToLink w link cmd0 s) =
       (if \<not> w_send w (sv_log s) link (FCommand cmd) then Inl (ErrEndpointOffline '''')
        else case find (\<lambda>(c, r). c = ec_ID cmd) (w_results w (sv_log s1) link cmd) of
               Some (c, r) \<Rightarrow> Inr r
             | None \<Rightarrow> Inl (if w_cancelled w (sv_log s1) then ErrContext else ErrTimeout)) \<and>
     sv_routes (snd (routeToLink w link cmd0 s)) (ec_ID cmd) = None \<and>
     HandleCommandResult (ec_ID cmd) res (snd (routeToLink w link cmd0 s)) = snd (routeToLink w link cmd0 s)"
proof -
  define cid where "cid = ''e'' @ show_nat (sv_routeSeq s + 1)"
  define cmd where "cmd = cmd0\<lparr>ec_ID := cid\<rparr>"
  define s1 where "s1 = snd (route_begin cmd0 s)"
  define s2 where "s2 = eff (ESend link (FCommand cmd)) s1"
  have b: "route_begin cmd0 s = (cmd, s1)"
    by (simp add: s1_def route_begin_def Let_def cmd_def cid_def)
  have routes: "sv_routes s2 cid = Some None" and log1: "sv_log s1 = sv_log s"
    by (simp_all add: s2_def s1_def route_begin_def Let_def cid_def)
  let ?s3 = "fold (\<lambda>(c, res). HandleCommandResult c res) (w_results w (sv_log s2) link cmd) s2"
  have log_one: "sv_log (HandleCommandResult c r t) = sv_log t" for c r t
    by (simp add: HandleCommandResult_def split: option.split)
  have log_fold: "sv_log (fold (\<lambda>(c, res). HandleCommandResult c res) rs t) = sv_log t" for rs t
    by (induction rs arbitrary: t) (auto simp: log_one)
  have id: "ec_ID cmd = cid" by (simp add: cmd_def)
  note f = fold_results [OF routes, of "w_results w (sv_log s2) link cmd"]
  have none: "sv_routes (snd (routeToLink w link cmd0 s)) cid = None"
    by (simp add: routeToLink_def b send_def s2_def [symmetric] id Let_def route_end_def)
  then have late: "HandleCommandResult cid res (snd (routeToLink w link cmd0 s)) = snd (routeToLink w link cmd0 s)"
    by (simp add: HandleCommandResult_def)
  have "fst (routeToLink w link cmd0 s) =
       (if \<not> w_send w (sv_log s) link (FCommand cmd) then Inl (ErrEndpointOffline '''')
        else case find (\<lambda>(c, r). c = cid) (w_results w (sv_log s2) link cmd) of
               Some (c, r) \<Rightarrow> Inr r
             | None \<Rightarrow> Inl (if w_cancelled w (sv_log s2) then ErrContext else ErrTimeout))"
    using f by (auto simp: routeToLink_def b send_def s2_def [symmetric] id log1 Let_def log_fold
        split: option.split)
  with none late show ?thesis
    by (intro exI [of _ cmd] exI [of _ s2]) (simp add: id s2_def s1_def cmd_def cid_def)
qed

section \<open>Listings\<close>

lemma mset_sift: "mset (sift x xs) = add_mset x (mset xs)"
  by (induction xs) auto

lemma set_sift: "set (sift x xs) = insert x (set xs)"
  by (induction xs) auto

lemma sorted_sift:
  "sorted (map vw_UpdatedAt xs) \<Longrightarrow> sorted (map vw_UpdatedAt (sift x xs))"
  by (induction xs) (auto simp: set_sift)

lemma sift_fold:
  "mset (fold sift vs acc) = mset vs + mset acc \<and>
   (sorted (map vw_UpdatedAt acc) \<longrightarrow> sorted (map vw_UpdatedAt (fold sift vs acc)))"
  by (induction vs arbitrary: acc) (auto simp: mset_sift sorted_sift)

lemma receiver_view_fields [simp]:
  "vw_ID (receiver_view w s v u) = vw_ID v" "vw_UpdatedAt (receiver_view w s v u) = vw_UpdatedAt v"
  "vw_OwnerUserID (receiver_view w s v u) = vw_OwnerUserID v"
  "vw_QueueVersion (receiver_view w s v u) = vw_QueueVersion v"
  by (auto simp: receiver_view_def receiverView_def Let_def split: option.split)

lemma snapshot_fields [simp]:
  "vw_ID (snapshot s now x) = se_id x" "vw_UpdatedAt (snapshot s now x) = se_updatedAt x"
  "vw_OwnerUserID (snapshot s now x) = se_ownerID x" "vw_Entries (snapshot s now x) = q_Entries (se_q x)"
  "vw_QueueVersion (snapshot s now x) = q_QueueVersion (se_q x)"
  "vw_EndpointID (snapshot s now x) = se_endpointID x" "vw_Index (snapshot s now x) = q_Index (se_q x)"
  "vw_PositionMS (snapshot s now x) = extrapolate (se_q x) now"
  "vw_Playing (snapshot s now x) = q_Playing (se_q x)" "vw_Ended (snapshot s now x) = se_ended x"
  by (simp_all add: snapshot_def)

definition shown :: "svc \<Rightarrow> ident \<Rightarrow> ident \<Rightarrow> bool" where
  "shown s u sid = (case live_session s sid of Some x \<Rightarrow> visible_session s u x | None \<Rightarrow> False)"

lemma map_filter_live:
  assumes ok: "svc_ok s" and sub: "set ks \<subseteq> set (sv_live s)"
  shows "map se_id (filter (visible_session s u) (List.map_filter (live_session s) ks)) = filter (shown s u) ks"
  using sub
proof (induction ks)
  case Nil
  then show ?case by (simp add: List.map_filter_def)
next
  case (Cons k ks)
  then obtain x where x: "sv_obj s k = Some x" "se_id x = k"
    using svc_ok_liveE [OF ok, of k] by auto
  with Cons.prems have "live_session s k = Some x" by (simp add: live_session_def)
  with Cons x show ?case by (simp add: List.map_filter_def shown_def)
qed

text \<open>A user's session list holds each live session the user may see exactly once (their own, and
  those playing on a shared endpoint the user can look up), no other, and is ordered from the
  most to the least recently updated.\<close>

lemma session_list:
  assumes "conn_steps (new_svc rows) s"
  shows "mset (map vw_ID (Sessions w u s)) = mset (filter (shown s u) (sv_live s)) \<and>
    sorted (rev (map vw_UpdatedAt (Sessions w u s))) \<and> distinct (map vw_ID (Sessions w u s))"
proof -
  have ok: "svc_ok s" by (rule runs.inv_reachable [OF _ assms]) (auto simp: started_def)
  let ?vs = "map (snapshot s (clock w s)) (filter (visible_session s u) (List.map_filter (live_session s) (sv_live s)))"
  have ids: "map vw_ID (Sessions w u s) = map vw_ID (newest_first ?vs)"
    and at: "map vw_UpdatedAt (Sessions w u s) = map vw_UpdatedAt (newest_first ?vs)"
    by (simp_all add: Sessions_def comp_def)
  have perm: "mset (newest_first ?vs) = mset ?vs"
    by (simp only: newest_first_def mset_rev sift_fold) simp
  have "mset (map vw_ID (Sessions w u s)) = image_mset vw_ID (mset (newest_first ?vs))"
    by (simp only: ids mset_map)
  also have "\<dots> = mset (map vw_ID ?vs)" by (simp only: perm mset_map)
  also have "map vw_ID ?vs = filter (shown s u) (sv_live s)"
    using map_filter_live [OF ok subset_refl, of u] by (simp add: comp_def)
  finally have m: "mset (map vw_ID (Sessions w u s)) = mset (filter (shown s u) (sv_live s))" .
  have "sorted (rev (map vw_UpdatedAt (newest_first ?vs)))"
    using sift_fold [of ?vs "[]"] by (simp only: newest_first_def rev_map rev_rev_ident) simp
  moreover have "distinct (map vw_ID (Sessions w u s))"
    using m svc_ok_distinct [OF ok] by (metis distinct_filter mset_eq_imp_distinct_iff)
  ultimately show ?thesis using m at by simp
qed

lemma session_list_witness:
  "mset (map vw_ID (Sessions calm_world ''u'' one_session)) = {#''s1''#} \<and>
   mset (map vw_ID (Sessions calm_world ''v'' one_session)) = {#}"
proof -
  obtain x where x: "sv_obj one_session ''s1'' = Some x" "se_endpointID x = ''pe-a''" "se_ownerID x = ''u''"
    using one_session_simps(3) by blast
  have reg: "sv_reg one_session = empty_registry"
    by (simp add: one_session_def report_section_def Let_def new_svc_def report_fold_def alloc_def)
  have "shown one_session ''u'' ''s1''" "\<not> shown one_session ''v'' ''s1''"
    using x reg by (simp_all add: shown_def live_session_def one_session_simps visible_session_def
        Lookup_def empty_registry_def)
  with session_list [OF one_session_run, of calm_world "''u''"] session_list [OF one_session_run, of calm_world "''v''"]
  show ?thesis by (simp add: one_session_simps)
qed

section \<open>What a push shows\<close>

lemma collect_pushes_links:
  "(l, snap, b) \<in> set (fst (collect_pushes f ws)) \<Longrightarrow>
   \<exists>wt. (l, wt) \<in> set ws \<and> f (wt_sessionID wt) = Some snap \<and> (b \<longleftrightarrow> \<not> wt_sentAny wt \<or> wt_sentQV wt \<noteq> vw_QueueVersion snap)"
proof (induction f ws rule: collect_pushes.induct)
  case (2 f link wt ws)
  then show ?case
    by (force simp: Let_def push_mark_def split: prod.splits option.splits)
qed simp

text \<open>What one pushed frame may show the user of a link.\<close>

definition frame_fits :: "world \<Rightarrow> session_view \<Rightarrow> client_link \<Rightarrow> frame \<Rightarrow> bool" where
  "frame_fits w snap l f \<longleftrightarrow>
     (\<exists>ws. f = FSession ws \<and> ws_ID ws = vw_ID snap \<and> (ws_Mine ws \<longleftrightarrow> vw_OwnerUserID snap = lk_UserID l) \<and>
       (ws_Mine ws \<longrightarrow> ws_OwnerName ws = '''') \<and>
       (\<forall>vis. w_visible w = Some vis \<longrightarrow> \<not> ws_Mine ws \<longrightarrow>
          (\<forall>e. e \<in> set (ws_Entries ws) \<longrightarrow> e = empty_entry \<or>
             (e \<in> set (vw_Entries snap) \<and> (\<exists>h. vis h (lk_UserID l) (map qe_PID (vw_Entries snap)) (qe_PID e))))))"

lemma send_push_fits:
  "\<exists>f. sv_log (send_push w (l, snap, b) s) = ESend l f # sv_log s \<and> frame_fits w snap l f"
  by (auto simp: send_push_def send_def Let_def frame_fits_def WireSessionFrame_def WireSessionPayload_def
      receiver_view_def receiverView_def split: option.split)

lemma pushes_fit:
  "\<exists>es. sv_log (fold (send_push w) ps s) = es @ sv_log s \<and>
     (\<forall>e \<in> set es. \<exists>l snap b f. (l, snap, b) \<in> set ps \<and> e = ESend l f \<and> frame_fits w snap l f)"
proof (induction ps arbitrary: s)
  case (Cons p ps)
  obtain l snap b where p: "p = (l, snap, b)" by (cases p) auto
  obtain f where f: "sv_log (send_push w p s) = ESend l f # sv_log s" "frame_fits w snap l f"
    using send_push_fits [of w l snap b s] p by blast
  obtain es where es: "sv_log (fold (send_push w) ps (send_push w p s)) = es @ sv_log (send_push w p s)"
      "\<forall>e \<in> set es. \<exists>l snap b f. (l, snap, b) \<in> set ps \<and> e = ESend l f \<and> frame_fits w snap l f"
    using Cons.IH by blast
  have log: "sv_log (fold (send_push w) (p # ps) s) = (es @ [ESend l f]) @ sv_log s"
    using es(1) f(1) by simp
  have "\<exists>l snap b f. (l, snap, b) \<in> set (p # ps) \<and> e = ESend l f \<and> frame_fits w snap l f"
    if "e \<in> set (es @ [ESend l f])" for e
    using that es(2) f(2) p by (auto; metis)
  with log show ?case by blast
qed simp

lemma notify_section_pushes:
  assumes "notify_section now sid s = (ps, t)"
  shows "sv_log t = sv_log s"
    "(l, snap, b) \<in> set ps \<Longrightarrow> \<exists>x wt. (l, wt) \<in> set (sv_watchers s) \<and> wt_sessionID wt = sid \<and>
       live_session s sid = Some x \<and> snap = snapshot s now x"
proof -
  show "sv_log t = sv_log s"
    using assms by (auto simp: notify_section_def Let_def split: option.splits prod.splits)
  assume p: "(l, snap, b) \<in> set ps"
  with assms obtain x where x: "live_session s sid = Some x"
      "ps = fst (collect_pushes (\<lambda>k. if k = sid then Some (snapshot s now x) else None) (sv_watchers s))"
    by (auto simp: notify_section_def Let_def split: option.splits prod.splits)
  from collect_pushes_links [OF p [unfolded x(2)]] x(1)
  show "\<exists>x wt. (l, wt) \<in> set (sv_watchers s) \<and> wt_sessionID wt = sid \<and>
       live_session s sid = Some x \<and> snap = snapshot s now x"
    by (auto split: if_splits)
qed

text \<open>Telling the watchers about a session does nothing but write frames, each to a connection
  that watches this session; a frame names the session's owner only to other users, and shows a
  user who is not the owner no queue entry but blanked ones and those the library's
  visibility rule, asked about this user and this queue, lets them see.\<close>

theorem watchers_see_visible:
  "\<exists>es. sv_log (notifyWatchers w sid s) = es @ sv_log s \<and>
     (\<forall>e. e \<in> set es \<longrightarrow> (\<exists>l f x wt. e = ESend l f \<and> (l, wt) \<in> set (sv_watchers s) \<and> wt_sessionID wt = sid \<and>
        live_session s sid = Some x \<and> frame_fits w (snapshot s (clock w s) x) l f)) \<and>
     core (notifyWatchers w sid s) = core s"
proof -
  obtain ps s1 where n: "notify_section (clock w s) sid s = (ps, s1)" by fastforce
  note log1 = notify_section_pushes(1) [OF n] and ps = notify_section_pushes(2) [OF n]
  obtain es where es: "sv_log (fold (send_push w) ps s1) = es @ sv_log s1"
    "\<forall>e \<in> set es. \<exists>l snap b f. (l, snap, b) \<in> set ps \<and> e = ESend l f \<and> frame_fits w snap l f"
    using pushes_fit by blast
  have "\<exists>l f x wt. e = ESend l f \<and> (l, wt) \<in> set (sv_watchers s) \<and> wt_sessionID wt = sid \<and>
        live_session s sid = Some x \<and> frame_fits w (snapshot s (clock w s) x) l f" if "e \<in> set es" for e
    using es(2) that ps by metis
  moreover have "sv_log (notifyWatchers w sid s) = es @ sv_log s"
    using es(1) log1 by (simp add: notifyWatchers_def n)
  ultimately show ?thesis using core_notify(1) by blast
qed

definition link_v :: client_link where
  "link_v = \<lparr>lk_ptr = 3, lk_UserID = ''v'', lk_UserName = ''Vic'', lk_SessionID = ''se-v'',
     lk_DeviceName = ''Tablet''\<rparr>"

definition watched :: svc where
  "watched = one_session\<lparr>sv_watchers := [(link_v, \<lparr>wt_sessionID = ''s1'', wt_sentQV = 0, wt_sentAny = False\<rparr>)]\<rparr>"

definition strict_world :: world where
  "strict_world = calm_world\<lparr>w_visible := Some (\<lambda>h u pids pid. pid = ''x'')\<rparr>"

lemma watchers_see_visible_witness:
  "\<exists>f x. sv_log (notifyWatchers strict_world ''s1'' watched) = [ESend link_v f] \<and>
     frame_fits strict_world (snapshot watched 5000 x) link_v f"
proof -
  obtain x where x: "sv_obj one_session ''s1'' = Some x" using one_session_simps(3) by blast
  have log0: "sv_log watched = []"
    by (simp add: watched_def one_session_def report_section_def Let_def new_svc_def report_fold_def alloc_def
        link_a_def playing_report_def mirror_session_def)
  have live: "live_session watched ''s1'' = Some x"
    using x by (simp add: watched_def live_session_def one_session_simps)
  have "length (sv_log (notifyWatchers strict_world ''s1'' watched)) = 1"
    by (simp add: notifyWatchers_def notify_section_def live Let_def) (simp add: watched_def push_mark_def
        send_push_def send_def Let_def log0 [unfolded watched_def, simplified])
  with watchers_see_visible [of strict_world "''s1''" watched] log0 obtain e where
    "sv_log (notifyWatchers strict_world ''s1'' watched) = [e]"
    "\<exists>l f x wt. e = ESend l f \<and> (l, wt) \<in> set (sv_watchers watched) \<and> wt_sessionID wt = ''s1'' \<and>
        live_session watched ''s1'' = Some x \<and> frame_fits strict_world (snapshot watched (clock strict_world watched) x) l f"
    by (auto simp: length_Suc_conv)
  moreover have "clock strict_world watched = 5000"
    by (simp add: clock_def strict_world_def calm_world_def)
  ultimately show ?thesis by (auto simp: watched_def)
qed

section \<open>Listening\<close>

text \<open>The events of one entry's playback, as \<open>onDriverEvent\<close> accounts them: each with the session it
  found, its instant and the position it reported.\<close>

definition listen_run ::
  "(session \<times> driver_event \<times> time \<times> int) list \<Rightarrow> listen_track option \<Rightarrow> listen_track option" where
  "listen_run steps lt =
     fold (\<lambda>(x, ev, now, pos) l. listen_after x ev now (q_Index (se_q x)) pos l) steps lt"

text \<open>The advances between consecutive positions that count: forward, by less than thirty seconds.\<close>

fun advances :: "int \<Rightarrow> int list \<Rightarrow> int list" where
  "advances p [] = []"
| "advances p (a # as) = (if 0 < a - p \<and> a - p < 30000 then [a - p] else []) @ advances a as"

lemma advances_nonneg: "0 \<le> sum_list (advances p ps)"
  by (induction ps arbitrary: p) auto

lemma advances_steady:
  "sorted (p # ps) \<Longrightarrow> (\<And>k. k < length ps \<Longrightarrow> ps ! k < (p # ps) ! k + 30000) \<Longrightarrow>
   sum_list (advances p ps) = last (p # ps) - p"
proof (induction ps arbitrary: p)
  case (Cons a as)
  have "sum_list (advances a as) = last (a # as) - a"
    using Cons.prems(1) Cons.prems(2) [of "Suc k" for k] by (intro Cons.IH) auto
  moreover have "a < p + 30000" using Cons.prems(2) [of 0] by simp
  ultimately show ?case using Cons.prems(1) by (cases "a = p") auto
qed simp

lemma listen_run_played:
  assumes "\<forall>st \<in> set steps. q_Playing (se_q (fst st))"
  shows "\<exists>t. listen_run steps (Some t0) = Some t \<and> lt_pid t = lt_pid t0 \<and> lt_startedAt t = lt_startedAt t0 \<and>
    lt_playedMS t = lt_playedMS t0 + sum_list (advances (lt_lastPos t0) (map (\<lambda>(x, ev, now, pos). pos) steps))"
  using assms
proof (induction steps arbitrary: t0)
  case (Cons st steps)
  obtain x ev now pos where st: "st = (x, ev, now, pos)" by (cases st) auto
  have "q_Playing (se_q x)" using Cons.prems st by simp
  define t1 where "t1 = t0\<lparr>lt_playedMS := lt_playedMS t0 + sum_list (advances (lt_lastPos t0) [pos]), lt_lastPos := pos\<rparr>"
  have t1: "listen_after x ev now (q_Index (se_q x)) pos (Some t0) = Some t1"
      "lt_pid t1 = lt_pid t0" "lt_startedAt t1 = lt_startedAt t0" "lt_lastPos t1 = pos"
      "lt_playedMS t1 = lt_playedMS t0 + sum_list (advances (lt_lastPos t0) [pos])"
    using \<open>q_Playing (se_q x)\<close> by (auto simp: listen_after_def Let_def t1_def)
  obtain t where t: "listen_run steps (Some t1) = Some t" "lt_pid t = lt_pid t1" "lt_startedAt t = lt_startedAt t1"
    "lt_playedMS t = lt_playedMS t1 + sum_list (advances (lt_lastPos t1) (map (\<lambda>(x, ev, now, pos). pos) steps))"
    using Cons.IH [of t1] Cons.prems by auto
  then show ?case by (auto simp: listen_run_def st t1)
qed (simp add: listen_run_def)

text \<open>Listening is counted from playback only: over the events of one entry while it plays, the
  played time grows by the sum of the position's advances between consecutive events, where a
  jump back, or one of thirty seconds or more (a seek), counts nothing; so steady playback counts
  exactly the distance played, and the account keeps the track and the instant it began with.\<close>

theorem listen_counts_playback:
  assumes "\<forall>st \<in> set steps. q_Playing (se_q (fst st))"
    and "ps = map (\<lambda>(x, ev, now, pos). pos) steps"
  shows "\<exists>t. listen_run steps (Some t0) = Some t \<and> lt_pid t = lt_pid t0 \<and> lt_startedAt t = lt_startedAt t0 \<and>
    lt_playedMS t = lt_playedMS t0 + sum_list (advances (lt_lastPos t0) ps) \<and> lt_playedMS t0 \<le> lt_playedMS t \<and>
    (sorted (lt_lastPos t0 # ps) \<and> (\<forall>k < length ps. ps ! k < (lt_lastPos t0 # ps) ! k + 30000) \<longrightarrow>
       lt_playedMS t = lt_playedMS t0 + (last (lt_lastPos t0 # ps) - lt_lastPos t0))"
proof -
  obtain t where t: "listen_run steps (Some t0) = Some t" "lt_pid t = lt_pid t0" "lt_startedAt t = lt_startedAt t0"
    "lt_playedMS t = lt_playedMS t0 + sum_list (advances (lt_lastPos t0) ps)"
    using listen_run_played [OF assms(1), of t0] unfolding assms(2) by blast
  have "lt_playedMS t0 \<le> lt_playedMS t"
    using t(4) advances_nonneg [of "lt_lastPos t0" ps] by simp
  moreover have "lt_playedMS t = lt_playedMS t0 + (last (lt_lastPos t0 # ps) - lt_lastPos t0)"
    if "sorted (lt_lastPos t0 # ps)" "\<forall>k < length ps. ps ! k < (lt_lastPos t0 # ps) ! k + 30000"
    using t(4) advances_steady [OF that(1)] that(2) by simp
  ultimately show ?thesis using t by blast
qed

lemma listen_counts_playback_witness:
  "\<exists>x t. listen_run [(x, one_event 0 3000, 8000, 3000), (x, one_event 0 90000, 9000, 90000), (x, one_event 0 91000, 9500, 91000)]
      (Some \<lparr>lt_pid = ''x'', lt_startedAt = 1, lt_playedMS = 500, lt_lastPos = 1000\<rparr>)
     = Some t \<and> lt_playedMS t = 3500"
proof -
  obtain x where x: "sv_obj one_session ''s1'' = Some x" using one_session_simps(3) by blast
  have q: "q_Playing (se_q x)"
    using x by (auto simp: one_session_def report_section_def Let_def new_svc_def link_a_def
        playing_report_def report_fold_def mirror_session_def report_q_def alloc_def)
  show ?thesis
    using listen_counts_playback [of "[(x, one_event 0 3000, 8000, 3000), (x, one_event 0 90000, 9000, 90000),
        (x, one_event 0 91000, 9500, 91000)]" "[3000, 90000, 91000]"
        "\<lparr>lt_pid = ''x'', lt_startedAt = 1, lt_playedMS = 500, lt_lastPos = 1000\<rparr>"] q
    by auto
qed

end
