(* ===== verification/Connect_Moves.thy ===== *)
theory Connect_Moves
  imports Connect_Queue "HOL-Library.Sublist"
begin

text \<open>
  Sessions that start, move and end: what \<open>CreateSession\<close>, \<open>Transfer\<close> and a client's report
  leave of the service, on success and on failure, and what concurrent transfers can do to the
  endpoint index.
\<close>

section \<open>Transfers\<close>

text \<open>The log only grows: what an operation adds stands in front of what was there.\<close>

definition logs_on :: "svc \<Rightarrow> svc \<Rightarrow> bool" where
  "logs_on s t \<longleftrightarrow> suffix (sv_log s) (sv_log t)"

lemma logs_on_refl [simp]: "logs_on s s"
  by (simp add: logs_on_def)

lemma logs_on_trans: "logs_on s t \<Longrightarrow> logs_on t u \<Longrightarrow> logs_on s u"
  by (auto simp: logs_on_def)

lemma logs_on_eff: "logs_on s t \<Longrightarrow> logs_on s (eff e t)"
  by (auto simp: logs_on_def suffix_def)

lemma logs_on_persist: "logs_on s t \<Longrightarrow> logs_on s (persist sid a t)"
  by (simp add: persist_def logs_on_eff split: option.split)

lemma logs_on_notify: "logs_on s t \<Longrightarrow> logs_on s (notifyWatchers w sid t)"
proof -
  assume on: "logs_on s t"
  obtain ps t1 where n: "notify_section (clock w t) sid t = (ps, t1)" by fastforce
  obtain es where "sv_log (fold (send_push w) ps t1) = es @ sv_log t1" using pushes_fit by blast
  with on notify_section_pushes(1) [OF n] show ?thesis
    by (auto simp: notifyWatchers_def n logs_on_def suffix_def)
qed

lemma transfer_check_go:
  assumes "transfer_check sa now u sid tid s = TGo target plan"
  shows "\<exists>x. live_session s sid = Some x \<and> visible_session s u x \<and> ep_ID target \<noteq> se_endpointID x \<and>
    tp_index plan = q_Index (se_q x) \<and> tp_positionMS plan = extrapolate (se_q x) now \<and>
    tp_play plan = q_Playing (se_q x) \<and> tp_entries plan = q_Entries (se_q x) \<and>
    tp_oldEndpoint plan = se_endpointID x \<and> tp_oldDriver plan = se_driver x \<and>
    tp_oldCancel plan = se_driverCancel x \<and> tp_oldAuthority plan = se_authority x \<and>
    tp_owner plan = se_ownerID x \<and> tp_rate plan = q_Rate (se_q x) \<and> tp_repeat plan = q_Repeat (se_q x)"
  using assms unfolding transfer_check_def
  by (auto split: option.splits if_splits)

lemma commit_result:
  assumes "sv_obj s sid = Some x" "\<not> se_ended x"
  shows "\<exists>v. fst (transfer_commit now sid target plan loaded s) = Some v"
  using commit_eq(1) [OF assms, of now target plan loaded] assms
  by (simp add: transfer_commit_def Let_def carry_position_def rebind_eq mirror_target_def remote_target_def
      bindDeviceLocked_def split: option.split)

lemma commit_source_index:
  assumes ok: "svc_ok s" and x: "sv_obj s sid = Some x" "sid \<in> set (sv_live s)"
    and e: "ep_ID target \<noteq> se_endpointID x" "tp_oldEndpoint plan = se_endpointID x"
  shows "sv_byEndpoint (snd (transfer_commit now sid target plan loaded s)) (se_endpointID x) = None"
proof -
  have nx: "\<not> se_ended x" using ok x ended_not_live by blast
  let ?s = "leave_endpoint now sid (se_endpointID x) s"
  have by1: "sv_byEndpoint s (se_endpointID x) = Some sid" using svc_ok_liveE [OF ok x(2)] x(1) by force
  have "sv_byEndpoint (evict now sid (ep_ID target) ?s) (se_endpointID x) = None"
    using by1 by (auto simp: evict_def end_session_obj_of split: option.split)
  with e show ?thesis by (simp add: commit_eq [OF x(1) nx])
qed

text \<open>The transfer once its check has passed and its target is loaded, with the two parts named.\<close>

lemma transfer_loaded:
  assumes "\<not> sv_stopped s" "transfer_check (sharedAllowed w (snd (beginDriving s))) (clock w (snd (beginDriving s)))
      u sid tid (snd (beginDriving s)) = TGo target plan"
    and "load_target w sid target plan (snd (beginDriving s)) = (Inr loaded, s1)"
    and "transfer_commit (clock w s1) sid target plan loaded s1 = (Some snap, s2)"
  obtains s4 where "core s4 = core s2" "s4 = quiesce_source w sid plan
      (case loaded of Some ld \<Rightarrow> eff (EPump sid (sv_driverGen s2 sid) (ld_driver ld)) s2 | None \<Rightarrow> s2)"
    "\<exists>t v. Transfer w u sid tid s = (Inr v, endDriving t) \<and> core t = core s2 \<and> logs_on s4 t"
proof -
  let ?s3 = "case loaded of Some ld \<Rightarrow> eff (EPump sid (sv_driverGen s2 sid) (ld_driver ld)) s2 | None \<Rightarrow> s2"
  let ?s4 = "quiesce_source w sid plan ?s3"
  have b: "beginDriving s = (Inr (), snd (beginDriving s))" using assms(1) by (simp add: beginDriving_def)
  have c4: "core ?s4 = core s2" by (simp add: frame_simps split: option.split)
  let ?s5 = "if tp_oldAuthority plan = AuthorityRemote \<and> tp_oldDriver plan \<noteq> None
      then eff (ECheckpoint (tp_owner plan) (currentPID snap) (tp_positionMS plan)) ?s4 else ?s4"
  let ?t = "eff EInvalidate (notifyWatchers w sid (persist sid True ?s5))"
  have "Transfer w u sid tid s = (Inr (receiver_view w ?t snap u), endDriving ?t)"
    unfolding Transfer_def by (subst b) (simp add: assms(2-4) Let_def)
  moreover have "core ?t = core s2" using c4 by (simp add: frame_simps)
  moreover have "logs_on ?s4 ?t" by (simp add: logs_on_eff logs_on_notify logs_on_persist)
  ultimately show thesis using that c4 by blast
qed

text \<open>C17. A transfer moves the session whole: when it succeeds on a session that was elsewhere, the
  session is live on the target with the queue, the index and the playing state it had, and the
  position it had when the transfer began; the endpoint index names it under the target and no
  longer under the source; it is driven by the driver the target was loaded with (none for a
  client); and the source's driver is stopped and closed, after the target was loaded.\<close>

theorem transfer_moves:
  assumes run: "conn_steps (new_svc rows) s" and live: "live_session s sid = Some x"
    and go: "\<not> sv_stopped s" "transfer_check (sharedAllowed w (snd (beginDriving s))) (clock w (snd (beginDriving s)))
      u sid tid (snd (beginDriving s)) = TGo target plan"
    and load: "load_target w sid target plan (snd (beginDriving s)) = (Inr loaded, s1)"
  shows "\<exists>v t y. Transfer w u sid tid s = (Inr v, t) \<and> live_session t sid = Some y \<and>
    se_endpointID y = ep_ID target \<and> se_ownerID y = se_ownerID x \<and>
    q_Entries (se_q y) = q_Entries (se_q x) \<and> q_Index (se_q y) = q_Index (se_q x) \<and>
    q_Playing (se_q y) = q_Playing (se_q x) \<and>
    q_PositionMS (se_q y) = extrapolate (se_q x) (clock w (snd (beginDriving s))) \<and>
    se_driver y = map_option ld_driver loaded \<and> sv_driving t = sv_driving s \<and>
    sv_byEndpoint t (ep_ID target) = Some sid \<and> sv_byEndpoint t (se_endpointID x) = None \<and>
    (\<forall>d. se_driver x = Some d \<longrightarrow> (\<exists>es2 es1 es0. sv_log t = es2 @ EClose d # es1 @ EDriver d DStop # es0 @ sv_log s1))"
proof -
  let ?s0 = "snd (beginDriving s)"
  have ok: "svc_ok s" by (rule runs.inv_reachable [OF _ run]) (auto simp: started_def)
  have s0: "sv_obj ?s0 = sv_obj s" "sv_live ?s0 = sv_live s" "sv_driving ?s0 = sv_driving s + 1"
    "svc_ok ?s0" using go(1) ok by (simp_all add: beginDriving_def svc_ok_def obj_ok_def live_ok_def)
  have x: "sv_obj s sid = Some x" "sid \<in> set (sv_live s)"
    using live by (simp_all add: live_session_def split: if_splits)
  have lx: "live_session ?s0 sid = Some x" using x s0 by (simp add: live_session_def)
  have p: "ep_ID target \<noteq> se_endpointID x" "tp_index plan = q_Index (se_q x)"
    "tp_positionMS plan = extrapolate (se_q x) (clock w ?s0)" "tp_play plan = q_Playing (se_q x)"
    "tp_oldEndpoint plan = se_endpointID x" "tp_oldDriver plan = se_driver x"
    using transfer_check_go [OF go(2)] lx by auto
  have "core s1 = core ?s0" using core_load_target [of w sid target plan ?s0] load by simp
  note c = coreD [OF this]
  have ok1: "svc_ok s1" using s0(4) svc_ok_cong [OF c(1-3)] by simp
  have x1: "sv_obj s1 sid = Some x" "sid \<in> set (sv_live s1)" using x s0 c by simp_all
  have nx: "\<not> se_ended x" using ok1 x1 ended_not_live by blast
  obtain snap s2 where k: "transfer_commit (clock w s1) sid target plan loaded s1 = (Some snap, s2)"
    using commit_result [OF x1(1) nx] by (metis prod.collapse)
  then have s2: "s2 = snd (transfer_commit (clock w s1) sid target plan loaded s1)" by simp
  note m = commit_eq [OF x1(1) nx, of "clock w s1" target plan loaded, folded s2]
  let ?y = "committed (clock w s1) s1 sid target plan loaded x"
  have y: "sv_obj s2 sid = Some ?y" "sid \<in> set (sv_live s2)" using x1 by (simp_all add: m)
  have src: "sv_byEndpoint s2 (se_endpointID x) = None"
    using commit_source_index [OF ok1 x1 p(1,5)] s2 by simp
  obtain s4 where s4: "core s4 = core s2" "s4 = quiesce_source w sid plan
      (case loaded of Some ld \<Rightarrow> eff (EPump sid (sv_driverGen s2 sid) (ld_driver ld)) s2 | None \<Rightarrow> s2)"
    "\<exists>t v. Transfer w u sid tid s = (Inr v, endDriving t) \<and> core t = core s2 \<and> logs_on s4 t"
    using transfer_loaded [OF go load k] by blast
  then obtain t v where t: "Transfer w u sid tid s = (Inr v, endDriving t)" "core t = core s2" "logs_on s4 t"
    by blast
  note d = coreD [OF t(2)]
  have log2: "sv_log s2 = sv_log s1"
    unfolding s2 commit_parts [OF x1(1) nx] carry_eq
    by (simp add: attach_target_def mirror_target_def remote_target_def bindDeviceLocked_def Let_def
        rebind_eq leave_endpoint_def split: option.split)
  have src_log: "\<exists>es2 es1 es0. sv_log (endDriving t) = es2 @ EClose dr # es1 @ EDriver dr DStop # es0 @ sv_log s1"
    if dr: "se_driver x = Some dr" for dr
  proof -
    have "\<exists>es1 es0. sv_log s4 = EClose dr # es1 @ EDriver dr DStop # es0 @ sv_log s1"
      using dr p(6) s4(2) log2
      by (auto simp: quiesce_source_def drive_def cancel_pump_def split: option.splits
          intro: exI [of _ "[]"] exI [of _ "[_]"])
    then obtain es1 es0 where l4: "sv_log s4 = EClose dr # es1 @ EDriver dr DStop # es0 @ sv_log s1" by blast
    obtain es2 where "sv_log t = es2 @ sv_log s4" using t(3) by (auto simp: logs_on_def suffix_def)
    with l4 have "sv_log (endDriving t) = es2 @ EClose dr # es1 @ EDriver dr DStop # es0 @ sv_log s1"
      by (simp add: endDriving_def)
    then show ?thesis by blast
  qed
  have fin: "sv_obj (endDriving t) = sv_obj s2" "sv_live (endDriving t) = sv_live s2"
    "sv_byEndpoint (endDriving t) = sv_byEndpoint s2" "sv_driving (endDriving t) = sv_driving s2 - 1"
    by (simp_all add: endDriving_def d)
  have q: "q_Index (se_q ?y) = tp_index plan" "q_PositionMS (se_q ?y) = tp_positionMS plan"
    "q_Playing (se_q ?y) = tp_play plan"
    by (simp_all add: committed_alt carried_def)
  show ?thesis
    by (intro exI [of _ v] exI [of _ "endDriving t"] exI [of _ ?y] conjI)
      (use t(1) y q p src src_log in \<open>simp_all add: fin live_session_def m c s0\<close>)
qed

definition two_clients :: registry where
  "two_clients = snd (RegisterClient link_b '''' True True (snd (RegisterClient link_a '''' True True empty_registry)))"

definition at_home :: svc where
  "at_home = one_session\<lparr>sv_reg := two_clients, sv_registered := (\<lambda>l. l = link_a \<or> l = link_b)\<rparr>"

lemma at_home_run: "conn_steps (new_svc []) at_home"
  unfolding at_home_def by (rule steps_reg) (rule one_session_run)

lemma at_home_simps:
  "sv_live at_home = [''s1'']" "sv_driving at_home = 0" "\<not> sv_stopped at_home" "sv_reg at_home = two_clients"
  "sv_log at_home = []" "sv_routeSeq at_home = 0"
  by (simp_all add: at_home_def one_session_simps) (simp_all add: one_session_def report_section_def Let_def
      new_svc_def report_fold_def alloc_def link_a_def playing_report_def mirror_session_def)

lemma phone_lookup:
  "Lookup two_clients ''u'' ''pe-b'' = Some phone" "reg_link two_clients ''pe-b'' = Some link_b"
  by (simp_all add: two_clients_def RegisterClient_def Let_def link_a_def link_b_def empty_registry_def
      Lookup_def reg_link_def phone_def KindClient_def)

lemma transfer_moves_witness:
  "\<exists>v t y. Transfer calm_world ''u'' ''s1'' ''pe-b'' at_home = (Inr v, t) \<and> live_session t ''s1'' = Some y \<and>
     se_endpointID y = ''pe-b'' \<and> q_Playing (se_q y) \<and> sv_byEndpoint t ''pe-a'' = None"
proof -
  let ?s0 = "snd (beginDriving at_home)"
  have s0: "?s0 = at_home\<lparr>sv_driving := 1\<rparr>" by (simp add: beginDriving_def at_home_simps)
  obtain x where x: "sv_obj one_session ''s1'' = Some x" "se_endpointID x = ''pe-a''" "se_ownerID x = ''u''"
    using one_session_simps(3) by blast
  have q: "q_Playing (se_q x)"
    using x by (auto simp: one_session_def report_section_def Let_def new_svc_def link_a_def
        playing_report_def report_fold_def mirror_session_def report_q_def alloc_def)
  have obj: "sv_obj at_home ''s1'' = Some x" using x by (simp add: at_home_def)
  have live: "live_session at_home ''s1'' = Some x" using obj by (simp add: live_session_def at_home_simps)
  obtain plan where go: "transfer_check (sharedAllowed calm_world ?s0) (clock calm_world ?s0) ''u'' ''s1'' ''pe-b'' ?s0
      = TGo phone plan"
    by (simp add: s0 transfer_check_def live_session_def at_home_simps obj visible_session_def x phone_lookup
        sharedAllowed_def calm_world_def) (simp add: phone_def)
  have "fst (load_target calm_world ''s1'' phone plan ?s0) = Inr None"
    by (simp add: load_target_def phone_def loadOnClient_def s0 markLoadPending_def at_home_simps phone_lookup
        routeToLink_def Let_def send_def calm_world_def route_begin_def HandleCommandResult_def KindClient_def)
  then obtain s1 where load: "load_target calm_world ''s1'' phone plan ?s0 = (Inr None, s1)"
    by (metis prod.collapse)
  from transfer_moves [OF at_home_run live at_home_simps(3) go load] q x(2) show ?thesis
    by (auto simp: phone_def)
qed

text \<open>A transfer that fails leaves the session where it plays: whatever the reason (a refusal, a
  target that cannot be loaded, a shutdown), no session, no entry of the endpoint index, no
  driver generation and no claim on the shutdown has changed.\<close>

theorem transfer_failure_keeps_source:
  assumes "conn_steps (new_svc rows) s" "Transfer w u sid tid s = (Inl e, t)"
  shows "sv_obj t = sv_obj s \<and> sv_live t = sv_live s \<and> sv_byEndpoint t = sv_byEndpoint s \<and>
    sv_driverGen t = sv_driverGen s \<and> sv_driving t = sv_driving s \<and> sv_stopped t = sv_stopped s"
proof (cases "sv_stopped s")
  case True
  with assms(2) show ?thesis by (simp add: Transfer_def beginDriving_def)
next
  case False
  let ?s0 = "s\<lparr>sv_driving := sv_driving s + 1\<rparr>"
  have ok: "svc_ok s" by (rule runs.inv_reachable [OF _ assms(1)]) (auto simp: started_def)
  have b: "beginDriving s = (Inr (), ?s0)" using False by (simp add: beginDriving_def)
  show ?thesis
  proof (cases "transfer_check (sharedAllowed w ?s0) (clock w ?s0) u sid tid ?s0")
    case (TRefused r)
    with assms(2) b show ?thesis by (auto simp: Transfer_def endDriving_def)
  next
    case (TAlreadyThere v)
    with assms(2) b show ?thesis by (simp add: Transfer_def)
  next
    case (TGo target plan)
    obtain r s1 where l: "load_target w sid target plan ?s0 = (r, s1)" by fastforce
    have "core s1 = core ?s0" using core_load_target [of w sid target plan ?s0] l by simp
    note c = coreD [OF this]
    obtain x where x: "sv_obj s1 sid = Some x" "sid \<in> set (sv_live s)"
      using transfer_check_go [OF TGo] by (auto simp: live_session_def c split: if_splits)
    have nx: "\<not> se_ended x" using x ok ended_not_live c(1) by fastforce
    show ?thesis
    proof (cases r)
      case (Inl e')
      with assms(2) b TGo l c show ?thesis by (auto simp: Transfer_def endDriving_def)
    next
      case (Inr loaded)
      obtain v s2 where "transfer_commit (clock w s1) sid target plan loaded s1 = (Some v, s2)"
        using commit_result [OF x(1) nx] by (metis prod.collapse)
      with assms(2) b TGo l Inr show ?thesis by (simp add: Transfer_def Let_def)
    qed
  qed
qed

lemma transfer_failure_keeps_source_witness:
  "sv_live (snd (Transfer calm_world ''u'' ''s1'' ''pe-z'' at_home)) = [''s1'']"
proof -
  obtain x where x: "sv_obj at_home ''s1'' = Some x" "se_ownerID x = ''u''"
    using one_session_simps(3) by (auto simp: at_home_def)
  have "Lookup two_clients ''u'' ''pe-z'' = None"
    by (simp add: two_clients_def RegisterClient_def Let_def link_a_def link_b_def empty_registry_def Lookup_def)
  then have "fst (Transfer calm_world ''u'' ''s1'' ''pe-z'' at_home) = Inl ErrNotFound"
    using x by (simp add: Transfer_def beginDriving_def at_home_simps transfer_check_def live_session_def
        visible_session_def)
  then obtain t where "Transfer calm_world ''u'' ''s1'' ''pe-z'' at_home = (Inl ErrNotFound, t)"
    by (metis prod.collapse)
  from transfer_failure_keeps_source [OF at_home_run this] this show ?thesis by (simp add: at_home_simps)
qed

section \<open>Starts\<close>

lemma handoff_keep:
  "sv_obj (endHandoffSource w u e keep s) keep = sv_obj s keep"
  "keep \<in> set (sv_live (endHandoffSource w u e keep s)) \<longleftrightarrow> keep \<in> set (sv_live s)"
  "sv_byEndpoint s k = Some keep \<Longrightarrow> sv_byEndpoint (endHandoffSource w u e keep s) k = Some keep"
  by (auto simp: endHandoffSource_def handoff_section_def persist_def live_session_def end_session_obj_of
      split: option.split)

text \<open>What adopting makes of a fresh session object.\<close>

lemma adopt_result:
  assumes "sv_obj s sid = Some x" "sid \<notin> set (sv_live s)"
  shows "sv_obj (snd (adoptSession w sid s)) sid = Some x" "sid \<in> set (sv_live (snd (adoptSession w sid s)))"
    "sv_byEndpoint (snd (adoptSession w sid s)) (se_endpointID x) = Some sid"
    "\<exists>v. fst (adoptSession w sid s) = Some v \<and> vw_ID v = se_id x"
proof -
  let ?t = "adopt_section (clock w s) sid s"
  have t: "sv_obj ?t sid = Some x" "sid \<in> set (sv_live ?t)" "sv_byEndpoint ?t (se_endpointID x) = Some sid"
    using assms by (auto simp: adopt_section_eq [OF assms(1)] Let_def)
  have a: "adoptSession w sid s = (Some (snapshot ?t (clock w s) x), eff EInvalidate
      (eff (ESetQueue (se_ownerID x) (entryPIDs (vw_Entries (snapshot ?t (clock w s) x)))) (persist sid True ?t)))"
    using t(1) by (simp add: adoptSession_def Let_def)
  show "sv_obj (snd (adoptSession w sid s)) sid = Some x" "sid \<in> set (sv_live (snd (adoptSession w sid s)))"
    "sv_byEndpoint (snd (adoptSession w sid s)) (se_endpointID x) = Some sid"
    "\<exists>v. fst (adoptSession w sid s) = Some v \<and> vw_ID v = se_id x"
    using t by (simp_all add: a persist_def)
qed

definition failed_start :: "ident \<Rightarrow> svc \<Rightarrow> svc \<Rightarrow> bool" where
  "failed_start sid s t \<longleftrightarrow> sv_live t = sv_live s \<and> sv_byEndpoint t = sv_byEndpoint s \<and>
     sv_driverGen t = sv_driverGen s \<and> sv_driving t = sv_driving s \<and> (\<forall>k. k \<noteq> sid \<longrightarrow> sv_obj t k = sv_obj s k)"

definition begun_session :: "session \<Rightarrow> svc \<Rightarrow> svc \<Rightarrow> bool" where
  "begun_session x s t \<longleftrightarrow> (\<exists>y. live_session t (se_id x) = Some y \<and> se_endpointID y = se_endpointID x \<and>
     se_ownerID y = se_ownerID x \<and> se_q y = se_q x \<and> sv_byEndpoint t (se_endpointID x) = Some (se_id x) \<and>
     sv_driving t = sv_driving s)"

lemma begunI:
  assumes "sv_obj t (se_id x) = Some y" "se_id x \<in> set (sv_live t)" "se_endpointID y = se_endpointID x"
    "se_ownerID y = se_ownerID x" "se_q y = se_q x" "sv_byEndpoint t (se_endpointID x) = Some (se_id x)"
    "sv_driving t = sv_driving s"
  shows "begun_session x s t"
  using assms by (auto simp: begun_session_def live_session_def)

lemma driving_pending [simp]:
  "sv_driving (markLoadPending e k s) = sv_driving s" "sv_obj (markLoadPending e k s) = sv_obj s"
  by (simp_all add: markLoadPending_def)

lemma create_on_client_outcome:
  assumes "fresh_id s (se_id x)" "se_endpointID x = rq_EndpointID req"
  shows "case create_on_client w u req x src s of
      (Inl e, t) \<Rightarrow> failed_start (se_id x) s t
    | (Inr v, t) \<Rightarrow> begun_session x s t"
proof -
  let ?x = "x\<lparr>se_authority := AuthorityMirror\<rparr>"
  let ?s1 = "markLoadPending (rq_EndpointID req) (se_id x) (alloc ?x s)"
  obtain r s2 where l: "loadOnClient w (se_id x) (rq_PIDs req) (rq_EndpointID req) (rq_Index req)
      (rq_PositionMS req) (rq_Play req) (q_Rate (se_q x)) (q_Repeat (se_q x)) ?s1 = (r, s2)"
    by fastforce
  have "core s2 = core (alloc ?x s)" using core_loadOnClient l by (metis core_frames(7) snd_conv)
  note c = coreD [OF this]
  show ?thesis
  proof (cases r)
    case (Inl e)
    then show ?thesis by (simp add: create_on_client_def Let_def l failed_start_def c)
  next
    case (Inr ok)
    have fr: "sv_obj s2 (se_id x) = Some ?x" "se_id x \<notin> set (sv_live s2)"
      using assms(1) by (simp_all add: c fresh_id_def)
    note a = adopt_result [OF fr, of w]
    obtain v s3 where ad: "adoptSession w (se_id x) s2 = (v, s3)" by fastforce
    have "begun_session x s (endHandoffSource w u src (se_id x) (clearLoadPending (rq_EndpointID req) s3))"
      using a driving_adopt [of w "se_id x" s2] unfolding ad
      by (intro begunI [where y = ?x]) (simp_all add: handoff_keep driving_handoff c)
    with Inr show ?thesis by (simp add: create_on_client_def Let_def l ad)
  qed
qed

lemma create_on_device_outcome:
  assumes "fresh_id s (se_id x)"
  shows "case create_on_device w u req ep x src s of
      (Inl e, t) \<Rightarrow> failed_start (se_id x) s t
    | (Inr v, t) \<Rightarrow> begun_session x s t"
proof (cases "sv_stopped s")
  case True
  then show ?thesis by (simp add: create_on_device_def Let_def beginDriving_def failed_start_def)
next
  case False
  let ?s1 = "(alloc x s)\<lparr>sv_driving := sv_driving s + 1\<rparr>"
  have b: "beginDriving (alloc x s) = (Inr (), ?s1)" using False by (simp add: beginDriving_def)
  obtain r s2 where l: "loadOnDevice w (se_ownerID x) ep (q_Entries (se_q x)) (rq_Index req)
      (rq_PositionMS req) (rq_Play req) ?s1 = (r, s2)"
    by fastforce
  have "core s2 = core ?s1" using core_loadOnDevice l by (metis snd_conv)
  note c = coreD [OF this]
  show ?thesis
  proof (cases r)
    case (Inl e)
    then show ?thesis by (simp add: create_on_device_def Let_def b l failed_start_def c endDriving_def)
  next
    case (Inr ld)
    let ?s3 = "attachDriver (se_id x) ld s2"
    let ?s4 = "if q_Rate (se_q x) \<noteq> 1 then snd (drive w (ld_driver ld) (DSetRate (q_Rate (se_q x))) ?s3) else ?s3"
    have c4: "core ?s4 = core (bindDeviceLocked (se_id x) ld s2)"
      by (simp add: attachDriver_def Let_def frame_simps)
    note d = coreD [OF c4]
    obtain y where y: "sv_obj ?s4 (se_id x) = Some y" "se_endpointID y = se_endpointID x"
        "se_ownerID y = se_ownerID x" "se_q y = se_q x"
      by (simp add: d bind_simps c)
    have fr: "se_id x \<notin> set (sv_live ?s4)" using assms by (simp add: d bind_simps c fresh_id_def)
    note a = adopt_result [OF y(1) fr, of w]
    obtain v s5 where ad: "adoptSession w (se_id x) ?s4 = (v, s5)" by fastforce
    have dr: "sv_driving s5 = sv_driving s + 1"
      using driving_adopt [of w "se_id x" ?s4] unfolding ad by (simp add: d bind_simps c)
    have "begun_session x s (endDriving (endHandoffSource w u src (se_id x) s5))"
      using a y unfolding ad
      by (intro begunI [where y = y]) (simp_all add: endDriving_def handoff_keep driving_handoff dr)
    with Inr show ?thesis by (simp add: create_on_device_def Let_def b l ad)
  qed
qed

lemma create_checks_ok:
  assumes "create_checks w u req s = Inr (ep, rate, rep, src)"
  shows "rq_PIDs req \<noteq> []" "length (rq_PIDs req) \<le> 500" "in_range (rq_Index req) (rq_PIDs req)"
    "0 \<le> rq_PositionMS req" "minRate \<le> rate \<and> rate \<le> maxRate" "rep \<in> {''off'', ''all'', ''one''}"
    "Lookup (sv_reg s) u (rq_EndpointID req) = Some ep" "ep_Shared ep \<longrightarrow> sharedAllowed w s u"
  using assms unfolding create_checks_def refuse_def
  by (auto simp: Let_def in_range_def maxQueueItems_def minRate_def maxRate_def
      split: if_splits option.splits sum.splits)

text \<open>C19. Starting a session either does it whole or leaves what plays alone.  On an error of any kind
  no listed session, no entry of the endpoint index and no other session object has changed, so
  the session a handoff would have ended plays on.  On success the new session is live, owned by
  the user and found under the requested endpoint, which that user may use, and its queue is the
  resolved items at version 1 with the requested index and position, an allowed rate and repeat
  mode.\<close>

theorem create_all_or_nothing:
  assumes fresh: "fresh_id s (w_newid w (sv_log s))"
    and create: "CreateSession w u un req s = (r, t)"
  shows "(\<forall>e. r = Inl e \<longrightarrow> failed_start (w_newid w (sv_log s)) s t) \<and>
    (\<forall>v. r = Inr v \<longrightarrow> (\<exists>y ep entries. live_session t (w_newid w (sv_log s)) = Some y \<and> se_ownerID y = u \<and>
       se_endpointID y = rq_EndpointID req \<and> sv_byEndpoint t (rq_EndpointID req) = Some (w_newid w (sv_log s)) \<and>
       Lookup (sv_reg s) u (rq_EndpointID req) = Some ep \<and> (ep_Shared ep \<longrightarrow> sharedAllowed w s u) \<and>
       w_entries w (sv_log s) u (rq_PIDs req) = Inr entries \<and> q_Entries (se_q y) = entries \<and>
       q_QueueVersion (se_q y) = 1 \<and> q_Index (se_q y) = rq_Index req \<and> in_range (rq_Index req) (rq_PIDs req) \<and>
       q_PositionMS (se_q y) = rq_PositionMS req \<and> 0 \<le> rq_PositionMS req \<and>
       1 / 4 \<le> q_Rate (se_q y) \<and> q_Rate (se_q y) \<le> 5 \<and> q_Repeat (se_q y) \<in> {''off'', ''all'', ''one''} \<and>
       sv_driving t = sv_driving s))"
proof (cases "create_checks w u req s")
  case (Inl e)
  with create show ?thesis by (auto simp: CreateSession_def failed_start_def)
next
  case (Inr c)
  obtain ep rate rep src where "c = (ep, rate, rep, src)" by (cases c) auto
  with Inr have cc: "create_checks w u req s = Inr (ep, rate, rep, src)" by simp
  note ck = create_checks_ok [OF cc]
  show ?thesis
  proof (cases "w_entries w (sv_log s) u (rq_PIDs req)")
    case (Inl e)
    with create cc show ?thesis by (auto simp: CreateSession_def failed_start_def)
  next
    case en: (Inr entries)
    define x where "x = new_session (clock w s) (w_newid w (sv_log s)) u un req AuthorityRemote entries rate rep"
    have x: "se_id x = w_newid w (sv_log s)" "se_ownerID x = u" "se_endpointID x = rq_EndpointID req"
      by (simp_all add: x_def)
    have q: "q_Entries (se_q x) = entries" "q_QueueVersion (se_q x) = 1" "q_Index (se_q x) = rq_Index req"
      "q_PositionMS (se_q x) = rq_PositionMS req" "q_Rate (se_q x) = rate" "q_Repeat (se_q x) = rep"
      by (simp_all add: x_def new_session_def)
    have f: "fresh_id s (se_id x)" using fresh x by simp
    have out: "case (r, t) of (Inl e, t) \<Rightarrow> failed_start (se_id x) s t | (Inr v, t) \<Rightarrow> begun_session x s t"
    proof (cases "ep_Kind ep = KindClient")
      case True
      with create cc en have "(r, t) = create_on_client w u req x src s"
        by (simp add: CreateSession_def x_def Let_def)
      with create_on_client_outcome [OF f x(3), of w u src] show ?thesis by simp
    next
      case False
      with create cc en have "(r, t) = create_on_device w u req ep x src s"
        by (simp add: CreateSession_def x_def Let_def)
      with create_on_device_outcome [OF f, where w = w and u = u and req = req and ep = ep and src = src] show ?thesis by simp
    qed
    show ?thesis
    proof (cases r)
      case (Inl e)
      with out x show ?thesis by simp
    next
      case (Inr v)
      with out obtain y where "live_session t (se_id x) = Some y" "se_endpointID y = se_endpointID x"
        "se_ownerID y = se_ownerID x" "se_q y = se_q x" "sv_byEndpoint t (se_endpointID x) = Some (se_id x)"
        "sv_driving t = sv_driving s"
        by (auto simp: begun_session_def)
      with Inr ck en x q show ?thesis by (simp add: minRate_def maxRate_def)
    qed
  qed
qed

definition start_request :: session_request where
  "start_request = \<lparr>rq_EndpointID = ''pe-b'', rq_PIDs = [''x'', ''y''], rq_Index = 1, rq_PositionMS = 7, rq_Play = True,
     rq_Rate = None, rq_Repeat = '''', rq_Shuffle = False, rq_HandoffFrom = ''''\<rparr>"

definition clients_only :: svc where
  "clients_only = (new_svc [])\<lparr>sv_reg := two_clients\<rparr>"

lemma create_all_or_nothing_witness:
  "\<exists>y. live_session (snd (CreateSession calm_world ''u'' ''Uma'' start_request clients_only)) ''s1'' = Some y \<and>
     q_Entries (se_q y) = [track ''x'', track ''y''] \<and> q_Index (se_q y) = 1"
proof -
  have fresh: "fresh_id clients_only (w_newid calm_world (sv_log clients_only))"
    by (simp add: fresh_id_def clients_only_def new_svc_def)
  have ck: "create_checks calm_world ''u'' start_request clients_only = Inr (phone, 1, ''off'', '''')"
    by (simp add: create_checks_def start_request_def maxQueueItems_def minRate_def maxRate_def Let_def
        clients_only_def phone_lookup) (simp add: phone_def)
  have "\<exists>v. fst (CreateSession calm_world ''u'' ''Uma'' start_request clients_only) = Inr v"
    by (simp add: CreateSession_def ck) (simp add: calm_world_def phone_def KindClient_def create_on_client_def Let_def loadOnClient_def
        start_request_def markLoadPending_def clients_only_def phone_lookup alloc_def new_svc_def
        routeToLink_def send_def route_begin_def HandleCommandResult_def split_def split: sum.split)
  then obtain v t where t: "CreateSession calm_world ''u'' ''Uma'' start_request clients_only = (Inr v, t)"
    by (metis prod.collapse)
  have calm: "w_newid calm_world h = ''s1''" "w_entries calm_world h u pids = Inr (map track pids)" for h u pids
    by (simp_all add: calm_world_def)
  have req: "rq_PIDs start_request = [''x'', ''y'']" "rq_Index start_request = 1"
    by (simp_all add: start_request_def)
  from create_all_or_nothing [OF fresh t] obtain y where
    "live_session t ''s1'' = Some y" "q_Entries (se_q y) = [track ''x'', track ''y'']" "q_Index (se_q y) = 1"
    unfolding calm req by auto
  with t show ?thesis by auto
qed

section \<open>Reports\<close>

lemma end_recent:
  "sv_recentEnds (endSessionLocked now sid b s) e = sv_recentEnds s e \<or>
   (\<exists>k. sv_recentEnds (endSessionLocked now sid b s) e = Some \<lparr>em_sessionID = k, em_at = now\<rparr>)"
  by (simp add: endSessionLocked_def Let_def split: option.split)

lemma evict_recent:
  "sv_recentEnds (evict now sid e s) e' = sv_recentEnds s e' \<or>
   (\<exists>k. sv_recentEnds (evict now sid e s) e' = Some \<lparr>em_sessionID = k, em_at = now\<rparr>)"
  using end_recent by (simp add: evict_def split: option.split)

lemma commit_recent:
  assumes "sv_obj s sid = Some x" "\<not> se_ended x"
  shows "\<exists>k. sv_recentEnds (snd (transfer_commit now sid target plan loaded s)) (tp_oldEndpoint plan)
    = Some \<lparr>em_sessionID = k, em_at = now\<rparr>"
proof -
  let ?s = "leave_endpoint now sid (tp_oldEndpoint plan) s"
  have "sv_recentEnds (snd (transfer_commit now sid target plan loaded s)) =
      sv_recentEnds (evict now sid (ep_ID target) ?s)"
    unfolding commit_parts [OF assms] carry_eq
    by (simp add: clearLoadPending_def attach_target_def mirror_target_def remote_target_def
        bindDeviceLocked_def Let_def rebind_eq split: option.split)
  moreover have "sv_recentEnds ?s (tp_oldEndpoint plan) = Some \<lparr>em_sessionID = sid, em_at = now\<rparr>"
    by (simp add: leave_endpoint_def)
  ultimately show ?thesis
    using evict_recent [of now sid "ep_ID target" ?s "tp_oldEndpoint plan"] by auto
qed

lemma commit_pending:
  assumes "sv_obj s sid = Some x" "\<not> se_ended x" "e \<noteq> ep_ID target"
  shows "sv_pendingLoads (snd (transfer_commit now sid target plan loaded s)) e = sv_pendingLoads s e"
  using assms(3) unfolding commit_parts [OF assms(1,2)] carry_eq
  by (simp add: clearLoadPending_def attach_target_def mirror_target_def remote_target_def leave_endpoint_def
      bindDeviceLocked_def Let_def rebind_eq evict_def endSessionLocked_def split: option.split)

lemma report_terminal:
  assumes "free_endpoint s (clientEndpointID (lk_SessionID link))"
    "sv_pendingLoads s (clientEndpointID (lk_SessionID link)) = None"
    "sv_recentEnds s (clientEndpointID (lk_SessionID link)) = Some mark"
    "time_sub now (em_at mark) < reportGrace"
  shows "report_section now newid link rep s = (RTerminal (ended_view now link (em_sessionID mark)), s)"
  using assms by (auto simp: report_section_def Let_def free_endpoint_def split: option.splits)

text \<open>A player that lost its session cannot bring it back: for the three seconds after a session on
  a client's endpoint is ended, or is transferred away from it, whatever that client still
  reports is answered with the word that the session is over and changes nothing in the service,
  unless a new load is on its way to that client.\<close>

theorem no_ghost_session:
  assumes ok: "svc_ok s" and x: "sv_obj s sid = Some x" "sid \<in> set (sv_live s)"
    and e: "se_endpointID x = clientEndpointID (lk_SessionID link)" "sv_pendingLoads s (se_endpointID x) = None"
    and grace: "now' - now < 3000000000" "now \<le> now'"
    and t: "t = endSessionLocked now sid b s \<or>
      (t = snd (transfer_commit now sid target plan loaded s) \<and> tp_oldEndpoint plan = se_endpointID x \<and>
       ep_ID target \<noteq> se_endpointID x)"
  shows "\<exists>k. report_section now' newid link rep t = (RTerminal (ended_view now' link k), t)"
proof -
  let ?e = "clientEndpointID (lk_SessionID link)"
  have nx: "\<not> se_ended x" using ok x ended_not_live by blast
  have by1: "sv_byEndpoint s ?e = Some sid" using svc_ok_liveE [OF ok x(2)] x(1) e(1) by force
  have g: "time_sub now' now < reportGrace"
    using grace by (subst time_sub_less_iff) (auto simp: reportGrace_def second_def min_duration_def max_duration_def)
  have "free_endpoint t ?e \<and> sv_pendingLoads t ?e = None \<and>
      (\<exists>k. sv_recentEnds t ?e = Some \<lparr>em_sessionID = k, em_at = now\<rparr>)"
    using t
  proof (elim disjE conjE)
    assume "t = endSessionLocked now sid b s"
    then show ?thesis using by1 e by (simp add: end_session_eq [OF x(1) nx] free_endpoint_def)
  next
    assume c: "t = snd (transfer_commit now sid target plan loaded s)" "tp_oldEndpoint plan = se_endpointID x"
      "ep_ID target \<noteq> se_endpointID x"
    have "sv_byEndpoint t ?e = None"
      using commit_source_index [OF ok x c(3,2), of now loaded] by (simp add: c(1) e(1))
    then show ?thesis
      using commit_recent [OF x(1) nx, of now target plan loaded] e c(3)
        commit_pending [OF x(1) nx, of "se_endpointID x" target now plan loaded]
      by (auto simp: c(1,2) free_endpoint_def)
  qed
  then obtain k where "free_endpoint t ?e" "sv_pendingLoads t ?e = None"
    "sv_recentEnds t ?e = Some \<lparr>em_sessionID = k, em_at = now\<rparr>" by blast
  from report_terminal [OF this, of now'] g show ?thesis by auto
qed

lemma no_ghost_session_witness:
  "\<exists>k. report_section 2000000000 ''s2'' link_a playing_report (endSessionLocked 5000 ''s1'' True one_session)
     = (RTerminal (ended_view 2000000000 link_a k), endSessionLocked 5000 ''s1'' True one_session)"
proof -
  obtain x where x: "sv_obj one_session ''s1'' = Some x" "se_endpointID x = ''pe-a''"
    using one_session_simps(3) by blast
  have p: "sv_pendingLoads one_session ''pe-a'' = None"
    by (simp add: one_session_def report_section_def Let_def new_svc_def report_fold_def alloc_def
        link_a_def playing_report_def mirror_session_def)
  show ?thesis
    by (rule no_ghost_session [OF one_session_ok x(1), where link = link_a and now = 5000 and now' = 2000000000 and b = True
          and target = phone and plan = phone_plan and loaded = None])
      (simp_all add: one_session_simps x p link_a_def)
qed

text \<open>A client's report touches only its own user's session, and no device: whatever it says, every
  session object of another user is left exactly as it was, no listed session is dropped, no
  session is given a driver, and the only session it may start is a mirror on the client's own
  endpoint, and only when that endpoint has no live session.\<close>

theorem report_touches_own:
  assumes "svc_ok s" "newid \<notin> set (sv_live s)" "sv_obj s newid = None"
    and "t = snd (report_section now newid link rep s)"
  shows "(\<forall>k x. sv_obj s k = Some x \<longrightarrow> se_ownerID x \<noteq> lk_UserID link \<longrightarrow> sv_obj t k = Some x) \<and>
    set (sv_live s) \<subseteq> set (sv_live t) \<and>
    (\<forall>k y. sv_obj t k = Some y \<longrightarrow> (\<exists>x. sv_obj s k = Some x \<and> se_driver y = se_driver x \<and> se_endpointID y = se_endpointID x)
       \<or> (k = newid \<and> se_driver y = None \<and> se_authority y = AuthorityMirror \<and> se_ownerID y = lk_UserID link \<and>
          se_endpointID y = clientEndpointID (lk_SessionID link) \<and>
          free_endpoint s (clientEndpointID (lk_SessionID link)) \<and> sp_ItemPids rep \<noteq> [])) \<and>
    sv_log t = sv_log s"
proof (cases rule: report_section_cases [of now newid link rep s])
  case same
  then show ?thesis using assms(4) by auto
next
  case (folded sid)
  have log: "sv_log (snd (report_fold now link rep sid False s)) = sv_log s"
    by (simp add: report_fold_def Let_def split: option.split)
  show ?thesis
    unfolding assms(4) folded(3)
    by (auto simp: report_fold_obj log split: option.splits if_splits)
next
  case created
  have log: "sv_log (snd (report_fold now link rep newid True (mirrored now newid link s))) = sv_log s"
    by (simp add: report_fold_def Let_def mirrored_def split: option.split)
  show ?thesis
    unfolding assms(4) created(4)
    using assms(3) created(1,2)
    by (auto simp: report_fold_obj log mirrored_simps split: option.splits if_splits)
qed

lemma report_touches_own_witness:
  "sv_obj (snd (report_section 7000 ''s2'' link_v playing_report one_session)) ''s1'' = sv_obj one_session ''s1''"
proof -
  obtain x where x: "sv_obj one_session ''s1'' = Some x" "se_ownerID x = ''u''"
    using one_session_simps(3) by blast
  have none: "sv_obj one_session ''s2'' = None"
    by (simp add: one_session_def report_section_def Let_def new_svc_def report_fold_def alloc_def
        link_a_def playing_report_def mirror_session_def)
  from report_touches_own [OF one_session_ok _ none refl, where now = 7000 and link = link_v and rep = playing_report] x
  show ?thesis by (auto simp: one_session_simps link_v_def)
qed

section \<open>Concurrent transfers\<close>

definition desk :: endpoint where
  "desk = phone\<lparr>ep_ID := ''pe-c'', ep_Name := ''Desk''\<rparr>"

text \<open>Two transfers of one session that overlap, each committing the plan it made while the session
  was still on its first endpoint, leave the endpoint index naming the session under the endpoint
  of the first commit as well, where it no longer is: a state the service can reach, in which the
  next session adopted on that endpoint ends a session that plays elsewhere.\<close>

lemma overlapping_transfers_leave_stale_index:
  "\<exists>t x new. conn_steps (new_svc []) t \<and> live_session t ''s1'' = Some x \<and> se_endpointID x = ''pe-c'' \<and>
     sv_byEndpoint t ''pe-b'' = Some ''s1'' \<and> sv_obj t (se_id new) = None \<and> se_endpointID new = ''pe-b'' \<and>
     live_session (adopt_section 9000 (se_id new) (alloc new t)) ''s1'' = None"
proof -
  let ?b = "snd (beginDriving (snd (beginDriving one_session)))"
  let ?t1 = "snd (transfer_commit 6000 ''s1'' phone phone_plan None ?b)"
  let ?t2 = "snd (transfer_commit 7000 ''s1'' desk phone_plan None ?t1)"
  let ?new = "new_session 0 ''s2'' ''u'' '''' start_request AuthorityMirror [] 1 ''off''"
  obtain x where x: "sv_obj one_session ''s1'' = Some x" "\<not> se_ended x" "se_endpointID x = ''pe-a''"
    using one_session_simps(3) by blast
  have bs: "?b = one_session\<lparr>sv_driving := 2\<rparr>" by (simp add: beginDriving_def one_session_simps)
  have b: "conn_steps (new_svc []) ?b" by (intro steps_then [OF _ st_begin] one_session_run)
  have xb: "sv_obj ?b ''s1'' = Some x" "sv_driving ?b = 2" "sv_live ?b = [''s1'']" "svc_ok ?b" "sv_obj ?b ''s2'' = None"
    using x(1) one_session_simps(1) one_session_ok
    by (simp_all add: bs svc_ok_def obj_ok_def live_ok_def) (simp add: one_session_def report_section_def
        Let_def new_svc_def report_fold_def alloc_def link_a_def playing_report_def mirror_session_def)
  have t1: "conn_steps (new_svc []) ?t1"
    by (rule steps_then [OF b]) (rule st_commit [where sess = x], use xb in simp_all)
  have none_b: "sv_byEndpoint ?b ''pe-b'' = None" "sv_byEndpoint ?b ''pe-c'' = None"
    by (simp_all add: bs) (simp_all add: one_session_def report_section_def Let_def new_svc_def report_fold_def
        alloc_def link_a_def playing_report_def mirror_session_def)
  have p1: "ep_ID phone = ''pe-b''" "tp_oldEndpoint phone_plan = ''pe-a''" "ep_ID desk = ''pe-c''"
    by (simp_all add: phone_def phone_plan_def desk_def)
  have ev1: "evict 6000 ''s1'' ''pe-b'' ?b = ?b"
    "evict 6000 ''s1'' ''pe-b'' (leave_endpoint 6000 ''s1'' ''pe-a'' ?b) = leave_endpoint 6000 ''s1'' ''pe-a'' ?b"
    using none_b by (simp_all add: evict_def)
  note m1 = commit_eq [OF xb(1) x(2), of 6000 phone phone_plan None]
  let ?y = "committed 6000 ?b ''s1'' phone phone_plan None x"
  have y: "sv_obj ?t1 ''s1'' = Some ?y" "\<not> se_ended ?y" "sv_live ?t1 = [''s1'']"
    "sv_byEndpoint ?t1 ''pe-b'' = Some ''s1''" "sv_byEndpoint ?t1 ''pe-c'' = None" "sv_driving ?t1 = 2"
    "sv_obj ?t1 ''s2'' = None"
    using m1 x xb none_b by (simp_all add: p1 ev1)
  have t2: "conn_steps (new_svc []) ?t2"
    by (rule steps_then [OF t1]) (rule st_commit [where sess = ?y], use y in simp_all)
  have ev2: "evict 7000 ''s1'' ''pe-c'' ?t1 = ?t1"
    "evict 7000 ''s1'' ''pe-c'' (leave_endpoint 7000 ''s1'' ''pe-a'' ?t1) = leave_endpoint 7000 ''s1'' ''pe-a'' ?t1"
    using y(5) by (simp_all add: evict_def)
  note m2 = commit_eq [OF y(1,2), of 7000 desk phone_plan None]
  let ?z = "committed 7000 ?t1 ''s1'' desk phone_plan None ?y"
  have z: "sv_obj ?t2 ''s1'' = Some ?z" "se_endpointID ?z = ''pe-c''" "sv_byEndpoint ?t2 ''pe-b'' = Some ''s1''"
    "sv_live ?t2 = [''s1'']" "\<not> se_ended ?z" "sv_obj ?t2 ''s2'' = None"
    using m2 y x by (simp_all add: p1 ev2)
  have new: "se_id ?new = ''s2''" "se_endpointID ?new = ''pe-b''" by (simp_all add: start_request_def)
  have "sv_obj (alloc ?new ?t2) ''s2'' = Some ?new" by simp
  from adopt_section_eq [OF this] have "live_session (adopt_section 9000 ''s2'' (alloc ?new ?t2)) ''s1'' = None"
    using z new by (simp add: Let_def evict_def live_session_def end_session_obj_of split: if_splits)
  with t2 z new show ?thesis
    by (intro exI [of _ ?t2] exI [of _ ?z] exI [of _ ?new]) (simp add: live_session_def)
qed

end
