(* ===== verification/Connect_Verbs.thy ===== *)
theory Connect_Verbs
  imports Connect_Moves
begin

text \<open>
  Controller commands: who may send one, and what a command that succeeds makes of a remote
  session's queue.
\<close>

section \<open>Authorisation\<close>

definition command_allowed :: "world \<Rightarrow> client_link \<Rightarrow> session \<Rightarrow> string \<Rightarrow> command_args \<Rightarrow> svc \<Rightarrow> bool" where
  "command_allowed w link x verb args s \<longleftrightarrow>
     visible_session s (lk_UserID link) x \<and> validateCommand verb args = Inr () \<and>
     (\<forall>ep. Lookup (sv_reg s) (se_ownerID x) (se_endpointID x) = Some ep \<longrightarrow>
        (ep_Shared ep \<longrightarrow> sharedAllowed w s (lk_UserID link)) \<and>
        (verb = ''set-volume'' \<longrightarrow> ep_VolumeControl ep) \<and> (verb = ''set-rate'' \<longrightarrow> ep_RateControl ep)) \<and>
     (verb = ''set-queue'' \<and> lk_UserID link \<noteq> se_ownerID x \<longrightarrow>
        (\<exists>es. w_entries w (sv_log s) (lk_UserID link) (ca_ItemPids args) = Inr es))"

lemma command_checks_allowed:
  assumes "command_checks w link x verb args s = Inr r" "visible_session s (lk_UserID link) x"
  shows "command_allowed w link x verb args s"
proof -
  have v: "validateCommand verb args = Inr ()"
    using assms(1) by (auto simp: command_checks_def split: sum.splits)
  note c = assms(1) [unfolded command_checks_def v, simplified]
  show ?thesis
    using c v assms(2) unfolding command_allowed_def refuse_def
    by (auto simp: Let_def split: option.splits if_splits sum.splits)
qed

text \<open>C20. A command changes something, or is answered with anything but an error, only when it is
  allowed: the session is live and the sender owns it or sees it on a shared endpoint, the
  verb's arguments are within bounds, a shared endpoint accepts this user, volume and rate are
  only sent to endpoints that have such a control, and a queue set by another user than the
  owner holds only items that user can resolve.  Every other command leaves the service exactly
  as it was and nothing is sent to any device or client.\<close>

theorem command_authorised:
  assumes "HandleCommand w link sid verb args s = (r, t)" "t \<noteq> s \<or> (\<exists>v. r = Inr v)"
  shows "\<exists>x. live_session s sid = Some x \<and> command_allowed w link x verb args s"
proof (cases "live_session s sid")
  case None
  with assms show ?thesis by (auto simp: HandleCommand_def)
next
  case (Some x)
  have vis: "visible_session s (lk_UserID link) x"
    using assms Some by (auto simp: HandleCommand_def split: if_splits)
  obtain ok where "command_checks w link x verb args s = Inr ok"
    using assms Some vis by (cases "command_checks w link x verb args s") (auto simp: HandleCommand_def)
  from command_checks_allowed [OF this vis] Some show ?thesis by blast
qed

definition no_args :: command_args where
  "no_args = \<lparr>ca_PositionMS = None, ca_Volume = None, ca_Rate = None, ca_ItemPids = [], ca_Index = None,
     ca_Repeat = '''', ca_Shuffle = None\<rparr>"

text \<open>The session driven on a device, as a transfer to it would leave it.\<close>

definition driven :: svc where
  "driven = upd_obj ''s1'' (\<lambda>x. x\<lparr>se_authority := AuthorityRemote, se_driver := Some 7,
     se_driverCancel := Some (''s1'', 1)\<rparr>) (hydrate_section ''s1'' [track ''x'', track ''y''] one_session)"

lemma driven_session:
  "\<exists>x. live_session driven ''s1'' = Some x \<and> sv_obj driven ''s1'' = Some x \<and> se_ownerID x = ''u'' \<and>
     se_endpointID x = ''pe-a'' \<and> se_authority x = AuthorityRemote \<and> se_driver x = Some 7 \<and>
     q_Entries (se_q x) = [track ''x'', track ''y''] \<and> q_Index (se_q x) = 0"
  "sv_reg driven = empty_registry" "sv_log driven = []" "sv_watchers driven = []"
proof -
  obtain x where x: "sv_obj one_session ''s1'' = Some x" "se_endpointID x = ''pe-a''" "se_ownerID x = ''u''"
    using one_session_simps(3) by blast
  obtain y where y: "sv_obj (hydrate_section ''s1'' [track ''x'', track ''y''] one_session) ''s1'' = Some y"
      "q_Entries (se_q y) = [track ''x'', track ''y'']" "q_Index (se_q y) = 0"
    using hydrated_session by blast
  from x y(1) have "se_endpointID y = ''pe-a''" "se_ownerID y = ''u''"
    by (auto simp: hydrate_section_def set_q_def)
  with y show "\<exists>x. live_session driven ''s1'' = Some x \<and> sv_obj driven ''s1'' = Some x \<and> se_ownerID x = ''u'' \<and>
     se_endpointID x = ''pe-a'' \<and> se_authority x = AuthorityRemote \<and> se_driver x = Some 7 \<and>
     q_Entries (se_q x) = [track ''x'', track ''y''] \<and> q_Index (se_q x) = 0"
    by (simp add: driven_def live_session_def) (simp add: hydrate_section_def one_session_simps)
  show "sv_reg driven = empty_registry" "sv_log driven = []" "sv_watchers driven = []"
    by (simp_all add: driven_def hydrate_section_def one_session_def report_section_def Let_def new_svc_def
        report_fold_def alloc_def)
qed

lemma command_authorised_witness:
  "\<exists>v t x. HandleCommand calm_world link_a ''s1'' ''set-repeat'' (no_args\<lparr>ca_Repeat := ''all''\<rparr>) driven = (Inr v, t) \<and>
     live_session driven ''s1'' = Some x \<and>
     command_allowed calm_world link_a x ''set-repeat'' (no_args\<lparr>ca_Repeat := ''all''\<rparr>) driven"
proof -
  obtain x where x: "live_session driven ''s1'' = Some x" "sv_obj driven ''s1'' = Some x" "se_ownerID x = ''u''"
    "se_authority x = AuthorityRemote" "se_driver x = Some 7" "se_endpointID x = ''pe-a''"
    using driven_session(1) by blast
  have "\<exists>v. fst (HandleCommand calm_world link_a ''s1'' ''set-repeat'' (no_args\<lparr>ca_Repeat := ''all''\<rparr>) driven) = Inr v"
    using x by (simp add: HandleCommand_def visible_session_def link_a_def command_checks_def validateCommand_def
        no_args_def Lookup_def driven_session(2) empty_registry_def applyRemoteCommand_def Let_def
        updateSession_def set_q_def persist_def get_session_def live_session_def split: if_splits)
  then obtain v t where t: "HandleCommand calm_world link_a ''s1'' ''set-repeat'' (no_args\<lparr>ca_Repeat := ''all''\<rparr>) driven = (Inr v, t)"
    by (metis prod.collapse)
  from command_authorised [OF t] t x show ?thesis by blast
qed

section \<open>What a verb does to the queue\<close>

definition q_of :: "svc \<Rightarrow> ident \<Rightarrow> queue_state option" where
  "q_of s sid = map_option se_q (sv_obj s sid)"

lemma q_of_core: "core t = core s \<Longrightarrow> q_of t sid = q_of s sid"
  by (simp add: q_of_def core_def)

lemma q_of_frames [simp]:
  "q_of (eff e s) k = q_of s k" "q_of (persist sid a s) k = q_of s k"
  "q_of (snd (drive w d c s)) k = q_of s k" "q_of (forgetLoad sid s) k = q_of s k"
  "q_of (driveLoad_section sid ld m s) k = q_of s k" "q_of (s\<lparr>sv_listen := l\<rparr>) k = q_of s k"
  "q_of (flushListen u lt s) k = q_of s k"
  by (auto simp: q_of_def persist_def drive_def forgetLoad_def driveLoad_section_def flushListen_def
      option.map_comp comp_def split: option.split)

lemma q_of_upd: "q_of (upd_obj sid f s) sid = map_option (se_q \<circ> f) (sv_obj s sid)"
  by (simp add: q_of_def option.map_comp)

lemma q_of_set_q [simp]:
  "q_of (updateSession now sid (set_q f) s) sid = map_option f (q_of s sid)"
  "q_of (upd_obj sid (set_q f) s) sid = map_option f (q_of s sid)"
  "q_of (updateSession now sid id s) sid = q_of s sid"
  by (auto simp: q_of_def updateSession_def set_q_def option.map_comp comp_def)

lemma q_of_checkpoint [simp]: "q_of (checkpointRemote w sid s) k = q_of s k"
  by (simp add: checkpointRemote_def Let_def split: option.split)

lemma q_of_flushEntry [simp]: "q_of (flushEntryListen sid s) k = q_of s k"
  by (simp add: flushEntryListen_def split: option.split)

lemma q_of_loadRendering: "loadRendering w d ld i p play s = (r, t) \<Longrightarrow> q_of t k = q_of s k"
  using core_loadRendering [of w d ld i p play s] by (metis q_of_core snd_conv)

lemma q_of_reload_bases:
  "reload_bases w sid ow ep d en ttl i p play bs e s = (r, t) \<Longrightarrow> q_of t k = q_of s k"
proof (induction bs arbitrary: e s)
  case (Cons b bs)
  then show ?case
    by (auto split: sum.splits prod.splits dest: q_of_loadRendering)
qed auto

lemma q_of_reload: "reloadRemote w sid i p play s = (r, t) \<Longrightarrow> q_of t k = q_of s k"
  by (auto simp: reloadRemote_def split: option.splits dest: q_of_reload_bases)

lemma q_of_drive: "drive w d c s = (r, t) \<Longrightarrow> q_of t k = q_of s k"
  by (metis q_of_frames(3) snd_conv)

lemma and_then_Inr: "and_then f r = (Inr u, t) \<Longrightarrow> \<exists>s. r = (Inr (), s) \<and> t = f s"
  by (auto simp: and_then_def split: prod.splits sum.splits)

lemma simple_verb_q:
  "simple_verb w sid d c f s = (Inr u, t) \<Longrightarrow> q_of t sid = map_option f (q_of s sid)"
  by (auto simp: simple_verb_def split: prod.splits option.splits dest: q_of_drive [where k = sid])

lemma remoteSeek_q:
  assumes "remoteSeek w sid d tm p s = (Inr u, t)" "q_of s sid = Some q"
  shows "\<exists>now. q_of t sid = Some (q\<lparr>q_PositionMS := p, q_PositionAt := now\<rparr>)"
proof -
  obtain x where x: "sv_obj s sid = Some x" using assms(2) by (auto simp: q_of_def)
  obtain s1 where "q_of s1 sid = q_of s sid"
    "t = updateSession (clock w s1) sid (set_q (\<lambda>q. q\<lparr>q_PositionMS := p, q_PositionAt := clock w s1\<rparr>)) s1"
    using assms(1) x unfolding remoteSeek_def
    by (auto simp: Let_def split: prod.splits option.splits sum.splits if_splits dest: q_of_drive q_of_reload)
  with assms(2) show ?thesis by auto
qed

lemma remoteSkip_q:
  assumes "remoteSkip w sid d tm fwd s = (Inr u, t)" "q_of s sid = Some q"
  shows "\<exists>now i. skip_index q fwd = Some i \<and>
    q_of t sid = Some (q\<lparr>q_Index := i, q_PositionMS := 0, q_PositionAt := now\<rparr>)"
proof -
  obtain x where x: "sv_obj s sid = Some x" "se_q x = q" using assms(2) by (auto simp: q_of_def)
  obtain i where i: "skip_index q fwd = Some i"
    using assms(1) x by (auto simp: remoteSkip_def split: option.splits)
  obtain s1 where "q_of s1 sid = q_of s sid"
    "t = checkpointRemote w sid (updateSession (clock w (flushEntryListen sid s1)) sid
       (set_q (\<lambda>q. q\<lparr>q_Index := i, q_PositionMS := 0, q_PositionAt := clock w (flushEntryListen sid s1)\<rparr>))
       (flushEntryListen sid s1))"
    using assms(1) x i unfolding remoteSkip_def
    by (auto simp: Let_def split: prod.splits option.splits sum.splits dest: q_of_drive q_of_reload)
  with assms(2) i show ?thesis by auto
qed

lemma skip_index_in_range:
  "skip_index q fwd = Some i \<Longrightarrow> in_range (q_Index q) (q_Entries q) \<Longrightarrow> in_range i (q_Entries q)"
  by (auto simp: skip_index_def in_range_def Let_def split: if_splits)

lemma remoteSetQueue_q:
  assumes "remoteSetQueue w sid args s = (Inr u, t)" "q_of s sid = Some q"
  shows "\<exists>now entries ow. w_entries w (sv_log s) ow (ca_ItemPids args) = Inr entries \<and>
    q_of t sid = Some (q\<lparr>q_Entries := entries, q_QueueVersion := q_QueueVersion q + 1,
      q_Index := (case ca_Index args of Some i \<Rightarrow> i | None \<Rightarrow> 0),
      q_PositionMS := (case ca_PositionMS args of Some p \<Rightarrow> p | None \<Rightarrow> 0), q_PositionAt := now, q_Playing := True\<rparr>)"
proof -
  obtain x where x: "sv_obj s sid = Some x" "se_q x = q" using assms(2) by (auto simp: q_of_def)
  obtain entries where en: "w_entries w (sv_log s) (se_ownerID x) (ca_ItemPids args) = Inr entries"
    using assms(1) x by (auto simp: remoteSetQueue_def split: sum.splits)
  let ?i = "case ca_Index args of Some i \<Rightarrow> i | None \<Rightarrow> 0"
  let ?p = "case ca_PositionMS args of Some p \<Rightarrow> p | None \<Rightarrow> 0"
  obtain r s2 where rl: "reloadRemote w sid ?i ?p True (setQueue_section sid entries s) = (r, s2)" by fastforce
  have "q_of s2 sid = Some (q\<lparr>q_Entries := entries, q_QueueVersion := q_QueueVersion q + 1\<rparr>)"
    using q_of_reload [OF rl, of sid] assms(2) by (simp add: setQueue_section_def)
  moreover have "t = eff EInvalidate (eff (ESetQueue (se_ownerID x) (ca_ItemPids args)) (persist sid True
      (updateSession (clock w s2) sid (set_q (\<lambda>q. q\<lparr>q_Index := ?i, q_PositionMS := ?p,
         q_PositionAt := clock w s2, q_Playing := True\<rparr>)) s2)))"
    using assms(1) x en rl by (auto simp: remoteSetQueue_def Let_def split: sum.splits)
  ultimately show ?thesis
    using en by (intro exI [of _ "clock w s2"] exI [of _ entries] exI [of _ "se_ownerID x"]) simp
qed

lemma remoteSetShuffle_q:
  assumes "remoteSetShuffle w sid on s = (Inr u, t)" "q_of s sid = Some q"
  shows "q_of t sid = q_of (shuffle_section (w_rand w (sv_log s)) sid on s) sid"
proof -
  let ?s = "shuffle_section (w_rand w (sv_log s)) sid on s"
  obtain x where "sv_obj ?s sid = Some x" using assms(2) by (auto simp: q_of_def shuffle_section_def)
  with assms(1) show ?thesis
    by (auto simp: remoteSetShuffle_def Let_def split: if_splits sum.splits prod.splits dest: q_of_reload)
qed

lemma valid_verb:
  assumes "validateCommand verb args = Inr ()"
  obtains "verb = ''play''"
    | "verb = ''pause''"
    | "verb = ''stop''"
    | "verb = ''seek''"
    | "verb = ''next''"
    | "verb = ''previous''"
    | "verb = ''set-volume''"
    | "verb = ''set-rate''"
    | "verb = ''set-queue''"
    | "verb = ''set-repeat''"
    | "verb = ''set-shuffle''"
proof (rule ccontr)
  assume n: "\<not> thesis"
  have n1: "verb \<noteq> ''play''" by (rule contrapos_nn [OF n that(1)])
  have n2: "verb \<noteq> ''pause''" by (rule contrapos_nn [OF n that(2)])
  have n3: "verb \<noteq> ''stop''" by (rule contrapos_nn [OF n that(3)])
  have n4: "verb \<noteq> ''seek''" by (rule contrapos_nn [OF n that(4)])
  have n5: "verb \<noteq> ''next''" by (rule contrapos_nn [OF n that(5)])
  have n6: "verb \<noteq> ''previous''" by (rule contrapos_nn [OF n that(6)])
  have n7: "verb \<noteq> ''set-volume''" by (rule contrapos_nn [OF n that(7)])
  have n8: "verb \<noteq> ''set-rate''" by (rule contrapos_nn [OF n that(8)])
  have n9: "verb \<noteq> ''set-queue''" by (rule contrapos_nn [OF n that(9)])
  have n10: "verb \<noteq> ''set-repeat''" by (rule contrapos_nn [OF n that(10)])
  have n11: "verb \<noteq> ''set-shuffle''" by (rule contrapos_nn [OF n that(11)])
  show False
    using assms by (simp add: validateCommand_def refuse_def n1 n2 n3 n4 n5 n6 n7 n8 n9 n10 n11)
qed

text \<open>The outside answers a list of items with as many entries, as \<open>Resolver.Entries\<close> documents.\<close>

definition entries_match :: "world \<Rightarrow> bool" where
  "entries_match w \<longleftrightarrow> (\<forall>h u pids es. w_entries w h u pids = Inr es \<longrightarrow> length es = length pids)"

text \<open>A controller's verb that succeeds leaves a remote session's queue in order: the current index
  is still an entry of the queue; only set-queue and shuffling change the entries, and both move
  the version on, so a watcher is sent the new list; play and pause set the playing flag they
  say, stop pauses, seek lands on the position asked for, next and previous start their entry at
  zero, and rate and volume stay within the documented bounds.\<close>

theorem verbs_keep_queue_sound:
  assumes ap: "applyRemoteCommand w sid d tm verb args s = (Inr u, t)"
    and valid: "validateCommand verb args = Inr ()" and match: "entries_match w"
    and q: "q_of s sid = Some q" "in_range (q_Index q) (q_Entries q)"
  shows "\<exists>q'. q_of t sid = Some q' \<and> in_range (q_Index q') (q_Entries q') \<and>
    (q_Entries q' \<noteq> q_Entries q \<longrightarrow> verb \<in> {''set-queue'', ''set-shuffle''} \<and> q_QueueVersion q' = q_QueueVersion q + 1) \<and>
    (verb = ''play'' \<longrightarrow> q_Playing q') \<and> (verb \<in> {''pause'', ''stop''} \<longrightarrow> \<not> q_Playing q') \<and>
    (verb = ''seek'' \<longrightarrow> ca_PositionMS args = Some (q_PositionMS q') \<and> 0 \<le> q_PositionMS q') \<and>
    (verb \<in> {''next'', ''previous''} \<longrightarrow> q_PositionMS q' = 0) \<and>
    (verb = ''set-rate'' \<longrightarrow> 1 / 4 \<le> q_Rate q' \<and> q_Rate q' \<le> 5) \<and>
    (verb = ''set-volume'' \<longrightarrow> (\<exists>v. q_Volume q' = Some v \<and> 0 \<le> v \<and> v \<le> 1))"
proof -
  obtain x where x: "sv_obj s sid = Some x" "se_q x = q" using q(1) by (auto simp: q_of_def)
  from valid show ?thesis
  proof (cases rule: valid_verb)
    case 1
    with ap have "simple_verb w sid d DPlay (\<lambda>q. (settle_at (clock w s) q)\<lparr>q_Playing := True\<rparr>) s = (Inr u, t)"
      by (simp add: applyRemoteCommand_def Let_def)
    from simple_verb_q [OF this] 1 q show ?thesis by (simp add: settle_at_def)
  next
    case 2
    with ap obtain s1 where "simple_verb w sid d DPause (\<lambda>q. (settle_at (clock w s) q)\<lparr>q_Playing := False\<rparr>) s = (Inr (), s1)"
      "t = checkpointRemote w sid s1"
      by (auto simp: applyRemoteCommand_def Let_def dest: and_then_Inr)
    with simple_verb_q [OF this(1)] 2 q show ?thesis by (simp add: settle_at_def)
  next
    case 3
    with ap obtain s1 where "simple_verb w sid d DStop (\<lambda>q. (settle_at (clock w s) q)\<lparr>q_Playing := False\<rparr>) s = (Inr (), s1)"
      "t = checkpointRemote w sid s1"
      by (auto simp: applyRemoteCommand_def Let_def dest: and_then_Inr)
    with simple_verb_q [OF this(1)] 3 q show ?thesis by (simp add: settle_at_def)
  next
    case 4
    from valid 4 obtain p where p: "ca_PositionMS args = Some p" "0 \<le> p"
      by (auto simp: validateCommand_def refuse_def split: option.splits if_splits)
    with ap 4 have "remoteSeek w sid d tm p s = (Inr u, t)" by (simp add: applyRemoteCommand_def Let_def)
    from remoteSeek_q [OF this q(1)] 4 p q(2) show ?thesis by auto
  next
    case 5
    with ap have "remoteSkip w sid d tm True s = (Inr u, t)" by (simp add: applyRemoteCommand_def Let_def)
    from remoteSkip_q [OF this q(1)] 5 q(2) show ?thesis by (auto dest: skip_index_in_range)
  next
    case 6
    with ap have "remoteSkip w sid d tm False s = (Inr u, t)" by (simp add: applyRemoteCommand_def Let_def)
    from remoteSkip_q [OF this q(1)] 6 q(2) show ?thesis by (auto dest: skip_index_in_range)
  next
    case 7
    from valid 7 obtain v where v: "ca_Volume args = Some v" "0 \<le> v" "v \<le> 1"
      by (auto simp: validateCommand_def refuse_def split: option.splits if_splits)
    with ap 7 have "simple_verb w sid d (DSetVolume v) (\<lambda>q. q\<lparr>q_Volume := Some v\<rparr>) s = (Inr u, t)"
      by (simp add: applyRemoteCommand_def Let_def)
    from simple_verb_q [OF this] 7 q v show ?thesis by simp
  next
    case 8
    from valid 8 obtain r where r: "ca_Rate args = Some r" "1 / 4 \<le> r" "r \<le> 5"
      by (auto simp: validateCommand_def refuse_def minRate_def maxRate_def split: option.splits if_splits)
    with ap 8 have "simple_verb w sid d (DSetRate r) (\<lambda>q. (settle_at (clock w s) q)\<lparr>q_Rate := r\<rparr>) s = (Inr u, t)"
      by (simp add: applyRemoteCommand_def Let_def)
    from simple_verb_q [OF this] 8 q r show ?thesis by (simp add: settle_at_def)
  next
    case 9
    with ap have "remoteSetQueue w sid args s = (Inr u, t)" by (simp add: applyRemoteCommand_def Let_def)
    from remoteSetQueue_q [OF this q(1)] obtain now entries ow where
      e: "w_entries w (sv_log s) ow (ca_ItemPids args) = Inr entries"
      "q_of t sid = Some (q\<lparr>q_Entries := entries, q_QueueVersion := q_QueueVersion q + 1,
      q_Index := (case ca_Index args of Some i \<Rightarrow> i | None \<Rightarrow> 0),
      q_PositionMS := (case ca_PositionMS args of Some p \<Rightarrow> p | None \<Rightarrow> 0), q_PositionAt := now, q_Playing := True\<rparr>)"
      by blast
    have len: "length entries = length (ca_ItemPids args)" using match e(1) by (auto simp: entries_match_def)
    have "in_range (case ca_Index args of Some i \<Rightarrow> i | None \<Rightarrow> 0) entries"
      using valid 9 len by (auto simp: validateCommand_def refuse_def in_range_def split: option.splits if_splits)
    with e(2) 9 show ?thesis by simp
  next
    case 10
    with ap have "q_of t sid = Some (q\<lparr>q_Repeat := ca_Repeat args\<rparr>)"
      using q by (auto simp: applyRemoteCommand_def Let_def)
    with 10 q show ?thesis by simp
  next
    case 11
    from valid 11 obtain b where b: "ca_Shuffle args = Some b"
      by (auto simp: validateCommand_def refuse_def split: if_splits)
    with ap 11 have "remoteSetShuffle w sid b s = (Inr u, t)" by (simp add: applyRemoteCommand_def Let_def)
    from remoteSetShuffle_q [OF this q(1)] have t: "q_of t sid = q_of (shuffle_section (w_rand w (sv_log s)) sid b s) sid" .
    have "length (q_Entries q) = length (shuffledEntries draw (q_Entries q) (q_Index q))" for draw
      using shuffled_in_range [OF q(2), of draw] by (metis mset_eq_length)
    with t q 11 show ?thesis by (auto simp: shuffle_section_def Let_def in_range_def)
  qed
qed

lemma verbs_keep_queue_sound_witness:
  "\<exists>u t q'. applyRemoteCommand calm_world ''s1'' 7 None ''pause'' no_args driven = (Inr u, t) \<and>
     q_of t ''s1'' = Some q' \<and> \<not> q_Playing q' \<and> q_Entries q' = [track ''x'', track ''y'']"
proof -
  obtain x where x: "sv_obj driven ''s1'' = Some x" "q_Entries (se_q x) = [track ''x'', track ''y'']" "q_Index (se_q x) = 0"
    using driven_session(1) by blast
  obtain u t where t: "applyRemoteCommand calm_world ''s1'' 7 None ''pause'' no_args driven = (Inr u, t)"
    by (simp add: applyRemoteCommand_def Let_def and_then_def simple_verb_def drive_def calm_world_def)
  have "entries_match calm_world" by (simp add: entries_match_def calm_world_def)
  moreover have "validateCommand ''pause'' no_args = Inr ()" by (simp add: validateCommand_def)
  moreover have "q_of driven ''s1'' = Some (se_q x)" using x(1) by (simp add: q_of_def)
  moreover have "in_range (q_Index (se_q x)) (q_Entries (se_q x))" using x(2,3) by (simp add: in_range_def)
  ultimately have "\<exists>q'. q_of t ''s1'' = Some q' \<and> \<not> q_Playing q' \<and> q_Entries q' = q_Entries (se_q x)"
    by (intro ex_forward [OF verbs_keep_queue_sound [OF t, of "se_q x"]]) simp_all
  with t x(2) show ?thesis by auto
qed

end
