(* ===== verification/Hub.thy ===== *)
theory Hub
  imports Prelude
begin

text \<open>
  The event hub of \<^verbatim>\<open>server/internal/events/hub.go\<close>: it turns wakeup hints into coalesced
  invalidation frames, one set of flags per connection.

  \<^item> A \<open>*Conn\<close> is a pointer the transport keeps after \<open>Unregister\<close>: \<open>hb_obj\<close> maps a handle to
    the connection, \<open>hb_conns\<close> lists the registered handles in the order the runtime iterates
    the Go map.
  \<^item> The wake channel has a buffer of one: \<open>cn_wake\<close> says that it holds a token.  The
    \<open>ended\<close> channel is closed once: \<open>cn_ended\<close>.
  \<^item> \<open>cn_topics\<close> is \<open>None\<close> for a nil map (every topic).
  \<^item> \<open>Mark\<close> gives its lock up between setting a flag and waking the writer, so it is two
    steps, \<open>mark_pending\<close> and \<open>mark_wake\<close>.
  \<^item> \<open>Run\<close>'s local state (\<open>catalogDirty\<close>, \<open>dirtyUsers\<close>) is \<open>run_hints\<close>; each case of its
    \<^verbatim>\<open>select\<close> is one definition.
\<close>

section \<open>Connections\<close>

definition TopicCatalog :: string where "TopicCatalog = ''catalog''"
definition TopicUser :: string where "TopicUser = ''user''"
definition TopicPlayer :: string where "TopicPlayer = ''player''"
definition TopicRadio :: string where "TopicRadio = ''radio''"
definition TypeInvalidate :: string where "TypeInvalidate = ''invalidate''"
definition TypeResync :: string where "TypeResync = ''resync''"

lemmas topic_defs = TopicCatalog_def TopicUser_def TopicPlayer_def TopicRadio_def
lemmas frame_type_defs = TypeInvalidate_def TypeResync_def

record hub_frame =
  fr_Type :: string
  fr_Topic :: string

record pending =
  pd_catalog :: bool
  pd_user :: bool
  pd_player :: bool
  pd_radio :: bool
  pd_resync :: bool
  pd_resyncCatalog :: bool

record conn =
  cn_userID :: string
  cn_sessionID :: string
  cn_topics :: "string list option"
  cn_station :: string
  cn_tuned :: bool
  cn_pending :: pending
  cn_wake :: bool
  cn_ended :: bool

definition no_pending :: pending where
  "no_pending = \<lparr>pd_catalog = False, pd_user = False, pd_player = False, pd_radio = False,
     pd_resync = False, pd_resyncCatalog = False\<rparr>"

definition any_pending :: "pending \<Rightarrow> bool" where
  "any_pending p \<longleftrightarrow> pd_catalog p \<or> pd_user p \<or> pd_player p \<or> pd_radio p \<or> pd_resync p \<or> pd_resyncCatalog p"

definition known_topics :: "string list" where
  "known_topics = [TopicCatalog, TopicUser, TopicPlayer, TopicRadio]"

definition new_conn :: "string \<Rightarrow> string \<Rightarrow> string list \<Rightarrow> conn" where
  "new_conn userID sessionID topics =
     (let known = filter (\<lambda>t. t \<in> set known_topics) topics
      in \<lparr>cn_userID = userID, cn_sessionID = sessionID,
          cn_topics = (if topics = [] then None else if known = [] then None else Some known),
          cn_station = '''', cn_tuned = False, cn_pending = no_pending, cn_wake = False,
          cn_ended = False\<rparr>)"

definition wants :: "conn \<Rightarrow> string \<Rightarrow> bool" where
  "wants c topic = (case cn_topics c of None \<Rightarrow> True | Some ts \<Rightarrow> topic \<in> set ts)"

definition Tune :: "string \<Rightarrow> conn \<Rightarrow> conn" where
  "Tune stationPID c = c\<lparr>cn_station := stationPID, cn_tuned := True\<rparr>"

definition tunedTo :: "string list \<Rightarrow> conn \<Rightarrow> bool" where
  "tunedTo stations c =
     (if \<not> cn_tuned c then True
      else if cn_station c = '''' then False
      else cn_station c \<in> set stations)"

definition set_flag :: "string \<Rightarrow> string \<Rightarrow> pending \<Rightarrow> pending" where
  "set_flag frameType topic p =
     (if frameType = TypeResync \<and> topic = TopicCatalog then p\<lparr>pd_resyncCatalog := True\<rparr>
      else if frameType = TypeResync then p\<lparr>pd_resync := True\<rparr>
      else if topic = TopicCatalog then p\<lparr>pd_catalog := True\<rparr>
      else if topic = TopicUser then p\<lparr>pd_user := True\<rparr>
      else if topic = TopicPlayer then p\<lparr>pd_player := True\<rparr>
      else if topic = TopicRadio then p\<lparr>pd_radio := True\<rparr>
      else p)"

text \<open>Whether \<open>Mark\<close> takes the frame at all.\<close>

definition accepts :: "conn \<Rightarrow> string \<Rightarrow> string \<Rightarrow> bool" where
  "accepts c frameType topic \<longleftrightarrow> \<not> (frameType = TypeInvalidate \<and> \<not> wants c topic)"

definition mark_pending :: "string \<Rightarrow> string \<Rightarrow> conn \<Rightarrow> conn" where
  "mark_pending frameType topic c = c\<lparr>cn_pending := set_flag frameType topic (cn_pending c)\<rparr>"

definition mark_wake :: "conn \<Rightarrow> conn" where
  "mark_wake c = c\<lparr>cn_wake := True\<rparr>"

definition Mark :: "string \<Rightarrow> string \<Rightarrow> conn \<Rightarrow> conn" where
  "Mark frameType topic c =
     (if accepts c frameType topic then mark_wake (mark_pending frameType topic c) else c)"

definition TakePending :: "conn \<Rightarrow> hub_frame list \<times> conn" where
  "TakePending c =
     (let p = cn_pending c;
          fr = (\<lambda>b ty topic. if b then [\<lparr>fr_Type = ty, fr_Topic = topic\<rparr>] else [])
      in ((if pd_resync p then [\<lparr>fr_Type = TypeResync, fr_Topic = ''''\<rparr>]
           else fr (pd_resyncCatalog p) TypeResync TopicCatalog) @
          fr (pd_catalog p) TypeInvalidate TopicCatalog @ fr (pd_user p) TypeInvalidate TopicUser @
          fr (pd_player p) TypeInvalidate TopicPlayer @ fr (pd_radio p) TypeInvalidate TopicRadio,
          c\<lparr>cn_pending := no_pending\<rparr>))"

section \<open>The hub\<close>

record hub =
  hb_obj :: "nat \<Rightarrow> conn option"
  hb_conns :: "nat list"
  hb_radioDirty :: "string list option"

definition new_hub :: hub where
  "new_hub = \<lparr>hb_obj = (\<lambda>_. None), hb_conns = [], hb_radioDirty = None\<rparr>"

text \<open>\<open>k\<close> is the handle of the allocated connection.\<close>

definition Register :: "nat \<Rightarrow> string \<Rightarrow> string \<Rightarrow> string list \<Rightarrow> hub \<Rightarrow> hub" where
  "Register k userID sessionID topics h =
     h\<lparr>hb_obj := (hb_obj h)(k \<mapsto> new_conn userID sessionID topics), hb_conns := hb_conns h @ [k]\<rparr>"

definition Unregister :: "nat \<Rightarrow> hub \<Rightarrow> hub" where
  "Unregister k h = h\<lparr>hb_conns := removeAll k (hb_conns h)\<rparr>"

definition on_conn :: "(conn \<Rightarrow> conn) \<Rightarrow> nat \<Rightarrow> hub \<Rightarrow> hub" where
  "on_conn f k h = h\<lparr>hb_obj := (hb_obj h)(k := map_option f (hb_obj h k))\<rparr>"

definition end_conn :: "conn \<Rightarrow> conn" where
  "end_conn c = c\<lparr>cn_ended := True\<rparr>"

definition endWhere :: "(conn \<Rightarrow> bool) \<Rightarrow> hub \<Rightarrow> hub" where
  "endWhere match h =
     (let hit = filter (\<lambda>k. case hb_obj h k of Some c \<Rightarrow> match c | None \<Rightarrow> False) (hb_conns h)
      in fold (on_conn end_conn) hit h)"

definition EndSessions :: "string list \<Rightarrow> hub \<Rightarrow> hub" where
  "EndSessions ids h =
     (let gone = filter (\<lambda>i. i \<noteq> '''') ids in endWhere (\<lambda>c. cn_sessionID c \<in> set gone) h)"

definition EndUser :: "string \<Rightarrow> string \<Rightarrow> hub \<Rightarrow> hub" where
  "EndUser userID keepSessionID h =
     endWhere (\<lambda>c. cn_userID c = userID \<and> (keepSessionID = '''' \<or> cn_sessionID c \<noteq> keepSessionID)) h"

definition markAllAs :: "string \<Rightarrow> string \<Rightarrow> hub \<Rightarrow> hub" where
  "markAllAs frameType topic h = fold (on_conn (Mark frameType topic)) (hb_conns h) h"

definition MarkPlayerAll :: "hub \<Rightarrow> hub" where
  "MarkPlayerAll h = markAllAs TypeInvalidate TopicPlayer h"

definition MarkCatalogReplaced :: "hub \<Rightarrow> hub" where
  "MarkCatalogReplaced h = markAllAs TypeResync '''' h"

definition MarkRadio :: "string \<Rightarrow> hub \<Rightarrow> hub" where
  "MarkRadio stationPID h =
     (if stationPID = '''' then h
      else h\<lparr>hb_radioDirty := Some (List.insert stationPID
               (case hb_radioDirty h of None \<Rightarrow> [] | Some ss \<Rightarrow> ss))\<rparr>)"

definition takeRadio :: "hub \<Rightarrow> string list \<times> hub" where
  "takeRadio h =
     ((case hb_radioDirty h of None \<Rightarrow> [] | Some ss \<Rightarrow> ss), h\<lparr>hb_radioDirty := None\<rparr>)"

definition flush_conn :: "bool \<Rightarrow> string list \<Rightarrow> string list \<Rightarrow> conn \<Rightarrow> conn" where
  "flush_conn catalog users stations c =
     (let c1 = (if catalog then Mark TypeInvalidate TopicCatalog c else c);
          c2 = (if cn_userID c1 \<in> set users then Mark TypeInvalidate TopicUser c1 else c1)
      in if stations \<noteq> [] \<and> tunedTo stations c2 then Mark TypeInvalidate TopicRadio c2 else c2)"

definition flush :: "bool \<Rightarrow> string list \<Rightarrow> string list \<Rightarrow> hub \<Rightarrow> hub" where
  "flush catalog users stations h = fold (on_conn (flush_conn catalog users stations)) (hb_conns h) h"

record run_hints =
  rh_catalogDirty :: bool
  rh_dirtyUsers :: "string list"

definition run_catalog :: "run_hints \<Rightarrow> run_hints" where
  "run_catalog r = r\<lparr>rh_catalogDirty := True\<rparr>"

definition run_user :: "string \<Rightarrow> run_hints \<Rightarrow> run_hints" where
  "run_user uid r = r\<lparr>rh_dirtyUsers := List.insert uid (rh_dirtyUsers r)\<rparr>"

definition run_coalesced :: "run_hints \<times> hub \<Rightarrow> run_hints \<times> hub" where
  "run_coalesced st =
     (case st of (r, h) \<Rightarrow>
        let (stations, h1) = takeRadio h in
        if \<not> rh_catalogDirty r \<and> rh_dirtyUsers r = [] \<and> stations = [] then (r, h1)
        else (\<lparr>rh_catalogDirty = False, rh_dirtyUsers = []\<rparr>,
              flush (rh_catalogDirty r) (rh_dirtyUsers r) stations h1))"

section \<open>What is taken is what was marked\<close>

text \<open>Every frame there is, in the order they are sent.\<close>

definition all_frames :: "hub_frame list" where
  "all_frames = map (\<lambda>(ty, topic). \<lparr>fr_Type = ty, fr_Topic = topic\<rparr>)
     [(TypeResync, ''''), (TypeResync, TopicCatalog), (TypeInvalidate, TopicCatalog),
      (TypeInvalidate, TopicUser), (TypeInvalidate, TopicPlayer), (TypeInvalidate, TopicRadio)]"

definition marks :: "(string \<times> string) list \<Rightarrow> conn \<Rightarrow> conn" where
  "marks ms c = fold (\<lambda>(ty, topic). Mark ty topic) ms c"

lemma topic_distinct [simp]:
  "TypeResync \<noteq> TypeInvalidate" "TypeInvalidate \<noteq> TypeResync" "TopicCatalog \<noteq> TopicUser" "TopicUser \<noteq> TopicCatalog"
  "TopicCatalog \<noteq> TopicPlayer" "TopicPlayer \<noteq> TopicCatalog" "TopicCatalog \<noteq> TopicRadio" "TopicRadio \<noteq> TopicCatalog"
  "TopicUser \<noteq> TopicPlayer" "TopicPlayer \<noteq> TopicUser" "TopicUser \<noteq> TopicRadio" "TopicRadio \<noteq> TopicUser"
  "TopicPlayer \<noteq> TopicRadio" "TopicRadio \<noteq> TopicPlayer" "TopicCatalog \<noteq> ''''" "TopicUser \<noteq> ''''"
  "TopicPlayer \<noteq> ''''" "TopicRadio \<noteq> ''''" "'''' \<noteq> TopicCatalog" "'''' \<noteq> TopicUser" "'''' \<noteq> TopicPlayer"
  "'''' \<noteq> TopicRadio"
  by (simp_all add: topic_defs frame_type_defs)

text \<open>The flag a frame is kept in, and the frames that wait.\<close>

definition flag_of :: "hub_frame \<Rightarrow> pending \<Rightarrow> bool" where
  "flag_of f p =
     (if fr_Type f = TypeResync
      then (if fr_Topic f = '''' then pd_resync p else fr_Topic f = TopicCatalog \<and> pd_resyncCatalog p)
      else fr_Type f = TypeInvalidate \<and>
        ((fr_Topic f = TopicCatalog \<and> pd_catalog p) \<or> (fr_Topic f = TopicUser \<and> pd_user p) \<or>
         (fr_Topic f = TopicPlayer \<and> pd_player p) \<or> (fr_Topic f = TopicRadio \<and> pd_radio p)))"

lemma flag_of_set_flag:
  assumes "f \<in> set all_frames" "g \<in> set all_frames"
  shows "flag_of f (set_flag (fr_Type g) (fr_Topic g) p) \<longleftrightarrow> f = g \<or> flag_of f p"
  using assms unfolding all_frames_def
  by (simp only: list.set list.map prod.case insert_iff empty_iff simp_thms, elim disjE)
    (simp_all add: flag_of_def set_flag_def)

lemma TakePending_frames:
  "fst (TakePending c) = filter (\<lambda>f. flag_of f (cn_pending c) \<and>
     \<not> (f = \<lparr>fr_Type = TypeResync, fr_Topic = TopicCatalog\<rparr> \<and> pd_resync (cn_pending c))) all_frames"
  by (simp add: TakePending_def Let_def all_frames_def flag_of_def)

lemma marks_fields [simp]:
  "cn_topics (Mark ty topic c) = cn_topics c" "cn_topics (marks ms c) = cn_topics c"
proof -
  show m: "cn_topics (Mark ty topic c) = cn_topics c" for ty topic c
    by (simp add: Mark_def mark_wake_def mark_pending_def)
  show "cn_topics (marks ms c) = cn_topics c"
    unfolding marks_def by (induction ms arbitrary: c) (auto simp: m)
qed

lemma accepts_marks [simp]: "accepts (Mark ty topic c) = accepts c"
  by (simp add: accepts_def wants_def fun_eq_iff)

lemma Mark_flag:
  assumes "f \<in> set all_frames" "g \<in> set all_frames"
  shows "flag_of f (cn_pending (Mark (fr_Type g) (fr_Topic g) c)) \<longleftrightarrow>
    flag_of f (cn_pending c) \<or> (f = g \<and> accepts c (fr_Type g) (fr_Topic g))"
  using flag_of_set_flag [OF assms]
  by (auto simp: Mark_def mark_wake_def mark_pending_def)

definition is_frame :: "string \<times> string \<Rightarrow> bool" where
  "is_frame m \<longleftrightarrow> \<lparr>fr_Type = fst m, fr_Topic = snd m\<rparr> \<in> set all_frames"

lemma marks_flag:
  assumes "f \<in> set all_frames" "\<forall>m \<in> set ms. is_frame m"
  shows "flag_of f (cn_pending (marks ms c)) \<longleftrightarrow>
    flag_of f (cn_pending c) \<or> ((fr_Type f, fr_Topic f) \<in> set ms \<and> accepts c (fr_Type f) (fr_Topic f))"
  using assms(2)
proof (induction ms arbitrary: c)
  case (Cons m ms)
  obtain ty topic where m: "m = (ty, topic)" by (cases m) auto
  let ?g = "\<lparr>fr_Type = ty, fr_Topic = topic\<rparr>"
  have g: "?g \<in> set all_frames" using Cons.prems m by (simp add: is_frame_def)
  have "marks (m # ms) c = marks ms (Mark ty topic c)" by (simp add: marks_def m)
  with Cons.IH [of "Mark ty topic c"] Cons.prems Mark_flag [OF assms(1) g, of c] show ?case
    by (cases f) (auto simp: m)
qed (simp add: marks_def)

lemma marks_wake: "cn_wake c \<Longrightarrow> cn_wake (marks ms c)"
  unfolding marks_def by (induction ms arbitrary: c) (auto simp: Mark_def mark_wake_def mark_pending_def)

text \<open>However often and in whatever order a connection is marked, what its writer takes is each
  kind of frame at most once and in one fixed order: exactly the invalidations and resyncs marked
  since the last take that the connection subscribed to, where a resync of everything stands for
  a resync of the catalog; and afterwards nothing is left to take.\<close>

lemma pending_is_what_was_marked:
  assumes "cn_pending c = no_pending" "\<forall>m \<in> set ms. is_frame m"
  shows "fst (TakePending (marks ms c)) =
      filter (\<lambda>f. (fr_Type f, fr_Topic f) \<in> set ms \<and> accepts c (fr_Type f) (fr_Topic f) \<and>
        \<not> (f = \<lparr>fr_Type = TypeResync, fr_Topic = TopicCatalog\<rparr> \<and> (TypeResync, '''') \<in> set ms)) all_frames \<and>
    fst (TakePending (snd (TakePending (marks ms c)))) = []"
proof -
  let ?p = "cn_pending (marks ms c)"
  have none: "\<not> flag_of f (cn_pending c)" for f by (simp add: assms(1) flag_of_def no_pending_def)
  have flag: "flag_of f ?p \<longleftrightarrow> (fr_Type f, fr_Topic f) \<in> set ms \<and> accepts c (fr_Type f) (fr_Topic f)"
    if "f \<in> set all_frames" for f
    using marks_flag [OF that assms(2), of c] none by simp
  have "\<lparr>fr_Type = TypeResync, fr_Topic = ''''\<rparr> \<in> set all_frames" by (simp add: all_frames_def)
  from flag [OF this] have full: "pd_resync ?p \<longleftrightarrow> (TypeResync, '''') \<in> set ms"
    by (simp add: flag_of_def accepts_def)
  have "fst (TakePending (marks ms c)) =
      filter (\<lambda>f. (fr_Type f, fr_Topic f) \<in> set ms \<and> accepts c (fr_Type f) (fr_Topic f) \<and>
        \<not> (f = \<lparr>fr_Type = TypeResync, fr_Topic = TopicCatalog\<rparr> \<and> (TypeResync, '''') \<in> set ms)) all_frames"
    unfolding TakePending_frames by (rule filter_cong) (auto simp: flag full)
  moreover have "fst (TakePending (snd (TakePending (marks ms c)))) = []"
    by (simp add: TakePending_def Let_def no_pending_def)
  ultimately show ?thesis by simp
qed

lemma pending_is_what_was_marked_witness:
  "fst (TakePending (marks [(TypeInvalidate, TopicUser), (TypeResync, TopicCatalog), (TypeInvalidate, TopicRadio),
      (TypeInvalidate, TopicUser)] (new_conn ''u'' ''s'' [TopicUser]))) =
    [\<lparr>fr_Type = TypeResync, fr_Topic = TopicCatalog\<rparr>, \<lparr>fr_Type = TypeInvalidate, fr_Topic = TopicUser\<rparr>]"
  using pending_is_what_was_marked [of "new_conn ''u'' ''s'' [TopicUser]"
      "[(TypeInvalidate, TopicUser), (TypeResync, TopicCatalog), (TypeInvalidate, TopicRadio), (TypeInvalidate, TopicUser)]"]
  by (simp add: new_conn_def Let_def known_topics_def is_frame_def all_frames_def accepts_def wants_def)

section \<open>No wakeup is lost\<close>

text \<open>
  A connection with its writer and its markers: \<open>wr_busy\<close> says that the writer has received a
  wakeup and not yet taken the frames, \<open>wr_marking\<close> counts the markers that have set their flag
  and not yet woken it.
\<close>

record wake_state =
  wr_conn :: conn
  wr_busy :: bool
  wr_marking :: nat

inductive wake_step :: "wake_state \<Rightarrow> wake_state \<Rightarrow> bool" where
  ws_mark: "accepts (wr_conn s) ty topic \<Longrightarrow>
    wake_step s (s\<lparr>wr_conn := mark_pending ty topic (wr_conn s), wr_marking := wr_marking s + 1\<rparr>)"
| ws_wake: "0 < wr_marking s \<Longrightarrow>
    wake_step s (s\<lparr>wr_conn := mark_wake (wr_conn s), wr_marking := wr_marking s - 1\<rparr>)"
| ws_receive: "\<not> wr_busy s \<Longrightarrow> cn_wake (wr_conn s) \<Longrightarrow>
    wake_step s (s\<lparr>wr_conn := (wr_conn s)\<lparr>cn_wake := False\<rparr>, wr_busy := True\<rparr>)"
| ws_take: "wr_busy s \<Longrightarrow> wake_step s (s\<lparr>wr_conn := snd (TakePending (wr_conn s)), wr_busy := False\<rparr>)"
| ws_tune: "wake_step s (s\<lparr>wr_conn := Tune station (wr_conn s)\<rparr>)"
| ws_end: "wake_step s (s\<lparr>wr_conn := end_conn (wr_conn s)\<rparr>)"

inductive_cases wake_stepE: "wake_step s t"

definition wake_ok :: "wake_state \<Rightarrow> bool" where
  "wake_ok s \<longleftrightarrow> (any_pending (cn_pending (wr_conn s)) \<longrightarrow>
     cn_wake (wr_conn s) \<or> wr_busy s \<or> 0 < wr_marking s)"

definition wake_start :: "wake_state \<Rightarrow> bool" where
  "wake_start s \<longleftrightarrow> (\<exists>u sid topics. s = \<lparr>wr_conn = new_conn u sid topics, wr_busy = False, wr_marking = 0\<rparr>)"

lemma any_no_pending [simp]: "\<not> any_pending no_pending"
  by (simp add: any_pending_def no_pending_def)

lemma wake_step_ok: "wake_step s t \<Longrightarrow> wake_ok s \<Longrightarrow> wake_ok t"
  by (erule wake_stepE)
    (auto simp: wake_ok_def mark_pending_def mark_wake_def TakePending_def Let_def Tune_def end_conn_def)

interpretation waking: transition_system wake_start wake_step wake_ok
  by (unfold_locales; (erule (1) wake_step_ok | auto simp: wake_start_def wake_ok_def new_conn_def Let_def))

text \<open>C25. No wakeup is lost: in every interleaving of markers (which set their flag and wake the
  writer in two separate steps) with the writer's receive and take, whenever frames wait on a
  connection either a wakeup is in its channel, or its writer has one in hand and is about to
  take the frames, or a marker is about to send one.\<close>

theorem no_lost_wakeup:
  assumes "wake_start s" "wake_step\<^sup>*\<^sup>* s t" "fst (TakePending (wr_conn t)) \<noteq> []"
  shows "cn_wake (wr_conn t) \<or> wr_busy t \<or> 0 < wr_marking t"
proof -
  have "wake_ok t" using assms(1,2) by (rule waking.inv_reachable)
  moreover have "any_pending (cn_pending (wr_conn t))"
    using assms(3) by (auto simp: TakePending_def Let_def any_pending_def split: if_splits)
  ultimately show ?thesis by (simp add: wake_ok_def)
qed

lemma no_lost_wakeup_witness:
  "let c = new_conn ''u'' '''' []; s = \<lparr>wr_conn = c, wr_busy = False, wr_marking = 0\<rparr>;
       t = s\<lparr>wr_conn := mark_pending TypeInvalidate TopicUser c, wr_marking := 1\<rparr>
   in wake_step\<^sup>*\<^sup>* s t \<and> (cn_wake (wr_conn t) \<or> wr_busy t \<or> 0 < wr_marking t)"
proof -
  let ?c = "new_conn ''u'' '''' []"
  let ?s = "\<lparr>wr_conn = ?c, wr_busy = False, wr_marking = 0\<rparr>"
  let ?t = "?s\<lparr>wr_conn := mark_pending TypeInvalidate TopicUser ?c, wr_marking := 1\<rparr>"
  have "wake_step ?s ?t"
    using ws_mark [of ?s TypeInvalidate TopicUser] by (simp add: accepts_def wants_def new_conn_def Let_def)
  then have st: "wake_step\<^sup>*\<^sup>* ?s ?t" by blast
  have "cn_wake (wr_conn ?t) \<or> wr_busy ?t \<or> 0 < wr_marking ?t"
    by (rule no_lost_wakeup [OF _ st]) (auto simp: wake_start_def TakePending_def Let_def mark_pending_def
        set_flag_def new_conn_def no_pending_def)
  with st show ?thesis by (simp add: Let_def)
qed

section \<open>A tick delivers every hint\<close>

lemma fold_on_conn:
  assumes "distinct ks"
  shows "hb_obj (fold (on_conn f) ks h) k = (if k \<in> set ks then map_option f (hb_obj h k) else hb_obj h k)"
    "hb_conns (fold (on_conn f) ks h) = hb_conns h" "hb_radioDirty (fold (on_conn f) ks h) = hb_radioDirty h"
  using assms by (induction ks arbitrary: h) (auto simp: on_conn_def)

lemma flush_conn_marks:
  "flush_conn catalog users stations c = marks
     ((if catalog then [(TypeInvalidate, TopicCatalog)] else []) @
      (if cn_userID c \<in> set users then [(TypeInvalidate, TopicUser)] else []) @
      (if stations \<noteq> [] \<and> tunedTo stations c then [(TypeInvalidate, TopicRadio)] else [])) c"
proof -
  have id: "cn_userID (Mark ty t d) = cn_userID d" "tunedTo ss (Mark ty t d) = tunedTo ss d" for ty t d ss
    by (simp_all add: Mark_def mark_wake_def mark_pending_def tunedTo_def)
  show ?thesis by (simp add: flush_conn_def Let_def marks_def id)
qed

text \<open>A coalescing tick delivers every hint it has and only to whom it concerns: on each registered
  connection it adds a catalog invalidation when the catalog was hinted, a user invalidation
  when the connection's own user was, and a radio one when a station woke that the connection is
  tuned to (any station, when it never tuned) - each only if the connection subscribed to the
  topic - and leaves every other flag as it was; the hints are then spent, and a connection that
  has anything pending new has a wakeup in its channel.\<close>

theorem tick_delivers_hints:
  assumes "distinct (hb_conns h)" "k \<in> set (hb_conns h)" "hb_obj h k = Some c"
    and "run_coalesced (r, h) = (r', h')"
  shows "\<exists>c'. hb_obj h' k = Some c' \<and>
    (pd_catalog (cn_pending c') \<longleftrightarrow> pd_catalog (cn_pending c) \<or> (rh_catalogDirty r \<and> wants c TopicCatalog)) \<and>
    (pd_user (cn_pending c') \<longleftrightarrow> pd_user (cn_pending c) \<or> (cn_userID c \<in> set (rh_dirtyUsers r) \<and> wants c TopicUser)) \<and>
    (pd_radio (cn_pending c') \<longleftrightarrow> pd_radio (cn_pending c) \<or>
       (\<exists>ss. hb_radioDirty h = Some ss \<and> ss \<noteq> [] \<and> (\<not> cn_tuned c \<or> (cn_station c \<noteq> '''' \<and> cn_station c \<in> set ss)) \<and>
          wants c TopicRadio)) \<and>
    pd_player (cn_pending c') = pd_player (cn_pending c) \<and> pd_resync (cn_pending c') = pd_resync (cn_pending c) \<and>
    pd_resyncCatalog (cn_pending c') = pd_resyncCatalog (cn_pending c) \<and>
    (cn_pending c' \<noteq> cn_pending c \<longrightarrow> cn_wake c') \<and>
    \<not> rh_catalogDirty r' \<and> rh_dirtyUsers r' = [] \<and> hb_radioDirty h' = None"
proof -
  define ss where "ss = (case hb_radioDirty h of None \<Rightarrow> [] | Some ss \<Rightarrow> ss)"
  let ?h1 = "h\<lparr>hb_radioDirty := None\<rparr>"
  have tr: "takeRadio h = (ss, ?h1)" by (simp add: takeRadio_def ss_def)
  have ss: "(\<exists>xs. hb_radioDirty h = Some xs \<and> xs \<noteq> [] \<and> P xs) \<longleftrightarrow> ss \<noteq> [] \<and> P ss" for P
    by (auto simp: ss_def split: option.splits)
  show ?thesis
  proof (cases "\<not> rh_catalogDirty r \<and> rh_dirtyUsers r = [] \<and> ss = []")
    case True
    with assms(4) tr have "r' = r" "h' = ?h1" by (auto simp: run_coalesced_def)
    with True assms(3) show ?thesis by (simp add: ss)
  next
    case False
    with assms(4) tr have h': "h' = flush (rh_catalogDirty r) (rh_dirtyUsers r) ss ?h1"
      and r': "r' = \<lparr>rh_catalogDirty = False, rh_dirtyUsers = []\<rparr>"
      by (auto simp: run_coalesced_def)
    let ?c' = "flush_conn (rh_catalogDirty r) (rh_dirtyUsers r) ss c"
    have obj: "hb_obj h' k = Some ?c'" "hb_radioDirty h' = None"
      using assms(1-3) unfolding h' flush_def by (simp_all add: fold_on_conn)
    show ?thesis
      unfolding ss
      by (intro exI [of _ ?c'], simp add: obj r' flush_conn_marks marks_def)
        (auto simp: Mark_def mark_wake_def mark_pending_def set_flag_def accepts_def wants_def tunedTo_def)
  qed
qed

lemma tick_delivers_hints_witness:
  "\<exists>c'. hb_obj (snd (run_coalesced (run_user ''u'' \<lparr>rh_catalogDirty = False, rh_dirtyUsers = []\<rparr>,
      Register 2 ''v'' '''' [] (Register 1 ''u'' '''' [] new_hub)))) 2 = Some c' \<and> \<not> pd_user (cn_pending c')"
proof -
  let ?h = "Register 2 ''v'' '''' [] (Register 1 ''u'' '''' [] new_hub)"
  let ?r = "run_user ''u'' \<lparr>rh_catalogDirty = False, rh_dirtyUsers = []\<rparr>"
  obtain r' h' where t: "run_coalesced (?r, ?h) = (r', h')" by fastforce
  have "hb_obj ?h 2 = Some (new_conn ''v'' '''' [])" by (simp add: Register_def)
  moreover have "2 \<in> set (hb_conns ?h)" "distinct (hb_conns ?h)" by (simp_all add: Register_def new_hub_def)
  ultimately obtain c' where "hb_obj h' 2 = Some c'"
    "pd_user (cn_pending c') \<longleftrightarrow> pd_user (cn_pending (new_conn ''v'' '''' [])) \<or>
      (cn_userID (new_conn ''v'' '''' []) \<in> set (rh_dirtyUsers ?r) \<and> wants (new_conn ''v'' '''' []) TopicUser)"
    using tick_delivers_hints [OF _ _ _ t] by blast
  with t show ?thesis by (simp add: new_conn_def Let_def no_pending_def run_user_def)
qed

end
