(* ===== verification/Limiter.thy ===== *)
theory Limiter
  imports Prelude
begin

text \<open>
  The login rate limiter of \<^verbatim>\<open>server/internal/auth/ratelimit.go\<close>: failures per key within a
  window, and a lockout that doubles per further failure.  The Go map is an association list
  with distinct keys, in the order the runtime iterates it; \<open>now\<close> is the clock read by the
  operation.
\<close>

section \<open>Policy and state\<close>

definition freeAttempts :: nat where "freeAttempts = 5"
definition failureWindow :: duration where "failureWindow = 15 * minute"
definition baseBackoff :: duration where "baseBackoff = 30 * second"
definition maxBackoff :: duration where "maxBackoff = 15 * minute"
definition limiterCap :: nat where "limiterCap = 65536"

record failure_state =
  fs_failures :: nat
  fs_windowStart :: time
  fs_lockedUntil :: time

type_synonym limiter = "(string \<times> failure_state) list"

definition NewRateLimiter :: limiter where
  "NewRateLimiter = []"

section \<open>Operations\<close>

definition lapsed :: "time \<Rightarrow> failure_state \<Rightarrow> bool" where
  "lapsed now st \<longleftrightarrow> time_sub now (fs_windowStart st) > failureWindow \<and> now > fs_lockedUntil st"

definition Allowed :: "time \<Rightarrow> string \<Rightarrow> limiter \<Rightarrow> bool \<times> limiter" where
  "Allowed now key l =
     (case map_of l key of
        None \<Rightarrow> (True, l)
      | Some st \<Rightarrow>
          if lapsed now st then (True, AList.delete key l)
          else (\<not> now < fs_lockedUntil st \<or> fs_lockedUntil st = zero_time, l))"

definition sweepLocked :: "time \<Rightarrow> limiter \<Rightarrow> limiter" where
  "sweepLocked now l = filter (\<lambda>(k, st). \<not> lapsed now st) l"

text \<open>The backoff after the failures counted so far.\<close>

definition backoff_after :: "nat \<Rightarrow> duration" where
  "backoff_after failures =
     (let extra = failures - freeAttempts in
      if extra < 10 \<and> baseBackoff * 2 ^ extra < maxBackoff then baseBackoff * 2 ^ extra else maxBackoff)"

definition count_failure :: "time \<Rightarrow> failure_state \<Rightarrow> failure_state" where
  "count_failure now st =
     (let st1 = st\<lparr>fs_failures := fs_failures st + 1\<rparr> in
      if fs_failures st1 \<ge> freeAttempts
      then st1\<lparr>fs_lockedUntil := now + backoff_after (fs_failures st1)\<rparr> else st1)"

definition fresh_window :: "time \<Rightarrow> failure_state" where
  "fresh_window now = \<lparr>fs_failures = 0, fs_windowStart = now, fs_lockedUntil = zero_time\<rparr>"

definition Failure :: "time \<Rightarrow> string \<Rightarrow> limiter \<Rightarrow> limiter" where
  "Failure now key l =
     (case map_of l key of
        Some st \<Rightarrow>
          AList.update key
            (count_failure now
              (if time_sub now (fs_windowStart st) > failureWindow then fresh_window now else st)) l
      | None \<Rightarrow>
          let l1 = (if length l \<ge> limiterCap then sweepLocked now l else l)
          in if length l \<ge> limiterCap \<and> length l1 \<ge> limiterCap then l1
             else AList.update key (count_failure now (fresh_window now)) l1)"

definition Success :: "string \<Rightarrow> limiter \<Rightarrow> limiter" where
  "Success key l = AList.delete key l"

section \<open>Bounded guessing\<close>

text \<open>
  Attempts as the handlers of api/handlers.go, api/oidc.go and api/signup.go make them: a key is
  asked for first, and the verdict of the attempt is recorded after the password was tried, at a
  later time.  Attempts on different keys interleave freely; a key is not asked for again while an
  attempt on it is under way; the clock does not run backwards.  An attempt may also end without a
  verdict (the other key of a login is locked, the store fails).

  \<open>gr_tries\<close> is the history: the recorded failures, newest first, those of a key forgotten when it
  succeeds.  \<open>gr_missed\<close> are the keys a failure of which came when 65536 other keys were tracked,
  none of them lapsed: the limiter fails open for those.
\<close>

record guess_run =
  gr_now :: time
  gr_table :: limiter
  gr_pending :: "string set"
  gr_tries :: "(time \<times> string) list"
  gr_missed :: "string set"

definition no_room :: "time \<Rightarrow> string \<Rightarrow> limiter \<Rightarrow> bool" where
  "no_room t key l \<longleftrightarrow> map_of l key = None \<and> length (sweepLocked t l) \<ge> 65536"

inductive limiter_step :: "guess_run \<Rightarrow> guess_run \<Rightarrow> bool" where
  asked: "gr_now r \<le> t \<Longrightarrow> key \<notin> gr_pending r \<Longrightarrow> Allowed t key (gr_table r) = (True, l') \<Longrightarrow>
    limiter_step r (r\<lparr>gr_now := t, gr_table := l', gr_pending := insert key (gr_pending r)\<rparr>)"
| refused: "gr_now r \<le> t \<Longrightarrow> key \<notin> gr_pending r \<Longrightarrow> Allowed t key (gr_table r) = (False, l') \<Longrightarrow>
    limiter_step r (r\<lparr>gr_now := t, gr_table := l'\<rparr>)"
| failed: "gr_now r \<le> t \<Longrightarrow> key \<in> gr_pending r \<Longrightarrow>
    limiter_step r (r\<lparr>gr_now := t, gr_table := Failure t key (gr_table r),
      gr_pending := gr_pending r - {key}, gr_tries := (t, key) # gr_tries r,
      gr_missed := (if no_room t key (gr_table r) then insert key (gr_missed r) else gr_missed r)\<rparr>)"
| succeeded: "gr_now r \<le> t \<Longrightarrow> key \<in> gr_pending r \<Longrightarrow>
    limiter_step r (r\<lparr>gr_now := t, gr_table := Success key (gr_table r),
      gr_pending := gr_pending r - {key}, gr_tries := filter (\<lambda>(u, k). k \<noteq> key) (gr_tries r),
      gr_missed := gr_missed r - {key}\<rparr>)"
| dropped: "limiter_step r (r\<lparr>gr_pending := gr_pending r - {key}\<rparr>)"

definition tries_of :: "string \<Rightarrow> guess_run \<Rightarrow> time list" where
  "tries_of key r = map fst (filter (\<lambda>(u, k). k = key) (gr_tries r))"

text \<open>When the failures of a window are 5, 6, 7, 8 or 9, the lock ends this long after its start.\<close>

definition lock_reach :: "nat \<Rightarrow> duration" where
  "lock_reach f = (if f < 5 then 0 else baseBackoff * (2 ^ (f - 4) - 1))"

definition state_ok :: "time \<Rightarrow> failure_state \<Rightarrow> bool" where
  "state_ok t st \<longleftrightarrow> 1 \<le> fs_failures st \<and> fs_failures st \<le> 9 \<and> fs_windowStart st \<le> t \<and>
     (fs_failures st < 5 \<longrightarrow> fs_lockedUntil st = zero_time) \<and>
     (5 \<le> fs_failures st \<longrightarrow> fs_windowStart st + lock_reach (fs_failures st) \<le> fs_lockedUntil st)"

definition table_ok :: "time \<Rightarrow> limiter \<Rightarrow> bool" where
  "table_ok t l \<longleftrightarrow> zero_time < t \<and> distinct (map fst l) \<and> length l \<le> limiterCap \<and>
     (\<forall>(k, st) \<in> set l. state_ok t st)"

lemma reach_values:
  "lock_reach 5 = 30 * second" "lock_reach 6 = 90 * second" "lock_reach 7 = 210 * second"
  "lock_reach 8 = 450 * second" "lock_reach 9 = 930 * second"
  by (simp_all add: lock_reach_def baseBackoff_def)

lemma backoff_values:
  "backoff_after 5 = 30 * second" "backoff_after 6 = 60 * second" "backoff_after 7 = 120 * second"
  "backoff_after 8 = 240 * second" "backoff_after 9 = 480 * second"
  by (simp_all add: backoff_after_def freeAttempts_def baseBackoff_def maxBackoff_def second_def minute_def)

lemma window_sub: "time_sub t u > failureWindow \<longleftrightarrow> t - u > failureWindow"
  by (rule time_sub_gt_iff) (simp_all add: failureWindow_def minute_def min_duration_def max_duration_def)

lemma window_over: "time_sub t u > failureWindow \<longleftrightarrow> u + 15 * minute < t"
  unfolding window_sub by (auto simp: failureWindow_def)

text \<open>A guess the limiter allows, in a window that still runs, keeps the lock ahead of the count.\<close>

lemma count_state_ok:
  assumes ok: "state_ok t st" and le: "t \<le> t'" and in_window: "t' - fs_windowStart st \<le> failureWindow"
    and free: "fs_lockedUntil st \<le> t' \<or> fs_lockedUntil st = zero_time" and clock: "zero_time < t'"
  shows "state_ok t' (count_failure t' st)"
proof -
  let ?f = "fs_failures st"
  have sec: "0 < second" by (simp add: second_def)
  have lock: "fs_windowStart st + lock_reach ?f \<le> t'" if "5 \<le> ?f"
  proof -
    have "fs_windowStart st + lock_reach ?f \<le> fs_lockedUntil st" using ok that by (simp add: state_ok_def)
    with free clock show ?thesis by auto
  qed
  have "?f \<noteq> 9"
  proof
    assume "?f = 9"
    with lock in_window sec show False by (simp add: reach_values failureWindow_def minute_def second_def)
  qed
  moreover have "1 \<le> ?f" "?f \<le> 9" using ok by (auto simp: state_ok_def)
  ultimately consider "?f = 1" | "?f = 2" | "?f = 3" | "?f = 4" | "?f = 5" | "?f = 6" | "?f = 7" | "?f = 8"
    by linarith
  then show ?thesis
    using ok le lock
    by cases (auto simp: count_failure_def state_ok_def freeAttempts_def reach_values backoff_values)
qed

lemma fresh_state_ok: "state_ok t (count_failure t (fresh_window t))"
  by (simp add: count_failure_def fresh_window_def freeAttempts_def state_ok_def)

lemma state_ok_mono: "state_ok t st \<Longrightarrow> t \<le> t' \<Longrightarrow> state_ok t' st"
  by (auto simp: state_ok_def)

lemma length_update: "length (AList.update k v l) = (if k \<in> fst ` set l then length l else length l + 1)"
  by (induction l) auto

lemma delete_ok: "table_ok t l \<Longrightarrow> table_ok t (AList.delete k l)"
  using length_delete_le [of k l] by (auto simp: table_ok_def distinct_delete dest!: subsetD [OF set_delete_subset])

lemma table_ok_mono: "table_ok t l \<Longrightarrow> t \<le> t' \<Longrightarrow> table_ok t' l"
  by (auto simp: table_ok_def intro: state_ok_mono)

lemma update_ok:
  assumes "table_ok t l" "state_ok t st" "length (AList.update k st l) \<le> limiterCap"
  shows "table_ok t (AList.update k st l)"
  using assms by (fastforce simp: table_ok_def distinct_update dest: subsetD [OF set_update_subset])

lemma table_ok_state: "table_ok t l \<Longrightarrow> map_of l k = Some st \<Longrightarrow> state_ok t st"
  by (auto simp: table_ok_def dest: map_of_SomeD)

text \<open>The lock of a key an attempt is under way on has run out.\<close>

definition unlocked :: "time \<Rightarrow> failure_state \<Rightarrow> bool" where
  "unlocked t st \<longleftrightarrow> fs_lockedUntil st \<le> t \<or> fs_lockedUntil st = zero_time"

lemma Allowed_table:
  assumes "Allowed t key l = (b, l')"
  shows "table_ok t l \<Longrightarrow> table_ok t l'"
    and "map_of l' k = map_of l k \<or> map_of l' k = None \<and> (\<exists>st. map_of l k = Some st \<and> lapsed t st)"
    and "b \<Longrightarrow> map_of l' key = Some st \<Longrightarrow> unlocked t st"
  using assms by (auto simp: Allowed_def delete_ok delete_conv' unlocked_def split: option.splits if_splits)

lemma sweepLocked_table:
  assumes "table_ok t l"
  shows "table_ok t (sweepLocked t l)"
    and "map_of (sweepLocked t l) k = map_of l k
      \<or> map_of (sweepLocked t l) k = None \<and> (\<exists>st. map_of l k = Some st \<and> lapsed t st)"
proof -
  show "table_ok t (sweepLocked t l)"
    using assms by (auto simp: table_ok_def sweepLocked_def distinct_map_filter intro: le_trans [OF length_filter_le])
  have d: "distinct (map fst l)" using assms by (simp add: table_ok_def)
  then show "map_of (sweepLocked t l) k = map_of l k
      \<or> map_of (sweepLocked t l) k = None \<and> (\<exists>st. map_of l k = Some st \<and> lapsed t st)"
    unfolding sweepLocked_def
  proof (induction l)
    case Nil
    then show ?case by simp
  next
    case (Cons e l)
    obtain k' st where e: "e = (k', st)" by (cases e)
    show ?case
    proof (cases "k' = k \<and> lapsed t st")
      case True
      with Cons.prems e have "k \<notin> fst ` set l" by simp
      then have "map_of (filter (\<lambda>(k, st). \<not> lapsed t st) l) k = None"
        by (auto simp: map_of_eq_None_iff)
      with True e show ?thesis by simp
    next
      case False
      with Cons e show ?thesis by auto
    qed
  qed
qed

text \<open>A recorded failure: the table it leaves, the key's own entry and the other keys'.\<close>

lemma Failure_table:
  assumes ok: "table_ok t l" and free: "\<And>st. map_of l key = Some st \<Longrightarrow> unlocked t st"
  shows "table_ok t (Failure t key l)"
    and "map_of (Failure t key l) key =
      (case map_of l key of
         Some st \<Rightarrow> Some (count_failure t
           (if time_sub t (fs_windowStart st) > failureWindow then fresh_window t else st))
       | None \<Rightarrow> if no_room t key l then None else Some (count_failure t (fresh_window t)))"
    and "k \<noteq> key \<Longrightarrow> map_of (Failure t key l) k = map_of l k
      \<or> map_of (Failure t key l) k = None \<and> (\<exists>st. map_of l k = Some st \<and> lapsed t st)"
proof -
  note swept = sweepLocked_table [OF ok]
  have le: "length (sweepLocked t l) \<le> length l" by (simp add: sweepLocked_def)
  have "table_ok t (Failure t key l) \<and> map_of (Failure t key l) key =
      (case map_of l key of
         Some st \<Rightarrow> Some (count_failure t
           (if time_sub t (fs_windowStart st) > failureWindow then fresh_window t else st))
       | None \<Rightarrow> if no_room t key l then None else Some (count_failure t (fresh_window t)))
    \<and> (k \<noteq> key \<longrightarrow> map_of (Failure t key l) k = map_of l k
      \<or> map_of (Failure t key l) k = None \<and> (\<exists>st. map_of l k = Some st \<and> lapsed t st))"
  proof (cases "map_of l key")
    case (Some st)
    have "state_ok t (count_failure t (if time_sub t (fs_windowStart st) > failureWindow then fresh_window t else st))"
      using count_state_ok [OF table_ok_state [OF ok Some] order_refl] free [OF Some] ok
      by (auto simp: fresh_state_ok window_sub unlocked_def table_ok_def)
    moreover have "length (AList.update key v l) \<le> limiterCap" for v
      using ok map_of_SomeD [OF Some] by (force simp: length_update table_ok_def)
    ultimately show ?thesis using update_ok [OF ok] Some by (simp add: Failure_def update_conv')
  next
    case None
    define l1 where "l1 = (if length l \<ge> limiterCap then sweepLocked t l else l)"
    have l1: "table_ok t l1" using ok swept(1) by (simp add: l1_def)
    have room: "no_room t key l \<longleftrightarrow> length l \<ge> limiterCap \<and> length l1 \<ge> limiterCap"
      using None le by (auto simp: no_room_def l1_def limiterCap_def)
    have F: "Failure t key l = (if no_room t key l then l1 else AList.update key (count_failure t (fresh_window t)) l1)"
      using None by (simp add: Failure_def Let_def l1_def room)
    have own: "map_of l1 key = None" using None swept(2) [of key] by (auto simp: l1_def)
    have "table_ok t (AList.update key (count_failure t (fresh_window t)) l1)" if "\<not> no_room t key l"
      using that room ok by (intro update_ok [OF l1 fresh_state_ok])
        (auto simp: length_update l1_def table_ok_def)
    moreover have "map_of l1 k = map_of l k \<or> map_of l1 k = None \<and> (\<exists>st. map_of l k = Some st \<and> lapsed t st)"
      using swept(2) [of k] by (auto simp: l1_def)
    ultimately show ?thesis using None own l1 by (auto simp: F update_conv')
  qed
  then show "table_ok t (Failure t key l)"
    and "map_of (Failure t key l) key =
      (case map_of l key of
         Some st \<Rightarrow> Some (count_failure t
           (if time_sub t (fs_windowStart st) > failureWindow then fresh_window t else st))
       | None \<Rightarrow> if no_room t key l then None else Some (count_failure t (fresh_window t)))"
    and "k \<noteq> key \<Longrightarrow> map_of (Failure t key l) k = map_of l k
      \<or> map_of (Failure t key l) k = None \<and> (\<exists>st. map_of l k = Some st \<and> lapsed t st)"
    by blast+
qed

subsection \<open>The windows of a key\<close>

text \<open>
  The tries of a key, newest first, fall into windows of at most nine, each opened by its oldest
  try and more than fifteen minutes after the one before was opened.
\<close>

definition in_windows :: "time list list \<Rightarrow> bool" where
  "in_windows ws \<longleftrightarrow> (\<forall>w \<in> set ws. w \<noteq> [] \<and> length w \<le> 9)
    \<and> sorted_wrt (\<lambda>w w'. List.last w' + 15 * minute < List.last w) ws"

definition tracked :: "time \<Rightarrow> failure_state option \<Rightarrow> time list list \<Rightarrow> bool" where
  "tracked t s ws =
    (case s of
       None \<Rightarrow> \<forall>w \<in> set ws. List.last w + 15 * minute < t
     | Some st \<Rightarrow> ws \<noteq> [] \<and> length (hd ws) = fs_failures st \<and> List.last (hd ws) = fs_windowStart st)"

definition key_ok :: "time \<Rightarrow> failure_state option \<Rightarrow> time list \<Rightarrow> bool" where
  "key_ok t s ts \<longleftrightarrow> sorted_wrt (\<ge>) ts \<and> (\<forall>u \<in> set ts. u \<le> t)
    \<and> (\<exists>ws. ts = concat ws \<and> in_windows ws \<and> tracked t s ws)"

lemma key_ok_later:
  assumes "key_ok t s ts" "t \<le> t'" "s' = s \<or> s' = None \<and> (\<exists>st. s = Some st \<and> lapsed t' st)"
  shows "key_ok t' s' ts"
proof -
  obtain ws where ws: "ts = concat ws" "in_windows ws" "tracked t s ws" and ts: "sorted_wrt (\<ge>) ts" "\<forall>u \<in> set ts. u \<le> t"
    using assms(1) by (auto simp: key_ok_def)
  have "tracked t' s' ws"
  proof (cases "s' = s")
    case True
    with ws(3) assms(2) show ?thesis by (force simp: tracked_def split: option.splits)
  next
    case False
    with assms(3) obtain st where st: "s' = None" "s = Some st" "lapsed t' st" by blast
    with ws(3) obtain w rest where w: "ws = w # rest" "List.last w = fs_windowStart st"
      by (cases ws) (auto simp: tracked_def)
    moreover have "fs_windowStart st + 15 * minute < t'"
      using st(3) by (simp add: lapsed_def window_over)
    ultimately show ?thesis using st(1) ws(2)
      by (auto simp: tracked_def in_windows_def minute_def)
  qed
  moreover have "\<forall>u \<in> set ts. u \<le> t'" using ts(2) assms(2) by force
  ultimately show ?thesis using ws(1,2) ts(1) unfolding key_ok_def by blast
qed

lemma key_ok_failure:
  assumes ok: "key_ok t s ts" "t \<le> t'"
    and nine: "\<And>st. s = Some st \<Longrightarrow> state_ok t' (count_failure t' st) \<or> time_sub t' (fs_windowStart st) > failureWindow"
  shows "key_ok t' (Some (case s of
         Some st \<Rightarrow> count_failure t' (if time_sub t' (fs_windowStart st) > failureWindow then fresh_window t' else st)
       | None \<Rightarrow> count_failure t' (fresh_window t'))) (t' # ts)"
proof -
  obtain ws where ws: "ts = concat ws" "in_windows ws" "tracked t s ws" and ts: "sorted_wrt (\<ge>) ts" "\<forall>u \<in> set ts. u \<le> t"
    using ok(1) by (auto simp: key_ok_def)
  have order: "sorted_wrt (\<ge>) (t' # ts)" "\<forall>u \<in> set (t' # ts). u \<le> t'" using ts ok(2) by auto
  have opened: "in_windows ([t'] # ws) \<and> tracked t' (Some (count_failure t' (fresh_window t'))) ([t'] # ws)"
    if "\<forall>w \<in> set ws. List.last w + 15 * minute < t'"
    using that ws(2) by (auto simp: in_windows_def tracked_def count_failure_def fresh_window_def Let_def)
  show ?thesis
  proof (cases s)
    case None
    with ws(3) ok(2) have "\<forall>w \<in> set ws. List.last w + 15 * minute < t'" by (force simp: tracked_def)
    with opened order ws(1) None show ?thesis unfolding key_ok_def by (intro conjI exI [of _ "[t'] # ws"]) auto
  next
    case (Some st)
    with ws(3) obtain w rest where w: "ws = w # rest" "length w = fs_failures st" "List.last w = fs_windowStart st"
      by (cases ws) (auto simp: tracked_def)
    show ?thesis
    proof (cases "time_sub t' (fs_windowStart st) > failureWindow")
      case True
      then have "fs_windowStart st + 15 * minute < t'" by (simp only: window_over)
      with w ws(2) have "\<forall>w \<in> set ws. List.last w + 15 * minute < t'"
        by (auto simp: in_windows_def minute_def)
      with opened order ws(1) Some True show ?thesis unfolding key_ok_def by (intro conjI exI [of _ "[t'] # ws"]) auto
    next
      case False
      with nine [OF Some] have "Suc (fs_failures st) \<le> 9"
        by (auto simp: state_ok_def count_failure_def Let_def split: if_splits)
      with w ws(2) have "in_windows ((t' # w) # rest)" by (auto simp: in_windows_def)
      moreover have "tracked t' (Some (count_failure t' st)) ((t' # w) # rest)"
        using w ws(2) by (auto simp: tracked_def count_failure_def Let_def in_windows_def)
      ultimately show ?thesis using order ws(1) w(1) Some False unfolding key_ok_def
        by (intro conjI exI [of _ "(t' # w) # rest"]) auto
    qed
  qed
qed

text \<open>Any fifteen minutes meet at most two windows.\<close>

lemma two_windows:
  assumes "in_windows ws" "sorted_wrt (\<ge>) (concat ws)"
  shows "length (filter (\<lambda>u. a \<le> u \<and> u \<le> a + 15 * minute) (concat ws)) \<le> 18"
  using assms
proof (induction ws)
  case Nil
  then show ?case by simp
next
  case (Cons w ws)
  let ?in = "\<lambda>u. a \<le> u \<and> u \<le> a + 15 * minute"
  show ?case
  proof (cases "\<exists>u \<in> set w. ?in u")
    case False
    then have "filter ?in w = []" by (auto simp: filter_empty_conv)
    with Cons show ?thesis by (auto simp: in_windows_def sorted_wrt_append)
  next
    case True
    then obtain u where u: "u \<in> set w" "?in u" by blast
    have nine: "length w \<le> 9" "w \<noteq> []" using Cons.prems(1) by (auto simp: in_windows_def)
    have small: "List.last w \<le> u"
    proof -
      have "sorted_wrt (\<ge>) w" using Cons.prems(2) by (simp add: sorted_wrt_append)
      then show ?thesis using u(1) nine(2)
        by (induction w) auto
    qed
    have two: "length (filter ?in (concat ws)) \<le> 9"
    proof (cases ws)
      case Nil
      then show ?thesis by simp
    next
      case (Cons v rest)
      have v: "length v \<le> 9" "v \<noteq> []" "List.last v + 15 * minute < List.last w"
        using \<open>in_windows (w # ws)\<close> Cons by (auto simp: in_windows_def)
      have "e \<le> List.last v" if "e \<in> set (concat rest)" for e
        using \<open>sorted_wrt (\<ge>) (concat (w # ws))\<close> that last_in_set [OF v(2)] Cons
        by (auto simp: sorted_wrt_append)
      with v(3) small u(2) have "filter ?in (concat rest) = []"
        by (force simp: filter_empty_conv simp del: set_concat)
      with v(1) Cons show ?thesis by (auto intro: le_trans [OF length_filter_le])
    qed
    have "length (filter ?in w) \<le> 9" using nine(1) by (meson length_filter_le le_trans)
    with two show ?thesis by simp
  qed
qed

subsection \<open>The invariant\<close>

definition limiter_ok :: "guess_run \<Rightarrow> bool" where
  "limiter_ok r \<longleftrightarrow> table_ok (gr_now r) (gr_table r)
    \<and> (\<forall>k \<in> gr_pending r. \<forall>st. map_of (gr_table r) k = Some st \<longrightarrow> unlocked (gr_now r) st)
    \<and> (\<forall>k. k \<notin> gr_missed r \<longrightarrow> key_ok (gr_now r) (map_of (gr_table r) k) (tries_of k r))"

definition limiter_start :: "guess_run \<Rightarrow> bool" where
  "limiter_start r \<longleftrightarrow> zero_time < gr_now r \<and> gr_table r = NewRateLimiter
    \<and> gr_pending r = {} \<and> gr_tries r = [] \<and> gr_missed r = {}"

lemma unlocked_later: "unlocked t st \<Longrightarrow> t \<le> t' \<Longrightarrow> unlocked t' st"
  by (auto simp: unlocked_def)

lemma Allowed_ok:
  assumes ok: "limiter_ok r" and t: "gr_now r \<le> t" and a: "Allowed t key (gr_table r) = (b, l')"
    and p: "p = gr_pending r \<or> b \<and> p = insert key (gr_pending r)"
  shows "limiter_ok (r\<lparr>gr_now := t, gr_table := l', gr_pending := p\<rparr>)"
proof -
  have "table_ok t (gr_table r)" using ok t by (auto simp: limiter_ok_def intro: table_ok_mono)
  note own = Allowed_table(1) [OF a this] Allowed_table(2) [OF a] Allowed_table(3) [OF a]
  have "unlocked t st" if "k \<in> p" "map_of l' k = Some st" for k st
  proof (cases "k \<in> gr_pending r")
    case True
    moreover from own(2) [of k] that(2) have "map_of (gr_table r) k = Some st" by auto
    ultimately show ?thesis using ok t unfolding limiter_ok_def by (blast intro: unlocked_later)
  next
    case False
    with p that have "b" "k = key" by auto
    with own(3) that(2) show ?thesis by blast
  qed
  moreover have "key_ok t (map_of l' k) (tries_of k r)" if "k \<notin> gr_missed r" for k
    using ok that own(2) [of k] t by (auto simp: limiter_ok_def intro: key_ok_later)
  ultimately show ?thesis using own(1) by (auto simp: limiter_ok_def tries_of_def)
qed

lemma limiter_step_ok: "limiter_step r r' \<Longrightarrow> limiter_ok r \<Longrightarrow> limiter_ok r'"
proof (induction rule: limiter_step.induct)
  case (asked r t key l')
  then show ?case by (intro Allowed_ok [OF asked(4,1,3)]) auto
next
  case (refused r t key l')
  have "limiter_ok (r\<lparr>gr_now := t, gr_table := l', gr_pending := gr_pending r\<rparr>)"
    by (rule Allowed_ok [OF refused(4,1,3)]) simp
  then show ?case by simp
next
  case (failed r t key)
  let ?l = "gr_table r"
  have now: "table_ok t ?l" using failed by (auto simp: limiter_ok_def intro: table_ok_mono)
  have free: "unlocked t st" if "map_of ?l k = Some st" "k \<in> gr_pending r" for k st
    using failed(1,3) that unfolding limiter_ok_def by (blast intro: unlocked_later)
  note F = Failure_table [OF now, where key = key, OF free [OF _ failed(2)]]
  have pending: "unlocked t st" if "map_of (Failure t key ?l) k = Some st" "k \<in> gr_pending r - {key}" for k st
  proof -
    from that F(3) [of k] have "map_of ?l k = Some st" by auto
    with free that(2) show ?thesis by blast
  qed
  have others: "key_ok t (map_of (Failure t key ?l) k) (tries_of k r)" if "k \<noteq> key" "k \<notin> gr_missed r" for k
    using failed(1,3) that F(3) [of k] by (auto simp: limiter_ok_def intro: key_ok_later)
  have own: "key_ok t (map_of (Failure t key ?l) key) (t # tries_of key r)"
    if "\<not> no_room t key ?l" "key \<notin> gr_missed r"
  proof -
    have "key_ok (gr_now r) (map_of ?l key) (tries_of key r)" using failed(3) that(2) by (simp add: limiter_ok_def)
    moreover have "state_ok t (count_failure t st) \<or> time_sub t (fs_windowStart st) > failureWindow"
      if "map_of ?l key = Some st" for st
      using count_state_ok [OF table_ok_state [OF now that] order_refl] free [OF that failed(2)] now
      by (auto simp: window_sub unlocked_def table_ok_def)
    ultimately show ?thesis
      using key_ok_failure [OF _ failed(1), of "map_of ?l key" "tries_of key r"] that(1) F(2)
      by (cases "map_of ?l key") simp_all
  qed
  from F(1) pending others own show ?case
    by (auto simp: limiter_ok_def tries_of_def)
next
  case (succeeded r t key)
  have now: "table_ok t (Success key (gr_table r))"
    using succeeded by (auto simp: limiter_ok_def Success_def intro: delete_ok table_ok_mono)
  have others: "key_ok t (map_of (Success key (gr_table r)) k) (tries_of k r)" if "k \<noteq> key" "k \<notin> gr_missed r" for k
    using succeeded that by (auto simp: limiter_ok_def Success_def delete_conv' intro: key_ok_later)
  have gone: "tries_of k (r\<lparr>gr_tries := filter (\<lambda>(u, k). k \<noteq> key) (gr_tries r)\<rparr>) =
      (if k = key then [] else tries_of k r)" for k
    by (auto simp: tries_of_def filter_empty_conv intro!: arg_cong [of _ _ "map fst"] filter_cong)
  have own: "key_ok t (map_of (Success key (gr_table r)) key) []"
    by (auto simp: key_ok_def in_windows_def tracked_def Success_def delete_conv' intro!: exI [of _ "[]"])
  have pending: "unlocked t st" if "map_of (Success key (gr_table r)) k = Some st" "k \<in> gr_pending r" for k st
  proof -
    from that(1) have "map_of (gr_table r) k = Some st" by (auto simp: Success_def delete_conv' split: if_splits)
    with succeeded(1,3) that(2) show ?thesis unfolding limiter_ok_def by (blast intro: unlocked_later)
  qed
  from now others own pending gone show ?case by (auto simp: limiter_ok_def tries_of_def)
next
  case (dropped r key)
  then show ?case by (auto simp: limiter_ok_def tries_of_def)
qed

lemma limiter_start_ok: "limiter_start r \<Longrightarrow> limiter_ok r"
  by (auto simp: limiter_start_def limiter_ok_def NewRateLimiter_def table_ok_def key_ok_def
      tries_of_def in_windows_def tracked_def intro!: exI [of _ "[]"])

interpretation guessing: transition_system limiter_start limiter_step limiter_ok
  by unfold_locales (auto intro: limiter_start_ok limiter_step_ok)

text \<open>C36. Guessing is bounded: however long attackers go on, over any number of keys and with
  attempts on different keys interleaved, the failures recorded for a key since its last success
  fall into windows of at most nine (five free ones and four more through the doubling lockouts),
  each opened more than fifteen minutes after the one before, so that no fifteen minutes ever hold
  more than eighteen; and the limiter never tracks more than its cap of 65536 keys.  Attempts on one
  key do not overlap, and the key is not one a failure of which found the table full: the limiter
  lets those go untracked.\<close>

theorem guesses_bounded:
  assumes "limiter_start r0" "limiter_step\<^sup>*\<^sup>* r0 r"
  shows "length (gr_table r) \<le> 65536
    \<and> (\<forall>key a. key \<notin> gr_missed r \<longrightarrow>
         length (filter (\<lambda>u. a \<le> u \<and> u \<le> a + 15 * minute) (tries_of key r)) \<le> 18
         \<and> (\<exists>ws. tries_of key r = concat ws \<and> in_windows ws))"
proof -
  have ok: "limiter_ok r" using assms by (rule guessing.inv_reachable)
  then have "length (gr_table r) \<le> 65536" by (simp add: limiter_ok_def table_ok_def limiterCap_def)
  moreover have "length (filter (\<lambda>u. a \<le> u \<and> u \<le> a + 15 * minute) (tries_of key r)) \<le> 18
      \<and> (\<exists>ws. tries_of key r = concat ws \<and> in_windows ws)" if "key \<notin> gr_missed r" for key a
    using ok that two_windows unfolding limiter_ok_def key_ok_def by metis
  ultimately show ?thesis by blast
qed

definition quiet_run :: guess_run where
  "quiet_run = \<lparr>gr_now = 5, gr_table = NewRateLimiter, gr_pending = {}, gr_tries = [], gr_missed = {}\<rparr>"

text \<open>Two keys of one login, asked for before either verdict is in.\<close>

lemma quiet_run_tries:
  "\<exists>r. limiter_step\<^sup>*\<^sup>* quiet_run r \<and> gr_tries r = [(9, ''u''), (8, ''ip'')] \<and> gr_missed r = {}"
proof -
  let ?r1 = "quiet_run\<lparr>gr_now := 7, gr_pending := {''ip''}\<rparr>"
  let ?r2 = "quiet_run\<lparr>gr_now := 7, gr_pending := {''u'', ''ip''}\<rparr>"
  have "limiter_step quiet_run ?r1"
    using limiter_step.asked [of quiet_run 7 "''ip''" NewRateLimiter]
    by (simp add: quiet_run_def Allowed_def NewRateLimiter_def)
  moreover have "limiter_step ?r1 ?r2"
    using limiter_step.asked [of ?r1 7 "''u''" NewRateLimiter]
    by (simp add: quiet_run_def Allowed_def NewRateLimiter_def)
  ultimately have run: "limiter_step\<^sup>*\<^sup>* quiet_run ?r2" by (meson converse_rtranclp_into_rtranclp rtranclp.rtrancl_refl)
  define r3 where "r3 = ?r2\<lparr>gr_now := 8, gr_table := Failure 8 ''ip'' (gr_table ?r2), gr_pending := gr_pending ?r2 - {''ip''},
      gr_tries := (8, ''ip'') # gr_tries ?r2,
      gr_missed := (if no_room 8 ''ip'' (gr_table ?r2) then insert ''ip'' (gr_missed ?r2) else gr_missed ?r2)\<rparr>"
  have "limiter_step ?r2 r3"
    unfolding r3_def by (rule limiter_step.failed) simp_all
  with run have run: "limiter_step\<^sup>*\<^sup>* quiet_run r3" by (rule rtranclp.rtrancl_into_rtrancl)
  define r4 where "r4 = r3\<lparr>gr_now := 9, gr_table := Failure 9 ''u'' (gr_table r3), gr_pending := gr_pending r3 - {''u''},
      gr_tries := (9, ''u'') # gr_tries r3,
      gr_missed := (if no_room 9 ''u'' (gr_table r3) then insert ''u'' (gr_missed r3) else gr_missed r3)\<rparr>"
  have "limiter_step r3 r4"
    unfolding r4_def by (rule limiter_step.failed) (simp_all add: r3_def)
  with run have "limiter_step\<^sup>*\<^sup>* quiet_run r4" by (rule rtranclp.rtrancl_into_rtrancl)
  moreover have "gr_tries r4 = [(9, ''u''), (8, ''ip'')]" "gr_missed r4 = {}"
    by (simp_all add: r4_def r3_def quiet_run_def no_room_def sweepLocked_def NewRateLimiter_def
        Failure_def Let_def limiterCap_def)
  ultimately show ?thesis by blast
qed

lemma guesses_bounded_witness:
  "\<exists>r. gr_tries r = [(9, ''u''), (8, ''ip'')] \<and> length (gr_table r) \<le> 65536
     \<and> length (filter (\<lambda>u. 8 \<le> u \<and> u \<le> 8 + 15 * minute) (tries_of ''ip'' r)) \<le> 18"
proof -
  obtain r where r: "limiter_step\<^sup>*\<^sup>* quiet_run r" "gr_tries r = [(9, ''u''), (8, ''ip'')]" "gr_missed r = {}"
    using quiet_run_tries by blast
  have start: "limiter_start quiet_run" by (simp add: limiter_start_def quiet_run_def zero_time_def)
  from guesses_bounded [OF start r(1)] r(2,3) show ?thesis by blast
qed

text \<open>A lockout holds and lifts on time: from the fifth failure of a window on, a key is refused
  from the failure until its backoff has run out - thirty seconds, doubled with each further
  failure and never more than fifteen minutes - and is allowed again from then on; failures and
  successes of other keys change nothing of it while the table has room.\<close>

theorem lockout_holds:
  assumes "map_of l key = Some st" "time_sub now (fs_windowStart st) \<le> failureWindow" "4 \<le> fs_failures st"
    and "zero_time < now" "now \<le> t" "other \<noteq> key" "length l < limiterCap"
    and "b = min (30 * 10 ^ 9 * 2 ^ (fs_failures st - 4)) (900 * 10 ^ 9)"
    and "l' = Failure now key l" "l'' = l' \<or> l'' = Success other l' \<or> l'' = Failure now other l'"
    and "distinct (map fst l)"
  shows "fst (Allowed t key l'') \<longleftrightarrow> now + b \<le> t"
proof -
  let ?f = "fs_failures st + 1"
  let ?st = "count_failure now st"
  have lock: "fs_lockedUntil ?st = now + b" "fs_windowStart ?st = fs_windowStart st"
  proof -
    have "backoff_after ?f = b"
    proof (cases "fs_failures st - 4 < 5")
      case True
      then consider "fs_failures st = 4" | "fs_failures st = 5" | "fs_failures st = 6" | "fs_failures st = 7"
        | "fs_failures st = 8" using assms(3) by linarith
      then show ?thesis
        by cases (simp_all add: assms(8) backoff_after_def freeAttempts_def baseBackoff_def maxBackoff_def
            second_def minute_def)
    next
      case False
      then have "(2::int) ^ 5 \<le> 2 ^ (fs_failures st - 4)" by (intro power_increasing) auto
      then have big: "900 * 10 ^ 9 \<le> 30 * 10 ^ 9 * (2::int) ^ (fs_failures st - 4)" by simp
      then show ?thesis
        using assms(3) by (simp add: assms(8) backoff_after_def freeAttempts_def baseBackoff_def maxBackoff_def
            second_def minute_def Let_def)
    qed
    then show "fs_lockedUntil ?st = now + b" "fs_windowStart ?st = fs_windowStart st"
      using assms(3) by (simp_all add: count_failure_def freeAttempts_def)
  qed
  have "map_of l' key = Some ?st"
    using assms(1,2) by (simp add: assms(9) Failure_def update_conv)
  moreover have "key \<in> fst ` set l" using assms(1) by (auto dest: map_of_SomeD intro: rev_image_eqI)
  ultimately have m: "map_of l'' key = Some ?st"
    using assms(6,7,10) assms(1) by (auto simp: Success_def delete_conv Failure_def Let_def update_conv
        length_update assms(9) split: option.splits)
  have "0 < b" by (simp add: assms(8))
  then show ?thesis
    using assms(4,5) m lock by (auto simp: Allowed_def lapsed_def)
qed

lemma lockout_holds_witness:
  "\<not> fst (Allowed (20 * 10 ^ 9) ''ip''
     (Failure 0 ''ip'' [(''ip'', \<lparr>fs_failures = 4, fs_windowStart = 0, fs_lockedUntil = zero_time\<rparr>)])) \<and>
   fst (Allowed (30 * 10 ^ 9) ''ip''
     (Failure 0 ''ip'' [(''ip'', \<lparr>fs_failures = 4, fs_windowStart = 0, fs_lockedUntil = zero_time\<rparr>)]))"
  using lockout_holds [where l = "[(''ip'', \<lparr>fs_failures = 4, fs_windowStart = 0, fs_lockedUntil = zero_time\<rparr>)]"
      and key = "''ip''" and now = 0 and other = "''x''" and t = "20 * 10 ^ 9"]
    lockout_holds [where l = "[(''ip'', \<lparr>fs_failures = 4, fs_windowStart = 0, fs_lockedUntil = zero_time\<rparr>)]"
      and key = "''ip''" and now = 0 and other = "''x''" and t = "30 * 10 ^ 9"]
  by (simp add: failureWindow_def minute_def zero_time_def limiterCap_def)

end
