(* ===== verification/Castv2.thy ===== *)
theory Castv2
  imports Prelude "HOL-Library.Word"
begin

text \<open>
  The CASTV2 wire protocol of \<^verbatim>\<open>server/internal/cast/castv2/protocol.go\<close>: the varint
  codec of Go's \<^verbatim>\<open>encoding/binary\<close>, the protobuf body of a message, and the framed writer and
  reader.  Bytes are 8-bit words, a Go string is the \<^typ>\<open>string\<close> of its bytes, a
  \<^verbatim>\<open>uint64\<close> is a 64-bit word.
\<close>

unbundle bit_operations_syntax

section \<open>Bytes and varints\<close>

type_synonym byte = "8 word"

definition byte_of :: "char \<Rightarrow> byte" where "byte_of c = word_of_nat (of_char c)"
definition char_at :: "byte \<Rightarrow> char" where "char_at b = char_of (unat b)"

definition bytes_of :: "string \<Rightarrow> byte list" where "bytes_of s = map byte_of s"
definition string_of :: "byte list \<Rightarrow> string" where "string_of bs = map char_at bs"

lemma string_of_bytes_of [simp]: "string_of (bytes_of s) = s"
proof -
  have "char_at (byte_of c) = c" for c
    by (simp add: char_at_def byte_of_def unat_of_nat take_bit_nat_eq_self)
  then show ?thesis by (simp add: string_of_def bytes_of_def o_def)
qed

lemma length_bytes_of [simp]: "length (bytes_of s) = length s"
  by (simp add: bytes_of_def)

lemma drop_bit_7_less:
  assumes "128 \<le> (x :: 64 word)"
  shows "unat (drop_bit 7 x) < unat x"
proof -
  have "unat (drop_bit 7 x) = unat x div 128" by (simp add: drop_bit_eq_div unat_div_distrib)
  moreover have "128 \<le> unat x" using assms by (simp add: word_le_nat_alt)
  ultimately show ?thesis by simp
qed

function uvarint_bytes :: "64 word \<Rightarrow> byte list" where
  "uvarint_bytes x =
     (if 128 \<le> x then (ucast x OR 128) # uvarint_bytes (drop_bit 7 x) else [ucast x])"
  by pat_completeness auto
termination by (relation "measure unat") (simp_all add: drop_bit_7_less)

declare uvarint_bytes.simps [simp del]

definition AppendUvarint :: "byte list \<Rightarrow> 64 word \<Rightarrow> byte list" where
  "AppendUvarint b x = b @ uvarint_bytes x"

text \<open>
  \<^verbatim>\<open>binary.Uvarint\<close>: the value and the number of bytes read; 0 when the buffer ends first,
  negative on overflow.
\<close>

fun uvarint_from :: "nat \<Rightarrow> 64 word \<Rightarrow> byte list \<Rightarrow> 64 word \<times> int" where
  "uvarint_from i x [] = (0, 0)"
| "uvarint_from i x (b # bs) =
     (if i = 10 then (0, - (int i + 1))
      else if b < 128 then
        (if i = 9 \<and> b > 1 then (0, - (int i + 1)) else (x OR push_bit (7 * i) (ucast b), int i + 1))
      else uvarint_from (i + 1) (x OR push_bit (7 * i) (ucast (b AND 127))) bs)"

definition Uvarint :: "byte list \<Rightarrow> 64 word \<times> int" where
  "Uvarint bs = uvarint_from 0 0 bs"

lemma ucast_bytes:
  assumes "(x :: 64 word) < 128"
  shows "ucast (ucast x :: byte) = x" "(ucast x :: byte) < 128"
proof -
  from assms have x: "unat x < 128" by (simp add: word_less_nat_alt)
  then have u: "unat (ucast x :: byte) = unat x"
    by (simp add: unsigned_ucast_eq unsigned_take_bit_eq take_bit_nat_eq_self)
  then show "ucast (ucast x :: byte) = x" using x
    by (simp add: word_eq_iff_unsigned [where 'a = nat] unsigned_ucast_eq unsigned_take_bit_eq take_bit_nat_eq_self)
  show "(ucast x :: byte) < 128" using u x by (simp add: word_less_nat_alt)
qed

lemma mask_7: "127 = (mask 7 :: 'a :: len word)"
  by (simp add: mask_eq_exp_minus_1)

lemma bit_7_byte: "bit (b :: byte) 7 \<Longrightarrow> \<not> b < 128"
  by (auto simp: bit_iff_odd div_word_less)

lemma ucast_more:
  fixes x :: "64 word"
  shows "\<not> (ucast x OR 128 :: byte) < 128" "(ucast ((ucast x OR 128 :: byte) AND 127) :: 64 word) = x AND 127"
proof -
  have top: "128 = (push_bit 7 1 :: byte)" by simp
  have "bit (ucast x OR 128 :: byte) 7" unfolding top by (simp add: bit_simps del: push_bit_of_1)
  then show "\<not> (ucast x OR 128 :: byte) < 128" by (rule bit_7_byte)
  show "(ucast ((ucast x OR 128 :: byte) AND 127) :: 64 word) = x AND 127"
    unfolding mask_7 top by (rule bit_eqI) (auto simp: bit_simps simp del: push_bit_of_1)
qed

lemma push_split: "(acc OR push_bit s (x AND 127)) OR push_bit (7 + s) (drop_bit 7 x) = acc OR push_bit s (x :: 64 word)"
proof (rule bit_eqI)
  fix n
  show "bit ((acc OR push_bit s (x AND 127)) OR push_bit (7 + s) (drop_bit 7 x)) n = bit (acc OR push_bit s x) n"
  proof (cases "7 + s \<le> n")
    case True
    then obtain k where "n = 7 + s + k" using le_Suc_ex by blast
    then show ?thesis unfolding mask_7 by (simp add: bit_simps add_ac)
  next
    case False
    then show ?thesis unfolding mask_7 by (auto simp: bit_simps)
  qed
qed

text \<open>Decoding an encoded value: \<open>i\<close> bytes of it are already read into \<open>acc\<close>.\<close>

lemma uvarint_from_bytes:
  "unat x < 2 ^ (64 - 7 * i) \<Longrightarrow> i \<le> 9 \<Longrightarrow>
   uvarint_from i acc (uvarint_bytes x @ rest) =
     (acc OR push_bit (7 * i) x, int (i + length (uvarint_bytes x)))"
proof (induction x arbitrary: i acc rule: uvarint_bytes.induct)
  case (1 x)
  show ?case
  proof (cases "128 \<le> x")
    case True
    then have big: "128 \<le> unat x" by (simp add: word_le_nat_alt)
    have "i \<noteq> 9"
    proof
      assume "i = 9"
      with 1 big show False by simp
    qed
    with 1 have i: "i + 1 \<le> 9" by simp
    have "unat (drop_bit 7 x) = unat x div 2 ^ 7" by (simp add: drop_bit_eq_div unat_div_distrib)
    moreover have "64 - 7 * i = (64 - 7 * (i + 1)) + 7" using i by simp
    then have "unat x < 2 ^ (64 - 7 * (i + 1)) * 2 ^ 7" using 1 by (metis power_add)
    ultimately have "unat (drop_bit 7 x) < 2 ^ (64 - 7 * (i + 1))"
      by (simp add: less_mult_imp_div_less)
    from "1.IH" [OF True this i, of "acc OR push_bit (7 * i) (x AND 127)"] i True show ?thesis
      by (simp add: uvarint_bytes.simps [of x] ucast_more push_split del: push_bit_and)
  next
    case False
    then have small: "x < 128" by simp
    have "\<not> (i = 9 \<and> (ucast x :: byte) > 1)"
    proof
      assume a: "i = 9 \<and> (ucast x :: byte) > 1"
      with 1 have "unat x < 2" by simp
      then have "unat (ucast x :: byte) < 2"
        by (simp add: unsigned_ucast_eq unsigned_take_bit_eq take_bit_nat_eq_self)
      with a show False by (simp add: word_less_nat_alt)
    qed
    then show ?thesis using 1 False
      by (auto simp: uvarint_bytes.simps [of x] ucast_bytes [OF small])
  qed
qed

lemma Uvarint_bytes: "Uvarint (uvarint_bytes x @ rest) = (x, int (length (uvarint_bytes x)))"
  using uvarint_from_bytes [of x 0 0 rest] unsigned_less [of x] by (simp add: Uvarint_def)

section \<open>Messages\<close>

definition maxFrameBytes :: nat where "maxFrameBytes = 64 * 2 ^ 10"

definition fieldProtocolVersion :: "64 word" where "fieldProtocolVersion = 1"
definition fieldSourceID :: "64 word" where "fieldSourceID = 2"
definition fieldDestinationID :: "64 word" where "fieldDestinationID = 3"
definition fieldNamespace :: "64 word" where "fieldNamespace = 4"
definition fieldPayloadType :: "64 word" where "fieldPayloadType = 5"
definition fieldPayloadUTF8 :: "64 word" where "fieldPayloadUTF8 = 6"
definition payloadTypeString :: "64 word" where "payloadTypeString = 0"

lemmas field_defs = fieldProtocolVersion_def fieldSourceID_def fieldDestinationID_def fieldNamespace_def
  fieldPayloadType_def fieldPayloadUTF8_def payloadTypeString_def

record message =
  SourceID :: string
  DestinationID :: string
  Namespace :: string
  PayloadUTF8 :: string

definition no_message :: message where
  "no_message = \<lparr>SourceID = '''', DestinationID = '''', Namespace = '''', PayloadUTF8 = ''''\<rparr>"

datatype cast_error =
    FrameTooLong nat
  | WriteFailed
  | HeaderFailed
  | BodyFailed
  | TruncatedTag
  | TruncatedVarint "64 word"
  | UnsupportedPayload "64 word"
  | TruncatedBytes "64 word"
  | TruncatedFixed64 "64 word"
  | TruncatedFixed32 "64 word"
  | UnsupportedWire "64 word" "64 word"

definition appendStringField :: "byte list \<Rightarrow> 64 word \<Rightarrow> string \<Rightarrow> byte list" where
  "appendStringField b field s =
     AppendUvarint (b @ [ucast (push_bit 3 field OR 2)]) (word_of_nat (length s)) @ bytes_of s"

definition marshal :: "message \<Rightarrow> byte list" where
  "marshal m =
     (let b = [ucast (push_bit 3 fieldProtocolVersion), 0];
          b = appendStringField b fieldSourceID (SourceID m);
          b = appendStringField b fieldDestinationID (DestinationID m);
          b = appendStringField b fieldNamespace (Namespace m);
          b = b @ [ucast (push_bit 3 fieldPayloadType), ucast payloadTypeString]
      in appendStringField b fieldPayloadUTF8 (PayloadUTF8 m))"

definition set_field :: "64 word \<Rightarrow> string \<Rightarrow> message \<Rightarrow> message" where
  "set_field field s m =
     (if field = fieldSourceID then m\<lparr>SourceID := s\<rparr>
      else if field = fieldDestinationID then m\<lparr>DestinationID := s\<rparr>
      else if field = fieldNamespace then m\<lparr>Namespace := s\<rparr>
      else if field = fieldPayloadUTF8 then m\<lparr>PayloadUTF8 := s\<rparr>
      else m)"

text \<open>The loop of \<open>unmarshalMessage\<close>, and the value of one field after its tag.\<close>

definition read_field :: "64 word \<Rightarrow> 64 word \<Rightarrow> byte list \<Rightarrow> message \<Rightarrow> cast_error + (byte list \<times> message)" where
  "read_field field wire b m =
     (if wire = 0 then
        (let (v, n) = Uvarint b in
         if n \<le> 0 then Inl (TruncatedVarint field)
         else if field = fieldPayloadType \<and> v \<noteq> payloadTypeString then Inl (UnsupportedPayload v)
         else Inr (drop (nat n) b, m))
      else if wire = 2 then
        (let (l, n) = Uvarint b in
         if n \<le> 0 \<or> unat l > length b - nat n then Inl (TruncatedBytes field)
         else Inr (drop (nat n + unat l) b, set_field field (string_of (take (unat l) (drop (nat n) b))) m))
      else if wire = 1 then
        (if length b < 8 then Inl (TruncatedFixed64 field) else Inr (drop 8 b, m))
      else if wire = 5 then
        (if length b < 4 then Inl (TruncatedFixed32 field) else Inr (drop 4 b, m))
      else Inl (UnsupportedWire wire field))"

lemma read_field_shrinks: "read_field field wire b m = Inr (b', m') \<Longrightarrow> length b' \<le> length b"
  by (auto simp: read_field_def Let_def split: if_splits prod.splits)

function unmarshal_from :: "byte list \<Rightarrow> message \<Rightarrow> cast_error + message" where
  "unmarshal_from b m =
     (if b = [] then Inr m
      else let (tag, n) = Uvarint b in
        if n \<le> 0 then Inl TruncatedTag
        else case read_field (drop_bit 3 tag) (tag AND 7) (drop (nat n) b) m of
          Inl e \<Rightarrow> Inl e
        | Inr (b', m') \<Rightarrow> unmarshal_from b' m')"
  by pat_completeness auto
termination
proof (relation "measure (length \<circ> fst)")
  fix b :: "byte list" and m u tag n r b' m'
  assume "b \<noteq> []" "u = Uvarint b" "(tag, n) = u" "\<not> n \<le> 0"
    and r: "read_field (drop_bit 3 tag) (tag AND 7) (drop (nat n) b) m = Inr r" "(b', m') = r"
  then have "read_field (drop_bit 3 tag) (tag AND 7) (drop (nat n) b) m = Inr (b', m')" by simp
  from read_field_shrinks [OF this] \<open>b \<noteq> []\<close> \<open>\<not> n \<le> 0\<close>
  show "((b', m'), b, m) \<in> measure (length \<circ> fst)" by (cases b) auto
qed simp

declare unmarshal_from.simps [simp del]

definition unmarshalMessage :: "byte list \<Rightarrow> cast_error + message" where
  "unmarshalMessage b = unmarshal_from b no_message"

section \<open>Frames\<close>

text \<open>
  \<open>write\<close> is the connection's \<^verbatim>\<open>Write\<close>: it says whether it took the bytes.  A reader is the
  byte stream that is left of it before it ends.
\<close>

definition big_endian :: "32 word \<Rightarrow> byte list" where
  "big_endian n = [ucast (drop_bit 24 n), ucast (drop_bit 16 n), ucast (drop_bit 8 n), ucast n]"

definition from_big_endian :: "byte list \<Rightarrow> 32 word" where
  "from_big_endian b =
     push_bit 24 (ucast (b ! 0)) OR push_bit 16 (ucast (b ! 1)) OR push_bit 8 (ucast (b ! 2)) OR ucast (b ! 3)"

definition WriteMessage :: "('w \<Rightarrow> byte list \<Rightarrow> bool \<times> 'w) \<Rightarrow> 'w \<Rightarrow> message \<Rightarrow> cast_error option \<times> 'w" where
  "WriteMessage write w m =
     (let body = marshal m in
      if length body > maxFrameBytes then (Some (FrameTooLong (length body)), w)
      else (case write w (big_endian (word_of_nat (length body)) @ body) of
              (True, w') \<Rightarrow> (None, w')
            | (False, w') \<Rightarrow> (Some WriteFailed, w')))"

definition ReadFull :: "nat \<Rightarrow> byte list \<Rightarrow> byte list option \<times> byte list" where
  "ReadFull n s = (if length s < n then (None, []) else (Some (take n s), drop n s))"

definition ReadMessage :: "byte list \<Rightarrow> (cast_error + message) \<times> byte list" where
  "ReadMessage s =
     (case ReadFull 4 s of
        (None, s1) \<Rightarrow> (Inl HeaderFailed, s1)
      | (Some hdr, s1) \<Rightarrow>
          let n = unat (from_big_endian hdr) in
          if n > maxFrameBytes then (Inl (FrameTooLong n), s1)
          else (case ReadFull n s1 of
                  (None, s2) \<Rightarrow> (Inl BodyFailed, s2)
                | (Some body, s2) \<Rightarrow> (unmarshalMessage body, s2)))"

section \<open>The wire format as a list of fields\<close>

text \<open>What a peer may send in a body: fields in any order, known or not.\<close>

datatype wire_field =
    Varint "64 word" "64 word"
  | Bytes "64 word" string
  | Fixed64 "64 word" "byte list"
  | Fixed32 "64 word" "byte list"

fun field_bytes :: "wire_field \<Rightarrow> byte list" where
  "field_bytes (Varint k v) = uvarint_bytes (push_bit 3 k) @ uvarint_bytes v"
| "field_bytes (Bytes k s) = uvarint_bytes (push_bit 3 k OR 2) @ uvarint_bytes (word_of_nat (length s)) @ bytes_of s"
| "field_bytes (Fixed64 k b) = uvarint_bytes (push_bit 3 k OR 1) @ b"
| "field_bytes (Fixed32 k b) = uvarint_bytes (push_bit 3 k OR 5) @ b"

fun field_ok :: "wire_field \<Rightarrow> bool" where
  "field_ok (Varint k v) \<longleftrightarrow> k < 2 ^ 61 \<and> (k = fieldPayloadType \<longrightarrow> v = payloadTypeString)"
| "field_ok (Bytes k s) \<longleftrightarrow> k < 2 ^ 61 \<and> length s < 2 ^ 64"
| "field_ok (Fixed64 k b) \<longleftrightarrow> k < 2 ^ 61 \<and> length b = 8"
| "field_ok (Fixed32 k b) \<longleftrightarrow> k < 2 ^ 61 \<and> length b = 4"

fun apply_field :: "wire_field \<Rightarrow> message \<Rightarrow> message" where
  "apply_field (Bytes k s) m = set_field k s m"
| "apply_field _ m = m"

lemma tag_parts:
  assumes "(k :: 64 word) < 2 ^ 61" "w \<in> {0, 1, 2, 5}"
  shows "drop_bit 3 (push_bit 3 k OR w) = k" "(push_bit 3 k OR w) AND 7 = w"
proof -
  have k: "take_bit 61 k = k" using assms(1)
    by (simp add: word_eq_iff_unsigned [where 'a = nat] unsigned_take_bit_eq take_bit_nat_eq_self word_less_nat_alt)
  have w: "w AND 7 = w" "drop_bit 3 w = 0" using assms(2) by auto
  have "drop_bit 3 (push_bit 3 k) = k"
    by (subst (2) k [symmetric]) (rule bit_eqI, simp add: bit_simps)
  with w show "drop_bit 3 (push_bit 3 k OR w) = k" by simp
  have m: "7 = (mask 3 :: 64 word)" by (simp add: mask_eq_exp_minus_1)
  have "push_bit 3 k AND 7 = (0 :: 64 word)" unfolding m by (rule bit_eqI) (auto simp: bit_simps)
  with w show "(push_bit 3 k OR w) AND 7 = w" by (simp add: bit.conj_disj_distrib2)
qed

lemma uvarint_bytes_not_Nil [simp]: "uvarint_bytes x \<noteq> []"
  by (subst uvarint_bytes.simps) simp

lemma unmarshal_tag:
  assumes "k < 2 ^ 61" "w \<in> {0, 1, 2, 5}"
  shows "unmarshal_from (uvarint_bytes (push_bit 3 k OR w) @ b) m =
    (case read_field k w b m of Inl e \<Rightarrow> Inl e | Inr (b', m') \<Rightarrow> unmarshal_from b' m')"
proof -
  obtain t where t: "t = push_bit 3 k OR w" by simp
  with tag_parts [OF assms] have "drop_bit 3 t = k" "t AND 7 = w" by simp_all
  then have "unmarshal_from (uvarint_bytes t @ b) m =
      (case read_field k w b m of Inl e \<Rightarrow> Inl e | Inr (b', m') \<Rightarrow> unmarshal_from b' m')"
    by (subst unmarshal_from.simps) (simp add: Uvarint_bytes)
  then show ?thesis by (simp only: t)
qed

lemma unmarshal_field:
  assumes "field_ok f"
  shows "unmarshal_from (field_bytes f @ b) m = unmarshal_from b (apply_field f m)"
proof (cases f)
  case (Varint k v)
  with assms show ?thesis
    using unmarshal_tag [of k 0 "uvarint_bytes v @ b" m]
    by (cases "k = fieldPayloadType") (simp_all add: read_field_def Uvarint_bytes)
next
  case (Bytes k s)
  with assms have "unat (word_of_nat (length s) :: 64 word) = length s"
    by (simp add: unat_of_nat take_bit_nat_eq_self)
  with Bytes assms show ?thesis
    using unmarshal_tag [of k 2 "uvarint_bytes (word_of_nat (length s)) @ bytes_of s @ b" m]
    by (simp add: read_field_def Uvarint_bytes Let_def)
next
  case (Fixed64 k c)
  with assms show ?thesis
    using unmarshal_tag [of k 1 "c @ b" m] by (simp add: read_field_def)
next
  case (Fixed32 k c)
  with assms show ?thesis
    using unmarshal_tag [of k 5 "c @ b" m] by (simp add: read_field_def)
qed

lemma unmarshal_fields_from:
  "list_all field_ok fs \<Longrightarrow>
   unmarshal_from (concat (map field_bytes fs)) m = Inr (fold apply_field fs m)"
  by (induction fs arbitrary: m) (auto simp: unmarshal_field unmarshal_from.simps [of "[]"])

definition fields_of :: "message \<Rightarrow> wire_field list" where
  "fields_of m =
     [Varint fieldProtocolVersion 0, Bytes fieldSourceID (SourceID m),
      Bytes fieldDestinationID (DestinationID m), Bytes fieldNamespace (Namespace m),
      Varint fieldPayloadType payloadTypeString, Bytes fieldPayloadUTF8 (PayloadUTF8 m)]"

lemma marshal_fields: "marshal m = concat (map field_bytes (fields_of m))"
  by (simp add: marshal_def fields_of_def appendStringField_def AppendUvarint_def Let_def field_defs
      uvarint_bytes.simps [of 0] uvarint_bytes.simps [of 8] uvarint_bytes.simps [of 18]
      uvarint_bytes.simps [of 26] uvarint_bytes.simps [of 34] uvarint_bytes.simps [of 40]
      uvarint_bytes.simps [of 50])

section \<open>Claims\<close>

lemma from_big_endian: "from_big_endian (big_endian n) = n"
proof (rule bit_word_eqI)
  fix i assume "i < LENGTH(32)"
  then consider "i < 8" | "8 \<le> i" "i < 16" | "16 \<le> i" "i < 24" | "24 \<le> i" "i < 32" by force
  then show "bit (from_big_endian (big_endian n)) i = bit n i"
    by cases (auto simp: from_big_endian_def big_endian_def bit_simps)
qed

lemma length_big_endian [simp]: "length (big_endian n) = 4"
  by (simp add: big_endian_def)

lemma ReadMessage_frame:
  assumes "length body < 2 ^ 32"
  shows "ReadMessage (big_endian (word_of_nat (length body)) @ body @ rest) =
    (if length body > maxFrameBytes then (Inl (FrameTooLong (length body)), body @ rest)
     else (unmarshalMessage body, rest))"
proof -
  have "unat (word_of_nat (length body) :: 32 word) = length body"
    using assms by (simp add: unat_of_nat take_bit_nat_eq_self)
  then show ?thesis by (simp add: ReadMessage_def ReadFull_def from_big_endian Let_def)
qed

lemma unmarshal_fields:
  "list_all field_ok fs \<Longrightarrow> unmarshalMessage (concat (map field_bytes fs)) = Inr (fold apply_field fs no_message)"
  by (simp add: unmarshalMessage_def unmarshal_fields_from)

lemma length_marshal:
  "length (SourceID m) + length (DestinationID m) + length (Namespace m) + length (PayloadUTF8 m) \<le> length (marshal m)"
  by (simp add: marshal_fields fields_of_def)

lemma unmarshal_marshal:
  assumes "length (marshal m) \<le> maxFrameBytes"
  shows "unmarshalMessage (marshal m) = Inr m"
proof -
  have "list_all field_ok (fields_of m)"
    using assms length_marshal [of m] by (simp add: fields_of_def field_defs maxFrameBytes_def)
  then show ?thesis
    by (simp add: marshal_fields unmarshal_fields) (simp add: fields_of_def set_field_def field_defs no_message_def)
qed

text \<open>A connection that takes every byte, and the calls that use it.\<close>

definition appending :: "byte list \<Rightarrow> byte list \<Rightarrow> bool \<times> byte list" where
  "appending sent bytes = (True, sent @ bytes)"

fun write_all :: "message list \<Rightarrow> byte list \<Rightarrow> byte list" where
  "write_all [] sent = sent"
| "write_all (m # ms) sent = write_all ms (snd (WriteMessage appending sent m))"

fun read_all :: "nat \<Rightarrow> byte list \<Rightarrow> (cast_error + message) list \<times> byte list" where
  "read_all 0 s = ([], s)"
| "read_all (Suc n) s =
     (let (r, s1) = ReadMessage s; (rs, s2) = read_all n s1 in (r # rs, s2))"

definition fits :: "message \<Rightarrow> bool" where
  "fits m \<longleftrightarrow> length (marshal m) \<le> maxFrameBytes"

definition frame :: "message \<Rightarrow> byte list" where
  "frame m = big_endian (word_of_nat (length (marshal m))) @ marshal m"

lemma write_all_frames: "write_all ms sent = sent @ concat (map frame (filter fits ms))"
  by (induction ms arbitrary: sent) (auto simp: WriteMessage_def Let_def appending_def fits_def frame_def)

lemma read_frame: "fits m \<Longrightarrow> ReadMessage (frame m @ rest) = (Inr m, rest)"
  using ReadMessage_frame [of "marshal m" rest] unmarshal_marshal [of m]
  by (auto simp: fits_def frame_def maxFrameBytes_def)

lemma read_frames:
  "list_all fits ms \<Longrightarrow> read_all (length ms) (concat (map frame ms) @ rest) = (map Inr ms, rest)"
  by (induction ms) (simp_all add: read_frame)

text \<open>C37. Every message sent is received as it was: what the writer puts on the connection for any
  sequence of messages, followed by anything, is read back as exactly the messages that fit the
  64 KiB frame limit, unchanged and in order, and the reader stops at the first byte after them.
  A message over the limit is refused with an error and puts nothing on the connection.\<close>

theorem messages_survive:
  "read_all (length (filter fits ms)) (write_all ms [] @ rest) = (map Inr (filter fits ms), rest) \<and>
   (\<forall>m sent. WriteMessage appending sent m =
      (if fits m then (None, sent @ frame m) else (Some (FrameTooLong (length (marshal m))), sent)))"
proof -
  have "list_all fits (filter fits ms)" by (simp add: list_all_iff)
  then show ?thesis
    by (auto simp: write_all_frames read_frames WriteMessage_def appending_def fits_def frame_def Let_def)
qed

text \<open>The decoder takes any protobuf encoding of the message, not only its own: fields in any
  order, repeated fields (the last one counts) and unknown fields of any of the four live wire
  types are read as the list of fields they encode.\<close>

theorem decodes_any_field_order:
  assumes "list_all field_ok fs"
  shows "unmarshalMessage (concat (map field_bytes fs)) = Inr (fold apply_field fs no_message)"
  using assms by (rule unmarshal_fields)

lemma decodes_any_field_order_witness:
  "unmarshalMessage (concat (map field_bytes
      [Fixed32 9 [1, 2, 3, 4], Bytes fieldNamespace ''n'', Bytes fieldSourceID ''x'', Varint 100 300,
       Bytes fieldSourceID ''s'', Bytes 77 ''skipped'', Fixed64 9 (replicate 8 0)])) =
   Inr (no_message\<lparr>SourceID := ''s'', Namespace := ''n''\<rparr>)"
  by (subst decodes_any_field_order) (simp_all add: field_defs set_field_def no_message_def word_less_nat_alt)

text \<open>The reader never loses its place: whatever bytes a peer puts in a frame, a frame within
  the limit is consumed whole - four bytes of header and the announced body - whether or not the
  body decodes, and the answer depends on that body alone; a longer one is refused before any of
  its body is read.\<close>

theorem reader_keeps_frames:
  assumes "length body < 2 ^ 32"
  shows "ReadMessage (big_endian (word_of_nat (length body)) @ body @ rest) =
    (if length body > 65536 then (Inl (FrameTooLong (length body)), body @ rest)
     else (unmarshalMessage body, rest))"
  using ReadMessage_frame [OF assms, of rest] by (simp add: maxFrameBytes_def)

lemma reader_keeps_frames_witness:
  "snd (ReadMessage (big_endian 2 @ [255, 255] @ [7])) = [7] \<and>
   fst (ReadMessage (big_endian 2 @ [255, 255] @ [7])) = Inl TruncatedTag"
  using reader_keeps_frames [of "[255, 255]" "[7]"]
  by (simp add: unmarshalMessage_def unmarshal_from.simps [of "[255, 255]"] Uvarint_def)

end
