(* ===== verification/Calendar.thy ===== *)
theory Calendar
  imports Prelude
begin

text \<open>
  The part of Go's \<^verbatim>\<open>time\<close> package the scheduler uses: the proleptic Gregorian calendar, civil
  times in a location, and \<^verbatim>\<open>time.Date\<close> with its normalisation.  A location is the zone
  lookup of \<^verbatim>\<open>time.Location\<close>: for a Unix second, the offset in force and the bounds of the
  interval it is in force for.  The zone data is not part of the program: it is a parameter.
\<close>

section \<open>Days\<close>

text \<open>Days from 1 January of year 0 to 1 January of year \<open>y\<close> (\<open>div\<close> rounds down).\<close>

definition year_start :: "int \<Rightarrow> int" where
  "year_start y = 365 * y + (y + 3) div 4 - (y + 99) div 100 + (y + 399) div 400"

definition leap :: "int \<Rightarrow> bool" where
  "leap y \<longleftrightarrow> y mod 4 = 0 \<and> (y mod 100 \<noteq> 0 \<or> y mod 400 = 0)"

text \<open>Days of a common year before month \<open>m\<close> (1 to 13), and those of any year.\<close>

definition month_start :: "int \<Rightarrow> int" where
  "month_start m = [0, 31, 59, 90, 120, 151, 181, 212, 243, 273, 304, 334, 365] ! nat (m - 1)"

definition before_month :: "int \<Rightarrow> int \<Rightarrow> int" where
  "before_month y m = month_start m + (if leap y \<and> 2 < m then 1 else 0)"

text \<open>Day 0 is 1 January 1970.  Months and days out of range carry over, as in \<^verbatim>\<open>time.Date\<close>.\<close>

definition day_of_date :: "int \<Rightarrow> int \<Rightarrow> int \<Rightarrow> int" where
  "day_of_date y m d =
     (let y1 = y + (m - 1) div 12; m1 = (m - 1) mod 12 + 1
      in year_start y1 + before_month y1 m1 + d - 1 - 719528)"

definition year_guess :: "int \<Rightarrow> int" where
  "year_guess n = (400 * n) div 146097"

definition year_of :: "int \<Rightarrow> int" where
  "year_of n =
     (let y = year_guess n in
      if year_start y > n then y - 1 else if year_start (y + 1) \<le> n then y + 1 else y)"

fun month_from :: "int \<Rightarrow> int \<Rightarrow> nat \<Rightarrow> int" where
  "month_from y k 0 = 1"
| "month_from y k (Suc m) = (if before_month y (int m + 2) \<le> k then int m + 2 else month_from y k m)"

definition date_of_day :: "int \<Rightarrow> int \<times> int \<times> int" where
  "date_of_day n =
     (let n0 = n + 719528; y = year_of n0; k = n0 - year_start y; m = month_from y k 11
      in (y, m, k - before_month y m + 1))"

definition Year :: "int \<Rightarrow> int" where "Year n = fst (date_of_day n)"
definition Month :: "int \<Rightarrow> int" where "Month n = fst (snd (date_of_day n))"
definition Day :: "int \<Rightarrow> int" where "Day n = snd (snd (date_of_day n))"

definition Weekday :: "int \<Rightarrow> int" where
  "Weekday n = (n + 4) mod 7"

lemma div_bounds:
  assumes "0 < (c :: int)"
  shows "c * (x div c) \<le> x" "x < c * (x div c) + c"
  using assms mult_div_mod_eq [of c x] pos_mod_bound [of c x] pos_mod_sign [of c x] by linarith+

lemma div_Suc:
  assumes c: "0 < (c :: int)" and d: "d = c - 1"
  shows "(y + 1 + d) div c = (y + d) div c + (if y mod c = 0 then 1 else 0)"
proof (cases "y mod c = 0")
  case True
  then obtain q where y: "y = c * q" by (auto simp: mod_eq_0_iff_dvd)
  have "(c * q + d) div c = q"
    by (rule int_div_pos_eq [where r = d]) (use c d in auto)
  moreover have "(c * q + 1 + d) div c = q + 1"
    by (rule int_div_pos_eq [where r = 0]) (use c d in \<open>auto simp: algebra_simps\<close>)
  ultimately show ?thesis using y True by simp
next
  case False
  define q r where "q = y div c" and "r = y mod c"
  then have y: "y = c * q + r" and r: "0 < r" "r < c"
    using assms False pos_mod_sign [of c y] pos_mod_bound [of c y] by (auto simp: less_le)
  have "(y + d) div c = q + 1"
    by (rule int_div_pos_eq [where r = "r - 1"]) (use y r d in \<open>auto simp: algebra_simps\<close>)
  moreover have "(y + 1 + d) div c = q + 1"
    by (rule int_div_pos_eq [where r = r]) (use y r d in \<open>auto simp: algebra_simps\<close>)
  ultimately show ?thesis using False by simp
qed

lemma year_start_Suc: "year_start (y + 1) = year_start y + (if leap y then 366 else 365)"
proof -
  have m: "y mod 400 = 0 \<Longrightarrow> y mod 100 = 0" "y mod 100 = 0 \<Longrightarrow> y mod 4 = 0"
    by (auto simp: mod_eq_0_iff_dvd elim: dvd_trans [rotated])
  have d: "(y + 1 + 3) div 4 = (y + 3) div 4 + (if y mod 4 = 0 then 1 else 0)"
    "(y + 1 + 99) div 100 = (y + 99) div 100 + (if y mod 100 = 0 then 1 else 0)"
    "(y + 1 + 399) div 400 = (y + 399) div 400 + (if y mod 400 = 0 then 1 else 0)"
    by (rule div_Suc; simp)+
  have arith: "365 * (y + 1) + (u + (if p then 1 else 0)) - (v + (if q then 1 else 0)) + (w + (if r then 1 else 0)) =
      365 * y + u - v + w + (if p \<and> (\<not> q \<or> r) then 366 else 365)"
    if "r \<longrightarrow> q" "q \<longrightarrow> p" for u v w :: int and p q r
    using that by (cases p; cases q; cases r; simp)
  show ?thesis unfolding year_start_def leap_def d by (rule arith) (use m in blast)+
qed

lemma year_start_mono_add: "year_start y + 365 \<le> year_start (y + 1 + int k)"
proof (induction k)
  case (Suc k)
  then show ?case using year_start_Suc [of "y + 1 + int k"] by (simp add: add_ac split: if_splits)
qed (simp add: year_start_Suc)

lemma year_start_mono: "y < z \<Longrightarrow> year_start y + 365 \<le> year_start z"
  using year_start_mono_add [of y "nat (z - y - 1)"] by simp

lemma year_guess_near: "year_start (year_guess n - 1) \<le> n \<and> n < year_start (year_guess n + 2)"
proof -
  define y where "y = year_guess n"
  have b: "146097 * y \<le> 400 * n" "400 * n < 146097 * y + 146097"
    using div_bounds [of 146097 "400 * n"] unfolding y_def year_guess_def by auto
  have near: "400 * year_start z \<le> 146097 * z + 900" "146097 * z - 400 \<le> 400 * year_start z" for z
    using div_bounds [of 4 "z + 3"] div_bounds [of 100 "z + 99"]
      div_bounds [of 400 "z + 399"]
    unfolding year_start_def by simp_all
  from near(1) [of "y - 1"] near(2) [of "y + 2"] b have "year_start (y - 1) \<le> n" "n < year_start (y + 2)" by simp_all
  then show ?thesis by (simp only: y_def)
qed

lemma year_of_bounds: "year_start (year_of n) \<le> n \<and> n < year_start (year_of n + 1)"
  using year_guess_near [of n] by (auto simp: year_of_def Let_def algebra_simps)

lemma year_of_unique:
  assumes "year_start y \<le> n" "n < year_start (y + 1)"
  shows "year_of n = y"
proof (rule ccontr)
  assume "year_of n \<noteq> y"
  then consider "year_of n + 1 \<le> y" | "y + 1 \<le> year_of n" by linarith
  then show False
  proof cases
    case 1
    then have "year_start (year_of n + 1) \<le> year_start y"
      using year_start_mono [of "year_of n + 1" y] by (cases "year_of n + 1 = y") auto
    with assms year_of_bounds [of n] show False by linarith
  next
    case 2
    then have "year_start (y + 1) \<le> year_start (year_of n)"
      using year_start_mono [of "y + 1" "year_of n"] by (cases "y + 1 = year_of n") auto
    with assms year_of_bounds [of n] show False by linarith
  qed
qed

section \<open>Months\<close>

lemma month_cases:
  assumes "1 \<le> (m :: int)" "m \<le> 12"
  shows "m = 1 \<or> m = 2 \<or> m = 3 \<or> m = 4 \<or> m = 5 \<or> m = 6 \<or> m = 7 \<or> m = 8 \<or> m = 9 \<or> m = 10 \<or> m = 11 \<or> m = 12"
proof -
  have "m \<in> set [1..12]" using assms by simp
  then show ?thesis by (simp add: upto.simps)
qed

lemma month_starts [simp]:
  "month_start 1 = 0" "month_start 2 = 31" "month_start 3 = 59" "month_start 4 = 90"
  "month_start 5 = 120" "month_start 6 = 151" "month_start 7 = 181" "month_start 8 = 212"
  "month_start 9 = 243" "month_start 10 = 273" "month_start 11 = 304" "month_start 12 = 334"
  "month_start 13 = 365"
  by (simp_all add: month_start_def eval_nat_numeral)

lemma before_month_mono: "1 \<le> m \<Longrightarrow> m < m' \<Longrightarrow> m' \<le> 13 \<Longrightarrow> before_month y m + 28 \<le> before_month y m'"
proof -
  have step: "before_month y m + 28 \<le> before_month y (m + 1)" if "1 \<le> m" "m \<le> 12" for m
    using month_cases [OF that] by (auto simp: before_month_def)
  show "before_month y m + 28 \<le> before_month y m'" if "1 \<le> m" "m < m'" "m' \<le> 13"
    using that
  proof (induction "nat (m' - m)" arbitrary: m')
    case (Suc k)
    show ?case
    proof (cases "m' = m + 1")
      case True
      with step Suc show ?thesis by simp
    next
      case False
      then have "before_month y m + 28 \<le> before_month y (m' - 1)" using Suc by (intro Suc(1)) auto
      moreover have "before_month y (m' - 1) + 28 \<le> before_month y m'"
        using step [of "m' - 1"] Suc False by simp
      ultimately show ?thesis by linarith
    qed
  qed simp
qed

lemma month_from_bounds:
  assumes "0 \<le> k"
  shows "1 \<le> month_from y k j \<and> month_from y k j \<le> int j + 1 \<and> before_month y (month_from y k j) \<le> k \<and>
    (\<forall>m. month_from y k j < m \<and> m \<le> int j + 1 \<longrightarrow> k < before_month y m)"
proof (induction j)
  case 0
  with assms show ?case by (simp add: before_month_def)
next
  case (Suc j)
  show ?case
  proof (cases "before_month y (int j + 2) \<le> k")
    case True
    then show ?thesis by simp
  next
    case False
    have "k < before_month y m" if "month_from y k j < m" "m \<le> int j + 2" for m
      using that Suc False by (cases "m = int j + 2") auto
    with False Suc show ?thesis by auto
  qed
qed

text \<open>A date whose month and day are in range.\<close>

definition month_days :: "int \<Rightarrow> int \<Rightarrow> int" where
  "month_days y m = before_month y (m + 1) - before_month y m"

definition valid_date :: "int \<Rightarrow> int \<Rightarrow> int \<Rightarrow> bool" where
  "valid_date y m d \<longleftrightarrow> 1 \<le> m \<and> m \<le> 12 \<and> 1 \<le> d \<and> d \<le> month_days y m"

lemma day_of_valid: "1 \<le> m \<Longrightarrow> m \<le> 12 \<Longrightarrow> day_of_date y m d = year_start y + before_month y m + d - 1 - 719528"
  by (simp add: day_of_date_def)

lemma before_13: "before_month y 13 = (if leap y then 366 else 365)"
  by (simp add: before_month_def)

lemma date_of_valid:
  assumes "valid_date y m d"
  shows "date_of_day (day_of_date y m d) = (y, m, d)"
proof -
  define k where "k = before_month y m + d - 1"
  have m: "1 \<le> m" "m \<le> 12" "1 \<le> d" "k < before_month y (m + 1)" "before_month y m \<le> k"
    using assms by (auto simp: valid_date_def k_def month_days_def)
  have low: "before_month y 1 \<le> before_month y m" "before_month y (m + 1) \<le> before_month y 13"
    using before_month_mono [of 1 m y] before_month_mono [of "m + 1" 13 y] m by (cases "m = 1"; cases "m = 12"; simp)+
  then have k: "0 \<le> k" "k < before_month y 13" using m by (simp_all add: before_month_def)
  have year: "year_of (year_start y + k) = y"
    by (rule year_of_unique) (use k in \<open>simp_all add: year_start_Suc before_13\<close>)
  have "month_from y k 11 = m"
  proof (rule ccontr)
    note b = month_from_bounds [OF k(1), of y 11]
    assume "month_from y k 11 \<noteq> m"
    then consider "month_from y k 11 < m" | "m + 1 \<le> month_from y k 11" by linarith
    then show False
    proof cases
      case 1
      with b m have "k < before_month y m" by simp
      with m show False by simp
    next
      case 2
      with b before_month_mono [of "m + 1" "month_from y k 11" y] m
      have "before_month y (m + 1) \<le> k" by (cases "month_from y k 11 = m + 1") auto
      with m show False by simp
    qed
  qed
  moreover have "day_of_date y m d = year_start y + k - 719528" using m by (simp add: day_of_valid k_def)
  ultimately show ?thesis by (simp add: date_of_day_def Let_def year) (simp add: k_def)
qed

lemma date_of_day_valid:
  assumes "date_of_day n = (y, m, d)"
  shows "valid_date y m d \<and> day_of_date y m d = n"
proof -
  define n0 k where "n0 = n + 719528" and "k = n0 - year_start (year_of n0)"
  have k: "0 \<le> k" "k < before_month (year_of n0) 13"
    using year_of_bounds [of n0] by (simp_all add: k_def year_start_Suc before_13)
  have y: "y = year_of n0" "m = month_from y k 11" "d = k - before_month y m + 1"
    using assms by (auto simp: date_of_day_def Let_def n0_def k_def)
  have b: "1 \<le> m" "m \<le> 12" "before_month y m \<le> k" "m < 12 \<Longrightarrow> k < before_month y (m + 1)"
    using month_from_bounds [OF k(1), of y 11] by (auto simp: y(2))
  have "k < before_month y (m + 1)" using b k y(1) by (cases "m = 12") auto
  with b y show ?thesis
    by (simp add: valid_date_def month_days_def day_of_valid) (simp add: n0_def k_def)
qed

lemma date_of_day_eq: "date_of_day n = (Year n, Month n, Day n)"
  by (simp add: Year_def Month_def Day_def)

lemma valid_today: "valid_date (Year n) (Month n) (Day n)"
  and day_of_today: "day_of_date (Year n) (Month n) (Day n) = n"
  using date_of_day_valid [OF date_of_day_eq] by auto

lemma tomorrow: "day_of_date (Year n) (Month n) (Day n + 1) = n + 1"
  using day_of_today [of n] valid_today [of n] by (simp add: day_of_valid valid_date_def)

lemma next_month:
  "n < day_of_date (Year n) (Month n + 1) 1"
  "n \<le> k \<Longrightarrow> k < day_of_date (Year n) (Month n + 1) 1 \<Longrightarrow> Month k = Month n"
proof -
  define y m d where "y = Year n" and "m = Month n" and "d = Day n"
  have v: "1 \<le> m" "m \<le> 12" "1 \<le> d" "d \<le> month_days y m" and n: "day_of_date y m d = n"
    using valid_today [of n] day_of_today [of n] by (simp_all add: y_def m_def d_def valid_date_def)
  have nm: "day_of_date y (m + 1) 1 = day_of_date y m (month_days y m + 1)"
  proof (cases "m = 12")
    case True
    then show ?thesis
      by (simp add: day_of_date_def Let_def month_days_def year_start_Suc) (simp add: before_month_def)
  next
    case False
    with v show ?thesis by (simp add: day_of_valid month_days_def)
  qed
  from nm v n show "n < day_of_date (Year n) (Month n + 1) 1"
    unfolding y_def [symmetric] m_def [symmetric] by (simp add: day_of_valid)
  show "Month k = Month n" if "n \<le> k" "k < day_of_date (Year n) (Month n + 1) 1"
  proof -
    have "day_of_date y m (d + (k - n)) = k" using n v by (simp add: day_of_valid)
    moreover have "valid_date y m (d + (k - n))"
      using that nm v n unfolding y_def [symmetric] m_def [symmetric] by (simp add: day_of_valid valid_date_def)
    ultimately show ?thesis using date_of_valid [of y m "d + (k - n)"] by (simp add: Month_def m_def)
  qed
qed

section \<open>Civil times in a location\<close>

type_synonym location = "int \<Rightarrow> int \<times> int \<times> int"

definition offset_at :: "location \<Rightarrow> int \<Rightarrow> int" where
  "offset_at loc sec = fst (loc sec)"

text \<open>\<^verbatim>\<open>time.Date\<close> of a wall-clock reading, in seconds since 1 January 1970 as if in UTC.\<close>

definition resolve :: "location \<Rightarrow> int \<Rightarrow> int" where
  "resolve loc wall =
     (let (off, start, stop) = loc wall in
      if off = 0 then wall
      else let utc = wall - off in
        if utc < start \<or> stop \<le> utc then wall - offset_at loc utc else utc)"

definition Date :: "location \<Rightarrow> int \<Rightarrow> int \<Rightarrow> int \<Rightarrow> int \<Rightarrow> int \<Rightarrow> int \<Rightarrow> int \<Rightarrow> time" where
  "Date loc y mo d h mi s ns =
     resolve loc (86400 * day_of_date y mo d + 3600 * h + 60 * mi + s) * second + ns"

definition wall :: "location \<Rightarrow> time \<Rightarrow> int" where
  "wall loc t = t div second + offset_at loc (t div second)"

definition day_at :: "location \<Rightarrow> time \<Rightarrow> int" where
  "day_at loc t = wall loc t div 86400"

definition AddDate :: "location \<Rightarrow> time \<Rightarrow> int \<Rightarrow> int \<Rightarrow> int \<Rightarrow> time" where
  "AddDate loc t years months days =
     (let n = day_at loc t; w = wall loc t mod 86400 in
      Date loc (Year n + years) (Month n + months) (Day n + days)
        (w div 3600) (w mod 3600 div 60) (w mod 60) (t mod second))"

text \<open>A zone without transitions, and UTC.\<close>

definition fixed_zone :: "int \<Rightarrow> location" where
  "fixed_zone off sec = (off, - (2 ^ 63), 2 ^ 63)"

definition UTC :: location where "UTC = fixed_zone 0"

lemma offset_fixed [simp]: "offset_at (fixed_zone off) sec = off"
  by (simp add: offset_at_def fixed_zone_def)

lemma resolve_fixed [simp]: "resolve (fixed_zone off) w = w - off"
  by (simp add: resolve_def Let_def offset_at_def fixed_zone_def)

end
