(* ===== verification/Cron.thy ===== *)
theory Cron
  imports Calendar Go_Strings "HOL-Library.Word"
begin

text \<open>
  The cron schedules of \<^verbatim>\<open>server/internal/cron/cron.go\<close>: the parser of five-field specs into
  bit masks, and the search for the next firing time.  Specs are ASCII.  The 64-bit \<^verbatim>\<open>int\<close>
  arithmetic of the mask loop is written out: it wraps, and a negative shift count panics.
\<close>

unbundle bit_operations_syntax

section \<open>Parsing\<close>

text \<open>
  The errors name the field.  Two outcomes are not errors of the parser: \<open>NegativeShift\<close> is the
  panic of a shift by a negative count, and \<open>NeverReturns\<close> a loop that does not end.
\<close>

datatype cron_error =
    FieldCount nat
  | EmptyElement string
  | InvalidStep string
  | ZeroStep string
  | ReversedRange string
  | StepRequiresRange string
  | InvalidValue string
  | OutOfRange string int
  | NegativeShift
  | NeverReturns

record field =
  fd_name :: string
  fd_min :: int
  fd_max :: int
  fd_names :: "(string \<times> int) list"

definition monthNames :: "(string \<times> int) list" where
  "monthNames = [(''jan'', 1), (''feb'', 2), (''mar'', 3), (''apr'', 4), (''may'', 5), (''jun'', 6),
     (''jul'', 7), (''aug'', 8), (''sep'', 9), (''oct'', 10), (''nov'', 11), (''dec'', 12)]"

definition dayNames :: "(string \<times> int) list" where
  "dayNames = [(''sun'', 0), (''mon'', 1), (''tue'', 2), (''wed'', 3), (''thu'', 4), (''fri'', 5), (''sat'', 6)]"

definition value_of :: "field \<Rightarrow> string \<Rightarrow> cron_error + int" where
  "value_of f s =
     (case map_of (fd_names f) (to_lower s) of
        Some v \<Rightarrow> Inr v
      | None \<Rightarrow>
          if \<not> isDigits s then Inl (InvalidValue (fd_name f))
          else (case Atoi s of
                  None \<Rightarrow> Inl (InvalidValue (fd_name f))
                | Some n \<Rightarrow>
                    if n < fd_min f \<or> n > fd_max f then Inl (OutOfRange (fd_name f) n) else Inr n))"

definition wrap64 :: "int \<Rightarrow> int" where
  "wrap64 n = (n + 2 ^ 63) mod 2 ^ 64 - 2 ^ 63"

text \<open>\<^verbatim>\<open>for v := lo; v <= hi; v += step { bits |= 1 << v }\<close>, over a \<^verbatim>\<open>uint64\<close> and an \<^verbatim>\<open>int\<close>.\<close>

partial_function (option) mask_loop :: "int \<Rightarrow> int \<Rightarrow> int \<Rightarrow> 64 word \<Rightarrow> (cron_error + 64 word) option" where
  "mask_loop v hi step bits =
     (if v > hi then Some (Inr bits)
      else if v < 0 then Some (Inl NegativeShift)
      else mask_loop (wrap64 (v + step)) hi step (bits OR push_bit (nat v) 1))"

declare mask_loop.simps [code]

definition run_mask :: "int \<Rightarrow> int \<Rightarrow> int \<Rightarrow> cron_error + 64 word" where
  "run_mask lo hi step = (case mask_loop lo hi step 0 of Some r \<Rightarrow> r | None \<Rightarrow> Inl NeverReturns)"

definition step_of :: "field \<Rightarrow> string \<Rightarrow> bool \<Rightarrow> cron_error + int" where
  "step_of f stepStr hasStep =
     (if \<not> hasStep then Inr 1
      else if \<not> isDigits stepStr then Inl (InvalidStep (fd_name f))
      else (case Atoi stepStr of
              None \<Rightarrow> Inl (InvalidStep (fd_name f))
            | Some n \<Rightarrow> if n = 0 then Inl (ZeroStep (fd_name f)) else Inr n))"

definition range_of :: "field \<Rightarrow> string \<Rightarrow> bool \<Rightarrow> cron_error + (int \<times> int)" where
  "range_of f base hasStep =
     (if base = ''*'' then Inr (fd_min f, fd_max f)
      else if CHR ''-'' \<in> set base then
        (let (loStr, hiStr, _) = cut CHR ''-'' base in
         case value_of f loStr of
           Inl e \<Rightarrow> Inl e
         | Inr lo \<Rightarrow>
             (case value_of f hiStr of
                Inl e \<Rightarrow> Inl e
              | Inr hi \<Rightarrow> if lo > hi then Inl (ReversedRange (fd_name f)) else Inr (lo, hi)))
      else
        (case value_of f base of
           Inl e \<Rightarrow> Inl e
         | Inr v \<Rightarrow> if hasStep then Inl (StepRequiresRange (fd_name f)) else Inr (v, v)))"

definition parsePart :: "field \<Rightarrow> string \<Rightarrow> cron_error + 64 word" where
  "parsePart f part =
     (let (base, stepStr, hasStep) = cut CHR ''/'' part in
      case step_of f stepStr hasStep of
        Inl e \<Rightarrow> Inl e
      | Inr step \<Rightarrow>
          (case range_of f base hasStep of
             Inl e \<Rightarrow> Inl e
           | Inr (lo, hi) \<Rightarrow> run_mask lo hi step))"

fun parse_parts :: "field \<Rightarrow> string list \<Rightarrow> 64 word \<Rightarrow> cron_error + 64 word" where
  "parse_parts f [] bits = Inr bits"
| "parse_parts f (part # parts) bits =
     (if part = [] then Inl (EmptyElement (fd_name f))
      else (case parsePart f part of Inl e \<Rightarrow> Inl e | Inr b \<Rightarrow> parse_parts f parts (bits OR b)))"

definition parse_field :: "field \<Rightarrow> string \<Rightarrow> cron_error + 64 word" where
  "parse_field f s = parse_parts f (split_on CHR '','' s) 0"

definition minute_field :: field where
  "minute_field = \<lparr>fd_name = ''minute'', fd_min = 0, fd_max = 59, fd_names = []\<rparr>"
definition hour_field :: field where
  "hour_field = \<lparr>fd_name = ''hour'', fd_min = 0, fd_max = 23, fd_names = []\<rparr>"
definition dom_field :: field where
  "dom_field = \<lparr>fd_name = ''day-of-month'', fd_min = 1, fd_max = 31, fd_names = []\<rparr>"
definition month_field :: field where
  "month_field = \<lparr>fd_name = ''month'', fd_min = 1, fd_max = 12, fd_names = monthNames\<rparr>"
definition dow_field :: field where
  "dow_field = \<lparr>fd_name = ''day-of-week'', fd_min = 0, fd_max = 7, fd_names = dayNames\<rparr>"

record schedule =
  sc_spec :: string
  sc_minute :: "64 word"
  sc_hour :: "64 word"
  sc_dom :: "64 word"
  sc_month :: "64 word"
  sc_dow :: "64 word"
  sc_domStar :: bool
  sc_dowStar :: bool

fun join_spaces :: "string list \<Rightarrow> string" where
  "join_spaces [] = []"
| "join_spaces [s] = s"
| "join_spaces (s # t # ss) = s @ '' '' @ join_spaces (t # ss)"

definition fold_sunday :: "64 word \<Rightarrow> 64 word" where
  "fold_sunday dow =
     (if dow AND push_bit 7 1 \<noteq> 0 then (dow AND NOT (push_bit 7 1)) OR 1 else dow)"

definition Parse :: "string \<Rightarrow> cron_error + schedule" where
  "Parse spec =
     (let fields = Fields spec in
      if length fields \<noteq> 5 then Inl (FieldCount (length fields))
      else
        case parse_field minute_field (fields ! 0) of Inl e \<Rightarrow> Inl e | Inr mi \<Rightarrow>
        (case parse_field hour_field (fields ! 1) of Inl e \<Rightarrow> Inl e | Inr h \<Rightarrow>
        (case parse_field dom_field (fields ! 2) of Inl e \<Rightarrow> Inl e | Inr d \<Rightarrow>
        (case parse_field month_field (fields ! 3) of Inl e \<Rightarrow> Inl e | Inr mo \<Rightarrow>
        (case parse_field dow_field (fields ! 4) of Inl e \<Rightarrow> Inl e | Inr w \<Rightarrow>
           Inr \<lparr>sc_spec = join_spaces fields, sc_minute = mi, sc_hour = h, sc_dom = d, sc_month = mo,
                sc_dow = fold_sunday w, sc_domStar = (fields ! 2 = ''*''), sc_dowStar = (fields ! 4 = ''*'')\<rparr>)))))"

section \<open>The next firing time\<close>

text \<open>\<^verbatim>\<open>mask & (1 << i) != 0\<close>\<close>

definition has :: "64 word \<Rightarrow> int \<Rightarrow> bool" where
  "has bits i \<longleftrightarrow> bits AND push_bit (nat i) 1 \<noteq> 0"

text \<open>A day is its number; \<open>noon\<close> anchors it in the location.\<close>

definition dayMatches :: "schedule \<Rightarrow> int \<Rightarrow> bool" where
  "dayMatches s n =
     (let domOK = has (sc_dom s) (Day n); dowOK = has (sc_dow s) (Weekday n)
      in if sc_domStar s then dowOK else if sc_dowStar s then domOK else domOK \<or> dowOK)"

definition noon :: "location \<Rightarrow> int \<Rightarrow> int \<Rightarrow> int \<Rightarrow> time" where
  "noon loc y mo d = Date loc y mo d 12 0 0 0"

fun earliest :: "time \<Rightarrow> time list \<Rightarrow> time \<Rightarrow> time" where
  "earliest after [] best = best"
| "earliest after (c # cs) best =
     earliest after cs (if c > after \<and> (best = zero_time \<or> c < best) then c else best)"

definition candidates :: "location \<Rightarrow> schedule \<Rightarrow> int \<Rightarrow> time list" where
  "candidates loc s n =
     [Date loc (Year n) (Month n) (Day n) h m 0 0.
        h \<leftarrow> [0..23], has (sc_hour s) h, m \<leftarrow> [0..59], has (sc_minute s) m]"

definition firstOnDay :: "location \<Rightarrow> schedule \<Rightarrow> int \<Rightarrow> time \<Rightarrow> time" where
  "firstOnDay loc s n after = earliest after (candidates loc s n) zero_time"

partial_function (option) next_from ::
  "location \<Rightarrow> schedule \<Rightarrow> time \<Rightarrow> time \<Rightarrow> time \<Rightarrow> time option" where
  "next_from loc s after limit day =
     (let n = day_at loc day in
      if \<not> day < limit then Some zero_time
      else if \<not> has (sc_month s) (Month n) then
        next_from loc s after limit (noon loc (Year n) (Month n + 1) 1)
      else if dayMatches s n \<and> firstOnDay loc s n after \<noteq> zero_time then
        Some (firstOnDay loc s n after)
      else next_from loc s after limit (noon loc (Year n) (Month n) (Day n + 1)))"

declare next_from.simps [code]

definition Next :: "location \<Rightarrow> schedule \<Rightarrow> time \<Rightarrow> time option" where
  "Next loc s after =
     (let n = day_at loc after
      in next_from loc s after (AddDate loc after 5 0 1) (noon loc (Year n) (Month n) (Day n)))"

section \<open>The mask loop\<close>

lemma wrap64_id: "- (2 ^ 63) \<le> n \<Longrightarrow> n < 2 ^ 63 \<Longrightarrow> wrap64 n = n"
  by (simp add: wrap64_def)

lemma wrap64_over: "2 ^ 63 \<le> n \<Longrightarrow> n < 2 ^ 64 \<Longrightarrow> wrap64 n = n - 2 ^ 64"
proof -
  assume n: "2 ^ 63 \<le> n" "n < 2 ^ 64"
  have "(n + 2 ^ 63) mod 2 ^ 64 = (n - 2 ^ 63 + 2 ^ 64) mod 2 ^ 64"
    by (rule arg_cong [where f = "\<lambda>x. x mod 2 ^ 64"]) simp
  also have "\<dots> = (n - 2 ^ 63) mod 2 ^ 64" by (rule mod_add_self2)
  also have "\<dots> = n - 2 ^ 63" using n by (intro mod_pos_pos_trivial) auto
  finally show ?thesis by (simp add: wrap64_def)
qed

text \<open>The values a loop from \<open>v\<close> to \<open>hi\<close> visits.\<close>

definition visits :: "int \<Rightarrow> int \<Rightarrow> int \<Rightarrow> int \<Rightarrow> bool" where
  "visits v hi step i \<longleftrightarrow> v \<le> i \<and> i \<le> hi \<and> (i - v) mod step = 0"

lemma visits_step:
  assumes "1 \<le> step" "v \<le> hi"
  shows "visits v hi step i \<longleftrightarrow> i = v \<or> visits (v + step) hi step i"
proof -
  have "v + step \<le> i" if "v \<le> i" "i \<noteq> v" "(i - v) mod step = 0"
  proof -
    have "\<not> i - v < step" using that assms zdvd_not_zless [of "i - v" step] by (auto simp: mod_eq_0_iff_dvd)
    then show ?thesis by simp
  qed
  moreover have "(i - (v + step)) mod step = (i - v) mod step" by (simp flip: diff_diff_eq)
  ultimately show ?thesis using assms by (auto simp: visits_def)
qed

lemma mask_loop_end: "hi < v \<Longrightarrow> mask_loop v hi step bits = Some (Inr bits)"
  by (subst mask_loop.simps) simp

lemma mask_loop_panic: "v \<le> hi \<Longrightarrow> v < 0 \<Longrightarrow> mask_loop v hi step bits = Some (Inl NegativeShift)"
  by (subst mask_loop.simps) simp

lemma mask_loop_bits:
  assumes "0 \<le> v" "v \<le> hi" "hi \<le> 63" "1 \<le> step" "v + step < 2 ^ 63"
  shows "\<exists>r. mask_loop v hi step bits = Some (Inr r) \<and>
    (\<forall>i. bit r i \<longleftrightarrow> bit bits i \<or> visits v hi step (int i))"
  using assms
proof (induction "nat (hi - v)" arbitrary: v bits rule: less_induct)
  case less
  define b where "b = bits OR push_bit (nat v) 1"
  have loop: "mask_loop v hi step bits = mask_loop (v + step) hi step b"
    using less.prems by (subst mask_loop.simps) (simp add: wrap64_id b_def)
  have b: "bit b i \<longleftrightarrow> bit bits i \<or> int i = v" for i
    using less.prems by (auto simp: b_def bit_simps simp del: push_bit_of_1)
  show ?case
  proof (cases "v + step \<le> hi")
    case True
    then have "\<exists>r. mask_loop (v + step) hi step b = Some (Inr r) \<and>
        (\<forall>i. bit r i \<longleftrightarrow> bit b i \<or> visits (v + step) hi step (int i))"
      using less.prems by (intro less.hyps) auto
    then show ?thesis using less.prems by (auto simp: loop b visits_step [of step v hi])
  next
    case False
    then have "visits v hi step i \<longleftrightarrow> i = v" for i
      using less.prems by (auto simp: visits_step [of step v hi] visits_def [of "v + step"])
    then show ?thesis using False by (auto simp: loop mask_loop_end b)
  qed
qed

lemma run_mask_panic:
  assumes "0 \<le> lo" "lo \<le> hi" "hi \<le> 63" "1 \<le> step" "step < 2 ^ 63" "2 ^ 63 \<le> lo + step"
  shows "run_mask lo hi step = Inl NegativeShift"
proof -
  have "wrap64 (lo + step) = lo + step - 2 ^ 64" using assms by (intro wrap64_over) auto
  then have "mask_loop (wrap64 (lo + step)) hi step b = Some (Inl NegativeShift)" for b
    using assms by (intro mask_loop_panic) auto
  then have "mask_loop lo hi step 0 = Some (Inl NegativeShift)"
    using assms by (subst mask_loop.simps) simp
  then show ?thesis by (simp add: run_mask_def)
qed

lemma run_mask_bits:
  assumes "0 \<le> lo" "lo \<le> hi" "hi \<le> 63" "1 \<le> step" "lo + step < 2 ^ 63"
  obtains r where "run_mask lo hi step = Inr r" "\<And>i. bit r i \<longleftrightarrow> visits lo hi step (int i)"
  using mask_loop_bits [OF assms, of 0] by (auto simp: run_mask_def)

lemma has_bit: "0 \<le> i \<Longrightarrow> has bits i \<longleftrightarrow> bit bits (nat i)"
proof -
  have "bits AND push_bit k 1 \<noteq> 0 \<longleftrightarrow> bit bits k" for k
    by (auto simp: bit_eq_iff [where 'a = "64 word"] bit_simps dest: bit_imp_possible_bit)
  then show ?thesis by (simp add: has_def)
qed

section \<open>Specs as they are written\<close>

text \<open>
  The grammar of the package comment, with its printing and its meaning: a value is a number or
  one of the field's names, an element is \<open>*\<close>, a value or a range, with an optional step.
\<close>

datatype cron_value = Num nat | Name nat
datatype cron_item = Every | One cron_value | Span cron_value cron_value

type_synonym cron_part = "cron_item \<times> nat option"

fun show_value :: "field \<Rightarrow> cron_value \<Rightarrow> string" where
  "show_value f (Num n) = show_nat n"
| "show_value f (Name k) = fst (fd_names f ! k)"

fun value_in :: "field \<Rightarrow> cron_value \<Rightarrow> int" where
  "value_in f (Num n) = int n"
| "value_in f (Name k) = snd (fd_names f ! k)"

fun value_ok :: "field \<Rightarrow> cron_value \<Rightarrow> bool" where
  "value_ok f (Num n) \<longleftrightarrow> fd_min f \<le> int n \<and> int n \<le> fd_max f"
| "value_ok f (Name k) \<longleftrightarrow> k < length (fd_names f)"

fun show_item :: "field \<Rightarrow> cron_item \<Rightarrow> string" where
  "show_item f Every = ''*''"
| "show_item f (One v) = show_value f v"
| "show_item f (Span v w) = show_value f v @ ''-'' @ show_value f w"

fun show_part :: "field \<Rightarrow> cron_part \<Rightarrow> string" where
  "show_part f (it, None) = show_item f it"
| "show_part f (it, Some n) = show_item f it @ ''/'' @ show_nat n"

fun show_parts :: "field \<Rightarrow> cron_part list \<Rightarrow> string" where
  "show_parts f [] = []"
| "show_parts f [p] = show_part f p"
| "show_parts f (p # q # ps) = show_part f p @ '','' @ show_parts f (q # ps)"

fun item_ok :: "field \<Rightarrow> cron_item \<Rightarrow> bool" where
  "item_ok f Every \<longleftrightarrow> True"
| "item_ok f (One v) \<longleftrightarrow> value_ok f v"
| "item_ok f (Span v w) \<longleftrightarrow> value_ok f v \<and> value_ok f w \<and> value_in f v \<le> value_in f w"

fun bounds_of :: "field \<Rightarrow> cron_item \<Rightarrow> int \<times> int" where
  "bounds_of f Every = (fd_min f, fd_max f)"
| "bounds_of f (One v) = (value_in f v, value_in f v)"
| "bounds_of f (Span v w) = (value_in f v, value_in f w)"

definition part_ok :: "field \<Rightarrow> cron_part \<Rightarrow> bool" where
  "part_ok f p \<longleftrightarrow> item_ok f (fst p) \<and>
     (case snd p of None \<Rightarrow> True
      | Some n \<Rightarrow> 1 \<le> n \<and> n < 2 ^ 62 \<and> (case fst p of One _ \<Rightarrow> False | _ \<Rightarrow> True))"

text \<open>What an element stands for: the values it counts off.\<close>

definition part_has :: "field \<Rightarrow> cron_part \<Rightarrow> int \<Rightarrow> bool" where
  "part_has f p i \<longleftrightarrow>
     (let (lo, hi) = bounds_of f (fst p) in
      visits lo hi (case snd p of None \<Rightarrow> 1 | Some n \<Rightarrow> int n) i)"

definition letter :: "char \<Rightarrow> bool" where
  "letter c \<longleftrightarrow> CHR ''a'' \<le> c \<and> c \<le> CHR ''z''"

definition field_wf :: "field \<Rightarrow> bool" where
  "field_wf f \<longleftrightarrow> 0 \<le> fd_min f \<and> fd_min f \<le> fd_max f \<and> fd_max f \<le> 59 \<and> distinct (map fst (fd_names f)) \<and>
     (\<forall>(k, v) \<in> set (fd_names f). k \<noteq> [] \<and> list_all letter k \<and> fd_min f \<le> v \<and> v \<le> fd_max f)"

lemma fields_wf [simp]:
  "field_wf minute_field" "field_wf hour_field" "field_wf dom_field" "field_wf month_field" "field_wf dow_field"
  by (simp_all add: field_wf_def minute_field_def hour_field_def dom_field_def month_field_def
      dow_field_def monthNames_def dayNames_def letter_def less_eq_char_def)

text \<open>The characters of a value: none is a separator.\<close>

definition plain :: "char \<Rightarrow> bool" where
  "plain c \<longleftrightarrow> is_digit c \<or> letter c"

lemma plainD: "plain c \<Longrightarrow> c \<noteq> CHR '','' \<and> c \<noteq> CHR ''/'' \<and> c \<noteq> CHR ''-'' \<and> c \<noteq> CHR ''*'' \<and> \<not> is_space c"
  by (auto simp: plain_def is_digit_def letter_def less_eq_char_def is_space_def)

lemma lower_plain: "plain c \<Longrightarrow> lower_char c = c"
  by (auto simp: plain_def is_digit_def letter_def less_eq_char_def lower_char_def)

lemma digit_not_letter: "is_digit c \<Longrightarrow> \<not> letter c"
  by (auto simp: is_digit_def letter_def less_eq_char_def)

lemma to_lower_plain: "list_all plain s \<Longrightarrow> to_lower s = s"
  by (induction s) (simp_all add: to_lower_def lower_plain)

lemma show_nat_plain: "list_all plain (show_nat n)" "show_nat n \<noteq> []"
  using show_nat_digits [of n] by (auto simp: isDigits_def plain_def list_all_iff)

lemma names_range:
  assumes "field_wf f" "k < length (fd_names f)"
  shows "fd_min f \<le> snd (fd_names f ! k) \<and> snd (fd_names f ! k) \<le> fd_max f \<and>
    fst (fd_names f ! k) \<noteq> [] \<and> list_all letter (fst (fd_names f ! k))"
proof -
  obtain m v where kv: "fd_names f ! k = (m, v)" by fastforce
  then have "(m, v) \<in> set (fd_names f)" using nth_mem [OF assms(2)] by simp
  with assms(1) show ?thesis unfolding kv field_wf_def by auto
qed

lemma show_value_plain:
  assumes "field_wf f" "value_ok f v"
  shows "list_all plain (show_value f v) \<and> show_value f v \<noteq> []"
  using assms names_range [OF assms(1)] show_nat_plain
  by (cases v) (auto simp: list_all_iff plain_def)

lemma value_in_range: "field_wf f \<Longrightarrow> value_ok f v \<Longrightarrow> fd_min f \<le> value_in f v \<and> value_in f v \<le> fd_max f"
  using names_range [of f] by (cases v) auto

lemma value_of_show:
  assumes f: "field_wf f" and v: "value_ok f v"
  shows "value_of f (show_value f v) = Inr (value_in f v)"
proof (cases v)
  case (Num n)
  have "map_of (fd_names f) (show_nat n) = None"
  proof (rule ccontr)
    assume "\<not> ?thesis"
    then have "show_nat n \<in> fst ` set (fd_names f)" by (simp add: map_of_eq_None_iff)
    with f have "list_all letter (show_nat n)" "show_nat n \<noteq> []" by (auto simp: field_wf_def)
    with show_nat_digits [of n] show False
      by (cases "show_nat n") (auto simp: isDigits_def digit_not_letter)
  qed
  moreover have "n < 2 ^ 63" using f v Num by (simp add: field_wf_def)
  ultimately show ?thesis
    using Num v show_nat_digits [of n] show_nat_plain [of n] by (simp add: value_of_def to_lower_plain Atoi_show_nat)
next
  case (Name k)
  then have "fd_names f ! k \<in> set (fd_names f)" using v by simp
  then have "map_of (fd_names f) (fst (fd_names f ! k)) = Some (snd (fd_names f ! k))"
    using f by (simp add: field_wf_def)
  then show ?thesis using Name show_value_plain [OF f v] by (simp add: value_of_def to_lower_plain)
qed

lemma plain_not_mem: "list_all plain s \<Longrightarrow> CHR '','' \<notin> set s \<and> CHR ''/'' \<notin> set s \<and> CHR ''-'' \<notin> set s \<and>
    CHR ''*'' \<notin> set s \<and> list_all (\<lambda>c. \<not> is_space c) s"
  using plainD by (auto simp: list_all_iff)

lemma item_chars:
  assumes "field_wf f" "item_ok f it"
  shows "CHR ''/'' \<notin> set (show_item f it) \<and> CHR '','' \<notin> set (show_item f it) \<and> show_item f it \<noteq> [] \<and>
    list_all (\<lambda>c. \<not> is_space c) (show_item f it)"
proof (cases it)
  case Every
  then show ?thesis by (simp add: is_space_def)
next
  case (One v)
  then show ?thesis using assms show_value_plain [of f v] plain_not_mem by auto
next
  case (Span v w)
  then show ?thesis
    using assms show_value_plain [of f v] show_value_plain [of f w]
      plain_not_mem [of "show_value f v"] plain_not_mem [of "show_value f w"]
    by (auto simp: is_space_def)
qed

lemma range_of_show:
  assumes f: "field_wf f" and it: "item_ok f it" and "st \<Longrightarrow> \<not> (\<exists>v. it = One v)"
  shows "range_of f (show_item f it) st = Inr (bounds_of f it)"
proof (cases it)
  case Every
  then show ?thesis by (simp add: range_of_def)
next
  case (One v)
  with it have v: "value_ok f v" by simp
  note p = plain_not_mem [of "show_value f v"] show_value_plain [OF f v]
  then have "show_value f v \<noteq> ''*''" by auto
  with One p assms(3) show ?thesis by (cases st) (simp_all add: range_of_def value_of_show [OF f v])
next
  case (Span v w)
  with it have v: "value_ok f v" and w: "value_ok f w" by simp_all
  note p = plain_not_mem [of "show_value f v"] show_value_plain [OF f v]
  have "show_value f v @ CHR ''-'' # show_value f w \<noteq> ''*''" using p by (cases "show_value f v") auto
  with Span p it show ?thesis
    by (simp add: range_of_def cut_at value_of_show [OF f v] value_of_show [OF f w])
qed

lemma bounds_range:
  assumes "field_wf f" "item_ok f it"
  shows "fd_min f \<le> fst (bounds_of f it) \<and> fst (bounds_of f it) \<le> snd (bounds_of f it) \<and> snd (bounds_of f it) \<le> fd_max f"
  using assms value_in_range [OF assms(1)] by (cases it) (auto simp: field_wf_def)

lemma parsePart_show:
  assumes f: "field_wf f" and p: "part_ok f p"
  obtains r where "parsePart f (show_part f p) = Inr r" "\<And>i. bit r i \<longleftrightarrow> part_has f p (int i)"
proof -
  obtain it st where it: "p = (it, st)" by (cases p)
  define step where "step = (case st of None \<Rightarrow> 1 | Some n \<Rightarrow> int n)"
  have ok: "item_ok f it" using p it by (simp add: part_ok_def)
  note c = item_chars [OF f ok]
  have step: "1 \<le> step" "step < 2 ^ 62" using p it by (auto simp: part_ok_def step_def split: option.splits)
  have r: "range_of f (show_item f it) (st \<noteq> None) = Inr (bounds_of f it)"
    by (rule range_of_show [OF f ok]) (use p it in \<open>auto simp: part_ok_def split: option.splits\<close>)
  have "parsePart f (show_part f p) = run_mask (fst (bounds_of f it)) (snd (bounds_of f it)) step"
  proof (cases st)
    case None
    with it c r show ?thesis
      by (simp add: parsePart_def cut_absent step_of_def step_def split: prod.splits)
  next
    case (Some n)
    then have n: "1 \<le> n" "n < 2 ^ 63" using step by (simp_all add: step_def)
    with Some it c r show_nat_digits [of n] show ?thesis
      by (simp add: parsePart_def cut_at step_of_def step_def Atoi_show_nat split: prod.splits)
  qed
  moreover obtain r where "run_mask (fst (bounds_of f it)) (snd (bounds_of f it)) step = Inr r"
    "\<And>i. bit r i \<longleftrightarrow> visits (fst (bounds_of f it)) (snd (bounds_of f it)) step (int i)"
  proof (rule run_mask_bits [of "fst (bounds_of f it)" "snd (bounds_of f it)" step])
    show "0 \<le> fst (bounds_of f it)" "fst (bounds_of f it) \<le> snd (bounds_of f it)" "snd (bounds_of f it) \<le> 63"
      "1 \<le> step" "fst (bounds_of f it) + step < 2 ^ 63"
      using bounds_range [OF f ok] f step by (simp_all add: field_wf_def)
  qed blast
  ultimately show ?thesis using that by (auto simp: part_has_def it step_def split: prod.splits)
qed

lemma show_part_chars:
  assumes "field_wf f" "part_ok f p"
  shows "CHR '','' \<notin> set (show_part f p) \<and> show_part f p \<noteq> [] \<and> list_all (\<lambda>c. \<not> is_space c) (show_part f p)"
proof -
  obtain it st where p: "p = (it, st)" by (cases p)
  with assms have "item_ok f it" by (simp add: part_ok_def)
  note c = item_chars [OF assms(1) this]
  show ?thesis
  proof (cases st)
    case None
    with p c show ?thesis by simp
  next
    case (Some n)
    with p c plain_not_mem [OF show_nat_plain(1) [of n]] show ?thesis by (simp add: is_space_def)
  qed
qed

lemma split_show_parts:
  assumes f: "field_wf f"
  shows "list_all (part_ok f) ps \<Longrightarrow> ps \<noteq> [] \<Longrightarrow> split_on CHR '','' (show_parts f ps) = map (show_part f) ps"
proof (induction ps)
  case (Cons p ps)
  then have "CHR '','' \<notin> set (show_part f p)" using show_part_chars [OF f] by simp
  with Cons show ?case by (cases ps) (simp_all add: split_plain split_on_join)
qed simp

lemma show_parts_chars:
  assumes f: "field_wf f"
  shows "list_all (part_ok f) ps \<Longrightarrow> ps \<noteq> [] \<Longrightarrow>
    show_parts f ps \<noteq> [] \<and> list_all (\<lambda>c. \<not> is_space c) (show_parts f ps)"
proof (induction ps)
  case (Cons p ps)
  then show ?case using show_part_chars [OF f, of p] by (cases ps) (auto simp: is_space_def)
qed simp

lemma parse_parts_show:
  assumes f: "field_wf f"
  shows "list_all (part_ok f) ps \<Longrightarrow>
    \<exists>r. parse_parts f (map (show_part f) ps) bits = Inr r \<and>
      (\<forall>i. bit r i \<longleftrightarrow> bit bits i \<or> (\<exists>p \<in> set ps. part_has f p (int i)))"
proof (induction ps arbitrary: bits)
  case (Cons p ps)
  then have p: "part_ok f p" by simp
  obtain b where b: "parsePart f (show_part f p) = Inr b" "\<And>i. bit b i \<longleftrightarrow> part_has f p (int i)"
    using parsePart_show [OF f p] by blast
  have "\<exists>r. parse_parts f (map (show_part f) ps) (bits OR b) = Inr r \<and>
      (\<forall>i. bit r i \<longleftrightarrow> bit (bits OR b) i \<or> (\<exists>p \<in> set ps. part_has f p (int i)))"
    using Cons by simp
  then show ?case using b show_part_chars [OF f p] by (auto simp: bit_or_iff)
qed simp

definition field_means :: "field \<Rightarrow> cron_part list \<Rightarrow> int \<Rightarrow> bool" where
  "field_means f ps i \<longleftrightarrow> (\<exists>p \<in> set ps. part_has f p i)"

definition field_written :: "field \<Rightarrow> cron_part list \<Rightarrow> bool" where
  "field_written f ps \<longleftrightarrow> ps \<noteq> [] \<and> list_all (part_ok f) ps"

lemma parse_field_show:
  assumes "field_wf f" "field_written f ps"
  obtains r where "parse_field f (show_parts f ps) = Inr r" "\<And>i. bit r i \<longleftrightarrow> field_means f ps (int i)"
  using parse_parts_show [OF assms(1), of ps 0] split_show_parts [OF assms(1), of ps] assms(2)
  by (auto simp: parse_field_def field_written_def field_means_def)

lemma fields_from_word: "list_all (\<lambda>c. \<not> is_space c) a \<Longrightarrow> fields_from acc (a @ rest) = fields_from (rev a @ acc) rest"
  by (induction a arbitrary: acc) auto

lemma Fields_join:
  "list_all (\<lambda>s. s \<noteq> [] \<and> list_all (\<lambda>c. \<not> is_space c) s) ss \<Longrightarrow> Fields (join_spaces ss) = ss"
proof (induction ss rule: join_spaces.induct)
  case (2 s)
  then show ?case using fields_from_word [of s "[]" "[]"] by (simp add: Fields_def)
next
  case (3 s t ss)
  then show ?case
    using fields_from_word [of s "[]" "CHR '' '' # join_spaces (t # ss)"]
    by (simp add: Fields_def is_space_def)
qed (simp add: Fields_def)

lemma bit_fold_sunday:
  "bit (fold_sunday w) i \<longleftrightarrow> (i \<noteq> 7 \<and> bit w i) \<or> (i = 0 \<and> bit w 7)"
proof (cases "bit w 7")
  case True
  then have "w AND push_bit 7 1 \<noteq> 0" using has_bit [of 7 w] by (simp add: has_def)
  with True show ?thesis
    by (auto simp: fold_sunday_def bit_simps simp del: push_bit_of_1 dest: bit_imp_possible_bit)
next
  case False
  then have "w AND push_bit 7 1 = 0" using has_bit [of 7 w] by (simp add: has_def)
  with False show ?thesis by (auto simp: fold_sunday_def simp del: push_bit_of_1)
qed

section \<open>What any spec may do\<close>

lemma value_of_range: "field_wf f \<Longrightarrow> value_of f s = Inr v \<Longrightarrow> fd_min f \<le> v \<and> v \<le> fd_max f"
  by (auto simp: value_of_def field_wf_def split: option.splits if_splits dest!: map_of_SomeD)

lemma range_of_range:
  assumes "field_wf f" "range_of f base st = Inr (lo, hi)"
  shows "fd_min f \<le> lo \<and> lo \<le> hi \<and> hi \<le> fd_max f"
proof -
  consider "base = ''*''" | "base \<noteq> ''*''" "CHR ''-'' \<in> set base" | "base \<noteq> ''*''" "CHR ''-'' \<notin> set base" by blast
  then show ?thesis
  proof cases
    case 1
    with assms show ?thesis by (simp add: range_of_def field_wf_def)
  next
    case 2
    with assms(2) show ?thesis
      by (auto simp: range_of_def split: sum.splits prod.splits if_splits dest!: value_of_range [OF assms(1)])
  next
    case 3
    with assms(2) show ?thesis
      by (auto simp: range_of_def split: sum.splits if_splits dest!: value_of_range [OF assms(1)])
  qed
qed

lemma step_of_range:
  assumes "step_of f s h = Inr step"
  shows "1 \<le> step \<and> step < 2 ^ 63 \<and> (h \<and> step = digits_val s \<or> \<not> h \<and> step = 1)"
proof (cases h)
  case True
  with assms have d: "isDigits s" by (simp add: step_of_def split: if_splits)
  with True assms have "digits_val s < 2 ^ 63" "digits_val s \<noteq> 0" "step = digits_val s"
    by (simp_all add: step_of_def Atoi_digits split: if_splits)
  with isDigits_nonneg [OF d] True show ?thesis by simp
next
  case False
  with assms show ?thesis by (simp add: step_of_def)
qed

text \<open>A step so large that the loop variable overflows.\<close>

definition huge_step :: "string \<Rightarrow> bool" where
  "huge_step part = (let (base, stepStr, hasStep) = cut CHR ''/'' part in
     hasStep \<and> isDigits stepStr \<and> 2 ^ 63 - 59 \<le> digits_val stepStr)"

lemma step_of_errors: "step_of f s h \<noteq> Inl NegativeShift \<and> step_of f s h \<noteq> Inl NeverReturns"
  by (auto simp: step_of_def split: option.splits)

lemma value_of_errors: "value_of f s \<noteq> Inl NegativeShift \<and> value_of f s \<noteq> Inl NeverReturns"
  by (auto simp: value_of_def split: option.splits)

lemma range_of_errors: "range_of f s h \<noteq> Inl NegativeShift \<and> range_of f s h \<noteq> Inl NeverReturns"
  using value_of_errors by (auto simp: range_of_def split: sum.splits prod.splits)

lemma parsePart_outcome:
  assumes f: "field_wf f"
  shows "case parsePart f part of
      Inr r \<Rightarrow> r \<noteq> 0 \<and> (\<forall>i. bit r i \<longrightarrow> fd_min f \<le> int i \<and> int i \<le> fd_max f)
    | Inl e \<Rightarrow> e \<noteq> NeverReturns \<and> (e = NegativeShift \<longrightarrow> huge_step part)"
proof -
  obtain base st h where c: "cut CHR ''/'' part = (base, st, h)" by (cases "cut CHR ''/'' part")
  show ?thesis
  proof (cases "step_of f st h")
    case (Inl e)
    then show ?thesis using c step_of_errors [of f st h] by (auto simp: parsePart_def)
  next
    case step: (Inr step)
    note st = step_of_range [OF step]
    show ?thesis
    proof (cases "range_of f base h")
      case (Inl e)
      then show ?thesis using c step range_of_errors [of f base h] by (auto simp: parsePart_def)
    next
      case (Inr b)
      then obtain lo hi where r: "range_of f base h = Inr (lo, hi)" by (cases b) auto
      have p: "parsePart f part = run_mask lo hi step" using c step r by (simp add: parsePart_def)
      have b: "0 \<le> lo" "lo \<le> hi" "hi \<le> 59" "fd_min f \<le> lo" "hi \<le> fd_max f"
        using range_of_range [OF f r] f by (auto simp: field_wf_def)
      show ?thesis
      proof (cases "lo + step < 2 ^ 63")
        case True
        obtain w where w: "run_mask lo hi step = Inr w" "\<And>i. bit w i \<longleftrightarrow> visits lo hi step (int i)"
          using run_mask_bits [of lo hi step] b st True by auto
        have "bit w (nat lo)" using b w by (simp add: visits_def)
        then have "w \<noteq> 0" by auto
        with w b show ?thesis by (auto simp: p visits_def)
      next
        case False
        then have "run_mask lo hi step = Inl NegativeShift" using b st by (intro run_mask_panic) auto
        moreover have "h" "isDigits st" using False b st step by (auto simp: step_of_def split: if_splits)
        ultimately show ?thesis using False b st c by (auto simp: p huge_step_def)
      qed
    qed
  qed
qed

lemma parse_parts_outcome:
  assumes f: "field_wf f"
  shows "(\<forall>i. bit bits i \<longrightarrow> fd_min f \<le> int i \<and> int i \<le> fd_max f) \<Longrightarrow> bits \<noteq> 0 \<or> parts \<noteq> [] \<Longrightarrow>
    case parse_parts f parts bits of
      Inr r \<Rightarrow> r \<noteq> 0 \<and> (\<forall>i. bit r i \<longrightarrow> fd_min f \<le> int i \<and> int i \<le> fd_max f)
    | Inl e \<Rightarrow> e \<noteq> NeverReturns \<and> (e = NegativeShift \<longrightarrow> (\<exists>part \<in> set parts. huge_step part))"
proof (induction parts arbitrary: bits)
  case (Cons part parts)
  show ?case
  proof (cases "parsePart f part")
    case (Inl e)
    then show ?thesis using parsePart_outcome [OF f, of part] by auto
  next
    case (Inr r)
    then have r: "r \<noteq> 0" "\<forall>i. bit r i \<longrightarrow> fd_min f \<le> int i \<and> int i \<le> fd_max f"
      using parsePart_outcome [OF f, of part] by auto
    then have "bits OR r \<noteq> 0" "\<forall>i. bit (bits OR r) i \<longrightarrow> fd_min f \<le> int i \<and> int i \<le> fd_max f"
      using Cons.prems by (auto simp: bit_or_iff or_eq_0_iff)
    from Cons.IH [OF this(2)] this(1) Inr show ?thesis by (auto split: sum.splits)
  qed
qed simp

lemma parse_field_outcome:
  assumes "field_wf f"
  shows "case parse_field f s of
      Inr r \<Rightarrow> r \<noteq> 0 \<and> (\<forall>i. bit r i \<longrightarrow> fd_min f \<le> int i \<and> int i \<le> fd_max f)
    | Inl e \<Rightarrow> e \<noteq> NeverReturns \<and> (e = NegativeShift \<longrightarrow> (\<exists>part \<in> set (split_on CHR '','' s). huge_step part))"
  unfolding parse_field_def by (rule parse_parts_outcome [OF assms]) auto

section \<open>Claims about the parser\<close>

lemma show_star:
  assumes f: "field_wf f" and w: "field_written f ps"
  shows "show_parts f ps = ''*'' \<longleftrightarrow> ps = [(Every, None)]"
proof -
  have val: "show_value f v \<noteq> []" "CHR ''*'' \<notin> set (show_value f v)" if "value_ok f v" for v
    using show_value_plain [OF f that] plain_not_mem by auto
  obtain p qs where ps: "ps = p # qs" "part_ok f p" "list_all (part_ok f) qs"
    using w by (cases ps) (auto simp: field_written_def)
  obtain it st where p: "p = (it, st)" by (cases p)
  have ok: "item_ok f it" using ps p by (simp add: part_ok_def)
  have "show_part f p = ''*'' \<longleftrightarrow> it = Every \<and> st = None"
  proof (cases it)
    case (One v)
    then have "show_value f v \<noteq> []" "show_value f v \<noteq> ''*''" using ok val [of v] by auto
    with One p show ?thesis by (cases st) (auto simp: append_eq_Cons_conv)
  next
    case (Span v u)
    then show ?thesis using p ok val [of v] by (cases st) (auto simp: append_eq_Cons_conv)
  qed (use p in \<open>cases st; auto\<close>)
  moreover have "show_part f p \<noteq> []" using show_part_chars [OF f ps(2)] by simp
  ultimately show ?thesis using ps(1) p by (cases qs) (auto simp: append_eq_Cons_conv)
qed

text \<open>A spec as five lists of elements, and the day-of-week values with both Sundays.\<close>

definition show_spec :: "cron_part list \<Rightarrow> cron_part list \<Rightarrow> cron_part list \<Rightarrow> cron_part list \<Rightarrow> cron_part list \<Rightarrow> string" where
  "show_spec mi h d mo w = join_spaces [show_parts minute_field mi, show_parts hour_field h,
     show_parts dom_field d, show_parts month_field mo, show_parts dow_field w]"

definition spec_written :: "cron_part list \<Rightarrow> cron_part list \<Rightarrow> cron_part list \<Rightarrow> cron_part list \<Rightarrow> cron_part list \<Rightarrow> bool" where
  "spec_written mi h d mo w \<longleftrightarrow> field_written minute_field mi \<and> field_written hour_field h \<and>
     field_written dom_field d \<and> field_written month_field mo \<and> field_written dow_field w"

definition weekday_means :: "cron_part list \<Rightarrow> int \<Rightarrow> bool" where
  "weekday_means w i \<longleftrightarrow> (i \<noteq> 7 \<and> field_means dow_field w i) \<or> (i = 0 \<and> field_means dow_field w 7)"

lemma has_means: "(\<And>i. bit r i \<longleftrightarrow> P (int i)) \<Longrightarrow> 0 \<le> i \<Longrightarrow> has r i \<longleftrightarrow> P i"
  by (simp add: has_bit)

lemma Parse_written:
  assumes "spec_written mi h d mo w"
  obtains s where "Parse (show_spec mi h d mo w) = Inr s"
    "\<And>i. 0 \<le> i \<Longrightarrow> has (sc_minute s) i \<longleftrightarrow> field_means minute_field mi i"
    "\<And>i. 0 \<le> i \<Longrightarrow> has (sc_hour s) i \<longleftrightarrow> field_means hour_field h i"
    "\<And>i. 0 \<le> i \<Longrightarrow> has (sc_dom s) i \<longleftrightarrow> field_means dom_field d i"
    "\<And>i. 0 \<le> i \<Longrightarrow> has (sc_month s) i \<longleftrightarrow> field_means month_field mo i"
    "\<And>i. 0 \<le> i \<Longrightarrow> has (sc_dow s) i \<longleftrightarrow> weekday_means w i"
    "sc_domStar s \<longleftrightarrow> d = [(Every, None)]" "sc_dowStar s \<longleftrightarrow> w = [(Every, None)]"
proof -
  have a: "field_written minute_field mi" "field_written hour_field h" "field_written dom_field d"
    "field_written month_field mo" "field_written dow_field w"
    using assms by (simp_all add: spec_written_def)
  obtain r1 where r1: "parse_field minute_field (show_parts minute_field mi) = Inr r1"
    "\<And>i. bit r1 i \<longleftrightarrow> field_means minute_field mi (int i)" by (rule parse_field_show [OF fields_wf(1) a(1)]) blast
  obtain r2 where r2: "parse_field hour_field (show_parts hour_field h) = Inr r2"
    "\<And>i. bit r2 i \<longleftrightarrow> field_means hour_field h (int i)" by (rule parse_field_show [OF fields_wf(2) a(2)]) blast
  obtain r3 where r3: "parse_field dom_field (show_parts dom_field d) = Inr r3"
    "\<And>i. bit r3 i \<longleftrightarrow> field_means dom_field d (int i)" by (rule parse_field_show [OF fields_wf(3) a(3)]) blast
  obtain r4 where r4: "parse_field month_field (show_parts month_field mo) = Inr r4"
    "\<And>i. bit r4 i \<longleftrightarrow> field_means month_field mo (int i)" by (rule parse_field_show [OF fields_wf(4) a(4)]) blast
  obtain r5 where r5: "parse_field dow_field (show_parts dow_field w) = Inr r5"
    "\<And>i. bit r5 i \<longleftrightarrow> field_means dow_field w (int i)" by (rule parse_field_show [OF fields_wf(5) a(5)]) blast
  have "list_all (\<lambda>s. s \<noteq> [] \<and> list_all (\<lambda>c. \<not> is_space c) s) [show_parts minute_field mi, show_parts hour_field h,
     show_parts dom_field d, show_parts month_field mo, show_parts dow_field w]"
    using a show_parts_chars by (simp add: field_written_def)
  then have F: "Fields (show_spec mi h d mo w) = [show_parts minute_field mi, show_parts hour_field h,
     show_parts dom_field d, show_parts month_field mo, show_parts dow_field w]"
    unfolding show_spec_def by (rule Fields_join)
  have dow: "bit (fold_sunday r5) i \<longleftrightarrow> weekday_means w (int i)" for i
    using r5(2) [of 7] by (auto simp: bit_fold_sunday r5(2) weekday_means_def)
  have star: "show_parts dom_field d = ''*'' \<longleftrightarrow> d = [(Every, None)]"
    "show_parts dow_field w = ''*'' \<longleftrightarrow> w = [(Every, None)]"
    using a by (simp_all add: show_star)
  have P: "Parse (show_spec mi h d mo w) =
      Inr \<lparr>sc_spec = show_spec mi h d mo w, sc_minute = r1, sc_hour = r2, sc_dom = r3, sc_month = r4,
        sc_dow = fold_sunday r5, sc_domStar = (d = [(Every, None)]), sc_dowStar = (w = [(Every, None)])\<rparr>"
    by (simp add: Parse_def F Let_def r1(1) r2(1) r3(1) r4(1) r5(1) star eval_nat_numeral)
      (simp add: show_spec_def)
  show thesis
    by (rule that [OF P]) (simp_all add: has_means [OF r1(2)] has_means [OF r2(2)] has_means [OF r3(2)]
      has_means [OF r4(2)] has_means [OF dow])
qed

end
