(* ===== verification/Cron_Next.thy ===== *)
theory Cron_Next
  imports Cron
begin

text \<open>
  What \<open>Next\<close> finds: in a zone whose noons are stable it always returns, with the first firing
  after the given time or with the zero time when the days up to the five-year limit hold none;
  in a zone without transitions the answer is the earliest instant the wall clock matches.
\<close>

section \<open>Zones\<close>

definition noon_day :: "location \<Rightarrow> int \<Rightarrow> time" where
  "noon_day loc n = resolve loc (86400 * n + 43200) * second"

text \<open>
  What the search relies on of the zone data: offsets are below a day, and the noon that
  \<^verbatim>\<open>time.Date\<close> builds for a date is read back as that date.
\<close>

definition zone_ok :: "location \<Rightarrow> bool" where
  "zone_ok loc \<longleftrightarrow> (\<forall>sec. \<bar>offset_at loc sec\<bar> < 86400) \<and> (\<forall>n. day_at loc (noon_day loc n) = n)"

lemma noon_noon_day: "noon loc y mo d = noon_day loc (day_of_date y mo d)"
  by (simp add: noon_def Date_def noon_day_def)

lemma second_pos: "0 < second" by (simp add: second_def)

lemma wall_second [simp]: "wall loc (sec * second) = sec + offset_at loc sec"
  using second_pos by (simp add: wall_def)

lemma resolve_bounds:
  assumes "zone_ok loc"
  shows "w - 86400 < resolve loc w"
proof -
  have o: "offset_at loc u < 86400" for u using assms by (simp add: zone_ok_def abs_less_iff)
  obtain off st en where l: "loc w = (off, st, en)" by (cases "loc w")
  then have "off < 86400" using o [of w] by (simp add: offset_at_def)
  with l o [of "w - off"] show ?thesis by (auto simp: resolve_def Let_def)
qed

lemma noon_day_late: "zone_ok loc \<Longrightarrow> \<exists>b. \<forall>k \<ge> b. limit \<le> noon_day loc k"
proof (intro exI allI impI)
  fix k assume z: "zone_ok loc" and k: "(\<bar>limit\<bar> + 1 :: int) \<le> k"
  have "k \<le> 86400 * k + 43200 - 86400" using k by linarith
  then have "\<bar>limit\<bar> \<le> resolve loc (86400 * k + 43200)" using resolve_bounds [OF z, of "86400 * k + 43200"] k by linarith
  moreover from this have "resolve loc (86400 * k + 43200) * 1 \<le> resolve loc (86400 * k + 43200) * second"
    by (intro mult_left_mono) (auto simp: second_def)
  ultimately show "limit \<le> noon_day loc k" by (simp add: noon_day_def)
qed

lemma zone_fixed: "\<bar>off\<bar> < 86400 \<Longrightarrow> zone_ok (fixed_zone off)"
  by (simp add: zone_ok_def noon_day_def day_at_def)

section \<open>One day\<close>

text \<open>The instants the schedule fires at on day \<open>n\<close>.\<close>

definition fires_on :: "location \<Rightarrow> schedule \<Rightarrow> int \<Rightarrow> time \<Rightarrow> bool" where
  "fires_on loc s n t \<longleftrightarrow> has (sc_month s) (Month n) \<and> dayMatches s n \<and>
     (\<exists>h m. 0 \<le> h \<and> h \<le> 23 \<and> 0 \<le> m \<and> m \<le> 59 \<and> has (sc_hour s) h \<and> has (sc_minute s) m \<and>
        t = Date loc (Year n) (Month n) (Day n) h m 0 0)"

lemma candidates_iff:
  "t \<in> set (candidates loc s n) \<longleftrightarrow>
   (\<exists>h m. 0 \<le> h \<and> h \<le> 23 \<and> 0 \<le> m \<and> m \<le> 59 \<and> has (sc_hour s) h \<and> has (sc_minute s) m \<and>
      t = Date loc (Year n) (Month n) (Day n) h m 0 0)"
  by (simp add: candidates_def Bex_def) blast

lemma fires_on_iff:
  "fires_on loc s n t \<longleftrightarrow> has (sc_month s) (Month n) \<and> dayMatches s n \<and> t \<in> set (candidates loc s n)"
  unfolding fires_on_def candidates_iff ..

lemma earliest_props:
  assumes "zero_time \<le> after" "best = zero_time \<or> after < best"
  shows "(earliest after cs best = zero_time \<longleftrightarrow> best = zero_time \<and> (\<forall>c \<in> set cs. c \<le> after)) \<and>
    (earliest after cs best \<noteq> zero_time \<longrightarrow> after < earliest after cs best \<and>
      (earliest after cs best = best \<or> earliest after cs best \<in> set cs) \<and>
      (\<forall>c \<in> set cs. after < c \<longrightarrow> earliest after cs best \<le> c) \<and>
      (best \<noteq> zero_time \<longrightarrow> earliest after cs best \<le> best))"
  using assms(2)
proof (induction cs arbitrary: best)
  case (Cons c cs)
  define b where "b = (if c > after \<and> (best = zero_time \<or> c < best) then c else best)"
  have b: "b = zero_time \<or> after < b" using Cons.prems by (auto simp: b_def)
  have e: "earliest after (c # cs) best = earliest after cs b" by (simp add: b_def)
  have z: "b = zero_time \<longleftrightarrow> best = zero_time \<and> c \<le> after" using assms(1) Cons.prems by (auto simp: b_def)
  have m: "after < c \<Longrightarrow> b \<le> c" "best \<noteq> zero_time \<Longrightarrow> b \<le> best" "b = best \<or> b = c" by (auto simp: b_def)
  define r where "r = earliest after cs b"
  have r: "r = zero_time \<longleftrightarrow> b = zero_time \<and> (\<forall>c \<in> set cs. c \<le> after)"
    "r \<noteq> zero_time \<Longrightarrow> after < r" "r \<noteq> zero_time \<Longrightarrow> r = b \<or> r \<in> set cs"
    "r \<noteq> zero_time \<Longrightarrow> d \<in> set cs \<Longrightarrow> after < d \<Longrightarrow> r \<le> d" "r \<noteq> zero_time \<Longrightarrow> b \<noteq> zero_time \<Longrightarrow> r \<le> b" for d
    using Cons.IH [OF b] unfolding r_def by blast+
  have "r = zero_time \<longleftrightarrow> best = zero_time \<and> (\<forall>d \<in> set (c # cs). d \<le> after)" using r(1) z by auto
  moreover have "r = best \<or> r \<in> set (c # cs)" if "r \<noteq> zero_time" using r(3) [OF that] m(3) by auto
  moreover have "r \<le> c" if "r \<noteq> zero_time" "after < c"
    using r(5) [OF that(1)] m(1) [OF that(2)] z that by (meson not_le order_trans)
  moreover have "r \<le> best" if "r \<noteq> zero_time" "best \<noteq> zero_time"
    using r(5) [OF that(1)] m(2) [OF that(2)] z that by (meson order_trans)
  ultimately show ?case using r(2,4) unfolding e r_def [symmetric] by simp
qed auto

lemma firstOnDay_zero:
  "zero_time \<le> after \<Longrightarrow> firstOnDay loc s n after = zero_time \<longleftrightarrow> (\<forall>c \<in> set (candidates loc s n). c \<le> after)"
  using earliest_props [of after zero_time "candidates loc s n"] by (simp add: firstOnDay_def)

lemma firstOnDay_first:
  "zero_time \<le> after \<Longrightarrow> firstOnDay loc s n after \<noteq> zero_time \<Longrightarrow>
   after < firstOnDay loc s n after \<and> firstOnDay loc s n after \<in> set (candidates loc s n) \<and>
   (\<forall>c \<in> set (candidates loc s n). after < c \<longrightarrow> firstOnDay loc s n after \<le> c)"
  using earliest_props [of after zero_time "candidates loc s n"] by (auto simp: firstOnDay_def)

section \<open>The search\<close>

lemma next_from_day:
  assumes "zone_ok loc"
  shows "next_from loc s after limit (noon_day loc n) =
     (if \<not> noon_day loc n < limit then Some zero_time
      else if \<not> has (sc_month s) (Month n) then
        next_from loc s after limit (noon_day loc (day_of_date (Year n) (Month n + 1) 1))
      else if dayMatches s n \<and> firstOnDay loc s n after \<noteq> zero_time then Some (firstOnDay loc s n after)
      else next_from loc s after limit (noon_day loc (n + 1)))"
  using assms by (subst next_from.simps) (simp add: zone_ok_def noon_noon_day tomorrow Let_def)

text \<open>Nothing fires after \<open>after\<close> on the days from \<open>n\<close> to before \<open>k\<close>.\<close>

definition quiet :: "location \<Rightarrow> schedule \<Rightarrow> time \<Rightarrow> int \<Rightarrow> int \<Rightarrow> bool" where
  "quiet loc s after n k \<longleftrightarrow> (\<forall>j t. n \<le> j \<longrightarrow> j < k \<longrightarrow> fires_on loc s j t \<longrightarrow> t \<le> after)"

lemma quiet_join: "quiet loc s after n m \<Longrightarrow> quiet loc s after m k \<Longrightarrow> quiet loc s after n k"
  unfolding quiet_def by (meson not_le)

definition found :: "location \<Rightarrow> schedule \<Rightarrow> time \<Rightarrow> time \<Rightarrow> int \<Rightarrow> time \<Rightarrow> bool" where
  "found loc s after limit n r \<longleftrightarrow>
     (if r = zero_time then \<exists>k \<ge> n. limit \<le> noon_day loc k \<and> quiet loc s after n k
      else \<exists>k \<ge> n. quiet loc s after n k \<and> fires_on loc s k r \<and> after < r \<and>
        (\<forall>t. fires_on loc s k t \<longrightarrow> after < t \<longrightarrow> r \<le> t))"

lemma found_later: "quiet loc s after n m \<Longrightarrow> n \<le> m \<Longrightarrow> found loc s after limit m r \<Longrightarrow> found loc s after limit n r"
  by (auto simp: found_def split: if_splits) (meson quiet_join order_trans)+

lemma next_from_finds:
  assumes z: "zone_ok loc" and a: "zero_time \<le> after"
  shows "\<exists>r. next_from loc s after limit (noon_day loc n) = Some r \<and> found loc s after limit n r"
proof -
  obtain b where b: "\<forall>k \<ge> b. limit \<le> noon_day loc k" using noon_day_late [OF z] by blast
  show ?thesis
  proof (induction "nat (b - n)" arbitrary: n rule: less_induct)
    case less
    note eq = next_from_day [OF z, of s after limit n]
    show ?case
    proof (cases "noon_day loc n < limit")
      case False
      then show ?thesis unfolding eq by (auto simp: found_def quiet_def)
    next
      case now: True
      then have nb: "n < b" using b by (meson not_le)
      have step: ?thesis if "n < m" "quiet loc s after n m"
        "next_from loc s after limit (noon_day loc n) = next_from loc s after limit (noon_day loc m)" for m
      proof -
        have "nat (b - m) < nat (b - n)" using that(1) nb by simp
        from less [OF this] that found_later [OF that(2)] show ?thesis by auto
      qed
      show ?thesis
      proof (cases "has (sc_month s) (Month n)")
        case False
        have "quiet loc s after n (day_of_date (Year n) (Month n + 1) 1)"
          unfolding quiet_def fires_on_def using False next_month(2) [of n] by metis
        with next_month(1) [of n] show ?thesis by (rule step) (simp add: eq now False)
      next
        case month: True
        show ?thesis
        proof (cases "dayMatches s n \<and> firstOnDay loc s n after \<noteq> zero_time")
          case True
          with firstOnDay_first [OF a, of loc s n] month now show ?thesis
            unfolding eq by (auto simp: found_def quiet_def fires_on_iff intro!: exI [of _ n])
        next
          case False
          then have "quiet loc s after n (n + 1)"
            using firstOnDay_zero [OF a, of loc s n] by (auto simp: quiet_def fires_on_iff)
          then show ?thesis by (rule step [rotated]) (use now month False in \<open>auto simp: eq\<close>)
        qed
      qed
    qed
  qed
qed

lemma Next_finds:
  assumes "zone_ok loc" "zero_time \<le> after"
  shows "\<exists>r. Next loc s after = Some r \<and> found loc s after (AddDate loc after 5 0 1) (day_at loc after) r"
  using next_from_finds [OF assms] by (simp add: Next_def noon_noon_day day_of_today Let_def)

section \<open>Claims\<close>

text \<open>Parsing reads the documented grammar: a spec written from five lists of elements - stars,
  numbers and names, ranges, steps - parses, each mask holds exactly the values its field's
  elements count off (both Sundays as day 0), and a day field is unrestricted only when it is
  a lone star.\<close>

theorem parse_reads_grammar:
  assumes "spec_written mi h d mo w"
  shows "\<exists>s. Parse (show_spec mi h d mo w) = Inr s \<and>
    (\<forall>i \<in> {0..59}. (has (sc_minute s) i \<longleftrightarrow> field_means minute_field mi i) \<and>
      (has (sc_hour s) i \<longleftrightarrow> field_means hour_field h i) \<and> (has (sc_dom s) i \<longleftrightarrow> field_means dom_field d i) \<and>
      (has (sc_month s) i \<longleftrightarrow> field_means month_field mo i) \<and> (has (sc_dow s) i \<longleftrightarrow> weekday_means w i)) \<and>
    (sc_domStar s \<longleftrightarrow> d = [(Every, None)]) \<and> (sc_dowStar s \<longleftrightarrow> w = [(Every, None)])"
  by (rule Parse_written [OF assms]) auto

definition demo_mi :: "cron_part list" where "demo_mi = [(One (Num 30), None)]"
definition demo_h :: "cron_part list" where "demo_h = [(Span (Num 2) (Num 20), Some 6)]"
definition demo_mo :: "cron_part list" where "demo_mo = [(Span (Name 0) (Name 2), None), (One (Num 12), None)]"
definition demo_w :: "cron_part list" where "demo_w = [(One (Num 7), None)]"
definition star :: "cron_part list" where "star = [(Every, None)]"

lemma demo_written: "spec_written demo_mi demo_h star demo_mo demo_w"
  by (simp add: spec_written_def field_written_def part_ok_def demo_mi_def demo_h_def star_def demo_mo_def
      demo_w_def minute_field_def hour_field_def month_field_def monthNames_def dow_field_def)

lemma digit_chars:
  "char_of (48 :: nat) = CHR ''0''" "char_of (49 :: nat) = CHR ''1''" "char_of (50 :: nat) = CHR ''2''"
  "char_of (51 :: nat) = CHR ''3''" "char_of (54 :: nat) = CHR ''6''" "char_of (55 :: nat) = CHR ''7''"
  by code_simp+

lemma demo_spec: "show_spec demo_mi demo_h star demo_mo demo_w = ''30 2-20/6 * jan-mar,12 7''"
  by (simp add: show_spec_def demo_mi_def demo_h_def star_def demo_mo_def demo_w_def show_nat.simps
      month_field_def monthNames_def digit_chars)

lemma parse_reads_grammar_witness:
  "\<exists>s. Parse ''30 2-20/6 * jan-mar,12 7'' = Inr s \<and> has (sc_hour s) 14 \<and> \<not> has (sc_hour s) 15 \<and>
     has (sc_dow s) 0 \<and> sc_domStar s"
proof -
  from parse_reads_grammar [OF demo_written] obtain s where s:
    "Parse ''30 2-20/6 * jan-mar,12 7'' = Inr s"
    "\<forall>i \<in> {0..59}. (has (sc_hour s) i \<longleftrightarrow> field_means hour_field demo_h i) \<and>
       (has (sc_dow s) i \<longleftrightarrow> weekday_means demo_w i)" "sc_domStar s"
    unfolding demo_spec by (auto simp: star_def)
  have "field_means hour_field demo_h 14" "\<not> field_means hour_field demo_h 15" "weekday_means demo_w 0"
    by (simp_all add: field_means_def weekday_means_def demo_h_def demo_w_def part_has_def visits_def dow_field_def)
  with s show ?thesis by auto
qed

text \<open>C39. No spec hangs the parser, and what it accepts is a schedule: a successful parse has no
  empty mask and no value outside its field's range (day of week 0 to 6), and the only way the
  parser can end other than with a schedule or an error - the panic of a negative shift -
  needs a step within 59 of the largest \<^verbatim>\<open>int\<close>.\<close>

theorem parse_is_safe:
  "case Parse spec of
     Inr s \<Rightarrow> (\<forall>i. (bit (sc_minute s) i \<longrightarrow> i \<le> 59) \<and> (bit (sc_hour s) i \<longrightarrow> i \<le> 23) \<and>
         (bit (sc_dom s) i \<longrightarrow> 1 \<le> i \<and> i \<le> 31) \<and> (bit (sc_month s) i \<longrightarrow> 1 \<le> i \<and> i \<le> 12) \<and>
         (bit (sc_dow s) i \<longrightarrow> i \<le> 6)) \<and>
       sc_minute s \<noteq> 0 \<and> sc_hour s \<noteq> 0 \<and> sc_dom s \<noteq> 0 \<and> sc_month s \<noteq> 0 \<and> sc_dow s \<noteq> 0
   | Inl e \<Rightarrow> e \<noteq> NeverReturns \<and>
       (e = NegativeShift \<longrightarrow> (\<exists>f \<in> set (Fields spec). \<exists>part \<in> set (split_on CHR '','' f). huge_step part))"
proof (cases "length (Fields spec) = 5")
  case False
  then show ?thesis by (simp add: Parse_def)
next
  case True
  then have m: "Fields spec ! k \<in> set (Fields spec)" if "k < 5" for k using that by simp
  note o = parse_field_outcome [OF fields_wf(1), of "Fields spec ! 0"]
    parse_field_outcome [OF fields_wf(2), of "Fields spec ! 1"]
    parse_field_outcome [OF fields_wf(3), of "Fields spec ! 2"]
    parse_field_outcome [OF fields_wf(4), of "Fields spec ! 3"]
    parse_field_outcome [OF fields_wf(5), of "Fields spec ! 4"]
  have sunday: "fold_sunday w \<noteq> 0 \<and> (\<forall>i. bit (fold_sunday w) i \<longrightarrow> i \<le> 6)"
    if "w \<noteq> 0" "\<forall>i. bit w i \<longrightarrow> int i \<le> 7" for w :: "64 word"
  proof -
    obtain i where "bit w i" using \<open>w \<noteq> 0\<close> bit_eqI [of w 0] by auto
    then have "bit (fold_sunday w) (if i = 7 then 0 else i)" by (auto simp: bit_fold_sunday)
    then have "fold_sunday w \<noteq> 0" by auto
    moreover have "i \<le> 6" if "bit (fold_sunday w) i" for i
      using that \<open>\<forall>i. bit w i \<longrightarrow> int i \<le> 7\<close> by (auto simp: bit_fold_sunday dest!: spec [of _ i])
    ultimately show ?thesis by blast
  qed
  show ?thesis
  proof (cases "Parse spec")
    case (Inl e)
    with True o m [of 0] m [of 1] m [of 2] m [of 3] m [of 4] show ?thesis
      by (auto simp: Parse_def Let_def split: sum.splits)
  next
    case (Inr s)
    with True obtain r1 r2 r3 r4 r5 where
      "parse_field minute_field (Fields spec ! 0) = Inr r1" "parse_field hour_field (Fields spec ! 1) = Inr r2"
      "parse_field dom_field (Fields spec ! 2) = Inr r3" "parse_field month_field (Fields spec ! 3) = Inr r4"
      "parse_field dow_field (Fields spec ! 4) = Inr r5"
      and s: "sc_minute s = r1" "sc_hour s = r2" "sc_dom s = r3" "sc_month s = r4" "sc_dow s = fold_sunday r5"
      by (auto simp: Parse_def Let_def split: sum.splits)
    with o sunday [of r5] show ?thesis
      by (simp add: Inr minute_field_def hour_field_def dom_field_def month_field_def dow_field_def)
  qed
qed

lemma parse_is_safe_witness:
  "\<exists>s. Parse ''*/20 3 1 jan 7'' = Inr s \<and> sc_minute s \<noteq> 0 \<and> sc_dow s \<noteq> 0 \<and> \<not> bit (sc_dow s) 7"
proof -
  have "\<not> isl (Parse ''*/20 3 1 jan 7'')" by code_simp
  then obtain s where "Parse ''*/20 3 1 jan 7'' = Inr s" by (cases "Parse ''*/20 3 1 jan 7''") auto
  moreover from this parse_is_safe [of "''*/20 3 1 jan 7''"] have "sc_minute s \<noteq> 0" "sc_dow s \<noteq> 0"
    "bit (sc_dow s) 7 \<longrightarrow> (7 :: nat) \<le> 6" by auto
  ultimately show ?thesis by auto
qed

text \<open>A step near the largest \<^verbatim>\<open>int\<close> makes the parser panic instead of answering an error: the
  mask loop's variable overflows to a negative shift count.\<close>

lemma parse_step_overflow_panics:
  "Parse ''0 0 */9223372036854775807 * *'' = Inl NegativeShift \<and>
   \<not> isl (Parse ''*/9223372036854775807 0 * * *'')"
  by code_simp

text \<open>C40. In a real zone - offsets below a day and noons that read back as their date - the search
  always returns: either an instant after the given time, on a matching day, that no earlier
  firing of that day or of any day from today precedes; or the zero time, when no day from
  today up to one whose noon reaches the five-year limit fires after the given time.\<close>

theorem next_finds_first_day:
  assumes "zone_ok loc" "zero_time \<le> after"
  shows "\<exists>r. Next loc s after = Some r \<and>
    (if r = zero_time
     then \<exists>k \<ge> day_at loc after. AddDate loc after 5 0 1 \<le> noon_day loc k \<and>
       (\<forall>j t. day_at loc after \<le> j \<longrightarrow> j < k \<longrightarrow> fires_on loc s j t \<longrightarrow> t \<le> after)
     else after < r \<and> (\<exists>k \<ge> day_at loc after. fires_on loc s k r \<and>
       (\<forall>t. fires_on loc s k t \<longrightarrow> after < t \<longrightarrow> r \<le> t) \<and>
       (\<forall>j t. day_at loc after \<le> j \<longrightarrow> j < k \<longrightarrow> fires_on loc s j t \<longrightarrow> t \<le> after)))"
proof -
  obtain r where "Next loc s after = Some r" "found loc s after (AddDate loc after 5 0 1) (day_at loc after) r"
    using Next_finds [OF assms] by blast
  then show ?thesis unfolding found_def quiet_def by (intro exI [of _ r]) (simp split: if_splits, blast)
qed

text \<open>A zone that jumps from +01:00 to +02:00 at 01:00 UTC on 29 March 2026.\<close>

definition spring_zone :: location where
  "spring_zone sec = (if sec < 1774746000 then (3600, - (2 ^ 63), 1774746000) else (7200, 1774746000, 2 ^ 63))"

definition half_past_two :: schedule where
  "half_past_two = \<lparr>sc_spec = ''30 2 * * *'', sc_minute = push_bit 30 1, sc_hour = push_bit 2 1, sc_dom = - 2,
     sc_month = 8190, sc_dow = 127, sc_domStar = True, sc_dowStar = True\<rparr>"

lemma spring_zone_ok: "zone_ok spring_zone"
proof -
  have "day_at spring_zone (noon_day spring_zone n) = n" for n
  proof (cases "20541 \<le> n")
    case True
    then have "resolve spring_zone (86400 * n + 43200) = 86400 * n + 36000"
      by (simp add: resolve_def spring_zone_def offset_at_def Let_def)
    with True show ?thesis by (simp add: day_at_def noon_day_def offset_at_def spring_zone_def)
  next
    case False
    then have "resolve spring_zone (86400 * n + 43200) = 86400 * n + 39600"
      by (simp add: resolve_def spring_zone_def offset_at_def Let_def)
    with False show ?thesis by (simp add: day_at_def noon_day_def offset_at_def spring_zone_def)
  qed
  then show ?thesis by (simp add: zone_ok_def offset_at_def spring_zone_def)
qed

lemma half_past_two_next: "Next spring_zone half_past_two (1774699200 * 10 ^ 9) = Some (1774747800 * 10 ^ 9)"
  by code_simp

lemma next_finds_first_day_witness:
  "Next spring_zone half_past_two (1774699200 * 10 ^ 9) = Some (1774747800 * 10 ^ 9) \<and>
   (\<exists>k. fires_on spring_zone half_past_two k (1774747800 * 10 ^ 9))"
proof -
  have "zero_time \<le> 1774699200 * 10 ^ 9" by (simp add: zero_time_def)
  from next_finds_first_day [OF spring_zone_ok this, of half_past_two]
  obtain r where r: "Next spring_zone half_past_two (1774699200 * 10 ^ 9) = Some r"
    "r \<noteq> zero_time \<Longrightarrow> \<exists>k. fires_on spring_zone half_past_two k r" by (auto split: if_splits)
  then have "r = 1774747800 * 10 ^ 9" using half_past_two_next by simp
  with r show ?thesis by (simp add: zero_time_def)
qed

text \<open>The wall clock of the location reads a minute the schedule names.\<close>

definition wall_matches :: "location \<Rightarrow> schedule \<Rightarrow> time \<Rightarrow> bool" where
  "wall_matches loc s t \<longleftrightarrow> t mod second = 0 \<and> wall loc t mod 60 = 0 \<and>
     has (sc_month s) (Month (day_at loc t)) \<and> dayMatches s (day_at loc t) \<and>
     has (sc_hour s) (wall loc t mod 86400 div 3600) \<and> has (sc_minute s) (wall loc t mod 3600 div 60)"

lemma fires_fixed:
  "fires_on (fixed_zone off) s n t \<longleftrightarrow> wall_matches (fixed_zone off) s t \<and> day_at (fixed_zone off) t = n"
proof
  assume "fires_on (fixed_zone off) s n t"
  then obtain h m where hm: "0 \<le> h" "h \<le> 23" "0 \<le> m" "m \<le> 59" "has (sc_hour s) h" "has (sc_minute s) m"
    and t: "t = (86400 * n + 3600 * h + 60 * m - off) * second" and d: "has (sc_month s) (Month n)" "dayMatches s n"
    by (auto simp: fires_on_def Date_def day_of_today)
  have w: "wall (fixed_zone off) t = 86400 * n + (3600 * h + 60 * m)" by (simp add: t)
  have "(86400 * n + (3600 * h + 60 * m)) div 86400 = n"
    by (rule int_div_pos_eq [where r = "3600 * h + 60 * m"]) (use hm in auto)
  moreover have "(86400 * n + (3600 * h + 60 * m)) mod 86400 = 3600 * h + 60 * m"
    by (rule int_mod_pos_eq [where q = n]) (use hm in auto)
  moreover have "(3600 * h + 60 * m) div 3600 = h"
    by (rule int_div_pos_eq [where r = "60 * m"]) (use hm in auto)
  moreover have "(86400 * n + (3600 * h + 60 * m)) mod 3600 = 60 * m"
    by (rule int_mod_pos_eq [where q = "24 * n + h"]) (use hm in auto)
  moreover have "(86400 * n + (3600 * h + 60 * m)) mod 60 = 0"
    by (rule int_mod_pos_eq [where q = "1440 * n + 60 * h + m"]) auto
  moreover have "t mod second = 0" by (simp add: t)
  ultimately show "wall_matches (fixed_zone off) s t \<and> day_at (fixed_zone off) t = n"
    using hm d by (simp add: wall_matches_def day_at_def w)
next
  assume r: "wall_matches (fixed_zone off) s t \<and> day_at (fixed_zone off) t = n"
  define w where "w = wall (fixed_zone off) t"
  define h m where "h = w mod 86400 div 3600" and "m = w mod 3600 div 60"
  have "t = t div second * second" using r second_pos by (simp add: wall_matches_def minus_mod_eq_div_mult [symmetric])
  then have t: "t = (w - off) * second" by (simp add: w_def wall_def)
  have r2: "w mod 60 = 0" "n = w div 86400" using r by (auto simp: wall_matches_def w_def day_at_def)
  have "w mod 86400 mod 3600 = w mod 3600" "w mod 3600 mod 60 = w mod 60" by (simp_all add: mod_mod_cancel)
  then have w: "w = 86400 * n + 3600 * h + 60 * m"
    using mult_div_mod_eq [of 86400 w] mult_div_mod_eq [of 3600 "w mod 86400"] mult_div_mod_eq [of 60 "w mod 3600"] r2
    unfolding h_def m_def by linarith
  have range: "0 \<le> h" "h \<le> 23" "0 \<le> m" "m \<le> 59"
  proof -
    show "0 \<le> h" "0 \<le> m" by (simp_all add: h_def m_def pos_imp_zdiv_nonneg_iff)
    have "w mod 86400 < 86400" "w mod 3600 < 3600" by simp_all
    then have "3600 * h < 86400" "60 * m < 3600"
      using div_bounds(1) [of 3600 "w mod 86400"] div_bounds(1) [of 60 "w mod 3600"] unfolding h_def m_def by simp_all
    then show "h \<le> 23" "m \<le> 59" by simp_all
  qed
  show "fires_on (fixed_zone off) s n t"
    unfolding fires_on_def
  proof (intro conjI exI)
    show "t = Date (fixed_zone off) (Year n) (Month n) (Day n) h m 0 0"
      by (simp add: Date_def day_of_today t w)
  qed (use r range in \<open>auto simp: wall_matches_def h_def m_def w_def\<close>)
qed

lemma day_at_fixed_mono: "t \<le> u \<Longrightarrow> day_at (fixed_zone off) t \<le> day_at (fixed_zone off) u"
  using second_pos by (auto simp: day_at_def wall_def intro!: zdiv_mono1 add_right_mono)

lemma noon_fixed_mono: "j \<le> k \<Longrightarrow> noon_day (fixed_zone off) j \<le> noon_day (fixed_zone off) k"
  using second_pos by (auto simp: noon_day_def intro!: mult_right_mono)

text \<open>C27. Scheduling is right: in a zone of constant offset, whenever \<open>Next\<close> answers a time it is the
  earliest instant after the given one at which the wall clock matches the schedule, and when it
  answers the zero time every later match lies on a day at the five-year limit or beyond.\<close>

theorem next_is_earliest:
  assumes "\<bar>off\<bar> < 86400" "zero_time \<le> after" "loc = fixed_zone off"
  shows "\<exists>r. Next loc s after = Some r \<and>
    (if r = zero_time
     then \<forall>t. wall_matches loc s t \<longrightarrow> after < t \<longrightarrow> AddDate loc after 5 0 1 \<le> noon_day loc (day_at loc t)
     else after < r \<and> wall_matches loc s r \<and> (\<forall>t. wall_matches loc s t \<longrightarrow> after < t \<longrightarrow> r \<le> t))"
proof -
  obtain r where r: "Next loc s after = Some r" and
    f: "found loc s after (AddDate loc after 5 0 1) (day_at loc after) r"
    using Next_finds [OF zone_fixed [OF assms(1)] assms(2)] assms(3) by blast
  have later: "k \<le> day_at loc t" if "wall_matches loc s t" "after < t" "quiet loc s after (day_at loc after) k" for t k
  proof (rule ccontr)
    assume "\<not> ?thesis"
    moreover have "day_at loc after \<le> day_at loc t" using that(2) day_at_fixed_mono [of after t off] assms(3) by simp
    ultimately have "t \<le> after" using that(1,3) fires_fixed [of off s _ t] assms(3) by (auto simp: quiet_def)
    with that(2) show False by simp
  qed
  show ?thesis
  proof (cases "r = zero_time")
    case True
    then obtain k where k: "AddDate loc after 5 0 1 \<le> noon_day loc k" "quiet loc s after (day_at loc after) k"
      using f by (auto simp: found_def)
    have "AddDate loc after 5 0 1 \<le> noon_day loc (day_at loc t)" if "wall_matches loc s t" "after < t" for t
      using later [OF that k(2)] noon_fixed_mono [of k "day_at loc t" off] k(1) assms(3) by simp
    with r True show ?thesis by simp
  next
    case False
    then obtain k where k: "quiet loc s after (day_at loc after) k" "fires_on loc s k r" "after < r"
      "\<forall>t. fires_on loc s k t \<longrightarrow> after < t \<longrightarrow> r \<le> t"
      using f by (auto simp: found_def)
    then have m: "wall_matches loc s r" "day_at loc r = k" using fires_fixed [of off s k r] assms(3) by auto
    have "r \<le> t" if "wall_matches loc s t" "after < t" for t
    proof (cases "day_at loc t = k")
      case True
      then show ?thesis using that k(4) fires_fixed [of off s k t] assms(3) by blast
    next
      case False
      then have "day_at loc r < day_at loc t" using later [OF that k(1)] m(2) by simp
      then show ?thesis using day_at_fixed_mono [of t r off] assms(3) by fastforce
    qed
    with r False k(3) m(1) show ?thesis by auto
  qed
qed

lemma next_is_earliest_witness:
  "\<exists>r. Next UTC half_past_two 0 = Some r \<and> (\<forall>t. wall_matches UTC half_past_two t \<longrightarrow> 0 < t \<longrightarrow> 9000 * 10 ^ 9 \<le> t)"
proof -
  have n: "Next UTC half_past_two 0 = Some (9000 * 10 ^ 9)" by code_simp
  obtain r where r: "Next UTC half_past_two 0 = Some r"
    "r \<noteq> zero_time \<Longrightarrow> \<forall>t. wall_matches UTC half_past_two t \<longrightarrow> 0 < t \<longrightarrow> r \<le> t"
    using next_is_earliest [of 0 0 UTC half_past_two] by (auto simp: UTC_def zero_time_def split: if_splits)
  with n have "r = 9000 * 10 ^ 9" by simp
  with r show ?thesis by (auto simp: zero_time_def)
qed

end
