(* ===== verification/Perms.thy ===== *)
theory Perms
  imports Go_Strings "HOL-Library.List_Lexorder"
begin

text \<open>
  Accounts' permissions and content rules (service/perms.go, the caller of
  service/visibility.go): the permission set of an account row, its checks, the caller a request
  acts as, the tag rules asked item by item (\<open>matchesTagRules\<close>, \<open>allowedByContent\<close>) and
  the same rules compiled to a condition of the catalog's query engine (\<open>contentRuleNode\<close>),
  with the cache of stored spellings the compilation reads.

  Strings are ASCII, so \<^verbatim>\<open>strings.EqualFold\<close> is equality of the lowered strings.  What the
  catalog library answers is the record \<open>catalog\<close>: a read that can fail is optional.  The
  conditions of its query engine are the datatype \<open>node\<close>; what they mean is a parameter of the
  theorems, constrained by the laws stated in the theory Narrow.  The note a fallback leaves on
  the request (\<^verbatim>\<open>noteDegraded\<close>) is a boolean beside the result.
\<close>

section \<open>Permissions\<close>

record tag_rule =
  r_Key :: string
  r_Value :: string

record permissions =
  p_Download :: bool
  p_Delete :: bool
  p_Explicit :: bool
  p_SharedOutputs :: bool
  p_ManagePodcasts :: bool
  p_MaxTranscodeKbps :: int
  p_TagAllow :: "tag_rule list"
  p_TagDeny :: "tag_rule list"

definition DefaultPermissions :: permissions where
  "DefaultPermissions = \<lparr>p_Download = True, p_Delete = False, p_Explicit = True,
     p_SharedOutputs = True, p_ManagePodcasts = True, p_MaxTranscodeKbps = 0,
     p_TagAllow = [], p_TagDeny = []\<rparr>"

text \<open>
  The \<^verbatim>\<open>tag_rules\<close> column of an account row: empty, a JSON document, or text that is no such
  document.
\<close>

datatype tag_rules_column = NoDoc | TagRulesDoc "tag_rule list" "tag_rule list" | BadDoc

record account =
  a_ID :: string
  a_Username :: string
  a_DisplayName :: string
  a_PasswordHash :: string
  a_Roles :: "string list"
  a_Disabled :: bool
  a_Pending :: bool
  a_PermDownload :: bool
  a_PermDelete :: bool
  a_PermExplicit :: bool
  a_PermSharedOutputs :: bool
  a_PermPodcasts :: bool
  a_MaxTranscodeKbps :: int
  a_UploadEnabled :: bool
  a_UploadQuotaBytes :: int
  a_LibraryAccess :: string
  a_WaxbinUserPID :: string
  a_TagRules :: tag_rules_column
  a_CreatedAt :: time
  a_UpdatedAt :: time

definition permissionsOf :: "account \<Rightarrow> permissions" where
  "permissionsOf u =
    (let p = \<lparr>p_Download = a_PermDownload u, p_Delete = a_PermDelete u,
              p_Explicit = a_PermExplicit u, p_SharedOutputs = a_PermSharedOutputs u,
              p_ManagePodcasts = a_PermPodcasts u, p_MaxTranscodeKbps = a_MaxTranscodeKbps u,
              p_TagAllow = [], p_TagDeny = []\<rparr>
     in case a_TagRules u of
          TagRulesDoc allow deny \<Rightarrow> p\<lparr>p_TagAllow := allow, p_TagDeny := deny\<rparr>
        | _ \<Rightarrow> p)"

definition applyPermissions :: "account \<Rightarrow> permissions \<Rightarrow> account" where
  "applyPermissions u p =
    (let u' = u\<lparr>a_PermDownload := p_Download p, a_PermDelete := p_Delete p,
                a_PermExplicit := p_Explicit p, a_PermSharedOutputs := p_SharedOutputs p,
                a_PermPodcasts := p_ManagePodcasts p,
                a_MaxTranscodeKbps := p_MaxTranscodeKbps p\<rparr>
     in if p_TagAllow p = [] \<and> p_TagDeny p = [] then u'\<lparr>a_TagRules := NoDoc\<rparr>
        else u'\<lparr>a_TagRules := TagRulesDoc (p_TagAllow p) (p_TagDeny p)\<rparr>)"

datatype perm_error = Invalid string | Forbidden string | Internal

fun check_rules :: "tag_rule list \<Rightarrow> perm_error option" where
  "check_rules [] = None"
| "check_rules (r # rs) =
    (let key = TrimSpace (r_Key r) in
     if key = '''' \<or> key \<noteq> r_Key r
     then Some (Invalid ''tag rule keys must not be empty or carry surrounding whitespace'')
     else if 64 < length key then Some (Invalid ''tag rule keys must be at most 64 characters'')
     else if 256 < length (r_Value r)
     then Some (Invalid ''tag rule values must be at most 256 characters'')
     else check_rules rs)"

definition validatePermissions :: "permissions \<Rightarrow> perm_error option" where
  "validatePermissions p =
    (if p_MaxTranscodeKbps p < 0 then Some (Invalid ''maxTranscodeKbps must not be negative'')
     else case check_rules (p_TagAllow p @ p_TagDeny p) of
       Some e \<Rightarrow> Some e
     | None \<Rightarrow>
         if 32 < length (p_TagAllow p) \<or> 32 < length (p_TagDeny p)
         then Some (Invalid ''at most 32 tag rules per list'') else None)"

definition samePermissions :: "permissions \<Rightarrow> permissions \<Rightarrow> bool" where
  "samePermissions a b =
    (if p_TagAllow a \<noteq> p_TagAllow b \<or> p_TagDeny a \<noteq> p_TagDeny b then False
     else a\<lparr>p_TagAllow := [], p_TagDeny := []\<rparr> = b\<lparr>p_TagAllow := [], p_TagDeny := []\<rparr>)"

definition contentRulesChanged :: "permissions \<Rightarrow> permissions \<Rightarrow> bool" where
  "contentRulesChanged a b =
    (if p_Explicit a \<noteq> p_Explicit b then True
     else p_TagAllow a \<noteq> p_TagAllow b \<or> p_TagDeny a \<noteq> p_TagDeny b)"

definition hasRole :: "string list \<Rightarrow> string \<Rightarrow> bool" where
  "hasRole roles want = list_ex (\<lambda>r. r = want) roles"

definition UserSharedOutputsAllowed :: "account option \<Rightarrow> bool" where
  "UserSharedOutputsAllowed found =
    (case found of None \<Rightarrow> False
     | Some u \<Rightarrow> if a_Disabled u \<or> a_Pending u then False
                 else hasRole (a_Roles u) ''admin'' \<or> a_PermSharedOutputs u)"

section \<open>The caller\<close>

text \<open>\<open>uc_Libraries\<close> lists the keys of the map of granted libraries, every one of which is
  stored with \<^verbatim>\<open>true\<close>.\<close>

record user_ctx =
  uc_ID :: string
  uc_CatalogPID :: string
  uc_Admin :: bool
  uc_AllLibraries :: bool
  uc_Libraries :: "string list"
  uc_UploadEnabled :: bool
  uc_UploadQuotaBytes :: int
  uc_Download :: bool
  uc_Delete :: bool
  uc_Explicit :: bool
  uc_SharedOutputs :: bool
  uc_ManagePodcasts :: bool
  uc_MaxTranscodeKbps :: int
  uc_TagAllow :: "tag_rule list"
  uc_TagDeny :: "tag_rule list"

definition ContentUnrestricted :: "user_ctx \<Rightarrow> bool" where
  "ContentUnrestricted uc \<longleftrightarrow> uc_Explicit uc \<and> uc_TagAllow uc = [] \<and> uc_TagDeny uc = []"

definition seesEverything :: "user_ctx \<Rightarrow> bool" where
  "seesEverything uc \<longleftrightarrow> uc_AllLibraries uc \<and> ContentUnrestricted uc"

text \<open>\<open>UserCtx\<close> from an account row, its catalog user and the grants the database answers
  (\<open>None\<close> when that read fails, and with it the whole call).\<close>

definition UserCtx :: "account \<Rightarrow> string \<Rightarrow> string list option \<Rightarrow> user_ctx option" where
  "UserCtx u catalog_pid grants =
    (let admin = hasRole (a_Roles u) ''admin'';
         perms = (if admin
                  then \<lparr>p_Download = True, p_Delete = True, p_Explicit = True,
                        p_SharedOutputs = True, p_ManagePodcasts = True, p_MaxTranscodeKbps = 0,
                        p_TagAllow = [], p_TagDeny = []\<rparr>
                  else permissionsOf u);
         uc = \<lparr>uc_ID = a_ID u, uc_CatalogPID = catalog_pid, uc_Admin = admin,
               uc_AllLibraries = (admin \<or> a_LibraryAccess u \<noteq> ''granted''),
               uc_Libraries = [],
               uc_UploadEnabled = (a_UploadEnabled u \<or> admin),
               uc_UploadQuotaBytes = a_UploadQuotaBytes u,
               uc_Download = p_Download perms, uc_Delete = p_Delete perms,
               uc_Explicit = p_Explicit perms, uc_SharedOutputs = p_SharedOutputs perms,
               uc_ManagePodcasts = p_ManagePodcasts perms,
               uc_MaxTranscodeKbps = p_MaxTranscodeKbps perms,
               uc_TagAllow = p_TagAllow perms, uc_TagDeny = p_TagDeny perms\<rparr>
     in if uc_AllLibraries uc then Some uc
        else case grants of None \<Rightarrow> None
             | Some pids \<Rightarrow> Some (uc\<lparr>uc_Libraries := remdups pids\<rparr>))"

definition requirePodcastManagement :: "user_ctx \<Rightarrow> perm_error option" where
  "requirePodcastManagement uc =
    (if uc_ManagePodcasts uc then None
     else Some (Forbidden ''this account cannot manage podcasts''))"

section \<open>Items and the rules asked of one\<close>

datatype kind = KindTrack | KindEpisode | KindBook

datatype item_state = StatePresent | StateRemote | StateMissing | StateArchived

text \<open>What the views of the catalog project of an item; \<open>iv_AdvisoryFlagged\<close> is the answer of
  \<^verbatim>\<open>ItemView.AdvisoryFlagged\<close>.\<close>

record item_view =
  iv_PID :: string
  iv_Kind :: kind
  iv_State :: item_state
  iv_LibraryPID :: string
  iv_PodcastPID :: string
  iv_AdvisoryFlagged :: bool
  iv_DurationMS :: int

record item_tag =
  t_Key :: string
  t_Values :: "string list"

record episode =
  ep_PodcastPID :: string
  ep_Explicit :: bool

record facet_bucket =
  b_IsUnknown :: bool
  b_Display :: string

record generation =
  g_tail :: int
  g_vocab :: int

text \<open>The catalog as one request reads it.  \<open>ct_generation\<close> is the generation as a read
  starts, \<open>ct_generation_after f\<close> the one \<open>publishTagValues\<close> reads after the aggregation of
  the field \<open>f\<close>.\<close>

record catalog =
  ct_CanonicalTagKey :: "string \<Rightarrow> string option"
  ct_IsReservedTagKey :: "string \<Rightarrow> bool"
  ct_ItemTags :: "string \<Rightarrow> item_tag list option"
  ct_Get :: "string \<Rightarrow> item_view option"
  ct_Facet :: "string \<Rightarrow> facet_bucket list option"
  ct_generation :: generation
  ct_generation_after :: "string \<Rightarrow> generation"
  ct_ShowExplicit :: "string \<Rightarrow> bool option"
  ct_Subscriptions :: "string list option"
  ct_podcastLibrary :: "string \<times> bool"

fun tag_values_match :: "string list \<Rightarrow> string \<Rightarrow> bool" where
  "tag_values_match [] v = False"
| "tag_values_match (x # xs) v = (if EqualFold x v then True else tag_values_match xs v)"

fun tagRuleMatches :: "item_tag list \<Rightarrow> tag_rule \<Rightarrow> bool" where
  "tagRuleMatches [] r = False"
| "tagRuleMatches (tg # tags) r =
    (if \<not> EqualFold (t_Key tg) (r_Key r) then tagRuleMatches tags r
     else if r_Value r = '''' then True
     else if tag_values_match (t_Values tg) (r_Value r) then True
     else tagRuleMatches tags r)"

fun all_allow :: "item_tag list \<Rightarrow> tag_rule list \<Rightarrow> bool" where
  "all_allow tags [] = True"
| "all_allow tags (r # rs) = (if \<not> tagRuleMatches tags r then False else all_allow tags rs)"

fun none_deny :: "item_tag list \<Rightarrow> tag_rule list \<Rightarrow> bool" where
  "none_deny tags [] = True"
| "none_deny tags (r # rs) = (if tagRuleMatches tags r then False else none_deny tags rs)"

definition matchesTagRules :: "item_tag list \<Rightarrow> tag_rule list \<Rightarrow> tag_rule list \<Rightarrow> bool" where
  "matchesTagRules tags allow deny =
    (if \<not> all_allow tags allow then False else none_deny tags deny)"

definition advisoryAllows :: "user_ctx \<Rightarrow> item_view \<Rightarrow> bool" where
  "advisoryAllows uc it = (if uc_Admin uc \<or> uc_Explicit uc then True else \<not> iv_AdvisoryFlagged it)"

text \<open>The answer, and whether a failed read was noted.\<close>

definition allowedByContent :: "catalog \<Rightarrow> user_ctx \<Rightarrow> item_view \<Rightarrow> bool \<times> bool" where
  "allowedByContent ct uc it =
    (if uc_Admin uc \<or> ContentUnrestricted uc then (True, False)
     else if iv_Kind it = KindEpisode then (advisoryAllows uc it, False)
     else if uc_TagAllow uc = [] \<and> uc_TagDeny uc = [] then (True, False)
     else case ct_ItemTags ct (iv_PID it) of
       None \<Rightarrow> (False, True)
     | Some tags \<Rightarrow> (matchesTagRules tags (uc_TagAllow uc) (uc_TagDeny uc), False))"

definition contentAllowsPID :: "catalog \<Rightarrow> user_ctx \<Rightarrow> string \<Rightarrow> bool \<times> bool" where
  "contentAllowsPID ct uc pid =
    (if uc_Admin uc \<or> ContentUnrestricted uc then (True, False)
     else case ct_Get ct pid of None \<Rightarrow> (False, False) | Some it \<Rightarrow> allowedByContent ct uc it)"

definition episodeAllowed :: "catalog \<Rightarrow> user_ctx \<Rightarrow> episode option \<Rightarrow> bool" where
  "episodeAllowed ct uc ep =
    (case ep of None \<Rightarrow> False
     | Some e \<Rightarrow>
         if uc_Explicit uc then True
         else if ep_Explicit e then False
         else case ct_ShowExplicit ct (ep_PodcastPID e) of None \<Rightarrow> False | Some x \<Rightarrow> \<not> x)"

section \<open>Conditions of the query engine\<close>

datatype query_value = Text string | Num int | VKind kind | VState item_state

datatype op = OpIs | OpIsNot | OpIn | OpNotIn | OpIsPresent | OpIsMissing

text \<open>A condition carries one value, a list of values, or neither.\<close>

datatype node =
    Cond string op "query_value option" "query_value list"
  | And "node list"
  | Or "node list"
  | Not node

section \<open>The stored spellings of a tag\<close>

record tag_value_cache =
  tv_gen :: generation
  tv_byField :: "(string \<rightharpoonup> string list) option"

definition no_tag_values :: tag_value_cache where
  "no_tag_values = \<lparr>tv_gen = \<lparr>g_tail = 0, g_vocab = 0\<rparr>, tv_byField = None\<rparr>"

definition dominates :: "generation \<Rightarrow> generation \<Rightarrow> bool" where
  "dominates g o' \<longleftrightarrow> g_tail o' \<le> g_tail g \<and> g_vocab o' \<le> g_vocab g"

definition facetTagPrefix :: string where "facetTagPrefix = ''tag.''"

definition tagRuleField :: "catalog \<Rightarrow> string \<Rightarrow> string option" where
  "tagRuleField ct key =
    (case ct_CanonicalTagKey ct key of None \<Rightarrow> None
     | Some canonical \<Rightarrow>
         if ct_IsReservedTagKey ct canonical then None else Some (facetTagPrefix @ canonical))"

fun foldMatching :: "string list \<Rightarrow> string \<Rightarrow> string list" where
  "foldMatching [] value' = []"
| "foldMatching (s # stored) value' =
    (if EqualFold s value' then s # foldMatching stored value' else foldMatching stored value')"

text \<open>\<open>publishTagValues\<close>: \<open>now\<close> is the generation read before the lock is taken.\<close>

definition publishTagValues ::
    "generation \<Rightarrow> generation \<Rightarrow> string \<Rightarrow> string list \<Rightarrow> tag_value_cache \<Rightarrow> tag_value_cache" where
  "publishTagValues now gen field stored c =
    (if now \<noteq> gen then c
     else if tv_byField c \<noteq> None \<and> \<not> dominates gen (tv_gen c) then c
     else let c' = (if tv_gen c \<noteq> gen \<or> tv_byField c = None
                    then \<lparr>tv_gen = gen, tv_byField = Some Map.empty\<rparr> else c)
          in c'\<lparr>tv_byField := map_option (\<lambda>m. m(field \<mapsto> stored)) (tv_byField c')\<rparr>)"

definition held_values :: "tag_value_cache \<Rightarrow> generation \<Rightarrow> string \<Rightarrow> string list option" where
  "held_values c gen field =
    (if tv_gen c = gen then (case tv_byField c of None \<Rightarrow> None | Some m \<Rightarrow> m field) else None)"

definition stored_values :: "facet_bucket list \<Rightarrow> string list" where
  "stored_values bs = map b_Display (filter (\<lambda>b. \<not> b_IsUnknown b \<and> b_Display b \<noteq> '''') bs)"

text \<open>\<open>None\<close> is the error of the aggregation.\<close>

definition tagSpellings ::
    "catalog \<Rightarrow> tag_value_cache \<Rightarrow> string \<Rightarrow> string \<Rightarrow> string list option \<times> tag_value_cache" where
  "tagSpellings ct c field value' =
    (case held_values c (ct_generation ct) field of
       Some held \<Rightarrow> (Some (foldMatching held value'), c)
     | None \<Rightarrow>
        (case ct_Facet ct field of
           None \<Rightarrow> (None, c)
         | Some buckets \<Rightarrow>
             (let stored = stored_values buckets in
              (Some (foldMatching stored value'),
               publishTagValues (ct_generation_after ct field) (ct_generation ct) field stored c))))"

section \<open>The rules as a condition\<close>

datatype compiled = Conds "node list" | MatchNothing bool

text \<open>\<open>MatchNothing d\<close> is the early return with the empty \<^verbatim>\<open>Or\<close>; \<open>d\<close> says a failed read was
  noted.\<close>

fun allow_conds :: "catalog \<Rightarrow> tag_value_cache \<Rightarrow> tag_rule list \<Rightarrow> compiled \<times> tag_value_cache" where
  "allow_conds ct c [] = (Conds [], c)"
| "allow_conds ct c (r # rs) =
    (case tagRuleField ct (r_Key r) of
       None \<Rightarrow> (MatchNothing False, c)
     | Some field \<Rightarrow>
        if r_Value r = ''''
        then (case allow_conds ct c rs of
                (Conds ns, c') \<Rightarrow> (Conds (Cond field OpIsPresent None [] # ns), c')
              | (MatchNothing d, c') \<Rightarrow> (MatchNothing d, c'))
        else (case tagSpellings ct c field (r_Value r) of
                (None, c') \<Rightarrow> (MatchNothing True, c')
              | (Some spellings, c') \<Rightarrow>
                 (case allow_conds ct c' rs of
                    (Conds ns, c'') \<Rightarrow>
                      (Conds (Cond field OpIn None (map Text spellings) # ns), c'')
                  | (MatchNothing d, c'') \<Rightarrow> (MatchNothing d, c''))))"

fun deny_conds :: "catalog \<Rightarrow> tag_value_cache \<Rightarrow> tag_rule list \<Rightarrow> compiled \<times> tag_value_cache" where
  "deny_conds ct c [] = (Conds [], c)"
| "deny_conds ct c (r # rs) =
    (case tagRuleField ct (r_Key r) of
       None \<Rightarrow> deny_conds ct c rs
     | Some field \<Rightarrow>
        if r_Value r = ''''
        then (case deny_conds ct c rs of
                (Conds ns, c') \<Rightarrow> (Conds (Cond field OpIsMissing None [] # ns), c')
              | (MatchNothing d, c') \<Rightarrow> (MatchNothing d, c'))
        else (case tagSpellings ct c field (r_Value r) of
                (None, c') \<Rightarrow> (MatchNothing True, c')
              | (Some spellings, c') \<Rightarrow>
                  if spellings = [] then deny_conds ct c' rs
                  else (case deny_conds ct c' rs of
                    (Conds ns, c'') \<Rightarrow>
                      (Conds (Cond field OpNotIn None (map Text spellings) # ns), c'')
                  | (MatchNothing d, c'') \<Rightarrow> (MatchNothing d, c''))))"

definition episodesAside :: "node \<Rightarrow> node" where
  "episodesAside n = Or [Cond ''kind'' OpIs (Some (VKind KindEpisode)) [], n]"

text \<open>The condition (\<open>None\<close> is the nil node: no narrowing), the cache as the reads left it, and
  whether a failed read was noted.\<close>

definition contentRuleNode ::
    "catalog \<Rightarrow> tag_value_cache \<Rightarrow> user_ctx \<Rightarrow> node option \<times> tag_value_cache \<times> bool" where
  "contentRuleNode ct c uc =
    (if uc_Admin uc \<or> ContentUnrestricted uc then (None, c, False)
     else if uc_TagAllow uc = [] \<and> uc_TagDeny uc = [] then (None, c, False)
     else case allow_conds ct c (uc_TagAllow uc) of
       (MatchNothing d, c') \<Rightarrow> (Some (episodesAside (Or [])), c', d)
     | (Conds as, c') \<Rightarrow>
        (case deny_conds ct c' (uc_TagDeny uc) of
           (MatchNothing d, c'') \<Rightarrow> (Some (episodesAside (Or [])), c'', d)
         | (Conds ds, c'') \<Rightarrow>
             if as @ ds = [] then (None, c'', False)
             else (Some (episodesAside (And (as @ ds))), c'', False)))"

definition tagRestricted :: "user_ctx \<Rightarrow> bool" where
  "tagRestricted uc \<longleftrightarrow> \<not> uc_Admin uc \<and> (uc_TagAllow uc \<noteq> [] \<or> uc_TagDeny uc \<noteq> [])"

section \<open>Facts about permissions\<close>

lemma permissionsOf_applyPermissions: "permissionsOf (applyPermissions u p) = p"
  by (cases p) (auto simp: permissionsOf_def applyPermissions_def Let_def)

lemma samePermissions_iff: "samePermissions a b \<longleftrightarrow> a = b"
  by (cases a; cases b) (auto simp: samePermissions_def)

lemma contentRulesChanged_iff:
  "contentRulesChanged a b \<longleftrightarrow>
    \<not> (p_Explicit a = p_Explicit b \<and> p_TagAllow a = p_TagAllow b \<and> p_TagDeny a = p_TagDeny b)"
  by (auto simp: contentRulesChanged_def)

definition rule_ok :: "tag_rule \<Rightarrow> bool" where
  "rule_ok r \<longleftrightarrow> r_Key r \<noteq> '''' \<and> TrimSpace (r_Key r) = r_Key r \<and> length (r_Key r) \<le> 64
     \<and> length (r_Value r) \<le> 256"

lemma check_rules_None: "check_rules rs = None \<longleftrightarrow> (\<forall>r \<in> set rs. rule_ok r)"
  by (induction rs) (auto simp: rule_ok_def Let_def)

lemma validatePermissions_None:
  "validatePermissions p = None \<longleftrightarrow>
    0 \<le> p_MaxTranscodeKbps p \<and> (\<forall>r \<in> set (p_TagAllow p @ p_TagDeny p). rule_ok r)
      \<and> length (p_TagAllow p) \<le> 32 \<and> length (p_TagDeny p) \<le> 32"
  using check_rules_None [of "p_TagAllow p @ p_TagDeny p"]
  by (auto simp: validatePermissions_def not_less not_le split: option.splits)

lemma UserCtx_admin:
  "UserCtx u pid grants = Some uc \<Longrightarrow> uc_Admin uc \<Longrightarrow>
    uc_AllLibraries uc \<and> ContentUnrestricted uc \<and> uc_SharedOutputs uc \<and> uc_ManagePodcasts uc"
  by (auto simp: UserCtx_def Let_def ContentUnrestricted_def split: if_splits option.splits)

lemma UserCtx_member:
  "UserCtx u pid grants = Some uc \<Longrightarrow> \<not> uc_Admin uc \<Longrightarrow>
    uc_Explicit uc = p_Explicit (permissionsOf u) \<and> uc_TagAllow uc = p_TagAllow (permissionsOf u)
      \<and> uc_TagDeny uc = p_TagDeny (permissionsOf u)"
  by (auto simp: UserCtx_def Let_def split: if_splits option.splits)

section \<open>Facts about the rules\<close>

lemma tag_values_match_iff: "tag_values_match vs v \<longleftrightarrow> (\<exists>x \<in> set vs. EqualFold x v)"
  by (induction vs) auto

lemma tagRuleMatches_iff:
  "tagRuleMatches tags r \<longleftrightarrow>
    (\<exists>tg \<in> set tags. EqualFold (t_Key tg) (r_Key r)
       \<and> (r_Value r = '''' \<or> (\<exists>x \<in> set (t_Values tg). EqualFold x (r_Value r))))"
  by (induction tags) (auto simp: tag_values_match_iff)

lemma all_allow_iff: "all_allow tags rs \<longleftrightarrow> (\<forall>r \<in> set rs. tagRuleMatches tags r)"
  by (induction rs) auto

lemma none_deny_iff: "none_deny tags rs \<longleftrightarrow> (\<forall>r \<in> set rs. \<not> tagRuleMatches tags r)"
  by (induction rs) auto

lemma matchesTagRules_iff:
  "matchesTagRules tags allow deny \<longleftrightarrow>
    (\<forall>r \<in> set allow. tagRuleMatches tags r) \<and> (\<forall>r \<in> set deny. \<not> tagRuleMatches tags r)"
  by (simp add: matchesTagRules_def all_allow_iff none_deny_iff)

lemma set_foldMatching: "set (foldMatching vs v) = {x \<in> set vs. EqualFold x v}"
  by (induction vs) auto

section \<open>The spelling cache under every interleaving\<close>

lemma dominates_refl [simp]: "dominates g g"
  by (simp add: dominates_def)

lemma dominates_trans: "dominates a b \<Longrightarrow> dominates b c \<Longrightarrow> dominates a c"
  by (auto simp: dominates_def)

lemma dominates_antisym: "dominates a b \<Longrightarrow> dominates b a \<Longrightarrow> a = b"
  by (cases a; cases b) (auto simp: dominates_def)

text \<open>
  The cache and the generation the catalog is at.  A reader reads the generation \<open>gen\<close>, then the
  aggregation at \<open>at\<close>, then the generation \<open>check\<close> again, and takes the lock later still; in
  between the catalog and other readers move.  \<open>spell g f\<close> lists the spellings the catalog holds of
  the field \<open>f\<close> at the generation \<open>g\<close>.
\<close>

record tag_world =
  tw_now :: generation
  tw_cache :: tag_value_cache

definition tag_start :: "tag_world \<Rightarrow> bool" where
  "tag_start s \<longleftrightarrow> tw_cache s = no_tag_values"

inductive tag_step :: "(generation \<Rightarrow> string \<Rightarrow> string list) \<Rightarrow> tag_world \<Rightarrow> tag_world \<Rightarrow> bool"
  for spell where
    catalog_moves: "dominates g (tw_now s) \<Longrightarrow> tag_step spell s (s\<lparr>tw_now := g\<rparr>)"
  | reader_publishes:
      "dominates at gen \<Longrightarrow> dominates check at \<Longrightarrow> dominates (tw_now s) check \<Longrightarrow>
       tag_step spell s
         (s\<lparr>tw_cache := publishTagValues check gen field (spell at field) (tw_cache s)\<rparr>)"

definition tag_cache_ok :: "(generation \<Rightarrow> string \<Rightarrow> string list) \<Rightarrow> tag_world \<Rightarrow> bool" where
  "tag_cache_ok spell s \<longleftrightarrow>
    (case tv_byField (tw_cache s) of None \<Rightarrow> True
     | Some m \<Rightarrow> dominates (tw_now s) (tv_gen (tw_cache s))
         \<and> (\<forall>f vs. m f = Some vs \<longrightarrow> vs = spell (tv_gen (tw_cache s)) f))"

lemma tag_cache_ok_start: "tag_start s \<Longrightarrow> tag_cache_ok spell s"
  by (simp add: tag_start_def tag_cache_ok_def no_tag_values_def)

lemma tag_cache_ok_step:
  assumes "tag_step spell s t" "tag_cache_ok spell s"
  shows "tag_cache_ok spell t"
  using assms
proof cases
  case (catalog_moves g)
  with assms(2) show ?thesis
    by (auto simp: tag_cache_ok_def split: option.splits intro: dominates_trans)
next
  case (reader_publishes at gen check field)
  show ?thesis
  proof (cases "check = gen")
    case True
    with reader_publishes have "at = gen" by (auto intro: dominates_antisym)
    with True reader_publishes assms(2) show ?thesis
      by (auto simp: tag_cache_ok_def publishTagValues_def Let_def split: option.splits if_splits)
  next
    case False
    with reader_publishes assms(2) show ?thesis
      by (simp add: publishTagValues_def)
  qed
qed

interpretation tags: transition_system tag_start "tag_step spell" "tag_cache_ok spell"
  by unfold_locales (auto intro: tag_cache_ok_start tag_cache_ok_step)

lemma tag_cache_hit:
  "tag_cache_ok spell s \<Longrightarrow> held_values (tw_cache s) (tw_now s) f = Some vs \<Longrightarrow> vs = spell (tw_now s) f"
  by (auto simp: tag_cache_ok_def held_values_def split: option.splits if_splits)

text \<open>C18. In every interleaving of catalog changes and readers publishing what they read, a
  lookup of a tag's spellings answers exactly the spellings of the present catalog that fold to the
  rule's value, whether they come from the cache or from a fresh aggregation: an aggregation that
  was overtaken by a change is never served.\<close>

theorem spellings_are_current:
  assumes "tag_start s0" "(tag_step spell)\<^sup>*\<^sup>* s0 s"
    and "ct_generation ct = tw_now s"
    and "ct_Facet ct field = Some bs" "stored_values bs = spell (tw_now s) field"
  shows "fst (tagSpellings ct (tw_cache s) field v) = Some (foldMatching (spell (tw_now s) field) v)"
proof (cases "held_values (tw_cache s) (tw_now s) field")
  case None
  with assms show ?thesis by (simp add: tagSpellings_def Let_def)
next
  case (Some vs)
  with tags.inv_reachable [OF assms(1,2)] have "vs = spell (tw_now s) field"
    by (rule tag_cache_hit)
  with Some assms(3) show ?thesis by (simp add: tagSpellings_def)
qed

definition tag_example_catalog :: catalog where
  "tag_example_catalog = \<lparr>ct_CanonicalTagKey = Some, ct_IsReservedTagKey = (\<lambda>_. False),
     ct_ItemTags = (\<lambda>_. Some []), ct_Get = (\<lambda>_. None),
     ct_Facet = (\<lambda>_. Some [\<lparr>b_IsUnknown = False, b_Display = ''Jazz''\<rparr>,
                         \<lparr>b_IsUnknown = True, b_Display = ''''\<rparr>,
                         \<lparr>b_IsUnknown = False, b_Display = ''Rock''\<rparr>]),
     ct_generation = \<lparr>g_tail = 7, g_vocab = 1\<rparr>,
     ct_generation_after = (\<lambda>_. \<lparr>g_tail = 7, g_vocab = 1\<rparr>),
     ct_ShowExplicit = (\<lambda>_. None), ct_Subscriptions = Some [], ct_podcastLibrary = ('''', True)\<rparr>"

definition tag_example_world :: tag_world where
  "tag_example_world = \<lparr>tw_now = \<lparr>g_tail = 7, g_vocab = 1\<rparr>, tw_cache = no_tag_values\<rparr>"

lemma tag_example_values:
  "stored_values [\<lparr>b_IsUnknown = False, b_Display = ''Jazz''\<rparr>,
     \<lparr>b_IsUnknown = True, b_Display = ''''\<rparr>, \<lparr>b_IsUnknown = False, b_Display = ''Rock''\<rparr>]
    = [''Jazz'', ''Rock'']"
  by code_simp

lemma spellings_are_current_witness:
  "fst (tagSpellings tag_example_catalog
          (publishTagValues \<lparr>g_tail = 7, g_vocab = 1\<rparr> \<lparr>g_tail = 7, g_vocab = 1\<rparr> ''tag.MOOD''
             [''Jazz'', ''Rock''] no_tag_values) ''tag.MOOD'' ''JAZZ'')
    = Some [''Jazz'']"
proof -
  let ?g = "\<lparr>g_tail = 7, g_vocab = 1\<rparr>"
  let ?spell = "\<lambda>g f. [''Jazz'', ''Rock'']"
  let ?s = "tag_example_world\<lparr>tw_cache := publishTagValues ?g ?g ''tag.MOOD'' [''Jazz'', ''Rock'']
             (tw_cache tag_example_world)\<rparr>"
  let ?bs = "[\<lparr>b_IsUnknown = False, b_Display = ''Jazz''\<rparr>,
     \<lparr>b_IsUnknown = True, b_Display = ''''\<rparr>, \<lparr>b_IsUnknown = False, b_Display = ''Rock''\<rparr>]"
  have "tag_step ?spell tag_example_world ?s"
    by (rule reader_publishes [where spell = ?spell and at = ?g])
      (simp_all add: tag_example_world_def)
  then have run: "(tag_step ?spell)\<^sup>*\<^sup>* tag_example_world ?s" by (rule r_into_rtranclp)
  have "fst (tagSpellings tag_example_catalog (tw_cache ?s) ''tag.MOOD'' ''JAZZ'')
      = Some (foldMatching (?spell (tw_now ?s) ''tag.MOOD'') ''JAZZ'')"
    by (rule spellings_are_current [OF _ run, where bs = ?bs])
      (simp_all add: tag_start_def tag_example_world_def tag_example_catalog_def tag_example_values)
  moreover have "foldMatching [''Jazz'', ''Rock''] ''JAZZ'' = [''Jazz'']" by code_simp
  ultimately show ?thesis by (simp add: tag_example_world_def)
qed

end
