(* ===== verification/Narrow.thy ===== *)
theory Narrow
  imports Perms
begin

text \<open>
  What a listing offers a caller (service/visibility.go, service/playlists.go,
  service/podcasts.go, service/itemquery.go): the caller's library grants, followed shows and
  content rules, asked of one item view (\<open>memberVisible\<close>) and as a condition of the catalog's
  query engine (\<open>staticMemberNarrow\<close>), with the batch of tag verdicts between the two.

  The engine itself is not code of this repository.  A condition's meaning is a parameter
  \<open>sat\<close>, constrained by \<open>engine_laws\<close>; the columns it reads off an item are a parameter
  \<open>col\<close>, constrained by \<open>row_laws\<close>.
\<close>

section \<open>Library grants\<close>

definition podcastsJudged :: "catalog \<Rightarrow> user_ctx \<Rightarrow> bool \<times> bool" where
  "podcastsJudged ct uc =
    (if uc_AllLibraries uc then (True, True)
     else let (libPID, rd) = ct_podcastLibrary ct;
              visible = (libPID \<noteq> '''' \<and> libPID \<in> set (uc_Libraries uc))
          in (visible, visible \<or> rd))"

text \<open>The answer, and whether a read that failed was noted.\<close>

definition podcastsVisible :: "catalog \<Rightarrow> user_ctx \<Rightarrow> bool \<times> bool" where
  "podcastsVisible ct uc = (let (visible, judged) = podcastsJudged ct uc in (visible, \<not> judged))"

definition viewVisible :: "catalog \<Rightarrow> user_ctx \<Rightarrow> item_view \<Rightarrow> bool \<times> bool" where
  "viewVisible ct uc it =
    (if uc_AllLibraries uc then (True, False)
     else if iv_Kind it = KindEpisode then podcastsVisible ct uc
     else if iv_LibraryPID it = '''' then (False, False)
     else (iv_LibraryPID it \<in> set (uc_Libraries uc), False))"

definition catalogSetCap :: nat where "catalogSetCap = 500"

function chunked :: "nat \<Rightarrow> 'a list \<Rightarrow> 'a list list" where
  "chunked n xs = (if xs = [] \<or> n = 0 then [] else take n xs # chunked n (drop n xs))"
  by auto
termination by (relation "measure (length \<circ> snd)") (auto simp: neq_Nil_conv)

declare chunked.simps [simp del]

definition inSet :: "string \<Rightarrow> string list \<Rightarrow> node" where
  "inSet field values =
    (if length values \<le> catalogSetCap then Cond field OpIn None (map Text values)
     else Or (map (\<lambda>c. Cond field OpIn None (map Text c)) (chunked catalogSetCap values)))"

definition isEpisode :: node where
  "isEpisode = Cond ''kind'' OpIs (Some (VKind KindEpisode)) []"

definition isNotEpisode :: node where
  "isNotEpisode = Cond ''kind'' OpIsNot (Some (VKind KindEpisode)) []"

definition grantNode :: "catalog \<Rightarrow> user_ctx \<Rightarrow> node option \<times> bool" where
  "grantNode ct uc =
    (if uc_AllLibraries uc then (None, False)
     else let granted = inSet ''library'' (sort (uc_Libraries uc));
              (visible, noted) = podcastsVisible ct uc
          in if \<not> visible then (Some granted, noted)
             else (Some (Or [granted, isEpisode]), noted))"

section \<open>Followed shows\<close>

record subscription_filter =
  sf_loaded :: bool
  sf_failed :: bool
  sf_set :: "string list"

definition newSubscriptionFilter :: subscription_filter where
  "newSubscriptionFilter = \<lparr>sf_loaded = False, sf_failed = False, sf_set = []\<rparr>"

text \<open>\<open>subscribedShowSet\<close>: the keys of the map it builds.\<close>

definition subscribedShowSet :: "catalog \<Rightarrow> string list option" where
  "subscribedShowSet ct = map_option remdups (ct_Subscriptions ct)"

definition ensure :: "catalog \<Rightarrow> subscription_filter \<Rightarrow> subscription_filter \<times> bool" where
  "ensure ct f =
    (if sf_loaded f then (f, False)
     else case subscribedShowSet ct of
       None \<Rightarrow> (\<lparr>sf_loaded = True, sf_failed = True, sf_set = []\<rparr>, True)
     | Some s \<Rightarrow> (f\<lparr>sf_loaded := True, sf_set := s\<rparr>, False))"

text \<open>The answer, the filter as it was left, and whether a failed read was noted.\<close>

definition allowsEpisode ::
    "catalog \<Rightarrow> subscription_filter \<Rightarrow> item_view \<Rightarrow> bool \<times> subscription_filter \<times> bool" where
  "allowsEpisode ct f it =
    (let (f', noted) = ensure ct f in
     if sf_failed f' \<or> length (sf_set f') = 0 then (False, f', noted)
     else (iv_PodcastPID it \<in> set (sf_set f'), f', noted))"

definition allowsItem ::
    "catalog \<Rightarrow> subscription_filter \<Rightarrow> item_view \<Rightarrow> bool \<times> subscription_filter \<times> bool" where
  "allowsItem ct f it =
    (if iv_Kind it \<noteq> KindEpisode then (True, f, False) else allowsEpisode ct f it)"

definition allowsEpisodePID ::
    "catalog \<Rightarrow> subscription_filter \<Rightarrow> string \<Rightarrow> bool \<times> subscription_filter \<times> bool" where
  "allowsEpisodePID ct f pid =
    (let (f', noted) = ensure ct f in
     if sf_failed f' \<or> length (sf_set f') = 0 then (False, f', noted)
     else case ct_Get ct pid of None \<Rightarrow> (False, f', noted)
       | Some it \<Rightarrow> (let (ok, f'', n) = allowsEpisode ct f' it in (ok, f'', noted \<or> n)))"

definition followsAny :: "catalog \<Rightarrow> subscription_filter \<Rightarrow> bool \<times> subscription_filter \<times> bool" where
  "followsAny ct f =
    (let (f', noted) = ensure ct f in (\<not> sf_failed f' \<and> 0 < length (sf_set f'), f', noted))"

definition allowsShow ::
    "catalog \<Rightarrow> subscription_filter \<Rightarrow> string \<Rightarrow> bool \<times> subscription_filter \<times> bool" where
  "allowsShow ct f pid =
    (let (f', noted) = ensure ct f in (\<not> sf_failed f' \<and> pid \<in> set (sf_set f'), f', noted))"

section \<open>The caller's narrowing as a condition\<close>

definition the_nodes :: "node option \<Rightarrow> node list" where
  "the_nodes n = (case n of None \<Rightarrow> [] | Some x \<Rightarrow> [x])"

definition callerScopeNode ::
    "catalog \<Rightarrow> user_ctx \<Rightarrow> subscription_filter \<Rightarrow> bool \<Rightarrow> node \<times> subscription_filter \<times> bool" where
  "callerScopeNode ct uc subs episodes =
    (let (grants, noted) = grantNode ct uc in
     if \<not> episodes then (And (the_nodes grants), subs, noted)
     else let (subs', noted') = ensure ct subs;
              shows' = (if sf_failed subs' then [] else sort (sf_set subs'))
          in (And (the_nodes grants @ [Or [isNotEpisode, inSet ''podcast_pid'' shows']]),
              subs', noted \<or> noted'))"

definition contentNarrow ::
    "catalog \<Rightarrow> tag_value_cache \<Rightarrow> user_ctx \<Rightarrow> node list \<times> tag_value_cache \<times> bool" where
  "contentNarrow ct c uc =
    (let (rules, c', noted) = contentRuleNode ct c uc;
         nodes = the_nodes rules
     in (if \<not> uc_Admin uc \<and> \<not> uc_Explicit uc
         then nodes @ [Cond ''explicit'' OpIs (Some (Num 0)) [],
                       Cond ''podcast_explicit'' OpIs (Some (Num 0)) []]
         else nodes, c', noted))"

definition listingNarrow ::
    "catalog \<Rightarrow> tag_value_cache \<Rightarrow> user_ctx \<Rightarrow> subscription_filter \<Rightarrow> bool
      \<Rightarrow> node \<times> tag_value_cache \<times> subscription_filter \<times> bool" where
  "listingNarrow ct c uc subs episodes =
    (let (scope, subs', noted) = callerScopeNode ct uc subs episodes;
         (content, c', noted') = contentNarrow ct c uc
     in (And (scope # content), c', subs', noted \<or> noted'))"

definition readerNarrow :: "catalog \<Rightarrow> tag_value_cache \<Rightarrow> user_ctx \<Rightarrow> node \<times> tag_value_cache \<times> bool" where
  "readerNarrow ct c uc =
    (let (n, c', _, noted) = listingNarrow ct c uc newSubscriptionFilter True in (n, c', noted))"

definition unarchived :: node where
  "unarchived = Cond ''state'' OpIsNot (Some (VState StateArchived)) []"

definition staticMemberNarrow ::
    "catalog \<Rightarrow> tag_value_cache \<Rightarrow> user_ctx \<Rightarrow> node \<times> tag_value_cache \<times> bool" where
  "staticMemberNarrow ct c uc =
    (let (n, c', noted) = readerNarrow ct c uc in (And [unarchived, n], c', noted))"

section \<open>The caller's narrowing asked of an item\<close>

definition archived :: "item_view \<Rightarrow> bool" where
  "archived it \<longleftrightarrow> iv_State it = StateArchived"

text \<open>The verdicts of a batch are a set of pids, those the map holds with \<^verbatim>\<open>true\<close>; \<open>None\<close> is the
  nil map.\<close>

definition contentAllows ::
    "catalog \<Rightarrow> user_ctx \<Rightarrow> string list option \<Rightarrow> item_view \<Rightarrow> bool \<times> bool" where
  "contentAllows ct uc verdicts it =
    (case verdicts of
       Some allowed \<Rightarrow>
         if iv_Kind it \<noteq> KindEpisode \<and> \<not> archived it
         then (iv_PID it \<in> set allowed, False) else allowedByContent ct uc it
     | None \<Rightarrow> allowedByContent ct uc it)"

definition offersWith :: "catalog \<Rightarrow> user_ctx \<Rightarrow> string list option \<Rightarrow> item_view \<Rightarrow> bool \<times> bool" where
  "offersWith ct uc verdicts it =
    (if archived it then (False, False)
     else case viewVisible ct uc it of
       (False, n) \<Rightarrow> (False, n)
     | (True, n) \<Rightarrow> (let (ok, n') = contentAllows ct uc verdicts it in (ok, n \<or> n')))"

definition offers :: "catalog \<Rightarrow> user_ctx \<Rightarrow> item_view \<Rightarrow> bool \<times> bool" where
  "offers ct uc it = offersWith ct uc None it"

record member_filter =
  mf_subs :: subscription_filter
  mf_keepArchived :: bool
  mf_tagsAllowed :: "string list option"

definition memberVisible ::
    "catalog \<Rightarrow> user_ctx \<Rightarrow> member_filter \<Rightarrow> item_view \<Rightarrow> bool \<times> member_filter \<times> bool" where
  "memberVisible ct uc f it =
    (if archived it \<and> \<not> mf_keepArchived f then (False, f, False)
     else let (vis, n1) = viewVisible ct uc it in
       if \<not> vis then (False, f, n1)
       else let (ok, subs', n2) = allowsItem ct (mf_subs f) it;
                f' = f\<lparr>mf_subs := subs'\<rparr>
            in if \<not> ok then (False, f', n1 \<or> n2)
               else let (b, n3) = contentAllows ct uc (mf_tagsAllowed f') it
                    in (b, f', n1 \<or> n2 \<or> n3))"

text \<open>Walking the members of a list, as the count of a smart list and the listing do.\<close>

fun visible_members ::
    "catalog \<Rightarrow> user_ctx \<Rightarrow> member_filter \<Rightarrow> item_view list \<Rightarrow> item_view list" where
  "visible_members ct uc f [] = []"
| "visible_members ct uc f (it # its) =
    (let (b, f', _) = memberVisible ct uc f it in
     if b then it # visible_members ct uc f' its else visible_members ct uc f' its)"

section \<open>Tag verdicts in a batch\<close>

text \<open>A query run answers rows or fails; \<open>run n lim\<close> runs the condition \<open>n\<close> with the limit
  \<open>lim\<close>.  \<open>itemsAmong\<close> answers a map from pids, kept as an association list.\<close>

type_synonym query_run = "node \<Rightarrow> nat \<Rightarrow> item_view list option"

definition itemsAmongCap :: nat where "itemsAmongCap = 400"

fun among_chunks ::
    "query_run \<Rightarrow> node list \<Rightarrow> string list list \<Rightarrow> (string \<times> item_view) list
      \<Rightarrow> (string \<times> item_view) list option" where
  "among_chunks run base [] out = Some out"
| "among_chunks run base (chunk # rest) out =
    (case run (And (base @ [Cond ''pid'' OpIn None (map Text chunk)])) (length chunk) of
       None \<Rightarrow> None
     | Some items \<Rightarrow>
         among_chunks run base rest (fold (\<lambda>it m. AList.update (iv_PID it) it m) items out))"

definition itemsAmong ::
    "query_run \<Rightarrow> string list \<Rightarrow> node list \<Rightarrow> (string \<times> item_view) list option" where
  "itemsAmong run pids base = among_chunks run base (chunked itemsAmongCap pids) []"

fun verdict_pids :: "string list \<Rightarrow> item_view list \<Rightarrow> string list" where
  "verdict_pids seen [] = []"
| "verdict_pids seen (it # its) =
    (if iv_Kind it = KindEpisode \<or> archived it \<or> iv_PID it \<in> set seen then verdict_pids seen its
     else iv_PID it # verdict_pids (iv_PID it # seen) its)"

text \<open>The error, or the verdicts (\<open>None\<close> for a caller no rule narrows).\<close>

definition tagVerdicts ::
    "catalog \<Rightarrow> tag_value_cache \<Rightarrow> query_run \<Rightarrow> user_ctx \<Rightarrow> item_view list
      \<Rightarrow> string list option option \<times> tag_value_cache \<times> bool" where
  "tagVerdicts ct c run uc items =
    (if \<not> tagRestricted uc then (Some None, c, False)
     else case contentRuleNode ct c uc of
       (None, c', noted) \<Rightarrow> (Some None, c', noted)
     | (Some rules, c', noted) \<Rightarrow>
        (case itemsAmong run (verdict_pids [] items) [unarchived, rules] of
           None \<Rightarrow> (None, c', noted)
         | Some found \<Rightarrow> (Some (Some (map fst found)), c', noted)))"

definition withTagVerdicts ::
    "catalog \<Rightarrow> tag_value_cache \<Rightarrow> query_run \<Rightarrow> user_ctx \<Rightarrow> member_filter \<Rightarrow> item_view list
      \<Rightarrow> member_filter option" where
  "withTagVerdicts ct c run uc f members =
    (case fst (tagVerdicts ct c run uc members) of
       None \<Rightarrow> None | Some allowed \<Rightarrow> Some (f\<lparr>mf_tagsAllowed := allowed\<rparr>))"

section \<open>What the engine and the catalog promise\<close>

text \<open>
  The documented meaning of the conditions used here: \<^verbatim>\<open>And\<close> and \<^verbatim>\<open>Or\<close> over a list (an empty
  \<^verbatim>\<open>Or\<close> matches nothing), equality with one of the values an item has in a field, membership in a
  list of at most 500 values, and the negated operators, which are negations of the whole test
  (an item with two values in a field is excluded by either).
\<close>

definition engine_laws :: "(node \<Rightarrow> item_view \<Rightarrow> bool) \<Rightarrow> (item_view \<Rightarrow> string \<Rightarrow> query_value list) \<Rightarrow> bool" where
  "engine_laws sat col \<longleftrightarrow>
    (\<forall>i ns. sat (And ns) i \<longleftrightarrow> (\<forall>n \<in> set ns. sat n i))
  \<and> (\<forall>i ns. sat (Or ns) i \<longleftrightarrow> (\<exists>n \<in> set ns. sat n i))
  \<and> (\<forall>i f v. sat (Cond f OpIs (Some v) []) i \<longleftrightarrow> v \<in> set (col i f))
  \<and> (\<forall>i f v. f \<in> {''kind'', ''state''} \<longrightarrow> (sat (Cond f OpIsNot (Some v) []) i \<longleftrightarrow> v \<notin> set (col i f)))
  \<and> (\<forall>i f vs. length vs \<le> catalogSetCap \<longrightarrow>
       (sat (Cond f OpIn None vs) i \<longleftrightarrow> (\<exists>v \<in> set vs. v \<in> set (col i f))))
  \<and> (\<forall>i f vs. length vs \<le> catalogSetCap \<longrightarrow>
       (sat (Cond f OpNotIn None vs) i \<longleftrightarrow> \<not> (\<exists>v \<in> set vs. v \<in> set (col i f))))
  \<and> (\<forall>i f. sat (Cond f OpIsPresent None []) i \<longleftrightarrow> col i f \<noteq> [])
  \<and> (\<forall>i f. sat (Cond f OpIsMissing None []) i \<longleftrightarrow> col i f = [])"

text \<open>The columns of an item agree with its view and its tags.\<close>

definition tag_column :: "item_tag list \<Rightarrow> string \<Rightarrow> query_value list" where
  "tag_column tags k = map Text (concat (map t_Values (filter (\<lambda>t. t_Key t = k) tags)))"

definition row_laws ::
    "catalog \<Rightarrow> (item_view \<Rightarrow> string \<Rightarrow> query_value list) \<Rightarrow> item_view \<Rightarrow> bool" where
  "row_laws ct col it \<longleftrightarrow>
    col it ''kind'' = [VKind (iv_Kind it)] \<and> col it ''state'' = [VState (iv_State it)]
  \<and> col it ''pid'' = [Text (iv_PID it)]
  \<and> col it ''library'' = (if iv_LibraryPID it = '''' then [] else [Text (iv_LibraryPID it)])
  \<and> (iv_Kind it = KindEpisode \<longrightarrow> col it ''podcast_pid'' = [Text (iv_PodcastPID it)])
  \<and> ((Num 0 \<in> set (col it ''explicit'') \<and> Num 0 \<in> set (col it ''podcast_explicit'')) \<longleftrightarrow>
       (iv_Kind it = KindEpisode \<longrightarrow> \<not> iv_AdvisoryFlagged it))
  \<and> (case ct_ItemTags ct (iv_PID it) of None \<Rightarrow> False
     | Some tags \<Rightarrow> \<forall>k. col it (facetTagPrefix @ k) = tag_column tags k)"

text \<open>Stored tags have a canonical, unreserved key and a value; canonical keys ignore case, and
  the canonical form of a key without surrounding blanks differs from it in case only.\<close>

definition tag_laws :: "catalog \<Rightarrow> bool" where
  "tag_laws ct \<longleftrightarrow>
    (\<forall>pid tags. ct_ItemTags ct pid = Some tags \<longrightarrow> (\<forall>t \<in> set tags.
        ct_CanonicalTagKey ct (t_Key t) = Some (t_Key t) \<and> \<not> ct_IsReservedTagKey ct (t_Key t)
        \<and> t_Values t \<noteq> []))
  \<and> (\<forall>k k'. EqualFold k k' \<longrightarrow> ct_CanonicalTagKey ct k = ct_CanonicalTagKey ct k')
  \<and> (\<forall>k c. TrimSpace k = k \<longrightarrow> ct_CanonicalTagKey ct k = Some c \<longrightarrow> EqualFold c k)"

text \<open>The aggregation of a field, and what the cache holds of it for the present generation, list
  every value a live item has there; no 500 of them differ in case only.\<close>

definition covers :: "(item_view \<Rightarrow> string \<Rightarrow> query_value list) \<Rightarrow> item_view set \<Rightarrow> string \<Rightarrow> string list \<Rightarrow> bool" where
  "covers col its f vs \<longleftrightarrow>
    (\<forall>it \<in> its. \<not> archived it \<longrightarrow> (\<forall>v. v \<noteq> '''' \<longrightarrow> Text v \<in> set (col it f) \<longrightarrow> v \<in> set vs))
  \<and> (\<forall>v. length (foldMatching vs v) \<le> catalogSetCap)"

definition spellings_cover ::
    "catalog \<Rightarrow> tag_value_cache \<Rightarrow> (item_view \<Rightarrow> string \<Rightarrow> query_value list) \<Rightarrow> item_view set \<Rightarrow> bool" where
  "spellings_cover ct c col its \<longleftrightarrow>
    (\<forall>f bs. ct_Facet ct f = Some bs \<longrightarrow> covers col its f (stored_values bs))
  \<and> (\<forall>f vs. held_values c (ct_generation ct) f = Some vs \<longrightarrow> covers col its f vs)"

definition facets_readable :: "catalog \<Rightarrow> user_ctx \<Rightarrow> bool" where
  "facets_readable ct uc \<longleftrightarrow>
    (\<forall>r \<in> set (uc_TagAllow uc @ uc_TagDeny uc). \<forall>f. tagRuleField ct (r_Key r) = Some f \<longrightarrow>
       ct_Facet ct f \<noteq> None)"

definition rules_trimmed :: "user_ctx \<Rightarrow> bool" where
  "rules_trimmed uc \<longleftrightarrow>
    (\<forall>r \<in> set (uc_TagAllow uc @ uc_TagDeny uc). TrimSpace (r_Key r) = r_Key r)"

section \<open>Facts about the pieces\<close>

lemma EqualFold_nonempty: "EqualFold x v \<Longrightarrow> v \<noteq> '''' \<Longrightarrow> x \<noteq> ''''"
  by (auto simp: EqualFold_def to_lower_def)

lemma concat_chunked: "0 < n \<Longrightarrow> concat (chunked n xs) = xs"
proof (induction n xs rule: chunked.induct)
  case (1 n xs)
  then show ?case by (subst chunked.simps) auto
qed

lemma chunked_length: "c \<in> set (chunked n xs) \<Longrightarrow> length c \<le> n"
proof (induction n xs rule: chunked.induct)
  case (1 n xs)
  from 1(2) have "xs \<noteq> []" "n \<noteq> 0" "c = take n xs \<or> c \<in> set (chunked n (drop n xs))"
    by (subst (asm) chunked.simps, force split: if_splits)+
  with 1(1) show ?case by auto
qed

lemma held_publish:
  "held_values (publishTagValues now gen field stored c) gen f = Some vs \<Longrightarrow>
    (f = field \<and> vs = stored) \<or> held_values c gen f = Some vs"
  by (auto simp: held_values_def publishTagValues_def Let_def split: if_splits option.splits)

lemma tagSpellings_cover:
  assumes "spellings_cover ct c col its" "tagSpellings ct c f v = (r, c')"
  shows "spellings_cover ct c' col its"
  using assms
  by (auto simp: tagSpellings_def spellings_cover_def Let_def split: option.splits dest!: held_publish)

lemma tagSpellings_read:
  assumes "spellings_cover ct c col its" "tagSpellings ct c f v = (Some vs, c')"
  shows "length vs \<le> catalogSetCap
    \<and> (\<forall>x \<in> set vs. EqualFold x v)
    \<and> (\<forall>it \<in> its. \<not> archived it \<longrightarrow>
         (\<forall>x. EqualFold x v \<longrightarrow> v \<noteq> '''' \<longrightarrow> Text x \<in> set (col it f) \<longrightarrow> x \<in> set vs))"
proof -
  from assms obtain all where all: "vs = foldMatching all v" "covers col its f all"
    by (auto simp: tagSpellings_def spellings_cover_def Let_def split: option.splits)
  then show ?thesis
    by (auto simp: covers_def set_foldMatching dest: EqualFold_nonempty)
qed

lemma tagSpellings_fails:
  "tagSpellings ct c f v = (None, c') \<Longrightarrow> ct_Facet ct f = None"
  by (auto simp: tagSpellings_def Let_def split: option.splits)

section \<open>One rule, one condition\<close>

lemma tag_column_set:
  "set (tag_column tags k) = {Text v | v t. t \<in> set tags \<and> t_Key t = k \<and> v \<in> set (t_Values t)}"
  by (auto simp: tag_column_def)

text \<open>Everything the reads of one live item rest on.\<close>

definition item_reads ::
    "catalog \<Rightarrow> (node \<Rightarrow> item_view \<Rightarrow> bool) \<Rightarrow> (item_view \<Rightarrow> string \<Rightarrow> query_value list)
      \<Rightarrow> item_view set \<Rightarrow> item_view \<Rightarrow> item_tag list \<Rightarrow> bool" where
  "item_reads ct sat col its it tags \<longleftrightarrow>
    engine_laws sat col \<and> tag_laws ct \<and> row_laws ct col it
      \<and> ct_ItemTags ct (iv_PID it) = Some tags \<and> it \<in> its \<and> \<not> archived it"

lemma item_readsD:
  assumes "item_reads ct sat col its it tags"
  shows "engine_laws sat col" "tag_laws ct" "row_laws ct col it"
    "ct_ItemTags ct (iv_PID it) = Some tags" "it \<in> its" "\<not> archived it"
  using assms by (simp_all add: item_reads_def)

lemma field_key:
  assumes ir: "item_reads ct sat col its it tags"
    and "tagRuleField ct k = Some f" "TrimSpace k = k" "t \<in> set tags"
  shows "EqualFold (t_Key t) k \<longleftrightarrow> f = facetTagPrefix @ t_Key t"
proof -
  note keys = item_readsD(2) [OF ir] and tags = item_readsD(4) [OF ir]
  from assms(2) obtain c where c: "ct_CanonicalTagKey ct k = Some c" "f = facetTagPrefix @ c"
    by (auto simp: tagRuleField_def split: option.splits if_splits)
  from keys assms(4) tags have t: "ct_CanonicalTagKey ct (t_Key t) = Some (t_Key t)"
    by (auto simp: tag_laws_def)
  from keys c assms(3) have "EqualFold c k" by (auto simp: tag_laws_def)
  moreover from keys c t have "EqualFold (t_Key t) k \<Longrightarrow> t_Key t = c"
    by (auto simp: tag_laws_def)
  ultimately show ?thesis using c by auto
qed

lemma no_field_key:
  assumes ir: "item_reads ct sat col its it tags"
    and "tagRuleField ct k = None" "t \<in> set tags"
  shows "\<not> EqualFold (t_Key t) k"
proof
  note keys = item_readsD(2) [OF ir] and tags = item_readsD(4) [OF ir]
  assume "EqualFold (t_Key t) k"
  with keys have "ct_CanonicalTagKey ct k = ct_CanonicalTagKey ct (t_Key t)"
    by (simp add: tag_laws_def)
  with keys assms tags show False by (auto simp: tag_laws_def tagRuleField_def)
qed

lemma tag_values_nonempty:
  "item_reads ct sat col its it tags \<Longrightarrow> t \<in> set tags \<Longrightarrow> t_Values t \<noteq> []"
  by (auto simp: tag_laws_def item_reads_def)

lemma field_column:
  assumes ir: "item_reads ct sat col its it tags"
    and "tagRuleField ct k = Some f"
  obtains c where "f = facetTagPrefix @ c" "col it f = tag_column tags c"
  using assms item_readsD(3,4) [OF ir] that
  by (auto simp: tagRuleField_def row_laws_def split: option.splits if_splits)

lemma presence_matches:
  assumes ir: "item_reads ct sat col its it tags"
    and "tagRuleField ct (r_Key r) = Some f" "TrimSpace (r_Key r) = r_Key r" "r_Value r = ''''"
  shows "tagRuleMatches tags r \<longleftrightarrow> col it f \<noteq> []"
proof -
  obtain c where c: "f = facetTagPrefix @ c" "col it f = tag_column tags c"
    using field_column [OF assms(1,2)] .
  have "tagRuleMatches tags r \<longleftrightarrow> (\<exists>t \<in> set tags. t_Key t = c)"
    using assms c by (auto simp: tagRuleMatches_iff field_key [OF ir])
  also have "\<dots> \<longleftrightarrow> set (tag_column tags c) \<noteq> {}"
  proof -
    have "\<exists>v. v \<in> set (t_Values t)" if "t \<in> set tags" for t
      using tag_values_nonempty [OF ir that] by (cases "t_Values t") auto
    then show ?thesis unfolding tag_column_set by blast
  qed
  finally show ?thesis using c(2) by simp
qed

lemma value_matches:
  assumes ir: "item_reads ct sat col its it tags"
    and "tagRuleField ct (r_Key r) = Some f" "TrimSpace (r_Key r) = r_Key r" "r_Value r \<noteq> ''''"
  shows "tagRuleMatches tags r \<longleftrightarrow> (\<exists>x. Text x \<in> set (col it f) \<and> EqualFold x (r_Value r))"
proof -
  obtain c where c: "f = facetTagPrefix @ c" "col it f = tag_column tags c"
    using field_column [OF assms(1,2)] .
  show ?thesis using assms c by (auto simp: tagRuleMatches_iff field_key [OF ir] tag_column_set)
qed

lemma unaddressable_matches:
  "item_reads ct sat col its it tags \<Longrightarrow> tagRuleField ct (r_Key r) = None \<Longrightarrow> \<not> tagRuleMatches tags r"
  by (auto simp: tagRuleMatches_iff dest: no_field_key)

lemma spellings_decide:
  assumes ir: "item_reads ct sat col its it tags"
    and "spellings_cover ct c col its" "tagSpellings ct c f (r_Value r) = (Some vs, c')"
    and "tagRuleField ct (r_Key r) = Some f" "TrimSpace (r_Key r) = r_Key r" "r_Value r \<noteq> ''''"
  shows "length vs \<le> catalogSetCap \<and>
    (tagRuleMatches tags r \<longleftrightarrow> (\<exists>v \<in> set (map Text vs). v \<in> set (col it f)))"
  using tagSpellings_read [OF assms(2,3)] value_matches [OF assms(1,4-6)] item_readsD(5,6) [OF ir] assms(6)
  by auto

lemma allow_conds_sound:
  assumes ir: "item_reads ct sat col its it tags"
    and "spellings_cover ct c col its" "\<forall>r \<in> set rs. TrimSpace (r_Key r) = r_Key r"
    and "allow_conds ct c rs = (res, c')"
  shows "case res of
      Conds ns \<Rightarrow> spellings_cover ct c' col its \<and> ((\<forall>n \<in> set ns. sat n it) \<longleftrightarrow> all_allow tags rs)
    | MatchNothing d \<Rightarrow>
        if d then \<exists>r \<in> set rs. \<exists>f. tagRuleField ct (r_Key r) = Some f \<and> ct_Facet ct f = None
        else \<not> all_allow tags rs"
  using assms(2-)
proof (induction rs arbitrary: c c' res)
  case Nil
  then show ?case by auto
next
  case (Cons r rs)
  show ?case
  proof (cases "tagRuleField ct (r_Key r)")
    case None
    with Cons.prems show ?thesis by (auto simp: unaddressable_matches [OF ir])
  next
    case (Some f)
    show ?thesis
    proof (cases "r_Value r = ''''")
      case True
      obtain res0 c0 where rec: "allow_conds ct c rs = (res0, c0)" by (cases "allow_conds ct c rs")
      with Cons.IH [OF Cons.prems(1) _ rec] Cons.prems Some True item_readsD(1) [OF ir]
        presence_matches [OF ir Some _ True]
      show ?thesis
        by (auto simp: engine_laws_def split: compiled.splits if_splits)
    next
      case False
      obtain sp c1 where sp: "tagSpellings ct c f (r_Value r) = (sp, c1)"
        by (cases "tagSpellings ct c f (r_Value r)")
      show ?thesis
      proof (cases sp)
        case None
        with Cons.prems Some False sp show ?thesis by (auto dest: tagSpellings_fails)
      next
        case (Some vs)
        obtain res0 c0 where rec: "allow_conds ct c1 rs = (res0, c0)"
          by (cases "allow_conds ct c1 rs")
        have cov: "spellings_cover ct c1 col its"
          using tagSpellings_cover [OF Cons.prems(1) sp] .
        have dec: "length vs \<le> catalogSetCap \<and>
            (tagRuleMatches tags r \<longleftrightarrow> (\<exists>v \<in> set (map Text vs). v \<in> set (col it f)))"
          using spellings_decide [OF ir Cons.prems(1) sp [unfolded Some] \<open>tagRuleField ct (r_Key r) = Some f\<close> _ False]
            Cons.prems(2) by simp
        then have one: "sat (Cond f OpIn None (map Text vs)) it \<longleftrightarrow> tagRuleMatches tags r"
          using item_readsD(1) [OF ir] by (simp add: engine_laws_def)
        from Cons.IH [OF cov _ rec] Cons.prems \<open>tagRuleField ct (r_Key r) = Some f\<close> False sp Some rec one
        show ?thesis by (auto split: compiled.splits if_splits)
      qed
    qed
  qed
qed

lemma deny_conds_sound:
  assumes ir: "item_reads ct sat col its it tags"
    and "spellings_cover ct c col its" "\<forall>r \<in> set rs. TrimSpace (r_Key r) = r_Key r"
    and "deny_conds ct c rs = (res, c')"
  shows "case res of
      Conds ns \<Rightarrow> spellings_cover ct c' col its \<and> ((\<forall>n \<in> set ns. sat n it) \<longleftrightarrow> none_deny tags rs)
    | MatchNothing d \<Rightarrow> d \<and>
        (\<exists>r \<in> set rs. \<exists>f. tagRuleField ct (r_Key r) = Some f \<and> ct_Facet ct f = None)"
  using assms(2-)
proof (induction rs arbitrary: c c' res)
  case Nil
  then show ?case by auto
next
  case (Cons r rs)
  show ?case
  proof (cases "tagRuleField ct (r_Key r)")
    case None
    with Cons.prems Cons.IH [OF Cons.prems(1), of res c'] show ?thesis
      by (auto simp: unaddressable_matches [OF ir] split: compiled.splits)
  next
    case (Some f)
    show ?thesis
    proof (cases "r_Value r = ''''")
      case True
      obtain res0 c0 where rec: "deny_conds ct c rs = (res0, c0)" by (cases "deny_conds ct c rs")
      with Cons.IH [OF Cons.prems(1) _ rec] Cons.prems Some True item_readsD(1) [OF ir]
        presence_matches [OF ir Some _ True]
      show ?thesis
        by (auto simp: engine_laws_def split: compiled.splits if_splits)
    next
      case False
      obtain sp c1 where sp: "tagSpellings ct c f (r_Value r) = (sp, c1)"
        by (cases "tagSpellings ct c f (r_Value r)")
      show ?thesis
      proof (cases sp)
        case None
        with Cons.prems Some False sp show ?thesis by (auto dest: tagSpellings_fails)
      next
        case (Some vs)
        obtain res0 c0 where rec: "deny_conds ct c1 rs = (res0, c0)"
          by (cases "deny_conds ct c1 rs")
        have cov: "spellings_cover ct c1 col its"
          using tagSpellings_cover [OF Cons.prems(1) sp] .
        have dec: "length vs \<le> catalogSetCap \<and>
            (tagRuleMatches tags r \<longleftrightarrow> (\<exists>v \<in> set (map Text vs). v \<in> set (col it f)))"
          using spellings_decide [OF ir Cons.prems(1) sp [unfolded Some] \<open>tagRuleField ct (r_Key r) = Some f\<close> _ False]
            Cons.prems(2) by simp
        then have one: "sat (Cond f OpNotIn None (map Text vs)) it \<longleftrightarrow> \<not> tagRuleMatches tags r"
          using item_readsD(1) [OF ir] by (simp add: engine_laws_def)
        from Cons.IH [OF cov _ rec] Cons.prems \<open>tagRuleField ct (r_Key r) = Some f\<close> False sp Some rec one dec
        show ?thesis by (auto split: compiled.splits if_splits)
      qed
    qed
  qed
qed

section \<open>The compiled rules decide as the rules do\<close>

definition holds :: "(node \<Rightarrow> item_view \<Rightarrow> bool) \<Rightarrow> node option \<Rightarrow> item_view \<Rightarrow> bool" where
  "holds sat n it \<longleftrightarrow> (\<forall>m \<in> set (the_nodes n). sat m it)"

lemma holds_simps [simp]: "holds sat None it" "holds sat (Some m) it \<longleftrightarrow> sat m it"
  by (auto simp: holds_def the_nodes_def)

lemma sat_And: "engine_laws sat col \<Longrightarrow> sat (And ns) i \<longleftrightarrow> (\<forall>n \<in> set ns. sat n i)"
  and sat_Or: "engine_laws sat col \<Longrightarrow> sat (Or ns) i \<longleftrightarrow> (\<exists>n \<in> set ns. sat n i)"
  and sat_Is: "engine_laws sat col \<Longrightarrow> sat (Cond f OpIs (Some v) []) i \<longleftrightarrow> v \<in> set (col i f)"
  and sat_In: "engine_laws sat col \<Longrightarrow> length vs \<le> catalogSetCap \<Longrightarrow>
      sat (Cond f OpIn None vs) i \<longleftrightarrow> (\<exists>v \<in> set vs. v \<in> set (col i f))"
  by (simp_all add: engine_laws_def)

lemma sat_isEpisode:
  "engine_laws sat col \<Longrightarrow> row_laws ct col it \<Longrightarrow> sat isEpisode it \<longleftrightarrow> iv_Kind it = KindEpisode"
  by (auto simp: isEpisode_def sat_Is row_laws_def)

lemma sat_isNotEpisode:
  "engine_laws sat col \<Longrightarrow> row_laws ct col it \<Longrightarrow> sat isNotEpisode it \<longleftrightarrow> iv_Kind it \<noteq> KindEpisode"
  by (auto simp: isNotEpisode_def engine_laws_def row_laws_def)

lemma sat_unarchived:
  "engine_laws sat col \<Longrightarrow> row_laws ct col it \<Longrightarrow> sat unarchived it \<longleftrightarrow> \<not> archived it"
  by (auto simp: unarchived_def archived_def engine_laws_def row_laws_def)

lemma sat_episodesAside:
  "engine_laws sat col \<Longrightarrow> row_laws ct col it \<Longrightarrow>
    sat (episodesAside n) it \<longleftrightarrow> iv_Kind it = KindEpisode \<or> sat n it"
  by (auto simp: episodesAside_def sat_Or sat_Is row_laws_def)

lemma sat_inSet:
  assumes "engine_laws sat col"
  shows "sat (inSet f vs) it \<longleftrightarrow> (\<exists>v \<in> set vs. Text v \<in> set (col it f))"
proof (cases "length vs \<le> catalogSetCap")
  case True
  with assms show ?thesis by (auto simp: inSet_def sat_In)
next
  case False
  have "set vs = (\<Union>c \<in> set (chunked catalogSetCap vs). set c)"
    by (metis concat_chunked set_concat catalogSetCap_def zero_less_numeral)
  with False assms show ?thesis
    by (auto simp: inSet_def sat_Or sat_In chunked_length)
qed

lemma contentRuleNode_sound:
  assumes ir: "item_reads ct sat col its it tags"
    and "spellings_cover ct c col its" "rules_trimmed uc"
    and "contentRuleNode ct c uc = (n, c', noted)"
  shows "if noted then \<not> facets_readable ct uc \<and> (holds sat n it \<longleftrightarrow> iv_Kind it = KindEpisode)
           \<and> n \<noteq> None
    else (holds sat n it \<longleftrightarrow> uc_Admin uc \<or> ContentUnrestricted uc \<or> iv_Kind it = KindEpisode
            \<or> matchesTagRules tags (uc_TagAllow uc) (uc_TagDeny uc))"
proof -
  note laws = item_readsD(1,3) [OF ir]
  note closed = sat_episodesAside [OF laws] sat_Or [OF laws(1)] sat_And [OF laws(1)]
  show ?thesis
  proof (cases "uc_Admin uc \<or> ContentUnrestricted uc \<or> (uc_TagAllow uc = [] \<and> uc_TagDeny uc = [])")
    case True
    with assms(4) have "n = None" "\<not> noted"
      by (auto simp: contentRuleNode_def split: if_splits)
    with True show ?thesis by (auto simp: matchesTagRules_def)
  next
    case False
    obtain ra c1 where ra: "allow_conds ct c (uc_TagAllow uc) = (ra, c1)"
      by (cases "allow_conds ct c (uc_TagAllow uc)")
    from assms(3) have trim: "\<forall>r \<in> set (uc_TagAllow uc). TrimSpace (r_Key r) = r_Key r"
      "\<forall>r \<in> set (uc_TagDeny uc). TrimSpace (r_Key r) = r_Key r"
      by (auto simp: rules_trimmed_def)
    note allow = allow_conds_sound [OF ir assms(2) trim(1) ra]
    show ?thesis
    proof (cases ra)
      case (MatchNothing d)
      with False allow ra assms(4) closed show ?thesis
        by (auto simp: contentRuleNode_def matchesTagRules_def facets_readable_def split: if_splits)
    next
      case (Conds ns)
      with allow have cov: "spellings_cover ct c1 col its" by simp
      obtain rd c2 where rd: "deny_conds ct c1 (uc_TagDeny uc) = (rd, c2)"
        by (cases "deny_conds ct c1 (uc_TagDeny uc)")
      note deny = deny_conds_sound [OF ir cov trim(2) rd]
      show ?thesis
      proof (cases rd)
        case (MatchNothing d)
        with False Conds deny ra rd assms(4) closed show ?thesis
          by (auto simp: contentRuleNode_def facets_readable_def split: if_splits)
      next
        case Conds2: (Conds ds)
        have "holds sat n it \<longleftrightarrow> iv_Kind it = KindEpisode \<or> (\<forall>m \<in> set (ns @ ds). sat m it)"
          "\<not> noted"
          using False Conds Conds2 ra rd assms(4) closed
          by (auto simp: contentRuleNode_def split: if_splits)
        with False Conds Conds2 allow deny show ?thesis
          by (auto simp: matchesTagRules_def)
      qed
    qed
  qed
qed

lemma contentNarrow_sound:
  assumes ir: "item_reads ct sat col its it tags"
    and "spellings_cover ct c col its" "rules_trimmed uc"
    and "contentNarrow ct c uc = (ns, c', noted)"
  shows "(noted \<longrightarrow> \<not> facets_readable ct uc)
    \<and> ((\<forall>m \<in> set ns. sat m it) \<longrightarrow> fst (allowedByContent ct uc it))
    \<and> (\<not> noted \<longrightarrow> fst (allowedByContent ct uc it) \<longrightarrow> (\<forall>m \<in> set ns. sat m it))"
proof -
  obtain n where n: "contentRuleNode ct c uc = (n, c', noted)"
    using assms(4) by (auto simp: contentNarrow_def Let_def split: prod.splits)
  have ns: "ns = (if \<not> uc_Admin uc \<and> \<not> uc_Explicit uc
      then the_nodes n @ [Cond ''explicit'' OpIs (Some (Num 0)) [],
                          Cond ''podcast_explicit'' OpIs (Some (Num 0)) []]
      else the_nodes n)"
    using assms(4) n by (auto simp: contentNarrow_def Let_def split: if_splits)
  note rules = contentRuleNode_sound [OF ir assms(2,3) n]
  have adv: "(Num 0 \<in> set (col it ''explicit'') \<and> Num 0 \<in> set (col it ''podcast_explicit''))
      \<longleftrightarrow> (iv_Kind it = KindEpisode \<longrightarrow> \<not> iv_AdvisoryFlagged it)"
    using item_readsD(3) [OF ir] by (simp add: row_laws_def)
  have "(\<forall>m \<in> set ns. sat m it) \<longleftrightarrow> holds sat n it
      \<and> (\<not> uc_Admin uc \<and> \<not> uc_Explicit uc \<longrightarrow> iv_Kind it = KindEpisode \<longrightarrow> \<not> iv_AdvisoryFlagged it)"
    using adv by (auto simp: ns holds_def sat_Is [OF item_readsD(1) [OF ir]])
  moreover have "fst (allowedByContent ct uc it) \<longleftrightarrow> uc_Admin uc \<or> ContentUnrestricted uc
      \<or> (if iv_Kind it = KindEpisode then uc_Explicit uc \<or> \<not> iv_AdvisoryFlagged it
         else matchesTagRules tags (uc_TagAllow uc) (uc_TagDeny uc))"
    using item_readsD(4) [OF ir]
    by (auto simp: allowedByContent_def advisoryAllows_def matchesTagRules_def)
  ultimately show ?thesis
    using rules by (auto simp: ContentUnrestricted_def split: if_splits)
qed

section \<open>Grants and followed shows\<close>

definition episode_home :: "catalog \<Rightarrow> item_view \<Rightarrow> bool" where
  "episode_home ct it \<longleftrightarrow>
    (iv_Kind it = KindEpisode \<longrightarrow> iv_LibraryPID it = '''' \<or> iv_LibraryPID it = fst (ct_podcastLibrary ct))"

definition subs_ok :: "catalog \<Rightarrow> subscription_filter \<Rightarrow> bool" where
  "subs_ok ct f \<longleftrightarrow> f = newSubscriptionFilter \<or> f = fst (ensure ct newSubscriptionFilter)"

lemma ensure_again:
  "subs_ok ct f \<Longrightarrow> fst (ensure ct f) = fst (ensure ct newSubscriptionFilter)"
  by (auto simp: subs_ok_def ensure_def newSubscriptionFilter_def split: option.splits)

lemma subs_ok_new [simp]: "subs_ok ct newSubscriptionFilter"
  by (simp add: subs_ok_def)

lemma allowsItem_keeps: "subs_ok ct f \<Longrightarrow> subs_ok ct (fst (snd (allowsItem ct f it)))"
  by (auto simp: allowsItem_def allowsEpisode_def Let_def split: prod.splits if_splits)
    (metis ensure_again fst_conv subs_ok_def)+

lemma allowsItem_same:
  "subs_ok ct f \<Longrightarrow> fst (allowsItem ct f it) = fst (allowsItem ct newSubscriptionFilter it)"
  using ensure_again [of ct f]
  by (auto simp: allowsItem_def allowsEpisode_def Let_def split: prod.splits)

lemma callerScopeNode_sound:
  assumes "engine_laws sat col" "row_laws ct col it" "episode_home ct it"
  shows "sat (fst (callerScopeNode ct uc newSubscriptionFilter True)) it \<longleftrightarrow>
    fst (viewVisible ct uc it) \<and> fst (allowsItem ct newSubscriptionFilter it)"
proof -
  have lib: "sat (inSet ''library'' (sort (uc_Libraries uc))) it \<longleftrightarrow>
      iv_LibraryPID it \<noteq> '''' \<and> iv_LibraryPID it \<in> set (uc_Libraries uc)"
    using assms(2) by (auto simp: sat_inSet [OF assms(1)] row_laws_def)
  obtain pp rd where pod: "ct_podcastLibrary ct = (pp, rd)" by (cases "ct_podcastLibrary ct")
  have grant: "holds sat (fst (grantNode ct uc)) it \<longleftrightarrow> fst (viewVisible ct uc it)"
    using assms(3)
    by (auto simp: grantNode_def viewVisible_def podcastsVisible_def podcastsJudged_def Let_def
        sat_Or [OF assms(1)] sat_isEpisode [OF assms(1,2)] lib pod episode_home_def)
  have shows': "sat (inSet ''podcast_pid'' (sort xs)) it \<longleftrightarrow> iv_PodcastPID it \<in> set xs"
    if "iv_Kind it = KindEpisode" for xs
    using assms(2) that by (auto simp: sat_inSet [OF assms(1)] row_laws_def)
  have none: "\<not> sat (inSet ''podcast_pid'' []) it"
    by (simp add: sat_inSet [OF assms(1)])
  obtain g n where g: "grantNode ct uc = (g, n)" by (cases "grantNode ct uc")
  obtain f m where f: "ensure ct newSubscriptionFilter = (f, m)"
    by (cases "ensure ct newSubscriptionFilter")
  have "sat (fst (callerScopeNode ct uc newSubscriptionFilter True)) it \<longleftrightarrow>
      holds sat g it \<and> (iv_Kind it \<noteq> KindEpisode
        \<or> sat (inSet ''podcast_pid'' (if sf_failed f then [] else sort (sf_set f))) it)"
    by (auto simp: callerScopeNode_def g f Let_def sat_And [OF assms(1)] sat_Or [OF assms(1)]
        sat_isNotEpisode [OF assms(1,2)] holds_def)
  with grant g f shows' none show ?thesis
    by (auto simp: allowsItem_def allowsEpisode_def Let_def)
qed

section \<open>Listings and counts agree\<close>

definition catalog_laws ::
    "catalog \<Rightarrow> tag_value_cache \<Rightarrow> (node \<Rightarrow> item_view \<Rightarrow> bool)
      \<Rightarrow> (item_view \<Rightarrow> string \<Rightarrow> query_value list) \<Rightarrow> query_run \<Rightarrow> item_view set \<Rightarrow> bool" where
  "catalog_laws ct c sat col run items \<longleftrightarrow>
    engine_laws sat col \<and> tag_laws ct \<and> (\<forall>i \<in> items. row_laws ct col i)
  \<and> finite items \<and> inj_on iv_PID items \<and> spellings_cover ct c col items
  \<and> (\<forall>n lim rows. run n lim = Some rows \<longrightarrow> card {i \<in> items. sat n i} \<le> lim \<longrightarrow>
       set rows = {i \<in> items. sat n i})"

lemma catalog_item:
  assumes "catalog_laws ct c sat col run items" "it \<in> items" "\<not> archived it"
  obtains tags where "item_reads ct sat col items it tags"
  using assms by (auto simp: catalog_laws_def item_reads_def row_laws_def split: option.splits)

lemma staticMemberNarrow_sound:
  assumes laws: "catalog_laws ct c sat col run items" and "it \<in> items" "episode_home ct it"
    and "rules_trimmed uc"
  defines "member \<equiv> \<not> archived it \<and> fst (viewVisible ct uc it)
      \<and> fst (allowsItem ct newSubscriptionFilter it) \<and> fst (allowedByContent ct uc it)"
  shows "sat (fst (staticMemberNarrow ct c uc)) it \<Longrightarrow> member"
    and "facets_readable ct uc \<Longrightarrow> member \<Longrightarrow> sat (fst (staticMemberNarrow ct c uc)) it"
proof -
  from laws assms(2) have e: "engine_laws sat col" and r: "row_laws ct col it"
    and cov: "spellings_cover ct c col items"
    by (auto simp: catalog_laws_def)
  obtain ns c' noted where cn: "contentNarrow ct c uc = (ns, c', noted)"
    by (cases "contentNarrow ct c uc")
  have sat: "sat (fst (staticMemberNarrow ct c uc)) it \<longleftrightarrow>
      \<not> archived it \<and> fst (viewVisible ct uc it) \<and> fst (allowsItem ct newSubscriptionFilter it)
        \<and> (\<forall>m \<in> set ns. sat m it)"
    using callerScopeNode_sound [OF e r assms(3), of uc] cn
    by (auto simp: staticMemberNarrow_def readerNarrow_def listingNarrow_def Let_def
        sat_And [OF e] sat_unarchived [OF e r] split: prod.splits)
  show "member" if "sat (fst (staticMemberNarrow ct c uc)) it"
  proof -
    from that sat have "\<not> archived it" by simp
    with laws assms(2) obtain tags where ir: "item_reads ct sat col items it tags"
      by (rule catalog_item)
    from contentNarrow_sound [OF ir cov assms(4) cn] that sat show ?thesis
      by (simp add: member_def)
  qed
  show "sat (fst (staticMemberNarrow ct c uc)) it" if "facets_readable ct uc" member
  proof -
    from that(2) have "\<not> archived it" by (simp add: member_def)
    with laws assms(2) obtain tags where ir: "item_reads ct sat col items it tags"
      by (rule catalog_item)
    from contentNarrow_sound [OF ir cov assms(4) cn] that sat show ?thesis
      by (simp add: member_def)
  qed
qed

definition verdicts_ok :: "catalog \<Rightarrow> user_ctx \<Rightarrow> item_view set \<Rightarrow> string list option \<Rightarrow> bool" where
  "verdicts_ok ct uc its v \<longleftrightarrow>
    (\<forall>it \<in> its. fst (contentAllows ct uc v it) = fst (allowedByContent ct uc it))"

lemma verdicts_ok_None [simp]: "verdicts_ok ct uc its None"
  by (simp add: verdicts_ok_def contentAllows_def)

lemma memberVisible_iff:
  assumes "subs_ok ct (mf_subs f)" "\<not> mf_keepArchived f"
    and "verdicts_ok ct uc its (mf_tagsAllowed f)" "it \<in> its"
  shows "fst (memberVisible ct uc f it) \<longleftrightarrow> \<not> archived it \<and> fst (viewVisible ct uc it)
      \<and> fst (allowsItem ct newSubscriptionFilter it) \<and> fst (allowedByContent ct uc it)"
proof -
  obtain vis n1 where v: "viewVisible ct uc it = (vis, n1)" by (cases "viewVisible ct uc it")
  obtain ok subs' n2 where a: "allowsItem ct (mf_subs f) it = (ok, subs', n2)"
    by (cases "allowsItem ct (mf_subs f) it")
  obtain b n3 where c: "contentAllows ct uc (mf_tagsAllowed f) it = (b, n3)"
    by (cases "contentAllows ct uc (mf_tagsAllowed f) it")
  from assms(3,4) c have "fst (allowedByContent ct uc it) = b"
    by (metis fst_conv verdicts_ok_def)
  moreover from allowsItem_same [OF assms(1), of it] a
  have "fst (allowsItem ct newSubscriptionFilter it) = ok" by simp
  ultimately show ?thesis using assms(2) v a c by (simp add: memberVisible_def Let_def)
qed

lemma memberVisible_keeps:
  assumes "memberVisible ct uc f it = (b, f', n)" "subs_ok ct (mf_subs f)"
  shows "subs_ok ct (mf_subs f')" "mf_keepArchived f' = mf_keepArchived f"
    "mf_tagsAllowed f' = mf_tagsAllowed f"
  using assms allowsItem_keeps [OF assms(2), of it]
  by (auto simp: memberVisible_def Let_def split: prod.splits if_splits)

lemma visible_members_filter:
  assumes "subs_ok ct (mf_subs f)" "\<not> mf_keepArchived f"
    and "verdicts_ok ct uc S (mf_tagsAllowed f)" "set its \<subseteq> S"
  shows "visible_members ct uc f its =
    filter (\<lambda>it. \<not> archived it \<and> fst (viewVisible ct uc it)
      \<and> fst (allowsItem ct newSubscriptionFilter it) \<and> fst (allowedByContent ct uc it)) its"
  using assms
proof (induction its arbitrary: f)
  case Nil
  then show ?case by simp
next
  case (Cons it its)
  obtain b f' n where m: "memberVisible ct uc f it = (b, f', n)"
    by (cases "memberVisible ct uc f it")
  note keeps = memberVisible_keeps [OF m Cons.prems(1)]
  have "visible_members ct uc f' its =
    filter (\<lambda>it. \<not> archived it \<and> fst (viewVisible ct uc it)
      \<and> fst (allowsItem ct newSubscriptionFilter it) \<and> fst (allowedByContent ct uc it)) its"
    using Cons.prems keeps by (intro Cons.IH) auto
  with m memberVisible_iff [OF Cons.prems(1-3), of it] Cons.prems(4) show ?case by simp
qed

section \<open>The batch of verdicts\<close>

lemma among_chunks_keys:
  assumes "catalog_laws ct c sat col run items"
  shows "among_chunks run base chunks out = Some found \<Longrightarrow> \<forall>ch \<in> set chunks. distinct ch \<Longrightarrow>
    \<forall>ch \<in> set chunks. length ch \<le> catalogSetCap \<Longrightarrow>
    fst ` set found = fst ` set out \<union>
      {iv_PID i | i. i \<in> items \<and> (\<forall>n \<in> set base. sat n i) \<and> iv_PID i \<in> set (concat chunks)}"
proof (induction chunks arbitrary: out)
  case Nil
  then show ?case by auto
next
  case (Cons ch chunks)
  let ?n = "And (base @ [Cond ''pid'' OpIn None (map Text ch)])"
  let ?hit = "{i \<in> items. (\<forall>n \<in> set base. sat n i) \<and> iv_PID i \<in> set ch}"
  from assms have e: "engine_laws sat col" and pid: "\<And>i. i \<in> items \<Longrightarrow> col i ''pid'' = [Text (iv_PID i)]"
    by (auto simp: catalog_laws_def row_laws_def)
  from Cons.prems obtain rows where rows: "run ?n (length ch) = Some rows"
    and rest: "among_chunks run base chunks
      (fold (\<lambda>it m. AList.update (iv_PID it) it m) rows out) = Some found"
    by (auto split: option.splits)
  have n: "sat ?n i \<longleftrightarrow> (\<forall>m \<in> set base. sat m i) \<and> iv_PID i \<in> set ch" if "i \<in> items" for i
    using Cons.prems(3) that by (auto simp: sat_And [OF e] sat_In [OF e] pid)
  then have hit: "{i \<in> items. sat ?n i} = ?hit" by auto
  have "card ?hit \<le> card (set ch)"
    using assms by (intro card_inj_on_le [where f = iv_PID])
      (auto simp: catalog_laws_def inj_on_def)
  also have "\<dots> \<le> length ch" by (rule card_length)
  finally have few: "card {i \<in> items. sat ?n i} \<le> length ch" using hit by simp
  from assms have "\<And>n lim rows. run n lim = Some rows \<Longrightarrow> card {i \<in> items. sat n i} \<le> lim \<Longrightarrow>
      set rows = {i \<in> items. sat n i}"
    by (simp add: catalog_laws_def)
  from this [OF rows few] hit have "set rows = ?hit" by simp
  moreover have "fst ` set (fold (\<lambda>it m. AList.update (iv_PID it) it m) xs out) =
      fst ` set out \<union> iv_PID ` set xs" for xs and out :: "(string \<times> item_view) list"
  proof (induction xs arbitrary: out)
    case (Cons x xs)
    then show ?case by (simp add: AList.dom_update)
  qed simp
  ultimately show ?case
    using Cons.IH [OF rest] Cons.prems(2,3) by auto
qed

lemma distinct_verdict_pids: "distinct (verdict_pids seen its) \<and> set (verdict_pids seen its) \<inter> set seen = {}"
  by (induction seen its rule: verdict_pids.induct) auto

lemma set_verdict_pids:
  "set (verdict_pids seen its) =
    iv_PID ` {it \<in> set its. iv_Kind it \<noteq> KindEpisode \<and> \<not> archived it} - set seen"
  by (induction seen its rule: verdict_pids.induct) auto

lemma distinct_chunked: "distinct xs \<Longrightarrow> c \<in> set (chunked n xs) \<Longrightarrow> distinct c"
proof (induction n xs rule: chunked.induct)
  case (1 n xs)
  from 1(3) have "xs \<noteq> []" "n \<noteq> 0" "c = take n xs \<or> c \<in> set (chunked n (drop n xs))"
    by (subst (asm) chunked.simps, force split: if_splits)+
  with 1 show ?case by auto
qed

lemma tagVerdicts_ok:
  assumes laws: "catalog_laws ct c sat col run items" and "set its \<subseteq> items"
    and "rules_trimmed uc" "facets_readable ct uc"
    and "tagVerdicts ct c run uc its = (Some v, c', noted)"
  shows "verdicts_ok ct uc (set its) v"
proof (cases v)
  case None
  then show ?thesis by simp
next
  case (Some allowed)
  with assms(5) obtain rules found where r: "contentRuleNode ct c uc = (Some rules, c', noted)"
    and found: "itemsAmong run (verdict_pids [] its) [unarchived, rules] = Some found"
    and allowed: "allowed = map fst found"
    by (auto simp: tagVerdicts_def split: if_splits option.splits prod.splits)
  let ?pids = "verdict_pids [] its"
  from laws have e: "engine_laws sat col" and cov: "spellings_cover ct c col items"
    and row: "\<And>i. i \<in> items \<Longrightarrow> row_laws ct col i" and inj: "inj_on iv_PID items"
    by (auto simp: catalog_laws_def)
  have chunks: "\<forall>ch \<in> set (chunked itemsAmongCap ?pids). distinct ch"
    "\<forall>ch \<in> set (chunked itemsAmongCap ?pids). length ch \<le> catalogSetCap"
    using distinct_verdict_pids [of "[]" its]
    by (auto simp: itemsAmongCap_def catalogSetCap_def dest: distinct_chunked chunked_length)
  from among_chunks_keys [OF laws found [unfolded itemsAmong_def] chunks]
  have set: "set allowed = {iv_PID i | i. i \<in> items \<and> \<not> archived i \<and> sat rules i \<and> iv_PID i \<in> set ?pids}"
    using allowed by (simp add: concat_chunked itemsAmongCap_def)
      (use row in \<open>blast dest: sat_unarchived [OF e]\<close>)
  show ?thesis unfolding verdicts_ok_def
  proof
    fix it assume it: "it \<in> set its"
    show "fst (contentAllows ct uc v it) = fst (allowedByContent ct uc it)"
    proof (cases "iv_Kind it \<noteq> KindEpisode \<and> \<not> archived it")
      case False
      with Some show ?thesis by (auto simp: contentAllows_def)
    next
      case True
      from it assms(2) have "it \<in> items" by blast
      with laws True obtain tags where ir: "item_reads ct sat col items it tags"
        by (blast elim: catalog_item)
      from True it have "iv_PID it \<in> set ?pids" by (auto simp: set_verdict_pids)
      with set inj \<open>it \<in> items\<close> True have "iv_PID it \<in> set allowed \<longleftrightarrow> sat rules it"
        by (auto dest: inj_onD)
      moreover from contentRuleNode_sound [OF ir cov assms(3) r] assms(4) True
      have "sat rules it \<longleftrightarrow> uc_Admin uc \<or> ContentUnrestricted uc
          \<or> matchesTagRules tags (uc_TagAllow uc) (uc_TagDeny uc)"
        by (auto split: if_splits)
      ultimately show ?thesis
        using True Some item_readsD(4) [OF ir]
        by (auto simp: contentAllows_def allowedByContent_def matchesTagRules_def)
    qed
  qed
qed

section \<open>Claims\<close>

definition newMemberFilter :: "bool \<Rightarrow> member_filter" where
  "newMemberFilter keepArchived =
    \<lparr>mf_subs = newSubscriptionFilter, mf_keepArchived = keepArchived, mf_tagsAllowed = None\<rparr>"

lemma caller_rules_trimmed:
  assumes "UserCtx u pid grants = Some uc" "validatePermissions (permissionsOf u) = None"
  shows "rules_trimmed uc"
proof (cases "uc_Admin uc")
  case True
  with UserCtx_admin [OF assms(1)] show ?thesis
    by (simp add: rules_trimmed_def ContentUnrestricted_def)
next
  case False
  with UserCtx_member [OF assms(1)] assms(2) show ?thesis
    by (auto simp: rules_trimmed_def validatePermissions_None rule_ok_def)
qed

text \<open>C2. The members of a static playlist a caller is shown, walked item by item with the tag
  verdicts asked per item or read in one batch, are exactly those the compiled condition selects,
  so a playlist's count and its listing agree, for every caller whose stored rules were validated
  and every list of the catalog's items, provided: the query engine means by its conditions what its
  documentation says; every episode lies in no library or in the present podcast library (one that
  lies elsewhere is counted and not shown, \<open>old_podcast_library_counted_not_listed\<close> below); the tags
  of the items and the spellings of every field the caller's rules name can be read; the spellings,
  asked for or cached, are all the catalog holds; and none of them is one of more than 500 that
  differ in case only.\<close>

theorem count_agrees_with_listing:
  assumes "catalog_laws ct c sat col run items" "set its \<subseteq> items"
    and "\<forall>it \<in> set its. episode_home ct it"
    and "UserCtx u pid grants = Some uc" "validatePermissions (permissionsOf u) = None"
    and "facets_readable ct uc"
  shows "visible_members ct uc (newMemberFilter False) its
        = filter (sat (fst (staticMemberNarrow ct c uc))) its
    \<and> (\<forall>f. withTagVerdicts ct c run uc (newMemberFilter False) its = Some f \<longrightarrow>
      visible_members ct uc f its = filter (sat (fst (staticMemberNarrow ct c uc))) its)"
proof (intro conjI allI impI)
  note trim = caller_rules_trimmed [OF assms(4,5)]
  have eq: "filter (\<lambda>it. \<not> archived it \<and> fst (viewVisible ct uc it)
      \<and> fst (allowsItem ct newSubscriptionFilter it) \<and> fst (allowedByContent ct uc it)) its
    = filter (sat (fst (staticMemberNarrow ct c uc))) its"
    using staticMemberNarrow_sound [OF assms(1) _ _ trim] assms(2,3,6)
    by (intro filter_cong refl) blast
  show "visible_members ct uc (newMemberFilter False) its
        = filter (sat (fst (staticMemberNarrow ct c uc))) its"
    using visible_members_filter [of ct "newMemberFilter False" uc "set its" its] eq
    by (simp add: newMemberFilter_def)
  fix f assume "withTagVerdicts ct c run uc (newMemberFilter False) its = Some f"
  then obtain v c' noted where "tagVerdicts ct c run uc its = (Some v, c', noted)"
      "f = (newMemberFilter False)\<lparr>mf_tagsAllowed := v\<rparr>"
    by (auto simp: withTagVerdicts_def split: option.splits) (metis prod.collapse)
  with tagVerdicts_ok [OF assms(1,2) trim assms(6)]
    visible_members_filter [of ct f uc "set its" its] eq
  show "visible_members ct uc f its = filter (sat (fst (staticMemberNarrow ct c uc))) its"
    by (simp add: newMemberFilter_def)
qed

text \<open>A small catalog and an engine of the documented meaning, on which the claims are
  evaluated.\<close>

fun demo_sat :: "(item_view \<Rightarrow> string \<Rightarrow> query_value list) \<Rightarrow> node \<Rightarrow> item_view \<Rightarrow> bool" where
  "demo_sat col (And ns) i = list_all (\<lambda>n. demo_sat col n i) ns"
| "demo_sat col (Or ns) i = list_ex (\<lambda>n. demo_sat col n i) ns"
| "demo_sat col (Not n) i = (\<not> demo_sat col n i)"
| "demo_sat col (Cond f op v vs) i =
    (case op of
       OpIs \<Rightarrow> (case v of None \<Rightarrow> False | Some x \<Rightarrow> List.member (col i f) x)
     | OpIsNot \<Rightarrow> (case v of None \<Rightarrow> True | Some x \<Rightarrow> \<not> List.member (col i f) x)
     | OpIn \<Rightarrow> list_ex (\<lambda>x. List.member (col i f) x) vs
     | OpNotIn \<Rightarrow> \<not> list_ex (\<lambda>x. List.member (col i f) x) vs
     | OpIsPresent \<Rightarrow> col i f \<noteq> []
     | OpIsMissing \<Rightarrow> col i f = [])"

lemma demo_engine: "engine_laws (demo_sat col) col"
  by (auto simp: engine_laws_def list_all_iff list_ex_iff)

definition demo_tags :: "string \<Rightarrow> item_tag list" where
  "demo_tags pid = (if pid = ''tr1'' then [\<lparr>t_Key = ''mood'', t_Values = [''Jazz'', ''Calm'']\<rparr>]
     else if pid = ''tr2'' then [\<lparr>t_Key = ''mood'', t_Values = [''Rock'']\<rparr>] else [])"

definition demo_col :: "item_view \<Rightarrow> string \<Rightarrow> query_value list" where
  "demo_col i f =
    (if f = ''kind'' then [VKind (iv_Kind i)]
     else if f = ''state'' then [VState (iv_State i)]
     else if f = ''pid'' then [Text (iv_PID i)]
     else if f = ''library'' then (if iv_LibraryPID i = '''' then [] else [Text (iv_LibraryPID i)])
     else if f = ''podcast_pid'' then [Text (iv_PodcastPID i)]
     else if f = ''explicit''
     then [Num (if iv_Kind i = KindEpisode \<and> iv_AdvisoryFlagged i then 1 else 0)]
     else if f = ''podcast_explicit'' then [Num 0]
     else if take 4 f = facetTagPrefix then tag_column (demo_tags (iv_PID i)) (drop 4 f) else [])"

definition demo_item :: "string \<Rightarrow> kind \<Rightarrow> string \<Rightarrow> string \<Rightarrow> item_view" where
  "demo_item pid kd lib show' = \<lparr>iv_PID = pid, iv_Kind = kd, iv_State = StatePresent,
     iv_LibraryPID = lib, iv_PodcastPID = show', iv_AdvisoryFlagged = False, iv_DurationMS = 180000\<rparr>"

definition demo_items :: "item_view list" where
  "demo_items = [demo_item ''tr1'' KindTrack ''lb1'' '''', demo_item ''tr2'' KindTrack ''lb1'' '''',
     demo_item ''tr3'' KindTrack ''lb2'' '''', demo_item ''ep1'' KindEpisode '''' ''po1'',
     demo_item ''ep2'' KindEpisode ''lbo'' ''po1'', (demo_item ''tr4'' KindTrack ''lb1'' '''')\<lparr>iv_State := StateArchived\<rparr>]"

definition demo_catalog :: catalog where
  "demo_catalog = \<lparr>ct_CanonicalTagKey = (\<lambda>k. Some (to_lower k)), ct_IsReservedTagKey = (\<lambda>_. False),
     ct_ItemTags = (\<lambda>pid. Some (demo_tags pid)), ct_Get = (\<lambda>_. None),
     ct_Facet = (\<lambda>f. if take 4 f = facetTagPrefix
        then Some [\<lparr>b_IsUnknown = False, b_Display = ''Jazz''\<rparr>,
          \<lparr>b_IsUnknown = False, b_Display = ''Calm''\<rparr>, \<lparr>b_IsUnknown = False, b_Display = ''Rock''\<rparr>]
        else None),
     ct_generation = \<lparr>g_tail = 3, g_vocab = 0\<rparr>,
     ct_generation_after = (\<lambda>_. \<lparr>g_tail = 3, g_vocab = 0\<rparr>),
     ct_ShowExplicit = (\<lambda>_. Some False), ct_Subscriptions = Some [''po1''],
     ct_podcastLibrary = (''lbp'', True)\<rparr>"

definition demo_run :: query_run where
  "demo_run n lim = Some (filter (demo_sat demo_col n) demo_items)"

definition demo_account :: account where
  "demo_account = \<lparr>a_ID = ''us1'', a_Username = ''u'', a_DisplayName = '''', a_PasswordHash = '''', a_Roles = [], a_Disabled = False, a_Pending = False,
     a_PermDownload = True, a_PermDelete = False, a_PermExplicit = True,
     a_PermSharedOutputs = True, a_PermPodcasts = True, a_MaxTranscodeKbps = 0,
     a_UploadEnabled = False, a_UploadQuotaBytes = 0, a_LibraryAccess = ''granted'',
     a_WaxbinUserPID = ''cu'', a_TagRules = TagRulesDoc [] [\<lparr>r_Key = ''Mood'', r_Value = ''JAZZ''\<rparr>],
     a_CreatedAt = 0, a_UpdatedAt = 0\<rparr>"

lemma lower_char_twice: "\<forall>c. lower_char (lower_char c) = lower_char c"
  by code_simp

lemma to_lower_twice: "to_lower (to_lower s) = to_lower s"
  using lower_char_twice by (simp add: to_lower_def)

lemma demo_keys: "t \<in> set (demo_tags pid) \<Longrightarrow> to_lower (t_Key t) = t_Key t \<and> t_Values t \<noteq> []"
proof -
  have "to_lower ''mood'' = ''mood''" by code_simp
  then show "t \<in> set (demo_tags pid) \<Longrightarrow> to_lower (t_Key t) = t_Key t \<and> t_Values t \<noteq> []"
    by (auto simp: demo_tags_def split: if_splits)
qed

lemma demo_tag_laws: "tag_laws demo_catalog"
  using demo_keys by (auto simp: tag_laws_def demo_catalog_def EqualFold_def to_lower_twice)

lemma demo_columns:
  "demo_col i ''kind'' = [VKind (iv_Kind i)]" "demo_col i ''state'' = [VState (iv_State i)]"
  "demo_col i ''pid'' = [Text (iv_PID i)]"
  "demo_col i ''library'' = (if iv_LibraryPID i = '''' then [] else [Text (iv_LibraryPID i)])"
  "demo_col i ''podcast_pid'' = [Text (iv_PodcastPID i)]"
  "demo_col i ''explicit'' = [Num (if iv_Kind i = KindEpisode \<and> iv_AdvisoryFlagged i then 1 else 0)]"
  "demo_col i ''podcast_explicit'' = [Num 0]"
  by (simp_all add: demo_col_def)

lemma demo_tag_column:
  assumes "take 4 f = facetTagPrefix"
  shows "demo_col i f = tag_column (demo_tags (iv_PID i)) (drop 4 f)"
proof -
  have "f \<notin> {''kind'', ''state'', ''pid'', ''library'', ''podcast_pid'', ''explicit'', ''podcast_explicit''}"
    using assms by (auto simp: facetTagPrefix_def)
  with assms show ?thesis by (simp add: demo_col_def)
qed

lemma demo_row_laws: "row_laws demo_catalog demo_col i"
proof -
  have "demo_col i (facetTagPrefix @ k) = tag_column (demo_tags (iv_PID i)) k" for k
    by (subst demo_tag_column) (simp_all add: facetTagPrefix_def)
  then show ?thesis
    by (simp add: row_laws_def demo_catalog_def demo_columns)
qed
lemma length_foldMatching: "length (foldMatching vs v) \<le> length vs"
  by (induction vs) auto

lemma demo_values: "Text v \<in> set (tag_column (demo_tags pid) k) \<Longrightarrow> v \<in> set [''Jazz'', ''Calm'', ''Rock'']"
  by (auto simp: tag_column_set demo_tags_def split: if_splits)


lemma demo_covers:
  assumes "take 4 f = facetTagPrefix"
  shows "covers demo_col its f [''Jazz'', ''Calm'', ''Rock'']"
proof -
  have "length (foldMatching [''Jazz'', ''Calm'', ''Rock''] v) \<le> catalogSetCap" for v
    using length_foldMatching [of "[''Jazz'', ''Calm'', ''Rock'']" v] by (simp add: catalogSetCap_def)
  then show ?thesis
    using demo_values by (fastforce simp: covers_def demo_tag_column [OF assms])
qed

lemma demo_spellings: "spellings_cover demo_catalog no_tag_values demo_col its"
proof -
  have "stored_values [\<lparr>b_IsUnknown = False, b_Display = ''Jazz''\<rparr>,
      \<lparr>b_IsUnknown = False, b_Display = ''Calm''\<rparr>, \<lparr>b_IsUnknown = False, b_Display = ''Rock''\<rparr>]
    = [''Jazz'', ''Calm'', ''Rock'']" by code_simp
  with demo_covers show ?thesis
    by (auto simp: spellings_cover_def demo_catalog_def held_values_def no_tag_values_def
        split: if_splits)
qed

lemma demo_laws: "catalog_laws demo_catalog no_tag_values (demo_sat demo_col) demo_col demo_run (set demo_items)"
proof -
  have "distinct (map iv_PID demo_items)" by code_simp
  then have "inj_on iv_PID (set demo_items)" by (simp add: distinct_map)
  then show ?thesis
    by (auto simp: catalog_laws_def demo_engine demo_tag_laws demo_row_laws demo_spellings demo_run_def)
qed

lemma demo_valid: "validatePermissions (permissionsOf demo_account) = None"
  by code_simp

lemma demo_readable: "uc_TagAllow uc = [] \<Longrightarrow> facets_readable demo_catalog uc"
  by (auto simp: facets_readable_def demo_catalog_def tagRuleField_def facetTagPrefix_def)

definition demo_caller :: "string list \<Rightarrow> user_ctx" where
  "demo_caller libs = the (UserCtx demo_account ''cp1'' (Some libs))"

lemma demo_caller_ctx: "UserCtx demo_account ''cp1'' (Some libs) = Some (demo_caller libs)"
  by (simp add: demo_caller_def UserCtx_def demo_account_def hasRole_def Let_def)

lemma demo_caller_rules: "uc_TagAllow (demo_caller libs) = []"
  by (simp add: demo_caller_def UserCtx_def demo_account_def hasRole_def Let_def permissionsOf_def)

lemma count_agrees_with_listing_witness:
  "visible_members demo_catalog (demo_caller [''lb1'', ''lbp'']) (newMemberFilter False) (take 4 demo_items)
    = filter (demo_sat demo_col (fst (staticMemberNarrow demo_catalog no_tag_values
        (demo_caller [''lb1'', ''lbp''])))) (take 4 demo_items)
  \<and> map iv_PID (visible_members demo_catalog (demo_caller [''lb1'', ''lbp'']) (newMemberFilter False)
        (take 4 demo_items)) = [''tr2'', ''ep1'']"
proof
  have "\<forall>it \<in> set (take 4 demo_items). episode_home demo_catalog it"
    by (auto simp: demo_items_def demo_item_def episode_home_def)
  then show "visible_members demo_catalog (demo_caller [''lb1'', ''lbp'']) (newMemberFilter False)
      (take 4 demo_items)
    = filter (demo_sat demo_col (fst (staticMemberNarrow demo_catalog no_tag_values
        (demo_caller [''lb1'', ''lbp''])))) (take 4 demo_items)"
    using count_agrees_with_listing [OF demo_laws _ _ demo_caller_ctx demo_valid
        demo_readable [OF demo_caller_rules], of "take 4 demo_items" "[''lb1'', ''lbp'']"]
    by (meson set_take_subset)
  show "map iv_PID (visible_members demo_catalog (demo_caller [''lb1'', ''lbp'']) (newMemberFilter False)
        (take 4 demo_items)) = [''tr2'', ''ep1'']"
    by code_simp
qed

text \<open>When an aggregation a rule needs cannot be read, the compiled condition fails closed:
  what it selects is still offered item by item, and when the failure was noted it selects
  episodes only.\<close>

theorem unreadable_spellings_admit_no_more:
  assumes "catalog_laws ct c sat col run items" "it \<in> items" "episode_home ct it"
    and "UserCtx u pid grants = Some uc" "validatePermissions (permissionsOf u) = None"
    and "sat (fst (staticMemberNarrow ct c uc)) it"
  shows "fst (memberVisible ct uc (newMemberFilter False) it)
    \<and> (snd (snd (contentRuleNode ct c uc)) \<longrightarrow> iv_Kind it = KindEpisode)"
proof -
  note trim = caller_rules_trimmed [OF assms(4,5)]
  note vis = staticMemberNarrow_sound(1) [OF assms(1-3) trim assms(6)]
  have "fst (memberVisible ct uc (newMemberFilter False) it)"
    using vis by (subst memberVisible_iff [where its = "{it}"]) (simp_all add: newMemberFilter_def)
  moreover have "iv_Kind it = KindEpisode" if "snd (snd (contentRuleNode ct c uc))"
  proof -
    from vis assms(1,2) obtain tags where ir: "item_reads ct sat col items it tags"
      by (blast elim: catalog_item)
    obtain n c' noted where n0: "contentRuleNode ct c uc = (n, c', noted)"
      by (cases "contentRuleNode ct c uc")
    with that have n: "contentRuleNode ct c uc = (n, c', True)" by simp
    from assms(1) have e: "engine_laws sat col" and cov: "spellings_cover ct c col items"
      by (auto simp: catalog_laws_def)
    from contentRuleNode_sound [OF ir cov trim n]
    have "holds sat n it \<longleftrightarrow> iv_Kind it = KindEpisode" by simp
    moreover define ns where "ns = fst (contentNarrow ct c uc)"
    have ns: "contentNarrow ct c uc = (ns, c', True)" "set (the_nodes n) \<subseteq> set ns"
      using n by (auto simp: ns_def contentNarrow_def Let_def)
    obtain scope subs' n1 where sc: "callerScopeNode ct uc newSubscriptionFilter True = (scope, subs', n1)"
      by (cases "callerScopeNode ct uc newSubscriptionFilter True")
    have "\<forall>m \<in> set ns. sat m it"
      using assms(6) by (simp add: staticMemberNarrow_def readerNarrow_def listingNarrow_def
          ns(1) sc sat_And [OF e])
    with ns(2) have "holds sat n it" by (auto simp: holds_def)
    ultimately show ?thesis by simp
  qed
  ultimately show ?thesis by blast
qed

definition deaf_catalog :: catalog where
  "deaf_catalog = demo_catalog\<lparr>ct_Facet := \<lambda>_. None\<rparr>"

lemma deaf_laws: "catalog_laws deaf_catalog no_tag_values (demo_sat demo_col) demo_col demo_run (set demo_items)"
  using demo_laws
  by (auto simp: catalog_laws_def tag_laws_def row_laws_def spellings_cover_def deaf_catalog_def)

lemma unreadable_spellings_admit_no_more_witness:
  "fst (memberVisible deaf_catalog (demo_caller [''lb1'', ''lbp'']) (newMemberFilter False)
     (demo_item ''ep1'' KindEpisode '''' ''po1''))
   \<and> snd (snd (contentRuleNode deaf_catalog no_tag_values (demo_caller [''lb1'', ''lbp''])))"
proof -
  have item: "demo_item ''ep1'' KindEpisode '''' ''po1'' \<in> set demo_items"
    by (simp add: demo_items_def)
  have home: "episode_home deaf_catalog (demo_item ''ep1'' KindEpisode '''' ''po1'')"
    by (simp add: episode_home_def demo_item_def)
  have selected: "demo_sat demo_col (fst (staticMemberNarrow deaf_catalog no_tag_values
      (demo_caller [''lb1'', ''lbp'']))) (demo_item ''ep1'' KindEpisode '''' ''po1'')"
    by code_simp
  have noted: "snd (snd (contentRuleNode deaf_catalog no_tag_values (demo_caller [''lb1'', ''lbp''])))"
    by code_simp
  from unreadable_spellings_admit_no_more [OF deaf_laws item home demo_caller_ctx demo_valid selected] noted
  show ?thesis by simp
qed

text \<open>An episode file in a library an earlier podcast directory left tells the two apart: a
  caller granted that library and not the present podcast library is counted the episode and is
  never shown it.\<close>

lemma old_podcast_library_counted_not_listed:
  "\<exists>ct c sat col run items uc it. catalog_laws ct c sat col run items \<and> it \<in> items
    \<and> (\<exists>u pid grants. UserCtx u pid grants = Some uc \<and> validatePermissions (permissionsOf u) = None)
    \<and> facets_readable ct uc
    \<and> sat (fst (staticMemberNarrow ct c uc)) it
    \<and> visible_members ct uc (newMemberFilter False) [it] = []"
proof (intro exI conjI)
  show "catalog_laws demo_catalog no_tag_values (demo_sat demo_col) demo_col demo_run (set demo_items)"
    by (rule demo_laws)
  show "demo_item ''ep2'' KindEpisode ''lbo'' ''po1'' \<in> set demo_items"
    by (simp add: demo_items_def)
  show "UserCtx demo_account ''cp1'' (Some [''lbo'']) = Some (demo_caller [''lbo''])"
    by (rule demo_caller_ctx)
  show "validatePermissions (permissionsOf demo_account) = None" by (rule demo_valid)
  show "facets_readable demo_catalog (demo_caller [''lbo''])"
    by (rule demo_readable [OF demo_caller_rules])
  show "demo_sat demo_col (fst (staticMemberNarrow demo_catalog no_tag_values (demo_caller [''lbo''])))
      (demo_item ''ep2'' KindEpisode ''lbo'' ''po1'')"
    by code_simp
  show "visible_members demo_catalog (demo_caller [''lbo'']) (newMemberFilter False)
      [demo_item ''ep2'' KindEpisode ''lbo'' ''po1''] = []"
    by code_simp
qed

end
