(* ===== verification/Stream_Policy.thy ===== *)
theory Stream_Policy
  imports Go_Strings Float64
begin

text \<open>
  The format policy of bridge/flow/policy.go: which shape a source streams in, what a device
  endpoint is served out of the media types it accepts, how a bitrate cap narrows a shape, and the
  gains of voice boost and of a levelled timeline.

  What the streaming engine offers is the record \<open>caps\<close>; no engine is \<^const>\<open>None\<close>.  Whether a
  codec is lossless is the catalog library's reading of its labels, the parameter \<open>ll\<close>.  Loudness
  values are \<^verbatim>\<open>float64\<close>s, the rationals of the theory Float64.
\<close>

section \<open>Sources and shapes\<close>

record source =
  so_Path :: string
  so_Size :: int
  so_MTimeNS :: int
  so_Virtual :: bool
  so_FromSample :: int
  so_ToSample :: int
  so_Codec :: string
  so_Container :: string
  so_BitrateKbps :: int
  so_DurationMS :: int
  so_SpokenWord :: bool
  so_IntegratedLUFS :: "rat option"
  so_TruePeakDB :: "rat option"

record caps =
  cp_Outputs :: "string list"
  cp_CutFormats :: "string list"
  cp_HLS :: bool
  cp_HLSFormats :: "string list"
  cp_Dynamics :: "string list"
  cp_GainMaxVoiceDB :: rat

record shape =
  sh_Format :: string
  sh_MimeType :: string
  sh_Seekable :: bool

definition hasOutput :: "caps option \<Rightarrow> string \<Rightarrow> bool" where
  "hasOutput cs name =
    (case cs of None \<Rightarrow> False | Some c \<Rightarrow> list_ex (\<lambda>o'. o' = name) (cp_Outputs c))"

section \<open>Voice boost and leveling\<close>

definition voiceTargetLUFS :: rat where "voiceTargetLUFS = - 16"

definition VoiceBoostParams :: "source \<Rightarrow> caps option \<Rightarrow> bool \<Rightarrow> rat \<times> bool" where
  "VoiceBoostParams src cs want =
    (case (so_IntegratedLUFS src, cs) of
       (Some lufs, Some c) \<Rightarrow>
         if \<not> want \<or> \<not> so_SpokenWord src then (0, False)
         else if \<not> List.member (cp_Dynamics c) ''voice'' then (0, False)
         else let gain = f64_sub voiceTargetLUFS lufs;
                  ceiling = (if cp_GainMaxVoiceDB c \<le> 0 then 24 else cp_GainMaxVoiceDB c)
              in ((if gain > ceiling then ceiling else gain), True)
     | _ \<Rightarrow> (0, False))"

definition replayGainTargetLUFS :: rat where "replayGainTargetLUFS = - 18"
definition replayGainCeilingDBTP :: rat where "replayGainCeilingDBTP = - 1"
definition replayGainMaxBoostDB :: rat where "replayGainMaxBoostDB = 12"

text \<open>\<^verbatim>\<open>0.05\<close> as a \<^verbatim>\<open>float64\<close>.\<close>

definition inaudible :: rat where "inaudible = f64 (5 / 100)"

definition f64_add :: "rat \<Rightarrow> rat \<Rightarrow> rat" where "f64_add a b = f64 (a + b)"

text \<open>One turn of the loop over the members: the weighted sum, the weight, the peak.\<close>

definition gain_member :: "source \<Rightarrow> rat \<times> rat \<times> rat option \<Rightarrow> rat \<times> rat \<times> rat option" where
  "gain_member m acc =
    (let (weighted, weight, peak) = acc;
         peak' = (case so_TruePeakDB m of None \<Rightarrow> peak
           | Some p \<Rightarrow> (case peak of None \<Rightarrow> Some p | Some q \<Rightarrow> if p > q then Some p else peak))
     in case so_IntegratedLUFS m of
          None \<Rightarrow> (weighted, weight, peak')
        | Some lufs \<Rightarrow>
           (let w0 = f64 (of_int (so_DurationMS m)); w = (if w0 \<le> 0 then 1 else w0)
            in (f64_add weighted (f64_mul lufs w), f64_add weight w, peak')))"

definition TimelineGainDB :: "source list \<Rightarrow> rat \<times> bool" where
  "TimelineGainDB members =
    (let (weighted, weight, peak) = fold gain_member members (0, 0, None) in
     if weight \<le> 0 then (0, False)
     else let db0 = f64_sub replayGainTargetLUFS (f64_div weighted weight);
              db1 = (if db0 > replayGainMaxBoostDB then replayGainMaxBoostDB else db0);
              db = (case peak of None \<Rightarrow> db1
                | Some p \<Rightarrow> (let headroom = f64_sub replayGainCeilingDBTP p
                             in if db1 > headroom then headroom else db1))
          in if db > - inaudible \<and> db < inaudible then (0, False) else (db, True))"

section \<open>Media types\<close>

definition containerMime :: "(string \<times> string) list" where
  "containerMime = [(''flac'', ''audio/flac''), (''mp3'', ''audio/mpeg''), (''wav'', ''audio/wav''),
     (''aiff'', ''audio/aiff''), (''aifc'', ''audio/aiff''), (''ogg'', ''audio/ogg''),
     (''opus'', ''audio/ogg''), (''mp4'', ''audio/mp4''), (''m4a'', ''audio/mp4''),
     (''m4b'', ''audio/mp4''), (''aac'', ''audio/aac''), (''adts'', ''audio/aac''),
     (''matroska'', ''audio/x-matroska''), (''mka'', ''audio/x-matroska''),
     (''webm'', ''audio/webm''), (''asf'', ''audio/x-ms-wma''), (''wma'', ''audio/x-ms-wma''),
     (''ape'', ''audio/x-ape''), (''wavpack'', ''audio/x-wavpack''), (''wv'', ''audio/x-wavpack''),
     (''musepack'', ''audio/x-musepack''), (''mpc'', ''audio/x-musepack''),
     (''mp+'', ''audio/x-musepack''), (''mpga'', ''audio/mpeg'')]"

definition NormalizeContainer :: "string \<Rightarrow> string" where
  "NormalizeContainer label = fst (cut CHR '' '' (to_lower (TrimSpace label)))"

definition ContainerMime :: "string \<Rightarrow> string" where
  "ContainerMime label =
    (case map_of containerMime (NormalizeContainer label) of
       Some m \<Rightarrow> m | None \<Rightarrow> ''application/octet-stream'')"

definition formatMime :: "(string \<times> string) list" where
  "formatMime = [(''flac'', ''audio/flac''), (''mp3'', ''audio/mpeg''), (''opus'', ''audio/ogg''),
     (''aac'', ''audio/mp4''), (''wav'', ''audio/wav'')]"

text \<open>An index into a Go map of strings: a missing key reads as the empty string.\<close>

definition at_key :: "(string \<times> string) list \<Rightarrow> string \<Rightarrow> string" where
  "at_key m k = (case map_of m k of Some v \<Rightarrow> v | None \<Rightarrow> '''')"

definition canonicalMime :: "(string \<times> string) list" where
  "canonicalMime = [(''audio/x-flac'', ''audio/flac''), (''audio/mp3'', ''audio/mpeg''),
     (''audio/x-mp3'', ''audio/mpeg''), (''audio/mpeg3'', ''audio/mpeg''),
     (''audio/x-mpeg-3'', ''audio/mpeg''), (''audio/m4a'', ''audio/mp4''),
     (''audio/x-m4a'', ''audio/mp4''), (''audio/mp4a-latm'', ''audio/mp4''),
     (''audio/x-aac'', ''audio/aac''), (''audio/x-wav'', ''audio/wav''),
     (''audio/wave'', ''audio/wav''), (''audio/vnd.wave'', ''audio/wav''),
     (''audio/x-aiff'', ''audio/aiff''), (''application/ogg'', ''audio/ogg''),
     (''audio/vorbis'', ''audio/ogg'')]"

definition encodeTargets :: "(string \<times> string) list" where
  "encodeTargets = [(''audio/flac'', ''flac''), (''audio/mpeg'', ''mp3''), (''audio/mp4'', ''aac''),
     (''audio/wav'', ''wav'')]"

definition losslessTargets :: "string list" where
  "losslessTargets = [''flac'', ''aac'', ''mp3'', ''wav'']"

definition lossyTargets :: "string list" where "lossyTargets = [''aac'', ''mp3'', ''wav'']"

definition lossyBitrateFormats :: "string list" where
  "lossyBitrateFormats = [''mp3'', ''opus'', ''vorbis'', ''aac'']"

text \<open>The base of an advertised type, and the spelling it folds onto.\<close>

definition base_mime :: "string \<Rightarrow> string" where
  "base_mime mime = TrimSpace (fst (cut CHR '';'' (to_lower (TrimSpace mime))))"

definition fold_mime :: "string \<Rightarrow> string" where
  "fold_mime base = (case map_of canonicalMime base of Some c \<Rightarrow> c | None \<Rightarrow> base)"

fun canonicalize_from :: "(string \<times> string) list \<Rightarrow> string list \<Rightarrow> (string \<times> string) list" where
  "canonicalize_from out [] = out"
| "canonicalize_from out (mime # accepts) =
    (let base = base_mime mime in
     if base = '''' then canonicalize_from out accepts
     else let canonical = fold_mime base in
       if map_of out canonical \<noteq> None then canonicalize_from out accepts
       else canonicalize_from (out @ [(canonical, mime)]) accepts)"

definition canonicalize :: "string list \<Rightarrow> (string \<times> string) list" where
  "canonicalize accepts = canonicalize_from [] accepts"

section \<open>What a device is served\<close>

text \<open>The reversal of the accepted types onto engine formats walks a Go map, whose order is not
  fixed: \<open>order\<close> is the order the walk takes.\<close>

fun encodable_from :: "(string \<times> string) list \<Rightarrow> (string \<times> string) list \<Rightarrow> (string \<times> string) list" where
  "encodable_from out [] = out"
| "encodable_from out ((mime, spelling) # order) =
    (case map_of encodeTargets mime of
       None \<Rightarrow> encodable_from out order
     | Some f \<Rightarrow> encodable_from (AList.update f spelling out) order)"

fun first_target :: "caps option \<Rightarrow> (string \<times> string) list \<Rightarrow> string list \<Rightarrow> (string \<times> string) option" where
  "first_target cs encodable [] = None"
| "first_target cs encodable (f # fs) =
    (case map_of encodable f of
       Some spelling \<Rightarrow> if hasOutput cs f then Some (f, spelling) else first_target cs encodable fs
     | None \<Rightarrow> first_target cs encodable fs)"

definition passthrough_spelling :: "source \<Rightarrow> (string \<times> string) list \<Rightarrow> string option" where
  "passthrough_spelling src wanted =
    (case map_of containerMime (NormalizeContainer (so_Container src)) of
       None \<Rightarrow> None | Some mime \<Rightarrow> map_of wanted (fold_mime mime))"

definition DeviceFormat ::
    "(string \<Rightarrow> bool) \<Rightarrow> ((string \<times> string) list \<Rightarrow> (string \<times> string) list) \<Rightarrow> source \<Rightarrow> shape \<Rightarrow> caps option
      \<Rightarrow> string list \<Rightarrow> string \<Rightarrow> bool \<Rightarrow> string \<times> string" where
  "DeviceFormat ll order src shape cs accepts floor' capped =
    (if cs = None \<or> accepts = [] then (floor', '''')
     else let wanted = canonicalize accepts in
       case (if sh_Format shape = ''auto'' then passthrough_spelling src wanted else None) of
         Some spelling \<Rightarrow> ('''', spelling)
       | None \<Rightarrow>
          (let encodable = encodable_from [] (order wanted);
               targets = (if ll (so_Codec src) \<and> \<not> capped then losslessTargets else lossyTargets)
           in case first_target cs encodable targets of
                Some (f, spelling) \<Rightarrow> (f, spelling)
              | None \<Rightarrow> (floor', '''')))"

section \<open>Shapes\<close>

definition encodeShape :: "string \<Rightarrow> shape" where
  "encodeShape format =
    \<lparr>sh_Format = format, sh_MimeType = at_key formatMime format, sh_Seekable = False\<rparr>"

definition ShapeFor :: "(string \<Rightarrow> bool) \<Rightarrow> source \<Rightarrow> caps option \<Rightarrow> bool \<Rightarrow> shape" where
  "ShapeFor ll src cs voiceBoost =
    (if voiceBoost then (if hasOutput cs ''opus'' then encodeShape ''opus'' else encodeShape ''mp3'')
     else if \<not> so_Virtual src
     then \<lparr>sh_Format = ''auto'', sh_MimeType = ContainerMime (so_Container src), sh_Seekable = True\<rparr>
     else if (case cs of None \<Rightarrow> False | Some c \<Rightarrow> List.member (cp_CutFormats c) (so_Codec src))
     then encodeShape (so_Codec src)
     else if ll (so_Codec src) then encodeShape ''flac''
     else if hasOutput cs ''opus'' then encodeShape ''opus''
     else encodeShape ''mp3'')"

definition SameAsSource :: "source \<Rightarrow> string \<Rightarrow> bool" where
  "SameAsSource src format =
    (let codec = to_lower (TrimSpace (so_Codec src)); container = NormalizeContainer (so_Container src)
     in if format = ''mp3'' then codec = ''mp3'' \<and> container = ''mp3''
        else if format = ''flac'' then codec = ''flac'' \<and> container = ''flac''
        else if format = ''wav'' then codec = ''pcm'' \<and> container = ''wav''
        else if format = ''opus'' then codec = ''opus'' \<and> (container = ''ogg'' \<or> container = ''opus'')
        else if format = ''aac''
        then codec = ''aac'' \<and> (container = ''mp4'' \<or> container = ''m4a'' \<or> container = ''m4b'')
        else False)"

definition MinStreamBitrateKbps :: int where "MinStreamBitrateKbps = 32"
definition MaxStreamBitrateKbps :: int where "MaxStreamBitrateKbps = 320"

definition CappedShape ::
    "(string \<Rightarrow> bool) \<Rightarrow> source \<Rightarrow> caps option \<Rightarrow> shape \<Rightarrow> int \<Rightarrow> shape \<times> bool" where
  "CappedShape ll src cs shape capKbps =
    (if capKbps \<le> 0 then (shape, False)
     else if sh_Seekable shape \<and> \<not> ll (so_Codec src) \<and> so_BitrateKbps src > 0
               \<and> so_BitrateKbps src \<le> capKbps
     then (shape, False)
     else let format = sh_Format shape;
              format' = (if List.member lossyBitrateFormats format then format
                         else if hasOutput cs ''opus'' then ''opus'' else ''mp3'')
          in (encodeShape format', True))"

section \<open>Facts about media types\<close>

lemma canonicalize_from_sound:
  assumes "\<forall>(c, m) \<in> set out. m \<in> S \<and> base_mime m \<noteq> '''' \<and> fold_mime (base_mime m) = c"
    and "set accepts \<subseteq> S" "distinct (map fst out)"
  shows "(\<forall>(c, m) \<in> set (canonicalize_from out accepts).
      m \<in> S \<and> base_mime m \<noteq> '''' \<and> fold_mime (base_mime m) = c)
    \<and> distinct (map fst (canonicalize_from out accepts))"
  using assms
proof (induction accepts arbitrary: out)
  case Nil
  then show ?case by simp
next
  case (Cons mime accepts)
  let ?c = "fold_mime (base_mime mime)"
  show ?case
  proof (cases "base_mime mime = '''' \<or> map_of out ?c \<noteq> None")
    case True
    with Cons show ?thesis by (auto simp: Let_def)
  next
    case False
    then have "?c \<notin> fst ` set out" by (auto simp: map_of_eq_None_iff)
    with False Cons.prems Cons.IH [of "out @ [(?c, mime)]"] show ?thesis
      by (auto simp: Let_def)
  qed
qed

lemma canonicalize_sound:
  "map_of (canonicalize accepts) c = Some m \<Longrightarrow>
    m \<in> set accepts \<and> base_mime m \<noteq> '''' \<and> fold_mime (base_mime m) = c"
  using canonicalize_from_sound [of "[]" "set accepts" accepts]
  by (auto simp: canonicalize_def dest: map_of_SomeD)

lemma canonicalize_distinct: "distinct (map fst (canonicalize accepts))"
  using canonicalize_from_sound [of "[]" "set accepts" accepts] by (simp add: canonicalize_def)

lemma canonicalize_from_dom:
  "fst ` set (canonicalize_from out accepts) =
    fst ` set out \<union> {fold_mime (base_mime m) | m. m \<in> set accepts \<and> base_mime m \<noteq> ''''}"
proof (induction accepts arbitrary: out)
  case Nil
  then show ?case by simp
next
  case (Cons mime accepts)
  have "fold_mime (base_mime mime) \<in> fst ` set out" if "map_of out (fold_mime (base_mime mime)) \<noteq> None"
    using that by (meson map_of_eq_None_iff)
  then show ?case
    by (auto simp: Let_def Cons.IH)
qed

lemma canonicalize_complete:
  assumes "m \<in> set accepts" "base_mime m \<noteq> ''''"
  shows "map_of (canonicalize accepts) (fold_mime (base_mime m)) \<noteq> None"
proof -
  have "fold_mime (base_mime m) \<in> fst ` set (canonicalize accepts)"
    using assms by (auto simp: canonicalize_def canonicalize_from_dom)
  then show ?thesis by (simp add: map_of_eq_None_iff)
qed

definition mime_for :: "string \<Rightarrow> string option" where
  "mime_for f = map_of (map prod.swap encodeTargets) f"

lemma encodeTargets_mime: "map_of encodeTargets m = Some f \<longleftrightarrow> mime_for f = Some m"
  by (auto simp: encodeTargets_def mime_for_def split: if_splits)

lemma encodable_lookup:
  "distinct (map fst order) \<Longrightarrow> map_of (encodable_from out order) f =
    (case mime_for f of None \<Rightarrow> map_of out f
     | Some m \<Rightarrow> (case map_of order m of None \<Rightarrow> map_of out f | Some s \<Rightarrow> Some s))"
proof (induction order arbitrary: out)
  case Nil
  then show ?case by (simp split: option.split)
next
  case (Cons p order)
  obtain mime spelling where p: "p = (mime, spelling)" by (cases p)
  with Cons.prems have none: "map_of order mime = None" by (simp add: map_of_eq_None_iff)
  show ?case
  proof (cases "map_of encodeTargets mime")
    case None
    then have "mime_for f \<noteq> Some mime" by (metis encodeTargets_mime option.distinct(1))
    with None Cons p show ?thesis by (auto split: option.split)
  next
    case (Some g)
    then have "mime_for g = Some mime" by (simp add: encodeTargets_mime)
    moreover have "mime_for f = Some mime \<Longrightarrow> f = g"
      using Some encodeTargets_mime [of mime f] by simp
    ultimately show ?thesis
      using Some Cons.IH [of "AList.update g spelling out"] Cons.prems p none
      by (cases "f = g") (auto simp: update_conv' split: option.split)
  qed
qed

definition walk :: "((string \<times> string) list \<Rightarrow> (string \<times> string) list) \<Rightarrow> bool" where
  "walk order \<longleftrightarrow> (\<forall>xs. distinct (map fst xs) \<longrightarrow>
     distinct (map fst (order xs)) \<and> set (order xs) = set xs)"

lemma walk_lookup:
  assumes "walk order" "distinct (map fst xs)"
  shows "map_of (encodable_from [] (order xs)) f = Option.bind (mime_for f) (map_of xs)"
proof -
  from assms have d: "distinct (map fst (order xs))" and s: "set (order xs) = set xs"
    by (auto simp: walk_def)
  then have "map_of (order xs) = map_of xs"
    using assms(2) by (metis map_of_inject_set)
  with d show ?thesis
    by (auto simp: encodable_lookup split: option.split)
qed

lemma walk_id: "walk (\<lambda>xs. xs)"
  by (simp add: walk_def)

lemma first_target_Some:
  "first_target cs enc fs = Some (f, s) \<Longrightarrow>
    \<exists>before after. fs = before @ f # after \<and> map_of enc f = Some s \<and> hasOutput cs f
      \<and> (\<forall>g \<in> set before. map_of enc g = None \<or> \<not> hasOutput cs g)"
proof (induction fs)
  case Nil
  then show ?case by simp
next
  case (Cons g fs)
  show ?case
  proof (cases "map_of enc g \<noteq> None \<and> hasOutput cs g")
    case True
    with Cons.prems show ?thesis by (intro exI [of _ "[]"] exI [of _ fs]) auto
  next
    case False
    with Cons obtain before after where b: "fs = before @ f # after" "map_of enc f = Some s"
        "hasOutput cs f" "\<forall>g \<in> set before. map_of enc g = None \<or> \<not> hasOutput cs g"
      by (auto split: option.splits if_splits)
    with False show ?thesis by (intro exI [of _ "g # before"] exI [of _ after]) auto
  qed
qed

lemma first_target_None:
  "first_target cs enc fs = None \<longleftrightarrow> (\<forall>f \<in> set fs. map_of enc f = None \<or> \<not> hasOutput cs f)"
  by (induction fs) (auto split: option.splits)

lemma first_target_cong:
  "(\<And>f. map_of enc f = map_of enc' f) \<Longrightarrow> first_target cs enc fs = first_target cs enc' fs"
  by (induction fs) (auto split: option.splits)

lemma mime_for_table:
  "mime_for ''flac'' = Some ''audio/flac''" "mime_for ''mp3'' = Some ''audio/mpeg''"
  "mime_for ''aac'' = Some ''audio/mp4''" "mime_for ''wav'' = Some ''audio/wav''"
  by (simp_all add: mime_for_def encodeTargets_def)

lemma fold_containerMime: "map_of containerMime k = Some m \<Longrightarrow> fold_mime m = m"
proof -
  have "\<forall>m \<in> snd ` set containerMime. fold_mime m = m" by code_simp
  then show "map_of containerMime k = Some m \<Longrightarrow> fold_mime m = m"
    by (force dest: map_of_SomeD)
qed

text \<open>Whether the device accepts a type, by any of its spellings.\<close>

definition accepted :: "string list \<Rightarrow> string \<Rightarrow> bool" where
  "accepted accepts mime \<longleftrightarrow> (\<exists>m \<in> set accepts. base_mime m \<noteq> '''' \<and> fold_mime (base_mime m) = mime)"

lemma canonicalize_accepted:
  "map_of (canonicalize accepts) mime \<noteq> None \<longleftrightarrow> accepted accepts mime"
  using canonicalize_sound canonicalize_complete
  by (fastforce simp: accepted_def)

section \<open>What a device is served, case by case\<close>

lemma device_format_cases:
  assumes "walk order" "DeviceFormat ll order src shape cs accepts fl capped = (f, adv)"
  defines "targets \<equiv> if ll (so_Codec src) \<and> \<not> capped then losslessTargets else lossyTargets"
  shows "(adv = '''' \<and> f = fl
        \<and> (cs = None \<or> (\<forall>g \<in> set targets. \<not> accepted accepts (the (mime_for g)) \<or> \<not> hasOutput cs g)))
    \<or> (adv \<in> set accepts \<and> f = '''' \<and> sh_Format shape = ''auto''
        \<and> map_of containerMime (NormalizeContainer (so_Container src)) = Some (fold_mime (base_mime adv)))
    \<or> (adv \<in> set accepts \<and> hasOutput cs f \<and> mime_for f = Some (fold_mime (base_mime adv))
        \<and> (f = ''flac'' \<longrightarrow> ll (so_Codec src) \<and> \<not> capped)
        \<and> (\<exists>before after. targets = before @ f # after \<and>
             (\<forall>g \<in> set before. \<not> accepted accepts (the (mime_for g)) \<or> \<not> hasOutput cs g)))"
proof -
  let ?w = "canonicalize accepts"
  let ?enc = "encodable_from [] (order ?w)"
  have enc: "map_of ?enc g = Option.bind (mime_for g) (map_of ?w)" for g
    by (rule walk_lookup [OF assms(1) canonicalize_distinct])
  have known: "\<exists>m. mime_for g = Some m" if "g \<in> set targets" for g
    using that by (auto simp: targets_def losslessTargets_def lossyTargets_def mime_for_table
        split: if_splits)
  have acc: "map_of ?enc g = None \<longleftrightarrow> \<not> accepted accepts (the (mime_for g))" if "g \<in> set targets" for g
    using known [OF that] canonicalize_accepted [of accepts "the (mime_for g)"] by (auto simp: enc)
  show ?thesis
  proof (cases "cs = None \<or> accepts = []")
    case True
    with assms(2) show ?thesis by (auto simp: DeviceFormat_def accepted_def)
  next
    case False
    define p where "p = (if sh_Format shape = ''auto'' then passthrough_spelling src ?w else None)"
    show ?thesis
    proof (cases p)
      case (Some spelling)
      with p_def have auto: "sh_Format shape = ''auto''" "passthrough_spelling src ?w = Some spelling"
        by (auto split: if_splits)
      with False assms(2) have "f = ''''" "adv = spelling"
        by (auto simp: DeviceFormat_def Let_def)
      with auto have "f = ''''" "adv = spelling" "sh_Format shape = ''auto''"
        "passthrough_spelling src ?w = Some spelling" by simp_all
      then show ?thesis
        by (auto simp: passthrough_spelling_def fold_containerMime split: option.splits
            dest!: canonicalize_sound)
    next
      case None
      then have df: "DeviceFormat ll order src shape cs accepts fl capped =
          (case first_target cs ?enc targets of Some (g, s) \<Rightarrow> (g, s) | None \<Rightarrow> (fl, ''''))"
        using False p_def by (auto simp: DeviceFormat_def Let_def targets_def)
      show ?thesis
      proof (cases "first_target cs ?enc targets")
        case None
        with df assms(2) acc show ?thesis by (auto simp: first_target_None)
      next
        case (Some q)
        with df assms(2) have ft: "first_target cs ?enc targets = Some (f, adv)" by (cases q) auto
        from first_target_Some [OF this] obtain before after where b:
          "targets = before @ f # after" "map_of ?enc f = Some adv" "hasOutput cs f"
          "\<forall>g \<in> set before. map_of ?enc g = None \<or> \<not> hasOutput cs g" by blast
        from b(2) enc obtain m where m: "mime_for f = Some m" "map_of ?w m = Some adv"
          by (auto simp: bind_eq_Some_conv)
        have "f = ''flac'' \<longrightarrow> ll (so_Codec src) \<and> \<not> capped"
          using b(1) by (auto simp: targets_def lossyTargets_def Cons_eq_append_conv split: if_splits)
        with b m canonicalize_sound [OF m(2)] acc show ?thesis by auto
      qed
    qed
  qed
qed

section \<open>Claims\<close>

text \<open>What a device endpoint is served, whatever order the walk over its types takes: the
  original bytes only on a direct play whose container type it accepts; otherwise the first format
  of the ladder that it accepts and the engine produces, never FLAC for a lossy source or a capped
  account; otherwise the caller's floor.  The type advertised back is a spelling the device
  listed, of the very type that is served.\<close>

theorem device_format_sound:
  assumes "walk order" "DeviceFormat ll order src shape cs accepts fl capped = (f, adv)"
  defines "targets \<equiv> if ll (so_Codec src) \<and> \<not> capped then losslessTargets else lossyTargets"
  shows "(adv = '''' \<and> f = fl
        \<and> (cs = None \<or> (\<forall>g \<in> set targets. \<not> accepted accepts (the (mime_for g)) \<or> \<not> hasOutput cs g)))
    \<or> (adv \<in> set accepts \<and> f = '''' \<and> sh_Format shape = ''auto''
        \<and> map_of containerMime (NormalizeContainer (so_Container src)) = Some (fold_mime (base_mime adv)))
    \<or> (adv \<in> set accepts \<and> hasOutput cs f \<and> mime_for f = Some (fold_mime (base_mime adv))
        \<and> (f = ''flac'' \<longrightarrow> ll (so_Codec src) \<and> \<not> capped)
        \<and> (\<exists>before after. targets = before @ f # after \<and>
             (\<forall>g \<in> set before. \<not> accepted accepts (the (mime_for g)) \<or> \<not> hasOutput cs g)))"
  unfolding targets_def using device_format_cases [OF assms(1,2)] by simp

definition demo_source :: source where
  "demo_source = \<lparr>so_Path = ''/m/a.flac'', so_Size = 9, so_MTimeNS = 1, so_Virtual = False,
     so_FromSample = 0, so_ToSample = 0, so_Codec = ''flac'', so_Container = ''FLAC'',
     so_BitrateKbps = 900, so_DurationMS = 200500, so_SpokenWord = False, so_IntegratedLUFS = None,
     so_TruePeakDB = None\<rparr>"

definition demo_caps :: caps where
  "demo_caps = \<lparr>cp_Outputs = [''flac'', ''mp3'', ''opus'', ''wav''], cp_CutFormats = [''flac''],
     cp_HLS = True, cp_HLSFormats = [''aac''], cp_Dynamics = [''voice''], cp_GainMaxVoiceDB = 24\<rparr>"

lemma device_format_sound_witness:
  "DeviceFormat (\<lambda>c. c = ''flac'') rev demo_source (ShapeFor (\<lambda>c. c = ''flac'') demo_source (Some demo_caps) False)
     (Some demo_caps) [''audio/MP3'', ''audio/x-wav; rate=44100''] ''mp3'' True = (''mp3'', ''audio/MP3'')
   \<and> ''audio/MP3'' \<in> set [''audio/MP3'', ''audio/x-wav; rate=44100'']"
proof
  show df: "DeviceFormat (\<lambda>c. c = ''flac'') rev demo_source
      (ShapeFor (\<lambda>c. c = ''flac'') demo_source (Some demo_caps) False)
      (Some demo_caps) [''audio/MP3'', ''audio/x-wav; rate=44100''] ''mp3'' True = (''mp3'', ''audio/MP3'')"
    by code_simp
  have "walk rev" by (simp add: walk_def rev_map [symmetric])
  from device_format_sound [OF this df]
  show "''audio/MP3'' \<in> set [''audio/MP3'', ''audio/x-wav; rate=44100'']" by auto
qed

text \<open>The gains: a boost stays under the engine's ceiling, and a levelled queue is never lifted
  past the bound, never past the headroom of its loudest peak, and never by an inaudible amount.\<close>

lemma fold_gain_peak:
  "fold gain_member ms (w, wt, pk) = (w', wt', pk') \<Longrightarrow>
    (pk' = None \<longleftrightarrow> pk = None \<and> (\<forall>m \<in> set ms. so_TruePeakDB m = None))
    \<and> (\<forall>p. pk = Some p \<longrightarrow> (\<exists>q. pk' = Some q \<and> p \<le> q))
    \<and> (\<forall>m \<in> set ms. \<forall>p. so_TruePeakDB m = Some p \<longrightarrow> (\<exists>q. pk' = Some q \<and> p \<le> q))"
proof (induction ms arbitrary: w wt pk)
  case Nil
  then show ?case by auto
next
  case (Cons m ms)
  obtain w1 wt1 pk1 where g: "gain_member m (w, wt, pk) = (w1, wt1, pk1)"
    by (cases "gain_member m (w, wt, pk)")
  then have pk1: "pk1 = (case so_TruePeakDB m of None \<Rightarrow> pk
      | Some p \<Rightarrow> (case pk of None \<Rightarrow> Some p | Some q \<Rightarrow> if p > q then Some p else pk))"
    by (auto simp: gain_member_def Let_def split: option.splits)
  from Cons.prems g have "fold gain_member ms (w1, wt1, pk1) = (w', wt', pk')" by simp
  from Cons.IH [OF this] pk1 show ?case
    by (auto split: option.splits if_splits; fastforce)
qed

lemma timeline_gain_bounds:
  assumes "TimelineGainDB ms = (db, b)"
  shows "(\<not> b \<longrightarrow> db = 0)
    \<and> (b \<longrightarrow> db \<le> replayGainMaxBoostDB \<and> (db \<le> - inaudible \<or> inaudible \<le> db)
        \<and> (\<forall>m \<in> set ms. \<forall>p. so_TruePeakDB m = Some p \<longrightarrow> db \<le> f64_sub replayGainCeilingDBTP p))"
proof -
  obtain w wt pk where f: "fold gain_member ms (0, 0, None) = (w, wt, pk)"
    by (cases "fold gain_member ms (0, 0, None)")
  show ?thesis
  proof (cases b)
    case False
    with assms f show ?thesis by (auto simp: TimelineGainDB_def Let_def split: if_splits)
  next
    case True
    define db1 where "db1 = min (f64_sub replayGainTargetLUFS (f64_div w wt)) replayGainMaxBoostDB"
    have db: "db = (case pk of None \<Rightarrow> db1 | Some p \<Rightarrow> min db1 (f64_sub replayGainCeilingDBTP p))"
      using assms f True
      by (auto simp: TimelineGainDB_def Let_def db1_def min_def split: if_splits option.splits)
    have loud: "db \<le> - inaudible \<or> inaudible \<le> db"
      using assms f True by (auto simp: TimelineGainDB_def Let_def not_less split: if_splits)
    have "db \<le> f64_sub replayGainCeilingDBTP p" if m: "m \<in> set ms" "so_TruePeakDB m = Some p" for m p
    proof -
      from fold_gain_peak [OF f] m obtain q where q: "pk = Some q" "p \<le> q" by blast
      then have "f64_sub replayGainCeilingDBTP q \<le> f64_sub replayGainCeilingDBTP p"
        by (simp add: f64_sub_def f64_mono)
      with db q show ?thesis by (auto simp: min_def)
    qed
    moreover have "db \<le> replayGainMaxBoostDB"
      by (auto simp: db db1_def min_def split: option.splits)
    ultimately show ?thesis using True loud by auto
  qed
qed

text \<open>A levelled queue is played at a gain that is at most the boost bound, leaves the headroom
  below the peak of every member whose peak is known, and is audible; where nothing was measured or
  nothing is to be done the answer is no gain.  A voice boost engages only on measured spoken word
  with an engine that offers it, at no more than the engine's ceiling.\<close>

lemma gains_bounded:
  "(\<forall>db b. TimelineGainDB ms = (db, b) \<longrightarrow> (\<not> b \<longrightarrow> db = 0)
    \<and> (b \<longrightarrow> db \<le> replayGainMaxBoostDB \<and> (db \<le> - inaudible \<or> inaudible \<le> db)
        \<and> (\<forall>m \<in> set ms. \<forall>p. so_TruePeakDB m = Some p \<longrightarrow> db \<le> f64_sub replayGainCeilingDBTP p)))
  \<and> (\<forall>src cs want g. VoiceBoostParams src cs want = (g, True) \<longrightarrow>
      want \<and> so_SpokenWord src \<and> so_IntegratedLUFS src \<noteq> None
      \<and> (\<exists>c. cs = Some c \<and> ''voice'' \<in> set (cp_Dynamics c)
          \<and> g \<le> (if cp_GainMaxVoiceDB c \<le> 0 then 24 else cp_GainMaxVoiceDB c)))"
  using timeline_gain_bounds [of ms]
  by (auto simp: VoiceBoostParams_def Let_def split: option.splits if_splits)


lemma f64_int_exact: "\<bar>n\<bar> < 2 ^ 53 \<Longrightarrow> f64 (of_int n) = of_int n"
proof (cases "0 \<le> n")
  case False
  assume "\<bar>n\<bar> < 2 ^ 53"
  with False have "f64 (of_int (- n)) = of_int (- n)" by (intro f64_of_nat_exact) auto
  moreover have "f64 (of_int n) = - f64 (of_int (- n))" using False by (simp add: f64_def)
  ultimately show ?thesis by simp
qed (simp add: f64_of_nat_exact)

lemma gains_bounded_witness:
  "TimelineGainDB [demo_source\<lparr>so_DurationMS := 1000, so_IntegratedLUFS := Some (- 20), so_TruePeakDB := Some (- 4)\<rparr>]
      = (2, True)
    \<and> 2 \<le> replayGainMaxBoostDB \<and> 2 \<le> f64_sub replayGainCeilingDBTP (- 4)"
proof -
  let ?ms = "[demo_source\<lparr>so_DurationMS := 1000, so_IntegratedLUFS := Some (- 20), so_TruePeakDB := Some (- 4)\<rparr>]"
  have e: "f64 1000 = 1000" "f64 (- 20000) = - 20000" "f64 (- 20) = - 20" "f64 2 = 2" "f64 3 = 3" "f64 1 = 1"
    using f64_int_exact [of 1000] f64_int_exact [of "- 20000"] f64_int_exact [of "- 20"]
      f64_int_exact [of 2] f64_int_exact [of 3] f64_int_exact [of 1] by simp_all
  have "inaudible \<le> f64 1" unfolding inaudible_def by (rule f64_mono) simp
  with e have g: "TimelineGainDB ?ms = (2, True)"
    by (simp add: TimelineGainDB_def gain_member_def demo_source_def f64_add_def f64_sub_def f64_mul_def
        f64_div_def replayGainTargetLUFS_def replayGainMaxBoostDB_def replayGainCeilingDBTP_def Let_def)
  with gains_bounded [of ?ms, THEN conjunct1] show ?thesis by auto
qed

end
