(* ===== verification/Tokens.thy ===== *)
theory Tokens
  imports Go_Strings
begin

text \<open>
  The signed tokens of auth/mediatoken.go and auth/sharetoken.go: short-lived media tokens bound
  to what they were minted for, and capability tokens of public shares.  A string is its bytes.
  Base64 is written out as \<^verbatim>\<open>base64.RawURLEncoding\<close> computes it, with the decoder's leniency
  (line breaks are skipped, spare bits of the last character are ignored).  The keyed digest is a
  parameter \<open>sign\<close>, any function of the payload.
\<close>

section \<open>Base64\<close>

definition alphabet :: string where
  "alphabet = ''ABCDEFGHIJKLMNOPQRSTUVWXYZabcdefghijklmnopqrstuvwxyz0123456789-_''"

definition enc_char :: "nat \<Rightarrow> char" where "enc_char n = alphabet ! n"

definition byte_of :: "char \<Rightarrow> nat" where "byte_of c = of_char c"

fun encode :: "string \<Rightarrow> string" where
  "encode [] = []"
| "encode [a] = [enc_char (byte_of a div 4), enc_char (byte_of a mod 4 * 16)]"
| "encode [a, b] = [enc_char (byte_of a div 4), enc_char (byte_of a mod 4 * 16 + byte_of b div 16),
     enc_char (byte_of b mod 16 * 4)]"
| "encode (a # b # c # r) =
    [enc_char (byte_of a div 4), enc_char (byte_of a mod 4 * 16 + byte_of b div 16),
     enc_char (byte_of b mod 16 * 4 + byte_of c div 64), enc_char (byte_of c mod 64)] @ encode r"

definition dec_char :: "char \<Rightarrow> nat option" where
  "dec_char c =
    (let n = byte_of c in
     if 65 \<le> n \<and> n \<le> 90 then Some (n - 65)
     else if 97 \<le> n \<and> n \<le> 122 then Some (n - 71)
     else if 48 \<le> n \<and> n \<le> 57 then Some (n + 4)
     else if n = 45 then Some 62 else if n = 95 then Some 63 else None)"

fun decode_groups :: "nat list \<Rightarrow> string option" where
  "decode_groups [] = Some []"
| "decode_groups [x] = None"
| "decode_groups [x, y] = Some [char_of (x * 4 + y div 16)]"
| "decode_groups [x, y, z] = Some [char_of (x * 4 + y div 16), char_of (y mod 16 * 16 + z div 4)]"
| "decode_groups (x # y # z # w # r) =
    map_option (\<lambda>t. [char_of (x * 4 + y div 16), char_of (y mod 16 * 16 + z div 4),
      char_of (z mod 4 * 64 + w)] @ t) (decode_groups r)"

definition decode :: "string \<Rightarrow> string option" where
  "decode s =
    (case those (map dec_char (filter (\<lambda>c. c \<noteq> CHR 0x0A \<and> c \<noteq> CHR 0x0D) s)) of
       None \<Rightarrow> None | Some ds \<Rightarrow> decode_groups ds)"

section \<open>Fields\<close>

fun join :: "char \<Rightarrow> string list \<Rightarrow> string" where
  "join sep [] = []"
| "join sep [s] = s"
| "join sep (s # t # ss) = s @ sep # join sep (t # ss)"

lemma split_join:
  "xs \<noteq> [] \<Longrightarrow> \<forall>x \<in> set xs. sep \<notin> set x \<Longrightarrow> split_on sep (join sep xs) = xs"
  by (induction sep xs rule: join.induct) (auto simp: split_plain split_on_join)

text \<open>\<^verbatim>\<open>strings.SplitN\<close> at a character.\<close>

fun splitN :: "char \<Rightarrow> nat \<Rightarrow> string \<Rightarrow> string list" where
  "splitN sep 0 s = []"
| "splitN sep (Suc 0) s = [s]"
| "splitN sep (Suc (Suc n)) s =
    (let (a, b, found) = cut sep s in if found then a # splitN sep (Suc n) b else [s])"

definition FormatInt :: "int \<Rightarrow> string" where
  "FormatInt n = (if n < 0 then CHR ''-'' # show_nat (nat (- n)) else show_nat (nat n))"

definition unix_seconds :: "time \<Rightarrow> int" where "unix_seconds t = t div 10 ^ 9"

section \<open>Media tokens\<close>

record media_tokens =
  mt_sign :: "string \<Rightarrow> string"
  mt_ttl :: duration

definition DefaultMediaTokenTTL :: duration where "DefaultMediaTokenTTL = 15 * minute"

text \<open>\<open>NewMediaTokens\<close>: \<open>mac\<close> is the digest under the key derived from the secret.\<close>

definition NewMediaTokens :: "(string \<Rightarrow> string) \<Rightarrow> duration \<Rightarrow> media_tokens" where
  "NewMediaTokens mac ttl =
    \<lparr>mt_sign = mac, mt_ttl = (if ttl \<le> 0 then DefaultMediaTokenTTL else ttl)\<rparr>"

record media_claims =
  mc_User :: string
  mc_Cred :: string
  mc_Purpose :: string
  mc_PID :: string
  mc_Shape :: string
  mc_Exp :: time

record media_want =
  mw_Purposes :: "string list"
  mw_PID :: string
  mw_AnyPID :: bool
  mw_Shape :: string

definition bar :: char where "bar = CHR 0x7C"

definition payload_of :: "media_claims \<Rightarrow> time \<Rightarrow> string" where
  "payload_of c exp = join bar [''v2'', mc_User c, mc_Cred c, mc_Purpose c, mc_PID c,
     FormatInt (unix_seconds exp), mc_Shape c]"

definition MintFor :: "media_tokens \<Rightarrow> time \<Rightarrow> media_claims \<Rightarrow> duration \<Rightarrow> string \<times> time" where
  "MintFor m now c ttl =
    (let ttl' = (if ttl \<le> 0 then mt_ttl m else ttl);
         exp = (now + ttl') - (now + ttl') mod second;
         payload = payload_of c exp
     in (encode payload @ ''.'' @ encode (mt_sign m payload), exp))"

definition Verify :: "media_tokens \<Rightarrow> time \<Rightarrow> string \<Rightarrow> media_want \<Rightarrow> media_claims option" where
  "Verify m now token want =
    (let (payloadB64, sigB64, ok) = cut CHR ''.'' token in
     if \<not> ok then None
     else case decode payloadB64 of
       None \<Rightarrow> None
     | Some payload \<Rightarrow>
        (case decode sigB64 of
           None \<Rightarrow> None
         | Some sig \<Rightarrow>
            if sig \<noteq> mt_sign m payload then None
            else let parts = splitN bar 7 payload in
              if length parts \<noteq> 7 \<or> parts ! 0 \<noteq> ''v2'' then None
              else case Atoi (parts ! 5) of
                None \<Rightarrow> None
              | Some expUnix \<Rightarrow>
                  if unix_seconds now > expUnix then None
                  else let c = \<lparr>mc_User = parts ! 1, mc_Cred = parts ! 2, mc_Purpose = parts ! 3,
                              mc_PID = parts ! 4, mc_Shape = parts ! 6, mc_Exp = expUnix * 10 ^ 9\<rparr>
                       in if mc_Purpose c \<notin> set (mw_Purposes want)
                            \<or> \<not> mw_AnyPID want \<and> mc_PID c \<noteq> mw_PID want
                            \<or> mc_Shape c \<noteq> mw_Shape want
                          then None else Some c))"

section \<open>Share tokens\<close>

definition shareSigBytes :: nat where "shareSigBytes = 16"

definition share_sign :: "(string \<Rightarrow> string) \<Rightarrow> string \<Rightarrow> string" where
  "share_sign mac sid = take shareSigBytes (mac sid)"

definition Mint :: "(string \<Rightarrow> string) \<Rightarrow> string \<Rightarrow> string" where
  "Mint mac shareID = shareID @ ''.'' @ encode (share_sign mac shareID)"

definition VerifyShare :: "(string \<Rightarrow> string) \<Rightarrow> string \<Rightarrow> string option" where
  "VerifyShare mac token =
    (let (sid, sigB64, ok) = cut CHR ''.'' token in
     if \<not> ok \<or> sid = '''' then None
     else case decode sigB64 of
       None \<Rightarrow> None
     | Some sig \<Rightarrow> if sig \<noteq> share_sign mac sid then None else Some sid)"

section \<open>Base64 reads what it wrote\<close>

lemma alphabet_length: "length alphabet = 64"
  by (simp add: alphabet_def)

lemma enc_dec: "n < 64 \<Longrightarrow> dec_char (enc_char n) = Some n"
proof -
  assume n: "n < 64"
  have "map dec_char alphabet = map Some [0..<64]"
    by (simp add: alphabet_def dec_char_def byte_of_def upt_rec)
  then have "map dec_char alphabet ! n = map Some [0..<64] ! n" by simp
  with n show "dec_char (enc_char n) = Some n"
    by (simp add: enc_char_def alphabet_length)
qed

lemma enc_plain: "n < 64 \<Longrightarrow> enc_char n \<notin> {CHR 0x0A, CHR 0x0D, CHR ''.''}"
proof -
  assume "n < 64"
  then have "enc_char n \<in> set alphabet" by (simp add: enc_char_def alphabet_length)
  moreover have "set alphabet \<inter> {CHR 0x0A, CHR 0x0D, CHR ''.''} = {}" by (simp add: alphabet_def)
  ultimately show "enc_char n \<notin> {CHR 0x0A, CHR 0x0D, CHR ''.''}" by blast
qed

lemma byte_less: "byte_of c < 256"
  by (simp add: byte_of_def)

fun sextets :: "string \<Rightarrow> nat list" where
  "sextets [] = []"
| "sextets [a] = [byte_of a div 4, byte_of a mod 4 * 16]"
| "sextets [a, b] = [byte_of a div 4, byte_of a mod 4 * 16 + byte_of b div 16, byte_of b mod 16 * 4]"
| "sextets (a # b # c # r) =
    [byte_of a div 4, byte_of a mod 4 * 16 + byte_of b div 16,
     byte_of b mod 16 * 4 + byte_of c div 64, byte_of c mod 64] @ sextets r"

lemma encode_sextets: "encode s = map enc_char (sextets s)"
  by (induction s rule: sextets.induct) auto

lemma high_bits:
  "byte_of a div 4 < 64" "byte_of a mod 4 * 16 < 64" "byte_of a mod 4 * 16 + byte_of b div 16 < 64"
  "byte_of b mod 16 * 4 < 64" "byte_of b mod 16 * 4 + byte_of c div 64 < 64"
proof -
  have "byte_of a div 4 < 64" "byte_of b div 16 < 16" "byte_of c div 64 < 4"
    using byte_less [of a] byte_less [of b] byte_less [of c] by (simp_all add: div_less_iff_less_mult)
  moreover have "byte_of a mod 4 < 4" "byte_of b mod 16 < 16" by simp_all
  ultimately show "byte_of a div 4 < 64" "byte_of a mod 4 * 16 < 64"
    "byte_of a mod 4 * 16 + byte_of b div 16 < 64"
    "byte_of b mod 16 * 4 < 64" "byte_of b mod 16 * 4 + byte_of c div 64 < 64"
    by linarith+
qed

lemma sextets_less: "\<forall>n \<in> set (sextets s). n < 64"
  by (induction s rule: sextets.induct) (auto simp: high_bits)

lemma join_bits:
  fixes x y :: nat
  shows "y < 16 \<Longrightarrow> (x mod 4 * 16 + y) div 16 = x mod 4" "y < 16 \<Longrightarrow> (x mod 4 * 16 + y) mod 16 = y"
    "y < 4 \<Longrightarrow> (x mod 16 * 4 + y) div 4 = x mod 16" "y < 4 \<Longrightarrow> (x mod 16 * 4 + y) mod 4 = y"
  by simp_all

lemma bits_of_bytes:
  "byte_of b div 16 < 16" "byte_of c div 64 < 4"
  using byte_less [of b] byte_less [of c] by (simp_all add: div_less_iff_less_mult)

lemma char_byte: "char_of (byte_of a) = a"
  by (simp add: byte_of_def)

lemma decode_sextets: "decode_groups (sextets s) = Some s"
  by (induction s rule: sextets.induct)
    (simp_all add: join_bits bits_of_bytes char_byte)

lemma those_map_Some: "\<forall>x \<in> set xs. f (g x) = Some x \<Longrightarrow> those (map (f \<circ> g) xs) = Some xs"
  by (induction xs) auto

lemma decode_encode: "decode (encode s) = Some s"
proof -
  have "filter (\<lambda>c. c \<noteq> CHR 0x0A \<and> c \<noteq> CHR 0x0D) (encode s) = encode s"
    using sextets_less [of s] enc_plain by (auto simp: encode_sextets filter_map intro!: filter_True)
  moreover have "those (map (dec_char \<circ> enc_char) (sextets s)) = Some (sextets s)"
    using sextets_less [of s] by (intro those_map_Some) (auto simp: enc_dec)
  ultimately show ?thesis by (simp add: decode_def encode_sextets decode_sextets)
qed

lemma encode_no_dot: "CHR ''.'' \<notin> set (encode s)"
  using sextets_less [of s] enc_plain by (force simp: encode_sextets)

section \<open>Reading fields back\<close>

lemma splitN_join:
  "bar \<notin> set s \<Longrightarrow> splitN bar (Suc (Suc n)) (s @ bar # t) = s # splitN bar (Suc n) t"
  by (simp add: cut_at)

lemma join7:
  assumes "bar \<notin> set a" "bar \<notin> set b" "bar \<notin> set c" "bar \<notin> set d" "bar \<notin> set e" "bar \<notin> set f"
  shows "splitN bar 7 (join bar [a, b, c, d, e, f, g]) = [a, b, c, d, e, f, g]"
proof -
  have "splitN bar (Suc (Suc (Suc (Suc (Suc (Suc (Suc 0))))))) (join bar [a, b, c, d, e, f, g])
      = [a, b, c, d, e, f, g]"
    using assms by (simp add: splitN_join del: splitN.simps(3))
  then show ?thesis by (simp add: numeral_eq_Suc)
qed

lemma show_nat_plain_chars: "c \<in> set (show_nat n) \<Longrightarrow> is_digit c"
  using show_nat_digits [of n] by (simp add: isDigits_def list_all_iff)

lemma FormatInt_plain: "bar \<notin> set (FormatInt n)"
  using show_nat_plain_chars
  by (auto simp: FormatInt_def bar_def is_digit_def less_eq_char_def dest!: show_nat_plain_chars)

lemma Atoi_FormatInt:
  assumes "- (2 ^ 63) \<le> n" "n < 2 ^ 63"
  shows "Atoi (FormatInt n) = Some n"
proof (cases "n < 0")
  case True
  with assms show_nat_digits [of "nat (- n)"] show ?thesis
    by (simp add: FormatInt_def Atoi_def Let_def)
next
  case False
  with assms show ?thesis by (simp add: FormatInt_def Atoi_show_nat nat_less_iff)
qed

lemma cut_token: "cut CHR ''.'' (encode p @ ''.'' @ s) = (encode p, s, True)"
  using cut_at [OF encode_no_dot] by simp

definition plain_claims :: "media_claims \<Rightarrow> bool" where
  "plain_claims c \<longleftrightarrow> bar \<notin> set (mc_User c) \<and> bar \<notin> set (mc_Cred c) \<and> bar \<notin> set (mc_Purpose c)
     \<and> bar \<notin> set (mc_PID c)"

definition wanted :: "media_want \<Rightarrow> media_claims \<Rightarrow> bool" where
  "wanted want c \<longleftrightarrow> mc_Purpose c \<in> set (mw_Purposes want)
     \<and> (mw_AnyPID want \<or> mc_PID c = mw_PID want) \<and> mc_Shape c = mw_Shape want"

lemma plain_v2: "bar \<noteq> CHR ''v''" "bar \<noteq> CHR ''2''"
  by (simp_all add: bar_def)

lemma payload_parts:
  "plain_claims c \<Longrightarrow> splitN bar 7 (payload_of c e) =
    [''v2'', mc_User c, mc_Cred c, mc_Purpose c, mc_PID c, FormatInt (unix_seconds e), mc_Shape c]"
  unfolding payload_of_def plain_claims_def
  by (rule join7) (simp_all add: FormatInt_plain plain_v2)

text \<open>What a token signed over seven parts verifies as.\<close>

lemma Verify_parts:
  assumes "splitN bar 7 p = [''v2'', u, cr, pu, pid, ex, sh]" "Atoi ex = Some n"
    and "cut CHR ''.'' token = (a, b, True)" "decode a = Some p" "decode b = Some (mt_sign m p)"
  shows "Verify m now token want =
    (let c = \<lparr>mc_User = u, mc_Cred = cr, mc_Purpose = pu, mc_PID = pid, mc_Shape = sh,
              mc_Exp = n * 10 ^ 9\<rparr>
     in if unix_seconds now \<le> n \<and> wanted want c then Some c else None)"
  using assms by (auto simp: Verify_def Let_def wanted_def numeral_eq_Suc)

lemma Verify_sound:
  assumes "Verify m now token want = Some c"
  obtains a b p where "cut CHR ''.'' token = (a, b, True)" "decode a = Some p"
    "decode b = Some (mt_sign m p)"
  using assms that by (auto simp: Verify_def Let_def split: if_splits option.splits prod.splits)

lemma Verify_minted:
  assumes "MintFor m t c ttl = (token, exp)" "plain_claims c"
    and "- (2 ^ 63) \<le> unix_seconds exp" "unix_seconds exp < 2 ^ 63"
  shows "Verify m now token want =
    (if unix_seconds now \<le> unix_seconds exp \<and> wanted want c then Some (c\<lparr>mc_Exp := exp\<rparr>) else None)"
proof -
  have tok: "token = encode (payload_of c exp) @ ''.'' @ encode (mt_sign m (payload_of c exp))"
    and whole: "exp mod second = 0"
    using assms(1) by (auto simp: MintFor_def Let_def second_def)
  have "unix_seconds exp * 10 ^ 9 = exp"
    using whole by (simp add: unix_seconds_def second_def) (metis add.right_neutral div_mult_mod_eq)
  then show ?thesis
    using Verify_parts [OF payload_parts [OF assms(2)] Atoi_FormatInt [OF assms(3,4)]
        cut_token decode_encode decode_encode, of m now want] tok
    by (cases c) (simp add: wanted_def Let_def)
qed

section \<open>Claims\<close>

text \<open>A minted token is accepted exactly up to the second it names, by a fetch that accepts its
  purpose, its item and its stream parameters, and then answers the claims it was minted for.\<close>

theorem minted_token_verifies:
  assumes "MintFor m t c ttl = (token, exp)" "plain_claims c"
    and "- (2 ^ 63) \<le> unix_seconds exp" "unix_seconds exp < 2 ^ 63"
  shows "Verify m now token want =
    (if unix_seconds now \<le> unix_seconds exp \<and> wanted want c then Some (c\<lparr>mc_Exp := exp\<rparr>) else None)"
  by (rule Verify_minted [OF assms])

text \<open>If the only payloads a client can present under a valid digest are those the server
  minted, an accepted token answers the claims of one mint, not expired, as the fetch asked.\<close>

theorem verified_claims_were_minted:
  assumes "Verify m now token want = Some c'"
    and "\<And>p. decode (fst (cut CHR ''.'' token)) = Some p \<Longrightarrow>
           decode (fst (snd (cut CHR ''.'' token))) = Some (mt_sign m p) \<Longrightarrow>
           \<exists>(c, e) \<in> minted. p = payload_of c e"
    and "\<forall>(c, e) \<in> minted. plain_claims c \<and> e mod second = 0
           \<and> - (2 ^ 63) \<le> unix_seconds e \<and> unix_seconds e < 2 ^ 63"
  shows "\<exists>(c, e) \<in> minted. c' = c\<lparr>mc_Exp := e\<rparr> \<and> wanted want c \<and> unix_seconds now \<le> unix_seconds e"
proof -
  from assms(1) obtain a b p where v: "cut CHR ''.'' token = (a, b, True)" "decode a = Some p"
      "decode b = Some (mt_sign m p)"
    by (rule Verify_sound)
  with assms(2) [of p] obtain c e where ce: "(c, e) \<in> minted" "p = payload_of c e" by auto
  with assms(3) have ok: "plain_claims c" "e mod second = 0"
    "- (2 ^ 63) \<le> unix_seconds e" "unix_seconds e < 2 ^ 63" by auto
  have exp: "unix_seconds e * 10 ^ 9 = e"
    using ok(2) by (simp add: unix_seconds_def second_def) (metis add.right_neutral div_mult_mod_eq)
  from Verify_parts [OF payload_parts [OF ok(1)] Atoi_FormatInt [OF ok(3,4)] v(1)] v(2,3) ce(2)
    assms(1) exp
  have "c' = c\<lparr>mc_Exp := e\<rparr>" "wanted want c" "unix_seconds now \<le> unix_seconds e"
    by (cases c; auto simp: Let_def wanted_def split: if_splits)+
  with ce(1) show ?thesis by blast
qed

definition demo_claims :: media_claims where
  "demo_claims = \<lparr>mc_User = ''us-1'', mc_Cred = ''se:4'', mc_Purpose = ''stream'', mc_PID = ''it-9'',
     mc_Shape = ''format=opus'', mc_Exp = 0\<rparr>"

definition demo_tokens :: media_tokens where
  "demo_tokens = NewMediaTokens (\<lambda>s. rev (take 20 s)) 0"

definition demo_want :: media_want where
  "demo_want = \<lparr>mw_Purposes = [''stream''], mw_PID = ''it-9'', mw_AnyPID = False,
     mw_Shape = ''format=opus''\<rparr>"

lemma demo_mint: "\<exists>token. MintFor demo_tokens (5 * second + 7) demo_claims 0 = (token, 905 * second)"
  by (simp add: MintFor_def Let_def demo_tokens_def NewMediaTokens_def DefaultMediaTokenTTL_def
      minute_def second_def)

lemma demo_plain: "plain_claims demo_claims"
  by (simp add: plain_claims_def demo_claims_def bar_def)

lemma minted_token_verifies_witness:
  "\<exists>token. MintFor demo_tokens (5 * second + 7) demo_claims 0 = (token, 905 * second)
    \<and> Verify demo_tokens (905 * second) token demo_want = Some (demo_claims\<lparr>mc_Exp := 905 * second\<rparr>)
    \<and> Verify demo_tokens (906 * second) token demo_want = None"
proof -
  obtain token where tok: "MintFor demo_tokens (5 * second + 7) demo_claims 0 = (token, 905 * second)"
    using demo_mint by blast
  have u: "unix_seconds (905 * second) = 905" "unix_seconds (906 * second) = 906"
    by (simp_all add: unix_seconds_def second_def)
  have w: "wanted demo_want demo_claims" by (simp add: wanted_def demo_want_def demo_claims_def)
  note v = minted_token_verifies [OF tok demo_plain]
  show ?thesis using tok v [of "905 * second" demo_want] v [of "906 * second" demo_want] u w by auto
qed

lemma verified_claims_were_minted_witness:
  "\<exists>token. \<exists>(c, e) \<in> {(demo_claims, 905 * second)}.
     demo_claims\<lparr>mc_Exp := 905 * second\<rparr> = c\<lparr>mc_Exp := e\<rparr> \<and> wanted demo_want c
     \<and> unix_seconds 0 \<le> unix_seconds e \<and> Verify demo_tokens 0 token demo_want = Some (c\<lparr>mc_Exp := e\<rparr>)"
proof -
  let ?p = "payload_of demo_claims (905 * second)"
  let ?tok = "encode ?p @ ''.'' @ encode (mt_sign demo_tokens ?p)"
  have u: "unix_seconds (905 * second) = 905" by (simp add: unix_seconds_def second_def)
  have w: "wanted demo_want demo_claims" by (simp add: wanted_def demo_want_def demo_claims_def)
  have v: "Verify demo_tokens 0 ?tok demo_want = Some (demo_claims\<lparr>mc_Exp := 905 * second\<rparr>)"
    using Verify_parts [OF payload_parts [OF demo_plain] Atoi_FormatInt cut_token decode_encode decode_encode,
        of "905 * second" demo_tokens 0 demo_want] u w
    by (simp add: Let_def demo_claims_def wanted_def unix_seconds_def second_def)
  have "\<exists>(c, e) \<in> {(demo_claims, 905 * second)}. demo_claims\<lparr>mc_Exp := 905 * second\<rparr> = c\<lparr>mc_Exp := e\<rparr>
      \<and> wanted demo_want c \<and> unix_seconds 0 \<le> unix_seconds e"
    by (rule verified_claims_were_minted [OF v])
      (use decode_encode [of ?p] cut_token [of ?p] demo_plain u in \<open>auto simp: second_def\<close>)
  with v show ?thesis by auto
qed

text \<open>A share token verifies as its share, and what verifies is a share's identifier with its
  digest under some reading of the base64.\<close>

text \<open>A share's token verifies as that share, and a token verifies as a share only when it
  spells the share's identifier and a base64 form of its digest.\<close>

theorem share_tokens_verify:
  "VerifyShare mac token = Some sid \<longleftrightarrow>
    sid \<noteq> '''' \<and> CHR ''.'' \<notin> set sid \<and>
    (\<exists>sig. token = sid @ ''.'' @ sig \<and> decode sig = Some (share_sign mac sid))"
proof
  assume v: "VerifyShare mac token = Some sid"
  then have dot: "CHR ''.'' \<in> set token"
    by (auto simp: VerifyShare_def cut_def split: if_splits)
  then obtain a b where ab: "token = a @ CHR ''.'' # b" "CHR ''.'' \<notin> set a"
    by (meson split_list_first)
  with v show "sid \<noteq> '''' \<and> CHR ''.'' \<notin> set sid \<and>
      (\<exists>sig. token = sid @ ''.'' @ sig \<and> decode sig = Some (share_sign mac sid))"
    by (auto simp: VerifyShare_def cut_at split: if_splits option.splits)
next
  assume "sid \<noteq> '''' \<and> CHR ''.'' \<notin> set sid \<and>
    (\<exists>sig. token = sid @ ''.'' @ sig \<and> decode sig = Some (share_sign mac sid))"
  then show "VerifyShare mac token = Some sid"
    using cut_at [of "CHR ''.''" sid] by (auto simp: VerifyShare_def)
qed

lemma minted_share_verifies:
  "sid \<noteq> '''' \<Longrightarrow> CHR ''.'' \<notin> set sid \<Longrightarrow> VerifyShare mac (Mint mac sid) = Some sid"
  using cut_at [of "CHR ''.''" sid] by (simp add: VerifyShare_def Mint_def decode_encode)

text \<open>A field that carries the separator does not always fail: these claims of a download token
  verify as a stream token of another item.\<close>

lemma shifted_field_verifies:
  "\<exists>c t token e want c'. MintFor m t c 0 = (token, e) \<and> Verify m t token want = Some c'
     \<and> mc_Purpose c = ''download'' \<and> mc_Purpose c' = ''stream'' \<and> mc_PID c' \<noteq> mc_PID c"
proof (intro exI conjI)
  let ?c = "\<lparr>mc_User = ''us-1'', mc_Cred = ''x|stream|it-2|9999999999'', mc_Purpose = ''download'',
    mc_PID = ''it-1'', mc_Shape = '''', mc_Exp = 0\<rparr>"
  let ?e = "mt_ttl m - mt_ttl m mod second"
  let ?sh = "''download|it-1|'' @ FormatInt (unix_seconds ?e) @ ''|''"
  let ?want = "\<lparr>mw_Purposes = [''stream''], mw_PID = ''it-2'', mw_AnyPID = False, mw_Shape = ?sh\<rparr>"
  let ?tok = "encode (payload_of ?c ?e) @ ''.'' @ encode (mt_sign m (payload_of ?c ?e))"
  let ?c' = "\<lparr>mc_User = ''us-1'', mc_Cred = ''x'', mc_Purpose = ''stream'', mc_PID = ''it-2'',
    mc_Shape = ?sh, mc_Exp = 9999999999 * 10 ^ 9\<rparr>"
  show "MintFor m 0 ?c 0 = (?tok, ?e)" by (simp add: MintFor_def Let_def)
  have "payload_of ?c ?e = join bar [''v2'', ''us-1'', ''x'', ''stream'', ''it-2'', ''9999999999'', ?sh]"
    by (simp add: payload_of_def bar_def)
  then have parts: "splitN bar 7 (payload_of ?c ?e) =
      [''v2'', ''us-1'', ''x'', ''stream'', ''it-2'', ''9999999999'', ?sh]"
    by (simp only:) (rule join7; simp add: bar_def)
  have "Atoi ''9999999999'' = Some 9999999999" by code_simp
  from Verify_parts [OF parts this cut_token decode_encode decode_encode, of m 0 ?want]
  show "Verify m 0 ?tok ?want = Some ?c'"
    by (simp add: Let_def wanted_def unix_seconds_def)
qed simp_all

end
