(* ===== verification/Streaming.thy ===== *)
theory Streaming
  imports Stream_Policy Tokens "HOL-Library.List_Lexorder"
begin

text \<open>
  Minting a stream URL and serving it (bridge/flow/bridge.go, bridge/flow/limits.go,
  bridge/flow/hlsitem.go): \<open>PlayInfoForSource\<close> decides a shape and signs the stream parameters
  into a token, \<open>ServeStream\<close> verifies the token, decides the shape again from the live state and
  asks the engine for it.

  A request's query is its text, parsed as \<^verbatim>\<open>net/url\<close> does.  The bridge as one request finds it
  is the record \<open>bridge\<close>: the engine's offer, the gate's answers, the resolver's, the roots.  The
  proxied answer is the list of parameters the engine is asked with; an answer the handler writes
  itself is a status and a code.
\<close>

section \<open>Query strings\<close>

type_synonym query = "(string \<times> string) list"

definition query_get :: "query \<Rightarrow> string \<Rightarrow> string" where
  "query_get q k = (case map_of q k of None \<Rightarrow> '''' | Some v \<Rightarrow> v)"

definition hex_digits :: string where "hex_digits = ''0123456789ABCDEF''"

definition unreserved :: "char \<Rightarrow> bool" where
  "unreserved c \<longleftrightarrow>
    (let n = byte_of c in (65 \<le> n \<and> n \<le> 90) \<or> (97 \<le> n \<and> n \<le> 122) \<or> (48 \<le> n \<and> n \<le> 57)
       \<or> n \<in> {45, 95, 46, 126})"

definition escape_char :: "char \<Rightarrow> string" where
  "escape_char c =
    (if unreserved c then [c] else if c = CHR '' '' then ''+''
     else [CHR ''%'', hex_digits ! (byte_of c div 16), hex_digits ! (byte_of c mod 16)])"

definition QueryEscape :: "string \<Rightarrow> string" where
  "QueryEscape s = concat (map escape_char s)"

definition unhex :: "char \<Rightarrow> nat option" where
  "unhex c =
    (let n = byte_of c in
     if 48 \<le> n \<and> n \<le> 57 then Some (n - 48)
     else if 97 \<le> n \<and> n \<le> 102 then Some (n - 87)
     else if 65 \<le> n \<and> n \<le> 70 then Some (n - 55) else None)"

fun QueryUnescape :: "string \<Rightarrow> string option" where
  "QueryUnescape [] = Some []"
| "QueryUnescape (c # s) =
    (if c = CHR ''%'' then
       (case s of
          h # l # r \<Rightarrow>
           (case (unhex h, unhex l) of
              (Some a, Some b) \<Rightarrow> map_option ((#) (char_of (a * 16 + b))) (QueryUnescape r)
            | _ \<Rightarrow> None)
        | _ \<Rightarrow> None)
     else if c = CHR ''+'' then map_option ((#) (CHR '' '')) (QueryUnescape s)
     else map_option ((#) c) (QueryUnescape s))"

definition pair_text :: "string \<times> string \<Rightarrow> string" where
  "pair_text p = QueryEscape (fst p) @ ''='' @ QueryEscape (snd p)"

text \<open>\<^verbatim>\<open>url.Values.Encode\<close> of one value per key: sorted by key.\<close>

definition Encode :: "query \<Rightarrow> string" where
  "Encode q = join CHR ''&'' (map pair_text (sort_key fst q))"

definition parse_pair :: "string \<Rightarrow> query" where
  "parse_pair s =
    (if s = '''' \<or> CHR 0x3B \<in> set s then []
     else let (k, v, _) = cut CHR ''='' s in
       case (QueryUnescape k, QueryUnescape v) of (Some k', Some v') \<Rightarrow> [(k', v')] | _ \<Rightarrow> [])"

definition ParseQuery :: "string \<Rightarrow> query" where
  "ParseQuery s = concat (map parse_pair (split_on CHR ''&'' s))"

text \<open>The query of a URL: what follows the first question mark.\<close>

definition url_query :: "string \<Rightarrow> query" where
  "url_query u = (let (_, q, _) = cut CHR ''?'' u in ParseQuery q)"

definition bound_keys :: "string list" where
  "bound_keys = [''f'', ''vb'', ''fmt'', ''br'', ''enc'', ''join'']"

definition streamShape :: "query \<Rightarrow> string" where
  "streamShape q =
    Encode (filter (\<lambda>(k, x). x \<noteq> '''') (map (\<lambda>k. (k, query_get q k)) bound_keys))"

section \<open>The bridge\<close>

datatype media_check = MediaOK | MediaRevoked | MediaRefused | Maintenance | CheckFailed

record transcode_gate =
  ga_Acquire :: "string \<Rightarrow> bool"
  ga_MaxBitrateKbps :: "string \<Rightarrow> int"
  ga_AuthorizeMedia :: "media_claims \<Rightarrow> media_check"

datatype upstream_value = UText string | UGain rat | UCut rat

text \<open>\<open>bg_rendering\<close> answers the rendering key of the master the engine signs for the parameters,
  \<open>None\<close> where it refuses or names no single source; \<open>bg_order\<close> is the order a walk over a map of
  accepted types takes.\<close>

record bridge =
  bg_caps :: "caps option"
  bg_tokens :: media_tokens
  bg_gate :: "transcode_gate option"
  bg_roots :: "(string \<times> string) list"
  bg_resolve :: "string \<Rightarrow> string \<Rightarrow> source option"
  bg_lossless :: "string \<Rightarrow> bool"
  bg_rendering :: "(string \<times> upstream_value) list \<Rightarrow> string option"
  bg_order :: "(string \<times> string) list \<Rightarrow> (string \<times> string) list"

text \<open>\<^verbatim>\<open>filepath.Rel\<close> of clean absolute paths, \<open>None\<close> where it climbs out of the root.\<close>

definition rel_path :: "string \<Rightarrow> string \<Rightarrow> string option" where
  "rel_path rdir path =
    (if path = rdir then Some ''.''
     else let base = (if rdir = ''/'' then rdir else rdir @ ''/'')
          in if take (length base) path = base then Some (drop (length base) path) else None)"

fun srcRef :: "(string \<times> string) list \<Rightarrow> string \<Rightarrow> string option" where
  "srcRef [] path = None"
| "srcRef ((name, rdir) # roots) path =
    (case rel_path rdir path of None \<Rightarrow> srcRef roots path | Some rel \<Rightarrow> Some (name @ ''/'' @ rel))"

definition sourceID :: "source \<Rightarrow> string" where
  "sourceID src = FormatInt (so_Size src) @ ''-'' @ FormatInt (so_MTimeNS src)"

definition setWindow :: "source \<Rightarrow> (string \<times> upstream_value) list" where
  "setWindow src =
    (if \<not> so_Virtual src then []
     else (''from'', UText (FormatInt (so_FromSample src))) #
       (if so_ToSample src > 0 then [(''to'', UText (FormatInt (so_ToSample src)))] else []))"

definition forceFormats :: "(string \<times> string) list" where
  "forceFormats = [(''mp3'', ''audio/mpeg''), (''wav'', ''audio/wav''), (''flac'', ''audio/flac''),
     (''aac'', ''audio/mp4''), (''opus'', ''audio/ogg'')]"

definition gate_ceiling :: "bridge \<Rightarrow> string \<Rightarrow> int" where
  "gate_ceiling b user = (case bg_gate b of None \<Rightarrow> 0 | Some g \<Rightarrow> ga_MaxBitrateKbps g user)"

section \<open>Minting\<close>

record play_options =
  po_Cred :: string
  po_FilePID :: string
  po_VoiceBoost :: bool
  po_ForceFormat :: string
  po_DeviceFormats :: "string list"
  po_TTL :: duration
  po_MaxBitrateKbps :: int
  po_CapFormat :: string
  po_StartMS :: int
  po_CutOriginal :: bool
  po_HLS :: bool

record play_info =
  pi_URL :: string
  pi_MimeType :: string
  pi_DurationMS :: int
  pi_Seekable :: bool
  pi_ExpiresAt :: time
  pi_VoiceBoost :: bool
  pi_AppliedBitrateKbps :: int
  pi_StartOffsetMS :: int

definition mint_force :: "bridge \<Rightarrow> string \<Rightarrow> source \<Rightarrow> shape \<Rightarrow> play_options \<Rightarrow> string \<times> string" where
  "mint_force b user src shp o' =
    (if po_DeviceFormats o' \<noteq> []
     then DeviceFormat (bg_lossless b) (bg_order b) src shp (bg_caps b) (po_DeviceFormats o')
            (po_ForceFormat o') (bg_gate b \<noteq> None \<and> gate_ceiling b user > 0)
     else (po_ForceFormat o', ''''))"

definition mint_forced :: "bridge \<Rightarrow> source \<Rightarrow> shape \<Rightarrow> string \<Rightarrow> bool" where
  "mint_forced b src shp force \<longleftrightarrow>
    map_of forceFormats force \<noteq> None \<and> hasOutput (bg_caps b) force
      \<and> \<not> (sh_Seekable shp \<and> SameAsSource src force)"

definition mint_advertise :: "shape \<Rightarrow> string \<Rightarrow> bool \<Rightarrow> string \<Rightarrow> shape" where
  "mint_advertise shp force forced advertise =
    (let shp' = (if forced then shp\<lparr>sh_MimeType := at_key forceFormats force, sh_Seekable := True\<rparr> else shp)
     in if advertise \<noteq> '''' then shp'\<lparr>sh_MimeType := advertise\<rparr> else shp')"

definition cut_seconds :: "source \<Rightarrow> play_options \<Rightarrow> int" where
  "cut_seconds src o' =
    (if po_StartMS o' > 0
     then (let start = (if so_DurationMS src > 0 then min (po_StartMS o') (so_DurationMS src - 1)
                        else po_StartMS o')
           in tdiv start 1000)
     else 0)"

text \<open>The shape after a bitrate cap, and the cap when one applied.\<close>

definition mint_cap :: "bridge \<Rightarrow> string \<Rightarrow> source \<Rightarrow> shape \<Rightarrow> play_options \<Rightarrow> bool \<Rightarrow> bool \<Rightarrow> shape \<times> int" where
  "mint_cap b user src shp o' forced wantsCut =
    (let ceiling = (if bg_gate b \<noteq> None \<and> \<not> forced
                       \<and> (po_MaxBitrateKbps o' > 0 \<or> \<not> sh_Seekable shp \<or> wantsCut)
                    then gate_ceiling b user else 0);
         want = (if po_MaxBitrateKbps o' = 0 then ceiling else po_MaxBitrateKbps o')
     in if want > 0 \<and> \<not> forced
        then (let cap0 = min (max want MinStreamBitrateKbps) MaxStreamBitrateKbps;
                  capKbps = (if ceiling > 0 then min cap0 ceiling else cap0);
                  (capped, applied) = CappedShape (bg_lossless b) src (bg_caps b) shp capKbps
              in if applied
                 then (let f = po_CapFormat o' in
                       (if List.member lossyBitrateFormats f \<and> hasOutput (bg_caps b) f
                           \<and> map_of forceFormats f \<noteq> None
                        then capped\<lparr>sh_Format := f, sh_MimeType := at_key forceFormats f\<rparr>
                        else capped, capKbps))
                 else (shp, 0))
        else (shp, 0))"

definition originalCutShape :: "bridge \<Rightarrow> source \<Rightarrow> shape" where
  "originalCutShape b src =
    (if bg_lossless b (so_Codec src) \<and> hasOutput (bg_caps b) ''flac'' then encodeShape ''flac''
     else let own = to_lower (so_Codec src) in
       if List.member lossyBitrateFormats own \<and> at_key forceFormats own \<noteq> ''''
          \<and> hasOutput (bg_caps b) own
       then encodeShape own
       else if hasOutput (bg_caps b) ''opus'' then encodeShape ''opus''
       else encodeShape ''mp3'')"

text \<open>The encode the URL carries: the shape, whether there is one, its rate.\<close>

definition mint_encode :: "bridge \<Rightarrow> source \<Rightarrow> shape \<Rightarrow> bool \<Rightarrow> bool \<Rightarrow> int \<Rightarrow> shape \<times> bool \<times> int" where
  "mint_encode b src shp forced wantsCut capKbps =
    (if wantsCut \<and> sh_Seekable shp \<and> \<not> forced
     then (let cs = originalCutShape b src in
           (cs, True,
            if List.member lossyBitrateFormats (sh_Format cs)
            then (if \<not> bg_lossless b (so_Codec src) \<and> so_BitrateKbps src > 0
                  then min (max (so_BitrateKbps src) MinStreamBitrateKbps) MaxStreamBitrateKbps
                  else MaxStreamBitrateKbps)
            else 0))
     else (shp, capKbps > 0, capKbps))"

definition mint_params :: "play_options \<Rightarrow> bool \<Rightarrow> bool \<Rightarrow> string \<Rightarrow> bool \<Rightarrow> string \<Rightarrow> int \<Rightarrow> query" where
  "mint_params o' boost forced force encode' format br =
    (if po_FilePID o' \<noteq> '''' then [(''f'', po_FilePID o')] else [])
    @ (if boost then [(''vb'', ''1'')] else [])
    @ (if encode'
       then [(''fmt'', format), (''enc'', ''1'')] @ (if br > 0 then [(''br'', FormatInt br)] else [])
       else if forced then [(''fmt'', force)] else [])"

definition hlsFormatFor :: "(string \<Rightarrow> bool) \<Rightarrow> shape \<Rightarrow> caps option \<Rightarrow> string" where
  "hlsFormatFor ll shp cs =
    (case cs of None \<Rightarrow> ''''
     | Some c \<Rightarrow>
        if \<not> cp_HLS c then ''''
        else let segmented = List.member (cp_HLSFormats c) in
          if ll (sh_Format shp) then (if segmented ''flac'' then ''flac'' else '''')
          else if segmented (sh_Format shp) then sh_Format shp
          else if segmented ''aac'' then ''aac''
          else if segmented ''opus'' then ''opus'' else '''')"

definition hlsMimeType :: string where "hlsMimeType = ''application/vnd.apple.mpegurl''"

definition PurposeStream :: string where "PurposeStream = ''stream''"
definition PurposeHLS :: string where "PurposeHLS = ''hls''"

definition renderingTTL :: "int \<Rightarrow> duration" where
  "renderingTTL durationMS = max (durationMS * millisecond + 15 * minute) (30 * minute)"

definition itemShape :: "string \<Rightarrow> string" where "itemShape rendering = Encode [(''it'', rendering)]"

definition itemRenderingFor ::
    "bridge \<Rightarrow> time \<Rightarrow> string \<Rightarrow> string \<Rightarrow> source \<Rightarrow> play_options \<Rightarrow> string \<Rightarrow> int \<Rightarrow> rat \<Rightarrow> bool
      \<Rightarrow> play_info option" where
  "itemRenderingFor b now user pid src o' format capKbps gainDB boost =
    (case srcRef (bg_roots b) (so_Path src) of
       None \<Rightarrow> None
     | Some ref \<Rightarrow>
        (let params = [(''src'', UText ref), (''format'', UText format)]
               @ (if capKbps > 0 \<and> List.member lossyBitrateFormats format
                  then [(''bitrate'', UText (FormatInt capKbps))] else [])
               @ (if boost then [(''dynamics'', UText ''voice''), (''gain'', UGain gainDB)] else [])
               @ setWindow src;
             ttl = max (renderingTTL (so_DurationMS src)) (po_TTL o')
         in case bg_rendering b params of
              None \<Rightarrow> None
            | Some rendering \<Rightarrow>
               (let (token, exp) = MintFor (bg_tokens b) now
                      \<lparr>mc_User = user, mc_Cred = po_Cred o', mc_Purpose = PurposeHLS, mc_PID = pid,
                       mc_Shape = itemShape rendering, mc_Exp = 0\<rparr> ttl
                in Some \<lparr>pi_URL = ''/media/hls/master.m3u8?it='' @ QueryEscape rendering @ ''&mt=''
                             @ QueryEscape token,
                         pi_MimeType = hlsMimeType, pi_DurationMS = so_DurationMS src,
                         pi_Seekable = True, pi_ExpiresAt = exp, pi_VoiceBoost = boost,
                         pi_AppliedBitrateKbps = capKbps, pi_StartOffsetMS = 0\<rparr>)))"

definition mint_stream ::
    "bridge \<Rightarrow> time \<Rightarrow> string \<Rightarrow> string \<Rightarrow> source \<Rightarrow> play_options \<Rightarrow> query \<Rightarrow> shape \<Rightarrow> bool \<Rightarrow> int
      \<Rightarrow> play_info" where
  "mint_stream b now user pid src o' params shp boost capKbps =
    (let shapeKey = streamShape params;
         (token, exp) = MintFor (bg_tokens b) now
           \<lparr>mc_User = user, mc_Cred = po_Cred o', mc_Purpose = PurposeStream, mc_PID = pid,
            mc_Shape = shapeKey, mc_Exp = 0\<rparr> (po_TTL o');
         streamURL = ''/media/stream?pid='' @ QueryEscape pid @ ''&mt='' @ QueryEscape token
           @ (if shapeKey \<noteq> '''' then ''&'' @ shapeKey else '''');
         cutSecs = cut_seconds src o';
         cut' = (cutSecs > 0 \<and> \<not> sh_Seekable shp)
     in \<lparr>pi_URL = streamURL @ (if cut' then ''&t='' @ FormatInt cutSecs else ''''),
         pi_MimeType = sh_MimeType shp, pi_DurationMS = so_DurationMS src,
         pi_Seekable = sh_Seekable shp, pi_ExpiresAt = exp, pi_VoiceBoost = boost,
         pi_AppliedBitrateKbps = capKbps, pi_StartOffsetMS = (if cut' then cutSecs * 1000 else 0)\<rparr>)"

text \<open>\<open>None\<close> is \<^verbatim>\<open>ErrEngineDown\<close>.\<close>

definition PlayInfoForSource ::
    "bridge \<Rightarrow> time \<Rightarrow> string \<Rightarrow> string \<Rightarrow> source \<Rightarrow> play_options \<Rightarrow> play_info option" where
  "PlayInfoForSource b now user pid src o' =
    (if bg_caps b = None then None
     else let (gainDB, boost) = VoiceBoostParams src (bg_caps b) (po_VoiceBoost o');
              shp0 = ShapeFor (bg_lossless b) src (bg_caps b) boost;
              (force, advertise) = mint_force b user src shp0 o';
              forced = mint_forced b src shp0 force;
              shp1 = mint_advertise shp0 force forced advertise;
              wantsCut = (po_CutOriginal o' \<and> cut_seconds src o' > 0);
              (shp2, capKbps) = mint_cap b user src shp1 o' forced wantsCut;
              hls = (if po_HLS o' \<and> \<not> forced \<and> \<not> po_CutOriginal o' \<and> \<not> sh_Seekable shp2
                     then (let format = hlsFormatFor (bg_lossless b) shp2 (bg_caps b)
                           in if format \<noteq> '''' then itemRenderingFor b now user pid src o' format capKbps
                                gainDB boost else None)
                     else None)
          in case hls of
               Some info \<Rightarrow> Some info
             | None \<Rightarrow>
                (let (shp3, encode', br) = mint_encode b src shp2 forced wantsCut capKbps;
                     params = mint_params o' boost forced force encode' (sh_Format shp3) br
                 in Some (mint_stream b now user pid src o' params shp3 boost capKbps)))"

datatype bridge_error = EngineDown | ResolverError

definition PlayInfoFor ::
    "bridge \<Rightarrow> time \<Rightarrow> string \<Rightarrow> string \<Rightarrow> play_options \<Rightarrow> bridge_error + play_info" where
  "PlayInfoFor b now user pid o' =
    (if bg_caps b = None then Inl EngineDown
     else case bg_resolve b pid (po_FilePID o') of
       None \<Rightarrow> Inl ResolverError
     | Some src \<Rightarrow> (case PlayInfoForSource b now user pid src o' of
          None \<Rightarrow> Inl EngineDown | Some info \<Rightarrow> Inr info))"

section \<open>Serving\<close>

text \<open>\<open>ParseFloat\<close> is \<^verbatim>\<open>strconv.ParseFloat\<close> on decimal spellings; \<open>None\<close> is an error, an infinity
  or not a number.  Hexadecimal spellings are left out, and answer \<open>None\<close>.\<close>

definition split_exponent :: "string \<Rightarrow> string \<times> string option" where
  "split_exponent s =
    (let m = takeWhile (\<lambda>c. c \<noteq> CHR ''e'' \<and> c \<noteq> CHR ''E'') s
     in (m, if length m < length s then Some (drop (Suc (length m)) s) else None))"

definition ParseFloat :: "string \<Rightarrow> rat option" where
  "ParseFloat s =
    (let neg = (s \<noteq> [] \<and> hd s = CHR ''-'');
         r = (if s \<noteq> [] \<and> (hd s = CHR ''-'' \<or> hd s = CHR ''+'') then tl s else s);
         (m, ex) = split_exponent r;
         (ip, fp, _) = cut CHR ''.'' m;
         e = (case ex of None \<Rightarrow> Some 0
              | Some t \<Rightarrow>
                 (let eneg = (t \<noteq> [] \<and> hd t = CHR ''-'');
                      ds = (if t \<noteq> [] \<and> (hd t = CHR ''-'' \<or> hd t = CHR ''+'') then tl t else t)
                  in if isDigits ds then Some (if eneg then - digits_val ds else digits_val ds) else None))
     in case e of
          None \<Rightarrow> None
        | Some n \<Rightarrow>
           if \<not> isDigits (ip @ fp) then None
           else let v = f64 (of_int (digits_val (ip @ fp)) * 10 powi (n - int (length fp)))
                in if v \<ge> 2 ^ 1024 then None else Some (if neg then - v else v))"

definition maxCutSeconds :: rat where "maxCutSeconds = 10 ^ 9"

text \<open>\<^verbatim>\<open>math.Round\<close> on a non-negative value.\<close>

definition round_half_away :: "rat \<Rightarrow> int" where
  "round_half_away x = \<lfloor>x + 1 / 2\<rfloor>"

text \<open>\<open>None\<close> is a refused cut; else the seconds forwarded, if any, and the milliseconds cut.\<close>

definition streamCut :: "string \<Rightarrow> shape \<Rightarrow> int \<Rightarrow> (rat option \<times> int) option" where
  "streamCut raw shp durationMS =
    (if raw = '''' then Some (None, 0)
     else if sh_Seekable shp then None
     else case ParseFloat raw of
       None \<Rightarrow> None
     | Some secs \<Rightarrow>
        if secs < 0 then None
        else let limit = (if durationMS > 0 then f64_div (f64 (of_int (durationMS - 1))) 1000
                          else maxCutSeconds);
                 ms = round_half_away (f64_mul (min secs limit) 1000)
             in if ms = 0 then Some (None, 0) else Some (Some (f64_div (of_int ms) 1000), ms))"

definition heldBitrate :: "bridge \<Rightarrow> string \<Rightarrow> string \<Rightarrow> int" where
  "heldBitrate b user raw =
    (let bitrate = (case Atoi raw of None \<Rightarrow> 0
           | Some br \<Rightarrow> if MinStreamBitrateKbps \<le> br \<and> br \<le> MaxStreamBitrateKbps then br else 0);
         ceiling = gate_ceiling b user
     in if bg_gate b \<noteq> None \<and> ceiling > 0 \<and> (bitrate = 0 \<or> ceiling < bitrate) then ceiling else bitrate)"

datatype served =
    Answered nat string
  | Redirected query
  | JoinedBook string
  | Proxied "(string \<times> upstream_value) list" bool

text \<open>\<open>authorize\<close>: the answer the handler writes, or \<open>None\<close> to go on.\<close>

definition authorize :: "bridge \<Rightarrow> media_claims \<Rightarrow> served option" where
  "authorize b c =
    (case bg_gate b of
       None \<Rightarrow> Some (Answered 500 ''internal'')
     | Some g \<Rightarrow>
        (case ga_AuthorizeMedia g c of
           MediaOK \<Rightarrow> None
         | MediaRevoked \<Rightarrow> Some (Answered 401 ''unauthenticated'')
         | MediaRefused \<Rightarrow> Some (Answered 404 ''not-found'')
         | Maintenance \<Rightarrow> Some (Answered 503 ''catalog-maintenance'')
         | CheckFailed \<Rightarrow> Some (Answered 500 ''internal'')))"

definition admit :: "bridge \<Rightarrow> string \<Rightarrow> served option" where
  "admit b user =
    (case bg_gate b of None \<Rightarrow> None
     | Some g \<Rightarrow> if ga_Acquire g user then None else Some (Answered 429 ''transcode-limited''))"

definition RefuseEngineDown :: served where "RefuseEngineDown = Answered 503 ''feature-unavailable''"

definition OriginalBytes :: "query \<Rightarrow> source \<Rightarrow> bool" where
  "OriginalBytes q src =
    (if query_get q ''vb'' \<noteq> '''' \<or> query_get q ''enc'' \<noteq> '''' \<or> query_get q ''br'' \<noteq> ''''
        \<or> query_get q ''join'' \<noteq> '''' then False
     else let f = query_get q ''fmt'' in f = '''' \<or> SameAsSource src f)"

definition original_shape :: shape where
  "original_shape = \<lparr>sh_Format = '''', sh_MimeType = '''', sh_Seekable = True\<rparr>"

definition serveWithoutEngine :: "query \<Rightarrow> source \<Rightarrow> served" where
  "serveWithoutEngine q src =
    (if so_Virtual src \<or> \<not> OriginalBytes q src then RefuseEngineDown
     else case streamCut (query_get q ''t'') original_shape (so_DurationMS src) of
       None \<Rightarrow> Answered 400 ''invalid-request''
     | Some _ \<Rightarrow> Redirected (filter (\<lambda>(k, v). v \<noteq> '''')
          (map (\<lambda>k. (k, query_get q k)) [''pid'', ''mt'', ''f'', ''fmt'']) @ [(''id'', sourceID src)]))"

definition serve_shape :: "bridge \<Rightarrow> query \<Rightarrow> source \<Rightarrow> bool \<Rightarrow> shape" where
  "serve_shape b q src boost =
    (let shp = ShapeFor (bg_lossless b) src (bg_caps b) boost;
         f = query_get q ''fmt''
     in if f \<noteq> ''''
        then (let copyOfSource = (sh_Seekable shp \<and> query_get q ''enc'' = '''' \<and> SameAsSource src f)
              in if map_of forceFormats f \<noteq> None \<and> hasOutput (bg_caps b) f \<and> \<not> copyOfSource
                 then shp\<lparr>sh_Format := f, sh_Seekable := False\<rparr> else shp)
        else shp)"

definition serve_params ::
    "bridge \<Rightarrow> string \<Rightarrow> query \<Rightarrow> source \<Rightarrow> string \<Rightarrow> rat \<Rightarrow> bool \<Rightarrow> shape \<Rightarrow> rat option
      \<Rightarrow> (string \<times> upstream_value) list" where
  "serve_params b user q src ref gainDB boost shp cut' =
    [(''src'', UText ref), (''format'', UText (sh_Format shp)), (''id'', UText (sourceID src))]
    @ setWindow src
    @ (if boost then [(''dynamics'', UText ''voice''), (''gain'', UGain gainDB)] else [])
    @ (case cut' of None \<Rightarrow> [] | Some c \<Rightarrow> [(''t'', UCut c)])
    @ (let bitrate = heldBitrate b user (query_get q ''br'')
       in if \<not> sh_Seekable shp \<and> List.member lossyBitrateFormats (sh_Format shp) \<and> bitrate > 0
          then [(''bitrate'', UText (FormatInt bitrate))] else [])"

definition serve_source :: "bridge \<Rightarrow> string \<Rightarrow> query \<Rightarrow> source \<Rightarrow> served" where
  "serve_source b user q src =
    (case srcRef (bg_roots b) (so_Path src) of
       None \<Rightarrow> Answered 500 ''internal''
     | Some ref \<Rightarrow>
        (let (gainDB, boost) = VoiceBoostParams src (bg_caps b) (query_get q ''vb'' = ''1'');
             shp = serve_shape b q src boost
         in case streamCut (query_get q ''t'') shp (so_DurationMS src) of
              None \<Rightarrow> Answered 400 ''invalid-request''
            | Some (cut', _) \<Rightarrow>
               (case (if \<not> sh_Seekable shp then admit b user else None) of
                  Some refusal \<Rightarrow> refusal
                | None \<Rightarrow> Proxied (serve_params b user q src ref gainDB boost shp cut')
                            (\<not> sh_Seekable shp))))"

definition ServeStream :: "bridge \<Rightarrow> time \<Rightarrow> query \<Rightarrow> served" where
  "ServeStream b now q =
    (let pid = query_get q ''pid'' in
     if pid = '''' then Answered 400 ''invalid-request''
     else case Verify (bg_tokens b) now (query_get q ''mt'')
                 \<lparr>mw_Purposes = [PurposeStream], mw_PID = pid, mw_AnyPID = False,
                  mw_Shape = streamShape q\<rparr> of
       None \<Rightarrow> Answered 401 ''unauthenticated''
     | Some claims \<Rightarrow>
        (case authorize b claims of
           Some refusal \<Rightarrow> refusal
         | None \<Rightarrow>
            if query_get q ''join'' \<noteq> ''''
            then (if bg_caps b = None then RefuseEngineDown else JoinedBook (mc_User claims))
            else case bg_resolve b pid (query_get q ''f'') of
              None \<Rightarrow> Answered 404 ''not-found''
            | Some src \<Rightarrow>
                if bg_caps b = None then serveWithoutEngine q src
                else serve_source b (mc_User claims) q src))"

section \<open>Query text\<close>

lemma join_append:
  "xs \<noteq> [] \<Longrightarrow> ys \<noteq> [] \<Longrightarrow> join sep (xs @ ys) = join sep xs @ sep # join sep ys"
  by (induction sep xs rule: join.induct) (auto simp: neq_Nil_conv)

lemma unhex_hex:
  assumes "n < 16"
  shows "unhex (hex_digits ! n) = Some n"
proof -
  have "map unhex hex_digits = map Some [0..<16]"
    by (simp add: hex_digits_def unhex_def byte_of_def upt_rec)
  moreover have "length hex_digits = 16" by (simp add: hex_digits_def)
  ultimately show ?thesis using assms by (metis nth_map nth_upt length_upt diff_zero add_0)
qed

lemma hex_plain: "n < 16 \<Longrightarrow> hex_digits ! n \<in> set hex_digits"
  by (rule nth_mem) (simp add: hex_digits_def)

lemma escape_unescape:
  "QueryUnescape (escape_char c @ r) = map_option ((#) c) (QueryUnescape r)"
proof -
  have "byte_of c div 16 < 16" "byte_of c mod 16 < 16"
    using byte_less [of c] by (simp_all add: div_less_iff_less_mult)
  moreover have "unreserved c \<Longrightarrow> c \<noteq> CHR ''%'' \<and> c \<noteq> CHR ''+''"
    by (auto simp: unreserved_def byte_of_def Let_def)
  ultimately show ?thesis
    by (simp add: escape_char_def unhex_hex char_byte)
qed

lemma QueryUnescape_Escape: "QueryUnescape (QueryEscape s) = Some s"
proof -
  have "QueryUnescape (QueryEscape s @ []) = Some s"
    by (induction s) (simp_all add: QueryEscape_def escape_unescape)
  then show ?thesis by simp
qed

lemma QueryEscape_plain:
  "c \<in> set (QueryEscape s) \<Longrightarrow> unreserved c \<or> c = CHR ''+'' \<or> c = CHR ''%''"
proof -
  have "\<forall>c \<in> set hex_digits. unreserved c" by code_simp
  moreover have "byte_of c div 16 < 16" for c
    using byte_less [of c] by (simp add: div_less_iff_less_mult)
  ultimately show "c \<in> set (QueryEscape s) \<Longrightarrow> unreserved c \<or> c = CHR ''+'' \<or> c = CHR ''%''"
    by (auto simp: QueryEscape_def escape_char_def hex_plain split: if_splits)
qed

lemma QueryEscape_seps:
  "CHR ''&'' \<notin> set (QueryEscape s)" "CHR ''='' \<notin> set (QueryEscape s)"
  "CHR 0x3B \<notin> set (QueryEscape s)" "CHR ''?'' \<notin> set (QueryEscape s)"
  by (auto simp: unreserved_def byte_of_def dest!: QueryEscape_plain)

lemma parse_pair_text: "parse_pair (pair_text p) = [p]"
  using QueryEscape_seps(2) [of "fst p"] QueryEscape_seps(3)
  by (cases p) (simp add: parse_pair_def pair_text_def cut_at QueryUnescape_Escape)

lemma pair_text_amp: "CHR ''&'' \<notin> set (pair_text p)"
  using QueryEscape_seps(1) by (auto simp: pair_text_def)

lemma ParseQuery_join: "ParseQuery (join CHR ''&'' (map pair_text ps)) = ps"
proof (cases "ps = []")
  case True
  then show ?thesis by (simp add: ParseQuery_def parse_pair_def)
next
  case False
  then have "split_on CHR ''&'' (join CHR ''&'' (map pair_text ps)) = map pair_text ps"
    by (intro split_join) (auto simp: pair_text_amp)
  then show ?thesis
    by (simp add: ParseQuery_def parse_pair_text o_def)
qed

lemma map_of_filter: "map_of xs k = (case filter (\<lambda>p. fst p = k) xs of [] \<Rightarrow> None | p # _ \<Rightarrow> Some (snd p))"
  by (induction xs) auto

lemma map_of_sort_key: "map_of (sort_key fst q) k = map_of q k"
  by (simp add: map_of_filter [of "sort_key fst q"] map_of_filter [of q] sort_key_stable)

definition bound_part :: "query \<Rightarrow> query" where
  "bound_part q =
    sort_key fst (filter (\<lambda>(k, x). x \<noteq> '''') (map (\<lambda>k. (k, query_get q k)) bound_keys))"

lemma streamShape_bound: "streamShape q = join CHR ''&'' (map pair_text (bound_part q))"
  by (simp add: streamShape_def Encode_def bound_part_def)

lemma map_of_filter_map:
  "map_of (filter (\<lambda>(k, x). x \<noteq> '''') (map (\<lambda>k. (k, f k)) ks)) k =
    (if k \<in> set ks \<and> f k \<noteq> '''' then Some (f k) else None)"
  by (induction ks) auto

lemma get_bound_part:
  "query_get (bound_part q) k = (if k \<in> set bound_keys then query_get q k else '''')"
proof -
  have "map_of (bound_part q) k = (if k \<in> set bound_keys \<and> query_get q k \<noteq> '''' then Some (query_get q k) else None)"
    by (simp add: bound_part_def map_of_sort_key map_of_filter_map)
  then show ?thesis by (simp add: query_get_def [of "bound_part q"])
qed

lemma bound_part_keys: "k \<notin> set bound_keys \<Longrightarrow> map_of (bound_part q) k = None"
  by (simp add: bound_part_def map_of_sort_key map_of_filter_map)

text \<open>The shape a token binds is the bound parameters: equal exactly when each of them is.\<close>

lemma streamShape_eq:
  "streamShape q = streamShape q' \<longleftrightarrow> (\<forall>k \<in> set bound_keys. query_get q k = query_get q' k)"
proof
  assume "streamShape q = streamShape q'"
  then have "bound_part q = bound_part q'"
    by (metis ParseQuery_join streamShape_bound)
  then show "\<forall>k \<in> set bound_keys. query_get q k = query_get q' k"
    by (metis get_bound_part)
next
  assume "\<forall>k \<in> set bound_keys. query_get q k = query_get q' k"
  then have "map (\<lambda>k. (k, query_get q k)) bound_keys = map (\<lambda>k. (k, query_get q' k)) bound_keys"
    by simp
  then show "streamShape q = streamShape q'" by (simp only: streamShape_def)
qed

section \<open>The minted URL read back\<close>

lemma FormatInt_digits: "0 \<le> n \<Longrightarrow> c \<in> set (FormatInt n) \<Longrightarrow> is_digit c"
  by (auto simp: FormatInt_def dest: show_nat_plain_chars)

lemma QueryEscape_digits: "0 \<le> n \<Longrightarrow> QueryEscape (FormatInt n) = FormatInt n"
proof -
  have "unreserved c" if "is_digit c" for c
    using that by (auto simp: is_digit_def unreserved_def byte_of_def less_eq_char_def)
  then have "concat (map escape_char s) = s" if "\<forall>c \<in> set s. is_digit c" for s
    using that by (induction s) (auto simp: escape_char_def)
  then show "0 \<le> n \<Longrightarrow> QueryEscape (FormatInt n) = FormatInt n"
    by (simp add: QueryEscape_def FormatInt_digits)
qed

lemma key_texts:
  "QueryEscape ''pid'' = ''pid''" "QueryEscape ''mt'' = ''mt''" "QueryEscape ''t'' = ''t''"
  by code_simp+

lemma minted_query:
  assumes "url = ''/media/stream?pid='' @ QueryEscape pid @ ''&mt='' @ QueryEscape token
      @ (if streamShape params \<noteq> '''' then ''&'' @ streamShape params else '''')
      @ (if c then ''&t='' @ FormatInt n else '''')" "0 \<le> n"
  shows "url_query url =
    [(''pid'', pid), (''mt'', token)] @ bound_part params @ (if c then [(''t'', FormatInt n)] else [])"
proof -
  let ?ps = "[(''pid'', pid), (''mt'', token)] @ bound_part params @ (if c then [(''t'', FormatInt n)] else [])"
  have empty: "streamShape params = '''' \<longleftrightarrow> bound_part params = []"
  proof
    assume "streamShape params = ''''"
    then have "ParseQuery '''' = bound_part params"
      by (metis ParseQuery_join streamShape_bound)
    then show "bound_part params = []" by (simp add: ParseQuery_def parse_pair_def)
  qed (simp add: streamShape_bound)
  have "join CHR ''&'' (map pair_text ?ps) = ''pid='' @ QueryEscape pid @ ''&mt='' @ QueryEscape token
      @ (if streamShape params \<noteq> '''' then ''&'' @ streamShape params else '''')
      @ (if c then ''&t='' @ FormatInt n else '''')"
  proof (cases "bound_part params = []")
    case True
    then show ?thesis
      by (simp add: empty pair_text_def key_texts QueryEscape_digits [OF assms(2)])
  next
    case False
    then have "join CHR ''&'' (map pair_text (bound_part params @ (if c then [(''t'', FormatInt n)] else [])))
        = streamShape params @ (if c then ''&t='' @ FormatInt n else '''')"
      by (simp add: join_append streamShape_bound pair_text_def key_texts QueryEscape_digits [OF assms(2)])
    moreover have "join CHR ''&'' (map pair_text ?ps) =
        join CHR ''&'' (map pair_text [(''pid'', pid), (''mt'', token)]) @ CHR ''&'' #
        join CHR ''&'' (map pair_text (bound_part params @ (if c then [(''t'', FormatInt n)] else [])))"
      unfolding map_append using False by (intro join_append) auto
    ultimately show ?thesis using False by (simp add: empty pair_text_def key_texts)
  qed
  then have "url = ''/media/stream'' @ CHR ''?'' # join CHR ''&'' (map pair_text ?ps)"
    using assms(1) by simp
  then have "cut CHR ''?'' url = (''/media/stream'', join CHR ''&'' (map pair_text ?ps), True)"
    by (simp only:) (rule cut_at; simp)
  then have "url_query url = ParseQuery (join CHR ''&'' (map pair_text ?ps))"
    by (simp only: url_query_def Let_def prod.case)
  then show ?thesis by (simp only: ParseQuery_join)
qed

lemma minted_gets:
  assumes "q = [(''pid'', pid), (''mt'', token)] @ bound_part params @ (if c then [(''t'', x)] else [])"
  shows "query_get q ''pid'' = pid" "query_get q ''mt'' = token"
    "query_get q ''t'' = (if c then x else '''')"
    "k \<in> set bound_keys \<Longrightarrow> query_get q k = query_get params k"
    "streamShape q = streamShape params"
proof -
  have t: "''t'' \<notin> set bound_keys" "''pid'' \<notin> set bound_keys" "''mt'' \<notin> set bound_keys"
    by (simp_all add: bound_keys_def)
  show "query_get q ''pid'' = pid" "query_get q ''mt'' = token"
    by (simp_all add: assms query_get_def)
  show "query_get q ''t'' = (if c then x else '''')"
    using bound_part_keys [OF t(1)] by (simp add: assms query_get_def map_add_def)
  have get: "query_get q k = query_get params k" if k: "k \<in> set bound_keys" for k
  proof -
    from k t have "k \<noteq> ''pid''" "k \<noteq> ''mt''" "k \<noteq> ''t''" by auto
    then have "query_get q k = query_get (bound_part params) k"
      by (simp add: assms query_get_def map_add_def split: option.split)
    with k show ?thesis by (simp add: get_bound_part)
  qed
  then show "k \<in> set bound_keys \<Longrightarrow> query_get q k = query_get params k" by simp
  from get show "streamShape q = streamShape params" by (simp add: streamShape_eq)
qed

section \<open>The fetch decides as the mint did\<close>

lemma ShapeFor_cases:
  obtains "ShapeFor ll src cs boost =
      \<lparr>sh_Format = ''auto'', sh_MimeType = ContainerMime (so_Container src), sh_Seekable = True\<rparr>"
      "\<not> boost" "\<not> so_Virtual src"
  | f where "ShapeFor ll src cs boost = encodeShape f" "f \<in> {''opus'', ''mp3'', ''flac'', so_Codec src}"
      "boost \<or> so_Virtual src"
proof (cases "boost \<or> so_Virtual src")
  case True
  then have "\<exists>f. ShapeFor ll src cs boost = encodeShape f \<and> f \<in> {''opus'', ''mp3'', ''flac'', so_Codec src}"
    by (auto simp: ShapeFor_def)
  with True that(2) show ?thesis by blast
next
  case False
  with that(1) show ?thesis by (auto simp: ShapeFor_def)
qed

lemma encodeShape_simps [simp]:
  "sh_Format (encodeShape f) = f" "sh_MimeType (encodeShape f) = at_key formatMime f"
  "\<not> sh_Seekable (encodeShape f)"
  by (simp_all add: encodeShape_def)

lemma forceFormats_mime: "map_of forceFormats f \<noteq> None \<Longrightarrow> at_key forceFormats f = at_key formatMime f"
  by (auto simp: forceFormats_def formatMime_def at_key_def)

lemma forceFormats_key: "at_key forceFormats f \<noteq> '''' \<Longrightarrow> map_of forceFormats f \<noteq> None"
  by (auto simp: at_key_def split: option.splits)

lemma mime_for_formatMime: "mime_for f = Some m \<Longrightarrow> at_key formatMime f = m \<and> map_of forceFormats f \<noteq> None"
  by (auto simp: mime_for_def encodeTargets_def formatMime_def forceFormats_def at_key_def split: if_splits)

lemma SameAsSource_mime:
  "SameAsSource src f \<Longrightarrow> mime_for f = Some m \<Longrightarrow> ContainerMime (so_Container src) = m"
  by (auto simp: SameAsSource_def Let_def mime_for_def encodeTargets_def ContainerMime_def
      containerMime_def split: if_splits)

lemma mint_force_cases:
  assumes "walk (bg_order b)" "mint_force b user src shp o' = (force, adv)" "adv \<noteq> ''''"
  shows "adv \<in> set (po_DeviceFormats o') \<and>
    ((force = '''' \<and> sh_Format shp = ''auto''
        \<and> ContainerMime (so_Container src) = fold_mime (base_mime adv))
     \<or> (hasOutput (bg_caps b) force \<and> mime_for force = Some (fold_mime (base_mime adv))))"
  using assms(2,3) device_format_cases [OF assms(1), of "bg_lossless b" src shp "bg_caps b"
      "po_DeviceFormats o'" "po_ForceFormat o'" "bg_gate b \<noteq> None \<and> gate_ceiling b user > 0" force adv]
  by (auto simp: mint_force_def ContainerMime_def split: if_splits)

lemma mint_params_gets:
  assumes "encode' \<Longrightarrow> format \<noteq> ''''" "forced \<Longrightarrow> force \<noteq> ''''"
  shows "query_get (mint_params o' boost forced force encode' format br) ''fmt'' =
      (if encode' then format else if forced then force else '''')"
    "query_get (mint_params o' boost forced force encode' format br) ''enc'' = (if encode' then ''1'' else '''')"
    "query_get (mint_params o' boost forced force encode' format br) ''vb'' = (if boost then ''1'' else '''')"
    "query_get (mint_params o' boost forced force encode' format br) ''f'' = po_FilePID o'"
    "query_get (mint_params o' boost forced force encode' format br) ''br'' =
      (if encode' \<and> br > 0 then FormatInt br else '''')"
    "query_get (mint_params o' boost forced force encode' format br) ''join'' = ''''"
  by (auto simp: mint_params_def query_get_def)

lemma lossy_formats: "List.member lossyBitrateFormats f \<longleftrightarrow> f \<in> {''mp3'', ''opus'', ''vorbis'', ''aac''}"
  by (auto simp: lossyBitrateFormats_def)

text \<open>What the engine is asked for, and the type that names.\<close>

definition served_mime :: "source \<Rightarrow> shape \<Rightarrow> string" where
  "served_mime src shp =
    (if sh_Seekable shp then ContainerMime (so_Container src) else at_key formatMime (sh_Format shp))"

definition mime_ok :: "string list \<Rightarrow> string \<Rightarrow> string \<Rightarrow> bool" where
  "mime_ok accepts mime served \<longleftrightarrow>
    mime = served \<or> (mime \<in> set accepts \<and> fold_mime (base_mime mime) = served)"

lemma mint_cap_cases:
  assumes "mint_cap b user src shp o' forced wantsCut = (shp2, cap)"
  obtains "shp2 = shp" "cap = 0"
  | f where "\<not> forced" "cap > 0" "sh_Format shp2 = f" "sh_MimeType shp2 = at_key formatMime f"
      "\<not> sh_Seekable shp2" "List.member lossyBitrateFormats f"
      "(map_of forceFormats f \<noteq> None \<and> hasOutput (bg_caps b) f) \<or> f = sh_Format shp
        \<or> (f = ''mp3'' \<and> \<not> hasOutput (bg_caps b) ''opus'')"
proof -
  define ceiling where "ceiling = (if bg_gate b \<noteq> None \<and> \<not> forced
      \<and> (po_MaxBitrateKbps o' > 0 \<or> \<not> sh_Seekable shp \<or> wantsCut) then gate_ceiling b user else 0)"
  define want where "want = (if po_MaxBitrateKbps o' = 0 then ceiling else po_MaxBitrateKbps o')"
  define c0 where "c0 = min (max want MinStreamBitrateKbps) MaxStreamBitrateKbps"
  define c where "c = (if ceiling > 0 then min c0 ceiling else c0)"
  have c: "c > 0" by (auto simp: c_def c0_def MinStreamBitrateKbps_def MaxStreamBitrateKbps_def)
  obtain capped applied where cs: "CappedShape (bg_lossless b) src (bg_caps b) shp c = (capped, applied)"
    by (cases "CappedShape (bg_lossless b) src (bg_caps b) shp c")
  have m: "mint_cap b user src shp o' forced wantsCut =
    (if want > 0 \<and> \<not> forced then
       if applied then
         (if List.member lossyBitrateFormats (po_CapFormat o') \<and> hasOutput (bg_caps b) (po_CapFormat o')
             \<and> map_of forceFormats (po_CapFormat o') \<noteq> None
          then capped\<lparr>sh_Format := po_CapFormat o', sh_MimeType := at_key forceFormats (po_CapFormat o')\<rparr>
          else capped, c)
       else (shp, 0)
     else (shp, 0))"
    unfolding mint_cap_def Let_def ceiling_def [symmetric] want_def [symmetric] c0_def [symmetric]
      c_def [symmetric] cs prod.case by simp
  show ?thesis
  proof (cases "want > 0 \<and> \<not> forced \<and> applied")
    case False
    with m assms that(1) show ?thesis by (auto split: if_splits)
  next
    case True
    then have e: "capped = encodeShape (if List.member lossyBitrateFormats (sh_Format shp) then sh_Format shp
        else if hasOutput (bg_caps b) ''opus'' then ''opus'' else ''mp3'')"
      using cs by (auto simp: CappedShape_def Let_def split: if_splits)
    show ?thesis
    proof (cases "List.member lossyBitrateFormats (po_CapFormat o') \<and> hasOutput (bg_caps b) (po_CapFormat o')
             \<and> map_of forceFormats (po_CapFormat o') \<noteq> None")
      case pref: True
      with True m assms have "cap = c"
        "shp2 = capped\<lparr>sh_Format := po_CapFormat o', sh_MimeType := at_key forceFormats (po_CapFormat o')\<rparr>"
        by auto
      with True pref c e show ?thesis
        by (intro that(2) [of "po_CapFormat o'"]) (auto simp: forceFormats_mime)
    next
      case none: False
      with True m assms have "cap = c" "shp2 = capped" by auto
      with True c e show ?thesis
        by (intro that(2) [of "sh_Format capped"]) (auto simp: lossyBitrateFormats_def forceFormats_def)
    qed
  qed
qed

lemma originalCutShape_cases:
  assumes "hasOutput (bg_caps b) ''mp3'' \<or> hasOutput (bg_caps b) ''opus''"
  obtains g where "originalCutShape b src = encodeShape g" "map_of forceFormats g \<noteq> None"
    "hasOutput (bg_caps b) g" "g \<noteq> ''''"
proof -
  define g where "g = sh_Format (originalCutShape b src)"
  have "originalCutShape b src = encodeShape g"
    by (auto simp: g_def originalCutShape_def Let_def)
  moreover have "map_of forceFormats g \<noteq> None \<and> hasOutput (bg_caps b) g"
    using assms
    by (auto simp: g_def originalCutShape_def Let_def forceFormats_def at_key_def split: if_splits)
  moreover then have "g \<noteq> ''''" by (auto simp: forceFormats_def)
  ultimately show ?thesis using that by blast
qed

text \<open>Everything the mint decided, when no HLS presentation was asked for.\<close>

lemma PlayInfoForSource_parts:
  assumes "PlayInfoForSource b now user pid src o' = Some info" "\<not> po_HLS o'"
  obtains gain boost force adv forced shp2 cap shp3 encode' br where
    "VoiceBoostParams src (bg_caps b) (po_VoiceBoost o') = (gain, boost)"
    "mint_force b user src (ShapeFor (bg_lossless b) src (bg_caps b) boost) o' = (force, adv)"
    "forced = mint_forced b src (ShapeFor (bg_lossless b) src (bg_caps b) boost) force"
    "mint_cap b user src (mint_advertise (ShapeFor (bg_lossless b) src (bg_caps b) boost) force forced adv) o'
       forced (po_CutOriginal o' \<and> cut_seconds src o' > 0) = (shp2, cap)"
    "mint_encode b src shp2 forced (po_CutOriginal o' \<and> cut_seconds src o' > 0) cap = (shp3, encode', br)"
    "info = mint_stream b now user pid src o'
       (mint_params o' boost forced force encode' (sh_Format shp3) br) shp3 boost cap"
    "bg_caps b \<noteq> None"
  using assms that
  by (auto simp: PlayInfoForSource_def Let_def split: if_splits prod.splits)

lemma boost_again:
  "VoiceBoostParams src cs want = (gain, boost) \<Longrightarrow> \<exists>g. VoiceBoostParams src cs boost = (g, boost)"
  by (cases want; cases boost) (auto simp: VoiceBoostParams_def Let_def split: option.splits if_splits)

lemma mint_advertise_simps:
  "sh_Format (mint_advertise shp force forced adv) = sh_Format shp"
  "sh_Seekable (mint_advertise shp force forced adv) \<longleftrightarrow> forced \<or> sh_Seekable shp"
  "sh_MimeType (mint_advertise shp force forced adv) =
    (if adv \<noteq> '''' then adv else if forced then at_key forceFormats force else sh_MimeType shp)"
  by (auto simp: mint_advertise_def Let_def)

lemma fetch_matches_mint:
  fixes b src boost o' user force adv forced wantsCut
  defines "S \<equiv> ShapeFor (bg_lossless b) src (bg_caps b) boost"
  assumes w: "walk (bg_order b)" and out: "hasOutput (bg_caps b) ''mp3'' \<or> hasOutput (bg_caps b) ''opus''"
    and codec: "so_Codec src \<noteq> ''auto''"
    and force: "mint_force b user src S o' = (force, adv)" and forced: "forced = mint_forced b src S force"
    and cap: "mint_cap b user src (mint_advertise S force forced adv) o' forced wantsCut = (shp2, cap)"
    and enc: "mint_encode b src shp2 forced wantsCut cap = (shp3, encode', br)"
    and q: "\<And>k. k \<in> set bound_keys \<Longrightarrow>
      query_get q k = query_get (mint_params o' boost forced force encode' (sh_Format shp3) br) k"
  defines "F \<equiv> serve_shape b q src boost"
  shows "mime_ok (po_DeviceFormats o') (sh_MimeType shp3) (served_mime src F)"
    and "cap > 0 \<Longrightarrow> \<not> sh_Seekable F \<and> List.member lossyBitrateFormats (sh_Format F) \<and> br = cap \<and> encode'"
    and "sh_Seekable shp3 \<longleftrightarrow> sh_Seekable F \<or> forced"
proof -
  let ?S1 = "mint_advertise S force forced adv"
  have keys: "''fmt'' \<in> set bound_keys" "''enc'' \<in> set bound_keys" by (simp_all add: bound_keys_def)
  have S: "(sh_Seekable S \<and> sh_Format S = ''auto'' \<and> sh_MimeType S = ContainerMime (so_Container src))
      \<or> (\<not> sh_Seekable S \<and> sh_Format S \<noteq> ''auto'' \<and> sh_MimeType S = at_key formatMime (sh_Format S))"
    unfolding S_def using codec
    by (cases rule: ShapeFor_cases [of "bg_lossless b" src "bg_caps b" boost]) auto
  have forced_key: "forced \<Longrightarrow> map_of forceFormats force \<noteq> None \<and> hasOutput (bg_caps b) force \<and> force \<noteq> ''''"
    by (auto simp: forced mint_forced_def forceFormats_def)
  have adv: "adv \<noteq> '''' \<Longrightarrow> adv \<in> set (po_DeviceFormats o') \<and>
    ((force = '''' \<and> sh_Format S = ''auto'' \<and> ContainerMime (so_Container src) = fold_mime (base_mime adv))
     \<or> (hasOutput (bg_caps b) force \<and> mime_for force = Some (fold_mime (base_mime adv))))"
    by (rule mint_force_cases [OF w force])
  consider (A) "forced" "shp3 = ?S1" "\<not> encode'" "cap = 0"
    | (B1) f where "\<not> forced" "shp3 = shp2" "encode'" "br = cap" "cap > 0" "sh_Format shp2 = f"
        "sh_MimeType shp2 = at_key formatMime f" "\<not> sh_Seekable shp2" "List.member lossyBitrateFormats f"
        "(map_of forceFormats f \<noteq> None \<and> hasOutput (bg_caps b) f) \<or> f = sh_Format S"
    | (B2) g where "\<not> forced" "sh_Seekable S" "encode'" "cap = 0" "shp3 = encodeShape g" "g \<noteq> ''''"
        "map_of forceFormats g \<noteq> None" "hasOutput (bg_caps b) g"
    | (C) "\<not> forced" "shp3 = ?S1" "\<not> encode'" "cap = 0"
  proof (rule mint_cap_cases [OF cap])
    assume c: "shp2 = ?S1" "cap = 0"
    show thesis
    proof (cases "wantsCut \<and> sh_Seekable shp2 \<and> \<not> forced")
      case True
      obtain g where g: "originalCutShape b src = encodeShape g" "map_of forceFormats g \<noteq> None"
          "hasOutput (bg_caps b) g" "g \<noteq> ''''"
        using originalCutShape_cases [OF out] .
      with True c enc have "encode'" "shp3 = encodeShape g" by (auto simp: mint_encode_def Let_def)
      with True c g show thesis by (intro B2 [of g]) (auto simp: mint_advertise_simps)
    next
      case False
      with c enc have "shp3 = ?S1" "\<not> encode'" by (auto simp: mint_encode_def)
      with c show thesis using A C by (cases forced) auto
    qed
  next
    fix f assume f: "\<not> forced" "cap > 0" "sh_Format shp2 = f" "sh_MimeType shp2 = at_key formatMime f"
      "\<not> sh_Seekable shp2" "List.member lossyBitrateFormats f"
      "(map_of forceFormats f \<noteq> None \<and> hasOutput (bg_caps b) f) \<or> f = sh_Format ?S1
        \<or> (f = ''mp3'' \<and> \<not> hasOutput (bg_caps b) ''opus'')"
    with enc have "shp3 = shp2" "encode'" "br = cap" by (auto simp: mint_encode_def)
    moreover have "(map_of forceFormats f \<noteq> None \<and> hasOutput (bg_caps b) f) \<or> f = sh_Format S"
      using f(7) out by (auto simp: mint_advertise_simps forceFormats_def)
    ultimately show thesis using f by (intro B1 [of f]) auto
  qed
  then have "mime_ok (po_DeviceFormats o') (sh_MimeType shp3) (served_mime src F)
    \<and> (cap > 0 \<longrightarrow> \<not> sh_Seekable F \<and> List.member lossyBitrateFormats (sh_Format F) \<and> br = cap \<and> encode')
    \<and> (sh_Seekable shp3 \<longleftrightarrow> sh_Seekable F \<or> forced)"
  proof cases
    case A
    then have "query_get q ''fmt'' = force" "query_get q ''enc'' = ''''"
      using q keys forced_key mint_params_gets [of encode' "sh_Format shp3" forced force o' boost br] by auto
    moreover have "\<not> (sh_Seekable S \<and> SameAsSource src force)"
      using A forced by (simp add: mint_forced_def)
    ultimately have F: "F = S\<lparr>sh_Format := force, sh_Seekable := False\<rparr>"
      using forced_key [OF A(1)] by (auto simp: F_def serve_shape_def S_def Let_def)
    have "mime_ok (po_DeviceFormats o') (sh_MimeType ?S1) (at_key formatMime force)"
    proof (cases "adv = ''''")
      case True
      then show ?thesis
        using A forced_key forceFormats_mime [of force] by (simp add: mime_ok_def mint_advertise_simps)
    next
      case False
      with adv forced_key [OF A(1)] mime_for_formatMime [of force] show ?thesis
        by (auto simp: mime_ok_def mint_advertise_simps)
    qed
    with A F show ?thesis by (simp add: served_mime_def mint_advertise_simps)
  next
    case (B1 f)
    have "f \<noteq> ''''" using B1 by (auto simp: lossy_formats lossyBitrateFormats_def)
    then have g: "query_get q ''fmt'' = f" "query_get q ''enc'' = ''1''"
      using q keys B1 mint_params_gets [of encode' "sh_Format shp3" forced force o' boost br] by auto
    have "\<not> sh_Seekable F \<and> sh_Format F = f"
    proof (cases "map_of forceFormats f \<noteq> None \<and> hasOutput (bg_caps b) f")
      case True
      with g \<open>f \<noteq> ''''\<close> show ?thesis by (simp add: F_def serve_shape_def Let_def)
    next
      case False
      with B1(10) have "f = sh_Format S" by blast
      moreover then have "\<not> sh_Seekable S" using S B1(9) by (auto simp: lossyBitrateFormats_def)
      ultimately show ?thesis using False g by (simp add: F_def serve_shape_def Let_def S_def)
    qed
    with B1 show ?thesis by (simp add: served_mime_def mime_ok_def)
  next
    case (B2 g)
    then have "query_get q ''fmt'' = g" "query_get q ''enc'' = ''1''"
      using q keys mint_params_gets [of encode' "sh_Format shp3" forced force o' boost br] by auto
    with B2 have "\<not> sh_Seekable F \<and> sh_Format F = g" by (simp add: F_def serve_shape_def Let_def)
    with B2 show ?thesis by (simp add: served_mime_def mime_ok_def)
  next
    case C
    then have "query_get q ''fmt'' = ''''"
      using q keys mint_params_gets [of encode' "sh_Format shp3" forced force o' boost br] by auto
    then have F: "F = S" by (simp add: F_def serve_shape_def S_def Let_def)
    have "mime_ok (po_DeviceFormats o') (sh_MimeType ?S1) (served_mime src S)"
    proof (cases "adv = ''''")
      case True
      with S C show ?thesis by (auto simp: mime_ok_def mint_advertise_simps served_mime_def)
    next
      case False
      have "ContainerMime (so_Container src) = fold_mime (base_mime adv) \<and> sh_Seekable S"
      proof (cases "force = ''''")
        case True
        with adv [OF False] S show ?thesis by (auto simp: mime_for_def encodeTargets_def)
      next
        case nonempty: False
        with adv [OF False] have m: "hasOutput (bg_caps b) force" "mime_for force = Some (fold_mime (base_mime adv))"
          by auto
        with C forced mime_for_formatMime [OF m(2)] have "sh_Seekable S" "SameAsSource src force"
          by (auto simp: mint_forced_def)
        with SameAsSource_mime [OF _ m(2)] show ?thesis by simp
      qed
      with adv [OF False] show ?thesis
        by (simp add: mime_ok_def mint_advertise_simps served_mime_def False)
    qed
    with C F show ?thesis by (simp add: mint_advertise_simps)
  qed
  then show "mime_ok (po_DeviceFormats o') (sh_MimeType shp3) (served_mime src F)"
    "cap > 0 \<Longrightarrow> \<not> sh_Seekable F \<and> List.member lossyBitrateFormats (sh_Format F) \<and> br = cap \<and> encode'"
    "sh_Seekable shp3 \<longleftrightarrow> sh_Seekable F \<or> forced" by auto
qed

section \<open>A cut is the one the mint asked for\<close>

lemma show_nat_no_char: "c \<in> set (show_nat n) \<Longrightarrow> c \<noteq> CHR ''e'' \<and> c \<noteq> CHR ''E'' \<and> c \<noteq> CHR ''.'' \<and> c \<noteq> CHR ''-'' \<and> c \<noteq> CHR ''+''"
  by (auto simp: is_digit_def less_eq_char_def dest!: show_nat_plain_chars)

lemma ParseFloat_FormatInt:
  assumes "0 \<le> n" "n < 2 ^ 53"
  shows "ParseFloat (FormatInt n) = Some (of_int n)"
proof -
  let ?s = "show_nat (nat n)"
  note d = show_nat_digits [of "nat n"]
  have ne: "?s \<noteq> []" using d by (simp add: isDigits_def)
  have exp: "split_exponent ?s = (?s, None)"
  proof -
    have "takeWhile (\<lambda>c. c \<noteq> CHR ''e'' \<and> c \<noteq> CHR ''E'') ?s = ?s"
      by (auto simp: takeWhile_eq_all_conv dest: show_nat_no_char)
    then show ?thesis unfolding split_exponent_def Let_def by (simp only: less_irrefl if_False)
  qed
  have dot: "cut CHR ''.'' ?s = (?s, [], False)"
    by (rule cut_absent) (auto dest: show_nat_no_char)
  have "hd ?s \<noteq> CHR ''-''" "hd ?s \<noteq> CHR ''+''"
    using ne show_nat_no_char [of "hd ?s" "nat n"] by auto
  moreover have "f64 (of_int n) = of_int n" by (rule f64_of_nat_exact [OF assms])
  moreover have "(of_int n :: rat) < 2 ^ 1024"
  proof -
    have "(of_int n :: rat) < of_int (2 ^ 53)" using assms(2) by (simp only: of_int_less_iff)
    also have "\<dots> \<le> 2 ^ 1024" by simp
    finally show ?thesis .
  qed
  ultimately show ?thesis
    using assms(1) d exp dot by (simp add: ParseFloat_def FormatInt_def Let_def)
qed

lemma streamCut_minted:
  assumes "\<not> sh_Seekable shp" "0 < n" "n \<le> 10 ^ 9" "0 < dur \<Longrightarrow> n * 1000 \<le> dur - 1"
  shows "streamCut (FormatInt n) shp dur = Some (Some (of_int n), n * 1000)"
proof -
  have big: "n * 1000 < 2 ^ 53" "n < 2 ^ 53" using assms(3) by auto
  have exact: "f64 (of_int (n * 1000)) = of_int (n * 1000)" "f64 (of_int n) = (of_int n :: rat)"
    by (rule f64_of_nat_exact, use assms(2) big in simp_all)+
  have ne: "FormatInt n \<noteq> ''''"
    using show_nat_digits [of "nat n"] assms(2) by (simp add: FormatInt_def isDigits_def)
  define limit where "limit = (if dur > 0 then f64_div (f64 (of_int (dur - 1))) 1000 else maxCutSeconds)"
  have "(of_int n :: rat) \<le> limit"
  proof (cases "dur > 0")
    case True
    with assms(4) have "(of_int (n * 1000) :: rat) \<le> of_int (dur - 1)" by (simp only: of_int_le_iff)
    then have "of_int (n * 1000) \<le> f64 (of_int (dur - 1))"
      using f64_mono [of "of_int (n * 1000)"] exact by simp
    then have "of_int n \<le> f64 (of_int (dur - 1)) / 1000" by simp
    then have "f64 (of_int n) \<le> f64 (f64 (of_int (dur - 1)) / 1000)" by (rule f64_mono)
    with True exact show ?thesis by (simp add: limit_def f64_div_def)
  next
    case False
    have "(of_int n :: rat) \<le> of_int (10 ^ 9)" using assms(3) by (simp only: of_int_le_iff)
    with False show ?thesis by (simp add: limit_def maxCutSeconds_def)
  qed
  then have m: "min (of_int n) limit = of_int n" by simp
  have ms: "round_half_away (f64_mul (of_int n) 1000) = n * 1000"
  proof -
    have "f64_mul (of_int n) 1000 = of_int (n * 1000)" using exact by (simp add: f64_mul_def)
    moreover have "\<lfloor>(of_int (n * 1000) :: rat) + 1 / 2\<rfloor> = n * 1000" by linarith
    ultimately show ?thesis by (simp only: round_half_away_def)
  qed
  have "f64_div (of_int (n * 1000)) 1000 = of_int n" using exact by (simp add: f64_div_def)
  then show ?thesis
    using assms(1,2) ne ParseFloat_FormatInt [of n] big ms m
    by (simp add: streamCut_def limit_def [symmetric] Let_def)
qed

lemma cut_seconds_bounds:
  assumes "po_StartMS o' \<le> 10 ^ 12"
  shows "0 < cut_seconds src o' \<Longrightarrow> cut_seconds src o' \<le> 10 ^ 9"
    and "0 < cut_seconds src o' \<Longrightarrow> 0 < so_DurationMS src \<Longrightarrow>
      cut_seconds src o' * 1000 \<le> so_DurationMS src - 1"
proof -
  define start where "start = (if so_DurationMS src > 0 then min (po_StartMS o') (so_DurationMS src - 1)
      else po_StartMS o')"
  assume pos: "0 < cut_seconds src o'"
  then have p: "po_StartMS o' > 0" by (auto simp: cut_seconds_def split: if_splits)
  then have s: "0 \<le> start" "start \<le> 10 ^ 12" using assms by (auto simp: start_def)
  have c: "cut_seconds src o' = start div 1000"
    using p s by (simp add: cut_seconds_def start_def [symmetric] Let_def)
  then show "cut_seconds src o' \<le> 10 ^ 9"
    using s zdiv_mono1 [of start "10 ^ 12" 1000] by simp
  assume "0 < so_DurationMS src"
  then have "start \<le> so_DurationMS src - 1" by (auto simp: start_def)
  moreover have "start div 1000 * 1000 \<le> start" by presburger
  ultimately show "cut_seconds src o' * 1000 \<le> so_DurationMS src - 1" using c by linarith
qed

end
