(* ===== verification/Stream_Serve.thy ===== *)
theory Stream_Serve
  imports Streaming
begin

text \<open>
  What a stream fetch does with a minted URL, and with one that was edited: the promises
  \<open>PlayInfoForSource\<close> makes (type, offset, rate), the refusal of a changed parameter, and the
  account's bitrate ceiling, which the fetch applies again.
\<close>

section \<open>The rate a mint promises\<close>

lemma mint_cap_range:
  assumes "mint_cap b user src shp o' forced wantsCut = (shp2, cap)" "cap > 0"
  shows "cap \<le> MaxStreamBitrateKbps"
    and "cap < MinStreamBitrateKbps \<Longrightarrow> bg_gate b \<noteq> None \<and> gate_ceiling b user = cap"
    and "bg_gate b \<noteq> None \<Longrightarrow> gate_ceiling b user > 0 \<Longrightarrow> cap \<le> gate_ceiling b user"
proof -
  have "cap \<le> MaxStreamBitrateKbps \<and>
      (cap < MinStreamBitrateKbps \<longrightarrow> bg_gate b \<noteq> None \<and> gate_ceiling b user = cap) \<and>
      (bg_gate b \<noteq> None \<and> gate_ceiling b user > 0 \<longrightarrow> cap \<le> gate_ceiling b user)"
    using assms
    by (auto simp: mint_cap_def Let_def MinStreamBitrateKbps_def MaxStreamBitrateKbps_def
        min_def max_def split: if_splits prod.splits)
  then show "cap \<le> MaxStreamBitrateKbps"
    and "cap < MinStreamBitrateKbps \<Longrightarrow> bg_gate b \<noteq> None \<and> gate_ceiling b user = cap"
    and "bg_gate b \<noteq> None \<Longrightarrow> gate_ceiling b user > 0 \<Longrightarrow> cap \<le> gate_ceiling b user" by auto
qed

lemma heldBitrate_ceiling:
  "bg_gate b \<noteq> None \<Longrightarrow> gate_ceiling b user > 0 \<Longrightarrow>
    0 < heldBitrate b user raw \<and> heldBitrate b user raw \<le> gate_ceiling b user"
  by (auto simp: heldBitrate_def Let_def MinStreamBitrateKbps_def split: option.splits)

lemma heldBitrate_minted:
  assumes "mint_cap b user src shp o' forced wantsCut = (shp2, cap)" "cap > 0"
  shows "heldBitrate b user (FormatInt cap) = cap"
proof -
  have "cap \<le> 320" using mint_cap_range(1) [OF assms] by (simp add: MaxStreamBitrateKbps_def)
  then have "Atoi (FormatInt cap) = Some cap" using assms(2) by (intro Atoi_FormatInt) auto
  with \<open>cap \<le> 320\<close> assms(2) mint_cap_range(2,3) [OF assms] show ?thesis
    by (auto simp: heldBitrate_def Let_def MaxStreamBitrateKbps_def)
qed

section \<open>The requests of a served stream\<close>

lemma serve_params_keys:
  assumes "ps = serve_params b user q src ref gain boost shp cut'"
  shows "map_of ps ''src'' = Some (UText ref)" "map_of ps ''format'' = Some (UText (sh_Format shp))"
    "map_of ps ''t'' = map_option UCut cut'"
    "map_of ps ''bitrate'' =
      (if \<not> sh_Seekable shp \<and> List.member lossyBitrateFormats (sh_Format shp)
          \<and> heldBitrate b user (query_get q ''br'') > 0
       then Some (UText (FormatInt (heldBitrate b user (query_get q ''br'')))) else None)"
  by (auto simp: assms serve_params_def setWindow_def Let_def map_add_def split: option.splits)

lemma serve_shape_original: "sh_Seekable (serve_shape b q src boost) \<Longrightarrow> sh_Format (serve_shape b q src boost) = ''auto''"
  by (cases rule: ShapeFor_cases [of "bg_lossless b" src "bg_caps b" boost])
    (auto simp: serve_shape_def Let_def split: if_splits)


lemma cut_seconds_nonneg: "0 \<le> cut_seconds src o'"
proof -
  have "0 \<le> tdiv (min (po_StartMS o') (so_DurationMS src - 1)) 1000"
    if "0 < po_StartMS o'" "0 < so_DurationMS src"
  proof -
    from that have "0 \<le> min (po_StartMS o') (so_DurationMS src - 1)" by simp
    then show ?thesis by (simp add: pos_imp_zdiv_nonneg_iff)
  qed
  moreover have "0 \<le> tdiv (po_StartMS o') 1000" if "0 < po_StartMS o'"
    using that by (simp add: pos_imp_zdiv_nonneg_iff)
  ultimately show ?thesis by (simp add: cut_seconds_def Let_def)
qed

lemma mint_params_get_br:
  assumes "mint_encode b src shp2 forced wantsCut cap = (shp3, encode', br)" "cap > 0"
    "\<not> sh_Seekable shp2 \<or> forced \<or> \<not> wantsCut"
  shows "query_get (mint_params o' boost forced force encode' (sh_Format shp3) br) ''br'' = FormatInt cap"
  using assms by (auto simp: mint_encode_def mint_params_def query_get_def)

definition stream_claims :: "string \<Rightarrow> string \<Rightarrow> string \<Rightarrow> query \<Rightarrow> media_claims" where
  "stream_claims user cred pid params = \<lparr>mc_User = user, mc_Cred = cred, mc_Purpose = PurposeStream,
    mc_PID = pid, mc_Shape = streamShape params, mc_Exp = 0\<rparr>"

definition stream_want :: "string \<Rightarrow> query \<Rightarrow> media_want" where
  "stream_want pid q = \<lparr>mw_Purposes = [PurposeStream], mw_PID = pid, mw_AnyPID = False,
    mw_Shape = streamShape q\<rparr>"

lemma stream_claims_plain:
  "bar \<notin> set user \<union> set pid \<union> set cred \<Longrightarrow> plain_claims (stream_claims user cred pid params)"
  by (auto simp: plain_claims_def stream_claims_def bar_def PurposeStream_def)

lemma stream_claims_wanted:
  "wanted (stream_want pid' q) (stream_claims user cred pid params) \<longleftrightarrow>
    pid' = pid \<and> (\<forall>k \<in> set bound_keys. query_get q k = query_get params k)"
  using streamShape_eq [of params q] by (auto simp: wanted_def stream_want_def stream_claims_def)

text \<open>A minted stream, and its URL read back as a query.\<close>

lemma mint_stream_parts:
  assumes "info = mint_stream b now user pid src o' params shp boost cap"
  obtains token q where
    "MintFor (bg_tokens b) now (stream_claims user (po_Cred o') pid params) (po_TTL o')
      = (token, pi_ExpiresAt info)"
    "url_query (pi_URL info) = q" "query_get q ''pid'' = pid" "query_get q ''mt'' = token"
    "query_get q ''t'' =
      (if pi_StartOffsetMS info > 0 then FormatInt (cut_seconds src o') else '''')"
    "\<forall>k \<in> set bound_keys. query_get q k = query_get params k"
    "pi_StartOffsetMS info = (if \<not> sh_Seekable shp then cut_seconds src o' * 1000 else 0)"
    "pi_MimeType info = sh_MimeType shp" "pi_Seekable info = sh_Seekable shp"
    "pi_AppliedBitrateKbps info = cap"
proof -
  obtain token exp where tok: "MintFor (bg_tokens b) now (stream_claims user (po_Cred o') pid params) (po_TTL o') = (token, exp)"
    by (cases "MintFor (bg_tokens b) now (stream_claims user (po_Cred o') pid params) (po_TTL o')")
  define cut' where "cut' = (cut_seconds src o' > 0 \<and> \<not> sh_Seekable shp)"
  have info: "pi_URL info = ''/media/stream?pid='' @ QueryEscape pid @ ''&mt='' @ QueryEscape token
      @ (if streamShape params \<noteq> '''' then ''&'' @ streamShape params else '''')
      @ (if cut' then ''&t='' @ FormatInt (cut_seconds src o') else '''')"
    "pi_MimeType info = sh_MimeType shp" "pi_Seekable info = sh_Seekable shp" "pi_ExpiresAt info = exp"
    "pi_AppliedBitrateKbps info = cap"
    "pi_StartOffsetMS info = (if cut' then cut_seconds src o' * 1000 else 0)"
    using tok unfolding assms
    by (simp_all add: mint_stream_def stream_claims_def [symmetric] cut'_def Let_def)
  have cut0: "cut' \<longleftrightarrow> pi_StartOffsetMS info > 0" "pi_StartOffsetMS info =
      (if \<not> sh_Seekable shp then cut_seconds src o' * 1000 else 0)"
    using info(6) cut_seconds_nonneg [of src o'] by (auto simp: cut'_def)
  have "url_query (pi_URL info) = [(''pid'', pid), (''mt'', token)] @ bound_part params
      @ (if cut' then [(''t'', FormatInt (cut_seconds src o'))] else [])"
    using info(1) cut_seconds_nonneg by (rule minted_query)
  from minted_gets [OF this] cut0(1) have g: "query_get (url_query (pi_URL info)) ''pid'' = pid"
    "query_get (url_query (pi_URL info)) ''mt'' = token"
    "query_get (url_query (pi_URL info)) ''t'' =
      (if pi_StartOffsetMS info > 0 then FormatInt (cut_seconds src o') else '''')"
    "\<forall>k \<in> set bound_keys. query_get (url_query (pi_URL info)) k = query_get params k"
    by simp_all
  show thesis
    by (rule that [OF tok [folded info(4)] refl g cut0(2) info(2,3,5)])
qed

text \<open>The fetch of a URL the mint wrote, up to the engine's request.\<close>

lemma minted_fetch:
  assumes mint: "PlayInfoForSource b now user pid src o' = Some info" "\<not> po_HLS o'"
    and gate: "bg_gate b = Some g" "\<forall>c. ga_AuthorizeMedia g c = MediaOK" "ga_Acquire g user"
    and found: "bg_resolve b pid (po_FilePID o') = Some src" "srcRef (bg_roots b) (so_Path src) = Some ref"
    and engine: "walk (bg_order b)" "hasOutput (bg_caps b) ''mp3'' \<or> hasOutput (bg_caps b) ''opus''"
    and codec: "so_Codec src \<noteq> ''auto''"
    and names: "pid \<noteq> ''''" "bar \<notin> set user \<union> set pid \<union> set (po_Cred o')"
    and start: "po_StartMS o' \<le> 10 ^ 12"
    and time: "- (2 ^ 63) \<le> unix_seconds (pi_ExpiresAt info)" "unix_seconds (pi_ExpiresAt info) < 2 ^ 63"
      "unix_seconds now' \<le> unix_seconds (pi_ExpiresAt info)"
  obtains F gain boost q where
    "ServeStream b now' (url_query (pi_URL info)) =
      Proxied (serve_params b user q src ref gain boost F
        (if pi_StartOffsetMS info > 0 then Some (of_int (pi_StartOffsetMS info) / 1000) else None))
        (\<not> sh_Seekable F)"
    "F = serve_shape b q src boost"
    "mime_ok (po_DeviceFormats o') (pi_MimeType info) (served_mime src F)"
    "pi_AppliedBitrateKbps info > 0 \<longrightarrow> \<not> sh_Seekable F \<and> List.member lossyBitrateFormats (sh_Format F)
      \<and> heldBitrate b user (query_get q ''br'') = pi_AppliedBitrateKbps info"
    "sh_Seekable F \<longrightarrow> pi_Seekable info"
proof -
  obtain gain boost force adv forced shp2 cap shp3 encode' br where d:
    "VoiceBoostParams src (bg_caps b) (po_VoiceBoost o') = (gain, boost)"
    "mint_force b user src (ShapeFor (bg_lossless b) src (bg_caps b) boost) o' = (force, adv)"
    "forced = mint_forced b src (ShapeFor (bg_lossless b) src (bg_caps b) boost) force"
    "mint_cap b user src (mint_advertise (ShapeFor (bg_lossless b) src (bg_caps b) boost) force forced adv) o'
       forced (po_CutOriginal o' \<and> cut_seconds src o' > 0) = (shp2, cap)"
    "mint_encode b src shp2 forced (po_CutOriginal o' \<and> cut_seconds src o' > 0) cap = (shp3, encode', br)"
    "info = mint_stream b now user pid src o'
       (mint_params o' boost forced force encode' (sh_Format shp3) br) shp3 boost cap"
    "bg_caps b \<noteq> None"
    by (rule PlayInfoForSource_parts [OF mint])
  define params where "params = mint_params o' boost forced force encode' (sh_Format shp3) br"
  obtain token q where tok: "MintFor (bg_tokens b) now (stream_claims user (po_Cred o') pid params) (po_TTL o')
      = (token, pi_ExpiresAt info)"
    and q: "url_query (pi_URL info) = q" and get: "query_get q ''pid'' = pid" "query_get q ''mt'' = token"
    "query_get q ''t'' = (if pi_StartOffsetMS info > 0 then FormatInt (cut_seconds src o') else '''')"
    "\<forall>k \<in> set bound_keys. query_get q k = query_get params k"
    and info: "pi_StartOffsetMS info = (if \<not> sh_Seekable shp3 then cut_seconds src o' * 1000 else 0)"
    "pi_MimeType info = sh_MimeType shp3" "pi_Seekable info = sh_Seekable shp3"
    "pi_AppliedBitrateKbps info = cap"
    by (rule mint_stream_parts [OF d(6) [folded params_def]])
  define F where "F = serve_shape b q src boost"
  have minted: "query_get q k = query_get (mint_params o' boost forced force encode' (sh_Format shp3) br) k"
    if "k \<in> set bound_keys" for k using get(4) that by (simp add: params_def)
  have match: "mime_ok (po_DeviceFormats o') (sh_MimeType shp3) (served_mime src F)"
    "cap > 0 \<Longrightarrow> \<not> sh_Seekable F \<and> List.member lossyBitrateFormats (sh_Format F) \<and> br = cap \<and> encode'"
    "sh_Seekable shp3 \<longleftrightarrow> sh_Seekable F \<or> forced"
    using fetch_matches_mint [OF engine codec d(2-5), of q] minted by (simp_all add: F_def)
  have bound: "query_get q k = query_get params k" if "k \<in> {''f'', ''vb'', ''br'', ''join''}" for k
    using that get(4) by (auto simp: bound_keys_def)
  have plain: "query_get params ''f'' = po_FilePID o'" "query_get params ''vb'' = (if boost then ''1'' else '''')"
    "query_get params ''join'' = ''''"
    unfolding params_def by (auto simp: mint_params_def query_get_def)
  define claims where "claims = stream_claims user (po_Cred o') pid params"
  have verified: "Verify (bg_tokens b) now' token (stream_want pid q) = Some (claims\<lparr>mc_Exp := pi_ExpiresAt info\<rparr>)"
    using Verify_minted [OF tok stream_claims_plain [OF names(2)] time(1,2)] time(3) get(4)
    by (simp add: stream_claims_wanted claims_def)
  obtain gain' where again: "VoiceBoostParams src (bg_caps b) boost = (gain', boost)"
    using boost_again [OF d(1)] by blast
  have cut_src: "streamCut (query_get q ''t'') F (so_DurationMS src) =
      Some (if pi_StartOffsetMS info > 0 then Some (of_int (pi_StartOffsetMS info) / 1000) else None,
            pi_StartOffsetMS info)"
  proof (cases "pi_StartOffsetMS info > 0")
    case True
    then have "\<not> sh_Seekable F" "0 < cut_seconds src o'" "\<not> sh_Seekable shp3"
      using match(3) info(1) by (auto split: if_splits)
    then have "streamCut (FormatInt (cut_seconds src o')) F (so_DurationMS src) =
        Some (Some (of_int (cut_seconds src o')), cut_seconds src o' * 1000)"
      using cut_seconds_bounds [OF start] by (intro streamCut_minted) auto
    with True info(1) get(3) \<open>\<not> sh_Seekable shp3\<close> show ?thesis by simp
  next
    case False
    then have "pi_StartOffsetMS info = 0" using info(1) cut_seconds_nonneg [of src o'] by (auto split: if_splits)
    with get(3) show ?thesis by (simp add: streamCut_def)
  qed
  have admitted: "admit b user = None" using gate by (simp add: admit_def)
  have source: "serve_source b user q src = Proxied (serve_params b user q src ref gain' boost F
        (if pi_StartOffsetMS info > 0 then Some (of_int (pi_StartOffsetMS info) / 1000) else None))
        (\<not> sh_Seekable F)"
  proof -
    have "(query_get q ''vb'' = ''1'') = boost" using bound [of "''vb''"] plain(2) by simp
    then show ?thesis
      unfolding serve_source_def
      by (simp only: found(2) option.case again prod.case Let_def F_def [symmetric] cut_src admitted if_cancel)
  qed
  have "authorize b (claims\<lparr>mc_Exp := pi_ExpiresAt info\<rparr>) = None" using gate by (simp add: authorize_def)
  with verified [unfolded stream_want_def] source found(1) names(1) get bound plain d(7)
  have served: "ServeStream b now' (url_query (pi_URL info)) = Proxied (serve_params b user q src ref gain' boost F
        (if pi_StartOffsetMS info > 0 then Some (of_int (pi_StartOffsetMS info) / 1000) else None))
        (\<not> sh_Seekable F)"
    unfolding q by (auto simp: ServeStream_def claims_def stream_claims_def)
  show thesis
  proof (rule that [OF served F_def])
    show "mime_ok (po_DeviceFormats o') (pi_MimeType info) (served_mime src F)"
      using match(1) by (simp add: info(2))
    show "pi_AppliedBitrateKbps info > 0 \<longrightarrow> \<not> sh_Seekable F \<and> List.member lossyBitrateFormats (sh_Format F)
      \<and> heldBitrate b user (query_get q ''br'') = pi_AppliedBitrateKbps info"
    proof
      assume "pi_AppliedBitrateKbps info > 0"
      then have c: "cap > 0" by (simp add: info(4))
      moreover have "query_get q ''br'' = FormatInt cap"
        using match(2) [OF c] c bound [of "''br''"] by (simp add: params_def mint_params_def query_get_def)
      ultimately show "\<not> sh_Seekable F \<and> List.member lossyBitrateFormats (sh_Format F)
        \<and> heldBitrate b user (query_get q ''br'') = pi_AppliedBitrateKbps info"
        using match(2) heldBitrate_minted [OF d(4)] by (simp add: info(4))
    qed
    show "sh_Seekable F \<longrightarrow> pi_Seekable info" using match(3) by (simp add: info(3))
  qed
qed

lemma authorize_not_Proxied: "authorize b c \<noteq> Some (Proxied ps adm)"
  by (auto simp: authorize_def split: option.splits media_check.splits)

lemma admit_not_Proxied: "admit b user \<noteq> Some (Proxied ps adm)"
  by (auto simp: admit_def split: option.splits)

section \<open>Claims\<close>

text \<open>C5. A stream URL keeps the promises it was minted with: until it expires, on an engine that
  writes MP3 or Opus and from the same source, the fetch is served; the bytes are of the advertised
  media type, or of the type the device's own spelling of it names; the cut is the advertised
  offset; an advertised bitrate is, to the kilobit, the one the engine is asked for, the account's
  ceiling being the one the URL was minted under; and a stream that is not seekable is the only
  kind an advertised-unseekable URL can be.\<close>

theorem minted_stream_is_served_as_advertised:
  assumes mint: "PlayInfoForSource b now user pid src o' = Some info" "\<not> po_HLS o'"
    and gate: "bg_gate b = Some g" "\<forall>c. ga_AuthorizeMedia g c = MediaOK" "ga_Acquire g user"
    and found: "bg_resolve b pid (po_FilePID o') = Some src" "srcRef (bg_roots b) (so_Path src) = Some ref"
    and engine: "walk (bg_order b)" "hasOutput (bg_caps b) ''mp3'' \<or> hasOutput (bg_caps b) ''opus''"
    and codec: "so_Codec src \<noteq> ''auto''"
    and names: "pid \<noteq> ''''" "bar \<notin> set user \<union> set pid \<union> set (po_Cred o')"
    and start: "po_StartMS o' \<le> 10 ^ 12"
    and time: "- (2 ^ 63) \<le> unix_seconds (pi_ExpiresAt info)" "unix_seconds (pi_ExpiresAt info) < 2 ^ 63"
      "unix_seconds now' \<le> unix_seconds (pi_ExpiresAt info)"
  shows "\<exists>ps admitted format served.
    ServeStream b now' (url_query (pi_URL info)) = Proxied ps admitted
    \<and> map_of ps ''src'' = Some (UText ref) \<and> map_of ps ''format'' = Some (UText format)
    \<and> served = (if admitted then at_key formatMime format else ContainerMime (so_Container src))
    \<and> (pi_MimeType info = served
       \<or> pi_MimeType info \<in> set (po_DeviceFormats o') \<and> fold_mime (base_mime (pi_MimeType info)) = served)
    \<and> map_of ps ''t'' = (if pi_StartOffsetMS info > 0
         then Some (UCut (of_int (pi_StartOffsetMS info) / 1000)) else None)
    \<and> (pi_AppliedBitrateKbps info > 0 \<longrightarrow> admitted
         \<and> map_of ps ''bitrate'' = Some (UText (FormatInt (pi_AppliedBitrateKbps info))))
    \<and> (\<not> pi_Seekable info \<longrightarrow> admitted)"
proof -
  obtain F gain boost q where f: "ServeStream b now' (url_query (pi_URL info)) =
      Proxied (serve_params b user q src ref gain boost F
        (if pi_StartOffsetMS info > 0 then Some (of_int (pi_StartOffsetMS info) / 1000) else None))
        (\<not> sh_Seekable F)"
    "F = serve_shape b q src boost"
    "mime_ok (po_DeviceFormats o') (pi_MimeType info) (served_mime src F)"
    "pi_AppliedBitrateKbps info > 0 \<longrightarrow> \<not> sh_Seekable F \<and> List.member lossyBitrateFormats (sh_Format F)
      \<and> heldBitrate b user (query_get q ''br'') = pi_AppliedBitrateKbps info"
    "sh_Seekable F \<longrightarrow> pi_Seekable info"
    by (rule minted_fetch [OF assms])
  note keys = serve_params_keys [OF refl, of b user q src ref gain boost F
      "if pi_StartOffsetMS info > 0 then Some (of_int (pi_StartOffsetMS info) / 1000) else None"]
  show ?thesis
    using f(3-5) keys
    by (intro exI conjI) (rule f(1), auto simp: mime_ok_def served_mime_def)
qed

text \<open>C26. A minted token is good for the item and the stream parameters it was minted with and no
  others: a fetch that changes the item, the file, the boost, the format, the rate, the encode mark
  or the join is refused, whatever the bridge has become since, and before anything is resolved.\<close>

theorem edited_parameters_refused:
  assumes "PlayInfoForSource b now user pid src o' = Some info" "\<not> po_HLS o'"
    and "bar \<notin> set user \<union> set pid \<union> set (po_Cred o')"
    and "- (2 ^ 63) \<le> unix_seconds (pi_ExpiresAt info)" "unix_seconds (pi_ExpiresAt info) < 2 ^ 63"
    and "bg_tokens b' = bg_tokens b"
    and "query_get q ''mt'' = query_get (url_query (pi_URL info)) ''mt''"
    and "\<exists>k \<in> set (''pid'' # bound_keys). query_get q k \<noteq> query_get (url_query (pi_URL info)) k"
  shows "ServeStream b' now' q =
    (if query_get q ''pid'' = '''' then Answered 400 ''invalid-request''
     else Answered 401 ''unauthenticated'')"
proof -
  obtain shp params boost cap where i: "info = mint_stream b now user pid src o' params shp boost cap"
    using PlayInfoForSource_parts [OF assms(1,2)] by metis
  obtain token q0 where "MintFor (bg_tokens b) now (stream_claims user (po_Cred o') pid params) (po_TTL o')
      = (token, pi_ExpiresAt info)" "url_query (pi_URL info) = q0" "query_get q0 ''pid'' = pid"
      "query_get q0 ''mt'' = token" "\<forall>k \<in> set bound_keys. query_get q0 k = query_get params k"
    by (rule mint_stream_parts [OF i])
  note t = this
  have "\<not> wanted (stream_want (query_get q ''pid'') q) (stream_claims user (po_Cred o') pid params)"
    using assms(8) t(3,5) by (auto simp: stream_claims_wanted t(2))
  then have "Verify (bg_tokens b) now' token (stream_want (query_get q ''pid'') q) = None"
    using Verify_minted [OF t(1) stream_claims_plain [OF assms(3)] assms(4,5)] by simp
  then show ?thesis
    using assms(6,7) t(2,4) by (simp add: ServeStream_def stream_want_def Let_def)
qed

text \<open>Whatever a fetch asks for, an encode in a format that has a bitrate is asked of the engine
  at no more than the account's ceiling; every encode was admitted by the gate; and what was not
  admitted is the file itself, uncut and at no rate.\<close>

theorem fetch_holds_ceiling:
  assumes "ServeStream b now q = Proxied ps admitted"
  shows "\<exists>claims format g.
    Verify (bg_tokens b) now (query_get q ''mt'') (stream_want (query_get q ''pid'') q) = Some claims
    \<and> bg_gate b = Some g \<and> ga_AuthorizeMedia g claims = MediaOK
    \<and> map_of ps ''format'' = Some (UText format)
    \<and> (if admitted
       then ga_Acquire g (mc_User claims)
         \<and> (List.member lossyBitrateFormats format \<and> ga_MaxBitrateKbps g (mc_User claims) > 0 \<longrightarrow>
             (\<exists>br. 0 < br \<and> br \<le> ga_MaxBitrateKbps g (mc_User claims)
               \<and> map_of ps ''bitrate'' = Some (UText (FormatInt br))))
       else format = ''auto'' \<and> map_of ps ''t'' = None \<and> map_of ps ''bitrate'' = None)"
proof -
  obtain claims src where s: "serve_source b (mc_User claims) q src = Proxied ps admitted"
      "authorize b claims = None"
      "Verify (bg_tokens b) now (query_get q ''mt'') (stream_want (query_get q ''pid'') q) = Some claims"
    using assms by (auto simp: ServeStream_def stream_want_def Let_def serveWithoutEngine_def RefuseEngineDown_def
        authorize_not_Proxied
        split: if_splits option.splits)
  define user where "user = mc_User claims"
  obtain g where g: "bg_gate b = Some g" "ga_AuthorizeMedia g claims = MediaOK"
    using s(2) by (auto simp: authorize_def split: option.splits media_check.splits)
  obtain ref gain boost shp cut' ms where p:
    "ps = serve_params b user q src ref gain boost shp cut'"
    "shp = serve_shape b q src boost" "admitted = (\<not> sh_Seekable shp)"
    "streamCut (query_get q ''t'') shp (so_DurationMS src) = Some (cut', ms)"
    "\<not> sh_Seekable shp \<Longrightarrow> admit b user = None"
    using s(1) unfolding user_def [symmetric]
    by (auto simp: serve_source_def Let_def admit_not_Proxied split: option.splits prod.splits if_splits)
  note keys = serve_params_keys [OF p(1)]
  show ?thesis
  proof (cases admitted)
    case True
    then have "ga_Acquire g user" using p(3,5) g by (auto simp: admit_def split: if_splits)
    moreover have "0 < heldBitrate b user (query_get q ''br'')
        \<and> heldBitrate b user (query_get q ''br'') \<le> ga_MaxBitrateKbps g user"
      if "ga_MaxBitrateKbps g user > 0"
      using heldBitrate_ceiling [of b user] that g by (simp add: gate_ceiling_def)
    ultimately show ?thesis
      by (intro exI [of _ claims] exI [of _ "sh_Format shp"] exI [of _ g])
        (use True p(3) g keys s(3) in \<open>auto simp: user_def\<close>)
  next
    case False
    then have "sh_Seekable shp" "cut' = None" "sh_Format shp = ''auto''"
      using p(2,3,4) serve_shape_original by (auto simp: streamCut_def split: if_splits)
    with False g keys s(3) show ?thesis by auto
  qed
qed


section \<open>A capped account cuts a lossless track\<close>

definition demo_gate :: transcode_gate where
  "demo_gate = \<lparr>ga_Acquire = (\<lambda>_. True), ga_MaxBitrateKbps = (\<lambda>u. if u = ''us-1'' then 128 else 0),
     ga_AuthorizeMedia = (\<lambda>_. MediaOK)\<rparr>"

definition stream_source :: source where
  "stream_source = \<lparr>so_Path = ''/m/a.flac'', so_Size = 9, so_MTimeNS = 7, so_Virtual = False,
     so_FromSample = 0, so_ToSample = 0, so_Codec = ''flac'', so_Container = ''flac'',
     so_BitrateKbps = 900, so_DurationMS = 60000, so_SpokenWord = False,
     so_IntegratedLUFS = None, so_TruePeakDB = None\<rparr>"

definition demo_bridge :: bridge where
  "demo_bridge = \<lparr>bg_caps = Some \<lparr>cp_Outputs = [''flac'', ''mp3''], cp_CutFormats = [], cp_HLS = False,
       cp_HLSFormats = [], cp_Dynamics = [], cp_GainMaxVoiceDB = 0\<rparr>,
     bg_tokens = demo_tokens, bg_gate = Some demo_gate, bg_roots = [(''m'', ''/m'')],
     bg_resolve = (\<lambda>pid f. if pid = ''it-9'' then Some stream_source else None),
     bg_lossless = (\<lambda>c. c = ''flac''), bg_rendering = (\<lambda>_. None), bg_order = (\<lambda>xs. xs)\<rparr>"

definition demo_options :: play_options where
  "demo_options = \<lparr>po_Cred = ''se:4'', po_FilePID = '''', po_VoiceBoost = False, po_ForceFormat = '''',
     po_DeviceFormats = [], po_TTL = 0, po_MaxBitrateKbps = 192, po_CapFormat = '''',
     po_StartMS = 61500, po_CutOriginal = False, po_HLS = False\<rparr>"

lemma demo_mints: "\<exists>info. PlayInfoForSource demo_bridge 0 ''us-1'' ''it-9'' stream_source demo_options = Some info
    \<and> pi_MimeType info = ''audio/mpeg'' \<and> pi_AppliedBitrateKbps info = 128
    \<and> pi_StartOffsetMS info = 59000 \<and> pi_ExpiresAt info = 900 * second"
  by (simp add: PlayInfoForSource_def demo_bridge_def demo_options_def VoiceBoostParams_def
      stream_source_def Let_def mint_force_def mint_forced_def mint_advertise_def mint_cap_def
      mint_encode_def ShapeFor_def forceFormats_def gate_ceiling_def demo_gate_def cut_seconds_def
      CappedShape_def hasOutput_def mint_stream_def MintFor_def demo_tokens_def NewMediaTokens_def
      DefaultMediaTokenTTL_def minute_def second_def MinStreamBitrateKbps_def MaxStreamBitrateKbps_def
      lossyBitrateFormats_def encodeShape_def formatMime_def at_key_def SameAsSource_def)


lemma demo_conditions:
  "bg_gate demo_bridge = Some demo_gate" "\<forall>c. ga_AuthorizeMedia demo_gate c = MediaOK"
  "ga_Acquire demo_gate ''us-1''" "\<not> po_HLS demo_options"
  "bg_resolve demo_bridge ''it-9'' (po_FilePID demo_options) = Some stream_source"
  "srcRef (bg_roots demo_bridge) (so_Path stream_source) = Some ''m/a.flac''"
  "walk (bg_order demo_bridge)" "hasOutput (bg_caps demo_bridge) ''mp3'' \<or> hasOutput (bg_caps demo_bridge) ''opus''"
  "so_Codec stream_source \<noteq> ''auto''" "''it-9'' \<noteq> ''''"
  "bar \<notin> set ''us-1'' \<union> set ''it-9'' \<union> set (po_Cred demo_options)" "po_StartMS demo_options \<le> 10 ^ 12"
  "unix_seconds (900 * second) = 900"
  by (simp_all add: demo_bridge_def demo_gate_def demo_options_def stream_source_def rel_path_def Let_def
      walk_def hasOutput_def bar_def unix_seconds_def second_def)

lemma minted_stream_is_served_as_advertised_witness:
  "\<exists>info ps. PlayInfoForSource demo_bridge 0 ''us-1'' ''it-9'' stream_source demo_options = Some info
    \<and> ServeStream demo_bridge (900 * second) (url_query (pi_URL info)) = Proxied ps True
    \<and> map_of ps ''src'' = Some (UText ''m/a.flac'') \<and> map_of ps ''t'' = Some (UCut 59)
    \<and> map_of ps ''bitrate'' = Some (UText (FormatInt 128))"
proof -
  obtain info where i: "PlayInfoForSource demo_bridge 0 ''us-1'' ''it-9'' stream_source demo_options = Some info"
    "pi_AppliedBitrateKbps info = 128" "pi_StartOffsetMS info = 59000" "pi_ExpiresAt info = 900 * second"
    using demo_mints by blast
  note d = demo_conditions
  show ?thesis
    using minted_stream_is_served_as_advertised [OF i(1) d(4,1-3,5-12), of "900 * second"] i d(13)
    by (auto 0 3)
qed

lemma demo_fetch:
  "\<exists>info ps adm. PlayInfoForSource demo_bridge 0 ''us-1'' ''it-9'' stream_source demo_options = Some info
    \<and> pi_ExpiresAt info = 900 * second
    \<and> ServeStream demo_bridge (900 * second) (url_query (pi_URL info)) = Proxied ps adm"
proof -
  obtain info where i: "PlayInfoForSource demo_bridge 0 ''us-1'' ''it-9'' stream_source demo_options = Some info"
    "pi_ExpiresAt info = 900 * second"
    using demo_mints by blast
  note d = demo_conditions
  have t: "- (2 ^ 63) \<le> unix_seconds (pi_ExpiresAt info)" "unix_seconds (pi_ExpiresAt info) < 2 ^ 63"
    "unix_seconds (900 * second) \<le> unix_seconds (pi_ExpiresAt info)" by (simp_all add: i(2) d(13))
  show ?thesis
    by (rule minted_fetch [OF i(1) d(4,1-3,5-12) t]) (use i in blast)
qed

lemma edited_parameters_refused_witness:
  "\<exists>u. ServeStream demo_bridge 0 ((''pid'', ''it-8'') # u) = Answered 401 ''unauthenticated''
    \<and> (\<exists>ps adm. ServeStream demo_bridge (900 * second) u = Proxied ps adm)"
proof -
  obtain info ps adm where i: "PlayInfoForSource demo_bridge 0 ''us-1'' ''it-9'' stream_source demo_options = Some info"
    "pi_ExpiresAt info = 900 * second"
    "ServeStream demo_bridge (900 * second) (url_query (pi_URL info)) = Proxied ps adm"
    using demo_fetch by blast
  obtain shp params boost cap where m: "info = mint_stream demo_bridge 0 ''us-1'' ''it-9'' stream_source
      demo_options params shp boost cap"
    using PlayInfoForSource_parts [OF i(1) demo_conditions(4)] by metis
  obtain q0 where "url_query (pi_URL info) = q0" "query_get q0 ''pid'' = ''it-9''"
    using mint_stream_parts [OF m] by metis
  then show ?thesis
    using edited_parameters_refused [OF i(1) demo_conditions(4,11), of demo_bridge
        "(''pid'', ''it-8'') # url_query (pi_URL info)" 0] i demo_conditions(13)
    by (auto simp: query_get_def)
qed

lemma fetch_holds_ceiling_witness:
  "\<exists>(info :: play_info) ps adm format claims.
    ServeStream demo_bridge (900 * second) (url_query (pi_URL info)) = Proxied ps adm
    \<and> map_of ps ''format'' = Some (UText format) \<and> ga_AuthorizeMedia demo_gate claims = MediaOK"
proof -
  obtain info :: play_info and ps adm where i: "ServeStream demo_bridge (900 * second) (url_query (pi_URL info)) = Proxied ps adm"
    using demo_fetch by blast
  from fetch_holds_ceiling [OF i] i show ?thesis by (auto simp: demo_conditions(1))
qed

end
