(* ===== verification/Store.thy ===== *)
theory Store
  imports Perms Tokens
begin

text \<open>
  The tables of the server's own database that accounts and sign-in rest on, and every statement
  run on them: \<^verbatim>\<open>users\<close>, \<^verbatim>\<open>library_grants\<close> and \<^verbatim>\<open>identities\<close> (db/users.go), \<^verbatim>\<open>sessions\<close>
  (db/sessions.go), \<^verbatim>\<open>invites\<close> (db/invites.go), \<^verbatim>\<open>app_passwords\<close> (the check of db/apppasswords.go)
  and \<^verbatim>\<open>sync_state\<close> (db/events.go).

  A table is the list of its rows, in no order an answer relies on; deleting an account deletes the
  rows that name it, as the schema of db/db.go says.  Every statement is atomic and takes the clock
  it reads.  A JSON column is the document it holds.  Text is compared and lowered byte by byte:
  names and roles are ASCII here.
\<close>

section \<open>The tables\<close>

record auth_session =
  as_ID :: string
  as_UserID :: string
  as_Kind :: string
  as_TokenHash :: string
  as_PrevTokenHash :: "string option"
  as_RotatedAt :: "time option"
  as_CSRFToken :: string
  as_DeviceName :: string
  as_Client :: string
  as_CreatedAt :: time
  as_LastSeenAt :: time
  as_ExpiresAt :: time

datatype store_error = RowNotFound | RowConflict | StoreFailed

record identity =
  id_UserID :: string
  id_Provider :: string
  id_Subject :: string
  id_Email :: string

record invite =
  iv_ID :: string
  iv_TokenHash :: string
  iv_Note :: string
  iv_Roles :: "string list"
  iv_LibraryAccess :: string
  iv_LibraryGrants :: "string list"
  iv_Perms :: "permissions option"
  iv_UploadEnabled :: bool
  iv_UploadQuotaBytes :: int
  iv_MaxUses :: int
  iv_UsedCount :: int
  iv_Revoked :: bool
  iv_ExpiresAtNS :: int
  iv_CreatedBy :: string
  iv_CreatedAtNS :: int

text \<open>\<open>st_grants\<close> pairs a user with a library, \<open>st_appPasswords\<close> the id of an app password with its
  user.\<close>

record store =
  st_users :: "account list"
  st_grants :: "(string \<times> string) list"
  st_identities :: "identity list"
  st_sessions :: "auth_session list"
  st_invites :: "invite list"
  st_appPasswords :: "(string \<times> string) list"
  st_syncState :: "string \<Rightarrow> string option"

text \<open>The statements of the operations below, for saying which of them fail.\<close>

datatype store_call =
    CCreateSession | CSessionByTokenHash | CSessionByID | CSessionsByUser | CRotateToken
  | CClearPrev | CTouch | CRename | CDelete | CDeleteUserSessions
  | CUserByID | CUserByUsername | CCountAdmins | CCreateUser | CUpdateUser | CDeleteUser
  | CSetGrants | CGrants | CLinkIdentity | CIdentityBySubject | CIdentities
  | CConsumeInvite | CUnconsumeInvite | CInsertInvite | CInviteByID | CRevokeInvite
  | CAppPassword | CSyncGet | CSyncIncrement string | CRadio | CAppendEvent | CListUsers | CProbe

section \<open>Accounts\<close>

definition UserByID :: "string \<Rightarrow> store \<Rightarrow> store_error + account" where
  "UserByID uid st =
    (case List.find (\<lambda>u. a_ID u = uid) (st_users st) of None \<Rightarrow> Inl RowNotFound | Some u \<Rightarrow> Inr u)"

definition UserByUsername :: "string \<Rightarrow> store \<Rightarrow> store_error + account" where
  "UserByUsername name st =
    (case List.find (\<lambda>u. to_lower (a_Username u) = to_lower name) (st_users st) of
       None \<Rightarrow> Inl RowNotFound | Some u \<Rightarrow> Inr u)"

definition joinRoles :: "string list \<Rightarrow> string" where "joinRoles roles = join CHR '','' roles"

definition splitRoles :: "string \<Rightarrow> string list" where
  "splitRoles s = (if s = '''' then [] else split_on CHR '','' s)"

text \<open>The rows of \<open>enabledAdminPredicate\<close>: the roles column is the joined text, and \<^verbatim>\<open>LIKE\<close> reads
  letters of either case.\<close>

definition enabled_admin :: "account \<Rightarrow> bool" where
  "enabled_admin u \<longleftrightarrow> \<not> a_Disabled u \<and> \<not> a_Pending u
     \<and> contains ('','' @ to_lower (joinRoles (a_Roles u)) @ '','') '',admin,''"

definition CountEnabledAdmins :: "store \<Rightarrow> nat" where
  "CountEnabledAdmins st = length (filter enabled_admin (st_users st))"

definition other_admin :: "string \<Rightarrow> store \<Rightarrow> bool" where
  "other_admin uid st \<longleftrightarrow> list_ex (\<lambda>u. a_ID u \<noteq> uid \<and> enabled_admin u) (st_users st)"

definition store_CreateUser :: "time \<Rightarrow> account \<Rightarrow> bool \<Rightarrow> store \<Rightarrow> store_error + account \<times> store" where
  "store_CreateUser now u onlyIfNoAdmin st =
    (if onlyIfNoAdmin \<and> list_ex enabled_admin (st_users st) then Inl RowConflict
     else if list_ex (\<lambda>r. a_ID r = a_ID u \<or> to_lower (a_Username r) = to_lower (a_Username u)) (st_users st)
     then Inl RowConflict
     else let u' = u\<lparr>a_CreatedAt := now, a_UpdatedAt := now\<rparr>
          in Inr (u', st\<lparr>st_users := st_users st @ [u'\<lparr>a_Roles := splitRoles (joinRoles (a_Roles u))\<rparr>]\<rparr>))"

text \<open>What an update writes onto the row: the mutable columns, from the account it was handed.\<close>

definition written_row :: "time \<Rightarrow> account \<Rightarrow> account \<Rightarrow> account" where
  "written_row now u r =
    u\<lparr>a_ID := a_ID r, a_Username := a_Username r, a_WaxbinUserPID := a_WaxbinUserPID r,
      a_CreatedAt := a_CreatedAt r, a_UpdatedAt := now, a_Roles := splitRoles (joinRoles (a_Roles u))\<rparr>"

text \<open>\<open>classifyGuardedResult\<close> for a statement that changed no row; \<open>probe\<close> says its read failed.\<close>

definition classify_guarded :: "bool \<Rightarrow> string \<Rightarrow> bool \<Rightarrow> store \<Rightarrow> store_error" where
  "classify_guarded probe uid guarded st =
    (if \<not> guarded then RowNotFound
     else if \<not> probe \<and> UserByID uid st = Inl RowNotFound then RowNotFound
     else RowConflict)"

definition UpdateUser :: "bool \<Rightarrow> time \<Rightarrow> account \<Rightarrow> bool \<Rightarrow> store \<Rightarrow> store_error + store" where
  "UpdateUser probe now u guarded st =
    (if list_ex (\<lambda>r. a_ID r = a_ID u) (st_users st) \<and> (guarded \<longrightarrow> other_admin (a_ID u) st)
     then Inr (st\<lparr>st_users := map (\<lambda>r. if a_ID r = a_ID u then written_row now u r else r) (st_users st)\<rparr>)
     else Inl (classify_guarded probe (a_ID u) guarded st))"

definition store_DeleteUser :: "bool \<Rightarrow> string \<Rightarrow> bool \<Rightarrow> store \<Rightarrow> store_error + store" where
  "store_DeleteUser probe uid guarded st =
    (if list_ex (\<lambda>r. a_ID r = uid) (st_users st) \<and> (guarded \<longrightarrow> other_admin uid st)
     then Inr (st\<lparr>st_users := filter (\<lambda>r. a_ID r \<noteq> uid) (st_users st),
                  st_grants := filter (\<lambda>g. fst g \<noteq> uid) (st_grants st),
                  st_identities := filter (\<lambda>i. id_UserID i \<noteq> uid) (st_identities st),
                  st_sessions := filter (\<lambda>s. as_UserID s \<noteq> uid) (st_sessions st),
                  st_appPasswords := filter (\<lambda>a. snd a \<noteq> uid) (st_appPasswords st)\<rparr>)
     else Inl (classify_guarded probe uid guarded st))"

definition ListUsers :: "string \<Rightarrow> nat \<Rightarrow> store \<Rightarrow> account list" where
  "ListUsers after limit st =
    take limit (sort_key (\<lambda>u. to_lower (a_Username u))
      (filter (\<lambda>u. after < to_lower (a_Username u)) (st_users st)))"

definition SetLibraryGrants :: "string \<Rightarrow> string list \<Rightarrow> store \<Rightarrow> store_error + store" where
  "SetLibraryGrants uid pids st =
    (if pids \<noteq> [] \<and> UserByID uid st = Inl RowNotFound then Inl StoreFailed
     else Inr (st\<lparr>st_grants := filter (\<lambda>g. fst g \<noteq> uid) (st_grants st) @ map (Pair uid) (remdups pids)\<rparr>))"

definition LibraryGrants :: "string \<Rightarrow> store \<Rightarrow> string list" where
  "LibraryGrants uid st = sort (map snd (filter (\<lambda>g. fst g = uid) (st_grants st)))"

definition LinkIdentity :: "identity \<Rightarrow> store \<Rightarrow> store_error + store" where
  "LinkIdentity i st =
    (if UserByID (id_UserID i) st = Inl RowNotFound then Inl StoreFailed
     else if list_ex (\<lambda>r. id_Provider r = id_Provider i \<and> id_Subject r = id_Subject i) (st_identities st)
     then (if list_ex (\<lambda>r. id_Provider r = id_Provider i \<and> id_Subject r = id_Subject i
                         \<and> id_UserID r = id_UserID i) (st_identities st)
           then Inr (st\<lparr>st_identities := map (\<lambda>r. if id_Provider r = id_Provider i \<and> id_Subject r = id_Subject i
                       then r\<lparr>id_Email := id_Email i\<rparr> else r) (st_identities st)\<rparr>)
           else Inl RowConflict)
     else Inr (st\<lparr>st_identities := st_identities st @ [i]\<rparr>))"

definition IdentityBySubject :: "string \<Rightarrow> string \<Rightarrow> store \<Rightarrow> store_error + identity" where
  "IdentityBySubject provider subject st =
    (case List.find (\<lambda>r. id_Provider r = provider \<and> id_Subject r = subject) (st_identities st) of
       None \<Rightarrow> Inl RowNotFound | Some i \<Rightarrow> Inr i)"

definition IdentitiesByUser :: "string \<Rightarrow> store \<Rightarrow> identity list" where
  "IdentitiesByUser uid st = sort_key id_Provider (filter (\<lambda>i. id_UserID i = uid) (st_identities st))"

section \<open>Sessions\<close>

definition upd_session :: "string \<Rightarrow> (auth_session \<Rightarrow> auth_session) \<Rightarrow> store \<Rightarrow> store" where
  "upd_session sid f st =
    st\<lparr>st_sessions := map (\<lambda>s. if as_ID s = sid then f s else s) (st_sessions st)\<rparr>"

definition has_row :: "string \<Rightarrow> store \<Rightarrow> bool" where
  "has_row sid st \<longleftrightarrow> list_ex (\<lambda>s. as_ID s = sid) (st_sessions st)"

definition store_CreateSession :: "time \<Rightarrow> auth_session \<Rightarrow> store \<Rightarrow> store_error + auth_session \<times> store" where
  "store_CreateSession now s st =
    (if has_row (as_ID s) st \<or> list_ex (\<lambda>r. as_TokenHash r = as_TokenHash s) (st_sessions st)
     then Inl RowConflict
     else if UserByID (as_UserID s) st = Inl RowNotFound then Inl StoreFailed
     else let s' = s\<lparr>as_PrevTokenHash := None, as_RotatedAt := None, as_CreatedAt := now,
                    as_LastSeenAt := now\<rparr>
          in Inr (s', st\<lparr>st_sessions := s' # st_sessions st\<rparr>))"

definition SessionByTokenHash :: "string \<Rightarrow> store \<Rightarrow> store_error + auth_session" where
  "SessionByTokenHash hash st =
    (case List.find (\<lambda>s. as_TokenHash s = hash \<or> as_PrevTokenHash s = Some hash) (st_sessions st) of
       None \<Rightarrow> Inl RowNotFound | Some s \<Rightarrow> Inr s)"

definition SessionByID :: "string \<Rightarrow> store \<Rightarrow> store_error + auth_session" where
  "SessionByID sid st =
    (case List.find (\<lambda>s. as_ID s = sid) (st_sessions st) of
       None \<Rightarrow> Inl RowNotFound | Some s \<Rightarrow> Inr s)"

definition SessionsByUser :: "string \<Rightarrow> store \<Rightarrow> auth_session list" where
  "SessionsByUser uid st =
    sort_key (\<lambda>s. - as_CreatedAt s) (filter (\<lambda>s. as_UserID s = uid) (st_sessions st))"

definition rotated_row :: "time \<Rightarrow> string \<Rightarrow> time \<Rightarrow> auth_session \<Rightarrow> auth_session" where
  "rotated_row now newHash exp s =
    s\<lparr>as_PrevTokenHash := Some (as_TokenHash s), as_TokenHash := newHash,
      as_RotatedAt := (if now > 0 then Some now else None), as_ExpiresAt := exp\<rparr>"

definition RotateSessionToken ::
    "time \<Rightarrow> string \<Rightarrow> string \<Rightarrow> time \<Rightarrow> store \<Rightarrow> store_error + store" where
  "RotateSessionToken now sid newHash exp st =
    (if \<not> has_row sid st then Inl RowNotFound
     else if list_ex (\<lambda>s. as_ID s \<noteq> sid \<and> as_TokenHash s = newHash) (st_sessions st)
     then Inl StoreFailed
     else Inr (upd_session sid (rotated_row now newHash exp) st))"

definition ClearPrevToken :: "string \<Rightarrow> store \<Rightarrow> store" where
  "ClearPrevToken sid st = upd_session sid (\<lambda>s. s\<lparr>as_PrevTokenHash := None\<rparr>) st"

definition TouchSession :: "time \<Rightarrow> string \<Rightarrow> time \<Rightarrow> store \<Rightarrow> store" where
  "TouchSession now sid exp st =
    upd_session sid (\<lambda>s. s\<lparr>as_LastSeenAt := now, as_ExpiresAt := exp\<rparr>) st"

definition RenameSession :: "string \<Rightarrow> string \<Rightarrow> store \<Rightarrow> store_error + store" where
  "RenameSession sid name st =
    (if has_row sid st then Inr (upd_session sid (\<lambda>s. s\<lparr>as_DeviceName := name\<rparr>) st)
     else Inl RowNotFound)"

definition DeleteSession :: "string \<Rightarrow> store \<Rightarrow> store_error + store" where
  "DeleteSession sid st =
    (if has_row sid st
     then Inr (st\<lparr>st_sessions := filter (\<lambda>s. as_ID s \<noteq> sid) (st_sessions st)\<rparr>)
     else Inl RowNotFound)"

definition DeleteUserSessions :: "string \<Rightarrow> string \<Rightarrow> store \<Rightarrow> store" where
  "DeleteUserSessions uid keep st =
    st\<lparr>st_sessions := filter (\<lambda>s. \<not> (as_UserID s = uid \<and> as_ID s \<noteq> keep)) (st_sessions st)\<rparr>"

text \<open>The statement of \<open>SweepExpired\<close> on the sessions; its other tables are not modelled.\<close>

definition SweepExpired :: "time \<Rightarrow> store \<Rightarrow> store" where
  "SweepExpired now st =
    st\<lparr>st_sessions := filter (\<lambda>s. \<not> as_ExpiresAt s < now) (st_sessions st)\<rparr>"

section \<open>Invites, app passwords and counters\<close>

definition InsertInvite :: "invite \<Rightarrow> store \<Rightarrow> store_error + store" where
  "InsertInvite iv st =
    (if list_ex (\<lambda>r. iv_ID r = iv_ID iv \<or> iv_TokenHash r = iv_TokenHash iv) (st_invites st)
     then Inl StoreFailed
     else Inr (st\<lparr>st_invites := st_invites st @ [iv\<lparr>iv_Roles := splitRoles (joinRoles (iv_Roles iv))\<rparr>]\<rparr>))"

definition InviteByID :: "string \<Rightarrow> store \<Rightarrow> store_error + invite" where
  "InviteByID iid st =
    (case List.find (\<lambda>r. iv_ID r = iid) (st_invites st) of None \<Rightarrow> Inl RowNotFound | Some r \<Rightarrow> Inr r)"

definition store_RevokeInvite :: "string \<Rightarrow> store \<Rightarrow> store_error + store" where
  "store_RevokeInvite iid st =
    (if list_ex (\<lambda>r. iv_ID r = iid) (st_invites st)
     then Inr (st\<lparr>st_invites := map (\<lambda>r. if iv_ID r = iid then r\<lparr>iv_Revoked := True\<rparr> else r) (st_invites st)\<rparr>)
     else Inl RowNotFound)"

definition invite_live :: "time \<Rightarrow> string \<Rightarrow> invite \<Rightarrow> bool" where
  "invite_live now hash r \<longleftrightarrow> iv_TokenHash r = hash \<and> \<not> iv_Revoked r
     \<and> (iv_ExpiresAtNS r = 0 \<or> now < iv_ExpiresAtNS r) \<and> (iv_MaxUses r = 0 \<or> iv_UsedCount r < iv_MaxUses r)"

definition use_invite :: "invite \<Rightarrow> invite" where
  "use_invite r = r\<lparr>iv_UsedCount := iv_UsedCount r + 1\<rparr>"

definition ConsumeInvite :: "time \<Rightarrow> string \<Rightarrow> store \<Rightarrow> store_error + invite \<times> store" where
  "ConsumeInvite now hash st =
    (case List.find (invite_live now hash) (st_invites st) of
       None \<Rightarrow> Inl RowNotFound
     | Some r \<Rightarrow> Inr (use_invite r,
         st\<lparr>st_invites := map (\<lambda>r. if invite_live now hash r then use_invite r else r) (st_invites st)\<rparr>))"

definition UnconsumeInvite :: "string \<Rightarrow> store \<Rightarrow> store" where
  "UnconsumeInvite iid st =
    st\<lparr>st_invites := map (\<lambda>r. if iv_ID r = iid \<and> 0 < iv_UsedCount r
                             then r\<lparr>iv_UsedCount := iv_UsedCount r - 1\<rparr> else r) (st_invites st)\<rparr>"

definition AppPasswordHeld :: "string \<Rightarrow> string \<Rightarrow> store \<Rightarrow> bool" where
  "AppPasswordHeld uid aid st \<longleftrightarrow> list_ex (\<lambda>a. a = (aid, uid)) (st_appPasswords st)"

definition SyncStateGet :: "string \<Rightarrow> store \<Rightarrow> string" where
  "SyncStateGet key st = (case st_syncState st key of None \<Rightarrow> '''' | Some v \<Rightarrow> v)"

text \<open>\<^verbatim>\<open>CAST(value AS INTEGER)\<close> of text: the longest prefix that is a number, zero when there is
  none.\<close>

definition sql_integer :: "string \<Rightarrow> int" where
  "sql_integer v =
    (let s = dropWhile is_space v;
         (neg, t) = (case s of [] \<Rightarrow> (False, [])
                     | c # r \<Rightarrow> if c = CHR ''-'' then (True, r) else if c = CHR ''+'' then (False, r) else (False, s));
         n = digits_val (takeWhile is_digit t)
     in if neg then - n else n)"

definition SyncStateIncrement :: "string \<Rightarrow> store \<Rightarrow> store" where
  "SyncStateIncrement key st =
    st\<lparr>st_syncState := (st_syncState st)(key \<mapsto>
      (case st_syncState st key of None \<Rightarrow> ''1'' | Some v \<Rightarrow> FormatInt (sql_integer v + 1)))\<rparr>"

section \<open>Facts about the statements\<close>

lemma upd_session_simps [simp]:
  "st_users (upd_session sid f st) = st_users st"
  "st_sessions (upd_session sid f st) = map (\<lambda>s. if as_ID s = sid then f s else s) (st_sessions st)"
  by (simp_all add: upd_session_def)

lemma has_row_iff: "has_row sid st \<longleftrightarrow> sid \<in> as_ID ` set (st_sessions st)"
  by (auto simp: has_row_def list_ex_iff)

lemma map_ids: "(\<And>s. as_ID (f s) = as_ID s) \<Longrightarrow>
    map as_ID (map (\<lambda>s. if as_ID s = sid then f s else s) xs) = map as_ID xs"
  by simp

lemma distinct_ids_filter: "distinct (map as_ID xs) \<Longrightarrow> distinct (map as_ID (filter P xs))"
  by (rule distinct_map_filter)

lemma store_CreateSession_Inr:
  assumes "store_CreateSession now s st = Inr (s', st')"
  shows "st_sessions st' = s' # st_sessions st" "as_ID s' = as_ID s" "as_TokenHash s' = as_TokenHash s"
    "as_PrevTokenHash s' = None" "as_ID s \<notin> as_ID ` set (st_sessions st)" "st_users st' = st_users st"
    "as_UserID s' = as_UserID s" "as_Kind s' = as_Kind s" "as_ExpiresAt s' = as_ExpiresAt s"
    "as_LastSeenAt s' = now" "as_CreatedAt s' = now"
  using assms by (auto simp: store_CreateSession_def Let_def has_row_iff split: if_splits)

lemma RotateSessionToken_Inr:
  assumes "RotateSessionToken now sid hash exp st = Inr st'"
  shows "st' = upd_session sid (rotated_row now hash exp) st" "sid \<in> as_ID ` set (st_sessions st)"
  using assms by (auto simp: RotateSessionToken_def has_row_iff split: if_splits)


lemma UserByID_cong: "st_users a = st_users b \<Longrightarrow> UserByID uid a = UserByID uid b"
  by (simp add: UserByID_def)

lemma UserByID_Inl [simp]:
  "UserByID uid st \<noteq> Inl RowConflict" "UserByID uid st \<noteq> Inl StoreFailed"
  by (auto simp: UserByID_def split: option.split)

lemma UserByID_InrD: "UserByID uid st = Inr u \<Longrightarrow> u \<in> set (st_users st) \<and> a_ID u = uid"
  by (auto simp: UserByID_def find_Some_iff split: option.splits)

lemma UserByID_InlD: "UserByID uid st = Inl e \<Longrightarrow> e = RowNotFound \<and> uid \<notin> a_ID ` set (st_users st)"
  by (auto simp: UserByID_def find_None_iff split: option.splits)

lemma session_statements_users [simp]:
  "st_users (ClearPrevToken sid st) = st_users st" "st_users (TouchSession now sid e st) = st_users st"
  "UserByID uid (upd_session sid f st) = UserByID uid st"
  "UserByID uid (ClearPrevToken sid st) = UserByID uid st"
  "UserByID uid (TouchSession now sid e st) = UserByID uid st"
  by (simp_all add: UserByID_def ClearPrevToken_def TouchSession_def)

end
