(* ===== verification/Sessions.thy ===== *)
theory Sessions
  imports Store "HOL-Library.Multiset"
begin

text \<open>
  Sign-in sessions: the rows of the store (db/sessions.go, the \<^verbatim>\<open>sessions\<close> table of db/db.go) and
  the manager over them (auth/sessions.go).

  The store is a list of rows, in no order an answer relies on, beside the account rows.  Every
  statement takes the clock it reads; a manager operation that reads the clock itself and runs a
  statement that reads it again takes both readings.  \<open>broken\<close> says which statements of an
  operation fail, \<open>h\<close> is the digest of a token, and the random bytes an operation draws are
  arguments, \<^const>\<open>None\<close> where the draw fails.
\<close>

section \<open>The manager\<close>

definition webSessionTTL :: duration where "webSessionTTL = 14 * 24 * hour"
definition deviceSessionTTL :: duration where "deviceSessionTTL = 90 * 24 * hour"
definition touchInterval :: duration where "touchInterval = 5 * minute"
definition rotateOverlap :: duration where "rotateOverlap = 30 * second"
definition DefaultSessionCap :: int where "DefaultSessionCap = 250"

definition session_ttl :: "string \<Rightarrow> duration" where
  "session_ttl kind = (if kind = ''device'' then deviceSessionTTL else webSessionTTL)"

record principal =
  pr_User :: account
  pr_Session :: auth_session
  pr_FromCookie :: bool

definition IsAdmin :: "principal \<Rightarrow> bool" where
  "IsAdmin p \<longleftrightarrow> list_ex (\<lambda>r. r = ''admin'') (a_Roles (pr_User p))"

record revoke_event =
  re_SessionID :: string
  re_UserID :: string
  re_KeepID :: string

text \<open>\<open>se_heard\<close> is what the listeners were called with, in order.\<close>

record sessions =
  se_store :: store
  se_cap :: int
  se_onRevoke :: "string list"
  se_heard :: "(string \<times> revoke_event) list"

definition NewSessions :: "store \<Rightarrow> sessions" where
  "NewSessions st = \<lparr>se_store = st, se_cap = DefaultSessionCap, se_onRevoke = [], se_heard = []\<rparr>"

definition LimitPerAccount :: "int \<Rightarrow> sessions \<Rightarrow> sessions" where
  "LimitPerAccount n s = (if n > 0 then s\<lparr>se_cap := n\<rparr> else s)"

definition OnRevoke :: "string \<Rightarrow> sessions \<Rightarrow> sessions" where
  "OnRevoke fn s = s\<lparr>se_onRevoke := se_onRevoke s @ [fn]\<rparr>"

definition notify :: "revoke_event \<Rightarrow> sessions \<Rightarrow> sessions" where
  "notify e s = s\<lparr>se_heard := se_heard s @ map (\<lambda>fn. (fn, e)) (se_onRevoke s)\<rparr>"

definition Alive :: "(store_call \<Rightarrow> bool) \<Rightarrow> time \<Rightarrow> string \<Rightarrow> store \<Rightarrow> store_error + bool" where
  "Alive broken now sid st =
    (if sid = '''' then Inr False
     else case (if broken CSessionByID then Inl StoreFailed else SessionByID sid st) of
       Inl RowNotFound \<Rightarrow> Inr False
     | Inl e \<Rightarrow> Inl e
     | Inr sess \<Rightarrow>
         if \<not> now < as_ExpiresAt sess then Inr False
         else case (if broken CUserByID then Inl StoreFailed else UserByID (as_UserID sess) st) of
           Inl RowNotFound \<Rightarrow> Inr False
         | Inl e \<Rightarrow> Inl e
         | Inr user \<Rightarrow> Inr (\<not> a_Disabled user \<and> \<not> a_Pending user))"

text \<open>A token and its digest, from 32 random bytes.\<close>

definition newToken :: "(string \<Rightarrow> string) \<Rightarrow> string option \<Rightarrow> (string \<times> string) option" where
  "newToken h entropy = map_option (\<lambda>buf. (encode buf, h (encode buf))) entropy"

definition Revoke :: "(store_call \<Rightarrow> bool) \<Rightarrow> string \<Rightarrow> sessions \<Rightarrow> store_error option \<times> sessions" where
  "Revoke broken sid s =
    (let e = \<lparr>re_SessionID = sid, re_UserID = '''', re_KeepID = ''''\<rparr> in
     case (if broken CDelete then Inl StoreFailed else DeleteSession sid (se_store s)) of
       Inr st' \<Rightarrow> (None, notify e (s\<lparr>se_store := st'\<rparr>))
     | Inl RowNotFound \<Rightarrow> (Some RowNotFound, notify e s)
     | Inl err \<Rightarrow> (Some err, s))"

definition RevokeAllForUser ::
    "(store_call \<Rightarrow> bool) \<Rightarrow> string \<Rightarrow> string \<Rightarrow> sessions \<Rightarrow> store_error option \<times> sessions" where
  "RevokeAllForUser broken uid keep s =
    (if broken CDeleteUserSessions then (Some StoreFailed, s)
     else (None, notify \<lparr>re_SessionID = '''', re_UserID = uid, re_KeepID = keep\<rparr>
             (s\<lparr>se_store := DeleteUserSessions uid keep (se_store s)\<rparr>)))"

definition Rename :: "(store_call \<Rightarrow> bool) \<Rightarrow> string \<Rightarrow> string \<Rightarrow> sessions \<Rightarrow> store_error option \<times> sessions" where
  "Rename broken sid name s =
    (if broken CRename then (Some StoreFailed, s)
     else case RenameSession sid name (se_store s) of
       Inl e \<Rightarrow> (Some e, s) | Inr st' \<Rightarrow> (None, s\<lparr>se_store := st'\<rparr>))"

definition ListForUser ::
    "(store_call \<Rightarrow> bool) \<Rightarrow> time \<Rightarrow> string \<Rightarrow> store \<Rightarrow> store_error + auth_session list" where
  "ListForUser broken now uid st =
    (if broken CSessionsByUser then Inl StoreFailed
     else Inr (filter (\<lambda>s. now < as_ExpiresAt s) (SessionsByUser uid st)))"

definition get_auth_session :: "(store_call \<Rightarrow> bool) \<Rightarrow> string \<Rightarrow> store \<Rightarrow> store_error + auth_session" where
  "get_auth_session broken sid st =
    (if broken CSessionByID then Inl StoreFailed else SessionByID sid st)"

fun revoke_each ::
    "(store_call \<Rightarrow> bool) \<Rightarrow> string \<Rightarrow> auth_session list \<Rightarrow> sessions \<Rightarrow> sessions" where
  "revoke_each broken keep [] s = s"
| "revoke_each broken keep (x # xs) s =
    (if as_ID x = keep then revoke_each broken keep xs s
     else case Revoke broken (as_ID x) s of
       (Some RowNotFound, s') \<Rightarrow> revoke_each broken keep xs s'
     | (Some e, s') \<Rightarrow> s'
     | (None, s') \<Rightarrow> revoke_each broken keep xs s')"

text \<open>\<open>seen\<close> is the order the sort by last use leaves: the sort is not stable.\<close>

definition enforceCap ::
    "(auth_session list \<Rightarrow> auth_session list) \<Rightarrow> (store_call \<Rightarrow> bool) \<Rightarrow> time \<Rightarrow> string \<Rightarrow> string
      \<Rightarrow> sessions \<Rightarrow> sessions" where
  "enforceCap seen broken now uid keep s =
    (case ListForUser broken now uid (se_store s) of
       Inl e \<Rightarrow> s
     | Inr live \<Rightarrow>
         if int (length live) \<le> se_cap s then s
         else revoke_each broken keep (take (length live - nat (se_cap s)) (seen live)) s)"

record created =
  cr_Session :: auth_session
  cr_Token :: string
  cr_CSRFToken :: string

text \<open>\<open>now\<close> is read for the expiry, \<open>now'\<close> by the insert, \<open>now''\<close> by the listing of the cap.\<close>

definition Create ::
    "(string \<Rightarrow> string) \<Rightarrow> (auth_session list \<Rightarrow> auth_session list) \<Rightarrow> (store_call \<Rightarrow> bool)
      \<Rightarrow> string option \<Rightarrow> string option \<Rightarrow> string \<Rightarrow> time \<Rightarrow> time \<Rightarrow> time
      \<Rightarrow> string \<Rightarrow> string \<Rightarrow> string \<Rightarrow> string \<Rightarrow> sessions \<Rightarrow> (store_error + created) \<times> sessions" where
  "Create h seen broken entropy entropy' ulid now now' now'' userID kind deviceName client s =
    (case (newToken h entropy, newToken h entropy') of
       (Some (token, hash), Some (csrf, _)) \<Rightarrow>
        (let sess = \<lparr>as_ID = ''se-'' @ ulid, as_UserID = userID, as_Kind = kind, as_TokenHash = hash,
                     as_PrevTokenHash = None, as_RotatedAt = None, as_CSRFToken = csrf,
                     as_DeviceName = deviceName, as_Client = client, as_CreatedAt = zero_time,
                     as_LastSeenAt = zero_time, as_ExpiresAt = now + session_ttl kind\<rparr>
         in case (if broken CCreateSession then Inl StoreFailed
                  else store_CreateSession now' sess (se_store s)) of
              Inl e \<Rightarrow> (Inl e, s)
            | Inr (sess', st') \<Rightarrow>
                (Inr \<lparr>cr_Session = sess', cr_Token = token, cr_CSRFToken = csrf\<rparr>,
                 enforceCap seen broken now'' userID (as_ID sess') (s\<lparr>se_store := st'\<rparr>)))
     | _ \<Rightarrow> (Inl StoreFailed, s))"

text \<open>\<open>LookupToken\<close> from the account read on.\<close>

definition lookup_account ::
    "(store_call \<Rightarrow> bool) \<Rightarrow> time \<Rightarrow> time \<Rightarrow> auth_session \<Rightarrow> store
      \<Rightarrow> (store_error + principal option) \<times> store" where
  "lookup_account broken now now' sess st =
    (case (if broken CUserByID then Inl StoreFailed else UserByID (as_UserID sess) st) of
       Inl RowNotFound \<Rightarrow> (Inr None, st)
     | Inl e \<Rightarrow> (Inl e, st)
     | Inr user \<Rightarrow>
         if a_Disabled user then (Inr None, st)
         else let p = \<lparr>pr_User = user, pr_Session = sess, pr_FromCookie = False\<rparr> in
           if time_sub now (as_LastSeenAt sess) > touchInterval
           then (if broken CTouch then (Inl StoreFailed, st)
                 else (Inr (Some p), TouchSession now' (as_ID sess) (now + session_ttl (as_Kind sess)) st))
           else (Inr (Some p), st))"

definition LookupToken ::
    "(string \<Rightarrow> string) \<Rightarrow> (store_call \<Rightarrow> bool) \<Rightarrow> time \<Rightarrow> time \<Rightarrow> string \<Rightarrow> store
      \<Rightarrow> (store_error + principal option) \<times> store" where
  "LookupToken h broken now now' token st =
    (let hash = h token in
     case (if broken CSessionByTokenHash then Inl StoreFailed else SessionByTokenHash hash st) of
       Inl RowNotFound \<Rightarrow> (Inr None, st)
     | Inl e \<Rightarrow> (Inl e, st)
     | Inr sess \<Rightarrow>
         if now > as_ExpiresAt sess then (Inr None, st)
         else case as_PrevTokenHash sess of
           None \<Rightarrow> lookup_account broken now now' sess st
         | Some prev \<Rightarrow>
             if hash = prev
             then (case as_RotatedAt sess of
                     None \<Rightarrow> (Inr None, st)
                   | Some r \<Rightarrow> if now > r + rotateOverlap then (Inr None, st)
                               else lookup_account broken now now' sess st)
             else (case as_RotatedAt sess of
                     None \<Rightarrow> lookup_account broken now now' sess st
                   | Some r \<Rightarrow>
                       if now > r + rotateOverlap
                       then (if broken CClearPrev then (Inl StoreFailed, st)
                             else lookup_account broken now now' sess (ClearPrevToken (as_ID sess) st))
                       else lookup_account broken now now' sess st))"

definition Rotate ::
    "(string \<Rightarrow> string) \<Rightarrow> (store_call \<Rightarrow> bool) \<Rightarrow> string option \<Rightarrow> time \<Rightarrow> time \<Rightarrow> auth_session \<Rightarrow> store
      \<Rightarrow> (store_error + string) \<times> store" where
  "Rotate h broken entropy now now' sess st =
    (case newToken h entropy of
       None \<Rightarrow> (Inl StoreFailed, st)
     | Some (token, hash) \<Rightarrow>
        (case (if broken CRotateToken then Inl StoreFailed
               else RotateSessionToken now' (as_ID sess) hash (now + session_ttl (as_Kind sess)) st) of
           Inl e \<Rightarrow> (Inl e, st)
         | Inr st' \<Rightarrow> (Inr token, st')))"


section \<open>Runs of statements\<close>

text \<open>
  The store under any interleaving of the operations: one step is one statement, with whatever
  arguments the operation that runs it computed, or one on the other tables, which may take the
  rows of an account that is gone with it.  The ledger adds to
  the store which digest was handed out for which session.  Session ids and token digests are
  fresh: they are drawn from 80 and 256 random bits.
\<close>

record ledger =
  lg_store :: store
  lg_issued :: "(string \<times> string) set"

inductive store_step :: "ledger \<Rightarrow> ledger \<Rightarrow> bool" where
  create: "store_CreateSession now s (lg_store l) = Inr (s', st') \<Longrightarrow>
    as_TokenHash s \<notin> fst ` lg_issued l \<Longrightarrow> as_ID s \<notin> snd ` lg_issued l \<Longrightarrow>
    store_step l (l\<lparr>lg_store := st', lg_issued := insert (as_TokenHash s, as_ID s) (lg_issued l)\<rparr>)"
| rotate: "RotateSessionToken now sid hash exp (lg_store l) = Inr st' \<Longrightarrow>
    hash \<notin> fst ` lg_issued l \<Longrightarrow>
    store_step l (l\<lparr>lg_store := st', lg_issued := insert (hash, sid) (lg_issued l)\<rparr>)"
| clear: "store_step l (l\<lparr>lg_store := ClearPrevToken sid (lg_store l)\<rparr>)"
| touch: "store_step l (l\<lparr>lg_store := TouchSession now sid exp (lg_store l)\<rparr>)"
| rename: "RenameSession sid name (lg_store l) = Inr st' \<Longrightarrow> store_step l (l\<lparr>lg_store := st'\<rparr>)"
| delete: "DeleteSession sid (lg_store l) = Inr st' \<Longrightarrow> store_step l (l\<lparr>lg_store := st'\<rparr>)"
| delete_user: "store_step l (l\<lparr>lg_store := DeleteUserSessions uid keep (lg_store l)\<rparr>)"
| sweep: "store_step l (l\<lparr>lg_store := SweepExpired now (lg_store l)\<rparr>)"
| accounts: "st_sessions st' = filter kept (st_sessions (lg_store l)) \<Longrightarrow> store_step l (l\<lparr>lg_store := st'\<rparr>)"

definition ledger_start :: "ledger \<Rightarrow> bool" where
  "ledger_start l \<longleftrightarrow> st_sessions (lg_store l) = [] \<and> lg_issued l = {}"

definition row_ok :: "(string \<times> string) set \<Rightarrow> auth_session \<Rightarrow> bool" where
  "row_ok issued s \<longleftrightarrow> (as_TokenHash s, as_ID s) \<in> issued
     \<and> (\<forall>p. as_PrevTokenHash s = Some p \<longrightarrow> (p, as_ID s) \<in> issued \<and> p \<noteq> as_TokenHash s)"

definition ledger_ok :: "ledger \<Rightarrow> bool" where
  "ledger_ok l \<longleftrightarrow> (\<forall>s \<in> set (st_sessions (lg_store l)). row_ok (lg_issued l) s)
     \<and> distinct (map as_ID (st_sessions (lg_store l)))
     \<and> (\<forall>h a b. (h, a) \<in> lg_issued l \<longrightarrow> (h, b) \<in> lg_issued l \<longrightarrow> a = b)"

lemma row_ok_mono: "row_ok issued s \<Longrightarrow> issued \<subseteq> issued' \<Longrightarrow> row_ok issued' s"
  by (auto simp: row_ok_def)

lemma ledger_ok_sub:
  assumes "ledger_ok l" "st_sessions st' = filter P (st_sessions (lg_store l))"
  shows "ledger_ok (l\<lparr>lg_store := st'\<rparr>)"
  using assms by (auto simp: ledger_ok_def distinct_ids_filter)

lemma ledger_ok_upd:
  assumes "ledger_ok l"
    and "\<And>s. as_ID (f s) = as_ID s \<and> as_TokenHash (f s) = as_TokenHash s
      \<and> (as_PrevTokenHash (f s) = as_PrevTokenHash s \<or> as_PrevTokenHash (f s) = None)"
  shows "ledger_ok (l\<lparr>lg_store := upd_session sid f (lg_store l)\<rparr>)"
proof -
  have "row_ok (lg_issued l) (f s)" if "row_ok (lg_issued l) s" for s
    using that assms(2) [of s] by (auto simp: row_ok_def)
  with assms show ?thesis by (auto simp: ledger_ok_def map_ids simp del: map_map)
qed

lemma ledger_ok_start: "ledger_start l \<Longrightarrow> ledger_ok l"
  by (simp add: ledger_start_def ledger_ok_def)

lemma ledger_ok_step: "store_step l l' \<Longrightarrow> ledger_ok l \<Longrightarrow> ledger_ok l'"
proof (induction rule: store_step.induct)
  case (create now s l s' st')
  note c = store_CreateSession_Inr(1-5) [OF create(1)]
  from create(4) have "\<forall>r \<in> set (st_sessions (lg_store l)).
      row_ok (insert (as_TokenHash s, as_ID s) (lg_issued l)) r"
    by (auto simp: ledger_ok_def intro: row_ok_mono)
  moreover have "row_ok (insert (as_TokenHash s, as_ID s) (lg_issued l)) s'"
    using c by (simp add: row_ok_def)
  moreover have "\<forall>a b. (as_TokenHash s, a) \<in> lg_issued l \<longrightarrow> False" using create(2) by force
  ultimately show ?case using create(4) c by (auto simp: ledger_ok_def)
next
  case (rotate now sid hash exp l st')
  define f where "f = rotated_row now hash exp"
  have st': "st' = upd_session sid f (lg_store l)"
    using RotateSessionToken_Inr(1) [OF rotate(1)] by (simp add: f_def)
  have fresh: "(hash, a) \<notin> lg_issued l" for a using rotate(2) by force
  have "row_ok (insert (hash, sid) (lg_issued l)) (f s)" if "row_ok (lg_issued l) s" "as_ID s = sid" for s
    using that fresh by (auto simp: row_ok_def f_def rotated_row_def)
  moreover have "map as_ID (map (\<lambda>s. if as_ID s = sid then f s else s) xs) = map as_ID xs" for xs
    by (rule map_ids) (simp add: f_def rotated_row_def)
  ultimately show ?case
    using rotate(3) fresh by (auto simp: ledger_ok_def st' intro: row_ok_mono simp del: map_map)
next
  case (clear l sid)
  then show ?case unfolding ClearPrevToken_def by (intro ledger_ok_upd) auto
next
  case (touch l now sid exp)
  then show ?case unfolding TouchSession_def by (intro ledger_ok_upd) auto
next
  case (rename sid name l st')
  then show ?case by (auto simp: RenameSession_def intro!: ledger_ok_upd split: if_splits)
next
  case (delete sid l st')
  then show ?case by (auto simp: DeleteSession_def intro!: ledger_ok_sub split: if_splits)
next
  case (delete_user l uid keep)
  then show ?case by (intro ledger_ok_sub) (auto simp: DeleteUserSessions_def)
next
  case (sweep l now)
  then show ?case by (intro ledger_ok_sub) (auto simp: SweepExpired_def)
next
  case (accounts st' kept l)
  then show ?case by (intro ledger_ok_sub) auto
qed


interpretation ledger: transition_system ledger_start store_step ledger_ok
  by unfold_locales (auto intro: ledger_ok_start ledger_ok_step)

section \<open>What a token authenticates\<close>

definition credential_live :: "(string \<Rightarrow> string) \<Rightarrow> time \<Rightarrow> string \<Rightarrow> auth_session \<Rightarrow> bool" where
  "credential_live h now token s \<longleftrightarrow> now \<le> as_ExpiresAt s
     \<and> (as_TokenHash s = h token
        \<or> as_PrevTokenHash s = Some (h token)
          \<and> (case as_RotatedAt s of None \<Rightarrow> False | Some r \<Rightarrow> now \<le> r + rotateOverlap))"

lemma ledger_owner:
  assumes "ledger_ok l" "s \<in> set (st_sessions (lg_store l))"
    "as_TokenHash s = hash \<or> as_PrevTokenHash s = Some hash"
  shows "(hash, as_ID s) \<in> lg_issued l"
  using assms by (auto simp: ledger_ok_def row_ok_def)

lemma ledger_find:
  assumes ok: "ledger_ok l" and s: "s \<in> set (st_sessions (lg_store l))"
    "as_TokenHash s = hash \<or> as_PrevTokenHash s = Some hash"
  shows "SessionByTokenHash hash (lg_store l) = Inr s"
proof -
  let ?P = "\<lambda>s. as_TokenHash s = hash \<or> as_PrevTokenHash s = Some hash"
  obtain r where r: "List.find ?P (st_sessions (lg_store l)) = Some r"
    using s by (cases "List.find ?P (st_sessions (lg_store l))") (auto simp: find_None_iff)
  then have "r \<in> set (st_sessions (lg_store l))" "?P r"
    by (auto simp: find_Some_iff)
  with ledger_owner [OF ok] s have "as_ID r = as_ID s"
    using ok unfolding ledger_ok_def by blast
  with ok s(1) \<open>r \<in> _\<close> have "r = s"
    unfolding ledger_ok_def by (metis distinct_map inj_onD)
  with r show ?thesis by (simp add: SessionByTokenHash_def)
qed

lemma SessionByTokenHash_Inr:
  "SessionByTokenHash hash st = Inr s \<Longrightarrow>
    s \<in> set (st_sessions st) \<and> (as_TokenHash s = hash \<or> as_PrevTokenHash s = Some hash)"
  by (auto simp: SessionByTokenHash_def find_Some_iff split: option.splits)

lemma lookup_account_Some:
  "lookup_account broken now now' sess st = (Inr (Some p), st') \<Longrightarrow>
    pr_Session p = sess \<and> UserByID (as_UserID sess) st = Inr (pr_User p) \<and> \<not> a_Disabled (pr_User p)"
  by (auto simp: lookup_account_def Let_def split: if_splits sum.splits store_error.splits)

lemma Lookup_Some:
  assumes "LookupToken h broken now now' token st = (Inr (Some p), st')"
  shows "SessionByTokenHash (h token) st = Inr (pr_Session p)"
    "UserByID (as_UserID (pr_Session p)) st = Inr (pr_User p)" "\<not> a_Disabled (pr_User p)"
    "now \<le> as_ExpiresAt (pr_Session p)"
    "as_PrevTokenHash (pr_Session p) = Some (h token) \<Longrightarrow>
      \<exists>r. as_RotatedAt (pr_Session p) = Some r \<and> now \<le> r + rotateOverlap"
proof -
  from assms obtain s where s: "SessionByTokenHash (h token) st = Inr s" "now \<le> as_ExpiresAt s"
    by (auto simp: LookupToken_def Let_def split: if_splits sum.splits store_error.splits)
  with assms have "pr_Session p = s \<and> UserByID (as_UserID s) st = Inr (pr_User p)
      \<and> \<not> a_Disabled (pr_User p)
      \<and> (as_PrevTokenHash s = Some (h token) \<longrightarrow> (\<exists>r. as_RotatedAt s = Some r \<and> now \<le> r + rotateOverlap))"
    by (auto simp: LookupToken_def Let_def split: if_splits option.splits dest: lookup_account_Some)
  with s show "SessionByTokenHash (h token) st = Inr (pr_Session p)"
    "UserByID (as_UserID (pr_Session p)) st = Inr (pr_User p)" "\<not> a_Disabled (pr_User p)"
    "now \<le> as_ExpiresAt (pr_Session p)"
    "as_PrevTokenHash (pr_Session p) = Some (h token) \<Longrightarrow>
      \<exists>r. as_RotatedAt (pr_Session p) = Some r \<and> now \<le> r + rotateOverlap" by auto
qed

lemma Lookup_live:
  assumes "SessionByTokenHash (h token) st = Inr s" "credential_live h now token s"
    "as_PrevTokenHash s \<noteq> Some (as_TokenHash s)"
    "UserByID (as_UserID s) st = Inr u" "\<not> a_Disabled u"
  shows "\<exists>st'. LookupToken h (\<lambda>_. False) now now' token st =
    (Inr (Some \<lparr>pr_User = u, pr_Session = s, pr_FromCookie = False\<rparr>), st')"
proof -
  have "\<exists>st2. lookup_account (\<lambda>_. False) now now' s st1 =
      (Inr (Some \<lparr>pr_User = u, pr_Session = s, pr_FromCookie = False\<rparr>), st2)"
    if "UserByID (as_UserID s) st1 = Inr u" for st1
    using that assms(5) by (simp add: lookup_account_def Let_def)
  with assms show ?thesis
    by (auto simp: LookupToken_def credential_live_def Let_def split: option.splits)
qed

section \<open>Claims\<close>

text \<open>What the rows say of a token, in every reachable state.\<close>

lemma lookup_by_row:
  assumes "ledger_start l0" "store_step\<^sup>*\<^sup>* l0 l"
  shows "(\<exists>p st'. LookupToken h (\<lambda>_. False) now now' token (lg_store l) = (Inr (Some p), st')
      \<and> pr_Session p = s \<and> pr_User p = u)
    \<longleftrightarrow> s \<in> set (st_sessions (lg_store l)) \<and> credential_live h now token s
      \<and> UserByID (as_UserID s) (lg_store l) = Inr u \<and> \<not> a_Disabled u" (is "?L \<longleftrightarrow> ?R")
proof
  have ok: "ledger_ok l" by (rule ledger.inv_reachable [OF assms])
  show ?R if ?L
  proof -
    from that obtain p st' where p: "LookupToken h (\<lambda>_. False) now now' token (lg_store l) = (Inr (Some p), st')"
      "pr_Session p = s" "pr_User p = u" by blast
    note f = Lookup_Some [OF p(1), unfolded p(2,3)]
    from SessionByTokenHash_Inr [OF f(1)] f show ?R
      by (auto simp: credential_live_def)
  qed
  show ?L if ?R
  proof -
    from that have s: "as_TokenHash s = h token \<or> as_PrevTokenHash s = Some (h token)"
      by (auto simp: credential_live_def)
    from ok that have "as_PrevTokenHash s \<noteq> Some (as_TokenHash s)"
      by (auto simp: ledger_ok_def row_ok_def)
    moreover have "SessionByTokenHash (h token) (lg_store l) = Inr s"
      using that by (intro ledger_find [OF ok _ s]) auto
    ultimately show ?L using Lookup_live [of h token "lg_store l" s now u now'] that by fastforce
  qed
qed

text \<open>
  The history of the tokens: which digest was handed out for which session, by which rotation, and
  the clearing statements, newest first.  The other statements hand out nothing.
\<close>

datatype session_event =
    Created string string
  | Rotated time string string
  | Cleared string

inductive quiet_step :: "ledger \<Rightarrow> ledger \<Rightarrow> bool" where
  "quiet_step l (l\<lparr>lg_store := TouchSession now sid exp (lg_store l)\<rparr>)"
| "RenameSession sid name (lg_store l) = Inr st' \<Longrightarrow> quiet_step l (l\<lparr>lg_store := st'\<rparr>)"
| "DeleteSession sid (lg_store l) = Inr st' \<Longrightarrow> quiet_step l (l\<lparr>lg_store := st'\<rparr>)"
| "quiet_step l (l\<lparr>lg_store := DeleteUserSessions uid keep (lg_store l)\<rparr>)"
| "quiet_step l (l\<lparr>lg_store := SweepExpired now (lg_store l)\<rparr>)"
| "st_sessions st' = filter kept (st_sessions (lg_store l)) \<Longrightarrow> quiet_step l (l\<lparr>lg_store := st'\<rparr>)"

inductive told :: "ledger \<Rightarrow> session_event list \<Rightarrow> ledger \<Rightarrow> bool" for l0 where
  begun: "told l0 [] l0"
| create: "told l0 es l \<Longrightarrow> store_CreateSession now s (lg_store l) = Inr (s', st') \<Longrightarrow>
    as_TokenHash s \<notin> fst ` lg_issued l \<Longrightarrow> as_ID s \<notin> snd ` lg_issued l \<Longrightarrow>
    told l0 (Created (as_ID s) (as_TokenHash s) # es)
      (l\<lparr>lg_store := st', lg_issued := insert (as_TokenHash s, as_ID s) (lg_issued l)\<rparr>)"
| rotate: "told l0 es l \<Longrightarrow> RotateSessionToken now sid hash exp (lg_store l) = Inr st' \<Longrightarrow>
    hash \<notin> fst ` lg_issued l \<Longrightarrow>
    told l0 (Rotated now sid hash # es) (l\<lparr>lg_store := st', lg_issued := insert (hash, sid) (lg_issued l)\<rparr>)"
| clear: "told l0 es l \<Longrightarrow> told l0 (Cleared sid # es) (l\<lparr>lg_store := ClearPrevToken sid (lg_store l)\<rparr>)"
| other: "told l0 es l \<Longrightarrow> quiet_step l l' \<Longrightarrow> told l0 es l'"

fun present_token :: "session_event list \<Rightarrow> string \<Rightarrow> string option" where
  "present_token [] sid = None"
| "present_token (Created i hash # es) sid = (if i = sid then Some hash else present_token es sid)"
| "present_token (Rotated t i hash # es) sid = (if i = sid then Some hash else present_token es sid)"
| "present_token (Cleared i # es) sid = present_token es sid"

text \<open>The token the newest rotation of a session replaced, and when.\<close>

fun replaced_token :: "session_event list \<Rightarrow> string \<Rightarrow> (string \<times> time) option" where
  "replaced_token [] sid = None"
| "replaced_token (Created i hash # es) sid = (if i = sid then None else replaced_token es sid)"
| "replaced_token (Rotated t i hash # es) sid =
    (if i = sid then map_option (\<lambda>p. (p, t)) (present_token es sid) else replaced_token es sid)"
| "replaced_token (Cleared i # es) sid = replaced_token es sid"

fun cleared_since :: "session_event list \<Rightarrow> string \<Rightarrow> bool" where
  "cleared_since [] sid = False"
| "cleared_since (Created i hash # es) sid = (i \<noteq> sid \<and> cleared_since es sid)"
| "cleared_since (Rotated t i hash # es) sid = (i \<noteq> sid \<and> cleared_since es sid)"
| "cleared_since (Cleared i # es) sid = (i = sid \<or> cleared_since es sid)"

lemma quiet_run: "quiet_step l l' \<Longrightarrow> store_step l l'"
  by (induction rule: quiet_step.induct) (rule store_step.intros; assumption)+

lemma told_run: "told l0 es l \<Longrightarrow> store_step\<^sup>*\<^sup>* l0 l"
proof (induction rule: told.induct)
  case begun
  then show ?case by simp
next
  case (create es l now s s' st')
  from create(5) store_step.create [OF create(2-4)] show ?case by (rule rtranclp.rtrancl_into_rtrancl)
next
  case (rotate es l now sid hash exp st')
  from rotate(4) store_step.rotate [OF rotate(2,3)] show ?case by (rule rtranclp.rtrancl_into_rtrancl)
next
  case (clear es l sid)
  from clear(2) store_step.clear show ?case by (rule rtranclp.rtrancl_into_rtrancl)
next
  case (other es l l')
  from other(3) quiet_run [OF other(2)] show ?case by (rule rtranclp.rtrancl_into_rtrancl)
qed

text \<open>Every run has a history.\<close>

lemma run_told: "store_step\<^sup>*\<^sup>* l0 l \<Longrightarrow> \<exists>es. told l0 es l"
proof (induction rule: rtranclp_induct)
  case base
  then show ?case by (blast intro: told.begun)
next
  case (step l l')
  then obtain es where es: "told l0 es l" by blast
  from step(2) show ?case
  proof (cases rule: store_step.cases)
    case (create now s s' st')
    with told.create [OF es] show ?thesis by blast
  next
    case (rotate now sid hash exp st')
    with told.rotate [OF es] show ?thesis by blast
  next
    case (clear sid)
    with told.clear [OF es] show ?thesis by blast
  next
    case (touch now sid exp)
    with told.other [OF es quiet_step.intros(1)] show ?thesis by blast
  next
    case (rename sid name st')
    with told.other [OF es quiet_step.intros(2)] show ?thesis by blast
  next
    case (delete sid st')
    with told.other [OF es quiet_step.intros(3)] show ?thesis by blast
  next
    case (delete_user uid keep)
    with told.other [OF es quiet_step.intros(4)] show ?thesis by blast
  next
    case (sweep now)
    with told.other [OF es quiet_step.intros(5)] show ?thesis by blast
  next
    case (accounts st' kept)
    with told.other [OF es quiet_step.intros(6)] show ?thesis by blast
  qed
qed

definition row_told :: "session_event list \<Rightarrow> auth_session \<Rightarrow> bool" where
  "row_told es s \<longleftrightarrow> present_token es (as_ID s) = Some (as_TokenHash s)
    \<and> as_PrevTokenHash s =
        (if cleared_since es (as_ID s) then None else map_option fst (replaced_token es (as_ID s)))
    \<and> (\<forall>p t. replaced_token es (as_ID s) = Some (p, t) \<longrightarrow> as_RotatedAt s = (if t > 0 then Some t else None))"

lemma row_told_upd [simp]:
  "row_told es (s\<lparr>as_DeviceName := name\<rparr>) = row_told es s"
  "row_told es (s\<lparr>as_LastSeenAt := t, as_ExpiresAt := exp\<rparr>) = row_told es s"
  by (simp_all add: row_told_def)

lemma rows_told:
  assumes "told l0 es l" "ledger_start l0"
  shows "\<forall>s \<in> set (st_sessions (lg_store l)). row_told es s"
  using assms
proof (induction rule: told.induct)
  case begun
  then show ?case by (simp add: ledger_start_def)
next
  case (create es l now s s' st')
  note c = store_CreateSession_Inr(1-5) [OF create(2)]
  have "row_told (Created (as_ID s) (as_TokenHash s) # es) s'"
    using c by (simp add: row_told_def)
  moreover have "row_told (Created (as_ID s) (as_TokenHash s) # es) r"
    if "r \<in> set (st_sessions (lg_store l))" for r
    using that create.IH [OF create.prems] c(5) by (force simp: row_told_def)
  ultimately show ?case using c(1) by simp
next
  case (rotate es l now sid hash exp st')
  have "row_told (Rotated now sid hash # es) (rotated_row now hash exp r)"
    if "r \<in> set (st_sessions (lg_store l))" "as_ID r = sid" for r
    using that rotate.IH [OF rotate.prems] by (auto simp: row_told_def rotated_row_def)
  moreover have "row_told (Rotated now sid hash # es) r"
    if "r \<in> set (st_sessions (lg_store l))" "as_ID r \<noteq> sid" for r
    using that rotate.IH [OF rotate.prems] by (auto simp: row_told_def)
  ultimately show ?case using RotateSessionToken_Inr(1) [OF rotate(2)] by auto
next
  case (clear es l sid)
  have "row_told (Cleared sid # es) (r\<lparr>as_PrevTokenHash := None\<rparr>)"
    if "r \<in> set (st_sessions (lg_store l))" "as_ID r = sid" for r
    using that clear.IH [OF clear.prems] by (auto simp: row_told_def)
  moreover have "row_told (Cleared sid # es) r"
    if "r \<in> set (st_sessions (lg_store l))" "as_ID r \<noteq> sid" for r
    using that clear.IH [OF clear.prems] by (auto simp: row_told_def)
  ultimately show ?case by (auto simp: ClearPrevToken_def)
next
  case (other es l l')
  from other(2) other.IH [OF other.prems] show ?case
    by (cases rule: quiet_step.cases)
      (auto simp: TouchSession_def RenameSession_def DeleteSession_def DeleteUserSessions_def
        SweepExpired_def split: if_splits)
qed

text \<open>C6. In every state of the store, whatever the interleaving of statements that led to it, a
  token authenticates a session exactly when the session is there and has not expired, its account
  is there and enabled, and the history of its tokens says so: it is the token handed out last for
  the session, or the one the newest rotation replaced, within thirty seconds of that rotation, and
  no clearing statement ran on the session since.  (A lookup runs that statement when it has found
  an earlier overlap over; when a further rotation comes in between, the overlap it opened ends
  early, \<open>late_clear_ends_overlap\<close> below.  A rotation the clock stamps at or before the epoch
  opens no overlap.)\<close>

theorem lookup_answers:
  assumes "ledger_start l0" "told l0 es l"
  shows "(\<exists>p st'. LookupToken h (\<lambda>_. False) now now' token (lg_store l) = (Inr (Some p), st')
      \<and> pr_Session p = s \<and> pr_User p = u)
    \<longleftrightarrow> s \<in> set (st_sessions (lg_store l)) \<and> now \<le> as_ExpiresAt s
      \<and> UserByID (as_UserID s) (lg_store l) = Inr u \<and> \<not> a_Disabled u
      \<and> (present_token es (as_ID s) = Some (h token)
         \<or> (\<exists>t. replaced_token es (as_ID s) = Some (h token, t) \<and> 0 < t \<and> now \<le> t + 30 * second
              \<and> \<not> cleared_since es (as_ID s)))"
proof -
  have "credential_live h now token s \<longleftrightarrow> now \<le> as_ExpiresAt s
      \<and> (present_token es (as_ID s) = Some (h token)
         \<or> (\<exists>t. replaced_token es (as_ID s) = Some (h token, t) \<and> 0 < t \<and> now \<le> t + 30 * second
              \<and> \<not> cleared_since es (as_ID s)))"
    if "s \<in> set (st_sessions (lg_store l))"
  proof -
    have "row_told es s" using rows_told [OF assms(2,1)] that by blast
    then show ?thesis
      by (cases "replaced_token es (as_ID s)") (auto simp: row_told_def credential_live_def rotateOverlap_def split: if_splits option.splits)
  qed
  then show ?thesis
    unfolding lookup_by_row [OF assms(1) told_run [OF assms(2)], of h now now' token s u] by blast
qed

definition row_ids :: "ledger \<Rightarrow> string set" where
  "row_ids l = as_ID ` set (st_sessions (lg_store l))"

lemma store_step_ids:
  "store_step l l' \<Longrightarrow> lg_issued l \<subseteq> lg_issued l' \<and> row_ids l' \<subseteq> row_ids l \<union> - (snd ` lg_issued l)"
proof (induction rule: store_step.induct)
  case (create now s l s' st')
  then show ?case using store_CreateSession_Inr [OF create(1)] by (auto simp: row_ids_def)
next
  case (rotate now sid hash exp l st')
  then show ?case using RotateSessionToken_Inr [OF rotate(1)] by (auto simp: row_ids_def rotated_row_def)
qed (auto simp: row_ids_def ClearPrevToken_def TouchSession_def RenameSession_def DeleteSession_def
    DeleteUserSessions_def SweepExpired_def split: if_splits)

lemma gone_steps:
  "store_step\<^sup>*\<^sup>* l l' \<Longrightarrow> sid \<in> snd ` lg_issued l \<Longrightarrow> sid \<notin> row_ids l \<Longrightarrow>
    lg_issued l \<subseteq> lg_issued l' \<and> sid \<in> snd ` lg_issued l' \<and> sid \<notin> row_ids l'"
proof (induction rule: rtranclp_induct)
  case base
  then show ?case by simp
next
  case (step l1 l2)
  with store_step_ids [OF step(2)] show ?case by blast
qed

text \<open>C7. A session whose row is gone, by a revoke, a sweep, the cap or its account's end, is gone
  for good: whatever runs afterwards, no token ever handed out for it authenticates anything, and
  no token authenticates it.\<close>

theorem revoked_stays_out:
  assumes "ledger_start l0" "store_step\<^sup>*\<^sup>* l0 l" "store_step\<^sup>*\<^sup>* l l'"
    and "(hash, sid) \<in> lg_issued l" "sid \<notin> as_ID ` set (st_sessions (lg_store l))"
    and "LookupToken h broken now now' token (lg_store l') = (Inr (Some p), st')"
  shows "h token \<noteq> hash \<and> as_ID (pr_Session p) \<noteq> sid"
proof -
  have ok: "ledger_ok l'" using assms(1-3) by (meson ledger.inv_reachable rtranclp_trans)
  have g: "lg_issued l \<subseteq> lg_issued l'" "sid \<notin> row_ids l'"
    using gone_steps [OF assms(3), of sid] assms(4,5) by (force simp: row_ids_def)+
  note f = SessionByTokenHash_Inr [OF Lookup_Some(1) [OF assms(6)]]
  then have "as_ID (pr_Session p) \<noteq> sid" using g(2) by (auto simp: row_ids_def)
  moreover from ledger_owner [OF ok] f have "(h token, as_ID (pr_Session p)) \<in> lg_issued l'" by blast
  ultimately show ?thesis using ok g(1) assms(4) unfolding ledger_ok_def by blast
qed

definition rotated_out :: "string \<Rightarrow> time \<Rightarrow> ledger \<Rightarrow> bool" where
  "rotated_out hash t l \<longleftrightarrow> (\<exists>i. (hash, i) \<in> lg_issued l)
     \<and> (\<forall>s \<in> set (st_sessions (lg_store l)). as_TokenHash s \<noteq> hash
          \<and> (as_PrevTokenHash s = Some hash \<longrightarrow> as_RotatedAt s = Some t))"

lemma rotated_out_upd:
  assumes "rotated_out hash t l"
    and "\<And>s. as_TokenHash (f s) = as_TokenHash s \<and> as_RotatedAt (f s) = as_RotatedAt s
      \<and> (as_PrevTokenHash (f s) = as_PrevTokenHash s \<or> as_PrevTokenHash (f s) = None)"
  shows "rotated_out hash t (l\<lparr>lg_store := upd_session sid f (lg_store l)\<rparr>)"
  using assms(1) assms(2) by (auto simp: rotated_out_def) (metis option.distinct(1))+

lemma rotated_out_step:
  "store_step l l' \<Longrightarrow> rotated_out hash t l \<Longrightarrow> rotated_out hash t l'"
proof (induction rule: store_step.induct)
  case (create now s l s' st')
  then have "as_TokenHash s \<noteq> hash" by (force simp: rotated_out_def)
  with create(4) show ?case using store_CreateSession_Inr(1-4) [OF create(1)]
    by (auto simp: rotated_out_def)
next
  case (rotate now sid hash' exp l st')
  then have "hash' \<noteq> hash" by (force simp: rotated_out_def)
  with rotate(3) show ?case using RotateSessionToken_Inr(1) [OF rotate(1)]
    by (auto simp: rotated_out_def rotated_row_def)
next
  case (clear l sid)
  then show ?case unfolding ClearPrevToken_def by (rule rotated_out_upd) simp
next
  case (touch l now sid exp)
  then show ?case unfolding TouchSession_def by (rule rotated_out_upd) simp
next
  case (rename sid name l st')
  then show ?case by (auto simp: RenameSession_def intro!: rotated_out_upd split: if_splits)
qed (auto simp: rotated_out_def DeleteSession_def DeleteUserSessions_def SweepExpired_def
    split: if_splits)

text \<open>A token that a rotation replaced stops authenticating thirty seconds later at the
  latest, whatever runs in between: further rotations, lookups, touches.\<close>

theorem rotated_token_dies:
  assumes "ledger_start l0" "store_step\<^sup>*\<^sup>* l0 l"
    and "s \<in> set (st_sessions (lg_store l))" "as_TokenHash s = h token"
    and "RotateSessionToken t (as_ID s) hash exp (lg_store l) = Inr st" "hash \<notin> fst ` lg_issued l" "0 < t"
    and "store_step\<^sup>*\<^sup>* (l\<lparr>lg_store := st, lg_issued := insert (hash, as_ID s) (lg_issued l)\<rparr>) l'"
    and "t + rotateOverlap < now"
  shows "fst (LookupToken h broken now now' token (lg_store l')) \<noteq> Inr (Some p)"
proof
  assume "fst (LookupToken h broken now now' token (lg_store l')) = Inr (Some p)"
  then obtain st' where p: "LookupToken h broken now now' token (lg_store l') = (Inr (Some p), st')"
    by (cases "LookupToken h broken now now' token (lg_store l')") auto
  have ok: "ledger_ok l" by (rule ledger.inv_reachable [OF assms(1,2)])
  have mine: "(h token, as_ID s) \<in> lg_issued l"
    using ledger_owner [OF ok assms(3)] assms(4) by blast
  have "rotated_out (h token) t (l\<lparr>lg_store := st, lg_issued := insert (hash, as_ID s) (lg_issued l)\<rparr>)"
  proof -
    have "as_ID r = as_ID s" if "r \<in> set (st_sessions (lg_store l))"
      "as_TokenHash r = h token \<or> as_PrevTokenHash r = Some (h token)" for r
      using ledger_owner [OF ok that] mine ok unfolding ledger_ok_def by blast
    moreover have "hash \<noteq> h token" using mine assms(6) by force
    ultimately show ?thesis
      using RotateSessionToken_Inr(1) [OF assms(5)] mine assms(7)
      by (auto simp: rotated_out_def rotated_row_def)
  qed
  from assms(8) this have "rotated_out (h token) t l'"
    by (induction rule: rtranclp_induct) (auto intro: rotated_out_step)
  with SessionByTokenHash_Inr [OF Lookup_Some(1) [OF p]]
  have "as_PrevTokenHash (pr_Session p) = Some (h token)" "as_RotatedAt (pr_Session p) = Some t"
    by (auto simp: rotated_out_def)
  with Lookup_Some(5) [OF p] assms(9) show False by simp
qed


section \<open>The operations as runs\<close>

lemma lookup_account_run:
  "store_step\<^sup>*\<^sup>* l (l\<lparr>lg_store := snd (lookup_account broken now now' sess (lg_store l))\<rparr>)"
  by (auto simp: lookup_account_def Let_def split: sum.split store_error.split intro: store_step.touch)

lemma Lookup_run: "store_step\<^sup>*\<^sup>* l (l\<lparr>lg_store := snd (LookupToken h broken now now' token (lg_store l))\<rparr>)"
proof -
  have plain: "store_step\<^sup>*\<^sup>* l (l\<lparr>lg_store := lg_store l\<rparr>)" by simp
  have cleared: "store_step\<^sup>*\<^sup>* l (l\<lparr>lg_store := snd (lookup_account broken now now' sess
      (ClearPrevToken sid (lg_store l)))\<rparr>)" for sess sid
  proof -
    have "store_step\<^sup>*\<^sup>* l (l\<lparr>lg_store := ClearPrevToken sid (lg_store l)\<rparr>)"
      by (rule r_into_rtranclp) (rule store_step.clear)
    moreover note lookup_account_run [of "l\<lparr>lg_store := ClearPrevToken sid (lg_store l)\<rparr>" broken now now' sess]
    ultimately show ?thesis by (force intro: rtranclp_trans)
  qed
  show ?thesis
    by (auto simp: LookupToken_def Let_def plain cleared lookup_account_run
        split: sum.split store_error.split option.split)
qed

lemma Revoke_run: "store_step\<^sup>*\<^sup>* l (l\<lparr>lg_store := se_store (snd (Revoke broken sid (s\<lparr>se_store := lg_store l\<rparr>)))\<rparr>)"
  by (auto simp: Revoke_def notify_def Let_def split: sum.split store_error.split intro: store_step.delete)

section \<open>A session in use\<close>













section \<open>The cap\<close>



lemma live_rows:
  "ListForUser (\<lambda>_. False) now uid st = Inr xs \<longleftrightarrow> xs = filter (\<lambda>s. now < as_ExpiresAt s) (SessionsByUser uid st)"
  by (auto simp: ListForUser_def)












section \<open>The operations are runs of the statements\<close>

lemma revoke_each_run:
  "\<exists>l'. store_step\<^sup>*\<^sup>* l l' \<and> lg_store l' = se_store (revoke_each broken keep xs (s\<lparr>se_store := lg_store l\<rparr>))"
proof (induction xs arbitrary: s l)
  case Nil
  then show ?case by auto
next
  case (Cons x xs)
  obtain e s2 where r: "Revoke broken (as_ID x) (s\<lparr>se_store := lg_store l\<rparr>) = (e, s2)"
    by (cases "Revoke broken (as_ID x) (s\<lparr>se_store := lg_store l\<rparr>)")
  have one: "store_step\<^sup>*\<^sup>* l (l\<lparr>lg_store := se_store s2\<rparr>)"
    using Revoke_run [of l broken "as_ID x" s] by (simp add: r)
  have rest: "\<exists>l'. store_step\<^sup>*\<^sup>* l l' \<and> lg_store l' = se_store (revoke_each broken keep xs s2)"
    using Cons [of "l\<lparr>lg_store := se_store s2\<rparr>" s2] one by (auto intro: rtranclp_trans)
  have "\<exists>l'. store_step\<^sup>*\<^sup>* l l' \<and> lg_store l' = se_store s2" using one by force
  with rest Cons show ?case
    by (auto simp: r split: option.split store_error.split)
qed

lemma Create_run:
  assumes "\<And>t d. newToken h e = Some (t, d) \<Longrightarrow> d \<notin> fst ` lg_issued l"
    and "''se-'' @ ulid \<notin> snd ` lg_issued l"
  shows "\<exists>l'. store_step\<^sup>*\<^sup>* l l' \<and> lg_store l' =
    se_store (snd (Create h seen broken e e' ulid now now' now'' uid kind dev client (s\<lparr>se_store := lg_store l\<rparr>)))"
proof (cases "fst (Create h seen broken e e' ulid now now' now'' uid kind dev client (s\<lparr>se_store := lg_store l\<rparr>))")
  case (Inl err)
  then have "se_store (snd (Create h seen broken e e' ulid now now' now'' uid kind dev client
      (s\<lparr>se_store := lg_store l\<rparr>))) = lg_store l"
    by (auto simp: Create_def split: option.splits prod.splits sum.splits)
  then show ?thesis by auto
next
  case (Inr c)
  then obtain sess x st t d where x: "store_CreateSession now' sess (lg_store l) = Inr (x, st)"
    "as_ID sess = ''se-'' @ ulid" "as_TokenHash sess = d" "newToken h e = Some (t, d)"
    "snd (Create h seen broken e e' ulid now now' now'' uid kind dev client (s\<lparr>se_store := lg_store l\<rparr>))
      = enforceCap seen broken now'' uid (as_ID x) (s\<lparr>se_store := st\<rparr>)"
    by (auto simp: Create_def split: option.splits prod.splits sum.splits if_splits)
  define l1 where "l1 = l\<lparr>lg_store := st, lg_issued := insert (d, ''se-'' @ ulid) (lg_issued l)\<rparr>"
  have "store_step l l1"
    using store_step.create [OF x(1)] x(2,3) assms(2) assms(1) [OF x(4)] by (simp add: l1_def)
  moreover obtain l' where "store_step\<^sup>*\<^sup>* l1 l'"
    "lg_store l' = se_store (enforceCap seen broken now'' uid (as_ID x) (s\<lparr>se_store := st\<rparr>))"
  proof -
    have "\<exists>l'. store_step\<^sup>*\<^sup>* l1 l' \<and>
        lg_store l' = se_store (enforceCap seen broken now'' uid (as_ID x) (s\<lparr>se_store := lg_store l1\<rparr>))"
      by (auto simp: enforceCap_def revoke_each_run split: sum.split)
    with that show ?thesis by (auto simp: l1_def)
  qed
  ultimately show ?thesis using x(5) by (metis converse_rtranclp_into_rtranclp)
qed

lemma Rotate_run:
  assumes "\<And>t d. newToken h e = Some (t, d) \<Longrightarrow> d \<notin> fst ` lg_issued l"
  shows "\<exists>l'. store_step\<^sup>*\<^sup>* l l' \<and> lg_store l' = snd (Rotate h broken e now now' sess (lg_store l))"
proof (cases "fst (Rotate h broken e now now' sess (lg_store l))")
  case (Inl err)
  then have "snd (Rotate h broken e now now' sess (lg_store l)) = lg_store l"
    by (auto simp: Rotate_def split: option.splits prod.splits sum.splits)
  then show ?thesis by auto
next
  case (Inr token)
  then obtain st t d where "RotateSessionToken now' (as_ID sess) d (now + session_ttl (as_Kind sess)) (lg_store l) = Inr st"
    "newToken h e = Some (t, d)" "snd (Rotate h broken e now now' sess (lg_store l)) = st"
    by (auto simp: Rotate_def split: option.splits prod.splits sum.splits if_splits)
  with store_step.rotate [OF this(1)] assms show ?thesis
    by (intro exI [of _ "l\<lparr>lg_store := st, lg_issued := insert (d, as_ID sess) (lg_issued l)\<rparr>"]) auto
qed

text \<open>Every operation on sessions, whatever statement of it fails, is a run of the statements
  whose invariant the claims above rest on, as long as a freshly drawn token and id are new.\<close>

theorem session_operations_are_runs:
  assumes "\<forall>t d. newToken h e = Some (t, d) \<longrightarrow> d \<notin> fst ` lg_issued l"
    and "''se-'' @ ulid \<notin> snd ` lg_issued l" "se_store s = lg_store l"
  shows "\<forall>st \<in> {snd (LookupToken h broken now now' token (lg_store l)),
        se_store (snd (Create h seen broken e e' ulid now now' now'' uid kind dev client s)),
        snd (Rotate h broken e now now' sess (lg_store l)),
        se_store (snd (Revoke broken sid s)), se_store (snd (RevokeAllForUser broken uid keep s)),
        se_store (snd (Rename broken sid name s))}.
      \<exists>l'. store_step\<^sup>*\<^sup>* l l' \<and> lg_store l' = st"
proof -
  have s: "s\<lparr>se_store := lg_store l\<rparr> = s" using assms(3) by simp
  have keeps: "\<exists>l'. store_step\<^sup>*\<^sup>* l l' \<and> lg_store l' = lg_store l" by auto
  have one: "\<exists>l'. store_step\<^sup>*\<^sup>* l l' \<and> lg_store l' = lg_store l1" if "store_step l l1" for l1
    using that by blast
  have "\<exists>l'. store_step\<^sup>*\<^sup>* l l' \<and> lg_store l' = snd (LookupToken h broken now now' token (lg_store l))"
    using Lookup_run [of l h broken now now' token] by force
  moreover have "\<exists>l'. store_step\<^sup>*\<^sup>* l l' \<and> lg_store l' =
      se_store (snd (Create h seen broken e e' ulid now now' now'' uid kind dev client s))"
    using Create_run [of h e l ulid seen broken e' now now' now'' uid kind dev client s] assms(1,2) s by simp
  moreover have "\<exists>l'. store_step\<^sup>*\<^sup>* l l' \<and> lg_store l' = snd (Rotate h broken e now now' sess (lg_store l))"
    using Rotate_run [of h e l broken now now' sess] assms(1) by simp
  moreover have "\<exists>l'. store_step\<^sup>*\<^sup>* l l' \<and> lg_store l' = se_store (snd (Revoke broken sid s))"
    using Revoke_run [of l broken sid s] s by force
  moreover have "\<exists>l'. store_step\<^sup>*\<^sup>* l l' \<and> lg_store l' = se_store (snd (RevokeAllForUser broken uid keep s))"
    using keeps assms(3) one [OF store_step.delete_user [of l uid keep]]
    by (auto simp: RevokeAllForUser_def notify_def)
  moreover have "\<exists>l'. store_step\<^sup>*\<^sup>* l l' \<and> lg_store l' = se_store (snd (Rename broken sid name s))"
  proof (cases "RenameSession sid name (lg_store l)")
    case (Inl a)
    with keeps assms(3) show ?thesis by (simp add: Rename_def)
  next
    case (Inr st)
    with keeps assms(3) one [OF store_step.rename [OF Inr]] show ?thesis by (auto simp: Rename_def)
  qed
  ultimately show ?thesis by blast
qed


section \<open>A retired token and a late statement\<close>

text \<open>A lookup that found the overlap of an earlier rotation over, and runs its clearing statement
  only after a further rotation, ends the overlap that rotation opened: the token replaced a moment
  ago is refused at once.\<close>

lemma late_clear_ends_overlap:
  assumes "ledger_ok l" "s \<in> set (st_sessions (lg_store l))" "as_TokenHash s = h token"
    and "RotateSessionToken t (as_ID s) hash exp (lg_store l) = Inr st" "hash \<noteq> h token"
  shows "fst (LookupToken h (\<lambda>_. False) t t token (ClearPrevToken (as_ID s) st)) = Inr None"
proof -
  have mine: "r = s" if "r \<in> set (st_sessions (lg_store l))"
    "as_TokenHash r = h token \<or> as_PrevTokenHash r = Some (h token)" for r
  proof -
    have "(h token, as_ID s) \<in> lg_issued l" using ledger_owner [OF assms(1,2)] assms(3) by blast
    with ledger_owner [OF assms(1) that] assms(1) have "as_ID r = as_ID s"
      unfolding ledger_ok_def by blast
    with assms(1,2) that(1) show ?thesis unfolding ledger_ok_def by (metis distinct_map inj_onD)
  qed
  have "SessionByTokenHash (h token) (ClearPrevToken (as_ID s) st) = Inl RowNotFound"
    using RotateSessionToken_Inr(1) [OF assms(4)] mine assms(5)
    by (auto simp: SessionByTokenHash_def ClearPrevToken_def rotated_row_def find_None_iff
        split: option.split dest!: find_Some_iff [THEN iffD1] nth_mem)
  then show ?thesis by (simp add: LookupToken_def)
qed

section \<open>Two devices of one account\<close>

definition demo_h :: "string \<Rightarrow> string" where "demo_h s = CHR ''#'' # s"

definition plain_account :: account where
  "plain_account = \<lparr>a_ID = ''us-1'', a_Username = ''u'', a_DisplayName = '''', a_PasswordHash = '''', a_Roles = [''user''], a_Disabled = False, a_Pending = False,
     a_PermDownload = True, a_PermDelete = False, a_PermExplicit = True, a_PermSharedOutputs = True,
     a_PermPodcasts = True, a_MaxTranscodeKbps = 0, a_UploadEnabled = False, a_UploadQuotaBytes = 0,
     a_LibraryAccess = ''all'', a_WaxbinUserPID = ''cu'', a_TagRules = NoDoc,
     a_CreatedAt = 0, a_UpdatedAt = 0\<rparr>"

definition demo_row :: "string \<Rightarrow> string \<Rightarrow> time \<Rightarrow> auth_session" where
  "demo_row sid token now =
    \<lparr>as_ID = sid, as_UserID = ''us-1'', as_Kind = ''web'', as_TokenHash = demo_h token,
     as_PrevTokenHash = None, as_RotatedAt = None, as_CSRFToken = ''c'', as_DeviceName = ''d'',
     as_Client = ''web'', as_CreatedAt = now, as_LastSeenAt = now, as_ExpiresAt = now + webSessionTTL\<rparr>"

definition demo_rows :: "auth_session list \<Rightarrow> (string \<times> string) set \<Rightarrow> ledger" where
  "demo_rows rows issued = \<lparr>lg_store = \<lparr>st_users = [plain_account], st_grants = [],
     st_identities = [], st_sessions = rows, st_invites = [], st_appPasswords = [],
     st_syncState = (\<lambda>_. None)\<rparr>, lg_issued = issued\<rparr>"

definition demo_one :: ledger where
  "demo_one = demo_rows [demo_row ''se-1'' ''a'' second] {(demo_h ''a'', ''se-1'')}"

definition demo_two :: ledger where
  "demo_two = demo_rows [demo_row ''se-2'' ''b'' second, demo_row ''se-1'' ''a'' second]
     {(demo_h ''b'', ''se-2''), (demo_h ''a'', ''se-1'')}"

definition demo_left :: ledger where
  "demo_left = demo_rows [demo_row ''se-2'' ''b'' second]
     {(demo_h ''b'', ''se-2''), (demo_h ''a'', ''se-1'')}"

lemmas demo_defs = UserByID_def demo_rows_def demo_row_def demo_h_def plain_account_def

lemma demo_start: "ledger_start (demo_rows [] {})"
  by (simp add: ledger_start_def demo_rows_def)

lemma demo_one_run: "store_step\<^sup>*\<^sup>* (demo_rows [] {}) demo_one"
proof (rule r_into_rtranclp)
  have "store_CreateSession second (demo_row ''se-1'' ''a'' second) (lg_store (demo_rows [] {})) =
      Inr (demo_row ''se-1'' ''a'' second, lg_store demo_one)"
    by (simp add: store_CreateSession_def has_row_def demo_one_def demo_defs Let_def)
  from store_step.create [OF this] show "store_step (demo_rows [] {}) demo_one"
    by (simp add: demo_one_def demo_defs)
qed

lemma demo_left_run: "store_step\<^sup>*\<^sup>* demo_one demo_left"
proof -
  have "store_CreateSession second (demo_row ''se-2'' ''b'' second) (lg_store demo_one) =
      Inr (demo_row ''se-2'' ''b'' second, lg_store demo_two)"
    by (simp add: store_CreateSession_def has_row_def demo_one_def demo_two_def demo_defs Let_def)
  from store_step.create [OF this] have "store_step demo_one demo_two"
    by (simp add: demo_one_def demo_two_def demo_defs)
  moreover have "DeleteSession ''se-1'' (lg_store demo_two) = Inr (lg_store demo_left)"
    by (simp add: DeleteSession_def has_row_def demo_two_def demo_left_def demo_defs)
  from store_step.delete [OF this] have "store_step demo_two demo_left"
    by (simp add: demo_two_def demo_left_def demo_defs)
  ultimately show ?thesis by (meson converse_rtranclp_into_rtranclp rtranclp.rtrancl_refl)
qed

definition demo_rotated :: ledger where
  "demo_rotated = demo_one\<lparr>lg_store := upd_session ''se-1''
       (rotated_row (2 * second) (demo_h ''c'') (40 * second)) (lg_store demo_one),
     lg_issued := insert (demo_h ''c'', ''se-1'') (lg_issued demo_one)\<rparr>"

lemma demo_rotated_told: "told (demo_rows [] {})
    [Rotated (2 * second) ''se-1'' (demo_h ''c''), Created ''se-1'' (demo_h ''a'')] demo_rotated"
proof -
  have "store_CreateSession second (demo_row ''se-1'' ''a'' second) (lg_store (demo_rows [] {})) =
      Inr (demo_row ''se-1'' ''a'' second, lg_store demo_one)"
    by (simp add: store_CreateSession_def has_row_def demo_one_def demo_defs Let_def)
  from told.create [OF told.begun this] have "told (demo_rows [] {}) [Created ''se-1'' (demo_h ''a'')] demo_one"
    by (simp add: demo_one_def demo_defs)
  moreover have "RotateSessionToken (2 * second) ''se-1'' (demo_h ''c'') (40 * second) (lg_store demo_one) =
      Inr (lg_store demo_rotated)"
    by (simp add: RotateSessionToken_def has_row_def demo_rotated_def demo_one_def demo_defs)
  ultimately have "told (demo_rows [] {}) [Rotated (2 * second) ''se-1'' (demo_h ''c''), Created ''se-1'' (demo_h ''a'')]
      (demo_one\<lparr>lg_store := lg_store demo_rotated, lg_issued := insert (demo_h ''c'', ''se-1'') (lg_issued demo_one)\<rparr>)"
    by (rule told.rotate) (simp add: demo_one_def demo_defs)
  then show ?thesis by (simp add: demo_rotated_def)
qed

text \<open>The token replaced at two seconds still authenticates at thirty-two, and not at thirty-three.\<close>

lemma lookup_answers_witness:
  "(\<exists>p st'. LookupToken demo_h (\<lambda>_. False) (32 * second) (32 * second) ''a'' (lg_store demo_rotated) = (Inr (Some p), st')
      \<and> as_TokenHash (pr_Session p) = demo_h ''c'' \<and> pr_User p = plain_account)
    \<and> \<not> (\<exists>p st'. LookupToken demo_h (\<lambda>_. False) (33 * second) (33 * second) ''a'' (lg_store demo_rotated) = (Inr (Some p), st'))"
proof -
  let ?s = "rotated_row (2 * second) (demo_h ''c'') (40 * second) (demo_row ''se-1'' ''a'' second)"
  have s: "?s \<in> set (st_sessions (lg_store demo_rotated))" "as_TokenHash ?s = demo_h ''c''"
    by (simp_all add: demo_rotated_def demo_one_def demo_defs rotated_row_def)
  have "\<exists>p st'. LookupToken demo_h (\<lambda>_. False) (32 * second) (32 * second) ''a'' (lg_store demo_rotated) = (Inr (Some p), st')
      \<and> pr_Session p = ?s \<and> pr_User p = plain_account"
    using s(1) unfolding lookup_answers [OF demo_start demo_rotated_told]
    by (simp add: demo_rotated_def demo_one_def demo_defs rotated_row_def second_def)
  moreover have "\<not> (\<exists>p st'. LookupToken demo_h (\<lambda>_. False) (33 * second) (33 * second) ''a'' (lg_store demo_rotated) = (Inr (Some p), st')
      \<and> pr_Session p = s \<and> pr_User p = u)" for s u
    unfolding lookup_answers [OF demo_start demo_rotated_told]
    by (auto simp: demo_rotated_def demo_one_def demo_defs rotated_row_def second_def)
  ultimately show ?thesis using s(2) by metis
qed

lemma demo_left_answers:
  "\<exists>p st'. LookupToken demo_h (\<lambda>_. False) second second ''b'' (lg_store demo_left) = (Inr (Some p), st')"
  by (simp add: LookupToken_def SessionByTokenHash_def lookup_account_def demo_left_def demo_defs
      webSessionTTL_def hour_def Let_def)

lemma revoked_stays_out_witness:
  "\<exists>p st'. LookupToken demo_h (\<lambda>_. False) second second ''b'' (lg_store demo_left) = (Inr (Some p), st')
     \<and> demo_h ''b'' \<noteq> demo_h ''a'' \<and> as_ID (pr_Session p) \<noteq> ''se-1''"
proof -
  obtain p st' where p: "LookupToken demo_h (\<lambda>_. False) second second ''b'' (lg_store demo_left) = (Inr (Some p), st')"
    using demo_left_answers by blast
  have "store_step\<^sup>*\<^sup>* (demo_rows [] {}) demo_left"
    using demo_one_run demo_left_run by (rule rtranclp_trans)
  from revoked_stays_out [OF demo_start this rtranclp.rtrancl_refl, of "demo_h ''a''" "''se-1''", OF _ _ p] p
  show ?thesis by (simp add: demo_left_def demo_defs)
qed



lemma demo_ok: "ledger_ok demo_one"
  by (rule ledger.inv_reachable [OF demo_start demo_one_run])

lemma rotated_token_dies_witness:
  "\<exists>st. RotateSessionToken (2 * second) ''se-1'' (demo_h ''c'') 0 (lg_store demo_one) = Inr st
     \<and> (\<forall>p. fst (LookupToken demo_h (\<lambda>_. False) (33 * second) (33 * second) ''a'' st) \<noteq> Inr (Some p))"
proof -
  let ?s = "demo_row ''se-1'' ''a'' second"
  let ?st = "upd_session ''se-1'' (rotated_row (2 * second) (demo_h ''c'') 0) (lg_store demo_one)"
  have r: "RotateSessionToken (2 * second) (as_ID ?s) (demo_h ''c'') 0 (lg_store demo_one) = Inr ?st"
    by (simp add: RotateSessionToken_def has_row_def demo_one_def demo_defs)
  have s: "?s \<in> set (st_sessions (lg_store demo_one))" "as_TokenHash ?s = demo_h ''a''"
    "demo_h ''c'' \<notin> fst ` lg_issued demo_one" "0 < 2 * second" "2 * second + rotateOverlap < 33 * second"
    by (simp_all add: demo_one_def demo_defs second_def rotateOverlap_def)
  have "fst (LookupToken demo_h (\<lambda>_. False) (33 * second) (33 * second) ''a'' ?st) \<noteq> Inr (Some p)" for p
    using rotated_token_dies [where h = demo_h and token = "''a''" and s = ?s, OF demo_start demo_one_run s(1,2) r s(3,4)
        rtranclp.rtrancl_refl s(5), of "\<lambda>_. False" "33 * second" p] by simp
  with r show ?thesis by (simp add: demo_row_def)
qed





definition small_manager :: sessions where
  "small_manager = LimitPerAccount 1 (NewSessions (lg_store demo_one))"

lemma demo_entropy: "encode ''x'' \<noteq> ''a''" "''a'' \<noteq> encode ''x''"
  by code_simp+



lemma session_operations_are_runs_witness:
  "\<exists>l'. store_step\<^sup>*\<^sup>* demo_one l' \<and> lg_store l' =
     se_store (snd (Create demo_h (sort_key as_LastSeenAt) (\<lambda>_. False) (Some ''x'') (Some ''y'') ''7''
       (2 * second) (2 * second) (2 * second) ''us-1'' ''web'' ''d'' ''web'' small_manager))"
proof -
  have m: "se_store small_manager = lg_store demo_one"
    by (simp add: small_manager_def LimitPerAccount_def NewSessions_def)
  have f: "\<forall>t d. newToken demo_h (Some ''x'') = Some (t, d) \<longrightarrow> d \<notin> fst ` lg_issued demo_one"
    by (simp add: newToken_def demo_one_def demo_defs demo_entropy)
  have i: "''se-'' @ ''7'' \<notin> snd ` lg_issued demo_one" by (simp add: demo_one_def demo_defs)
  show ?thesis
    by (rule bspec [OF session_operations_are_runs [OF f i m]]) (rule insertI2, rule insertI1)
qed

end
