(* ===== verification/Service_Base.thy ===== *)
theory Service_Base
  imports Perms
begin

text \<open>
  What every operation of the service layer answers with: its classified errors (service/errors.go)
  and the identifiers of the API (service/pids.go).

  A catalog error is the code its library gives it and its text; the wording a classified catalog
  error carries to the caller is not modelled and is empty here.  Whether a text is a well-formed
  catalog identifier is the library's to say and a parameter.
\<close>

section \<open>Errors\<close>

datatype error_kind =
    KindNotFound | KindInvalid | KindConflict | KindMaintenance | KindInternal | KindGone
  | KindForbidden | KindUnauthenticated | KindUpstream | KindUnsupported | KindDirectory
  | KindService | KindQuota | KindStorageFull | KindStorageUnwritable | KindLocked | KindFormat
  | KindDRM | KindFeature | KindReadOnly | KindTranscodeLimit | KindCatalogBusy

datatype wax_code = CodeNotFound | CodeInvalid | CodeConflict | CodeLocked | CodeUnsupported | CodeOther

record wax_error =
  we_Code :: wax_code
  we_Text :: string

text \<open>\<open>ErrMediaRevoked\<close> is the one sentinel of another package an operation here wraps.\<close>

datatype svc_error = SvcError error_kind string | ErrMediaRevoked string

definition kindFromWaxErr :: "wax_error \<Rightarrow> error_kind" where
  "kindFromWaxErr e =
    (if contains (we_Text e) ''database is closed'' \<or> contains (we_Text e) ''store is closed''
     then KindMaintenance
     else case we_Code e of
       CodeNotFound \<Rightarrow> KindNotFound
     | CodeInvalid \<Rightarrow> KindInvalid
     | CodeConflict \<Rightarrow> KindConflict
     | CodeLocked \<Rightarrow> (if contains (we_Text e) ''read-only'' then KindReadOnly else KindLocked)
     | CodeUnsupported \<Rightarrow> KindUnsupported
     | CodeOther \<Rightarrow> KindInternal)"

text \<open>The sentinel carries neither a classified error nor a catalog code, and its words are not those
  of a closed store.\<close>

definition KindOf :: "svc_error \<Rightarrow> error_kind" where
  "KindOf e = (case e of SvcError k m \<Rightarrow> k | ErrMediaRevoked m \<Rightarrow> KindInternal)"

definition classify :: "wax_error \<Rightarrow> svc_error" where
  "classify e = SvcError (kindFromWaxErr e) ''''"

definition errNotFound :: "string \<Rightarrow> svc_error" where "errNotFound m = SvcError KindNotFound m"
definition errInvalid :: "string \<Rightarrow> svc_error" where "errInvalid m = SvcError KindInvalid m"
definition internal :: svc_error where "internal = SvcError KindInternal ''''"

definition classifyMutation :: "wax_error \<Rightarrow> svc_error" where
  "classifyMutation e =
    (let out = classify e in
     if KindOf out \<noteq> KindConflict then out
     else SvcError KindCatalogBusy ''a conflicting catalog job is already running; retry when it finishes'')"

fun perm_svc :: "perm_error \<Rightarrow> svc_error" where
  "perm_svc (Invalid m) = errInvalid m"
| "perm_svc (Forbidden m) = SvcError KindForbidden m"
| "perm_svc Internal = internal"

section \<open>Identifiers of the API\<close>

definition PrefixTrack :: string where "PrefixTrack = ''tr''"
definition PrefixEpisode :: string where "PrefixEpisode = ''ep''"
definition PrefixBook :: string where "PrefixBook = ''bk''"
definition PrefixLibrary :: string where "PrefixLibrary = ''lb''"
definition PrefixInvite :: string where "PrefixInvite = ''iv''"
definition PrefixRadioStation :: string where "PrefixRadioStation = ''rs''"
definition PrefixFile :: string where "PrefixFile = ''fl''"

fun prefixForKind :: "kind \<Rightarrow> string" where
  "prefixForKind KindBook = PrefixBook"
| "prefixForKind KindEpisode = PrefixEpisode"
| "prefixForKind KindTrack = PrefixTrack"

fun mediaTypeForKind :: "kind \<Rightarrow> string" where
  "mediaTypeForKind KindBook = ''audiobook''"
| "mediaTypeForKind KindEpisode = ''podcast''"
| "mediaTypeForKind KindTrack = ''music''"

definition kindForMediaType :: "string \<Rightarrow> kind option" where
  "kindForMediaType mt =
    (if mt = ''music'' then Some KindTrack
     else if mt = ''podcast'' then Some KindEpisode
     else if mt = ''audiobook'' then Some KindBook else None)"

definition apiPID :: "string \<Rightarrow> string \<Rightarrow> string" where
  "apiPID prefix pid = prefix @ ''-'' @ pid"

definition entityAPIPID :: "string \<Rightarrow> string \<Rightarrow> string" where
  "entityAPIPID prefix pid = (if pid = '''' then '''' else apiPID prefix pid)"

definition itemAPIPID :: "item_view \<Rightarrow> string" where
  "itemAPIPID it = apiPID (prefixForKind (iv_Kind it)) (iv_PID it)"

definition upper_char :: "char \<Rightarrow> char" where
  "upper_char c = (if 97 \<le> (of_char c :: nat) \<and> (of_char c :: nat) \<le> 122 then char_of (of_char c - (32 :: nat)) else c)"

definition to_upper :: "string \<Rightarrow> string" where "to_upper s = map upper_char s"

definition parseAPIPID :: "(string \<Rightarrow> bool) \<Rightarrow> string \<Rightarrow> (string \<times> string) option" where
  "parseAPIPID valid s =
    (let (prefix, rest, found) = cut CHR ''-'' s in
     if \<not> found \<or> length prefix \<noteq> 2 then None
     else let pid = to_upper rest in if valid pid then Some (prefix, pid) else None)"

definition ParseFilePID :: "(string \<Rightarrow> bool) \<Rightarrow> string \<Rightarrow> string option" where
  "ParseFilePID valid s =
    (case parseAPIPID valid s of None \<Rightarrow> None
     | Some (prefix, pid) \<Rightarrow> if prefix \<noteq> PrefixFile then None else Some pid)"

definition FileAPIPID :: "string \<Rightarrow> string" where "FileAPIPID pid = entityAPIPID PrefixFile pid"

definition itemPrefix :: "string \<Rightarrow> bool" where
  "itemPrefix prefix \<longleftrightarrow> prefix = PrefixTrack \<or> prefix = PrefixEpisode \<or> prefix = PrefixBook"

definition bookOrTrackPrefix :: "string \<Rightarrow> bool" where
  "bookOrTrackPrefix prefix \<longleftrightarrow> prefix = PrefixBook \<or> prefix = PrefixTrack"

definition prefixFitsKind :: "string \<Rightarrow> kind \<Rightarrow> bool" where
  "prefixFitsKind prefix k \<longleftrightarrow>
    (let own = prefixForKind k in prefix = own \<or> bookOrTrackPrefix prefix \<and> bookOrTrackPrefix own)"

lemmas prefix_defs =
  PrefixTrack_def PrefixEpisode_def PrefixBook_def PrefixLibrary_def PrefixInvite_def
  PrefixRadioStation_def PrefixFile_def

lemma cut_at_dash:
  "CHR ''-'' \<notin> set prefix \<Longrightarrow> cut CHR ''-'' (prefix @ ''-'' @ rest) = (prefix, rest, True)"
  using cut_at [of "CHR ''-''" prefix rest] by simp

lemma parseAPIPID_apiPID:
  assumes "length prefix = 2" "CHR ''-'' \<notin> set prefix" "valid (to_upper pid)"
  shows "parseAPIPID valid (apiPID prefix pid) = Some (prefix, to_upper pid)"
  using assms by (simp add: parseAPIPID_def apiPID_def cut_at_dash del: append.simps)

end
