(* ===== verification/Passwords.thy ===== *)
theory Passwords
  imports Tokens
begin

text \<open>
  Password hashes: auth/password.go.

  The derivation itself is a parameter: \<open>argon pw salt time memory threads len\<close> is the key argon2id
  derives, as bytes.  Around it everything is modelled: the salt, the PHC text, how a stored text is
  read back and compared.  The salt an operation draws is an argument, \<^const>\<open>None\<close> where the draw
  fails.
\<close>

type_synonym kdf = "string \<Rightarrow> string \<Rightarrow> nat \<Rightarrow> nat \<Rightarrow> nat \<Rightarrow> nat \<Rightarrow> string"

section \<open>Standard base64\<close>

text \<open>\<^verbatim>\<open>base64.RawStdEncoding\<close>: the encoding of \<^const>\<open>encode\<close> with the other two letters.\<close>

definition to_std :: "char \<Rightarrow> char" where
  "to_std c = (if c = CHR ''-'' then CHR ''+'' else if c = CHR ''_'' then CHR ''/'' else c)"

definition from_std :: "char \<Rightarrow> char" where
  "from_std c = (if c = CHR ''+'' then CHR ''-'' else if c = CHR ''/'' then CHR ''_'' else c)"

definition encode_std :: "string \<Rightarrow> string" where "encode_std s = map to_std (encode s)"

definition decode_std :: "string \<Rightarrow> string option" where
  "decode_std s = (if CHR ''-'' \<in> set s \<or> CHR ''_'' \<in> set s then None else decode (map from_std s))"

section \<open>Reading a number and a literal\<close>

text \<open>\<^verbatim>\<open>fmt.Sscanf\<close> on the formats used: a literal is matched as it is, a number skips blanks, takes
  its digits, and must fit; what follows the last verb is left unread.\<close>

definition scan_literal :: "string \<Rightarrow> string \<Rightarrow> string option" where
  "scan_literal lit s = cut_prefix s lit"

definition is_blank :: "char \<Rightarrow> bool" where "is_blank c \<longleftrightarrow> is_space c \<and> c \<noteq> CHR 0x0A"

definition scan_digits :: "string \<Rightarrow> (int \<times> string) option" where
  "scan_digits s =
    (let ds = takeWhile is_digit s in if ds = [] then None else Some (digits_val ds, drop (length ds) s))"

definition scan_uint :: "int \<Rightarrow> string \<Rightarrow> (int \<times> string) option" where
  "scan_uint limit s =
    (case scan_digits (dropWhile is_blank s) of None \<Rightarrow> None
     | Some (n, r) \<Rightarrow> if n < limit then Some (n, r) else None)"

definition scan_int :: "string \<Rightarrow> (int \<times> string) option" where
  "scan_int s =
    (let t = dropWhile is_blank s;
         neg = (t \<noteq> [] \<and> hd t = CHR ''-'');
         u = (if t \<noteq> [] \<and> (hd t = CHR ''-'' \<or> hd t = CHR ''+'') then tl t else t)
     in case scan_digits u of None \<Rightarrow> None
        | Some (n, r) \<Rightarrow>
           let m = (if neg then - n else n) in if - (2 ^ 63) \<le> m \<and> m < 2 ^ 63 then Some (m, r) else None)"

section \<open>Hashing and verifying\<close>

record argon_params =
  ag_memory :: int
  ag_time :: int
  ag_threads :: int

definition productionParams :: argon_params where
  "productionParams = \<lparr>ag_memory = 64 * 1024, ag_time = 3, ag_threads = 1\<rparr>"

definition argonKeyLen :: nat where "argonKeyLen = 32"
definition argonVersion :: int where "argonVersion = 19"

definition HashPassword :: "kdf \<Rightarrow> argon_params \<Rightarrow> string option \<Rightarrow> string \<Rightarrow> string option" where
  "HashPassword argon p salt password =
    (case salt of None \<Rightarrow> None
     | Some salt \<Rightarrow>
        let key = argon password salt (nat (ag_time p)) (nat (ag_memory p)) (nat (ag_threads p)) argonKeyLen
        in Some (''$argon2id$v='' @ FormatInt argonVersion @ ''$m='' @ FormatInt (ag_memory p)
             @ '',t='' @ FormatInt (ag_time p) @ '',p='' @ FormatInt (ag_threads p)
             @ ''$'' @ encode_std salt @ ''$'' @ encode_std key))"

definition scan_params :: "string \<Rightarrow> argon_params option" where
  "scan_params s =
    (case scan_literal ''m='' s of None \<Rightarrow> None | Some s1 \<Rightarrow>
     case scan_uint (2 ^ 32) s1 of None \<Rightarrow> None | Some (m, s2) \<Rightarrow>
     case scan_literal '',t='' s2 of None \<Rightarrow> None | Some s3 \<Rightarrow>
     case scan_uint (2 ^ 32) s3 of None \<Rightarrow> None | Some (t, s4) \<Rightarrow>
     case scan_literal '',p='' s4 of None \<Rightarrow> None | Some s5 \<Rightarrow>
     case scan_uint (2 ^ 8) s5 of None \<Rightarrow> None | Some (p, _) \<Rightarrow>
       Some \<lparr>ag_memory = m, ag_time = t, ag_threads = p\<rparr>)"

definition scan_version :: "string \<Rightarrow> int option" where
  "scan_version s =
    (case scan_literal ''v='' s of None \<Rightarrow> None | Some s1 \<Rightarrow> map_option fst (scan_int s1))"

definition parsePHC :: "string \<Rightarrow> (argon_params \<times> string \<times> string) option" where
  "parsePHC hash =
    (let parts = split_on CHR ''$'' hash in
     if length parts \<noteq> 6 \<or> parts ! 1 \<noteq> ''argon2id'' then None
     else if scan_version (parts ! 2) \<noteq> Some argonVersion then None
     else case scan_params (parts ! 3) of
       None \<Rightarrow> None
     | Some p \<Rightarrow>
        if ag_memory p = 0 \<or> ag_time p = 0 \<or> ag_threads p = 0 then None
        else case decode_std (parts ! 4) of
          None \<Rightarrow> None
        | Some salt \<Rightarrow>
           (case decode_std (parts ! 5) of
              None \<Rightarrow> None
            | Some key \<Rightarrow> if key = [] then None else Some (p, salt, key)))"

definition VerifyPassword :: "kdf \<Rightarrow> string \<Rightarrow> string \<Rightarrow> bool" where
  "VerifyPassword argon hash password =
    (case parsePHC hash of
       None \<Rightarrow> False
     | Some (p, salt, key) \<Rightarrow>
        argon password salt (nat (ag_time p)) (nat (ag_memory p)) (nat (ag_threads p)) (length key) = key)"

section \<open>A hash is read back\<close>

lemma to_std_back: "n < 64 \<Longrightarrow> from_std (to_std (enc_char n)) = enc_char n"
proof -
  assume "n < 64"
  then have "enc_char n \<in> set alphabet" by (simp add: enc_char_def alphabet_length)
  moreover have "\<forall>c \<in> set alphabet. from_std (to_std c) = c"
    by (simp add: alphabet_def to_std_def from_std_def)
  ultimately show ?thesis by blast
qed

lemma decode_encode_std: "decode_std (encode_std s) = Some s"
proof -
  have "map from_std (encode_std s) = encode s"
    using sextets_less [of s] to_std_back by (auto simp: encode_std_def encode_sextets)
  moreover have "CHR ''-'' \<notin> set (encode_std s)" "CHR ''_'' \<notin> set (encode_std s)"
    by (auto simp: encode_std_def to_std_def)
  ultimately show ?thesis by (simp add: decode_std_def decode_encode)
qed

lemma enc_char_not_dollar: "n < 64 \<Longrightarrow> to_std (enc_char n) \<noteq> CHR ''$''"
proof -
  assume "n < 64"
  then have "enc_char n \<in> set alphabet" by (simp add: enc_char_def alphabet_length)
  moreover have "\<forall>c \<in> set alphabet. to_std c \<noteq> CHR ''$''" by (simp add: alphabet_def to_std_def)
  ultimately show ?thesis by blast
qed

lemma encode_std_no_dollar: "CHR ''$'' \<notin> set (encode_std s)"
proof
  assume "CHR ''$'' \<in> set (encode_std s)"
  then obtain n where "n \<in> set (sextets s)" "to_std (enc_char n) = CHR ''$''"
    by (auto simp: encode_std_def encode_sextets)
  with sextets_less [of s] enc_char_not_dollar show False by blast
qed

lemma FormatInt_nat: "0 \<le> n \<Longrightarrow> FormatInt n = show_nat (nat n)"
  by (simp add: FormatInt_def)

lemma show_nat_no_dollar: "CHR ''$'' \<notin> set (show_nat n)"
  using show_nat_digits [of n] by (auto simp: isDigits_def list_all_iff is_digit_def)

lemma show_nat_not_Nil: "show_nat n \<noteq> []"
  by (subst show_nat.simps) simp

lemma digits_not_blank: "is_digit c \<Longrightarrow> \<not> is_blank c"
  by (auto simp: is_digit_def is_blank_def is_space_def less_eq_char_def)

lemma scan_digits_show:
  assumes "r = [] \<or> \<not> is_digit (hd r)"
  shows "scan_digits (show_nat n @ r) = Some (int n, r)"
proof -
  have d: "list_all is_digit (show_nat n)" using show_nat_digits [of n] by (simp add: isDigits_def)
  with assms have "takeWhile is_digit (show_nat n @ r) = show_nat n"
    by (cases r) (auto simp: takeWhile_append2 list_all_iff)
  with show_nat_digits [of n] show_nat_not_Nil [of n] show ?thesis by (simp add: scan_digits_def)
qed

lemma drop_blanks_show: "dropWhile is_blank (show_nat n @ r) = show_nat n @ r"
proof -
  have "is_digit (hd (show_nat n))"
    using show_nat_digits [of n] by (cases "show_nat n") (auto simp: isDigits_def)
  with show_nat_not_Nil [of n] show ?thesis
    by (cases "show_nat n") (auto dest: digits_not_blank)
qed

lemma scan_uint_show:
  assumes "int n < limit" "r = [] \<or> \<not> is_digit (hd r)"
  shows "scan_uint limit (show_nat n @ r) = Some (int n, r)"
  using assms by (simp add: scan_uint_def drop_blanks_show scan_digits_show)

lemma scan_int_show:
  assumes "int n < 2 ^ 63"
  shows "scan_int (show_nat n) = Some (int n, [])"
proof -
  have "\<forall>c \<in> set (show_nat n). is_digit c"
    using show_nat_digits [of n] by (simp add: isDigits_def list_all_iff)
  then have h: "hd (show_nat n) \<noteq> CHR ''-''" "hd (show_nat n) \<noteq> CHR ''+''"
    using show_nat_not_Nil [of n] by (cases "show_nat n"; auto simp: is_digit_def)+
  have "scan_digits (show_nat n) = Some (int n, [])" using scan_digits_show [of "[]" n] by simp
  with h assms drop_blanks_show [of n "[]"] show_nat_not_Nil [of n] show ?thesis
    by (simp add: scan_int_def Let_def)
qed

lemma cut_prefix_append: "cut_prefix (p @ r) p = Some r"
  by (simp add: cut_prefix_def has_prefix_def)

definition params_ok :: "argon_params \<Rightarrow> bool" where
  "params_ok p \<longleftrightarrow> 0 < ag_memory p \<and> ag_memory p < 2 ^ 32 \<and> 0 < ag_time p \<and> ag_time p < 2 ^ 32
     \<and> 0 < ag_threads p \<and> ag_threads p < 2 ^ 8"

definition params_text :: "argon_params \<Rightarrow> string" where
  "params_text p = ''m='' @ FormatInt (ag_memory p) @ '',t='' @ FormatInt (ag_time p) @ '',p='' @ FormatInt (ag_threads p)"

lemma scan_params_text:
  assumes "params_ok p"
  shows "scan_params (params_text p) = Some p"
proof -
  obtain m t n where p: "p = \<lparr>ag_memory = int m, ag_time = int t, ag_threads = int n\<rparr>"
    using assms by (cases p) (auto simp: params_ok_def intro: that dest!: zero_less_imp_eq_int)
  have lit: "scan_literal ''m='' (''m='' @ s) = Some s" "scan_literal '',t='' ('',t='' @ s) = Some s"
    "scan_literal '',p='' ('',p='' @ s) = Some s" for s
    unfolding scan_literal_def by (rule cut_prefix_append)+
  have stop: "('',t='' @ s = [] \<or> \<not> is_digit (hd ('',t='' @ s)))"
    "('',p='' @ s = [] \<or> \<not> is_digit (hd ('',p='' @ s)))" for s by (simp_all add: is_digit_def)
  have nums: "scan_uint (2 ^ 32) (show_nat m @ '',t='' @ s) = Some (int m, '',t='' @ s)"
    "scan_uint (2 ^ 32) (show_nat t @ '',p='' @ s) = Some (int t, '',p='' @ s)"
    "scan_uint (2 ^ 8) (show_nat n) = Some (int n, [])" for s
    using assms p scan_uint_show [of m "2 ^ 32" "'',t='' @ s"] scan_uint_show [of t "2 ^ 32" "'',p='' @ s"]
      scan_uint_show [of n "2 ^ 8" "[]"] stop by (simp_all add: params_ok_def)
  show ?thesis
    unfolding scan_params_def params_text_def p
    by (simp add: lit nums FormatInt_nat del: append.simps power_numeral)
qed

lemma text_no_dollar: "CHR ''$'' \<notin> set (params_text p)" if "params_ok p"
  using that show_nat_no_dollar by (auto simp: params_text_def params_ok_def FormatInt_nat)

definition phc_text :: "argon_params \<Rightarrow> string \<Rightarrow> string \<Rightarrow> string" where
  "phc_text p salt key = join CHR ''$'' ['''', ''argon2id'', ''v='' @ FormatInt argonVersion, params_text p,
     encode_std salt, encode_std key]"

lemma parsePHC_text:
  assumes "params_ok p" "key \<noteq> []"
  shows "parsePHC (phc_text p salt key) = Some (p, salt, key)"
proof -
  have "split_on CHR ''$'' (phc_text p salt key) =
      ['''', ''argon2id'', ''v='' @ FormatInt argonVersion, params_text p, encode_std salt, encode_std key]"
    unfolding phc_text_def
    using encode_std_no_dollar text_no_dollar [OF assms(1)] show_nat_no_dollar
    by (intro split_join) (auto simp: argonVersion_def FormatInt_nat)
  moreover have "scan_version (''v='' @ FormatInt argonVersion) = Some argonVersion"
    using scan_int_show [of 19] cut_prefix_append [of "''v=''"]
    by (simp add: scan_version_def scan_literal_def argonVersion_def FormatInt_nat del: append.simps)
  moreover have "ag_memory p \<noteq> 0" "ag_time p \<noteq> 0" "ag_threads p \<noteq> 0"
    using assms(1) by (auto simp: params_ok_def)
  ultimately show ?thesis
    using assms by (simp add: parsePHC_def Let_def scan_params_text decode_encode_std del: append.simps)
qed

lemma HashPassword_text:
  "HashPassword argon p (Some salt) pw =
    Some (phc_text p salt (argon pw salt (nat (ag_time p)) (nat (ag_memory p)) (nat (ag_threads p)) argonKeyLen))"
  by (simp add: HashPassword_def phc_text_def params_text_def Let_def)

lemma stored_hash_verifies:
  assumes "HashPassword argon p (Some salt) pw = Some hash" "params_ok p"
    and "\<forall>q s t m n. length (argon q s t m n argonKeyLen) = argonKeyLen"
  shows "VerifyPassword argon hash q \<longleftrightarrow>
      argon q salt (nat (ag_time p)) (nat (ag_memory p)) (nat (ag_threads p)) argonKeyLen =
      argon pw salt (nat (ag_time p)) (nat (ag_memory p)) (nat (ag_threads p)) argonKeyLen"
proof -
  let ?key = "argon pw salt (nat (ag_time p)) (nat (ag_memory p)) (nat (ag_threads p)) argonKeyLen"
  have len: "length ?key = argonKeyLen" using assms(3) by blast
  then have "?key \<noteq> []" by (auto simp: argonKeyLen_def)
  with assms(1,2) have parsed: "parsePHC hash = Some (p, salt, ?key)"
    by (auto simp: HashPassword_text parsePHC_text)
  show ?thesis by (simp add: VerifyPassword_def parsed len)
qed

text \<open>A stored hash verifies exactly the passwords the derivation maps to the same key under the
  salt and the parameters the hash was made with, the password it was made from among them, whatever
  parameters the server hashes new passwords with by then.\<close>

theorem password_round_trip:
  assumes "HashPassword argon p (Some salt) pw = Some hash" "params_ok p"
    and "\<forall>q s t m n. length (argon q s t m n argonKeyLen) = argonKeyLen"
  shows "(VerifyPassword argon hash q \<longleftrightarrow>
      argon q salt (nat (ag_time p)) (nat (ag_memory p)) (nat (ag_threads p)) argonKeyLen =
      argon pw salt (nat (ag_time p)) (nat (ag_memory p)) (nat (ag_threads p)) argonKeyLen)
    \<and> VerifyPassword argon hash pw"
  using stored_hash_verifies [OF assms] by simp

definition demo_kdf :: kdf where
  "demo_kdf pw salt t m n len = take len (pw @ salt @ replicate len CHR ''0'')"

lemma password_round_trip_witness:
  "\<exists>hash. HashPassword demo_kdf productionParams (Some ''salt'') ''secret'' = Some hash
     \<and> VerifyPassword demo_kdf hash ''secret'' \<and> \<not> VerifyPassword demo_kdf hash ''guess''"
proof -
  obtain hash where h: "HashPassword demo_kdf productionParams (Some ''salt'') ''secret'' = Some hash"
    by (simp add: HashPassword_def Let_def)
  have ok: "params_ok productionParams" by (simp add: params_ok_def productionParams_def)
  have len: "\<forall>q s t m n. length (demo_kdf q s t m n argonKeyLen) = argonKeyLen" by (auto simp: demo_kdf_def min_def)
  have "demo_kdf ''guess'' ''salt'' 3 65536 1 argonKeyLen \<noteq> demo_kdf ''secret'' ''salt'' 3 65536 1 argonKeyLen"
    by (simp add: demo_kdf_def argonKeyLen_def)
  with password_round_trip [OF h ok len, of "''guess''"] h show ?thesis
    by (simp add: productionParams_def)
qed

end
