(* ===== verification/Accounts.thy ===== *)
theory Accounts
  imports Store Service_Base Passwords
begin

text \<open>
  Accounts: service/users.go and service/signup.go over the statements of \<open>Store\<close>.

  An operation takes the world it asks (\<open>account_world\<close>), which of its statements fail (\<open>broken\<close>) and
  the clock its statements read; it answers its result beside the tables and the news it sent, in
  order.  What follows the news elsewhere (the seeding of playlists, the delivery of notifications)
  is not modelled, and neither is the text of an audit entry.
\<close>

section \<open>State\<close>

datatype account_effect =
    ESeedStarters string
  | EUserEvent string string string
  | EAudit string string string
  | ESignupRequested string

record accounts =
  ac_store :: store
  ac_out :: "account_effect list"

text \<open>The world: the key derivation of passwords, the parameters new hashes are made with and the salt
  drawn for one, which identifiers the catalog finds well formed, the catalog user it makes for an id, and the
  shows an account follows.\<close>

record account_world =
  aw_argon :: kdf
  aw_params :: argon_params
  aw_salt :: "string option"
  aw_valid :: "string \<Rightarrow> bool"
  aw_CreateUser :: "string \<Rightarrow> wax_error + string"
  aw_shows :: "string \<Rightarrow> string list option"

definition hash_new :: "account_world \<Rightarrow> string \<Rightarrow> string option" where
  "hash_new w password = HashPassword (aw_argon w) (aw_params w) (aw_salt w) password"

definition tell :: "account_effect \<Rightarrow> accounts \<Rightarrow> accounts" where
  "tell e s = s\<lparr>ac_out := ac_out s @ [e]\<rparr>"

text \<open>A statement that may fail, on the tables of the state.\<close>

definition ask :: "bool \<Rightarrow> (store \<Rightarrow> store_error + 'a) \<Rightarrow> accounts \<Rightarrow> store_error + 'a" where
  "ask fails f s = (if fails then Inl StoreFailed else f (ac_store s))"

section \<open>Inputs\<close>

record account_create =
  in_Username :: string
  in_Password :: string
  in_DisplayName :: string
  in_Roles :: "string list"
  in_AccessMode :: string
  in_LibraryPIDs :: "string list"
  in_UploadEnabled :: bool
  in_UploadQuotaBytes :: int
  in_Permissions :: "permissions option"
  in_Pending :: bool

record account_update =
  up_DisplayName :: "string option"
  up_Roles :: "string list option"
  up_Disabled :: "bool option"
  up_AccessMode :: "string option"
  up_LibraryPIDs :: "string list"
  up_UploadEnabled :: "bool option"
  up_UploadQuotaBytes :: "int option"
  up_Permissions :: "permissions option"

record account_dto =
  dto_User :: account
  dto_LibraryPIDs :: "string list"
  dto_Identities :: "identity list"

definition validRoles :: "string list" where "validRoles = [''admin'', ''user'']"

fun roles_loop :: "string list \<Rightarrow> string list \<Rightarrow> svc_error + string list" where
  "roles_loop out [] = Inr out"
| "roles_loop out (r # rs) =
    (if \<not> List.member validRoles r then Inl (errInvalid (''unknown role '' @ r))
     else if List.member out r then roles_loop out rs
     else roles_loop (out @ [r]) rs)"

definition normalizeRoles :: "string list \<Rightarrow> svc_error + string list" where
  "normalizeRoles roles = (if roles = [] then Inr [''user''] else roles_loop [] roles)"

fun grants_loop :: "(string \<Rightarrow> bool) \<Rightarrow> string list \<Rightarrow> svc_error + string list" where
  "grants_loop valid [] = Inr []"
| "grants_loop valid (p # ps) =
    (case parseAPIPID valid p of
       None \<Rightarrow> Inl (errInvalid (''bad library pid '' @ p))
     | Some (prefix, pid) \<Rightarrow>
        if prefix \<noteq> PrefixLibrary then Inl (errInvalid (''bad library pid '' @ p))
        else map_sum id (Cons pid) (grants_loop valid ps))"

definition normalizeAccess :: "(string \<Rightarrow> bool) \<Rightarrow> string \<Rightarrow> string list \<Rightarrow> svc_error + string \<times> string list" where
  "normalizeAccess valid mode pids =
    (if mode = '''' \<or> mode = ''all'' then Inr (''all'', [])
     else if mode = ''granted'' then map_sum id (Pair ''granted'') (grants_loop valid pids)
     else Inl (errInvalid ''libraryAccess mode must be all or granted''))"

definition sameRoles :: "string list \<Rightarrow> string list \<Rightarrow> bool" where
  "sameRoles a b = (if length a \<noteq> length b then False else list_all (\<lambda>r. List.member a r) b)"

record account_rights =
  rt_roles :: "string list"
  rt_disabled :: bool
  rt_upload :: bool
  rt_quota :: int
  rt_access :: string
  rt_permissions :: permissions

definition rightsOf :: "account \<Rightarrow> account_rights" where
  "rightsOf u = \<lparr>rt_roles = a_Roles u, rt_disabled = a_Disabled u, rt_upload = a_UploadEnabled u,
     rt_quota = a_UploadQuotaBytes u, rt_access = a_LibraryAccess u, rt_permissions = permissionsOf u\<rparr>"

definition sameRights :: "account_rights \<Rightarrow> account_rights \<Rightarrow> bool" where
  "sameRights a b \<longleftrightarrow> sameRoles (rt_roles a) (rt_roles b) \<and> rt_disabled a = rt_disabled b
     \<and> rt_upload a = rt_upload b \<and> rt_quota a = rt_quota b \<and> rt_access a = rt_access b
     \<and> samePermissions (rt_permissions a) (rt_permissions b)"

section \<open>News\<close>

definition seedableAccount :: "account \<Rightarrow> bool" where
  "seedableAccount u \<longleftrightarrow> \<not> a_Disabled u \<and> \<not> a_Pending u"

text \<open>\<open>seedStartersFor\<close> up to the seeding itself.\<close>

definition seedStartersFor :: "account \<Rightarrow> accounts \<Rightarrow> accounts" where
  "seedStartersFor u s = (if \<not> seedableAccount u then s else tell (ESeedStarters (a_ID u)) s)"

definition emitUserEvent :: "(store_call \<Rightarrow> bool) \<Rightarrow> string \<Rightarrow> string \<Rightarrow> string \<Rightarrow> accounts \<Rightarrow> accounts" where
  "emitUserEvent broken uid kind pid s =
    (if broken CAppendEvent then s else tell (EUserEvent uid kind pid) s)"

definition syncKeyReachEpoch :: string where "syncKeyReachEpoch = ''reach_epoch:''"
definition syncKeyGrantEpoch :: string where "syncKeyGrantEpoch = ''grant_epoch:''"

definition bumpEpoch :: "(store_call \<Rightarrow> bool) \<Rightarrow> string \<Rightarrow> accounts \<Rightarrow> accounts" where
  "bumpEpoch broken key s =
    (if broken (CSyncIncrement key) then s else s\<lparr>ac_store := SyncStateIncrement key (ac_store s)\<rparr>)"

definition bumpGrantEpoch :: "(store_call \<Rightarrow> bool) \<Rightarrow> string \<Rightarrow> accounts \<Rightarrow> accounts" where
  "bumpGrantEpoch broken uid s = bumpEpoch broken (syncKeyGrantEpoch @ uid) s"

definition bumpReachEpoch :: "(store_call \<Rightarrow> bool) \<Rightarrow> string \<Rightarrow> accounts \<Rightarrow> accounts" where
  "bumpReachEpoch broken uid s = bumpEpoch broken (syncKeyReachEpoch @ uid) s"

definition reachChanged :: "account_world \<Rightarrow> (store_call \<Rightarrow> bool) \<Rightarrow> string \<Rightarrow> accounts \<Rightarrow> accounts" where
  "reachChanged w broken uid s =
    (let s' = bumpReachEpoch broken uid (bumpGrantEpoch broken uid s) in
     case aw_shows w uid of
       None \<Rightarrow> s'
     | Some shows \<Rightarrow> foldl (\<lambda>s show. emitUserEvent broken uid ''subscription'' show s) s' shows)"

section \<open>Accounts\<close>

definition accountFor :: "(store_call \<Rightarrow> bool) \<Rightarrow> account \<Rightarrow> accounts \<Rightarrow> svc_error + account_dto" where
  "accountFor broken u s =
    (case (if a_LibraryAccess u = ''granted''
           then (if broken CGrants then Inl StoreFailed
                 else Inr (map (\<lambda>pid. PrefixLibrary @ ''-'' @ pid) (LibraryGrants (a_ID u) (ac_store s))))
           else Inr []) of
       Inl e \<Rightarrow> Inl internal
     | Inr pids \<Rightarrow>
        if broken CIdentities then Inl internal
        else Inr \<lparr>dto_User = u, dto_LibraryPIDs = pids,
                  dto_Identities = IdentitiesByUser (a_ID u) (ac_store s)\<rparr>)"

definition BootstrapRequired :: "(store_call \<Rightarrow> bool) \<Rightarrow> accounts \<Rightarrow> svc_error + bool" where
  "BootstrapRequired broken s =
    (if broken CCountAdmins then Inl internal else Inr (CountEnabledAdmins (ac_store s) = 0))"

text \<open>The row a create writes, before its permissions.\<close>

definition new_account :: "account_create \<Rightarrow> string \<Rightarrow> string \<Rightarrow> string list \<Rightarrow> string \<Rightarrow> string \<Rightarrow> account" where
  "new_account i uid hash roles mode catalogUser =
    \<lparr>a_ID = uid, a_Username = TrimSpace (in_Username i), a_DisplayName = TrimSpace (in_DisplayName i),
     a_PasswordHash = hash, a_Roles = roles, a_Disabled = False, a_Pending = in_Pending i,
     a_PermDownload = False, a_PermDelete = False, a_PermExplicit = False,
     a_PermSharedOutputs = False, a_PermPodcasts = False, a_MaxTranscodeKbps = 0,
     a_UploadEnabled = in_UploadEnabled i,
     a_UploadQuotaBytes = (if in_UploadQuotaBytes i > 0 then in_UploadQuotaBytes i else 0),
     a_LibraryAccess = mode, a_WaxbinUserPID = catalogUser, a_TagRules = NoDoc,
     a_CreatedAt = zero_time, a_UpdatedAt = zero_time\<rparr>"

text \<open>The checks of a create that come before anything is made.\<close>

definition create_input :: "account_world \<Rightarrow> (store_call \<Rightarrow> bool) \<Rightarrow> account_create \<Rightarrow> accounts
    \<Rightarrow> svc_error + string list \<times> string \<times> string list \<times> string" where
  "create_input w broken i s =
    (let username = TrimSpace (in_Username i) in
     if username = '''' \<or> username \<noteq> in_Username i
     then Inl (errInvalid ''username must not be empty or carry surrounding whitespace'')
     else if length username > 64 then Inl (errInvalid ''username must be at most 64 characters'')
     else case normalizeRoles (in_Roles i) of
       Inl e \<Rightarrow> Inl e
     | Inr roles \<Rightarrow>
        (case normalizeAccess (aw_valid w) (in_AccessMode i) (in_LibraryPIDs i) of
           Inl e \<Rightarrow> Inl e
         | Inr (mode, grants) \<Rightarrow>
            (case ask (broken CUserByUsername) (UserByUsername username) s of
               Inr u \<Rightarrow> Inl (SvcError KindConflict ''username is taken'')
             | Inl RowNotFound \<Rightarrow>
                (case (if in_Password i = '''' then Some '''' else hash_new w (in_Password i)) of
                   None \<Rightarrow> Inl internal
                 | Some hash \<Rightarrow> Inr (roles, mode, grants, hash))
             | Inl e \<Rightarrow> Inl internal)))"

definition createAccount ::
    "account_world \<Rightarrow> (store_call \<Rightarrow> bool) \<Rightarrow> string \<Rightarrow> time \<Rightarrow> account_create \<Rightarrow> bool \<Rightarrow> accounts
      \<Rightarrow> (svc_error + account_dto) \<times> accounts" where
  "createAccount w broken ulid now i onlyIfNoAdmin s =
    (case create_input w broken i s of
       Inl e \<Rightarrow> (Inl e, s)
     | Inr (roles, mode, grants, hash) \<Rightarrow>
        (let uid = ''us-'' @ ulid in
         case aw_CreateUser w uid of
           Inl e \<Rightarrow> (Inl (classify e), s)
         | Inr catalogUser \<Rightarrow>
            (let perms = (case in_Permissions i of None \<Rightarrow> DefaultPermissions | Some p \<Rightarrow> p) in
             case validatePermissions perms of
               Some e \<Rightarrow> (Inl (perm_svc e), s)
             | None \<Rightarrow>
                (case ask (broken CCreateUser) (store_CreateUser now
                        (applyPermissions (new_account i uid hash roles mode catalogUser) perms) onlyIfNoAdmin) s of
                   Inl RowConflict \<Rightarrow> (Inl (SvcError KindConflict ''username is taken''), s)
                 | Inl e \<Rightarrow> (Inl internal, s)
                 | Inr (u, st) \<Rightarrow>
                    (let s1 = s\<lparr>ac_store := st\<rparr> in
                     case (if grants = [] then Inr st else ask (broken CSetGrants) (SetLibraryGrants uid grants) s1) of
                       Inl e \<Rightarrow> (Inl internal, s1)
                     | Inr st2 \<Rightarrow>
                        (let s2 = seedStartersFor u (s1\<lparr>ac_store := st2\<rparr>)
                         in (accountFor broken u s2, s2)))))))"

definition CreateAccount where
  "CreateAccount w broken ulid now i s = createAccount w broken ulid now i False s"

definition bootstrap_input :: "string \<Rightarrow> string \<Rightarrow> string \<Rightarrow> account_create" where
  "bootstrap_input username password displayName =
    \<lparr>in_Username = username, in_Password = password, in_DisplayName = displayName,
     in_Roles = [''admin''], in_AccessMode = ''all'', in_LibraryPIDs = [], in_UploadEnabled = False,
     in_UploadQuotaBytes = 0, in_Permissions = None, in_Pending = False\<rparr>"

definition Bootstrap where
  "Bootstrap w broken ulid now username password displayName s =
    (case createAccount w broken ulid now (bootstrap_input username password displayName) True s of
       (Inr acct, s') \<Rightarrow> (Inr acct, s')
     | (Inl e, s') \<Rightarrow>
        if KindOf e = KindConflict \<and> BootstrapRequired broken s' = Inr False
        then (Inl (SvcError KindConflict ''the server already has an administrator''), s')
        else (Inl e, s'))"

definition Account :: "(store_call \<Rightarrow> bool) \<Rightarrow> string \<Rightarrow> accounts \<Rightarrow> svc_error + account_dto" where
  "Account broken uid s =
    (case ask (broken CUserByID) (UserByID uid) s of
       Inl RowNotFound \<Rightarrow> Inl (errNotFound (''no user with id '' @ uid))
     | Inl e \<Rightarrow> Inl internal
     | Inr u \<Rightarrow> accountFor broken u s)"

fun page_accounts :: "(store_call \<Rightarrow> bool) \<Rightarrow> accounts \<Rightarrow> account list \<Rightarrow> svc_error + account_dto list" where
  "page_accounts broken s [] = Inr []"
| "page_accounts broken s (u # us) =
    (case accountFor broken u s of
       Inl e \<Rightarrow> Inl e | Inr acct \<Rightarrow> map_sum id (Cons acct) (page_accounts broken s us))"

text \<open>A page and the cursor of the next one, empty on the last.\<close>

definition Accounts :: "(store_call \<Rightarrow> bool) \<Rightarrow> string \<Rightarrow> nat \<Rightarrow> accounts \<Rightarrow> svc_error + account_dto list \<times> string" where
  "Accounts broken cursor limit s =
    (if broken CListUsers then Inl internal
     else let users = ListUsers cursor (limit + 1) (ac_store s);
              more = (length users > limit);
              users' = (if more then take limit users else users)
          in case page_accounts broken s users' of
               Inl e \<Rightarrow> Inl e
             | Inr accts \<Rightarrow>
                Inr (accts, if more \<and> users' \<noteq> [] then to_lower (a_Username (last users')) else ''''))"

section \<open>Editing an account\<close>

text \<open>The edit of the row in hand, with whether it loses an administrator and whether it changes
  what the account may see; up to the access mode, which is written on its own.\<close>

definition edit_roles :: "account_update \<Rightarrow> account \<Rightarrow> svc_error + account \<times> bool \<times> bool" where
  "edit_roles upd u =
    (case up_Roles upd of
       None \<Rightarrow> Inr (u, False, False)
     | Some rs \<Rightarrow>
        (case normalizeRoles rs of
           Inl e \<Rightarrow> Inl e
         | Inr roles \<Rightarrow>
            Inr (u\<lparr>a_Roles := roles\<rparr>,
                 hasRole (a_Roles u) ''admin'' \<and> \<not> hasRole roles ''admin'',
                 hasRole (a_Roles u) ''admin'' \<noteq> hasRole roles ''admin'')))"

definition edit_disabled :: "account_update \<Rightarrow> account \<Rightarrow> bool \<Rightarrow> account \<times> bool" where
  "edit_disabled upd u loses =
    (case up_Disabled upd of None \<Rightarrow> (u, loses)
     | Some d \<Rightarrow> (u\<lparr>a_Disabled := d\<rparr>, loses \<or> d \<and> \<not> a_Disabled u \<and> hasRole (a_Roles u) ''admin''))"

definition edit_labels :: "account_update \<Rightarrow> account \<Rightarrow> account" where
  "edit_labels upd u =
    (let u = (case up_DisplayName upd of None \<Rightarrow> u | Some n \<Rightarrow> u\<lparr>a_DisplayName := TrimSpace n\<rparr>);
         u = (case up_UploadEnabled upd of None \<Rightarrow> u | Some b \<Rightarrow> u\<lparr>a_UploadEnabled := b\<rparr>)
     in case up_UploadQuotaBytes upd of None \<Rightarrow> u | Some n \<Rightarrow> u\<lparr>a_UploadQuotaBytes := n\<rparr>)"

definition edit_row :: "account_update \<Rightarrow> account \<Rightarrow> svc_error + account \<times> bool \<times> bool" where
  "edit_row upd u0 =
    (case edit_roles upd u0 of
       Inl e \<Rightarrow> Inl e
     | Inr (u1, loses1, vis) \<Rightarrow>
        (let (u2, loses) = edit_disabled upd u1 loses1;
             u = edit_labels upd u2
         in if (case up_UploadQuotaBytes upd of None \<Rightarrow> False | Some n \<Rightarrow> n < 0)
            then Inl (errInvalid ''uploadQuotaBytes must not be negative'')
            else case up_Permissions upd of
                   None \<Rightarrow> Inr (u, loses, vis)
                 | Some p \<Rightarrow>
                    (case validatePermissions p of
                       Some e \<Rightarrow> Inl (perm_svc e)
                     | None \<Rightarrow> Inr (applyPermissions u p, loses,
                                    vis \<or> contentRulesChanged (permissionsOf u) p))))"

text \<open>The answer to a write of the row that failed.\<close>

definition update_refusal :: "string \<Rightarrow> store_error \<Rightarrow> svc_error" where
  "update_refusal uid e =
    (case e of
       RowConflict \<Rightarrow> SvcError KindConflict ''this is the last enabled administrator''
     | RowNotFound \<Rightarrow> errNotFound (''no user with id '' @ uid)
     | StoreFailed \<Rightarrow> internal)"

text \<open>The write of the edited row and what follows it; \<open>grants\<close> says whether the grants were
  written.\<close>

definition write_account ::
    "account_world \<Rightarrow> (store_call \<Rightarrow> bool) \<Rightarrow> time \<Rightarrow> account \<Rightarrow> account \<Rightarrow> bool \<Rightarrow> bool \<Rightarrow> bool \<Rightarrow> accounts
      \<Rightarrow> (svc_error + account_dto) \<times> accounts" where
  "write_account w broken now before u loses vis grants s =
    (let rightsChanged = (grants \<or> \<not> sameRights (rightsOf before) (rightsOf u)) in
     case ask (broken CUpdateUser) (UpdateUser (broken CProbe) now u loses) s of
       Inl e \<Rightarrow>
        (Inl (update_refusal (a_ID u) e),
         if vis \<and> grants then reachChanged w broken (a_ID u) s else s)
     | Inr st \<Rightarrow>
        (let s1 = s\<lparr>ac_store := st\<rparr>;
             s2 = (if vis then reachChanged w broken (a_ID u) s1 else s1);
             s3 = (if rightsChanged then emitUserEvent broken (a_ID u) ''account'' '''' s2 else s2)
         in (accountFor broken u s3, s3)))"

definition UpdateAccount ::
    "account_world \<Rightarrow> (store_call \<Rightarrow> bool) \<Rightarrow> time \<Rightarrow> string \<Rightarrow> account_update \<Rightarrow> accounts
      \<Rightarrow> (svc_error + account_dto) \<times> accounts" where
  "UpdateAccount w broken now uid upd s =
    (case ask (broken CUserByID) (UserByID uid) s of
       Inl RowNotFound \<Rightarrow> (Inl (errNotFound (''no user with id '' @ uid)), s)
     | Inl e \<Rightarrow> (Inl internal, s)
     | Inr before \<Rightarrow>
        (case edit_row upd before of
           Inl e \<Rightarrow> (Inl e, s)
         | Inr (u, loses, vis) \<Rightarrow>
            (case up_AccessMode upd of
               None \<Rightarrow> write_account w broken now before u loses vis False s
             | Some m \<Rightarrow>
                (case normalizeAccess (aw_valid w) m (up_LibraryPIDs upd) of
                   Inl e \<Rightarrow> (Inl e, s)
                 | Inr (mode, grants) \<Rightarrow>
                    (case ask (broken CSetGrants) (SetLibraryGrants (a_ID u) grants) s of
                       Inl e \<Rightarrow> (Inl internal, s)
                     | Inr st \<Rightarrow>
                        write_account w broken now before (u\<lparr>a_LibraryAccess := mode\<rparr>) loses True True
                          (s\<lparr>ac_store := st\<rparr>))))))"

definition SetAccountPassword ::
    "account_world \<Rightarrow> (store_call \<Rightarrow> bool) \<Rightarrow> time \<Rightarrow> string \<Rightarrow> string \<Rightarrow> accounts
      \<Rightarrow> svc_error option \<times> accounts" where
  "SetAccountPassword w broken now uid newPassword s =
    (case ask (broken CUserByID) (UserByID uid) s of
       Inl RowNotFound \<Rightarrow> (Some (errNotFound (''no user with id '' @ uid)), s)
     | Inl e \<Rightarrow> (Some internal, s)
     | Inr u \<Rightarrow>
        (case hash_new w newPassword of
           None \<Rightarrow> (Some internal, s)
         | Some hash \<Rightarrow>
            (case ask (broken CUpdateUser) (UpdateUser (broken CProbe) now (u\<lparr>a_PasswordHash := hash\<rparr>) False) s of
               Inl e \<Rightarrow> (Some internal, s)
             | Inr st \<Rightarrow> (None, s\<lparr>ac_store := st\<rparr>))))"

text \<open>The account, or \<^const>\<open>None\<close> for every way a login fails.  The verification against a dummy hash
  that levels the timing is left out: its answer is not used.\<close>

definition VerifyLocalLogin ::
    "account_world \<Rightarrow> (store_call \<Rightarrow> bool) \<Rightarrow> string \<Rightarrow> string \<Rightarrow> accounts \<Rightarrow> svc_error + account option" where
  "VerifyLocalLogin w broken username password s =
    (case ask (broken CUserByUsername) (UserByUsername username) s of
       Inl RowNotFound \<Rightarrow> Inr None
     | Inl e \<Rightarrow> Inl internal
     | Inr u \<Rightarrow>
        if a_PasswordHash u = '''' \<or> a_Disabled u \<or> a_Pending u then Inr None
        else if \<not> VerifyPassword (aw_argon w) (a_PasswordHash u) password then Inr None
        else Inr (Some u))"

section \<open>Sign-in through a provider\<close>

record oidc_identity =
  oi_Provider :: string
  oi_Subject :: string
  oi_Email :: string
  oi_Username :: string
  oi_Name :: string
  oi_Roles :: "string list option"

text \<open>\<^verbatim>\<open>utf8.ValidString\<close>.\<close>

definition cont_byte :: "nat \<Rightarrow> bool" where "cont_byte b \<longleftrightarrow> 0x80 \<le> b \<and> b \<le> 0xBF"

text \<open>For a leading byte: how many bytes follow, and the range of the first of them.\<close>

definition lead_byte :: "nat \<Rightarrow> (nat \<times> nat \<times> nat) option" where
  "lead_byte b =
    (if b < 0x80 then Some (0, 0x80, 0xBF)
     else if b < 0xC2 then None
     else if b \<le> 0xDF then Some (1, 0x80, 0xBF)
     else if b = 0xE0 then Some (2, 0xA0, 0xBF)
     else if b = 0xED then Some (2, 0x80, 0x9F)
     else if b \<le> 0xEF then Some (2, 0x80, 0xBF)
     else if b = 0xF0 then Some (3, 0x90, 0xBF)
     else if b \<le> 0xF3 then Some (3, 0x80, 0xBF)
     else if b = 0xF4 then Some (3, 0x80, 0x8F)
     else None)"

function valid_utf8 :: "nat list \<Rightarrow> bool" where
  "valid_utf8 [] = True"
| "valid_utf8 (b # bs) =
    (case lead_byte b of
       None \<Rightarrow> False
     | Some (n, lo, hi) \<Rightarrow>
        n \<le> length bs
        \<and> (case take n bs of [] \<Rightarrow> True | c # cs \<Rightarrow> lo \<le> c \<and> c \<le> hi \<and> list_all cont_byte cs)
        \<and> valid_utf8 (drop n bs))"
  by pat_completeness auto
termination by (relation "measure length") auto

definition ValidString :: "string \<Rightarrow> bool" where "ValidString s = valid_utf8 (map byte_of s)"

function drop_invalid :: "string \<Rightarrow> string" where
  "drop_invalid s = (if s \<noteq> [] \<and> \<not> ValidString s then drop_invalid (butlast s) else s)"
  by auto
termination by (relation "measure length") auto

declare drop_invalid.simps [simp del]

definition truncateUTF8 :: "string \<Rightarrow> nat \<Rightarrow> string" where
  "truncateUTF8 s maxBytes = (if length s \<le> maxBytes then s else drop_invalid (take maxBytes s))"

definition usernameHint :: "oidc_identity \<Rightarrow> string" where
  "usernameHint ident =
    (let name = oi_Username ident;
         name = (if name = '''' \<and> oi_Email ident \<noteq> '''' then fst (cut CHR ''@'' (oi_Email ident)) else name);
         name = (if name = '''' then oi_Subject ident else name);
         name = truncateUTF8 (TrimSpace name) 60
     in if name = '''' then ''sso-user'' else name)"

definition oidc_input :: "oidc_identity \<Rightarrow> string \<Rightarrow> account_create" where
  "oidc_input ident name =
    \<lparr>in_Username = name, in_Password = '''', in_DisplayName = oi_Name ident,
     in_Roles = (case oi_Roles ident of None \<Rightarrow> [''user''] | Some rs \<Rightarrow> rs),
     in_AccessMode = ''all'', in_LibraryPIDs = [], in_UploadEnabled = False,
     in_UploadQuotaBytes = 0, in_Permissions = None, in_Pending = False\<rparr>"

text \<open>The attempts at a free name, in order; an attempt draws its own identifier.\<close>

fun provision ::
    "account_world \<Rightarrow> (store_call \<Rightarrow> bool) \<Rightarrow> (nat \<Rightarrow> string) \<Rightarrow> time \<Rightarrow> oidc_identity \<Rightarrow> string \<Rightarrow> nat list
      \<Rightarrow> accounts \<Rightarrow> (svc_error + account_dto option) \<times> accounts" where
  "provision w broken ulids now ident base [] s = (Inr None, s)"
| "provision w broken ulids now ident base (k # ks) s =
    (let name = (if k > 0 then base @ FormatInt (int k + 1) else base) in
     case CreateAccount w broken (ulids k) now (oidc_input ident name) s of
       (Inr acct, s') \<Rightarrow> (Inr (Some acct), s')
     | (Inl e, s') \<Rightarrow>
        if KindOf e \<noteq> KindConflict then (Inl e, s')
        else provision w broken ulids now ident base ks s')"

definition oidc_attempts :: "nat list" where "oidc_attempts = [0..<20]"

text \<open>The role mapping of the provider, applied to an account that signs in: the account as it is
  then, or the failure of its write.\<close>

definition apply_oidc_roles ::
    "account_world \<Rightarrow> (store_call \<Rightarrow> bool) \<Rightarrow> time \<Rightarrow> oidc_identity \<Rightarrow> account \<Rightarrow> accounts
      \<Rightarrow> (svc_error + account) \<times> accounts" where
  "apply_oidc_roles w broken now ident u s =
    (case oi_Roles ident of
       None \<Rightarrow> (Inr u, s)
     | Some roles \<Rightarrow>
        if sameRoles (a_Roles u) roles then (Inr u, s)
        else let demotes = (hasRole (a_Roles u) ''admin'' \<and> \<not> hasRole roles ''admin'');
                 u' = u\<lparr>a_Roles := roles\<rparr>
             in case ask (broken CUpdateUser) (UpdateUser (broken CProbe) now u' demotes) s of
                  Inl RowConflict \<Rightarrow> (Inr u, s)
                | Inl e \<Rightarrow> (Inl internal, s)
                | Inr st \<Rightarrow>
                   (let s1 = s\<lparr>ac_store := st\<rparr>;
                        s2 = (if hasRole (a_Roles u) ''admin'' \<noteq> hasRole roles ''admin''
                              then reachChanged w broken (a_ID u) s1 else s1)
                    in (Inr u', emitUserEvent broken (a_ID u) ''account'' '''' s2)))"

definition link_of :: "oidc_identity \<Rightarrow> string \<Rightarrow> identity" where
  "link_of ident uid = \<lparr>id_UserID = uid, id_Provider = oi_Provider ident,
     id_Subject = oi_Subject ident, id_Email = oi_Email ident\<rparr>"

definition sign_in_linked ::
    "account_world \<Rightarrow> (store_call \<Rightarrow> bool) \<Rightarrow> time \<Rightarrow> oidc_identity \<Rightarrow> identity \<Rightarrow> accounts
      \<Rightarrow> (svc_error + account_dto) \<times> accounts" where
  "sign_in_linked w broken now ident existing s =
    (case ask (broken CUserByID) (UserByID (id_UserID existing)) s of
       Inl e \<Rightarrow> (Inl internal, s)
     | Inr u \<Rightarrow>
        if a_Disabled u then (Inl (SvcError KindConflict ''this account is disabled''), s)
        else if a_Pending u then (Inl (SvcError KindConflict ''this account is waiting for approval''), s)
        else case apply_oidc_roles w broken now ident u s of
          (Inl e, s1) \<Rightarrow> (Inl e, s1)
        | (Inr u', s1) \<Rightarrow>
           if oi_Email ident = id_Email existing then (accountFor broken u' s1, s1)
           else case ask (broken CLinkIdentity) (LinkIdentity (link_of ident (a_ID u'))) s1 of
             Inl e \<Rightarrow> (Inl internal, s1)
           | Inr st \<Rightarrow> (let s2 = s1\<lparr>ac_store := st\<rparr> in (accountFor broken u' s2, s2)))"

definition ResolveOidcAccount ::
    "account_world \<Rightarrow> (store_call \<Rightarrow> bool) \<Rightarrow> (nat \<Rightarrow> string) \<Rightarrow> time \<Rightarrow> oidc_identity \<Rightarrow> accounts
      \<Rightarrow> (svc_error + account_dto) \<times> accounts" where
  "ResolveOidcAccount w broken ulids now ident s =
    (case ask (broken CIdentityBySubject) (IdentityBySubject (oi_Provider ident) (oi_Subject ident)) s of
       Inr existing \<Rightarrow> sign_in_linked w broken now ident existing s
     | Inl RowNotFound \<Rightarrow>
        (case provision w broken ulids now ident (usernameHint ident) oidc_attempts s of
           (Inl e, s1) \<Rightarrow> (Inl e, s1)
         | (Inr None, s1) \<Rightarrow>
            (Inl (SvcError KindConflict (''could not find a free username for '' @ usernameHint ident)), s1)
         | (Inr (Some acct), s1) \<Rightarrow>
            (case ask (broken CLinkIdentity) (LinkIdentity (link_of ident (a_ID (dto_User acct)))) s1 of
               Inl e \<Rightarrow> (Inl internal, s1)
             | Inr st \<Rightarrow> (let s2 = s1\<lparr>ac_store := st\<rparr> in (Account broken (a_ID (dto_User acct)) s2, s2))))
     | Inl e \<Rightarrow> (Inl internal, s))"

section \<open>Self-serve registration and invites\<close>

datatype signup_state = SignupPending | SignupActive

definition signup_input :: "string \<Rightarrow> string \<Rightarrow> string \<Rightarrow> account_create" where
  "signup_input username password displayName =
    \<lparr>in_Username = username, in_Password = password, in_DisplayName = displayName, in_Roles = [],
     in_AccessMode = '''', in_LibraryPIDs = [], in_UploadEnabled = False, in_UploadQuotaBytes = 0,
     in_Permissions = None, in_Pending = True\<rparr>"

definition invited_input :: "invite \<Rightarrow> string \<Rightarrow> string \<Rightarrow> string \<Rightarrow> account_create" where
  "invited_input iv username password displayName =
    \<lparr>in_Username = username, in_Password = password, in_DisplayName = displayName,
     in_Roles = iv_Roles iv, in_AccessMode = iv_LibraryAccess iv,
     in_LibraryPIDs = (if iv_LibraryAccess iv = ''granted''
                       then map (\<lambda>g. PrefixLibrary @ ''-'' @ g) (iv_LibraryGrants iv) else []),
     in_UploadEnabled = iv_UploadEnabled iv, in_UploadQuotaBytes = iv_UploadQuotaBytes iv,
     in_Permissions = iv_Perms iv, in_Pending = False\<rparr>"

definition Signup ::
    "account_world \<Rightarrow> (store_call \<Rightarrow> bool) \<Rightarrow> (string \<Rightarrow> string) \<Rightarrow> bool \<Rightarrow> string \<Rightarrow> time
      \<Rightarrow> string \<Rightarrow> string \<Rightarrow> string \<Rightarrow> string \<Rightarrow> accounts
      \<Rightarrow> (svc_error + account_dto \<times> signup_state) \<times> accounts" where
  "Signup w broken h signupEnabled ulid now username password displayName token s =
    (let inviteToken = TrimSpace token in
     if password = '''' then (Inl (errInvalid ''password is required''), s)
     else if inviteToken = '''' then
       (if \<not> signupEnabled
        then (Inl (SvcError KindForbidden ''self-serve signup is disabled on this server''), s)
        else case CreateAccount w broken ulid now (signup_input username password displayName) s of
               (Inl e, s1) \<Rightarrow> (Inl e, s1)
             | (Inr acct, s1) \<Rightarrow>
                (Inr (acct, SignupPending),
                 tell (EAudit (a_ID (dto_User acct)) ''user.request'' (a_ID (dto_User acct)))
                   (tell (ESignupRequested (a_ID (dto_User acct))) s1)))
     else case ask (broken CUserByUsername) (UserByUsername (TrimSpace username)) s of
       Inr u \<Rightarrow> (Inl (SvcError KindConflict ''username is taken''), s)
     | Inl RowNotFound \<Rightarrow>
        (case ask (broken CConsumeInvite) (ConsumeInvite now (h inviteToken)) s of
           Inl RowNotFound \<Rightarrow> (Inl (SvcError KindForbidden ''this invite is not valid''), s)
         | Inl e \<Rightarrow> (Inl internal, s)
         | Inr (iv, st) \<Rightarrow>
            (let s1 = s\<lparr>ac_store := st\<rparr> in
             case CreateAccount w broken ulid now (invited_input iv username password displayName) s1 of
               (Inl e, s2) \<Rightarrow>
                (Inl e, if broken CUnconsumeInvite then s2
                        else s2\<lparr>ac_store := UnconsumeInvite (iv_ID iv) (ac_store s2)\<rparr>)
             | (Inr acct, s2) \<Rightarrow>
                (Inr (acct, SignupActive),
                 tell (EAudit (a_ID (dto_User acct)) ''user.signup'' (a_ID (dto_User acct))) s2)))
     | Inl e \<Rightarrow> (Inl internal, s))"

record signup_approval =
  ap_Roles :: "string list option"
  ap_AccessMode :: string
  ap_LibraryPIDs :: "string list"
  ap_Permissions :: "permissions option"
  ap_UploadEnabled :: "bool option"
  ap_UploadQuotaBytes :: "int option"

definition approval_update :: "signup_approval \<Rightarrow> account_update" where
  "approval_update ap =
    \<lparr>up_DisplayName = None, up_Roles = ap_Roles ap, up_Disabled = None,
     up_AccessMode = (if ap_AccessMode ap \<noteq> '''' then Some (ap_AccessMode ap) else None),
     up_LibraryPIDs = (if ap_AccessMode ap \<noteq> '''' then ap_LibraryPIDs ap else []),
     up_UploadEnabled = ap_UploadEnabled ap, up_UploadQuotaBytes = ap_UploadQuotaBytes ap,
     up_Permissions = ap_Permissions ap\<rparr>"

text \<open>\<open>broken\<close> is of the statements of the update the approval starts with, \<open>broken'\<close> of those
  after it.\<close>

definition ApproveSignup ::
    "account_world \<Rightarrow> (store_call \<Rightarrow> bool) \<Rightarrow> (store_call \<Rightarrow> bool) \<Rightarrow> time \<Rightarrow> time \<Rightarrow> string \<Rightarrow> string
      \<Rightarrow> signup_approval \<Rightarrow> accounts \<Rightarrow> (svc_error + account_dto) \<times> accounts" where
  "ApproveSignup w broken broken' now now' actor uid ap s =
    (case ask (broken CUserByID) (UserByID uid) s of
       Inl RowNotFound \<Rightarrow> (Inl (errNotFound (''no user with id '' @ uid)), s)
     | Inl e \<Rightarrow> (Inl internal, s)
     | Inr u \<Rightarrow>
        if \<not> a_Pending u then (Inl (SvcError KindConflict ''this account is not a pending request''), s)
        else case UpdateAccount w broken now uid (approval_update ap) s of
          (Inl e, s1) \<Rightarrow> (Inl e, s1)
        | (Inr acct, s1) \<Rightarrow>
           (case ask (broken' CUserByID) (UserByID uid) s1 of
              Inl e \<Rightarrow> (Inl internal, s1)
            | Inr u1 \<Rightarrow>
               (let u2 = u1\<lparr>a_Pending := False\<rparr> in
                case ask (broken' CUpdateUser) (UpdateUser (broken' CProbe) now' u2 False) s1 of
                  Inl e \<Rightarrow> (Inl internal, s1)
                | Inr st \<Rightarrow>
                   (let s2 = seedStartersFor u2 (s1\<lparr>ac_store := st\<rparr>)
                    in (accountFor broken' u2 s2, tell (EAudit actor ''user.approve'' (a_ID u2)) s2)))))"

definition RejectSignup ::
    "(store_call \<Rightarrow> bool) \<Rightarrow> string \<Rightarrow> string \<Rightarrow> accounts \<Rightarrow> svc_error option \<times> accounts" where
  "RejectSignup broken actor uid s =
    (case ask (broken CUserByID) (UserByID uid) s of
       Inl RowNotFound \<Rightarrow> (Some (errNotFound (''no user with id '' @ uid)), s)
     | Inl e \<Rightarrow> (Some internal, s)
     | Inr u \<Rightarrow>
        if \<not> a_Pending u then (Some (SvcError KindConflict ''this account is not a pending request''), s)
        else case ask (broken CDeleteUser) (store_DeleteUser (broken CProbe) uid False) s of
          Inl e \<Rightarrow> (Some internal, s)
        | Inr st \<Rightarrow> (None, tell (EAudit actor ''user.reject'' (a_ID u)) (s\<lparr>ac_store := st\<rparr>)))"

record invite_create =
  ic_Note :: string
  ic_Roles :: "string list"
  ic_AccessMode :: string
  ic_LibraryPIDs :: "string list"
  ic_Permissions :: "permissions option"
  ic_UploadEnabled :: bool
  ic_UploadQuotaBytes :: int
  ic_MaxUses :: int
  ic_ExpiresAtNS :: int

text \<open>The token is from 24 random bytes, \<^const>\<open>None\<close> where the draw fails; the answer is the row
  beside the token.  \<open>now\<close> is read for the expiry, \<open>now'\<close> for the row.\<close>

definition CreateInvite ::
    "(string \<Rightarrow> bool) \<Rightarrow> (store_call \<Rightarrow> bool) \<Rightarrow> (string \<Rightarrow> string) \<Rightarrow> string option \<Rightarrow> string \<Rightarrow> time \<Rightarrow> time
      \<Rightarrow> string \<Rightarrow> invite_create \<Rightarrow> accounts \<Rightarrow> (svc_error + invite \<times> string) \<times> accounts" where
  "CreateInvite valid broken h entropy ulid now now' actor i s =
    (case normalizeRoles (ic_Roles i) of
       Inl e \<Rightarrow> (Inl e, s)
     | Inr roles \<Rightarrow>
        (case normalizeAccess valid (ic_AccessMode i) (ic_LibraryPIDs i) of
           Inl e \<Rightarrow> (Inl e, s)
         | Inr (mode, grants) \<Rightarrow>
            if ic_MaxUses i < 0 then (Inl (errInvalid ''maxUses must not be negative''), s)
            else if ic_ExpiresAtNS i \<noteq> 0 \<and> ic_ExpiresAtNS i < now
            then (Inl (errInvalid ''expiresAt is in the past''), s)
            else case (case ic_Permissions i of None \<Rightarrow> None | Some p \<Rightarrow> validatePermissions p) of
              Some e \<Rightarrow> (Inl (perm_svc e), s)
            | None \<Rightarrow>
               (case entropy of
                  None \<Rightarrow> (Inl internal, s)
                | Some raw \<Rightarrow>
                   (let token = ''wxi_'' @ encode raw;
                        iv = \<lparr>iv_ID = PrefixInvite @ ''-'' @ ulid, iv_TokenHash = h token,
                              iv_Note = TrimSpace (ic_Note i), iv_Roles = roles, iv_LibraryAccess = mode,
                              iv_LibraryGrants = grants, iv_Perms = ic_Permissions i,
                              iv_UploadEnabled = ic_UploadEnabled i,
                              iv_UploadQuotaBytes = ic_UploadQuotaBytes i, iv_MaxUses = ic_MaxUses i,
                              iv_UsedCount = 0, iv_Revoked = False, iv_ExpiresAtNS = ic_ExpiresAtNS i,
                              iv_CreatedBy = (case ask (broken CUserByID) (UserByID actor) s of
                                                Inl e \<Rightarrow> actor | Inr u \<Rightarrow> a_Username u),
                              iv_CreatedAtNS = now'\<rparr>
                    in case ask (broken CInsertInvite) (InsertInvite iv) s of
                         Inl e \<Rightarrow> (Inl internal, s)
                       | Inr st \<Rightarrow> (Inr (iv, token),
                           tell (EAudit actor ''invite.create'' (iv_ID iv)) (s\<lparr>ac_store := st\<rparr>))))))"

definition RevokeInvite ::
    "(store_call \<Rightarrow> bool) \<Rightarrow> string \<Rightarrow> string \<Rightarrow> accounts \<Rightarrow> svc_error option \<times> accounts" where
  "RevokeInvite broken actor iid s =
    (case (case ask (broken CInviteByID) (InviteByID iid) s of
             Inl e \<Rightarrow> Inl e
           | Inr iv \<Rightarrow> ask (broken CRevokeInvite) (store_RevokeInvite iid) s) of
       Inl RowNotFound \<Rightarrow> (Some (errNotFound (''no invite with id '' @ iid)), s)
     | Inl e \<Rightarrow> (Some internal, s)
     | Inr st \<Rightarrow> (None, tell (EAudit actor ''invite.revoke'' iid) (s\<lparr>ac_store := st\<rparr>)))"


end
