(* ===== verification/Account_Runs.thy ===== *)
theory Account_Runs
  imports Accounts
begin

text \<open>
  The account tables under any interleaving of the operations: one step is one statement, and what
  an operation wrote it had read (\<open>edit\<close>).  The facts rest on two readings of the roles column: an
  operation looks for a role in the list, the guards of the statements for its letters in the text.
\<close>

section \<open>The roles column\<close>

lemma has_prefix_simps [simp]:
  "has_prefix s []" "\<not> has_prefix [] (p # ps)"
  "has_prefix (c # s) (p # ps) \<longleftrightarrow> c = p \<and> has_prefix s ps"
  by (auto simp: has_prefix_def)

lemma join_split_on: "join sep (split_on sep s) = s"
proof (induction s)
  case Nil
  then show ?case by simp
next
  case (Cons c s)
  then show ?case
    by (cases "split_on sep s" rule: remdups_adj.cases) (auto simp: split_on_not_Nil)
qed

lemma joinRoles_splitRoles [simp]: "joinRoles (splitRoles s) = s"
  by (simp add: joinRoles_def splitRoles_def join_split_on)

definition roles_ok :: "string list \<Rightarrow> bool" where "roles_ok rs \<longleftrightarrow> set rs \<subseteq> set validRoles"

lemma contains_role:
  "contains (CHR '','' # ''admin'' @ CHR '','' # s) '',admin,''"
  "contains (CHR '','' # ''user'' @ CHR '','' # s) '',admin,'' \<longleftrightarrow> contains (CHR '','' # s) '',admin,''"
  by simp_all

lemma contains_admin:
  assumes "set rs \<subseteq> {''admin'', ''user''}"
  shows "contains (CHR '','' # join CHR '','' rs @ [CHR '','']) '',admin,'' \<longleftrightarrow> ''admin'' \<in> set rs"
  using assms
proof (induction "CHR '',''" rs rule: join.induct)
  case (2 s)
  then show ?case using contains_role [of "[]"] by (cases "s = ''admin''") auto
next
  case (3 s t ss)
  note parts = contains_role [of "join CHR '','' (t # ss) @ [CHR '','']"]
  from 3(2) consider "s = ''admin''" | "s = ''user''" by auto
  then show ?case
  proof cases
    case 1
    with parts(1) show ?thesis by (simp only: join.simps append.simps append_assoc list.set insert_iff) simp
  next
    case 2
    have "contains (CHR '','' # join CHR '','' (t # ss) @ [CHR '','']) '',admin,'' \<longleftrightarrow> ''admin'' \<in> set (t # ss)"
      using 3 by simp
    with parts(2) 2 show ?thesis
      by (simp only: join.simps append.simps append_assoc list.set insert_iff) simp
  qed
qed simp

lemma to_lower_roles:
  assumes "set rs \<subseteq> {''admin'', ''user''}"
  shows "to_lower (join CHR '','' rs) = join CHR '','' rs"
  using assms
proof (induction "CHR '',''" rs rule: join.induct)
  case (2 s)
  then show ?case by (auto simp: to_lower_def lower_char_def)
next
  case (3 s t ss)
  then show ?case by (auto simp: to_lower_def lower_char_def)
qed (simp add: to_lower_def)

lemma hasRole_iff: "hasRole rs r \<longleftrightarrow> r \<in> set rs"
  by (auto simp: hasRole_def list_ex_iff)

lemma enabled_admin_iff:
  assumes "roles_ok (a_Roles u)"
  shows "enabled_admin u \<longleftrightarrow> \<not> a_Disabled u \<and> \<not> a_Pending u \<and> hasRole (a_Roles u) ''admin''"
proof -
  from assms have "set (a_Roles u) \<subseteq> {''admin'', ''user''}" by (simp add: roles_ok_def validRoles_def)
  then show ?thesis
    using contains_admin [of "a_Roles u"]
    by (simp add: enabled_admin_def joinRoles_def to_lower_roles hasRole_iff del: contains.simps)
qed

lemma split_roles_ok:
  assumes "roles_ok rs"
  shows "splitRoles (joinRoles rs) = rs"
proof (cases "rs = []")
  case False
  moreover have "\<forall>x \<in> set rs. CHR '','' \<notin> set x" "\<forall>x \<in> set rs. x \<noteq> ''''"
    using assms by (auto simp: roles_ok_def validRoles_def)
  moreover from this(2) False have "join CHR '','' rs \<noteq> ''''" by (cases rs rule: remdups_adj.cases) auto
  ultimately show ?thesis by (simp add: splitRoles_def joinRoles_def split_join)
qed (simp add: splitRoles_def joinRoles_def)

section \<open>Runs of statements\<close>

inductive account_step :: "store \<Rightarrow> store \<Rightarrow> bool" where
  create: "store_CreateUser now u guarded st = Inr (u', st') \<Longrightarrow> roles_ok (a_Roles u) \<Longrightarrow> account_step st st'"
| edit: "UpdateUser probe now u guarded st = Inr st' \<Longrightarrow> roles_ok (a_Roles u) \<Longrightarrow>
    u0 \<in> set (st_users st) \<Longrightarrow> a_ID u0 = a_ID u \<Longrightarrow> enabled_admin u0 \<and> \<not> enabled_admin u \<longrightarrow> guarded \<Longrightarrow>
    account_step st st'"
| delete: "store_DeleteUser probe uid guarded st = Inr st' \<Longrightarrow>
    u0 \<in> set (st_users st) \<Longrightarrow> a_ID u0 = uid \<Longrightarrow> enabled_admin u0 \<longrightarrow> guarded \<Longrightarrow> account_step st st'"
| grants: "SetLibraryGrants uid pids st = Inr st' \<Longrightarrow> uid \<in> a_ID ` set (st_users st) \<Longrightarrow> account_step st st'"
| link: "LinkIdentity i st = Inr st' \<Longrightarrow> account_step st st'"
| other: "st_users st' = st_users st \<Longrightarrow> st_grants st' = st_grants st \<Longrightarrow>
    st_identities st' = st_identities st \<Longrightarrow> account_step st st'"

definition user_ids :: "store \<Rightarrow> string set" where "user_ids st = a_ID ` set (st_users st)"

definition subject_of :: "identity \<Rightarrow> string \<times> string" where
  "subject_of i = (id_Provider i, id_Subject i)"

definition accounts_ok :: "store \<Rightarrow> bool" where
  "accounts_ok st \<longleftrightarrow> distinct (map a_ID (st_users st))
     \<and> distinct (map (\<lambda>u. to_lower (a_Username u)) (st_users st))
     \<and> (\<forall>u \<in> set (st_users st). roles_ok (a_Roles u))
     \<and> fst ` set (st_grants st) \<subseteq> user_ids st \<and> id_UserID ` set (st_identities st) \<subseteq> user_ids st
     \<and> distinct (map subject_of (st_identities st))"

definition has_admin :: "store \<Rightarrow> bool" where
  "has_admin st \<longleftrightarrow> (\<exists>u \<in> set (st_users st). enabled_admin u)"

lemma other_admin_iff:
  "other_admin uid st \<longleftrightarrow> (\<exists>u \<in> set (st_users st). a_ID u \<noteq> uid \<and> enabled_admin u)"
  by (auto simp: other_admin_def list_ex_iff)

lemma enabled_admin_cong:
  "a_Disabled u = a_Disabled v \<Longrightarrow> a_Pending u = a_Pending v \<Longrightarrow>
    joinRoles (a_Roles u) = joinRoles (a_Roles v) \<Longrightarrow> enabled_admin u \<longleftrightarrow> enabled_admin v"
  by (simp add: enabled_admin_def)

lemma written_row_simps [simp]:
  "a_ID (written_row now u r) = a_ID r" "a_Username (written_row now u r) = a_Username r"
  "a_Roles (written_row now u r) = splitRoles (joinRoles (a_Roles u))"
  "a_Disabled (written_row now u r) = a_Disabled u" "a_Pending (written_row now u r) = a_Pending u"
  "enabled_admin (written_row now u r) = enabled_admin u"
  by (simp_all add: written_row_def enabled_admin_def)

lemma store_CreateUser_Inr:
  assumes "store_CreateUser now u guarded st = Inr (u', st')"
  obtains r where "st' = st\<lparr>st_users := st_users st @ [r]\<rparr>" "u' = u\<lparr>a_CreatedAt := now, a_UpdatedAt := now\<rparr>"
    "r = u'\<lparr>a_Roles := splitRoles (joinRoles (a_Roles u))\<rparr>"
    "a_ID u \<notin> user_ids st" "\<forall>v \<in> set (st_users st). to_lower (a_Username v) \<noteq> to_lower (a_Username u)"
    "guarded \<longrightarrow> \<not> has_admin st"
proof (rule that)
  let ?u = "u\<lparr>a_CreatedAt := now, a_UpdatedAt := now\<rparr>"
  from assms show "st' = st\<lparr>st_users := st_users st @ [u'\<lparr>a_Roles := splitRoles (joinRoles (a_Roles u))\<rparr>]\<rparr>"
    "u' = ?u" by (auto simp: store_CreateUser_def Let_def split: if_splits)
  from assms show "a_ID u \<notin> user_ids st" "guarded \<longrightarrow> \<not> has_admin st"
    "\<forall>v \<in> set (st_users st). to_lower (a_Username v) \<noteq> to_lower (a_Username u)"
    by (auto simp: store_CreateUser_def list_ex_iff user_ids_def has_admin_def split: if_splits)
qed simp
lemma list_ex_id: "list_ex (\<lambda>r. a_ID r = x) us \<longleftrightarrow> x \<in> a_ID ` set us"
  by (auto simp: list_ex_iff)

lemma user_ids_simps [simp]:
  "user_ids (st\<lparr>st_grants := gs\<rparr>) = user_ids st" "user_ids (st\<lparr>st_identities := is\<rparr>) = user_ids st"
  by (simp_all add: user_ids_def)

lemma UpdateUser_Inr:
  assumes "UpdateUser probe now u guarded st = Inr st'"
  shows "st' = st\<lparr>st_users := map (\<lambda>r. if a_ID r = a_ID u then written_row now u r else r) (st_users st)\<rparr>"
    "a_ID u \<in> user_ids st" "guarded \<longrightarrow> other_admin (a_ID u) st"
  using assms by (simp_all add: UpdateUser_def list_ex_id user_ids_def split: if_splits)

lemma map_rows:
  assumes "\<And>r. f (g r) = f r"
  shows "map f (map (\<lambda>r. if P r then g r else r) us) = map f us"
    "f ` set (map (\<lambda>r. if P r then g r else r) us) = f ` set us"
proof -
  show "map f (map (\<lambda>r. if P r then g r else r) us) = map f us" using assms by (induction us) auto
  then show "f ` set (map (\<lambda>r. if P r then g r else r) us) = f ` set us"
    by (metis set_map)
qed

lemma user_ids_edit:
  "user_ids (st\<lparr>st_users := map (\<lambda>r. if P r then written_row now u r else r) (st_users st)\<rparr>) = user_ids st"
  using map_rows(2) [of a_ID "written_row now u" P "st_users st"] by (simp add: user_ids_def)

lemma accounts_ok_edit:
  assumes "accounts_ok st" "roles_ok (a_Roles u)"
  shows "accounts_ok (st\<lparr>st_users := map (\<lambda>r. if a_ID r = a_ID u then written_row now u r else r) (st_users st)\<rparr>)"
proof -
  have "\<forall>v \<in> set (map (\<lambda>r. if a_ID r = a_ID u then written_row now u r else r) (st_users st)). roles_ok (a_Roles v)"
    using assms by (auto simp: accounts_ok_def split_roles_ok)
  with assms(1) user_ids_edit [where st = st and now = now and u = u and P = "\<lambda>r. a_ID r = a_ID u"]
  show ?thesis by (simp add: accounts_ok_def map_rows del: map_map set_map)
qed

lemma user_ids_found: "UserByID uid st = Inr u \<Longrightarrow> uid \<in> user_ids st"
  by (drule UserByID_InrD) (auto simp: user_ids_def)

lemma LinkIdentity_Inr:
  assumes "LinkIdentity i st = Inr st'"
  obtains (new) "st' = st\<lparr>st_identities := st_identities st @ [i]\<rparr>" "id_UserID i \<in> user_ids st"
      "subject_of i \<notin> subject_of ` set (st_identities st)"
  | (again) P where "st' = st\<lparr>st_identities := map (\<lambda>r. if P r then r\<lparr>id_Email := id_Email i\<rparr> else r)
        (st_identities st)\<rparr>"
      "\<exists>r \<in> set (st_identities st). subject_of r = subject_of i \<and> id_UserID r = id_UserID i"
proof (cases "list_ex (\<lambda>r. id_Provider r = id_Provider i \<and> id_Subject r = id_Subject i) (st_identities st)")
  case True
  with assms have "st' = st\<lparr>st_identities := map (\<lambda>r. if id_Provider r = id_Provider i \<and> id_Subject r = id_Subject i
      then r\<lparr>id_Email := id_Email i\<rparr> else r) (st_identities st)\<rparr>"
    "\<exists>r \<in> set (st_identities st). subject_of r = subject_of i \<and> id_UserID r = id_UserID i"
    by (auto simp: LinkIdentity_def list_ex_iff subject_of_def split: if_splits)
  then show ?thesis by (rule again)
next
  case False
  with assms have "st' = st\<lparr>st_identities := st_identities st @ [i]\<rparr>"
    "UserByID (id_UserID i) st \<noteq> Inl RowNotFound" "subject_of i \<notin> subject_of ` set (st_identities st)"
    by (auto simp: LinkIdentity_def list_ex_iff subject_of_def split: if_splits)
  moreover from this(2) have "id_UserID i \<in> user_ids st"
    by (cases "UserByID (id_UserID i) st") (auto dest: user_ids_found UserByID_InlD)
  ultimately show ?thesis by (intro new)
qed

lemma accounts_ok_step: "account_step st st' \<Longrightarrow> accounts_ok st \<Longrightarrow> accounts_ok st'"
proof (induction rule: account_step.induct)
  case (create now u guarded st u' st')
  then obtain r where r: "st' = st\<lparr>st_users := st_users st @ [r]\<rparr>"
    "r = u\<lparr>a_CreatedAt := now, a_UpdatedAt := now, a_Roles := splitRoles (joinRoles (a_Roles u))\<rparr>"
    "a_ID u \<notin> user_ids st" "\<forall>v \<in> set (st_users st). to_lower (a_Username v) \<noteq> to_lower (a_Username u)"
    by (elim store_CreateUser_Inr) auto
  have "user_ids st' = insert (a_ID u) (user_ids st)" using r(1,2) by (auto simp: user_ids_def)
  with r create(2,3) show ?case by (auto simp: accounts_ok_def split_roles_ok user_ids_def)
next
  case (edit probe now u guarded st st' u0)
  then show ?case using UpdateUser_Inr(1) [OF edit(1)] by (simp add: accounts_ok_edit)
next
  case (delete probe uid guarded st st' u0)
  then have st': "st_users st' = filter (\<lambda>r. a_ID r \<noteq> uid) (st_users st)"
    "st_grants st' = filter (\<lambda>g. fst g \<noteq> uid) (st_grants st)"
    "st_identities st' = filter (\<lambda>i. id_UserID i \<noteq> uid) (st_identities st)"
    by (auto simp: store_DeleteUser_def split: if_splits)
  then have "user_ids st' = user_ids st - {uid}" by (auto simp: user_ids_def)
  with st' delete(5) show ?case by (auto simp: accounts_ok_def distinct_map_filter)
next
  case (grants uid pids st st')
  then show ?case
    by (fastforce simp: SetLibraryGrants_def accounts_ok_def user_ids_def image_subset_iff split: if_splits)
next
  case (link i st st')
  from link(1) show ?case
  proof (cases rule: LinkIdentity_Inr)
    case new
    with link(2) show ?thesis by (auto simp: accounts_ok_def)
  next
    case (again P)
    have "map subject_of (map (\<lambda>r. if P r then r\<lparr>id_Email := id_Email i\<rparr> else r) (st_identities st)) =
        map subject_of (st_identities st)"
      "id_UserID ` set (map (\<lambda>r. if P r then r\<lparr>id_Email := id_Email i\<rparr> else r) (st_identities st)) =
        id_UserID ` set (st_identities st)"
      by (rule map_rows; simp add: subject_of_def)+
    with again link(2) show ?thesis by (simp add: accounts_ok_def del: map_map set_map)
  qed
next
  case (other st' st)
  then show ?case by (simp add: accounts_ok_def user_ids_def)
qed

interpretation account_tables: transition_system accounts_ok account_step accounts_ok
  by unfold_locales (auto intro: accounts_ok_step)

section \<open>An administrator remains\<close>

lemma same_id_same_row:
  "accounts_ok st \<Longrightarrow> u \<in> set (st_users st) \<Longrightarrow> v \<in> set (st_users st) \<Longrightarrow> a_ID u = a_ID v \<Longrightarrow> u = v"
  by (auto simp: accounts_ok_def distinct_map inj_on_def)

lemma UserByID_eq:
  assumes "accounts_ok st" "u \<in> set (st_users st)"
  shows "UserByID (a_ID u) st = Inr u"
proof (cases "UserByID (a_ID u) st")
  case (Inl e)
  with assms(2) show ?thesis by (auto dest: UserByID_InlD)
next
  case (Inr v)
  with UserByID_InrD [OF Inr] assms same_id_same_row show ?thesis by metis
qed

lemma has_admin_step:
  "account_step st st' \<Longrightarrow> accounts_ok st \<Longrightarrow> has_admin st \<Longrightarrow> has_admin st'"
proof (induction rule: account_step.induct)
  case (create now u guarded st u' st')
  then show ?case by (elim store_CreateUser_Inr) (auto simp: has_admin_def)
next
  case (edit probe now u guarded st st' u0)
  note st' = UpdateUser_Inr [OF edit(1)]
  from edit(7) obtain v where v: "v \<in> set (st_users st)" "enabled_admin v" by (auto simp: has_admin_def)
  obtain r where r: "r \<in> set (st_users st)" "enabled_admin r" "a_ID r \<noteq> a_ID u \<or> enabled_admin u"
  proof (cases "a_ID v = a_ID u \<and> \<not> enabled_admin u")
    case True
    with v edit(3-6) same_id_same_row have "guarded" by metis
    with st'(3) that show thesis by (auto simp: other_admin_iff)
  next
    case False
    with v that show thesis by auto
  qed
  let ?f = "\<lambda>r. if a_ID r = a_ID u then written_row now u r else r"
  have "?f r \<in> set (st_users st')" using r(1) by (simp add: st'(1))
  moreover have "enabled_admin (?f r)" using r by auto
  ultimately show ?case by (auto simp: has_admin_def)
next
  case (delete probe uid guarded st st' u0)
  from delete(1) have st': "st_users st' = filter (\<lambda>r. a_ID r \<noteq> uid) (st_users st)"
    "guarded \<longrightarrow> other_admin uid st"
    by (auto simp: store_DeleteUser_def split: if_splits)
  from delete(6) obtain v where v: "v \<in> set (st_users st)" "enabled_admin v" by (auto simp: has_admin_def)
  show ?case
  proof (cases "a_ID v = uid")
    case True
    with v delete(2-5) same_id_same_row have "guarded" by metis
    with st' show ?thesis by (auto simp: has_admin_def other_admin_iff)
  next
    case False
    with v st' show ?thesis by (auto simp: has_admin_def)
  qed
next
  case (grants uid pids st st')
  then show ?case by (auto simp: SetLibraryGrants_def has_admin_def split: if_splits)
next
  case (link i st st')
  from link(1) show ?case by (cases rule: LinkIdentity_Inr) (use link(3) in \<open>auto simp: has_admin_def\<close>)
next
  case (other st' st)
  then show ?case by (simp add: has_admin_def)
qed

interpretation admin_tables:
  transition_system "\<lambda>st. accounts_ok st \<and> has_admin st" account_step "\<lambda>st. accounts_ok st \<and> has_admin st"
  by unfold_locales (auto intro: accounts_ok_step has_admin_step)

section \<open>Every operation is a run\<close>

lemma UpdateUser_users: "UpdateUser probe now u g st = Inr st' \<Longrightarrow> user_ids st' = user_ids st"
  using UpdateUser_Inr(1) [of probe now u g st st'] user_ids_edit by simp

lemma tell_simps [simp]: "ac_store (tell e s) = ac_store s" "ac_store (seedStartersFor u s) = ac_store s"
  "ac_store (emitUserEvent broken uid kind pid s) = ac_store s"
  by (simp_all add: tell_def seedStartersFor_def emitUserEvent_def)

lemma emit_all [simp]:
  "ac_store (foldl (\<lambda>s show. emitUserEvent broken uid kind show s) s pids) = ac_store s"
  by (induction pids arbitrary: s) simp_all

lemma bump_tables [simp]:
  "st_users (ac_store (bumpEpoch broken key s)) = st_users (ac_store s)"
  "st_grants (ac_store (bumpEpoch broken key s)) = st_grants (ac_store s)"
  "st_identities (ac_store (bumpEpoch broken key s)) = st_identities (ac_store s)"
  by (simp_all add: bumpEpoch_def SyncStateIncrement_def)

lemma reach_tables [simp]:
  "st_users (ac_store (reachChanged w broken uid s)) = st_users (ac_store s)"
  "st_grants (ac_store (reachChanged w broken uid s)) = st_grants (ac_store s)"
  "st_identities (ac_store (reachChanged w broken uid s)) = st_identities (ac_store s)"
  by (auto simp: reachChanged_def Let_def bumpReachEpoch_def bumpGrantEpoch_def split: option.split)

lemma reach_step: "account_step (ac_store s) (ac_store (reachChanged w broken uid s))"
  by (rule account_step.other) simp_all

lemma roles_loop_ok: "roles_loop out rs = Inr roles \<Longrightarrow> roles_ok out \<Longrightarrow> roles_ok roles"
  by (induction out rs rule: roles_loop.induct)
    (auto simp: roles_ok_def List.member_iff split: if_splits)

lemma normalizeRoles_ok: "normalizeRoles rs = Inr roles \<Longrightarrow> roles_ok roles"
  by (auto simp: normalizeRoles_def roles_ok_def validRoles_def dest!: roles_loop_ok split: if_splits)

lemma applyPermissions_simps [simp]:
  "a_ID (applyPermissions u p) = a_ID u" "a_Username (applyPermissions u p) = a_Username u"
  "a_Roles (applyPermissions u p) = a_Roles u" "a_Disabled (applyPermissions u p) = a_Disabled u"
  "a_Pending (applyPermissions u p) = a_Pending u" "a_PasswordHash (applyPermissions u p) = a_PasswordHash u"
  by (simp_all add: applyPermissions_def Let_def)

lemma edit_labels_simps [simp]:
  "a_ID (edit_labels upd u) = a_ID u" "a_Username (edit_labels upd u) = a_Username u"
  "a_Roles (edit_labels upd u) = a_Roles u" "a_Disabled (edit_labels upd u) = a_Disabled u"
  "a_Pending (edit_labels upd u) = a_Pending u" "a_PasswordHash (edit_labels upd u) = a_PasswordHash u"
  by (simp_all add: edit_labels_def Let_def split: option.split)

text \<open>What an edit changes of the row, and that it says so when an administrator is lost.\<close>

lemma edit_row_Inr:
  assumes "edit_row upd u0 = Inr (u, loses, vis)" "roles_ok (a_Roles u0)"
  shows "a_ID u = a_ID u0" "a_Username u = a_Username u0" "roles_ok (a_Roles u)" "a_Pending u = a_Pending u0"
    "enabled_admin u0 \<and> \<not> enabled_admin u \<longrightarrow> loses"
    "hasRole (a_Roles u0) ''admin'' \<noteq> hasRole (a_Roles u) ''admin'' \<longrightarrow> vis"
proof -
  from assms(1) obtain u1 loses1 vis1 where one: "edit_roles upd u0 = Inr (u1, loses1, vis1)"
    by (auto simp: edit_row_def split: sum.splits)
  obtain u2 loses2 where two: "edit_disabled upd u1 loses1 = (u2, loses2)"
    by (cases "edit_disabled upd u1 loses1")
  from assms(1) one two have r: "edit_roles upd u0 = Inr (u1, loses1, vis1)"
    "edit_disabled upd u1 loses1 = (u2, loses)" "vis1 \<longrightarrow> vis" "a_ID u = a_ID u2"
    "a_Username u = a_Username u2" "a_Roles u = a_Roles u2" "a_Disabled u = a_Disabled u2"
    "a_Pending u = a_Pending u2"
    by (auto simp: edit_row_def Let_def split: option.splits if_splits)
  have u1: "a_ID u1 = a_ID u0" "a_Username u1 = a_Username u0" "a_Disabled u1 = a_Disabled u0"
    "a_Pending u1 = a_Pending u0" "roles_ok (a_Roles u1)"
    "hasRole (a_Roles u0) ''admin'' \<noteq> hasRole (a_Roles u1) ''admin'' \<longrightarrow> vis1"
    "hasRole (a_Roles u0) ''admin'' \<and> \<not> hasRole (a_Roles u1) ''admin'' \<longrightarrow> loses1"
    using r(1) assms(2)
    by (auto simp: edit_roles_def dest: normalizeRoles_ok split: option.splits sum.splits)
  have u2: "a_ID u2 = a_ID u1" "a_Username u2 = a_Username u1" "a_Pending u2 = a_Pending u1"
    "a_Roles u2 = a_Roles u1" "loses1 \<longrightarrow> loses"
    "a_Disabled u2 \<and> \<not> a_Disabled u1 \<and> hasRole (a_Roles u1) ''admin'' \<longrightarrow> loses"
    using r(2) by (auto simp: edit_disabled_def split: option.splits)
  show "a_ID u = a_ID u0" "a_Username u = a_Username u0" "a_Pending u = a_Pending u0"
    "hasRole (a_Roles u0) ''admin'' \<noteq> hasRole (a_Roles u) ''admin'' \<longrightarrow> vis"
    using r u1 u2 by auto
  show ok: "roles_ok (a_Roles u)" using r(6) u1(5) u2(4) by simp
  show "enabled_admin u0 \<and> \<not> enabled_admin u \<longrightarrow> loses"
    using r u1 u2 enabled_admin_iff [OF ok] enabled_admin_iff [OF assms(2)] by auto
qed

lemma ask_Inr: "ask fails f s = Inr x \<Longrightarrow> f (ac_store s) = Inr x"
  by (auto simp: ask_def split: if_splits)

lemma step_run: "account_step st st1 \<Longrightarrow> account_step\<^sup>*\<^sup>* st1 st2 \<Longrightarrow> account_step\<^sup>*\<^sup>* st st2"
  by (rule converse_rtranclp_into_rtranclp)

lemma write_account_run:
  assumes "u0 \<in> set (st_users (ac_store s))" "a_ID u0 = a_ID u" "roles_ok (a_Roles u)"
    "enabled_admin u0 \<and> \<not> enabled_admin u \<longrightarrow> loses"
  shows "account_step\<^sup>*\<^sup>* (ac_store s) (ac_store (snd (write_account w broken now before u loses vis grants s)))"
proof (cases "ask (broken CUpdateUser) (UpdateUser (broken CProbe) now u loses) s")
  case (Inl e)
  then show ?thesis by (auto simp: write_account_def Let_def intro: reach_step)
next
  case (Inr st)
  from ask_Inr [OF this] have "account_step (ac_store s) st"
    using assms by (intro account_step.edit [of "broken CProbe" now u loses])
  moreover from Inr have "ac_store (snd (write_account w broken now before u loses vis grants s)) =
      (if vis then ac_store (reachChanged w broken (a_ID u) (s\<lparr>ac_store := st\<rparr>)) else st)"
    by (simp add: write_account_def Let_def)
  moreover have "account_step st (ac_store (reachChanged w broken (a_ID u) (s\<lparr>ac_store := st\<rparr>)))"
    using reach_step [of "s\<lparr>ac_store := st\<rparr>" w broken "a_ID u"] by simp
  ultimately show ?thesis by (auto intro: step_run)
qed

text \<open>An update refuses and leaves everything, or writes the row it read and edited, after the grants
  where the request names an access mode.\<close>

lemma UpdateAccount_cases:
  obtains (refused) "snd (UpdateAccount w broken now uid upd s) = s"
  | (row) before u loses vis where "UserByID uid (ac_store s) = Inr before"
      "edit_row upd before = Inr (u, loses, vis)"
      "UpdateAccount w broken now uid upd s = write_account w broken now before u loses vis False s"
  | (access) before u loses vis mode grants st where "UserByID uid (ac_store s) = Inr before"
      "edit_row upd before = Inr (u, loses, vis)" "SetLibraryGrants (a_ID u) grants (ac_store s) = Inr st"
      "UpdateAccount w broken now uid upd s =
        write_account w broken now before (u\<lparr>a_LibraryAccess := mode\<rparr>) loses True True (s\<lparr>ac_store := st\<rparr>)"
proof (cases "ask (broken CUserByID) (UserByID uid) s")
  case (Inl e)
  then show ?thesis by (intro refused) (auto simp: UpdateAccount_def split: store_error.split)
next
  case before: (Inr before)
  show ?thesis
  proof (cases "edit_row upd before")
    case (Inl e)
    with before show ?thesis by (intro refused) (simp add: UpdateAccount_def)
  next
    case edit: (Inr p)
    obtain u loses vis where p: "p = (u, loses, vis)" by (cases p)
    show ?thesis
    proof (cases "\<exists>m mode grants st. up_AccessMode upd = Some m
        \<and> normalizeAccess (aw_valid w) m (up_LibraryPIDs upd) = Inr (mode, grants)
        \<and> ask (broken CSetGrants) (SetLibraryGrants (a_ID u) grants) s = Inr st")
      case True
      then obtain m mode grants st where a: "up_AccessMode upd = Some m"
        "normalizeAccess (aw_valid w) m (up_LibraryPIDs upd) = Inr (mode, grants)"
        "ask (broken CSetGrants) (SetLibraryGrants (a_ID u) grants) s = Inr st" by blast
      with before edit p show ?thesis
        by (intro access [OF ask_Inr [OF before] _ ask_Inr [OF a(3)]]) (simp_all add: UpdateAccount_def)
    next
      case False
      show ?thesis
      proof (cases "up_AccessMode upd")
        case None
        with before edit p show ?thesis
          by (intro row [OF ask_Inr [OF before]]) (simp_all add: UpdateAccount_def)
      next
        case (Some m)
        with False before edit p show ?thesis
          by (intro refused) (auto simp: UpdateAccount_def split: sum.split)
      qed
    qed
  qed
qed

lemma UpdateAccount_run:
  assumes "accounts_ok (ac_store s)"
  shows "account_step\<^sup>*\<^sup>* (ac_store s) (ac_store (snd (UpdateAccount w broken now uid upd s)))"
proof -
  have ok: "roles_ok (a_Roles before)" if "UserByID uid (ac_store s) = Inr before" for before
    using assms UserByID_InrD [OF that] by (auto simp: accounts_ok_def)
  show ?thesis
  proof (cases rule: UpdateAccount_cases [of w broken now uid upd s])
    case refused
    then show ?thesis by simp
  next
    case (row before u loses vis)
    note e = edit_row_Inr [OF row(2) ok [OF row(1)]]
    show ?thesis using row(3) write_account_run [OF _ _ e(3,5)] UserByID_InrD [OF row(1)] e(1) by simp
  next
    case (access before u loses vis mode grants st)
    note e = edit_row_Inr [OF access(2) ok [OF access(1)]] and b = UserByID_InrD [OF access(1)]
    have "account_step (ac_store s) st"
      using access(3) b e(1) by (intro account_step.grants [of "a_ID u" grants]) force+
    moreover have "st_users st = st_users (ac_store s)"
      using access(3) by (auto simp: SetLibraryGrants_def split: if_splits)
    moreover have "enabled_admin (u\<lparr>a_LibraryAccess := mode\<rparr>) = enabled_admin u" by (simp add: enabled_admin_def)
    ultimately show ?thesis
      using access(4) write_account_run [of before "s\<lparr>ac_store := st\<rparr>" "u\<lparr>a_LibraryAccess := mode\<rparr>" loses w broken
          now before True True] b e
      by (auto intro: step_run)
  qed
qed

lemma accountFor_Inr: "accountFor broken u s = Inr acct \<Longrightarrow> dto_User acct = u"
  by (auto simp: accountFor_def split: if_splits)

lemma create_input_Inr:
  assumes "create_input w broken i s = Inr (roles, mode, grants, hash)"
  shows "roles_ok roles" "TrimSpace (in_Username i) = in_Username i"
  using assms
  by (auto simp: create_input_def Let_def dest: normalizeRoles_ok
      split: if_splits sum.splits prod.splits store_error.splits option.splits)

text \<open>A create refuses and leaves everything, or writes one new row and then its grants.\<close>

lemma createAccount_cases:
  assumes "createAccount w broken ulid now i g s = (r, s')"
  obtains (refused) e where "r = Inl e" "s' = s"
  | (made) v u st grants where "store_CreateUser now v g (ac_store s) = Inr (u, st)"
      "a_ID v = ''us-'' @ ulid" "roles_ok (a_Roles v)" "a_Username v = in_Username i"
      "ac_store s' = st \<or> SetLibraryGrants (''us-'' @ ulid) grants st = Inr (ac_store s')"
      "\<forall>acct. r = Inr acct \<longrightarrow> dto_User acct = u"
proof (cases "create_input w broken i s")
  case (Inl e)
  with assms show ?thesis by (intro refused) (auto simp: createAccount_def)
next
  case (Inr p)
  obtain roles mode grants hash where p: "p = (roles, mode, grants, hash)" by (cases p)
  note input = create_input_Inr [OF Inr [unfolded p]]
  show ?thesis
  proof (cases "aw_CreateUser w (''us-'' @ ulid)")
    case (Inl e)
    with Inr p assms show ?thesis by (intro refused) (auto simp: createAccount_def Let_def)
  next
    case cat: (Inr cu)
    define perms where "perms = (case in_Permissions i of None \<Rightarrow> DefaultPermissions | Some q \<Rightarrow> q)"
    define v where "v = applyPermissions (new_account i (''us-'' @ ulid) hash roles mode cu) perms"
    have v: "a_ID v = ''us-'' @ ulid" "a_Roles v = roles" "a_Username v = in_Username i"
      using input by (simp_all add: v_def new_account_def)
    show ?thesis
    proof (cases "validatePermissions perms = None \<and> (\<exists>q. ask (broken CCreateUser) (store_CreateUser now v g) s = Inr q)")
      case False
      with Inr p cat assms have "\<exists>e. r = Inl e \<and> s' = s"
        by (auto simp: createAccount_def Let_def perms_def v_def
            split: option.splits sum.splits store_error.splits)
      with refused show ?thesis by blast
    next
      case True
      then obtain u st where q: "validatePermissions perms = None"
        "ask (broken CCreateUser) (store_CreateUser now v g) s = Inr (u, st)" by fastforce
      with Inr p cat assms
      have "(ac_store s' = st \<or> SetLibraryGrants (''us-'' @ ulid) grants st = Inr (ac_store s'))
          \<and> (\<forall>acct. r = Inr acct \<longrightarrow> dto_User acct = u)"
        by (auto simp: createAccount_def Let_def perms_def v_def ask_def accountFor_Inr
            split: sum.splits if_splits)
      with made [of v u st grants] v input ask_Inr [OF q(2)] show ?thesis by simp
    qed
  qed
qed

lemma createAccount_run:
  "account_step\<^sup>*\<^sup>* (ac_store s) (ac_store (snd (createAccount w broken ulid now i g s)))"
proof -
  obtain r s' where c: "createAccount w broken ulid now i g s = (r, s')"
    by (cases "createAccount w broken ulid now i g s")
  from c show ?thesis
  proof (cases rule: createAccount_cases)
    case (refused e)
    with c show ?thesis by simp
  next
    case (made v u st grants)
    from made(1,3) have one: "account_step (ac_store s) st" by (rule account_step.create)
    from made(1,2) have "''us-'' @ ulid \<in> user_ids st"
      by (elim store_CreateUser_Inr) (simp add: user_ids_def)
    then have "account_step st st2" if "SetLibraryGrants (''us-'' @ ulid) grants st = Inr st2" for st2
      using that by (intro account_step.grants) (simp_all add: user_ids_def)
    with one made(5) c show ?thesis by (auto intro: step_run)
  qed
qed

lemma Bootstrap_run:
  "account_step\<^sup>*\<^sup>* (ac_store s) (ac_store (snd (Bootstrap w broken ulid now u p d s)))"
  using createAccount_run [of s w broken ulid now "bootstrap_input u p d" True]
  by (auto simp: Bootstrap_def split: prod.split sum.split)

lemma SetAccountPassword_run:
  assumes "accounts_ok (ac_store s)"
  shows "account_step\<^sup>*\<^sup>* (ac_store s) (ac_store (snd (SetAccountPassword w broken now uid pw s)))"
proof (cases "\<exists>u hash st. ask (broken CUserByID) (UserByID uid) s = Inr u \<and> hash_new w pw = Some hash
    \<and> ask (broken CUpdateUser) (UpdateUser (broken CProbe) now (u\<lparr>a_PasswordHash := hash\<rparr>) False) s = Inr st")
  case True
  then obtain u hash st where r: "ask (broken CUserByID) (UserByID uid) s = Inr u" "hash_new w pw = Some hash"
    "ask (broken CUpdateUser) (UpdateUser (broken CProbe) now (u\<lparr>a_PasswordHash := hash\<rparr>) False) s = Inr st" by blast
  note u = UserByID_InrD [OF ask_Inr [OF r(1)]]
  have "account_step (ac_store s) st"
    using ask_Inr [OF r(3)] u assms
    by (intro account_step.edit [of "broken CProbe" now "u\<lparr>a_PasswordHash := hash\<rparr>" False _ _ u])
      (auto simp: accounts_ok_def enabled_admin_def)
  with r show ?thesis by (simp add: SetAccountPassword_def)
next
  case False
  then show ?thesis
    by (auto simp: SetAccountPassword_def split: sum.split store_error.split option.split)
qed

lemma provision_run:
  "account_step\<^sup>*\<^sup>* (ac_store s) (ac_store (snd (provision w broken ulids now ident base ks s)))"
proof (induction ks arbitrary: s)
  case Nil
  then show ?case by simp
next
  case (Cons k ks)
  let ?name = "if k > 0 then base @ FormatInt (int k + 1) else base"
  obtain r s' where c: "CreateAccount w broken (ulids k) now (oidc_input ident ?name) s = (r, s')"
    by (cases "CreateAccount w broken (ulids k) now (oidc_input ident ?name) s")
  have "account_step\<^sup>*\<^sup>* (ac_store s) (ac_store s')"
    using createAccount_run [of s w broken "ulids k" now "oidc_input ident ?name" False] c
    by (simp add: CreateAccount_def)
  with c Cons [of s'] show ?case by (auto simp: Let_def split: sum.split)
qed

lemma apply_oidc_roles_run:
  assumes "accounts_ok (ac_store s)" "u \<in> set (st_users (ac_store s))"
    "\<forall>rs. oi_Roles ident = Some rs \<longrightarrow> roles_ok rs"
  shows "account_step\<^sup>*\<^sup>* (ac_store s) (ac_store (snd (apply_oidc_roles w broken now ident u s)))"
proof (cases "\<exists>rs st. oi_Roles ident = Some rs \<and> \<not> sameRoles (a_Roles u) rs
    \<and> ask (broken CUpdateUser) (UpdateUser (broken CProbe) now (u\<lparr>a_Roles := rs\<rparr>)
        (hasRole (a_Roles u) ''admin'' \<and> \<not> hasRole rs ''admin'')) s = Inr st")
  case True
  then obtain rs st where r: "oi_Roles ident = Some rs" "\<not> sameRoles (a_Roles u) rs"
    "ask (broken CUpdateUser) (UpdateUser (broken CProbe) now (u\<lparr>a_Roles := rs\<rparr>)
        (hasRole (a_Roles u) ''admin'' \<and> \<not> hasRole rs ''admin'')) s = Inr st" by blast
  have ok: "roles_ok (a_Roles (u\<lparr>a_Roles := rs\<rparr>))" "roles_ok (a_Roles u)"
    using assms r(1) by (auto simp: accounts_ok_def)
  have "account_step (ac_store s) st"
    using ask_Inr [OF r(3)] assms(2) ok enabled_admin_iff [OF ok(1)] enabled_admin_iff [OF ok(2)]
    by (intro account_step.edit [of "broken CProbe" now "u\<lparr>a_Roles := rs\<rparr>" _ _ _ u]) auto
  moreover have "account_step st (ac_store (reachChanged w broken (a_ID u) (s\<lparr>ac_store := st\<rparr>)))"
    using reach_step [of "s\<lparr>ac_store := st\<rparr>" w broken "a_ID u"] by simp
  ultimately show ?thesis using r by (auto simp: apply_oidc_roles_def Let_def intro: step_run)
next
  case False
  then show ?thesis
    by (auto simp: apply_oidc_roles_def Let_def split: sum.split store_error.split option.split)
qed

lemma sign_in_linked_run:
  assumes "accounts_ok (ac_store s)" "\<forall>rs. oi_Roles ident = Some rs \<longrightarrow> roles_ok rs"
  shows "account_step\<^sup>*\<^sup>* (ac_store s) (ac_store (snd (sign_in_linked w broken now ident existing s)))"
proof (cases "ask (broken CUserByID) (UserByID (id_UserID existing)) s")
  case (Inl e)
  then show ?thesis by (simp add: sign_in_linked_def)
next
  case (Inr u)
  obtain r s1 where a: "apply_oidc_roles w broken now ident u s = (r, s1)"
    by (cases "apply_oidc_roles w broken now ident u s")
  have one: "account_step\<^sup>*\<^sup>* (ac_store s) (ac_store s1)"
    using apply_oidc_roles_run [OF assms(1) _ assms(2), where u = u and w = w and broken = broken and now = now] UserByID_InrD [OF ask_Inr [OF Inr]] a
    by simp
  have two: "account_step (ac_store s1) st"
    if "ask (broken CLinkIdentity) (LinkIdentity i) s1 = Inr st" for i st
    using ask_Inr [OF that] by (rule account_step.link)
  show ?thesis
    using Inr a one by (auto simp: sign_in_linked_def Let_def split: sum.split intro: rtranclp.rtrancl_into_rtrancl two)
qed

lemma ResolveOidcAccount_run:
  assumes "accounts_ok (ac_store s)" "\<forall>rs. oi_Roles ident = Some rs \<longrightarrow> roles_ok rs"
  shows "account_step\<^sup>*\<^sup>* (ac_store s) (ac_store (snd (ResolveOidcAccount w broken ulids now ident s)))"
proof -
  obtain r s1 where p: "provision w broken ulids now ident (usernameHint ident) oidc_attempts s = (r, s1)"
    by (cases "provision w broken ulids now ident (usernameHint ident) oidc_attempts s")
  have one: "account_step\<^sup>*\<^sup>* (ac_store s) (ac_store s1)"
    using provision_run [of s w broken ulids now ident "usernameHint ident" oidc_attempts] p by simp
  have two: "account_step (ac_store s1) st"
    if "ask (broken CLinkIdentity) (LinkIdentity i) s1 = Inr st" for i st
    using ask_Inr [OF that] by (rule account_step.link)
  show ?thesis
    using p one sign_in_linked_run [OF assms, where w = w and broken = broken and now = now]
    by (auto simp: ResolveOidcAccount_def Let_def split: sum.split store_error.split option.split
        intro: rtranclp.rtrancl_into_rtrancl two)
qed

lemma invite_statements [simp]:
  "st_users (UnconsumeInvite i st) = st_users st" "st_grants (UnconsumeInvite i st) = st_grants st"
  "st_identities (UnconsumeInvite i st) = st_identities st"
  by (simp_all add: UnconsumeInvite_def)

lemma consume_step: "ConsumeInvite now hash st = Inr (iv, st') \<Longrightarrow> account_step st st'"
  by (rule account_step.other) (auto simp: ConsumeInvite_def split: option.splits)

lemma Signup_run:
  "account_step\<^sup>*\<^sup>* (ac_store s) (ac_store (snd (Signup w broken h on ulid now u p d tok s)))"
proof -
  have plain: "account_step\<^sup>*\<^sup>* (ac_store s) (ac_store s1)"
    if "CreateAccount w broken ulid now i s = (r, s1)" for i r s1
    using createAccount_run [of s w broken ulid now i False] that by (simp add: CreateAccount_def)
  have invited: "account_step\<^sup>*\<^sup>* (ac_store s) (ac_store s2)"
    "account_step\<^sup>*\<^sup>* (ac_store s) (UnconsumeInvite (iv_ID iv) (ac_store s2))"
    if "ask b (ConsumeInvite now hash) s = Inr (iv, st)"
      "CreateAccount w broken ulid now i (s\<lparr>ac_store := st\<rparr>) = (r, s2)" for b hash iv st i r s2
  proof -
    have "account_step (ac_store s) st" using consume_step [OF ask_Inr [OF that(1)]] .
    moreover have "account_step\<^sup>*\<^sup>* st (ac_store s2)"
      using createAccount_run [of "s\<lparr>ac_store := st\<rparr>" w broken ulid now i False] that(2)
      by (simp add: CreateAccount_def)
    ultimately show one: "account_step\<^sup>*\<^sup>* (ac_store s) (ac_store s2)" by (rule step_run)
    have "account_step (ac_store s2) (UnconsumeInvite (iv_ID iv) (ac_store s2))"
      by (rule account_step.other) simp_all
    with one show "account_step\<^sup>*\<^sup>* (ac_store s) (UnconsumeInvite (iv_ID iv) (ac_store s2))"
      by (rule rtranclp.rtrancl_into_rtrancl)
  qed
  show ?thesis
    by (auto simp: Signup_def Let_def plain invited
        split: sum.split store_error.split prod.split)
qed

lemma ApproveSignup_run:
  assumes "accounts_ok (ac_store s)"
  shows "account_step\<^sup>*\<^sup>* (ac_store s) (ac_store (snd (ApproveSignup w broken broken' now now' actor uid ap s)))"
proof -
  obtain r s1 where u: "UpdateAccount w broken now uid (approval_update ap) s = (r, s1)"
    by (cases "UpdateAccount w broken now uid (approval_update ap) s")
  have one: "account_step\<^sup>*\<^sup>* (ac_store s) (ac_store s1)"
    using UpdateAccount_run [OF assms, of w broken now uid "approval_update ap"] u by simp
  have ok: "accounts_ok (ac_store s1)" using account_tables.inv_steps [OF one assms] .
  have two: "account_step (ac_store s1) st"
    if "ask b (UserByID uid) s1 = Inr u1" "ask b' (UpdateUser pr now' (u1\<lparr>a_Pending := False\<rparr>) False) s1 = Inr st"
    for b b' pr u1 st
    using ask_Inr [OF that(2)] UserByID_InrD [OF ask_Inr [OF that(1)]] ok
    by (intro account_step.edit [of pr now' "u1\<lparr>a_Pending := False\<rparr>" False _ _ u1])
      (auto simp: accounts_ok_def enabled_admin_def)
  show ?thesis
    using one by (auto simp: ApproveSignup_def Let_def u split: sum.split store_error.split
        intro: rtranclp.rtrancl_into_rtrancl two)
qed

lemma RejectSignup_run:
  "account_step\<^sup>*\<^sup>* (ac_store s) (ac_store (snd (RejectSignup broken actor uid s)))"
proof -
  have "account_step (ac_store s) st"
    if "ask b (UserByID uid) s = Inr u" "a_Pending u" "ask b' (store_DeleteUser pr uid False) s = Inr st"
    for b b' pr u st
    using ask_Inr [OF that(3)] UserByID_InrD [OF ask_Inr [OF that(1)]] that(2)
    by (intro account_step.delete [of pr uid False _ _ u]) (auto simp: enabled_admin_def)
  then show ?thesis
    by (auto simp: RejectSignup_def split: sum.split store_error.split)
qed

lemma invites_run:
  "account_step\<^sup>*\<^sup>* (ac_store s) (ac_store (snd (CreateInvite valid broken h e ulid now now' actor i s)))"
  "account_step\<^sup>*\<^sup>* (ac_store s) (ac_store (snd (RevokeInvite broken actor iid s)))"
proof -
  have ins: "account_step (ac_store s) st" if "ask b (InsertInvite iv) s = Inr st" for b iv st
    using ask_Inr [OF that] by (intro account_step.other) (auto simp: InsertInvite_def split: if_splits)
  have rev: "account_step (ac_store s) st" if "ask b (store_RevokeInvite iid) s = Inr st" for b st
    using ask_Inr [OF that] by (intro account_step.other) (auto simp: store_RevokeInvite_def split: if_splits)
  show "account_step\<^sup>*\<^sup>* (ac_store s) (ac_store (snd (RevokeInvite broken actor iid s)))"
    by (auto simp: RevokeInvite_def intro: rev split: sum.split store_error.split)
  show "account_step\<^sup>*\<^sup>* (ac_store s) (ac_store (snd (CreateInvite valid broken h e ulid now now' actor i s)))"
    by (auto simp: CreateInvite_def Let_def intro: ins split: sum.split option.split prod.split)
qed

end
