(* ===== verification/Media_Auth.thy ===== *)
theory Media_Auth
  imports Accounts Narrow Sessions Stream_Serve
begin

text \<open>
  What a media token opens at a fetch: service/mediaauth.go, the gate of service/transcodegate.go the
  bridge asks through, the reads of an account and of an item they rest on (service/player.go,
  service/visibility.go, service/library.go) and the media routes' own check (api/mediatokens.go).

  \<open>media_world\<close> is what the check reads beside the tables of \<open>Store\<close>: the catalog, the catalog users
  a reset assigned, and the radio stations.  \<open>broken\<close> says which statements fail.
\<close>

section \<open>The account and the item of a fetch\<close>

record media_world =
  md_valid :: "string \<Rightarrow> bool"
  md_catalog :: catalog
  md_Get :: "string \<Rightarrow> wax_error + item_view"
  md_catalogUsers :: "string \<rightharpoonup> string"
  md_stations :: "string list"

definition catalogPID :: "media_world \<Rightarrow> account \<Rightarrow> string" where
  "catalogPID w u = (case md_catalogUsers w (a_ID u) of Some pid \<Rightarrow> pid | None \<Rightarrow> a_WaxbinUserPID u)"

definition userCtxByID ::
    "media_world \<Rightarrow> (store_call \<Rightarrow> bool) \<Rightarrow> string \<Rightarrow> store \<Rightarrow> svc_error + user_ctx" where
  "userCtxByID w broken uid st =
    (case (if broken CUserByID then Inl StoreFailed else UserByID uid st) of
       Inl RowNotFound \<Rightarrow> Inl (errNotFound ''no such user'')
     | Inl e \<Rightarrow> Inl internal
     | Inr u \<Rightarrow>
        if a_Disabled u \<or> a_Pending u then Inl (errNotFound ''no such user'')
        else case UserCtx u (catalogPID w u)
                    (if broken CGrants then None else Some (LibraryGrants (a_ID u) st)) of
               None \<Rightarrow> Inl internal | Some uc \<Rightarrow> Inr uc)"

definition getItem :: "media_world \<Rightarrow> string \<Rightarrow> svc_error + item_view" where
  "getItem w apiItemPID =
    (case parseAPIPID (md_valid w) apiItemPID of
       None \<Rightarrow> Inl (errNotFound (''no item with pid '' @ apiItemPID))
     | Some (prefix, pid) \<Rightarrow>
        if \<not> itemPrefix prefix then Inl (errNotFound (''no item with pid '' @ apiItemPID))
        else case md_Get w pid of
          Inl e \<Rightarrow> Inl (classify e)
        | Inr it \<Rightarrow>
           if \<not> prefixFitsKind prefix (iv_Kind it)
           then Inl (errNotFound (''no item with pid '' @ apiItemPID)) else Inr it)"

definition getVisibleItem :: "media_world \<Rightarrow> user_ctx \<Rightarrow> string \<Rightarrow> svc_error + item_view" where
  "getVisibleItem w uc apiItemPID =
    (case getItem w apiItemPID of
       Inl e \<Rightarrow> Inl e
     | Inr it \<Rightarrow>
        if \<not> fst (viewVisible (md_catalog w) uc it)
        then Inl (errNotFound (''no item with pid '' @ apiItemPID))
        else if \<not> fst (allowedByContent (md_catalog w) uc it)
        then Inl (errNotFound (''no item with pid '' @ apiItemPID))
        else Inr it)"

definition VisibleItem :: "media_world \<Rightarrow> user_ctx \<Rightarrow> string \<Rightarrow> svc_error option" where
  "VisibleItem w uc apiItemPID =
    (case getVisibleItem w uc apiItemPID of Inl e \<Rightarrow> Some e | Inr it \<Rightarrow> None)"

definition radioStationRow ::
    "media_world \<Rightarrow> (store_call \<Rightarrow> bool) \<Rightarrow> string \<Rightarrow> svc_error + string" where
  "radioStationRow w broken apiStationPID =
    (case parseAPIPID (md_valid w) apiStationPID of
       None \<Rightarrow> Inl (errNotFound (''no station '' @ apiStationPID))
     | Some (prefix, pid) \<Rightarrow>
        if prefix \<noteq> PrefixRadioStation then Inl (errNotFound (''no station '' @ apiStationPID))
        else if broken CRadio then Inl internal
        else if pid \<notin> set (md_stations w) then Inl (errNotFound (''no station '' @ apiStationPID))
        else Inr pid)"

section \<open>Counters of an account\<close>

text \<open>\<open>epoch\<close>; on a 64-bit build \<^verbatim>\<open>ParseInt\<close> reads what \<^const>\<open>Atoi\<close> does.\<close>

definition epoch :: "(store_call \<Rightarrow> bool) \<Rightarrow> string \<Rightarrow> store \<Rightarrow> svc_error + int" where
  "epoch broken key st =
    (if broken CSyncGet then Inl internal
     else let v = SyncStateGet key st in
          if v = '''' then Inr 0
          else case Atoi v of None \<Rightarrow> Inl internal | Some n \<Rightarrow> Inr n)"

definition reachEpoch :: "(store_call \<Rightarrow> bool) \<Rightarrow> string \<Rightarrow> store \<Rightarrow> svc_error + int" where
  "reachEpoch broken uid st = epoch broken (syncKeyReachEpoch @ uid) st"

text \<open>The reads of \<open>TimelineReach\<close> in their order: the epoch of one state of the tables, the rules of
  a later one.\<close>

definition TimelineReach ::
    "media_world \<Rightarrow> (store_call \<Rightarrow> bool) \<Rightarrow> string \<Rightarrow> store \<Rightarrow> store \<Rightarrow> svc_error + string \<times> user_ctx" where
  "TimelineReach w broken uid st st' =
    (case reachEpoch broken uid st of
       Inl e \<Rightarrow> Inl e
     | Inr n \<Rightarrow>
        (case userCtxByID w broken uid st' of
           Inl e \<Rightarrow> Inl e | Inr uc \<Rightarrow> Inr (''re:'' @ FormatInt n, uc)))"

section \<open>The check\<close>

definition credentialHolds ::
    "(store_call \<Rightarrow> bool) \<Rightarrow> time \<Rightarrow> string \<Rightarrow> string \<Rightarrow> store \<Rightarrow> svc_error option" where
  "credentialHolds broken now uid cred st =
    (let (kind, cid, _) = cut CHR '':'' cred in
     if kind = ''se'' then
       (case (if broken CSessionByID then Inl StoreFailed else SessionByID cid st) of
          Inl RowNotFound \<Rightarrow> Some (ErrMediaRevoked ''the session that minted it has ended'')
        | Inl e \<Rightarrow> Some internal
        | Inr s \<Rightarrow>
           if as_UserID s \<noteq> uid \<or> \<not> now < as_ExpiresAt s
           then Some (ErrMediaRevoked ''the session that minted it has ended'') else None)
     else if kind = ''ap'' then
       (if broken CAppPassword then Some internal
        else if \<not> AppPasswordHeld uid cid st
        then Some (ErrMediaRevoked ''the app password that minted it is revoked'') else None)
     else if kind = ''re'' then
       (case reachEpoch broken uid st of
          Inl e \<Rightarrow> Some e
        | Inr n \<Rightarrow>
           if FormatInt n \<noteq> cid
           then Some (ErrMediaRevoked ''what the account may see has changed since it was minted'')
           else None)
     else Some (ErrMediaRevoked ''an unknown credential''))"

fun first_failing :: "('a \<Rightarrow> svc_error option) \<Rightarrow> 'a list \<Rightarrow> svc_error option" where
  "first_failing f [] = None"
| "first_failing f (x # xs) = (case f x of Some e \<Rightarrow> Some e | None \<Rightarrow> first_failing f xs)"

definition credentialAlive ::
    "(store_call \<Rightarrow> bool) \<Rightarrow> time \<Rightarrow> string \<Rightarrow> string \<Rightarrow> store \<Rightarrow> svc_error option" where
  "credentialAlive broken now uid cred st =
    (if cred = '''' then None
     else first_failing (\<lambda>part. credentialHolds broken now uid part st) (split_on CHR '','' cred))"

definition PurposeDownload :: string where "PurposeDownload = ''download''"
definition PurposeArt :: string where "PurposeArt = ''art''"
definition PurposeEnclosure :: string where "PurposeEnclosure = ''enclosure''"
definition PurposeRadio :: string where "PurposeRadio = ''radio''"
definition PurposeProbe :: string where "PurposeProbe = ''probe''"
definition TimelinePIDPrefix :: string where "TimelinePIDPrefix = ''tl-''"

text \<open>The part of the check that is about what the token names.\<close>

definition purposeAllows ::
    "media_world \<Rightarrow> (store_call \<Rightarrow> bool) \<Rightarrow> user_ctx \<Rightarrow> media_claims \<Rightarrow> svc_error option" where
  "purposeAllows w broken uc c =
    (let p = mc_Purpose c in
     if p = PurposeStream \<or> p = PurposeArt \<or> p = PurposeEnclosure then VisibleItem w uc (mc_PID c)
     else if p = PurposeDownload then
       (if \<not> uc_Admin uc \<and> \<not> uc_Download uc
        then Some (SvcError KindForbidden ''this account cannot download originals'')
        else VisibleItem w uc (mc_PID c))
     else if p = PurposeRadio then
       (case radioStationRow w broken (mc_PID c) of Inl e \<Rightarrow> Some e | Inr r \<Rightarrow> None)
     else if p = PurposeHLS then
       (if has_prefix (mc_PID c) TimelinePIDPrefix then None else VisibleItem w uc (mc_PID c))
     else if p = PurposeProbe then None
     else Some (SvcError KindForbidden ''a media token for an unknown purpose''))"

definition AuthorizeMediaFor ::
    "media_world \<Rightarrow> (store_call \<Rightarrow> bool) \<Rightarrow> time \<Rightarrow> media_claims \<Rightarrow> store \<Rightarrow> svc_error + user_ctx" where
  "AuthorizeMediaFor w broken now c st =
    (case userCtxByID w broken (mc_User c) st of
       Inl e \<Rightarrow> Inl (if KindOf e = KindNotFound then ErrMediaRevoked ''the account cannot sign in'' else e)
     | Inr uc \<Rightarrow>
        (case credentialAlive broken now (mc_User c) (mc_Cred c) st of
           Some e \<Rightarrow> Inl e
         | None \<Rightarrow>
            (case purposeAllows w broken uc c of Some e \<Rightarrow> Inl e | None \<Rightarrow> Inr uc)))"

definition AuthorizeMedia where
  "AuthorizeMedia w broken now c st =
    (case AuthorizeMediaFor w broken now c st of Inl e \<Rightarrow> Some e | Inr uc \<Rightarrow> None)"

text \<open>The answer of the media routes: a refusal, or the account read.\<close>

definition authorizeMediaFor ::
    "media_world \<Rightarrow> (store_call \<Rightarrow> bool) \<Rightarrow> time \<Rightarrow> media_claims \<Rightarrow> store \<Rightarrow> (nat \<times> string) + user_ctx" where
  "authorizeMediaFor w broken now c st =
    (case AuthorizeMediaFor w broken now c st of
       Inr uc \<Rightarrow> Inr uc
     | Inl (ErrMediaRevoked m) \<Rightarrow> Inl (401, ''unauthenticated'')
     | Inl e \<Rightarrow>
        if KindOf e = KindNotFound then Inl (404, ''not-found'')
        else if KindOf e = KindForbidden then Inl (403, ''forbidden'')
        else if KindOf e = KindMaintenance then Inl (503, ''catalog-maintenance'')
        else Inl (500, ''internal''))"

definition verifiedMedia where
  "verifiedMedia tokens w broken now token want st =
    (case Verify tokens now token want of
       None \<Rightarrow> Inl (401, ''unauthenticated'')
     | Some claims \<Rightarrow>
        (case authorizeMediaFor w broken now claims st of
           Inl answer \<Rightarrow> Inl answer | Inr uc \<Rightarrow> Inr (claims, uc)))"

text \<open>\<open>sessionCred\<close> of the session that calls.\<close>

definition sessionCred :: "string \<Rightarrow> string" where
  "sessionCred sid = (if sid \<noteq> '''' then ''se:'' @ sid else '''')"

section \<open>The gate\<close>

datatype transcode_kind = TranscodeStream | TranscodeTimeline

record limits =
  lm_MaxConcurrent :: int
  lm_MaxConcurrentPerUser :: int
  lm_DefaultMaxBitrateKbps :: int

text \<open>A release is the closure an admission hands out, with its own \<^verbatim>\<open>sync.Once\<close>.\<close>

record slot_release =
  rl_user :: string
  rl_kind :: transcode_kind
  rl_done :: bool

record gate_counts =
  tg_active :: "string \<rightharpoonup> int"
  tg_total :: int
  tg_timelines :: int
  tg_releases :: "slot_release list"

definition new_gate :: gate_counts where
  "new_gate = \<lparr>tg_active = Map.empty, tg_total = 0, tg_timelines = 0, tg_releases = []\<rparr>"

definition active_of :: "gate_counts \<Rightarrow> string \<Rightarrow> int" where
  "active_of g user = (case tg_active g user of None \<Rightarrow> 0 | Some n \<Rightarrow> n)"

definition userIsAdmin :: "(store_call \<Rightarrow> bool) \<Rightarrow> string \<Rightarrow> store \<Rightarrow> bool" where
  "userIsAdmin broken user st =
    (if broken CUserByID then False
     else case UserByID user st of Inl e \<Rightarrow> False | Inr u \<Rightarrow> hasRole (a_Roles u) ''admin'')"

definition slot_free :: "limits \<Rightarrow> bool \<Rightarrow> string \<Rightarrow> gate_counts \<Rightarrow> bool" where
  "slot_free lims admin user g \<longleftrightarrow>
    \<not> (lm_MaxConcurrent lims > 0 \<and> tg_total g \<ge> lm_MaxConcurrent lims)
    \<and> \<not> (\<not> admin \<and> lm_MaxConcurrentPerUser lims > 0 \<and> active_of g user \<ge> lm_MaxConcurrentPerUser lims)"

text \<open>\<open>Acquire\<close>: the release is the last of the list it leaves, \<^const>\<open>None\<close> a refusal.\<close>

definition Acquire_slot ::
    "limits \<Rightarrow> bool \<Rightarrow> string \<Rightarrow> transcode_kind \<Rightarrow> gate_counts \<Rightarrow> gate_counts option" where
  "Acquire_slot lims admin user kind g =
    (if \<not> slot_free lims admin user g then None
     else Some (g\<lparr>tg_active := (tg_active g)(user \<mapsto> active_of g user + 1),
                  tg_total := tg_total g + 1,
                  tg_timelines := (if kind = TranscodeTimeline then tg_timelines g + 1 else tg_timelines g),
                  tg_releases := tg_releases g @ [\<lparr>rl_user = user, rl_kind = kind, rl_done = False\<rparr>]\<rparr>))"

text \<open>A call of the release at a place of the list; a second one does nothing.\<close>

definition run_release :: "nat \<Rightarrow> gate_counts \<Rightarrow> gate_counts" where
  "run_release k g =
    (if length (tg_releases g) \<le> k \<or> rl_done (tg_releases g ! k) then g
     else let r = tg_releases g ! k;
              n = active_of g (rl_user r) - 1
          in g\<lparr>tg_active := (if n \<le> 0 then (tg_active g)(rl_user r := None) else (tg_active g)(rl_user r \<mapsto> n)),
               tg_total := tg_total g - 1,
               tg_timelines := (if rl_kind r = TranscodeTimeline then tg_timelines g - 1 else tg_timelines g),
               tg_releases := (tg_releases g)[k := r\<lparr>rl_done := True\<rparr>]\<rparr>)"

definition ActiveTranscodeSessions :: "gate_counts \<Rightarrow> int \<times> int" where
  "ActiveTranscodeSessions g = (tg_total g, tg_timelines g)"

definition MaxBitrateKbps :: "(store_call \<Rightarrow> bool) \<Rightarrow> limits \<Rightarrow> string \<Rightarrow> store \<Rightarrow> int" where
  "MaxBitrateKbps broken lims user st =
    (if userIsAdmin broken user st then 0
     else case (if broken CUserByID then Inl StoreFailed else UserByID user st) of
       Inr u \<Rightarrow> if a_MaxTranscodeKbps u > 0 then a_MaxTranscodeKbps u else lm_DefaultMaxBitrateKbps lims
     | Inl e \<Rightarrow> lm_DefaultMaxBitrateKbps lims)"

text \<open>The gate's own \<open>AuthorizeMedia\<close> with the reading \<open>authorize\<close> makes of its answer.\<close>

definition gate_check :: "svc_error option \<Rightarrow> media_check" where
  "gate_check err =
    (case err of
       None \<Rightarrow> MediaOK
     | Some (ErrMediaRevoked m) \<Rightarrow> MediaRevoked
     | Some e \<Rightarrow>
        if KindOf e = KindNotFound \<or> KindOf e = KindForbidden then MediaRefused
        else if KindOf e = KindMaintenance then Maintenance
        else CheckFailed)"

text \<open>The gate a bridge is wired with, over one state of the tables and of the counts.\<close>

definition gate_over ::
    "media_world \<Rightarrow> (store_call \<Rightarrow> bool) \<Rightarrow> limits \<Rightarrow> time \<Rightarrow> gate_counts \<Rightarrow> store \<Rightarrow> transcode_gate" where
  "gate_over w broken lims now g st =
    \<lparr>ga_Acquire = (\<lambda>user. slot_free lims (userIsAdmin broken user st) user g),
     ga_MaxBitrateKbps = (\<lambda>user. MaxBitrateKbps broken lims user st),
     ga_AuthorizeMedia = (\<lambda>c. gate_check (AuthorizeMedia w broken now c st))\<rparr>"

end
