(* ===== verification/Account_Delete.thy ===== *)
theory Account_Delete
  imports Account_Runs Media_Auth
begin

text \<open>
  \<open>DeleteAccount\<close> (service/users.go): the account is disabled by the guarded update, its playlists are
  settled, and the row is deleted by the guarded statement.  The catalog's lists of playlists and of
  users, the count of live share links and the settling of the playlists themselves
  (service/playlisthandover.go) are parameters, the record \<open>deletion_world\<close>; the last answers what it
  did and whether it stopped.  What it writes is beside the tables of accounts.
\<close>

section \<open>What a deletion asks\<close>

record owned_playlist =
  op_OwnerPID :: string
  op_Shared :: bool

record account_deletion =
  od_Playlists :: string
  od_TransferTo :: string

record account_deleted =
  ad_PlaylistsTransferred :: nat
  ad_PlaylistsDeleted :: nat
  ad_PlaylistsFixed :: nat
  ad_TransferredTo :: string
  ad_LinksEnded :: nat
  ad_FixedCopiesRemoved :: "string list"
  ad_FixedCopiesKept :: "string list"
  ad_Disabled :: bool

definition nothing_deleted :: account_deleted where
  "nothing_deleted = \<lparr>ad_PlaylistsTransferred = 0, ad_PlaylistsDeleted = 0, ad_PlaylistsFixed = 0,
     ad_TransferredTo = '''', ad_LinksEnded = 0, ad_FixedCopiesRemoved = [], ad_FixedCopiesKept = [],
     ad_Disabled = False\<rparr>"

definition Changed :: "account_deleted \<Rightarrow> bool" where
  "Changed d \<longleftrightarrow> ad_Disabled d \<or> ad_PlaylistsTransferred d > 0 \<or> ad_PlaylistsDeleted d > 0
     \<or> length (ad_FixedCopiesRemoved d) > 0 \<or> length (ad_FixedCopiesKept d) > 0"

text \<open>\<open>op_Shared\<close>: the catalog has the playlist as shared.  \<open>dl_Playlists'\<close> is the list as it answers
  once the account is disabled.\<close>

record deletion_world =
  dl_media :: media_world
  dl_running :: "string list"
  dl_Playlists :: "string \<Rightarrow> wax_error + owned_playlist list"
  dl_Playlists' :: "string \<Rightarrow> wax_error + owned_playlist list"
  dl_Users :: "wax_error + string list"
  dl_settle :: "account \<Rightarrow> owned_playlist list \<Rightarrow> account option \<Rightarrow> svc_error option \<times> account_deleted"
  dl_CountLiveShares :: "string \<Rightarrow> nat option"

definition sharedPlaylist :: "owned_playlist \<Rightarrow> bool" where
  "sharedPlaylist pl \<longleftrightarrow> op_Shared pl"

definition ownedPlaylists ::
    "media_world \<Rightarrow> (string \<Rightarrow> wax_error + owned_playlist list) \<Rightarrow> account \<Rightarrow> svc_error + owned_playlist list" where
  "ownedPlaylists mw lister u =
    (let catalogUser = catalogPID mw u in
     if catalogUser = '''' then Inr []
     else case lister catalogUser of
       Inl e \<Rightarrow> if KindOf (classify e) = KindNotFound then Inr [] else Inl (classify e)
     | Inr all \<Rightarrow> Inr (filter (\<lambda>pl. op_OwnerPID pl = catalogUser) all))"

definition hasCatalogUser :: "media_world \<Rightarrow> (wax_error + string list) \<Rightarrow> account \<Rightarrow> svc_error + bool" where
  "hasCatalogUser mw users u =
    (let pid = catalogPID mw u in
     if pid = '''' then Inr False
     else case users of Inl e \<Rightarrow> Inl (classify e) | Inr us \<Rightarrow> Inr (List.member us pid))"

text \<open>The account that takes the shared playlists; \<open>broken\<close> says whether its read fails.\<close>

definition playlistTaker ::
    "deletion_world \<Rightarrow> bool \<Rightarrow> user_ctx option \<Rightarrow> account \<Rightarrow> account_deletion \<Rightarrow> accounts \<Rightarrow> svc_error + account option" where
  "playlistTaker dw broken actor victim opts s =
    (if od_Playlists opts = ''delete'' then
       (if od_TransferTo opts \<noteq> ''''
        then Inl (errInvalid ''transferTo applies only when the playlists are transferred'') else Inr None)
     else if od_Playlists opts \<noteq> '''' \<and> od_Playlists opts \<noteq> ''transfer''
     then Inl (errInvalid ''playlists must be transfer or delete'')
     else let takerID = (if od_TransferTo opts = ''''
                         then (case actor of None \<Rightarrow> '''' | Some a \<Rightarrow> uc_ID a) else od_TransferTo opts) in
     if takerID = '''' then Inr None
     else if takerID = a_ID victim then Inl (errInvalid ''the playlists cannot go to the account being deleted'')
     else case ask broken (UserByID takerID) s of
       Inl RowNotFound \<Rightarrow> Inl (errInvalid (''no account with id '' @ takerID))
     | Inl e \<Rightarrow> Inl internal
     | Inr taker \<Rightarrow>
        if a_Disabled taker then Inl (errInvalid ''that account is disabled'')
        else if a_Pending taker then Inl (errInvalid ''that signup has not been approved yet'')
        else case hasCatalogUser (dl_media dw) (dl_Users dw) taker of
          Inl e \<Rightarrow> Inl e
        | Inr known \<Rightarrow>
            if known then Inr (Some taker)
            else Inl (errInvalid ''that account has no library user to own playlists''))"

section \<open>The deletion\<close>

definition disable_only :: account_update where
  "disable_only = \<lparr>up_DisplayName = None, up_Roles = None, up_Disabled = Some True, up_AccessMode = None,
     up_LibraryPIDs = [], up_UploadEnabled = None, up_UploadQuotaBytes = None, up_Permissions = None\<rparr>"

definition taker_missing :: "account option \<Rightarrow> account_deletion \<Rightarrow> owned_playlist list \<Rightarrow> bool" where
  "taker_missing taker opts owned \<longleftrightarrow>
    taker = None \<and> od_Playlists opts \<noteq> ''delete'' \<and> list_ex sharedPlaylist owned"

text \<open>From the second listing on; \<open>disabledHere\<close> says whether this call disabled the account.\<close>

definition delete_disabled ::
    "deletion_world \<Rightarrow> (store_call \<Rightarrow> bool) \<Rightarrow> account \<Rightarrow> account option \<Rightarrow> account_deletion \<Rightarrow> bool \<Rightarrow> bool
       \<Rightarrow> accounts \<Rightarrow> svc_error option \<times> account_deleted \<times> accounts" where
  "delete_disabled dw broken u taker opts removesAdmin disabledHere s =
    (let stopped = nothing_deleted\<lparr>ad_Disabled := disabledHere\<rparr> in
     case ownedPlaylists (dl_media dw) (dl_Playlists' dw) u of
       Inl e \<Rightarrow> (Some e, stopped, s)
     | Inr owned \<Rightarrow>
        if taker_missing taker opts owned
        then (Some (errInvalid ''name the account that takes the shared playlists''), stopped, s)
        else let (err, out) = dl_settle dw u owned taker;
                 settled = out\<lparr>ad_Disabled := disabledHere\<rparr>
             in (case err of
                   Some e \<Rightarrow> (Some e, settled, s)
                 | None \<Rightarrow>
                    (case dl_CountLiveShares dw (a_ID u) of
                       None \<Rightarrow> (Some internal, settled, s)
                     | Some ended \<Rightarrow>
                        (case ask (broken CDeleteUser) (store_DeleteUser (broken CProbe) (a_ID u) removesAdmin) s of
                           Inl RowConflict \<Rightarrow>
                             (Some (SvcError KindConflict ''this is the last enabled administrator''), settled, s)
                         | Inl RowNotFound \<Rightarrow> (Some (errNotFound (''no user with id '' @ a_ID u)), settled, s)
                         | Inl e \<Rightarrow> (Some internal, settled, s)
                         | Inr st \<Rightarrow> (None, settled\<lparr>ad_LinksEnded := ended\<rparr>, s\<lparr>ac_store := st\<rparr>)))))"

text \<open>\<open>broken\<close> is of the first read and of the deleting statement, \<open>broken'\<close> of the update that disables
  the account, \<open>brokenT\<close> of the read of the taker.\<close>

definition DeleteAccount ::
    "account_world \<Rightarrow> deletion_world \<Rightarrow> (store_call \<Rightarrow> bool) \<Rightarrow> (store_call \<Rightarrow> bool) \<Rightarrow> bool \<Rightarrow> time
       \<Rightarrow> user_ctx option \<Rightarrow> string \<Rightarrow> account_deletion \<Rightarrow> accounts \<Rightarrow> svc_error option \<times> account_deleted \<times> accounts" where
  "DeleteAccount w dw broken broken' brokenT now actor uid opts s =
    (if List.member (dl_running dw) uid
     then (Some (SvcError KindConflict ''this account is already being deleted''), nothing_deleted, s)
     else case ask (broken CUserByID) (UserByID uid) s of
       Inl RowNotFound \<Rightarrow> (Some (errNotFound (''no user with id '' @ uid)), nothing_deleted, s)
     | Inl e \<Rightarrow> (Some internal, nothing_deleted, s)
     | Inr u \<Rightarrow>
        (case ownedPlaylists (dl_media dw) (dl_Playlists dw) u of
           Inl e \<Rightarrow> (Some e, nothing_deleted, s)
         | Inr owned \<Rightarrow>
            (case playlistTaker dw brokenT actor u opts s of
               Inl e \<Rightarrow> (Some e, nothing_deleted, s)
             | Inr taker \<Rightarrow>
                if taker_missing taker opts owned
                then (Some (errInvalid ''name the account that takes the shared playlists''), nothing_deleted, s)
                else let removesAdmin = (hasRole (a_Roles u) ''admin'' \<and> \<not> a_Disabled u) in
                if a_Disabled u then delete_disabled dw broken u taker opts removesAdmin False s
                else case UpdateAccount w broken' now uid disable_only s of
                       (Inl e, s1) \<Rightarrow> (Some e, nothing_deleted, s1)
                     | (Inr _, s1) \<Rightarrow> delete_disabled dw broken u taker opts removesAdmin True s1)))"

section \<open>A deletion is a run\<close>

lemma delete_disabled_run:
  assumes "\<forall>r \<in> set (st_users (ac_store s)). a_ID r = a_ID u \<longrightarrow> a_Disabled r"
  shows "account_step\<^sup>*\<^sup>* (ac_store s) (ac_store (snd (snd (delete_disabled dw broken u taker opts g d s))))"
proof -
  have "account_step (ac_store s) st" if "ask b (store_DeleteUser pr (a_ID u) g) s = Inr st" for b pr st
  proof -
    have del: "store_DeleteUser pr (a_ID u) g (ac_store s) = Inr st" using ask_Inr [OF that] .
    then obtain r where "r \<in> set (st_users (ac_store s))" "a_ID r = a_ID u"
      by (auto simp: store_DeleteUser_def list_ex_iff split: if_splits)
    with del assms show ?thesis by (intro account_step.delete [of pr "a_ID u" g _ _ r]) (auto simp: enabled_admin_def)
  qed
  then show ?thesis
    by (auto simp: delete_disabled_def Let_def split: sum.split store_error.split option.split prod.split)
qed

lemma write_account_disables:
  assumes "write_account w broken now before u loses vis grants s = (Inr acct, s')" "a_Disabled u"
    "r \<in> set (st_users (ac_store s'))" "a_ID r = a_ID u"
  shows "a_Disabled r"
proof -
  obtain st where st: "UpdateUser (broken CProbe) now u loses (ac_store s) = Inr st" "st_users (ac_store s') = st_users st"
    using assms(1) by (auto simp: write_account_def Let_def dest!: ask_Inr split: sum.splits)
  with assms(2-4) show ?thesis by (auto simp: UpdateUser_def written_row_def split: if_splits)
qed

lemma disable_account:
  assumes "UpdateAccount w broken now uid disable_only s = (Inr acct, s')"
    "r \<in> set (st_users (ac_store s'))" "a_ID r = uid"
  shows "a_Disabled r"
proof -
  obtain before where b: "ask (broken CUserByID) (UserByID uid) s = Inr before"
    using assms(1) by (auto simp: UpdateAccount_def split: sum.splits store_error.splits)
  obtain u loses vis where e: "edit_row disable_only before = Inr (u, loses, vis)" "a_Disabled u" "a_ID u = a_ID before"
    by (cases "edit_row disable_only before")
      (auto simp: edit_row_def edit_roles_def edit_disabled_def edit_labels_def disable_only_def)
  have "write_account w broken now before u loses vis False s = (Inr acct, s')"
    using assms(1) b e(1) by (simp add: UpdateAccount_def disable_only_def)
  from write_account_disables [OF this e(2) assms(2)] UserByID_InrD [OF ask_Inr [OF b]] e(3) assms(3)
  show ?thesis by simp
qed

lemma DeleteAccount_run:
  assumes ok: "accounts_ok (ac_store s)"
  shows "account_step\<^sup>*\<^sup>* (ac_store s) (ac_store (snd (snd (DeleteAccount w dw broken broken' brokenT now actor uid opts s))))"
proof (cases "\<exists>u taker. ask (broken CUserByID) (UserByID uid) s = Inr u
    \<and> DeleteAccount w dw broken broken' brokenT now actor uid opts s =
        (let g = hasRole (a_Roles u) ''admin'' \<and> \<not> a_Disabled u in
         if a_Disabled u then delete_disabled dw broken u taker opts g False s
         else case UpdateAccount w broken' now uid disable_only s of
                (Inl e, s1) \<Rightarrow> (Some e, nothing_deleted, s1)
              | (Inr _, s1) \<Rightarrow> delete_disabled dw broken u taker opts g True s1)")
  case False
  then have "snd (snd (DeleteAccount w dw broken broken' brokenT now actor uid opts s)) = s"
    by (auto simp: DeleteAccount_def Let_def split: sum.splits store_error.splits if_splits)
  then show ?thesis by simp
next
  case True
  then obtain u taker where t: "UserByID uid (ac_store s) = Inr u"
    "DeleteAccount w dw broken broken' brokenT now actor uid opts s =
        (let g = hasRole (a_Roles u) ''admin'' \<and> \<not> a_Disabled u in
         if a_Disabled u then delete_disabled dw broken u taker opts g False s
         else case UpdateAccount w broken' now uid disable_only s of
                (Inl e, s1) \<Rightarrow> (Some e, nothing_deleted, s1)
              | (Inr _, s1) \<Rightarrow> delete_disabled dw broken u taker opts g True s1)"
    by (auto dest: ask_Inr)
  note u = UserByID_InrD [OF t(1)]
  show ?thesis
  proof (cases "a_Disabled u")
    case True
    have "\<forall>r \<in> set (st_users (ac_store s)). a_ID r = a_ID u \<longrightarrow> a_Disabled r"
      using True u same_id_same_row [OF ok] by metis
    from delete_disabled_run [OF this] True show ?thesis unfolding t(2) by (simp add: Let_def)
  next
    case False
    obtain res s1 where up: "UpdateAccount w broken' now uid disable_only s = (res, s1)" by force
    have one: "account_step\<^sup>*\<^sup>* (ac_store s) (ac_store s1)"
      using UpdateAccount_run [OF ok, of w broken' now uid disable_only] up by simp
    show ?thesis
    proof (cases res)
      case (Inl e)
      then show ?thesis unfolding t(2) using False up one by (simp add: Let_def)
    next
      case (Inr acct)
      have "\<forall>r \<in> set (st_users (ac_store s1)). a_ID r = a_ID u \<longrightarrow> a_Disabled r"
        using disable_account [OF up [unfolded Inr]] u by auto
      from rtranclp_trans [OF one delete_disabled_run [OF this]] False up Inr
      show ?thesis unfolding t(2) by (simp add: Let_def)
    qed
  qed
qed

end
