(* ===== verification/Account_Claims.thy ===== *)
theory Account_Claims
  imports Account_Delete
begin

text \<open>
  What accounts promise: an administrator remains, names and identities stay one account's, a
  provider's identity never takes over an account, a login follows the password, an invite admits no
  more than its uses.
\<close>

section \<open>The tables\<close>

definition no_accounts :: "store \<Rightarrow> bool" where
  "no_accounts st \<longleftrightarrow> st_users st = [] \<and> st_grants st = [] \<and> st_identities st = []"

lemma no_accounts_ok: "no_accounts st \<Longrightarrow> accounts_ok st"
  by (simp add: no_accounts_def accounts_ok_def)

lemma find_unique:
  assumes "distinct (map f xs)" "x \<in> set xs"
  shows "List.find (\<lambda>y. f y = f x) xs = Some x"
  using assms by (induction xs) auto

lemma UserByUsername_eq:
  assumes "accounts_ok st" "u \<in> set (st_users st)" "to_lower name = to_lower (a_Username u)"
  shows "UserByUsername name st = Inr u"
  using assms find_unique [of "\<lambda>u. to_lower (a_Username u)" "st_users st" u]
  by (simp add: UserByUsername_def accounts_ok_def)

lemma UserByUsername_Inr:
  "UserByUsername name st = Inr u \<Longrightarrow> u \<in> set (st_users st) \<and> to_lower (a_Username u) = to_lower name"
  by (auto simp: UserByUsername_def find_Some_iff split: option.splits)

lemma IdentityBySubject_eq:
  assumes "accounts_ok st" "i \<in> set (st_identities st)"
  shows "IdentityBySubject (id_Provider i) (id_Subject i) st = Inr i"
  using assms find_unique [of subject_of "st_identities st" i]
  by (simp add: IdentityBySubject_def accounts_ok_def subject_of_def)

lemma IdentityBySubject_Inr:
  "IdentityBySubject p sub st = Inr i \<Longrightarrow> i \<in> set (st_identities st) \<and> subject_of i = (p, sub)"
  by (auto simp: IdentityBySubject_def find_Some_iff subject_of_def split: option.splits)

lemma IdentityBySubject_Inl:
  "IdentityBySubject p sub st = Inl e \<Longrightarrow> e = RowNotFound \<and> (p, sub) \<notin> subject_of ` set (st_identities st)"
  by (auto simp: IdentityBySubject_def find_None_iff subject_of_def split: option.splits)

text \<open>C31. Whatever interleaving of account operations built the tables, an account is found by its id
  and by its name in any case, a linked identity by its provider and subject, each as the one row it
  is, no grant or identity names an account that is gone, and no row holds a role outside the
  vocabulary.\<close>

theorem reachable_accounts:
  assumes "no_accounts st0" "account_step\<^sup>*\<^sup>* st0 st"
  shows "(\<forall>u \<in> set (st_users st). UserByID (a_ID u) st = Inr u
        \<and> (\<forall>name. to_lower name = to_lower (a_Username u) \<longrightarrow> UserByUsername name st = Inr u)
        \<and> set (a_Roles u) \<subseteq> {''admin'', ''user''})
    \<and> (\<forall>i \<in> set (st_identities st). IdentityBySubject (id_Provider i) (id_Subject i) st = Inr i
        \<and> (\<exists>u. UserByID (id_UserID i) st = Inr u))
    \<and> (\<forall>g \<in> set (st_grants st). \<exists>u. UserByID (fst g) st = Inr u)"
proof -
  have ok: "accounts_ok st" using account_tables.inv_reachable [OF no_accounts_ok [OF assms(1)] assms(2)] .
  have found: "\<exists>u. UserByID x st = Inr u" if "x \<in> user_ids st" for x
    using that UserByID_eq [OF ok] by (auto simp: user_ids_def)
  from ok have "\<forall>i \<in> set (st_identities st). id_UserID i \<in> user_ids st" "\<forall>g \<in> set (st_grants st). fst g \<in> user_ids st"
    "\<forall>u \<in> set (st_users st). set (a_Roles u) \<subseteq> {''admin'', ''user''}"
    by (auto simp: accounts_ok_def roles_ok_def validRoles_def image_subset_iff)
  with ok show ?thesis
    by (auto simp: UserByID_eq UserByUsername_eq IdentityBySubject_eq intro: found)
qed

section \<open>An administrator\<close>

text \<open>C9. Once an administrator can sign in, one always can: no interleaving of account operations,
  of demotions, disables and deletions among them, leaves the server without one, as long as no two
  edits of one account overlap; and until then the bootstrap door stays shut.\<close>

theorem admin_remains:
  assumes "accounts_ok st" "has_admin st" "account_step\<^sup>*\<^sup>* st st'"
  shows "(\<exists>u \<in> set (st_users st'). \<not> a_Disabled u \<and> \<not> a_Pending u \<and> hasRole (a_Roles u) ''admin'')
    \<and> BootstrapRequired (\<lambda>_. False) \<lparr>ac_store = st', ac_out = out\<rparr> = Inr False
    \<and> fst (Bootstrap w broken ulid now name pw dn \<lparr>ac_store = st', ac_out = out\<rparr>) \<noteq> Inr acct
    \<and> ac_store (snd (Bootstrap w broken ulid now name pw dn \<lparr>ac_store = st', ac_out = out\<rparr>)) = st'"
proof -
  have ok: "accounts_ok st'" "has_admin st'" using admin_tables.inv_steps [OF assms(3)] assms(1,2) by auto
  then obtain u where u: "u \<in> set (st_users st')" "enabled_admin u" "roles_ok (a_Roles u)"
    by (auto simp: has_admin_def accounts_ok_def)
  have "filter enabled_admin (st_users st') \<noteq> []" using u by (auto simp: filter_empty_conv)
  then have "BootstrapRequired (\<lambda>_. False) \<lparr>ac_store = st', ac_out = out\<rparr> = Inr False"
    by (simp add: BootstrapRequired_def CountEnabledAdmins_def)
  moreover have "store_CreateUser now v True st' = Inl RowConflict" for v
    using u by (auto simp: store_CreateUser_def list_ex_iff)
  then have "(\<forall>a. fst (createAccount w broken ulid now i True \<lparr>ac_store = st', ac_out = out\<rparr>) \<noteq> Inr a)
      \<and> ac_store (snd (createAccount w broken ulid now i True \<lparr>ac_store = st', ac_out = out\<rparr>)) = st'" for i
    by (auto simp: createAccount_def Let_def ask_def split: sum.split prod.split option.split)
  then obtain e s1 where made: "createAccount w broken ulid now (bootstrap_input name pw dn) True
      \<lparr>ac_store = st', ac_out = out\<rparr> = (Inl e, s1)" "ac_store s1 = st'"
    by (metis prod.collapse sum.exhaust)
  then have "fst (Bootstrap w broken ulid now name pw dn \<lparr>ac_store = st', ac_out = out\<rparr>) \<noteq> Inr acct
      \<and> ac_store (snd (Bootstrap w broken ulid now name pw dn \<lparr>ac_store = st', ac_out = out\<rparr>)) = st'"
    by (simp add: Bootstrap_def)
  ultimately show ?thesis using u enabled_admin_iff [OF u(3)] by blast
qed

text \<open>C33. Every operation on accounts that writes them, the deletion of an account included, whatever
  statement of it fails, is a run of the statements the invariants of the tables are about, as long as a
  provider hands over roles of the vocabulary.\<close>

theorem account_operations_are_runs:
  assumes "accounts_ok (ac_store s)" "\<forall>rs. oi_Roles ident = Some rs \<longrightarrow> set rs \<subseteq> {''admin'', ''user''}"
  shows "\<forall>st \<in> {ac_store (snd (CreateAccount w broken ulid now i s)),
        ac_store (snd (Bootstrap w broken ulid now name pw dn s)),
        ac_store (snd (UpdateAccount w broken now uid upd s)),
        ac_store (snd (SetAccountPassword w broken now uid pw s)),
        ac_store (snd (ResolveOidcAccount w broken ulids now ident s)),
        ac_store (snd (Signup w broken h on ulid now name pw dn tok s)),
        ac_store (snd (ApproveSignup w broken broken' now now' actor uid ap s)),
        ac_store (snd (RejectSignup broken actor uid s)),
        ac_store (snd (snd (DeleteAccount w dw broken broken' brokenT now by uid opts s))),
        ac_store (snd (CreateInvite valid broken h e ulid now now' actor ic s)),
        ac_store (snd (RevokeInvite broken actor iid s))}.
      account_step\<^sup>*\<^sup>* (ac_store s) st"
proof -
  have "\<forall>rs. oi_Roles ident = Some rs \<longrightarrow> roles_ok rs" using assms(2) by (simp add: roles_ok_def validRoles_def)
  then show ?thesis
    using assms(1) createAccount_run [of s w broken ulid now i False]
    by (auto simp: CreateAccount_def intro: Bootstrap_run UpdateAccount_run SetAccountPassword_run
        ResolveOidcAccount_run Signup_run ApproveSignup_run RejectSignup_run invites_run DeleteAccount_run)
qed

section \<open>Edits that overlap\<close>

definition plain_user :: "string \<Rightarrow> string \<Rightarrow> string list \<Rightarrow> account" where
  "plain_user uid name roles = \<lparr>a_ID = uid, a_Username = name, a_DisplayName = '''', a_PasswordHash = '''',
     a_Roles = roles, a_Disabled = False, a_Pending = False, a_PermDownload = True,
     a_PermDelete = False, a_PermExplicit = True, a_PermSharedOutputs = True, a_PermPodcasts = True,
     a_MaxTranscodeKbps = 0, a_UploadEnabled = False, a_UploadQuotaBytes = 0,
     a_LibraryAccess = ''all'', a_WaxbinUserPID = ''cu'', a_TagRules = NoDoc, a_CreatedAt = 0,
     a_UpdatedAt = 0\<rparr>"

definition two_users :: store where
  "two_users = \<lparr>st_users = [plain_user ''us-a'' ''Ada'' [''admin''], plain_user ''us-b'' ''Bob'' [''user'']],
     st_grants = [], st_identities = [], st_sessions = [], st_invites = [], st_appPasswords = [],
     st_syncState = (\<lambda>_. None)\<rparr>"

text \<open>A change of password writes back the whole row it read: when the account was promoted, and the
  other administrator then disabled, between its read and its write, nobody administers the server.\<close>

lemma stale_edit_loses_last_admin:
  defines "bob \<equiv> plain_user ''us-b'' ''Bob'' [''user'']" and "ada \<equiv> plain_user ''us-a'' ''Ada'' [''admin'']"
  shows "UserByID ''us-b'' two_users = Inr bob"
    "\<exists>st1 st2 st3. UpdateUser False 1 (bob\<lparr>a_Roles := [''admin'']\<rparr>) False two_users = Inr st1
      \<and> UpdateUser False 2 (ada\<lparr>a_Disabled := True\<rparr>) True st1 = Inr st2
      \<and> UpdateUser False 3 (bob\<lparr>a_PasswordHash := ''h''\<rparr>) False st2 = Inr st3
      \<and> has_admin st2 \<and> \<not> has_admin st3"
  by (simp_all add: two_users_def plain_user_def bob_def ada_def UserByID_def UpdateUser_def other_admin_def
      enabled_admin_def joinRoles_def splitRoles_def to_lower_def lower_char_def written_row_def has_admin_def)

text \<open>A rejection that read the account while it was pending deletes it although it was approved in
  between.\<close>

lemma late_rejection_deletes_approved:
  defines "cy \<equiv> plain_user ''us-c'' ''Cy'' [''user'']"
  defines "st \<equiv> two_users\<lparr>st_users := st_users two_users @ [cy\<lparr>a_Pending := True\<rparr>]\<rparr>"
  shows "UserByID ''us-c'' st = Inr (cy\<lparr>a_Pending := True\<rparr>)"
    "\<exists>st1 st2. UpdateUser False 1 cy False st = Inr st1 \<and> UserByID ''us-c'' st1 = Inr (cy\<lparr>a_UpdatedAt := 1\<rparr>)
      \<and> store_DeleteUser False ''us-c'' False st1 = Inr st2 \<and> UserByID ''us-c'' st2 = Inl RowNotFound"
  by (simp_all add: two_users_def plain_user_def cy_def st_def UserByID_def UpdateUser_def
      store_DeleteUser_def joinRoles_def splitRoles_def written_row_def)

section \<open>Sign-in through a provider\<close>

text \<open>What an operation leaves of the rows that are not its own.\<close>

definition others_kept :: "string \<Rightarrow> store \<Rightarrow> store \<Rightarrow> bool" where
  "others_kept uid st st' \<longleftrightarrow> (\<forall>u \<in> set (st_users st). a_ID u \<noteq> uid \<longrightarrow> u \<in> set (st_users st'))
     \<and> (\<forall>u \<in> set (st_users st). \<exists>u' \<in> set (st_users st'). a_ID u' = a_ID u \<and> a_Username u' = a_Username u
          \<and> a_PasswordHash u' = a_PasswordHash u \<and> a_Disabled u' = a_Disabled u \<and> a_Pending u' = a_Pending u)"

lemma others_kept_append: "st_users st' = st_users st @ us \<Longrightarrow> others_kept uid st st'"
  by (auto simp: others_kept_def)

lemma SetLibraryGrants_users:
  "SetLibraryGrants uid pids st = Inr st' \<Longrightarrow> st_users st' = st_users st \<and> st_identities st' = st_identities st"
  by (auto simp: SetLibraryGrants_def split: if_splits)

lemma createAccount_users:
  assumes "createAccount w broken ulid now i g s = (r, s')"
  shows "\<exists>us. st_users (ac_store s') = st_users (ac_store s) @ us
    \<and> st_identities (ac_store s') = st_identities (ac_store s)
    \<and> (\<forall>acct. r = Inr acct \<longrightarrow> a_ID (dto_User acct) \<notin> user_ids (ac_store s))"
  using assms
proof (cases rule: createAccount_cases)
  case (refused e)
  then show ?thesis by simp
next
  case (made v u st grants)
  from made(1) obtain row where "st_users st = st_users (ac_store s) @ [row]"
    "st_identities st = st_identities (ac_store s)" "a_ID u \<notin> user_ids (ac_store s)"
    by (elim store_CreateUser_Inr) auto
  with made(5,6) show ?thesis by (auto dest: SetLibraryGrants_users)
qed

lemma provision_users:
  "provision w broken ulids now ident base ks s = (r, s') \<Longrightarrow>
    \<exists>us. st_users (ac_store s') = st_users (ac_store s) @ us
      \<and> st_identities (ac_store s') = st_identities (ac_store s)
      \<and> (\<forall>acct. r = Inr (Some acct) \<longrightarrow> a_ID (dto_User acct) \<notin> user_ids (ac_store s))"
proof (induction ks arbitrary: s)
  case Nil
  then show ?case by auto
next
  case (Cons k ks)
  let ?name = "if k > 0 then base @ FormatInt (int k + 1) else base"
  obtain r1 s1 where c: "CreateAccount w broken (ulids k) now (oidc_input ident ?name) s = (r1, s1)"
    by (cases "CreateAccount w broken (ulids k) now (oidc_input ident ?name) s")
  from createAccount_users [OF c [unfolded CreateAccount_def]] obtain us where us:
    "st_users (ac_store s1) = st_users (ac_store s) @ us"
    "st_identities (ac_store s1) = st_identities (ac_store s)"
    "\<forall>acct. r1 = Inr acct \<longrightarrow> a_ID (dto_User acct) \<notin> user_ids (ac_store s)" by blast
  show ?case
  proof (cases "\<exists>e. r1 = Inl e \<and> KindOf e = KindConflict")
    case True
    with c Cons.prems have "provision w broken ulids now ident base ks s1 = (r, s')" by (auto simp: Let_def)
    from Cons.IH [OF this] us(1,2) show ?thesis by (force simp: user_ids_def)
  next
    case False
    with c Cons.prems have "s' = s1" "\<forall>acct. r = Inr (Some acct) \<longrightarrow> r1 = Inr acct"
      by (auto simp: Let_def split: sum.splits)
    with us show ?thesis by blast
  qed
qed

lemma others_kept_edit:
  assumes "UpdateUser probe now (u\<lparr>a_Roles := rs\<rparr>) g st = Inr st'" "accounts_ok st" "u \<in> set (st_users st)"
  shows "others_kept (a_ID u) st st'" "st_identities st' = st_identities st"
proof -
  note st' = UpdateUser_Inr(1) [OF assms(1)]
  show "st_identities st' = st_identities st" by (simp add: st')
  let ?f = "\<lambda>r. if a_ID r = a_ID u then written_row now (u\<lparr>a_Roles := rs\<rparr>) r else r"
  have users: "st_users st' = map ?f (st_users st)" by (simp add: st')
  have in_users: "?f v \<in> set (st_users st')" if "v \<in> set (st_users st)" for v using that by (simp add: users)
  have "a_ID (?f v) = a_ID v \<and> a_Username (?f v) = a_Username v \<and> a_PasswordHash (?f v) = a_PasswordHash v
      \<and> a_Disabled (?f v) = a_Disabled v \<and> a_Pending (?f v) = a_Pending v" if "v \<in> set (st_users st)" for v
    using same_id_same_row [OF assms(2) that assms(3)] by (auto simp: written_row_def)
  with in_users have "\<exists>u' \<in> set (st_users st'). a_ID u' = a_ID v \<and> a_Username u' = a_Username v
      \<and> a_PasswordHash u' = a_PasswordHash v \<and> a_Disabled u' = a_Disabled v \<and> a_Pending u' = a_Pending v"
    if "v \<in> set (st_users st)" for v using that by blast
  moreover have "v \<in> set (st_users st')" if "v \<in> set (st_users st)" "a_ID v \<noteq> a_ID u" for v
    using in_users [OF that(1)] that(2) by simp
  ultimately show "others_kept (a_ID u) st st'" unfolding others_kept_def by blast
qed


lemma others_kept_refl: "others_kept uid st st"
  by (auto simp: others_kept_def)

lemma others_kept_cong: "others_kept uid st st' \<Longrightarrow> st_users st2 = st_users st' \<Longrightarrow> others_kept uid st st2"
  by (simp add: others_kept_def)

lemma apply_oidc_roles_keeps:
  assumes "apply_oidc_roles w broken now ident u s = (r, s1)" "accounts_ok (ac_store s)"
    "u \<in> set (st_users (ac_store s))"
  shows "others_kept (a_ID u) (ac_store s) (ac_store s1)"
    "st_identities (ac_store s1) = st_identities (ac_store s)" "\<forall>u'. r = Inr u' \<longrightarrow> a_ID u' = a_ID u"
proof -
  let ?put = "\<lambda>rs. ask (broken CUpdateUser) (UpdateUser (broken CProbe) now (u\<lparr>a_Roles := rs\<rparr>)
        (hasRole (a_Roles u) ''admin'' \<and> \<not> hasRole rs ''admin'')) s"
  have "others_kept (a_ID u) (ac_store s) (ac_store s1)
      \<and> st_identities (ac_store s1) = st_identities (ac_store s)"
  proof (cases "\<exists>rs st. oi_Roles ident = Some rs \<and> \<not> sameRoles (a_Roles u) rs \<and> ?put rs = Inr st")
    case True
    then obtain rs st where w: "oi_Roles ident = Some rs" "\<not> sameRoles (a_Roles u) rs" "?put rs = Inr st"
      by blast
    with assms(1) have s1: "st_users (ac_store s1) = st_users st" "st_identities (ac_store s1) = st_identities st"
      by (auto simp: apply_oidc_roles_def Let_def)
    note k = others_kept_edit [OF ask_Inr [OF w(3)] assms(2,3)]
    from others_kept_cong [OF k(1) s1(1)] k(2) s1(2) show ?thesis by simp
  next
    case False
    with assms(1) have "ac_store s1 = ac_store s"
      by (auto simp: apply_oidc_roles_def Let_def split: option.splits if_splits sum.splits store_error.splits)
    then show ?thesis by (simp add: others_kept_refl)
  qed
  then show "others_kept (a_ID u) (ac_store s) (ac_store s1)"
    "st_identities (ac_store s1) = st_identities (ac_store s)" by blast+
  show "\<forall>u'. r = Inr u' \<longrightarrow> a_ID u' = a_ID u"
    using assms(1)
    by (auto simp: apply_oidc_roles_def Let_def split: option.splits if_splits sum.splits store_error.splits)
qed

lemma LinkIdentity_keeps:
  assumes "LinkIdentity i st = Inr st'"
  shows "st_users st' = st_users st"
    "\<exists>j \<in> set (st_identities st'). subject_of j = subject_of i \<and> id_UserID j = id_UserID i"
    "subject_of ` set (st_identities st') = insert (subject_of i) (subject_of ` set (st_identities st))"
  using assms
proof (atomize (full), cases rule: LinkIdentity_Inr)
  case new
  then show "st_users st' = st_users st \<and>
    (\<exists>j \<in> set (st_identities st'). subject_of j = subject_of i \<and> id_UserID j = id_UserID i) \<and>
    subject_of ` set (st_identities st') = insert (subject_of i) (subject_of ` set (st_identities st))" by auto
next
  case (again P)
  let ?f = "\<lambda>r. if P r then r\<lparr>id_Email := id_Email i\<rparr> else r"
  have ids: "st_identities st' = map ?f (st_identities st)" by (simp add: again(1))
  have f: "subject_of (?f r) = subject_of r" "id_UserID (?f r) = id_UserID r" for r
    by (simp_all add: subject_of_def)
  have sub: "subject_of ` set (st_identities st') = subject_of ` set (st_identities st)"
    unfolding ids by (rule map_rows(2)) (simp add: subject_of_def)
  from again(2) obtain r where r: "r \<in> set (st_identities st)" "subject_of r = subject_of i" "id_UserID r = id_UserID i"
    by blast
  then have "?f r \<in> set (st_identities st')" by (simp add: ids)
  with f r have "\<exists>j \<in> set (st_identities st'). subject_of j = subject_of i \<and> id_UserID j = id_UserID i" by metis
  moreover have "st_users st' = st_users st" by (simp add: again(1))
  moreover have "subject_of i \<in> subject_of ` set (st_identities st)" using r by (metis imageI)
  ultimately show "st_users st' = st_users st \<and>
    (\<exists>j \<in> set (st_identities st'). subject_of j = subject_of i \<and> id_UserID j = id_UserID i) \<and>
    subject_of ` set (st_identities st') = insert (subject_of i) (subject_of ` set (st_identities st))"
    using sub by auto
qed

text \<open>C11. A provider's identity signs in to the account it is linked to, when that account may sign
  in, or to one made for it: it never takes over an account it is not linked to, whatever names or
  addresses agree.  Every other account is left as it was, and of its own no name, password or
  standing changes.\<close>

theorem oidc_never_takes_over:
  assumes "ResolveOidcAccount w broken ulids now ident s = (Inr acct, s')" "accounts_ok (ac_store s)"
  shows "((\<exists>i \<in> set (st_identities (ac_store s)). subject_of i = (oi_Provider ident, oi_Subject ident)
        \<and> id_UserID i = a_ID (dto_User acct)
        \<and> (\<exists>u. UserByID (id_UserID i) (ac_store s) = Inr u \<and> \<not> a_Disabled u \<and> \<not> a_Pending u))
      \<or> (oi_Provider ident, oi_Subject ident) \<notin> subject_of ` set (st_identities (ac_store s))
        \<and> a_ID (dto_User acct) \<notin> user_ids (ac_store s))
    \<and> others_kept (a_ID (dto_User acct)) (ac_store s) (ac_store s')
    \<and> (\<exists>i \<in> set (st_identities (ac_store s')). subject_of i = (oi_Provider ident, oi_Subject ident)
        \<and> id_UserID i = a_ID (dto_User acct))" (is ?P)
proof -
  let ?sub = "(oi_Provider ident, oi_Subject ident)"
  show ?P
  proof (cases "ask (broken CIdentityBySubject) (IdentityBySubject (oi_Provider ident) (oi_Subject ident)) s")
    case (Inr i)
    note i = IdentityBySubject_Inr [OF ask_Inr [OF Inr]]
    from Inr assms(1) have sign: "sign_in_linked w broken now ident i s = (Inr acct, s')"
      by (simp add: ResolveOidcAccount_def)
    then obtain u where u: "ask (broken CUserByID) (UserByID (id_UserID i)) s = Inr u" "\<not> a_Disabled u" "\<not> a_Pending u"
      by (auto simp: sign_in_linked_def split: sum.splits if_splits)
    note row = UserByID_InrD [OF ask_Inr [OF u(1)]]
    obtain r s1 where roles: "apply_oidc_roles w broken now ident u s = (r, s1)"
      by (cases "apply_oidc_roles w broken now ident u s")
    note k = apply_oidc_roles_keeps [OF roles assms(2) conjunct1 [OF row]]
    from sign u roles obtain u' where u': "r = Inr u'" by (auto simp: sign_in_linked_def split: sum.splits)
    with k(3) row have id: "a_ID u' = id_UserID i" by simp
    have rest: "a_ID (dto_User acct) = id_UserID i \<and> st_users (ac_store s') = st_users (ac_store s1)
      \<and> (\<exists>j \<in> set (st_identities (ac_store s')). subject_of j = ?sub \<and> id_UserID j = id_UserID i)"
    proof (cases "oi_Email ident = id_Email i")
      case True
      with sign u roles u' id i k(2) show ?thesis by (auto simp: sign_in_linked_def dest: accountFor_Inr)
    next
      case False
      with sign u roles u' obtain st where st: "ask (broken CLinkIdentity) (LinkIdentity (link_of ident (a_ID u'))) s1 = Inr st"
        "s' = s1\<lparr>ac_store := st\<rparr>" "accountFor broken u' s' = Inr acct"
        by (auto simp: sign_in_linked_def Let_def split: sum.splits)
      from LinkIdentity_keeps(1,2) [OF ask_Inr [OF st(1)]] st(2,3) id show ?thesis
        by (auto simp: link_of_def subject_of_def dest: accountFor_Inr)
    qed
    with others_kept_cong [OF k(1)] row have "others_kept (a_ID (dto_User acct)) (ac_store s) (ac_store s')" by simp
    with rest i u ask_Inr [OF u(1)] show ?thesis by fastforce
  next
    case (Inl e)
    with assms(1) have e: "e = RowNotFound" by (cases e) (simp_all add: ResolveOidcAccount_def)
    from Inl assms(1) have "IdentityBySubject (oi_Provider ident) (oi_Subject ident) (ac_store s) = Inl e"
      using e by (auto simp: ask_def split: if_splits)
    note free = IdentityBySubject_Inl [OF this]
    obtain r s1 where p: "provision w broken ulids now ident (usernameHint ident) oidc_attempts s = (r, s1)"
      by (cases "provision w broken ulids now ident (usernameHint ident) oidc_attempts s")
    with Inl e assms(1) obtain a st where a: "r = Inr (Some a)"
      "ask (broken CLinkIdentity) (LinkIdentity (link_of ident (a_ID (dto_User a)))) s1 = Inr st"
      "s' = s1\<lparr>ac_store := st\<rparr>" "Account broken (a_ID (dto_User a)) s' = Inr acct"
      by (auto simp: ResolveOidcAccount_def Let_def split: sum.splits option.splits)
    have same: "a_ID (dto_User acct) = a_ID (dto_User a)"
      using a(4) by (auto simp: Account_def dest!: accountFor_Inr ask_Inr UserByID_InrD split: sum.splits store_error.splits)
    from provision_users [OF p] a(1) obtain us where us: "st_users (ac_store s1) = st_users (ac_store s) @ us"
      "a_ID (dto_User a) \<notin> user_ids (ac_store s)" by auto
    note l = LinkIdentity_keeps(1,2) [OF ask_Inr [OF a(2)]]
    have "others_kept (a_ID (dto_User acct)) (ac_store s) (ac_store s')"
      using us(1) l(1) a(3) by (intro others_kept_append) simp
    moreover have "\<exists>j \<in> set (st_identities (ac_store s')). subject_of j = ?sub \<and> id_UserID j = a_ID (dto_User acct)"
      using l(2) a(3) same by (auto simp: link_of_def subject_of_def)
    ultimately show ?thesis using free us(2) same by simp
  qed
qed

section \<open>Local sign-in\<close>

lemma VerifyLocalLogin_Some:
  assumes "VerifyLocalLogin w broken name pw s = Inr (Some u)"
  shows "u \<in> set (st_users (ac_store s))" "to_lower (a_Username u) = to_lower name" "\<not> a_Disabled u"
    "\<not> a_Pending u" "a_PasswordHash u \<noteq> ''''" "VerifyPassword (aw_argon w) (a_PasswordHash u) pw"
proof -
  from assms have "ask (broken CUserByUsername) (UserByUsername name) s = Inr u"
    by (auto simp: VerifyLocalLogin_def split: sum.splits store_error.splits if_splits)
  from UserByUsername_Inr [OF ask_Inr [OF this]]
  show "u \<in> set (st_users (ac_store s))" "to_lower (a_Username u) = to_lower name" by auto
  from assms show "\<not> a_Disabled u" "\<not> a_Pending u" "a_PasswordHash u \<noteq> ''''"
    "VerifyPassword (aw_argon w) (a_PasswordHash u) pw"
    by (auto simp: VerifyLocalLogin_def split: sum.splits store_error.splits if_splits)
qed

text \<open>After a password is set, exactly the passwords the derivation does not tell from it sign in
  under the account's name, in any case of its letters, and only while the account is enabled and
  approved; every other account signs in as before.\<close>

theorem login_follows_password:
  assumes "SetAccountPassword w broken now uid pw s = (None, s')" "accounts_ok (ac_store s)"
    and "UserByID uid (ac_store s) = Inr u" "to_lower name = to_lower (a_Username u)"
    and "params_ok (aw_params w)" "\<forall>q z t m n. length (aw_argon w q z t m n argonKeyLen) = argonKeyLen"
  shows "((\<exists>v. VerifyLocalLogin w (\<lambda>_. False) name q s' = Inr (Some v) \<and> a_ID v = uid) \<longleftrightarrow>
      \<not> a_Disabled u \<and> \<not> a_Pending u \<and> (\<exists>salt. aw_salt w = Some salt
        \<and> aw_argon w q salt (nat (ag_time (aw_params w))) (nat (ag_memory (aw_params w)))
            (nat (ag_threads (aw_params w))) argonKeyLen =
          aw_argon w pw salt (nat (ag_time (aw_params w))) (nat (ag_memory (aw_params w)))
            (nat (ag_threads (aw_params w))) argonKeyLen))
    \<and> (\<forall>v other p. a_ID v \<noteq> uid \<longrightarrow>
        (VerifyLocalLogin w (\<lambda>_. False) other p s' = Inr (Some v) \<longleftrightarrow>
         VerifyLocalLogin w (\<lambda>_. False) other p s = Inr (Some v)))"
proof -
  note row = UserByID_InrD [OF assms(3)]
  from assms(1,3) obtain hash st where h: "hash_new w pw = Some hash"
    "UpdateUser (broken CProbe) now (u\<lparr>a_PasswordHash := hash\<rparr>) False (ac_store s) = Inr st"
    "s' = s\<lparr>ac_store := st\<rparr>"
    by (auto simp: SetAccountPassword_def ask_def split: if_splits sum.splits store_error.splits option.splits)
  from h(1) obtain salt where salt: "aw_salt w = Some salt"
    by (auto simp: hash_new_def HashPassword_def split: option.splits)
  with h(1) have hashed: "HashPassword (aw_argon w) (aw_params w) (Some salt) pw = Some hash"
    by (simp add: hash_new_def)
  note verify = stored_hash_verifies [OF hashed assms(5,6)]
  have "hash \<noteq> ''''" using hashed by (auto simp: HashPassword_def Let_def)
  let ?f = "\<lambda>r. if a_ID r = a_ID u then written_row now (u\<lparr>a_PasswordHash := hash\<rparr>) r else r"
  have users: "st_users (ac_store s') = map ?f (st_users (ac_store s))"
    using UpdateUser_Inr(1) [OF h(2)] h(3) by simp
  have ok': "accounts_ok (ac_store s')"
    using account_tables.inv_steps [OF SetAccountPassword_run [OF assms(2), of w broken now uid pw] assms(2)]
      assms(1) by simp
  have mine: "?f u \<in> set (st_users (ac_store s'))" "a_ID (?f u) = uid" "a_PasswordHash (?f u) = hash"
    "a_Disabled (?f u) = a_Disabled u" "a_Pending (?f u) = a_Pending u" "a_Username (?f u) = a_Username u"
  proof -
    show "?f u \<in> set (st_users (ac_store s'))" unfolding users set_map using row by (intro imageI) simp
    show "a_ID (?f u) = uid" "a_PasswordHash (?f u) = hash" "a_Disabled (?f u) = a_Disabled u"
      "a_Pending (?f u) = a_Pending u" "a_Username (?f u) = a_Username u"
      using row by (simp_all add: written_row_def)
  qed
  have found: "UserByUsername name (ac_store s') = Inr (?f u)"
    using UserByUsername_eq [OF ok' mine(1)] mine(6) assms(4) by simp
  have "(\<exists>v. VerifyLocalLogin w (\<lambda>_. False) name q s' = Inr (Some v) \<and> a_ID v = uid) \<longleftrightarrow>
      \<not> a_Disabled u \<and> \<not> a_Pending u \<and> VerifyPassword (aw_argon w) hash q"
    using found mine(2-5) \<open>hash \<noteq> ''''\<close> by (auto simp: VerifyLocalLogin_def ask_def)
  moreover have "VerifyLocalLogin w (\<lambda>_. False) other p s' = Inr (Some v) \<longleftrightarrow>
      VerifyLocalLogin w (\<lambda>_. False) other p s = Inr (Some v)" if "a_ID v \<noteq> uid" for v other p
  proof -
    have same: "v \<in> set (st_users (ac_store s')) \<longleftrightarrow> v \<in> set (st_users (ac_store s))"
      using that row by (force simp: users)
    have "VerifyLocalLogin w (\<lambda>_. False) other p s2 = Inr (Some v) \<longleftrightarrow>
        v \<in> set (st_users (ac_store s2)) \<and> to_lower (a_Username v) = to_lower other \<and> \<not> a_Disabled v
        \<and> \<not> a_Pending v \<and> a_PasswordHash v \<noteq> '''' \<and> VerifyPassword (aw_argon w) (a_PasswordHash v) p"
      if "accounts_ok (ac_store s2)" for s2
      using VerifyLocalLogin_Some [of w "\<lambda>_. False" other p s2 v] UserByUsername_eq [OF that, of v other]
      by (auto simp: VerifyLocalLogin_def ask_def)
    with ok' assms(2) same show ?thesis by blast
  qed
  ultimately show ?thesis using verify [of q] salt by auto
qed


section \<open>Concrete runs\<close>

definition ada :: account where "ada = plain_user ''us-a'' ''Ada'' [''admin'']"
definition bob :: account where "bob = plain_user ''us-b'' ''Bob'' [''user'']"

definition empty_store :: store where
  "empty_store = two_users\<lparr>st_users := []\<rparr>"

definition one_user :: store where
  "one_user = two_users\<lparr>st_users := [ada]\<rparr>"

lemma two_users_ok: "accounts_ok two_users" "has_admin two_users"
  by (simp_all add: accounts_ok_def has_admin_def two_users_def plain_user_def user_ids_def roles_ok_def
      validRoles_def to_lower_def lower_char_def enabled_admin_def joinRoles_def)

lemma one_user_run: "account_step\<^sup>*\<^sup>* empty_store one_user"
proof (rule r_into_rtranclp, rule account_step.create [of 0 ada False _ ada])
  show "store_CreateUser 0 ada False empty_store = Inr (ada, one_user)"
    by (simp add: store_CreateUser_def empty_store_def one_user_def two_users_def ada_def plain_user_def
        joinRoles_def splitRoles_def Let_def)
qed (simp add: ada_def plain_user_def roles_ok_def validRoles_def)

lemma reachable_accounts_witness:
  "no_accounts empty_store \<and> UserByID ''us-a'' one_user = Inr ada \<and> UserByUsername ''ADA'' one_user = Inr ada"
proof -
  have none: "no_accounts empty_store"
    by (simp add: no_accounts_def empty_store_def two_users_def)
  moreover have "ada \<in> set (st_users one_user)" "a_ID ada = ''us-a''"
    by (simp_all add: one_user_def ada_def plain_user_def)
  moreover have "to_lower ''ADA'' = to_lower (a_Username ada)" by code_simp
  ultimately show ?thesis using reachable_accounts [OF none one_user_run] by metis
qed

definition promoted :: store where
  "promoted = two_users\<lparr>st_users := [ada, bob\<lparr>a_Roles := [''admin''], a_UpdatedAt := 1\<rparr>]\<rparr>"

lemma promoted_run: "account_step\<^sup>*\<^sup>* two_users promoted"
proof (rule r_into_rtranclp, rule account_step.edit [of False 1 "bob\<lparr>a_Roles := [''admin'']\<rparr>" False _ _ bob])
  show "UpdateUser False 1 (bob\<lparr>a_Roles := [''admin'']\<rparr>) False two_users = Inr promoted"
    by (simp add: UpdateUser_def two_users_def promoted_def plain_user_def bob_def ada_def joinRoles_def
        splitRoles_def written_row_def)
  show "enabled_admin bob \<and> \<not> enabled_admin (bob\<lparr>a_Roles := [''admin'']\<rparr>) \<longrightarrow> False"
    by (simp add: bob_def plain_user_def enabled_admin_def joinRoles_def to_lower_def lower_char_def)
qed (simp_all add: bob_def plain_user_def roles_ok_def validRoles_def two_users_def)

text \<open>Passwords are derived by padding: every password has its own key as long as it is short.\<close>

definition demo_world :: account_world where
  "demo_world = \<lparr>aw_argon = demo_kdf, aw_params = productionParams, aw_salt = Some ''salt'',
     aw_valid = (\<lambda>_. True), aw_CreateUser = (\<lambda>_. Inr ''cu''), aw_shows = (\<lambda>_. Some [])\<rparr>"

lemma admin_remains_witness:
  "accounts_ok two_users \<and> account_step\<^sup>*\<^sup>* two_users promoted
    \<and> BootstrapRequired (\<lambda>_. False) \<lparr>ac_store = promoted, ac_out = []\<rparr> = Inr False
    \<and> ac_store (snd (Bootstrap demo_world (\<lambda>_. False) ''z'' 5 ''Eve'' ''pw'' ''Eve''
        \<lparr>ac_store = promoted, ac_out = []\<rparr>)) = promoted"
  using admin_remains [OF two_users_ok promoted_run] two_users_ok(1) promoted_run by blast

definition demo_ident :: oidc_identity where
  "demo_ident = \<lparr>oi_Provider = ''op'', oi_Subject = ''s1'', oi_Email = ''b'', oi_Username = ''ada'',
     oi_Name = ''Ada'', oi_Roles = None\<rparr>"

definition linked_state :: accounts where
  "linked_state = \<lparr>ac_store = two_users\<lparr>st_identities := [link_of demo_ident ''us-b'']\<rparr>, ac_out = []\<rparr>"

lemma linked_ok: "accounts_ok (ac_store linked_state)"
  using two_users_ok(1) by (simp add: accounts_ok_def linked_state_def user_ids_def two_users_def plain_user_def link_of_def)

lemma account_operations_are_runs_witness:
  "accounts_ok (ac_store linked_state)
    \<and> account_step\<^sup>*\<^sup>* (ac_store linked_state)
        (ac_store (snd (SetAccountPassword demo_world (\<lambda>_. False) 7 ''us-b'' ''pw'' linked_state)))
    \<and> account_step\<^sup>*\<^sup>* (ac_store linked_state)
        (ac_store (snd (RejectSignup (\<lambda>_. False) ''us-a'' ''us-b'' linked_state)))"
  using account_operations_are_runs [OF linked_ok, of demo_ident] linked_ok
  by (simp add: demo_ident_def)

lemma oidc_never_takes_over_witness:
  "\<exists>acct. ResolveOidcAccount demo_world (\<lambda>_. False) (\<lambda>_. ''z'') 9 demo_ident linked_state = (Inr acct, linked_state)
    \<and> a_ID (dto_User acct) = ''us-b'' \<and> others_kept ''us-b'' (ac_store linked_state) (ac_store linked_state)"
proof -
  let ?acct = "\<lparr>dto_User = bob, dto_LibraryPIDs = [], dto_Identities = [link_of demo_ident ''us-b'']\<rparr>"
  have "ResolveOidcAccount demo_world (\<lambda>_. False) (\<lambda>_. ''z'') 9 demo_ident linked_state = (Inr ?acct, linked_state)"
    by (simp add: ResolveOidcAccount_def ask_def IdentityBySubject_def linked_state_def link_of_def demo_ident_def
        sign_in_linked_def UserByID_def two_users_def plain_user_def apply_oidc_roles_def accountFor_def
        IdentitiesByUser_def bob_def)
  from this oidc_never_takes_over [OF this linked_ok] show ?thesis by (simp add: bob_def plain_user_def)
qed

lemma login_follows_password_witness:
  "\<exists>s'. SetAccountPassword demo_world (\<lambda>_. False) 7 ''us-b'' ''secret'' linked_state = (None, s')
    \<and> (\<exists>v. VerifyLocalLogin demo_world (\<lambda>_. False) ''BOB'' ''secret'' s' = Inr (Some v) \<and> a_ID v = ''us-b'')
    \<and> \<not> (\<exists>v. VerifyLocalLogin demo_world (\<lambda>_. False) ''BOB'' ''guess'' s' = Inr (Some v) \<and> a_ID v = ''us-b'')"
proof -
  have found: "UserByID ''us-b'' (ac_store linked_state) = Inr bob"
    by (simp add: UserByID_def linked_state_def two_users_def plain_user_def bob_def)
  have "\<exists>s'. SetAccountPassword demo_world (\<lambda>_. False) 7 ''us-b'' ''secret'' linked_state = (None, s')"
    unfolding SetAccountPassword_def ask_def if_False found
    by (simp add: hash_new_def demo_world_def HashPassword_def Let_def
        UpdateUser_def linked_state_def two_users_def plain_user_def bob_def)
  then obtain s' where s': "SetAccountPassword demo_world (\<lambda>_. False) 7 ''us-b'' ''secret'' linked_state = (None, s')"
    by blast
  have ok: "params_ok (aw_params demo_world)" by (simp add: demo_world_def params_ok_def productionParams_def)
  have len: "\<forall>q z t m n. length (aw_argon demo_world q z t m n argonKeyLen) = argonKeyLen"
    by (auto simp: demo_world_def demo_kdf_def min_def)
  have name: "to_lower ''BOB'' = to_lower (a_Username bob)"
    by code_simp
  have keys: "demo_kdf ''guess'' z t m n argonKeyLen \<noteq> demo_kdf ''secret'' z t m n argonKeyLen" for z t m n
    by (simp add: demo_kdf_def argonKeyLen_def)
  have on: "\<not> a_Disabled bob" "\<not> a_Pending bob" by (simp_all add: bob_def plain_user_def)
  note both = conjunct1 [OF login_follows_password [OF s' linked_ok found name ok len]]
  from both [of "''secret''"] both [of "''guess''"] s' on keys show ?thesis
    by (simp add: demo_world_def)
qed


section \<open>Invites\<close>

text \<open>The invites beside a ledger of the admissions each has out: sign-ups that took a use of it and
  have not given it back.  Any number of sign-ups may be under way between two statements.\<close>

inductive invite_step :: "store \<times> (string \<Rightarrow> int) \<Rightarrow> store \<times> (string \<Rightarrow> int) \<Rightarrow> bool" where
  admit: "ConsumeInvite now hash st = Inr (iv, st') \<Longrightarrow>
    invite_step (st, out) (st', out(iv_ID iv := out (iv_ID iv) + 1))"
| give_back: "0 < out iid \<Longrightarrow> invite_step (st, out) (UnconsumeInvite iid st, out(iid := out iid - 1))"
| issue: "InsertInvite iv st = Inr st' \<Longrightarrow> iv_UsedCount iv = 0 \<Longrightarrow> 0 \<le> iv_MaxUses iv \<Longrightarrow>
    invite_step (st, out) (st', out)"
| revoke: "store_RevokeInvite iid st = Inr st' \<Longrightarrow> invite_step (st, out) (st', out)"
| elsewhere: "st_invites st' = st_invites st \<Longrightarrow> invite_step (st, out) (st', out)"

inductive_cases invite_stepE: "invite_step s s'"

definition invite_sound :: "(string \<Rightarrow> int) \<Rightarrow> invite \<Rightarrow> bool" where
  "invite_sound out r \<longleftrightarrow> iv_UsedCount r = out (iv_ID r) \<and> 0 \<le> iv_UsedCount r
     \<and> (iv_MaxUses r = 0 \<or> iv_UsedCount r \<le> iv_MaxUses r)"

definition invites_ok :: "store \<times> (string \<Rightarrow> int) \<Rightarrow> bool" where
  "invites_ok s \<longleftrightarrow> distinct (map iv_ID (st_invites (fst s))) \<and> distinct (map iv_TokenHash (st_invites (fst s)))
     \<and> (\<forall>r \<in> set (st_invites (fst s)). invite_sound (snd s) r)
     \<and> (\<forall>iid. iid \<notin> iv_ID ` set (st_invites (fst s)) \<longrightarrow> snd s iid = 0)"

lemma ConsumeInvite_Inr:
  assumes "ConsumeInvite now hash st = Inr (iv, st')"
  obtains r where "r \<in> set (st_invites st)" "invite_live now hash r" "iv = use_invite r"
    "st_invites st' = map (\<lambda>r. if invite_live now hash r then use_invite r else r) (st_invites st)"
proof (cases "List.find (invite_live now hash) (st_invites st)")
  case None
  with assms show ?thesis by (simp add: ConsumeInvite_def)
next
  case (Some r)
  then have "r \<in> set (st_invites st)" "invite_live now hash r" by (auto simp: find_Some_iff)
  with Some assms that [of r] show ?thesis by (auto simp: ConsumeInvite_def)
qed

lemma same_key: "distinct (map f xs) \<Longrightarrow> x \<in> set xs \<Longrightarrow> y \<in> set xs \<Longrightarrow> f x = f y \<Longrightarrow> x = y"
  by (auto simp: distinct_map dest: inj_onD)

text \<open>An edit row by row keeps the table sound when it keeps the keys and the edited rows agree with
  the new ledger.\<close>

lemma rows_keep:
  assumes "invites_ok (st, out)" "st_invites st' = map f (st_invites st)"
    and "\<And>q. iv_ID (f q) = iv_ID q" "\<And>q. iv_TokenHash (f q) = iv_TokenHash q"
    and "\<And>q. q \<in> set (st_invites st) \<Longrightarrow> invite_sound out' (f q)"
    and "\<And>iid. iid \<notin> iv_ID ` set (st_invites st) \<Longrightarrow> out' iid = out iid"
  shows "invites_ok (st', out')"
proof -
  have "map iv_ID (st_invites st') = map iv_ID (st_invites st)"
    "map iv_TokenHash (st_invites st') = map iv_TokenHash (st_invites st)"
    using assms(2-4) by (simp_all add: comp_def)
  moreover have "iv_ID ` set (st_invites st') = iv_ID ` set (st_invites st)"
    using calculation(1) by (metis set_map)
  ultimately have "distinct (map iv_ID (st_invites st'))" "distinct (map iv_TokenHash (st_invites st'))"
    "iv_ID ` set (st_invites st') = iv_ID ` set (st_invites st)"
    using assms(1) by (simp_all only: invites_ok_def fst_conv)
  moreover have "\<forall>r \<in> set (st_invites st'). invite_sound out' r" using assms(2,5) by auto
  ultimately show ?thesis using assms(1,6) by (simp add: invites_ok_def)
qed

lemma admit_keeps:
  assumes "invites_ok (st, out)" "ConsumeInvite now hash st = Inr (iv, st')"
  shows "invites_ok (st', out(iv_ID iv := out (iv_ID iv) + 1))"
proof -
  from assms(2) obtain r where r: "r \<in> set (st_invites st)" "invite_live now hash r" "iv = use_invite r"
    "st_invites st' = map (\<lambda>r. if invite_live now hash r then use_invite r else r) (st_invites st)"
    by (rule ConsumeInvite_Inr)
  have id: "iv_ID iv = iv_ID r" by (simp add: r(3) use_invite_def)
  have one: "invite_live now hash q \<longleftrightarrow> q = r" if "q \<in> set (st_invites st)" for q
    using that r(1,2) same_key [of iv_TokenHash "st_invites st" q r] assms(1)
    by (auto simp: invites_ok_def invite_live_def)
  show ?thesis unfolding id
  proof (rule rows_keep [OF assms(1) r(4)])
    fix q assume q: "q \<in> set (st_invites st)"
    then have sound: "invite_sound out q" using assms(1) by (simp add: invites_ok_def)
    show "invite_sound (out(iv_ID r := out (iv_ID r) + 1)) (if invite_live now hash q then use_invite q else q)"
    proof (cases "q = r")
      case True
      with sound r(2) show ?thesis by (auto simp: invite_sound_def use_invite_def invite_live_def)
    next
      case False
      then have "iv_ID q \<noteq> iv_ID r" using same_key [of iv_ID "st_invites st" q r] q r(1) assms(1)
        by (auto simp: invites_ok_def)
      with False one [OF q] sound show ?thesis by (auto simp: invite_sound_def)
    qed
  qed (use r(1) in \<open>auto simp: use_invite_def\<close>)
qed

lemma give_back_keeps:
  assumes "invites_ok (st, out)" "0 < out iid"
  shows "invites_ok (UnconsumeInvite iid st, out(iid := out iid - 1))"
proof -
  let ?f = "\<lambda>r. if iv_ID r = iid \<and> 0 < iv_UsedCount r then r\<lparr>iv_UsedCount := iv_UsedCount r - 1\<rparr> else r"
  have inv: "st_invites (UnconsumeInvite iid st) = map ?f (st_invites st)" by (simp add: UnconsumeInvite_def)
  show ?thesis
  proof (rule rows_keep [OF assms(1) inv])
    fix q assume "q \<in> set (st_invites st)"
    then have "invite_sound out q" using assms(1) by (simp add: invites_ok_def)
    with assms(2) show "invite_sound (out(iid := out iid - 1)) (?f q)" by (auto simp: invite_sound_def)
  next
    fix i assume "i \<notin> iv_ID ` set (st_invites st)"
    moreover have "iid \<in> iv_ID ` set (st_invites st)"
    proof (rule ccontr)
      assume "iid \<notin> iv_ID ` set (st_invites st)"
      with assms show False by (simp add: invites_ok_def)
    qed
    ultimately show "(out(iid := out iid - 1)) i = out i" by auto
  qed auto
qed

lemma issue_keeps:
  assumes "invites_ok (st, out)" "InsertInvite iv st = Inr st'" "iv_UsedCount iv = 0" "0 \<le> iv_MaxUses iv"
  shows "invites_ok (st', out)"
proof -
  from assms(2) have new: "iv_ID iv \<notin> iv_ID ` set (st_invites st)" "iv_TokenHash iv \<notin> iv_TokenHash ` set (st_invites st)"
    "st_invites st' = st_invites st @ [iv\<lparr>iv_Roles := splitRoles (joinRoles (iv_Roles iv))\<rparr>]"
    by (auto simp: InsertInvite_def list_ex_iff split: if_splits)
  moreover have "out (iv_ID iv) = 0" using assms(1) new(1) by (simp add: invites_ok_def)
  ultimately show ?thesis using assms by (auto simp: invites_ok_def invite_sound_def)
qed

lemma revoke_keeps:
  assumes "invites_ok (st, out)" "store_RevokeInvite iid st = Inr st'"
  shows "invites_ok (st', out)"
proof -
  from assms(2) have inv: "st_invites st' = map (\<lambda>r. if iv_ID r = iid then r\<lparr>iv_Revoked := True\<rparr> else r) (st_invites st)"
    by (auto simp: store_RevokeInvite_def split: if_splits)
  show ?thesis by (rule rows_keep [OF assms(1) inv]) (use assms(1) in \<open>auto simp: invites_ok_def invite_sound_def\<close>)
qed

lemma invites_ok_step:
  assumes "invite_step s s'" "invites_ok s"
  shows "invites_ok s'"
  using assms
proof cases
  case (elsewhere st' st out)
  with assms(2) show ?thesis by (simp add: invites_ok_def)
qed (auto intro: admit_keeps give_back_keeps issue_keeps revoke_keeps)

interpretation invite_table: transition_system invites_ok invite_step invites_ok
  by unfold_locales (auto intro: invites_ok_step)

lemma spent_invite_refused:
  assumes "invites_ok (st, out)" "r \<in> set (st_invites st)"
    "iv_Revoked r \<or> iv_ExpiresAtNS r \<noteq> 0 \<and> iv_ExpiresAtNS r \<le> now \<or> iv_MaxUses r \<noteq> 0 \<and> out (iv_ID r) = iv_MaxUses r"
  shows "ConsumeInvite now (iv_TokenHash r) st = Inl RowNotFound"
proof -
  have "\<not> invite_live now (iv_TokenHash r) q" if q: "q \<in> set (st_invites st)" for q
  proof
    assume live: "invite_live now (iv_TokenHash r) q"
    with q assms(1,2) have "q = r"
      using same_key [of iv_TokenHash "st_invites st" q r] by (auto simp: invites_ok_def invite_live_def)
    moreover have "invite_sound out r" using assms(1,2) by (simp add: invites_ok_def)
    ultimately show False using live assms(3) by (auto simp: invite_live_def invite_sound_def)
  qed
  then have "List.find (invite_live now (iv_TokenHash r)) (st_invites st) = None" by (auto simp: find_None_iff)
  then show ?thesis by (simp add: ConsumeInvite_def)
qed

text \<open>C12. Whatever sign-ups race for an invite, with some of them giving their use back, no more than
  its limit hold one at a time; and an invite that is used up, revoked or past its expiry admits
  nobody: the sign-up is refused, no account is made and the tables stay.\<close>

theorem invite_admits_at_most_its_uses:
  assumes "st_invites st0 = []" "invite_step\<^sup>*\<^sup>* (st0, \<lambda>_. 0) (st, out)" "r \<in> set (st_invites st)"
  shows "0 \<le> out (iv_ID r) \<and> (iv_MaxUses r \<noteq> 0 \<longrightarrow> out (iv_ID r) \<le> iv_MaxUses r)
    \<and> (iv_Revoked r \<or> iv_ExpiresAtNS r \<noteq> 0 \<and> iv_ExpiresAtNS r \<le> now
        \<or> iv_MaxUses r \<noteq> 0 \<and> out (iv_ID r) = iv_MaxUses r \<longrightarrow>
       h token = iv_TokenHash r \<longrightarrow> TrimSpace token = token \<longrightarrow> token \<noteq> '''' \<longrightarrow>
       (\<exists>e. Signup w broken h on ulid now name pw dn token \<lparr>ac_store = st, ac_out = news\<rparr> =
          (Inl e, \<lparr>ac_store = st, ac_out = news\<rparr>)))"
proof -
  have "invites_ok (st0, \<lambda>_. 0)" using assms(1) by (simp add: invites_ok_def)
  from invite_table.inv_reachable [OF this assms(2)] have ok: "invites_ok (st, out)" .
  then have "invite_sound out r" using assms(3) by (simp add: invites_ok_def)
  moreover have "\<exists>e. Signup w broken h on ulid now name pw dn token \<lparr>ac_store = st, ac_out = news\<rparr> =
      (Inl e, \<lparr>ac_store = st, ac_out = news\<rparr>)"
    if "iv_Revoked r \<or> iv_ExpiresAtNS r \<noteq> 0 \<and> iv_ExpiresAtNS r \<le> now \<or> iv_MaxUses r \<noteq> 0 \<and> out (iv_ID r) = iv_MaxUses r"
      "h token = iv_TokenHash r" "TrimSpace token = token" "token \<noteq> ''''"
    using spent_invite_refused [OF ok assms(3) that(1)] that(2-)
    by (auto simp: Signup_def Let_def ask_def split: sum.split store_error.split)
  ultimately show ?thesis by (auto simp: invite_sound_def)
qed

definition one_seat :: invite where
  "one_seat = \<lparr>iv_ID = ''iv-1'', iv_TokenHash = ''tok'', iv_Note = '''', iv_Roles = [''user''],
     iv_LibraryAccess = ''all'', iv_LibraryGrants = [], iv_Perms = None, iv_UploadEnabled = False,
     iv_UploadQuotaBytes = 0, iv_MaxUses = 1, iv_UsedCount = 0, iv_Revoked = False, iv_ExpiresAtNS = 0,
     iv_CreatedBy = ''ada'', iv_CreatedAtNS = 0\<rparr>"

definition seat_taken :: store where
  "seat_taken = two_users\<lparr>st_invites := [use_invite one_seat]\<rparr>"

lemma seat_taken_run: "invite_step\<^sup>*\<^sup>* (two_users, \<lambda>_. 0) (seat_taken, (\<lambda>_. 0)(''iv-1'' := 1))"
proof -
  have "invite_step (two_users, \<lambda>_. 0) (two_users\<lparr>st_invites := [one_seat]\<rparr>, \<lambda>_. 0)"
    by (rule invite_step.issue [of one_seat])
      (simp_all add: InsertInvite_def two_users_def one_seat_def joinRoles_def splitRoles_def)
  moreover have "ConsumeInvite 5 ''tok'' (two_users\<lparr>st_invites := [one_seat]\<rparr>) = Inr (use_invite one_seat, seat_taken)"
    by (simp add: ConsumeInvite_def two_users_def one_seat_def invite_live_def seat_taken_def)
  from invite_step.admit [OF this, of "\<lambda>_. 0"]
  have "invite_step (two_users\<lparr>st_invites := [one_seat]\<rparr>, \<lambda>_. 0) (seat_taken, (\<lambda>_. 0)(''iv-1'' := 1))"
    by (simp add: one_seat_def use_invite_def)
  ultimately show ?thesis by (rule converse_rtranclp_into_rtranclp [OF _ r_into_rtranclp])
qed

lemma invite_admits_at_most_its_uses_witness:
  "invite_step\<^sup>*\<^sup>* (two_users, \<lambda>_. 0) (seat_taken, (\<lambda>_. 0)(''iv-1'' := 1))
    \<and> (\<exists>e. Signup demo_world (\<lambda>_. False) id True ''z'' 9 ''Cy'' ''pw'' ''Cy'' ''tok''
        \<lparr>ac_store = seat_taken, ac_out = []\<rparr> = (Inl e, \<lparr>ac_store = seat_taken, ac_out = []\<rparr>))"
proof -
  have none: "st_invites two_users = []" by (simp add: two_users_def)
  have mem: "use_invite one_seat \<in> set (st_invites seat_taken)" by (simp add: seat_taken_def)
  have "TrimSpace ''tok'' = ''tok''" by code_simp
  then show ?thesis
    using invite_admits_at_most_its_uses [OF none seat_taken_run mem, where h = id and token = "''tok''"] seat_taken_run
    by (simp add: one_seat_def use_invite_def)
qed


lemma createAccount_invites:
  "st_invites (ac_store (snd (createAccount w broken ulid now i g s))) = st_invites (ac_store s)"
proof -
  obtain r s' where c: "createAccount w broken ulid now i g s = (r, s')"
    by (cases "createAccount w broken ulid now i g s")
  from c show ?thesis
  proof (cases rule: createAccount_cases)
    case (refused e)
    with c show ?thesis by simp
  next
    case (made v u st grants)
    from made(1) have "st_invites st = st_invites (ac_store s)"
      by (auto simp: store_CreateUser_def Let_def split: if_splits)
    moreover have "st_invites st2 = st_invites st" if "SetLibraryGrants uid g st = Inr st2" for uid g st2
      using that by (auto simp: SetLibraryGrants_def split: if_splits)
    ultimately show ?thesis using made(5) c by auto
  qed
qed

text \<open>A sign-up through an invite is a run of the ledger's steps: admitted, it holds one use of an
  invite that was live for its token; refused, it holds none, unless the giving back itself failed,
  when a use is lost and never one too many given out.\<close>

theorem signup_spends_one_use:
  assumes "Signup w broken h on ulid now name pw dn token s = (r, s')" "TrimSpace token \<noteq> ''''"
    and "invites_ok (ac_store s, out)"
  shows "(\<exists>iv \<in> set (st_invites (ac_store s)). invite_live now (h (TrimSpace token)) iv
        \<and> invite_step\<^sup>*\<^sup>* (ac_store s, out) (ac_store s', out(iv_ID iv := out (iv_ID iv) + 1))
        \<and> (broken CUnconsumeInvite \<or> (\<exists>acct. r = Inr (acct, SignupActive))))
    \<or> invite_step\<^sup>*\<^sup>* (ac_store s, out) (ac_store s', out) \<and> (\<exists>e. r = Inl e)"
proof (cases "\<exists>iv st. ask (broken CConsumeInvite) (ConsumeInvite now (h (TrimSpace token))) s = Inr (iv, st)
    \<and> pw \<noteq> '''' \<and> ask (broken CUserByUsername) (UserByUsername (TrimSpace name)) s = Inl RowNotFound")
  case False
  with assms(1,2) have "s' = s \<and> (\<exists>e. r = Inl e)"
    by (auto simp: Signup_def Let_def split: if_splits sum.splits store_error.splits)
  then show ?thesis by auto
next
  case True
  then obtain iv st where c: "ask (broken CConsumeInvite) (ConsumeInvite now (h (TrimSpace token))) s = Inr (iv, st)"
    "pw \<noteq> ''''" "ask (broken CUserByUsername) (UserByUsername (TrimSpace name)) s = Inl RowNotFound" by blast
  from ask_Inr [OF c(1)] obtain q where q: "q \<in> set (st_invites (ac_store s))"
    "invite_live now (h (TrimSpace token)) q" "iv_ID iv = iv_ID q"
    by (elim ConsumeInvite_Inr) (auto simp: use_invite_def)
  let ?out = "out(iv_ID q := out (iv_ID q) + 1)"
  have one: "invite_step (ac_store s, out) (st, ?out)"
    using invite_step.admit [OF ask_Inr [OF c(1)], of out] q(3) by simp
  obtain r2 s2 where m: "CreateAccount w broken ulid now (invited_input iv name pw dn) (s\<lparr>ac_store := st\<rparr>) = (r2, s2)"
    by (cases "CreateAccount w broken ulid now (invited_input iv name pw dn) (s\<lparr>ac_store := st\<rparr>)")
  then have "st_invites (ac_store s2) = st_invites st"
    using createAccount_invites [of w broken ulid now "invited_input iv name pw dn" False "s\<lparr>ac_store := st\<rparr>"]
    by (simp add: CreateAccount_def)
  then have two: "invite_step\<^sup>*\<^sup>* (ac_store s, out) (ac_store s2, ?out)"
    using one invite_step.elsewhere [of "ac_store s2" st ?out] by (meson converse_rtranclp_into_rtranclp r_into_rtranclp)
  have "0 \<le> out (iv_ID q)" using assms(3) q(1) by (force simp: invites_ok_def invite_sound_def)
  then have "invite_step (ac_store s2, ?out) (UnconsumeInvite (iv_ID q) (ac_store s2), out)"
    using invite_step.give_back [of ?out "iv_ID q" "ac_store s2"] by simp
  with two have three: "invite_step\<^sup>*\<^sup>* (ac_store s, out) (UnconsumeInvite (iv_ID q) (ac_store s2), out)"
    by (rule rtranclp.rtrancl_into_rtrancl)
  show ?thesis
  proof (cases r2)
    case (Inl e)
    with assms(1,2) c m have "r = Inl e"
      "s' = (if broken CUnconsumeInvite then s2 else s2\<lparr>ac_store := UnconsumeInvite (iv_ID q) (ac_store s2)\<rparr>)"
      using q(3) by (auto simp: Signup_def Let_def)
    with two three q(1,2) show ?thesis by (cases "broken CUnconsumeInvite") auto
  next
    case (Inr acct)
    with assms(1,2) c m have "r = Inr (acct, SignupActive)" "ac_store s' = ac_store s2"
      by (auto simp: Signup_def Let_def tell_def)
    with two q(1,2) show ?thesis by auto
  qed
qed

lemma signup_spends_one_use_witness:
  "invite_step\<^sup>*\<^sup>* (seat_taken, (\<lambda>_. 0)(''iv-1'' := 1))
     (ac_store (snd (Signup demo_world (\<lambda>_. False) id True ''z'' 9 ''Cy'' ''pw'' ''Cy'' ''tok''
        \<lparr>ac_store = seat_taken, ac_out = []\<rparr>)), (\<lambda>_. 0)(''iv-1'' := 1))"
proof -
  let ?s = "\<lparr>ac_store = seat_taken, ac_out = []\<rparr>"
  obtain r s' where r: "Signup demo_world (\<lambda>_. False) id True ''z'' 9 ''Cy'' ''pw'' ''Cy'' ''tok'' ?s = (r, s')"
    by (cases "Signup demo_world (\<lambda>_. False) id True ''z'' 9 ''Cy'' ''pw'' ''Cy'' ''tok'' ?s")
  have trim: "TrimSpace ''tok'' = ''tok''" by code_simp
  have ok: "invites_ok (ac_store ?s, (\<lambda>_. 0)(''iv-1'' := 1))"
    by (simp add: invites_ok_def seat_taken_def invite_sound_def use_invite_def one_seat_def)
  have "\<not> invite_live 9 ''tok'' (use_invite one_seat)" by (simp add: invite_live_def use_invite_def one_seat_def)
  then show ?thesis using signup_spends_one_use [OF r _ ok] r trim by (simp add: seat_taken_def)
qed

end
