(* ===== verification/Media_Reach.thy ===== *)
theory Media_Reach
  imports Media_Auth Account_Runs
begin

text \<open>
  What an account may see, as a timeline's credential counts it: the reach of an account, the steps
  that change it and the bumps of its epoch that follow them, and the operations on accounts as runs
  of those steps.
\<close>

section \<open>The reach of an account\<close>

definition reach_view :: "user_ctx \<Rightarrow> bool \<times> bool \<times> string list \<times> bool \<times> tag_rule list \<times> tag_rule list" where
  "reach_view uc = (uc_Admin uc, uc_AllLibraries uc, uc_Libraries uc, uc_Explicit uc, uc_TagAllow uc, uc_TagDeny uc)"

definition row_reach where
  "row_reach u grants = map_option reach_view (UserCtx u '''' (Some grants))"

definition reach_of where
  "reach_of uid st = (case UserByID uid st of Inl e \<Rightarrow> None | Inr u \<Rightarrow> row_reach u (LibraryGrants uid st))"

lemma row_reach_eq:
  "row_reach u grants =
    (let admin = hasRole (a_Roles u) ''admin''; wide = (admin \<or> a_LibraryAccess u \<noteq> ''granted'') in
     Some (admin, wide, if wide then [] else remdups grants, admin \<or> a_PermExplicit u,
       if admin then [] else p_TagAllow (permissionsOf u), if admin then [] else p_TagDeny (permissionsOf u)))"
  by (auto simp: row_reach_def UserCtx_def reach_view_def permissionsOf_def Let_def split: tag_rules_column.split)

lemma reach_of_None: "reach_of uid st = None \<longleftrightarrow> uid \<notin> user_ids st"
  by (auto simp: reach_of_def row_reach_eq Let_def user_ids_def split: sum.split
      dest: UserByID_InlD UserByID_InrD)

lemma reach_of_cong:
  "st_users st' = st_users st \<Longrightarrow> st_grants st' = st_grants st \<Longrightarrow> reach_of uid st' = reach_of uid st"
proof -
  assume "st_users st' = st_users st" "st_grants st' = st_grants st"
  then have "UserByID uid st' = UserByID uid st" "LibraryGrants uid st' = LibraryGrants uid st"
    by (simp_all add: LibraryGrants_def UserByID_def)
  then show ?thesis unfolding reach_of_def by (simp only:)
qed

lemma userCtxByID_reach:
  assumes "userCtxByID w broken uid st = Inr uc"
  shows "reach_of uid st = Some (reach_view uc)"
proof -
  from assms obtain u where u: "UserByID uid st = Inr u"
    "UserCtx u (catalogPID w u) (if broken CGrants then None else Some (LibraryGrants (a_ID u) st)) = Some uc"
    by (auto simp: userCtxByID_def split: sum.splits store_error.splits option.splits if_splits)
  from UserByID_InrD [OF u(1)] u show ?thesis
    by (auto simp: reach_of_def row_reach_def UserCtx_def reach_view_def Let_def split: option.splits if_splits)
qed

section \<open>The counter\<close>

definition reach_count :: "string \<Rightarrow> store \<Rightarrow> int" where
  "reach_count uid st = (case st_syncState st (syncKeyReachEpoch @ uid) of None \<Rightarrow> 0 | Some v \<Rightarrow> sql_integer v)"

text \<open>The counters as the increments write them.\<close>

definition counters_ok :: "store \<Rightarrow> bool" where
  "counters_ok st \<longleftrightarrow> (\<forall>uid v. st_syncState st (syncKeyReachEpoch @ uid) = Some v \<longrightarrow> (\<exists>n \<ge> 1. v = FormatInt n))"

lemma sql_integer_FormatInt:
  assumes "0 \<le> n"
  shows "sql_integer (FormatInt n) = n"
proof -
  have f: "FormatInt n = show_nat (nat n)" using assms by (simp add: FormatInt_def)
  note d = show_nat_digits [of "nat n"]
  then obtain c s where cs: "show_nat (nat n) = c # s" "is_digit c" by (cases "show_nat (nat n)") (auto simp: isDigits_def)
  then have "\<not> is_space c" "c \<noteq> CHR ''-''" "c \<noteq> CHR ''+''"
    by (auto simp: is_digit_def less_eq_char_def is_space_def)
  moreover have "takeWhile is_digit (c # s) = c # s"
    using d cs by (simp add: isDigits_def list_all_iff takeWhile_eq_all_conv)
  ultimately show ?thesis using d assms by (simp add: sql_integer_def f Let_def cs(1) del: takeWhile.simps takeWhile_eq_all_conv)
qed

lemma FormatInt_inj: "0 \<le> n \<Longrightarrow> 0 \<le> m \<Longrightarrow> FormatInt n = FormatInt m \<longleftrightarrow> n = m"
  by (metis sql_integer_FormatInt)

lemma Atoi_Format: "0 \<le> n \<Longrightarrow> Atoi (FormatInt n) = Some m \<Longrightarrow> m = n"
  using show_nat_digits [of "nat n"] by (simp add: FormatInt_def Atoi_digits split: if_splits)

lemma FormatInt_not_Nil [simp]: "FormatInt n \<noteq> ''''"
  using show_nat_digits [of "nat n"] by (auto simp: FormatInt_def isDigits_def)

lemma reachEpoch_count:
  assumes "counters_ok st" "reachEpoch broken uid st = Inr n"
  shows "n = reach_count uid st \<and> 0 \<le> n"
proof (cases "st_syncState st (syncKeyReachEpoch @ uid)")
  case None
  with assms(2) show ?thesis by (simp add: reachEpoch_def epoch_def reach_count_def SyncStateGet_def split: if_splits)
next
  case (Some v)
  with assms(1) obtain k where k: "1 \<le> k" "v = FormatInt k" by (auto simp: counters_ok_def)
  with Some assms(2) have "Atoi (FormatInt k) = Some n"
    by (auto simp: reachEpoch_def epoch_def SyncStateGet_def Let_def split: if_splits option.splits)
  with Atoi_Format [of k n] k Some show ?thesis by (simp add: reach_count_def sql_integer_FormatInt)
qed

lemma count_nonneg: "counters_ok st \<Longrightarrow> 0 \<le> reach_count uid st"
  by (force simp: counters_ok_def reach_count_def sql_integer_FormatInt split: option.split)

lemma bump_count:
  assumes "counters_ok st"
  shows "counters_ok (SyncStateIncrement (syncKeyReachEpoch @ uid) st)"
    "reach_count v (SyncStateIncrement (syncKeyReachEpoch @ uid) st) = reach_count v st + (if v = uid then 1 else 0)"
proof -
  have one: "FormatInt 1 = ''1''" by code_simp
  have val: "\<exists>k \<ge> 1. (case st_syncState st (syncKeyReachEpoch @ uid) of None \<Rightarrow> ''1''
      | Some v \<Rightarrow> FormatInt (sql_integer v + 1)) = FormatInt k \<and> k = reach_count uid st + 1"
  proof (cases "st_syncState st (syncKeyReachEpoch @ uid)")
    case None
    then show ?thesis using one by (simp add: reach_count_def)
  next
    case (Some v)
    with count_nonneg [OF assms, of uid] show ?thesis by (simp add: reach_count_def)
  qed
  then show "counters_ok (SyncStateIncrement (syncKeyReachEpoch @ uid) st)"
  proof (elim exE conjE)
    fix k assume k: "1 \<le> k" "(case st_syncState st (syncKeyReachEpoch @ uid) of None \<Rightarrow> ''1''
      | Some v \<Rightarrow> FormatInt (sql_integer v + 1)) = FormatInt k"
    show ?thesis using assms k(1) by (auto simp: counters_ok_def SyncStateIncrement_def k(2))
  qed
  show "reach_count v (SyncStateIncrement (syncKeyReachEpoch @ uid) st) = reach_count v st + (if v = uid then 1 else 0)"
    using val by (auto simp: reach_count_def SyncStateIncrement_def sql_integer_FormatInt)
qed

section \<open>Changes and bumps\<close>

text \<open>The tables, the accounts whose reach was written and whose epoch is still to move, and the ids
  of the accounts that are set up.  An account being set up has no timelines.\<close>

type_synonym reach_world = "store \<times> string set \<times> string set"

definition epochs_kept :: "store \<Rightarrow> store \<Rightarrow> bool" where
  "epochs_kept st st' \<longleftrightarrow> (\<forall>uid. st_syncState st' (syncKeyReachEpoch @ uid) = st_syncState st (syncKeyReachEpoch @ uid))"

inductive reach_step :: "reach_world \<Rightarrow> reach_world \<Rightarrow> bool" where
  change: "\<forall>v. v \<noteq> uid \<longrightarrow> reach_of v st' = reach_of v st \<Longrightarrow> epochs_kept st st' \<Longrightarrow>
    reach_step (st, owed, seen) (st', insert uid owed, seen)"
| bump: "reach_step (st, owed, seen) (SyncStateIncrement (syncKeyReachEpoch @ uid) st, owed - {uid}, seen)"
| arrive: "uid \<notin> seen \<Longrightarrow> \<forall>v. v \<noteq> uid \<longrightarrow> reach_of v st' = reach_of v st \<Longrightarrow> epochs_kept st st' \<Longrightarrow>
    seen' = seen \<or> seen' = insert uid seen \<Longrightarrow> reach_step (st, owed, seen) (st', owed, seen')"
| depart: "\<forall>v. reach_of v st' = reach_of v st \<or> reach_of v st' = None \<Longrightarrow> epochs_kept st st' \<Longrightarrow>
    reach_step (st, owed, seen) (st', owed, seen)"

text \<open>Between two states in which an account's epoch reads the same, its rules are the same unless a
  change of them still waits for its bump.\<close>

definition same_rules :: "string \<Rightarrow> reach_world \<Rightarrow> reach_world \<Rightarrow> bool" where
  "same_rules uid w w' \<longleftrightarrow> (case (w, w') of ((st, owed, seen), (st', owed', seen')) \<Rightarrow>
     counters_ok st' \<and> uid \<in> seen' \<and> reach_count uid st \<le> reach_count uid st'
     \<and> (reach_count uid st' = reach_count uid st \<and> uid \<notin> owed' \<longrightarrow>
         uid \<notin> owed \<and> (reach_of uid st' = reach_of uid st \<or> reach_of uid st' = None)))"

lemma kept_count: "epochs_kept st st' \<Longrightarrow> reach_count uid st' = reach_count uid st"
  by (simp add: epochs_kept_def reach_count_def)

lemma kept_counters: "epochs_kept st st' \<Longrightarrow> counters_ok st \<Longrightarrow> counters_ok st'"
  by (simp add: epochs_kept_def counters_ok_def)

lemma SyncStateIncrement_tables [simp]:
  "st_users (SyncStateIncrement key st) = st_users st" "st_grants (SyncStateIncrement key st) = st_grants st"
  "reach_of v (SyncStateIncrement key st) = reach_of v st"
  by (simp_all add: SyncStateIncrement_def) (rule reach_of_cong; simp)

lemma same_rules_step:
  assumes "reach_step w w'" "counters_ok (fst w)" "uid \<in> snd (snd w)"
  shows "same_rules uid w w'"
  using assms
proof (induction rule: reach_step.induct)
  case (change uid' st' st owed seen)
  then show ?case by (auto simp: same_rules_def kept_count kept_counters)
next
  case (bump st owed seen uid')
  then show ?case using bump_count(1) [of st uid'] bump_count(2) [of st uid uid'] by (auto simp: same_rules_def split: if_splits)
next
  case (arrive uid' seen st' st seen' owed)
  then show ?case by (auto simp: same_rules_def kept_count kept_counters)
next
  case (depart st' st owed seen)
  then show ?case by (auto simp: same_rules_def kept_count kept_counters)
qed

lemma same_rules_trans: "same_rules uid w1 w2 \<Longrightarrow> same_rules uid w2 w3 \<Longrightarrow> same_rules uid w1 w3"
  by (cases w1; cases w2; cases w3) (auto simp: same_rules_def)

lemma same_rules_run:
  assumes "reach_step\<^sup>*\<^sup>* w w'" "counters_ok (fst w)" "uid \<in> snd (snd w)"
  shows "same_rules uid w w'"
  using assms(1)
proof (induction rule: rtranclp_induct)
  case base
  then show ?case using assms by (cases w) (simp add: same_rules_def)
next
  case (step w1 w2)
  then have "counters_ok (fst w1)" "uid \<in> snd (snd w1)" by (cases w; cases w1; simp add: same_rules_def)+
  with same_rules_step [OF step(2)] step.IH show ?case by (blast intro: same_rules_trans)
qed

lemma count_run:
  assumes "reach_step\<^sup>*\<^sup>* w w'" "counters_ok (fst w)"
  shows "counters_ok (fst w') \<and> reach_count uid (fst w) \<le> reach_count uid (fst w')"
  using assms
proof (induction rule: rtranclp_induct)
  case (step w1 w2)
  from step.IH [OF step.prems] have ok: "counters_ok (fst w1)" "reach_count uid (fst w) \<le> reach_count uid (fst w1)" by auto
  from step(2) ok(1) have "counters_ok (fst w2) \<and> reach_count uid (fst w1) \<le> reach_count uid (fst w2)"
    by (induction rule: reach_step.induct) (auto simp: kept_count kept_counters bump_count)
  with ok(2) show ?case by simp
qed simp


section \<open>The operations as runs\<close>

lemma find_map_id:
  assumes "\<And>r. a_ID (f r) = a_ID r"
  shows "List.find (\<lambda>u. a_ID u = v) (map f us) = map_option f (List.find (\<lambda>u. a_ID u = v) us)"
  using assms by (induction us) auto

lemma UpdateUser_reach:
  assumes "UpdateUser probe now u g st = Inr st'" "roles_ok (a_Roles u)"
  shows "reach_of v st' = (if v = a_ID u then row_reach u (LibraryGrants v st) else reach_of v st)"
    "epochs_kept st st'"
proof -
  let ?f = "\<lambda>r. if a_ID r = a_ID u then written_row now u r else r"
  note st' = UpdateUser_Inr [OF assms(1)]
  show "epochs_kept st st'" by (simp add: st'(1) epochs_kept_def)
  have "List.find (\<lambda>u. a_ID u = v) (st_users st') = map_option ?f (List.find (\<lambda>u. a_ID u = v) (st_users st))"
    unfolding st'(1) by (simp add: find_map_id)
  then have by_id: "UserByID v st' = (case UserByID v st of Inl e \<Rightarrow> Inl e | Inr r \<Rightarrow> Inr (?f r))"
    by (auto simp: UserByID_def split: option.split)
  have grants: "LibraryGrants v st' = LibraryGrants v st" by (simp add: st'(1) LibraryGrants_def)
  have row: "row_reach (written_row now u r) gs = row_reach u gs" for r gs
    unfolding row_reach_eq using assms(2)
    by (auto simp: written_row_def permissionsOf_def Let_def split_roles_ok split: tag_rules_column.split)
  show "reach_of v st' = (if v = a_ID u then row_reach u (LibraryGrants v st) else reach_of v st)"
  proof (cases "UserByID v st")
    case (Inl e)
    with UserByID_InlD [OF Inl] st'(2) show ?thesis
      unfolding reach_of_def by_id grants by (auto simp: user_ids_def)
  next
    case (Inr r)
    with UserByID_InrD [OF Inr] row show ?thesis unfolding reach_of_def by_id grants by auto
  qed
qed

lemma permissionsOf_kept [simp]:
  "permissionsOf (u\<lparr>a_Roles := rs\<rparr>) = permissionsOf u" "permissionsOf (u\<lparr>a_Disabled := b\<rparr>) = permissionsOf u"
  "permissionsOf (u\<lparr>a_Pending := b\<rparr>) = permissionsOf u" "permissionsOf (u\<lparr>a_DisplayName := n\<rparr>) = permissionsOf u"
  "permissionsOf (u\<lparr>a_UploadEnabled := b\<rparr>) = permissionsOf u"
  "permissionsOf (u\<lparr>a_UploadQuotaBytes := q\<rparr>) = permissionsOf u"
  "permissionsOf (u\<lparr>a_LibraryAccess := m\<rparr>) = permissionsOf u"
  "permissionsOf (u\<lparr>a_PasswordHash := h\<rparr>) = permissionsOf u"
  by (auto simp: permissionsOf_def Let_def split: tag_rules_column.split)

lemma edit_row_reach:
  assumes "edit_row upd u0 = Inr (u, loses, vis)"
  shows "a_LibraryAccess u = a_LibraryAccess u0" "\<not> vis \<longrightarrow> row_reach u g = row_reach u0 g"
proof -
  from assms obtain u1 loses1 vis1 where one: "edit_roles upd u0 = Inr (u1, loses1, vis1)"
    by (auto simp: edit_row_def split: sum.splits)
  obtain u2 loses2 where two: "edit_disabled upd u1 loses1 = (u2, loses2)"
    by (cases "edit_disabled upd u1 loses1")
  have u1: "a_LibraryAccess u1 = a_LibraryAccess u0" "permissionsOf u1 = permissionsOf u0"
    "a_PermExplicit u1 = a_PermExplicit u0"
    "\<not> vis1 \<longrightarrow> hasRole (a_Roles u1) ''admin'' = hasRole (a_Roles u0) ''admin''"
    using one by (auto simp: edit_roles_def split: option.splits sum.splits)
  have u2: "a_LibraryAccess u2 = a_LibraryAccess u1" "permissionsOf u2 = permissionsOf u1"
    "a_PermExplicit u2 = a_PermExplicit u1" "a_Roles u2 = a_Roles u1"
    using two by (auto simp: edit_disabled_def split: option.splits)
  let ?u3 = "edit_labels upd u2"
  have u3: "a_LibraryAccess ?u3 = a_LibraryAccess u2" "permissionsOf ?u3 = permissionsOf u2"
    "a_PermExplicit ?u3 = a_PermExplicit u2" "a_Roles ?u3 = a_Roles u2"
    by (simp_all add: edit_labels_def Let_def split: option.split)
  from assms one two have last: "u = ?u3 \<and> vis = vis1
      \<or> (\<exists>p. u = applyPermissions ?u3 p \<and> vis = (vis1 \<or> contentRulesChanged (permissionsOf ?u3) p))"
    by (auto simp: edit_row_def Let_def split: option.splits if_splits)
  have perms: "a_LibraryAccess (applyPermissions x p) = a_LibraryAccess x"
    "\<not> contentRulesChanged (permissionsOf x) p \<longrightarrow> row_reach (applyPermissions x p) g = row_reach x g" for x p
    by (auto simp: row_reach_eq applyPermissions_def contentRulesChanged_def permissionsOf_def Let_def
        split: tag_rules_column.splits if_splits)
  have same: "\<not> vis1 \<longrightarrow> row_reach ?u3 g = row_reach u0 g"
    using u1 u2 u3 by (auto simp: row_reach_eq Let_def)
  from last show "a_LibraryAccess u = a_LibraryAccess u0" using perms(1) u1 u2 u3 by auto
  from last perms(2) same show "\<not> vis \<longrightarrow> row_reach u g = row_reach u0 g" by auto
qed

lemma SetLibraryGrants_reach:
  assumes "SetLibraryGrants uid pids st = Inr st'"
  shows "\<forall>v. v \<noteq> uid \<longrightarrow> reach_of v st' = reach_of v st" "epochs_kept st st'" "st_users st' = st_users st"
proof -
  from assms have st': "st' = st\<lparr>st_grants := filter (\<lambda>g. fst g \<noteq> uid) (st_grants st) @ map (Pair uid) (remdups pids)\<rparr>"
    by (simp add: SetLibraryGrants_def split: if_splits)
  then show "epochs_kept st st'" "st_users st' = st_users st" by (simp_all add: epochs_kept_def)
  have "filter (\<lambda>g. fst g = v) (st_grants st') = filter (\<lambda>g. fst g = v) (st_grants st)" if "v \<noteq> uid" for v
    using that by (auto simp: st' filter_empty_conv intro: filter_cong)
  then have "LibraryGrants v st' = LibraryGrants v st" "UserByID v st' = UserByID v st" if "v \<noteq> uid" for v
    using that by (simp_all add: LibraryGrants_def st' UserByID_def)
  then show "\<forall>v. v \<noteq> uid \<longrightarrow> reach_of v st' = reach_of v st" unfolding reach_of_def by metis
qed

text \<open>What is still owed after a bump that may have failed.\<close>

definition left_owed :: "(store_call \<Rightarrow> bool) \<Rightarrow> string \<Rightarrow> string set \<Rightarrow> string set" where
  "left_owed broken uid owed = (if broken (CSyncIncrement (syncKeyReachEpoch @ uid)) then owed else owed - {uid})"

lemma grant_key_kept: "epochs_kept st (SyncStateIncrement (syncKeyGrantEpoch @ uid) st)"
  by (simp add: epochs_kept_def SyncStateIncrement_def syncKeyReachEpoch_def syncKeyGrantEpoch_def)

lemma quiet_step: "\<forall>v. reach_of v st' = reach_of v st \<Longrightarrow> epochs_kept st st' \<Longrightarrow>
    reach_step (st, owed, seen) (st', owed, seen)"
  by (rule reach_step.depart) simp_all

lemma reachChanged_run:
  "reach_step\<^sup>*\<^sup>* (ac_store s, owed, seen) (ac_store (reachChanged w broken uid s), left_owed broken uid owed, seen)"
proof -
  let ?g = "ac_store (bumpGrantEpoch broken uid s)"
  have "reach_step\<^sup>*\<^sup>* (ac_store s, owed, seen) (?g, owed, seen)"
    using grant_key_kept by (auto simp: bumpGrantEpoch_def bumpEpoch_def intro!: r_into_rtranclp quiet_step)
  moreover have "reach_step\<^sup>*\<^sup>* (?g, owed, seen) (ac_store (reachChanged w broken uid s), left_owed broken uid owed, seen)"
  proof -
    have "ac_store (reachChanged w broken uid s) = ac_store (bumpReachEpoch broken uid (bumpGrantEpoch broken uid s))"
      by (simp add: reachChanged_def Let_def split: option.split)
    then show ?thesis
      by (auto simp: bumpReachEpoch_def bumpEpoch_def left_owed_def intro!: r_into_rtranclp reach_step.bump)
  qed
  ultimately show ?thesis by (rule rtranclp_trans)
qed


text \<open>What an operation on an account may leave owed: nothing more, unless the bump failed.\<close>

definition may_owe :: "(store_call \<Rightarrow> bool) \<Rightarrow> string \<Rightarrow> string set \<Rightarrow> string set" where
  "may_owe broken uid owed = (if broken (CSyncIncrement (syncKeyReachEpoch @ uid)) then insert uid owed else owed)"

definition reach_run :: "store \<Rightarrow> store \<Rightarrow> string set \<Rightarrow> string set \<Rightarrow> string set \<Rightarrow> bool" where
  "reach_run st st' owed limit seen \<longleftrightarrow>
    (\<exists>owed'. owed' \<subseteq> limit \<and> reach_step\<^sup>*\<^sup>* (st, owed, seen) (st', owed', seen))"

lemma reach_run_quiet:
  "\<forall>v. reach_of v st' = reach_of v st \<Longrightarrow> epochs_kept st st' \<Longrightarrow> owed \<subseteq> limit \<Longrightarrow> reach_run st st' owed limit seen"
  unfolding reach_run_def by (blast intro: r_into_rtranclp quiet_step)

lemma reach_run_same [simp]: "owed \<subseteq> limit \<Longrightarrow> reach_run st st owed limit seen"
  unfolding reach_run_def by blast

lemma changed_and_bumped:
  assumes "\<forall>v. v \<noteq> uid \<longrightarrow> reach_of v st' = reach_of v (ac_store s)" "epochs_kept (ac_store s) st'"
  shows "reach_run (ac_store s) (ac_store (reachChanged w broken uid (s\<lparr>ac_store := st'\<rparr>))) owed
    (left_owed broken uid (insert uid owed)) seen"
proof -
  have "reach_step (ac_store s, owed, seen) (st', insert uid owed, seen)" using assms by (rule reach_step.change)
  with reachChanged_run [of "s\<lparr>ac_store := st'\<rparr>" "insert uid owed" seen w broken uid] show ?thesis
    unfolding reach_run_def by (auto intro: converse_rtranclp_into_rtranclp)
qed

lemma owed_bounds: "left_owed broken uid (insert uid owed) \<subseteq> may_owe broken uid owed" "owed \<subseteq> may_owe broken uid owed"
  "left_owed broken uid owed \<subseteq> left_owed broken uid (insert uid owed)" "left_owed broken uid owed \<subseteq> may_owe broken uid owed"
  by (auto simp: left_owed_def may_owe_def)

lemma reach_run_mono: "reach_run st st' owed l seen \<Longrightarrow> l \<subseteq> l' \<Longrightarrow> reach_run st st' owed l' seen"
  unfolding reach_run_def by blast

lemma write_account_reach:
  assumes "roles_ok (a_Roles u)"
    and "\<not> vis \<longrightarrow> reach_of (a_ID u) (ac_store s) = row_reach u (LibraryGrants (a_ID u) (ac_store s))"
  shows "reach_run (ac_store s) (ac_store (snd (write_account w broken now before u loses vis grants s))) owed
    (if vis \<and> grants then left_owed broken (a_ID u) (insert (a_ID u) owed) else may_owe broken (a_ID u) owed) seen"
proof (cases "ask (broken CUpdateUser) (UpdateUser (broken CProbe) now u loses) s")
  case (Inl e)
  then have "ac_store (snd (write_account w broken now before u loses vis grants s)) =
      ac_store (if vis \<and> grants then reachChanged w broken (a_ID u) s else s)"
    by (simp add: write_account_def Let_def)
  moreover have "reach_run (ac_store s) (ac_store (reachChanged w broken (a_ID u) s)) owed
      (left_owed broken (a_ID u) (insert (a_ID u) owed)) seen"
    unfolding reach_run_def by (intro exI conjI, rule owed_bounds(3), rule reachChanged_run)
  ultimately show ?thesis by (cases "vis \<and> grants") (auto simp: owed_bounds(2))
next
  case (Inr st)
  note r = UpdateUser_reach [OF ask_Inr [OF Inr] assms(1)]
  from Inr have after: "ac_store (snd (write_account w broken now before u loses vis grants s)) =
      (if vis then ac_store (reachChanged w broken (a_ID u) (s\<lparr>ac_store := st\<rparr>)) else st)"
    by (simp add: write_account_def Let_def)
  show ?thesis
  proof (cases vis)
    case True
    have "reach_run (ac_store s) (ac_store (reachChanged w broken (a_ID u) (s\<lparr>ac_store := st\<rparr>))) owed
        (left_owed broken (a_ID u) (insert (a_ID u) owed)) seen"
      by (rule changed_and_bumped) (use r in auto)
    then have "reach_run (ac_store s) (ac_store (reachChanged w broken (a_ID u) (s\<lparr>ac_store := st\<rparr>))) owed
        (if vis \<and> grants then left_owed broken (a_ID u) (insert (a_ID u) owed) else may_owe broken (a_ID u) owed) seen"
      using reach_run_mono [OF _ owed_bounds(1)] by simp
    with True after show ?thesis by simp
  next
    case False
    with r assms(2) have "reach_run (ac_store s) st owed (may_owe broken (a_ID u) owed) seen"
      by (intro reach_run_quiet) (simp_all add: owed_bounds)
    with False after show ?thesis by simp
  qed
qed

lemma UpdateAccount_reach:
  assumes "accounts_ok (ac_store s)"
  shows "reach_run (ac_store s) (ac_store (snd (UpdateAccount w broken now uid upd s))) owed (may_owe broken uid owed) seen"
proof -
  have ok: "roles_ok (a_Roles before) \<and> a_ID before = uid" if "UserByID uid (ac_store s) = Inr before" for before
    using assms UserByID_InrD [OF that] by (auto simp: accounts_ok_def)
  show ?thesis
  proof (cases rule: UpdateAccount_cases [of w broken now uid upd s])
    case refused
    then show ?thesis by (simp add: owed_bounds)
  next
    case (row before u loses vis)
    note o = ok [OF row(1)] and e = edit_row_Inr [OF row(2) conjunct1 [OF ok [OF row(1)]]]
    have "\<not> vis \<longrightarrow> reach_of uid (ac_store s) = row_reach u (LibraryGrants uid (ac_store s))"
      using row(1) edit_row_reach(2) [OF row(2)] by (simp add: reach_of_def)
    with write_account_reach [OF e(3), where s = s and vis = vis and grants = False] row(3) o e(1) show ?thesis by simp
  next
    case (access before u loses vis mode grants st)
    note o = ok [OF access(1)] and e = edit_row_Inr [OF access(2) conjunct1 [OF ok [OF access(1)]]]
    let ?u = "u\<lparr>a_LibraryAccess := mode\<rparr>" and ?s = "s\<lparr>ac_store := st\<rparr>"
    have "reach_step (ac_store s, owed, seen) (st, insert uid owed, seen)"
      using SetLibraryGrants_reach [OF access(3)] e(1) o by (intro reach_step.change) simp_all
    moreover have "reach_run (ac_store ?s) (ac_store (snd (write_account w broken now before ?u loses True True ?s)))
        (insert uid owed) (left_owed broken uid (insert uid owed)) seen"
      using write_account_reach [of ?u True ?s w broken now before loses True "insert uid owed" seen] e o by simp
    ultimately have "reach_run (ac_store s) (ac_store (snd (UpdateAccount w broken now uid upd s))) owed
        (left_owed broken uid (insert uid owed)) seen"
      unfolding access(4) reach_run_def by (auto intro: converse_rtranclp_into_rtranclp)
    with owed_bounds(1) show ?thesis by (rule reach_run_mono [rotated])
  qed
qed

lemma SetAccountPassword_reach:
  assumes "accounts_ok (ac_store s)"
  shows "reach_run (ac_store s) (ac_store (snd (SetAccountPassword w broken now uid pw s))) owed owed seen"
proof (cases "\<exists>u hash st. ask (broken CUserByID) (UserByID uid) s = Inr u \<and> hash_new w pw = Some hash
    \<and> ask (broken CUpdateUser) (UpdateUser (broken CProbe) now (u\<lparr>a_PasswordHash := hash\<rparr>) False) s = Inr st")
  case True
  then obtain u hash st where r: "ask (broken CUserByID) (UserByID uid) s = Inr u" "hash_new w pw = Some hash"
    "ask (broken CUpdateUser) (UpdateUser (broken CProbe) now (u\<lparr>a_PasswordHash := hash\<rparr>) False) s = Inr st" by blast
  note u = UserByID_InrD [OF ask_Inr [OF r(1)]]
  from u assms have "roles_ok (a_Roles (u\<lparr>a_PasswordHash := hash\<rparr>))" by (auto simp: accounts_ok_def)
  note w = UpdateUser_reach [OF ask_Inr [OF r(3)] this]
  have "row_reach (u\<lparr>a_PasswordHash := hash\<rparr>) g = row_reach u g" for g by (simp add: row_reach_eq Let_def)
  then have "\<forall>v. reach_of v st = reach_of v (ac_store s)"
    using w(1) u ask_Inr [OF r(1)] by (simp add: reach_of_def)
  with w(2) r show ?thesis by (simp add: SetAccountPassword_def reach_run_quiet)
next
  case False
  then have "ac_store (snd (SetAccountPassword w broken now uid pw s)) = ac_store s"
    by (auto simp: SetAccountPassword_def split: sum.split store_error.split option.split)
  then show ?thesis by simp
qed

lemma DeleteUser_reach:
  assumes "store_DeleteUser probe uid g st = Inr st'"
  shows "reach_step (st, owed, seen) (st', owed, seen)"
proof (rule reach_step.depart)
  from assms have st': "st_users st' = filter (\<lambda>r. a_ID r \<noteq> uid) (st_users st)"
    "st_grants st' = filter (\<lambda>g. fst g \<noteq> uid) (st_grants st)" "st_syncState st' = st_syncState st"
    by (auto simp: store_DeleteUser_def split: if_splits)
  then show "epochs_kept st st'" by (simp add: epochs_kept_def)
  have "List.find (\<lambda>u. a_ID u = v) (filter (\<lambda>r. a_ID r \<noteq> uid) us) = List.find (\<lambda>u. a_ID u = v) us"
    if "v \<noteq> uid" for v us using that by (induction us) auto
  moreover have "filter (\<lambda>g. fst g = v) (st_grants st') = filter (\<lambda>g. fst g = v) (st_grants st)" if "v \<noteq> uid" for v
    using that unfolding st'(2) by (auto intro: filter_cong)
  ultimately have "UserByID v st' = UserByID v st" "LibraryGrants v st' = LibraryGrants v st" if "v \<noteq> uid" for v
    using that unfolding UserByID_def st'(1) LibraryGrants_def by metis+
  then have "reach_of v st' = reach_of v st" if "v \<noteq> uid" for v using that unfolding reach_of_def by metis
  moreover have "reach_of uid st' = None" by (auto simp: reach_of_None user_ids_def st'(1))
  ultimately show "\<forall>v. reach_of v st' = reach_of v st \<or> reach_of v st' = None" by metis
qed

lemma RejectSignup_reach:
  "reach_run (ac_store s) (ac_store (snd (RejectSignup broken actor uid s))) owed owed seen"
proof -
  have "reach_run (ac_store s) st owed owed seen"
    if "ask b (store_DeleteUser pr uid False) s = Inr st" for b pr st
    using DeleteUser_reach [OF ask_Inr [OF that]] unfolding reach_run_def by blast
  then show ?thesis by (auto simp: RejectSignup_def split: sum.split store_error.split)
qed


lemma createAccount_reach:
  assumes "''us-'' @ ulid \<notin> seen"
  shows "\<exists>seen'. seen' \<subseteq> insert (''us-'' @ ulid) seen \<and> reach_step\<^sup>*\<^sup>* (ac_store s, owed, seen)
      (ac_store (snd (createAccount w broken ulid now i g s)), owed, seen')
    \<and> (\<forall>acct. fst (createAccount w broken ulid now i g s) = Inr acct \<longrightarrow> ''us-'' @ ulid \<in> seen')"
proof -
  let ?uid = "''us-'' @ ulid"
  obtain r s' where c: "createAccount w broken ulid now i g s = (r, s')"
    by (cases "createAccount w broken ulid now i g s")
  from c show ?thesis
  proof (cases rule: createAccount_cases)
    case (refused e)
    then show ?thesis using c by auto
  next
    case (made v u st grants)
    from made(1) obtain row where row: "st = (ac_store s)\<lparr>st_users := st_users (ac_store s) @ [row]\<rparr>"
      "a_ID row = ?uid" "?uid \<notin> user_ids (ac_store s)"
      using made(2) by (elim store_CreateUser_Inr) auto
    have "List.find (\<lambda>u. a_ID u = x) (us @ [row]) = List.find (\<lambda>u. a_ID u = x) us" if "x \<noteq> ?uid" for x us
      using that row(2) by (induction us) auto
    then have "UserByID x st = UserByID x (ac_store s)" "LibraryGrants x st = LibraryGrants x (ac_store s)"
      if "x \<noteq> ?uid" for x using that unfolding UserByID_def LibraryGrants_def row(1) by simp_all
    then have other: "\<forall>x. x \<noteq> ?uid \<longrightarrow> reach_of x st = reach_of x (ac_store s)" unfolding reach_of_def by metis
    have kept: "epochs_kept (ac_store s) st" by (simp add: epochs_kept_def row(1))
    from made(5) have last: "(\<forall>x. x \<noteq> ?uid \<longrightarrow> reach_of x (ac_store s') = reach_of x st) \<and> epochs_kept st (ac_store s')"
    proof
      assume "ac_store s' = st"
      then show ?thesis by (simp add: epochs_kept_def)
    next
      assume "SetLibraryGrants ?uid grants st = Inr (ac_store s')"
      from SetLibraryGrants_reach(1,2) [OF this] show ?thesis by blast
    qed
    have "reach_step (ac_store s, owed, seen) (st, owed, seen)"
      using assms other kept by (rule reach_step.arrive) simp
    moreover have "reach_step (st, owed, seen) (ac_store s', owed, insert ?uid seen)"
      by (rule reach_step.arrive [OF assms]) (use last in auto)
    ultimately show ?thesis using c by (auto intro: converse_rtranclp_into_rtranclp)
  qed
qed

lemma apply_oidc_roles_reach:
  assumes "accounts_ok (ac_store s)" "u \<in> set (st_users (ac_store s))"
    "\<forall>rs. oi_Roles ident = Some rs \<longrightarrow> roles_ok rs"
  shows "reach_run (ac_store s) (ac_store (snd (apply_oidc_roles w broken now ident u s))) owed
    (may_owe broken (a_ID u) owed) seen"
proof (cases "\<exists>rs st. oi_Roles ident = Some rs \<and> \<not> sameRoles (a_Roles u) rs
    \<and> ask (broken CUpdateUser) (UpdateUser (broken CProbe) now (u\<lparr>a_Roles := rs\<rparr>)
        (hasRole (a_Roles u) ''admin'' \<and> \<not> hasRole rs ''admin'')) s = Inr st")
  case True
  then obtain rs st where r: "oi_Roles ident = Some rs" "\<not> sameRoles (a_Roles u) rs"
    "ask (broken CUpdateUser) (UpdateUser (broken CProbe) now (u\<lparr>a_Roles := rs\<rparr>)
        (hasRole (a_Roles u) ''admin'' \<and> \<not> hasRole rs ''admin'')) s = Inr st" by blast
  have ok: "roles_ok (a_Roles (u\<lparr>a_Roles := rs\<rparr>))" using assms(3) r(1) by simp
  note e = UpdateUser_reach [OF ask_Inr [OF r(3)] ok]
  have found: "UserByID (a_ID u) (ac_store s) = Inr u" by (rule UserByID_eq [OF assms(1,2)])
  show ?thesis
  proof (cases "hasRole (a_Roles u) ''admin'' \<noteq> hasRole rs ''admin''")
    case True
    have "reach_run (ac_store s) (ac_store (reachChanged w broken (a_ID u) (s\<lparr>ac_store := st\<rparr>))) owed
        (left_owed broken (a_ID u) (insert (a_ID u) owed)) seen"
      by (rule changed_and_bumped) (use e in auto)
    from reach_run_mono [OF this owed_bounds(1)] True r show ?thesis
      by (simp add: apply_oidc_roles_def Let_def)
  next
    case False
    then have "row_reach (u\<lparr>a_Roles := rs\<rparr>) g = row_reach u g" for g by (simp add: row_reach_eq Let_def)
    with e(1) found have "\<forall>v. reach_of v st = reach_of v (ac_store s)" by (simp add: reach_of_def)
    with e(2) have "reach_run (ac_store s) st owed (may_owe broken (a_ID u) owed) seen"
      by (intro reach_run_quiet owed_bounds)
    with False r show ?thesis by (simp add: apply_oidc_roles_def Let_def)
  qed
next
  case False
  then have "ac_store (snd (apply_oidc_roles w broken now ident u s)) = ac_store s"
    by (auto simp: apply_oidc_roles_def Let_def split: sum.split store_error.split option.split)
  then show ?thesis by (simp add: owed_bounds)
qed

end
