(* ===== verification/Media_Claims.thy ===== *)
theory Media_Claims
  imports Media_Reach Account_Claims
begin

text \<open>
  What the check at a fetch promises: it fails closed, a session that ended opens nothing, a timeline
  plays under the rules that hold, and the gate's slots are counted exactly.
\<close>

section \<open>The check\<close>

lemma first_failing_None: "first_failing f xs = None \<longleftrightarrow> (\<forall>x \<in> set xs. f x = None)"
  by (induction f xs rule: first_failing.induct) (auto split: option.split)

lemma first_failing_Some: "first_failing f xs = Some e \<Longrightarrow> \<exists>x \<in> set xs. f x = Some e"
  by (induction f xs rule: first_failing.induct) (auto split: option.splits)

lemma AuthorizeMediaFor_Inr:
  assumes "AuthorizeMediaFor w broken now c st = Inr uc"
  shows "userCtxByID w broken (mc_User c) st = Inr uc" "purposeAllows w broken uc c = None"
    "mc_Cred c = '''' \<or> (\<forall>part \<in> set (split_on CHR '','' (mc_Cred c)).
       credentialHolds broken now (mc_User c) part st = None)"
  using assms
  by (auto simp: AuthorizeMediaFor_def credentialAlive_def first_failing_None split: sum.splits option.splits if_splits)

lemma userCtxByID_Inr:
  assumes "userCtxByID w broken uid st = Inr uc"
  obtains u where "UserByID uid st = Inr u" "\<not> a_Disabled u" "\<not> a_Pending u" "userCtxByID w (\<lambda>_. False) uid st = Inr uc"
proof -
  from assms obtain u where u: "UserByID uid st = Inr u" "\<not> a_Disabled u" "\<not> a_Pending u"
    "UserCtx u (catalogPID w u) (if broken CGrants then None else Some (LibraryGrants (a_ID u) st)) = Some uc"
    by (auto simp: userCtxByID_def split: sum.splits store_error.splits option.splits if_splits)
  moreover from u(4) have "UserCtx u (catalogPID w u) (Some (LibraryGrants (a_ID u) st)) = Some uc"
    by (auto simp: UserCtx_def Let_def split: if_splits option.splits)
  ultimately show ?thesis using that by (simp add: userCtxByID_def)
qed

lemma credentialHolds_closed:
  "credentialHolds broken now uid cred st = None \<Longrightarrow> credentialHolds (\<lambda>_. False) now uid cred st = None"
  by (auto simp: credentialHolds_def Let_def reachEpoch_def epoch_def
      split: prod.splits if_splits sum.splits store_error.splits option.splits)

lemma purposeAllows_closed: "purposeAllows w broken uc c = None \<Longrightarrow> purposeAllows w (\<lambda>_. False) uc c = None"
  by (auto simp: purposeAllows_def Let_def radioStationRow_def split: if_splits sum.splits option.splits prod.splits)

definition item_purposes :: "string set" where
  "item_purposes = {PurposeStream, PurposeArt, PurposeEnclosure, PurposeDownload}"

text \<open>C32. Whatever read fails under it, the check lets through only what it would let through with
  every read answering: an account that may sign in now, credentials that all hold now, and, for a
  token that names an item, an item that exists and that the account may see and be offered.\<close>

theorem media_check_fails_closed:
  assumes "AuthorizeMediaFor w broken now c st = Inr uc"
  shows "AuthorizeMediaFor w (\<lambda>_. False) now c st = Inr uc
    \<and> (\<exists>u. UserByID (mc_User c) st = Inr u \<and> \<not> a_Disabled u \<and> \<not> a_Pending u)
    \<and> (mc_Cred c \<noteq> '''' \<longrightarrow> (\<forall>part \<in> set (split_on CHR '','' (mc_Cred c)).
         credentialHolds (\<lambda>_. False) now (mc_User c) part st = None))
    \<and> (mc_Purpose c \<in> item_purposes \<or> mc_Purpose c = PurposeHLS \<and> \<not> has_prefix (mc_PID c) TimelinePIDPrefix \<longrightarrow>
         (\<exists>it. getItem w (mc_PID c) = Inr it \<and> fst (viewVisible (md_catalog w) uc it)
           \<and> fst (allowedByContent (md_catalog w) uc it)))
    \<and> (mc_Purpose c = PurposeDownload \<longrightarrow> uc_Admin uc \<or> uc_Download uc)"
proof -
  note a = AuthorizeMediaFor_Inr [OF assms]
  from a(1) obtain u where u: "UserByID (mc_User c) st = Inr u" "\<not> a_Disabled u" "\<not> a_Pending u"
    "userCtxByID w (\<lambda>_. False) (mc_User c) st = Inr uc" by (rule userCtxByID_Inr)
  have creds: "mc_Cred c = '''' \<or> (\<forall>part \<in> set (split_on CHR '','' (mc_Cred c)).
      credentialHolds (\<lambda>_. False) now (mc_User c) part st = None)"
    using a(3) credentialHolds_closed by blast
  then have "credentialAlive (\<lambda>_. False) now (mc_User c) (mc_Cred c) st = None"
    by (auto simp: credentialAlive_def first_failing_None)
  with u(4) purposeAllows_closed [OF a(2)] have "AuthorizeMediaFor w (\<lambda>_. False) now c st = Inr uc"
    by (simp add: AuthorizeMediaFor_def)
  moreover have "\<exists>it. getItem w pid = Inr it \<and> fst (viewVisible (md_catalog w) uc it)
      \<and> fst (allowedByContent (md_catalog w) uc it)" if "VisibleItem w uc pid = None" for pid
    using that by (auto simp: VisibleItem_def getVisibleItem_def split: sum.splits if_splits)
  then have "mc_Purpose c \<in> item_purposes \<or> mc_Purpose c = PurposeHLS \<and> \<not> has_prefix (mc_PID c) TimelinePIDPrefix \<longrightarrow>
      (\<exists>it. getItem w (mc_PID c) = Inr it \<and> fst (viewVisible (md_catalog w) uc it)
        \<and> fst (allowedByContent (md_catalog w) uc it))"
    using a(2) by (auto simp: purposeAllows_def Let_def item_purposes_def PurposeStream_def PurposeArt_def
        PurposeEnclosure_def PurposeDownload_def PurposeRadio_def PurposeHLS_def split: if_splits)
  moreover have "mc_Purpose c = PurposeDownload \<longrightarrow> uc_Admin uc \<or> uc_Download uc"
    using a(2) by (auto simp: purposeAllows_def Let_def PurposeStream_def PurposeArt_def
        PurposeEnclosure_def PurposeDownload_def split: if_splits)
  ultimately show ?thesis using u creds by blast
qed

section \<open>Sessions that ended\<close>

lemma cut_cred:
  "cut CHR '':'' (''se:'' @ sid) = (''se'', sid, True)" "cut CHR '':'' (''re:'' @ sid) = (''re'', sid, True)"
  using cut_at [of "CHR '':''" "''se''" sid] cut_at [of "CHR '':''" "''re''" sid] by simp_all

lemma gone_session_refused:
  assumes "sid \<notin> as_ID ` set (st_sessions st)" "''se:'' @ sid \<in> set (split_on CHR '','' (mc_Cred c))"
  shows "gate_check (AuthorizeMedia w broken now c st) \<in> {MediaRevoked, CheckFailed}"
proof -
  have none: "SessionByID sid st = Inl RowNotFound"
    using assms(1) by (auto simp: SessionByID_def find_None_iff find_Some_iff split: option.split)
  have kinds: "e \<in> {internal} \<union> range ErrMediaRevoked" if "credentialHolds broken now uid cred st = Some e" for uid cred e
    using that by (auto simp: credentialHolds_def Let_def reachEpoch_def epoch_def
        split: prod.splits if_splits sum.splits store_error.splits option.splits)
  have "credentialHolds broken now (mc_User c) (''se:'' @ sid) st \<noteq> None"
    unfolding credentialHolds_def cut_cred by (simp add: none split: sum.split)
  then obtain e where e: "credentialAlive broken now (mc_User c) (mc_Cred c) st = Some e"
    using assms(2) first_failing_None [of "\<lambda>part. credentialHolds broken now (mc_User c) part st"
        "split_on CHR '','' (mc_Cred c)"]
    by (cases "mc_Cred c = ''''") (auto simp: credentialAlive_def)
  then have "\<exists>x. credentialHolds broken now (mc_User c) x st = Some e"
    by (auto simp: credentialAlive_def split: if_splits dest!: first_failing_Some)
  with kinds have e2: "e \<in> {internal} \<union> range ErrMediaRevoked" by blast
  have k: "KindOf internal = KindInternal" by (simp add: internal_def KindOf_def)
  show ?thesis
  proof (cases "userCtxByID w broken (mc_User c) st")
    case (Inl err)
    then have "err = internal \<or> err = errNotFound ''no such user''"
      by (auto simp: userCtxByID_def split: sum.splits store_error.splits option.splits if_splits)
    with Inl show ?thesis
      by (auto simp: AuthorizeMedia_def AuthorizeMediaFor_def gate_check_def internal_def errNotFound_def KindOf_def)
  next
    case (Inr uc)
    with e e2 show ?thesis
      by (auto simp: AuthorizeMedia_def AuthorizeMediaFor_def gate_check_def internal_def KindOf_def)
  qed
qed

text \<open>C8. Once a session has ended, by whatever way its row went, no media URL minted under it is
  served again: through any number of further sign-ins, rotations and sweeps, every fetch of a token
  whose credentials name that session is refused as unauthenticated, or fails.\<close>

theorem ended_session_serves_nothing:
  assumes "ledger_start l0" "store_step\<^sup>*\<^sup>* l0 l" "store_step\<^sup>*\<^sup>* l l'"
    and "(hash, sid) \<in> lg_issued l" "sid \<notin> as_ID ` set (st_sessions (lg_store l))"
    and "''se:'' @ sid \<in> set (split_on CHR '','' (mc_Cred claims))"
    and "bg_gate b = Some (gate_over w broken lims t g (lg_store l'))"
    and "Verify (bg_tokens b) now (query_get q ''mt'') (stream_want (query_get q ''pid'') q) = Some claims"
    and "query_get q ''pid'' \<noteq> ''''"
  shows "ServeStream b now q \<in> {Answered 401 ''unauthenticated'', Answered 500 ''internal''}"
proof -
  have "sid \<notin> row_ids l'"
    using gone_steps [OF assms(3), of sid] assms(4,5) by (force simp: row_ids_def)
  then have "gate_check (AuthorizeMedia w broken t claims (lg_store l')) \<in> {MediaRevoked, CheckFailed}"
    by (intro gone_session_refused [OF _ assms(6)]) (simp add: row_ids_def)
  then show ?thesis
    using assms(7-9) by (auto simp: ServeStream_def stream_want_def Let_def authorize_def gate_over_def)
qed


section \<open>Timelines\<close>

text \<open>C10. A timeline plays under the rules that hold: when a fetch of it is let through, and no change
  of the account's reach is still waiting for its bump, what the account may see is what it was when
  the queue was checked, although the mint reads the epoch and the rules at different times and
  accounts are edited, made and deleted in between.\<close>

theorem timeline_plays_under_current_rules:
  assumes "counters_ok st0" "reach_step\<^sup>*\<^sup>* (st0, owed0, seen0) (st1, owed1, seen1)"
    and "reach_step\<^sup>*\<^sup>* (st1, owed1, seen1) (st2, owed2, seen2)"
    and "TimelineReach w broken uid st0 st1 = Inr (cred, uc)" "uid \<in> seen1" "uid \<notin> owed2"
    and "mc_User claims = uid" "cred \<in> set (split_on CHR '','' (mc_Cred claims))"
    and "AuthorizeMediaFor w' broken' now claims st2 = Inr uc2"
  shows "reach_view uc2 = reach_view uc"
proof -
  from assms(4) obtain n where n: "reachEpoch broken uid st0 = Inr n" "cred = ''re:'' @ FormatInt n"
    "userCtxByID w broken uid st1 = Inr uc"
    by (auto simp: TimelineReach_def split: sum.splits)
  note n0 = reachEpoch_count [OF assms(1) n(1)]
  note c1 = count_run [OF assms(2), of uid, simplified, OF assms(1)]
  note c2 = count_run [OF assms(3), of uid, simplified, OF conjunct1 [OF c1]]
  note a = AuthorizeMediaFor_Inr [OF assms(9)]
  have "mc_Cred claims \<noteq> ''''"
  proof
    assume "mc_Cred claims = ''''"
    with assms(8) n(2) show False by simp
  qed
  with a(3) assms(7,8) have "credentialHolds broken' now uid cred st2 = None" by simp
  then obtain m where m: "reachEpoch broken' uid st2 = Inr m" "FormatInt m = FormatInt n"
    unfolding n(2) credentialHolds_def cut_cred by (auto split: sum.splits if_splits)
  note m0 = reachEpoch_count [OF conjunct1 [OF c2] m(1)]
  from m(2) m0 n0 have "m = n" using FormatInt_inj by blast
  with n0 m0 c1 c2 have same: "reach_count uid st2 = reach_count uid st1" by simp
  have "same_rules uid (st1, owed1, seen1) (st2, owed2, seen2)"
    by (rule same_rules_run [OF assms(3)]) (use c1 assms(5) in simp_all)
  with same assms(6) have "reach_of uid st2 = reach_of uid st1 \<or> reach_of uid st2 = None"
    by (simp add: same_rules_def)
  moreover have "reach_of uid st2 = Some (reach_view uc2)" using userCtxByID_reach [OF a(1)] assms(7) by simp
  ultimately show ?thesis using userCtxByID_reach [OF n(3)] by simp
qed

text \<open>C35. The operations on accounts pay for what they change: an edit, a password, a rejected request
  and a provider's role mapping are runs of the reach steps that leave no bump owed, unless the bump
  itself failed; and an account being made is set up before anything rests on its reach.\<close>

theorem reach_changes_are_bumped:
  assumes "accounts_ok (ac_store s)" "u \<in> set (st_users (ac_store s))"
    and "\<forall>rs. oi_Roles ident = Some rs \<longrightarrow> set rs \<subseteq> {''admin'', ''user''}" "''us-'' @ ulid \<notin> seen"
  shows "reach_run (ac_store s) (ac_store (snd (UpdateAccount w broken now uid upd s))) owed (may_owe broken uid owed) seen
    \<and> reach_run (ac_store s) (ac_store (snd (SetAccountPassword w broken now uid pw s))) owed owed seen
    \<and> reach_run (ac_store s) (ac_store (snd (RejectSignup broken actor uid s))) owed owed seen
    \<and> reach_run (ac_store s) (ac_store (snd (apply_oidc_roles w broken now ident u s))) owed
        (may_owe broken (a_ID u) owed) seen
    \<and> (\<exists>seen'. seen' \<subseteq> insert (''us-'' @ ulid) seen \<and> reach_step\<^sup>*\<^sup>* (ac_store s, owed, seen)
        (ac_store (snd (CreateAccount w broken ulid now i s)), owed, seen')
      \<and> (\<forall>acct. fst (CreateAccount w broken ulid now i s) = Inr acct \<longrightarrow> ''us-'' @ ulid \<in> seen'))"
  using UpdateAccount_reach [OF assms(1)] SetAccountPassword_reach [OF assms(1)] RejectSignup_reach
    apply_oidc_roles_reach [OF assms(1,2)] assms(3) createAccount_reach [OF assms(4)]
  by (simp add: CreateAccount_def roles_ok_def validRoles_def)


section \<open>The slots of the gate\<close>

inductive gate_step :: "limits \<Rightarrow> string set \<Rightarrow> gate_counts \<Rightarrow> gate_counts \<Rightarrow> bool" for lims admins where
  acquire: "Acquire_slot lims (user \<in> admins) user kind g = Some g' \<Longrightarrow> gate_step lims admins g g'"
| release: "gate_step lims admins g (run_release k g)"

definition live :: "gate_counts \<Rightarrow> slot_release list" where
  "live g = filter (\<lambda>r. \<not> rl_done r) (tg_releases g)"

definition held :: "string \<Rightarrow> gate_counts \<Rightarrow> nat" where
  "held user g = length (filter (\<lambda>r. rl_user r = user) (live g))"

definition counted :: "gate_counts \<Rightarrow> bool" where
  "counted g \<longleftrightarrow> tg_total g = int (length (live g))
     \<and> tg_timelines g = int (length (filter (\<lambda>r. rl_kind r = TranscodeTimeline) (live g)))
     \<and> (\<forall>user. tg_active g user = (if held user g = 0 then None else Some (int (held user g))))"

definition inside_limits :: "limits \<Rightarrow> string set \<Rightarrow> gate_counts \<Rightarrow> bool" where
  "inside_limits lims admins g \<longleftrightarrow> (lm_MaxConcurrent lims > 0 \<longrightarrow> tg_total g \<le> lm_MaxConcurrent lims)
     \<and> (\<forall>user. user \<notin> admins \<and> lm_MaxConcurrentPerUser lims > 0 \<longrightarrow> active_of g user \<le> lm_MaxConcurrentPerUser lims)"

lemma counted_active: "counted g \<Longrightarrow> active_of g user = int (held user g)"
  by (simp add: counted_def active_of_def)

lemma held_filter: "held user g = length (filter (\<lambda>r. rl_user r = user \<and> \<not> rl_done r) (tg_releases g))"
  by (simp add: held_def live_def conj_commute)

lemma filter_done:
  assumes "k < length rs" "\<not> rl_done (rs ! k)"
  shows "length (filter (\<lambda>r. P r \<and> \<not> rl_done r) (rs[k := (rs ! k)\<lparr>rl_done := True\<rparr>])) + (if P (rs ! k) then 1 else 0) =
    length (filter (\<lambda>r. P r \<and> \<not> rl_done r) rs)"
proof -
  let ?Q = "\<lambda>r. P r \<and> \<not> rl_done r" and ?r = "rs ! k"
  have "filter ?Q rs = filter ?Q (take k rs @ ?r # drop (Suc k) rs)" using assms(1) by (simp flip: id_take_nth_drop)
  moreover have "rs[k := x] = take k rs @ x # drop (Suc k) rs" for x using assms(1) by (simp add: upd_conv_take_nth_drop)
  ultimately show ?thesis using assms(2) by simp
qed

lemma counted_acquire:
  assumes "counted g" "Acquire_slot lims admin user kind g = Some g'"
  shows "counted g'"
proof -
  from assms(2) have g': "g' = g\<lparr>tg_active := (tg_active g)(user \<mapsto> active_of g user + 1), tg_total := tg_total g + 1,
      tg_timelines := (if kind = TranscodeTimeline then tg_timelines g + 1 else tg_timelines g),
      tg_releases := tg_releases g @ [\<lparr>rl_user = user, rl_kind = kind, rl_done = False\<rparr>]\<rparr>"
    by (simp add: Acquire_slot_def split: if_splits)
  have "held v g' = held v g + (if v = user then 1 else 0)" for v by (simp add: held_def live_def g')
  with assms(1) counted_active [OF assms(1), of user] show ?thesis
    by (auto simp: counted_def g' live_def)
qed

lemma counted_release:
  assumes "counted g"
  shows "counted (run_release k g)"
proof (cases "length (tg_releases g) \<le> k \<or> rl_done (tg_releases g ! k)")
  case True
  then show ?thesis using assms by (auto simp: run_release_def)
next
  case False
  then have k: "k < length (tg_releases g)" "\<not> rl_done (tg_releases g ! k)" by auto
  let ?r = "tg_releases g ! k" and ?g = "run_release k g"
  note one = filter_done [OF k]
  have rel: "tg_releases ?g = (tg_releases g)[k := ?r\<lparr>rl_done := True\<rparr>]"
    using k by (simp add: run_release_def Let_def)
  have held: "held v ?g + (if rl_user ?r = v then 1 else 0) = held v g" for v
    unfolding held_filter rel by (rule one)
  have total: "length (live ?g) + 1 = length (live g)"
    using one [of "\<lambda>_. True"] by (simp add: live_def rel)
  have lines: "length (filter (\<lambda>r. rl_kind r = TranscodeTimeline) (live ?g)) +
      (if rl_kind ?r = TranscodeTimeline then 1 else 0) = length (filter (\<lambda>r. rl_kind r = TranscodeTimeline) (live g))"
    using one [of "\<lambda>r. rl_kind r = TranscodeTimeline"] by (simp add: live_def rel conj_commute)
  have act: "tg_active ?g = (if active_of g (rl_user ?r) - 1 \<le> 0 then (tg_active g)(rl_user ?r := None)
      else (tg_active g)(rl_user ?r \<mapsto> active_of g (rl_user ?r) - 1))"
    "tg_total ?g = tg_total g - 1"
    "tg_timelines ?g = (if rl_kind ?r = TranscodeTimeline then tg_timelines g - 1 else tg_timelines g)"
    using k by (simp_all add: run_release_def Let_def)
  have "tg_active ?g v = (if held v ?g = 0 then None else Some (int (held v ?g)))" for v
    using held [of v] held [of "rl_user ?r"] assms counted_active [OF assms, of "rl_user ?r"]
    by (auto simp: act(1) counted_def)
  moreover have "tg_total ?g = int (length (live ?g))" using total assms act(2) by (simp add: counted_def)
  moreover have "tg_timelines ?g = int (length (filter (\<lambda>r. rl_kind r = TranscodeTimeline) (live ?g)))"
    using lines assms act(3) by (auto simp: counted_def split: if_splits)
  ultimately show ?thesis by (simp add: counted_def)
qed


lemma released_lower:
  assumes "counted g"
  shows "tg_total (run_release k g) \<le> tg_total g" "active_of (run_release k g) user \<le> active_of g user"
  using counted_active [OF assms] by (auto simp: run_release_def Let_def active_of_def)

lemma inside_acquire:
  assumes "inside_limits lims admins g" "Acquire_slot lims (user \<in> admins) user kind g = Some g'"
  shows "inside_limits lims admins g'"
  using assms by (auto simp: Acquire_slot_def slot_free_def inside_limits_def active_of_def split: if_splits)

interpretation gate: transition_system "\<lambda>g. g = new_gate" "gate_step lims admins"
    "\<lambda>g. counted g \<and> inside_limits lims admins g" for lims :: limits and admins
proof
  fix g assume "g = new_gate"
  then show "counted g \<and> inside_limits lims admins g"
    by (simp add: new_gate_def counted_def inside_limits_def live_def held_def active_of_def)
next
  fix g g' assume inv: "counted g \<and> inside_limits lims admins g" and "gate_step lims admins g g'"
  from this(2) show "counted g' \<and> inside_limits lims admins g'"
  proof cases
    case (acquire user kind)
    with inv show ?thesis by (blast intro: counted_acquire inside_acquire)
  next
    case (release k)
    from inv have "counted g" by simp
    note lower = released_lower [OF this, of k] and ok = counted_release [OF this, of k]
    have "inside_limits lims admins (run_release k g)"
      unfolding inside_limits_def using inv lower order_trans unfolding inside_limits_def by blast
    with ok release show ?thesis by simp
  qed
qed

text \<open>C34. However admissions and releases interleave, with releases run twice or never, the gate counts
  exactly the slots still held, overall, of timelines and of each listener; the server's limit is never
  passed, nor is a listener's own unless it administers the server; and a listener below both limits is
  always admitted.\<close>

theorem gate_counts_slots:
  assumes "(gate_step lims admins)\<^sup>*\<^sup>* new_gate g"
  shows "ActiveTranscodeSessions g =
      (int (length (live g)), int (length (filter (\<lambda>r. rl_kind r = TranscodeTimeline) (live g))))
    \<and> (\<forall>user. active_of g user = int (held user g))
    \<and> (lm_MaxConcurrent lims > 0 \<longrightarrow> int (length (live g)) \<le> lm_MaxConcurrent lims)
    \<and> (\<forall>user. user \<notin> admins \<and> lm_MaxConcurrentPerUser lims > 0 \<longrightarrow> int (held user g) \<le> lm_MaxConcurrentPerUser lims)
    \<and> (\<forall>user kind. (lm_MaxConcurrent lims \<le> 0 \<or> int (length (live g)) < lm_MaxConcurrent lims)
        \<and> (lm_MaxConcurrentPerUser lims \<le> 0 \<or> user \<in> admins \<or> int (held user g) < lm_MaxConcurrentPerUser lims)
        \<longrightarrow> Acquire_slot lims (user \<in> admins) user kind g \<noteq> None)"
proof -
  have inv: "counted g" "inside_limits lims admins g" using gate.inv_reachable [OF refl assms] by auto
  then have total: "tg_total g = int (length (live g))"
    "tg_timelines g = int (length (filter (\<lambda>r. rl_kind r = TranscodeTimeline) (live g)))" by (simp_all add: counted_def)
  note act = counted_active [OF inv(1)]
  show ?thesis
    using inv(2) total act by (auto simp: ActiveTranscodeSessions_def inside_limits_def Acquire_slot_def slot_free_def)
qed


section \<open>Concrete runs\<close>

definition demo_media :: media_world where
  "demo_media = \<lparr>md_valid = (\<lambda>_. True), md_catalog = demo_catalog, md_Get = (\<lambda>_. Inr (demo_item ''T1'' KindTrack ''L1'' '''')),
     md_catalogUsers = Map.empty, md_stations = []\<rparr>"

text \<open>Bob plays a queue.\<close>

definition demo_timeline :: media_claims where
  "demo_timeline = \<lparr>mc_User = ''us-b'', mc_Cred = ''re:0'', mc_Purpose = PurposeHLS, mc_PID = ''tl-1'',
     mc_Shape = '''', mc_Exp = 100\<rparr>"

definition bob_ctx :: user_ctx where
  "bob_ctx = \<lparr>uc_ID = ''us-b'', uc_CatalogPID = ''cu'', uc_Admin = False, uc_AllLibraries = True,
     uc_Libraries = [], uc_UploadEnabled = False, uc_UploadQuotaBytes = 0, uc_Download = True,
     uc_Delete = False, uc_Explicit = True, uc_SharedOutputs = True, uc_ManagePodcasts = True,
     uc_MaxTranscodeKbps = 0, uc_TagAllow = [], uc_TagDeny = []\<rparr>"

lemma bob_reads: "userCtxByID demo_media (\<lambda>_. False) ''us-b'' two_users = Inr bob_ctx"
  by (simp add: userCtxByID_def UserByID_def two_users_def plain_user_def UserCtx_def Let_def hasRole_def
      permissionsOf_def catalogPID_def demo_media_def bob_ctx_def)

lemma bob_epoch: "reachEpoch (\<lambda>_. False) ''us-b'' two_users = Inr 0" "FormatInt 0 = ''0''"
  by (simp add: reachEpoch_def epoch_def SyncStateGet_def two_users_def) code_simp

lemma bob_fetches: "AuthorizeMediaFor demo_media (\<lambda>_. False) 5 demo_timeline two_users = Inr bob_ctx"
proof -
  have cred: "split_on CHR '','' ''re:0'' = [''re:0'']" "cut CHR '':'' ''re:0'' = (''re'', ''0'', True)"
    "has_prefix ''tl-1'' ''tl-''" by code_simp+
  show ?thesis
    by (simp add: AuthorizeMediaFor_def demo_timeline_def bob_reads credentialAlive_def cred credentialHolds_def
        bob_epoch purposeAllows_def Let_def PurposeHLS_def PurposeStream_def PurposeArt_def PurposeEnclosure_def
        PurposeDownload_def PurposeRadio_def TimelinePIDPrefix_def)
qed

lemma media_check_fails_closed_witness:
  "AuthorizeMediaFor demo_media (\<lambda>_. False) 5 demo_timeline two_users = Inr bob_ctx
    \<and> (\<exists>u. UserByID ''us-b'' two_users = Inr u \<and> \<not> a_Disabled u \<and> \<not> a_Pending u)"
  using media_check_fails_closed [OF bob_fetches] by (simp add: demo_timeline_def)

text \<open>Ada edits her own account meanwhile: Bob's timeline goes on, under the same rules.\<close>

definition ada_hidden :: store where
  "ada_hidden = (SyncStateIncrement (syncKeyReachEpoch @ ''us-a'') two_users)"

lemma ada_hidden_run: "reach_step\<^sup>*\<^sup>* (two_users, {''us-a''}, {''us-b''}) (ada_hidden, {}, {''us-b''})"
  using reach_step.bump [of two_users "{''us-a''}" "{''us-b''}" "''us-a''"] by (auto simp: ada_hidden_def)

lemma timeline_plays_under_current_rules_witness:
  "\<exists>uc uc2. TimelineReach demo_media (\<lambda>_. False) ''us-b'' two_users two_users = Inr (''re:0'', uc)
    \<and> AuthorizeMediaFor demo_media (\<lambda>_. False) 5 demo_timeline ada_hidden = Inr uc2
    \<and> reach_view uc2 = reach_view uc"
proof -
  have mint: "TimelineReach demo_media (\<lambda>_. False) ''us-b'' two_users two_users = Inr (''re:0'', bob_ctx)"
    by (simp add: TimelineReach_def bob_epoch bob_reads)
  have other: "userCtxByID demo_media (\<lambda>_. False) ''us-b'' ada_hidden = Inr bob_ctx"
    "reachEpoch (\<lambda>_. False) ''us-b'' ada_hidden = Inr 0"
    by (simp_all add: ada_hidden_def SyncStateIncrement_def userCtxByID_def UserByID_def two_users_def plain_user_def
        UserCtx_def Let_def hasRole_def permissionsOf_def catalogPID_def demo_media_def bob_ctx_def
        reachEpoch_def epoch_def SyncStateGet_def syncKeyReachEpoch_def)
  have fetch: "AuthorizeMediaFor demo_media (\<lambda>_. False) 5 demo_timeline ada_hidden = Inr bob_ctx"
  proof -
    have cred: "split_on CHR '','' ''re:0'' = [''re:0'']" "cut CHR '':'' ''re:0'' = (''re'', ''0'', True)"
      "has_prefix ''tl-1'' ''tl-''" by code_simp+
    show ?thesis
      by (simp add: AuthorizeMediaFor_def demo_timeline_def other credentialAlive_def cred credentialHolds_def
          bob_epoch(2) purposeAllows_def Let_def PurposeHLS_def PurposeStream_def PurposeArt_def PurposeEnclosure_def
          PurposeDownload_def PurposeRadio_def TimelinePIDPrefix_def)
  qed
  have start: "counters_ok two_users" by (simp add: counters_ok_def two_users_def)
  have part: "''re:0'' \<in> set (split_on CHR '','' (mc_Cred demo_timeline))" by code_simp
  have "reach_view bob_ctx = reach_view bob_ctx"
    by (rule timeline_plays_under_current_rules [OF start rtranclp.rtrancl_refl ada_hidden_run mint _ _ _ part fetch])
      (simp_all add: demo_timeline_def)
  with mint fetch show ?thesis by blast
qed

lemma reach_changes_are_bumped_witness:
  "reach_run two_users (ac_store (snd (SetAccountPassword demo_world (\<lambda>_. False) 7 ''us-b'' ''pw''
      \<lparr>ac_store = two_users, ac_out = []\<rparr>))) {} {} {}
    \<and> accounts_ok two_users"
proof -
  let ?s = "\<lparr>ac_store = two_users, ac_out = []\<rparr>"
  have h: "accounts_ok (ac_store ?s)" "ada \<in> set (st_users (ac_store ?s))"
    "\<forall>rs. oi_Roles demo_ident = Some rs \<longrightarrow> set rs \<subseteq> {''admin'', ''user''}" "''us-'' @ ''z'' \<notin> ({} :: string set)"
    by (simp_all add: two_users_ok(1)) (simp_all add: two_users_def ada_def demo_ident_def)
  from reach_changes_are_bumped [OF h, of demo_world "\<lambda>_. False" 7 "''us-b''" _ "{}" "''pw''"] h(1)
  show ?thesis by simp
qed

lemma gate_counts_slots_witness:
  "\<exists>g. Acquire_slot \<lparr>lm_MaxConcurrent = 1, lm_MaxConcurrentPerUser = 0, lm_DefaultMaxBitrateKbps = 0\<rparr> False ''us-b''
      TranscodeTimeline new_gate = Some g \<and> ActiveTranscodeSessions g = (1, 1)
    \<and> ActiveTranscodeSessions (run_release 0 (run_release 0 g)) = (0, 0)"
proof -
  let ?l = "\<lparr>lm_MaxConcurrent = 1, lm_MaxConcurrentPerUser = 0, lm_DefaultMaxBitrateKbps = 0\<rparr>"
  obtain g where g: "Acquire_slot ?l (''us-b'' \<in> {}) ''us-b'' TranscodeTimeline new_gate = Some g"
    by (simp add: Acquire_slot_def slot_free_def new_gate_def active_of_def)
  then have one: "(gate_step ?l {})\<^sup>*\<^sup>* new_gate g" by (blast intro: gate_step.acquire)
  then have two: "(gate_step ?l {})\<^sup>*\<^sup>* new_gate (run_release 0 (run_release 0 g))"
    by (meson gate_step.release rtranclp.rtrancl_into_rtrancl)
  have rel: "tg_releases g = [\<lparr>rl_user = ''us-b'', rl_kind = TranscodeTimeline, rl_done = False\<rparr>]"
    using g by (auto simp: Acquire_slot_def slot_free_def new_gate_def active_of_def split: if_splits)
  have "live g = tg_releases g" "live (run_release 0 (run_release 0 g)) = []"
    by (simp_all add: live_def rel run_release_def Let_def)
  with gate_counts_slots [OF one] gate_counts_slots [OF two] g rel show ?thesis by simp
qed

text \<open>A stream URL minted under the session \<^verbatim>\<open>se-1\<close>, fetched after the session was revoked.\<close>

definition se1_claims :: media_claims where
  "se1_claims = \<lparr>mc_User = ''us-1'', mc_Cred = sessionCred ''se-1'', mc_Purpose = PurposeStream, mc_PID = ''it-9'',
     mc_Shape = '''', mc_Exp = 900 * second\<rparr>"

definition se1_query :: query where
  "se1_query = [(''pid'', ''it-9''), (''mt'', fst (MintFor demo_tokens 0 se1_claims 0))]"

lemma se1_verifies:
  "Verify demo_tokens (5 * second) (query_get se1_query ''mt'') (stream_want (query_get se1_query ''pid'') se1_query)
    = Some se1_claims"
proof -
  have "snd (MintFor demo_tokens 0 se1_claims 0) = 900 * second"
    by (simp add: MintFor_def demo_tokens_def NewMediaTokens_def DefaultMediaTokenTTL_def minute_def second_def Let_def)
  then have m: "MintFor demo_tokens 0 se1_claims 0 = (query_get se1_query ''mt'', 900 * second)"
    by (simp add: se1_query_def query_get_def prod_eq_iff)
  have secs: "unix_seconds (900 * second) = 900" "unix_seconds (5 * second) = 5"
    by (simp_all add: unix_seconds_def second_def)
  have plain: "plain_claims se1_claims"
    by (simp add: plain_claims_def se1_claims_def bar_def sessionCred_def PurposeStream_def)
  have "wanted (stream_want (query_get se1_query ''pid'') se1_query) se1_claims"
    by (simp add: wanted_def stream_want_def se1_claims_def streamShape_def se1_query_def query_get_def bound_keys_def
        Encode_def)
  with Verify_minted [OF m plain] secs show ?thesis by (simp add: se1_claims_def)
qed

lemma ended_session_serves_nothing_witness:
  "ServeStream (demo_bridge\<lparr>bg_gate := Some (gate_over demo_media (\<lambda>_. False) \<lparr>lm_MaxConcurrent = 0,
        lm_MaxConcurrentPerUser = 0, lm_DefaultMaxBitrateKbps = 0\<rparr> (5 * second) new_gate (lg_store demo_left))\<rparr>)
      (5 * second) se1_query \<in> {Answered 401 ''unauthenticated'', Answered 500 ''internal''}"
proof -
  have run: "store_step\<^sup>*\<^sup>* (demo_rows [] {}) demo_left"
    using demo_one_run demo_left_run by (rule rtranclp_trans)
  have part: "''se:'' @ ''se-1'' \<in> set (split_on CHR '','' (mc_Cred se1_claims))"
    by (simp add: se1_claims_def sessionCred_def)
  have gone: "(demo_h ''a'', ''se-1'') \<in> lg_issued demo_left" "''se-1'' \<notin> as_ID ` set (st_sessions (lg_store demo_left))"
    by (simp_all add: demo_left_def demo_defs)
  have pid: "query_get se1_query ''pid'' \<noteq> ''''" by (simp add: se1_query_def query_get_def)
  have tokens: "bg_tokens (demo_bridge\<lparr>bg_gate := x\<rparr>) = demo_tokens" for x by (simp add: demo_bridge_def)
  show ?thesis
    by (rule ended_session_serves_nothing [OF demo_start run rtranclp.rtrancl_refl gone part _ _ pid])
      (simp_all only: tokens se1_verifies, simp)
qed


section \<open>A damaged counter\<close>

text \<open>A value that is not a counter refuses every timeline, but the next bump reads it as zero: the
  epoch starts again at one, and a credential of the first epoch holds again.\<close>

lemma damaged_counter_restarts:
  defines "st \<equiv> two_users\<lparr>st_syncState := [syncKeyReachEpoch @ ''us-b'' \<mapsto> ''x7'']\<rparr>"
  shows "\<exists>e. credentialHolds (\<lambda>_. False) 5 ''us-b'' ''re:1'' st = Some e"
    "credentialHolds (\<lambda>_. False) 5 ''us-b'' ''re:1'' (SyncStateIncrement (syncKeyReachEpoch @ ''us-b'') st) = None"
proof -
  have c: "cut CHR '':'' ''re:1'' = (''re'', ''1'', True)" "Atoi ''x7'' = None" "Atoi ''1'' = Some 1"
    "FormatInt (sql_integer ''x7'' + 1) = ''1''" "FormatInt 1 = ''1''" by code_simp+
  show "\<exists>e. credentialHolds (\<lambda>_. False) 5 ''us-b'' ''re:1'' st = Some e"
    "credentialHolds (\<lambda>_. False) 5 ''us-b'' ''re:1'' (SyncStateIncrement (syncKeyReachEpoch @ ''us-b'') st) = None"
    by (simp_all add: credentialHolds_def c reachEpoch_def epoch_def SyncStateGet_def st_def SyncStateIncrement_def)
qed

end
