(* ===== verification/Event_Log.thy ===== *)
theory Event_Log
  imports Media_Auth "HOL-Library.Sublist" "HOL-Library.List_Lexorder"
begin

text \<open>
  The server's change stream (db/events.go): one row per change of an account's state, numbered by
  the table, written by \<open>AppendEvent\<close>, read from a position on by \<open>EventsSince\<close> and cut at its old
  end by \<open>PruneEventLog\<close>; and the counters and positions kept by key in \<^verbatim>\<open>sync_state\<close>.

  A table is its rows in the order of their ids and the last id it ever gave: the column is
  \<^verbatim>\<open>INTEGER PRIMARY KEY AUTOINCREMENT\<close>, so an id is never given twice and past the largest one no row
  can be added.
\<close>

section \<open>The stream\<close>

record event =
  ev_ID :: int
  ev_UserID :: string
  ev_Kind :: string
  ev_ItemPID :: string
  ev_WrittenAtNS :: int

record event_table =
  et_rows :: "event list"
  et_last :: int

definition no_events :: event_table where "no_events = \<lparr>et_rows = [], et_last = 0\<rparr>"

definition AppendEvent :: "int \<Rightarrow> string \<Rightarrow> string \<Rightarrow> string \<Rightarrow> event_table \<Rightarrow> (int \<times> event_table) option" where
  "AppendEvent now userID kind itemPID t =
    (let i = et_last t + 1 in
     if 2 ^ 63 \<le> i then None
     else Some (i, \<lparr>et_rows = et_rows t @ [\<lparr>ev_ID = i, ev_UserID = userID, ev_Kind = kind,
                      ev_ItemPID = itemPID, ev_WrittenAtNS = now\<rparr>], et_last = i\<rparr>))"

definition EventsSince :: "string \<Rightarrow> int \<Rightarrow> nat \<Rightarrow> event_table \<Rightarrow> event list \<times> bool" where
  "EventsSince userID sinceID limit t =
    (let out = take (limit + 1) (filter (\<lambda>e. ev_UserID e = userID \<and> sinceID < ev_ID e) (et_rows t));
         more = limit < length out
     in (if more then take limit out else out, more))"

definition LatestEvent :: "event_table \<Rightarrow> int \<times> int" where
  "LatestEvent t = (if et_rows t = [] then (0, 0)
                    else (ev_ID (last (et_rows t)), ev_WrittenAtNS (last (et_rows t))))"

definition EventWrittenAt :: "int \<Rightarrow> event_table \<Rightarrow> int option" where
  "EventWrittenAt i t = map_option ev_WrittenAtNS (find (\<lambda>e. ev_ID e = i) (et_rows t))"

definition LatestEventIDForUser :: "string \<Rightarrow> event_table \<Rightarrow> int" where
  "LatestEventIDForUser userID t =
    foldl max 0 (map ev_ID (filter (\<lambda>e. ev_UserID e = userID) (et_rows t)))"

text \<open>The newest \<open>keep\<close> rows are selected first, the least of their ids is where the table is cut.\<close>

definition PruneEventLog :: "nat \<Rightarrow> event_table \<Rightarrow> nat \<times> event_table" where
  "PruneEventLog keep t =
    (let newest = take keep (rev (et_rows t));
         cutoff = (if newest = [] then 0 else ev_ID (last newest));
         left = filter (\<lambda>e. \<not> ev_ID e < cutoff) (et_rows t)
     in (length (et_rows t) - length left, t\<lparr>et_rows := left\<rparr>))"

definition EventFloor :: "event_table \<Rightarrow> int" where
  "EventFloor t = (if et_rows t = [] then 1 else ev_ID (hd (et_rows t))) - 1"

section \<open>Counters and positions by key\<close>

definition SyncStateSet :: "string \<Rightarrow> string \<Rightarrow> store \<Rightarrow> store" where
  "SyncStateSet key v st = st\<lparr>st_syncState := (st_syncState st)(key \<mapsto> v)\<rparr>"

definition ClearSyncState :: "store \<Rightarrow> store" where
  "ClearSyncState st = st\<lparr>st_syncState := (\<lambda>_. None)\<rparr>"

text \<open>\<open>prefixEnd\<close>: the last byte below \<^verbatim>\<open>0xff\<close> goes up by one and what follows it is dropped.\<close>

fun bump_rev :: "string \<Rightarrow> string" where
  "bump_rev [] = []"
| "bump_rev (c # s) = (if (of_char c :: nat) < 255 then char_of (of_char c + 1 :: nat) # s else bump_rev s)"

definition prefixEnd :: "string \<Rightarrow> string" where "prefixEnd p = rev (bump_rev (rev p))"

text \<open>The condition \<open>SyncStateWithPrefix\<close> puts on a key; strings are compared byte by byte.\<close>

definition key_between :: "string \<Rightarrow> string \<Rightarrow> bool" where
  "key_between p k \<longleftrightarrow> p \<le> k \<and> (prefixEnd p = '''' \<or> k < prefixEnd p)"

definition SyncStateWithPrefix :: "string \<Rightarrow> store \<Rightarrow> string \<rightharpoonup> string" where
  "SyncStateWithPrefix p st =
    (if p = '''' then (\<lambda>_. None) else (\<lambda>k. if key_between p k then st_syncState st k else None))"

section \<open>Keys with a prefix\<close>

lemma byte_255: "(of_char c :: nat) \<le> 255"
  using byte_less [of c] unfolding byte_of_def by linarith

lemma largest_byte:
  assumes "\<not> (of_char c :: nat) < 255"
  shows "c \<le> x \<longleftrightarrow> x = c"
proof
  assume "c \<le> x"
  then have "(of_char c :: nat) \<le> of_char x" by (simp add: less_eq_char_def)
  with assms byte_255 [of x] have "of_char x = (of_char c :: nat)" by linarith
  then show "x = c" by simp
qed simp

lemma prefix_last_255: "\<not> (of_char c :: nat) < 255 \<Longrightarrow> prefixEnd (p @ [c]) = prefixEnd p"
  by (simp add: prefixEnd_def)

lemma prefix_last_below:
  "(of_char c :: nat) < 255 \<Longrightarrow> prefixEnd (p @ [c]) = p @ [char_of (of_char c + 1 :: nat)]"
  by (simp add: prefixEnd_def)

lemma less_append_left [simp]: "p @ x < p @ y \<longleftrightarrow> x < (y :: string)"
  by (induction p) simp_all

lemma le_append_left [simp]: "p @ x \<le> p @ y \<longleftrightarrow> x \<le> (y :: string)"
  by (induction p) simp_all

text \<open>No key lies between the keys with the prefix and the first key past them.\<close>

lemma prefixEnd_nonempty:
  "prefixEnd p \<noteq> '''' \<Longrightarrow> p \<le> k \<and> k < prefixEnd p \<longleftrightarrow> (\<exists>s. k = p @ s)"
proof (induction p arbitrary: k rule: rev_induct)
  case Nil
  then show ?case by (simp add: prefixEnd_def)
next
  case (snoc c p)
  show ?case
  proof (cases "(of_char c :: nat) < 255")
    case True
    define d where "d = char_of (of_char c + 1 :: nat)"
    have d: "of_char d = (of_char c + 1 :: nat)"
      using True by (simp add: d_def take_bit_nat_eq_self)
    have "p @ [c] \<le> k \<and> k < p @ [d] \<longleftrightarrow> (\<exists>s. k = p @ c # s)"
    proof (induction p arbitrary: k)
      case Nil
      show ?case
      proof (cases k)
        case (Cons x r)
        have "c < x \<and> x < d \<longleftrightarrow> False"
          using d by (auto simp: less_char_def)
        moreover have "c < d" using d by (simp add: less_char_def)
        ultimately show ?thesis using Cons by (auto simp: less_eq_char_def less_char_def)
      qed simp
    next
      case (Cons a p)
      then show ?case by (cases k) (auto simp: less_eq_char_def less_char_def)
    qed
    then show ?thesis using True by (simp add: prefix_last_below d_def)
  next
    case False
    then have e: "prefixEnd (p @ [c]) = prefixEnd p" by (rule prefix_last_255)
    with snoc.prems have ne: "prefixEnd p \<noteq> ''''" by simp
    have "p @ [c] \<le> k \<and> k < prefixEnd p \<longleftrightarrow> (\<exists>s. k = (p @ [c]) @ s)"
    proof (intro iffI; clarify)
      assume lo: "p @ [c] \<le> k" and hi: "k < prefixEnd p"
      have "p \<le> p @ [c]" using le_append_left [of p "[]" "[c]"] by simp
      then have "p \<le> k" using lo by (rule order_trans)
      with hi snoc.IH [OF ne] obtain s where s: "k = p @ s" by blast
      with lo have "[c] \<le> s" by simp
      then obtain x r where xr: "s = x # r" "c \<le> x" by (cases s) auto
      then show "\<exists>s. k = (p @ [c]) @ s" using s largest_byte [OF False, of x] by simp
    next
      fix s assume k: "k = (p @ [c]) @ s"
      then have "k < prefixEnd p" using snoc.IH [OF ne] by auto
      moreover have "p @ [c] \<le> (p @ [c]) @ s" using le_append_left [of "p @ [c]" "[]" s] by simp
      ultimately show "p @ [c] \<le> (p @ [c]) @ s \<and> (p @ [c]) @ s < prefixEnd p" using k by blast
    qed
    then show ?thesis using e by simp
  qed
qed

lemma bump_rev_Nil: "bump_rev s = [] \<Longrightarrow> c \<in> set s \<Longrightarrow> \<not> (of_char c :: nat) < 255"
  by (induction s) (auto split: if_splits)

lemma all_255_prefix:
  "(\<And>c. c \<in> set p \<Longrightarrow> \<not> (of_char c :: nat) < 255) \<Longrightarrow> p \<le> k \<longleftrightarrow> (\<exists>s. k = p @ s)"
proof (induction p arbitrary: k)
  case (Cons a p)
  show ?case
  proof (cases k)
    case k: (Cons x r)
    have a: "a \<le> x \<longleftrightarrow> x = a" using Cons.prems [of a] by (intro largest_byte) simp
    then have "\<not> a < x" by (auto simp: less_le)
    moreover have "p \<le> r \<longleftrightarrow> (\<exists>s. r = p @ s)" by (rule Cons.IH) (use Cons.prems in simp)
    ultimately show ?thesis using k by auto
  qed simp
qed simp

lemma key_between_iff: "key_between p k \<longleftrightarrow> (\<exists>s. k = p @ s)"
proof (cases "prefixEnd p = ''''")
  case True
  then have "\<not> (of_char c :: nat) < 255" if "c \<in> set p" for c
    using that bump_rev_Nil [of "rev p" c] by (simp add: prefixEnd_def)
  then show ?thesis using True all_255_prefix [of p k] by (simp add: key_between_def)
qed (use prefixEnd_nonempty [of p k] in \<open>simp add: key_between_def\<close>)

lemma has_prefix_iff: "has_prefix k p \<longleftrightarrow> (\<exists>s. k = p @ s)"
  by (metis append_eq_conv_conj has_prefix_def append_take_drop_id)

text \<open>\<open>SyncStateWithPrefix\<close> reads the keys that start with the prefix, whatever bytes they hold.\<close>

lemma prefix_read:
  "p \<noteq> '''' \<Longrightarrow> SyncStateWithPrefix p st k = (if has_prefix k p then st_syncState st k else None)"
  by (simp add: SyncStateWithPrefix_def key_between_iff has_prefix_iff)

section \<open>A table and the whole stream behind it\<close>

text \<open>\<open>numbered h\<close>: the stream \<open>h\<close> of every event ever appended numbers them from one on.  A table
  keeps its newest end.\<close>

definition numbered :: "event list \<Rightarrow> bool" where
  "numbered h \<longleftrightarrow> (\<forall>i < length h. ev_ID (h ! i) = int i + 1)"

definition table_of :: "event list \<Rightarrow> nat \<Rightarrow> event_table" where
  "table_of h k = \<lparr>et_rows = drop k h, et_last = int (length h)\<rparr>"

definition keeps :: "event list \<Rightarrow> event_table \<Rightarrow> bool" where
  "keeps h t \<longleftrightarrow> numbered h \<and> (\<exists>k. t = table_of h k \<and> (h = [] \<and> k = 0 \<or> k < length h))"

definition kept_from :: "event list \<Rightarrow> event_table \<Rightarrow> nat" where
  "kept_from h t = length h - length (et_rows t)"

lemma numbered_Nil [simp]: "numbered []" by (simp add: numbered_def)

lemma numbered_app:
  "numbered (h @ [e]) \<longleftrightarrow> numbered h \<and> ev_ID e = int (length h) + 1"
  by (auto simp: numbered_def nth_append less_Suc_eq)

lemma numbered_drop: "numbered h \<Longrightarrow> i < length (drop n h) \<Longrightarrow> ev_ID (drop n h ! i) = int (n + i) + 1"
  by (simp add: numbered_def)

lemma keeps_empty: "keeps [] no_events"
  by (simp add: keeps_def table_of_def no_events_def)

lemma keepsE:
  assumes "keeps h t"
  obtains k where "numbered h" "t = table_of h k" "h = [] \<and> k = 0 \<or> k < length h" "kept_from h t = k"
proof -
  from assms obtain k where k: "numbered h" "t = table_of h k" "h = [] \<and> k = 0 \<or> k < length h"
    by (auto simp: keeps_def)
  then have "kept_from h t = k" by (auto simp: kept_from_def table_of_def)
  with k that show thesis by blast
qed

lemma filter_past:
  assumes h: "numbered h" and kn: "k \<le> n"
  shows "filter (\<lambda>e. P e \<and> int n < ev_ID e) (drop k h) = filter P (drop n h)"
proof -
  have "drop k h = take (n - k) (drop k h) @ drop n h"
    using append_take_drop_id [of "n - k" "drop k h"] kn by (simp add: drop_drop)
  moreover have "\<not> int n < ev_ID e" if "e \<in> set (take (n - k) (drop k h))" for e
    using that h by (auto simp: in_set_conv_nth numbered_def)
  moreover have "int n < ev_ID e" if "e \<in> set (drop n h)" for e
    using that h by (auto simp: in_set_conv_nth numbered_def)
  ultimately show ?thesis
    by (metis (mono_tags, lifting) append_self_conv2 filter_False filter_append filter_cong)
qed

lemma EventsSince_keeps:
  assumes "keeps h t" "kept_from h t \<le> n"
  shows "EventsSince uid (int n) l t =
    (let out = filter (\<lambda>e. ev_UserID e = uid) (drop n h) in (take l out, l < length out))"
proof -
  obtain k where k: "numbered h" "t = table_of h k" "k \<le> n" using assms by (auto elim: keepsE)
  show ?thesis
    by (simp add: EventsSince_def k(2) table_of_def filter_past [OF k(1,3)] Let_def min_def)
qed

lemma LatestEvent_keeps:
  "keeps h t \<Longrightarrow> LatestEvent t = (int (length h), if h = [] then 0 else ev_WrittenAtNS (last h))"
  by (elim keepsE) (auto simp: LatestEvent_def table_of_def numbered_def last_conv_nth last_drop)

lemma EventFloor_keeps: "keeps h t \<Longrightarrow> EventFloor t = int (kept_from h t)"
  by (elim keepsE) (auto simp: EventFloor_def table_of_def numbered_def hd_drop_conv_nth)

lemma EventWrittenAt_keeps:
  assumes "keeps h t" "kept_from h t < n" "n \<le> length h"
  shows "EventWrittenAt (int n) t = Some (ev_WrittenAtNS (h ! (n - 1)))"
proof -
  obtain k where k: "numbered h" "t = table_of h k" "k < n" using assms by (auto elim: keepsE)
  have "find (\<lambda>e. ev_ID e = int n) (drop k h) = Some (h ! (n - 1))"
    unfolding find_Some_iff using k assms(3)
    by (intro exI [of _ "n - 1 - k"]) (auto simp: numbered_def)
  then show ?thesis by (simp add: EventWrittenAt_def k(2) table_of_def)
qed

lemma AppendEvent_keeps:
  assumes "keeps h t" "AppendEvent now uid kd pid t = Some (i, t')"
  shows "keeps (h @ [\<lparr>ev_ID = int (length h) + 1, ev_UserID = uid, ev_Kind = kd, ev_ItemPID = pid,
                     ev_WrittenAtNS = now\<rparr>]) t'"
    "i = int (length h) + 1" "kept_from (h @ [e]) t' = kept_from h t"
  using assms
  by (auto elim!: keepsE simp: AppendEvent_def Let_def table_of_def keeps_def numbered_app kept_from_def
        split: if_splits intro!: exI [of _ "length h - length (et_rows t)"])

lemma AppendEvent_room:
  assumes "keeps h t" "AppendEvent now uid kd pid t = Some r"
  shows "length (h @ [e]) < 2 ^ 63"
proof -
  have "int (length (h @ [e])) < int (2 ^ 63)"
    using assms by (auto simp: AppendEvent_def Let_def table_of_def elim!: keepsE split: if_splits)
  then show ?thesis by (simp only: of_nat_less_iff)
qed

lemma filter_from:
  assumes h: "numbered h" and k: "k \<le> m"
  shows "filter (\<lambda>e. \<not> ev_ID e < int m + 1) (drop k h) = drop m h"
  using filter_past [OF h k, of "\<lambda>_. True"] by (simp add: not_less add1_zle_eq flip: not_le)

lemma PruneEventLog_keeps:
  assumes "keeps h t"
  shows "keeps h (snd (PruneEventLog n t))" "kept_from h t \<le> kept_from h (snd (PruneEventLog n t))"
proof -
  obtain k where k: "numbered h" "t = table_of h k" "h = [] \<and> k = 0 \<or> k < length h" "kept_from h t = k"
    using assms by (rule keepsE)
  have "\<exists>m \<ge> k. snd (PruneEventLog n t) = table_of h m \<and> (h = [] \<and> m = 0 \<or> m < length h)"
  proof (cases "take n (rev (drop k h)) = []")
    case True
    have "filter (\<lambda>e. \<not> ev_ID e < 0) (drop k h) = drop k h"
      using k(1) by (intro filter_True) (auto simp: in_set_conv_nth numbered_def)
    then show ?thesis using True k by (auto simp: PruneEventLog_def table_of_def Let_def)
  next
    case False
    define m where "m = max k (length h - n)"
    have m: "k \<le> m" "m < length h" using False k(3) by (auto simp: m_def)
    have "last (take n (rev (drop k h))) = h ! m"
    proof -
      have "length (drop k h) - n + k = m" using m by (auto simp: m_def)
      then show ?thesis using m by (simp add: take_rev last_rev hd_drop_conv_nth add.commute)
    qed
    then have "ev_ID (last (take n (rev (drop k h)))) = int m + 1" using k(1) m by (simp add: numbered_def)
    then have "snd (PruneEventLog n t) = table_of h m"
      using False filter_from [OF k(1) m(1)] by (simp add: PruneEventLog_def k(2) table_of_def Let_def)
    then show ?thesis using m by blast
  qed
  then obtain m where m: "k \<le> m" "snd (PruneEventLog n t) = table_of h m" "h = [] \<and> m = 0 \<or> m < length h" by blast
  then show "keeps h (snd (PruneEventLog n t))" using k(1) by (auto simp: keeps_def)
  have "kept_from h (table_of h m) = m" using m(3) by (auto simp: kept_from_def table_of_def)
  then show "kept_from h t \<le> kept_from h (snd (PruneEventLog n t))" using m k(4) by simp
qed

end
