(* ===== verification/Sync_Cursors.thy ===== *)
theory Sync_Cursors
  imports Event_Log
begin

text \<open>
  The cursors of the sync endpoints (service/sync.go): positions in the server's change stream, in
  the catalog's change log and in a snapshot of the catalog, handed to clients as opaque base64 text
  and read back from whatever a client sends.  Numbers are 64-bit, and what \<^verbatim>\<open>ParseInt\<close> reads
  \<^const>\<open>Atoi\<close> does.
\<close>

section \<open>Server and catalog cursors\<close>

definition cursorInts :: "string list \<Rightarrow> int list option" where
  "cursorInts fs = those (map Atoi fs)"

record server_cursor =
  vc_gen :: string
  vc_id :: int
  vc_at :: int
  vc_stamped :: bool

definition encodeServerCursor :: "string \<Rightarrow> int \<Rightarrow> int \<Rightarrow> string" where
  "encodeServerCursor gen i t = encode (join bar [''s2'', gen, FormatInt i, FormatInt t])"

definition decodeServerCursor :: "string \<Rightarrow> server_cursor option" where
  "decodeServerCursor s =
    (case decode s of
       None \<Rightarrow> None
     | Some raw \<Rightarrow>
        let parts = split_on bar raw;
            stamped = (length parts = 4 \<and> parts ! 0 = ''s2'')
        in if \<not> stamped \<and> (length parts \<noteq> 3 \<or> parts ! 0 \<noteq> ''s1'') then None
           else case cursorInts (drop 2 parts) of
             None \<Rightarrow> None
           | Some nums \<Rightarrow> Some \<lparr>vc_gen = parts ! 1, vc_id = nums ! 0,
                                 vc_at = (if stamped then nums ! 1 else 0), vc_stamped = stamped\<rparr>)"

record catalog_cursor =
  cc_gen :: string
  cc_epoch :: int
  cc_seq :: int
  cc_ts :: int
  cc_stamped :: bool

definition encodeCatalogCursor :: "string \<Rightarrow> int \<Rightarrow> int \<Rightarrow> int \<Rightarrow> string" where
  "encodeCatalogCursor gen ep sq ts =
    encode (join bar [''c2'', gen, FormatInt ep, FormatInt sq, FormatInt ts])"

definition decodeCatalogCursor :: "string \<Rightarrow> catalog_cursor option" where
  "decodeCatalogCursor s =
    (case decode s of
       None \<Rightarrow> None
     | Some raw \<Rightarrow>
        let parts = split_on bar raw;
            stamped = (length parts = 5 \<and> parts ! 0 = ''c2'')
        in if \<not> stamped \<and> (length parts \<noteq> 4 \<or> parts ! 0 \<noteq> ''c1'') then None
           else case cursorInts (drop 2 parts) of
             None \<Rightarrow> None
           | Some nums \<Rightarrow> Some \<lparr>cc_gen = parts ! 1, cc_epoch = nums ! 0, cc_seq = nums ! 1,
                                 cc_ts = (if stamped then nums ! 2 else 0), cc_stamped = stamped\<rparr>)"

section \<open>Snapshot cursors\<close>

definition encodeSnapshotCursor :: "string \<Rightarrow> string \<Rightarrow> string" where
  "encodeSnapshotCursor since nxt = encode (''n1'' @ [bar] @ since @ [bar] @ nxt)"

definition encodeShowSnapshotCursor :: "string \<Rightarrow> string \<Rightarrow> string" where
  "encodeShowSnapshotCursor since afterShow = encode (''n1s'' @ [bar] @ since @ [bar] @ afterShow)"

text \<open>The answers are the frozen catalog cursor, the place among the items, the last show served and
  whether the shows are done.\<close>

definition decodeSnapshotCursor :: "string \<Rightarrow> (string \<times> string \<times> string \<times> bool) option" where
  "decodeSnapshotCursor s =
    (case decode s of
       None \<Rightarrow> None
     | Some raw \<Rightarrow>
        (case cut_prefix raw (''n1s'' @ [bar]) of
           Some rest \<Rightarrow>
             let (since, afterShow, found) = cut bar rest in
             if \<not> found \<or> decodeCatalogCursor since = None then None
             else Some (since, '''', afterShow, False)
         | None \<Rightarrow>
             (case cut_prefix raw (''n1'' @ [bar]) of
                None \<Rightarrow> None
              | Some rest \<Rightarrow>
                  let (since, nxt, found) = cut bar rest in
                  if \<not> found \<or> decodeCatalogCursor since = None then None
                  else Some (since, nxt, '''', True))))"

section \<open>The feed's stored position\<close>

text \<open>\<^verbatim>\<open>ParseInt\<close> with its error dropped: zero for what is no number, the nearest bound for one out of
  range.\<close>

definition ParseInt_or :: "string \<Rightarrow> int" where
  "ParseInt_or s =
    (let neg = (s \<noteq> [] \<and> hd s = CHR ''-'');
         ds = (if s \<noteq> [] \<and> (hd s = CHR ''-'' \<or> hd s = CHR ''+'') then tl s else s);
         n = (if neg then - digits_val ds else digits_val ds)
     in if isDigits ds then max (- (2 ^ 63)) (min (2 ^ 63 - 1) n) else 0)"

definition parseFeedCursor :: "string \<Rightarrow> int \<times> int" where
  "parseFeedCursor s =
    (let (a, b, found) = cut bar s in if \<not> found then (0, 0) else (ParseInt_or a, ParseInt_or b))"

definition formatFeedCursor :: "int \<Rightarrow> int \<Rightarrow> string" where
  "formatFeedCursor sq ts = FormatInt sq @ [bar] @ FormatInt ts"

section \<open>Cursors read back\<close>

definition int64 :: "int \<Rightarrow> bool" where "int64 n \<longleftrightarrow> - (2 ^ 63) \<le> n \<and> n < 2 ^ 63"

lemma Atoi_int64: "int64 n \<Longrightarrow> Atoi (FormatInt n) = Some n"
  by (rule Atoi_FormatInt) (auto simp: int64_def)

lemma Atoi_ParseInt_or: "Atoi s = Some n \<Longrightarrow> ParseInt_or s = n"
  by (auto simp: Atoi_def ParseInt_or_def Let_def split: if_splits)

lemma plain_tags: "CHR ''s'' \<noteq> bar" "CHR ''c'' \<noteq> bar" "CHR ''n'' \<noteq> bar" "CHR ''1'' \<noteq> bar" "CHR ''2'' \<noteq> bar"
  by (simp_all add: bar_def)

lemma enc_char_no_bar: "n < 64 \<Longrightarrow> enc_char n \<noteq> bar"
proof -
  assume "n < 64"
  then have "enc_char n \<in> set alphabet" by (simp add: enc_char_def alphabet_length)
  moreover have "bar \<notin> set alphabet" by (simp add: alphabet_def bar_def)
  ultimately show "enc_char n \<noteq> bar" by auto
qed

lemma encode_no_bar: "bar \<notin> set (encode s)"
  using sextets_less [of s] enc_char_no_bar by (force simp: encode_sextets)

lemma decode_server_raw:
  "bar \<notin> set gen \<Longrightarrow> split_on bar (join bar [''s2'', gen, FormatInt i, FormatInt t])
     = [''s2'', gen, FormatInt i, FormatInt t]"
  by (rule split_join) (use FormatInt_plain plain_tags in auto)

lemma decode_catalog_raw:
  "bar \<notin> set gen \<Longrightarrow> split_on bar (join bar [''c2'', gen, FormatInt e, FormatInt i, FormatInt t])
     = [''c2'', gen, FormatInt e, FormatInt i, FormatInt t]"
  by (rule split_join) (use FormatInt_plain plain_tags in auto)

lemma decode_encodeServer:
  "bar \<notin> set gen \<Longrightarrow> int64 i \<Longrightarrow> int64 t \<Longrightarrow>
   decodeServerCursor (encodeServerCursor gen i t)
     = Some \<lparr>vc_gen = gen, vc_id = i, vc_at = t, vc_stamped = True\<rparr>"
  by (simp add: decodeServerCursor_def encodeServerCursor_def decode_encode decode_server_raw
      cursorInts_def Atoi_int64 Let_def del: join.simps split_on.simps)

lemma decode_encodeCatalog:
  "bar \<notin> set gen \<Longrightarrow> int64 e \<Longrightarrow> int64 i \<Longrightarrow> int64 t \<Longrightarrow>
   decodeCatalogCursor (encodeCatalogCursor gen e i t)
     = Some \<lparr>cc_gen = gen, cc_epoch = e, cc_seq = i, cc_ts = t, cc_stamped = True\<rparr>"
  by (simp add: decodeCatalogCursor_def encodeCatalogCursor_def decode_encode decode_catalog_raw
      cursorInts_def Atoi_int64 Let_def del: join.simps split_on.simps)

lemma decode_unstamped:
  assumes "bar \<notin> set gen" "int64 i"
  shows "decodeServerCursor (encode (join bar [''s1'', gen, FormatInt i]))
     = Some \<lparr>vc_gen = gen, vc_id = i, vc_at = 0, vc_stamped = False\<rparr>"
proof -
  have "split_on bar (join bar [''s1'', gen, FormatInt i]) = [''s1'', gen, FormatInt i]"
    by (rule split_join) (use assms FormatInt_plain plain_tags in auto)
  then show ?thesis using assms
    by (simp add: decodeServerCursor_def decode_encode cursorInts_def Atoi_int64 Let_def
        del: join.simps split_on.simps)
qed

lemma catalog_cursor_plain: "bar \<notin> set (encodeCatalogCursor gen e i t)"
  unfolding encodeCatalogCursor_def by (rule encode_no_bar)

lemma cut_prefix_app: "cut_prefix (p @ s) p = Some s"
  by (simp add: cut_prefix_def has_prefix_def)

lemma item_phase_no_show: "cut_prefix (''n1'' @ [bar] @ s) (''n1s'' @ [bar]) = None"
  by (simp add: cut_prefix_def has_prefix_def bar_def)

lemma decode_encodeSnapshot:
  assumes "bar \<notin> set since" "decodeCatalogCursor since \<noteq> None"
  shows "decodeSnapshotCursor (encodeSnapshotCursor since nxt) = Some (since, nxt, '''', True)"
    "decodeSnapshotCursor (encodeShowSnapshotCursor since s) = Some (since, '''', s, False)"
proof -
  have c: "cut bar (since @ [bar] @ x) = (since, x, True)" for x
    using cut_at [OF assms(1), of x] by simp
  have s: "cut_prefix (''n1s'' @ [bar] @ r) (''n1s'' @ [bar]) = Some r"
          "cut_prefix (''n1'' @ [bar] @ r) (''n1'' @ [bar]) = Some r" for r
    using cut_prefix_app [of "''n1s'' @ [bar]" r] cut_prefix_app [of "''n1'' @ [bar]" r] by simp_all
  show "decodeSnapshotCursor (encodeSnapshotCursor since nxt) = Some (since, nxt, '''', True)"
    unfolding decodeSnapshotCursor_def encodeSnapshotCursor_def decode_encode option.case
      item_phase_no_show s c using assms(2) by simp
  show "decodeSnapshotCursor (encodeShowSnapshotCursor since s) = Some (since, '''', s, False)"
    unfolding decodeSnapshotCursor_def encodeShowSnapshotCursor_def decode_encode option.case
      s c using assms(2) by simp
qed

lemma kinds_apart:
  assumes "bar \<notin> set gen"
  shows "decodeCatalogCursor (encodeServerCursor gen i t) = None"
    "decodeServerCursor (encodeCatalogCursor gen e i t) = None"
  using assms
  by (simp_all add: decodeCatalogCursor_def encodeServerCursor_def decodeServerCursor_def
      encodeCatalogCursor_def decode_encode decode_server_raw decode_catalog_raw Let_def
      del: join.simps split_on.simps)

lemma feed_position_read: "int64 sq \<Longrightarrow> int64 ts \<Longrightarrow> parseFeedCursor (formatFeedCursor sq ts) = (sq, ts)"
  using cut_at [OF FormatInt_plain, of sq "FormatInt ts"]
  by (simp add: parseFeedCursor_def formatFeedCursor_def Atoi_ParseInt_or [OF Atoi_int64])

section \<open>What clients bring back\<close>

text \<open>C23. Every cursor the sync endpoints hand out is read back as what it was made of: the server
  stream's, the catalog's, and both phases of a snapshot with the catalog cursor frozen inside, whatever
  the query engine's own page cursor holds.  One kind is never read as another, and one made before
  cursors were stamped is read, as unstamped.  Hypotheses: the generation holds no bar (it is a
  ULID) and the numbers are 64-bit.\<close>

theorem cursors_survive:
  assumes "bar \<notin> set gen" "int64 ep" "int64 i" "int64 t"
  shows "decodeServerCursor (encodeServerCursor gen i t)
        = Some \<lparr>vc_gen = gen, vc_id = i, vc_at = t, vc_stamped = True\<rparr>
    \<and> decodeCatalogCursor (encodeCatalogCursor gen ep i t)
        = Some \<lparr>cc_gen = gen, cc_epoch = ep, cc_seq = i, cc_ts = t, cc_stamped = True\<rparr>
    \<and> decodeSnapshotCursor (encodeSnapshotCursor (encodeCatalogCursor gen ep i t) nxt)
        = Some (encodeCatalogCursor gen ep i t, nxt, '''', True)
    \<and> decodeSnapshotCursor (encodeShowSnapshotCursor (encodeCatalogCursor gen ep i t) pid)
        = Some (encodeCatalogCursor gen ep i t, '''', pid, False)
    \<and> decodeCatalogCursor (encodeServerCursor gen i t) = None
    \<and> decodeServerCursor (encodeCatalogCursor gen ep i t) = None
    \<and> map_option vc_stamped (decodeServerCursor (encode (join bar [''s1'', gen, FormatInt i]))) = Some False
    \<and> parseFeedCursor (formatFeedCursor i t) = (i, t)"
  using assms
  by (simp add: decode_encodeServer decode_encodeCatalog decode_encodeSnapshot catalog_cursor_plain
      kinds_apart decode_unstamped feed_position_read del: join.simps)

lemma cursors_survive_witness:
  "decodeServerCursor (encodeServerCursor ''01HZX'' 42 1700000000000000000)
     = Some \<lparr>vc_gen = ''01HZX'', vc_id = 42, vc_at = 1700000000000000000, vc_stamped = True\<rparr>
   \<and> decodeSnapshotCursor (encodeSnapshotCursor (encodeCatalogCursor ''01HZX'' 3 42 1700000000000000000)
        (''k'' @ [bar] @ ''2''))
     = Some (encodeCatalogCursor ''01HZX'' 3 42 1700000000000000000, ''k'' @ [bar] @ ''2'', '''', True)"
  using cursors_survive [of "''01HZX''" 3 42 1700000000000000000 "''k'' @ [bar] @ ''2''"]
  by (simp add: bar_def int64_def)

end
