(* ===== verification/Play_State.thy ===== *)
theory Play_State
  imports Media_Auth
begin

text \<open>
  A user's state of an item: the row the catalog keeps (\<^verbatim>\<open>model.PlayState\<close> of the catalog library, the
  fields the server reads) and the state the API answers (service/dto.go, service/playback.go).
\<close>

record catalog_state =
  cs_UserPID :: string
  cs_PositionMS :: int
  cs_Played :: bool
  cs_Finished :: bool
  cs_PlayCount :: int
  cs_Starred :: bool
  cs_HasRating :: bool
  cs_Rating :: int
  cs_LastPlayedAt :: int
  cs_UpdatedAt :: int
  cs_PlayedChangedAt :: int

record play_state =
  ps_PID :: string
  ps_PositionMS :: int
  ps_Played :: bool
  ps_Finished :: bool
  ps_PlayCount :: int
  ps_Starred :: bool
  ps_Rating :: "int option"
  ps_LastPlayedAt :: time
  ps_UpdatedAt :: time

definition untouched_state :: "string \<Rightarrow> play_state" where
  "untouched_state pid = \<lparr>ps_PID = pid, ps_PositionMS = 0, ps_Played = False, ps_Finished = False,
     ps_PlayCount = 0, ps_Starred = False, ps_Rating = None, ps_LastPlayedAt = zero_time,
     ps_UpdatedAt = zero_time\<rparr>"

definition playStateDTO :: "string \<Rightarrow> catalog_state option \<Rightarrow> play_state" where
  "playStateDTO pid st =
    (case st of
       None \<Rightarrow> untouched_state pid
     | Some s \<Rightarrow> \<lparr>ps_PID = pid, ps_PositionMS = cs_PositionMS s, ps_Played = cs_Played s,
         ps_Finished = cs_Finished s, ps_PlayCount = cs_PlayCount s, ps_Starred = cs_Starred s,
         ps_Rating = (if cs_HasRating s then Some (cs_Rating s) else None),
         ps_LastPlayedAt = (if 0 < cs_LastPlayedAt s then cs_LastPlayedAt s else zero_time),
         ps_UpdatedAt = (if 0 < cs_UpdatedAt s then cs_UpdatedAt s else zero_time)\<rparr>)"

definition userPlayState :: "catalog_state list \<Rightarrow> string \<Rightarrow> catalog_state option" where
  "userPlayState states userPID = find (\<lambda>s. cs_UserPID s = userPID) states"

end
