(* ===== verification/Server_Sync.thy ===== *)
theory Server_Sync
  imports Sync_Cursors Play_State
begin

text \<open>
  The server's change stream as a client reads it (service/sync.go): a page of the caller's events
  after a cursor, coalesced by what they are about, each with the present state of it.

  What an event is hydrated with beside the catalog and the play states (preferences, subscriptions,
  book settings, bookmarks, playlists) comes out of reads that are not part of this theory: the
  record \<open>sync_world\<close> holds their answers, \<open>'v\<close> is what they answer.  The reads of one page run one
  after the other, so each event has the world it is hydrated in.
\<close>

section \<open>Events and their kinds\<close>

definition eventPlayState :: string where "eventPlayState = ''play-state''"
definition eventPrefs :: string where "eventPrefs = ''prefs''"
definition eventSubscription :: string where "eventSubscription = ''subscription''"
definition eventBookSettings :: string where "eventBookSettings = ''book-settings''"
definition eventBookmarks :: string where "eventBookmarks = ''bookmarks''"
definition eventPlaylist :: string where "eventPlaylist = ''playlist''"

text \<open>The kinds that only say what to fetch again.\<close>

definition markerKinds :: "string list" where
  "markerKinds = [''review'', ''upload'', ''task'', ''task-progress'', ''entity-state'', ''feed-disabled'',
     ''import-completed'', ''episode-downloaded'', ''playlist-synced'', ''account'', ''notification'',
     ''job'', ''health'', ''libraries'', ''server'']"

lemmas event_kinds = eventPlayState_def eventPrefs_def eventSubscription_def eventBookSettings_def
  eventBookmarks_def eventPlaylist_def

record 'v server_sync_event =
  se_Kind :: string
  se_PID :: string
  se_PlayState :: "play_state option"
  se_Prefs :: "'v option"
  se_Subscription :: "'v option"
  se_BookSettings :: "'v option"
  se_Bookmarks :: "'v list option"
  se_Playlist :: "'v option"

definition bare_event :: "string \<Rightarrow> string \<Rightarrow> 'v server_sync_event" where
  "bare_event kd pid = \<lparr>se_Kind = kd, se_PID = pid, se_PlayState = None, se_Prefs = None,
     se_Subscription = None, se_BookSettings = None, se_Bookmarks = None, se_Playlist = None\<rparr>"

record 'v sync_world =
  sw_media :: media_world
  sw_PlayStatesForItems :: "string list \<Rightarrow> wax_error + (string \<Rightarrow> catalog_state list)"
  sw_Prefs :: "svc_error + 'v"
  sw_Podcast :: "string \<Rightarrow> wax_error + string"
  sw_subscriptionFor :: "string \<Rightarrow> svc_error + 'v"
  sw_BookSettings :: "string \<Rightarrow> store_error + 'v"
  sw_Bookmarks :: "string \<Rightarrow> store_error + 'v list"
  sw_PlaylistByPID :: "string \<Rightarrow> svc_error + 'v"

definition PrefixPodcast :: string where "PrefixPodcast = ''pc''"
definition PrefixPlaylist :: string where "PrefixPlaylist = ''pl''"

section \<open>Hydrating\<close>

text \<open>\<open>hydratePlayState\<close>: \<^const>\<open>None\<close> for an item that is gone or out of the caller's sight.\<close>

definition hydratePlayState ::
    "'v sync_world \<Rightarrow> user_ctx \<Rightarrow> string \<Rightarrow> (string \<Rightarrow> catalog_state list)
       \<Rightarrow> svc_error + (string \<times> play_state) option" where
  "hydratePlayState w uc barePID batch =
    (case md_Get (sw_media w) barePID of
       Inl e \<Rightarrow> if KindOf (classify e) = KindNotFound then Inr None else Inl (classify e)
     | Inr it \<Rightarrow>
        if \<not> uc_AllLibraries uc \<and> \<not> fst (viewVisible (md_catalog (sw_media w)) uc it) then Inr None
        else let apiItem = itemAPIPID it in
             Inr (Some (apiItem, playStateDTO apiItem (userPlayState (batch (iv_PID it)) (uc_CatalogPID uc)))))"

text \<open>What the loop of \<open>SyncServerDelta\<close> remembers: the markers and items it has answered, and
  whether the caller sees podcasts once that was asked.\<close>

record page_seen =
  pg_Marker :: "string list"
  pg_State :: "string list"
  pg_Prefs :: bool
  pg_Sub :: "string list"
  pg_Book :: "string list"
  pg_Marks :: "string list"
  pg_Playlist :: "string list"
  pg_podcasts :: "bool option"

definition nothing_seen :: page_seen where
  "nothing_seen = \<lparr>pg_Marker = [], pg_State = [], pg_Prefs = False, pg_Sub = [], pg_Book = [],
     pg_Marks = [], pg_Playlist = [], pg_podcasts = None\<rparr>"

definition marker_key :: "event \<Rightarrow> string" where
  "marker_key e = ev_Kind e @ [CHR 0x00] @ ev_ItemPID e"

definition subscription_event :: "'v sync_world \<Rightarrow> bool \<Rightarrow> string \<Rightarrow> 'v server_sync_event" where
  "subscription_event w podcasts pid =
    (let ev = bare_event eventSubscription (apiPID PrefixPodcast pid) in
     if \<not> podcasts then ev
     else case sw_Podcast w pid of
       Inl e \<Rightarrow> ev
     | Inr pod \<Rightarrow> (case sw_subscriptionFor w pod of
                     Inl e \<Rightarrow> ev | Inr sub \<Rightarrow> ev\<lparr>se_Subscription := Some sub\<rparr>))"

definition playlist_event :: "'v sync_world \<Rightarrow> string \<Rightarrow> 'v server_sync_event" where
  "playlist_event w pid =
    (let ev = bare_event eventPlaylist (apiPID PrefixPlaylist pid) in
     case sw_PlaylistByPID w (se_PID ev) of Inl e \<Rightarrow> ev | Inr pl \<Rightarrow> ev\<lparr>se_Playlist := Some pl\<rparr>)"

text \<open>One turn of the loop.\<close>

definition answerEvent ::
    "'v sync_world \<Rightarrow> user_ctx \<Rightarrow> (string \<Rightarrow> catalog_state list) \<Rightarrow> event \<Rightarrow> page_seen
       \<Rightarrow> svc_error + 'v server_sync_event list \<times> page_seen" where
  "answerEvent w uc batch e sn =
    (let kd = ev_Kind e; pid = ev_ItemPID e in
     if kd \<in> set markerKinds then
       (if marker_key e \<in> set (pg_Marker sn) then Inr ([], sn)
        else Inr ([bare_event kd pid], sn\<lparr>pg_Marker := marker_key e # pg_Marker sn\<rparr>))
     else if kd = eventPlayState then
       (if pid \<in> set (pg_State sn) then Inr ([], sn)
        else let sn = sn\<lparr>pg_State := pid # pg_State sn\<rparr> in
             case hydratePlayState w uc pid batch of
               Inl x \<Rightarrow> Inl x
             | Inr None \<Rightarrow> Inr ([], sn)
             | Inr (Some (apiItem, st)) \<Rightarrow>
                 if apiItem = '''' then Inr ([], sn)
                 else Inr ([(bare_event eventPlayState apiItem)\<lparr>se_PlayState := Some st\<rparr>], sn))
     else if kd = eventPrefs then
       (if pg_Prefs sn then Inr ([], sn)
        else let sn = sn\<lparr>pg_Prefs := True\<rparr> in
             case sw_Prefs w of
               Inl x \<Rightarrow> Inl x
             | Inr p \<Rightarrow> Inr ([(bare_event eventPrefs '''')\<lparr>se_Prefs := Some p\<rparr>], sn))
     else if kd = eventSubscription then
       (if pid \<in> set (pg_Sub sn) then Inr ([], sn)
        else let podcasts = (case pg_podcasts sn of Some b \<Rightarrow> b
                             | None \<Rightarrow> fst (podcastsVisible (md_catalog (sw_media w)) uc))
             in Inr ([subscription_event w podcasts pid],
                     sn\<lparr>pg_Sub := pid # pg_Sub sn, pg_podcasts := Some podcasts\<rparr>))
     else if kd = eventBookSettings then
       (if pid \<in> set (pg_Book sn) then Inr ([], sn)
        else case sw_BookSettings w pid of
               Inl x \<Rightarrow> Inl internal
             | Inr bs \<Rightarrow> Inr ([(bare_event eventBookSettings (apiPID PrefixBook pid))\<lparr>se_BookSettings := Some bs\<rparr>],
                              sn\<lparr>pg_Book := pid # pg_Book sn\<rparr>))
     else if kd = eventBookmarks then
       (if pid \<in> set (pg_Marks sn) then Inr ([], sn)
        else case sw_Bookmarks w pid of
               Inl x \<Rightarrow> Inl internal
             | Inr rows \<Rightarrow> Inr ([(bare_event eventBookmarks (apiPID PrefixBook pid))\<lparr>se_Bookmarks := Some rows\<rparr>],
                                sn\<lparr>pg_Marks := pid # pg_Marks sn\<rparr>))
     else if kd = eventPlaylist then
       (if pid \<in> set (pg_Playlist sn) then Inr ([], sn)
        else Inr ([playlist_event w pid], sn\<lparr>pg_Playlist := pid # pg_Playlist sn\<rparr>))
     else Inr ([], sn))"

fun answerEvents ::
    "(event \<Rightarrow> 'v sync_world) \<Rightarrow> user_ctx \<Rightarrow> (string \<Rightarrow> catalog_state list) \<Rightarrow> page_seen \<Rightarrow> event list
       \<Rightarrow> svc_error + 'v server_sync_event list" where
  "answerEvents ws uc batch sn [] = Inr []"
| "answerEvents ws uc batch sn (e # es) =
    (case answerEvent (ws e) uc batch e sn of
       Inl x \<Rightarrow> Inl x
     | Inr (out, sn') \<Rightarrow>
        (case answerEvents ws uc batch sn' es of Inl x \<Rightarrow> Inl x | Inr rest \<Rightarrow> Inr (out @ rest)))"

text \<open>The items of the play-state events, each once, in their order.\<close>

fun statePIDs :: "string list \<Rightarrow> event list \<Rightarrow> string list" where
  "statePIDs pre [] = []"
| "statePIDs pre (e # es) =
    (if ev_Kind e = eventPlayState \<and> ev_ItemPID e \<notin> set pre
     then ev_ItemPID e # statePIDs (ev_ItemPID e # pre) es else statePIDs pre es)"

definition stateBatch ::
    "'v sync_world \<Rightarrow> event list \<Rightarrow> svc_error + (string \<Rightarrow> catalog_state list)" where
  "stateBatch w events =
    (let pids = statePIDs [] events in
     if pids = [] then Inr (\<lambda>_. [])
     else case sw_PlayStatesForItems w pids of Inl e \<Rightarrow> Inl (classify e) | Inr batch \<Rightarrow> Inr batch)"

section \<open>A page\<close>

record 'v server_delta =
  sd_Events :: "'v server_sync_event list"
  sd_NextSince :: string
  sd_More :: bool

definition ErrSyncReset :: svc_error where
  "ErrSyncReset = SvcError KindGone ''sync cursor is no longer serviceable; re-mirror from a fresh snapshot''"

datatype sync_read = RFloor | RTail | RWrittenAt | REvents

definition MintServerCursor :: "(sync_read \<Rightarrow> bool) \<Rightarrow> string \<Rightarrow> event_table \<Rightarrow> svc_error + string" where
  "MintServerCursor broken gen t =
    (if broken RTail then Inl internal
     else let (tail, written) = LatestEvent t in Inr (encodeServerCursor gen tail written))"

text \<open>The rows of a page and the cursor after it, of what the reads of the stream answer: its floor,
  its tail, when the event the cursor stands on was written, and the caller's events past it.\<close>

definition pageOf ::
    "(sync_read \<Rightarrow> bool) \<Rightarrow> string \<Rightarrow> server_cursor \<Rightarrow> int \<Rightarrow> int \<times> int \<Rightarrow> int option \<Rightarrow> event list \<times> bool
       \<Rightarrow> svc_error + event list \<times> string \<times> bool" where
  "pageOf broken gen c lo latest written page =
    (if broken RFloor then Inl internal
     else if broken RTail then Inl internal
     else let (tail, tailAt) = latest in
     if \<not> vc_stamped c \<or> vc_gen c \<noteq> gen \<or> vc_id c < lo \<or> tail < vc_id c then Inl ErrSyncReset
     else if vc_at c \<noteq> 0 \<and> lo < vc_id c \<and> broken RWrittenAt then Inl internal
     else if vc_at c \<noteq> 0 \<and> lo < vc_id c \<and> written \<noteq> Some (vc_at c) then Inl ErrSyncReset
     else if broken REvents then Inl internal
     else let (events, left) = page;
              (nxt, nxtAt) = (if events = [] then (tail, tailAt)
                              else (ev_ID (last events), ev_WrittenAtNS (last events)))
          in Inr (events, encodeServerCursor gen nxt nxtAt, left))"

text \<open>The reads run one after the other: \<open>t1\<close> to \<open>t4\<close> are the tables they see.\<close>

definition deltaPage ::
    "(sync_read \<Rightarrow> bool) \<Rightarrow> string \<Rightarrow> event_table \<Rightarrow> event_table \<Rightarrow> event_table \<Rightarrow> event_table
       \<Rightarrow> string \<Rightarrow> string \<Rightarrow> nat \<Rightarrow> svc_error + event list \<times> string \<times> bool" where
  "deltaPage broken gen t1 t2 t3 t4 userID since limit =
    (case decodeServerCursor since of
       None \<Rightarrow> Inl (errInvalid ''malformed sync cursor'')
     | Some c \<Rightarrow> pageOf broken gen c (EventFloor t1) (LatestEvent t2) (EventWrittenAt (vc_id c) t3)
                   (EventsSince userID (vc_id c) limit t4))"

definition SyncServerDelta ::
    "(sync_read \<Rightarrow> bool) \<Rightarrow> string \<Rightarrow> event_table \<Rightarrow> event_table \<Rightarrow> event_table \<Rightarrow> event_table
       \<Rightarrow> 'v sync_world \<Rightarrow> (event \<Rightarrow> 'v sync_world) \<Rightarrow> user_ctx \<Rightarrow> string \<Rightarrow> nat
       \<Rightarrow> svc_error + 'v server_delta" where
  "SyncServerDelta broken gen t1 t2 t3 t4 w ws uc since limit =
    (case deltaPage broken gen t1 t2 t3 t4 (uc_ID uc) since limit of
       Inl x \<Rightarrow> Inl x
     | Inr (events, nextSince, left) \<Rightarrow>
        (case stateBatch w events of
           Inl x \<Rightarrow> Inl x
         | Inr batch \<Rightarrow>
            (case answerEvents ws uc batch nothing_seen events of
               Inl x \<Rightarrow> Inl x
             | Inr out \<Rightarrow> Inr \<lparr>sd_Events = out, sd_NextSince = nextSince, sd_More = left\<rparr>)))"

text \<open>\<open>emitUserEvent\<close> on the table: a row that cannot be written is lost, the change it tells of stands.\<close>

definition emitEvent ::
    "(store_call \<Rightarrow> bool) \<Rightarrow> int \<Rightarrow> string \<Rightarrow> string \<Rightarrow> string \<Rightarrow> event_table \<Rightarrow> event_table" where
  "emitEvent broken now userID kd itemPID t =
    (if broken CAppendEvent then t
     else case AppendEvent now userID kd itemPID t of None \<Rightarrow> t | Some (i, t') \<Rightarrow> t')"

definition PruneServerEvents :: "bool \<Rightarrow> nat \<Rightarrow> event_table \<Rightarrow> svc_error + nat \<times> event_table" where
  "PruneServerEvents fails keep t = (if fails then Inl internal else Inr (PruneEventLog keep t))"

section \<open>After a restore\<close>

definition syncKeyServerGen :: string where "syncKeyServerGen = ''server_gen''"
definition syncKeyCatalogMints :: string where "syncKeyCatalogMints = ''catalog_mints''"

text \<open>\<open>PeekCatalogMints\<close> of what it reads in the file, \<^const>\<open>None\<close> when that fails.\<close>

definition PeekCatalogMints :: "string option \<Rightarrow> int" where
  "PeekCatalogMints raw = (case raw of None \<Rightarrow> 0 | Some v \<Rightarrow> ParseInt_or v)"

text \<open>\<open>ResetSyncAfterRestore\<close>: which of its statements fail, the mint count of the database replaced, and
  whether the call fails.\<close>

datatype reset_call = RGet | RClear | RSet

definition ResetSyncAfterRestore :: "(reset_call \<Rightarrow> bool) \<Rightarrow> int \<Rightarrow> store \<Rightarrow> bool \<times> store" where
  "ResetSyncAfterRestore broken liveMints st =
    (if broken RGet then (True, st)
     else let restored = ParseInt_or (SyncStateGet syncKeyCatalogMints st) in
     if broken RClear then (True, st)
     else let st' = ClearSyncState st; m = max liveMints restored in
     if \<not> 0 < m then (False, st')
     else if broken RSet then (True, st')
     else (False, SyncStateSet syncKeyCatalogMints (FormatInt m) st'))"

text \<open>The server's part of \<open>initSync\<close>: the stream's generation, a new identifier where none is
  stored.\<close>

definition initServerGen :: "string \<Rightarrow> store \<Rightarrow> string \<times> store" where
  "initServerGen fresh st =
    (let sg = SyncStateGet syncKeyServerGen st in
     if sg = '''' then (fresh, SyncStateSet syncKeyServerGen fresh st) else (sg, st))"

lemma FormatInt_read: "int64 n \<Longrightarrow> ParseInt_or (FormatInt n) = n"
  by (rule Atoi_ParseInt_or [OF Atoi_int64])

text \<open>After a restore the stream has a new generation, which a later start keeps, and the count of
  generations is at least what either database had.\<close>

lemma restore_starts_over:
  assumes "ResetSyncAfterRestore broken live st = (False, st')" "int64 live" "fresh \<noteq> ''''"
    "int64 (ParseInt_or (SyncStateGet syncKeyCatalogMints st))"
  shows "fst (initServerGen fresh st') = fresh \<and> initServerGen fresh' (snd (initServerGen fresh st')) = (fresh, snd (initServerGen fresh st'))
    \<and> live \<le> ParseInt_or (SyncStateGet syncKeyCatalogMints (snd (initServerGen fresh st'))) 
    \<and> ParseInt_or (SyncStateGet syncKeyCatalogMints st) \<le> ParseInt_or (SyncStateGet syncKeyCatalogMints (snd (initServerGen fresh st')))"
proof -
  have k: "syncKeyServerGen \<noteq> syncKeyCatalogMints" by (simp add: syncKeyServerGen_def syncKeyCatalogMints_def)
  have z: "ParseInt_or '''' = 0" by (simp add: ParseInt_or_def isDigits_def Let_def)
  have m: "int64 (max live (ParseInt_or (SyncStateGet syncKeyCatalogMints st)))"
    using assms(2,4) by (simp add: max_def)
  show ?thesis
    using assms(1,3) k m
    by (auto simp: ResetSyncAfterRestore_def Let_def initServerGen_def SyncStateGet_def SyncStateSet_def
        ClearSyncState_def z FormatInt_read split: if_splits)
qed

end
