(* ===== verification/Stream_Runs.thy ===== *)
theory Stream_Runs
  imports Server_Sync
begin

text \<open>
  The server's change stream over time: what a client that follows its cursors is told.

  \<open>event_source\<close> is the interface between the stream's table and the page \<open>SyncServerDelta\<close> reads of
  it: what each read answers of the whole stream behind the table.  \<open>stream_step\<close> lets the stream
  grow, be pruned, copied and put back to an earlier copy, and hands out cursors.
\<close>

section \<open>The reads a page rests on\<close>

locale event_source =
  fixes ok :: "'t \<Rightarrow> bool"
    and whole :: "'t \<Rightarrow> event list"
    and cut_at :: "'t \<Rightarrow> nat"
    and bottom :: "'t \<Rightarrow> int"
    and latest :: "'t \<Rightarrow> int \<times> int"
    and written :: "int \<Rightarrow> 't \<Rightarrow> int option"
    and since :: "string \<Rightarrow> int \<Rightarrow> nat \<Rightarrow> 't \<Rightarrow> event list \<times> bool"
  assumes numbered_whole: "ok t \<Longrightarrow> numbered (whole t)"
    and bottom_law: "ok t \<Longrightarrow> bottom t = int (cut_at t)"
    and latest_law: "ok t \<Longrightarrow> latest t = (int (length (whole t)), if whole t = [] then 0 else ev_WrittenAtNS (last (whole t)))"
    and written_law: "ok t \<Longrightarrow> cut_at t < n \<Longrightarrow> n \<le> length (whole t)
      \<Longrightarrow> written (int n) t = Some (ev_WrittenAtNS (whole t ! (n - 1)))"
    and since_law: "ok t \<Longrightarrow> cut_at t \<le> n \<Longrightarrow> since uid (int n) l t =
      (let out = filter (\<lambda>e. ev_UserID e = uid) (drop n (whole t)) in (take l out, l < length out))"
begin

text \<open>The page a cursor that covers the first \<open>n\<close> events is answered, while the stream only grows
  between the reads.\<close>

lemma page_answered:
  assumes ok: "ok t1" "ok t2" "ok t3" "ok t4"
    and grows: "prefix (whole t2) (whole t3)" "prefix (whole t3) (whole t4)"
    and cut: "cut_at t3 = cut_at t1" "cut_at t4 = cut_at t1"
    and c: "vc_id c = int n"
    and answer: "pageOf (\<lambda>_. False) gen c (bottom t1) (latest t2) (written (vc_id c) t3)
        (since uid (vc_id c) l t4) = Inr (evs, nxt, left)"
  shows "cut_at t1 \<le> n" "n \<le> length (whole t2)" "vc_gen c = gen"
    "vc_at c \<noteq> 0 \<Longrightarrow> cut_at t1 < n \<Longrightarrow> ev_WrittenAtNS (whole t4 ! (n - 1)) = vc_at c"
    "(evs, left) = (let out = filter (\<lambda>e. ev_UserID e = uid) (drop n (whole t4)) in (take l out, l < length out))"
    "\<exists>m \<ge> n. m \<le> length (whole t4) \<and> (evs = [] \<longrightarrow> m = length (whole t2))
       \<and> (evs \<noteq> [] \<longrightarrow> 0 < m \<and> whole t4 ! (m - 1) = last evs)
       \<and> nxt = encodeServerCursor gen (int m) (if m = 0 then 0 else ev_WrittenAtNS (whole t4 ! (m - 1)))"
proof -
  have lens: "length (whole t2) \<le> length (whole t3)" "length (whole t3) \<le> length (whole t4)"
    using grows by (auto dest: prefix_length_le)
  have nth24: "whole t2 ! i = whole t4 ! i" if "i < length (whole t2)" for i
    using grows that by (auto simp: prefix_def nth_append)
  have nth34: "whole t3 ! i = whole t4 ! i" if "i < length (whole t3)" for i
    using grows that by (auto simp: prefix_def nth_append)
  show lo: "cut_at t1 \<le> n" and hi: "n \<le> length (whole t2)" and "vc_gen c = gen"
    using answer c by (auto simp: pageOf_def bottom_law ok latest_law Let_def split: if_splits)
  show "ev_WrittenAtNS (whole t4 ! (n - 1)) = vc_at c" if "vc_at c \<noteq> 0" "cut_at t1 < n"
  proof -
    have "written (int n) t3 = Some (vc_at c)"
      using answer c that by (auto simp: pageOf_def bottom_law ok Let_def split: if_splits prod.splits)
    then show ?thesis using written_law [of t3 n] ok cut that hi lens nth34 [of "n - 1"] by simp
  qed
  have page: "since uid (int n) l t4 = (evs, left)"
    using answer c by (auto simp: pageOf_def Let_def split: if_splits prod.splits)
  show shape: "(evs, left) = (let out = filter (\<lambda>e. ev_UserID e = uid) (drop n (whole t4)) in (take l out, l < length out))"
    using page since_law [of t4 n uid l] ok cut lo by simp
  show "\<exists>m \<ge> n. m \<le> length (whole t4) \<and> (evs = [] \<longrightarrow> m = length (whole t2))
       \<and> (evs \<noteq> [] \<longrightarrow> 0 < m \<and> whole t4 ! (m - 1) = last evs)
       \<and> nxt = encodeServerCursor gen (int m) (if m = 0 then 0 else ev_WrittenAtNS (whole t4 ! (m - 1)))"
  proof (cases "evs = []")
    case True
    have "nxt = encodeServerCursor gen (int (length (whole t2)))
        (if whole t2 = [] then 0 else ev_WrittenAtNS (last (whole t2)))"
      using answer True page c by (auto simp: pageOf_def latest_law ok Let_def split: if_splits)
    then show ?thesis using True hi lens nth24
      by (intro exI [of _ "length (whole t2)"]) (auto simp: last_conv_nth)
  next
    case False
    have nxt: "nxt = encodeServerCursor gen (ev_ID (last evs)) (ev_WrittenAtNS (last evs))"
      using answer False page c by (auto simp: pageOf_def latest_law ok Let_def split: if_splits)
    have "last evs \<in> set evs" using False by simp
    then have "last evs \<in> set (drop n (whole t4))"
      using shape by (auto simp: Let_def dest: in_set_takeD)
    then obtain i where i: "i < length (drop n (whole t4))" "drop n (whole t4) ! i = last evs"
      by (auto simp: in_set_conv_nth)
    then have "ev_ID (last evs) = int (Suc (n + i))"
      using numbered_drop [OF numbered_whole [OF ok(4)], of i n] by simp
    then show ?thesis using False nxt i by (intro exI [of _ "Suc (n + i)"]) auto
  qed
qed

end

text \<open>The table of \<open>Event_Log\<close>, beside the whole stream behind it.\<close>

interpretation stream_table:
  event_source "\<lambda>(h, t). keeps h t" fst "\<lambda>(h, t). kept_from h t" "\<lambda>(h, t). EventFloor t"
    "\<lambda>(h, t). LatestEvent t" "\<lambda>i (h, t). EventWrittenAt i t" "\<lambda>uid i l (h, t). EventsSince uid i l t"
  by unfold_locales
    (auto simp: EventFloor_keeps LatestEvent_keeps EventWrittenAt_keeps EventsSince_keeps elim: keepsE)

section \<open>The stream over time\<close>

text \<open>Beside the table, its generation and the clock: the copies made of both, and, for saying what is
  promised, the whole stream (\<open>sr_hist\<close>) and the cursors handed out with the events each covers.\<close>

record stream =
  sr_log :: event_table
  sr_gen :: string
  sr_now :: int
  sr_hist :: "event list"
  sr_copies :: "(event_table \<times> string \<times> event list) set"
  sr_issued :: "(string \<times> event list) set"

definition stream_start :: "stream \<Rightarrow> bool" where
  "stream_start s \<longleftrightarrow> sr_log s = no_events \<and> bar \<notin> set (sr_gen s) \<and> sr_now s = 0 \<and> sr_hist s = []
     \<and> sr_copies s = {} \<and> sr_issued s = {}"

text \<open>An account's state changes: the event's time is later than any before it.\<close>

inductive grow_step :: "stream \<Rightarrow> stream \<Rightarrow> bool" where
  grow: "\<lbrakk> sr_now s < now; now < 2 ^ 63; AppendEvent now uid kd pid (sr_log s) = Some (i, log') \<rbrakk>
    \<Longrightarrow> grow_step s (s\<lparr>sr_log := log', sr_now := now,
          sr_hist := sr_hist s @ [\<lparr>ev_ID = i, ev_UserID = uid, ev_Kind = kd, ev_ItemPID = pid, ev_WrittenAtNS = now\<rparr>]\<rparr>)"

abbreviation grows :: "stream \<Rightarrow> stream \<Rightarrow> bool" where "grows \<equiv> grow_step\<^sup>*\<^sup>*"

text \<open>\<open>served\<close> is one request: its four reads see the stream grow in between.  A copy put back brings
  its generation with it, unless the restore starts a new one (\<open>ClearSyncState\<close>).\<close>

inductive stream_step :: "stream \<Rightarrow> stream \<Rightarrow> bool" where
  grown: "grow_step s s' \<Longrightarrow> stream_step s s'"
| pruned: "stream_step s (s\<lparr>sr_log := snd (PruneEventLog keep (sr_log s))\<rparr>)"
| copied: "stream_step s (s\<lparr>sr_copies := insert (sr_log s, sr_gen s, sr_hist s) (sr_copies s)\<rparr>)"
| put_back: "(log', gen', h') \<in> sr_copies s
    \<Longrightarrow> stream_step s (s\<lparr>sr_log := log', sr_gen := gen', sr_hist := h'\<rparr>)"
| restored: "(log', gen, h') \<in> sr_copies s \<Longrightarrow> bar \<notin> set gen'
    \<Longrightarrow> stream_step s (s\<lparr>sr_log := log', sr_gen := gen', sr_hist := h'\<rparr>)"
| minted: "MintServerCursor broken (sr_gen s) (sr_log s) = Inr c
    \<Longrightarrow> stream_step s (s\<lparr>sr_issued := insert (c, sr_hist s) (sr_issued s)\<rparr>)"
| served: "\<lbrakk> grows s s2; grows s2 s3; grows s3 s4;
     deltaPage (\<lambda>_. False) (sr_gen s) (sr_log s) (sr_log s2) (sr_log s3) (sr_log s4) uid since limit
       = Inr (events, nxt, left); decodeServerCursor nxt = Some c \<rbrakk>
    \<Longrightarrow> stream_step s (s4\<lparr>sr_issued := insert (nxt, take (nat (vc_id c)) (sr_hist s4)) (sr_issued s4)\<rparr>)"

inductive_cases grow_stepE: "grow_step s t"
inductive_cases stream_stepE: "stream_step s t"

section \<open>What times tell\<close>

text \<open>\<open>born b h\<close>: \<open>b\<close> gives, for the time of each event of \<open>h\<close>, the stream up to it.  Two streams with
  one event of the same time agree up to it, whatever copies they grew from.\<close>

definition born :: "(int \<rightharpoonup> event list) \<Rightarrow> event list \<Rightarrow> bool" where
  "born b h \<longleftrightarrow> (\<forall>n < length h. b (ev_WrittenAtNS (h ! n)) = Some (take (Suc n) h))"

lemma born_Nil [simp]: "born b []" by (simp add: born_def)

lemma born_take: "born b h \<Longrightarrow> born b (take n h)"
  by (auto simp: born_def min_def)

lemma born_app:
  assumes "born b h" "b (ev_WrittenAtNS e) = None"
  shows "born (b(ev_WrittenAtNS e \<mapsto> h @ [e])) (h @ [e])"
proof -
  have "ev_WrittenAtNS (h ! n) \<noteq> ev_WrittenAtNS e" if "n < length h" for n
    using assms that by (force simp: born_def)
  with assms(1) show ?thesis by (auto simp: born_def nth_append less_Suc_eq)
qed

lemma born_upd:
  assumes "born b h" "b t = None"
  shows "born (b(t \<mapsto> x)) h"
proof -
  have "ev_WrittenAtNS (h ! n) \<noteq> t" if "n < length h" for n using assms that by (force simp: born_def)
  with assms(1) show ?thesis by (auto simp: born_def)
qed

lemma born_agree:
  assumes "born b h" "born b p" "p \<noteq> []" "length p \<le> length h"
    "ev_WrittenAtNS (h ! (length p - 1)) = ev_WrittenAtNS (last p)"
  shows "take (length p) h = p"
proof -
  have "b (ev_WrittenAtNS (h ! (length p - 1))) = Some (take (Suc (length p - 1)) h)"
    using assms by (intro assms(1) [unfolded born_def, rule_format]) (cases p; simp)
  moreover have "b (ev_WrittenAtNS (p ! (length p - 1))) = Some (take (Suc (length p - 1)) p)"
    using assms(2,3) by (simp add: born_def)
  ultimately show ?thesis using assms(3,5) by (simp add: last_conv_nth)
qed

section \<open>The invariant\<close>

definition stands_on :: "string \<Rightarrow> event list \<Rightarrow> string" where
  "stands_on gen p = encodeServerCursor gen (int (length p)) (if p = [] then 0 else ev_WrittenAtNS (last p))"

text \<open>Every stream the system has known: its own, its copies' and what each cursor covers.\<close>

definition known :: "stream \<Rightarrow> event list set" where
  "known s = {h. h = sr_hist s \<or> (\<exists>l g. (l, g, h) \<in> sr_copies s) \<or> (\<exists>c. (c, h) \<in> sr_issued s)}"

definition stream_ok :: "stream \<Rightarrow> bool" where
  "stream_ok s \<longleftrightarrow>
     (\<exists>b. (\<forall>t \<in> dom b. 0 < t \<and> t \<le> sr_now s) \<and> (\<forall>h \<in> known s. born b h))
   \<and> (\<forall>h \<in> known s. length h < 2 ^ 63) \<and> 0 \<le> sr_now s \<and> sr_now s < 2 ^ 63
   \<and> keeps (sr_hist s) (sr_log s) \<and> bar \<notin> set (sr_gen s)
   \<and> (\<forall>(l, g, h) \<in> sr_copies s. keeps h l \<and> bar \<notin> set g)
   \<and> (\<forall>(c, p) \<in> sr_issued s. \<exists>g. bar \<notin> set g \<and> c = stands_on g p)"

lemma stream_ok_start: "stream_start s \<Longrightarrow> stream_ok s"
  by (auto simp: stream_start_def stream_ok_def known_def keeps_empty intro!: exI [of _ Map.empty])

lemma grow_step_ok:
  assumes "grow_step s s'" "stream_ok s"
  shows "stream_ok s'"
  using assms(1)
proof cases
  case (grow now uid kd pid i log')
  define e where "e = \<lparr>ev_ID = i, ev_UserID = uid, ev_Kind = kd, ev_ItemPID = pid, ev_WrittenAtNS = now\<rparr>"
  from assms(2) obtain b where b: "\<forall>t \<in> dom b. 0 < t \<and> t \<le> sr_now s" "\<forall>h \<in> known s. born b h"
    unfolding stream_ok_def by blast
  have new: "b (ev_WrittenAtNS e) = None"
  proof (rule ccontr)
    assume "b (ev_WrittenAtNS e) \<noteq> None"
    then have "now \<in> dom b" by (auto simp: e_def)
    with b(1) have "now \<le> sr_now s" by blast
    with grow(2) show False by simp
  qed
  have t: "ev_WrittenAtNS e = now" by (simp add: e_def)
  have k: "known s' \<subseteq> insert (sr_hist s @ [e]) (known s)"
    using grow(1) by (auto simp: known_def e_def)
  have keep: "keeps (sr_hist s @ [e]) log'" "i = int (length (sr_hist s)) + 1"
    using AppendEvent_keeps [OF _ grow(4)] assms(2) by (auto simp: stream_ok_def e_def)
  have len: "length (sr_hist s @ [e]) < 2 ^ 63"
    by (rule AppendEvent_room [OF _ grow(4)]) (use assms(2) in \<open>simp add: stream_ok_def\<close>)
  have "\<exists>b. (\<forall>t \<in> dom b. 0 < t \<and> t \<le> sr_now s') \<and> (\<forall>h \<in> known s'. born b h)"
  proof (rule exI [of _ "b(now \<mapsto> sr_hist s @ [e])"], rule conjI; rule ballI)
    let ?b = "b(now \<mapsto> sr_hist s @ [e])"
    show "0 < t \<and> t \<le> sr_now s'" if "t \<in> dom ?b" for t
    proof -
      have "0 \<le> sr_now s" using assms(2) by (simp add: stream_ok_def)
      moreover have "t = now \<or> 0 < t \<and> t \<le> sr_now s" using that b(1) by (cases "t = now") auto
      ultimately show ?thesis using grow(1,2) by auto
    qed
    show "born ?b h" if "h \<in> known s'" for h
    proof (cases "h \<in> known s")
      case True
      then show ?thesis using b(2) new born_upd [of b h now] by (auto simp: t)
    next
      case False
      then have "h = sr_hist s @ [e]" using that k by blast
      moreover have "born b (sr_hist s)" using b(2) by (simp add: known_def)
      ultimately show ?thesis using new born_app [of b "sr_hist s" e] by (simp add: t)
    qed
  qed
  moreover have "\<forall>h \<in> known s'. length h < 2 ^ 63" using k len assms(2) by (auto simp: stream_ok_def)
  moreover have "0 \<le> sr_now s'" "sr_now s' < 2 ^ 63" "keeps (sr_hist s') (sr_log s')" "bar \<notin> set (sr_gen s')"
    "sr_copies s' = sr_copies s" "sr_issued s' = sr_issued s"
    using assms(2) grow keep by (auto simp: stream_ok_def e_def)
  moreover have "\<forall>(l, g, h) \<in> sr_copies s. keeps h l \<and> bar \<notin> set g"
    "\<forall>(c, p) \<in> sr_issued s. \<exists>g. bar \<notin> set g \<and> c = stands_on g p"
    using assms(2) by (simp_all add: stream_ok_def)
  ultimately show ?thesis unfolding stream_ok_def by (simp only: simp_thms)
qed

lemma grows_ok: "grows s s' \<Longrightarrow> stream_ok s \<Longrightarrow> stream_ok s'"
  by (induction rule: rtranclp_induct) (auto intro: grow_step_ok)

lemma grow_step_same:
  "grow_step s s' \<Longrightarrow> stream_ok s \<Longrightarrow> prefix (sr_hist s) (sr_hist s') \<and> sr_gen s' = sr_gen s \<and> sr_issued s' = sr_issued s
     \<and> sr_copies s' = sr_copies s \<and> kept_from (sr_hist s') (sr_log s') = kept_from (sr_hist s) (sr_log s)"
  by (elim grow_stepE) (auto dest: AppendEvent_keeps(3) simp: stream_ok_def)

lemma grows_same:
  "grows s s' \<Longrightarrow> stream_ok s \<Longrightarrow> prefix (sr_hist s) (sr_hist s') \<and> sr_gen s' = sr_gen s \<and> sr_issued s' = sr_issued s
     \<and> sr_copies s' = sr_copies s \<and> kept_from (sr_hist s') (sr_log s') = kept_from (sr_hist s) (sr_log s)"
proof (induction rule: rtranclp_induct)
  case (step y z)
  then show ?case using grow_step_same [OF step.hyps(2) grows_ok [OF step.hyps(1)]]
    by (auto intro: prefix_order.trans)
qed simp

text \<open>What one answered request has read, of a stream that only grew meanwhile.\<close>

lemma served_page:
  assumes ok: "stream_ok s" and g: "grows s s2" "grows s2 s3" "grows s3 s4"
    and c: "decodeServerCursor since = Some c" "vc_id c = int n"
    and answer: "deltaPage (\<lambda>_. False) (sr_gen s) (sr_log s) (sr_log s2) (sr_log s3) (sr_log s4) uid since limit
        = Inr (evs, nxt, left)"
  shows "kept_from (sr_hist s) (sr_log s) \<le> n" "n \<le> length (sr_hist s2)" "vc_gen c = sr_gen s"
    "vc_at c \<noteq> 0 \<Longrightarrow> kept_from (sr_hist s) (sr_log s) < n \<Longrightarrow> ev_WrittenAtNS (sr_hist s4 ! (n - 1)) = vc_at c"
    "(evs, left) = (let out = filter (\<lambda>e. ev_UserID e = uid) (drop n (sr_hist s4)) in (take limit out, limit < length out))"
    "\<exists>m \<ge> n. m \<le> length (sr_hist s4) \<and> (evs = [] \<longrightarrow> m = length (sr_hist s2))
       \<and> (evs \<noteq> [] \<longrightarrow> 0 < m \<and> sr_hist s4 ! (m - 1) = last evs) \<and> nxt = stands_on (sr_gen s) (take m (sr_hist s4))"
proof -
  have ok2: "stream_ok s2" and ok3: "stream_ok s3" and ok4: "stream_ok s4"
    using grows_ok ok g by blast+
  have oks: "(\<lambda>(h, t). keeps h t) (sr_hist s, sr_log s)" "(\<lambda>(h, t). keeps h t) (sr_hist s2, sr_log s2)"
    "(\<lambda>(h, t). keeps h t) (sr_hist s3, sr_log s3)" "(\<lambda>(h, t). keeps h t) (sr_hist s4, sr_log s4)"
    using ok ok2 ok3 ok4 by (simp_all add: stream_ok_def)
  have pre: "prefix (fst (sr_hist s2, sr_log s2)) (fst (sr_hist s3, sr_log s3))"
    "prefix (fst (sr_hist s3, sr_log s3)) (fst (sr_hist s4, sr_log s4))"
    using grows_same [OF g(2) ok2] grows_same [OF g(3) ok3] by simp_all
  have cut: "(\<lambda>(h, t). kept_from h t) (sr_hist s3, sr_log s3) = (\<lambda>(h, t). kept_from h t) (sr_hist s, sr_log s)"
    "(\<lambda>(h, t). kept_from h t) (sr_hist s4, sr_log s4) = (\<lambda>(h, t). kept_from h t) (sr_hist s, sr_log s)"
    using grows_same [OF g(1) ok] grows_same [OF g(2) ok2] grows_same [OF g(3) ok3] by simp_all
  note page = stream_table.page_answered [OF oks pre cut c(2), of "sr_gen s" uid limit evs nxt left]
  have a: "pageOf (\<lambda>_. False) (sr_gen s) c (EventFloor (sr_log s)) (LatestEvent (sr_log s2))
      (EventWrittenAt (vc_id c) (sr_log s3)) (EventsSince uid (vc_id c) limit (sr_log s4)) = Inr (evs, nxt, left)"
    using answer c(1) by (simp add: deltaPage_def)
  show "kept_from (sr_hist s) (sr_log s) \<le> n" "n \<le> length (sr_hist s2)" "vc_gen c = sr_gen s"
    "(evs, left) = (let out = filter (\<lambda>e. ev_UserID e = uid) (drop n (sr_hist s4)) in (take limit out, limit < length out))"
    using page a by simp_all
  show "vc_at c \<noteq> 0 \<Longrightarrow> kept_from (sr_hist s) (sr_log s) < n \<Longrightarrow> ev_WrittenAtNS (sr_hist s4 ! (n - 1)) = vc_at c"
    using page(4) a by simp
  have "\<exists>m \<ge> n. m \<le> length (sr_hist s4) \<and> (evs = [] \<longrightarrow> m = length (sr_hist s2))
       \<and> (evs \<noteq> [] \<longrightarrow> 0 < m \<and> sr_hist s4 ! (m - 1) = last evs)
       \<and> nxt = encodeServerCursor (sr_gen s) (int m) (if m = 0 then 0 else ev_WrittenAtNS (sr_hist s4 ! (m - 1)))"
    using page(6) [unfolded fst_conv prod.case] a by blast
  then obtain m where m: "n \<le> m" "m \<le> length (sr_hist s4)" "evs = [] \<longrightarrow> m = length (sr_hist s2)"
    "evs \<noteq> [] \<longrightarrow> 0 < m \<and> sr_hist s4 ! (m - 1) = last evs"
    "nxt = encodeServerCursor (sr_gen s) (int m) (if m = 0 then 0 else ev_WrittenAtNS (sr_hist s4 ! (m - 1)))"
    by blast
  have "last (take m (sr_hist s4)) = sr_hist s4 ! (m - 1)" if "0 < m"
    using m(2) that by (subst last_conv_nth) auto
  then have "nxt = stands_on (sr_gen s) (take m (sr_hist s4))"
    using m(2,5) by (auto simp: stands_on_def)
  with m show "\<exists>m \<ge> n. m \<le> length (sr_hist s4) \<and> (evs = [] \<longrightarrow> m = length (sr_hist s2))
       \<and> (evs \<noteq> [] \<longrightarrow> 0 < m \<and> sr_hist s4 ! (m - 1) = last evs) \<and> nxt = stands_on (sr_gen s) (take m (sr_hist s4))"
    by blast
qed

lemma decode_stands_on:
  assumes "bar \<notin> set gen" "length p < 2 ^ 63" "born b p" "\<forall>t \<in> dom b. 0 < t \<and> t < 2 ^ 63"
  shows "decodeServerCursor (stands_on gen p)
     = Some \<lparr>vc_gen = gen, vc_id = int (length p), vc_at = (if p = [] then 0 else ev_WrittenAtNS (last p)), vc_stamped = True\<rparr>"
    "p \<noteq> [] \<Longrightarrow> 0 < ev_WrittenAtNS (last p)"
proof -
  have t: "0 < ev_WrittenAtNS (last p) \<and> ev_WrittenAtNS (last p) < 2 ^ 63" if "p \<noteq> []"
  proof -
    have "ev_WrittenAtNS (last p) \<in> dom b" using assms(3) that by (auto simp: born_def last_conv_nth)
    with assms(4) show ?thesis by blast
  qed
  then show "p \<noteq> [] \<Longrightarrow> 0 < ev_WrittenAtNS (last p)" by blast
  have "int64 (int (length p))" "int64 (if p = [] then 0 else ev_WrittenAtNS (last p))"
    using assms(2) t by (auto simp: int64_def)
  then show "decodeServerCursor (stands_on gen p)
     = Some \<lparr>vc_gen = gen, vc_id = int (length p), vc_at = (if p = [] then 0 else ev_WrittenAtNS (last p)), vc_stamped = True\<rparr>"
    using assms(1) unfolding stands_on_def by (intro decode_encodeServer) auto
qed

lemma stream_ok_within:
  assumes ok: "stream_ok s"
    and k: "\<And>h'. h' \<in> known s' \<Longrightarrow> \<exists>h \<in> known s. \<exists>n. h' = take n h" and now: "sr_now s' = sr_now s"
    and rest: "keeps (sr_hist s') (sr_log s')" "bar \<notin> set (sr_gen s')"
      "\<forall>(l, g, h) \<in> sr_copies s'. keeps h l \<and> bar \<notin> set g"
      "\<forall>(c, p) \<in> sr_issued s'. \<exists>g. bar \<notin> set g \<and> c = stands_on g p"
  shows "stream_ok s'"
proof -
  obtain b where b: "\<forall>t \<in> dom b. 0 < t \<and> t \<le> sr_now s" "\<forall>h \<in> known s. born b h"
    using ok unfolding stream_ok_def by blast
  have "born b h'" if "h' \<in> known s'" for h'
    using k [of h'] that b(2) by (auto intro: born_take)
  moreover have "length h' < 2 ^ 63" if kn: "h' \<in> known s'" for h'
  proof -
    obtain h n where h: "h \<in> known s" "h' = take n h" using k [OF kn] by blast
    then have "length h < 2 ^ 63" using ok by (auto simp: stream_ok_def)
    then show ?thesis using h(2) by auto
  qed
  ultimately show ?thesis using ok b(1) now rest unfolding stream_ok_def by (intro conjI exI [of _ b]) auto
qed

lemma take_all_of: "h \<in> known s \<Longrightarrow> \<exists>h' \<in> known s. \<exists>n. h = take n h'"
  by (rule bexI, rule exI [of _ "length h"]) auto

lemma stream_step_ok:
  assumes "stream_step s s'" "stream_ok s"
  shows "stream_ok s'"
  using assms(1)
proof cases
  case grown
  then show ?thesis using assms(2) by (rule grow_step_ok)
next
  case (pruned keep)
  have "keeps (sr_hist s) (snd (PruneEventLog keep (sr_log s)))"
    by (rule PruneEventLog_keeps) (use assms(2) in \<open>simp add: stream_ok_def\<close>)
  then show ?thesis using assms(2) pruned
    by (intro stream_ok_within [OF assms(2)] take_all_of) (auto simp: known_def stream_ok_def)
next
  case copied
  then show ?thesis using assms(2)
    by (intro stream_ok_within [OF assms(2)] take_all_of) (auto simp: known_def stream_ok_def)
next
  case (put_back log' gen' h')
  then show ?thesis using assms(2)
    by (intro stream_ok_within [OF assms(2)] take_all_of) (auto simp: known_def stream_ok_def)
next
  case (restored log' gen h' gen')
  then show ?thesis using assms(2)
    by (intro stream_ok_within [OF assms(2)] take_all_of) (auto simp: known_def stream_ok_def)
next
  case (minted broken c)
  have "keeps (sr_hist s) (sr_log s)" "bar \<notin> set (sr_gen s)" using assms(2) by (auto simp: stream_ok_def)
  then have "c = stands_on (sr_gen s) (sr_hist s)"
    using minted(2) by (auto simp: MintServerCursor_def LatestEvent_keeps stands_on_def split: if_splits)
  then show ?thesis using assms(2) minted
    by (intro stream_ok_within [OF assms(2)] take_all_of) (auto simp: known_def stream_ok_def)
next
  case (served s2 s3 s4 uid since limit events nxt left c)
  obtain c0 where c0: "decodeServerCursor since = Some c0"
    using served(5) by (auto simp: deltaPage_def split: option.splits)
  have ok4: "stream_ok s4" using served assms(2) grows_ok by blast
  have gen: "sr_gen s4 = sr_gen s"
    using grows_same [OF served(2) assms(2)] grows_same [OF served(3)] grows_same [OF served(4)]
      grows_ok [OF served(2) assms(2)] grows_ok [OF served(3)] by simp
  have "0 \<le> vc_id c0"
  proof -
    have "EventFloor (sr_log s) = int (kept_from (sr_hist s) (sr_log s))"
      using assms(2) by (intro EventFloor_keeps) (simp add: stream_ok_def)
    then show ?thesis using served(5) c0 by (auto simp: deltaPage_def pageOf_def Let_def split: if_splits prod.splits)
  qed
  then obtain n where n: "vc_id c0 = int n" using zero_le_imp_eq_int by blast
  obtain m where m: "m \<le> length (sr_hist s4)" "nxt = stands_on (sr_gen s4) (take m (sr_hist s4))"
    using served_page(6) [OF assms(2) served(2-4) c0 n served(5)] gen by auto
  obtain b where b: "\<forall>t \<in> dom b. 0 < t \<and> t \<le> sr_now s4" "\<forall>h \<in> known s4. born b h"
    using ok4 unfolding stream_ok_def by blast
  have "decodeServerCursor nxt = Some c" by (rule served(6))
  moreover have "decodeServerCursor nxt = Some \<lparr>vc_gen = sr_gen s4, vc_id = int (length (take m (sr_hist s4))),
      vc_at = (if take m (sr_hist s4) = [] then 0 else ev_WrittenAtNS (last (take m (sr_hist s4)))), vc_stamped = True\<rparr>"
    unfolding m(2)
  proof (rule decode_stands_on)
    show "bar \<notin> set (sr_gen s4)" using ok4 by (simp add: stream_ok_def)
    have "length (sr_hist s4) < 2 ^ 63" using ok4 by (auto simp: stream_ok_def known_def)
    then show "length (take m (sr_hist s4)) < 2 ^ 63" by simp
    show "born b (take m (sr_hist s4))" using b(2) by (intro born_take) (simp add: known_def)
    have "sr_now s4 < 2 ^ 63" using ok4 by (simp add: stream_ok_def)
    then show "\<forall>t \<in> dom b. 0 < t \<and> t < 2 ^ 63" using b(1) by (meson le_less_trans)
  qed
  ultimately have "nat (vc_id c) = m" using m(1) by (auto simp: min_absorb2)
  then have s': "s' = s4\<lparr>sr_issued := insert (nxt, take m (sr_hist s4)) (sr_issued s4)\<rparr>"
    using served(1) by simp
  show ?thesis
  proof (rule stream_ok_within [OF ok4])
    show "\<exists>h \<in> known s4. \<exists>n. h' = take n h" if "h' \<in> known s'" for h'
    proof (cases "h' = take m (sr_hist s4)")
      case True
      then show ?thesis by (intro bexI [of _ "sr_hist s4"]) (auto simp: known_def)
    next
      case False
      then have "h' \<in> known s4" using that s' by (auto simp: known_def)
      then show ?thesis by (rule take_all_of)
    qed
  qed (use ok4 m(2) s' in \<open>auto simp: stream_ok_def\<close>)
qed

interpretation stream_runs: transition_system stream_start stream_step stream_ok
  by unfold_locales (auto intro: stream_ok_start stream_step_ok)

end
