(* ===== verification/Stream_Pages.thy ===== *)
theory Stream_Pages
  imports Stream_Runs
begin

text \<open>
  What one page of the server's change stream says: of the events read, the first of each kind about
  each item, with what the reads of the request answer for it (\<open>firsts\<close>, \<open>freshAnswer\<close>).
\<close>

section \<open>The first event of each kind\<close>

definition hydratedKinds :: "string list" where
  "hydratedKinds = [eventPlayState, eventPrefs, eventSubscription, eventBookSettings, eventBookmarks, eventPlaylist]"

definition known_kind :: "string \<Rightarrow> bool" where
  "known_kind kd \<longleftrightarrow> kd \<in> set markerKinds \<or> kd \<in> set hydratedKinds"

text \<open>There are one account's preferences, so the item of such an event says nothing.\<close>

definition event_key :: "event \<Rightarrow> string \<times> string" where
  "event_key e = (ev_Kind e, if ev_Kind e = eventPrefs then '''' else ev_ItemPID e)"

fun firsts :: "(string \<times> string) list \<Rightarrow> event list \<Rightarrow> event list" where
  "firsts ks [] = []"
| "firsts ks (e # es) =
    (if known_kind (ev_Kind e) \<and> event_key e \<notin> set ks then e # firsts (event_key e # ks) es
     else firsts ks es)"

lemma firsts_skip:
  "\<not> (known_kind (ev_Kind e) \<and> event_key e \<notin> set ks) \<Longrightarrow> firsts ks (e # es) = firsts ks es"
  by (simp only: firsts.simps if_False)

definition freshAnswer ::
    "'v sync_world \<Rightarrow> user_ctx \<Rightarrow> (string \<Rightarrow> catalog_state list) \<Rightarrow> bool \<Rightarrow> event
       \<Rightarrow> svc_error + 'v server_sync_event list" where
  "freshAnswer w uc batch podcasts e =
    (case answerEvent w uc batch e (nothing_seen\<lparr>pg_podcasts := Some podcasts\<rparr>) of
       Inl x \<Rightarrow> Inl x | Inr (out, sn) \<Rightarrow> Inr out)"

text \<open>Whether the caller sees podcasts is read once, at the first subscription of the page.\<close>

definition podcastsOf :: "(event \<Rightarrow> 'v sync_world) \<Rightarrow> user_ctx \<Rightarrow> event list \<Rightarrow> bool" where
  "podcastsOf ws uc es =
    (case find (\<lambda>e. ev_Kind e = eventSubscription) es of
       None \<Rightarrow> False | Some e \<Rightarrow> fst (podcastsVisible (md_catalog (sw_media (ws e))) uc))"

fun all_answers ::
    "(event \<Rightarrow> svc_error + 'a list) \<Rightarrow> event list \<Rightarrow> svc_error + 'a list" where
  "all_answers f [] = Inr []"
| "all_answers f (e # es) =
    (case f e of Inl x \<Rightarrow> Inl x
     | Inr out \<Rightarrow> (case all_answers f es of Inl x \<Rightarrow> Inl x | Inr rest \<Rightarrow> Inr (out @ rest)))"

section \<open>The loop answers the firsts\<close>

definition seen_in :: "page_seen \<Rightarrow> event \<Rightarrow> bool" where
  "seen_in sn e \<longleftrightarrow>
    (if ev_Kind e \<in> set markerKinds then marker_key e \<in> set (pg_Marker sn)
     else if ev_Kind e = eventPlayState then ev_ItemPID e \<in> set (pg_State sn)
     else if ev_Kind e = eventPrefs then pg_Prefs sn
     else if ev_Kind e = eventSubscription then ev_ItemPID e \<in> set (pg_Sub sn)
     else if ev_Kind e = eventBookSettings then ev_ItemPID e \<in> set (pg_Book sn)
     else if ev_Kind e = eventBookmarks then ev_ItemPID e \<in> set (pg_Marks sn)
     else ev_Kind e = eventPlaylist \<and> ev_ItemPID e \<in> set (pg_Playlist sn))"

lemma kinds_differ:
  "eventPlayState \<notin> set markerKinds" "eventPrefs \<notin> set markerKinds" "eventSubscription \<notin> set markerKinds"
  "eventBookSettings \<notin> set markerKinds" "eventBookmarks \<notin> set markerKinds" "eventPlaylist \<notin> set markerKinds"
  "distinct hydratedKinds"
  by (simp_all add: markerKinds_def event_kinds hydratedKinds_def)

lemma kinds_distinct [simp]:
  "eventPlayState \<noteq> eventPrefs" "eventPlayState \<noteq> eventSubscription" "eventPlayState \<noteq> eventBookSettings"
  "eventPlayState \<noteq> eventBookmarks" "eventPlayState \<noteq> eventPlaylist"
  "eventPrefs \<noteq> eventPlayState" "eventPrefs \<noteq> eventSubscription" "eventPrefs \<noteq> eventBookSettings"
  "eventPrefs \<noteq> eventBookmarks" "eventPrefs \<noteq> eventPlaylist"
  "eventSubscription \<noteq> eventPlayState" "eventSubscription \<noteq> eventPrefs" "eventSubscription \<noteq> eventBookSettings"
  "eventSubscription \<noteq> eventBookmarks" "eventSubscription \<noteq> eventPlaylist"
  "eventBookSettings \<noteq> eventPlayState" "eventBookSettings \<noteq> eventPrefs" "eventBookSettings \<noteq> eventSubscription"
  "eventBookSettings \<noteq> eventBookmarks" "eventBookSettings \<noteq> eventPlaylist"
  "eventBookmarks \<noteq> eventPlayState" "eventBookmarks \<noteq> eventPrefs" "eventBookmarks \<noteq> eventSubscription"
  "eventBookmarks \<noteq> eventBookSettings" "eventBookmarks \<noteq> eventPlaylist"
  "eventPlaylist \<noteq> eventPlayState" "eventPlaylist \<noteq> eventPrefs" "eventPlaylist \<noteq> eventSubscription"
  "eventPlaylist \<noteq> eventBookSettings" "eventPlaylist \<noteq> eventBookmarks"
  by (simp_all add: event_kinds)

lemma marker_no_nul: "kd \<in> set markerKinds \<Longrightarrow> CHR 0x00 \<notin> set kd"
  by (auto simp: markerKinds_def)

lemma marker_key_eq:
  assumes "ev_Kind e \<in> set markerKinds" "ev_Kind e' \<in> set markerKinds"
  shows "marker_key e = marker_key e' \<longleftrightarrow> ev_Kind e = ev_Kind e' \<and> ev_ItemPID e = ev_ItemPID e'"
proof -
  have "cut CHR 0x00 (marker_key e) = (ev_Kind e, ev_ItemPID e, True)"
       "cut CHR 0x00 (marker_key e') = (ev_Kind e', ev_ItemPID e', True)"
    using cut_at [OF marker_no_nul [OF assms(1)], of "ev_ItemPID e"]
      cut_at [OF marker_no_nul [OF assms(2)], of "ev_ItemPID e'"] by (simp_all add: marker_key_def)
  then show ?thesis by (metis marker_key_def prod.inject)
qed

lemma known_kind_cases:
  assumes "known_kind kd"
  obtains "kd \<in> set markerKinds" | "kd = eventPlayState" | "kd = eventPrefs" | "kd = eventSubscription"
    | "kd = eventBookSettings" | "kd = eventBookmarks" | "kd = eventPlaylist"
  using assms by (auto simp: known_kind_def hydratedKinds_def)

definition tracks :: "page_seen \<Rightarrow> (string \<times> string) list \<Rightarrow> bool" where
  "tracks sn ks \<longleftrightarrow> (\<forall>e. known_kind (ev_Kind e) \<longrightarrow> (seen_in sn e \<longleftrightarrow> event_key e \<in> set ks))"

lemma tracks_nothing: "tracks nothing_seen []"
  by (auto simp: tracks_def seen_in_def nothing_seen_def)

lemma tracks_add:
  assumes "tracks sn ks" "known_kind (ev_Kind e)"
    "\<And>e'. known_kind (ev_Kind e') \<Longrightarrow> seen_in sn' e' \<longleftrightarrow> seen_in sn e' \<or> event_key e' = event_key e"
  shows "tracks sn' (event_key e # ks)"
  using assms by (auto simp: tracks_def)

definition podcasts_for :: "'v sync_world \<Rightarrow> user_ctx \<Rightarrow> page_seen \<Rightarrow> bool" where
  "podcasts_for w uc sn = (case pg_podcasts sn of Some b \<Rightarrow> b
     | None \<Rightarrow> fst (podcastsVisible (md_catalog (sw_media w)) uc))"

lemmas answer_defs = answerEvent_def freshAnswer_def Let_def nothing_seen_def

lemma answerEvent_old:
  assumes "tracks sn ks" "\<not> (known_kind (ev_Kind e) \<and> event_key e \<notin> set ks)"
  shows "answerEvent w uc batch e sn = Inr ([], sn)"
proof (cases "known_kind (ev_Kind e)")
  case True
  then have "seen_in sn e" using assms by (auto simp: tracks_def)
  with True show ?thesis
    by (elim known_kind_cases) (simp_all add: answerEvent_def seen_in_def Let_def kinds_differ)
next
  case False
  then show ?thesis by (auto simp: answerEvent_def Let_def known_kind_def hydratedKinds_def)
qed

lemma answerEvent_new:
  assumes t: "tracks sn ks" and k: "known_kind (ev_Kind e)" "event_key e \<notin> set ks"
    and pods: "ev_Kind e = eventSubscription \<Longrightarrow> podcasts_for w uc sn = podcasts"
  shows "case freshAnswer w uc batch podcasts e of
      Inl x \<Rightarrow> answerEvent w uc batch e sn = Inl x
    | Inr out \<Rightarrow> \<exists>sn'. answerEvent w uc batch e sn = Inr (out, sn') \<and> tracks sn' (event_key e # ks)
        \<and> pg_podcasts sn' = (if ev_Kind e = eventSubscription then Some podcasts else pg_podcasts sn)"
proof -
  have new: "\<not> seen_in sn e" using t k by (simp add: tracks_def)
  have add: "tracks sn' (event_key e # ks)"
    if "\<And>e'. known_kind (ev_Kind e') \<Longrightarrow> seen_in sn' e' \<longleftrightarrow> seen_in sn e' \<or> event_key e' = event_key e" for sn'
    by (rule tracks_add [OF t k(1) that])
  from k(1) show ?thesis
  proof (cases rule: known_kind_cases)
    case 1
    have n: "marker_key e \<notin> set (pg_Marker sn)" using new 1 kinds_differ by (simp add: seen_in_def)
    have t': "tracks (sn\<lparr>pg_Marker := marker_key e # pg_Marker sn\<rparr>) (event_key e # ks)"
      by (rule add) (use 1 kinds_differ marker_key_eq [OF _ 1] in \<open>auto simp: seen_in_def event_key_def\<close>)
    show ?thesis using 1 n t' kinds_differ
      by (auto simp: answer_defs)
  next
    case 2
    have n: "ev_ItemPID e \<notin> set (pg_State sn)" using new 2 kinds_differ by (simp add: seen_in_def)
    have t': "tracks (sn\<lparr>pg_State := ev_ItemPID e # pg_State sn\<rparr>) (event_key e # ks)"
      by (rule add) (use 2 kinds_differ in \<open>auto simp: seen_in_def event_key_def\<close>)
    show ?thesis using 2 n t' kinds_differ
      by (simp add: answer_defs split: sum.splits option.splits)
  next
    case 3
    have n: "\<not> pg_Prefs sn" using new 3 kinds_differ by (simp add: seen_in_def)
    have t': "tracks (sn\<lparr>pg_Prefs := True\<rparr>) (event_key e # ks)"
      by (rule add) (use 3 kinds_differ in \<open>auto simp: seen_in_def event_key_def\<close>)
    show ?thesis using 3 n t' kinds_differ
      by (simp add: answer_defs split: sum.splits)
  next
    case 4
    have n: "ev_ItemPID e \<notin> set (pg_Sub sn)" using new 4 kinds_differ by (simp add: seen_in_def)
    have t': "tracks (sn\<lparr>pg_Sub := ev_ItemPID e # pg_Sub sn, pg_podcasts := Some podcasts\<rparr>) (event_key e # ks)"
      by (rule add) (use 4 kinds_differ in \<open>auto simp: seen_in_def event_key_def\<close>)
    show ?thesis using 4 n t' kinds_differ pods
      by (simp add: answer_defs podcasts_for_def)
  next
    case 5
    have n: "ev_ItemPID e \<notin> set (pg_Book sn)" using new 5 kinds_differ by (simp add: seen_in_def)
    have t': "tracks (sn\<lparr>pg_Book := ev_ItemPID e # pg_Book sn\<rparr>) (event_key e # ks)"
      by (rule add) (use 5 kinds_differ in \<open>auto simp: seen_in_def event_key_def\<close>)
    show ?thesis using 5 n t' kinds_differ
      by (simp add: answer_defs split: sum.splits)
  next
    case 6
    have n: "ev_ItemPID e \<notin> set (pg_Marks sn)" using new 6 kinds_differ by (simp add: seen_in_def)
    have t': "tracks (sn\<lparr>pg_Marks := ev_ItemPID e # pg_Marks sn\<rparr>) (event_key e # ks)"
      by (rule add) (use 6 kinds_differ in \<open>auto simp: seen_in_def event_key_def\<close>)
    show ?thesis using 6 n t' kinds_differ
      by (simp add: answer_defs split: sum.splits)
  next
    case 7
    have n: "ev_ItemPID e \<notin> set (pg_Playlist sn)" using new 7 kinds_differ by (simp add: seen_in_def)
    have t': "tracks (sn\<lparr>pg_Playlist := ev_ItemPID e # pg_Playlist sn\<rparr>) (event_key e # ks)"
      by (rule add) (use 7 kinds_differ in \<open>auto simp: seen_in_def event_key_def\<close>)
    show ?thesis using 7 n t' kinds_differ
      by (simp add: answer_defs)
  qed
qed

definition podcasts_told :: "(event \<Rightarrow> 'v sync_world) \<Rightarrow> user_ctx \<Rightarrow> page_seen \<Rightarrow> event list \<Rightarrow> bool" where
  "podcasts_told ws uc sn es = (case pg_podcasts sn of Some b \<Rightarrow> b | None \<Rightarrow> podcastsOf ws uc es)"

text \<open>Answering event by event is answering the firsts.\<close>

lemma answerEvents_firsts:
  assumes "tracks sn ks"
    "pg_podcasts sn = None \<longrightarrow> (\<forall>k \<in> set ks. fst k \<noteq> eventSubscription)"
  shows "answerEvents ws uc batch sn es
    = all_answers (\<lambda>e. freshAnswer (ws e) uc batch (podcasts_told ws uc sn es) e) (firsts ks es)"
  using assms
proof (induction es arbitrary: sn ks)
  case (Cons e es)
  let ?p = "podcasts_told ws uc sn (e # es)"
  show ?case
  proof (cases "known_kind (ev_Kind e) \<and> event_key e \<notin> set ks")
    case False
    have "podcasts_told ws uc sn es = ?p"
    proof (cases "ev_Kind e = eventSubscription")
      case True
      then have "known_kind (ev_Kind e)" by (simp add: known_kind_def hydratedKinds_def)
      with False have "event_key e \<in> set ks" by blast
      then have "pg_podcasts sn \<noteq> None" using Cons.prems(2) True by (auto simp: event_key_def)
      then show ?thesis by (auto simp: podcasts_told_def)
    qed (cases "pg_podcasts sn"; simp add: podcasts_told_def podcastsOf_def)
    moreover have "answerEvents ws uc batch sn (e # es) = answerEvents ws uc batch sn es"
      by (simp add: answerEvent_old [OF Cons.prems(1) False] split: sum.splits)
    moreover have "firsts ks (e # es) = firsts ks es" by (rule firsts_skip [OF False])
    ultimately show ?thesis using Cons.IH [OF Cons.prems] by simp
  next
    case True
    have pods: "ev_Kind e = eventSubscription \<Longrightarrow> podcasts_for (ws e) uc sn = ?p"
      by (auto simp: podcasts_for_def podcasts_told_def podcastsOf_def split: option.splits)
    note new = answerEvent_new [OF Cons.prems(1) conjunct1 [OF True] conjunct2 [OF True] pods, of batch]
    show ?thesis
    proof (cases "freshAnswer (ws e) uc batch ?p e")
      case (Inl x)
      then show ?thesis using new True by simp
    next
      case (Inr out)
      then obtain sn' where sn': "answerEvent (ws e) uc batch e sn = Inr (out, sn')"
        "tracks sn' (event_key e # ks)"
        "pg_podcasts sn' = (if ev_Kind e = eventSubscription then Some ?p else pg_podcasts sn)"
        using new by auto
      have "pg_podcasts sn' = None \<longrightarrow> (\<forall>k \<in> set (event_key e # ks). fst k \<noteq> eventSubscription)"
        using Cons.prems(2) sn'(3) by (auto simp: event_key_def)
      from Cons.IH [OF sn'(2) this]
      have "answerEvents ws uc batch sn' es
          = all_answers (\<lambda>e. freshAnswer (ws e) uc batch (podcasts_told ws uc sn' es) e) (firsts (event_key e # ks) es)" .
      moreover have "podcasts_told ws uc sn' es = ?p"
        using sn'(3) by (cases "pg_podcasts sn") (auto simp: podcasts_told_def podcastsOf_def)
      ultimately show ?thesis using Inr sn'(1) True by (simp split: sum.splits)
    qed
  qed
qed simp

lemma firsts_distinct: "distinct (map event_key (firsts ks es)) \<and> event_key ` set (firsts ks es) \<inter> set ks = {}"
proof (induction ks es rule: firsts.induct)
  case (2 ks e es)
  show ?case
  proof (cases "known_kind (ev_Kind e) \<and> event_key e \<notin> set ks")
    case True
    with 2(1) have "distinct (map event_key (firsts (event_key e # ks) es))"
      "event_key ` set (firsts (event_key e # ks) es) \<inter> set (event_key e # ks) = {}" by blast+
    with True show ?thesis by auto
  next
    case False
    from 2(2) [OF False] show ?thesis unfolding firsts_skip [OF False] .
  qed
qed simp

lemma firsts_keys:
  "event_key ` set (firsts ks es) = event_key ` {e \<in> set es. known_kind (ev_Kind e)} - set ks"
proof (induction ks es rule: firsts.induct)
  case (2 ks e es)
  show ?case
  proof (cases "known_kind (ev_Kind e) \<and> event_key e \<notin> set ks")
    case True
    with 2(1) have "event_key ` set (firsts (event_key e # ks) es)
        = event_key ` {e \<in> set es. known_kind (ev_Kind e)} - set (event_key e # ks)" by blast
    with True show ?thesis by auto
  next
    case False
    with 2(2) have "event_key ` set (firsts ks es) = event_key ` {e \<in> set es. known_kind (ev_Kind e)} - set ks" by blast
    with False show ?thesis unfolding firsts_skip [OF False] by auto
  qed
qed simp

lemma firsts_subseq: "subseq (firsts ks es) es"
  by (induction ks es rule: firsts.induct) auto

end
