(* ===== verification/Stream_Claims.thy ===== *)
theory Stream_Claims
  imports Stream_Pages
begin

text \<open>
  What the server's change stream promises a client: nothing it covers is missed, a cursor is
  refused only when it has to be, one page tells each change once.
\<close>

section \<open>Nothing is missed\<close>

abbreviation events_of :: "string \<Rightarrow> event list \<Rightarrow> event list" where
  "events_of uid h \<equiv> filter (\<lambda>e. ev_UserID e = uid) h"

lemma filter_take_drop:
  "n \<le> m \<Longrightarrow> filter P (take m h) = filter P (take n h) @ filter P (take (m - n) (drop n h))"
  by (metis append_take_drop_id filter_append le_add_diff_inverse take_add)

text \<open>The page ends where its last event stands.\<close>

lemma page_end:
  assumes "(evs, left) = (let out = filter P (drop n h) in (take l out, l < length out))"
    and h: "numbered h" and m: "n \<le> m" "m \<le> length h" "0 < m" "evs \<noteq> []" "h ! (m - 1) = last evs" "0 < l"
  shows "filter P (take (m - n) (drop n h)) = evs"
proof -
  define D where "D = drop n h"
  define x where "x = last evs"
  have evs: "evs = take l (filter P D)" using assms(1) by (simp add: D_def Let_def)
  have "x \<in> set evs" using m(4) by (simp add: x_def)
  then have "x \<in> set (filter P D)" using evs by (metis in_set_takeD)
  then have x: "x \<in> set D" "P x" by auto
  have "distinct (map ev_ID h)"
    using h by (auto simp: distinct_conv_nth numbered_def)
  then have "distinct h" by (simp add: distinct_map)
  then have dist: "distinct (filter P D)" by (simp add: D_def)
  obtain i where i: "i < length D" "D ! i = x" using x(1) by (auto simp: in_set_conv_nth)
  then have "h ! (n + i) = h ! (m - 1)" using m(5) by (simp add: D_def x_def)
  then have "m - 1 = n + i"
    using \<open>distinct h\<close> i m(2,3) by (subst (asm) nth_eq_iff_index_eq) (auto simp: D_def)
  then have m': "m - n = Suc i" using m(3) by simp
  have a: "filter P (take (m - n) D) = filter P (take i D) @ [x]"
    using i x(2) by (simp add: m' take_Suc_conv_app_nth)
  have b: "evs = butlast evs @ [x]" using m(4) by (simp add: x_def)
  have "filter P D = filter P (take i D) @ x # filter P (drop (Suc i) D)"
    using a by (metis append.assoc append_Cons append_Nil append_take_drop_id filter_append m')
  moreover have "filter P D = butlast evs @ x # drop l (filter P D)"
    using b evs by (metis append.assoc append_Cons append_Nil append_take_drop_id)
  ultimately have "filter P (take i D) = butlast evs"
    using dist by (metis append_Cons_eq_iff distinct_append disjoint_iff distinct.simps(2) list.set_intros(1))
  then show ?thesis using a b by (simp add: D_def)
qed

text \<open>What an answered page covers, for a cursor that covers the first events of the stream.\<close>

lemma page_covers:
  assumes ok: "stream_ok s" and g: "grows s s2" "grows s2 s3" "grows s3 s4"
    and c: "decodeServerCursor since = Some c" "vc_id c = int n" and l: "0 < limit"
    and answer: "deltaPage (\<lambda>_. False) (sr_gen s) (sr_log s) (sr_log s2) (sr_log s3) (sr_log s4) uid since limit
        = Inr (evs, nxt, left)"
  shows "\<exists>q. prefix (take n (sr_hist s4)) q \<and> prefix q (sr_hist s4) \<and> nxt = stands_on (sr_gen s) q
    \<and> events_of uid q = events_of uid (take n (sr_hist s4)) @ evs
    \<and> (if left then length evs = limit else events_of uid q = events_of uid (sr_hist s4))"
proof -
  note page = served_page [OF ok g c answer]
  let ?h = "sr_hist s4" and ?P = "\<lambda>e. ev_UserID e = uid"
  have h: "numbered ?h" using grows_ok [OF g(3) grows_ok [OF g(2) grows_ok [OF g(1) ok]]]
    by (auto simp: stream_ok_def elim: keepsE)
  obtain m where m: "n \<le> m" "m \<le> length ?h" "evs = [] \<longrightarrow> m = length (sr_hist s2)"
    "evs \<noteq> [] \<longrightarrow> 0 < m \<and> ?h ! (m - 1) = last evs" "nxt = stands_on (sr_gen s) (take m ?h)"
    using page(6) by blast
  have out: "evs = take limit (filter ?P (drop n ?h))" "left = (limit < length (filter ?P (drop n ?h)))"
    using page(5) by (simp_all add: Let_def)
  have to_m: "filter ?P (take (m - n) (drop n ?h)) = evs"
  proof (cases "evs = []")
    case True
    then have "filter ?P (drop n ?h) = []" using out(1) l by (cases "filter ?P (drop n ?h)"; cases limit) auto
    then show ?thesis using True by (auto simp: filter_empty_conv dest: in_set_takeD)
  next
    case False
    then show ?thesis using page_end [OF page(5) h m(1,2)] m(4) l by blast
  qed
  have q: "events_of uid (take m ?h) = events_of uid (take n ?h) @ evs"
    using filter_take_drop [OF m(1), of ?P ?h] to_m by simp
  show ?thesis
  proof (intro exI [of _ "take m ?h"] conjI)
    show "prefix (take n ?h) (take m ?h)" using m(1) by (simp add: prefix_def) (metis le_add_diff_inverse take_add)
    show "prefix (take m ?h) ?h" by (rule take_is_prefix)
    show "if left then length evs = limit else events_of uid (take m ?h) = events_of uid ?h"
    proof (cases left)
      case True
      then show ?thesis using out by simp
    next
      case False
      then have "evs = filter ?P (drop n ?h)" using out by simp
      then have "events_of uid ?h = events_of uid (take n ?h) @ evs"
        by (metis append_take_drop_id filter_append)
      then show ?thesis using False q by simp
    qed
  qed (use m(5) q in auto)
qed

text \<open>Where an issued cursor stands.\<close>

lemma issued_decodes:
  assumes "stream_ok s" "(cur, p) \<in> sr_issued s"
  obtains g b where "bar \<notin> set g" "cur = stands_on g p" "born b p" "\<forall>h \<in> known s. born b h"
    "decodeServerCursor cur = Some \<lparr>vc_gen = g, vc_id = int (length p),
       vc_at = (if p = [] then 0 else ev_WrittenAtNS (last p)), vc_stamped = True\<rparr>"
    "p \<noteq> [] \<Longrightarrow> 0 < ev_WrittenAtNS (last p)"
proof -
  obtain b where b: "\<forall>t \<in> dom b. 0 < t \<and> t \<le> sr_now s" "\<forall>h \<in> known s. born b h"
    using assms(1) unfolding stream_ok_def by blast
  obtain g where g: "bar \<notin> set g" "cur = stands_on g p" using assms by (auto simp: stream_ok_def)
  have p: "born b p" "length p < 2 ^ 63" using assms b(2) by (auto simp: stream_ok_def known_def)
  have "sr_now s < 2 ^ 63" using assms(1) by (simp add: stream_ok_def)
  then have t: "\<forall>t \<in> dom b. 0 < t \<and> t < 2 ^ 63" using b(1) by (meson le_less_trans)
  show thesis
    by (rule that [OF g p(1) b(2)]) (use decode_stands_on [OF g(1) p(2,1) t] g(2) in auto)
qed

text \<open>A served cursor stands on an event that is still the one it stood on, so everything it covers
  is.\<close>

lemma covered_still:
  assumes ok: "stream_ok s" "stream_ok s4" "sr_issued s4 = sr_issued s" and i: "(cur, p) \<in> sr_issued s"
    and at_end: "p \<noteq> [] \<Longrightarrow> length p \<le> length (sr_hist s4) \<and> ev_WrittenAtNS (sr_hist s4 ! (length p - 1)) = ev_WrittenAtNS (last p)"
  shows "take (length p) (sr_hist s4) = p"
proof (cases "p = []")
  case False
  obtain b where b: "\<forall>h \<in> known s4. born b h" using ok(2) unfolding stream_ok_def by blast
  then have "born b (sr_hist s4)" "born b p" using i ok(3) by (auto simp: known_def)
  then show ?thesis using born_agree False at_end by blast
qed simp

text \<open>C3. A client that follows its cursors misses nothing.  In every reachable state, when a cursor
  handed out before is answered, the page holds exactly the caller's events that come next after all
  the cursor covers, the cursor returned covers those too and no others, and without more to come the
  page ends at the present end of the stream.  The stream may grow between the reads of the request,
  and before it may have been pruned, copied, put back to an earlier copy or restored: a history the
  cursor did not come from is never continued.  Hypotheses: at least one event may be returned (the
  API asks for 1 to 1000), and the cursor stands above the events pruned, or at the start of the
  stream.  Each of the page's first events of a kind about an item is answered by what the reads of
  the request say of it.\<close>

theorem stream_misses_nothing:
  assumes "stream_start s0" "stream_step\<^sup>*\<^sup>* s0 s" "(cur, p) \<in> sr_issued s"
    and "grows s s2" "grows s2 s3" "grows s3 s4" "0 < limit"
    and "p = [] \<or> EventFloor (sr_log s) < int (length p)"
    and "SyncServerDelta (\<lambda>_. False) (sr_gen s) (sr_log s) (sr_log s2) (sr_log s3) (sr_log s4) w ws uc cur limit = Inr d"
  shows "\<exists>evs q batch. prefix p q \<and> prefix q (sr_hist s4) \<and> sd_NextSince d = stands_on (sr_gen s) q
    \<and> events_of (uc_ID uc) q = events_of (uc_ID uc) p @ evs
    \<and> (if sd_More d then length evs = limit else events_of (uc_ID uc) q = events_of (uc_ID uc) (sr_hist s4))
    \<and> stateBatch w evs = Inr batch
    \<and> all_answers (\<lambda>e. freshAnswer (ws e) uc batch (podcastsOf ws uc evs) e) (firsts [] evs) = Inr (sd_Events d)"
proof -
  have ok: "stream_ok s" using stream_runs.inv_reachable assms(1,2) .
  have ok4: "stream_ok s4" using ok assms(4-6) grows_ok by blast
  have same: "sr_issued s4 = sr_issued s" "prefix (sr_hist s2) (sr_hist s4)"
    using grows_same [OF assms(4) ok] grows_same [OF assms(5) grows_ok [OF assms(4) ok]]
      grows_same [OF assms(6) grows_ok [OF assms(5) grows_ok [OF assms(4) ok]]]
    by (auto intro: prefix_order.trans)
  obtain evs nxt left batch where a: "deltaPage (\<lambda>_. False) (sr_gen s) (sr_log s) (sr_log s2) (sr_log s3) (sr_log s4)
      (uc_ID uc) cur limit = Inr (evs, nxt, left)" "stateBatch w evs = Inr batch"
    "answerEvents ws uc batch nothing_seen evs = Inr (sd_Events d)" "sd_NextSince d = nxt" "sd_More d = left"
    using assms(9) by (auto simp: SyncServerDelta_def split: sum.splits prod.splits)
  obtain g where g: "decodeServerCursor cur = Some \<lparr>vc_gen = g, vc_id = int (length p),
       vc_at = (if p = [] then 0 else ev_WrittenAtNS (last p)), vc_stamped = True\<rparr>"
    "p \<noteq> [] \<Longrightarrow> 0 < ev_WrittenAtNS (last p)"
    using issued_decodes [OF ok assms(3)] by metis
  have id: "vc_id \<lparr>vc_gen = g, vc_id = int (length p), vc_at = (if p = [] then 0 else ev_WrittenAtNS (last p)),
      vc_stamped = True\<rparr> = int (length p)" by simp
  have keeps_s: "keeps (sr_hist s) (sr_log s)" using ok by (simp add: stream_ok_def)
  have still: "take (length p) (sr_hist s4) = p"
  proof (rule covered_still [OF ok ok4 same(1) assms(3)], intro conjI)
    show "length p \<le> length (sr_hist s4)"
      using served_page(2) [OF ok assms(4-6) g(1) id a(1)] same(2) prefix_length_le by fastforce
    show "ev_WrittenAtNS (sr_hist s4 ! (length p - 1)) = ev_WrittenAtNS (last p)" if "p \<noteq> []"
      using served_page(4) [OF ok assms(4-6) g(1) id a(1)] that g(2) assms(8) EventFloor_keeps [OF keeps_s] by simp
  qed
  have told: "all_answers (\<lambda>e. freshAnswer (ws e) uc batch (podcastsOf ws uc evs) e) (firsts [] evs) = Inr (sd_Events d)"
    using answerEvents_firsts [OF tracks_nothing, of ws uc batch evs] a(3)
    by (simp add: podcasts_told_def nothing_seen_def)
  obtain q where q: "prefix p q" "prefix q (sr_hist s4)" "nxt = stands_on (sr_gen s) q"
    "events_of (uc_ID uc) q = events_of (uc_ID uc) p @ evs"
    "if left then length evs = limit else events_of (uc_ID uc) q = events_of (uc_ID uc) (sr_hist s4)"
    using page_covers [OF ok assms(4-6) g(1) id assms(7) a(1)] unfolding still by blast
  show ?thesis
    by (rule exI [of _ evs], rule exI [of _ q], rule exI [of _ batch], intro conjI)
      (use a(2,4,5) q told in \<open>simp_all split: if_splits\<close>)
qed

section \<open>Refused only when it has to be\<close>

lemma stands_on_gen: "bar \<notin> set g \<Longrightarrow> bar \<notin> set g' \<Longrightarrow> stands_on g p = stands_on g' p \<Longrightarrow> g = g'"
proof -
  assume g: "bar \<notin> set g" "bar \<notin> set g'" and e: "stands_on g p = stands_on g' p"
  let ?t = "FormatInt (if p = [] then 0 else ev_WrittenAtNS (last p))"
  have "join bar [''s2'', g, FormatInt (int (length p)), ?t] = join bar [''s2'', g', FormatInt (int (length p)), ?t]"
    using e unfolding stands_on_def encodeServerCursor_def by (metis decode_encode option.inject)
  then have "[''s2'', g, FormatInt (int (length p)), ?t] = [''s2'', g', FormatInt (int (length p)), ?t]"
    using decode_server_raw g by metis
  then show "g = g'" by simp
qed

text \<open>C15. When a cursor is refused.  In every reachable state a cursor handed out before is answered
  exactly when nothing behind it was pruned (standing exactly where the pruned events end included),
  its generation is the stream's, and what it covers is still the beginning of the stream;
  otherwise the answer is sync-reset, never anything of another history.  The one exception is a
  cursor that stands exactly where the pruned events end: its event is gone, so nothing can be
  compared, and it is answered on its generation alone, also when the log was put back to an earlier
  copy and grew another history up to there (\<open>cursor_at_floor_misses\<close> below).\<close>

theorem refused_when_it_must:
  assumes "stream_start s0" "stream_step\<^sup>*\<^sup>* s0 s" "(cur, p) \<in> sr_issued s"
  shows "if EventFloor (sr_log s) \<le> int (length p) \<and> cur = stands_on (sr_gen s) p
         \<and> (prefix p (sr_hist s) \<or> EventFloor (sr_log s) = int (length p))
    then \<exists>page. deltaPage (\<lambda>_. False) (sr_gen s) (sr_log s) (sr_log s) (sr_log s) (sr_log s) uid cur limit = Inr page
    else deltaPage (\<lambda>_. False) (sr_gen s) (sr_log s) (sr_log s) (sr_log s) (sr_log s) uid cur limit = Inl ErrSyncReset"
proof -
  have ok: "stream_ok s" using stream_runs.inv_reachable assms(1,2) .
  have keeps_s: "keeps (sr_hist s) (sr_log s)" and gen_s: "bar \<notin> set (sr_gen s)"
    using ok by (simp_all add: stream_ok_def)
  obtain g b where g: "bar \<notin> set g" "cur = stands_on g p" "born b p" "\<forall>h \<in> known s. born b h"
    "decodeServerCursor cur = Some \<lparr>vc_gen = g, vc_id = int (length p),
       vc_at = (if p = [] then 0 else ev_WrittenAtNS (last p)), vc_stamped = True\<rparr>"
    "p \<noteq> [] \<Longrightarrow> 0 < ev_WrittenAtNS (last p)"
    using issued_decodes [OF ok assms(3)] by metis
  let ?k = "kept_from (sr_hist s) (sr_log s)"
  have same_gen: "cur = stands_on (sr_gen s) p \<longleftrightarrow> g = sr_gen s" using stands_on_gen g(1,2) gen_s by blast
  have reads: "EventFloor (sr_log s) = int ?k" "fst (LatestEvent (sr_log s)) = int (length (sr_hist s))"
    using EventFloor_keeps [OF keeps_s] LatestEvent_keeps [OF keeps_s] by simp_all
  have written: "EventWrittenAt (int (length p)) (sr_log s) = Some (ev_WrittenAtNS (sr_hist s ! (length p - 1)))"
    if "?k < length p" "length p \<le> length (sr_hist s)" using EventWrittenAt_keeps [OF keeps_s that] .
  have pre: "prefix p (sr_hist s) \<longleftrightarrow> length p \<le> length (sr_hist s) \<and>
      ev_WrittenAtNS (sr_hist s ! (length p - 1)) = ev_WrittenAtNS (last p)" if "p \<noteq> []"
  proof
    assume "prefix p (sr_hist s)"
    then show "length p \<le> length (sr_hist s) \<and> ev_WrittenAtNS (sr_hist s ! (length p - 1)) = ev_WrittenAtNS (last p)"
      using that by (auto simp: prefix_def nth_append last_conv_nth)
  next
    assume "length p \<le> length (sr_hist s) \<and> ev_WrittenAtNS (sr_hist s ! (length p - 1)) = ev_WrittenAtNS (last p)"
    then have "take (length p) (sr_hist s) = p"
      using born_agree [of b "sr_hist s" p] g(3,4) that by (simp add: known_def)
    then show "prefix p (sr_hist s)" by (metis take_is_prefix)
  qed
  have page: "deltaPage (\<lambda>_. False) (sr_gen s) (sr_log s) (sr_log s) (sr_log s) (sr_log s) uid cur limit
    = (if g \<noteq> sr_gen s \<or> length p < ?k \<or> length (sr_hist s) < length p then Inl ErrSyncReset
       else if p \<noteq> [] \<and> ?k < length p \<and> EventWrittenAt (int (length p)) (sr_log s) \<noteq> Some (ev_WrittenAtNS (last p))
       then Inl ErrSyncReset
       else pageOf (\<lambda>_. False) (sr_gen s) \<lparr>vc_gen = g, vc_id = int (length p),
         vc_at = (if p = [] then 0 else ev_WrittenAtNS (last p)), vc_stamped = True\<rparr>
         (EventFloor (sr_log s)) (LatestEvent (sr_log s)) (EventWrittenAt (int (length p)) (sr_log s))
         (EventsSince uid (int (length p)) limit (sr_log s)))"
    using reads g(5,6) by (auto simp: deltaPage_def pageOf_def Let_def split: prod.splits)
  show ?thesis
  proof (cases "?k < length p")
    case True
    then have ne: "p \<noteq> []" by auto
    show ?thesis
    proof (cases "g = sr_gen s \<and> prefix p (sr_hist s)")
      case True
      then have len: "length p \<le> length (sr_hist s)" by (auto dest: prefix_length_le)
      have "\<exists>page. deltaPage (\<lambda>_. False) (sr_gen s) (sr_log s) (sr_log s) (sr_log s) (sr_log s) uid cur limit = Inr page"
        using True \<open>?k < length p\<close> len written pre [OF ne] reads g(5)
        by (auto simp: deltaPage_def pageOf_def Let_def split: prod.splits)
      then show ?thesis using True \<open>?k < length p\<close> same_gen reads(1) by simp
    next
      case False
      then show ?thesis using \<open>?k < length p\<close> written pre [OF ne] page ne same_gen reads(1)
        by (cases "length p \<le> length (sr_hist s)") auto
    qed
  next
    case False
    have "length p < ?k \<or> length p = ?k" using False by linarith
    then show ?thesis
    proof
      assume "length p < ?k"
      then show ?thesis using page reads(1) by simp
    next
      assume at: "length p = ?k"
      have "?k \<le> length (sr_hist s)" by (simp add: kept_from_def)
      then have "\<exists>page. deltaPage (\<lambda>_. False) (sr_gen s) (sr_log s) (sr_log s) (sr_log s) (sr_log s) uid cur limit = Inr page"
        if "g = sr_gen s"
        using that at reads g(5) by (auto simp: deltaPage_def pageOf_def Let_def split: prod.splits)
      then show ?thesis using page reads(1) at same_gen by simp
    qed
  qed
qed

section \<open>A stream in use\<close>

definition appended :: "int \<Rightarrow> string \<Rightarrow> string \<Rightarrow> string \<Rightarrow> stream \<Rightarrow> stream" where
  "appended now uid kd pid s =
    (case AppendEvent now uid kd pid (sr_log s) of None \<Rightarrow> s
     | Some (i, log') \<Rightarrow> s\<lparr>sr_log := log', sr_now := now, sr_hist := sr_hist s @ [\<lparr>ev_ID = i, ev_UserID = uid,
         ev_Kind = kd, ev_ItemPID = pid, ev_WrittenAtNS = now\<rparr>]\<rparr>)"

lemma grow_appended:
  "sr_now s < now \<Longrightarrow> now < 2 ^ 63 \<Longrightarrow> et_last (sr_log s) + 1 < 2 ^ 63 \<Longrightarrow> grow_step s (appended now uid kd pid s)"
  using grow_step.grow [of s now uid kd pid] by (auto simp: appended_def AppendEvent_def Let_def)

lemma grows_appended:
  "grows s0 s \<Longrightarrow> sr_now s < now \<Longrightarrow> now < 2 ^ 63 \<Longrightarrow> et_last (sr_log s) + 1 < 2 ^ 63
    \<Longrightarrow> grows s0 (appended now uid kd pid s)"
  by (rule rtranclp.rtrancl_into_rtrancl) (auto intro: grow_appended)

lemma appended_simps [simp]:
  assumes "et_last (sr_log s) + 1 < 2 ^ 63"
  shows "sr_now (appended now uid kd pid s) = now" "sr_gen (appended now uid kd pid s) = sr_gen s"
    "sr_issued (appended now uid kd pid s) = sr_issued s" "sr_copies (appended now uid kd pid s) = sr_copies s"
    "et_last (sr_log (appended now uid kd pid s)) = et_last (sr_log s) + 1"
    "et_rows (sr_log (appended now uid kd pid s)) = et_rows (sr_log s) @ [\<lparr>ev_ID = et_last (sr_log s) + 1,
       ev_UserID = uid, ev_Kind = kd, ev_ItemPID = pid, ev_WrittenAtNS = now\<rparr>]"
    "sr_hist (appended now uid kd pid s) = sr_hist s @ [\<lparr>ev_ID = et_last (sr_log s) + 1,
       ev_UserID = uid, ev_Kind = kd, ev_ItemPID = pid, ev_WrittenAtNS = now\<rparr>]"
  using assms by (simp_all add: appended_def AppendEvent_def Let_def)

definition first_boot :: stream where
  "first_boot = \<lparr>sr_log = no_events, sr_gen = ''01J8'', sr_now = 0, sr_hist = [], sr_copies = {}, sr_issued = {}\<rparr>"

definition mint_at :: "stream \<Rightarrow> stream" where
  "mint_at s = s\<lparr>sr_issued := insert (encodeServerCursor (sr_gen s) (fst (LatestEvent (sr_log s)))
     (snd (LatestEvent (sr_log s))), sr_hist s) (sr_issued s)\<rparr>"

lemma minted_at: "stream_step s (mint_at s)"
  unfolding mint_at_def
  by (rule stream_step.minted [of "\<lambda>_. False"]) (simp add: MintServerCursor_def split: prod.splits)

lemma start_boot: "stream_start first_boot"
  by (simp add: stream_start_def first_boot_def bar_def)

text \<open>A cursor is taken, then one account changes its preferences, a second one a playlist, and the
  first one its preferences again and a playlist.\<close>

definition mint_boot :: stream where "mint_boot = mint_at first_boot"

definition busy_stream :: stream where
  "busy_stream = appended 8 ''us1'' eventPlaylist ''P1'' (appended 7 ''us1'' eventPrefs ''''
     (appended 6 ''us2'' eventPlaylist ''P2'' (appended 5 ''us1'' eventPrefs '''' mint_boot)))"

lemma mint_boot_simps [simp]:
  "sr_log mint_boot = no_events" "sr_gen mint_boot = ''01J8''" "sr_now mint_boot = 0" "sr_hist mint_boot = []"
  "sr_copies mint_boot = {}" "sr_issued mint_boot = {(stands_on ''01J8'' [], [])}"
  by (simp_all add: mint_boot_def mint_at_def first_boot_def LatestEvent_def no_events_def stands_on_def)

lemma no_events_simps [simp]: "et_rows no_events = []" "et_last no_events = 0"
  by (simp_all add: no_events_def)

lemma busy_reached: "stream_step\<^sup>*\<^sup>* first_boot busy_stream"
proof -
  have "stream_step\<^sup>*\<^sup>* first_boot mint_boot" using minted_at [of first_boot] by (simp add: mint_boot_def r_into_rtranclp)
  moreover have "grows mint_boot busy_stream"
    unfolding busy_stream_def by (intro grows_appended rtranclp.rtrancl_refl) simp_all
  then have "stream_step\<^sup>*\<^sup>* mint_boot busy_stream"
    by (rule rtranclp_mono [THEN predicate2D, rotated]) (auto intro: stream_step.grown)
  ultimately show ?thesis by simp
qed

definition quiet_world :: "string sync_world" where
  "quiet_world = \<lparr>sw_media = \<lparr>md_valid = (\<lambda>_. True), md_catalog = demo_catalog,
      md_Get = (\<lambda>_. Inl \<lparr>we_Code = CodeNotFound, we_Text = ''''\<rparr>), md_catalogUsers = Map.empty, md_stations = []\<rparr>,
    sw_PlayStatesForItems = (\<lambda>_. Inr (\<lambda>_. [])), sw_Prefs = Inr ''dark'',
    sw_Podcast = (\<lambda>pid. Inr pid), sw_subscriptionFor = (\<lambda>_. Inl (errNotFound '''')),
    sw_BookSettings = (\<lambda>_. Inl RowNotFound), sw_Bookmarks = (\<lambda>_. Inr []), sw_PlaylistByPID = (\<lambda>pid. Inr ''Mix'')\<rparr>"

lemma decode_boot: "decodeServerCursor (stands_on ''01J8'' [])
    = Some \<lparr>vc_gen = ''01J8'', vc_id = 0, vc_at = 0, vc_stamped = True\<rparr>"
  using decode_encodeServer [of "''01J8''" 0 0] by (simp add: stands_on_def bar_def int64_def)

lemma busy_events:
  "et_rows (sr_log busy_stream) = sr_hist busy_stream" "sr_gen busy_stream = ''01J8''"
  "sr_hist busy_stream =
     [\<lparr>ev_ID = 1, ev_UserID = ''us1'', ev_Kind = eventPrefs, ev_ItemPID = '''', ev_WrittenAtNS = 5\<rparr>,
      \<lparr>ev_ID = 2, ev_UserID = ''us2'', ev_Kind = eventPlaylist, ev_ItemPID = ''P2'', ev_WrittenAtNS = 6\<rparr>,
      \<lparr>ev_ID = 3, ev_UserID = ''us1'', ev_Kind = eventPrefs, ev_ItemPID = '''', ev_WrittenAtNS = 7\<rparr>,
      \<lparr>ev_ID = 4, ev_UserID = ''us1'', ev_Kind = eventPlaylist, ev_ItemPID = ''P1'', ev_WrittenAtNS = 8\<rparr>]"
  "sr_issued busy_stream = {(stands_on ''01J8'' [], [])}"
  by (simp_all add: busy_stream_def)

lemma demo_caller_id: "uc_ID (demo_caller libs) = ''us1''"
  by (simp add: demo_caller_def UserCtx_def demo_account_def hasRole_def Let_def)

definition busy_page :: "svc_error + string server_delta" where
  "busy_page = SyncServerDelta (\<lambda>_. False) (sr_gen busy_stream) (sr_log busy_stream) (sr_log busy_stream)
     (sr_log busy_stream) (sr_log busy_stream) quiet_world (\<lambda>_. quiet_world) (demo_caller []) (stands_on ''01J8'' []) 10"

lemma busy_page_answered: "\<exists>d. busy_page = Inr d \<and> map se_Kind (sd_Events d) = [eventPrefs, eventPlaylist]"
  by (simp add: busy_page_def SyncServerDelta_def deltaPage_def decode_boot pageOf_def EventFloor_def
      LatestEvent_def EventsSince_def busy_events demo_caller_id Let_def stateBatch_def answerEvent_def
      quiet_world_def kinds_differ nothing_seen_def playlist_event_def bare_event_def)

lemma stream_misses_nothing_witness:
  "\<exists>d evs q. busy_page = Inr d \<and> prefix q (sr_hist busy_stream) \<and> sd_NextSince d = stands_on ''01J8'' q
     \<and> events_of ''us1'' q = evs \<and> length (firsts [] evs) = 2"
proof -
  obtain d where d: "busy_page = Inr d" using busy_page_answered by blast
  have "\<exists>evs q batch. prefix [] q \<and> prefix q (sr_hist busy_stream) \<and> sd_NextSince d = stands_on (sr_gen busy_stream) q
    \<and> events_of (uc_ID (demo_caller [])) q = events_of (uc_ID (demo_caller [])) [] @ evs
    \<and> (if sd_More d then length evs = 10 else events_of (uc_ID (demo_caller [])) q = events_of (uc_ID (demo_caller [])) (sr_hist busy_stream))
    \<and> stateBatch quiet_world evs = Inr batch
    \<and> all_answers (\<lambda>e. freshAnswer quiet_world (demo_caller []) batch (podcastsOf (\<lambda>_. quiet_world) (demo_caller []) evs) e)
        (firsts [] evs) = Inr (sd_Events d)"
    by (rule stream_misses_nothing [OF start_boot busy_reached, of "stands_on ''01J8'' []" "[]" busy_stream busy_stream busy_stream
        10 quiet_world "\<lambda>_. quiet_world" "demo_caller []" d])
      (use d in \<open>simp_all add: busy_events busy_page_def\<close>)
  then obtain evs q where q: "prefix q (sr_hist busy_stream)" "sd_NextSince d = stands_on ''01J8'' q"
    "events_of ''us1'' q = evs"
    "if sd_More d then length evs = 10 else events_of ''us1'' q = events_of ''us1'' (sr_hist busy_stream)"
    unfolding demo_caller_id busy_events(2) by auto
  have "length evs \<le> length (sr_hist busy_stream)"
    using q(1,3) by (metis length_filter_le order_trans prefix_length_le)
  then have "evs = events_of ''us1'' (sr_hist busy_stream)" using q(3,4) by (auto simp: busy_events split: if_splits)
  then have "length (firsts [] evs) = 2"
    by (simp add: busy_events known_kind_def hydratedKinds_def event_key_def kinds_differ)
  with d q show ?thesis by blast
qed

lemma refused_when_it_must_witness:
  "\<exists>page. deltaPage (\<lambda>_. False) ''01J8'' (sr_log (mint_at busy_stream)) (sr_log (mint_at busy_stream))
     (sr_log (mint_at busy_stream)) (sr_log (mint_at busy_stream)) ''us1'' (stands_on ''01J8'' (sr_hist busy_stream)) 10 = Inr page"
proof -
  let ?s = "mint_at busy_stream"
  have r: "stream_step\<^sup>*\<^sup>* first_boot ?s" using busy_reached minted_at by (rule rtranclp.rtrancl_into_rtrancl)
  have s: "sr_log ?s = sr_log busy_stream" "sr_gen ?s = ''01J8''" "sr_hist ?s = sr_hist busy_stream"
    "(stands_on ''01J8'' (sr_hist busy_stream), sr_hist busy_stream) \<in> sr_issued ?s"
    by (simp_all add: mint_at_def busy_events stands_on_def LatestEvent_def)
  have "EventFloor (sr_log ?s) < int (length (sr_hist busy_stream))"
    by (simp add: s EventFloor_def busy_events)
  then show ?thesis
    using refused_when_it_must [OF start_boot r s(4), of "''us1''" 10] s by simp
qed

section \<open>Where something is missed\<close>

text \<open>The event a cursor stands on is not checked once it is pruned.  A log put back to an earlier copy
  that grows again and is pruned up to that number answers the cursor from its own history: what it
  appended before is never told.\<close>

definition after_put_back :: stream where
  "after_put_back =
    (let s = first_boot\<lparr>sr_copies := {(no_events, ''01J8'', [])}\<rparr>;
         s = mint_at (appended 5 ''us1'' eventPlaylist ''P1'' s);
         s = s\<lparr>sr_log := no_events, sr_gen := ''01J8'', sr_hist := []\<rparr>;
         s = appended 8 ''us1'' eventPlaylist ''P3'' (appended 7 ''us1'' eventPlaylist ''P2'' s)
     in s\<lparr>sr_log := snd (PruneEventLog 1 (sr_log s))\<rparr>)"

definition lost_event :: event where
  "lost_event = \<lparr>ev_ID = 1, ev_UserID = ''us1'', ev_Kind = eventPlaylist, ev_ItemPID = ''P2'', ev_WrittenAtNS = 7\<rparr>"

definition covered_event :: event where
  "covered_event = \<lparr>ev_ID = 1, ev_UserID = ''us1'', ev_Kind = eventPlaylist, ev_ItemPID = ''P1'', ev_WrittenAtNS = 5\<rparr>"

lemma cursor_at_floor_misses:
  "stream_step\<^sup>*\<^sup>* first_boot after_put_back
   \<and> (stands_on ''01J8'' [covered_event], [covered_event]) \<in> sr_issued after_put_back
   \<and> lost_event \<in> set (sr_hist after_put_back)
   \<and> (\<exists>evs nxt. deltaPage (\<lambda>_. False) ''01J8'' (sr_log after_put_back) (sr_log after_put_back) (sr_log after_put_back)
         (sr_log after_put_back) ''us1'' (stands_on ''01J8'' [covered_event]) 10 = Inr (evs, nxt, False)
       \<and> lost_event \<notin> set evs \<and> nxt = stands_on ''01J8'' (sr_hist after_put_back))"
proof -
  define a where "a = first_boot\<lparr>sr_copies := {(no_events, ''01J8'', [])}\<rparr>"
  define b where "b = mint_at (appended 5 ''us1'' eventPlaylist ''P1'' a)"
  define c where "c = b\<lparr>sr_log := no_events, sr_gen := ''01J8'', sr_hist := []\<rparr>"
  define d where "d = appended 8 ''us1'' eventPlaylist ''P3'' (appended 7 ''us1'' eventPlaylist ''P2'' c)"
  have s: "after_put_back = d\<lparr>sr_log := snd (PruneEventLog 1 (sr_log d))\<rparr>"
    by (simp add: after_put_back_def d_def c_def b_def a_def Let_def)
  have b: "sr_log b = \<lparr>et_rows = [covered_event], et_last = 1\<rparr>" "sr_gen b = ''01J8''" "sr_now b = 5"
      "sr_copies b = {(no_events, ''01J8'', [])}" "sr_issued b = {(stands_on ''01J8'' [covered_event], [covered_event])}"
    by (simp_all add: b_def a_def first_boot_def mint_at_def appended_def AppendEvent_def no_events_def
        LatestEvent_def stands_on_def covered_event_def)
  have "stream_step first_boot a"
    using stream_step.copied [of first_boot] by (simp add: a_def first_boot_def)
  moreover have "stream_step a (appended 5 ''us1'' eventPlaylist ''P1'' a)"
    by (intro stream_step.grown grow_appended) (simp_all add: a_def first_boot_def)
  moreover have "stream_step (appended 5 ''us1'' eventPlaylist ''P1'' a) b" by (simp add: b_def minted_at)
  moreover have "stream_step b c"
    using stream_step.put_back [of no_events "''01J8''" "[]" b] b by (simp add: c_def)
  moreover have "grows c d"
    unfolding d_def by (intro grows_appended rtranclp.rtrancl_refl) (simp_all add: c_def b)
  then have "stream_step\<^sup>*\<^sup>* c d"
    by (rule rtranclp_mono [THEN predicate2D, rotated]) (auto intro: stream_step.grown)
  moreover have "stream_step d after_put_back" unfolding s by (rule stream_step.pruned)
  ultimately have run: "stream_step\<^sup>*\<^sup>* first_boot after_put_back"
    by (meson converse_rtranclp_into_rtranclp rtranclp.rtrancl_into_rtrancl)
  define last_one where "last_one = \<lparr>ev_ID = 2, ev_UserID = ''us1'', ev_Kind = eventPlaylist, ev_ItemPID = ''P3'', ev_WrittenAtNS = 8\<rparr>"
  have d: "et_rows (sr_log d) = [lost_event, last_one]" "sr_hist d = [lost_event, last_one]"
      "sr_issued d = {(stands_on ''01J8'' [covered_event], [covered_event])}"
    by (simp_all add: d_def c_def b lost_event_def last_one_def)
  have log: "et_rows (sr_log after_put_back) = [last_one]"
    by (simp add: s PruneEventLog_def d lost_event_def last_one_def Let_def)
  have cur: "decodeServerCursor (stands_on ''01J8'' [covered_event])
      = Some \<lparr>vc_gen = ''01J8'', vc_id = 1, vc_at = 5, vc_stamped = True\<rparr>"
    using decode_encodeServer [of "''01J8''" 1 5] by (simp add: stands_on_def bar_def int64_def covered_event_def)
  have "deltaPage (\<lambda>_. False) ''01J8'' (sr_log after_put_back) (sr_log after_put_back) (sr_log after_put_back)
         (sr_log after_put_back) ''us1'' (stands_on ''01J8'' [covered_event]) 10
      = Inr ([last_one], stands_on ''01J8'' [lost_event, last_one], False)"
    using cur
    by (simp add: deltaPage_def pageOf_def EventFloor_def LatestEvent_def EventsSince_def log last_one_def
        stands_on_def)
  then show ?thesis using run d by (auto simp: s lost_event_def last_one_def)
qed

text \<open>A prune between the read of the floor and the read of the events takes events the page then
  passes over.\<close>

lemma prune_during_read_misses:
  "\<exists>evs. deltaPage (\<lambda>_. False) ''01J8'' (sr_log busy_stream) (sr_log busy_stream) (sr_log busy_stream)
      (snd (PruneEventLog 1 (sr_log busy_stream))) ''us1'' (stands_on ''01J8'' []) 10
      = Inr (evs, stands_on ''01J8'' (sr_hist busy_stream), False)
    \<and> length evs = 1 \<and> length (events_of ''us1'' (sr_hist busy_stream)) = 3"
  using decode_boot
  by (simp add: deltaPage_def pageOf_def EventFloor_def LatestEvent_def EventsSince_def busy_events
      PruneEventLog_def Let_def stands_on_def)

end
