(* ===== verification/Stream_Mirror.thy ===== *)
theory Stream_Mirror
  imports Stream_Claims
begin

text \<open>
  A client that mirrors its account's state by the server's change stream: it takes a cursor and reads
  everything once, then follows the stream page by page.  On the server a change is committed first
  and its event appended after (\<open>emitEvent\<close>), and the reads a page is answered with run while
  further changes are committed.

  What is mirrored of a kind about an item is what an answer says of it (\<open>freshAnswer\<close>), a list that
  is empty where a page says nothing (the play state of an item out of sight).
\<close>

type_synonym key = "string \<times> string"

section \<open>Server and client\<close>

text \<open>\<open>sy_pend\<close>: committed changes whose event is not appended yet.  \<open>sy_lost\<close>: those whose event could
  not be appended.\<close>

record 'v system =
  sy_stream :: stream
  sy_val :: "key \<Rightarrow> 'v list"
  sy_pend :: "key set"
  sy_lost :: "key set"

record 'v client =
  cl_cursor :: string
  cl_covers :: "event list"
  cl_mirror :: "key \<Rightarrow> 'v list"

definition mirrored_keys :: "key set" where
  "mirrored_keys = {event_key e | e. known_kind (ev_Kind e)}"

inductive work_step :: "string \<Rightarrow> 'v system \<Rightarrow> 'v system \<Rightarrow> bool" for uid where
  commit: "work_step uid s (s\<lparr>sy_val := (sy_val s)(k := v), sy_pend := insert k (sy_pend s)\<rparr>)"
| emit: "\<lbrakk> grow_step (sy_stream s) st; e = last (sr_hist st); ev_UserID e = uid; event_key e = k \<rbrakk>
    \<Longrightarrow> work_step uid s (s\<lparr>sy_stream := st, sy_pend := sy_pend s - {k}\<rparr>)"
| drop_event: "k \<in> sy_pend s \<Longrightarrow> work_step uid s (s\<lparr>sy_pend := sy_pend s - {k}, sy_lost := insert k (sy_lost s)\<rparr>)"
| others: "grow_step (sy_stream s) st \<Longrightarrow> work_step uid s (s\<lparr>sy_stream := st\<rparr>)"

abbreviation works :: "string \<Rightarrow> 'v system \<Rightarrow> 'v system \<Rightarrow> bool" where "works uid \<equiv> (work_step uid)\<^sup>*\<^sup>*"

text \<open>What the events a cursor covers are, of a stream it stands in.\<close>

definition covered_by :: "string \<Rightarrow> event list \<Rightarrow> event list" where
  "covered_by cur h = (case decodeServerCursor cur of None \<Rightarrow> [] | Some c \<Rightarrow> take (nat (vc_id c)) h)"

definition told :: "(event \<Rightarrow> 'v list) \<Rightarrow> event list \<Rightarrow> (key \<Rightarrow> 'v list) \<Rightarrow> key \<Rightarrow> 'v list" where
  "told says evs m k =
    (case find (\<lambda>e. event_key e = k) (firsts [] evs) of
       None \<Rightarrow> m k | Some e \<Rightarrow> if says e = [] then m k else says e)"

inductive mirror_step :: "string \<Rightarrow> 'v system \<times> 'v client \<Rightarrow> 'v system \<times> 'v client \<Rightarrow> bool" for uid where
  worked: "work_step uid s s' \<Longrightarrow> mirror_step uid (s, c) (s', c)"
| trimmed: "mirror_step uid (s, c) (s\<lparr>sy_stream := (sy_stream s)\<lparr>sr_log := snd (PruneEventLog keep (sr_log (sy_stream s)))\<rparr>\<rparr>, c)"
| pulled: "\<lbrakk> works uid s s2; works uid s2 s3; works uid s3 s4; works uid s4 s'; 0 < limit;
     deltaPage (\<lambda>_. False) (sr_gen (sy_stream s)) (sr_log (sy_stream s)) (sr_log (sy_stream s2))
       (sr_log (sy_stream s3)) (sr_log (sy_stream s4)) uid (cl_cursor c) limit = Inr (evs, nxt, left);
     \<And>e. e \<in> set (firsts [] evs) \<Longrightarrow> \<exists>u. works uid s4 u \<and> works uid u s' \<and> says e = sy_val u (event_key e) \<rbrakk>
    \<Longrightarrow> mirror_step uid (s, c) (s', c\<lparr>cl_cursor := nxt, cl_covers := covered_by nxt (sr_hist (sy_stream s4)),
          cl_mirror := told says evs (cl_mirror c)\<rparr>)"
| read_whole: "\<lbrakk> works uid s s2; works uid s2 s';
     MintServerCursor (\<lambda>_. False) (sr_gen (sy_stream s2)) (sr_log (sy_stream s2)) = Inr cur;
     \<And>k. \<exists>u. works uid s2 u \<and> works uid u s' \<and> m k = sy_val u k \<rbrakk>
    \<Longrightarrow> mirror_step uid (s, c) (s', c\<lparr>cl_cursor := cur, cl_covers := sr_hist (sy_stream s2), cl_mirror := m\<rparr>)"

inductive_cases work_stepE: "work_step uid s t"

section \<open>What a mirror still owes\<close>

definition owed :: "string \<Rightarrow> 'v system \<Rightarrow> nat \<Rightarrow> key \<Rightarrow> bool" where
  "owed uid s n k \<longleftrightarrow> k \<in> sy_pend s \<or> k \<in> sy_lost s
     \<or> (\<exists>e \<in> set (drop n (sr_hist (sy_stream s))). ev_UserID e = uid \<and> event_key e = k)"

definition up_to_date :: "string \<Rightarrow> 'v system \<Rightarrow> nat \<Rightarrow> key \<Rightarrow> 'v list \<Rightarrow> bool" where
  "up_to_date uid s n k x \<longleftrightarrow> sy_val s k = [] \<or> x = sy_val s k \<or> owed uid s n k"

definition mirror_ok :: "string \<Rightarrow> 'v system \<times> 'v client \<Rightarrow> bool" where
  "mirror_ok uid sc \<longleftrightarrow> (case sc of (s, c) \<Rightarrow>
     stream_ok (sy_stream s) \<and> prefix (cl_covers c) (sr_hist (sy_stream s))
   \<and> cl_cursor c = stands_on (sr_gen (sy_stream s)) (cl_covers c)
   \<and> (\<forall>k \<in> mirrored_keys. up_to_date uid s (length (cl_covers c)) k (cl_mirror c k)))"

lemma work_step_stream: "work_step uid s s' \<Longrightarrow> grows (sy_stream s) (sy_stream s')"
  by (erule work_stepE) (auto intro: r_into_rtranclp)

lemma works_stream: "works uid s s' \<Longrightarrow> grows (sy_stream s) (sy_stream s')"
  by (induction rule: rtranclp_induct) (auto dest: work_step_stream intro: rtranclp_trans)

lemma grow_hist: "grow_step st st' \<Longrightarrow> sr_hist st' = sr_hist st @ [last (sr_hist st')]"
  by (elim grow_stepE) simp

lemma up_to_date_step:
  assumes "work_step uid s s'" "up_to_date uid s n k x" "n \<le> length (sr_hist (sy_stream s))"
  shows "up_to_date uid s' n k x"
  using assms(1)
proof cases
  case (commit k' v)
  then show ?thesis using assms(2) by (auto simp: up_to_date_def owed_def)
next
  case (emit st e k')
  then have "sr_hist st = sr_hist (sy_stream s) @ [e]" using grow_hist [OF emit(2)] by simp
  then have "set (drop n (sr_hist st)) = insert e (set (drop n (sr_hist (sy_stream s))))"
    using assms(3) by simp
  then show ?thesis using assms(2) emit(1,4,5) by (auto simp: up_to_date_def owed_def)
next
  case (drop_event k')
  then show ?thesis using assms(2) by (auto simp: up_to_date_def owed_def)
next
  case (others st)
  obtain e where "sr_hist st = sr_hist (sy_stream s) @ [e]" using grow_hist [OF others(2)] by blast
  then have "set (drop n (sr_hist st)) = insert e (set (drop n (sr_hist (sy_stream s))))"
    using assms(3) by simp
  then show ?thesis using assms(2) others(1) by (auto simp: up_to_date_def owed_def)
qed

lemma work_step_longer: "work_step uid s s' \<Longrightarrow> length (sr_hist (sy_stream s)) \<le> length (sr_hist (sy_stream s'))"
  by (elim work_stepE) (auto dest!: grow_hist simp flip: length_greater_0_conv, (metis length_append le_add1)+)

lemma up_to_date_works:
  assumes "works uid s s'" "up_to_date uid s n k x" "n \<le> length (sr_hist (sy_stream s))"
  shows "up_to_date uid s' n k x \<and> n \<le> length (sr_hist (sy_stream s'))"
  using assms
proof (induction rule: rtranclp_induct)
  case (step y z)
  then have y: "up_to_date uid y n k x" "n \<le> length (sr_hist (sy_stream y))" by blast+
  show ?case using up_to_date_step [OF step.hyps(2) y] y(2) work_step_longer [OF step.hyps(2)] by linarith
qed simp

text \<open>The events between two positions are the page's; a key none of them is about is as up to date
  after it.\<close>

lemma up_to_date_skip:
  assumes "up_to_date uid s n k x" "n \<le> m" "m \<le> length h" "prefix h (sr_hist (sy_stream s))"
    and "\<And>e. e \<in> set (take (m - n) (drop n h)) \<Longrightarrow> ev_UserID e = uid \<Longrightarrow> event_key e \<noteq> k"
  shows "up_to_date uid s m k x"
proof -
  have "\<exists>e \<in> set (drop m (sr_hist (sy_stream s))). ev_UserID e = uid \<and> event_key e = k"
    if e: "e \<in> set (drop n (sr_hist (sy_stream s)))" "ev_UserID e = uid" "event_key e = k" for e
  proof -
    have "drop n (sr_hist (sy_stream s)) = take (m - n) (drop n h) @ drop m (sr_hist (sy_stream s))"
    proof -
      have "take (m - n) (drop n (sr_hist (sy_stream s))) = take (m - n) (drop n h)"
        using assms(3,4) by (auto simp: prefix_def take_drop)
      then show ?thesis
        by (metis append_take_drop_id assms(2) drop_drop le_add_diff_inverse2)
    qed
    then show ?thesis using e assms(5) by auto
  qed
  then show ?thesis using assms(1) by (auto simp: up_to_date_def owed_def)
qed

lemma told_new:
  assumes "e \<in> set evs" "known_kind (ev_Kind e)"
  obtains f where "f \<in> set (firsts [] evs)" "event_key f = event_key e"
    "told says evs m (event_key e) = (if says f = [] then m (event_key e) else says f)"
proof -
  have "event_key e \<in> event_key ` set (firsts [] evs)" using assms firsts_keys [of "[]" evs] by auto
  then have "find (\<lambda>f. event_key f = event_key e) (firsts [] evs) \<noteq> None"
    by (auto simp: find_None_iff)
  then obtain f where f: "find (\<lambda>f. event_key f = event_key e) (firsts [] evs) = Some f" by blast
  then have "f \<in> set (firsts [] evs)" "event_key f = event_key e" by (auto simp: find_Some_iff)
  then show thesis using f by (intro that [of f]) (auto simp: told_def)
qed

lemma told_same:
  "(\<And>e. e \<in> set evs \<Longrightarrow> known_kind (ev_Kind e) \<Longrightarrow> event_key e \<noteq> k) \<Longrightarrow> told says evs m k = m k"
proof -
  assume a: "\<And>e. e \<in> set evs \<Longrightarrow> known_kind (ev_Kind e) \<Longrightarrow> event_key e \<noteq> k"
  have "k \<notin> event_key ` set (firsts [] evs)" using a firsts_keys [of "[]" evs] by auto
  then have "find (\<lambda>e. event_key e = k) (firsts [] evs) = None" by (auto simp: find_None_iff)
  then show ?thesis by (simp add: told_def)
qed

section \<open>Every step keeps the mirror right\<close>

lemma cursor_decodes:
  assumes "stream_ok st" "prefix p (sr_hist st)"
  shows "decodeServerCursor (stands_on (sr_gen st) p) = Some \<lparr>vc_gen = sr_gen st, vc_id = int (length p),
     vc_at = (if p = [] then 0 else ev_WrittenAtNS (last p)), vc_stamped = True\<rparr>"
proof -
  obtain b where b: "\<forall>t \<in> dom b. 0 < t \<and> t \<le> sr_now st" "\<forall>h \<in> known st. born b h"
    using assms(1) unfolding stream_ok_def by blast
  have p: "p = take (length p) (sr_hist st)" using assms(2) by (auto simp: prefix_def)
  have "sr_now st < 2 ^ 63" using assms(1) by (simp add: stream_ok_def)
  then have t: "\<forall>t \<in> dom b. 0 < t \<and> t < 2 ^ 63" using b(1) by (meson le_less_trans)
  have "length (sr_hist st) < 2 ^ 63" using assms(1) by (auto simp: stream_ok_def known_def)
  then have "length p < 2 ^ 63" using prefix_length_le [OF assms(2)] by simp
  moreover have "born b p" using b(2) p by (metis (mono_tags, lifting) born_take known_def mem_Collect_eq)
  moreover have "bar \<notin> set (sr_gen st)" using assms(1) by (simp add: stream_ok_def)
  ultimately show ?thesis using decode_stands_on(1) t by blast
qed

lemma covered_by_stands:
  assumes "stream_ok st" "prefix p (sr_hist st)"
  shows "covered_by (stands_on (sr_gen st) p) (sr_hist st) = p"
  using assms(2) by (auto simp: covered_by_def cursor_decodes [OF assms] prefix_def)

lemma works_ok: "works uid s s' \<Longrightarrow> stream_ok (sy_stream s) \<Longrightarrow>
    stream_ok (sy_stream s') \<and> prefix (sr_hist (sy_stream s)) (sr_hist (sy_stream s')) \<and> sr_gen (sy_stream s') = sr_gen (sy_stream s)"
  using works_stream grows_ok grows_same by blast

lemma mirror_step_ok:
  assumes "mirror_step uid sc sc'" "mirror_ok uid sc"
  shows "mirror_ok uid sc'"
  using assms(1)
proof cases
  case (worked s s' c)
  have ok: "stream_ok (sy_stream s)" "prefix (cl_covers c) (sr_hist (sy_stream s))"
    using assms(2) worked by (auto simp: mirror_ok_def)
  have len: "length (cl_covers c) \<le> length (sr_hist (sy_stream s))" using ok(2) by (rule prefix_length_le)
  have w: "works uid s s'" using worked(3) by (rule r_into_rtranclp)
  note w' = works_ok [OF w ok(1)]
  have "up_to_date uid s' (length (cl_covers c)) k (cl_mirror c k)" if "k \<in> mirrored_keys" for k
    using up_to_date_step [OF worked(3) _ len] assms(2) worked that by (auto simp: mirror_ok_def)
  then show ?thesis using assms(2) worked w' by (auto simp: mirror_ok_def intro: prefix_order.trans)
next
  case (trimmed s c keep)
  let ?s' = "s\<lparr>sy_stream := (sy_stream s)\<lparr>sr_log := snd (PruneEventLog keep (sr_log (sy_stream s)))\<rparr>\<rparr>"
  have "stream_ok (sy_stream ?s')"
    using stream_step_ok [OF stream_step.pruned [of "sy_stream s" keep]] assms(2) trimmed by (simp add: mirror_ok_def)
  then show ?thesis using assms(2) trimmed by (simp add: mirror_ok_def up_to_date_def owed_def)
next
  case (pulled s s2 s3 s4 s' limit c evs nxt left says)
  have ok: "stream_ok (sy_stream s)" "prefix (cl_covers c) (sr_hist (sy_stream s))"
    "cl_cursor c = stands_on (sr_gen (sy_stream s)) (cl_covers c)"
    "\<And>k. k \<in> mirrored_keys \<Longrightarrow> up_to_date uid s (length (cl_covers c)) k (cl_mirror c k)"
    using assms(2) pulled(1) by (auto simp: mirror_ok_def)
  let ?n = "length (cl_covers c)" and ?h4 = "sr_hist (sy_stream s4)"
  have w4: "works uid s s4" using pulled(3-5) by simp
  have w': "works uid s s'" using w4 pulled(6) by simp
  note ok4 = works_ok [OF w4 ok(1)]
  note ok' = works_ok [OF pulled(6) conjunct1 [OF ok4]]
  have n4: "take ?n ?h4 = cl_covers c" using ok(2) ok4 by (auto simp: prefix_def)
  have g: "grows (sy_stream s) (sy_stream s2)" "grows (sy_stream s2) (sy_stream s3)" "grows (sy_stream s3) (sy_stream s4)"
    using works_stream pulled(3-5) by blast+
  have cur: "decodeServerCursor (cl_cursor c) = Some \<lparr>vc_gen = sr_gen (sy_stream s), vc_id = int ?n,
     vc_at = (if cl_covers c = [] then 0 else ev_WrittenAtNS (last (cl_covers c))), vc_stamped = True\<rparr>"
    unfolding ok(3) by (rule cursor_decodes [OF ok(1,2)])
  obtain q where q: "prefix (cl_covers c) q" "prefix q ?h4" "nxt = stands_on (sr_gen (sy_stream s)) q"
    "events_of uid q = events_of uid (cl_covers c) @ evs"
    using page_covers [OF ok(1) g cur _ pulled(7,8)] n4 by auto
  have qc: "covered_by nxt ?h4 = q" using covered_by_stands [OF conjunct1 [OF ok4] q(2)] q(3) ok4 by simp
  have page: "filter (\<lambda>e. ev_UserID e = uid) (take (length q - ?n) (drop ?n ?h4)) = evs"
  proof -
    have "take (length q - ?n) (drop ?n ?h4) = drop ?n q" using q(1,2) by (auto simp: prefix_def)
    moreover have "events_of uid q = events_of uid (cl_covers c) @ events_of uid (drop ?n q)"
      using q(1) by (auto simp: prefix_def)
    ultimately show ?thesis using q(4) by simp
  qed
  have nq: "?n \<le> length q" "length q \<le> length ?h4" using q(1,2) prefix_length_le by blast+
  have "up_to_date uid s' (length q) k (told says evs (cl_mirror c) k)" if k: "k \<in> mirrored_keys" for k
  proof (cases "\<exists>e \<in> set evs. event_key e = k")
    case True
    then obtain e where e: "e \<in> set evs" "event_key e = k" by blast
    have "known_kind (ev_Kind e)" using k e(2) by (auto simp: mirrored_keys_def event_key_def)
    then obtain f where f: "f \<in> set (firsts [] evs)" "event_key f = k"
      "told says evs (cl_mirror c) k = (if says f = [] then cl_mirror c k else says f)"
      using told_new [OF e(1)] e(2) by metis
    obtain u where u: "works uid s4 u" "works uid u s'" "says f = sy_val u k"
      using pulled(9) [OF f(1)] f(2) by blast
    have "up_to_date uid u (length q) k (told says evs (cl_mirror c) k)"
      using u(3) f(3) by (auto simp: up_to_date_def)
    moreover have "length q \<le> length (sr_hist (sy_stream u))"
      using works_ok [OF u(1) conjunct1 [OF ok4]] nq(2) by (auto dest: prefix_length_le)
    ultimately show ?thesis using up_to_date_works [OF u(2)] by blast
  next
    case False
    then have "told says evs (cl_mirror c) k = cl_mirror c k" by (intro told_same) auto
    moreover have "up_to_date uid s' ?n k (cl_mirror c k)"
      using up_to_date_works [OF w' ok(4) [OF k] prefix_length_le [OF ok(2)]] by blast
    then have "up_to_date uid s' (length q) k (cl_mirror c k)"
    proof (rule up_to_date_skip [OF _ nq])
      show "prefix ?h4 (sr_hist (sy_stream s'))" using ok' by blast
      show "event_key e \<noteq> k" if "e \<in> set (take (length q - ?n) (drop ?n ?h4))" "ev_UserID e = uid" for e
      proof -
        have "e \<in> set evs" using that page by auto
        then show ?thesis using False by blast
      qed
    qed
    ultimately show ?thesis by simp
  qed
  then show ?thesis using pulled(2) ok' ok4 q(2,3) qc
    by (auto simp: mirror_ok_def intro: prefix_order.trans)
next
  case (read_whole s s2 s' cur m c)
  have ok: "stream_ok (sy_stream s)" using assms(2) read_whole(1) by (auto simp: mirror_ok_def)
  note ok2 = works_ok [OF read_whole(3) ok]
  note ok' = works_ok [OF read_whole(4) conjunct1 [OF ok2]]
  let ?h2 = "sr_hist (sy_stream s2)"
  have keeps2: "keeps ?h2 (sr_log (sy_stream s2))" using ok2 by (simp add: stream_ok_def)
  then have cur: "cur = stands_on (sr_gen (sy_stream s2)) ?h2"
    using read_whole(5) by (auto simp: MintServerCursor_def LatestEvent_keeps stands_on_def)
  have "up_to_date uid s' (length ?h2) k (m k)" for k
  proof -
    obtain u where u: "works uid s2 u" "works uid u s'" "m k = sy_val u k" using read_whole(6) by blast
    have "up_to_date uid u (length ?h2) k (m k)" using u(3) by (simp add: up_to_date_def)
    moreover have "length ?h2 \<le> length (sr_hist (sy_stream u))"
      using works_ok [OF u(1) conjunct1 [OF ok2]] by (auto dest: prefix_length_le)
    ultimately show ?thesis using up_to_date_works [OF u(2)] by blast
  qed
  then show ?thesis using read_whole(2) ok' ok2 cur by (auto simp: mirror_ok_def)
qed

definition mirror_start :: "'v system \<times> 'v client \<Rightarrow> bool" where
  "mirror_start sc \<longleftrightarrow> (case sc of (s, c) \<Rightarrow> stream_start (sy_stream s) \<and> sy_pend s = {} \<and> sy_lost s = {}
     \<and> cl_covers c = [] \<and> cl_cursor c = stands_on (sr_gen (sy_stream s)) [] \<and> cl_mirror c = sy_val s)"

lemma mirror_ok_start: "mirror_start sc \<Longrightarrow> mirror_ok uid sc"
  by (auto simp: mirror_start_def mirror_ok_def up_to_date_def stream_ok_start)

interpretation mirror_runs: transition_system mirror_start "mirror_step uid" "mirror_ok uid"
  by unfold_locales (erule mirror_ok_start, erule (1) mirror_step_ok)

section \<open>A quiet server\<close>

text \<open>One request of a client while nothing else happens: a page, or everything again when the cursor is
  refused.\<close>

definition quietPull :: "string \<Rightarrow> nat \<Rightarrow> 'v system \<Rightarrow> 'v client \<Rightarrow> 'v client" where
  "quietPull uid limit s c =
    (let st = sy_stream s in
     case deltaPage (\<lambda>_. False) (sr_gen st) (sr_log st) (sr_log st) (sr_log st) (sr_log st) uid (cl_cursor c) limit of
       Inr (evs, nxt, left) \<Rightarrow> c\<lparr>cl_cursor := nxt, cl_covers := covered_by nxt (sr_hist st),
          cl_mirror := told (\<lambda>e. sy_val s (event_key e)) evs (cl_mirror c)\<rparr>
     | Inl x \<Rightarrow> c\<lparr>cl_cursor := encodeServerCursor (sr_gen st) (fst (LatestEvent (sr_log st))) (snd (LatestEvent (sr_log st))),
          cl_covers := sr_hist st, cl_mirror := sy_val s\<rparr>)"

definition outstanding :: "string \<Rightarrow> 'v system \<Rightarrow> 'v client \<Rightarrow> event list" where
  "outstanding uid s c = events_of uid (drop (length (cl_covers c)) (sr_hist (sy_stream s)))"

lemma quietPull_step: "0 < limit \<Longrightarrow> mirror_step uid (s, c) (s, quietPull uid limit s c)"
proof (cases "deltaPage (\<lambda>_. False) (sr_gen (sy_stream s)) (sr_log (sy_stream s)) (sr_log (sy_stream s))
    (sr_log (sy_stream s)) (sr_log (sy_stream s)) uid (cl_cursor c) limit")
  case (Inl x)
  have "mirror_step uid (s, c) (s, c\<lparr>cl_cursor := encodeServerCursor (sr_gen (sy_stream s))
      (fst (LatestEvent (sr_log (sy_stream s)))) (snd (LatestEvent (sr_log (sy_stream s)))),
      cl_covers := sr_hist (sy_stream s), cl_mirror := sy_val s\<rparr>)"
    by (rule mirror_step.read_whole [of uid s s s]) (auto simp: MintServerCursor_def split: prod.splits)
  then show ?thesis using Inl by (simp add: quietPull_def Let_def)
next
  case (Inr r)
  assume l: "0 < limit"
  obtain evs nxt left where r: "r = (evs, nxt, left)" by (cases r) auto
  have "mirror_step uid (s, c) (s, c\<lparr>cl_cursor := nxt, cl_covers := covered_by nxt (sr_hist (sy_stream s)),
          cl_mirror := told (\<lambda>e. sy_val s (event_key e)) evs (cl_mirror c)\<rparr>)"
    by (rule mirror_step.pulled [of uid s s s s s limit c evs nxt left]) (use Inr r l in auto)
  then show ?thesis using Inr r by (simp add: quietPull_def Let_def)
qed

lemma quietPull_progress:
  assumes "mirror_ok uid (s, c)" "0 < limit"
  shows "length (outstanding uid s (quietPull uid limit s c)) \<le> length (outstanding uid s c) - limit"
proof (cases "deltaPage (\<lambda>_. False) (sr_gen (sy_stream s)) (sr_log (sy_stream s)) (sr_log (sy_stream s))
    (sr_log (sy_stream s)) (sr_log (sy_stream s)) uid (cl_cursor c) limit")
  case (Inl x)
  then show ?thesis by (simp add: quietPull_def Let_def outstanding_def)
next
  case (Inr r)
  obtain evs nxt left where r: "r = (evs, nxt, left)" by (cases r) auto
  let ?h = "sr_hist (sy_stream s)" and ?n = "length (cl_covers c)"
  have ok: "stream_ok (sy_stream s)" "prefix (cl_covers c) ?h" "cl_cursor c = stands_on (sr_gen (sy_stream s)) (cl_covers c)"
    using assms(1) by (auto simp: mirror_ok_def)
  have cur: "decodeServerCursor (cl_cursor c) = Some \<lparr>vc_gen = sr_gen (sy_stream s), vc_id = int ?n,
     vc_at = (if cl_covers c = [] then 0 else ev_WrittenAtNS (last (cl_covers c))), vc_stamped = True\<rparr>"
    unfolding ok(3) by (rule cursor_decodes [OF ok(1,2)])
  have n: "take ?n ?h = cl_covers c" using ok(2) by (auto simp: prefix_def)
  obtain q where q: "prefix (cl_covers c) q" "prefix q ?h" "nxt = stands_on (sr_gen (sy_stream s)) q"
    "events_of uid q = events_of uid (cl_covers c) @ evs"
    "if left then length evs = limit else events_of uid q = events_of uid ?h"
    using page_covers [OF ok(1) rtranclp.rtrancl_refl rtranclp.rtrancl_refl rtranclp.rtrancl_refl cur _ assms(2) Inr [unfolded r]] n
    by auto
  have c': "cl_covers (quietPull uid limit s c) = q"
    using Inr r covered_by_stands [OF ok(1) q(2)] q(3) by (simp add: quietPull_def Let_def)
  have whole: "events_of uid ?h = events_of uid p @ events_of uid (drop (length p) ?h)" if "prefix p ?h" for p
    using that by (auto simp: prefix_def)
  have "outstanding uid s c = evs @ outstanding uid s (quietPull uid limit s c)"
    using whole [OF ok(2)] whole [OF q(2)] q(4) by (simp add: outstanding_def c')
  moreover have "\<not> left \<Longrightarrow> outstanding uid s (quietPull uid limit s c) = []"
    using whole [OF q(2)] q(5) by (simp add: outstanding_def c')
  ultimately show ?thesis using q(5) by (cases left) auto
qed

lemma quietPulls:
  assumes "mirror_ok uid (s, c)" "0 < limit"
  shows "mirror_ok uid (s, (quietPull uid limit s ^^ n) c)
    \<and> length (outstanding uid s ((quietPull uid limit s ^^ n) c)) \<le> length (outstanding uid s c) - n * limit"
proof (induction n)
  case (Suc n)
  then show ?case
    using mirror_step_ok [OF quietPull_step [OF assms(2)], of uid s "(quietPull uid limit s ^^ n) c"]
      quietPull_progress [OF _ assms(2), of uid s "(quietPull uid limit s ^^ n) c"] by auto
qed (use assms in simp)

text \<open>The abstract server and its client together.  From the moment the server is quiet, every event of
  the account appended, as many requests as the outstanding events fill pages leave the client's mirror,
  for every kind about every item of which the server says anything and whose event was not lost, with
  what the server says.  Before that, changes committed while its pages were read, late events, other
  accounts' events and prunes between requests may have come; a prune inside a request and a restored
  log are not steps of this system.  The order of commit and event is a rule of the server, put in by
  hand: what the code's pages and cursors add to it is proved in \<open>Stream_Claims\<close>.\<close>

theorem mirror_catches_up:
  assumes "mirror_start sc0" "(mirror_step uid)\<^sup>*\<^sup>* sc0 (s, c)" "sy_pend s = {}" "0 < limit"
    and "length (outstanding uid s c) \<le> n * limit"
    and "k \<in> mirrored_keys" "k \<notin> sy_lost s" "sy_val s k \<noteq> []"
  shows "cl_mirror ((quietPull uid limit s ^^ n) c) k = sy_val s k"
proof -
  let ?c = "(quietPull uid limit s ^^ n) c"
  have "mirror_ok uid (s, c)" using mirror_runs.inv_reachable assms(1,2) .
  then have "mirror_ok uid (s, ?c)" "outstanding uid s ?c = []"
    using quietPulls [OF _ assms(4), of uid s c n] assms(5) by auto
  then have "up_to_date uid s (length (cl_covers ?c)) k (cl_mirror ?c k)" "\<not> owed uid s (length (cl_covers ?c)) k"
    using assms(3,6,7) by (auto simp: mirror_ok_def owed_def outstanding_def filter_empty_conv)
  then show ?thesis using assms(8) by (simp add: up_to_date_def)
qed

definition quiet_before :: "string system" where
  "quiet_before = \<lparr>sy_stream = first_boot, sy_val = (\<lambda>_. [''light'']), sy_pend = {}, sy_lost = {}\<rparr>"

definition demo_client :: "string client" where
  "demo_client = \<lparr>cl_cursor = stands_on ''01J8'' [], cl_covers = [], cl_mirror = (\<lambda>_. [''light''])\<rparr>"

definition prefs_key :: key where "prefs_key = (eventPrefs, '''')"

definition prefs_committed :: "string system" where
  "prefs_committed = quiet_before\<lparr>sy_val := (sy_val quiet_before)(prefs_key := [''dark'']), sy_pend := {prefs_key}\<rparr>"

definition prefs_told :: "string system" where
  "prefs_told = prefs_committed\<lparr>sy_stream := appended 5 ''us1'' eventPrefs '''' first_boot, sy_pend := {}\<rparr>"

lemma first_boot_simps [simp]:
  "sr_log first_boot = no_events" "sr_hist first_boot = []" "sr_now first_boot = 0" "sr_gen first_boot = ''01J8''"
  by (simp_all add: first_boot_def)

lemma prefs_told_reached: "(mirror_step ''us1'')\<^sup>*\<^sup>* (quiet_before, demo_client) (prefs_told, demo_client)"
proof -
  have "work_step ''us1'' quiet_before prefs_committed"
    using work_step.commit [of "''us1''" quiet_before prefs_key "[''dark'']"]
    by (simp add: prefs_committed_def quiet_before_def)
  moreover have "work_step ''us1'' prefs_committed
      (prefs_committed\<lparr>sy_stream := appended 5 ''us1'' eventPrefs '''' first_boot,
        sy_pend := sy_pend prefs_committed - {prefs_key}\<rparr>)"
    by (rule work_step.emit [OF _ refl])
      (simp_all add: prefs_committed_def quiet_before_def grow_appended event_key_def prefs_key_def)
  then have "work_step ''us1'' prefs_committed prefs_told"
    by (simp add: prefs_told_def prefs_committed_def quiet_before_def)
  ultimately show ?thesis by (meson converse_rtranclp_into_rtranclp mirror_step.worked rtranclp.rtrancl_refl)
qed

lemma mirror_catches_up_witness:
  "cl_mirror ((quietPull ''us1'' 10 prefs_told ^^ 1) demo_client) prefs_key = [''dark'']"
proof -
  have "cl_mirror ((quietPull ''us1'' 10 prefs_told ^^ 1) demo_client) prefs_key = sy_val prefs_told prefs_key"
  proof (rule mirror_catches_up [OF _ prefs_told_reached])
    show "mirror_start (quiet_before, demo_client)"
      using start_boot by (simp add: mirror_start_def quiet_before_def demo_client_def)
    show "length (outstanding ''us1'' prefs_told demo_client) \<le> 1 * 10"
      by (simp add: outstanding_def prefs_told_def demo_client_def)
    have "prefs_key = event_key \<lparr>ev_ID = 0, ev_UserID = '''', ev_Kind = eventPrefs, ev_ItemPID = '''', ev_WrittenAtNS = 0\<rparr>"
      by (simp add: prefs_key_def event_key_def)
    moreover have "known_kind eventPrefs" by (simp add: known_kind_def hydratedKinds_def)
    ultimately show "prefs_key \<in> mirrored_keys" unfolding mirrored_keys_def by force
  qed (simp_all add: prefs_told_def prefs_committed_def quiet_before_def)
  then show ?thesis by (simp add: prefs_told_def prefs_committed_def quiet_before_def)
qed

end
