(* ===== verification/Playback.thy ===== *)
theory Playback
  imports Event_Log Play_State Server_Sync Float64
begin

text \<open>
  Play state (service/playback.go, db/stamps.go): resume positions, live and replayed from a device
  that was offline, the played and finished marks they cross into, stars and ratings.

  The catalog keeps the state; its operations are a parameter, the record \<open>playback\<close> over the
  catalog's own state \<open>'c\<close>, and may answer anything.  The clock is read once per operation.  A user's
  operations on one item exclude each other (\<open>lockPlayed\<close>), so each is one function from world to
  world.  What a play changes for gpodder clients is left out.
\<close>

section \<open>The catalog and the tables\<close>

record 'c playback =
  pb_State :: "string \<Rightarrow> string \<Rightarrow> 'c \<Rightarrow> wax_error + catalog_state option"
  pb_Checkpoint :: "string \<Rightarrow> string \<Rightarrow> int \<Rightarrow> int option \<Rightarrow> 'c \<Rightarrow> wax_error option \<times> 'c"
  pb_MarkPlayed :: "string \<Rightarrow> string \<Rightarrow> bool \<Rightarrow> int option \<Rightarrow> 'c \<Rightarrow> wax_error option \<times> 'c"
  pb_SetPlayed :: "string \<Rightarrow> string \<Rightarrow> bool \<Rightarrow> bool \<Rightarrow> int option \<Rightarrow> int option \<Rightarrow> 'c \<Rightarrow> (wax_error + bool) \<times> 'c"
  pb_SetStar :: "string \<Rightarrow> string \<Rightarrow> bool \<Rightarrow> int option \<Rightarrow> 'c \<Rightarrow> (wax_error + bool) \<times> 'c"
  pb_SetRating :: "string \<Rightarrow> string \<Rightarrow> int option \<Rightarrow> int option \<Rightarrow> 'c \<Rightarrow> (wax_error + bool) \<times> 'c"

record play_stamp =
  sp_PositionNS :: int
  sp_SeenNS :: int
  sp_GpodderAction :: int

record listen_session =
  ln_SessionID :: string
  ln_PID :: string
  ln_StartedAt :: time
  ln_MsPlayed :: int
  ln_SkippedMs :: int
  ln_Finished :: bool
  ln_Client :: string
  ln_Source :: string

datatype mark_state = ListenMarkClaimed | ListenMarkLanded | ListenMarkNotOwed

record listen_row =
  lr_UserID :: string
  lr_ItemPID :: string
  lr_MediaType :: string
  lr_Session :: listen_session
  lr_ReceivedAtNS :: int
  lr_MarkState :: mark_state

text \<open>\<open>pw_scrobbles\<close> is the outbox of the scrobbling services, \<open>pw_marked\<close> records, for saying what is
  promised, each session whose mark the catalog took.\<close>

record 'c play_world =
  pw_catalog :: 'c
  pw_stamps :: "string \<times> string \<rightharpoonup> play_stamp"
  pw_listens :: "listen_row list"
  pw_events :: event_table
  pw_scrobbles :: "(string \<times> string \<times> time) list"
  pw_marked :: "(string \<times> string) list"

datatype play_call =
  CPlayStamp | CStampPlay | CTouchPlay | CPlayEvent | CInsertListens | CDeleteListens | CSetMarks string mark_state | CPendingMarks

section \<open>Stamps\<close>

definition PlayStamp :: "string \<Rightarrow> string \<Rightarrow> 'c play_world \<Rightarrow> int" where
  "PlayStamp userID itemPID w = (case pw_stamps w (userID, itemPID) of None \<Rightarrow> 0 | Some st \<Rightarrow> sp_PositionNS st)"

definition StampPlayState ::
    "(play_call \<Rightarrow> bool) \<Rightarrow> time \<Rightarrow> string \<Rightarrow> string \<Rightarrow> int \<Rightarrow> int \<Rightarrow> 'c play_world \<Rightarrow> 'c play_world" where
  "StampPlayState broken now userID itemPID ns act w =
    (if broken CStampPlay then w
     else w\<lparr>pw_stamps := (pw_stamps w)((userID, itemPID) \<mapsto>
            \<lparr>sp_PositionNS = ns, sp_SeenNS = now, sp_GpodderAction = act\<rparr>)\<rparr>)"

definition TouchPlayStamp ::
    "(play_call \<Rightarrow> bool) \<Rightarrow> time \<Rightarrow> string \<Rightarrow> string \<Rightarrow> int \<Rightarrow> 'c play_world \<Rightarrow> 'c play_world" where
  "TouchPlayStamp broken now userID itemPID act w =
    (if broken CTouchPlay then w
     else w\<lparr>pw_stamps := (pw_stamps w)((userID, itemPID) \<mapsto>
            \<lparr>sp_PositionNS = PlayStamp userID itemPID w, sp_SeenNS = now, sp_GpodderAction = act\<rparr>)\<rparr>)"

definition PruneStamps :: "int \<Rightarrow> 'c play_world \<Rightarrow> 'c play_world" where
  "PruneStamps olderThanNS w =
    w\<lparr>pw_stamps := (\<lambda>k. case pw_stamps w k of None \<Rightarrow> None
       | Some st \<Rightarrow> if sp_PositionNS st < olderThanNS \<and> sp_SeenNS st < olderThanNS then None else Some st)\<rparr>"

section \<open>The rules\<close>

definition musicPlayedFloorMS :: int where "musicPlayedFloorMS = 4 * 60 * 1000"
definition musicPlayedFraction :: rat where "musicPlayedFraction = f64 (1 / 2)"
definition musicLongTrackMS :: int where "musicLongTrackMS = 30 * 60 * 1000"
definition podcastFraction :: rat where "podcastFraction = f64 (9 / 10)"
definition audiobookFraction :: rat where "audiobookFraction = f64 (99 / 100)"
definition spokenFinishedFraction :: rat where "spokenFinishedFraction = f64 (99 / 100)"
definition recencyGuard :: duration where "recencyGuard = 10 * minute"

definition clampRecorded :: "time \<Rightarrow> time \<Rightarrow> int" where
  "clampRecorded now t = (if now < t \<or> t < 0 then now else t)"

definition asOfNS :: "time \<Rightarrow> time option \<Rightarrow> int option" where
  "asOfNS now recordedAt = map_option (clampRecorded now) recordedAt"

definition recencyPrimary :: "item_view \<Rightarrow> bool" where
  "recencyPrimary it \<longleftrightarrow> iv_Kind it = KindBook \<or> iv_Kind it = KindTrack \<and> musicLongTrackMS \<le> iv_DurationMS it"

definition applyReplayedPosition :: "bool \<Rightarrow> int \<Rightarrow> int \<Rightarrow> int \<Rightarrow> int \<Rightarrow> bool" where
  "applyReplayedPosition recencyPrim positionMS recNS curPositionMS stampNS \<longleftrightarrow>
    (if stampNS < recNS then True
     else if recencyPrim then False
     else curPositionMS < positionMS \<and> stampNS - recNS \<le> recencyGuard)"

definition crossedPlayedThreshold :: "string \<Rightarrow> int \<Rightarrow> int \<Rightarrow> bool" where
  "crossedPlayedThreshold mediaType msPlayed durationMS \<longleftrightarrow>
    (if msPlayed \<le> 0 then False
     else if durationMS \<le> 0 then False
     else if mediaType = ''podcast'' then f64_mul podcastFraction (f64 (of_int durationMS)) \<le> f64 (of_int msPlayed)
     else if mediaType = ''audiobook'' then f64_mul audiobookFraction (f64 (of_int durationMS)) \<le> f64 (of_int msPlayed)
     else if f64_mul musicPlayedFraction (f64 (of_int durationMS)) \<le> f64 (of_int msPlayed) then True
     else musicPlayedFloorMS \<le> msPlayed \<and> durationMS \<le> musicLongTrackMS)"

text \<open>Whether a spoken-word position owes a mark, and whether that finishes the item.\<close>

definition spokenWordCrossing ::
    "'c playback \<Rightarrow> user_ctx \<Rightarrow> item_view \<Rightarrow> int \<Rightarrow> int option \<Rightarrow> 'c \<Rightarrow> svc_error + bool \<times> bool" where
  "spokenWordCrossing pb uc it positionMS recordedAt c =
    (let mt = mediaTypeForKind (iv_Kind it) in
     if mt \<noteq> ''podcast'' \<and> mt \<noteq> ''audiobook'' then Inr (False, False)
     else if iv_DurationMS it \<le> 0 then Inr (False, False)
     else let frac = (if mt = ''audiobook'' then audiobookFraction else podcastFraction) in
     if f64 (of_int positionMS) < f64_mul frac (f64 (of_int (iv_DurationMS it))) then Inr (False, False)
     else let finished = f64_mul spokenFinishedFraction (f64 (of_int (iv_DurationMS it))) \<le> f64 (of_int positionMS) in
     case pb_State pb (uc_CatalogPID uc) (iv_PID it) c of
       Inl e \<Rightarrow> Inl (classify e)
     | Inr st \<Rightarrow>
        (case st of
           Some s \<Rightarrow>
             if cs_Played s then Inr (False, False)
             else (case recordedAt of
                     Some r \<Rightarrow> if r < cs_PlayedChangedAt s then Inr (False, False) else Inr (True, finished)
                   | None \<Rightarrow> Inr (True, finished))
         | None \<Rightarrow> Inr (True, finished)))"

section \<open>Positions\<close>

definition touchPlayStamp ::
    "(play_call \<Rightarrow> bool) \<Rightarrow> time \<Rightarrow> user_ctx \<Rightarrow> item_view \<Rightarrow> int \<Rightarrow> 'c play_world \<Rightarrow> 'c play_world" where
  "touchPlayStamp broken now uc it by w =
    (if mediaTypeForKind (iv_Kind it) \<noteq> ''podcast'' then w
     else TouchPlayStamp broken now (uc_ID uc) (iv_PID it) by w)"

definition markSpokenWordProgress ::
    "'c playback \<Rightarrow> (play_call \<Rightarrow> bool) \<Rightarrow> time \<Rightarrow> user_ctx \<Rightarrow> item_view \<Rightarrow> int \<Rightarrow> int option \<Rightarrow> int
       \<Rightarrow> 'c play_world \<Rightarrow> 'c play_world" where
  "markSpokenWordProgress pb broken now uc it positionMS asOf by w =
    (case spokenWordCrossing pb uc it positionMS asOf (pw_catalog w) of
       Inl e \<Rightarrow> w
     | Inr (crossed, finished) \<Rightarrow>
        if \<not> crossed then w
        else let (err, c') = pb_MarkPlayed pb (uc_CatalogPID uc) (iv_PID it) finished asOf (pw_catalog w);
                 w' = w\<lparr>pw_catalog := c'\<rparr>
             in (case err of Some e \<Rightarrow> w' | None \<Rightarrow> touchPlayStamp broken now uc it by w'))"

definition writePosition ::
    "'c playback \<Rightarrow> user_ctx \<Rightarrow> item_view \<Rightarrow> int \<Rightarrow> int option \<Rightarrow> 'c play_world
       \<Rightarrow> svc_error option \<times> 'c play_world" where
  "writePosition pb uc it positionMS asOf w =
    (let (err, c') = pb_Checkpoint pb (uc_CatalogPID uc) (iv_PID it) positionMS asOf (pw_catalog w);
         w' = w\<lparr>pw_catalog := c'\<rparr>
     in (case err of
           None \<Rightarrow> (None, w')
         | Some e \<Rightarrow> if kindFromWaxErr e = KindMaintenance then (Some (classify e), w')
                     else (Some (SvcError KindInternal ''the resume position could not be written''), w')))"

text \<open>The end of \<open>checkpointLocked\<close>, once the position is to be written.\<close>

definition applyPosition ::
    "'c playback \<Rightarrow> (play_call \<Rightarrow> bool) \<Rightarrow> time \<Rightarrow> user_ctx \<Rightarrow> item_view \<Rightarrow> int \<Rightarrow> int option \<Rightarrow> int \<Rightarrow> int
       \<Rightarrow> 'c play_world \<Rightarrow> (svc_error + bool) \<times> 'c play_world" where
  "applyPosition pb broken now uc it positionMS asOf stampNS by w =
    (case writePosition pb uc it positionMS asOf w of
       (Some e, w1) \<Rightarrow> (Inl e, w1)
     | (None, w1) \<Rightarrow>
        (let w2 = StampPlayState broken now (uc_ID uc) (iv_PID it) stampNS by w1
         in (Inr True, markSpokenWordProgress pb broken now uc it positionMS asOf by w2)))"

definition checkpointLocked ::
    "'c playback \<Rightarrow> (play_call \<Rightarrow> bool) \<Rightarrow> time \<Rightarrow> user_ctx \<Rightarrow> item_view \<Rightarrow> int \<Rightarrow> time option \<Rightarrow> int
       \<Rightarrow> 'c play_world \<Rightarrow> (svc_error + bool) \<times> 'c play_world" where
  "checkpointLocked pb broken now uc it positionMS recordedAt by w =
    (case asOfNS now recordedAt of
       None \<Rightarrow> applyPosition pb broken now uc it positionMS None now by w
     | Some recNS \<Rightarrow>
        if broken CPlayStamp then (Inl internal, w)
        else let stamp = PlayStamp (uc_ID uc) (iv_PID it) w in
        (case (if recencyPrimary it then Inr 0
               else case pb_State pb (uc_CatalogPID uc) (iv_PID it) (pw_catalog w) of
                 Inl e \<Rightarrow> Inl (classify e)
               | Inr st \<Rightarrow> Inr (case st of None \<Rightarrow> 0 | Some s \<Rightarrow> cs_PositionMS s)) of
           Inl e \<Rightarrow> (Inl e, w)
         | Inr curPos \<Rightarrow>
            if \<not> applyReplayedPosition (recencyPrimary it) positionMS recNS curPos stamp then (Inr False, w)
            else applyPosition pb broken now uc it positionMS (Some recNS) (max stamp recNS) by w))"

definition emitPlayState ::
    "(play_call \<Rightarrow> bool) \<Rightarrow> time \<Rightarrow> string \<Rightarrow> string \<Rightarrow> 'c play_world \<Rightarrow> 'c play_world" where
  "emitPlayState broken now userID itemPID w =
    w\<lparr>pw_events := emitEvent (\<lambda>_. broken CPlayEvent) now userID eventPlayState itemPID (pw_events w)\<rparr>"

definition Checkpoint ::
    "media_world \<Rightarrow> 'c playback \<Rightarrow> (play_call \<Rightarrow> bool) \<Rightarrow> time \<Rightarrow> user_ctx \<Rightarrow> string \<Rightarrow> int \<Rightarrow> time option
       \<Rightarrow> 'c play_world \<Rightarrow> (svc_error + bool) \<times> 'c play_world" where
  "Checkpoint mw pb broken now uc apiItemPID positionMS recordedAt w =
    (case getVisibleItem mw uc apiItemPID of
       Inl e \<Rightarrow> (Inl e, w)
     | Inr it \<Rightarrow>
        if positionMS < 0 then (Inl (errInvalid ''positionMs must not be negative''), w)
        else case checkpointLocked pb broken now uc it positionMS recordedAt 0 w of
               (Inr True, w') \<Rightarrow> (Inr True, emitPlayState broken now (uc_ID uc) (iv_PID it) w')
             | (r, w') \<Rightarrow> (r, w'))"

section \<open>Stars, ratings and flags\<close>

definition playStateFor ::
    "'c playback \<Rightarrow> user_ctx \<Rightarrow> string \<Rightarrow> string \<Rightarrow> 'c play_world \<Rightarrow> svc_error + play_state" where
  "playStateFor pb uc apiItemPID pid w =
    (case pb_State pb (uc_CatalogPID uc) pid (pw_catalog w) of
       Inl e \<Rightarrow> Inl (classify e) | Inr st \<Rightarrow> Inr (playStateDTO apiItemPID st))"

definition GetPlayState ::
    "media_world \<Rightarrow> 'c playback \<Rightarrow> user_ctx \<Rightarrow> string \<Rightarrow> 'c play_world \<Rightarrow> svc_error + play_state" where
  "GetPlayState mw pb uc apiItemPID w =
    (case getVisibleItem mw uc apiItemPID of
       Inl e \<Rightarrow> Inl e | Inr it \<Rightarrow> playStateFor pb uc apiItemPID (iv_PID it) w)"

text \<open>What \<open>SetStar\<close> and \<open>SetRating\<close> do with the catalog's answer.\<close>

definition after_write ::
    "'c playback \<Rightarrow> (play_call \<Rightarrow> bool) \<Rightarrow> time \<Rightarrow> user_ctx \<Rightarrow> string \<Rightarrow> item_view \<Rightarrow> (wax_error + bool) \<times> 'c
       \<Rightarrow> 'c play_world \<Rightarrow> (svc_error + play_state) \<times> 'c play_world" where
  "after_write pb broken now uc apiItemPID it res w =
    (let w1 = w\<lparr>pw_catalog := snd res\<rparr> in
     case fst res of
       Inl e \<Rightarrow> (Inl (classify e), w1)
     | Inr changed \<Rightarrow>
        (let w2 = (if changed then emitPlayState broken now (uc_ID uc) (iv_PID it) w1 else w1)
         in (playStateFor pb uc apiItemPID (iv_PID it) w2, w2)))"

definition SetStar ::
    "media_world \<Rightarrow> 'c playback \<Rightarrow> (play_call \<Rightarrow> bool) \<Rightarrow> time \<Rightarrow> user_ctx \<Rightarrow> string \<Rightarrow> bool \<Rightarrow> time option
       \<Rightarrow> 'c play_world \<Rightarrow> (svc_error + play_state) \<times> 'c play_world" where
  "SetStar mw pb broken now uc apiItemPID starred recordedAt w =
    (case getVisibleItem mw uc apiItemPID of
       Inl e \<Rightarrow> (Inl e, w)
     | Inr it \<Rightarrow> after_write pb broken now uc apiItemPID it
         (pb_SetStar pb (uc_CatalogPID uc) (iv_PID it) starred (asOfNS now recordedAt) (pw_catalog w)) w)"

definition SetRating ::
    "media_world \<Rightarrow> 'c playback \<Rightarrow> (play_call \<Rightarrow> bool) \<Rightarrow> time \<Rightarrow> user_ctx \<Rightarrow> string \<Rightarrow> int option \<Rightarrow> time option
       \<Rightarrow> 'c play_world \<Rightarrow> (svc_error + play_state) \<times> 'c play_world" where
  "SetRating mw pb broken now uc apiItemPID rating recordedAt w =
    (if (case rating of None \<Rightarrow> False | Some r \<Rightarrow> r < 0 \<or> 100 < r)
     then (Inl (errInvalid ''rating must be between 0 and 100''), w)
     else case getVisibleItem mw uc apiItemPID of
       Inl e \<Rightarrow> (Inl e, w)
     | Inr it \<Rightarrow> after_write pb broken now uc apiItemPID it
         (pb_SetRating pb (uc_CatalogPID uc) (iv_PID it) rating (asOfNS now recordedAt) (pw_catalog w)) w)"

definition setPlayedLocked ::
    "'c playback \<Rightarrow> (play_call \<Rightarrow> bool) \<Rightarrow> time \<Rightarrow> user_ctx \<Rightarrow> item_view \<Rightarrow> bool \<Rightarrow> bool \<Rightarrow> int option \<Rightarrow> int option
       \<Rightarrow> time option \<Rightarrow> 'c play_world \<Rightarrow> (svc_error + bool) \<times> 'c play_world" where
  "setPlayedLocked pb broken now uc it played finished playCount positionMS recordedAt w =
    (let (err, w1) = (case positionMS of
           None \<Rightarrow> (None, w)
         | Some p \<Rightarrow> (case writePosition pb uc it p None w of
             (Some e, w') \<Rightarrow> (Some e, w')
           | (None, w') \<Rightarrow> (None, StampPlayState broken now (uc_ID uc) (iv_PID it) now 0 w')))
     in case err of
       Some e \<Rightarrow> (Inl e, w1)
     | None \<Rightarrow>
        (let (res, c') = pb_SetPlayed pb (uc_CatalogPID uc) (iv_PID it) played finished playCount
                           (asOfNS now recordedAt) (pw_catalog w1);
             w2 = w1\<lparr>pw_catalog := c'\<rparr>
         in case res of
           Inl e \<Rightarrow> (Inl (classify e), w2)
         | Inr changed \<Rightarrow> (Inr (changed \<or> positionMS \<noteq> None),
                           if changed then touchPlayStamp broken now uc it 0 w2 else w2)))"

definition SetPlayed ::
    "media_world \<Rightarrow> 'c playback \<Rightarrow> (play_call \<Rightarrow> bool) \<Rightarrow> time \<Rightarrow> user_ctx \<Rightarrow> string \<Rightarrow> bool \<Rightarrow> bool \<Rightarrow> int option
       \<Rightarrow> int option \<Rightarrow> time option \<Rightarrow> 'c play_world \<Rightarrow> (svc_error + play_state) \<times> 'c play_world" where
  "SetPlayed mw pb broken now uc apiItemPID played finished playCount positionMS recordedAt w =
    (if (case positionMS of None \<Rightarrow> False | Some p \<Rightarrow> p < 0)
     then (Inl (errInvalid ''positionMs must not be negative''), w)
     else if positionMS \<noteq> None \<and> recordedAt \<noteq> None
     then (Inl (errInvalid ''positionMs is for a live write; replay a queued position through the play-state endpoint''), w)
     else case getVisibleItem mw uc apiItemPID of
       Inl e \<Rightarrow> (Inl e, w)
     | Inr it \<Rightarrow>
        (case setPlayedLocked pb broken now uc it played finished playCount positionMS recordedAt w of
           (Inl e, w') \<Rightarrow> (Inl e, w')
         | (Inr changed, w') \<Rightarrow>
            (let w2 = (if changed then emitPlayState broken now (uc_ID uc) (iv_PID it) w' else w')
             in (playStateFor pb uc apiItemPID (iv_PID it) w2, w2))))"

end
