(* ===== verification/Listens.thy ===== *)
theory Listens
  imports Playback
begin

text \<open>
  Listens (service/playback.go, db/listens.go): batches of play sessions a client reports, recorded
  once by their session ids and counted in the catalog where they cross their medium's threshold, and
  the sweep of those whose outcome was never recorded.
\<close>

section \<open>The log\<close>

definition has_listen :: "string \<Rightarrow> string \<Rightarrow> listen_row list \<Rightarrow> bool" where
  "has_listen userID sid rows \<longleftrightarrow> list_ex (\<lambda>r. lr_UserID r = userID \<and> ln_SessionID (lr_Session r) = sid) rows"

text \<open>\<open>InsertListens\<close>: for each row, whether it was new.\<close>

fun insert_rows :: "listen_row list \<Rightarrow> listen_row list \<Rightarrow> bool list \<times> listen_row list" where
  "insert_rows [] rows = ([], rows)"
| "insert_rows (r # rs) rows =
    (if has_listen (lr_UserID r) (ln_SessionID (lr_Session r)) rows
     then (let (ns, rows') = insert_rows rs rows in (False # ns, rows'))
     else (let (ns, rows') = insert_rows rs (rows @ [r]) in (True # ns, rows')))"

definition DeleteListens :: "string \<Rightarrow> string list \<Rightarrow> listen_row list \<Rightarrow> listen_row list" where
  "DeleteListens userID sids rows =
    filter (\<lambda>r. \<not> (lr_UserID r = userID \<and> ln_SessionID (lr_Session r) \<in> set sids)) rows"

definition SetListenMarkStates :: "string \<Rightarrow> string list \<Rightarrow> mark_state \<Rightarrow> listen_row list \<Rightarrow> listen_row list" where
  "SetListenMarkStates userID sids state rows =
    map (\<lambda>r. if lr_UserID r = userID \<and> ln_SessionID (lr_Session r) \<in> set sids
             then r\<lparr>lr_MarkState := state\<rparr> else r) rows"

definition PendingListenMarks :: "int \<Rightarrow> nat \<Rightarrow> listen_row list \<Rightarrow> listen_row list" where
  "PendingListenMarks olderThanNS limit rows =
    take limit (sort_key lr_ReceivedAtNS
      (filter (\<lambda>r. lr_MarkState r = ListenMarkClaimed \<and> lr_ReceivedAtNS r < olderThanNS) rows))"

text \<open>\<open>UpsertRadioListen\<close>: a tune-in that owes no mark, extended as it goes on.\<close>

definition UpsertRadioListen :: "time \<Rightarrow> listen_row \<Rightarrow> listen_row list \<Rightarrow> listen_row list" where
  "UpsertRadioListen now r rows =
    (let sid = ln_SessionID (lr_Session r); s = lr_Session r in
     if has_listen (lr_UserID r) sid rows
     then map (\<lambda>x. if lr_UserID x = lr_UserID r \<and> ln_SessionID (lr_Session x) = sid
                   then x\<lparr>lr_Session := (lr_Session x)\<lparr>ln_MsPlayed := ln_MsPlayed s\<rparr>, lr_ReceivedAtNS := now\<rparr> else x) rows
     else rows @ [r\<lparr>lr_Session := s\<lparr>ln_SkippedMs := 0, ln_Finished := False\<rparr>, lr_ReceivedAtNS := now,
                    lr_MarkState := ListenMarkNotOwed\<rparr>])"

section \<open>Sessions\<close>

definition listenMaxPlayedMS :: int where "listenMaxPlayedMS = 24 * 60 * 60 * 1000"

definition listenPlayedAt :: "time \<Rightarrow> listen_session \<Rightarrow> int" where
  "listenPlayedAt now s =
    (let ms = min (max (ln_MsPlayed s) 0) listenMaxPlayedMS
     in clampRecorded now (ln_StartedAt s + ms * millisecond))"

definition listenEpochFloor :: time where "listenEpochFloor = 0"
definition listenFutureSkew :: duration where "listenFutureSkew = 24 * hour"

definition invalidSession :: "time \<Rightarrow> listen_session \<Rightarrow> string" where
  "invalidSession now s =
    (if ln_SessionID s = '''' then ''sessionId is required''
     else if 64 < length (ln_SessionID s) then ''sessionId must be at most 64 characters''
     else if ln_PID s = '''' then ''pid is required''
     else if ln_MsPlayed s < 0 then ''msPlayed must not be negative''
     else if ln_SkippedMs s < 0 then ''skippedMs must not be negative''
     else if 128 < length (ln_Client s) then ''client must be at most 128 characters''
     else if ln_Source s \<noteq> '''' \<and> ln_Source s \<noteq> ''live'' \<and> ln_Source s \<noteq> ''import'' then ''source must be live or import''
     else if ln_StartedAt s < listenEpochFloor then ''startedAt is too far in the past''
     else if now + listenFutureSkew < ln_StartedAt s then ''startedAt is in the future''
     else '''')"

record resolved_listen =
  rl_s :: listen_session
  rl_it :: item_view
  rl_mt :: string
  rl_source :: string

record rejected_listen =
  rj_SessionID :: string
  rj_Code :: error_kind
  rj_Message :: string

text \<open>\<open>resolveListens\<close>: every pid is looked up once for the batch; \<open>get\<close> is the lookup as it answers for
  the session at hand.\<close>

fun resolveListens ::
    "time \<Rightarrow> (listen_session \<Rightarrow> svc_error + item_view) \<Rightarrow> (string \<times> (item_view + error_kind \<times> string)) list
       \<Rightarrow> listen_session list \<Rightarrow> svc_error option \<times> resolved_listen list \<times> rejected_listen list" where
  "resolveListens now get seen [] = (None, [], [])"
| "resolveListens now get seen (s # ss) =
    (if invalidSession now s \<noteq> '''' then
       (let (e, rows, rej) = resolveListens now get seen ss
        in (e, rows, \<lparr>rj_SessionID = ln_SessionID s, rj_Code = KindInvalid, rj_Message = invalidSession now s\<rparr> # rej))
     else
       (case (case map_of seen (ln_PID s) of
                Some a \<Rightarrow> Inr a
              | None \<Rightarrow> (case get s of
                  Inr it \<Rightarrow> Inr (Inl it)
                | Inl e \<Rightarrow> if KindOf e = KindNotFound \<or> KindOf e = KindInvalid
                           then Inr (Inr (KindOf e, ''unknown item '' @ ln_PID s)) else Inl e)) of
          Inl e \<Rightarrow> (Some e, [], [])
        | Inr a \<Rightarrow>
            (let (e, rows, rej) = resolveListens now get ((ln_PID s, a) # seen) ss in
             case a of
               Inr (code, msg) \<Rightarrow> (e, rows, \<lparr>rj_SessionID = ln_SessionID s, rj_Code = code, rj_Message = msg\<rparr> # rej)
             | Inl it \<Rightarrow> (e, \<lparr>rl_s = s, rl_it = it, rl_mt = mediaTypeForKind (iv_Kind it),
                              rl_source = (if ln_Source s = '''' then ''live'' else ln_Source s)\<rparr> # rows, rej))))"

section \<open>The mark of one listen\<close>

datatype listen_mark_outcome = NotCrossed | Marked | MarkPermanent svc_error | MarkFatal svc_error

text \<open>Whether a listen crosses, and finishes; \<open>Inl\<close> is a read that failed.\<close>

definition listenCrosses ::
    "'c playback \<Rightarrow> user_ctx \<Rightarrow> item_view \<Rightarrow> listen_session \<Rightarrow> string \<Rightarrow> 'c \<Rightarrow> svc_error + bool \<times> bool" where
  "listenCrosses pb uc it s mt c =
    (if mt = ''podcast'' \<or> mt = ''audiobook'' then
       (case pb_State pb (uc_CatalogPID uc) (iv_PID it) c of
          Inl e \<Rightarrow> Inl (classify e)
        | Inr st \<Rightarrow>
           (let pos = (case st of None \<Rightarrow> 0 | Some x \<Rightarrow> cs_PositionMS x) in
            case spokenWordCrossing pb uc it pos None c of
              Inl e \<Rightarrow> Inl e
            | Inr (crossed, finished) \<Rightarrow>
               if mt = ''podcast'' \<and> ln_Finished s \<and> (case st of None \<Rightarrow> True | Some x \<Rightarrow> \<not> cs_Played x)
               then Inr (True, True) else Inr (crossed, finished)))
     else Inr (crossedPlayedThreshold mt (ln_MsPlayed s) (iv_DurationMS it) \<or> ln_Finished s, ln_Finished s))"

definition markListenPlayed ::
    "'c playback \<Rightarrow> (play_call \<Rightarrow> bool) \<Rightarrow> time \<Rightarrow> user_ctx \<Rightarrow> item_view \<Rightarrow> listen_session \<Rightarrow> string
       \<Rightarrow> 'c play_world \<Rightarrow> listen_mark_outcome \<times> 'c play_world" where
  "markListenPlayed pb broken now uc it s mt w =
    (case listenCrosses pb uc it s mt (pw_catalog w) of
       Inl e \<Rightarrow> (MarkFatal e, w)
     | Inr (crossed, finished) \<Rightarrow>
        if \<not> crossed then (NotCrossed, w)
        else let (err, c') = pb_MarkPlayed pb (uc_CatalogPID uc) (iv_PID it) finished
                               (Some (listenPlayedAt now s)) (pw_catalog w);
                 w' = w\<lparr>pw_catalog := c'\<rparr>
             in (case err of
                   Some e \<Rightarrow> (let x = classify e in
                              if KindOf x = KindNotFound \<or> KindOf x = KindInvalid then (MarkPermanent x, w')
                              else (MarkFatal x, w'))
                 | None \<Rightarrow> (Marked, (touchPlayStamp broken now uc it 0 w')
                             \<lparr>pw_marked := (uc_ID uc, ln_SessionID s) # pw_marked w'\<rparr>)))"

section \<open>A batch\<close>

definition listen_claim :: "time \<Rightarrow> string \<Rightarrow> resolved_listen \<Rightarrow> listen_row" where
  "listen_claim now userID r =
    \<lparr>lr_UserID = userID, lr_ItemPID = iv_PID (rl_it r), lr_MediaType = rl_mt r,
     lr_Session = (rl_s r)\<lparr>ln_Source := rl_source r\<rparr>, lr_ReceivedAtNS = now, lr_MarkState = ListenMarkClaimed\<rparr>"

fun unmarkedTail :: "(resolved_listen \<times> bool) list \<Rightarrow> string list" where
  "unmarkedTail [] = []"
| "unmarkedTail ((r, claimed) # rs) =
    (if claimed then ln_SessionID (rl_s r) # unmarkedTail rs else unmarkedTail rs)"

text \<open>Each of the two writes may fail for itself: the outcomes it would have written are lost, and the
  claims stand.\<close>

definition recordListenMarks ::
    "(play_call \<Rightarrow> bool) \<Rightarrow> string \<Rightarrow> string list \<Rightarrow> string list \<Rightarrow> 'c play_world \<Rightarrow> 'c play_world" where
  "recordListenMarks broken userID landed notOwed w =
    (let rows = (if broken (CSetMarks userID ListenMarkLanded) then pw_listens w
                 else SetListenMarkStates userID landed ListenMarkLanded (pw_listens w));
         rows' = (if broken (CSetMarks userID ListenMarkNotOwed) then rows
                  else SetListenMarkStates userID notOwed ListenMarkNotOwed rows)
     in w\<lparr>pw_listens := rows'\<rparr>)"

record ingest_result =
  ir_Accepted :: nat
  ir_Duplicates :: nat
  ir_Rejected :: "rejected_listen list"

definition afterMark ::
    "(play_call \<Rightarrow> bool) \<Rightarrow> bool \<Rightarrow> time \<Rightarrow> user_ctx \<Rightarrow> resolved_listen \<Rightarrow> 'c play_world \<Rightarrow> 'c play_world" where
  "afterMark broken announcedByCaller now uc r w =
    (let w1 = (if announcedByCaller then w else emitPlayState broken now (uc_ID uc) (iv_PID (rl_it r)) w)
     in if rl_mt r = ''music'' \<and> rl_source r \<noteq> ''import''
        then w1\<lparr>pw_scrobbles := (uc_ID uc, iv_PID (rl_it r), ln_StartedAt (rl_s r)) # pw_scrobbles w1\<rparr> else w1)"

text \<open>The loop of \<open>ingestListens\<close> over the rows and whether each was claimed.  A fatal mark takes back the
  claims that were not marked.\<close>

fun markListens ::
    "'c playback \<Rightarrow> (play_call \<Rightarrow> bool) \<Rightarrow> bool \<Rightarrow> time \<Rightarrow> user_ctx \<Rightarrow> (resolved_listen \<times> bool) list
       \<Rightarrow> ingest_result \<Rightarrow> string list \<Rightarrow> string list \<Rightarrow> 'c play_world
       \<Rightarrow> svc_error option \<times> ingest_result \<times> 'c play_world" where
  "markListens pb broken ann now uc [] res landed notOwed w =
     (None, res, recordListenMarks broken (uc_ID uc) landed notOwed w)"
| "markListens pb broken ann now uc ((r, claimed) # rs) res landed notOwed w =
     (if \<not> claimed then
        markListens pb broken ann now uc rs (res\<lparr>ir_Duplicates := ir_Duplicates res + 1\<rparr>) landed notOwed w
      else let res' = res\<lparr>ir_Accepted := ir_Accepted res + 1\<rparr>; sid = ln_SessionID (rl_s r) in
        (case markListenPlayed pb broken now uc (rl_it r) (rl_s r) (rl_mt r) w of
           (MarkFatal e, w1) \<Rightarrow>
             (let w2 = (if broken CDeleteListens then w1
                        else w1\<lparr>pw_listens := DeleteListens (uc_ID uc) (unmarkedTail ((r, claimed) # rs)) (pw_listens w1)\<rparr>)
              in (Some e, res, recordListenMarks broken (uc_ID uc) landed notOwed w2))
         | (Marked, w1) \<Rightarrow>
             markListens pb broken ann now uc rs res' (landed @ [sid]) notOwed (afterMark broken ann now uc r w1)
         | (_, w1) \<Rightarrow> markListens pb broken ann now uc rs res' landed (notOwed @ [sid]) w1))"

definition ingestListens ::
    "'c playback \<Rightarrow> (play_call \<Rightarrow> bool) \<Rightarrow> bool \<Rightarrow> time \<Rightarrow> (listen_session \<Rightarrow> svc_error + item_view) \<Rightarrow> user_ctx
       \<Rightarrow> listen_session list \<Rightarrow> 'c play_world \<Rightarrow> svc_error option \<times> ingest_result \<times> 'c play_world" where
  "ingestListens pb broken ann now get uc sessions w =
    (let (e, rows, rejected) = resolveListens now get [] sessions;
         res = \<lparr>ir_Accepted = 0, ir_Duplicates = 0, ir_Rejected = rejected\<rparr> in
     if e \<noteq> None \<or> rows = [] then (e, res, w)
     else if broken CInsertListens then (Some internal, res, w)
     else let (claimed, rows') = insert_rows (map (listen_claim now (uc_ID uc)) rows) (pw_listens w)
          in markListens pb broken ann now uc (zip rows claimed) res [] [] (w\<lparr>pw_listens := rows'\<rparr>))"

definition IngestListens ::
    "media_world \<Rightarrow> 'c playback \<Rightarrow> (play_call \<Rightarrow> bool) \<Rightarrow> time \<Rightarrow> user_ctx \<Rightarrow> listen_session list
       \<Rightarrow> 'c play_world \<Rightarrow> svc_error option \<times> ingest_result \<times> 'c play_world" where
  "IngestListens mw pb broken now uc sessions w =
     ingestListens pb broken False now (\<lambda>s. getVisibleItem mw uc (ln_PID s)) uc sessions w"

section \<open>The sweep\<close>

datatype swept_user = SweptUser user_ctx | SweptGone | SweptUnread

definition sweptUserFor :: "media_world \<Rightarrow> (store_call \<Rightarrow> bool) \<Rightarrow> store \<Rightarrow> string \<Rightarrow> swept_user" where
  "sweptUserFor mw broken st userID =
    (case (if broken CUserByID then Inl StoreFailed else UserByID userID st) of
       Inl RowNotFound \<Rightarrow> SweptGone
     | Inl e \<Rightarrow> SweptUnread
     | Inr u \<Rightarrow>
        (case UserCtx u (catalogPID mw u) (if broken CGrants then None else Some (LibraryGrants (a_ID u) st)) of
           None \<Rightarrow> SweptUnread | Some uc \<Rightarrow> SweptUser uc))"

record sweep_report =
  sw_Scanned :: nat
  sw_Marked :: nat
  sw_Settled :: nat

text \<open>The outcomes are written back account by account.\<close>

fun sids_of :: "string \<Rightarrow> (string \<times> string) list \<Rightarrow> string list" where
  "sids_of u [] = []"
| "sids_of u ((v, sid) # xs) = (if u = v then sid # sids_of u xs else sids_of u xs)"

definition recordSweptMarks ::
    "(play_call \<Rightarrow> bool) \<Rightarrow> (string \<times> string) list \<Rightarrow> (string \<times> string) list \<Rightarrow> 'c play_world \<Rightarrow> 'c play_world" where
  "recordSweptMarks broken landed notOwed w =
    fold (\<lambda>u. recordListenMarks broken u [] (sids_of u notOwed)) (remdups (map fst notOwed))
      (fold (\<lambda>u. recordListenMarks broken u (sids_of u landed) []) (remdups (map fst landed)) w)"

fun sweepRows ::
    "'c playback \<Rightarrow> (play_call \<Rightarrow> bool) \<Rightarrow> time \<Rightarrow> (string \<Rightarrow> swept_user) \<Rightarrow> (string \<Rightarrow> wax_error + item_view)
       \<Rightarrow> listen_row list \<Rightarrow> sweep_report \<Rightarrow> (string \<times> string) list \<Rightarrow> (string \<times> string) list \<Rightarrow> 'c play_world
       \<Rightarrow> svc_error option \<times> sweep_report \<times> 'c play_world" where
  "sweepRows pb broken now who get [] rep landed notOwed w = (None, rep, recordSweptMarks broken landed notOwed w)"
| "sweepRows pb broken now who get (r # rs) rep landed notOwed w =
    (let key = (lr_UserID r, ln_SessionID (lr_Session r));
         settled = rep\<lparr>sw_Settled := sw_Settled rep + 1\<rparr> in
     case who (lr_UserID r) of
       SweptGone \<Rightarrow> sweepRows pb broken now who get rs settled landed (notOwed @ [key]) w
     | SweptUnread \<Rightarrow> sweepRows pb broken now who get rs rep landed notOwed w
     | SweptUser uc \<Rightarrow>
        (case get (lr_ItemPID r) of
           Inl e \<Rightarrow>
             if KindOf (classify e) = KindNotFound \<or> KindOf (classify e) = KindInvalid
             then sweepRows pb broken now who get rs settled landed (notOwed @ [key]) w
             else sweepRows pb broken now who get rs rep landed notOwed w
         | Inr it \<Rightarrow>
             (case markListenPlayed pb broken now uc it (lr_Session r) (mediaTypeForKind (iv_Kind it)) w of
                (MarkFatal e, w1) \<Rightarrow> (Some e, rep, recordSweptMarks broken landed notOwed w1)
              | (Marked, w1) \<Rightarrow>
                  sweepRows pb broken now who get rs (rep\<lparr>sw_Marked := sw_Marked rep + 1\<rparr>) (landed @ [key]) notOwed
                    (emitPlayState broken now (lr_UserID r) (iv_PID it) w1)
              | (_, w1) \<Rightarrow> sweepRows pb broken now who get rs settled landed (notOwed @ [key]) w1)))"

definition listenMarkGrace :: duration where "listenMarkGrace = 10 * minute"
definition listenMarkSweepLimit :: nat where "listenMarkSweepLimit = 500"

definition sweepListenMarks ::
    "'c playback \<Rightarrow> (play_call \<Rightarrow> bool) \<Rightarrow> time \<Rightarrow> int \<Rightarrow> (string \<Rightarrow> swept_user) \<Rightarrow> (string \<Rightarrow> wax_error + item_view)
       \<Rightarrow> 'c play_world \<Rightarrow> svc_error option \<times> sweep_report \<times> 'c play_world" where
  "sweepListenMarks pb broken now cutoffNS who get w =
    (if broken CPendingMarks then (Some internal, \<lparr>sw_Scanned = 0, sw_Marked = 0, sw_Settled = 0\<rparr>, w)
     else let rows = PendingListenMarks cutoffNS listenMarkSweepLimit (pw_listens w)
          in sweepRows pb broken now who get rows \<lparr>sw_Scanned = length rows, sw_Marked = 0, sw_Settled = 0\<rparr> [] [] w)"

definition SweepListenMarks where
  "SweepListenMarks pb broken now who get w = sweepListenMarks pb broken now (now - listenMarkGrace) who get w"

end
