(* ===== verification/Listen_Claims.thy ===== *)
theory Listen_Claims
  imports Listens Media_Claims
begin

text \<open>
  What the listen log promises: a session is counted once however often it is reported and whatever
  fails, and a batch that failed can be sent again.
\<close>

section \<open>Rows and marks\<close>

definition lkey :: "listen_row \<Rightarrow> string \<times> string" where
  "lkey r = (lr_UserID r, ln_SessionID (lr_Session r))"

definition state_of :: "listen_row list \<Rightarrow> string \<times> string \<rightharpoonup> mark_state" where
  "state_of rows = map_of (map (\<lambda>r. (lkey r, lr_MarkState r)) rows)"

text \<open>\<open>L\<close> and \<open>N\<close>: the sessions whose outcome, landed or not owed, is still to be written back; \<open>X\<close>: those
  counted whose landed outcome was lost, which a sweep may count again.\<close>

definition listens_ok ::
    "(string \<times> string) set \<Rightarrow> 'c play_world \<Rightarrow> (string \<times> string) set \<Rightarrow> (string \<times> string) set \<Rightarrow> bool" where
  "listens_ok X w L N \<longleftrightarrow>
     distinct (map lkey (pw_listens w))
   \<and> (\<forall>k. k \<notin> X \<longrightarrow> count_list (pw_marked w) k =
         (if state_of (pw_listens w) k = Some ListenMarkLanded \<or> k \<in> L then 1 else 0))
   \<and> (\<forall>k. state_of (pw_listens w) k = Some ListenMarkLanded \<or> k \<in> L \<longrightarrow> k \<in> set (pw_marked w))
   \<and> (\<forall>k \<in> L \<union> N. state_of (pw_listens w) k = Some ListenMarkClaimed) \<and> L \<inter> N = {}"

text \<open>What a run from \<open>w\<close> to \<open>w'\<close> counted whose landed outcome could not be written.\<close>

definition lost_marks ::
    "(play_call \<Rightarrow> bool) \<Rightarrow> 'c play_world \<Rightarrow> 'c play_world \<Rightarrow> (string \<times> string) set" where
  "lost_marks broken w w' = {k. broken (CSetMarks (fst k) ListenMarkLanded)
     \<and> count_list (pw_marked w) k < count_list (pw_marked w') k}"

definition marked_since :: "'c play_world \<Rightarrow> 'c play_world \<Rightarrow> (string \<times> string) set \<Rightarrow> bool" where
  "marked_since w w' L \<longleftrightarrow> (\<forall>k. count_list (pw_marked w) k \<le> count_list (pw_marked w') k)
     \<and> (\<forall>k \<in> L. count_list (pw_marked w) k < count_list (pw_marked w') k)"

lemma listens_okD:
  assumes "listens_ok X w L N"
  shows "k \<notin> X \<Longrightarrow> count_list (pw_marked w) k =
      (if state_of (pw_listens w) k = Some ListenMarkLanded \<or> k \<in> L then 1 else 0)"
    "state_of (pw_listens w) k = Some ListenMarkLanded \<or> k \<in> L \<Longrightarrow> k \<in> set (pw_marked w)"
    "k \<in> L \<union> N \<Longrightarrow> state_of (pw_listens w) k = Some ListenMarkClaimed" "L \<inter> N = {}"
    "distinct (map lkey (pw_listens w))"
  using assms unfolding listens_ok_def by blast+

lemma listens_ok_mono: "listens_ok X w L N \<Longrightarrow> X \<subseteq> Y \<Longrightarrow> listens_ok Y w L N"
  unfolding listens_ok_def by blast

lemma marked_since_refl: "marked_since w (w\<lparr>pw_listens := rows\<rparr>) {}"
  by (simp add: marked_since_def)

lemma marked_since_same: "marked_since w0 w L \<Longrightarrow> pw_marked w' = pw_marked w \<Longrightarrow> marked_since w0 w' L"
  by (simp add: marked_since_def)

lemma marked_since_mark:
  "marked_since w0 w L \<Longrightarrow> pw_marked w' = k # pw_marked w \<Longrightarrow> marked_since w0 w' (insert k L)"
  unfolding marked_since_def by (metis count_list.simps(2) insert_iff le_Suc_eq less_Suc_eq_le less_imp_le_nat
      add.commute plus_1_eq_Suc)

lemma has_listen_iff: "has_listen u sid rows \<longleftrightarrow> state_of rows (u, sid) \<noteq> None"
  by (auto simp: has_listen_def list_ex_iff state_of_def map_of_eq_None_iff lkey_def image_iff)

lemma state_of_Cons [simp]:
  "state_of (r # rows) k = (if k = lkey r then Some (lr_MarkState r) else state_of rows k)"
  by (auto simp: state_of_def)

lemma state_of_Nil [simp]: "state_of [] k = None"
  by (simp add: state_of_def)

lemma state_of_app: "state_of (xs @ ys) k = (case state_of xs k of None \<Rightarrow> state_of ys k | Some s \<Rightarrow> Some s)"
  by (induction xs) auto

lemma state_of_None: "state_of rows k = None \<longleftrightarrow> k \<notin> lkey ` set rows"
  by (induction rows) auto

lemma SetListenMarkStates_simps:
  "map lkey (SetListenMarkStates u sids st rows) = map lkey rows"
  "state_of (SetListenMarkStates u sids st rows) k =
     (case state_of rows k of None \<Rightarrow> None | Some s \<Rightarrow> Some (if fst k = u \<and> snd k \<in> set sids then st else s))"
proof -
  show "map lkey (SetListenMarkStates u sids st rows) = map lkey rows"
    by (simp add: SetListenMarkStates_def lkey_def)
  show "state_of (SetListenMarkStates u sids st rows) k =
     (case state_of rows k of None \<Rightarrow> None | Some s \<Rightarrow> Some (if fst k = u \<and> snd k \<in> set sids then st else s))"
    by (induction rows) (auto simp: SetListenMarkStates_def lkey_def)
qed

lemma DeleteListens_simps:
  "distinct (map lkey rows) \<Longrightarrow> distinct (map lkey (DeleteListens u sids rows))"
  "state_of (DeleteListens u sids rows) k = (if fst k = u \<and> snd k \<in> set sids then None else state_of rows k)"
proof -
  show "distinct (map lkey rows) \<Longrightarrow> distinct (map lkey (DeleteListens u sids rows))"
    by (simp add: DeleteListens_def distinct_map_filter)
  show "state_of (DeleteListens u sids rows) k = (if fst k = u \<and> snd k \<in> set sids then None else state_of rows k)"
    by (induction rows) (auto simp: DeleteListens_def lkey_def)
qed

text \<open>The rows \<open>insert_rows\<close> added.\<close>

definition new_rows :: "'r list \<Rightarrow> bool list \<Rightarrow> 'r list" where
  "new_rows rs ns = map fst (filter snd (zip rs ns))"

lemma new_rows_simps [simp]:
  "new_rows [] ns = []" "new_rows (r # rs) (n # ns) = (if n then r # new_rows rs ns else new_rows rs ns)"
  by (simp_all add: new_rows_def)

lemma insert_rows_new:
  assumes "insert_rows rs rows = (ns, rows')"
  shows "length ns = length rs \<and> rows' = rows @ new_rows rs ns
    \<and> (distinct (map lkey rows) \<longrightarrow> distinct (map lkey rows')) \<and> (\<forall>r \<in> set rs. state_of rows' (lkey r) \<noteq> None)"
  using assms
proof (induction rs arbitrary: rows ns rows')
  case Nil then show ?case by simp
next
  case (Cons r rs)
  have k: "has_listen (lr_UserID r) (ln_SessionID (lr_Session r)) rows \<longleftrightarrow> state_of rows (lkey r) \<noteq> None"
    by (simp add: has_listen_iff lkey_def)
  show ?case
  proof (cases "state_of rows (lkey r)")
    case (Some s)
    then obtain ms where m: "insert_rows rs rows = (ms, rows')" "ns = False # ms"
      using Cons.prems k by (auto split: prod.splits)
    have e: "rows' = rows @ new_rows rs ms" "length ms = length rs"
      "distinct (map lkey rows) \<longrightarrow> distinct (map lkey rows')" "\<forall>x \<in> set rs. state_of rows' (lkey x) \<noteq> None"
      using Cons.IH[OF m(1)] by blast+
    have "state_of rows' (lkey r) \<noteq> None" using Some by (simp add: e(1) state_of_app)
    then have "\<forall>x \<in> set (r # rs). state_of rows' (lkey x) \<noteq> None" using e(4) by simp
    moreover have "new_rows (r # rs) ns = new_rows rs ms" by (simp add: m(2))
    ultimately show ?thesis using e(1,2,3) m(2) by (metis length_Cons)
  next
    case None
    then obtain ms where m: "insert_rows rs (rows @ [r]) = (ms, rows')" "ns = True # ms"
      using Cons.prems k by (auto split: prod.splits)
    have e: "rows' = (rows @ [r]) @ new_rows rs ms" "length ms = length rs"
      "distinct (map lkey (rows @ [r])) \<longrightarrow> distinct (map lkey rows')" "\<forall>x \<in> set rs. state_of rows' (lkey x) \<noteq> None"
      using Cons.IH[OF m(1)] by blast+
    have "state_of rows' (lkey r) \<noteq> None" using None by (simp add: e(1) state_of_app)
    then have "\<forall>x \<in> set (r # rs). state_of rows' (lkey x) \<noteq> None" using e(4) by simp
    moreover have "rows' = rows @ new_rows (r # rs) ns" by (simp add: m(2) e(1))
    moreover have "distinct (map lkey rows) \<longrightarrow> distinct (map lkey rows')"
      using e(3) None by (simp add: state_of_None del: map_map)
    ultimately show ?thesis using e(2) m(2) by (metis length_Cons)
  qed
qed

lemma insert_rows_facts:
  assumes "insert_rows rs rows = (ns, rows')" "distinct (map lkey rows)"
  shows "length ns = length rs" "distinct (map lkey rows')" "distinct (map lkey (new_rows rs ns))"
    "state_of rows' k = (case state_of rows k of None \<Rightarrow> state_of (new_rows rs ns) k | Some s \<Rightarrow> Some s)"
    "k \<in> lkey ` set (new_rows rs ns) \<Longrightarrow> state_of rows k = None"
    "r \<in> set rs \<Longrightarrow> state_of rows' (lkey r) \<noteq> None"
proof -
  have f: "length ns = length rs" "rows' = rows @ new_rows rs ns" "distinct (map lkey rows')"
    "\<forall>r \<in> set rs. state_of rows' (lkey r) \<noteq> None"
    using insert_rows_new[OF assms(1)] assms(2) by blast+
  show "length ns = length rs" "distinct (map lkey rows')" by (rule f)+
  have d: "distinct (map lkey rows @ map lkey (new_rows rs ns))" using f(2,3) by simp
  show "distinct (map lkey (new_rows rs ns))" using d by simp
  show "state_of rows' k = (case state_of rows k of None \<Rightarrow> state_of (new_rows rs ns) k | Some s \<Rightarrow> Some s)"
    by (simp add: f(2) state_of_app)
  show "k \<in> lkey ` set (new_rows rs ns) \<Longrightarrow> state_of rows k = None"
    using d by (auto simp: state_of_None)
  show "r \<in> set rs \<Longrightarrow> state_of rows' (lkey r) \<noteq> None" using f(4) by simp
qed


section \<open>Marks and their record\<close>

lemma touchPlayStamp_simps [simp]:
  "pw_listens (touchPlayStamp b now uc it act w) = pw_listens w"
  "pw_marked (touchPlayStamp b now uc it act w) = pw_marked w"
  by (simp_all add: touchPlayStamp_def TouchPlayStamp_def)

lemma emitPlayState_simps [simp]:
  "pw_listens (emitPlayState b now u i w) = pw_listens w" "pw_marked (emitPlayState b now u i w) = pw_marked w"
  by (simp_all add: emitPlayState_def)

lemma afterMark_simps [simp]:
  "pw_listens (afterMark b ann now uc r w) = pw_listens w" "pw_marked (afterMark b ann now uc r w) = pw_marked w"
  by (simp_all add: afterMark_def Let_def)

lemma markListenPlayed_simps:
  assumes "markListenPlayed pb broken now uc it s mt w = (out, w1)"
  shows "pw_listens w1 = pw_listens w"
    "pw_marked w1 = (if out = Marked then (uc_ID uc, ln_SessionID s) # pw_marked w else pw_marked w)"
  using assms
  by (auto simp: markListenPlayed_def Let_def split: sum.splits prod.splits if_splits option.splits)

lemma listens_ok_mark:
  assumes "listens_ok X w L N" "state_of (pw_listens w) k = Some ListenMarkClaimed" "k \<notin> L \<union> N"
    "pw_listens w' = pw_listens w" "pw_marked w' = k # pw_marked w"
  shows "listens_ok X w' (insert k L) N"
proof -
  have "count_list (pw_marked w') j = (if state_of (pw_listens w') j = Some ListenMarkLanded \<or> j \<in> insert k L then 1 else 0)"
    if "j \<notin> X" for j
    using listens_okD(1)[OF assms(1) that] assms(2-5) by auto
  moreover have "j \<in> set (pw_marked w')" if "state_of (pw_listens w') j = Some ListenMarkLanded \<or> j \<in> insert k L" for j
    using listens_okD(2)[OF assms(1), of j] that assms(4,5) by auto
  moreover have "state_of (pw_listens w') j = Some ListenMarkClaimed" if "j \<in> insert k L \<union> N" for j
    using listens_okD(3)[OF assms(1), of j] that assms(2,4) by auto
  ultimately show ?thesis using listens_okD(4,5)[OF assms(1)] assms(3,4) unfolding listens_ok_def by simp
qed

lemma listens_ok_not_owed:
  assumes "listens_ok X w L N" "state_of (pw_listens w) k = Some ListenMarkClaimed" "k \<notin> L \<union> N"
    "pw_listens w' = pw_listens w" "pw_marked w' = pw_marked w"
  shows "listens_ok X w' L (insert k N)"
  using assms by (auto simp: listens_ok_def)

lemma listens_ok_same:
  "listens_ok X w L N \<Longrightarrow> pw_listens w' = pw_listens w \<Longrightarrow> pw_marked w' = pw_marked w \<Longrightarrow> listens_ok X w' L N"
  by (simp add: listens_ok_def)

lemma recordListenMarks_simps:
  "pw_marked (recordListenMarks broken u landed notOwed w) = pw_marked w"
  "map lkey (pw_listens (recordListenMarks broken u landed notOwed w)) = map lkey (pw_listens w)"
  "state_of (pw_listens (recordListenMarks broken u landed notOwed w)) k =
      (case state_of (pw_listens w) k of None \<Rightarrow> None
       | Some s \<Rightarrow> Some (if k \<in> Pair u ` set notOwed \<and> \<not> broken (CSetMarks u ListenMarkNotOwed) then ListenMarkNotOwed
                       else if k \<in> Pair u ` set landed \<and> \<not> broken (CSetMarks u ListenMarkLanded) then ListenMarkLanded
                       else s))"
  by (cases k; auto simp: recordListenMarks_def SetListenMarkStates_simps Let_def split: option.splits)+

lemma listens_ok_record:
  assumes ok: "listens_ok X w L N"
    and "Pair u ` set landed \<subseteq> L" "Pair u ` set notOwed \<subseteq> N"
    and lost: "broken (CSetMarks u ListenMarkLanded) \<Longrightarrow> Pair u ` set landed \<subseteq> X"
  shows "listens_ok X (recordListenMarks broken u landed notOwed w) (L - Pair u ` set landed) (N - Pair u ` set notOwed)"
    (is "listens_ok X ?w ?L ?N")
proof -
  note r = recordListenMarks_simps[where broken = broken and u = u and landed = landed and notOwed = notOwed and w = w]
  have c: "state_of (pw_listens w) k = Some ListenMarkClaimed" if "k \<in> L \<union> N" for k
    using ok that by (simp add: listens_ok_def)
  have disj: "L \<inter> N = {}" using ok by (simp add: listens_ok_def)
  have m: "k \<notin> X \<Longrightarrow> count_list (pw_marked w) k =
      (if state_of (pw_listens w) k = Some ListenMarkLanded \<or> k \<in> L then 1 else 0)"
    "state_of (pw_listens w) k = Some ListenMarkLanded \<or> k \<in> L \<Longrightarrow> k \<in> set (pw_marked w)" for k
    using ok unfolding listens_ok_def by blast+
  have "distinct (map lkey (pw_listens ?w))" using ok by (simp only: r listens_ok_def)
  moreover have "k \<notin> X \<Longrightarrow> count_list (pw_marked ?w) k =
      (if state_of (pw_listens ?w) k = Some ListenMarkLanded \<or> k \<in> ?L then 1 else 0)"
    "state_of (pw_listens ?w) k = Some ListenMarkLanded \<or> k \<in> ?L \<Longrightarrow> k \<in> set (pw_marked ?w)" for k
  proof -
    consider "k \<in> Pair u ` set notOwed" | "k \<in> Pair u ` set landed" "k \<notin> Pair u ` set notOwed"
      | "k \<notin> Pair u ` set notOwed" "k \<notin> Pair u ` set landed" by blast
    then have "(k \<notin> X \<longrightarrow> count_list (pw_marked ?w) k =
      (if state_of (pw_listens ?w) k = Some ListenMarkLanded \<or> k \<in> ?L then 1 else 0))
      \<and> (state_of (pw_listens ?w) k = Some ListenMarkLanded \<or> k \<in> ?L \<longrightarrow> k \<in> set (pw_marked ?w))"
    proof cases
      case 1
      then have "k \<notin> L" "state_of (pw_listens w) k = Some ListenMarkClaimed" "k \<notin> Pair u ` set landed"
        using assms(2,3) disj c by blast+
      then show ?thesis using m(1)[of k] by (simp add: r(1) r(3)[where k = k])
    next
      case 2
      then have k: "k \<in> L" "state_of (pw_listens w) k = Some ListenMarkClaimed" "k \<in> set (pw_marked w)"
        using assms(2) c m(2)[of k] by blast+
      show ?thesis
      proof (cases "broken (CSetMarks u ListenMarkLanded)")
        case True
        then show ?thesis using lost[OF True] 2 k by (auto simp: r(1) r(3)[where k = k])
      next
        case False
        then show ?thesis using m(1)[of k] 2 k by (simp add: r(1) r(3)[where k = k])
      qed
    next
      case 3
      then show ?thesis using m[of k] by (simp add: r(1) r(3)[where k = k] split: option.splits)
    qed
    then show "k \<notin> X \<Longrightarrow> count_list (pw_marked ?w) k =
        (if state_of (pw_listens ?w) k = Some ListenMarkLanded \<or> k \<in> ?L then 1 else 0)"
      "state_of (pw_listens ?w) k = Some ListenMarkLanded \<or> k \<in> ?L \<Longrightarrow> k \<in> set (pw_marked ?w)" by blast+
  qed
  moreover have "state_of (pw_listens ?w) k = Some ListenMarkClaimed" if "k \<in> ?L \<union> ?N" for k
  proof -
    have "k \<notin> Pair u ` set notOwed" "k \<notin> Pair u ` set landed" "k \<in> L \<union> N"
      using that disj assms(2,3) by auto
    then show ?thesis using c[of k] by (simp add: r(3)[where k = k])
  qed
  moreover have "?L \<inter> ?N = {}" using disj by blast
  ultimately show ?thesis unfolding listens_ok_def by blast
qed

lemma listens_ok_delete:
  assumes "listens_ok X w L N" "\<forall>sid \<in> set sids. state_of (pw_listens w) (u, sid) \<noteq> Some ListenMarkLanded"
    "Pair u ` set sids \<inter> (L \<union> N) = {}"
  shows "listens_ok X (w\<lparr>pw_listens := DeleteListens u sids (pw_listens w)\<rparr>) L N"
proof -
  have "fst k = u \<Longrightarrow> snd k \<in> set sids \<Longrightarrow> k \<notin> L \<union> N \<and> state_of (pw_listens w) k \<noteq> Some ListenMarkLanded" for k
    using assms(2,3) by (cases k) auto
  then show ?thesis
    using assms(1) by (auto simp: listens_ok_def DeleteListens_simps)
qed


section \<open>A batch\<close>

text \<open>What \<open>markListens\<close> does from \<open>w\<close> to \<open>w'\<close>: \<open>sids\<close> are the sessions it is still to settle.\<close>

definition records :: "(play_call \<Rightarrow> bool) \<Rightarrow> string \<Rightarrow> bool" where
  "records broken u \<longleftrightarrow> \<not> broken (CSetMarks u ListenMarkLanded) \<and> \<not> broken (CSetMarks u ListenMarkNotOwed)
     \<and> \<not> broken CDeleteListens"

definition settled_all ::
    "(play_call \<Rightarrow> bool) \<Rightarrow> string \<Rightarrow> string set \<Rightarrow> svc_error option \<Rightarrow> (string \<times> string) set
       \<Rightarrow> 'c play_world \<Rightarrow> 'c play_world \<Rightarrow> bool" where
  "settled_all broken u sids e X w w' \<longleftrightarrow>
     listens_ok X w' {} {}
   \<and> (\<forall>k. k \<notin> Pair u ` sids \<longrightarrow> state_of (pw_listens w') k = state_of (pw_listens w) k)
   \<and> (\<forall>sid \<in> sids. \<not> records broken u \<or> state_of (pw_listens w') (u, sid) \<noteq> Some ListenMarkClaimed)
   \<and> (\<forall>k. e = None \<longrightarrow> state_of (pw_listens w) k \<noteq> None \<longrightarrow> state_of (pw_listens w') k \<noteq> None)"

lemma settled_allD:
  assumes "settled_all broken u sids e X w w'"
  shows "k \<notin> Pair u ` sids \<Longrightarrow> state_of (pw_listens w') k = state_of (pw_listens w) k"
    "e = None \<Longrightarrow> state_of (pw_listens w) k \<noteq> None \<Longrightarrow> state_of (pw_listens w') k \<noteq> None"
    "sid \<in> sids \<Longrightarrow> records broken u \<Longrightarrow> state_of (pw_listens w') (u, sid) \<noteq> Some ListenMarkClaimed"
  using assms unfolding settled_all_def by metis+

lemma settled_all_record:
  assumes "listens_ok X w (Pair u ` set landed) (Pair u ` set notOwed)"
    "broken (CSetMarks u ListenMarkLanded) \<Longrightarrow> Pair u ` set landed \<subseteq> X"
  shows "settled_all broken u (set landed \<union> set notOwed) e X w (recordListenMarks broken u landed notOwed w)"
proof -
  note r = recordListenMarks_simps[where broken = broken and u = u and landed = landed and notOwed = notOwed and w = w]
  have "listens_ok X (recordListenMarks broken u landed notOwed w) {} {}"
    using listens_ok_record[where broken = broken, OF assms(1) order.refl order.refl assms(2)] by simp
  then show ?thesis
    unfolding settled_all_def by (auto simp: r(3) records_def split: option.splits)
qed

lemma settled_all_delete:
  assumes "listens_ok X w (Pair u ` set landed) (Pair u ` set notOwed)"
    "broken (CSetMarks u ListenMarkLanded) \<Longrightarrow> Pair u ` set landed \<subseteq> X"
    "set sids \<inter> (set landed \<union> set notOwed) = {}"
    "\<forall>sid \<in> set sids. state_of (pw_listens w) (u, sid) = Some ListenMarkClaimed"
  shows "settled_all broken u (set sids \<union> set landed \<union> set notOwed) (Some e) X w
    (recordListenMarks broken u landed notOwed
      (if broken CDeleteListens then w else w\<lparr>pw_listens := DeleteListens u sids (pw_listens w)\<rparr>))"
    (is "settled_all _ _ _ _ _ _ ?w")
proof -
  let ?d = "if broken CDeleteListens then w else w\<lparr>pw_listens := DeleteListens u sids (pw_listens w)\<rparr>"
  have "listens_ok X ?d (Pair u ` set landed) (Pair u ` set notOwed)"
    using listens_ok_delete[OF assms(1), of sids u] assms(1,3,4) by auto
  from settled_all_record[where broken = broken and e = "Some e", OF this assms(2)]
  have r: "listens_ok X ?w {} {}"
    "\<And>k. k \<notin> Pair u ` (set landed \<union> set notOwed) \<Longrightarrow> state_of (pw_listens ?w) k = state_of (pw_listens ?d) k"
    "\<forall>sid \<in> set landed \<union> set notOwed. \<not> records broken u \<or> state_of (pw_listens ?w) (u, sid) \<noteq> Some ListenMarkClaimed"
    unfolding settled_all_def by blast+
  have "\<not> records broken u \<or> state_of (pw_listens ?w) (u, sid) \<noteq> Some ListenMarkClaimed" if "sid \<in> set sids" for sid
  proof -
    have "(u, sid) \<notin> Pair u ` (set landed \<union> set notOwed)" using that assms(3) by blast
    from r(2)[OF this] show ?thesis using that by (simp add: DeleteListens_simps records_def)
  qed
  moreover have "state_of (pw_listens ?w) k = state_of (pw_listens w) k"
    if "k \<notin> Pair u ` (set sids \<union> set landed \<union> set notOwed)" for k
  proof -
    have "k \<notin> Pair u ` (set landed \<union> set notOwed)" "\<not> (fst k = u \<and> snd k \<in> set sids)"
      using that by (blast, cases k, auto)
    then have "state_of (pw_listens ?d) k = state_of (pw_listens w) k" by (auto simp: DeleteListens_simps)
    with r(2)[OF \<open>k \<notin> Pair u ` (set landed \<union> set notOwed)\<close>] show ?thesis by simp
  qed
  ultimately show ?thesis
    unfolding settled_all_def using r(1,3) by blast
qed

lemma settled_all_from:
  "pw_listens w1 = pw_listens w \<Longrightarrow> settled_all broken u sids e X w1 w' = settled_all broken u sids e X w w'"
  by (simp add: settled_all_def)

lemma lost_landed:
  assumes "marked_since w0 w (Pair u ` set landed)" "lost_marks broken w0 w' \<subseteq> X" "pw_marked w' = pw_marked w"
    "broken (CSetMarks u ListenMarkLanded)"
  shows "Pair u ` set landed \<subseteq> X"
  using assms by (force simp: marked_since_def lost_marks_def)

lemma markListens_settles:
  assumes "markListens pb broken ann now uc prs res landed notOwed w = (e, res', w')"
    "lost_marks broken w0 w' \<subseteq> X" "marked_since w0 w (Pair (uc_ID uc) ` set landed)"
    "listens_ok X w (Pair (uc_ID uc) ` set landed) (Pair (uc_ID uc) ` set notOwed)"
    "distinct (unmarkedTail prs)" "set (unmarkedTail prs) \<inter> (set landed \<union> set notOwed) = {}"
    "\<forall>sid \<in> set (unmarkedTail prs). state_of (pw_listens w) (uc_ID uc, sid) = Some ListenMarkClaimed"
  shows "settled_all broken (uc_ID uc) (set (unmarkedTail prs) \<union> set landed \<union> set notOwed) e X w w'
    \<and> marked_since w0 w' {}
    \<and> ir_Rejected res' = ir_Rejected res
    \<and> (e = None \<longrightarrow> ir_Accepted res' + ir_Duplicates res' = ir_Accepted res + ir_Duplicates res + length prs)"
  using assms(1,3-)
proof (induction prs arbitrary: res landed notOwed w)
  case Nil
  then have w': "w' = recordListenMarks broken (uc_ID uc) landed notOwed w" by simp
  then have same: "pw_marked w' = pw_marked w" by (simp add: recordListenMarks_simps)
  show ?case
    using settled_all_record[where broken = broken and e = None, OF Nil.prems(3)
        lost_landed[OF Nil.prems(2) assms(2) same]] Nil.prems same w'
    by (auto simp: marked_since_def)
next
  case (Cons p prs)
  obtain r claimed where p: "p = (r, claimed)" by force
  let ?u = "uc_ID uc"
  let ?sid = "ln_SessionID (rl_s r)"
  note since = Cons.prems(2)
  show ?case
  proof (cases claimed)
    case False
    then show ?thesis using Cons.IH[OF _ since Cons.prems(3)] Cons.prems by (fastforce simp: p)
  next
    case True
    have t: "unmarkedTail (p # prs) = ?sid # unmarkedTail prs" by (simp add: p True)
    have k: "state_of (pw_listens w) (?u, ?sid) = Some ListenMarkClaimed"
      "(?u, ?sid) \<notin> Pair ?u ` set landed \<union> Pair ?u ` set notOwed"
      using Cons.prems(5,6) t by auto
    obtain out w1 where m: "markListenPlayed pb broken now uc (rl_it r) (rl_s r) (rl_mt r) w = (out, w1)" by force
    note mk = markListenPlayed_simps[OF m]
    have rest: "set (unmarkedTail prs) \<inter> (set (landed @ [?sid]) \<union> set notOwed) = {}"
      "set (unmarkedTail prs) \<inter> (set landed \<union> set (notOwed @ [?sid])) = {}" "distinct (unmarkedTail prs)"
      using Cons.prems(4,5) t by auto
    have quiet: "settled_all broken ?u (set (unmarkedTail (p # prs)) \<union> set landed \<union> set notOwed) e X w w'
        \<and> marked_since w0 w' {} \<and> ir_Rejected res' = ir_Rejected res
        \<and> (e = None \<longrightarrow> ir_Accepted res' + ir_Duplicates res' = ir_Accepted res + ir_Duplicates res + length (p # prs))"
      if o: "out = NotCrossed \<or> (\<exists>x. out = MarkPermanent x)"
    proof -
      have ok: "listens_ok X w1 (Pair ?u ` set landed) (Pair ?u ` set (notOwed @ [?sid]))"
        using listens_ok_not_owed[OF Cons.prems(3) k, of w1] mk o by auto
      have since1: "marked_since w0 w1 (Pair ?u ` set landed)" using marked_since_same[OF since] mk o by auto
      show ?thesis
        using Cons.IH[OF _ since1 ok rest(3,2)] Cons.prems(1,6) t m mk o True settled_all_from[of w1 w]
        by (auto simp: p)
    qed
    show ?thesis
    proof (cases "out")
      case Marked
      let ?w2 = "afterMark broken ann now uc r w1"
      have ok: "listens_ok X ?w2 (Pair ?u ` set (landed @ [?sid])) (Pair ?u ` set notOwed)"
        using listens_ok_mark[OF Cons.prems(3) k, of ?w2] mk Marked by simp
      have since2: "marked_since w0 ?w2 (Pair ?u ` set (landed @ [?sid]))"
        using marked_since_mark[OF since, of ?w2 "(?u, ?sid)"] mk Marked by simp
      show ?thesis
        using Cons.IH[OF _ since2 ok rest(3,1)] Cons.prems(1,6) t m mk Marked True
        settled_all_from[of ?w2 w] by (auto simp: p)
    next
      case (MarkFatal x)
      let ?undo = "unmarkedTail (p # prs)"
      let ?d = "if broken CDeleteListens then w1 else w1\<lparr>pw_listens := DeleteListens ?u ?undo (pw_listens w1)\<rparr>"
      have w': "w' = recordListenMarks broken ?u landed notOwed ?d" "e = Some x" "res' = res"
        using Cons.prems(1) m MarkFatal True by (auto simp: p)
      have ok: "listens_ok X w1 (Pair ?u ` set landed) (Pair ?u ` set notOwed)"
        using listens_ok_same[OF Cons.prems(3)] mk MarkFatal by simp
      have same: "pw_marked w' = pw_marked w" using w'(1) mk(2) MarkFatal by (simp add: recordListenMarks_simps)
      have "\<forall>sid \<in> set ?undo. state_of (pw_listens w1) (?u, sid) = Some ListenMarkClaimed"
        using Cons.prems(6) mk(1) by simp
      from settled_all_delete[where broken = broken and e = x, OF ok lost_landed[OF since assms(2) same] Cons.prems(5) this]
      have "settled_all broken ?u (set ?undo \<union> set landed \<union> set notOwed) (Some x) X w w'"
        using settled_all_from[OF mk(1)] w'(1) by simp
      moreover have "marked_since w0 w' {}" using since same by (simp add: marked_since_def)
      ultimately show ?thesis using w'(2,3) by simp
    qed (use quiet in auto)
  qed
qed

text \<open>Each session of a batch becomes a row or a rejection.\<close>

definition seen_ok :: "(string \<Rightarrow> svc_error + item_view) \<Rightarrow> (string \<times> (item_view + error_kind \<times> string)) list \<Rightarrow> bool" where
  "seen_ok g seen \<longleftrightarrow> (\<forall>p it. map_of seen p = Some (Inl it) \<longrightarrow> g p = Inr it)
     \<and> (\<forall>p x. map_of seen p = Some (Inr x) \<longrightarrow> (\<exists>e. g p = Inl e))"

definition recordable :: "time \<Rightarrow> (string \<Rightarrow> svc_error + item_view) \<Rightarrow> listen_session \<Rightarrow> bool" where
  "recordable now g s \<longleftrightarrow> invalidSession now s = '''' \<and> (\<exists>it. g (ln_PID s) = Inr it)"

lemma resolveListens_rows:
  assumes "resolveListens now (\<lambda>s. g (ln_PID s)) seen ss = (None, rows, rej)" "seen_ok g seen"
  shows "map rl_s rows = filter (recordable now g) ss \<and> length rows + length rej = length ss"
  using assms
proof (induction ss arbitrary: seen rows rej)
  case Nil then show ?case by simp
next
  case (Cons s ss)
  show ?case
  proof (cases "invalidSession now s = ''''")
    case False
    then obtain rej' where r: "resolveListens now (\<lambda>s. g (ln_PID s)) seen ss = (None, rows, rej')" "length rej = Suc (length rej')"
      using Cons.prems(1) by (auto split: prod.splits)
    then show ?thesis using Cons.IH[OF r(1) Cons.prems(2)] False by (simp add: recordable_def)
  next
    case True
    let ?a = "case map_of seen (ln_PID s) of Some a \<Rightarrow> Inr a
      | None \<Rightarrow> (case g (ln_PID s) of Inr it \<Rightarrow> Inr (Inl it)
         | Inl e \<Rightarrow> if KindOf e = KindNotFound \<or> KindOf e = KindInvalid
                   then Inr (Inr (KindOf e, ''unknown item '' @ ln_PID s)) else Inl e)"
    obtain a where a: "?a = Inr a"
      using Cons.prems(1) True by (simp split: sum.splits)
    have ga: "(\<forall>it. a = Inl it \<longrightarrow> g (ln_PID s) = Inr it) \<and> (\<forall>x. a = Inr x \<longrightarrow> (\<exists>e. g (ln_PID s) = Inl e))"
      using a Cons.prems(2) by (auto simp: seen_ok_def split: option.splits sum.splits if_splits)
    then have ok: "seen_ok g ((ln_PID s, a) # seen)"
      using Cons.prems(2) by (auto simp: seen_ok_def split: if_splits)
    obtain e rows' rej' where r: "resolveListens now (\<lambda>s. g (ln_PID s)) ((ln_PID s, a) # seen) ss = (e, rows', rej')"
      by (metis prod_cases3)
    have "e = None" using Cons.prems(1) True a r by (auto split: sum.splits prod.splits)
    with r have IH: "map rl_s rows' = filter (recordable now g) ss \<and> length rows' + length rej' = length ss"
      using Cons.IH[OF _ ok] by blast
    show ?thesis
    proof (cases a)
      case (Inl it)
      then have "map rl_s rows = s # map rl_s rows'" "length rows = Suc (length rows')" "rej = rej'"
        using Cons.prems(1) True a r by (auto split: prod.splits)
      moreover have "recordable now g s" using ga Inl True by (simp add: recordable_def)
      ultimately show ?thesis using IH by simp
    next
      case (Inr x)
      then have "rows = rows'" "length rej = Suc (length rej')"
        using Cons.prems(1) True a r by (auto split: prod.splits)
      moreover have "\<not> recordable now g s" using ga Inr by (auto simp: recordable_def)
      ultimately show ?thesis using IH by simp
    qed
  qed
qed

lemma new_rows_claims:
  assumes "length ns = length rows"
  shows "map lkey (new_rows (map (listen_claim now u) rows) ns) = map (Pair u) (unmarkedTail (zip rows ns))"
    "state_of (new_rows (map (listen_claim now u) rows) ns) k =
      (if k \<in> Pair u ` set (unmarkedTail (zip rows ns)) then Some ListenMarkClaimed else None)"
  using assms
  by (induction ns rows rule: list_induct2; auto simp: listen_claim_def lkey_def)+

lemma unmarkedTail_app: "unmarkedTail (xs @ ys) = unmarkedTail xs @ unmarkedTail ys"
  by (induction xs rule: unmarkedTail.induct) auto

text \<open>The claims of a batch, and its marks up to the \<open>n\<close>th row.\<close>

lemma claimed_batch:
  assumes i: "insert_rows (map (listen_claim now (uc_ID uc)) rows) (pw_listens w) = (ns, rows')"
    and m: "markListens pb broken ann now uc (take n (zip rows ns)) res0 [] [] (w\<lparr>pw_listens := rows'\<rparr>) = (e, res, w')"
    and ok: "listens_ok X w {} {}"
  defines "sids \<equiv> set (unmarkedTail (take n (zip rows ns)))"
  shows "settled_all broken (uc_ID uc) sids e (X \<union> lost_marks broken w w') (w\<lparr>pw_listens := rows'\<rparr>) w'"
    "marked_since w w' {}" "ir_Rejected res = ir_Rejected res0" "length ns = length rows"
    "e = None \<Longrightarrow> ir_Accepted res + ir_Duplicates res
        = ir_Accepted res0 + ir_Duplicates res0 + length (take n (zip rows ns))"
    "sid \<in> set (unmarkedTail (zip rows ns)) \<Longrightarrow> state_of (pw_listens w) (uc_ID uc, sid) = None"
    "state_of rows' k = (case state_of (pw_listens w) k of Some s \<Rightarrow> Some s
        | None \<Rightarrow> if k \<in> Pair (uc_ID uc) ` set (unmarkedTail (zip rows ns)) then Some ListenMarkClaimed else None)"
    "r \<in> set rows \<Longrightarrow> state_of rows' (uc_ID uc, ln_SessionID (rl_s r)) \<noteq> None"
    "sids \<subseteq> set (unmarkedTail (zip rows ns))"
proof -
  let ?w = "w\<lparr>pw_listens := rows'\<rparr>"
  let ?all = "unmarkedTail (zip rows ns)"
  note d = insert_rows_facts[OF i listens_okD(5)[OF ok]]
  show len: "length ns = length rows" using d(1) by simp
  note cl = new_rows_claims[OF len, of now "uc_ID uc"]
  have fresh: "state_of (pw_listens w) (uc_ID uc, sid) = None" if "sid \<in> set ?all" for sid
  proof -
    have "lkey ` set (new_rows (map (listen_claim now (uc_ID uc)) rows) ns) = Pair (uc_ID uc) ` set ?all"
      using arg_cong[OF cl(1), of set] by simp
    then show ?thesis using d(5)[of "(uc_ID uc, sid)"] that by simp
  qed
  then show "sid \<in> set ?all \<Longrightarrow> state_of (pw_listens w) (uc_ID uc, sid) = None" by blast
  have st: "state_of rows' k = (case state_of (pw_listens w) k of Some s \<Rightarrow> Some s
      | None \<Rightarrow> if k \<in> Pair (uc_ID uc) ` set ?all then Some ListenMarkClaimed else None)" for k
    by (simp add: d(4) cl(2) split: option.split)
  then show "state_of rows' k = (case state_of (pw_listens w) k of Some s \<Rightarrow> Some s
      | None \<Rightarrow> if k \<in> Pair (uc_ID uc) ` set ?all then Some ListenMarkClaimed else None)" by blast
  show "r \<in> set rows \<Longrightarrow> state_of rows' (uc_ID uc, ln_SessionID (rl_s r)) \<noteq> None"
    using d(6)[of "listen_claim now (uc_ID uc) r"] by (simp add: listen_claim_def lkey_def)
  have split: "?all = unmarkedTail (take n (zip rows ns)) @ unmarkedTail (drop n (zip rows ns))"
    by (metis append_take_drop_id unmarkedTail_app)
  have "distinct ?all" using d(3) by (simp only: cl(1) distinct_map)
  then have dist: "distinct (unmarkedTail (take n (zip rows ns)))" unfolding split by simp
  show sub: "sids \<subseteq> set ?all" unfolding sids_def split by simp
  have claimed: "\<forall>sid \<in> sids. state_of (pw_listens ?w) (uc_ID uc, sid) = Some ListenMarkClaimed"
    using fresh sub by (auto simp: st)
  have "listens_ok X ?w {} {}"
  proof -
    have "state_of rows' k = Some ListenMarkLanded \<longleftrightarrow> state_of (pw_listens w) k = Some ListenMarkLanded" for k
      by (simp add: st split: option.split)
    then show ?thesis using ok d(2) by (simp add: listens_ok_def)
  qed
  then have ok': "listens_ok (X \<union> lost_marks broken w w') ?w (Pair (uc_ID uc) ` set []) (Pair (uc_ID uc) ` set [])"
    using listens_ok_mono by (metis Un_upper1 image_empty list.set(1))
  have since: "marked_since w ?w (Pair (uc_ID uc) ` set [])" using marked_since_refl by simp
  have s: "settled_all broken (uc_ID uc) (sids \<union> set [] \<union> set []) e (X \<union> lost_marks broken w w') ?w w'
      \<and> marked_since w w' {} \<and> ir_Rejected res = ir_Rejected res0
      \<and> (e = None \<longrightarrow> ir_Accepted res + ir_Duplicates res
            = ir_Accepted res0 + ir_Duplicates res0 + length (take n (zip rows ns)))"
    unfolding sids_def
    by (rule markListens_settles[OF m _ since ok' dist]) (use claimed in \<open>auto simp: sids_def\<close>)
  then show "settled_all broken (uc_ID uc) sids e (X \<union> lost_marks broken w w') ?w w'"
    "marked_since w w' {}" "ir_Rejected res = ir_Rejected res0"
    "e = None \<Longrightarrow> ir_Accepted res + ir_Duplicates res
        = ir_Accepted res0 + ir_Duplicates res0 + length (take n (zip rows ns))" by simp_all
qed

text \<open>A batch whose process ends after \<open>n\<close> rows: the claims are in, some marks have landed, and
  nothing is written back.\<close>

lemma crash_settles:
  assumes "insert_rows (map (listen_claim now (uc_ID uc)) rows) (pw_listens w) = (ns, rows')"
    "markListens pb broken ann now uc (take n (zip rows ns)) res0 [] [] (w\<lparr>pw_listens := rows'\<rparr>) = (e, res, w')"
    "listens_ok X w {} {}"
  shows "listens_ok (X \<union> lost_marks broken w w') w' {} {}" "marked_since w w' {}"
  using claimed_batch(1,2)[OF assms] unfolding settled_all_def by blast+

lemma ingest_settles:
  assumes ing: "ingestListens pb broken ann now get uc sessions w = (e, res, w')"
    and ok: "listens_ok X w {} {}"
  shows "listens_ok (X \<union> lost_marks broken w w') w' {} {}" "marked_since w w' {}"
    "\<forall>k. state_of (pw_listens w) k \<noteq> None \<longrightarrow> state_of (pw_listens w') k = state_of (pw_listens w) k"
    "records broken (uc_ID uc) \<longrightarrow> (\<forall>k. state_of (pw_listens w') k = Some ListenMarkClaimed
        \<longrightarrow> state_of (pw_listens w) k = Some ListenMarkClaimed)"
    "e = None \<longrightarrow> (\<exists>rows. resolveListens now get [] sessions = (None, rows, ir_Rejected res)
       \<and> ir_Accepted res + ir_Duplicates res = length rows
       \<and> (\<forall>r \<in> set rows. state_of (pw_listens w') (uc_ID uc, ln_SessionID (rl_s r)) \<noteq> None))"
proof -
  let ?G = "listens_ok (X \<union> lost_marks broken w w') w' {} {} \<and> marked_since w w' {}
    \<and> (\<forall>k. state_of (pw_listens w) k \<noteq> None \<longrightarrow> state_of (pw_listens w') k = state_of (pw_listens w) k)
    \<and> (records broken (uc_ID uc) \<longrightarrow> (\<forall>k. state_of (pw_listens w') k = Some ListenMarkClaimed
        \<longrightarrow> state_of (pw_listens w) k = Some ListenMarkClaimed))
    \<and> (e = None \<longrightarrow> (\<exists>rows. resolveListens now get [] sessions = (None, rows, ir_Rejected res)
       \<and> ir_Accepted res + ir_Duplicates res = length rows
       \<and> (\<forall>r \<in> set rows. state_of (pw_listens w') (uc_ID uc, ln_SessionID (rl_s r)) \<noteq> None)))"
  obtain e0 rows rej where r: "resolveListens now get [] sessions = (e0, rows, rej)" by (metis prod_cases3)
  have ?G
  proof (cases "e0 \<noteq> None \<or> rows = [] \<or> broken CInsertListens")
    case True
    then have "w' = w" "e = None \<longrightarrow> e0 = None \<and> rows = [] \<and> ir_Accepted res = 0 \<and> ir_Duplicates res = 0 \<and> ir_Rejected res = rej"
      using ing r by (auto simp: ingestListens_def Let_def split: if_splits)
    then show ?thesis using r listens_ok_mono[OF ok] by (simp add: marked_since_def)
  next
    case False
    let ?res = "\<lparr>ir_Accepted = 0, ir_Duplicates = 0, ir_Rejected = rej\<rparr>"
    obtain ns rows' where i: "insert_rows (map (listen_claim now (uc_ID uc)) rows) (pw_listens w) = (ns, rows')" by force
    let ?w = "w\<lparr>pw_listens := rows'\<rparr>"
    have "markListens pb broken ann now uc (zip rows ns) ?res [] [] ?w = (e, res, w')"
      using ing r i False by (simp add: ingestListens_def)
    then have m: "markListens pb broken ann now uc (take (length (zip rows ns)) (zip rows ns)) ?res [] [] ?w = (e, res, w')"
      by simp
    note b = claimed_batch[OF i m ok]
    let ?sids = "set (unmarkedTail (zip rows ns))"
    have s: "settled_all broken (uc_ID uc) ?sids e (X \<union> lost_marks broken w w') ?w w'" using b(1) by simp
    have old: "state_of (pw_listens w') k = state_of (pw_listens w) k" if "state_of (pw_listens w) k \<noteq> None" for k
    proof -
      have "k \<notin> Pair (uc_ID uc) ` ?sids" using b(6) that by (cases k) auto
      then have "state_of (pw_listens w') k = state_of rows' k"
        using settled_allD(1)[OF s] by simp
      then show ?thesis using that by (auto simp: b(7))
    qed
    have claimed: "state_of (pw_listens w) k = Some ListenMarkClaimed"
      if "records broken (uc_ID uc)" "state_of (pw_listens w') k = Some ListenMarkClaimed" for k
    proof -
      have k: "k \<notin> Pair (uc_ID uc) ` ?sids"
        using settled_allD(3)[OF s _ that(1)] that(2) by auto
      then have "state_of (pw_listens w') k = state_of rows' k"
        using settled_allD(1)[OF s] by simp
      then show ?thesis using that k by (simp add: b(7) split: option.splits)
    qed
    have present: "state_of (pw_listens w') (uc_ID uc, ln_SessionID (rl_s r)) \<noteq> None" if "e = None" "r \<in> set rows" for r
      using settled_allD(2)[OF s that(1)] b(8)[OF that(2)] by simp
    have "e0 = None" using False by simp
    then have "e = None \<longrightarrow> (\<exists>rows. resolveListens now get [] sessions = (None, rows, ir_Rejected res)
       \<and> ir_Accepted res + ir_Duplicates res = length rows
       \<and> (\<forall>r \<in> set rows. state_of (pw_listens w') (uc_ID uc, ln_SessionID (rl_s r)) \<noteq> None))"
      using r b(3,4,5) present by (intro impI exI[of _ rows] conjI ballI) simp_all
    moreover have "listens_ok (X \<union> lost_marks broken w w') w' {} {}" using s unfolding settled_all_def by blast
    ultimately show ?thesis using old claimed b(2) by (intro conjI) blast+
  qed
  then show "listens_ok (X \<union> lost_marks broken w w') w' {} {}" "marked_since w w' {}"
    "\<forall>k. state_of (pw_listens w) k \<noteq> None \<longrightarrow> state_of (pw_listens w') k = state_of (pw_listens w) k"
    "records broken (uc_ID uc) \<longrightarrow> (\<forall>k. state_of (pw_listens w') k = Some ListenMarkClaimed
        \<longrightarrow> state_of (pw_listens w) k = Some ListenMarkClaimed)"
    "e = None \<longrightarrow> (\<exists>rows. resolveListens now get [] sessions = (None, rows, ir_Rejected res)
       \<and> ir_Accepted res + ir_Duplicates res = length rows
       \<and> (\<forall>r \<in> set rows. state_of (pw_listens w') (uc_ID uc, ln_SessionID (rl_s r)) \<noteq> None))"
    by blast+
qed


section \<open>The sweep\<close>

lemma sids_of_image: "Pair u ` set (sids_of u xs) = {k \<in> set xs. fst k = u}"
  by (induction u xs rule: sids_of.induct) auto

lemma swept_landed:
  assumes "\<And>k. k \<in> set landed \<Longrightarrow> broken (CSetMarks (fst k) ListenMarkLanded) \<Longrightarrow> k \<in> X"
    "listens_ok X w {k \<in> set landed. fst k \<in> set us} N" "distinct us"
  shows "listens_ok X (fold (\<lambda>u. recordListenMarks broken u (sids_of u landed) []) us w) {} N
    \<and> pw_marked (fold (\<lambda>u. recordListenMarks broken u (sids_of u landed) []) us w) = pw_marked w"
  using assms(2,3)
proof (induction us arbitrary: w)
  case Nil then show ?case by simp
next
  case (Cons u us)
  let ?L = "{k \<in> set landed. fst k \<in> set (u # us)}"
  have sub: "Pair u ` set (sids_of u landed) \<subseteq> ?L" by (auto simp: sids_of_image)
  have lost: "Pair u ` set (sids_of u landed) \<subseteq> X" if "broken (CSetMarks u ListenMarkLanded)"
    using assms(1) that unfolding sids_of_image by auto
  have "listens_ok X (recordListenMarks broken u (sids_of u landed) [] w) (?L - Pair u ` set (sids_of u landed)) N"
    using listens_ok_record[where broken = broken, OF Cons.prems(1) sub _ lost, of "[]"] by simp
  moreover have "?L - Pair u ` set (sids_of u landed) = {k \<in> set landed. fst k \<in> set us}"
    using Cons.prems(2) by (auto simp: sids_of_image)
  ultimately show ?case using Cons.IH Cons.prems(2) by (simp add: recordListenMarks_simps)
qed

lemma swept_not_owed:
  assumes "listens_ok X w L {k \<in> set notOwed. fst k \<in> set us}" "distinct us"
  shows "listens_ok X (fold (\<lambda>u. recordListenMarks broken u [] (sids_of u notOwed)) us w) L {}
    \<and> pw_marked (fold (\<lambda>u. recordListenMarks broken u [] (sids_of u notOwed)) us w) = pw_marked w"
  using assms
proof (induction us arbitrary: w)
  case Nil then show ?case by simp
next
  case (Cons u us)
  let ?N = "{k \<in> set notOwed. fst k \<in> set (u # us)}"
  have "Pair u ` set (sids_of u notOwed) \<subseteq> ?N" by (auto simp: sids_of_image)
  then have "listens_ok X (recordListenMarks broken u [] (sids_of u notOwed) w) L (?N - Pair u ` set (sids_of u notOwed))"
    using listens_ok_record[where broken = broken, OF Cons.prems(1), of u "[]" "sids_of u notOwed"] by simp
  moreover have "?N - Pair u ` set (sids_of u notOwed) = {k \<in> set notOwed. fst k \<in> set us}"
    using Cons.prems(2) by (auto simp: sids_of_image)
  ultimately show ?case using Cons.IH Cons.prems(2) by (simp add: recordListenMarks_simps)
qed

lemma recordSweptMarks_ok:
  assumes "\<And>k. k \<in> set landed \<Longrightarrow> broken (CSetMarks (fst k) ListenMarkLanded) \<Longrightarrow> k \<in> X"
    "listens_ok X w (set landed) (set notOwed)"
  shows "listens_ok X (recordSweptMarks broken landed notOwed w) {} {}"
    "pw_marked (recordSweptMarks broken landed notOwed w) = pw_marked w"
proof -
  have all: "{k \<in> set xs. fst k \<in> set (remdups (map fst xs))} = set xs" for xs :: "(string \<times> string) list" by auto
  let ?v = "fold (\<lambda>u. recordListenMarks broken u (sids_of u landed) []) (remdups (map fst landed)) w"
  have l: "listens_ok X ?v {} (set notOwed) \<and> pw_marked ?v = pw_marked w"
    by (rule swept_landed[where broken = broken, OF assms(1)]) (simp_all only: all distinct_remdups assms(2))
  then have "listens_ok X (recordSweptMarks broken landed notOwed w) {} {}
      \<and> pw_marked (recordSweptMarks broken landed notOwed w) = pw_marked ?v"
    unfolding recordSweptMarks_def
    by (intro swept_not_owed[where broken = broken]) (simp_all only: all distinct_remdups)
  with l show "listens_ok X (recordSweptMarks broken landed notOwed w) {} {}"
    "pw_marked (recordSweptMarks broken landed notOwed w) = pw_marked w" by simp_all
qed

lemma sweepRows_ok:
  assumes "sweepRows pb broken now who get rows rep landed notOwed w = (e, rep', w')"
    "lost_marks broken w0 w' \<subseteq> X" "marked_since w0 w (set landed)"
    "listens_ok X w (set landed) (set notOwed)" "distinct (map lkey rows)"
    "\<forall>r \<in> set rows. state_of (pw_listens w) (lkey r) = Some ListenMarkClaimed \<and> lkey r \<notin> set landed \<union> set notOwed"
    "\<forall>u uc. who u = SweptUser uc \<longrightarrow> uc_ID uc = u"
  shows "listens_ok X w' {} {} \<and> marked_since w0 w' {}"
  using assms(1,3-6)
proof (induction rows arbitrary: rep landed notOwed w)
  case Nil
  then have w': "w' = recordSweptMarks broken landed notOwed w" by simp
  have "k \<in> X" if "k \<in> set landed" "broken (CSetMarks (fst k) ListenMarkLanded)" for k
  proof -
    have "pw_marked w' = pw_marked w"
      using recordSweptMarks_ok(2)[where broken = broken and X = "X \<union> set landed", OF _ listens_ok_mono[OF Nil.prems(3)]] w'
      by simp
    with that Nil.prems(2) assms(2) show ?thesis by (auto simp: marked_since_def lost_marks_def)
  qed
  from recordSweptMarks_ok[where broken = broken, OF this Nil.prems(3)] w' Nil.prems(2)
  show ?case by (simp add: marked_since_def)
next
  case (Cons r rs)
  let ?k = "(lr_UserID r, ln_SessionID (lr_Session r))"
  have k: "state_of (pw_listens w) ?k = Some ListenMarkClaimed" "?k \<notin> set landed \<union> set notOwed"
    using Cons.prems(5) by (auto simp: lkey_def)
  have r1: "lkey x \<noteq> ?k" if "x \<in> set rs" for x using Cons.prems(4) that by (auto simp: lkey_def image_iff)
  have rest: "distinct (map lkey rs)"
    "\<forall>x \<in> set rs. state_of (pw_listens w) (lkey x) = Some ListenMarkClaimed \<and> lkey x \<notin> set landed \<union> set notOwed"
    using Cons.prems(4,5) by auto
  have settle: "listens_ok X w' {} {} \<and> marked_since w0 w' {}"
    if s: "sweepRows pb broken now who get rs rep2 landed (notOwed @ [?k]) w2 = (e, rep', w')"
      "pw_listens w2 = pw_listens w" "pw_marked w2 = pw_marked w" for rep2 w2
  proof (rule Cons.IH[OF s(1) _ _ rest(1)])
    show "marked_since w0 w2 (set landed)" using marked_since_same[OF Cons.prems(2) s(3)] .
    show "listens_ok X w2 (set landed) (set (notOwed @ [?k]))"
      using listens_ok_not_owed[OF Cons.prems(3) k s(2,3)] by simp
    show "\<forall>x \<in> set rs. state_of (pw_listens w2) (lkey x) = Some ListenMarkClaimed \<and> lkey x \<notin> set landed \<union> set (notOwed @ [?k])"
      using rest(2) r1 s(2) by simp
  qed
  show ?case
  proof (cases "who (lr_UserID r)")
    case SweptGone
    then show ?thesis using Cons.prems(1) by (simp add: Let_def settle)
  next
    case SweptUnread
    then show ?thesis using Cons.prems(1) Cons.IH[OF _ Cons.prems(2,3) rest] by (simp add: Let_def)
  next
    case (SweptUser uc)
    then have u: "uc_ID uc = lr_UserID r" using assms(7) by simp
    show ?thesis
    proof (cases "get (lr_ItemPID r)")
      case (Inl x)
      show ?thesis
      proof (cases "KindOf (classify x) = KindNotFound \<or> KindOf (classify x) = KindInvalid")
        case True
        then show ?thesis using Cons.prems(1) SweptUser Inl by (simp add: Let_def settle)
      next
        case False
        then show ?thesis using Cons.prems(1) SweptUser Inl Cons.IH[OF _ Cons.prems(2,3) rest] by (simp add: Let_def)
      qed
    next
      case (Inr it)
      obtain out w1 where m: "markListenPlayed pb broken now uc it (lr_Session r) (mediaTypeForKind (iv_Kind it)) w = (out, w1)"
        by force
      note mk = markListenPlayed_simps[OF m]
      show ?thesis
      proof (cases "out")
        case Marked
        let ?w2 = "emitPlayState broken now (lr_UserID r) (iv_PID it) w1"
        have "sweepRows pb broken now who get rs (rep\<lparr>sw_Marked := sw_Marked rep + 1\<rparr>) (landed @ [?k]) notOwed ?w2 = (e, rep', w')"
          using Cons.prems(1) SweptUser Inr m Marked by (simp add: Let_def)
        then show ?thesis
        proof (rule Cons.IH[OF _ _ _ rest(1)])
          show "marked_since w0 ?w2 (set (landed @ [?k]))"
            using marked_since_mark[OF Cons.prems(2), of ?w2 ?k] mk Marked u by simp
          show "listens_ok X ?w2 (set (landed @ [?k])) (set notOwed)"
            using listens_ok_mark[OF Cons.prems(3) k, of ?w2] mk Marked u by simp
          show "\<forall>x \<in> set rs. state_of (pw_listens ?w2) (lkey x) = Some ListenMarkClaimed \<and> lkey x \<notin> set (landed @ [?k]) \<union> set notOwed"
            using rest(2) r1 mk by simp
        qed
      next
        case NotCrossed
        then show ?thesis using Cons.prems(1) SweptUser Inr m mk by (simp add: Let_def settle)
      next
        case (MarkPermanent x)
        then show ?thesis using Cons.prems(1) SweptUser Inr m mk by (simp add: Let_def settle)
      next
        case (MarkFatal x)
        have stop: "sweepRows pb broken now who get [] rep landed notOwed w1 = (None, rep, w')"
          using Cons.prems(1) SweptUser Inr m MarkFatal by (simp add: Let_def)
        have ok: "listens_ok X w1 (set landed) (set notOwed)" using listens_ok_same[OF Cons.prems(3)] mk MarkFatal by simp
        have since: "marked_since w0 w1 (set landed)" using marked_since_same[OF Cons.prems(2)] mk MarkFatal by simp
        have w': "w' = recordSweptMarks broken landed notOwed w1" using stop by simp
        have "j \<in> X" if "j \<in> set landed" "broken (CSetMarks (fst j) ListenMarkLanded)" for j
        proof -
          have "pw_marked w' = pw_marked w1"
            using recordSweptMarks_ok(2)[where broken = broken and X = "X \<union> set landed", OF _ listens_ok_mono[OF ok]] w'
            by simp
          with that since assms(2) show ?thesis by (auto simp: marked_since_def lost_marks_def)
        qed
        from recordSweptMarks_ok[where broken = broken, OF this ok] w' since
        show ?thesis by (simp add: marked_since_def)
      qed
    qed
  qed
qed


lemma sweptUserFor_same: "sweptUserFor mw broken st u = SweptUser uc \<Longrightarrow> uc_ID uc = u"
  by (auto simp: sweptUserFor_def UserByID_def UserCtx_def find_Some_iff Let_def split: if_splits sum.splits option.splits store_error.splits)

text \<open>A sweep that works off the first \<open>n\<close> of the pending rows.\<close>

lemma swept_rows_settle:
  assumes "sweepRows pb broken now who get (take n (PendingListenMarks cutoff limit (pw_listens w))) rep0 [] [] w = (e, rep, w')"
    "listens_ok X w {} {}" "\<forall>u uc. who u = SweptUser uc \<longrightarrow> uc_ID uc = u"
  shows "listens_ok (X \<union> lost_marks broken w w') w' {} {}" "marked_since w w' {}"
proof -
  let ?pend = "\<lambda>r. lr_MarkState r = ListenMarkClaimed \<and> lr_ReceivedAtNS r < cutoff"
  let ?rows = "take n (PendingListenMarks cutoff limit (pw_listens w))"
  have d: "distinct (map lkey (pw_listens w))" using assms(2) by (simp add: listens_ok_def)
  have "distinct (map lkey (filter ?pend (pw_listens w)))" using d by (rule distinct_map_filter)
  moreover have "mset (map lkey (sort_key lr_ReceivedAtNS (filter ?pend (pw_listens w)))) = mset (map lkey (filter ?pend (pw_listens w)))"
    by simp
  ultimately have "distinct (map lkey (sort_key lr_ReceivedAtNS (filter ?pend (pw_listens w))))"
    using mset_eq_imp_distinct_iff by blast
  then have dr: "distinct (map lkey ?rows)" by (simp add: PendingListenMarks_def take_map[symmetric])
  have rows: "\<forall>r \<in> set ?rows. state_of (pw_listens w) (lkey r) = Some ListenMarkClaimed \<and> lkey r \<notin> {}"
  proof -
    have "state_of (pw_listens w) (lkey r) = Some (lr_MarkState r)" if "r \<in> set (pw_listens w)" for r
      unfolding state_of_def using d that by (intro map_of_is_SomeI) (auto simp: comp_def)
    moreover have "r \<in> set (pw_listens w) \<and> lr_MarkState r = ListenMarkClaimed" if "r \<in> set ?rows" for r
      using that by (auto simp: PendingListenMarks_def dest!: in_set_takeD)
    ultimately show ?thesis by auto
  qed
  have "listens_ok (X \<union> lost_marks broken w w') w {} {}" using listens_ok_mono[OF assms(2)] by blast
  then have "listens_ok (X \<union> lost_marks broken w w') w' {} {} \<and> marked_since w w' {}"
    using rows dr assms(3) by (intro sweepRows_ok[OF assms(1)]) (auto simp: marked_since_def)
  then show "listens_ok (X \<union> lost_marks broken w w') w' {} {}" "marked_since w w' {}" by blast+
qed

lemma sweep_settles:
  assumes "SweepListenMarks pb broken now who get w = (e, rep, w')" "listens_ok X w {} {}"
    "\<forall>u uc. who u = SweptUser uc \<longrightarrow> uc_ID uc = u"
  shows "listens_ok (X \<union> lost_marks broken w w') w' {} {}" "marked_since w w' {}"
proof -
  have "listens_ok (X \<union> lost_marks broken w w') w' {} {} \<and> marked_since w w' {}"
  proof (cases "broken CPendingMarks")
    case True
    then have "w' = w" using assms(1) by (simp add: SweepListenMarks_def sweepListenMarks_def)
    then show ?thesis using listens_ok_mono[OF assms(2)] by (simp add: marked_since_def)
  next
    case False
    let ?rows = "PendingListenMarks (now - listenMarkGrace) listenMarkSweepLimit (pw_listens w)"
    have "sweepRows pb broken now who get (take (length ?rows) ?rows)
        \<lparr>sw_Scanned = length ?rows, sw_Marked = 0, sw_Settled = 0\<rparr> [] [] w = (e, rep, w')"
      using assms(1) False by (simp add: SweepListenMarks_def sweepListenMarks_def Let_def)
    from swept_rows_settle[OF this assms(2,3)] show ?thesis by blast
  qed
  then show "listens_ok (X \<union> lost_marks broken w w') w' {} {}" "marked_since w w' {}" by blast+
qed

lemma radio_settles:
  assumes "listens_ok X w {} {}"
  shows "listens_ok X (w\<lparr>pw_listens := UpsertRadioListen now r (pw_listens w)\<rparr>) {} {}"
proof -
  let ?u = "UpsertRadioListen now r (pw_listens w)"
  have k: "lkey (r\<lparr>lr_Session := s, lr_ReceivedAtNS := t, lr_MarkState := m\<rparr>) = (lr_UserID r, ln_SessionID s)" for s t m
    by (simp add: lkey_def)
  show ?thesis
  proof (cases "has_listen (lr_UserID r) (ln_SessionID (lr_Session r)) (pw_listens w)")
    case True
    have "map (\<lambda>r. (lkey r, lr_MarkState r)) ?u = map (\<lambda>r. (lkey r, lr_MarkState r)) (pw_listens w)"
      using True by (simp add: UpsertRadioListen_def lkey_def)
    moreover from this have "map lkey ?u = map lkey (pw_listens w)"
      by (metis (no_types, lifting) comp_apply fst_conv map_eq_conv map_map)
    ultimately show ?thesis using assms by (simp add: listens_ok_def state_of_def)
  next
    case False
    then have n: "state_of (pw_listens w) (lr_UserID r, ln_SessionID (lr_Session r)) = None" by (simp add: has_listen_iff)
    moreover from this have "(lr_UserID r, ln_SessionID (lr_Session r)) \<notin> lkey ` set (pw_listens w)"
      by (simp add: state_of_None)
    ultimately show ?thesis
      using assms False by (auto simp: UpsertRadioListen_def Let_def listens_ok_def state_of_app k split: option.splits)
  qed
qed

section \<open>Runs\<close>

text \<open>
  A batch reported or imported, a sweep, a tune-in, or anything that leaves the log alone; any
  statement of them may fail.  A batch or a sweep may also be cut short, by the end of the process,
  after any number of its rows, with no outcome written back.  Batches and sweeps run one after the
  other.  Beside the world a run carries the sessions the catalog counted whose landed outcome could
  not be written: what that leaves is a claim, which a sweep marks again.
\<close>

type_synonym 'c listen_run = "(string \<times> string) set \<times> 'c play_world"

inductive listen_step :: "'c playback \<Rightarrow> 'c listen_run \<Rightarrow> 'c listen_run \<Rightarrow> bool" for pb where
  reported: "ingestListens pb broken ann now get uc sessions w = (e, res, w') \<Longrightarrow>
    listen_step pb (X, w) (X \<union> lost_marks broken w w', w')"
| swept: "SweepListenMarks pb broken now (sweptUserFor mw unread st) get w = (e, rep, w') \<Longrightarrow>
    listen_step pb (X, w) (X \<union> lost_marks broken w w', w')"
| batch_cut_short: "insert_rows (map (listen_claim now (uc_ID uc)) rows) (pw_listens w) = (ns, rows') \<Longrightarrow>
    markListens pb broken ann now uc (take n (zip rows ns)) res0 [] [] (w\<lparr>pw_listens := rows'\<rparr>) = (e, res, w') \<Longrightarrow>
    \<forall>u st. broken (CSetMarks u st) \<Longrightarrow>
    listen_step pb (X, w) (X \<union> lost_marks broken w w', w')"
| sweep_cut_short: "sweepRows pb broken now (sweptUserFor mw unread st) get
      (take n (PendingListenMarks cutoff listenMarkSweepLimit (pw_listens w))) rep0 [] [] w = (e, rep, w') \<Longrightarrow>
    \<forall>u st. broken (CSetMarks u st) \<Longrightarrow>
    listen_step pb (X, w) (X \<union> lost_marks broken w w', w')"
| tuned_in: "listen_step pb (X, w) (X, w\<lparr>pw_listens := UpsertRadioListen now r (pw_listens w)\<rparr>)"
| elsewhere: "pw_listens w' = pw_listens w \<Longrightarrow> pw_marked w' = pw_marked w \<Longrightarrow> listen_step pb (X, w) (X, w')"

definition no_listens :: "'c listen_run \<Rightarrow> bool" where
  "no_listens r \<longleftrightarrow> fst r = {} \<and> pw_listens (snd r) = [] \<and> pw_marked (snd r) = []"

definition listen_run_ok :: "'c listen_run \<Rightarrow> bool" where
  "listen_run_ok r \<longleftrightarrow> listens_ok (fst r) (snd r) {} {} \<and> fst r \<subseteq> set (pw_marked (snd r))"

lemma lost_in_marked:
  assumes "X \<subseteq> set (pw_marked w)" "marked_since w w' {}"
  shows "X \<union> lost_marks broken w w' \<subseteq> set (pw_marked w')"
proof
  fix k assume "k \<in> X \<union> lost_marks broken w w'"
  moreover have "count_list (pw_marked w) k \<le> count_list (pw_marked w') k"
    using assms(2) unfolding marked_since_def by blast
  moreover have "k \<in> X \<Longrightarrow> count_list (pw_marked w) k \<noteq> 0" using assms(1) by (auto simp: count_list_0_iff)
  ultimately have "count_list (pw_marked w') k \<noteq> 0" by (auto simp: lost_marks_def)
  then show "k \<in> set (pw_marked w')" by (simp add: count_list_0_iff)
qed

lemma listen_step_ok: "listen_step pb r r' \<Longrightarrow> listen_run_ok r \<Longrightarrow> listen_run_ok r'"
proof (induction rule: listen_step.induct)
  case (reported broken ann now get uc sessions w e res w' X)
  then show ?case
    using ingest_settles(1,2)[OF reported(1)] lost_in_marked unfolding listen_run_ok_def by (metis fst_conv snd_conv)
next
  case (swept broken now mw unread st get w e rep w' X)
  have "\<forall>u uc. sweptUserFor mw unread st u = SweptUser uc \<longrightarrow> uc_ID uc = u" using sweptUserFor_same by blast
  with swept show ?case
    using sweep_settles[OF swept(1)] lost_in_marked unfolding listen_run_ok_def by (metis fst_conv snd_conv)
next
  case (batch_cut_short now uc rows w ns rows' broken ann n res0 e res w' X)
  then show ?case
    using crash_settles[OF batch_cut_short(1,2)] lost_in_marked unfolding listen_run_ok_def by (metis fst_conv snd_conv)
next
  case (sweep_cut_short broken now mw unread st get n cutoff w rep0 e rep w' X)
  have "\<forall>u uc. sweptUserFor mw unread st u = SweptUser uc \<longrightarrow> uc_ID uc = u" using sweptUserFor_same by blast
  with sweep_cut_short show ?case
    using swept_rows_settle[OF sweep_cut_short(1)] lost_in_marked unfolding listen_run_ok_def by (metis fst_conv snd_conv)
next
  case (tuned_in X w now r)
  then show ?case using radio_settles[of X w now r] unfolding listen_run_ok_def by simp
next
  case (elsewhere w' w X)
  then show ?case using listens_ok_same[of X w "{}" "{}" w'] unfolding listen_run_ok_def by simp
qed

interpretation listen_runs: transition_system no_listens "listen_step pb" listen_run_ok
  by unfold_locales (simp add: no_listens_def listen_run_ok_def listens_ok_def, erule (1) listen_step_ok)

text \<open>C4. A listening session is counted once.  Whatever batches are reported, reported again or
  imported, whatever marks and statements fail in them, wherever the process ends in the middle of one,
  and however sweeps come in between: the catalog is asked to count each session whose row is landed,
  exactly once, and no other; where the landed outcome of a counted session could not be written,
  because the write failed or the process ended first, it is counted once or more.  Batches and sweeps
  run one after the other.\<close>

theorem listens_counted_once:
  assumes "no_listens r0" "(listen_step pb)\<^sup>*\<^sup>* r0 (lost, w)"
  shows "distinct (map lkey (pw_listens w))
    \<and> (\<forall>k. k \<notin> lost \<longrightarrow> count_list (pw_marked w) k =
         (if state_of (pw_listens w) k = Some ListenMarkLanded then 1 else 0))
    \<and> (\<forall>k. k \<in> lost \<or> state_of (pw_listens w) k = Some ListenMarkLanded \<longrightarrow> 1 \<le> count_list (pw_marked w) k)"
proof -
  have "listen_run_ok (lost, w)" using listen_runs.inv_reachable[OF assms] .
  then have ok: "listens_ok lost w {} {}" "lost \<subseteq> set (pw_marked w)" by (simp_all add: listen_run_ok_def)
  have pos: "1 \<le> count_list xs k" if "k \<in> set xs" for xs and k :: "string \<times> string"
    using that count_list_0_iff[of xs k] by linarith
  have "1 \<le> count_list (pw_marked w) k" if "k \<in> lost \<or> state_of (pw_listens w) k = Some ListenMarkLanded" for k
    using that ok(2) listens_okD(2)[OF ok(1), of k] by (blast intro: pos)
  moreover have "count_list (pw_marked w) k =
      (if state_of (pw_listens w) k = Some ListenMarkLanded then 1 else 0)" if "k \<notin> lost" for k
    using listens_okD(1)[OF ok(1) that] by simp
  ultimately show ?thesis using listens_okD(5)[OF ok(1)] by blast
qed


section \<open>Concrete batches\<close>

text \<open>A catalog that counts, and one that is being maintained.\<close>

definition counting :: "nat playback" where
  "counting = \<lparr>pb_State = (\<lambda>_ _ _. Inr None), pb_Checkpoint = (\<lambda>_ _ _ _ c. (None, c)),
     pb_MarkPlayed = (\<lambda>_ _ _ _ c. (None, c + 1)), pb_SetPlayed = (\<lambda>_ _ _ _ _ _ c. (Inr True, c)),
     pb_SetStar = (\<lambda>_ _ _ _ c. (Inr True, c)), pb_SetRating = (\<lambda>_ _ _ _ c. (Inr True, c))\<rparr>"

definition refusing :: "nat playback" where
  "refusing = counting\<lparr>pb_MarkPlayed := (\<lambda>_ _ _ _ c. (Some \<lparr>we_Code = CodeOther, we_Text = ''''\<rparr>, c))\<rparr>"

definition heard :: listen_session where
  "heard = \<lparr>ln_SessionID = ''s1'', ln_PID = ''tr-T1'', ln_StartedAt = 50, ln_MsPlayed = 0, ln_SkippedMs = 0,
     ln_Finished = True, ln_Client = '''', ln_Source = ''''\<rparr>"

definition quiet_log :: "nat play_world" where
  "quiet_log = \<lparr>pw_catalog = 0, pw_stamps = Map.empty, pw_listens = [], pw_events = no_events, pw_scrobbles = [], pw_marked = []\<rparr>"

lemma bob_sees: "getVisibleItem demo_media bob_ctx ''tr-T1'' = Inr (demo_item ''T1'' KindTrack ''L1'' '''')"
proof -
  have p: "parseAPIPID (\<lambda>_. True) ''tr-T1'' = Some (''tr'', ''T1'')" by code_simp
  have t: "itemPrefix ''tr''" "prefixFitsKind ''tr'' KindTrack" by code_simp+
  show ?thesis
    by (simp add: getVisibleItem_def getItem_def demo_media_def p t demo_item_def viewVisible_def bob_ctx_def allowedByContent_def ContentUnrestricted_def)
qed


definition reported_heard :: "svc_error option \<times> ingest_result \<times> nat play_world" where
  "reported_heard = IngestListens demo_media counting (\<lambda>_. False) 60 bob_ctx [heard, heard] quiet_log"

lemma heard_valid: "invalidSession 60 heard = ''''"
  by (simp add: invalidSession_def heard_def listenEpochFloor_def listenFutureSkew_def hour_def minute_def second_def)

lemma heard_marks:
  "markListenPlayed counting (\<lambda>_. False) 60 bob_ctx (demo_item ''T1'' KindTrack ''L1'' '''') heard ''music'' w =
     (Marked, w\<lparr>pw_catalog := pw_catalog w + 1, pw_marked := (''us-b'', ''s1'') # pw_marked w\<rparr>)"
  by (simp add: markListenPlayed_def listenCrosses_def heard_def counting_def demo_item_def touchPlayStamp_def bob_ctx_def)

lemma heard_rows:
  "resolveListens 60 (\<lambda>s. getVisibleItem demo_media bob_ctx (ln_PID s)) [] [heard, heard] =
    (None, [\<lparr>rl_s = heard, rl_it = demo_item ''T1'' KindTrack ''L1'' '''', rl_mt = ''music'', rl_source = ''live''\<rparr>,
            \<lparr>rl_s = heard, rl_it = demo_item ''T1'' KindTrack ''L1'' '''', rl_mt = ''music'', rl_source = ''live''\<rparr>], [])"
proof -
  have "ln_PID heard = ''tr-T1''" "ln_Source heard = ''''" by (simp_all add: heard_def)
  then show ?thesis by (simp add: heard_valid bob_sees) (simp add: demo_item_def)
qed

lemma heard_once:
  "fst reported_heard = None"
  "pw_catalog (snd (snd reported_heard)) = 1" "pw_marked (snd (snd reported_heard)) = [(''us-b'', ''s1'')]"
proof -
  have b: "uc_ID bob_ctx = ''us-b''" "ln_SessionID heard = ''s1''" by (simp_all add: bob_ctx_def heard_def)
  note run = reported_heard_def IngestListens_def ingestListens_def heard_rows prod.case Let_def
  note more_run = quiet_log_def b heard_marks has_listen_def listen_claim_def recordListenMarks_def afterMark_def emitPlayState_def
  show "fst reported_heard = None" by (simp only: run) (simp add: more_run)
  show "pw_catalog (snd (snd reported_heard)) = 1" by (simp only: run) (simp add: more_run)
  show "pw_marked (snd (snd reported_heard)) = [(''us-b'', ''s1'')]" by (simp only: run) (simp add: more_run)
qed

lemma lost_marks_none: "lost_marks (\<lambda>_. False) w w' = {}"
  by (simp add: lost_marks_def)

lemma no_listens_quiet: "no_listens ({}, quiet_log)"
  by (simp add: no_listens_def quiet_log_def)

lemma listens_counted_once_witness:
  "count_list (pw_marked (snd (snd reported_heard))) (''us-b'', ''s1'') = 1
    \<and> state_of (pw_listens (snd (snd reported_heard))) (''us-b'', ''s1'') = Some ListenMarkLanded
    \<and> count_list (pw_marked (snd (snd reported_heard))) (''us-b'', ''s2'') = 0"
proof -
  let ?w = "snd (snd reported_heard)"
  have "listen_step counting ({}, quiet_log) ({} \<union> lost_marks (\<lambda>_. False) quiet_log ?w, ?w)"
    using listen_step.reported[where broken = "\<lambda>_. False" and pb = counting and X = "{}"]
    by (metis (no_types) IngestListens_def prod.collapse reported_heard_def)
  then have "(listen_step counting)\<^sup>*\<^sup>* ({}, quiet_log) ({}, ?w)" unfolding lost_marks_none by auto
  from listens_counted_once[OF no_listens_quiet this]
  have c: "count_list (pw_marked ?w) k = (if state_of (pw_listens ?w) k = Some ListenMarkLanded then 1 else 0)" for k
    by blast
  from c[of "(''us-b'', ''s1'')"] show ?thesis by (simp add: heard_once(3) split: if_splits)
qed

text \<open>C14. A batch can be sent again, whatever became of it.  It leaves what was recorded before as it
  is, and, where its own compensating deletes and outcomes are written, no session it recorded is left
  claimed: a session whose mark failed is no longer in the log, so the next batch counts it.  An answer
  without an error means every session with valid fields and an item the caller may see is in the log,
  each session of the batch is accepted, a duplicate or rejected, and no other session is accepted.\<close>

theorem failed_batch_can_be_retried:
  assumes "no_listens r0" "(listen_step pb)\<^sup>*\<^sup>* r0 (lost, w)"
    "IngestListens mw pb broken now uc sessions w = (e, res, w')"
  shows "(\<forall>k. state_of (pw_listens w) k \<noteq> None \<longrightarrow> state_of (pw_listens w') k = state_of (pw_listens w) k)
    \<and> (records broken (uc_ID uc) \<longrightarrow>
        (\<forall>k. state_of (pw_listens w') k = Some ListenMarkClaimed \<longrightarrow> state_of (pw_listens w) k = Some ListenMarkClaimed))
    \<and> (e = None \<longrightarrow>
        (\<forall>s \<in> set sessions. recordable now (getVisibleItem mw uc) s
            \<longrightarrow> state_of (pw_listens w') (uc_ID uc, ln_SessionID s) \<noteq> None)
      \<and> ir_Accepted res + ir_Duplicates res = length (filter (recordable now (getVisibleItem mw uc)) sessions)
      \<and> length (ir_Rejected res) = length (filter (\<lambda>s. \<not> recordable now (getVisibleItem mw uc) s) sessions))"
proof -
  have ok: "listens_ok lost w {} {}"
    using listen_runs.inv_reachable[OF assms(1,2)] by (simp add: listen_run_ok_def)
  note s = ingest_settles(3,4,5)[where broken = broken, OF assms(3)[unfolded IngestListens_def] ok]
  have "(\<forall>x \<in> set sessions. recordable now (getVisibleItem mw uc) x
            \<longrightarrow> state_of (pw_listens w') (uc_ID uc, ln_SessionID x) \<noteq> None)
      \<and> ir_Accepted res + ir_Duplicates res = length (filter (recordable now (getVisibleItem mw uc)) sessions)
      \<and> length (ir_Rejected res) = length (filter (\<lambda>s. \<not> recordable now (getVisibleItem mw uc) s) sessions)" if "e = None"
  proof -
    obtain rows where r: "resolveListens now (\<lambda>s. getVisibleItem mw uc (ln_PID s)) [] sessions = (None, rows, ir_Rejected res)"
      "ir_Accepted res + ir_Duplicates res = length rows"
      "\<forall>r \<in> set rows. state_of (pw_listens w') (uc_ID uc, ln_SessionID (rl_s r)) \<noteq> None"
      using s(3) \<open>e = None\<close> by blast
    have f: "map rl_s rows = filter (recordable now (getVisibleItem mw uc)) sessions"
      "length rows + length (ir_Rejected res) = length sessions"
      using resolveListens_rows[OF r(1)] by (simp_all add: seen_ok_def)
    have "state_of (pw_listens w') (uc_ID uc, ln_SessionID x) \<noteq> None"
      if "x \<in> set sessions" "recordable now (getVisibleItem mw uc) x" for x
    proof -
      have "x \<in> set (map rl_s rows)" using that by (simp add: f(1))
      then show ?thesis using r(3) by auto
    qed
    moreover have "length rows = length (filter (recordable now (getVisibleItem mw uc)) sessions)"
      using arg_cong[OF f(1), of length] by simp
    ultimately show ?thesis
      using r(2) f(2) sum_length_filter_compl[of "recordable now (getVisibleItem mw uc)" sessions] by (metis add_left_cancel)
  qed
  then show ?thesis using s(1,2) by blast
qed


definition refused_heard :: "svc_error option \<times> ingest_result \<times> nat play_world" where
  "refused_heard = IngestListens demo_media refusing (\<lambda>_. False) 60 bob_ctx [heard, heard] quiet_log"

lemma heard_refused:
  "markListenPlayed refusing (\<lambda>_. False) 60 bob_ctx (demo_item ''T1'' KindTrack ''L1'' '''') heard ''music'' w =
     (MarkFatal (SvcError KindInternal ''''), w)"
proof -
  have "KindOf (classify \<lparr>we_Code = CodeOther, we_Text = ''''\<rparr>) = KindInternal"
    "classify \<lparr>we_Code = CodeOther, we_Text = ''''\<rparr> = SvcError KindInternal ''''" by code_simp+
  then show ?thesis
    by (simp add: markListenPlayed_def listenCrosses_def heard_def refusing_def counting_def demo_item_def bob_ctx_def)
qed

lemma failed_batch_can_be_retried_witness:
  "fst refused_heard \<noteq> None \<and> state_of (pw_listens (snd (snd refused_heard))) (''us-b'', ''s1'') \<noteq> Some ListenMarkClaimed
    \<and> fst reported_heard = None \<and> state_of (pw_listens (snd (snd reported_heard))) (''us-b'', ''s1'') \<noteq> None"
proof -
  have b: "uc_ID bob_ctx = ''us-b''" "ln_SessionID heard = ''s1''" "ln_PID heard = ''tr-T1''"
    by (simp_all add: bob_ctx_def heard_def)
  note run = failed_batch_can_be_retried[where broken = "\<lambda>_. False" and mw = demo_media and now = 60 and uc = bob_ctx
      and sessions = "[heard, heard]", OF no_listens_quiet rtranclp.rtrancl_refl]
  have ok: "records (\<lambda>_. False) (uc_ID bob_ctx)" by (simp add: records_def)
  have r: "IngestListens demo_media refusing (\<lambda>_. False) 60 bob_ctx [heard, heard] quiet_log
      = (fst refused_heard, fst (snd refused_heard), snd (snd refused_heard))"
    "IngestListens demo_media counting (\<lambda>_. False) 60 bob_ctx [heard, heard] quiet_log
      = (fst reported_heard, fst (snd reported_heard), snd (snd reported_heard))"
    by (simp_all only: refused_heard_def reported_heard_def prod.collapse)
  have "state_of (pw_listens quiet_log) (''us-b'', ''s1'') \<noteq> Some ListenMarkClaimed" by (simp add: quiet_log_def)
  then have 1: "state_of (pw_listens (snd (snd refused_heard))) (''us-b'', ''s1'') \<noteq> Some ListenMarkClaimed"
    using run[OF r(1)] ok by blast
  have "recordable 60 (getVisibleItem demo_media bob_ctx) heard"
    by (simp add: recordable_def heard_valid b bob_sees)
  then have 2: "state_of (pw_listens (snd (snd reported_heard))) (uc_ID bob_ctx, ln_SessionID heard) \<noteq> None"
    using run[OF r(2)] heard_once(1) by simp
  have "fst refused_heard \<noteq> None"
    by (simp only: refused_heard_def IngestListens_def ingestListens_def heard_rows prod.case Let_def)
      (simp add: quiet_log_def b heard_refused has_listen_def listen_claim_def)
  with 1 2 heard_once(1) b show ?thesis by metis
qed

text \<open>Where the landed outcome of a counted session cannot be written, the sweep counts it again.\<close>

definition heard_row :: listen_row where
  "heard_row = \<lparr>lr_UserID = ''us-b'', lr_ItemPID = ''T1'', lr_MediaType = ''music'',
     lr_Session = heard\<lparr>ln_Source := ''live''\<rparr>, lr_ReceivedAtNS = 60, lr_MarkState = ListenMarkClaimed\<rparr>"

definition lost_heard :: "svc_error option \<times> ingest_result \<times> nat play_world" where
  "lost_heard = IngestListens demo_media counting (\<lambda>c. c = CSetMarks ''us-b'' ListenMarkLanded) 60 bob_ctx [heard, heard] quiet_log"

lemma lost_outcome_counted_again:
  "pw_listens (snd (snd lost_heard)) = [heard_row] \<and> pw_marked (snd (snd lost_heard)) = [(''us-b'', ''s1'')]
   \<and> pw_marked (snd (snd (SweepListenMarks counting (\<lambda>_. False) (60 + 11 * minute) (\<lambda>_. SweptUser bob_ctx)
        (\<lambda>_. Inr (demo_item ''T1'' KindTrack ''L1'' '''')) (snd (snd lost_heard)))))
     = [(''us-b'', ''s1''), (''us-b'', ''s1'')]"
proof -
  have b: "uc_ID bob_ctx = ''us-b''" "ln_SessionID heard = ''s1''" by (simp_all add: bob_ctx_def heard_def)
  have m: "markListenPlayed counting broken now bob_ctx (demo_item ''T1'' KindTrack ''L1'' '''') (heard\<lparr>ln_Source := src\<rparr>) ''music'' w =
     (Marked, w\<lparr>pw_catalog := pw_catalog w + 1, pw_marked := (''us-b'', ''s1'') # pw_marked w\<rparr>)" for broken now src and w :: "nat play_world"
    by (simp add: markListenPlayed_def listenCrosses_def heard_def counting_def demo_item_def touchPlayStamp_def bob_ctx_def)
  have same: "heard\<lparr>ln_Source := ''''\<rparr> = heard" by (simp add: heard_def)
  note m' = m[where src = "''''", unfolded same]
  have item: "iv_PID (demo_item ''T1'' KindTrack ''L1'' '''') = ''T1''" "iv_Kind (demo_item ''T1'' KindTrack ''L1'' '''') = KindTrack"
    "mediaTypeForKind KindTrack = ''music''"
    by (simp_all add: demo_item_def)
  have lost: "pw_listens (snd (snd lost_heard)) = [heard_row]" "pw_marked (snd (snd lost_heard)) = [(''us-b'', ''s1'')]"
    by (simp_all only: lost_heard_def IngestListens_def ingestListens_def heard_rows prod.case Let_def)
      (simp_all add: quiet_log_def b m' has_listen_def listen_claim_def recordListenMarks_def afterMark_def emitPlayState_def
        heard_row_def item SetListenMarkStates_def)
  have pend: "PendingListenMarks (60 + 11 * minute - listenMarkGrace) listenMarkSweepLimit [heard_row] = [heard_row]"
    by (simp add: PendingListenMarks_def heard_row_def listenMarkGrace_def listenMarkSweepLimit_def minute_def)
  have h: "lr_UserID heard_row = ''us-b''" "lr_ItemPID heard_row = ''T1''" "lr_Session heard_row = heard\<lparr>ln_Source := ''live''\<rparr>"
    by (simp_all add: heard_row_def)
  show ?thesis
    using lost
    by (simp add: SweepListenMarks_def sweepListenMarks_def pend h m item Let_def recordSweptMarks_def recordListenMarks_simps b)
qed

text \<open>Where two batches overlap the promise is weaker.  A client that sends a batch again while the first
  is still at work reads the first one's claims as duplicates and is told its sessions are recorded; if
  the first then fails, its compensating delete takes the rows out, and nobody sends them again.\<close>

lemma overlapping_retry_loses_listen:
  defines "row \<equiv> \<lparr>rl_s = heard, rl_it = demo_item ''T1'' KindTrack ''L1'' '''', rl_mt = ''music'', rl_source = ''live''\<rparr>"
  defines "claimed \<equiv> quiet_log\<lparr>pw_listens := snd (insert_rows [listen_claim 60 ''us-b'' row] [])\<rparr>"
  shows "IngestListens demo_media refusing (\<lambda>_. False) 60 bob_ctx [heard, heard] claimed
        = (None, \<lparr>ir_Accepted = 0, ir_Duplicates = 2, ir_Rejected = []\<rparr>, claimed)
    \<and> (\<exists>e res. markListens refusing (\<lambda>_. False) False 60 bob_ctx [(row, True)]
          \<lparr>ir_Accepted = 0, ir_Duplicates = 0, ir_Rejected = []\<rparr> [] [] claimed = (Some e, res, quiet_log))"
proof -
  have b: "uc_ID bob_ctx = ''us-b''" "ln_SessionID heard = ''s1''" "ln_PID heard = ''tr-T1''"
    by (simp_all add: bob_ctx_def heard_def)
  show ?thesis
    unfolding claimed_def row_def IngestListens_def ingestListens_def heard_rows prod.case Let_def
    by (simp add: quiet_log_def b heard_refused has_listen_def listen_claim_def recordListenMarks_def SetListenMarkStates_def DeleteListens_def)
qed

end
