(* ===== verification/Playback_Claims.thy ===== *)
theory Playback_Claims
  imports Listen_Claims
begin

text \<open>
  What replays promise: a device that was offline sends the positions and marks it queued, in whatever
  order they arrive, and nothing the user did since is undone.
\<close>

section \<open>One replay\<close>

lemma PlayStamp_simps [simp]:
  "PlayStamp u i (w\<lparr>pw_catalog := c\<rparr>) = PlayStamp u i w"
  "PlayStamp u i (StampPlayState broken now u i ns act w) = (if broken CStampPlay then PlayStamp u i w else ns)"
  "PlayStamp u i (touchPlayStamp broken now uc it act w) = PlayStamp u i w"
  by (auto simp: PlayStamp_def StampPlayState_def touchPlayStamp_def TouchPlayStamp_def split: option.split)

lemma PlayStamp_mark [simp]:
  "PlayStamp u i (markSpokenWordProgress pb broken now uc it p asOf act w) = PlayStamp u i w"
  by (simp add: markSpokenWordProgress_def Let_def split: sum.split prod.split option.split)

lemma writePosition_stamps:
  "writePosition pb uc it p asOf w = (e, w') \<Longrightarrow> PlayStamp u i w' = PlayStamp u i w"
  by (auto simp: writePosition_def Let_def split: prod.splits option.splits if_splits)

lemma clampRecorded_bounds: "0 \<le> now \<Longrightarrow> 0 \<le> clampRecorded now t \<and> clampRecorded now t \<le> now"
  by (simp add: clampRecorded_def)

text \<open>The position the furthest-wins rule compares with.\<close>

definition cur_position :: "'c playback \<Rightarrow> user_ctx \<Rightarrow> item_view \<Rightarrow> 'c play_world \<Rightarrow> int" where
  "cur_position pb uc it w =
    (case pb_State pb (uc_CatalogPID uc) (iv_PID it) (pw_catalog w) of
       Inr (Some s) \<Rightarrow> cs_PositionMS s | _ \<Rightarrow> 0)"

lemma replayed_cases:
  assumes "checkpointLocked pb broken now uc it p (Some t) act w = (Inr applied, w')"
  obtains (skipped) "\<not> applied" "w' = w"
    "\<not> applyReplayedPosition (recencyPrimary it) p (clampRecorded now t)
        (if recencyPrimary it then 0 else cur_position pb uc it w) (PlayStamp (uc_ID uc) (iv_PID it) w)"
  | (applied) "applied"
    "applyReplayedPosition (recencyPrimary it) p (clampRecorded now t)
        (if recencyPrimary it then 0 else cur_position pb uc it w) (PlayStamp (uc_ID uc) (iv_PID it) w)"
    "applyPosition pb broken now uc it p (Some (clampRecorded now t))
        (max (PlayStamp (uc_ID uc) (iv_PID it) w) (clampRecorded now t)) act w = (Inr True, w')"
  using assms
  by (auto simp: checkpointLocked_def asOfNS_def cur_position_def applyPosition_def Let_def
      split: if_splits sum.splits option.splits prod.splits)

lemma applyPosition_stamp:
  assumes "applyPosition pb broken now uc it p asOf ns act w = (Inr True, w')" "\<not> broken CStampPlay"
  shows "PlayStamp (uc_ID uc) (iv_PID it) w' = ns"
  using assms by (auto simp: applyPosition_def Let_def split: prod.splits option.splits)

text \<open>C22. A replayed position never takes a listener back.  Where a replay is not applied nothing changes.
  Where it is, either it was recorded after everything the server had seen of the listener's place, or
  the item is one where the furthest place wins, the position is further on and it was recorded at most
  ten minutes before; and the time the server has seen never goes back.\<close>

theorem replay_never_rewinds:
  assumes "checkpointLocked pb broken now uc it p (Some t) act w = (Inr applied, w')" "\<not> broken CStampPlay"
  shows "(if applied
      then PlayStamp (uc_ID uc) (iv_PID it) w < clampRecorded now t
        \<or> (\<not> recencyPrimary it \<and> cur_position pb uc it w < p
            \<and> PlayStamp (uc_ID uc) (iv_PID it) w \<le> clampRecorded now t + recencyGuard)
      else w' = w)
    \<and> PlayStamp (uc_ID uc) (iv_PID it) w \<le> PlayStamp (uc_ID uc) (iv_PID it) w'"
  using assms(1)
proof (cases rule: replayed_cases)
  case skipped
  then show ?thesis by simp
next
  case applied
  then show ?thesis
    using applyPosition_stamp[where broken = broken, OF applied(3) assms(2)]
    by (auto simp: applyReplayedPosition_def split: if_splits)
qed

section \<open>An outbox\<close>

text \<open>A device replays its queued positions of one item one after the other, each with the time it was
  recorded at.\<close>

definition replay_one ::
    "'c playback \<Rightarrow> (play_call \<Rightarrow> bool) \<Rightarrow> time \<Rightarrow> user_ctx \<Rightarrow> item_view \<Rightarrow> int \<times> time
       \<Rightarrow> 'c play_world \<Rightarrow> 'c play_world" where
  "replay_one pb broken now uc it pt w = snd (checkpointLocked pb broken now uc it (fst pt) (Some (snd pt)) 0 w)"

definition replay_all where
  "replay_all pb broken now uc it pts w = fold (replay_one pb broken now uc it) pts w"

text \<open>The position written to the catalog last, for this user and item, is \<open>p\<close>, as of \<open>t\<close>: nothing
  but a played mark as of the same time came after it.\<close>

definition written_last ::
    "'c playback \<Rightarrow> user_ctx \<Rightarrow> item_view \<Rightarrow> int \<Rightarrow> time \<Rightarrow> 'c play_world \<Rightarrow> bool" where
  "written_last pb uc it p t w \<longleftrightarrow>
    (\<exists>c c'. c' = snd (pb_Checkpoint pb (uc_CatalogPID uc) (iv_PID it) p (Some t) c)
      \<and> (pw_catalog w = c'
         \<or> (\<exists>f. pw_catalog w = snd (pb_MarkPlayed pb (uc_CatalogPID uc) (iv_PID it) f (Some t) c'))))"

text \<open>What the code relies on of the catalog: \<^verbatim>\<open>Checkpoint\<close> persists the position it is given,
  \<^verbatim>\<open>State\<close> answers it, and a played mark leaves it.\<close>

definition keeps_position :: "'c playback \<Rightarrow> bool" where
  "keeps_position pb \<longleftrightarrow>
    (\<forall>u i p a c. \<exists>s. pb_State pb u i (snd (pb_Checkpoint pb u i p a c)) = Inr (Some s) \<and> cs_PositionMS s = p)
    \<and> (\<forall>u i f a c s. pb_State pb u i c = Inr (Some s) \<longrightarrow>
         (\<exists>s'. pb_State pb u i (snd (pb_MarkPlayed pb u i f a c)) = Inr (Some s') \<and> cs_PositionMS s' = cs_PositionMS s))"

lemma written_position: "keeps_position pb \<Longrightarrow> written_last pb uc it p t w \<Longrightarrow> cur_position pb uc it w = p"
proof -
  assume k: "keeps_position pb" and w: "written_last pb uc it p t w"
  obtain c c' where c: "c' = snd (pb_Checkpoint pb (uc_CatalogPID uc) (iv_PID it) p (Some t) c)"
    "pw_catalog w = c' \<or> (\<exists>f. pw_catalog w = snd (pb_MarkPlayed pb (uc_CatalogPID uc) (iv_PID it) f (Some t) c'))"
    using w unfolding written_last_def by blast
  have "\<exists>s. pb_State pb (uc_CatalogPID uc) (iv_PID it) c' = Inr (Some s) \<and> cs_PositionMS s = p"
    using k unfolding keeps_position_def c(1) by blast
  with k c(2) have "\<exists>s. pb_State pb (uc_CatalogPID uc) (iv_PID it) (pw_catalog w) = Inr (Some s) \<and> cs_PositionMS s = p"
    unfolding keeps_position_def by metis
  then show ?thesis unfolding cur_position_def by auto
qed

lemma mark_catalog:
  "pw_catalog (markSpokenWordProgress pb broken now uc it p asOf act w) = pw_catalog w
   \<or> (\<exists>f. pw_catalog (markSpokenWordProgress pb broken now uc it p asOf act w)
        = snd (pb_MarkPlayed pb (uc_CatalogPID uc) (iv_PID it) f asOf (pw_catalog w)))"
  by (auto simp: markSpokenWordProgress_def Let_def touchPlayStamp_def TouchPlayStamp_def
      split: sum.split prod.split option.split; metis snd_conv)

lemma replay_one_recency:
  assumes "recencyPrimary it" "\<not> broken CPlayStamp" "\<not> broken CStampPlay"
    "\<And>u i p a c. fst (pb_Checkpoint pb u i p a c) = None" "0 \<le> t" "t \<le> now"
  obtains w' where "PlayStamp (uc_ID uc) (iv_PID it) w' = max t (PlayStamp (uc_ID uc) (iv_PID it) w)"
    "replay_one pb broken now uc it (p, t) w =
      (if PlayStamp (uc_ID uc) (iv_PID it) w < t then w' else w)"
    "PlayStamp (uc_ID uc) (iv_PID it) w < t \<or> w' = w"
    "PlayStamp (uc_ID uc) (iv_PID it) w < t \<Longrightarrow> written_last pb uc it p t w'"
proof (cases "PlayStamp (uc_ID uc) (iv_PID it) w < t")
  case False
  then have "replay_one pb broken now uc it (p, t) w = w"
    using assms by (simp add: replay_one_def checkpointLocked_def asOfNS_def clampRecorded_def applyReplayedPosition_def Let_def)
  with False that[of w] show ?thesis by simp
next
  case True
  obtain c where c: "pb_Checkpoint pb (uc_CatalogPID uc) (iv_PID it) p (Some t) (pw_catalog w) = (None, c)"
    using assms(4) by (metis prod.collapse)
  then have wr: "writePosition pb uc it p (Some t) w = (None, w\<lparr>pw_catalog := c\<rparr>)"
    by (simp add: writePosition_def)
  let ?v = "StampPlayState broken now (uc_ID uc) (iv_PID it) t 0 (w\<lparr>pw_catalog := c\<rparr>)"
  let ?w = "markSpokenWordProgress pb broken now uc it p (Some t) 0 ?v"
  have "checkpointLocked pb broken now uc it p (Some t) 0 w = (Inr True, ?w)"
    using assms(1-3,5,6) True wr
    by (simp add: checkpointLocked_def asOfNS_def clampRecorded_def applyReplayedPosition_def Let_def applyPosition_def max_def)
  then have "replay_one pb broken now uc it (p, t) w = ?w" by (simp add: replay_one_def)
  moreover have "written_last pb uc it p t ?w"
  proof -
    have "pw_catalog ?v = c" by (simp add: StampPlayState_def)
    with mark_catalog[of pb broken now uc it p "Some t" 0 ?v] c show ?thesis
      unfolding written_last_def by (metis snd_conv)
  qed
  ultimately show ?thesis using True that[of ?w] assms(3) by simp
qed

lemma replay_fold_stamp:
  assumes "recencyPrimary it" "\<not> broken CPlayStamp" "\<not> broken CStampPlay"
    "\<And>u i p a c. fst (pb_Checkpoint pb u i p a c) = None" "\<forall>(p, t) \<in> set pts. 0 \<le> t \<and> t \<le> now"
  shows "PlayStamp (uc_ID uc) (iv_PID it) (fold (replay_one pb broken now uc it) pts w)
      = fold max (map snd pts) (PlayStamp (uc_ID uc) (iv_PID it) w)"
  using assms(5)
proof (induction pts arbitrary: w)
  case Nil then show ?case by simp
next
  case (Cons x pts)
  obtain p t where x: "x = (p, t)" by force
  have t: "0 \<le> t" "t \<le> now" using Cons.prems x by auto
  obtain w' where w': "PlayStamp (uc_ID uc) (iv_PID it) w' = max t (PlayStamp (uc_ID uc) (iv_PID it) w)"
    "replay_one pb broken now uc it (p, t) w =
      (if PlayStamp (uc_ID uc) (iv_PID it) w < t then w' else w)"
    by (rule replay_one_recency[where broken = broken and pb = pb, OF assms(1-4) t])
  have m: "max t s = (if s < t then t else s)" "max s t = max t s" for s :: int by auto
  have "\<forall>(p, t) \<in> set pts. 0 \<le> t \<and> t \<le> now" using Cons.prems by simp
  note IH = Cons.IH[OF this]
  show ?case
  proof (cases "PlayStamp (uc_ID uc) (iv_PID it) w < t")
    case True
    then show ?thesis using w' IH[of w'] by (simp add: x m)
  next
    case False
    then show ?thesis using w'(2) IH[of w] by (simp add: x m)
  qed
qed

lemma replay_fold_older:
  assumes "recencyPrimary it" "\<not> broken CPlayStamp" "\<not> broken CStampPlay"
    "\<And>u i p a c. fst (pb_Checkpoint pb u i p a c) = None"
    "\<forall>(p, t) \<in> set pts. 0 \<le> t \<and> t \<le> now \<and> t \<le> PlayStamp (uc_ID uc) (iv_PID it) w"
  shows "fold (replay_one pb broken now uc it) pts w = w"
  using assms(5)
proof (induction pts)
  case (Cons x pts)
  obtain p t where x: "x = (p, t)" by force
  have t: "0 \<le> t" "t \<le> now" "\<not> PlayStamp (uc_ID uc) (iv_PID it) w < t" using Cons.prems x by auto
  have "replay_one pb broken now uc it (p, t) w = w"
    by (rule replay_one_recency[where broken = broken and pb = pb and w = w and uc = uc and p = p, OF assms(1-4) t(1,2)])
      (simp add: t(3))
  then show ?case using Cons by (simp add: x)
qed simp

text \<open>C13. Where recency alone decides, for audiobooks and long tracks, the order in which a device's
  queued positions arrive does not matter.  When the one recorded last is newer than everything the
  server had seen, it is the position written to the catalog last, and where the listener resumes;
  none of them moves anything when none is newer; and the server has then seen the newest of them and
  of what it had.  One of the positions is strictly the newest, none is of the future, and the store
  and the catalog take every write.\<close>

theorem newest_replay_wins:
  assumes "recencyPrimary it" "\<not> broken CPlayStamp" "\<not> broken CStampPlay"
    "\<And>u i p a c. fst (pb_Checkpoint pb u i p a c) = None" "keeps_position pb"
    "\<forall>(p, t) \<in> set pts. 0 \<le> t \<and> t \<le> now"
    "(p, t) \<in> set pts" "\<forall>(q, u) \<in> set pts. (q, u) \<noteq> (p, t) \<longrightarrow> u < t"
  shows "(if PlayStamp (uc_ID uc) (iv_PID it) w < t
      then written_last pb uc it p t (replay_all pb broken now uc it pts w)
        \<and> cur_position pb uc it (replay_all pb broken now uc it pts w) = p
      else replay_all pb broken now uc it pts w = w)
    \<and> PlayStamp (uc_ID uc) (iv_PID it) (replay_all pb broken now uc it pts w) = max t (PlayStamp (uc_ID uc) (iv_PID it) w)"
proof -
  let ?st = "PlayStamp (uc_ID uc) (iv_PID it)"
  let ?run = "fold (replay_one pb broken now uc it)"
  note law = assms(1-4)
  have le: "u \<le> t" if "(q, u) \<in> set pts" for q u using assms(8) that by fastforce
  obtain xs ys where pts: "pts = xs @ (p, t) # ys" "(p, t) \<notin> set xs"
    using split_list_first[OF assms(7)] by blast
  have less: "fold max zs s < b" if "s < b" "\<forall>z \<in> set zs. z < b" for zs :: "int list" and s b
    using that by (induction zs arbitrary: s) auto
  show ?thesis
  proof (cases "?st w < t")
    case False
    then have "\<forall>(p, t) \<in> set pts. 0 \<le> t \<and> t \<le> now \<and> t \<le> ?st w" using assms(6) le by fastforce
    then have "?run pts w = w" by (rule replay_fold_older[where broken = broken and pb = pb, OF law])
    then show ?thesis using False by (simp add: replay_all_def)
  next
    case True
    define w1 where "w1 = ?run xs w"
    have s1: "?st w1 < t"
    proof -
      have "\<forall>(p, t) \<in> set xs. 0 \<le> t \<and> t \<le> now" using assms(6) pts(1) by simp
      from replay_fold_stamp[where broken = broken and pb = pb and w = w and uc = uc, OF law this]
      have "?st w1 = fold max (map snd xs) (?st w)" by (simp add: w1_def)
      moreover have "\<forall>z \<in> set (map snd xs). z < t" using assms(8) pts by fastforce
      ultimately show ?thesis using less[OF True] by simp
    qed
    have t: "0 \<le> t" "t \<le> now" using assms(6,7) by auto
    obtain w2 where w2: "?st w2 = max t (?st w1)" "replay_one pb broken now uc it (p, t) w1 = w2"
      "written_last pb uc it p t w2"
      by (rule replay_one_recency[where broken = broken and pb = pb and w = w1 and p = p and uc = uc, OF law t])
        (simp add: s1)
    have "\<forall>(q, u) \<in> set ys. 0 \<le> u \<and> u \<le> now \<and> u \<le> ?st w2"
      using assms(6) le pts(1) w2(1) by fastforce
    then have "?run ys w2 = w2" by (rule replay_fold_older[where broken = broken and pb = pb, OF law])
    then have "replay_all pb broken now uc it pts w = w2"
      using w2(2) by (simp add: pts(1) replay_all_def w1_def)
    then show ?thesis using True s1 w2(1,3) written_position[OF assms(5) w2(3)] by (simp add: max_def)
  qed
qed

lemma replay_never_rewinds_witness:
  "PlayStamp ''us-b'' ''T1'' (snd (checkpointLocked counting (\<lambda>_. False) 60 bob_ctx (demo_item ''T1'' KindTrack ''L1'' '''') 5000
      (Some 30) 0 quiet_log)) \<ge> 0
    \<and> fst (checkpointLocked counting (\<lambda>_. False) 60 bob_ctx (demo_item ''T1'' KindTrack ''L1'' '''') 5000 (Some 30) 0 quiet_log) = Inr True"
proof -
  let ?run = "checkpointLocked counting (\<lambda>_. False) 60 bob_ctx (demo_item ''T1'' KindTrack ''L1'' '''') 5000 (Some 30) 0 quiet_log"
  have d: "uc_ID bob_ctx = ''us-b''" "iv_PID (demo_item ''T1'' KindTrack ''L1'' '''') = ''T1''"
    "PlayStamp ''us-b'' ''T1'' quiet_log = 0"
    by (simp_all add: bob_ctx_def demo_item_def PlayStamp_def quiet_log_def)
  have k: "\<not> recencyPrimary (demo_item ''T1'' KindTrack ''L1'' '''')" "iv_Kind (demo_item ''T1'' KindTrack ''L1'' '''') = KindTrack"
    by (simp_all add: recencyPrimary_def demo_item_def musicLongTrackMS_def)
  have run: "fst ?run = Inr True"
    by (simp add: checkpointLocked_def asOfNS_def clampRecorded_def d k applyReplayedPosition_def counting_def applyPosition_def
        writePosition_def Let_def)
  then have r: "?run = (Inr True, snd ?run)" by (metis prod.collapse)
  have "0 \<le> PlayStamp ''us-b'' ''T1'' (snd ?run)"
    using replay_never_rewinds[where broken = "\<lambda>_. False", OF r] d by simp
  with run show ?thesis by simp
qed

text \<open>An audiobook resumed on a device that was offline.\<close>

definition long_book :: item_view where
  "long_book = demo_item ''B1'' KindBook ''L1'' ''''"

text \<open>A catalog that is one position.\<close>

definition position_of :: "int \<Rightarrow> catalog_state" where
  "position_of p = \<lparr>cs_UserPID = ''cu'', cs_PositionMS = p, cs_Played = False, cs_Finished = False, cs_PlayCount = 0,
     cs_Starred = False, cs_HasRating = False, cs_Rating = 0, cs_LastPlayedAt = 0, cs_UpdatedAt = 0,
     cs_PlayedChangedAt = 0\<rparr>"

definition one_position :: "int playback" where
  "one_position = \<lparr>pb_State = (\<lambda>u i c. Inr (Some (position_of c))), pb_Checkpoint = (\<lambda>u i p a c. (None, p)),
     pb_MarkPlayed = (\<lambda>u i f a c. (None, c)), pb_SetPlayed = (\<lambda>u i b f n a c. (Inr True, c)),
     pb_SetStar = (\<lambda>u i b a c. (Inr True, c)), pb_SetRating = (\<lambda>u i r a c. (Inr True, c))\<rparr>"

definition never_played :: "int play_world" where
  "never_played = \<lparr>pw_catalog = 0, pw_stamps = Map.empty, pw_listens = [], pw_events = no_events,
     pw_scrobbles = [], pw_marked = []\<rparr>"

lemma newest_replay_wins_witness:
  "cur_position one_position bob_ctx long_book
      (replay_all one_position (\<lambda>_. False) 60 bob_ctx long_book [(5000, 30), (9000, 50), (1000, 10)] never_played) = 9000
    \<and> cur_position one_position bob_ctx long_book
      (replay_all one_position (\<lambda>_. False) 60 bob_ctx long_book [(9000, 50), (1000, 10), (5000, 30)] never_played) = 9000"
proof -
  have b: "recencyPrimary long_book" by (simp add: recencyPrimary_def long_book_def demo_item_def)
  have s: "PlayStamp (uc_ID bob_ctx) (iv_PID long_book) never_played = 0" by (simp add: PlayStamp_def never_played_def)
  have c: "fst (pb_Checkpoint one_position u i p a c) = None" for u i p a c by (simp add: one_position_def)
  have k: "keeps_position one_position" by (simp add: keeps_position_def one_position_def position_of_def)
  show ?thesis
    using newest_replay_wins[where broken = "\<lambda>_. False" and pb = one_position and now = 60 and p = 9000 and t = 50
          and w = never_played and uc = bob_ctx and it = long_book and pts = "[(5000, 30), (9000, 50), (1000, 10)]"]
      newest_replay_wins[where broken = "\<lambda>_. False" and pb = one_position and now = 60 and p = 9000 and t = 50
          and w = never_played and uc = bob_ctx and it = long_book and pts = "[(9000, 50), (1000, 10), (5000, 30)]"]
    by (simp add: b s c k)
qed

section \<open>Marks\<close>

text \<open>C24. A played mark the user took back stays back.  A replay recorded before the item's played state last
  changed never has the catalog mark the item, nor does one that finds it played: of a replayed position the
  catalog sees the position alone.\<close>

theorem undone_mark_stays_undone:
  assumes "checkpointLocked pb broken now uc it p (Some t) act w = (r, w')"
    "pb_Checkpoint pb (uc_CatalogPID uc) (iv_PID it) p (Some (clampRecorded now t)) (pw_catalog w) = (err, c)"
    "pb_State pb (uc_CatalogPID uc) (iv_PID it) c = Inr (Some s)"
    "cs_Played s \<or> clampRecorded now t < cs_PlayedChangedAt s"
  shows "pw_catalog w' = pw_catalog w \<or> pw_catalog w' = c"
proof -
  have x: "\<exists>f. spokenWordCrossing pb uc it p (Some (clampRecorded now t)) c = Inr (False, f)"
    using assms(3,4) by (auto simp: spokenWordCrossing_def Let_def)
  have m: "markSpokenWordProgress pb broken now uc it p (Some (clampRecorded now t)) act v = v" if "pw_catalog v = c" for v
    using x that by (auto simp: markSpokenWordProgress_def)
  have st: "pw_catalog (StampPlayState broken now u i ns by v) = pw_catalog v" for u i ns "by" v
    by (simp add: StampPlayState_def)
  have "pw_catalog (snd (applyPosition pb broken now uc it p (Some (clampRecorded now t)) ns act w)) = c" for ns
    using assms(2) by (auto simp: applyPosition_def writePosition_def Let_def m st split: option.split)
  then have ap: "applyPosition pb broken now uc it p (Some (clampRecorded now t)) ns act w = (r, w') \<Longrightarrow> pw_catalog w' = c" for ns
    by (metis snd_conv)
  show ?thesis
    using assms(1) by (auto simp: checkpointLocked_def asOfNS_def Let_def split: if_splits sum.splits dest!: ap)
qed

lemma fraction_below:
  assumes "0 \<le> d" "d < 2 ^ 53" "fr \<le> 1"
  shows "f64_mul fr (f64 (of_int d)) \<le> f64 (of_int d)"
proof -
  have "fr * of_int d \<le> 1 * of_int d" by (intro mult_right_mono assms(3)) (simp add: assms(1))
  then show ?thesis using f64_mono[of "fr * of_int d" "of_int d"] assms by (simp add: f64_mul_def f64_of_nat_exact)
qed

text \<open>What counts as played grows with what was played.  An item played through counts, whatever its
  kind; playing longer never stops counting; and nothing counts that was not played or has no length.\<close>

theorem playing_longer_counts:
  assumes "0 < d" "d < 2 ^ 53" "a \<le> b"
  shows "crossedPlayedThreshold mt d d \<and> (crossedPlayedThreshold mt a d \<longrightarrow> crossedPlayedThreshold mt b d)
    \<and> \<not> crossedPlayedThreshold mt 0 d \<and> \<not> crossedPlayedThreshold mt b 0"
proof -
  have fr: "podcastFraction \<le> 1" "audiobookFraction \<le> 1" "musicPlayedFraction \<le> 1" by code_simp+
  have m: "f64 (of_int a) \<le> f64 (of_int b)" using assms(3) by (intro f64_mono) simp
  show ?thesis
    using fraction_below[OF less_imp_le[OF assms(1)] assms(2)] fr assms m
    by (auto simp: crossedPlayedThreshold_def split: if_splits intro: order_trans)
qed

lemma playing_longer_counts_witness:
  "crossedPlayedThreshold ''podcast'' 3600000 3600000 \<and> \<not> crossedPlayedThreshold ''podcast'' 0 3600000"
  using playing_longer_counts[of 3600000 0 3600000 "''podcast''"] by simp


text \<open>An episode marked unplayed at 40, and a device that reached its end at 30.\<close>

definition unmarked :: catalog_state where
  "unmarked = \<lparr>cs_UserPID = ''cu'', cs_PositionMS = 0, cs_Played = False, cs_Finished = False, cs_PlayCount = 1,
     cs_Starred = False, cs_HasRating = False, cs_Rating = 0, cs_LastPlayedAt = 20, cs_UpdatedAt = 40, cs_PlayedChangedAt = 40\<rparr>"

definition undoing :: "nat playback" where
  "undoing = counting\<lparr>pb_State := (\<lambda>_ _ _. Inr (Some unmarked))\<rparr>"

lemma undone_mark_stays_undone_witness:
  "pw_catalog (snd (checkpointLocked undoing (\<lambda>_. False) 60 bob_ctx (demo_item ''E1'' KindEpisode '''' ''S1'') 180000 (Some 30) 0 quiet_log)) = 0
    \<and> pw_catalog (snd (checkpointLocked undoing (\<lambda>_. False) 60 bob_ctx (demo_item ''E1'' KindEpisode '''' ''S1'') 180000 (Some 30) 0 quiet_log))
      \<noteq> snd (pb_MarkPlayed undoing ''cu'' ''E1'' True (Some 30) 0)"
proof -
  let ?run = "checkpointLocked undoing (\<lambda>_. False) 60 bob_ctx (demo_item ''E1'' KindEpisode '''' ''S1'') 180000 (Some 30) 0 quiet_log"
  have "pw_catalog (snd ?run) = pw_catalog quiet_log \<or> pw_catalog (snd ?run) = 0"
    by (rule undone_mark_stays_undone[where broken = "\<lambda>_. False" and now = 60 and t = 30 and s = unmarked and err = None, OF prod.collapse[symmetric]])
      (simp_all add: undoing_def counting_def quiet_log_def clampRecorded_def unmarked_def)
  then have "pw_catalog (snd ?run) = 0" by (simp add: quiet_log_def)
  then show ?thesis by (simp add: undoing_def counting_def)
qed

end
