(* ===== verification/Match_Assign.thy ===== *)
theory Match_Assign
  imports Float64
begin

text \<open>
  The assignment of files to release tracks (match/assign.go): the Hungarian method with potentials.

  A slice the code allocates once and indexes within its length is a function of the index.  The
  arithmetic is that of \<^verbatim>\<open>float64\<close> up to the rounding \<open>rnd\<close> of every sum and difference: \<^const>\<open>f64\<close> for the
  program, \<^const>\<open>id\<close> for exact arithmetic.  Positive infinity is \<^const>\<open>None\<close>.  A loop that does not end is
  \<^const>\<open>None\<close> of the result.
\<close>

section \<open>The method\<close>

definition below :: "rat \<Rightarrow> rat option \<Rightarrow> bool" where
  "below x b \<longleftrightarrow> (case b of None \<Rightarrow> True | Some y \<Rightarrow> x < y)"

definition ext_less :: "rat option \<Rightarrow> rat option \<Rightarrow> bool" where
  "ext_less a b \<longleftrightarrow> (case a of None \<Rightarrow> False | Some x \<Rightarrow> below x b)"

type_synonym scanned = "(nat \<Rightarrow> rat option) \<times> (nat \<Rightarrow> nat) \<times> rat option \<times> nat"

text \<open>One turn of the loop that reduces the columns from row \<open>i0\<close> and finds the nearest.\<close>

definition scan_col ::
    "(rat \<Rightarrow> rat) \<Rightarrow> rat list list \<Rightarrow> (nat \<Rightarrow> rat) \<Rightarrow> (nat \<Rightarrow> rat) \<Rightarrow> (nat \<Rightarrow> bool) \<Rightarrow> nat \<Rightarrow> nat \<Rightarrow> nat \<Rightarrow> scanned \<Rightarrow> scanned" where
  "scan_col rnd cost u v used i0 j0 j s =
    (case s of (minv, way, delta, j1) \<Rightarrow>
      if used j then s
      else let cur = rnd (rnd (cost ! (i0 - 1) ! (j - 1) - u i0) - v j);
               (minv', way') = (if below cur (minv j) then (minv(j := Some cur), way(j := j0)) else (minv, way))
           in if ext_less (minv' j) delta then (minv', way', minv' j, j) else (minv', way', delta, j1))"

definition scan ::
    "(rat \<Rightarrow> rat) \<Rightarrow> rat list list \<Rightarrow> nat \<Rightarrow> (nat \<Rightarrow> rat) \<Rightarrow> (nat \<Rightarrow> rat) \<Rightarrow> (nat \<Rightarrow> bool) \<Rightarrow> nat \<Rightarrow> nat
       \<Rightarrow> (nat \<Rightarrow> rat option) \<Rightarrow> (nat \<Rightarrow> nat) \<Rightarrow> scanned" where
  "scan rnd cost m u v used i0 j0 minv way = fold (scan_col rnd cost u v used i0 j0) [1..<m + 1] (minv, way, None, 0)"

type_synonym potentials = "(nat \<Rightarrow> rat) \<times> (nat \<Rightarrow> rat) \<times> (nat \<Rightarrow> rat option)"

text \<open>The loop that shifts the potentials by \<open>delta\<close>.\<close>

definition shift_col :: "(rat \<Rightarrow> rat) \<Rightarrow> (nat \<Rightarrow> nat) \<Rightarrow> (nat \<Rightarrow> bool) \<Rightarrow> rat \<Rightarrow> nat \<Rightarrow> potentials \<Rightarrow> potentials" where
  "shift_col rnd p used d j s =
    (case s of (u, v, minv) \<Rightarrow>
      if used j then (u(p j := rnd (u (p j) + d)), v(j := rnd (v j - d)), minv)
      else (u, v, minv(j := map_option (\<lambda>x. rnd (x - d)) (minv j))))"

definition shift :: "(rat \<Rightarrow> rat) \<Rightarrow> nat \<Rightarrow> (nat \<Rightarrow> nat) \<Rightarrow> (nat \<Rightarrow> bool) \<Rightarrow> rat \<Rightarrow> potentials \<Rightarrow> potentials" where
  "shift rnd m p used d s = fold (shift_col rnd p used d) [0..<m + 1] s"

text \<open>The loop that grows the tree of alternating paths until it reaches a free column.  With every column
  used \<open>delta\<close> stays infinite and the loop goes round on column 0 for ever.\<close>

partial_function (option) search ::
    "(rat \<Rightarrow> rat) \<Rightarrow> rat list list \<Rightarrow> nat \<Rightarrow> (nat \<Rightarrow> nat) \<Rightarrow> (nat \<Rightarrow> rat) \<Rightarrow> (nat \<Rightarrow> rat) \<Rightarrow> (nat \<Rightarrow> rat option)
       \<Rightarrow> (nat \<Rightarrow> nat) \<Rightarrow> (nat \<Rightarrow> bool) \<Rightarrow> nat \<Rightarrow> (nat \<times> (nat \<Rightarrow> rat) \<times> (nat \<Rightarrow> rat) \<times> (nat \<Rightarrow> nat)) option" where
  [code]: "search rnd cost m p u v minv way used j0 =
    (case scan rnd cost m u v (used(j0 := True)) (p j0) j0 minv way of
       (minv1, way1, delta, j1) \<Rightarrow>
         (case delta of
            None \<Rightarrow> None
          | Some d \<Rightarrow>
             (case shift rnd m p (used(j0 := True)) d (u, v, minv1) of
                (u1, v1, minv2) \<Rightarrow>
                  if p j1 = 0 then Some (j1, u1, v1, way1)
                  else search rnd cost m p u1 v1 minv2 way1 (used(j0 := True)) j1)))"

text \<open>The loop that turns the path to the free column round.\<close>

partial_function (option) augment :: "(nat \<Rightarrow> nat) \<Rightarrow> (nat \<Rightarrow> nat) \<Rightarrow> nat \<Rightarrow> (nat \<Rightarrow> nat) option" where
  [code]: "augment way p j0 = (if j0 = 0 then Some p else augment way (p(j0 := p (way j0))) (way j0))"

type_synonym solver = "(nat \<Rightarrow> rat) \<times> (nat \<Rightarrow> rat) \<times> (nat \<Rightarrow> nat) \<times> (nat \<Rightarrow> nat)"

definition add_row :: "(rat \<Rightarrow> rat) \<Rightarrow> rat list list \<Rightarrow> nat \<Rightarrow> nat \<Rightarrow> solver \<Rightarrow> solver option" where
  "add_row rnd cost m i s =
    (case s of (u, v, p, way) \<Rightarrow>
      let p0 = p(0 := i) in
      (case search rnd cost m p0 u v (\<lambda>_. None) way (\<lambda>_. False) 0 of
         None \<Rightarrow> None
       | Some (j, u', v', way') \<Rightarrow>
          (case augment way' p0 j of None \<Rightarrow> None | Some p' \<Rightarrow> Some (u', v', p', way'))))"

fun add_rows :: "(rat \<Rightarrow> rat) \<Rightarrow> rat list list \<Rightarrow> nat \<Rightarrow> nat list \<Rightarrow> solver \<Rightarrow> solver option" where
  "add_rows rnd cost m [] s = Some s"
| "add_rows rnd cost m (i # is) s =
    (case add_row rnd cost m i s of None \<Rightarrow> None | Some s' \<Rightarrow> add_rows rnd cost m is s')"

definition read_off :: "nat \<Rightarrow> nat \<Rightarrow> (nat \<Rightarrow> nat) \<Rightarrow> int list" where
  "read_off n m p =
    fold (\<lambda>j out. if 0 < p j then out[p j - 1 := int (j - 1)] else out) [1..<m + 1] (replicate n (- 1))"

definition hungarian :: "(rat \<Rightarrow> rat) \<Rightarrow> rat list list \<Rightarrow> nat \<Rightarrow> nat \<Rightarrow> int list option" where
  "hungarian rnd cost n m =
    (case add_rows rnd cost m [1..<n + 1] (\<lambda>_. 0, \<lambda>_. 0, \<lambda>_. 0, \<lambda>_. 0) of
       None \<Rightarrow> None | Some (u, v, p, way) \<Rightarrow> Some (read_off n m p))"

definition transposed :: "rat list list \<Rightarrow> nat \<Rightarrow> nat \<Rightarrow> rat list list" where
  "transposed cost n m = map (\<lambda>j. map (\<lambda>i. cost ! i ! j) [0..<n]) [0..<m]"

definition inverted :: "nat \<Rightarrow> int list \<Rightarrow> int list" where
  "inverted n colToRow =
    fold (\<lambda>(j, i) out. if 0 \<le> i then out[nat i := int j] else out) (enumerate 0 colToRow) (replicate n (- 1))"

definition assign :: "(rat \<Rightarrow> rat) \<Rightarrow> rat list list \<Rightarrow> int list option" where
  "assign rnd cost =
    (let n = length cost in
     if n = 0 then Some []
     else let m = length (hd cost) in
     if m = 0 then Some (replicate n (- 1))
     else if n \<le> m then hungarian rnd cost n m
     else (case hungarian rnd (transposed cost n m) m n of
             None \<Rightarrow> None | Some colToRow \<Rightarrow> Some (inverted n colToRow)))"

section \<open>The loops over columns\<close>

definition reduced :: "(rat \<Rightarrow> rat) \<Rightarrow> rat list list \<Rightarrow> (nat \<Rightarrow> rat) \<Rightarrow> (nat \<Rightarrow> rat) \<Rightarrow> nat \<Rightarrow> nat \<Rightarrow> rat" where
  "reduced rnd cost u v a j = rnd (rnd (cost ! (a - 1) ! (j - 1) - u a) - v j)"

lemma ext_less_simps [simp]:
  "\<not> ext_less None b" "ext_less (Some x) None" "ext_less (Some x) (Some y) \<longleftrightarrow> x < y"
  "below x None" "below x (Some y) \<longleftrightarrow> x < y"
  by (simp_all add: ext_less_def below_def)

lemma scan_fold:
  assumes "fold (scan_col rnd cost u v used i0 j0) js (minv0, way0, d0, k0) = (minv, way, d, k)" "distinct js"
  defines "better \<equiv> \<lambda>j. j \<in> set js \<and> \<not> used j \<and> below (reduced rnd cost u v i0 j) (minv0 j)"
  shows "minv = (\<lambda>j. if better j then Some (reduced rnd cost u v i0 j) else minv0 j)
    \<and> way = (\<lambda>j. if better j then j0 else way0 j)
    \<and> (\<forall>j \<in> set js. \<not> used j \<longrightarrow> \<not> ext_less (minv j) d) \<and> \<not> ext_less d0 d
    \<and> ((d, k) = (d0, k0) \<or> (k \<in> set js \<and> \<not> used k \<and> d = minv k \<and> d \<noteq> None))"
  using assms(1,2) unfolding better_def
proof (induction js arbitrary: minv0 way0 d0 k0)
  case Nil
  then show ?case by (cases d0) auto
next
  case (Cons x js)
  let ?c = "reduced rnd cost u v i0 x"
  obtain minv1 way1 d1 k1 where s: "scan_col rnd cost u v used i0 j0 x (minv0, way0, d0, k0) = (minv1, way1, d1, k1)"
    by (metis prod_cases4)
  have IH: "minv = (\<lambda>j. if j \<in> set js \<and> \<not> used j \<and> below (reduced rnd cost u v i0 j) (minv1 j) then Some (reduced rnd cost u v i0 j) else minv1 j)"
    "way = (\<lambda>j. if j \<in> set js \<and> \<not> used j \<and> below (reduced rnd cost u v i0 j) (minv1 j) then j0 else way1 j)"
    "\<forall>j \<in> set js. \<not> used j \<longrightarrow> \<not> ext_less (minv j) d" "\<not> ext_less d1 d"
    "(d, k) = (d1, k1) \<or> (k \<in> set js \<and> \<not> used k \<and> d = minv k \<and> d \<noteq> None)"
    using Cons.IH[of minv1 way1 d1 k1] Cons.prems s by (simp_all only: fold_simps distinct.simps) blast+
  have x: "x \<notin> set js" using Cons.prems(2) by simp
  show ?case
  proof (cases "used x")
    case True
    then have "(minv1, way1, d1, k1) = (minv0, way0, d0, k0)" using s by (simp add: scan_col_def)
    then show ?thesis using IH True by (auto simp: fun_eq_iff)
  next
    case False
    have m1: "minv1 = (if below ?c (minv0 x) then minv0(x := Some ?c) else minv0)"
      "way1 = (if below ?c (minv0 x) then way0(x := j0) else way0)"
      "(d1, k1) = (if ext_less (minv1 x) d0 then (minv1 x, x) else (d0, k0))"
      using s False by (auto simp: scan_col_def reduced_def Let_def split: if_splits)
    have mx: "minv x = minv1 x" using IH(1) x by simp
    have d1: "\<not> ext_less (minv1 x) d1 \<and> \<not> ext_less d0 d1 \<and> (ext_less (minv1 x) d0 \<longrightarrow> d1 = minv1 x \<and> d1 \<noteq> None \<and> k1 = x)
        \<and> (\<not> ext_less (minv1 x) d0 \<longrightarrow> d1 = d0 \<and> k1 = k0)"
      using m1(3) by (cases "minv1 x"; cases d0) (auto split: if_splits)
    have trans: "\<not> ext_less a d" if "\<not> ext_less a d1" for a
      using that IH(4) by (cases a; cases d; cases d1) auto
    have "\<not> ext_less (minv x) d" "\<not> ext_less d0 d" using trans d1 mx by auto
    then have "\<forall>j \<in> set (x # js). \<not> used j \<longrightarrow> \<not> ext_less (minv j) d" "\<not> ext_less d0 d" using IH(3) by auto
    moreover have "minv = (\<lambda>j. if j \<in> set (x # js) \<and> \<not> used j \<and> below (reduced rnd cost u v i0 j) (minv0 j)
        then Some (reduced rnd cost u v i0 j) else minv0 j)"
      "way = (\<lambda>j. if j \<in> set (x # js) \<and> \<not> used j \<and> below (reduced rnd cost u v i0 j) (minv0 j) then j0 else way0 j)"
      using IH(1,2) m1(1,2) x False by (auto simp: fun_eq_iff)
    moreover have "(d, k) = (d0, k0) \<or> (k \<in> set (x # js) \<and> \<not> used k \<and> d = minv k \<and> d \<noteq> None)"
      using IH(5) d1 mx False by (cases "ext_less (minv1 x) d0") auto
    ultimately show ?thesis by blast
  qed
qed

lemma shift_fold:
  assumes "fold (shift_col rnd p used d) js (u0, v0, minv0) = (u, v, minv)" "distinct js"
    "inj_on p {j \<in> set js. used j}"
  shows "u = (\<lambda>a. if a \<in> p ` {j \<in> set js. used j} then rnd (u0 a + d) else u0 a)
    \<and> v = (\<lambda>j. if j \<in> set js \<and> used j then rnd (v0 j - d) else v0 j)
    \<and> minv = (\<lambda>j. if j \<in> set js \<and> \<not> used j then map_option (\<lambda>x. rnd (x - d)) (minv0 j) else minv0 j)"
  using assms
proof (induction js arbitrary: u0 v0 minv0)
  case Nil then show ?case by simp
next
  case (Cons x js)
  have inj: "inj_on p {j \<in> set js. used j}" using Cons.prems(3) by (auto simp: inj_on_def)
  have x: "x \<notin> set js" "distinct js" using Cons.prems(2) by auto
  show ?case
  proof (cases "used x")
    case False
    then have "shift_col rnd p used d x (u0, v0, minv0) = (u0, v0, minv0(x := map_option (\<lambda>y. rnd (y - d)) (minv0 x)))"
      by (simp add: shift_col_def)
    then have "fold (shift_col rnd p used d) js (u0, v0, minv0(x := map_option (\<lambda>y. rnd (y - d)) (minv0 x))) = (u, v, minv)"
      using Cons.prems(1) by (simp only: fold_simps)
    from Cons.IH[OF this x(2) inj] show ?thesis using False x(1) by (auto simp: fun_eq_iff)
  next
    case True
    then have "shift_col rnd p used d x (u0, v0, minv0) = (u0(p x := rnd (u0 (p x) + d)), v0(x := rnd (v0 x - d)), minv0)"
      by (simp add: shift_col_def)
    then have "fold (shift_col rnd p used d) js (u0(p x := rnd (u0 (p x) + d)), v0(x := rnd (v0 x - d)), minv0) = (u, v, minv)"
      using Cons.prems(1) by (simp only: fold_simps)
    note IH = Cons.IH[OF this x(2) inj]
    have px: "p x \<notin> p ` {j \<in> set js. used j}" using Cons.prems(3) True x(1) by (auto simp: inj_on_def)
    have "p ` {j \<in> set (x # js). used j} = insert (p x) (p ` {j \<in> set js. used j})" using True by auto
    then show ?thesis using IH px True x(1) by (auto simp: fun_eq_iff)
  qed
qed


section \<open>Growing the tree\<close>

definition slack :: "rat list list \<Rightarrow> (nat \<Rightarrow> rat) \<Rightarrow> (nat \<Rightarrow> rat) \<Rightarrow> nat \<Rightarrow> nat \<Rightarrow> rat" where
  "slack cost u v a j = cost ! (a - 1) ! (j - 1) - u a - v j"

lemma reduced_id [simp]: "reduced id cost u v a j = slack cost u v a j"
  by (simp add: reduced_def slack_def)

text \<open>The columns of \<open>T\<close> hang on those of \<open>S\<close>, towards column 0.\<close>

definition hangs :: "(nat \<Rightarrow> nat) \<Rightarrow> nat set \<Rightarrow> nat set \<Rightarrow> bool" where
  "hangs way S T \<longleftrightarrow> (\<exists>rank :: nat \<Rightarrow> nat. \<forall>j \<in> T. j \<noteq> 0 \<longrightarrow> way j \<in> S \<and> rank (way j) < rank j)"

text \<open>The matching before row \<open>i\<close> is added, with the row waiting at column 0.\<close>

definition waiting :: "nat \<Rightarrow> nat \<Rightarrow> (nat \<Rightarrow> nat) \<Rightarrow> bool" where
  "waiting m i p \<longleftrightarrow> p 0 = i \<and> 0 < i \<and> (\<forall>j \<le> m. p j \<le> i) \<and> inj_on p {j. j \<le> m \<and> p j \<noteq> 0} \<and> (\<exists>j \<in> {1..m}. p j = 0)"

text \<open>The tree \<open>S\<close> as the loop comes round to \<open>j0\<close>, first its shape, then what exact arithmetic keeps.\<close>

definition tree ::
    "nat \<Rightarrow> (nat \<Rightarrow> nat) \<Rightarrow> (nat \<Rightarrow> rat option) \<Rightarrow> (nat \<Rightarrow> nat) \<Rightarrow> nat set \<Rightarrow> nat \<Rightarrow> bool" where
  "tree m p minv way S j0 \<longleftrightarrow>
     S \<subseteq> {0..m} \<and> j0 \<le> m \<and> j0 \<notin> S \<and> (\<forall>j \<in> insert j0 S. p j \<noteq> 0) \<and> (S = {} \<longrightarrow> j0 = 0) \<and> (S \<noteq> {} \<longrightarrow> 0 \<in> S)
   \<and> hangs way S S \<and> (\<forall>j \<in> {1..m} - S. if S = {} then minv j = None else minv j \<noteq> None \<and> way j \<in> S)"

definition feasible :: "rat list list \<Rightarrow> nat \<Rightarrow> nat set \<Rightarrow> (nat \<Rightarrow> rat) \<Rightarrow> (nat \<Rightarrow> rat) \<Rightarrow> bool" where
  "feasible cost m R u v \<longleftrightarrow> (\<forall>a \<in> R. \<forall>j \<in> {1..m}. 0 \<le> slack cost u v a j)"

definition balanced :: "rat list list \<Rightarrow> nat \<Rightarrow> (nat \<Rightarrow> nat) \<Rightarrow> (nat \<Rightarrow> rat) \<Rightarrow> (nat \<Rightarrow> rat) \<Rightarrow> bool" where
  "balanced cost m p u v \<longleftrightarrow>
     (\<forall>j \<in> {1..m}. (p j \<noteq> 0 \<longrightarrow> slack cost u v (p j) j = 0) \<and> v j \<le> 0 \<and> (p j = 0 \<longrightarrow> v j = 0))"

definition tight :: "rat list list \<Rightarrow> (nat \<Rightarrow> nat) \<Rightarrow> (nat \<Rightarrow> rat) \<Rightarrow> (nat \<Rightarrow> rat) \<Rightarrow> (nat \<Rightarrow> nat) \<Rightarrow> nat set \<Rightarrow> bool" where
  "tight cost p u v way T \<longleftrightarrow> (\<forall>j \<in> T. j \<noteq> 0 \<longrightarrow> slack cost u v (p (way j)) j = 0)"

definition nearest ::
    "rat list list \<Rightarrow> nat \<Rightarrow> (nat \<Rightarrow> nat) \<Rightarrow> (nat \<Rightarrow> rat) \<Rightarrow> (nat \<Rightarrow> rat) \<Rightarrow> (nat \<Rightarrow> rat option) \<Rightarrow> (nat \<Rightarrow> nat) \<Rightarrow> nat set \<Rightarrow> bool" where
  "nearest cost m p u v minv way S \<longleftrightarrow>
     (\<forall>j \<in> {1..m} - S. minv j = Some (slack cost u v (p (way j)) j)
        \<and> (\<forall>k \<in> S. slack cost u v (p (way j)) j \<le> slack cost u v (p k) j))"

definition exact_tree where
  "exact_tree cost m i p u v minv way S j0 \<longleftrightarrow>
     feasible cost m (if S = {} then {1..<i} else {1..i}) u v \<and> balanced cost m p u v \<and> tight cost p u v way S
   \<and> (S \<noteq> {} \<longrightarrow> nearest cost m p u v minv way S \<and> minv j0 = Some 0)"

text \<open>One scan, from a tree to the tree with \<open>j0\<close>.\<close>

lemma scan_step:
  assumes w: "waiting m i p" and t: "tree m p minv way {j. used j} j0"
    and s: "scan rnd cost m u v (used(j0 := True)) (p j0) j0 minv way = (minv1, way1, delta, j1)"
  defines "S \<equiv> insert j0 {j. used j}"
  shows "j1 \<in> {1..m} - S \<and> delta = minv1 j1 \<and> delta \<noteq> None
    \<and> (\<forall>j \<in> {1..m} - S. minv1 j \<noteq> None \<and> way1 j \<in> S \<and> \<not> ext_less (minv1 j) delta)
    \<and> hangs way1 S S \<and> (\<forall>j \<in> S. way1 j = way j)
    \<and> (\<forall>j \<in> {1..m} - S. if below (reduced rnd cost u v (p j0) j) (minv j)
          then minv1 j = Some (reduced rnd cost u v (p j0) j) \<and> way1 j = j0 else minv1 j = minv j \<and> way1 j = way j)"
proof -
  let ?used = "used(j0 := True)"
  have u: "?used j \<longleftrightarrow> j \<in> S" for j by (auto simp: S_def)
  have js: "set [1..<m + 1] = {1..m}" by auto
  define better where "better j \<longleftrightarrow> j \<in> {1..m} \<and> j \<notin> S \<and> below (reduced rnd cost u v (p j0) j) (minv j)" for j
  have f: "minv1 = (\<lambda>j. if better j then Some (reduced rnd cost u v (p j0) j) else minv j)"
    "way1 = (\<lambda>j. if better j then j0 else way j)"
    "\<forall>j \<in> {1..m}. j \<notin> S \<longrightarrow> \<not> ext_less (minv1 j) delta"
    "(delta, j1) = (None, 0) \<or> (j1 \<in> {1..m} \<and> j1 \<notin> S \<and> delta = minv1 j1 \<and> delta \<noteq> None)"
    using scan_fold[OF s[unfolded scan_def] distinct_upt] unfolding js u better_def by blast+
  have some: "minv1 j \<noteq> None" if "j \<in> {1..m} - S" for j
    using that by (cases "minv j") (auto simp: f(1) better_def)
  obtain free where "free \<in> {1..m}" "p free = 0" using w by (auto simp: waiting_def)
  moreover from this have "free \<notin> S" using t by (auto simp: tree_def S_def)
  ultimately have "free \<in> {1..m} - S" by blast
  then have "delta \<noteq> None"
    using some[of free] f(3) by (cases "minv1 free"; cases delta) auto
  then have d: "j1 \<in> {1..m} - S \<and> delta = minv1 j1 \<and> delta \<noteq> None" using f(4) by auto
  have inS: "way1 j = way j" if "j \<in> S" for j using that by (simp add: f(2) better_def)
  have out: "way1 j \<in> S" if "j \<in> {1..m} - S" for j
  proof (cases "better j")
    case True then show ?thesis by (simp add: f(2) S_def)
  next
    case False
    then have "minv j \<noteq> None" using that by (cases "minv j") (auto simp: better_def)
    then have "way j \<in> {j. used j}" using t that by (auto simp: tree_def S_def split: if_splits)
    then show ?thesis using False by (simp add: f(2) S_def)
  qed
  have "hangs way1 S S"
  proof -
    obtain rank :: "nat \<Rightarrow> nat" where r: "\<forall>j \<in> {j. used j}. j \<noteq> 0 \<longrightarrow> way j \<in> {j. used j} \<and> rank (way j) < rank j"
      using t by (auto simp: tree_def hangs_def)
    have j0: "\<not> used j0" "j0 \<noteq> 0 \<longrightarrow> used (way j0)" using t by (auto simp: tree_def split: if_splits)
    then have "j0 \<noteq> 0 \<longrightarrow> way j0 \<noteq> j0" by metis
    have "\<forall>j \<in> S. j \<noteq> 0 \<longrightarrow> way1 j \<in> S \<and> (rank(j0 := Suc (rank (way j0)))) (way1 j) < (rank(j0 := Suc (rank (way j0)))) j"
      using r j0 \<open>j0 \<noteq> 0 \<longrightarrow> way j0 \<noteq> j0\<close> inS by (auto simp: S_def)
    then show ?thesis unfolding hangs_def by blast
  qed
  moreover have "\<forall>j \<in> {1..m} - S. if below (reduced rnd cost u v (p j0) j) (minv j)
          then minv1 j = Some (reduced rnd cost u v (p j0) j) \<and> way1 j = j0 else minv1 j = minv j \<and> way1 j = way j"
    by (simp add: f(1,2) better_def)
  ultimately show ?thesis using d some out inS f(3) by blast
qed


lemma shift_step:
  assumes "waiting m i p" "S \<subseteq> {0..m}" "\<forall>j \<in> S. p j \<noteq> 0" "\<And>j. used j \<longleftrightarrow> j \<in> S"
    "shift rnd m p used d (u, v, minv) = (u1, v1, minv2)"
  shows "u1 = (\<lambda>a. if a \<in> p ` S then rnd (u a + d) else u a)"
    "v1 = (\<lambda>j. if j \<in> S then rnd (v j - d) else v j)"
    "j \<in> {1..m} - S \<Longrightarrow> minv2 j = map_option (\<lambda>x. rnd (x - d)) (minv j)"
proof -
  have S: "{j \<in> set [0..<m + 1]. used j} = S" using assms(2,4) by auto
  have "inj_on p S"
    using assms(1,2,3) by (auto simp: waiting_def elim!: inj_on_subset)
  then have "inj_on p {j \<in> set [0..<m + 1]. used j}" by (simp only: S)
  note f = shift_fold[OF assms(5)[unfolded shift_def] distinct_upt this, unfolded S]
  show "u1 = (\<lambda>a. if a \<in> p ` S then rnd (u a + d) else u a)" using f by blast
  have "v1 = (\<lambda>j. if j \<in> set [0..<m + 1] \<and> used j then rnd (v j - d) else v j)" using f by blast
  then show "v1 = (\<lambda>j. if j \<in> S then rnd (v j - d) else v j)" using assms(2,4) by (auto simp: fun_eq_iff)
  have "minv2 = (\<lambda>j. if j \<in> set [0..<m + 1] \<and> \<not> used j then map_option (\<lambda>x. rnd (x - d)) (minv j) else minv j)" using f by blast
  then show "j \<in> {1..m} - S \<Longrightarrow> minv2 j = map_option (\<lambda>x. rnd (x - d)) (minv j)" using assms(4) by auto
qed

lemma exact_step:
  assumes w: "waiting m i p" and t: "tree m p minv way S0 j0" "S0 = {j. used j}"
    and e: "exact_tree cost m i p u v minv way S0 j0"
    and s: "scan id cost m u v (used(j0 := True)) (p j0) j0 minv way = (minv1, way1, Some d, j1)"
    and sh: "shift id m p (used(j0 := True)) d (u, v, minv1) = (u1, v1, minv2)"
  defines "S \<equiv> insert j0 S0"
  shows "feasible cost m {1..i} u1 v1 \<and> balanced cost m p u1 v1 \<and> tight cost p u1 v1 way1 (insert j1 S)
    \<and> nearest cost m p u1 v1 minv2 way1 S \<and> minv2 j1 = Some 0"
proof -
  note sc = scan_step[where rnd = id, OF w t(1)[unfolded t(2)] s, folded t(2), folded S_def, unfolded reduced_id]
  have tr: "S0 \<subseteq> {0..m}" "j0 \<le> m" "j0 \<notin> S0" "\<forall>j \<in> S. p j \<noteq> 0" "S0 = {} \<longrightarrow> j0 = 0" "S0 \<noteq> {} \<longrightarrow> 0 \<in> S0"
    "hangs way S0 S0" "S0 \<noteq> {} \<longrightarrow> (\<forall>j \<in> {1..m} - S0. minv j \<noteq> None \<and> way j \<in> S0)"
    "S0 = {} \<longrightarrow> (\<forall>j \<in> {1..m}. minv j = None)"
    using t(1) by (auto simp: tree_def S_def)
  have z: "0 \<in> S" using tr(5,6) by (auto simp: S_def)
  have sub: "S \<subseteq> {0..m}" using tr(1,2) by (auto simp: S_def)
  have ex: "feasible cost m (if S0 = {} then {1..<i} else {1..i}) u v" "balanced cost m p u v" "tight cost p u v way S0"
    "S0 \<noteq> {} \<longrightarrow> nearest cost m p u v minv way S0" "S0 \<noteq> {} \<longrightarrow> minv j0 = Some 0"
    using e by (simp_all add: exact_tree_def)
  have pw: "p 0 = i" "0 < i" "\<And>j. j \<le> m \<Longrightarrow> p j \<le> i" "inj_on p {j. j \<le> m \<and> p j \<noteq> 0}"
    using w by (auto simp: waiting_def)
  let ?sl = "slack cost u v"
  have near1: "minv1 j = Some (?sl (p (way1 j)) j) \<and> (\<forall>k \<in> S. ?sl (p (way1 j)) j \<le> ?sl (p k) j)" if j: "j \<in> {1..m} - S" for j
  proof (cases "S0 = {}")
    case True
    then have "S = {j0}" "minv j = None" using tr(9) j by (auto simp: S_def)
    then show ?thesis using sc j by auto
  next
    case False
    then have n: "minv j = Some (?sl (p (way j)) j)" "\<forall>k \<in> S0. ?sl (p (way j)) j \<le> ?sl (p k) j"
      using ex(4) j by (auto simp: nearest_def S_def)
    have c: "if ?sl (p j0) j < ?sl (p (way j)) j then minv1 j = Some (?sl (p j0) j) \<and> way1 j = j0
        else minv1 j = minv j \<and> way1 j = way j"
      using sc j n(1) by auto
    show ?thesis
    proof (cases "?sl (p j0) j < ?sl (p (way j)) j")
      case True
      then have "\<forall>k \<in> S0. ?sl (p j0) j \<le> ?sl (p k) j" using n(2) by (meson less_imp_le order_trans)
      then show ?thesis using c True by (simp add: S_def)
    next
      case False
      then show ?thesis using c n by (simp add: S_def)
    qed
  qed
  have j1: "j1 \<in> {1..m} - S" "minv1 j1 = Some d" using sc by auto
  have dmin: "d \<le> ?sl (p k) j" if "j \<in> {1..m} - S" "k \<in> S" for j k
  proof -
    have "\<not> ext_less (minv1 j) (Some d)" using sc that(1) by auto
    then have "d \<le> ?sl (p (way1 j)) j" using near1[OF that(1)] by auto
    then show ?thesis using near1[OF that(1)] that(2) by force
  qed
  have d1: "d = ?sl (p (way1 j1)) j1" using near1[OF j1(1)] j1(2) by simp
  have d0: "0 \<le> d" if "S0 \<noteq> {}"
  proof -
    have "way1 j1 \<in> S" using sc j1(1) by blast
    then have "p (way1 j1) \<in> {1..i}" using tr(4) sub pw(3) by fastforce
    then show ?thesis using ex(1) that j1(1) d1 by (auto simp: feasible_def)
  qed
  have up: "(used(j0 := True)) j \<longleftrightarrow> j \<in> S" for j by (auto simp: S_def t(2))
  note f = shift_step[where rnd = id, OF w sub tr(4) up sh]
  have sl1: "slack cost u1 v1 a j = ?sl a j - (if a \<in> p ` S then d else 0) + (if j \<in> S then d else 0)" for a j
    by (simp add: slack_def f(1,2))
  have v1: "v1 j = (if j \<in> S then v j - d else v j)" for j by (simp add: f(2))
  have inS: "p j \<in> p ` S \<longleftrightarrow> j \<in> S" if "j \<in> {1..m}" "p j \<noteq> 0" for j
  proof
    assume "p j \<in> p ` S"
    then obtain k where k: "k \<in> S" "p j = p k" by blast
    then have "k \<le> m" "p k \<noteq> 0" using sub tr(4) by auto
    then have "j = k" using pw(4) k(2) that by (auto simp: inj_on_def)
    then show "j \<in> S" using k(1) by simp
  qed simp
  have one: "S0 = {} \<Longrightarrow> S = {0}" using tr(5) by (simp add: S_def)
  have feas: "0 \<le> slack cost u1 v1 a j" if a: "a \<in> {1..i}" "j \<in> {1..m}" for a j
  proof (cases "j \<in> S")
    case True
    then have "S0 \<noteq> {}" using one that(2) by auto
    then show ?thesis using ex(1) d0 that True by (auto simp: sl1 feasible_def)
  next
    case False
    show ?thesis
    proof (cases "a \<in> p ` S")
      case True
      then obtain k where "k \<in> S" "a = p k" by blast
      then show ?thesis using dmin[of j k] False a True by (simp add: sl1)
    next
      case nn: False
      then have "a \<noteq> i" using z pw(1) by (metis imageI)
      then show ?thesis using ex(1) False nn that by (auto simp: sl1 feasible_def split: if_splits)
    qed
  qed
  moreover have "balanced cost m p u1 v1"
  proof -
    have "(p j \<noteq> 0 \<longrightarrow> slack cost u1 v1 (p j) j = 0) \<and> v1 j \<le> 0 \<and> (p j = 0 \<longrightarrow> v1 j = 0)" if j: "j \<in> {1..m}" for j
    proof (cases "j \<in> S")
      case True
      then have "S0 \<noteq> {}" "p j \<noteq> 0" using one j tr(4) by auto
      then show ?thesis using ex(2) d0 j inS True by (auto simp: sl1 v1 balanced_def intro: order_trans)
    next
      case False
      then show ?thesis using ex(2) j inS by (auto simp: sl1 v1 balanced_def)
    qed
    then show ?thesis by (simp add: balanced_def)
  qed
  moreover have "tight cost p u1 v1 way1 (insert j1 S)"
  proof -
    have "slack cost u1 v1 (p (way1 j)) j = 0" if j: "j \<in> S" "j \<noteq> 0" for j
    proof -
      have "way1 j = way j" using sc j(1) by blast
      moreover have "way j \<in> S0 \<and> ?sl (p (way j)) j = 0"
      proof (cases "j = j0")
        case True
        then have "S0 \<noteq> {}" using tr(5) j(2) by auto
        then show ?thesis using ex(4,5) tr(2,3,8) j(2) True by (auto simp: nearest_def)
      next
        case False
        then have "j \<in> S0" using j(1) by (simp add: S_def)
        then show ?thesis using ex(3) tr(7) j(2) by (auto simp: tight_def hangs_def)
      qed
      ultimately show ?thesis using j by (simp add: sl1 S_def)
    qed
    moreover have "slack cost u1 v1 (p (way1 j1)) j1 = 0" using sc j1(1) d1 by (simp add: sl1)
    ultimately show ?thesis by (auto simp: tight_def)
  qed
  moreover have n2: "minv2 j = Some (slack cost u1 v1 (p (way1 j)) j) \<and> (\<forall>k \<in> S. slack cost u1 v1 (p (way1 j)) j \<le> slack cost u1 v1 (p k) j)"
    if j: "j \<in> {1..m} - S" for j
  proof -
    have "way1 j \<in> S" using sc j by blast
    then show ?thesis using near1[OF j] f(3)[OF j] j by (simp add: sl1)
  qed
  moreover have "minv2 j1 = Some 0" using f(3)[OF j1(1)] j1(2) by simp
  ultimately show ?thesis by (auto simp: feasible_def nearest_def)
qed


lemma hangs_leaf:
  assumes "hangs way S S" "way j \<in> S" "j \<notin> S"
  shows "hangs way S (insert j S)"
proof -
  obtain rank :: "nat \<Rightarrow> nat" where r: "\<forall>j \<in> S. j \<noteq> 0 \<longrightarrow> way j \<in> S \<and> rank (way j) < rank j"
    using assms(1) by (auto simp: hangs_def)
  have "way j \<noteq> j" using assms(2,3) by metis
  moreover have "way k \<noteq> j" if "k \<in> S" "k \<noteq> 0" for k using r that assms(3) by metis
  moreover have "k \<noteq> j" if "k \<in> S" for k using that assms(3) by metis
  ultimately have "\<forall>k \<in> insert j S. k \<noteq> 0 \<longrightarrow> way k \<in> S \<and> (rank(j := Suc (rank (way j)))) (way k) < (rank(j := Suc (rank (way j)))) k"
    using r assms(2) by simp
  then show ?thesis unfolding hangs_def by blast
qed

lemma search_finds:
  assumes "waiting m i p" "tree m p minv way {j. used j} j0"
    "rnd = id \<longrightarrow> exact_tree cost m i p u v minv way {j. used j} j0"
  shows "\<exists>j1 u1 v1 way1 S. search rnd cost m p u v minv way used j0 = Some (j1, u1, v1, way1)
    \<and> j1 \<in> {1..m} \<and> p j1 = 0 \<and> S \<subseteq> {0..m} \<and> (\<forall>j \<in> S. p j \<noteq> 0) \<and> hangs way1 S (insert j1 S)
    \<and> (rnd = id \<longrightarrow> feasible cost m {1..i} u1 v1 \<and> balanced cost m p u1 v1 \<and> tight cost p u1 v1 way1 (insert j1 S))"
  using assms(2,3)
proof (induction "card ({0..m} - {j. used j})" arbitrary: used j0 u v minv way rule: less_induct)
  case less
  let ?used = "used(j0 := True)"
  let ?S = "insert j0 {j. used j}"
  obtain minv1 way1 delta j1 where s: "scan rnd cost m u v ?used (p j0) j0 minv way = (minv1, way1, delta, j1)"
    by (metis prod_cases4)
  note sc = scan_step[OF assms(1) less.prems(1) s]
  then obtain d where d: "delta = Some d" by blast
  obtain u1 v1 minv2 where sh: "shift rnd m p ?used d (u, v, minv1) = (u1, v1, minv2)" by (metis prod_cases3)
  have t: "{j. used j} \<subseteq> {0..m}" "j0 \<le> m" "\<not> used j0" "\<forall>j \<in> ?S. p j \<noteq> 0" "?S \<subseteq> {0..m}" "0 \<in> ?S"
    using less.prems(1) by (auto simp: tree_def)
  have S: "{j. ?used j} = ?S" by auto
  have ex: "rnd = id \<longrightarrow> feasible cost m {1..i} u1 v1 \<and> balanced cost m p u1 v1 \<and> tight cost p u1 v1 way1 (insert j1 ?S)
      \<and> nearest cost m p u1 v1 minv2 way1 ?S \<and> minv2 j1 = Some 0"
    using exact_step[OF assms(1) less.prems(1) refl] less.prems(2) s d sh by blast
  have step: "search rnd cost m p u v minv way used j0 =
      (if p j1 = 0 then Some (j1, u1, v1, way1) else search rnd cost m p u1 v1 minv2 way1 ?used j1)"
    by (subst search.simps) (simp add: s d sh)
  have j1: "j1 \<in> {1..m} - ?S" and hang: "hangs way1 ?S ?S" and wj1: "way1 j1 \<in> ?S" using sc by blast+
  show ?case
  proof (cases "p j1 = 0")
    case True
    then have "search rnd cost m p u v minv way used j0 = Some (j1, u1, v1, way1)" using step by simp
    moreover have "hangs way1 ?S (insert j1 ?S)" using hangs_leaf[OF hang wj1] j1 by blast
    ultimately show ?thesis using True j1 t(4,5) ex by blast
  next
    case False
    have up: "?used j \<longleftrightarrow> j \<in> ?S" for j by simp
    have "minv2 j \<noteq> None" if "j \<in> {1..m} - ?S" for j
      using shift_step(3)[OF assms(1) t(5,4) up sh that] sc that by auto
    then have n: "\<forall>j \<in> {1..m} - ?S. if ?S = {} then minv2 j = None else minv2 j \<noteq> None \<and> way1 j \<in> ?S"
      using sc by auto
    have pn: "\<forall>j \<in> insert j1 ?S. p j \<noteq> 0" using t(4) False by simp
    have "j1 \<le> m" "j1 \<notin> ?S" "?S \<noteq> {}" using j1 by auto
    then have c1: "tree m p minv2 way1 {j. ?used j} j1"
      unfolding S tree_def using t(5,6) hang n pn by (intro conjI) metis+
    have c2: "rnd = id \<longrightarrow> exact_tree cost m i p u1 v1 minv2 way1 {j. ?used j} j1"
      unfolding S exact_tree_def using ex by (auto simp: tight_def)
    have c3: "card ({0..m} - {j. ?used j}) < card ({0..m} - {j. used j})"
    proof -
      have "{0..m} - {j. ?used j} = ({0..m} - {j. used j}) - {j0}" unfolding S by blast
      moreover have "j0 \<in> {0..m} - {j. used j}" using t(2,3) by simp
      ultimately show ?thesis using card_Diff1_less[of "{0..m} - {j. used j}" j0] by simp
    qed
    have "search rnd cost m p u v minv way used j0 = search rnd cost m p u1 v1 minv2 way1 ?used j1"
      using step False by simp
    then show ?thesis using less.hyps[OF c3 c1 c2] by (simp only:)
  qed
qed

section \<open>Turning the path round\<close>

text \<open>The rows \<open>1..i\<close> are matched by the columns but \<open>h\<close>.\<close>

definition matched_but :: "nat \<Rightarrow> nat \<Rightarrow> (nat \<Rightarrow> nat) \<Rightarrow> nat \<Rightarrow> bool" where
  "matched_but m i p h \<longleftrightarrow> inj_on p {j. j \<le> m \<and> j \<noteq> h \<and> p j \<noteq> 0} \<and> p ` {j. j \<le> m \<and> j \<noteq> h \<and> p j \<noteq> 0} = {1..i}"

lemma matched_but_move:
  assumes "matched_but m i p h" "k \<le> m" "h \<le> m" "k \<noteq> h" "p k \<noteq> 0"
  shows "matched_but m i (p(h := p k)) k"
proof -
  let ?A = "{j. j \<le> m \<and> j \<noteq> h \<and> p j \<noteq> 0}"
  have A: "{j. j \<le> m \<and> j \<noteq> k \<and> (p(h := p k)) j \<noteq> 0} = insert h (?A - {k})" using assms(2-5) by auto
  have k: "k \<in> ?A" using assms(2,4,5) by simp
  have inj: "inj_on p ?A" using assms(1) by (simp add: matched_but_def)
  have "p j \<noteq> p k" if "j \<in> ?A - {k}" for j using inj k that by (auto simp: inj_on_def)
  then have "p k \<notin> p ` (?A - {k})" by force
  moreover have "(p(h := p k)) ` (?A - {k}) = p ` (?A - {k})" by (intro image_cong) auto
  moreover have "inj_on (p(h := p k)) (?A - {k})" using inj by (auto simp: inj_on_def)
  moreover have "?A - {k} - {h} = ?A - {k}" by auto
  ultimately have "inj_on (p(h := p k)) (insert h (?A - {k}))" by (simp only: inj_on_insert fun_upd_same simp_thms)
  moreover have "(p(h := p k)) ` insert h (?A - {k}) = p ` ?A" using k by (auto simp: image_iff)
  ultimately show ?thesis using assms(1) unfolding matched_but_def A by metis
qed

lemma augment_turns:
  fixes rank :: "nat \<Rightarrow> nat"
  assumes "\<forall>j \<in> insert j1 S. j \<noteq> 0 \<longrightarrow> way j \<in> S \<and> rank (way j) < rank j"
    "S \<subseteq> {0..m}" "\<forall>j \<in> S. p0 j \<noteq> 0" "j1 \<le> m"
    "h \<in> insert j1 S" "\<forall>j \<in> S. rank j < rank h \<longrightarrow> p j = p0 j" "matched_but m i p h"
  shows "\<exists>p'. augment way p h = Some p' \<and> matched_but m i p' 0 \<and> (\<forall>j \<in> {1..m}. p' j = 0 \<longrightarrow> p j = 0)
    \<and> (\<forall>P. (\<forall>j \<in> {1..m}. j \<noteq> h \<longrightarrow> p j \<noteq> 0 \<longrightarrow> P (p j) j) \<longrightarrow> (\<forall>j \<in> insert j1 S. j \<noteq> 0 \<longrightarrow> P (p0 (way j)) j)
        \<longrightarrow> (\<forall>j \<in> {1..m}. p' j \<noteq> 0 \<longrightarrow> P (p' j) j))"
  using assms(5-7)
proof (induction "rank h" arbitrary: h p rule: less_induct)
  case less
  show ?case
  proof (cases "h = 0")
    case True
    have "augment way p h = Some p" using True by (subst augment.simps) simp
    then show ?thesis using less.prems(3) True by auto
  next
    case False
    let ?k = "way h"
    let ?p = "p(h := p ?k)"
    have k: "?k \<in> S" "rank ?k < rank h" using assms(1) less.prems(1) False by auto
    have pk: "p ?k = p0 ?k" "p ?k \<noteq> 0" using less.prems(2) k assms(3) by auto
    have h: "h \<le> m" "?k \<le> m" "?k \<noteq> h" using less.prems(1) assms(2,4) k by auto
    have m: "matched_but m i ?p ?k" using matched_but_move[OF less.prems(3) h(2,1,3) pk(2)] .
    have ag: "\<forall>j \<in> S. rank j < rank ?k \<longrightarrow> ?p j = p0 j" using less.prems(2) k(2) by auto
    obtain p' where p': "augment way ?p ?k = Some p'" "matched_but m i p' 0" "\<forall>j \<in> {1..m}. p' j = 0 \<longrightarrow> ?p j = 0"
      "\<forall>P. (\<forall>j \<in> {1..m}. j \<noteq> ?k \<longrightarrow> ?p j \<noteq> 0 \<longrightarrow> P (?p j) j) \<longrightarrow> (\<forall>j \<in> insert j1 S. j \<noteq> 0 \<longrightarrow> P (p0 (way j)) j)
        \<longrightarrow> (\<forall>j \<in> {1..m}. p' j \<noteq> 0 \<longrightarrow> P (p' j) j)"
      using less.hyps[OF k(2) _ ag m] k(1) by blast
    have "augment way p h = Some p'" using False p'(1) by (subst augment.simps) simp
    moreover have "\<forall>j \<in> {1..m}. p' j = 0 \<longrightarrow> p j = 0" using p'(3) pk(2) by (metis fun_upd_apply)
    moreover have "\<forall>j \<in> {1..m}. p' j \<noteq> 0 \<longrightarrow> P (p' j) j"
      if "\<forall>j \<in> {1..m}. j \<noteq> h \<longrightarrow> p j \<noteq> 0 \<longrightarrow> P (p j) j" "\<forall>j \<in> insert j1 S. j \<noteq> 0 \<longrightarrow> P (p0 (way j)) j" for P
    proof -
      have "P (p ?k) h" using that(2) less.prems(1) False pk(1) by auto
      then have "\<forall>j \<in> {1..m}. j \<noteq> ?k \<longrightarrow> ?p j \<noteq> 0 \<longrightarrow> P (?p j) j" using that(1) by simp
      then show ?thesis using p'(4) that(2) by blast
    qed
    ultimately show ?thesis using p'(2) by blast
  qed
qed


section \<open>One row after the other\<close>

definition solved :: "(rat \<Rightarrow> rat) \<Rightarrow> rat list list \<Rightarrow> nat \<Rightarrow> nat \<Rightarrow> solver \<Rightarrow> bool" where
  "solved rnd cost m i s \<longleftrightarrow>
    (case s of (u, v, p, way) \<Rightarrow> matched_but m i p 0
       \<and> (rnd = id \<longrightarrow> feasible cost m {1..i} u v \<and> balanced cost m p u v))"

lemma matched_but_0: "{j. j \<le> (m :: nat) \<and> j \<noteq> 0 \<and> p j \<noteq> 0} = {j \<in> {1..m}. p j \<noteq> (0 :: nat)}"
  by auto

lemma waiting_start:
  assumes "matched_but m i p 0" "i < m"
  shows "waiting m (Suc i) (p(0 := Suc i))"
proof -
  let ?A = "{j \<in> {1..m}. p j \<noteq> 0}" and ?q = "p(0 := Suc i)"
  have a: "inj_on p ?A" "p ` ?A = {1..i}" using assms(1) by (simp_all only: matched_but_def matched_but_0)
  have q: "{j. j \<le> m \<and> ?q j \<noteq> 0} = insert 0 ?A" by auto
  have eq: "?q ` ?A = p ` ?A" by (intro image_cong) auto
  have "inj_on ?q ?A" using a(1) by (auto simp: inj_on_def)
  moreover have "?q 0 \<notin> ?q ` (?A - {0})" using a(2) by auto
  ultimately have inj: "inj_on ?q {j. j \<le> m \<and> ?q j \<noteq> 0}" unfolding q inj_on_insert by blast
  have le: "?q j \<le> Suc i" if "j \<le> m" for j
  proof (cases "j = 0 \<or> p j = 0")
    case False
    then have "p j \<in> {1..i}" using a(2) that by auto
    then show ?thesis using False by simp
  qed auto
  have "card ?A = i" using card_image[OF a(1)] a(2) by simp
  then have "?A \<noteq> {1..m}" using assms(2) by auto
  then have "\<exists>j \<in> {1..m}. ?q j = 0" by auto
  then show ?thesis using inj le by (simp add: waiting_def)
qed

lemma add_row_solved:
  assumes "solved rnd cost m i s" "i < m"
  shows "\<exists>s'. add_row rnd cost m (Suc i) s = Some s' \<and> solved rnd cost m (Suc i) s'"
proof -
  obtain u v p way where s: "s = (u, v, p, way)" by (metis prod_cases4)
  have p: "matched_but m i p 0" and ex: "rnd = id \<longrightarrow> feasible cost m {1..i} u v \<and> balanced cost m p u v"
    using assms(1) by (simp_all add: solved_def s)
  let ?q = "p(0 := Suc i)"
  have w: "waiting m (Suc i) ?q" using waiting_start[OF p assms(2)] .
  have t: "tree m ?q (\<lambda>_. None) way {j. (\<lambda>_. False) j} 0" by (simp add: tree_def hangs_def)
  have e: "rnd = id \<longrightarrow> exact_tree cost m (Suc i) ?q u v (\<lambda>_. None) way {j. (\<lambda>_. False) j} 0"
    using ex by (auto simp: exact_tree_def balanced_def tight_def feasible_def)
  obtain j1 u1 v1 way1 S where f: "search rnd cost m ?q u v (\<lambda>_. None) way (\<lambda>_. False) 0 = Some (j1, u1, v1, way1)"
    "j1 \<in> {1..m}" "?q j1 = 0" "S \<subseteq> {0..m}" "\<forall>j \<in> S. ?q j \<noteq> 0" "hangs way1 S (insert j1 S)"
    "rnd = id \<longrightarrow> feasible cost m {1..Suc i} u1 v1 \<and> balanced cost m ?q u1 v1 \<and> tight cost ?q u1 v1 way1 (insert j1 S)"
    using search_finds[OF w t e] by blast
  obtain rank :: "nat \<Rightarrow> nat" where r: "\<forall>j \<in> insert j1 S. j \<noteq> 0 \<longrightarrow> way1 j \<in> S \<and> rank (way1 j) < rank j"
    using f(6) by (auto simp: hangs_def)
  have A: "{j. j \<le> m \<and> j \<noteq> j1 \<and> ?q j \<noteq> 0} = insert 0 {j \<in> {1..m}. p j \<noteq> 0}"
  proof -
    have "j1 \<noteq> 0" using f(2) by simp
    moreover from this have "p j1 = 0" using f(3) by simp
    ultimately show ?thesis by auto
  qed
  have A2: "{j. j \<le> m \<and> j \<noteq> j1 \<and> ?q j \<noteq> 0} = {j. j \<le> m \<and> ?q j \<noteq> 0}" using f(2,3) by (auto split: if_splits)
  have "inj_on ?q {j. j \<le> m \<and> j \<noteq> j1 \<and> ?q j \<noteq> 0}" unfolding A2 using w by (simp add: waiting_def)
  moreover have "?q ` insert 0 {j \<in> {1..m}. p j \<noteq> 0} = {1..Suc i}"
  proof -
    have "?q ` {j \<in> {1..m}. p j \<noteq> 0} = p ` {j \<in> {1..m}. p j \<noteq> 0}" by (intro image_cong) auto
    also have "\<dots> = {1..i}" using p by (simp only: matched_but_def matched_but_0)
    finally have "?q ` insert 0 {j \<in> {1..m}. p j \<noteq> 0} = insert (Suc i) {1..i}" by (simp only: image_insert fun_upd_same)
    then show ?thesis by (simp only:) auto
  qed
  ultimately have mb: "matched_but m (Suc i) ?q j1" unfolding matched_but_def A by blast
  have j1: "j1 \<le> m" using f(2) by simp
  obtain p' where p': "augment way1 ?q j1 = Some p'" "matched_but m (Suc i) p' 0" "\<forall>j \<in> {1..m}. p' j = 0 \<longrightarrow> ?q j = 0"
    "\<forall>P. (\<forall>j \<in> {1..m}. j \<noteq> j1 \<longrightarrow> ?q j \<noteq> 0 \<longrightarrow> P (?q j) j) \<longrightarrow> (\<forall>j \<in> insert j1 S. j \<noteq> 0 \<longrightarrow> P (?q (way1 j)) j)
        \<longrightarrow> (\<forall>j \<in> {1..m}. p' j \<noteq> 0 \<longrightarrow> P (p' j) j)"
    using augment_turns[OF r f(4,5) j1 _ _ mb] by blast
  have "balanced cost m p' u1 v1" if "rnd = id"
  proof -
    have b: "balanced cost m ?q u1 v1" "tight cost ?q u1 v1 way1 (insert j1 S)" using f(7) that by blast+
    have "\<forall>j \<in> {1..m}. p' j \<noteq> 0 \<longrightarrow> slack cost u1 v1 (p' j) j = 0"
      by (rule p'(4)[THEN spec, of "\<lambda>a j. slack cost u1 v1 a j = 0", THEN mp, THEN mp])
        (use b[unfolded balanced_def tight_def] in blast)+
    then show ?thesis using b(1) p'(3) by (auto simp: balanced_def)
  qed
  then have "solved rnd cost m (Suc i) (u1, v1, p', way1)" using p'(2) f(7) by (simp add: solved_def)
  moreover have "add_row rnd cost m (Suc i) s = Some (u1, v1, p', way1)"
    using f(1) p'(1) by (simp add: add_row_def s Let_def)
  ultimately show ?thesis by blast
qed

lemma add_rows_solved:
  assumes "solved rnd cost m i s" "i + k \<le> m"
  shows "\<exists>s'. add_rows rnd cost m [Suc i..<Suc (i + k)] s = Some s' \<and> solved rnd cost m (i + k) s'"
  using assms
proof (induction k arbitrary: i s)
  case 0 then show ?case by simp
next
  case (Suc k)
  obtain s' where s': "add_row rnd cost m (Suc i) s = Some s'" "solved rnd cost m (Suc i) s'"
    using add_row_solved[OF Suc.prems(1)] Suc.prems(2) by auto
  have "[Suc i..<Suc (i + Suc k)] = Suc i # [Suc (Suc i)..<Suc (Suc i + k)]" by (simp add: upt_conv_Cons)
  then show ?case using Suc.IH[OF s'(2)] Suc.prems(2) s'(1) by simp
qed

section \<open>The answer\<close>

lemma read_off_fold:
  fixes p :: "nat \<Rightarrow> nat"
  assumes "distinct js" "\<forall>j \<in> set js. p j \<le> n" "inj_on p {j \<in> set js. 0 < p j}" "length out0 = n"
  shows "length (fold (\<lambda>j out. if 0 < p j then out[p j - 1 := f j] else out) js out0) = n
    \<and> (\<forall>j \<in> set js. 0 < p j \<longrightarrow> fold (\<lambda>j out. if 0 < p j then out[p j - 1 := f j] else out) js out0 ! (p j - 1) = f j)
    \<and> (\<forall>a. (\<forall>j \<in> set js. p j \<noteq> Suc a) \<longrightarrow> fold (\<lambda>j out. if 0 < p j then out[p j - 1 := f j] else out) js out0 ! a = out0 ! a)"
  using assms
proof (induction js arbitrary: out0)
  case Nil then show ?case by simp
next
  case (Cons x js)
  let ?out = "if 0 < p x then out0[p x - 1 := f x] else out0"
  have inj: "inj_on p {j \<in> set js. 0 < p j}" using Cons.prems(3) by (auto simp: inj_on_def)
  note IH = Cons.IH[of ?out, OF _ _ inj]
  have IH1: "length (fold (\<lambda>j out. if 0 < p j then out[p j - 1 := f j] else out) js ?out) = n"
    "\<forall>j \<in> set js. 0 < p j \<longrightarrow> fold (\<lambda>j out. if 0 < p j then out[p j - 1 := f j] else out) js ?out ! (p j - 1) = f j"
    "\<forall>a. (\<forall>j \<in> set js. p j \<noteq> Suc a) \<longrightarrow> fold (\<lambda>j out. if 0 < p j then out[p j - 1 := f j] else out) js ?out ! a = ?out ! a"
    using IH Cons.prems(1,2,4) by auto
  have "fold (\<lambda>j out. if 0 < p j then out[p j - 1 := f j] else out) js ?out ! (p x - 1) = f x" if "0 < p x"
  proof -
    have "p j \<noteq> Suc (p x - 1)" if "j \<in> set js" for j
      using Cons.prems(1,3) \<open>0 < p x\<close> that by (auto simp: inj_on_def)
    then have "fold (\<lambda>j out. if 0 < p j then out[p j - 1 := f j] else out) js ?out ! (p x - 1) = ?out ! (p x - 1)"
      using IH1(3) by blast
    moreover have "p x - 1 < length out0" using Cons.prems(2,4) that by auto
    ultimately show ?thesis using that by simp
  qed
  moreover have "?out ! a = out0 ! a" if "p x \<noteq> Suc a" for a using that by (cases "p x") auto
  ultimately show ?case using IH1 by auto
qed


text \<open>An assignment of \<open>n\<close> rows to \<open>m\<close> columns: no column twice, and as many rows assigned as can be.\<close>

definition is_assignment :: "nat \<Rightarrow> nat \<Rightarrow> int list \<Rightarrow> bool" where
  "is_assignment n m out \<longleftrightarrow>
     length out = n \<and> (\<forall>i < n. - 1 \<le> out ! i \<and> out ! i < int m)
   \<and> (\<forall>i < n. \<forall>k < n. i \<noteq> k \<longrightarrow> 0 \<le> out ! i \<longrightarrow> out ! i \<noteq> out ! k)
   \<and> card {i. i < n \<and> 0 \<le> out ! i} = min n m"

definition total_cost :: "rat list list \<Rightarrow> int list \<Rightarrow> rat" where
  "total_cost cost out = (\<Sum>i < length out. if 0 \<le> out ! i then cost ! i ! nat (out ! i) else 0)"

lemma hungarian_matches:
  assumes "n \<le> m"
  shows "\<exists>u v p way out. hungarian rnd cost n m = Some out \<and> length out = n
    \<and> (\<forall>a < n. \<exists>j \<in> {1..m}. p j = Suc a \<and> out ! a = int (j - 1))
    \<and> solved rnd cost m n (u, v, p, way)"
proof -
  have "solved rnd cost m 0 (\<lambda>_. 0, \<lambda>_. 0, \<lambda>_. 0, \<lambda>_. 0)"
    by (simp add: solved_def matched_but_def feasible_def balanced_def)
  from add_rows_solved[OF this, of n] assms obtain s where
    s: "add_rows rnd cost m [1..<n + 1] (\<lambda>_. 0, \<lambda>_. 0, \<lambda>_. 0, \<lambda>_. 0) = Some s" "solved rnd cost m n s" by auto
  obtain u v p way where uv: "s = (u, v, p, way)" by (metis prod_cases4)
  let ?out = "read_off n m p"
  have p: "inj_on p {j \<in> {1..m}. p j \<noteq> 0}" "p ` {j \<in> {1..m}. p j \<noteq> 0} = {1..n}"
    using s(2) by (simp_all only: uv solved_def prod.case matched_but_def matched_but_0)
  have js: "set [1..<m + 1] = {1..m}" by auto
  have le: "\<forall>j \<in> set [1..<m + 1]. p j \<le> n"
  proof
    fix j assume j: "j \<in> set [1..<m + 1]"
    show "p j \<le> n"
    proof (cases "p j = 0")
      case False
      then have "p j \<in> {1..n}" using j p(2) unfolding js by blast
      then show ?thesis by simp
    qed simp
  qed
  have inj: "inj_on p {j \<in> set [1..<m + 1]. 0 < p j}" using p(1) unfolding js by (simp only: neq0_conv)
  note r = read_off_fold[OF distinct_upt le inj, of "replicate n (- 1)" "\<lambda>j. int (j - 1)", folded read_off_def]
  have "\<exists>j \<in> {1..m}. p j = Suc a \<and> ?out ! a = int (j - 1)" if "a < n" for a
  proof -
    have "Suc a \<in> p ` {j \<in> {1..m}. p j \<noteq> 0}" using that unfolding p(2) by simp
    then obtain j where j: "j \<in> {1..m}" "p j = Suc a" by auto
    then have "?out ! (p j - 1) = int (j - 1)" using r js by (metis length_replicate zero_less_Suc)
    then show ?thesis using j by auto
  qed
  moreover have "length ?out = n" using r by simp
  ultimately show ?thesis using s uv by (auto simp: hungarian_def intro!: exI)
qed

text \<open>The rows of a square of the matching cost no more than those of any other.\<close>

lemma solved_cheapest:
  fixes sg sg0 :: "nat \<Rightarrow> nat"
  assumes s: "solved id cost m n (u, v, p, way)"
    and p: "\<forall>a < n. sg0 a < m \<and> p (Suc (sg0 a)) = Suc a"
    and sg: "\<forall>a < n. sg a < m" "inj_on sg {..<n}"
  shows "(\<Sum>a < n. cost ! a ! sg0 a) \<le> (\<Sum>a < n. cost ! a ! sg a)"
proof -
  have f: "\<forall>a \<in> {1..n}. \<forall>j \<in> {1..m}. 0 \<le> slack cost u v a j"
    "\<forall>j \<in> {1..m}. (p j \<noteq> 0 \<longrightarrow> slack cost u v (p j) j = 0) \<and> v j \<le> 0 \<and> (p j = 0 \<longrightarrow> v j = 0)"
    using s by (simp_all add: solved_def feasible_def balanced_def)
  have mb: "inj_on p {j \<in> {1..m}. p j \<noteq> 0}" "p ` {j \<in> {1..m}. p j \<noteq> 0} = {1..n}"
    using s by (simp_all only: solved_def prod.case matched_but_def matched_but_0)
  have inj0: "inj_on sg0 {..<n}"
  proof (rule inj_onI)
    fix a b assume "a \<in> {..<n}" "b \<in> {..<n}" "sg0 a = sg0 b"
    then show "a = b" using p by (metis Suc_inject lessThan_iff)
  qed
  have cols: "(\<lambda>a. Suc (sg0 a)) ` {..<n} = {j \<in> {1..m}. p j \<noteq> 0}"
  proof
    show "(\<lambda>a. Suc (sg0 a)) ` {..<n} \<subseteq> {j \<in> {1..m}. p j \<noteq> 0}" using p by auto
    show "{j \<in> {1..m}. p j \<noteq> 0} \<subseteq> (\<lambda>a. Suc (sg0 a)) ` {..<n}"
    proof
      fix j assume j: "j \<in> {j \<in> {1..m}. p j \<noteq> 0}"
      then have "p j \<in> {1..n}" using mb(2) by blast
      then obtain a where a: "p j = Suc a" "a < n" by (metis Suc_le_lessD Suc_pred' atLeastAtMost_iff less_le_trans zero_less_one)
      then have "Suc (sg0 a) = j" using p mb(1) j by (auto simp: inj_on_def)
      then show "j \<in> (\<lambda>a. Suc (sg0 a)) ` {..<n}" using a(2) by auto
    qed
  qed
  have "(\<Sum>a < n. v (Suc (sg0 a))) = (\<Sum>j \<in> {j \<in> {1..m}. p j \<noteq> 0}. v j)"
    unfolding cols[symmetric] using inj0 by (subst sum.reindex) (auto simp: inj_on_def)
  also have "\<dots> = (\<Sum>j \<in> {1..m}. v j)" using f(2) by (intro sum.mono_neutral_left) auto
  also have "\<dots> \<le> (\<Sum>j \<in> (\<lambda>a. Suc (sg a)) ` {..<n}. v j)"
  proof -
    have "(\<lambda>a. Suc (sg a)) ` {..<n} \<subseteq> {1..m}" using sg(1) by auto
    then have "(\<Sum>j \<in> {1..m}. v j) = (\<Sum>j \<in> {1..m} - (\<lambda>a. Suc (sg a)) ` {..<n}. v j) + (\<Sum>j \<in> (\<lambda>a. Suc (sg a)) ` {..<n}. v j)"
      by (intro sum.subset_diff) auto
    moreover have "(\<Sum>j \<in> {1..m} - (\<lambda>a. Suc (sg a)) ` {..<n}. v j) \<le> 0" using f(2) by (intro sum_nonpos) auto
    ultimately show ?thesis by linarith
  qed
  also have "\<dots> = (\<Sum>a < n. v (Suc (sg a)))" using sg(2) by (subst sum.reindex) (auto simp: inj_on_def)
  finally have v: "(\<Sum>a < n. v (Suc (sg0 a))) \<le> (\<Sum>a < n. v (Suc (sg a)))" .
  have "(\<Sum>a < n. cost ! a ! sg0 a) = (\<Sum>a < n. u (Suc a) + v (Suc (sg0 a)))"
  proof (rule sum.cong)
    fix a assume "a \<in> {..<n}"
    then show "cost ! a ! sg0 a = u (Suc a) + v (Suc (sg0 a))"
      using f(2)[rule_format, of "Suc (sg0 a)"] p by (auto simp: slack_def)
  qed simp
  also have "\<dots> \<le> (\<Sum>a < n. u (Suc a) + v (Suc (sg a)))" using v by (simp add: sum.distrib)
  also have "\<dots> \<le> (\<Sum>a < n. cost ! a ! sg a)"
  proof (rule sum_mono)
    fix a assume "a \<in> {..<n}"
    then show "u (Suc a) + v (Suc (sg a)) \<le> cost ! a ! sg a"
      using f(1)[rule_format, of "Suc a" "Suc (sg a)"] sg(1) by (auto simp: slack_def)
  qed
  finally show ?thesis .
qed


lemma total_cost_columns:
  assumes "length out = n" "\<And>i. i < n \<Longrightarrow> 0 \<le> out ! i \<Longrightarrow> nat (out ! i) < m" "bij_betw sg {..<m} {i. i < n \<and> 0 \<le> out ! i}"
    "\<And>j. j < m \<Longrightarrow> nat (out ! sg j) = j" "\<And>j. j < m \<Longrightarrow> sg j < n"
  shows "total_cost cost out = (\<Sum>j < m. transposed cost n m ! j ! sg j)"
proof -
  have "total_cost cost out = (\<Sum>i \<in> {i. i < n \<and> 0 \<le> out ! i}. cost ! i ! nat (out ! i))"
    unfolding total_cost_def assms(1) by (rule sum.mono_neutral_cong_right) auto
  also have "\<dots> = (\<Sum>j < m. cost ! sg j ! nat (out ! sg j))"
    by (rule sum.reindex_bij_betw[OF assms(3), symmetric])
  also have "\<dots> = (\<Sum>j < m. transposed cost n m ! j ! sg j)"
    using assms(4,5) by (intro sum.cong) (auto simp: transposed_def)
  finally show ?thesis .
qed

lemma assigned_columns:
  assumes "is_assignment n m out" "m < n"
  obtains sg where "bij_betw sg {..<m} {i. i < n \<and> 0 \<le> out ! i}" "\<forall>j < m. nat (out ! sg j) = j \<and> sg j < n"
proof -
  let ?A = "{i. i < n \<and> 0 \<le> out ! i}"
  let ?f = "\<lambda>i. nat (out ! i)"
  have inj: "inj_on ?f ?A"
  proof (rule inj_onI)
    fix i k assume ik: "i \<in> ?A" "k \<in> ?A" "nat (out ! i) = nat (out ! k)"
    then have "out ! i = out ! k" by auto
    then show "i = k" using assms(1) ik unfolding is_assignment_def by blast
  qed
  have "?f ` ?A \<subseteq> {..<m}" using assms(1) by (auto simp: is_assignment_def)
  moreover have "card (?f ` ?A) = card {..<m}" using card_image[OF inj] assms by (simp add: is_assignment_def)
  ultimately have img: "?f ` ?A = {..<m}" by (simp add: card_subset_eq)
  then have b: "bij_betw ?f ?A {..<m}" using inj by (simp add: bij_betw_def)
  have "?f (inv_into ?A ?f j) = j \<and> inv_into ?A ?f j \<in> ?A" if "j < m" for j
    using that img by (metis (no_types, lifting) f_inv_into_f inv_into_into lessThan_iff)
  then show ?thesis using that[OF bij_betw_inv_into[OF b]] by blast
qed

lemma hungarian_rows:
  assumes "n \<le> m" "hungarian rnd cost n m = Some out"
  shows "length out = n" "i < n \<Longrightarrow> 0 \<le> out ! i \<and> out ! i < int m" "inj_on (\<lambda>i. nat (out ! i)) {..<n}"
    "rnd = id \<Longrightarrow> \<forall>a < n. sg a < m \<Longrightarrow> inj_on sg {..<n}
      \<Longrightarrow> (\<Sum>a < n. cost ! a ! nat (out ! a)) \<le> (\<Sum>a < n. cost ! a ! sg a)"
proof -
  obtain u v p way where h: "length out = n" "\<forall>a < n. \<exists>j \<in> {1..m}. p j = Suc a \<and> out ! a = int (j - 1)"
    "solved rnd cost m n (u, v, p, way)"
    using hungarian_matches[OF assms(1)] assms(2) by (metis option.inject)
  have col: "nat (out ! a) < m \<and> 0 \<le> out ! a \<and> p (Suc (nat (out ! a))) = Suc a" if "a < n" for a
  proof -
    obtain j where "j \<in> {1..m}" "p j = Suc a" "out ! a = int (j - 1)" using h(2) \<open>a < n\<close> by blast
    then have "nat (out ! a) = j - 1" "0 \<le> out ! a" "Suc (j - 1) = j" by auto
    with \<open>p j = Suc a\<close> \<open>j \<in> {1..m}\<close> show ?thesis by auto
  qed
  show "length out = n" by (rule h)
  show "i < n \<Longrightarrow> 0 \<le> out ! i \<and> out ! i < int m" using col[of i] by linarith
  show "inj_on (\<lambda>i. nat (out ! i)) {..<n}"
  proof (rule inj_onI)
    fix a b assume "a \<in> {..<n}" "b \<in> {..<n}" "nat (out ! a) = nat (out ! b)"
    then have "Suc a = Suc b" using col[of a] col[of b] by (metis lessThan_iff)
    then show "a = b" by simp
  qed
  show "(\<Sum>a < n. cost ! a ! nat (out ! a)) \<le> (\<Sum>a < n. cost ! a ! sg a)"
    if "rnd = id" "\<forall>a < n. sg a < m" "inj_on sg {..<n}"
    using solved_cheapest[of cost m n u v p way "\<lambda>a. nat (out ! a)" sg] h(3) that col by simp
qed

lemma inverted_entries:
  assumes "length c2r = m" "\<And>j. j < m \<Longrightarrow> 0 \<le> c2r ! j \<and> c2r ! j < int n" "inj_on (\<lambda>j. nat (c2r ! j)) {..<m}"
  shows "length (inverted n c2r) = n" "j < m \<Longrightarrow> inverted n c2r ! nat (c2r ! j) = int j"
    "i < n \<Longrightarrow> (\<And>j. j < m \<Longrightarrow> nat (c2r ! j) \<noteq> i) \<Longrightarrow> inverted n c2r ! i = - 1"
proof -
  let ?p = "\<lambda>j. Suc (nat (c2r ! j))"
  let ?step = "\<lambda>j out. if 0 < ?p j then out[?p j - 1 := int j] else out"
  have "fold (\<lambda>(j, i) out. if 0 \<le> i then out[nat i := int j] else out) (enumerate 0 c2r) out0
      = fold ?step [0..<m] out0" for out0
  proof -
    have "enumerate 0 c2r = map (\<lambda>j. (j, c2r ! j)) [0..<m]" using assms(1) by (auto intro: nth_equalityI simp: nth_enumerate_eq)
    then have "fold (\<lambda>(j, i) out. if 0 \<le> i then out[nat i := int j] else out) (enumerate 0 c2r) out0
        = fold (\<lambda>j out. if 0 \<le> c2r ! j then out[nat (c2r ! j) := int j] else out) [0..<m] out0"
      by (simp add: fold_map comp_def)
    also have "\<dots> = fold ?step [0..<m] out0" using assms(2) by (intro fold_cong) auto
    finally show ?thesis .
  qed
  then have inv: "inverted n c2r = fold ?step [0..<m] (replicate n (- 1))" by (simp add: inverted_def)
  have le: "\<forall>j \<in> set [0..<m]. ?p j \<le> n"
  proof
    fix j assume "j \<in> set [0..<m]"
    then have "0 \<le> c2r ! j \<and> c2r ! j < int n" using assms(2) by simp
    then show "?p j \<le> n" by linarith
  qed
  have inj: "inj_on ?p {j \<in> set [0..<m]. 0 < ?p j}" using assms(3) by (auto simp: inj_on_def)
  note r = read_off_fold[OF distinct_upt le inj, of "replicate n (- 1)" int, folded inv]
  show "length (inverted n c2r) = n" using r by simp
  show "inverted n c2r ! nat (c2r ! j) = int j" if "j < m" using r that by simp
  show "inverted n c2r ! i = - 1" if "i < n" "\<And>j. j < m \<Longrightarrow> nat (c2r ! j) \<noteq> i"
    using r that by simp
qed

text \<open>A matrix with at least as many columns as rows: every row gets its column.\<close>

lemma wide_assigned:
  assumes "n \<le> m" "hungarian rnd cost n m = Some out"
  shows "is_assignment n m out"
    "rnd = id \<Longrightarrow> is_assignment n m other \<Longrightarrow> total_cost cost out \<le> total_cost cost other"
proof -
  note h = hungarian_rows[OF assms]
  have "{i. i < n \<and> 0 \<le> out ! i} = {..<n}" using h(2) by auto
  moreover have "\<forall>i < n. \<forall>k < n. i \<noteq> k \<longrightarrow> out ! i \<noteq> out ! k" using h(3) by (metis inj_on_def lessThan_iff)
  moreover have "\<forall>i < n. - 1 \<le> out ! i \<and> out ! i < int m" using h(2) by force
  ultimately show "is_assignment n m out" using h(1) assms(1) by (simp add: is_assignment_def)
  show "total_cost cost out \<le> total_cost cost other" if "rnd = id" and o: "is_assignment n m other"
  proof -
    let ?A = "{i. i < n \<and> 0 \<le> other ! i}"
    have "card ?A = card {..<n}" "?A \<subseteq> {..<n}" using o assms(1) by (auto simp: is_assignment_def)
    then have all: "?A = {..<n}" by (simp add: card_subset_eq)
    then have ge: "0 \<le> other ! i" if "i < n" for i using that by auto
    have "\<forall>i < n. nat (other ! i) < m"
    proof (intro allI impI)
      fix i assume "i < n"
      then have "other ! i < int m" using o by (simp add: is_assignment_def)
      then show "nat (other ! i) < m" using ge[OF \<open>i < n\<close>] by linarith
    qed
    moreover have "inj_on (\<lambda>i. nat (other ! i)) {..<n}"
    proof (rule inj_onI)
      fix i k assume ik: "i \<in> {..<n}" "k \<in> {..<n}" "nat (other ! i) = nat (other ! k)"
      then have "other ! i = other ! k" using ge[of i] ge[of k] by simp
      then show "i = k" using o ik ge unfolding is_assignment_def by (metis lessThan_iff)
    qed
    ultimately have "(\<Sum>a < n. cost ! a ! nat (out ! a)) \<le> (\<Sum>a < n. cost ! a ! nat (other ! a))"
      by (rule h(4)[OF \<open>rnd = id\<close>])
    moreover have "total_cost cost other = (\<Sum>a < n. cost ! a ! nat (other ! a))"
      unfolding total_cost_def using o ge by (intro sum.cong) (auto simp: is_assignment_def)
    moreover have "total_cost cost out = (\<Sum>a < n. cost ! a ! nat (out ! a))"
      unfolding total_cost_def using h(1,2) by (intro sum.cong) auto
    ultimately show ?thesis by simp
  qed
qed

text \<open>A matrix with more rows than columns: every column gets a row.\<close>

lemma tall_assigned:
  assumes "m < n" "hungarian rnd (transposed cost n m) m n = Some c2r"
  shows "is_assignment n m (inverted n c2r)"
    "rnd = id \<Longrightarrow> is_assignment n m other \<Longrightarrow> total_cost cost (inverted n c2r) \<le> total_cost cost other"
proof -
  let ?out = "inverted n c2r" and ?sg = "\<lambda>j. nat (c2r ! j)"
  have mn: "m \<le> n" using assms(1) by simp
  note h = hungarian_rows[OF mn assms(2)]
  have e: "length ?out = n" "j < m \<Longrightarrow> ?out ! ?sg j = int j" "i < n \<Longrightarrow> (\<And>j. j < m \<Longrightarrow> ?sg j \<noteq> i) \<Longrightarrow> ?out ! i = - 1"
    for i j by (rule inverted_entries[OF h(1) h(2) h(3)]; assumption)+
  have row: "?sg j < n" if "j < m" for j using h(2)[OF that] by linarith
  have entry: "(\<exists>j < m. i = ?sg j \<and> ?out ! i = int j) \<or> (i \<notin> ?sg ` {..<m} \<and> ?out ! i = - 1)" if "i < n" for i
  proof (cases "i \<in> ?sg ` {..<m}")
    case True
    then show ?thesis using e(2) by auto
  next
    case False
    then show ?thesis using e(3)[OF that] by auto
  qed
  have rows: "{i. i < n \<and> 0 \<le> ?out ! i} = ?sg ` {..<m}"
  proof (intro equalityI subsetI)
    fix i assume "i \<in> {i. i < n \<and> 0 \<le> ?out ! i}"
    then show "i \<in> ?sg ` {..<m}" using entry[of i] by auto
  next
    fix i assume "i \<in> ?sg ` {..<m}"
    then show "i \<in> {i. i < n \<and> 0 \<le> ?out ! i}" using row e(2) by auto
  qed
  have "card {i. i < n \<and> 0 \<le> ?out ! i} = m" unfolding rows using card_image[OF h(3)] by simp
  moreover have "\<forall>i < n. - 1 \<le> ?out ! i \<and> ?out ! i < int m"
  proof (intro allI impI)
    fix i assume "i < n"
    then show "- 1 \<le> ?out ! i \<and> ?out ! i < int m" using entry[of i] by auto
  qed
  moreover have "?out ! i \<noteq> ?out ! k" if "i < n" "k < n" "i \<noteq> k" "0 \<le> ?out ! i" for i k
    using entry[OF that(1)] entry[OF that(2)] that(3,4) by auto
  ultimately show "is_assignment n m ?out" using e(1) assms(1) by (simp add: is_assignment_def)
  show "total_cost cost ?out \<le> total_cost cost other" if "rnd = id" and o: "is_assignment n m other"
  proof -
    obtain sg where sg: "bij_betw sg {..<m} {i. i < n \<and> 0 \<le> other ! i}" "\<forall>j < m. nat (other ! sg j) = j \<and> sg j < n"
      by (rule assigned_columns[OF o assms(1)])
    have "length other = n" "\<And>i. i < n \<Longrightarrow> 0 \<le> other ! i \<Longrightarrow> nat (other ! i) < m"
      using o by (auto simp: is_assignment_def)
    then have "total_cost cost other = (\<Sum>j < m. transposed cost n m ! j ! sg j)"
      using sg by (intro total_cost_columns) auto
    moreover have "total_cost cost ?out = (\<Sum>j < m. transposed cost n m ! j ! ?sg j)"
    proof (rule total_cost_columns[OF e(1)])
      show "nat (?out ! i) < m" if "i < n" "0 \<le> ?out ! i" for i using entry[OF that(1)] that(2) by auto
      show "bij_betw ?sg {..<m} {i. i < n \<and> 0 \<le> ?out ! i}" unfolding rows by (simp add: bij_betw_def h(3))
      show "nat (?out ! ?sg j) = j" if "j < m" for j using e(2)[OF that] by simp
      show "?sg j < n" if "j < m" for j by (rule row[OF that])
    qed
    moreover have "(\<Sum>j < m. transposed cost n m ! j ! ?sg j) \<le> (\<Sum>j < m. transposed cost n m ! j ! sg j)"
      using h(4)[OF \<open>rnd = id\<close>] sg by (auto simp: bij_betw_def)
    ultimately show ?thesis by simp
  qed
qed

section \<open>The solver\<close>

text \<open>C28. For every rectangular cost matrix the assignment of files to release tracks ends,
  whichever way its sums are rounded, and gives an assignment: no column twice, and as many rows
  assigned as there are rows and columns for, the others standing at -1.  Where the sums are exact no such
  assignment costs less.\<close>

theorem assign_is_cheapest:
  assumes "\<forall>row \<in> set cost. length row = m"
  shows "\<exists>out. assign rnd cost = Some out \<and> is_assignment (length cost) m out
    \<and> (rnd = id \<longrightarrow> (\<forall>other. is_assignment (length cost) m other \<longrightarrow> total_cost cost out \<le> total_cost cost other))"
proof -
  let ?n = "length cost"
  consider "?n = 0" | "?n \<noteq> 0" "m = 0" | "?n \<noteq> 0" "m \<noteq> 0" "?n \<le> m" | "?n \<noteq> 0" "m \<noteq> 0" "m < ?n" by linarith
  then show ?thesis
  proof cases
    case 1
    then show ?thesis by (simp add: assign_def is_assignment_def total_cost_def)
  next
    case 2
    then have a: "assign rnd cost = Some (replicate ?n (- 1))" using assms by (cases cost) (auto simp: assign_def)
    have "total_cost cost out = 0" if "is_assignment ?n 0 out" for out
      using that unfolding total_cost_def is_assignment_def by (intro sum.neutral) force
    moreover have "is_assignment ?n 0 (replicate ?n (- 1))" by (simp add: is_assignment_def)
    ultimately show ?thesis using a 2 by simp
  next
    case 3
    then have a: "assign rnd cost = hungarian rnd cost ?n m" using assms by (cases cost) (auto simp: assign_def)
    obtain out where "hungarian rnd cost ?n m = Some out" using hungarian_matches[OF 3(3)] by blast
    then show ?thesis using wide_assigned[OF 3(3)] a by (auto intro!: exI[of _ out])
  next
    case 4
    then have a: "assign rnd cost = (case hungarian rnd (transposed cost ?n m) m ?n of
        None \<Rightarrow> None | Some c2r \<Rightarrow> Some (inverted ?n c2r))"
    proof -
      have "hd cost \<in> set cost" using 4(1) by (cases cost) auto
      then show ?thesis using 4 assms by (simp add: assign_def Let_def not_le)
    qed
    obtain c2r where "hungarian rnd (transposed cost ?n m) m ?n = Some c2r"
      using hungarian_matches[of m ?n] 4(3) by (metis less_imp_le)
    then show ?thesis using tall_assigned[OF 4(3)] a by (auto intro!: exI[of _ "inverted ?n c2r"])
  qed
qed

text \<open>Three files, two tracks: taking for each file its nearest track would give both the first.\<close>

definition demo_costs :: "rat list list" where
  "demo_costs = [[1/4, 1/2], [1/8, 1], [3/4, 3/4]]"

lemma demo_assigned: "assign id demo_costs = Some [1, 0, - 1]"
  by code_simp

lemma assign_is_cheapest_witness:
  "assign id demo_costs = Some [1, 0, - 1] \<and> is_assignment 3 2 [1, 0, - 1] \<and> total_cost demo_costs [1, 0, - 1] = 5/8
     \<and> 5/8 \<le> total_cost demo_costs [0, - 1, 1]"
proof -
  have "\<forall>row \<in> set demo_costs. length row = 2" by (simp add: demo_costs_def)
  moreover have n: "length demo_costs = 3" by (simp add: demo_costs_def)
  ultimately have "is_assignment 3 2 [1, 0, - 1]"
    and le: "is_assignment 3 2 [0, - 1, 1] \<longrightarrow> total_cost demo_costs [1, 0, - 1] \<le> total_cost demo_costs [0, - 1, 1]"
    using assign_is_cheapest [of demo_costs 2 id] by (simp_all add: demo_assigned n)
  moreover have "is_assignment 3 2 [0, - 1, 1]"
  proof -
    have "{i. i < 3 \<and> 0 \<le> [0, - 1, 1 :: int] ! i} = {0, 2 :: nat}" by (auto simp: less_Suc_eq numeral_3_eq_3)
    then show ?thesis by (auto simp: is_assignment_def less_Suc_eq numeral_3_eq_3)
  qed
  moreover have "total_cost demo_costs [1, 0, - 1] = 5/8" by (simp add: total_cost_def demo_costs_def lessThan_Suc numeral_3_eq_3)
  ultimately show ?thesis using demo_assigned by auto
qed

end
