(* ===== verification/Spec2Isabelle.thy ===== *)
theory Spec2Isabelle
  imports Connect_Claims Connect_Queue Connect_Moves Connect_Verbs Hub Limiter Castv2 Cron_Next Narrow Stream_Serve Sessions Account_Claims Media_Claims Stream_Mirror Listen_Claims Playback_Claims Match_Assign
begin

text \<open>
  A verification development for the server of WaxDeck (\<^verbatim>\<open>src/server/internal\<close>), a self-hosted
  music, podcast and audiobook server written in Go.  The theories translate the parts of the server
  that decide something -- who plays what where, who may see and fetch what, who is signed in, when
  jobs run, what clients are told changed -- and prove the properties those decisions exist for.

  \<^bold>\<open>The parts of the program and the theories that model them.\<close>

  \<^item> \<^bold>\<open>Shared ground.\<close>  \<open>Prelude\<close> (Go's times and durations as integers of nanoseconds, truncating
    division, the \<open>transition_system\<close> locale with its invariant rule), \<open>Go_Strings\<close> (\<^verbatim>\<open>strings\<close> and
    \<^verbatim>\<open>strconv\<close> on ASCII text), \<open>Calendar\<close> (civil dates, weekdays, zones as a parameter), \<open>Float64\<close>
    (binary64 products and quotients, rounded as Go rounds them).
  \<^item> \<^bold>\<open>Connect\<close> (\<^verbatim>\<open>connect/\<close>): playback sessions that live on the server and move between devices.
    \<open>Registry\<close> is \<^verbatim>\<open>registry.go\<close>; \<open>Positions\<close> is the queue, the slots and the extrapolated positions of
    \<^verbatim>\<open>session.go\<close> and \<^verbatim>\<open>driver.go\<close>; \<open>Service\<close> is the state and the critical sections of \<^verbatim>\<open>service.go\<close>;
    \<open>Commands\<close>, \<open>Bus\<close> and \<open>Reports\<close> are the handlers of \<^verbatim>\<open>service.go\<close> and \<^verbatim>\<open>bus.go\<close>.  \<open>Connect_Steps\<close>
    states one step per critical section (mutexes are released between them, devices and the database
    answer anything), \<open>Connect_Runs\<close> the invariants of runs, \<open>Connect_Handlers\<close> that every handler is a
    run of those steps, and \<open>Connect_Claims\<close>, \<open>Connect_Moves\<close>, \<open>Connect_Queue\<close>, \<open>Connect_Verbs\<close> what
    follows for sessions, transfers, queues and controllers.
  \<^item> \<^bold>\<open>Events hub\<close> (\<^verbatim>\<open>events/hub.go\<close>): \<open>Hub\<close>, marks, coalescing and wakeups towards sockets.
  \<^item> \<^bold>\<open>Cast protocol\<close> (\<^verbatim>\<open>cast/castv2/protocol.go\<close>): \<open>Castv2\<close>, varints, the message body, framing.
  \<^item> \<^bold>\<open>Schedules\<close> (\<^verbatim>\<open>cron/cron.go\<close>): \<open>Cron\<close> (parser and search) and \<open>Cron_Next\<close> (what it finds).
  \<^item> \<^bold>\<open>Content rules and listings\<close> (\<^verbatim>\<open>service/perms.go\<close>, \<^verbatim>\<open>visibility.go\<close>, \<^verbatim>\<open>playlists.go\<close>,
    \<^verbatim>\<open>itemquery.go\<close>): \<open>Perms\<close> and \<open>Narrow\<close>, the same rules asked item by item and compiled to one
    condition of the catalog's query engine.
  \<^item> \<^bold>\<open>Streams\<close> (\<^verbatim>\<open>bridge/flow/\<close>, \<^verbatim>\<open>auth/mediatoken.go\<close>, \<^verbatim>\<open>auth/sharetoken.go\<close>): \<open>Tokens\<close>,
    \<open>Stream_Policy\<close>, \<open>Streaming\<close>, \<open>Stream_Serve\<close>, from the mint of a stream URL to its fetch.
  \<^item> \<^bold>\<open>Sign-in\<close> (\<^verbatim>\<open>auth/\<close>, \<^verbatim>\<open>db/sessions.go\<close>, \<^verbatim>\<open>db/users.go\<close>, \<^verbatim>\<open>db/invites.go\<close>,
    \<^verbatim>\<open>service/users.go\<close>, \<^verbatim>\<open>service/signup.go\<close>): \<open>Limiter\<close>, \<open>Passwords\<close>, \<open>Store\<close> (the tables and the
    statements run on them), \<open>Sessions\<close>, \<open>Service_Base\<close> (errors, identifiers), \<open>Accounts\<close>,
    \<open>Account_Runs\<close>, \<open>Account_Delete\<close> (an account deleted; what becomes of its playlists is a parameter)
    and \<open>Account_Claims\<close>.
  \<^item> \<^bold>\<open>Media authorisation\<close> (\<^verbatim>\<open>service/mediaauth.go\<close>, \<^verbatim>\<open>transcodegate.go\<close>, \<^verbatim>\<open>api/mediatokens.go\<close>):
    \<open>Media_Auth\<close>, \<open>Media_Reach\<close> and \<open>Media_Claims\<close>, what a minted URL opens once accounts, sessions
    and rules have moved on.
  \<^item> \<^bold>\<open>The change stream\<close> (\<^verbatim>\<open>service/sync.go\<close>, \<^verbatim>\<open>db/events.go\<close>): how a client's copy of what is
    its own -- play states, preferences, subscriptions, playlists -- is kept current.  \<open>Event_Log\<close> is the
    table of events and the counters beside it; \<open>Sync_Cursors\<close> the cursors a client holds, as text;
    \<open>Server_Sync\<close> a page of the stream, its events hydrated afresh, and what a restore does to it.
    \<open>Stream_Runs\<close> states the runs of the stream (events written, pruned, the log put back to an earlier
    copy, pages read statement by statement in between), \<open>Stream_Pages\<close> what the hydrating loop answers,
    \<open>Stream_Claims\<close> what a client may rely on.  \<open>Stream_Mirror\<close> puts a client and an abstract server that
    appends an event after each change on top of these, and shows that the client, followed from page to
    page, comes to hold what the server holds; it models no further code.
  \<^item> \<^bold>\<open>Play state and listens\<close> (\<^verbatim>\<open>service/playback.go\<close>, \<^verbatim>\<open>db/stamps.go\<close>, \<^verbatim>\<open>db/listens.go\<close>): \<open>Play_State\<close>
    is a user's state of an item as the API answers it; \<open>Playback\<close> the writes -- positions live and
    replayed, played and finished marks, stars, ratings; \<open>Listens\<close> the batches of sessions a client
    reports and the sweep of those left claimed.  \<open>Listen_Claims\<close> and \<open>Playback_Claims\<close> show what they promise.
  \<^item> \<^bold>\<open>Release matching\<close> (\<^verbatim>\<open>match/assign.go\<close>): \<open>Match_Assign\<close>, the Hungarian method that pairs the files of a
    unit with the tracks of a release.

  A definition has the name of the Go function it translates where HOL leaves it free; where two
  receivers share a name, or a handler is cut at its critical sections, the name says which one or
  which section.  A struct is a record whose fields keep the Go names behind a prefix, an enumeration
  a datatype, an error a value of a sum or option type, a map a function or an association list (the
  latter where order, size or duplicates are read), a mutex-guarded section one function from state to
  state.

  \<^bold>\<open>How the parts interact.\<close>  An account row (\<open>Store\<close>) yields the caller (\<open>UserCtx\<close> in \<open>Perms\<close>) every
  listing (\<open>Narrow\<close>) and every fetch (\<open>Media_Auth\<close>) judges by.  \<open>Sessions\<close> signs callers in;
  \<open>PlayInfoForSource\<close> (\<open>Streaming\<close>) mints URLs bound to a session by \<open>MintFor\<close> (\<open>Tokens\<close>);
  \<open>ServeStream\<close> verifies the token, asks \<open>AuthorizeMediaFor\<close> (\<open>Media_Auth\<close>), and asks the gate for a
  slot.  The connect service asks the registry for endpoints and calls devices through drivers, whose
  reports come back as events folded by \<open>Reports\<close>; its pushes and the server's changes reach clients
  through the hub.  Every write of \<open>Playback\<close> and \<open>Listens\<close> appends to the event log (\<open>emitEvent\<close>), from
  which the pages of \<open>Server_Sync\<close> are answered.

  \<^bold>\<open>What the lemma groups show.\<close>

  \<^item> Reachable states: \<open>reachable_sessions\<close>, \<open>old_pump_dropped\<close>, \<open>shutdown_releases\<close> (connect),
    \<open>no_lost_wakeup\<close> (hub), \<open>spellings_are_current\<close> (tag cache), \<open>lookup_answers\<close>, \<open>revoked_stays_out\<close>,
    \<open>rotated_token_dies\<close> (sessions), \<open>reachable_accounts\<close>, \<open>admin_remains\<close> (accounts),
    \<open>timeline_plays_under_current_rules\<close>, \<open>ended_session_serves_nothing\<close>, \<open>gate_counts_slots\<close> (media),
    \<open>stream_misses_nothing\<close>, \<open>refused_when_it_must\<close> (change stream), \<open>guesses_bounded\<close> (limiter),
    \<open>listens_counted_once\<close>, \<open>failed_batch_can_be_retried\<close> (listens).
    Each is over a step relation whose steps are single critical sections or single statements, so
    every interleaving of operations is covered, with two exceptions.  In the runs of the limiter the
    attempts on one key do not overlap (those on different keys do), and the listen batches and sweeps
    run one after another, though any of them may fail, lose the write of an outcome or end with the
    process after some of its rows.
  \<^item> Operations as runs: \<open>handlers_are_runs\<close>, \<open>session_operations_are_runs\<close>,
    \<open>account_operations_are_runs\<close>, \<open>reach_changes_are_bumped\<close> tie the handlers, on every branch and with
    any statement failing, to those step relations.
  \<^item> Two readings that agree: \<open>count_agrees_with_listing\<close> and
    \<open>minted_stream_is_served_as_advertised\<close> compare code that decides the same thing twice.
  \<^item> Replays: \<open>replay_never_rewinds\<close>, \<open>newest_replay_wins\<close>, \<open>undone_mark_stays_undone\<close>, what a device that
    was offline can and cannot change when its queue arrives late.
  \<^item> An algorithm against its specification: \<open>assign_is_cheapest\<close>, \<open>next_is_earliest\<close>.
  \<^item> Operations and formats: transfers, session creation, queues, commands; the cron parser and search;
    cast frames, tokens, password texts and cursors read back as they were made.
  \<^item> Where the code does not keep what it means to keep, the lemma shows a concrete run of it; these
    are the manifest's findings.

  \<^bold>\<open>Interfaces.\<close>  \<open>transition_system\<close> is the locale of every state machine, interpreted on each
  component's step relation in the theory that defines it; the invariants are its \<open>inv_reachable\<close>
  at those interpretations.  \<open>event_source\<close> (\<open>Stream_Runs\<close>) is what a page needs of the log it is read from;
  it is interpreted on the tables of \<open>Event_Log\<close>.

  \<^bold>\<open>Parameters.\<close>  What is not code of the repository, or not decidable from it, is an argument: the
  zone's offsets, random draws, minted identifiers and the clock's readings; the keyed digest of
  tokens, the key derivation \<open>argon\<close>, the hash of session tokens; what a device, a driver or the
  streaming engine answers; the catalog library's reads and writes (records \<open>catalog\<close>, \<open>media_world\<close>, \<open>sync_world\<close>, \<open>playback\<close>) and the
  meaning of its conditions, with the laws the code relies on (\<open>engine_laws\<close>, \<open>catalog_laws\<close>); the order
  a Go map is ranged in and the order an unstable sort gives equal keys; which database statements fail
  (\<open>broken\<close>).  Every theorem with such a hypothesis has a witness at concrete parameters.

  \<^bold>\<open>Bounds and fuel.\<close>  Integers the code keeps at a width are words or carry their range where it
  matters (masks of cron fields, varints, base64 sextets, \<^verbatim>\<open>strconv\<close>'s 64-bit range); durations and
  instants are unbounded integers.  The mask loop of the cron parser and the
  search for the next firing are partial functions, where not returning is a value of its own, and no
  fuel is used: \<open>parse_is_safe\<close> shows that the parser never hangs, \<open>next_finds_first_day\<close> that the
  search returns.  So are the two inner loops of the Hungarian method: \<open>assign_is_cheapest\<close> shows that they
  end however the sums of costs are rounded, and that the assignment is the cheapest where they are exact.  Every other loop is structural recursion or carries its termination proof.

  \<^bold>\<open>Not modelled.\<close>  HTTP routing and the generated request and response types (\<^verbatim>\<open>api/gen.go\<close>,
  \<^verbatim>\<open>api/handlers.go\<close>): glue without state.  The SQL engine: a statement is the function on tables it
  documents, taken as atomic.  The services that mostly forward to the catalog library or to third
  parties (\<^verbatim>\<open>editor.go\<close>, \<^verbatim>\<open>tools.go\<close>, \<^verbatim>\<open>gpodder.go\<close>, providers, importers): their behaviour is that of
  code outside the repository.  The catalog's own feed, snapshot and delta in
  \<^verbatim>\<open>service/sync.go\<close> (its cursors are modelled): they replay the change log of the catalog library.  Of play
  states, the requeue of gpodder shows and the listings of the log; a user's writes to one item exclude each
  other, so each is one step.exclude each
  other, so each is one step.  What becomes of the playlists of a deleted account
  (\<^verbatim>\<open>service/playlisthandover.go\<close>) is a parameter of its deletion.  Of release matching only the assignment,
  not the scores it is asked with. \<^verbatim>\<open>connect/driver.go\<close>, except for the cast
  protocol's messages.  Process start-up (\<^verbatim>\<open>cmd/\<close>).  Rounding of a gain printed as text and fused
  multiply-add are not modelled; a read and the write that depends on it inside one account update are
  taken as one step in the run lemmas, and the finding on stale edits shows what is lost when they are
  not.  Logging and audit rows are left out everywhere.
\<close>

end
